(* ===== verification/Lwip_Prelude.thy ===== *)
theory Lwip_Prelude
  imports Main "HOL-Library.Word"
begin

unbundle bit_operations_syntax

text \<open>
  Shared vocabulary of the development: the fixed-width integers of \<^verbatim>\<open>cc.h\<close>, the error
  codes of \<^verbatim>\<open>err.h\<close>, the ways in which a run of the stack can stop (\<^verbatim>\<open>fault\<close>), and the generic
  lemmas on lists and words that the component theories use.

  The build modelled is the one of \<^verbatim>\<open>include/lwip/lwip/opt.h\<close> with the empty
  \<^verbatim>\<open>lwipopts.h\<close> on a little-endian LP64 host (\<^verbatim>\<open>cc.h\<close>): \<^verbatim>\<open>LWIP_NOASSERT\<close> and
  \<^verbatim>\<open>LWIP_UNIX_EMPTY_ASSERT\<close> are not defined, so \<^verbatim>\<open>LWIP_ASSERT\<close> and \<^verbatim>\<open>LWIP_ERROR\<close> both end the
  process through \<^verbatim>\<open>abort()\<close>; \<^verbatim>\<open>LWIP_DEBUGF\<close>, the statistics macros and the SNMP hooks expand
  to nothing.
\<close>

section \<open>Machine integers\<close>

type_synonym u8 = "8 word"
type_synonym u16 = "16 word"
type_synonym u32 = "32 word"
type_synonym bytes = "u8 list"

section \<open>Error codes and faults\<close>

datatype err_t =
    ERR_OK | ERR_MEM | ERR_BUF | ERR_TIMEOUT | ERR_RTE | ERR_INPROGRESS | ERR_VAL
  | ERR_WOULDBLOCK | ERR_USE | ERR_ISCONN | ERR_CONN_WARN | ERR_ABRT | ERR_RST | ERR_CLSD | ERR_CONN
  | ERR_ARG | ERR_IF

text \<open>
  A run that does not return normally: a failed \<^verbatim>\<open>LWIP_ASSERT\<close> or \<^verbatim>\<open>LWIP_ERROR\<close>
  (\<open>Abort\<close>), a dereference of a NULL or dangling pointer (\<open>Bad_Deref\<close>), or a pointer walk
  that has used up its fuel (\<open>No_Fuel\<close>; the lemmas of each walk say how much is enough), or an
  \<^verbatim>\<open>int\<close> that leaves its 32-bit range (\<open>Signed_Overflow\<close>), or a wait for a semaphore that another thread
  holds (\<open>Blocked\<close>).
\<close>

datatype fault = Abort | Bad_Deref | No_Fuel | Signed_Overflow | Blocked

type_synonym 'a res = "fault + 'a"

definition rbind :: "'a res \<Rightarrow> ('a \<Rightarrow> 'b res) \<Rightarrow> 'b res" where
  "rbind r f = (case r of Inl e \<Rightarrow> Inl e | Inr x \<Rightarrow> f x)"

section \<open>Rule collections\<close>

named_theorems byte_order_simps \<open>bit-level facts about byte-order conversions\<close>
named_theorems heap_simps \<open>field updates of the struct mem heap\<close>
named_theorems pbuf_simps \<open>field updates of the pbuf store\<close>

section \<open>Results\<close>

lemma rbind_Inl [simp]: "rbind (Inl e) f = Inl e"
  by (simp add: rbind_def)

lemma rbind_Inr [simp]: "rbind (Inr x) f = f x"
  by (simp add: rbind_def)

lemma rbind_eq_Inr [simp]: "rbind r f = Inr y \<longleftrightarrow> (\<exists>x. r = Inr x \<and> f x = Inr y)"
  by (cases r) auto

section \<open>Lists\<close>

lemma take_append_list_update [simp]:
  "i < length xs \<Longrightarrow> take i xs @ x # drop (Suc i) xs = xs[i := x]"
  by (simp add: upd_conv_take_nth_drop)

lemma takeWhile_append_stop:
  "\<forall>x \<in> set xs. P x \<Longrightarrow> \<not> P y \<Longrightarrow> takeWhile P (xs @ y # ys) = xs"
  by (induction xs) auto

section \<open>Linked lists\<close>

text \<open>\<open>linked nx p xs\<close>: the NULL-terminated list that starts at address \<open>p\<close> consists of \<open>xs\<close>.\<close>

fun linked :: "(nat \<Rightarrow> nat) \<Rightarrow> nat \<Rightarrow> nat list \<Rightarrow> bool" where
  "linked nx p [] \<longleftrightarrow> p = 0"
| "linked nx p (x # xs) \<longleftrightarrow> p = x \<and> x \<noteq> 0 \<and> linked nx (nx x) xs"

fun lwalk :: "nat \<Rightarrow> (nat \<Rightarrow> nat) \<Rightarrow> nat \<Rightarrow> nat list" where
  "lwalk 0 nx p = []"
| "lwalk (Suc n) nx p = (if p = 0 then [] else p # lwalk n nx (nx p))"

lemma linked_walk: "linked nx p xs \<Longrightarrow> length xs \<le> n \<Longrightarrow> lwalk n nx p = xs"
proof (induction xs arbitrary: p n)
  case Nil
  then show ?case by (cases n) auto
next
  case (Cons x xs)
  then obtain k where "n = Suc k" by (cases n) auto
  with Cons show ?case by auto
qed

lemma linked_cong: "(\<And>x. x \<in> set xs \<Longrightarrow> nx x = nx' x) \<Longrightarrow> linked nx p xs = linked nx' p xs"
proof (induction xs arbitrary: p)
  case (Cons x xs)
  then show ?case by (cases "p = x") auto
qed simp

lemma linked_update [simp]: "x \<notin> set xs \<Longrightarrow> linked (nx(x := v)) p xs = linked nx p xs"
  by (rule linked_cong) auto

lemma linked_unique: "linked nx p xs \<Longrightarrow> linked nx p ys \<Longrightarrow> xs = ys"
proof (induction xs arbitrary: p ys)
  case Nil
  then show ?case by (cases ys) auto
next
  case (Cons x xs)
  then show ?case by (cases ys) auto
qed

lemma linked_nonzero: "linked nx p xs \<Longrightarrow> 0 \<notin> set xs"
  by (induction xs arbitrary: p) auto

lemma linked_suffix: "linked nx p (xs @ y # ys) \<Longrightarrow> linked nx y (y # ys)"
  by (induction xs arbitrary: p) auto

lemma linked_distinct: "linked nx p xs \<Longrightarrow> distinct xs"
proof (induction xs arbitrary: p)
  case (Cons x xs)
  have "x \<notin> set xs"
  proof
    assume "x \<in> set xs"
    then obtain us vs where xs: "xs = us @ x # vs" by (meson split_list)
    with Cons.prems have "linked nx x (x # us @ x # vs)" "linked nx x (x # vs)"
      using linked_suffix [of nx p "x # us" x vs] by auto
    then have "x # us @ x # vs = x # vs" by (rule linked_unique)
    then show False by simp
  qed
  then show ?case using Cons by auto
qed simp

section \<open>Words\<close>

lemma mask_numerals_16:
  "(0xff :: u16) = mask 8" "(0xff00 :: u16) = push_bit 8 (mask 8)"
  by (simp_all add: mask_eq_exp_minus_1)

lemma mask_numerals_32:
  "(0xff :: u32) = mask 8" "(0xff00 :: u32) = push_bit 8 (mask 8)"
  "(0xff0000 :: u32) = push_bit 16 (mask 8)" "(0xff000000 :: u32) = push_bit 24 (mask 8)"
  "(0xffff :: u32) = mask 16" "(0xffff0000 :: u32) = push_bit 16 (mask 16)"
  by (simp_all add: mask_eq_exp_minus_1)

lemma unat_less_256: "unat (b :: u8) < 256"
  using unsigned_less [of b, where ?'a = nat] by simp

lemma unat_less_65536: "unat (w :: u16) < 65536"
  using unsigned_less [of w, where ?'a = nat] by simp

lemma unat_less_2p32: "unat (w :: u32) < 4294967296"
  using unsigned_less [of w, where ?'a = nat] by simp

lemma unat_ucast_widen [simp]:
  "unat (ucast (b :: u8) :: u16) = unat b"
  "unat (ucast (b :: u8) :: u32) = unat b"
  "unat (ucast (w :: u16) :: u32) = unat w"
  using unat_less_256 [of b] unat_less_65536 [of w]
  by (simp_all add: unsigned_ucast_eq take_bit_nat_eq_self)

end
