(* ===== verification/Byte_Order.thy ===== *)
theory Byte_Order
  imports Lwip_Prelude
begin

text \<open>
  \<^verbatim>\<open>src/src/lwip/core/def.c\<close>: conversions between host and network byte order on the
  little-endian host of \<^verbatim>\<open>cc.h\<close>, and the in-memory layout of the host's integers that
  \<^verbatim>\<open>(u8_t *)&x\<close> casts expose.
\<close>

section \<open>Definitions\<close>

definition lwip_htons :: "u16 \<Rightarrow> u16" where
  "lwip_htons n = push_bit 8 (n AND 0xff) OR drop_bit 8 (n AND 0xff00)"

definition lwip_ntohs :: "u16 \<Rightarrow> u16" where
  "lwip_ntohs n = lwip_htons n"

definition lwip_htonl :: "u32 \<Rightarrow> u32" where
  "lwip_htonl n = push_bit 24 (n AND 0xff) OR push_bit 8 (n AND 0xff00)
     OR drop_bit 8 (n AND 0xff0000) OR drop_bit 24 (n AND 0xff000000)"

definition lwip_ntohl :: "u32 \<Rightarrow> u32" where
  "lwip_ntohl n = lwip_htonl n"

text \<open>The bytes of a host integer in address order (little-endian).\<close>

definition host_bytes16 :: "u16 \<Rightarrow> bytes" where
  "host_bytes16 w = [ucast w, ucast (drop_bit 8 w)]"

definition host_bytes32 :: "u32 \<Rightarrow> bytes" where
  "host_bytes32 w =
     [ucast w, ucast (drop_bit 8 w), ucast (drop_bit 16 w), ucast (drop_bit 24 w)]"

text \<open>The u16 a little-endian host loads from two consecutive bytes.\<close>

definition load16 :: "u8 \<Rightarrow> u8 \<Rightarrow> u16" where
  "load16 b0 b1 = ucast b0 OR push_bit 8 (ucast b1)"

text \<open>Network byte order: the most significant byte first.\<close>

definition net_bytes16 :: "u16 \<Rightarrow> bytes" where
  "net_bytes16 w = [ucast (drop_bit 8 w), ucast w]"

definition net_bytes32 :: "u32 \<Rightarrow> bytes" where
  "net_bytes32 w =
     [ucast (drop_bit 24 w), ucast (drop_bit 16 w), ucast (drop_bit 8 w), ucast w]"

section \<open>Bit-level characterisation\<close>

lemma bit_lwip_htons [byte_order_simps]:
  "bit (lwip_htons n) i = (if i < 8 then bit n (8 + i) else i < 16 \<and> bit n (i - 8))"
  unfolding lwip_htons_def mask_numerals_16 by (auto simp: bit_simps)

lemma bit_lwip_htonl [byte_order_simps]:
  "bit (lwip_htonl n) i =
     (if i < 8 then bit n (24 + i) else if i < 16 then bit n (8 + i)
      else if i < 24 then bit n (i - 8) else i < 32 \<and> bit n (i - 24))"
  unfolding lwip_htonl_def mask_numerals_32 by (auto simp: bit_simps)

lemma lwip_htons_involution [simp]: "lwip_htons (lwip_htons n) = n"
  by (rule bit_word_eqI) (auto simp: byte_order_simps)

lemma lwip_htonl_involution [simp]: "lwip_htonl (lwip_htonl n) = n"
  by (rule bit_word_eqI) (auto simp: byte_order_simps)

lemma lwip_htonl_inject [simp]: "lwip_htonl a = lwip_htonl b \<longleftrightarrow> a = b"
  by (metis lwip_htonl_involution)

lemma lwip_htons_ucast_bytes: "load16 b0 b1 = lwip_htons (load16 b1 b0)"
  by (rule bit_word_eqI) (auto simp: load16_def bit_simps byte_order_simps dest: bit_imp_le_length)

lemma host_bytes16_htons: "host_bytes16 (lwip_htons a) = net_bytes16 a"
  by (auto simp: host_bytes16_def net_bytes16_def bit_simps byte_order_simps intro!: bit_word_eqI)

lemma host_bytes32_htonl: "host_bytes32 (lwip_htonl b) = net_bytes32 b"
  by (auto simp: host_bytes32_def net_bytes32_def bit_simps byte_order_simps intro!: bit_word_eqI)

section \<open>Properties\<close>

text \<open>
  Converting to network order and back is the identity at both widths, and storing the
  converted value in the little-endian host's memory lays its bytes out most significant first.
\<close>

theorem byte_order_roundtrip:
  "lwip_ntohs (lwip_htons a) = a \<and> lwip_ntohl (lwip_htonl b) = b \<and>
   host_bytes16 (lwip_htons a) = net_bytes16 a \<and> host_bytes32 (lwip_htonl b) = net_bytes32 b"
  by (simp add: lwip_ntohs_def lwip_ntohl_def host_bytes16_htons host_bytes32_htonl)

end
