(* ===== verification/Netif_Struct.thy ===== *)
theory Netif_Struct
  imports Byte_Order
begin

text \<open>
  The \<^verbatim>\<open>struct netif\<close> of \<^verbatim>\<open>include/lwip/lwip/netif.h\<close> as configured by \<^verbatim>\<open>opt.h\<close> (no DHCP, SNMP,
  IGMP, loopback or callbacks). The function pointers \<^verbatim>\<open>input\<close>, \<^verbatim>\<open>output\<close> and
  \<^verbatim>\<open>linkoutput\<close> and the driver's \<^verbatim>\<open>state\<close> are arguments of the operations that use them; the
  \<^verbatim>\<open>next\<close> link is \<open>nif_next\<close>. The AutoIP client of \<^verbatim>\<open>include/lwip/ipv4/lwip/autoip.h\<close> is reached
  from one interface only: the pointer is an option.
\<close>

datatype autoip_state = AUTOIP_STATE_OFF | AUTOIP_STATE_PROBING | AUTOIP_STATE_ANNOUNCING | AUTOIP_STATE_BOUND

record autoip =
  llipaddr :: u32
  ai_state :: autoip_state
  sent_num :: u8
  ttw :: u16
  lastconflict :: u8
  tried_llipaddr :: u8

record netif =
  nif_next :: nat
  ip_addr :: u32
  netmask :: u32
  gw :: u32
  autoip :: "autoip option"
  mtu :: u16
  hwaddr_len :: u8
  hwaddr :: bytes
  flags :: u8
  if_name :: "char \<times> char"
  if_num :: u8

abbreviation NETIF_FLAG_UP :: u8 where "NETIF_FLAG_UP \<equiv> 0x01"
abbreviation NETIF_FLAG_BROADCAST :: u8 where "NETIF_FLAG_BROADCAST \<equiv> 0x02"
abbreviation NETIF_FLAG_LINK_UP :: u8 where "NETIF_FLAG_LINK_UP \<equiv> 0x10"
abbreviation NETIF_FLAG_ETHARP :: u8 where "NETIF_FLAG_ETHARP \<equiv> 0x20"

end
