(* ===== verification/Ip_Addr.thy ===== *)
theory Ip_Addr
  imports Netif_Struct
begin

text \<open>
  \<^verbatim>\<open>src/src/lwip/core/ipv4/ip_addr.c\<close> and the address macros of
  \<^verbatim>\<open>include/lwip/ipv4/lwip/ip_addr.h\<close>: broadcast and netmask tests, and the conversions
  between dotted text and addresses. Addresses are \<^verbatim>\<open>u32_t\<close> values in network byte order. A C
  string is the list of its characters; reading at its end yields the terminating NUL
  (\<open>peek\<close>).
\<close>

section \<open>Definitions\<close>

abbreviation (input) IPADDR_ANY :: u32 where "IPADDR_ANY \<equiv> 0"
abbreviation (input) IPADDR_BROADCAST :: u32 where "IPADDR_BROADCAST \<equiv> 0xffffffff"
abbreviation (input) IPADDR_NONE :: u32 where "IPADDR_NONE \<equiv> 0xffffffff"

definition ip_addr_netcmp :: "u32 \<Rightarrow> u32 \<Rightarrow> u32 \<Rightarrow> bool" where
  "ip_addr_netcmp a1 a2 m \<longleftrightarrow> a1 AND m = a2 AND m"

definition ip_addr_ismulticast :: "u32 \<Rightarrow> bool" where
  "ip_addr_ismulticast a \<longleftrightarrow> a AND lwip_htonl 0xf0000000 = lwip_htonl 0xe0000000"

definition ip_addr_islinklocal :: "u32 \<Rightarrow> bool" where
  "ip_addr_islinklocal a \<longleftrightarrow> a AND lwip_htonl 0xffff0000 = lwip_htonl 0xa9fe0000"

definition ip4_addr_isbroadcast :: "u32 \<Rightarrow> netif \<Rightarrow> bool" where
  "ip4_addr_isbroadcast addr nif =
     (if NOT addr = IPADDR_ANY \<or> addr = IPADDR_ANY then True
      else if flags nif AND NETIF_FLAG_BROADCAST = 0 then False
      else if addr = ip_addr nif then False
      else if ip_addr_netcmp addr (ip_addr nif) (netmask nif) \<and>
              addr AND NOT (netmask nif) = IPADDR_BROADCAST AND NOT (netmask nif) then True
      else False)"

text \<open>The two loops of \<open>ip4_addr_netmask_valid\<close>, over the probe \<^verbatim>\<open>mask\<close>.\<close>

function first_zero_bit :: "u32 \<Rightarrow> u32 \<Rightarrow> u32" where
  "first_zero_bit nm m =
     (if m = 0 then 0 else if nm AND m = 0 then m else first_zero_bit nm (drop_bit 1 m))"
  by pat_completeness auto

function no_one_below :: "u32 \<Rightarrow> u32 \<Rightarrow> bool" where
  "no_one_below nm m =
     (if m = 0 then True else if nm AND m \<noteq> 0 then False else no_one_below nm (drop_bit 1 m))"
  by pat_completeness auto

lemma unat_drop_bit_less: "m \<noteq> 0 \<Longrightarrow> unat (drop_bit (Suc 0) m) < unat (m :: u32)"
proof -
  assume "m \<noteq> 0"
  then have "0 < unat m" by (simp add: unat_gt_0)
  then show ?thesis by (subst unat_drop_bit_eq) (simp add: drop_bit_eq_div)
qed

termination first_zero_bit
  by (relation "measure (\<lambda>(nm, m). unat m)") (auto simp: unat_drop_bit_less)

termination no_one_below
  by (relation "measure (\<lambda>(nm, m). unat m)") (auto simp: unat_drop_bit_less)

declare first_zero_bit.simps [simp del] no_one_below.simps [simp del]

definition ip4_addr_netmask_valid :: "u32 \<Rightarrow> bool" where
  "ip4_addr_netmask_valid nm =
     (let h = lwip_htonl nm in no_one_below h (first_zero_bit h (push_bit 31 1)))"

text \<open>Character classes of \<^verbatim>\<open>ip_addr.c\<close> (on the \<^verbatim>\<open>u8_t\<close> value of the character).\<close>

definition chr :: "char \<Rightarrow> nat" where
  "chr c = of_char c"

definition in_range :: "nat \<Rightarrow> nat \<Rightarrow> nat \<Rightarrow> bool" where
  "in_range c lo up \<longleftrightarrow> lo \<le> c \<and> c \<le> up"

definition isdigit :: "nat \<Rightarrow> bool" where
  "isdigit c = in_range c 48 57"

definition isxdigit :: "nat \<Rightarrow> bool" where
  "isxdigit c \<longleftrightarrow> isdigit c \<or> in_range c 97 102 \<or> in_range c 65 70"

definition islower :: "nat \<Rightarrow> bool" where
  "islower c = in_range c 97 122"

definition isspace :: "nat \<Rightarrow> bool" where
  "isspace c \<longleftrightarrow> c = 32 \<or> c = 12 \<or> c = 10 \<or> c = 13 \<or> c = 9 \<or> c = 11"

definition peek :: "string \<Rightarrow> nat" where
  "peek s = (case s of [] \<Rightarrow> 0 | c # _ \<Rightarrow> chr c)"

text \<open>The inner digit loop: the value read so far and the rest of the string.\<close>

fun aton_digits :: "u32 \<Rightarrow> u32 \<Rightarrow> string \<Rightarrow> u32 \<times> string" where
  "aton_digits base val [] = (val, [])"
| "aton_digits base val (c # cs) =
     (if isdigit (chr c) then aton_digits base (val * base + of_nat (chr c - 48)) cs
      else if base = 16 \<and> isxdigit (chr c) then
        aton_digits base
          (push_bit 4 val OR of_nat (chr c + 10 - (if islower (chr c) then 97 else 65))) cs
      else (val, c # cs))"

text \<open>The base prefix: \<^verbatim>\<open>0x\<close> is hexadecimal, a leading \<^verbatim>\<open>0\<close> octal.\<close>

definition aton_base :: "string \<Rightarrow> u32 \<times> string" where
  "aton_base s =
     (if peek s = 48 then
        (if peek (tl s) = 120 \<or> peek (tl s) = 88 then (16, tl (tl s)) else (8, tl s))
      else (10, s))"

lemma length_aton_digits: "length (snd (aton_digits b v s)) \<le> length s"
  by (induction b v s rule: aton_digits.induct) auto

lemma length_aton_base: "length (snd (aton_base s)) \<le> length s"
  by (simp add: aton_base_def)

text \<open>
  The outer loop: the parts stored so far, the last value and the rest of the string;
  \<open>None\<close> is \<^verbatim>\<open>return 0\<close>.
\<close>

function aton_parts :: "u32 list \<Rightarrow> string \<Rightarrow> (u32 list \<times> u32 \<times> string) option" where
  "aton_parts pp s =
     (if \<not> isdigit (peek s) then None
      else
        let (base, s1) = aton_base s; (val, s2) = aton_digits base 0 s1 in
        if peek s2 = 46 then
          (if length pp \<ge> 3 then None else aton_parts (pp @ [val]) (tl s2))
        else Some (pp, val, s2))"
  by pat_completeness auto

lemma isdigit_0 [simp]: "\<not> isdigit 0"
  by (simp add: isdigit_def in_range_def)

lemma peek_nonempty: "isdigit (peek s) \<Longrightarrow> s \<noteq> []"
  by (auto simp: peek_def)

lemma aton_parts_decrease:
  assumes "isdigit (peek s)" and "(base, s1) = aton_base s" and "(val, s2) = aton_digits base 0 s1"
  shows "length s2 - Suc 0 < length s"
proof -
  have "length s2 \<le> length s1" using length_aton_digits [of base 0 s1] assms(3) by (metis snd_conv)
  moreover have "length s1 \<le> length s" using length_aton_base [of s] assms(2) by (metis snd_conv)
  moreover have "s \<noteq> []" using assms(1) by (rule peek_nonempty)
  ultimately show ?thesis by (cases s; cases s2) auto
qed

termination aton_parts
  by (relation "measure (\<lambda>(pp, s). length s)") (auto dest: aton_parts_decrease)

declare aton_parts.simps [simp del]

definition ipaddr_aton :: "string \<Rightarrow> u32 option" where
  "ipaddr_aton cp =
     (case aton_parts [] cp of
        None \<Rightarrow> None
      | Some (parts, val, rest) \<Rightarrow>
          if peek rest \<noteq> 0 \<and> \<not> isspace (peek rest) then None
          else
            (case parts of
               [] \<Rightarrow> Some (lwip_htonl val)
             | [p0] \<Rightarrow>
                 if val > 0xffffff then None else Some (lwip_htonl (val OR push_bit 24 p0))
             | [p0, p1] \<Rightarrow>
                 if val > 0xffff then None
                 else Some (lwip_htonl (val OR (push_bit 24 p0 OR push_bit 16 p1)))
             | p0 # p1 # p2 # _ \<Rightarrow>
                 if val > 0xff then None
                 else Some (lwip_htonl
                   (val OR (push_bit 24 p0 OR push_bit 16 p1 OR push_bit 8 p2)))))"

definition ipaddr_addr :: "string \<Rightarrow> u32" where
  "ipaddr_addr cp = (case ipaddr_aton cp of Some a \<Rightarrow> a | None \<Rightarrow> IPADDR_NONE)"

text \<open>
  \<open>ipaddr_ntoa_r\<close>: the digits of one octet in the order \<^verbatim>\<open>inv\<close> collects them, the bounded
  writes into the caller's buffer (a list of \<^verbatim>\<open>buflen\<close> characters), and the loop over the four
  octets. The flag is \<open>False\<close> where the C code returns NULL.
\<close>

fun ntoa_inv :: "nat \<Rightarrow> char list" where
  "ntoa_inv n = char_of (48 + n mod 10) # (if n div 10 = 0 then [] else ntoa_inv (n div 10))"

declare ntoa_inv.simps [simp del]

fun ntoa_write :: "char list \<Rightarrow> char list \<Rightarrow> nat \<Rightarrow> bool \<times> char list \<times> nat" where
  "ntoa_write [] buf len = (True, buf, len)"
| "ntoa_write (c # cs) buf len =
     (if len \<ge> length buf then (False, buf, len)
      else ntoa_write cs (buf[len := c]) (Suc len))"

definition octet_text :: "u8 \<Rightarrow> string" where
  "octet_text b = rev (ntoa_inv (unat b)) @ [CHR ''.'']"

fun ntoa_octets :: "bytes \<Rightarrow> char list \<Rightarrow> nat \<Rightarrow> bool \<times> char list \<times> nat" where
  "ntoa_octets [] buf len = (True, buf, len)"
| "ntoa_octets (b # bs) buf len =
     (case ntoa_write (octet_text b) buf len of
        (False, buf', len') \<Rightarrow> (False, buf', len')
      | (True, buf', len') \<Rightarrow> ntoa_octets bs buf' len')"

definition ipaddr_ntoa_r :: "u32 \<Rightarrow> char list \<Rightarrow> bool \<times> char list" where
  "ipaddr_ntoa_r addr buf =
     (case ntoa_octets (host_bytes32 addr) buf 0 of
        (False, buf', _) \<Rightarrow> (False, buf')
      | (True, buf', len) \<Rightarrow> (True, buf'[len - 1 := CHR 0x00]))"

text \<open>\<open>ipaddr_ntoa\<close> passes its static 16-byte buffer \<^verbatim>\<open>str\<close>.\<close>

definition ipaddr_ntoa :: "u32 \<Rightarrow> char list \<Rightarrow> bool \<times> char list" where
  "ipaddr_ntoa addr str = ipaddr_ntoa_r addr str"

definition c_string :: "char list \<Rightarrow> string" where
  "c_string buf = takeWhile (\<lambda>c. c \<noteq> CHR 0x00) buf"

section \<open>Broadcast addresses\<close>

lemma host_part_all_ones:
  "a AND m = (ip :: u32) AND m \<and> a AND NOT m = NOT m \<longleftrightarrow> a = (ip AND m) OR NOT m"
proof
  assume h: "a AND m = ip AND m \<and> a AND NOT m = NOT m"
  have "a = (a AND m) OR (a AND NOT m)"
    by (rule bit_word_eqI) (auto simp: bit_simps)
  with h show "a = (ip AND m) OR NOT m" by simp
next
  assume "a = (ip AND m) OR NOT m"
  then show "a AND m = ip AND m \<and> a AND NOT m = NOT m"
    by (auto simp: bit_simps intro!: bit_word_eqI)
qed

lemma and_broadcast_mask: "(0xffffffff :: u32) AND x = x"
proof -
  have "(0xffffffff :: u32) = - 1" by simp
  then show ?thesis by (simp only: and.left_neutral)
qed

section \<open>Netmasks\<close>

lemma and_exp_eq_0_iff: "w AND 2 ^ i = (0 :: u32) \<longleftrightarrow> \<not> bit w i"
  using bit_imp_le_length [of w i] by (auto simp: bit_simps bit_eq_iff [where ?'a = u32])

lemma exp_neq_0: "i < 32 \<Longrightarrow> (2 :: u32) ^ i \<noteq> 0"
  by (simp add: bit_simps bit_eq_iff [where ?'a = u32])

lemma drop_bit_1_exp: "Suc i < 32 \<Longrightarrow> drop_bit (Suc 0) (2 ^ Suc i :: u32) = 2 ^ i"
  by (rule bit_word_eqI) (auto simp: bit_simps)

lemma drop_bit_1_one: "drop_bit (Suc 0) (1 :: u32) = 0"
  by simp

lemma no_one_below_exp:
  "i < 32 \<Longrightarrow> no_one_below h (2 ^ i) \<longleftrightarrow> (\<forall>j \<le> i. \<not> bit h j)"
proof (induction i)
  case 0
  then show ?case
    by (subst no_one_below.simps)
      (use and_exp_eq_0_iff [of h 0] in \<open>simp add: no_one_below.simps [of h 0]\<close>)
next
  case (Suc i)
  have "no_one_below h (2 ^ Suc i) \<longleftrightarrow> \<not> bit h (Suc i) \<and> no_one_below h (2 ^ i)"
    using Suc.prems exp_neq_0 [of "Suc i"] and_exp_eq_0_iff [of h "Suc i"] drop_bit_1_exp [of i]
    by (subst no_one_below.simps) (simp del: power_Suc)
  with Suc show ?case by (auto simp: le_Suc_eq)
qed

lemma first_zero_bit_exp:
  "i < 32 \<Longrightarrow>
     no_one_below h (first_zero_bit h (2 ^ i)) \<longleftrightarrow>
     (\<exists>k \<le> Suc i. (\<forall>j \<le> i. bit h j \<longleftrightarrow> k \<le> j))"
proof (induction i)
  case 0
  have "first_zero_bit h 1 = (if bit h 0 then 0 else 1)"
    by (subst first_zero_bit.simps)
      (use and_exp_eq_0_iff [of h 0] in \<open>simp add: first_zero_bit.simps [of h 0]\<close>)
  moreover have "no_one_below h 1 = (\<not> bit h 0)"
    using no_one_below_exp [of 0 h] by simp
  ultimately show ?case
    by (auto simp: no_one_below.simps [of h 0] intro: exI [of _ 0] exI [of _ "Suc 0"])
next
  case (Suc i)
  show ?case
  proof (cases "bit h (Suc i)")
    case True
    then have "first_zero_bit h (2 ^ Suc i) = first_zero_bit h (2 ^ i)"
      using Suc.prems exp_neq_0 [of "Suc i"] and_exp_eq_0_iff [of h "Suc i"] drop_bit_1_exp [of i]
      by (subst first_zero_bit.simps) (simp del: power_Suc)
    with Suc True show ?thesis
      by (auto simp: le_Suc_eq)
  next
    case False
    then have "first_zero_bit h (2 ^ Suc i) = 2 ^ Suc i"
      using Suc.prems exp_neq_0 [of "Suc i"] and_exp_eq_0_iff [of h "Suc i"]
      by (subst first_zero_bit.simps) (simp del: power_Suc)
    moreover have "(\<forall>j \<le> Suc i. \<not> bit h j) \<longleftrightarrow>
        (\<exists>k \<le> Suc (Suc i). \<forall>j \<le> Suc i. bit h j \<longleftrightarrow> k \<le> j)"
      (is "?none \<longleftrightarrow> ?split")
    proof
      assume ?none
      then show ?split by (intro exI [of _ "Suc (Suc i)"]) auto
    next
      assume ?split
      then obtain k where "k \<le> Suc (Suc i)" and k: "\<forall>j \<le> Suc i. bit h j \<longleftrightarrow> k \<le> j" by blast
      moreover have "\<not> k \<le> Suc i" using False k by blast
      ultimately show ?none by auto
    qed
    ultimately show ?thesis using no_one_below_exp [OF Suc.prems, of h] by simp
  qed
qed

lemma bit_not_mask_32: "bit (NOT (mask k) :: u32) j \<longleftrightarrow> k \<le> j \<and> j < 32"
  by (auto simp: bit_simps)

section \<open>Text conversions\<close>

lemma ntoa_write_eq:
  "len + length cs \<le> length buf \<Longrightarrow>
     ntoa_write cs buf len =
       (True, take len buf @ cs @ drop (len + length cs) buf, len + length cs)"
proof (induction cs arbitrary: buf len)
  case Nil
  then show ?case by simp
next
  case (Cons c cs)
  then show ?case
    by (simp add: take_Suc_conv_app_nth take_update_cancel)
qed

lemma ntoa_write_fail:
  "len \<le> length buf \<Longrightarrow> length buf < len + length cs \<Longrightarrow> \<not> fst (ntoa_write cs buf len)"
  by (induction cs arbitrary: buf len) auto

lemma ntoa_octets_eq:
  "len + length (concat (map octet_text bs)) \<le> length buf \<Longrightarrow>
     ntoa_octets bs buf len =
       (True, take len buf @ concat (map octet_text bs) @
          drop (len + length (concat (map octet_text bs))) buf,
        len + length (concat (map octet_text bs)))"
proof (induction bs arbitrary: buf len)
  case Nil
  then show ?case by simp
next
  case (Cons b bs)
  have w: "ntoa_write (octet_text b) buf len =
      (True, take len buf @ octet_text b @ drop (len + length (octet_text b)) buf,
       len + length (octet_text b))"
    using Cons.prems by (intro ntoa_write_eq) simp
  show ?case
    using Cons.prems Cons.IH [of "len + length (octet_text b)"
        "take len buf @ octet_text b @ drop (len + length (octet_text b)) buf"]
    by (simp add: w ac_simps)
qed

lemma ntoa_octets_fail:
  "len \<le> length buf \<Longrightarrow> length buf < len + length (concat (map octet_text bs)) \<Longrightarrow>
     \<not> fst (ntoa_octets bs buf len)"
proof (induction bs arbitrary: buf len)
  case Nil
  then show ?case by simp
next
  case (Cons b bs)
  show ?case
  proof (cases "len + length (octet_text b) \<le> length buf")
    case True
    then show ?thesis
      using Cons.prems Cons.IH [of "len + length (octet_text b)"
          "take len buf @ octet_text b @ drop (len + length (octet_text b)) buf"]
      by (simp add: ntoa_write_eq)
  next
    case False
    then have "\<not> fst (ntoa_write (octet_text b) buf len)"
      using Cons.prems by (intro ntoa_write_fail) auto
    then show ?thesis
      by (auto split: prod.split bool.split)
  qed
qed

text \<open>The decimal text of an octet is one to three digits, without a leading zero unless it is 0.\<close>

lemma ntoa_inv_cases:
  "n < 256 \<Longrightarrow> ntoa_inv n =
     (if n < 10 then [char_of (48 + n)]
      else if n < 100 then [char_of (48 + n mod 10), char_of (48 + n div 10)]
      else [char_of (48 + n mod 10), char_of (48 + n div 10 mod 10), char_of (48 + n div 100)])"
  by (subst ntoa_inv.simps, simp)
    (auto simp: ntoa_inv.simps [of "n div 10"] ntoa_inv.simps [of "n div 10 div 10"] div_mult2_eq)

lemma chr_digit: "d < 10 \<Longrightarrow> chr (char_of (48 + d)) = 48 + d"
  by (simp add: chr_def)

lemma isdigit_digit: "d < 10 \<Longrightarrow> isdigit (48 + d)"
  by (simp add: isdigit_def in_range_def)

lemma aton_digits_stop: "\<not> isdigit (peek rest) \<Longrightarrow> b \<noteq> 16 \<Longrightarrow> aton_digits b v rest = (v, rest)"
  by (cases rest) (auto simp: peek_def)

lemma peek_simps [simp]: "peek [] = 0" "peek (c # cs) = chr c"
  by (simp_all add: peek_def)

definition octet_digits :: "u8 \<Rightarrow> string" where
  "octet_digits b = rev (ntoa_inv (unat b))"

lemma of_nat_3_digits:
  "100 * of_nat (n div 100) + of_nat (n div 10 mod 10) * 10 + of_nat (n mod 10) = (of_nat n :: u32)"
proof -
  have "n div 100 = n div 10 div 10" by (simp flip: div_mult2_eq)
  then have "100 * (n div 100) + n div 10 mod 10 * 10 + n mod 10 = n"
    using div_mult_mod_eq [of n 10] div_mult_mod_eq [of "n div 10" 10] by linarith
  from arg_cong [OF this, of "of_nat :: nat \<Rightarrow> u32"] show ?thesis
    by (simp only: of_nat_add of_nat_mult of_nat_numeral)
qed

lemma of_nat_2_digits: "of_nat (n div 10) * 10 + of_nat (n mod 10) = (of_nat n :: u32)"
proof -
  have "n div 10 * 10 + n mod 10 = n" by presburger
  from arg_cong [OF this, of "of_nat :: nat \<Rightarrow> u32"] show ?thesis
    by (simp only: of_nat_add of_nat_mult of_nat_numeral)
qed

lemma aton_octet:
  assumes "\<not> isdigit (peek rest)" and "peek rest \<noteq> 120" and "peek rest \<noteq> 88"
  shows "isdigit (peek (octet_digits b @ rest)) \<and>
     (case aton_base (octet_digits b @ rest) of (base, s1) \<Rightarrow> aton_digits base 0 s1) = (ucast b, rest)"
proof -
  define n where "n = unat b"
  have n: "n < 256" by (simp add: n_def unat_less_256)
  have b: "(ucast b :: u32) = of_nat n" by (simp add: n_def)
  consider "n = 0" | "0 < n" "n < 10" | "10 \<le> n" "n < 100" | "100 \<le> n" by linarith
  then show ?thesis
  proof cases
    case 1
    then show ?thesis using assms
      by (simp add: octet_digits_def flip: n_def)
        (simp add: b ntoa_inv_cases aton_base_def chr_digit [of 0, simplified] isdigit_def
          in_range_def aton_digits_stop)
  next
    case 2
    then show ?thesis using assms
      by (simp add: octet_digits_def flip: n_def)
        (simp add: b ntoa_inv_cases aton_base_def chr_digit isdigit_digit aton_digits_stop)
  next
    case 3
    then have "0 < n div 10" by auto
    with 3 show ?thesis using assms
      by (simp add: octet_digits_def flip: n_def)
        (simp add: b ntoa_inv_cases aton_base_def chr_digit isdigit_digit aton_digits_stop
          of_nat_2_digits)
  next
    case 4
    then have "0 < n div 100" "n div 100 < 10" using n by auto
    with 4 show ?thesis using assms n
      by (simp add: octet_digits_def flip: n_def)
        (simp add: b ntoa_inv_cases aton_base_def chr_digit isdigit_digit aton_digits_stop
          of_nat_3_digits)
  qed
qed

lemma aton_parts_octet_dot:
  "length pp < 3 \<Longrightarrow>
     aton_parts pp (octet_digits b @ CHR ''.'' # rest) = aton_parts (pp @ [ucast b]) rest"
  using aton_octet [of "CHR ''.'' # rest" b]
  by (subst aton_parts.simps) (auto simp: chr_def isdigit_def in_range_def split: prod.splits)

lemma aton_parts_octet_end:
  "aton_parts pp (octet_digits b) = Some (pp, ucast b, [])"
  using aton_octet [of "[]" b]
  by (subst aton_parts.simps) (auto split: prod.splits)

lemma digits_no_nul: "n < 256 \<Longrightarrow> c \<in> set (ntoa_inv n) \<Longrightarrow> c \<noteq> CHR 0x00"
proof -
  have nul: "d < 10 \<Longrightarrow> char_of (48 + d) \<noteq> CHR 0x00" for d :: nat
  proof
    assume "d < 10" and "char_of (48 + d) = CHR 0x00"
    then have "48 + d = chr (CHR 0x00)" using chr_digit [of d] by simp
    then show False by (simp add: chr_def)
  qed
  have bounds: "n < 100 \<Longrightarrow> n div 10 < 10" "n < 256 \<Longrightarrow> n div 100 < 10" by auto
  assume "n < 256" and "c \<in> set (ntoa_inv n)"
  then show ?thesis using bounds nul [of n] nul [of "n mod 10"] nul [of "n div 10"] nul [of "n div 100"]
      nul [of "n div 10 mod 10"]
    by (auto simp: ntoa_inv_cases split: if_splits)
qed

lemma length_octet_text: "length (octet_text b) \<le> 4"
  using unat_less_256 [of b] by (simp add: octet_text_def ntoa_inv_cases)

lemma octet_text_digits: "octet_text b = octet_digits b @ [CHR ''.'']"
  by (simp add: octet_text_def octet_digits_def)

definition dotted_text :: "u32 \<Rightarrow> string" where
  "dotted_text addr = butlast (concat (map octet_text (host_bytes32 addr)))"

lemma dotted_text_eq:
  "host_bytes32 addr = [b0, b1, b2, b3] \<Longrightarrow>
     dotted_text addr = octet_digits b0 @ CHR ''.'' # octet_digits b1 @ CHR ''.'' #
       octet_digits b2 @ CHR ''.'' # octet_digits b3"
  by (simp add: dotted_text_def octet_text_digits butlast_append)

lemma host_bytes32_eq: "\<exists>b0 b1 b2 b3. host_bytes32 addr = [b0, b1, b2, b3]"
  by (simp add: host_bytes32_def)

lemma concat_octet_text: "concat (map octet_text (host_bytes32 addr)) = dotted_text addr @ [CHR ''.'']"
  using host_bytes32_eq [of addr] by (auto simp: dotted_text_eq octet_text_digits)

lemma dotted_text_no_nul: "c \<in> set (dotted_text addr) \<Longrightarrow> c \<noteq> CHR 0x00"
proof -
  obtain b0 b1 b2 b3 where "host_bytes32 addr = [b0, b1, b2, b3]"
    using host_bytes32_eq by blast
  moreover assume "c \<in> set (dotted_text addr)"
  ultimately show ?thesis
    by (auto simp: dotted_text_eq octet_digits_def dest: digits_no_nul [OF unat_less_256])
qed

lemma ipaddr_ntoa_r_ok:
  assumes "length (dotted_text addr) < length buf"
  shows "ipaddr_ntoa_r addr buf =
     (True, dotted_text addr @ CHR 0x00 # drop (Suc (length (dotted_text addr))) buf)"
proof -
  have "ntoa_octets (host_bytes32 addr) buf 0 =
      (True, dotted_text addr @ [CHR ''.''] @ drop (Suc (length (dotted_text addr))) buf,
       Suc (length (dotted_text addr)))"
    using assms ntoa_octets_eq [of 0 "host_bytes32 addr" buf] by (simp add: concat_octet_text)
  then show ?thesis
    by (simp add: ipaddr_ntoa_r_def list_update_append)
qed

lemma ipaddr_ntoa_r_fail:
  "length buf \<le> length (dotted_text addr) \<Longrightarrow> \<not> fst (ipaddr_ntoa_r addr buf)"
  using ntoa_octets_fail [of 0 buf "host_bytes32 addr"]
  by (auto simp: concat_octet_text ipaddr_ntoa_r_def split: prod.split bool.split)

lemma length_dotted_text: "length (dotted_text addr) \<le> 15"
proof -
  obtain b0 b1 b2 b3 where h: "host_bytes32 addr = [b0, b1, b2, b3]"
    using host_bytes32_eq by blast
  then have "length (dotted_text addr @ [CHR ''.'']) \<le> 16"
    using length_octet_text [of b0] length_octet_text [of b1] length_octet_text [of b2]
      length_octet_text [of b3]
    by (simp flip: concat_octet_text)
  then show ?thesis by simp
qed

lemma octets_join:
  assumes "host_bytes32 addr = [b0, b1, b2, b3]"
  shows "lwip_htonl (ucast b3 OR (push_bit 24 (ucast b0) OR push_bit 16 (ucast b1)
     OR push_bit 8 (ucast b2))) = addr"
  using assms unfolding host_bytes32_def
  by (intro bit_word_eqI) (auto simp: bit_simps byte_order_simps)

lemma aton_dotted_text: "ipaddr_aton (dotted_text addr) = Some addr"
proof -
  obtain b0 b1 b2 b3 where h: "host_bytes32 addr = [b0, b1, b2, b3]"
    using host_bytes32_eq by blast
  have "aton_parts [] (dotted_text addr) = Some ([ucast b0, ucast b1, ucast b2], ucast b3, [])"
    by (simp add: dotted_text_eq [OF h] aton_parts_octet_dot aton_parts_octet_end)
  moreover have "\<not> ucast b3 > (0xff :: u32)"
    using unat_less_256 [of b3] by (simp add: word_less_nat_alt unat_ucast_widen)
  ultimately show ?thesis
    by (simp add: ipaddr_aton_def octets_join [OF h])
qed

text \<open>
  C3. \<^verbatim>\<open>ip4_addr_netmask_valid\<close> accepts exactly the masks that are, in host order, a run of ones
  followed by a run of zeros, i.e. the 33 masks \<open>NOT (mask k)\<close> for \<open>k \<le> 32\<close>.
\<close>

theorem netmask_valid_iff:
  "ip4_addr_netmask_valid nm \<longleftrightarrow> (\<exists>k \<le> 32. lwip_ntohl nm = NOT (mask k))"
proof -
  have "ip4_addr_netmask_valid nm \<longleftrightarrow>
      (\<exists>k \<le> 32. \<forall>j \<le> 31. bit (lwip_htonl nm) j \<longleftrightarrow> k \<le> j)"
    using first_zero_bit_exp [of 31 "lwip_htonl nm"]
    by (simp add: ip4_addr_netmask_valid_def Let_def push_bit_eq_mult)
  also have "\<dots> \<longleftrightarrow> (\<exists>k \<le> 32. lwip_htonl nm = NOT (mask k))"
    by (intro ex_cong1 conj_cong refl)
      (auto simp: bit_not_mask_32 bit_eq_iff [where ?'a = u32] dest: bit_imp_le_length)
  finally show ?thesis by (simp add: lwip_ntohl_def)
qed

text \<open>
  C4. On a broadcast-capable interface an address is a broadcast address exactly when it is
  \<^verbatim>\<open>0.0.0.0\<close>, \<^verbatim>\<open>255.255.255.255\<close>, or the all-ones host address of the interface's
  network, the interface's own address excepted; without that capability only the first two.
\<close>

theorem isbroadcast_iff:
  "ip4_addr_isbroadcast a nif \<longleftrightarrow>
     a = 0 \<or> a = - 1 \<or>
     (flags nif AND NETIF_FLAG_BROADCAST \<noteq> 0 \<and> a \<noteq> ip_addr nif \<and>
      a = (ip_addr nif AND netmask nif) OR NOT (netmask nif))"
proof -
  have "NOT a = 0 \<longleftrightarrow> a = - 1"
    by (metis bit.double_compl bit.compl_zero)
  then show ?thesis
    using host_part_all_ones [of a "netmask nif" "ip_addr nif"]
    by (simp add: ip4_addr_isbroadcast_def ip_addr_netcmp_def and_broadcast_mask)
qed

text \<open>
  Printing an address into a buffer and parsing the resulting C string gives the address
  back. A buffer of 16 bytes (the static buffer of \<^verbatim>\<open>ipaddr_ntoa\<close>) is always big enough, and
  printing fails exactly when the text and its terminating NUL do not fit.
\<close>

theorem ipaddr_text_roundtrip:
  "(fst (ipaddr_ntoa_r addr buf) \<longleftrightarrow>
      length (c_string (snd (ipaddr_ntoa_r addr (replicate 16 CHR 0x00)))) < length buf) \<and>
   (fst (ipaddr_ntoa_r addr buf) \<longrightarrow>
      ipaddr_aton (c_string (snd (ipaddr_ntoa_r addr buf))) = Some addr) \<and>
   (16 \<le> length buf \<longrightarrow> fst (ipaddr_ntoa_r addr buf))"
proof -
  have str: "c_string (snd (ipaddr_ntoa_r addr b)) = dotted_text addr"
    if "length (dotted_text addr) < length b" for b
    using that unfolding c_string_def
    by (simp add: ipaddr_ntoa_r_ok takeWhile_append_stop dotted_text_no_nul)
  have ok: "fst (ipaddr_ntoa_r addr buf) \<longleftrightarrow> length (dotted_text addr) < length buf"
    using ipaddr_ntoa_r_fail [of buf addr] ipaddr_ntoa_r_ok [of addr buf] by (metis fst_conv not_less)
  then show ?thesis
    using length_dotted_text [of addr]
    by (auto simp: str aton_dotted_text)
qed

theorem ipaddr_text_roundtrip_witness:
  "fst (ipaddr_ntoa_r 0x0800A8C0 (replicate 16 CHR ''?'')) \<and>
   ipaddr_aton (c_string (snd (ipaddr_ntoa_r 0x0800A8C0 (replicate 16 CHR ''?'')))) = Some 0x0800A8C0"
  using ipaddr_text_roundtrip [of "0x0800A8C0" "replicate 16 CHR ''?''"] by auto

text \<open>
  The parser bounds only the last part of a dotted address: the leading parts are shifted
  into place without a check that they fit in eight bits. So \<^verbatim>\<open>256.0.0.1\<close> is accepted as
  \<^verbatim>\<open>0.0.0.1\<close> and \<^verbatim>\<open>1.512.0.1\<close> as \<^verbatim>\<open>3.0.0.1\<close>.
\<close>

theorem aton_accepts_out_of_range_octets:
  "ipaddr_aton ''256.0.0.1'' = ipaddr_aton ''0.0.0.1'' \<and> ipaddr_aton ''256.0.0.1'' \<noteq> None \<and>
   ipaddr_aton ''1.512.0.1'' = ipaddr_aton ''3.0.0.1'' \<and> ipaddr_aton ''1.0.0.256'' = None"
  by code_simp

end
