(* ===== verification/Mem_Heap.thy ===== *)
theory Mem_Heap
  imports Lwip_Prelude
begin

text \<open>
  \<^verbatim>\<open>src/src/lwip/core/mem.c\<close>: the first-fit heap behind \<^verbatim>\<open>mem_malloc\<close>, in the configuration of
  \<^verbatim>\<open>opt.h\<close> (\<^verbatim>\<open>MEM_SIZE\<close> 16384, \<^verbatim>\<open>MEM_ALIGNMENT\<close> 1, no pools, no frees from other
  contexts, so \<^verbatim>\<open>mem_size_t\<close> is \<^verbatim>\<open>u16_t\<close> and \<^verbatim>\<open>SIZEOF_STRUCT_MEM\<close> is 6).

  The heap is a doubly linked list of \<^verbatim>\<open>struct mem\<close> headers laid over the array \<^verbatim>\<open>ram\<close>;
  the model keeps the header found at every offset (\<open>hdr\<close>), the address of the array
  (\<open>ram\<close>) and the offset of the lowest free block (\<open>lfree\<close>); the offset of \<^verbatim>\<open>ram_end\<close>
  is \<open>MEM_SIZE\<close>. Pointers are addresses, 0 is NULL. Arithmetic that C does in \<^verbatim>\<open>size_t\<close> or
  truncates to \<^verbatim>\<open>u16_t\<close> is reduced modulo \<open>2 ^ 64\<close> or \<open>2 ^ 16\<close> explicitly. The mutex
  that serialises callers is not part of the state: each operation is one critical section.
\<close>

section \<open>State and operations\<close>

abbreviation MEM_SIZE :: nat where "MEM_SIZE \<equiv> 16384"
abbreviation MIN_SIZE :: nat where "MIN_SIZE \<equiv> 12"
abbreviation SIZEOF_STRUCT_MEM :: nat where "SIZEOF_STRUCT_MEM \<equiv> 6"

record mem_hdr =
  hnext :: nat
  hprev :: nat
  hused :: bool

record mem_heap =
  ram :: nat
  hdr :: "nat \<Rightarrow> mem_hdr"
  lfree :: nat

definition u16_of :: "int \<Rightarrow> nat" where
  "u16_of n = nat (n mod 65536)"

definition size_t_of :: "int \<Rightarrow> nat" where
  "size_t_of n = nat (n mod 18446744073709551616)"

definition set_next :: "nat \<Rightarrow> nat \<Rightarrow> mem_heap \<Rightarrow> mem_heap" where
  "set_next p v s = s\<lparr>hdr := (hdr s)(p := (hdr s p)\<lparr>hnext := v\<rparr>)\<rparr>"

definition set_prev :: "nat \<Rightarrow> nat \<Rightarrow> mem_heap \<Rightarrow> mem_heap" where
  "set_prev p v s = s\<lparr>hdr := (hdr s)(p := (hdr s p)\<lparr>hprev := v\<rparr>)\<rparr>"

definition set_used :: "nat \<Rightarrow> bool \<Rightarrow> mem_heap \<Rightarrow> mem_heap" where
  "set_used p v s = s\<lparr>hdr := (hdr s)(p := (hdr s p)\<lparr>hused := v\<rparr>)\<rparr>"

text \<open>
  \<open>mem_init\<close> on a heap array at address \<open>a\<close>; headers other than the first and the last keep
  whatever the array holds.
\<close>

definition mem_init :: "nat \<Rightarrow> (nat \<Rightarrow> mem_hdr) \<Rightarrow> mem_heap" where
  "mem_init a junk =
     \<lparr>ram = a,
      hdr = junk(0 := \<lparr>hnext = MEM_SIZE, hprev = 0, hused = False\<rparr>,
                 MEM_SIZE := \<lparr>hnext = MEM_SIZE, hprev = MEM_SIZE, hused = True\<rparr>),
      lfree = 0\<rparr>"

definition plug_forward :: "nat \<Rightarrow> mem_heap \<Rightarrow> mem_heap" where
  "plug_forward m s =
     (let nmem = hnext (hdr s m) in
      if m \<noteq> nmem \<and> \<not> hused (hdr s nmem) \<and> nmem \<noteq> MEM_SIZE then
        let s1 = (if lfree s = nmem then s\<lparr>lfree := m\<rparr> else s);
            s2 = set_next m (hnext (hdr s1 nmem)) s1
        in set_prev (hnext (hdr s2 nmem)) m s2
      else s)"

definition plug_backward :: "nat \<Rightarrow> mem_heap \<Rightarrow> mem_heap" where
  "plug_backward m s =
     (let pmem = hprev (hdr s m) in
      if pmem \<noteq> m \<and> \<not> hused (hdr s pmem) then
        let s1 = (if lfree s = m then s\<lparr>lfree := pmem\<rparr> else s);
            s2 = set_next pmem (hnext (hdr s1 m)) s1
        in set_prev (hnext (hdr s2 m)) pmem s2
      else s)"

definition plug_holes :: "nat \<Rightarrow> mem_heap \<Rightarrow> mem_heap res" where
  "plug_holes m s =
     (if \<not> m < MEM_SIZE then Inl Abort
      else if hused (hdr s m) then Inl Abort
      else if \<not> hnext (hdr s m) \<le> MEM_SIZE then Inl Abort
      else Inr (plug_backward m (plug_forward m s)))"

definition mem_free :: "nat \<Rightarrow> mem_heap \<Rightarrow> mem_heap res" where
  "mem_free rmem s =
     (if rmem = 0 then Inr s
      else if \<not> (ram s \<le> rmem \<and> rmem < ram s + MEM_SIZE) then Inl Abort
      else if rmem < ram s + SIZEOF_STRUCT_MEM then Inl Bad_Deref
      else
        let m = rmem - SIZEOF_STRUCT_MEM - ram s in
        if \<not> hused (hdr s m) then Inl Abort
        else
          let s1 = set_used m False s;
              s2 = (if m < lfree s1 then s1\<lparr>lfree := m\<rparr> else s1)
          in plug_holes m s2)"

definition mem_trim :: "nat \<Rightarrow> nat \<Rightarrow> mem_heap \<Rightarrow> (nat \<times> mem_heap) res" where
  "mem_trim rmem newsize0 s =
     (let newsize = (if newsize0 < MIN_SIZE then MIN_SIZE else newsize0) in
      if newsize > MEM_SIZE then Inr (0, s)
      else if \<not> (ram s \<le> rmem \<and> rmem < ram s + MEM_SIZE) then Inl Abort
      else if rmem < ram s + SIZEOF_STRUCT_MEM then Inl Bad_Deref
      else
        let ptr = rmem - SIZEOF_STRUCT_MEM - ram s;
            sz = u16_of (int (hnext (hdr s ptr)) - int ptr - int SIZEOF_STRUCT_MEM) in
        if \<not> newsize \<le> sz then Inl Abort
        else if newsize = sz then Inr (rmem, s)
        else
          let mem2 = hnext (hdr s ptr) in
          if \<not> hused (hdr s mem2) then
            let nxt = hnext (hdr s mem2);
                ptr2 = u16_of (int (ptr + SIZEOF_STRUCT_MEM + newsize));
                s1 = (if lfree s = mem2 then s\<lparr>lfree := ptr2\<rparr> else s);
                s2 = set_prev ptr2 ptr (set_next ptr2 nxt (set_used ptr2 False s1));
                s3 = set_next ptr ptr2 s2;
                s4 = (if hnext (hdr s3 ptr2) \<noteq> MEM_SIZE
                      then set_prev (hnext (hdr s3 ptr2)) ptr2 s3 else s3)
            in Inr (rmem, s4)
          else if newsize + SIZEOF_STRUCT_MEM + MIN_SIZE \<le> sz then
            let ptr2 = u16_of (int (ptr + SIZEOF_STRUCT_MEM + newsize));
                s1 = (if ptr2 < lfree s then s\<lparr>lfree := ptr2\<rparr> else s);
                s2 = set_prev ptr2 ptr (set_next ptr2 (hnext (hdr s1 ptr)) (set_used ptr2 False s1));
                s3 = set_next ptr ptr2 s2;
                s4 = (if hnext (hdr s3 ptr2) \<noteq> MEM_SIZE
                      then set_prev (hnext (hdr s3 ptr2)) ptr2 s3 else s3)
            in Inr (rmem, s4)
          else Inr (rmem, s))"

text \<open>User data size of the block at \<open>ptr\<close>, as \<open>mem_malloc\<close> computes it (in \<^verbatim>\<open>size_t\<close>).\<close>

definition user_size :: "mem_heap \<Rightarrow> nat \<Rightarrow> nat" where
  "user_size s ptr = size_t_of (int (hnext (hdr s ptr)) - int (ptr + SIZEOF_STRUCT_MEM))"

text \<open>
  The two pointer walks of \<open>mem_malloc\<close>, with fuel: a block is at least 18 bytes, so
  \<open>MEM_SIZE\<close> steps are more than any walk of a well-formed heap takes.
\<close>

fun mem_search :: "nat \<Rightarrow> mem_heap \<Rightarrow> nat \<Rightarrow> nat \<Rightarrow> nat option res" where
  "mem_search 0 s sz ptr = Inl No_Fuel"
| "mem_search (Suc fuel) s sz ptr =
     (if ptr < MEM_SIZE - sz then
        (if \<not> hused (hdr s ptr) \<and> user_size s ptr \<ge> sz then Inr (Some ptr)
         else mem_search fuel s sz (hnext (hdr s ptr)))
      else Inr None)"

fun next_free :: "nat \<Rightarrow> mem_heap \<Rightarrow> nat \<Rightarrow> nat res" where
  "next_free 0 s cur = Inl No_Fuel"
| "next_free (Suc fuel) s cur =
     (if hused (hdr s cur) \<and> cur \<noteq> MEM_SIZE then next_free fuel s (hnext (hdr s cur))
      else Inr cur)"

definition mem_take :: "nat \<Rightarrow> nat \<Rightarrow> mem_heap \<Rightarrow> mem_heap" where
  "mem_take ptr sz s =
     (if user_size s ptr \<ge> sz + SIZEOF_STRUCT_MEM + MIN_SIZE then
        let ptr2 = u16_of (int (ptr + SIZEOF_STRUCT_MEM + sz));
            s1 = set_prev ptr2 ptr (set_next ptr2 (hnext (hdr s ptr)) (set_used ptr2 False s));
            s2 = set_used ptr True (set_next ptr ptr2 s1)
        in if hnext (hdr s2 ptr2) \<noteq> MEM_SIZE
           then set_prev (hnext (hdr s2 ptr2)) ptr2 s2 else s2
      else set_used ptr True s)"

definition adjust_lfree :: "nat \<Rightarrow> mem_heap \<Rightarrow> mem_heap res" where
  "adjust_lfree ptr s =
     (if ptr = lfree s
      then rbind (next_free (Suc MEM_SIZE) s (lfree s)) (\<lambda>cur.
        if cur = MEM_SIZE \<or> \<not> hused (hdr s cur) then Inr (s\<lparr>lfree := cur\<rparr>) else Inl Abort)
      else Inr s)"

definition mem_malloc :: "nat \<Rightarrow> mem_heap \<Rightarrow> (nat \<times> mem_heap) res" where
  "mem_malloc size0 s =
     (if size0 = 0 then Inr (0, s)
      else
        let sz = (if size0 < MIN_SIZE then MIN_SIZE else size0) in
        if sz > MEM_SIZE then Inr (0, s)
        else
          rbind (mem_search (Suc MEM_SIZE) s sz (lfree s)) (\<lambda>found.
            case found of
              None \<Rightarrow> Inr (0, s)
            | Some ptr \<Rightarrow>
                let s1 = mem_take ptr sz s in
                rbind (adjust_lfree ptr s1) (\<lambda>s2.
                  if ptr + SIZEOF_STRUCT_MEM + sz \<le> MEM_SIZE
                  then Inr (ram s2 + ptr + SIZEOF_STRUCT_MEM, s2)
                  else Inl Abort)))"

text \<open>
  \<open>mem_calloc\<close>: the argument of \<open>mem_malloc\<close> is truncated to \<^verbatim>\<open>mem_size_t\<close>, the one of
  \<^verbatim>\<open>memset\<close> is not. The second component is the number of bytes cleared at the pointer.
\<close>

definition mem_calloc :: "nat \<Rightarrow> nat \<Rightarrow> mem_heap \<Rightarrow> (nat \<times> nat \<times> mem_heap) res" where
  "mem_calloc count sz s =
     rbind (mem_malloc (u16_of (int (count * sz))) s) (\<lambda>(p, s').
       Inr (p, if p \<noteq> 0 then count * sz else 0, s'))"

section \<open>Well-formed heaps\<close>

text \<open>
  \<open>seg h p bs q\<close>: following \<^verbatim>\<open>next\<close> from offset \<open>p\<close> visits the blocks \<open>bs\<close> and
  arrives at \<open>q\<close>; every block has room for its header and \<open>MIN_SIZE\<close> bytes of data.
\<close>

fun seg :: "(nat \<Rightarrow> mem_hdr) \<Rightarrow> nat \<Rightarrow> nat list \<Rightarrow> nat \<Rightarrow> bool" where
  "seg h p [] q \<longleftrightarrow> p = q"
| "seg h p (b # bs) q \<longleftrightarrow>
     b = p \<and> p + SIZEOF_STRUCT_MEM + MIN_SIZE \<le> hnext (h p) \<and> seg h (hnext (h p)) bs q"

definition first_free :: "(nat \<Rightarrow> mem_hdr) \<Rightarrow> nat list \<Rightarrow> nat" where
  "first_free h bs = (case filter (\<lambda>b. \<not> hused (h b)) bs of [] \<Rightarrow> MEM_SIZE | b # _ \<Rightarrow> b)"

text \<open>
  The heap invariant for the block list \<open>bs\<close>: the blocks tile the array, \<^verbatim>\<open>prev\<close> links mirror
  \<^verbatim>\<open>next\<close> links, no two free blocks are adjacent, and \<^verbatim>\<open>lfree\<close> is the lowest free block.
\<close>

definition links :: "(nat \<Rightarrow> mem_hdr) \<Rightarrow> nat list \<Rightarrow> bool" where
  "links h bs \<longleftrightarrow>
     seg h 0 bs MEM_SIZE \<and> hprev (h 0) = 0 \<and> hused (h MEM_SIZE) \<and>
     (\<forall>b \<in> set bs. hnext (h b) \<noteq> MEM_SIZE \<longrightarrow> hprev (h (hnext (h b))) = b)"

definition coalesced :: "(nat \<Rightarrow> mem_hdr) \<Rightarrow> nat list \<Rightarrow> bool" where
  "coalesced h bs \<longleftrightarrow> (\<forall>b \<in> set bs. \<not> hused (h b) \<longrightarrow> hused (h (hnext (h b))))"

definition heap_inv :: "mem_heap \<Rightarrow> nat list \<Rightarrow> bool" where
  "heap_inv s bs \<longleftrightarrow>
     links (hdr s) bs \<and> coalesced (hdr s) bs \<and> lfree s = first_free (hdr s) bs"

text \<open>The allocated blocks, as intervals of offsets.\<close>

definition used_blocks :: "mem_heap \<Rightarrow> nat list \<Rightarrow> (nat \<times> nat) set" where
  "used_blocks s bs = {(b, hnext (hdr s b)) | b. b \<in> set bs \<and> hused (hdr s b)}"

lemma seg_append: "seg h p (xs @ ys) q \<longleftrightarrow> (\<exists>r. seg h p xs r \<and> seg h r ys q)"
  by (induction xs arbitrary: p) auto

lemma seg_le: "seg h p bs q \<Longrightarrow> p \<le> q"
  by (induction bs arbitrary: p) (force)+

lemma seg_bounds: "seg h p bs q \<Longrightarrow> b \<in> set bs \<Longrightarrow> p \<le> b \<and> b + 18 \<le> hnext (h b) \<and> hnext (h b) \<le> q"
proof (induction bs arbitrary: p)
  case (Cons a bs)
  then show ?case using seg_le [of h "hnext (h p)" bs q] by fastforce
qed simp

lemma seg_next_mem: "seg h p bs q \<Longrightarrow> b \<in> set bs \<Longrightarrow> hnext (h b) \<in> set bs \<or> hnext (h b) = q"
proof (induction bs arbitrary: p)
  case (Cons a bs)
  then show ?case by (cases bs) auto
qed simp

lemma seg_disjoint:
  "seg h p bs q \<Longrightarrow> a \<in> set bs \<Longrightarrow> b \<in> set bs \<Longrightarrow> a < b \<Longrightarrow> hnext (h a) \<le> b"
proof (induction bs arbitrary: p)
  case (Cons c bs)
  then show ?case using seg_bounds [of h "hnext (h p)" bs q] by fastforce
qed simp

lemma seg_next_inj:
  assumes "seg h p bs q" "a \<in> set bs" "b \<in> set bs" "hnext (h a) = hnext (h b)"
  shows "a = b"
proof (rule ccontr)
  assume "a \<noteq> b"
  then consider "a < b" | "b < a" by linarith
  then show False
    using assms seg_disjoint [of h p bs q a b] seg_disjoint [of h p bs q b a]
      seg_bounds [of h p bs q a] seg_bounds [of h p bs q b]
    by cases auto
qed

lemma seg_distinct: "seg h p bs q \<Longrightarrow> distinct bs"
proof (induction bs arbitrary: p)
  case (Cons c bs)
  then show ?case using seg_bounds [of h "hnext (h p)" bs q] by fastforce
qed simp

lemma seg_sorted: "seg h p bs q \<Longrightarrow> sorted bs"
proof (induction bs arbitrary: p)
  case (Cons c bs)
  then show ?case using seg_bounds [of h "hnext (h p)" bs q] by fastforce
qed simp

lemma seg_cong: "(\<And>b. b \<in> set bs \<Longrightarrow> hnext (h b) = hnext (h' b)) \<Longrightarrow> seg h p bs q = seg h' p bs q"
proof (induction bs arbitrary: p)
  case (Cons c bs)
  then show ?case by (cases "c = p") auto
qed simp

lemma seg_split:
  assumes "seg h p bs q" "b \<in> set bs"
  obtains xs ys where "bs = xs @ b # ys" "seg h p xs b" "seg h (hnext (h b)) ys q"
    "b + 18 \<le> hnext (h b)"
proof -
  from assms(2) obtain xs ys where bs: "bs = xs @ b # ys" by (meson split_list)
  with assms(1) obtain r where "seg h p xs r" "seg h r (b # ys) q"
    by (auto simp: seg_append)
  then show ?thesis using that bs by auto
qed

lemma first_free_append:
  "first_free h (xs @ ys) = (if \<exists>b \<in> set xs. \<not> hused (h b) then first_free h xs else first_free h ys)"
  by (auto simp: first_free_def filter_empty_conv split: list.splits)

lemma first_free_Nil [simp]: "first_free h [] = MEM_SIZE"
  by (simp add: first_free_def)

lemma first_free_Cons [simp]:
  "first_free h (b # bs) = (if hused (h b) then first_free h bs else b)"
  by (simp add: first_free_def)

lemma first_free_cong: "(\<And>b. b \<in> set bs \<Longrightarrow> hused (h b) = hused (h' b)) \<Longrightarrow> first_free h bs = first_free h' bs"
  by (simp add: first_free_def cong: filter_cong)

lemma first_free_mem: "first_free h bs = MEM_SIZE \<or> first_free h bs \<in> set bs \<and> \<not> hused (h (first_free h bs))"
  by (induction bs) auto

lemma first_free_free:
  "\<exists>b \<in> set bs. \<not> hused (h b) \<Longrightarrow> first_free h bs \<in> set bs \<and> \<not> hused (h (first_free h bs))"
  by (induction bs) auto

lemma first_free_le:
  "seg h p bs MEM_SIZE \<Longrightarrow> b \<in> set bs \<Longrightarrow> \<not> hused (h b) \<Longrightarrow> first_free h bs \<le> b"
proof (induction bs arbitrary: p)
  case (Cons c bs)
  then show ?case using seg_bounds [of h "hnext (h p)" bs MEM_SIZE b] by auto
qed simp

lemma hdr_simps [simp, heap_simps]:
  "hdr (set_next p v s) = (hdr s)(p := (hdr s p)\<lparr>hnext := v\<rparr>)"
  "hdr (set_prev p v s) = (hdr s)(p := (hdr s p)\<lparr>hprev := v\<rparr>)"
  "hdr (set_used p u s) = (hdr s)(p := (hdr s p)\<lparr>hused := u\<rparr>)"
  "lfree (set_next p v s) = lfree s" "lfree (set_prev p v s) = lfree s"
  "lfree (set_used p u s) = lfree s"
  "ram (set_next p v s) = ram s" "ram (set_prev p v s) = ram s" "ram (set_used p u s) = ram s"
  by (simp_all add: set_next_def set_prev_def set_used_def)

lemma user_size_eq:
  "p + 6 \<le> hnext (hdr s p) \<Longrightarrow> hnext (hdr s p) \<le> MEM_SIZE \<Longrightarrow>
     user_size s p = hnext (hdr s p) - (p + 6)"
  by (simp add: user_size_def size_t_of_def)

lemma u16_of_small: "n < 65536 \<Longrightarrow> u16_of (int n) = n"
  by (simp add: u16_of_def)

section \<open>Searching\<close>

abbreviation fits :: "(nat \<Rightarrow> mem_hdr) \<Rightarrow> nat \<Rightarrow> nat \<Rightarrow> bool" where
  "fits h sz b \<equiv> \<not> hused (h b) \<and> b + SIZEOF_STRUCT_MEM + sz \<le> hnext (h b)"

lemma seg_length: "seg h p bs q \<Longrightarrow> p + length bs \<le> q"
proof (induction bs arbitrary: p)
  case (Cons c bs)
  then show ?case by fastforce
qed simp

lemma mem_search_find:
  "seg (hdr s) p ys MEM_SIZE \<Longrightarrow> length ys < fuel \<Longrightarrow>
     mem_search fuel s sz p = Inr (find (fits (hdr s) sz) ys)"
proof (induction ys arbitrary: p fuel)
  case Nil
  then show ?case by (cases fuel) auto
next
  case (Cons b ys)
  from Cons.prems obtain f where f: "fuel = Suc f" "length ys < f" by (cases fuel) auto
  from Cons.prems have b: "b = p" "p + 18 \<le> hnext (hdr s p)" "hnext (hdr s p) \<le> MEM_SIZE"
    and ys: "seg (hdr s) (hnext (hdr s p)) ys MEM_SIZE"
    using seg_le [of "hdr s" "hnext (hdr s p)" ys MEM_SIZE] by auto
  have us: "user_size s p = hnext (hdr s p) - (p + 6)"
    using b by (intro user_size_eq) auto
  show ?case
  proof (cases "p < MEM_SIZE - sz")
    case True
    with Cons.IH [OF ys f(2)] f b us show ?thesis by auto
  next
    case False
    then have "\<not> fits (hdr s) sz x" if "x \<in> set (b # ys)" for x
      using seg_bounds [OF Cons.prems(1) that] by auto
    then have "find (fits (hdr s) sz) (b # ys) = None"
      unfolding find_None_iff by blast
    with False f show ?thesis by simp
  qed
qed

lemma next_free_first:
  "seg (hdr s) p ys MEM_SIZE \<Longrightarrow> length ys < fuel \<Longrightarrow>
     next_free fuel s p = Inr (first_free (hdr s) ys)"
proof (induction ys arbitrary: p fuel)
  case Nil
  then show ?case by (cases fuel) auto
next
  case (Cons b ys)
  from Cons.prems obtain f where f: "fuel = Suc f" "length ys < f" by (cases fuel) auto
  from Cons.prems have b: "b = p" "p + 18 \<le> hnext (hdr s p)" "hnext (hdr s p) \<le> MEM_SIZE"
    and ys: "seg (hdr s) (hnext (hdr s p)) ys MEM_SIZE"
    using seg_le [of "hdr s" "hnext (hdr s p)" ys MEM_SIZE] by auto
  then show ?case using Cons.IH [OF ys f(2)] f by auto
qed

lemma seg_from_first_free:
  assumes "seg h p bs MEM_SIZE"
  obtains xs ys where "bs = xs @ ys" "\<forall>b \<in> set xs. hused (h b)" "seg h (first_free h bs) ys MEM_SIZE"
  using assms
proof (induction bs arbitrary: p thesis)
  case Nil
  then show ?case by (metis append_Nil empty_iff empty_set first_free_Nil seg.simps(1))
next
  case (Cons b bs)
  show ?case
  proof (cases "hused (h b)")
    case False
    with Cons.prems(2) show ?thesis by (intro Cons.prems(1) [of "[]" "b # bs"]) auto
  next
    case True
    from Cons.prems(2) have "seg h (hnext (h p)) bs MEM_SIZE" by simp
    with Cons.IH obtain xs ys where "bs = xs @ ys" "\<forall>b \<in> set xs. hused (h b)"
      "seg h (first_free h bs) ys MEM_SIZE" by blast
    with True show ?thesis by (intro Cons.prems(1) [of "b # xs" ys]) auto
  qed
qed

lemma find_append_none: "(\<forall>x \<in> set xs. \<not> P x) \<Longrightarrow> find P (xs @ ys) = find P ys"
  by (induction xs) auto

lemma mem_search_inv:
  assumes "heap_inv s bs"
  shows "mem_search (Suc MEM_SIZE) s sz (lfree s) = Inr (find (fits (hdr s) sz) bs)"
proof -
  from assms have seg: "seg (hdr s) 0 bs MEM_SIZE" and lf: "lfree s = first_free (hdr s) bs"
    by (auto simp: heap_inv_def links_def)
  obtain xs ys where bs: "bs = xs @ ys" and used: "\<forall>b \<in> set xs. hused (hdr s b)"
    and ys: "seg (hdr s) (lfree s) ys MEM_SIZE"
    using seg_from_first_free [OF seg] lf by metis
  have "length ys < Suc MEM_SIZE" using seg_length [OF ys] by simp
  from mem_search_find [OF ys this] show ?thesis
    using used by (simp add: bs find_append_none)
qed

section \<open>Splitting, moving and merging blocks\<close>

lemma links_split:
  assumes l: "links h (xs @ p # ys)" and c: "coalesced h (xs @ p # ys)"
    and p2: "p + 18 \<le> p2" "p2 + 18 \<le> hnext (h p)"
    and nu: "hused (h (hnext (h p)))"
    and hp: "h' p = (h p)\<lparr>hnext := p2, hused := True\<rparr>"
    and hp2: "h' p2 = \<lparr>hnext = hnext (h p), hprev = p, hused = False\<rparr>"
    and hn: "hnext (h p) \<noteq> MEM_SIZE \<Longrightarrow> h' (hnext (h p)) = (h (hnext (h p)))\<lparr>hprev := p2\<rparr>"
    and hn': "hnext (h p) = MEM_SIZE \<Longrightarrow>
      hused (h' MEM_SIZE) = hused (h MEM_SIZE) \<and> hnext (h' MEM_SIZE) = hnext (h MEM_SIZE)"
    and frame: "\<And>q. q \<noteq> p \<Longrightarrow> q \<noteq> p2 \<Longrightarrow> q \<noteq> hnext (h p) \<Longrightarrow> h' q = h q"
  shows "links h' (xs @ p # p2 # ys) \<and> coalesced h' (xs @ p # p2 # ys) \<and>
    (\<forall>b \<in> set (xs @ ys). hnext (h' b) = hnext (h b) \<and> hused (h' b) = hused (h b))"
proof -
  let ?n = "hnext (h p)"
  from l have xs: "seg h 0 xs p" and ys: "seg h ?n ys MEM_SIZE"
    by (auto simp: links_def seg_append)
  have n_le: "?n \<le> MEM_SIZE" using ys by (rule seg_le)
  have xb: "b + 18 \<le> hnext (h b) \<and> hnext (h b) \<le> p" if "b \<in> set xs" for b
    using seg_bounds [OF xs that] by simp
  have yb: "?n \<le> b \<and> b + 18 \<le> hnext (h b) \<and> hnext (h b) \<le> MEM_SIZE" if "b \<in> set ys" for b
    using seg_bounds [OF ys that] by simp
  have same: "hnext (h' q) = hnext (h q) \<and> hused (h' q) = hused (h q)" if "q \<noteq> p" "q \<noteq> p2" for q
    using frame [OF that] hn hn' by (cases "q = ?n"; cases "?n = MEM_SIZE") auto
  have xsame: "hnext (h' b) = hnext (h b)" "hused (h' b) = hused (h b)" if "b \<in> set xs" for b
    using same [of b] xb [OF that] p2 by auto
  have ysame: "hnext (h' b) = hnext (h b)" "hused (h' b) = hused (h b)" if "b \<in> set ys" for b
    using same [of b] yb [OF that] p2 by auto
  have seg': "seg h' 0 (xs @ p # p2 # ys) MEM_SIZE"
    using xs ys p2 hp hp2 seg_cong [of xs h h' 0 p] seg_cong [of ys h h' ?n MEM_SIZE] xsame ysame
    by (auto simp: seg_append)
  have prev_same: "hprev (h' q) = hprev (h q)" if "q \<noteq> p2" "q \<noteq> ?n" for q
    using that hp frame [of q] by (cases "q = p") auto
  have z: "hprev (h' 0) = 0"
    using l prev_same [of 0] p2 by (auto simp: links_def)
  have e: "hused (h' MEM_SIZE)"
    using l same [of MEM_SIZE] p2 n_le by (auto simp: links_def)
  have prevs: "hprev (h' (hnext (h' b))) = b"
    if b: "b \<in> set (xs @ p # p2 # ys)" and nb: "hnext (h' b) \<noteq> MEM_SIZE" for b
  proof -
    consider "b \<in> set xs" | "b = p" | "b = p2" | "b \<in> set ys" using b by auto
    then show ?thesis
    proof cases
      case 1
      then show ?thesis using l xb [OF 1] xsame [OF 1] nb p2 prev_same [of "hnext (h b)"]
        by (auto simp: links_def)
    next
      case 2 then show ?thesis using hp hp2 by simp
    next
      case 3 then show ?thesis using hp2 hn nb by simp
    next
      case 4
      then show ?thesis using l yb [OF 4] ysame [OF 4] nb p2 prev_same [of "hnext (h b)"]
        by (auto simp: links_def)
    qed
  qed
  have coal: "hused (h' (hnext (h' b)))"
    if b: "b \<in> set (xs @ p # p2 # ys)" and fb: "\<not> hused (h' b)" for b
  proof -
    consider "b \<in> set xs" | "b = p" | "b = p2" | "b \<in> set ys" using b by auto
    then show ?thesis
    proof cases
      case 1
      then show ?thesis
        using c fb xb [OF 1] xsame [OF 1] p2 hp same [of "hnext (h b)"]
        by (cases "hnext (h b) = p") (auto simp: coalesced_def)
    next
      case 2 then show ?thesis using hp fb by simp
    next
      case 3 then show ?thesis using hp2 nu same [of ?n] p2 by simp
    next
      case 4
      then show ?thesis
        using c fb yb [OF 4] ysame [OF 4] p2 same [of "hnext (h b)"]
        by (auto simp: coalesced_def)
    qed
  qed
  show ?thesis
    using seg' z e prevs coal xsame ysame unfolding links_def coalesced_def by auto
qed

lemma links_merge:
  assumes l: "links h (xs @ p # q # ys)"
    and hp: "h' p = (h p)\<lparr>hnext := hnext (h q)\<rparr>"
    and hn: "h' (hnext (h q)) = (h (hnext (h q)))\<lparr>hprev := p\<rparr>"
    and frame: "\<And>b. b \<noteq> p \<Longrightarrow> b \<noteq> hnext (h q) \<Longrightarrow> h' b = h b"
  shows "links h' (xs @ p # ys) \<and> (\<forall>b. hused (h' b) = hused (h b)) \<and>
    (\<forall>b. b \<noteq> p \<longrightarrow> hnext (h' b) = hnext (h b))"
proof -
  let ?n = "hnext (h q)"
  from l have xs: "seg h 0 xs p" and q: "hnext (h p) = q" "p + 18 \<le> q" "q + 18 \<le> ?n"
    and ys: "seg h ?n ys MEM_SIZE"
    by (auto simp: links_def seg_append)
  have used: "hused (h' b) = hused (h b)" for b
    using hp hn frame [of b] by (cases "b = p"; cases "b = ?n") auto
  have nxt: "hnext (h' b) = hnext (h b)" if "b \<noteq> p" for b
    using hn frame [of b] that by (cases "b = ?n") auto
  have xb: "b + 18 \<le> hnext (h b) \<and> hnext (h b) \<le> p" if "b \<in> set xs" for b
    using seg_bounds [OF xs that] by simp
  have yb: "?n \<le> b \<and> b + 18 \<le> hnext (h b)" if "b \<in> set ys" for b
    using seg_bounds [OF ys that] by simp
  have "seg h' 0 (xs @ p # ys) MEM_SIZE"
  proof -
    have "seg h' 0 xs p" using xs nxt xb by (subst seg_cong [of xs h' h]) fastforce+
    moreover have "seg h' ?n ys MEM_SIZE" using ys nxt yb q by (subst seg_cong [of ys h' h]) fastforce+
    ultimately show ?thesis using hp q by (auto simp: seg_append)
  qed
  moreover have "hprev (h' 0) = 0"
    using l hp frame [of 0] q by (cases "0 = p") (auto simp: links_def)
  moreover have "hused (h' MEM_SIZE)" using l used by (simp add: links_def)
  moreover have "hprev (h' (hnext (h' b))) = b"
    if b: "b \<in> set (xs @ p # ys)" and nb: "hnext (h' b) \<noteq> MEM_SIZE" for b
  proof -
    consider "b \<in> set xs" | "b = p" | "b \<in> set ys" using b by auto
    then show ?thesis
    proof cases
      case 1
      then have "hprev (h (hnext (h b))) = b" using l nb nxt [of b] xb [OF 1] by (auto simp: links_def)
      then show ?thesis
        using hp xb [OF 1] nxt [of b] q frame [of "hnext (h b)"] by (cases "hnext (h b) = p") auto
    next
      case 2 then show ?thesis using hp hn by simp
    next
      case 3
      then have "hprev (h (hnext (h b))) = b" using l nb nxt [of b] yb [OF 3] q by (auto simp: links_def)
      then show ?thesis using yb [OF 3] nxt [of b] q frame [of "hnext (h b)"] by auto
    qed
  qed
  ultimately show ?thesis using used nxt by (auto simp: links_def)
qed

text \<open>Coalescing up to a set of blocks that are being worked on.\<close>

definition coalesced_but :: "(nat \<Rightarrow> mem_hdr) \<Rightarrow> nat list \<Rightarrow> nat set \<Rightarrow> bool" where
  "coalesced_but h bs X \<longleftrightarrow> (\<forall>b \<in> set bs - X. \<not> hused (h b) \<longrightarrow> hused (h (hnext (h b))))"

lemma plug_forward_inv:
  assumes l: "links (hdr s) (xs @ m # ys)" and c: "coalesced_but (hdr s) (xs @ m # ys) (insert m X)"
    and X: "\<forall>x \<in> X. x < m" and m: "\<not> hused (hdr s m)"
    and lf: "lfree s = first_free (hdr s) (xs @ m # ys)"
  obtains ys' where "links (hdr (plug_forward m s)) (xs @ m # ys')"
    "coalesced_but (hdr (plug_forward m s)) (xs @ m # ys') X"
    "lfree (plug_forward m s) = first_free (hdr (plug_forward m s)) (xs @ m # ys')"
    "ram (plug_forward m s) = ram s" "\<not> hused (hdr (plug_forward m s) m)"
    "used_blocks (plug_forward m s) (xs @ m # ys') = used_blocks s (xs @ m # ys)"
proof -
  let ?h = "hdr s" let ?n = "hnext (hdr s m)"
  from l have xs: "seg ?h 0 xs m" and ys: "seg ?h ?n ys MEM_SIZE" and mn: "m + 18 \<le> ?n"
    by (auto simp: links_def seg_append)
  show thesis
  proof (cases "\<not> hused (?h ?n) \<and> ?n \<noteq> MEM_SIZE")
    case False
    then have "hused (?h ?n)" using l by (auto simp: links_def)
    moreover have "plug_forward m s = s" using False by (auto simp: plug_forward_def Let_def)
    ultimately show thesis using l c lf m by (intro that [of ys]) (auto simp: coalesced_but_def)
  next
    case True
    then obtain zs where ys_eq: "ys = ?n # zs" using ys by (cases ys) auto
    have "\<not> ?n = lfree s"
      using first_free_le [of ?h 0 "xs @ m # ys" m] l m mn lf by (auto simp: links_def)
    then have pf: "plug_forward m s = set_prev (hnext (?h ?n)) m (set_next m (hnext (?h ?n)) s)"
      using True mn by (auto simp: plug_forward_def Let_def)
    have nn: "?n + 18 \<le> hnext (?h ?n)" using ys ys_eq by simp
    let ?h' = "hdr (plug_forward m s)"
    have lm: "links ?h' (xs @ m # zs) \<and> (\<forall>b. hused (?h' b) = hused (?h b)) \<and>
        (\<forall>b. b \<noteq> m \<longrightarrow> hnext (?h' b) = hnext (?h b))"
      using l mn nn by (intro links_merge [of ?h xs m ?n zs]) (auto simp: ys_eq pf)
    have "?n \<notin> insert m X" using X mn by fastforce
    then have "hused (?h (hnext (?h ?n)))"
      using c True by (auto simp: coalesced_but_def ys_eq)
    then have "coalesced_but ?h' (xs @ m # zs) X"
      using c lm nn mn X by (auto simp: coalesced_but_def ys_eq pf)
    moreover have "lfree (plug_forward m s) = first_free ?h' (xs @ m # zs)"
      using lf m lm by (simp add: pf first_free_append ys_eq cong: first_free_cong)
    moreover have "used_blocks (plug_forward m s) (xs @ m # zs) = used_blocks s (xs @ m # ys)"
      using lm m True unfolding used_blocks_def ys_eq by force
    ultimately show thesis
      using lm m by (intro that [of zs]) (auto simp: pf)
  qed
qed

lemma plug_backward_inv:
  assumes l: "links (hdr s) (xs @ m # ys)"
    and c: "coalesced_but (hdr s) (xs @ m # ys) (if xs = [] then {} else {last xs})"
    and m: "\<not> hused (hdr s m)" and lf: "lfree s = first_free (hdr s) (xs @ m # ys)"
  obtains bs where "heap_inv (plug_backward m s) bs" "ram (plug_backward m s) = ram s"
    "used_blocks (plug_backward m s) bs = used_blocks s (xs @ m # ys)"
proof (cases xs rule: rev_cases)
  case Nil
  then have "m = 0" "hprev (hdr s m) = m" using l by (auto simp: links_def)
  then have "plug_backward m s = s" by (simp add: plug_backward_def)
  with Nil l c lf show thesis
    by (intro that [of "xs @ m # ys"]) (auto simp: heap_inv_def coalesced_but_def coalesced_def)
next
  case (snoc us p)
  let ?h = "hdr s"
  have pm: "hnext (?h p) = m" "p + 18 \<le> m" "m + 18 \<le> hnext (?h m)" "m \<noteq> MEM_SIZE"
    using l seg_le [of ?h "hnext (?h m)" ys MEM_SIZE] by (auto simp: links_def seg_append snoc)
  then have prev: "hprev (?h m) = p" using l by (auto simp: links_def snoc)
  show thesis
  proof (cases "hused (?h p)")
    case True
    then have "plug_backward m s = s" using prev by (simp add: plug_backward_def Let_def)
    with True snoc l c lf show thesis
      by (intro that [of "xs @ m # ys"]) (auto simp: heap_inv_def coalesced_but_def coalesced_def)
  next
    case False
    have "lfree s \<noteq> m"
      using first_free_le [of ?h 0 "xs @ m # ys" p] False l pm lf by (auto simp: links_def snoc)
    then have pb: "plug_backward m s = set_prev (hnext (?h m)) p (set_next p (hnext (?h m)) s)"
      using False prev pm by (auto simp: plug_backward_def Let_def)
    let ?h' = "hdr (plug_backward m s)"
    have lm: "links ?h' (us @ p # ys) \<and> (\<forall>b. hused (?h' b) = hused (?h b)) \<and>
        (\<forall>b. b \<noteq> p \<longrightarrow> hnext (?h' b) = hnext (?h b))"
      using l pm by (intro links_merge [of ?h us p m ys]) (auto simp: snoc pb)
    have "hused (?h (hnext (?h m)))"
      using c m pm by (auto simp: coalesced_but_def snoc)
    then have "coalesced ?h' (us @ p # ys)"
      using c lm pm by (auto simp: coalesced_but_def coalesced_def snoc pb)
    moreover have "lfree (plug_backward m s) = first_free ?h' (us @ p # ys)"
    proof -
      have "first_free ?h' (us @ p # ys) = first_free ?h (us @ p # ys)"
        by (rule first_free_cong) (simp add: lm)
      then show ?thesis using lf False by (simp add: pb first_free_append snoc)
    qed
    moreover have "used_blocks (plug_backward m s) (us @ p # ys) = used_blocks s (xs @ m # ys)"
      using lm m False unfolding used_blocks_def snoc by force
    ultimately show thesis
      using lm by (intro that [of "us @ p # ys"]) (auto simp: heap_inv_def pb)
  qed
qed

section \<open>The operations keep the invariant\<close>

lemma mem_init_inv: "heap_inv (mem_init a junk) [0] \<and> used_blocks (mem_init a junk) [0] = {}"
  by (auto simp: heap_inv_def links_def coalesced_def mem_init_def used_blocks_def)

lemma links_cong:
  assumes "\<And>b. hnext (h' b) = hnext (h b) \<and> hprev (h' b) = hprev (h b)"
    and "hused (h' MEM_SIZE) = hused (h MEM_SIZE)"
  shows "links h' bs = links h bs"
  using assms seg_cong [of bs h' h] by (simp add: links_def)

lemma seg_pred:
  assumes seg: "seg h 0 (xs @ b # ys) MEM_SIZE" and x: "x \<in> set (xs @ b # ys)" "hnext (h x) = b"
  shows "xs \<noteq> [] \<and> x = last xs"
proof -
  from seg have xs: "seg h 0 xs b" and ys: "seg h (hnext (h b)) ys MEM_SIZE"
    and bn: "b + 18 \<le> hnext (h b)" by (auto simp: seg_append)
  have "x < b" using seg_bounds [OF seg x(1)] x(2) by simp
  then have mem: "x \<in> set xs" using x(1) seg_bounds [OF ys, of x] bn by auto
  then have ne: "xs \<noteq> []" by auto
  have "hnext (h (last xs)) = b"
    using xs ne by (metis append_butlast_last_id seg.simps seg_append)
  then show ?thesis
    using seg_next_inj [OF seg, of x "last xs"] x mem ne by auto
qed

text \<open>Marking a block free and lowering \<^verbatim>\<open>lfree\<close>: only the block and its predecessor may be uncoalesced.\<close>

definition mark_free :: "nat \<Rightarrow> mem_heap \<Rightarrow> mem_heap" where
  "mark_free b s =
     (let s1 = set_used b False s in if b < lfree s1 then s1\<lparr>lfree := b\<rparr> else s1)"

lemma mark_free_simps:
  "hdr (mark_free b s) = (hdr s)(b := (hdr s b)\<lparr>hused := False\<rparr>)" "ram (mark_free b s) = ram s"
  by (simp_all add: mark_free_def Let_def)

lemma mark_free_lfree:
  assumes seg: "seg (hdr s) 0 (xs @ b # ys) MEM_SIZE" and u: "hused (hdr s b)"
    and lf: "lfree s = first_free (hdr s) (xs @ b # ys)"
  shows "lfree (mark_free b s) = first_free (hdr (mark_free b s)) (xs @ b # ys)"
proof -
  let ?h = "hdr s" let ?h' = "hdr (mark_free b s)"
  from seg have xs: "seg ?h 0 xs b" and ys: "seg ?h (hnext (?h b)) ys MEM_SIZE"
    and bn: "b + 18 \<le> hnext (?h b)" by (auto simp: seg_append)
  have bM: "hnext (?h b) \<le> MEM_SIZE" using ys by (rule seg_le)
  have "b \<notin> set xs" "b \<notin> set ys" using seg_distinct [OF seg] by auto
  then have same: "first_free ?h' xs = first_free ?h xs" "\<forall>x \<in> set xs. hused (?h' x) = hused (?h x)"
    by (auto simp: mark_free_simps intro!: first_free_cong split: if_splits)
  show ?thesis
  proof (cases "\<exists>x \<in> set xs. \<not> hused (?h x)")
    case True
    then obtain x where x: "x \<in> set xs" "\<not> hused (?h x)" by blast
    have "first_free ?h (xs @ b # ys) \<le> x" using first_free_le [OF seg, of x] x by auto
    moreover have "x < b" using seg_bounds [OF xs x(1)] by simp
    ultimately have "\<not> b < lfree s" using lf by simp
    then show ?thesis
      using True lf same by (auto simp: first_free_append mark_free_def Let_def)
  next
    case False
    then have "lfree s = first_free ?h ys" using lf u by (simp add: first_free_append)
    moreover have "b < first_free ?h ys"
      using first_free_mem [of ?h ys] seg_bounds [OF ys, of "first_free ?h ys"] bn bM by auto
    ultimately show ?thesis
      using False same by (auto simp: first_free_append mark_free_def Let_def)
  qed
qed

lemma mem_free_inv:
  assumes inv: "heap_inv s bs" and u: "(b, e) \<in> used_blocks s bs"
  obtains s' bs' where "mem_free (ram s + b + SIZEOF_STRUCT_MEM) s = Inr s'" "heap_inv s' bs'"
    "ram s' = ram s" "used_blocks s' bs' = used_blocks s bs - {(b, e)}"
proof -
  let ?h = "hdr s" let ?s = "mark_free b s"
  from u have b: "b \<in> set bs" "hused (?h b)" "e = hnext (?h b)" by (auto simp: used_blocks_def)
  from inv have seg: "seg ?h 0 bs MEM_SIZE" by (simp add: heap_inv_def links_def)
  obtain xs ys where bs: "bs = xs @ b # ys" and xs: "seg ?h 0 xs b"
    and ys: "seg ?h (hnext (?h b)) ys MEM_SIZE" and bn: "b + 18 \<le> hnext (?h b)"
    using seg_split [OF seg b(1)] by blast
  have bM: "hnext (?h b) \<le> MEM_SIZE" using ys by (rule seg_le)
  let ?X = "if xs = [] then {} else {last xs}"
  have l: "links (hdr ?s) (xs @ b # ys)"
    using inv bn bM by (subst links_cong [of _ ?h]) (auto simp: heap_inv_def bs mark_free_simps)
  have c: "coalesced_but (hdr ?s) (xs @ b # ys) (insert b ?X)"
    using inv seg_pred [of ?h xs b ys] seg unfolding heap_inv_def
    by (auto simp: coalesced_but_def coalesced_def mark_free_simps bs)
  have X: "\<forall>x \<in> ?X. x < b"
    using seg_bounds [OF xs, of "last xs"] by (cases xs rule: rev_cases) auto
  have m: "\<not> hused (hdr ?s b)" by (simp add: mark_free_simps)
  have lf: "lfree ?s = first_free (hdr ?s) (xs @ b # ys)"
    using inv seg b by (intro mark_free_lfree) (auto simp: heap_inv_def bs)
  obtain ys' where f: "links (hdr (plug_forward b ?s)) (xs @ b # ys')"
    "coalesced_but (hdr (plug_forward b ?s)) (xs @ b # ys') ?X"
    "lfree (plug_forward b ?s) = first_free (hdr (plug_forward b ?s)) (xs @ b # ys')"
    "ram (plug_forward b ?s) = ram ?s" "\<not> hused (hdr (plug_forward b ?s) b)"
    "used_blocks (plug_forward b ?s) (xs @ b # ys') = used_blocks ?s (xs @ b # ys)"
    using plug_forward_inv [OF l c X m lf] .
  obtain bs' where g: "heap_inv (plug_backward b (plug_forward b ?s)) bs'"
    "ram (plug_backward b (plug_forward b ?s)) = ram (plug_forward b ?s)"
    "used_blocks (plug_backward b (plug_forward b ?s)) bs' =
       used_blocks (plug_forward b ?s) (xs @ b # ys')"
    using plug_backward_inv [OF f(1,2,5,3)] .
  have "used_blocks ?s (xs @ b # ys) = used_blocks s bs - {(b, e)}"
    using b unfolding used_blocks_def bs mark_free_simps by auto
  moreover have "mem_free (ram s + b + SIZEOF_STRUCT_MEM) s = Inr (plug_backward b (plug_forward b ?s))"
    using b bn bM m by (simp add: mem_free_def plug_holes_def Let_def flip: mark_free_def)
      (simp add: mark_free_def Let_def)
  ultimately show thesis using that g f by (simp add: mark_free_simps)
qed

lemma mem_take_split:
  assumes inv: "heap_inv s (xs @ p # ys)" and free: "\<not> hused (hdr s p)"
    and sz: "MIN_SIZE \<le> sz" and split: "p + 6 + (sz + 18) \<le> hnext (hdr s p)"
  shows "links (hdr (mem_take p sz s)) (xs @ p # (p + 6 + sz) # ys) \<and>
     coalesced (hdr (mem_take p sz s)) (xs @ p # (p + 6 + sz) # ys) \<and>
     used_blocks (mem_take p sz s) (xs @ p # (p + 6 + sz) # ys) =
       insert (p, p + 6 + sz) (used_blocks s (xs @ p # ys)) \<and>
     (\<forall>b \<in> set xs. hused (hdr (mem_take p sz s) b) = hused (hdr s b)) \<and>
     hused (hdr (mem_take p sz s) p) \<and> \<not> hused (hdr (mem_take p sz s) (p + 6 + sz))"
proof -
  let ?h = "hdr s" let ?h' = "hdr (mem_take p sz s)" let ?p2 = "p + 6 + sz" let ?n = "hnext (hdr s p)"
  from inv have ys: "seg ?h ?n ys MEM_SIZE" by (auto simp: heap_inv_def links_def seg_append)
  have nM: "?n \<le> MEM_SIZE" using ys by (rule seg_le)
  have us: "user_size s p = ?n - (p + 6)" using split nM by (intro user_size_eq) auto
  have u16: "u16_of (int p + 6 + int sz) = ?p2"
    using u16_of_small [of ?p2] split nM by simp
  have hp2: "?h' ?p2 = \<lparr>hnext = ?n, hprev = p, hused = False\<rparr>"
    and hp: "?h' p = (?h p)\<lparr>hnext := ?p2, hused := True\<rparr>"
    using split us u16 by (auto simp: mem_take_def Let_def)
  have ls: "links ?h' (xs @ p # ?p2 # ys) \<and> coalesced ?h' (xs @ p # ?p2 # ys) \<and>
      (\<forall>b \<in> set (xs @ ys). hnext (?h' b) = hnext (?h b) \<and> hused (?h' b) = hused (?h b))"
  proof (rule links_split [of ?h xs p ys ?p2 ?h'])
    show "hused (?h ?n)" using inv free by (auto simp: heap_inv_def coalesced_def)
    show "?h' ?n = (?h ?n)\<lparr>hprev := ?p2\<rparr>" if "?n \<noteq> MEM_SIZE"
      using that split us u16 by (auto simp: mem_take_def Let_def)
    show "hused (?h' MEM_SIZE) = hused (?h MEM_SIZE) \<and> hnext (?h' MEM_SIZE) = hnext (?h MEM_SIZE)"
      if "?n = MEM_SIZE"
      using that split us u16 by (auto simp: mem_take_def Let_def)
    show "?h' q = ?h q" if "q \<noteq> p" "q \<noteq> ?p2" "q \<noteq> ?n" for q
      using that split us u16 by (auto simp: mem_take_def Let_def)
  qed (use inv split sz hp hp2 in \<open>auto simp: heap_inv_def\<close>)
  then have "used_blocks (mem_take p sz s) (xs @ p # ?p2 # ys) = insert (p, ?p2) (used_blocks s (xs @ p # ys))"
    using hp hp2 free unfolding used_blocks_def by force
  with ls hp hp2 show ?thesis by auto
qed

lemma mem_take_whole:
  assumes inv: "heap_inv s (xs @ p # ys)" and free: "\<not> hused (hdr s p)"
    and fit: "p + 6 + sz \<le> hnext (hdr s p)" and whole: "\<not> p + 6 + (sz + 18) \<le> hnext (hdr s p)"
  shows "links (hdr (mem_take p sz s)) (xs @ p # ys) \<and> coalesced (hdr (mem_take p sz s)) (xs @ p # ys) \<and>
     used_blocks (mem_take p sz s) (xs @ p # ys) =
       insert (p, hnext (hdr s p)) (used_blocks s (xs @ p # ys)) \<and>
     (\<forall>b \<in> set xs. hused (hdr (mem_take p sz s) b) = hused (hdr s b)) \<and> hused (hdr (mem_take p sz s) p)"
proof -
  let ?h = "hdr s"
  from inv have seg: "seg ?h 0 (xs @ p # ys) MEM_SIZE" by (auto simp: heap_inv_def links_def)
  have nM: "hnext (?h p) \<le> MEM_SIZE" using seg_bounds [OF seg, of p] by simp
  have "user_size s p = hnext (?h p) - (p + 6)" using fit nM by (intro user_size_eq) auto
  then have t: "mem_take p sz s = set_used p True s" using whole fit by (auto simp: mem_take_def)
  have "p \<notin> set xs" "p \<notin> set ys" using seg_distinct [OF seg] by auto
  moreover have "links (hdr (set_used p True s)) (xs @ p # ys)"
    using inv fit nM by (subst links_cong [of _ ?h]) (auto simp: heap_inv_def)
  moreover have "coalesced (hdr (set_used p True s)) (xs @ p # ys)"
    using inv by (auto simp: heap_inv_def coalesced_def)
  ultimately show ?thesis
    using free unfolding t used_blocks_def by auto
qed

text \<open>The state of \<open>mem_malloc\<close> once the block at \<open>p\<close> has been taken and \<^verbatim>\<open>lfree\<close> adjusted.\<close>

lemma mem_malloc_adjust:
  assumes l: "links (hdr s) bs" and p: "p \<in> set bs" and lf: "lfree s = first_free h bs0"
    and pos: "p = first_free h bs0 \<or> (first_free h bs0 \<in> set bs \<and> \<not> hused (hdr s (first_free h bs0)))"
    and below: "\<And>b. b \<in> set bs \<Longrightarrow> b < first_free h bs0 \<Longrightarrow> hused (hdr s b)"
  obtains s' where "adjust_lfree p s = Inr s'"
    "hdr s' = hdr s" "ram s' = ram s" "lfree s' = first_free (hdr s) bs"
proof -
  let ?f = "first_free h bs0"
  from l have seg: "seg (hdr s) 0 bs MEM_SIZE" by (simp add: links_def)
  have split: "\<exists>xs ys. bs = xs @ ?f # ys \<and> seg (hdr s) ?f (?f # ys) MEM_SIZE \<and>
      first_free (hdr s) bs = first_free (hdr s) (?f # ys)" if f: "?f \<in> set bs"
  proof -
    obtain xs ys where bs: "bs = xs @ ?f # ys" and xs: "seg (hdr s) 0 xs ?f"
      and ys: "seg (hdr s) (hnext (hdr s ?f)) ys MEM_SIZE" "?f + 18 \<le> hnext (hdr s ?f)"
      using seg_split [OF seg f] by blast
    have "hused (hdr s x)" if "x \<in> set xs" for x
      using below [of x] seg_bounds [OF xs that] that by (auto simp: bs)
    then have "first_free (hdr s) bs = first_free (hdr s) (?f # ys)"
      by (subst bs, subst first_free_append) auto
    with bs ys show ?thesis by auto
  qed
  show thesis
  proof (cases "p = ?f")
    case True
    then obtain xs ys where bs: "bs = xs @ ?f # ys" and sy: "seg (hdr s) ?f (?f # ys) MEM_SIZE"
      and ff: "first_free (hdr s) bs = first_free (hdr s) (?f # ys)"
      using split p by blast
    have "length (?f # ys) < Suc MEM_SIZE" using seg_length [OF sy] by simp
    from next_free_first [OF sy this] have "next_free (Suc MEM_SIZE) s (lfree s) = Inr (first_free (hdr s) bs)"
      by (simp add: lf ff)
    then show thesis
      using True lf first_free_mem [of "hdr s" bs] by (intro that [of "s\<lparr>lfree := first_free (hdr s) bs\<rparr>"])
          (auto simp: adjust_lfree_def simp del: next_free.simps)
  next
    case False
    then show thesis using pos lf split by (intro that [of s]) (auto simp: adjust_lfree_def)
  qed
qed

lemma lfree_position:
  assumes inv: "heap_inv s (xs @ p # ys)" and free: "\<not> hused (hdr s p)"
  shows "lfree s = p \<or> lfree s \<in> set xs \<and> \<not> hused (hdr s (lfree s))"
    and "lfree s \<le> p" and "b \<in> set (xs @ p # ys) \<Longrightarrow> b < lfree s \<Longrightarrow> hused (hdr s b)"
proof -
  let ?bs = "xs @ p # ys"
  from inv have seg: "seg (hdr s) 0 ?bs MEM_SIZE" and lf: "lfree s = first_free (hdr s) ?bs"
    by (auto simp: heap_inv_def links_def)
  show "lfree s \<le> p" using first_free_le [OF seg, of p] free lf by simp
  show "hused (hdr s b)" if "b \<in> set ?bs" "b < lfree s"
    using first_free_le [OF seg that(1)] that lf by auto
  show "lfree s = p \<or> lfree s \<in> set xs \<and> \<not> hused (hdr s (lfree s))"
    using lf free first_free_free [of xs "hdr s"] by (auto simp: first_free_append)
qed

lemma lfree_mem_take [simp]: "lfree (mem_take p sz s) = lfree s" "ram (mem_take p sz s) = ram s"
  by (simp_all add: mem_take_def Let_def)

lemma mem_take_inv:
  assumes inv: "heap_inv s (xs @ p # ys)" and fit: "fits (hdr s) sz p" and sz: "MIN_SIZE \<le> sz"
  obtains bs' e where "links (hdr (mem_take p sz s)) bs'" "coalesced (hdr (mem_take p sz s)) bs'"
    "p \<in> set bs'" "p + 6 + sz \<le> e"
    "used_blocks (mem_take p sz s) bs' = insert (p, e) (used_blocks s (xs @ p # ys))"
    "lfree s = p \<or> (lfree s \<in> set bs' \<and> \<not> hused (hdr (mem_take p sz s) (lfree s)))"
    "\<forall>b \<in> set bs'. b < lfree s \<longrightarrow> hused (hdr (mem_take p sz s) b)"
proof -
  from fit have free: "\<not> hused (hdr s p)" by simp
  note lfp = lfree_position [OF inv free]
  from inv have seg: "seg (hdr s) 0 (xs @ p # ys) MEM_SIZE" by (auto simp: heap_inv_def links_def)
  then have ys: "\<And>b. b \<in> set ys \<Longrightarrow> p < b"
    using seg_bounds [of "hdr s" "hnext (hdr s p)" ys MEM_SIZE] by (fastforce simp: seg_append)
  show thesis
  proof (cases "p + 6 + (sz + 18) \<le> hnext (hdr s p)")
    case True
    note t = mem_take_split [OF inv free sz True]
    show thesis
    proof (rule that [of "xs @ p # (p + 6 + sz) # ys" "p + 6 + sz"])
      show "\<forall>b \<in> set (xs @ p # (p + 6 + sz) # ys). b < lfree s \<longrightarrow> hused (hdr (mem_take p sz s) b)"
        using t lfp(2) lfp(3) ys by fastforce
    qed (use t lfp in auto)
  next
    case False
    note t = mem_take_whole [OF inv free _ False]
    show thesis
    proof (rule that [of "xs @ p # ys" "hnext (hdr s p)"])
      show "\<forall>b \<in> set (xs @ p # ys). b < lfree s \<longrightarrow> hused (hdr (mem_take p sz s) b)"
        using t fit lfp(2) lfp(3) ys by fastforce
    qed (use t lfp fit in auto)
  qed
qed

lemma mem_malloc_found:
  assumes inv: "heap_inv s bs" and n: "n \<noteq> 0"
    and found: "find (fits (hdr s) (max n MIN_SIZE)) bs = Some p"
  obtains s' bs' e where "mem_malloc n s = Inr (ram s + p + SIZEOF_STRUCT_MEM, s')" "heap_inv s' bs'"
    "ram s' = ram s" "used_blocks s' bs' = insert (p, e) (used_blocks s bs)"
    "p + SIZEOF_STRUCT_MEM + max n MIN_SIZE \<le> e"
proof -
  let ?sz = "max n MIN_SIZE"
  from found have p: "p \<in> set bs" "fits (hdr s) ?sz p"
    by (auto simp: find_Some_iff)
  then obtain xs ys where bs: "bs = xs @ p # ys" by (meson split_list)
  have seg: "seg (hdr s) 0 bs MEM_SIZE" using inv by (auto simp: heap_inv_def links_def)
  have pM: "p + 6 + ?sz \<le> MEM_SIZE" using seg_bounds [OF seg p(1)] p(2) by simp
  define s1 where "s1 = mem_take p ?sz s"
  have s1: "lfree s1 = lfree s" "ram s1 = ram s" by (simp_all add: s1_def)
  have sz12: "MIN_SIZE \<le> ?sz" by simp
  obtain bs' e where t: "links (hdr s1) bs'" "coalesced (hdr s1) bs'" "p \<in> set bs'" "p + 6 + ?sz \<le> e"
    "used_blocks s1 bs' = insert (p, e) (used_blocks s bs)"
    "lfree s = p \<or> (lfree s \<in> set bs' \<and> \<not> hused (hdr s1 (lfree s)))"
    "\<forall>b \<in> set bs'. b < lfree s \<longrightarrow> hused (hdr s1 b)"
    using mem_take_inv [OF inv [unfolded bs] p(2) sz12, folded s1_def bs] .
  have lf: "lfree s = first_free (hdr s) bs" using inv by (simp add: heap_inv_def)
  have lf1: "lfree s1 = first_free (hdr s) bs" using s1 lf by simp
  obtain s2 where adj: "adjust_lfree p s1 = Inr s2"
    "hdr s2 = hdr s1" "ram s2 = ram s1" "lfree s2 = first_free (hdr s1) bs'"
    using mem_malloc_adjust [OF t(1,3) lf1 t(6) [unfolded lf eq_commute [of _ p]] t(7) [unfolded lf, rule_format]] .
  have sz: "(if n < MIN_SIZE then MIN_SIZE else n) = ?sz" by simp
  have "mem_malloc n s = Inr (ram s + p + SIZEOF_STRUCT_MEM, s2)"
    unfolding mem_malloc_def sz
    using n pM mem_search_inv [OF inv, of ?sz] found adj s1
    by (simp add: Let_def del: mem_search.simps flip: s1_def)
  moreover have "heap_inv s2 bs'" using adj t by (simp add: heap_inv_def)
  moreover have "used_blocks s2 bs' = insert (p, e) (used_blocks s bs)"
    using adj t by (simp add: used_blocks_def)
  ultimately show thesis using that adj s1 t by simp
qed

lemma mem_malloc_none:
  assumes inv: "heap_inv s bs" and none: "n = 0 \<or> find (fits (hdr s) (max n MIN_SIZE)) bs = None"
  shows "mem_malloc n s = Inr (0, s)"
proof -
  have sz: "(if n < MIN_SIZE then MIN_SIZE else n) = max n MIN_SIZE" by simp
  show ?thesis
    unfolding mem_malloc_def sz using none mem_search_inv [OF inv, of "max n MIN_SIZE"]
    by (auto simp: Let_def simp del: mem_search.simps)
qed

section \<open>Shrinking\<close>

lemma links_move:
  assumes l: "links h (xs @ p # q # ys)" and c: "coalesced h (xs @ p # q # ys)"
    and pu: "hused (h p)" and qf: "\<not> hused (h q)" and p2: "p + 18 \<le> p2" "p2 < q"
    and hp: "h' p = (h p)\<lparr>hnext := p2\<rparr>"
    and hp2: "h' p2 = \<lparr>hnext = hnext (h q), hprev = p, hused = False\<rparr>"
    and hn: "hnext (h q) \<noteq> MEM_SIZE \<Longrightarrow> h' (hnext (h q)) = (h (hnext (h q)))\<lparr>hprev := p2\<rparr>"
    and hn': "hnext (h q) = MEM_SIZE \<Longrightarrow> h' MEM_SIZE = h MEM_SIZE"
    and frame: "\<And>b. b \<noteq> p \<Longrightarrow> b \<noteq> p2 \<Longrightarrow> b \<noteq> hnext (h q) \<Longrightarrow> h' b = h b"
  shows "links h' (xs @ p # p2 # ys) \<and> coalesced h' (xs @ p # p2 # ys) \<and>
    (\<forall>b \<in> set (xs @ ys). hnext (h' b) = hnext (h b) \<and> hused (h' b) = hused (h b))"
proof -
  txt \<open>Merge the free block into its predecessor, then split it off again.\<close>
  let ?n = "hnext (h q)"
  define g where "g = h(p := (h p)\<lparr>hnext := ?n\<rparr>, ?n := (h ?n)\<lparr>hprev := p\<rparr>)"
  have q: "hnext (h p) = q" "p + 18 \<le> q" "q + 18 \<le> ?n" and nM: "?n \<le> MEM_SIZE"
    using l seg_le [of h ?n ys MEM_SIZE] by (auto simp: links_def seg_append)
  have gl: "links g (xs @ p # ys)" and gu: "\<forall>b. hused (g b) = hused (h b)"
    and gn: "\<forall>b. b \<noteq> p \<longrightarrow> hnext (g b) = hnext (h b)"
    using links_merge [OF l, of g] q by (auto simp: g_def)
  have gp: "hnext (g p) = ?n" using q by (simp add: g_def)
  have gc: "coalesced g (xs @ p # ys)"
    using c gu gn gp pu by (auto simp: coalesced_def)
  have hpg: "h' p = (g p)\<lparr>hnext := p2, hused := True\<rparr>"
    using hp pu q by (cases "h p") (simp add: g_def)
  have "links h' (xs @ p # p2 # ys) \<and> coalesced h' (xs @ p # p2 # ys) \<and>
      (\<forall>b \<in> set (xs @ ys). hnext (h' b) = hnext (g b) \<and> hused (h' b) = hused (g b))"
  proof (rule links_split [of g xs p ys p2 h'])
    show "links g (xs @ p # ys)" "coalesced g (xs @ p # ys)" by (rule gl gc)+
    show "h' p = (g p)\<lparr>hnext := p2, hused := True\<rparr>" by (rule hpg)
    show "hused (g (hnext (g p)))" using c qf gu gp by (auto simp: coalesced_def)
    show "hnext (g p) \<noteq> MEM_SIZE \<Longrightarrow> h' (hnext (g p)) = (g (hnext (g p)))\<lparr>hprev := p2\<rparr>"
      using hn gp by (simp add: g_def)
    show "hnext (g p) = MEM_SIZE \<Longrightarrow>
        hused (h' MEM_SIZE) = hused (g MEM_SIZE) \<and> hnext (h' MEM_SIZE) = hnext (g MEM_SIZE)"
      using hn' gp gu gn q nM by auto
    show "\<And>b. b \<noteq> p \<Longrightarrow> b \<noteq> p2 \<Longrightarrow> b \<noteq> hnext (g p) \<Longrightarrow> h' b = g b"
      using frame gp by (simp add: g_def)
  qed (use p2 q gp hp2 in auto)
  moreover have "p \<notin> set (xs @ ys)" using gl seg_distinct [of g 0 "xs @ p # ys"] by (auto simp: links_def)
  ultimately show ?thesis using gu gn by auto
qed

lemma first_free_replace:
  "\<not> hused (h' p2) \<Longrightarrow> hused (h p) \<Longrightarrow> hused (h' p) \<Longrightarrow> \<not> hused (h q) \<Longrightarrow>
     (\<And>b. b \<in> set xs \<Longrightarrow> hused (h' b) = hused (h b)) \<Longrightarrow>
     first_free h' (xs @ p # p2 # ys) =
       (if first_free h (xs @ p # q # ys) = q \<and> (\<forall>b \<in> set xs. hused (h b)) then p2
        else first_free h (xs @ p # q # ys))"
  using first_free_cong [of xs h' h] by (auto simp: first_free_append)

text \<open>\<open>mem_trim\<close> on an allocated block \<open>(b, e)\<close>: the new end of the block.\<close>

definition trim_end :: "mem_heap \<Rightarrow> nat \<Rightarrow> nat \<Rightarrow> nat \<Rightarrow> nat" where
  "trim_end s b e n =
     (let k = max n MIN_SIZE in
      if b + 6 + k < e \<and> (\<not> hused (hdr s e) \<or> b + 6 + k + 18 \<le> e) then b + 6 + k else e)"

lemma trim_size:
  "b + 6 \<le> e \<Longrightarrow> e \<le> MEM_SIZE \<Longrightarrow> u16_of (int e - int b - 6) = e - (b + 6)"
  using u16_of_small [of "e - (b + 6)"] by (simp add: of_nat_diff algebra_simps)

lemma mem_trim_move:
  assumes inv: "heap_inv s (xs @ b # e # ys)" and u: "hused (hdr s b)" and f: "\<not> hused (hdr s e)"
    and k: "12 \<le> k" "b + 6 + k < e"
    and s': "hdr s' = (hdr s)(b + 6 + k := \<lparr>hnext = hnext (hdr s e), hprev = b, hused = False\<rparr>,
                b := (hdr s b)\<lparr>hnext := b + 6 + k\<rparr>,
                hnext (hdr s e) := (hdr s (hnext (hdr s e)))
                  \<lparr>hprev := (if hnext (hdr s e) \<noteq> MEM_SIZE then b + 6 + k else hprev (hdr s MEM_SIZE))\<rparr>)"
      "lfree s' = (if lfree s = e then b + 6 + k else lfree s)"
  shows "heap_inv s' (xs @ b # (b + 6 + k) # ys) \<and>
    used_blocks s' (xs @ b # (b + 6 + k) # ys) =
      insert (b, b + 6 + k) (used_blocks s (xs @ b # e # ys) - {(b, e)})"
proof -
  let ?h = "hdr s" let ?h' = "hdr s'" let ?p2 = "b + 6 + k"
  from inv have l: "links ?h (xs @ b # e # ys)" and c: "coalesced ?h (xs @ b # e # ys)"
    and lf: "lfree s = first_free ?h (xs @ b # e # ys)" by (auto simp: heap_inv_def)
  from l have be: "hnext (?h b) = e" "e + 18 \<le> hnext (?h e)" and xs: "seg ?h 0 xs b"
    and ys: "seg ?h (hnext (?h e)) ys MEM_SIZE"
    by (auto simp: links_def seg_append)
  have mv: "links ?h' (xs @ b # ?p2 # ys) \<and> coalesced ?h' (xs @ b # ?p2 # ys) \<and>
      (\<forall>x \<in> set (xs @ ys). hnext (?h' x) = hnext (?h x) \<and> hused (?h' x) = hused (?h x))"
    using k be by (intro links_move [OF l c u f]) (auto simp: s')
  have b': "hused (?h' b)" "hnext (?h' b) = ?p2" "\<not> hused (?h' ?p2)"
    using u k be by (auto simp: s')
  have "e \<notin> set xs" using seg_bounds [OF xs, of e] k by auto
  then have "first_free ?h (xs @ b # e # ys) = e \<longleftrightarrow> (\<forall>x \<in> set xs. hused (?h x))"
    using first_free_free [of xs ?h] u f by (auto simp: first_free_append)
  then have "first_free ?h' (xs @ b # ?p2 # ys) = lfree s'"
    using first_free_replace [of ?h' ?p2 ?h b e xs ys] b' u f mv lf s'(2) by auto
  moreover have "b \<notin> set xs" "b \<notin> set ys" using seg_bounds [OF xs, of b] seg_bounds [OF ys, of b] k be by auto
  ultimately show ?thesis
    using mv b' u f be unfolding heap_inv_def used_blocks_def by (auto; metis)
qed

lemma mem_trim_cut:
  assumes inv: "heap_inv s (xs @ b # ys)" and u: "hused (hdr s b)" and e: "hused (hdr s (hnext (hdr s b)))"
    and k: "12 \<le> k" "b + 6 + k + 18 \<le> hnext (hdr s b)"
    and s': "hdr s' = (hdr s)(b + 6 + k := \<lparr>hnext = hnext (hdr s b), hprev = b, hused = False\<rparr>,
                b := (hdr s b)\<lparr>hnext := b + 6 + k\<rparr>,
                hnext (hdr s b) := (hdr s (hnext (hdr s b)))
                  \<lparr>hprev := (if hnext (hdr s b) \<noteq> MEM_SIZE then b + 6 + k else hprev (hdr s MEM_SIZE))\<rparr>)"
      "lfree s' = (if b + 6 + k < lfree s then b + 6 + k else lfree s)"
  shows "heap_inv s' (xs @ b # (b + 6 + k) # ys) \<and>
    used_blocks s' (xs @ b # (b + 6 + k) # ys) =
      insert (b, b + 6 + k) (used_blocks s (xs @ b # ys) - {(b, hnext (hdr s b))})"
proof -
  let ?h = "hdr s" let ?h' = "hdr s'" let ?p2 = "b + 6 + k" let ?e = "hnext (hdr s b)"
  from inv have l: "links ?h (xs @ b # ys)" and c: "coalesced ?h (xs @ b # ys)"
    and lf: "lfree s = first_free ?h (xs @ b # ys)" by (auto simp: heap_inv_def)
  from l have xs: "seg ?h 0 xs b" and ys: "seg ?h ?e ys MEM_SIZE" and seg: "seg ?h 0 (xs @ b # ys) MEM_SIZE"
    by (auto simp: links_def seg_append)
  have eM: "?e \<le> MEM_SIZE" using ys by (rule seg_le)
  have mv: "links ?h' (xs @ b # ?p2 # ys) \<and> coalesced ?h' (xs @ b # ?p2 # ys) \<and>
      (\<forall>x \<in> set (xs @ ys). hnext (?h' x) = hnext (?h x) \<and> hused (?h' x) = hused (?h x))"
    by (rule links_split [OF l c]) (use k u e s' in \<open>auto\<close>)
  have b': "hused (?h' b)" "hnext (?h' b) = ?p2" "\<not> hused (?h' ?p2)"
    using u k by (auto simp: s')
  have "first_free ?h' (xs @ b # ?p2 # ys) = lfree s'"
  proof (cases "\<exists>x \<in> set xs. \<not> hused (?h x)")
    case True
    then have ff: "first_free ?h xs \<in> set xs" by (simp add: first_free_free)
    have "first_free ?h' xs = first_free ?h xs" using mv by (intro first_free_cong) auto
    then show ?thesis
      using True ff mv lf s'(2) seg_bounds [OF xs ff] by (auto simp: first_free_append)
  next
    case False
    then have "lfree s = first_free ?h ys" using lf u by (simp add: first_free_append)
    then have "?p2 < lfree s"
      using first_free_mem [of ?h ys] seg_bounds [OF ys, of "first_free ?h ys"] k eM by auto
    then show ?thesis using False mv b' s'(2) by (auto simp: first_free_append)
  qed
  moreover have "b \<notin> set xs" "b \<notin> set ys" using seg_bounds [OF xs, of b] seg_bounds [OF ys, of b] k by auto
  ultimately show ?thesis
    using mv b' u unfolding heap_inv_def used_blocks_def by (auto; metis)
qed

lemma mem_trim_unfold:
  assumes e: "e = hnext (hdr s b)" "e \<le> MEM_SIZE" and k: "k = max n MIN_SIZE" "b + 6 + k \<le> e"
  shows "mem_trim (ram s + b + SIZEOF_STRUCT_MEM) n s =
    (if b + 6 + k = e then Inr (ram s + b + SIZEOF_STRUCT_MEM, s)
     else if \<not> hused (hdr s e) then
       let s1 = (if lfree s = e then s\<lparr>lfree := b + 6 + k\<rparr> else s);
           s2 = set_prev (b + 6 + k) b (set_next (b + 6 + k) (hnext (hdr s e)) (set_used (b + 6 + k) False s1));
           s3 = set_next b (b + 6 + k) s2;
           s4 = (if hnext (hdr s3 (b + 6 + k)) \<noteq> MEM_SIZE
                 then set_prev (hnext (hdr s3 (b + 6 + k))) (b + 6 + k) s3 else s3)
       in Inr (ram s + b + SIZEOF_STRUCT_MEM, s4)
     else if b + 6 + k + 18 \<le> e then
       let s1 = (if b + 6 + k < lfree s then s\<lparr>lfree := b + 6 + k\<rparr> else s);
           s2 = set_prev (b + 6 + k) b (set_next (b + 6 + k) (hnext (hdr s1 b)) (set_used (b + 6 + k) False s1));
           s3 = set_next b (b + 6 + k) s2;
           s4 = (if hnext (hdr s3 (b + 6 + k)) \<noteq> MEM_SIZE
                 then set_prev (hnext (hdr s3 (b + 6 + k))) (b + 6 + k) s3 else s3)
       in Inr (ram s + b + SIZEOF_STRUCT_MEM, s4)
     else Inr (ram s + b + SIZEOF_STRUCT_MEM, s))"
proof -
  have kn: "(if n < MIN_SIZE then MIN_SIZE else n) = k" using k by simp
  have u16: "u16_of (int (b + 6 + k)) = b + 6 + k" using k e by (intro u16_of_small) linarith
  have sz: "u16_of (int e - int b - int 6) = e - (b + 6)" using trim_size [of b e] k e by simp
  have p: "ram s + b + 6 - 6 - ram s = b" by simp
  have c: "\<not> MEM_SIZE < k" "k \<le> e - (b + 6)" "k = e - (b + 6) \<longleftrightarrow> b + 6 + k = e"
    "k + 6 + 12 \<le> e - (b + 6) \<longleftrightarrow> b + 6 + k + 18 \<le> e"
    "ram s \<le> ram s + b + 6" "ram s + b + 6 < ram s + MEM_SIZE" "\<not> ram s + b + 6 < ram s + 6"
    using k e by linarith+
  show ?thesis
    unfolding mem_trim_def kn Let_def p e(1) [symmetric] sz u16
    using c by (simp only: if_False if_True not_True_eq_False not_False_eq_True simp_thms)
qed

lemma mem_trim_inv:
  assumes inv: "heap_inv s bs" and blk: "(b, e) \<in> used_blocks s bs" and n: "b + 6 + n \<le> e"
  obtains s' bs' where
    "mem_trim (ram s + b + SIZEOF_STRUCT_MEM) n s = Inr (ram s + b + SIZEOF_STRUCT_MEM, s')"
    "heap_inv s' bs'" "ram s' = ram s"
    "used_blocks s' bs' = insert (b, trim_end s b e n) (used_blocks s bs - {(b, e)})"
proof -
  let ?h = "hdr s" let ?k = "max n MIN_SIZE" let ?p2 = "b + 6 + max n MIN_SIZE"
  from blk have b: "b \<in> set bs" and u: "hused (?h b)" and e: "e = hnext (?h b)"
    by (auto simp: used_blocks_def)
  from inv have seg: "seg ?h 0 bs MEM_SIZE" by (simp add: heap_inv_def links_def)
  obtain xs ys where bs: "bs = xs @ b # ys" and ys: "seg ?h e ys MEM_SIZE" and be: "b + 18 \<le> e"
    using seg_split [OF seg b] e by metis
  have eM: "e \<le> MEM_SIZE" using ys by (rule seg_le)
  have kb: "b + 6 + ?k \<le> e" using n be by simp
  note trim = mem_trim_unfold [OF e eM refl kb]
  consider (same) "trim_end s b e n = e" |
    (move) "?p2 < e" "\<not> hused (?h e)" "trim_end s b e n = ?p2" |
    (cut) "hused (?h e)" "?p2 + 18 \<le> e" "trim_end s b e n = ?p2"
    by (cases "?p2 < e"; cases "hused (?h e)"; cases "?p2 + 18 \<le> e") (simp_all add: trim_end_def Let_def)
  then show thesis
  proof cases
    case same
    then have "?p2 = e \<or> hused (?h e) \<and> \<not> ?p2 + 18 \<le> e"
      using n be by (auto simp: trim_end_def Let_def split: if_splits)
    then show thesis
      using same inv blk by (intro that [of s bs]) (auto simp: trim)
  next
    case move
    have "e \<noteq> MEM_SIZE" using move(2) inv by (auto simp: heap_inv_def links_def)
    then obtain zs where ys_eq: "ys = e # zs" using ys by (cases ys) auto
    let ?s1 = "if lfree s = e then s\<lparr>lfree := ?p2\<rparr> else s"
    let ?s3 = "set_next b ?p2 (set_prev ?p2 b (set_next ?p2 (hnext (?h e)) (set_used ?p2 False ?s1)))"
    let ?s4 = "if hnext (?h e) \<noteq> MEM_SIZE then set_prev (hnext (?h e)) ?p2 ?s3 else ?s3"
    have ee: "e + 18 \<le> hnext (?h e)" using ys ys_eq by simp
    have t: "mem_trim (ram s + b + 6) n s = Inr (ram s + b + 6, ?s4)"
      unfolding trim Let_def using move ee be e by (simp del: max.absorb_iff2 max.absorb_iff1)
    have "heap_inv ?s4 (xs @ b # ?p2 # zs) \<and> used_blocks ?s4 (xs @ b # ?p2 # zs) =
        insert (b, ?p2) (used_blocks s (xs @ b # e # zs) - {(b, e)})"
      by (rule mem_trim_move [OF inv [unfolded bs ys_eq] u move(2)])
        (use move ee be e in \<open>auto simp: fun_eq_iff\<close>)
    moreover have "ram ?s4 = ram s" by simp
    ultimately show thesis using that [OF t] move(3) bs ys_eq by metis
  next
    case cut
    let ?s1 = "if ?p2 < lfree s then s\<lparr>lfree := ?p2\<rparr> else s"
    let ?s3 = "set_next b ?p2 (set_prev ?p2 b (set_next ?p2 e (set_used ?p2 False ?s1)))"
    let ?s4 = "if e \<noteq> MEM_SIZE then set_prev e ?p2 ?s3 else ?s3"
    have t: "mem_trim (ram s + b + 6) n s = Inr (ram s + b + 6, ?s4)"
      unfolding trim Let_def using cut be e by simp
    have "heap_inv ?s4 (xs @ b # ?p2 # ys) \<and> used_blocks ?s4 (xs @ b # ?p2 # ys) =
        insert (b, ?p2) (used_blocks s (xs @ b # ys) - {(b, hnext (?h b))})"
      by (rule mem_trim_cut [OF inv [unfolded bs] u])
        (use cut be e in \<open>auto simp: fun_eq_iff\<close>)
    moreover have "ram ?s4 = ram s" by simp
    ultimately show thesis using that [OF t] cut(3) bs e by metis
  qed
qed

end
