(* ===== verification/Mem_Alloc.thy ===== *)
theory Mem_Alloc
  imports Mem_Heap
begin

text \<open>
  \<^verbatim>\<open>src/src/lwip/core/mem.c\<close> as its clients see it: the live allocations of a heap, the laws that
  \<open>mem_malloc\<close>, \<open>mem_free\<close> and \<open>mem_trim\<close> obey (the locale \<open>allocator\<close>, interpreted on the
  definitions of \<open>Mem_Heap\<close>), and every sequence of calls a correct client can make.
\<close>

section \<open>The heap as an allocator\<close>

text \<open>
  The block list is determined by the \<^verbatim>\<open>next\<close> links, so the invariant and the set of live
  allocations (first byte, end) are functions of the state.
\<close>

fun walk :: "nat \<Rightarrow> (nat \<Rightarrow> mem_hdr) \<Rightarrow> nat \<Rightarrow> nat list" where
  "walk 0 h p = []"
| "walk (Suc fuel) h p = (if p < MEM_SIZE then p # walk fuel h (hnext (h p)) else [])"

definition block_list :: "mem_heap \<Rightarrow> nat list" where
  "block_list s = walk MEM_SIZE (hdr s) 0"

definition heap_ok :: "mem_heap \<Rightarrow> bool" where
  "heap_ok s \<longleftrightarrow> heap_inv s (block_list s)"

definition live :: "mem_heap \<Rightarrow> (nat \<times> nat) set" where
  "live s = (\<lambda>(b, e). (ram s + b + SIZEOF_STRUCT_MEM, ram s + e)) ` used_blocks s (block_list s)"

lemma walk_seg: "seg h p bs MEM_SIZE \<Longrightarrow> length bs \<le> fuel \<Longrightarrow> walk fuel h p = bs"
proof (induction bs arbitrary: p fuel)
  case Nil
  then show ?case by (cases fuel) auto
next
  case (Cons b bs)
  from Cons.prems obtain f where f: "fuel = Suc f" "length bs \<le> f" by (cases fuel) auto
  from Cons.prems have "p < MEM_SIZE" "b = p" and bs: "seg h (hnext (h p)) bs MEM_SIZE"
    using seg_le [of h "hnext (h p)" bs MEM_SIZE] by auto
  with Cons.IH [OF bs f(2)] f show ?case by simp
qed

lemma heap_inv_block_list: "heap_inv s bs \<Longrightarrow> block_list s = bs"
  unfolding block_list_def heap_inv_def links_def using seg_length by (intro walk_seg) fastforce+

lemma heap_okI: "heap_inv s bs \<Longrightarrow> heap_ok s"
  using heap_inv_block_list by (auto simp: heap_ok_def)

lemma live_eq:
  "heap_inv s bs \<Longrightarrow> live s = (\<lambda>(b, e). (ram s + b + SIZEOF_STRUCT_MEM, ram s + e)) ` used_blocks s bs"
  using heap_inv_block_list by (simp add: live_def)

lemma live_block:
  assumes "heap_ok s" "(p, e) \<in> live s"
  obtains b where "p = ram s + b + SIZEOF_STRUCT_MEM" "b \<in> set (block_list s)" "hused (hdr s b)"
    "e = ram s + hnext (hdr s b)" "(b, hnext (hdr s b)) \<in> used_blocks s (block_list s)"
  using assms unfolding live_def used_blocks_def by auto

lemma block_inj: "inj (\<lambda>(b, e). (r + b + SIZEOF_STRUCT_MEM, r + e :: nat))"
  by (auto simp: inj_def)

lemma heap_ok_seg: "heap_ok s \<Longrightarrow> seg (hdr s) 0 (block_list s) MEM_SIZE"
  by (simp add: heap_ok_def heap_inv_def links_def)

lemma live_bounds:
  assumes "heap_ok s" "(p, e) \<in> live s"
  shows "ram s + SIZEOF_STRUCT_MEM \<le> p \<and> p + MIN_SIZE \<le> e \<and> e \<le> ram s + MEM_SIZE"
proof -
  obtain b where b: "p = ram s + b + 6" "b \<in> set (block_list s)" "e = ram s + hnext (hdr s b)"
    using live_block [OF assms] by blast
  then show ?thesis using seg_bounds [OF heap_ok_seg [OF assms(1)] b(2)] by simp
qed

lemma live_disjoint:
  assumes ok: "heap_ok s" and pe: "(p, e) \<in> live s" and qf: "(q, f) \<in> live s" and ne: "(p, e) \<noteq> (q, f)"
  shows "e + SIZEOF_STRUCT_MEM \<le> q \<or> f + SIZEOF_STRUCT_MEM \<le> p"
proof -
  obtain b where b: "p = ram s + b + 6" "b \<in> set (block_list s)" "e = ram s + hnext (hdr s b)"
    using live_block [OF ok pe] by blast
  obtain c where c: "q = ram s + c + 6" "c \<in> set (block_list s)" "f = ram s + hnext (hdr s c)"
    using live_block [OF ok qf] by blast
  have "b \<noteq> c" using ne b c by auto
  then have "hnext (hdr s b) \<le> c \<or> hnext (hdr s c) \<le> b"
    using seg_disjoint [OF heap_ok_seg [OF ok], of b c] seg_disjoint [OF heap_ok_seg [OF ok], of c b]
      b(2) c(2) by linarith
  then show ?thesis using b c by auto
qed

lemma mem_init_ok: "heap_ok (mem_init a junk) \<and> live (mem_init a junk) = {}"
  using mem_init_inv [of a junk] heap_okI live_eq by fastforce

text \<open>
  What clients of a heap rely on. \<open>sz\<close> is the least size handed out; \<open>trim\<close> shrinks in
  place and never returns a block smaller than what was asked for.
\<close>

locale allocator =
  fixes ok :: "'h \<Rightarrow> bool" and blocks :: "'h \<Rightarrow> (nat \<times> nat) set"
    and malloc :: "nat \<Rightarrow> 'h \<Rightarrow> (nat \<times> 'h) res" and free :: "nat \<Rightarrow> 'h \<Rightarrow> 'h res"
    and trim :: "nat \<Rightarrow> nat \<Rightarrow> 'h \<Rightarrow> (nat \<times> 'h) res"
  assumes malloc_law: "ok h \<Longrightarrow> \<exists>p h'. malloc n h = Inr (p, h') \<and> ok h' \<and>
      (p = 0 \<and> h' = h \<or>
       p \<noteq> 0 \<and> (\<exists>e. p + n \<le> e \<and> (p, e) \<notin> blocks h \<and> blocks h' = insert (p, e) (blocks h)))"
    and free_law: "ok h \<Longrightarrow> (p, e) \<in> blocks h \<Longrightarrow>
      \<exists>h'. free p h = Inr h' \<and> ok h' \<and> blocks h' = blocks h - {(p, e)}"
    and trim_law: "ok h \<Longrightarrow> (p, e) \<in> blocks h \<Longrightarrow> p + n \<le> e \<Longrightarrow>
      \<exists>h' e'. trim p n h = Inr (p, h') \<and> ok h' \<and> p + n \<le> e' \<and> e' \<le> e \<and>
        blocks h' = insert (p, e') (blocks h - {(p, e)})"
    and disjoint_law: "ok h \<Longrightarrow> (p, e) \<in> blocks h \<Longrightarrow> (q, f) \<in> blocks h \<Longrightarrow> (p, e) \<noteq> (q, f) \<Longrightarrow>
      e < q \<or> f < p"
    and extent_law: "ok h \<Longrightarrow> (p, e) \<in> blocks h \<Longrightarrow> 0 < p \<and> p < e"
begin

lemma block_unique: "ok h \<Longrightarrow> (p, e) \<in> blocks h \<Longrightarrow> (p, f) \<in> blocks h \<Longrightarrow> e = f"
  using disjoint_law [of h p e p f] extent_law [of h p e] extent_law [of h p f] by auto

lemma malloc_free:
  assumes "ok h" "malloc n h = Inr (p, h')" "p \<noteq> 0"
  shows "\<exists>h''. free p h' = Inr h'' \<and> ok h'' \<and> blocks h'' = blocks h"
proof -
  obtain e where e: "ok h'" "(p, e) \<notin> blocks h" "blocks h' = insert (p, e) (blocks h)"
    using malloc_law [OF assms(1), of n] assms(2,3) by auto
  with free_law [of h' p e] show ?thesis by auto
qed

lemma malloc_fresh:
  assumes "ok h" "malloc n h = Inr (p, h')" "p \<noteq> 0"
  shows "\<exists>e. p + n \<le> e \<and> blocks h' = insert (p, e) (blocks h) \<and>
    (\<forall>(q, f) \<in> blocks h. e < q \<or> f < p)"
proof -
  obtain e where e: "ok h'" "p + n \<le> e" "(p, e) \<notin> blocks h" "blocks h' = insert (p, e) (blocks h)"
    using malloc_law [OF assms(1), of n] assms(2,3) by auto
  have "e < q \<or> f < p" if "(q, f) \<in> blocks h" for q f
    using disjoint_law [of h' p e q f] e that by auto
  with e show ?thesis by auto
qed

lemma trim_free:
  assumes "ok h" "(p, e) \<in> blocks h" "p + n \<le> e"
  shows "\<exists>h' h''. trim p n h = Inr (p, h') \<and> free p h' = Inr h'' \<and> ok h'' \<and> blocks h'' = blocks h - {(p, e)}"
proof -
  obtain h' e' where t: "trim p n h = Inr (p, h')" "ok h'" "blocks h' = insert (p, e') (blocks h - {(p, e)})"
    using trim_law [OF assms] by blast
  have "(p, e') \<notin> blocks h - {(p, e)}" using block_unique [OF assms(1,2)] by auto
  with t free_law [of h' p e'] show ?thesis by auto
qed

end

lemma mem_malloc_law:
  assumes "heap_ok s"
  shows "\<exists>p s'. mem_malloc n s = Inr (p, s') \<and> heap_ok s' \<and> ram s' = ram s \<and>
    (p = 0 \<and> s' = s \<and> (n = 0 \<or> (\<forall>b \<in> set (block_list s). \<not> fits (hdr s) (max n MIN_SIZE) b)) \<or>
     n \<noteq> 0 \<and> (\<exists>b e. find (fits (hdr s) (max n MIN_SIZE)) (block_list s) = Some b \<and>
       p = ram s + b + SIZEOF_STRUCT_MEM \<and> p + max n MIN_SIZE \<le> e \<and> (p, e) \<notin> live s \<and>
       live s' = insert (p, e) (live s)))"
proof (cases "n = 0 \<or> find (fits (hdr s) (max n MIN_SIZE)) (block_list s) = None")
  case True
  with mem_malloc_none [of s "block_list s" n] assms show ?thesis
    by (auto simp: heap_ok_def find_None_iff)
next
  case False
  then obtain b where n: "n \<noteq> 0" and b: "find (fits (hdr s) (max n MIN_SIZE)) (block_list s) = Some b"
    by auto
  have inv: "heap_inv s (block_list s)" using assms by (simp add: heap_ok_def)
  obtain s' bs' e where r: "mem_malloc n s = Inr (ram s + b + SIZEOF_STRUCT_MEM, s')" "heap_inv s' bs'"
    "ram s' = ram s" "used_blocks s' bs' = insert (b, e) (used_blocks s (block_list s))"
    "b + SIZEOF_STRUCT_MEM + max n MIN_SIZE \<le> e"
    using mem_malloc_found [OF inv n b] .
  have "\<not> hused (hdr s b)" using b by (auto simp: find_Some_iff)
  then have "(ram s + b + SIZEOF_STRUCT_MEM, ram s + e) \<notin> live s"
    by (auto simp: live_def used_blocks_def)
  moreover have "live s' = insert (ram s + b + SIZEOF_STRUCT_MEM, ram s + e) (live s)"
    using r by (simp add: live_eq [OF r(2)] live_def [of s])
  moreover have le: "ram s + b + SIZEOF_STRUCT_MEM + max n MIN_SIZE \<le> ram s + e" using r(5) by linarith
  ultimately show ?thesis
    using r(1,3) n b heap_okI [OF r(2)] by blast
qed

lemma mem_malloc_ok:
  assumes "heap_ok s" "mem_malloc n s = Inr (p, s')"
  shows "heap_ok s' \<and> ram s' = ram s"
proof -
  obtain q t where "mem_malloc n s = Inr (q, t)" "heap_ok t" "ram t = ram s"
    using mem_malloc_law [OF assms(1), of n] by (elim exE conjE) (rule that)
  then show ?thesis using assms(2) by simp
qed

lemma mem_free_null [simp]: "mem_free 0 s = Inr s"
  by (simp add: mem_free_def)

lemma mem_free_law:
  assumes ok: "heap_ok s" and pe: "(p, e) \<in> live s"
  shows "\<exists>s'. mem_free p s = Inr s' \<and> heap_ok s' \<and> ram s' = ram s \<and> live s' = live s - {(p, e)}"
proof -
  obtain b where b: "p = ram s + b + SIZEOF_STRUCT_MEM" "e = ram s + hnext (hdr s b)"
    "(b, hnext (hdr s b)) \<in> used_blocks s (block_list s)" using live_block [OF ok pe] by blast
  obtain s' bs' where r: "mem_free p s = Inr s'" "heap_inv s' bs'" "ram s' = ram s"
    "used_blocks s' bs' = used_blocks s (block_list s) - {(b, hnext (hdr s b))}"
    using mem_free_inv [OF ok [unfolded heap_ok_def] b(3)] b(1) by metis
  have "live s' = live s - {(p, e)}"
    using r b by (simp add: live_eq [OF r(2)] live_def [of s] image_set_diff [OF block_inj])
  then show ?thesis using r heap_okI by auto
qed

lemma mem_trim_law:
  assumes ok: "heap_ok s" and pe: "(p, e) \<in> live s" and n: "p + n \<le> e"
  shows "\<exists>s' e'. mem_trim p n s = Inr (p, s') \<and> heap_ok s' \<and> ram s' = ram s \<and>
    e' = ram s + trim_end s (p - SIZEOF_STRUCT_MEM - ram s) (e - ram s) n \<and>
    p + n \<le> e' \<and> e' \<le> e \<and> live s' = insert (p, e') (live s - {(p, e)})"
proof -
  obtain b where b: "p = ram s + b + SIZEOF_STRUCT_MEM" "e = ram s + hnext (hdr s b)"
    "(b, hnext (hdr s b)) \<in> used_blocks s (block_list s)" using live_block [OF ok pe] by blast
  let ?e = "hnext (hdr s b)"
  have n': "b + 6 + n \<le> ?e" using n b by simp
  obtain s' bs' where r: "mem_trim p n s = Inr (p, s')" "heap_inv s' bs'" "ram s' = ram s"
    "used_blocks s' bs' = insert (b, trim_end s b ?e n) (used_blocks s (block_list s) - {(b, ?e)})"
    using mem_trim_inv [OF ok [unfolded heap_ok_def] b(3) n'] b(1) by metis
  have "b + 6 + n \<le> trim_end s b ?e n" "trim_end s b ?e n \<le> ?e"
    using n' by (auto simp: trim_end_def Let_def)
  moreover have "live s' = insert (p, ram s + trim_end s b ?e n) (live s - {(p, e)})"
    using r b by (simp add: live_eq [OF r(2)] live_def [of s] image_set_diff [OF block_inj])
  ultimately show ?thesis using r heap_okI b by auto
qed

interpretation heap: allocator heap_ok live mem_malloc mem_free mem_trim
proof
  fix h n p e q f
  assume ok: "heap_ok h"
  show "\<exists>p h'. mem_malloc n h = Inr (p, h') \<and> heap_ok h' \<and> (p = 0 \<and> h' = h \<or>
      p \<noteq> 0 \<and> (\<exists>e. p + n \<le> e \<and> (p, e) \<notin> live h \<and> live h' = insert (p, e) (live h)))"
    using mem_malloc_law [OF ok, of n] by (fastforce simp: max_def split: if_splits)
  assume pe: "(p, e) \<in> live h"
  show "\<exists>h'. mem_free p h = Inr h' \<and> heap_ok h' \<and> live h' = live h - {(p, e)}"
    using mem_free_law [OF ok pe] by blast
  show "0 < p \<and> p < e" using live_bounds [OF ok pe] by simp
  show "e < q \<or> f < p" if "(q, f) \<in> live h" "(p, e) \<noteq> (q, f)"
    using live_disjoint [OF ok pe that] by auto
  show "\<exists>h' e'. mem_trim p n h = Inr (p, h') \<and> heap_ok h' \<and> p + n \<le> e' \<and> e' \<le> e \<and>
      live h' = insert (p, e') (live h - {(p, e)})" if "p + n \<le> e"
    using mem_trim_law [OF ok pe that] by blast
qed

section \<open>Runs of a correct client\<close>

text \<open>
  A client calls the three operations in any order, but frees and trims only what it holds, and
  trims to a size that is not larger than the block.
\<close>

datatype heap_op = Malloc nat | Free nat | Trim nat nat

definition legal :: "heap_op \<Rightarrow> mem_heap \<Rightarrow> bool" where
  "legal op s \<longleftrightarrow> (case op of
     Malloc n \<Rightarrow> True
   | Free p \<Rightarrow> p = 0 \<or> (\<exists>e. (p, e) \<in> live s)
   | Trim p n \<Rightarrow> (\<exists>e. (p, e) \<in> live s \<and> p + n \<le> e))"

definition heap_call :: "heap_op \<Rightarrow> mem_heap \<Rightarrow> mem_heap res" where
  "heap_call op s = (case op of
     Malloc n \<Rightarrow> rbind (mem_malloc n s) (\<lambda>(p, s'). Inr s')
   | Free p \<Rightarrow> mem_free p s
   | Trim p n \<Rightarrow> rbind (mem_trim p n s) (\<lambda>(p, s'). Inr s'))"

inductive heap_reach :: "nat \<Rightarrow> mem_heap \<Rightarrow> bool" for a :: nat where
  reach_init: "heap_reach a (mem_init a junk)"
| reach_call: "heap_reach a s \<Longrightarrow> legal op s \<Longrightarrow> heap_call op s = Inr s' \<Longrightarrow> heap_reach a s'"

lemma heap_call_ok:
  assumes "heap_ok s" "legal op s"
  shows "\<exists>s'. heap_call op s = Inr s' \<and> heap_ok s' \<and> ram s' = ram s"
proof (cases op)
  case (Malloc n)
  then show ?thesis
    using heap.malloc_law [OF assms(1), of n] mem_malloc_ok [OF assms(1), of n]
    by (auto simp: heap_call_def)
next
  case (Free p)
  with assms mem_free_law [OF assms(1), of p] show ?thesis
    by (auto simp: heap_call_def legal_def)
next
  case (Trim p n)
  with assms mem_trim_law [OF assms(1), of p _ n] show ?thesis
    by (fastforce simp: heap_call_def legal_def)
qed

lemma heap_reach_ok: "heap_reach a s \<Longrightarrow> heap_ok s \<and> ram s = a"
proof (induction rule: heap_reach.induct)
  case (reach_init junk)
  then show ?case using mem_init_ok by (simp add: mem_init_def)
next
  case (reach_call s op s')
  then show ?case using heap_call_ok [of s op] by auto
qed

lemma all_free_single_block:
  assumes ok: "heap_ok s" and none: "live s = {}"
  shows "block_list s = [0] \<and> hnext (hdr s 0) = MEM_SIZE \<and> lfree s = 0"
proof -
  have free: "\<not> hused (hdr s b)" if "b \<in> set (block_list s)" for b
    using none that by (auto simp: live_def used_blocks_def)
  from ok have seg: "seg (hdr s) 0 (block_list s) MEM_SIZE" and c: "coalesced (hdr s) (block_list s)"
    and lf: "lfree s = first_free (hdr s) (block_list s)"
    by (auto simp: heap_ok_def heap_inv_def links_def)
  then obtain bs where bs: "block_list s = 0 # bs" by (cases "block_list s") auto
  have "bs = []"
  proof (cases bs)
    case (Cons q qs)
    then have "hused (hdr s q)" using c seg free [of 0] by (auto simp: bs coalesced_def)
    then show ?thesis using free [of q] by (simp add: bs Cons)
  qed simp
  then show ?thesis using seg lf free [of 0] by (simp add: bs)
qed

definition fresh_heap :: mem_heap where
  "fresh_heap = mem_init 4096 (\<lambda>_. \<lparr>hnext = 0, hprev = 0, hused = False\<rparr>)"

lemma fresh_heap: "heap_ok fresh_heap" "live fresh_heap = {}" "block_list fresh_heap = [0]"
  using mem_init_ok mem_init_inv [THEN conjunct1, THEN heap_inv_block_list]
  unfolding fresh_heap_def by blast+

lemma one_block:
  "\<exists>s e. mem_malloc 100 fresh_heap = Inr (4102, s) \<and> heap_ok s \<and> live s = {(4102, e)} \<and> 4202 \<le> e"
  using mem_malloc_law [OF fresh_heap(1), of 100] fresh_heap by (auto simp: fresh_heap_def mem_init_def)

section \<open>Properties\<close>

text \<open>
  C26. \<open>mem_malloc\<close> on a well-formed heap always returns. It returns NULL and leaves the heap
  alone exactly when the size is 0 or no free block can hold it; otherwise it returns the first
  free block that can, the block has at least the size asked for (and at least \<open>MIN_SIZE\<close>), it
  lies inside the heap array and apart from every live block, the set of live blocks grows by
  it alone, and the heap is well formed again.
\<close>

theorem mem_malloc_correct:
  assumes "heap_ok s"
  shows "\<exists>p s'. mem_malloc n s = Inr (p, s') \<and> heap_ok s' \<and>
    (if n = 0 \<or> (\<forall>b \<in> set (block_list s). \<not> fits (hdr s) (max n MIN_SIZE) b) then p = 0 \<and> s' = s
     else \<exists>b e. find (fits (hdr s) (max n MIN_SIZE)) (block_list s) = Some b \<and>
       p = ram s + b + SIZEOF_STRUCT_MEM \<and> p + max n MIN_SIZE \<le> e \<and> e \<le> ram s + MEM_SIZE \<and>
       live s' = insert (p, e) (live s) \<and> (\<forall>(q, f) \<in> live s. e < q \<or> f < p))"
proof -
  obtain p s' where r: "mem_malloc n s = Inr (p, s')" "heap_ok s'" "ram s' = ram s"
    and c: "p = 0 \<and> s' = s \<and> (n = 0 \<or> (\<forall>b \<in> set (block_list s). \<not> fits (hdr s) (max n MIN_SIZE) b)) \<or>
     n \<noteq> 0 \<and> (\<exists>b e. find (fits (hdr s) (max n MIN_SIZE)) (block_list s) = Some b \<and>
       p = ram s + b + SIZEOF_STRUCT_MEM \<and> p + max n MIN_SIZE \<le> e \<and> (p, e) \<notin> live s \<and>
       live s' = insert (p, e) (live s))"
    using mem_malloc_law [OF assms, of n] by (elim exE conjE) (rule that)
  from c show ?thesis
  proof (elim disjE conjE exE)
    fix b e
    assume n: "n \<noteq> 0" and b: "find (fits (hdr s) (max n MIN_SIZE)) (block_list s) = Some b"
      and p: "p = ram s + b + SIZEOF_STRUCT_MEM" and e: "p + max n MIN_SIZE \<le> e"
      and new: "(p, e) \<notin> live s" and l: "live s' = insert (p, e) (live s)"
    have "e \<le> ram s + MEM_SIZE" using live_bounds [OF r(2), of p e] l r(3) by simp
    moreover have "e < q \<or> f < p" if "(q, f) \<in> live s" for q f
      using heap.disjoint_law [OF r(2), of p e q f] that new l by auto
    moreover have "\<exists>b \<in> set (block_list s). fits (hdr s) (max n MIN_SIZE) b"
      using b unfolding find_Some_iff by (metis nth_mem)
    then have "(n = 0 \<or> (\<forall>b \<in> set (block_list s). \<not> fits (hdr s) (max n MIN_SIZE) b)) = False"
      using n by blast
    ultimately show ?thesis using r(1,2) b p e l by (simp only: if_False) blast
  qed (rule exI [of _ p], rule exI [of _ s'], use r in simp)+
qed

theorem mem_malloc_correct_witness:
  "\<exists>s' e. mem_malloc 100 fresh_heap = Inr (4102, s') \<and> heap_ok s' \<and> live s' = {(4102, e)} \<and> 4202 \<le> e"
  using mem_malloc_correct [OF fresh_heap(1), of 100] fresh_heap by (auto simp: fresh_heap_def mem_init_def)

text \<open>
  C27. \<open>mem_free\<close> of a live block returns, removes that block and no other from the live blocks,
  and leaves the heap well formed; in particular adjacent free blocks have been merged and
  \<^verbatim>\<open>lfree\<close> points to the lowest free block.
\<close>

theorem mem_free_correct:
  assumes "heap_ok s" "(p, e) \<in> live s"
  shows "\<exists>s'. mem_free p s = Inr s' \<and> heap_ok s' \<and> live s' = live s - {(p, e)} \<and>
    coalesced (hdr s') (block_list s') \<and> lfree s' = first_free (hdr s') (block_list s')"
  using mem_free_law [OF assms] by (auto simp: heap_ok_def heap_inv_def)

theorem mem_free_correct_witness:
  "\<exists>s s'. mem_malloc 100 fresh_heap = Inr (4102, s) \<and> mem_free 4102 s = Inr s' \<and> live s' = {}"
  using one_block mem_free_correct [of _ 4102] by fastforce

text \<open>
  \<open>mem_trim\<close> of a live block to a size it can hold returns the same pointer; the block still
  holds the size asked for, its end moves down exactly when the block behind it is free or the
  remainder can be a block of its own, every other live block is untouched, and the heap stays
  well formed.
\<close>

theorem mem_trim_correct:
  assumes "heap_ok s" "(p, e) \<in> live s" "p + n \<le> e"
  shows "\<exists>s' e'. mem_trim p n s = Inr (p, s') \<and> heap_ok s' \<and>
    p + n \<le> e' \<and> e' \<le> e \<and> live s' = insert (p, e') (live s - {(p, e)}) \<and>
    e' = (let k = max n MIN_SIZE in
          if p + k < e \<and> (\<not> hused (hdr s (e - ram s)) \<or> p + k + SIZEOF_STRUCT_MEM + MIN_SIZE \<le> e)
          then p + k else e)"
proof -
  have "ram s + SIZEOF_STRUCT_MEM \<le> p" "p + MIN_SIZE \<le> e" using live_bounds [OF assms(1,2)] by auto
  moreover define b where "b = p - SIZEOF_STRUCT_MEM - ram s"
  ultimately have b: "p = ram s + b + 6" "e - ram s + ram s = e" by auto
  have "ram s + trim_end s b (e - ram s) n = (let k = max n MIN_SIZE in
      if p + k < e \<and> (\<not> hused (hdr s (e - ram s)) \<or> p + k + SIZEOF_STRUCT_MEM + MIN_SIZE \<le> e)
      then p + k else e)"
    using b unfolding trim_end_def Let_def by (cases "p + max n MIN_SIZE < e") auto
  then show ?thesis using mem_trim_law [OF assms] unfolding b_def by metis
qed

theorem mem_trim_correct_witness:
  "\<exists>s s' e'. mem_malloc 100 fresh_heap = Inr (4102, s) \<and> mem_trim 4102 50 s = Inr (4102, s') \<and>
    4152 \<le> e' \<and> live s' = {(4102, e')}"
proof -
  obtain s e where s: "mem_malloc 100 fresh_heap = Inr (4102, s)" "heap_ok s" "live s = {(4102, e)}" "4202 \<le> e"
    using one_block by blast
  then show ?thesis using mem_trim_correct [of s 4102 e 50] by auto
qed

text \<open>
  C6. However a client that frees and trims only its own blocks uses the heap after \<open>mem_init\<close>, every
  next call it may make returns without a failed assertion, live blocks never overlap each other
  or leave the array, and once all of them are freed the heap is one single free block again.
\<close>

theorem heap_runs_safe:
  assumes "heap_reach a s"
  shows "(\<forall>op. legal op s \<longrightarrow> (\<exists>s'. heap_call op s = Inr s' \<and> heap_reach a s')) \<and>
    (\<forall>(p, e) \<in> live s. a \<le> p \<and> e \<le> a + MEM_SIZE \<and>
       (\<forall>(q, f) \<in> live s. (p, e) = (q, f) \<or> e < q \<or> f < p)) \<and>
    (live s = {} \<longrightarrow> block_list s = [0] \<and> hnext (hdr s 0) = MEM_SIZE \<and> lfree s = 0)"
proof -
  have ok: "heap_ok s" and a: "ram s = a" using heap_reach_ok [OF assms] by auto
  have "\<exists>s'. heap_call op s = Inr s' \<and> heap_reach a s'" if "legal op s" for op
    using heap_call_ok [OF ok that] reach_call [OF assms that] by blast
  moreover have "a \<le> p \<and> e \<le> a + MEM_SIZE" if "(p, e) \<in> live s" for p e
    using live_bounds [OF ok that] a by simp
  moreover have "(p, e) = (q, f) \<or> e < q \<or> f < p" if "(p, e) \<in> live s" "(q, f) \<in> live s" for p e q f
    using heap.disjoint_law [OF ok that] by blast
  ultimately show ?thesis using all_free_single_block [OF ok] by blast
qed

theorem heap_runs_safe_witness:
  "\<exists>s'. heap_call (Malloc 100) fresh_heap = Inr s' \<and> heap_reach 4096 s'"
  using heap_runs_safe [OF reach_init [of 4096 "\<lambda>_. \<lparr>hnext = 0, hprev = 0, hused = False\<rparr>"]]
  by (auto simp: fresh_heap_def legal_def)

text \<open>
  \<open>mem_calloc\<close> multiplies in \<^verbatim>\<open>size_t\<close> but allocates a \<^verbatim>\<open>mem_size_t\<close>: below 65536 bytes the
  cleared range is inside the block it allocated, from 65536 bytes on a non-NULL result means
  that \<^verbatim>\<open>memset\<close> has run past the end of the heap.
\<close>

theorem mem_calloc_range:
  assumes ok: "heap_ok s" and r: "mem_calloc count sz s = Inr (p, cleared, s')" and p: "p \<noteq> 0"
  shows "heap_ok s' \<and> (\<exists>e. live s' = insert (p, e) (live s) \<and> e \<le> ram s + MEM_SIZE \<and>
    (if count * sz < 65536 then p + cleared \<le> e else ram s + MEM_SIZE < p + cleared))"
proof -
  from r have m: "mem_malloc (u16_of (int (count * sz))) s = Inr (p, s')" and cl: "cleared = count * sz"
    using p by auto (auto simp: mem_calloc_def split: if_splits)
  have s': "heap_ok s'" "ram s' = ram s" using mem_malloc_ok [OF ok m] by auto
  obtain e where e: "p + u16_of (int (count * sz)) \<le> e" "live s' = insert (p, e) (live s)"
    using heap.malloc_fresh [OF ok m p] by blast
  have b: "ram s \<le> p" "e \<le> ram s + MEM_SIZE" using live_bounds [OF s'(1), of p e] e s' by auto
  show ?thesis
    using e b s' cl u16_of_small [of "count * sz"] by (auto intro!: exI [of _ e])
qed

theorem mem_calloc_range_witness:
  "\<exists>s' e. mem_calloc 4 16409 fresh_heap = Inr (4102, 65636, s') \<and> live s' = {(4102, e)} \<and> e < 4102 + 65636"
proof -
  obtain s e where s: "mem_malloc 100 fresh_heap = Inr (4102, s)" using one_block by blast
  then have "mem_calloc 4 16409 fresh_heap = Inr (4102, 65636, s)"
    by (simp add: mem_calloc_def u16_of_def)
  with mem_calloc_range [OF fresh_heap(1) this] fresh_heap(2) show ?thesis
    by (auto simp: fresh_heap_def mem_init_def)
qed

end
