(* ===== verification/Memp_Pool.thy ===== *)
theory Memp_Pool
  imports Lwip_Prelude
begin

text \<open>
  \<^verbatim>\<open>src/src/lwip/core/memp.c\<close> and the pool list of \<^verbatim>\<open>memp_std.h\<close>: fixed-size element pools, each
  a singly linked list of its free elements threaded through one static array. The pools are
  those that \<^verbatim>\<open>opt.h\<close> enables, with its element counts; the element sizes are \<^verbatim>\<open>sizeof\<close> values
  of the compiler and are an argument (\<open>sizes\<close>). \<^verbatim>\<open>MEMP_OVERFLOW_CHECK\<close> and
  \<^verbatim>\<open>MEMP_SANITY_CHECK\<close> are 0, so \<^verbatim>\<open>MEMP_SIZE\<close> is 0. An address is a number, NULL is 0.
\<close>

section \<open>State and operations\<close>

datatype memp_t =
    MEMP_RAW_PCB | MEMP_UDP_PCB | MEMP_TCP_PCB | MEMP_TCP_PCB_LISTEN | MEMP_TCP_SEG | MEMP_REASSDATA | MEMP_FRAG_PBUF | MEMP_NETBUF | MEMP_NETCONN
  | MEMP_TCPIP_MSG_API | MEMP_TCPIP_MSG_INPKT | MEMP_SYS_TIMEOUT | MEMP_NETDB | MEMP_LOCALHOSTLIST | MEMP_PBUF | MEMP_PBUF_POOL | MEMP_MAX

definition memp_types :: "memp_t list" where
  "memp_types = [MEMP_RAW_PCB, MEMP_UDP_PCB, MEMP_TCP_PCB, MEMP_TCP_PCB_LISTEN, MEMP_TCP_SEG, MEMP_REASSDATA, MEMP_FRAG_PBUF, MEMP_NETBUF, MEMP_NETCONN,
     MEMP_TCPIP_MSG_API, MEMP_TCPIP_MSG_INPKT, MEMP_SYS_TIMEOUT, MEMP_NETDB, MEMP_LOCALHOSTLIST, MEMP_PBUF, MEMP_PBUF_POOL]"

fun memp_num :: "memp_t \<Rightarrow> nat" where
  "memp_num MEMP_RAW_PCB = 64" | "memp_num MEMP_UDP_PCB = 4" | "memp_num MEMP_TCP_PCB = 100"
| "memp_num MEMP_TCP_PCB_LISTEN = 16" | "memp_num MEMP_TCP_SEG = 64" | "memp_num MEMP_REASSDATA = 4"
| "memp_num MEMP_FRAG_PBUF = 15" | "memp_num MEMP_NETBUF = 2" | "memp_num MEMP_NETCONN = 100"
| "memp_num MEMP_TCPIP_MSG_API = 8" | "memp_num MEMP_TCPIP_MSG_INPKT = 32" | "memp_num MEMP_SYS_TIMEOUT = 5"
| "memp_num MEMP_NETDB = 1" | "memp_num MEMP_LOCALHOSTLIST = 1" | "memp_num MEMP_PBUF = 16"
| "memp_num MEMP_PBUF_POOL = 64" | "memp_num MEMP_MAX = 0"

record memp_state =
  memp_tab :: "memp_t \<Rightarrow> nat"
  memp_next :: "nat \<Rightarrow> nat"

text \<open>Linking one element in front of the free list of pool \<open>i\<close>.\<close>

definition memp_push :: "memp_t \<Rightarrow> nat \<Rightarrow> memp_state \<Rightarrow> memp_state" where
  "memp_push i m st =
     st\<lparr>memp_next := (memp_next st)(m := memp_tab st i), memp_tab := (memp_tab st)(i := m)\<rparr>"

fun carve :: "nat \<Rightarrow> memp_t \<Rightarrow> nat \<Rightarrow> nat \<times> memp_state \<Rightarrow> nat \<times> memp_state" where
  "carve 0 i sz ms = ms"
| "carve (Suc j) i sz (m, st) = carve j i sz (m + sz, memp_push i m st)"

definition memp_init_pool :: "(memp_t \<Rightarrow> nat) \<Rightarrow> nat \<times> memp_state \<Rightarrow> memp_t \<Rightarrow> nat \<times> memp_state" where
  "memp_init_pool sizes ms i =
     carve (memp_num i) i (sizes i) (fst ms, (snd ms)\<lparr>memp_tab := (memp_tab (snd ms))(i := 0)\<rparr>)"

definition memp_init :: "(memp_t \<Rightarrow> nat) \<Rightarrow> nat \<Rightarrow> memp_state \<Rightarrow> memp_state" where
  "memp_init sizes memory st = snd (foldl (memp_init_pool sizes) (memory, st) memp_types)"

definition memp_malloc :: "memp_t \<Rightarrow> memp_state \<Rightarrow> (nat \<times> memp_state) res" where
  "memp_malloc i st =
     (if i = MEMP_MAX then Inl Abort
      else
        let m = memp_tab st i in
        if m \<noteq> 0 then Inr (m, st\<lparr>memp_tab := (memp_tab st)(i := memp_next st m)\<rparr>)
        else Inr (0, st))"

definition memp_free :: "memp_t \<Rightarrow> nat \<Rightarrow> memp_state \<Rightarrow> memp_state" where
  "memp_free i mem st = (if mem = 0 then st else memp_push i mem st)"

section \<open>Pool contents\<close>

text \<open>
  The elements of a pool lie side by side in the order of \<open>memp_types\<close>, starting at \<open>memory\<close>.
\<close>

fun pool_base :: "(memp_t \<Rightarrow> nat) \<Rightarrow> nat \<Rightarrow> memp_t list \<Rightarrow> memp_t \<Rightarrow> nat" where
  "pool_base sizes m [] i = m"
| "pool_base sizes m (t # ts) i =
     (if t = i then m else pool_base sizes (m + memp_num t * sizes t) ts i)"

definition elems :: "nat \<Rightarrow> nat \<Rightarrow> nat \<Rightarrow> nat list" where
  "elems m sz n = map (\<lambda>k. m + k * sz) [0..<n]"

definition slots :: "(memp_t \<Rightarrow> nat) \<Rightarrow> nat \<Rightarrow> memp_t \<Rightarrow> nat list" where
  "slots sizes memory i = elems (pool_base sizes memory memp_types i) (sizes i) (memp_num i)"

definition free_elems :: "memp_state \<Rightarrow> memp_t \<Rightarrow> nat list" where
  "free_elems st i = lwalk (memp_num i) (memp_next st) (memp_tab st i)"

text \<open>
  The invariant relative to the elements \<open>sl i\<close> of each pool: the free list of a pool ends,
  has no duplicates and stays within the pool.
\<close>

definition memp_inv :: "(memp_t \<Rightarrow> nat list) \<Rightarrow> memp_state \<Rightarrow> (memp_t \<Rightarrow> nat list) \<Rightarrow> bool" where
  "memp_inv sl st fr \<longleftrightarrow>
     (\<forall>i. linked (memp_next st) (memp_tab st i) (fr i) \<and> distinct (fr i) \<and> set (fr i) \<subseteq> set (sl i))"

text \<open>Element tables as \<open>memp_init\<close> lays them out: no address is 0 and none is in two places.\<close>

definition layout :: "(memp_t \<Rightarrow> nat list) \<Rightarrow> bool" where
  "layout sl \<longleftrightarrow>
     (\<forall>i. distinct (sl i) \<and> 0 \<notin> set (sl i) \<and> length (sl i) = memp_num i) \<and>
     (\<forall>i j. i \<noteq> j \<longrightarrow> set (sl i) \<inter> set (sl j) = {})"

definition memp_ok :: "(memp_t \<Rightarrow> nat list) \<Rightarrow> memp_state \<Rightarrow> bool" where
  "memp_ok sl st \<longleftrightarrow> layout sl \<and> memp_inv sl st (free_elems st)"

definition taken :: "(memp_t \<Rightarrow> nat list) \<Rightarrow> memp_state \<Rightarrow> memp_t \<Rightarrow> nat set" where
  "taken sl st i = set (sl i) - set (free_elems st i)"

lemma memp_inv_free_elems:
  assumes "layout sl" "memp_inv sl st fr"
  shows "free_elems st = fr"
proof
  fix i
  have "length (fr i) = card (set (fr i))"
    using assms(2) by (simp add: memp_inv_def distinct_card)
  also have "\<dots> \<le> card (set (sl i))"
    using assms(2) by (intro card_mono) (auto simp: memp_inv_def)
  also have "\<dots> = memp_num i"
    using assms(1) by (metis layout_def distinct_card)
  finally show "free_elems st i = fr i"
    unfolding free_elems_def using assms(2) by (intro linked_walk) (auto simp: memp_inv_def)
qed

lemma memp_okI: "layout sl \<Longrightarrow> memp_inv sl st fr \<Longrightarrow> memp_ok sl st"
  using memp_inv_free_elems by (simp add: memp_ok_def)

lemma memp_ok_layout: "memp_ok sl st \<Longrightarrow> layout sl"
  by (simp add: memp_ok_def)

lemma layout_elem: "layout sl \<Longrightarrow> x \<in> set (sl i) \<Longrightarrow> x \<noteq> 0"
  by (metis layout_def)

lemma layout_unique: "layout sl \<Longrightarrow> x \<in> set (sl i) \<Longrightarrow> x \<in> set (sl j) \<Longrightarrow> j = i"
  by (metis layout_def disjoint_iff)

lemma memp_ok_linked:
  "memp_ok sl st \<Longrightarrow> linked (memp_next st) (memp_tab st i) (free_elems st i) \<and>
     distinct (free_elems st i) \<and> set (free_elems st i) \<subseteq> set (sl i)"
  by (simp add: memp_ok_def memp_inv_def)

lemma card_taken:
  assumes "memp_ok sl st"
  shows "card (taken sl st i) = memp_num i - length (free_elems st i)"
  using memp_ok_linked [OF assms, of i] memp_ok_layout [OF assms]
  by (simp add: taken_def card_Diff_subset distinct_card layout_def)

section \<open>Allocation and release\<close>

lemma memp_malloc_cases:
  assumes ok: "memp_ok sl st" and i: "i \<noteq> MEMP_MAX"
  shows "free_elems st i = [] \<and> memp_malloc i st = Inr (0, st) \<or>
    (\<exists>x xs st'. free_elems st i = x # xs \<and> memp_malloc i st = Inr (x, st') \<and> memp_ok sl st' \<and>
       x \<noteq> 0 \<and> free_elems st' = (free_elems st)(i := xs))"
proof (cases "free_elems st i")
  case Nil
  then have "memp_tab st i = 0" using memp_ok_linked [OF ok, of i] by simp
  with Nil i show ?thesis by (simp add: memp_malloc_def)
next
  case (Cons x xs)
  note lay = memp_ok_layout [OF ok]
  let ?st = "st\<lparr>memp_tab := (memp_tab st)(i := memp_next st x)\<rparr>"
  have x: "memp_tab st i = x" "x \<noteq> 0" "linked (memp_next st) (memp_next st x) xs"
    using memp_ok_linked [OF ok, of i] Cons by auto
  have "memp_inv sl ?st ((free_elems st)(i := xs))"
    using memp_ok_linked [OF ok] x Cons by (auto simp: memp_inv_def dest: spec [of _ i])
      (metis distinct.simps(2) Cons, metis Cons list.set_intros(2) subsetD)
  with memp_okI [OF lay] memp_inv_free_elems [OF lay] x i Cons show ?thesis
    by (auto simp: memp_malloc_def Let_def)
qed

lemma memp_free_taken:
  assumes ok: "memp_ok sl st" and x: "x \<in> taken sl st i"
  shows "memp_ok sl (memp_free i x st) \<and>
    free_elems (memp_free i x st) = (free_elems st)(i := x # free_elems st i)"
proof -
  note lay = memp_ok_layout [OF ok]
  have x0: "x \<noteq> 0" "x \<in> set (sl i)" "x \<notin> set (free_elems st i)"
    using x layout_elem [OF lay] by (auto simp: taken_def)
  have other: "x \<notin> set (free_elems st j)" for j
    using memp_ok_linked [OF ok, of j] x0 layout_unique [OF lay, of x i j] by auto
  have "memp_inv sl (memp_free i x st) ((free_elems st)(i := x # free_elems st i))"
    using memp_ok_linked [OF ok] x0 other
    by (auto simp: memp_inv_def memp_free_def memp_push_def)
  with memp_okI [OF lay] memp_inv_free_elems [OF lay] show ?thesis by blast
qed

text \<open>What clients of a set of pools rely on.\<close>

locale element_pools =
  fixes ok :: "'s \<Rightarrow> bool" and used :: "'s \<Rightarrow> 'i \<Rightarrow> nat set" and cap :: "'i \<Rightarrow> nat" and valid :: "'i \<Rightarrow> bool"
    and get :: "'i \<Rightarrow> 's \<Rightarrow> (nat \<times> 's) res" and put :: "'i \<Rightarrow> nat \<Rightarrow> 's \<Rightarrow> 's"
  assumes get_law: "ok s \<Longrightarrow> valid i \<Longrightarrow>
      (card (used s i) = cap i \<and> get i s = Inr (0, s)) \<or>
      (card (used s i) < cap i \<and> (\<exists>x s'. get i s = Inr (x, s') \<and> ok s' \<and> x \<noteq> 0 \<and>
         (\<forall>j. x \<notin> used s j) \<and> used s' = (used s)(i := insert x (used s i))))"
    and put_law: "ok s \<Longrightarrow> x \<in> used s i \<Longrightarrow> ok (put i x s) \<and> used (put i x s) = (used s)(i := used s i - {x})"
    and used_law: "ok s \<Longrightarrow> x \<in> used s i \<Longrightarrow> x \<noteq> 0 \<and> (x \<in> used s j \<longrightarrow> j = i)"
begin

lemma get_cases:
  assumes "ok s" "valid i"
  obtains (none) "get i s = Inr (0, s)" "card (used s i) = cap i"
  | (some) x s' where "get i s = Inr (x, s')" "ok s'" "x \<noteq> 0" "\<forall>j. x \<notin> used s j"
      "used s' = (used s)(i := insert x (used s i))" "card (used s i) < cap i"
  using get_law [OF assms] by blast

lemma get_total: "ok s \<Longrightarrow> valid i \<Longrightarrow> \<exists>x s'. get i s = Inr (x, s') \<and> ok s'"
  by (metis get_cases)

lemma get_put:
  assumes "ok s" "valid i" "get i s = Inr (x, s')" "x \<noteq> 0"
  shows "ok (put i x s') \<and> used (put i x s') = used s"
proof -
  from get_law [OF assms(1,2)] assms(3,4) have s': "ok s'" "x \<notin> used s i" "used s' = (used s)(i := insert x (used s i))"
    by auto
  with put_law [of s' x i] show ?thesis by auto
qed

end

interpretation memp: element_pools "memp_ok sl" "taken sl" memp_num "\<lambda>i. i \<noteq> MEMP_MAX" memp_malloc memp_free
  for sl
proof
  fix s i x j
  assume ok: "memp_ok sl s"
  note fl = memp_ok_linked [OF ok] and lay = memp_ok_layout [OF ok]
  show "(card (taken sl s i) = memp_num i \<and> memp_malloc i s = Inr (0, s)) \<or>
      (card (taken sl s i) < memp_num i \<and> (\<exists>x s'. memp_malloc i s = Inr (x, s') \<and> memp_ok sl s' \<and> x \<noteq> 0 \<and>
         (\<forall>j. x \<notin> taken sl s j) \<and> taken sl s' = (taken sl s)(i := insert x (taken sl s i))))"
    if i: "i \<noteq> MEMP_MAX"
  proof -
    have len: "length (free_elems s i) \<le> memp_num i"
      using fl [of i] lay by (metis layout_def card_mono distinct_card finite_set)
    from memp_malloc_cases [OF ok i] show ?thesis
    proof (elim disjE exE conjE)
      fix x xs s'
      assume a: "free_elems s i = x # xs" "memp_malloc i s = Inr (x, s')" "memp_ok sl s'" "x \<noteq> 0"
        and f': "free_elems s' = (free_elems s)(i := xs)"
      have x: "x \<in> set (sl i)" "x \<notin> set xs" using fl [of i] a by auto
      have "x \<notin> taken sl s j" for j
        using x a layout_unique [OF lay, of x i j] by (auto simp: taken_def)
      moreover have "taken sl s' = (taken sl s)(i := insert x (taken sl s i))"
        using x a f' by (auto simp: taken_def fun_eq_iff)
      moreover have "card (taken sl s i) < memp_num i"
        using len a by (simp add: card_taken [OF ok])
      ultimately show ?thesis using a by blast
    qed (simp add: card_taken [OF ok])
  qed
  assume x: "x \<in> taken sl s i"
  show "memp_ok sl (memp_free i x s) \<and> taken sl (memp_free i x s) = (taken sl s)(i := taken sl s i - {x})"
    using memp_free_taken [OF ok x] x by (auto simp: taken_def fun_eq_iff)
  show "x \<noteq> 0 \<and> (x \<in> taken sl s j \<longrightarrow> j = i)"
    using x layout_elem [OF lay] layout_unique [OF lay] by (auto simp: taken_def)
qed

section \<open>Initialisation\<close>

lemma elems_Suc: "elems m sz (Suc n) = m # elems (m + sz) sz n"
  by (simp add: elems_def upt_conv_Cons del: upt_Suc flip: map_Suc_upt)

lemma elems_mem: "x \<in> set (elems m sz n) \<longleftrightarrow> (\<exists>k < n. x = m + k * sz)"
  by (auto simp: elems_def)

lemma elems_bounds: "x \<in> set (elems m sz n) \<Longrightarrow> m \<le> x \<and> x + sz \<le> m + n * sz"
proof -
  assume "x \<in> set (elems m sz n)"
  then obtain k where "Suc k \<le> n" "x = m + k * sz" by (auto simp: elems_mem Suc_le_eq)
  moreover have "Suc k * sz \<le> n * sz" using \<open>Suc k \<le> n\<close> by (rule mult_le_mono1)
  ultimately show ?thesis by simp
qed

lemma elems_distinct: "0 < sz \<Longrightarrow> distinct (elems m sz n)"
  by (simp add: elems_def distinct_map inj_on_def)

lemma carve_linked:
  assumes "0 < sz" "0 < m" "linked (memp_next st) (memp_tab st i) xs" "\<forall>x \<in> set xs. x < m"
    "carve n i sz (m, st) = (m', st')"
  shows "m' = m + n * sz \<and> (\<forall>x < m. memp_next st' x = memp_next st x) \<and>
    (\<forall>j. j \<noteq> i \<longrightarrow> memp_tab st' j = memp_tab st j) \<and>
    linked (memp_next st') (memp_tab st' i) (rev (elems m sz n) @ xs)"
  using assms
proof (induction n arbitrary: m st xs)
  case 0
  then show ?case by (simp add: elems_def)
next
  case (Suc n)
  let ?st = "memp_push i m st"
  have f: "linked (memp_next ?st) (memp_tab ?st i) (m # xs)"
    using Suc.prems by (auto simp: memp_push_def)
  have "\<forall>x \<in> set (m # xs). x < m + sz" using Suc.prems by auto
  from Suc.IH [OF Suc.prems(1) _ f this] Suc.prems show ?case
    by (auto simp: elems_Suc memp_push_def)
qed

lemma foldl_init_pools:
  assumes "\<forall>i. 0 < sizes i" "0 < m" "distinct ts" "foldl (memp_init_pool sizes) (m, st) ts = (m', st')"
  shows "(\<forall>x < m. memp_next st' x = memp_next st x) \<and> (\<forall>j. j \<notin> set ts \<longrightarrow> memp_tab st' j = memp_tab st j) \<and>
    (\<forall>i \<in> set ts. linked (memp_next st') (memp_tab st' i)
       (rev (elems (pool_base sizes m ts i) (sizes i) (memp_num i))))"
  using assms
proof (induction ts arbitrary: m st)
  case Nil
  then show ?case by simp
next
  case (Cons t ts)
  obtain m1 st1 where c: "memp_init_pool sizes (m, st) t = (m1, st1)" by fastforce
  let ?l = "elems m (sizes t) (memp_num t)"
  have c1: "m1 = m + memp_num t * sizes t" "\<forall>x < m. memp_next st1 x = memp_next st x"
    "\<forall>j. j \<noteq> t \<longrightarrow> memp_tab st1 j = memp_tab st j" "linked (memp_next st1) (memp_tab st1 t) (rev ?l)"
    using carve_linked [of "sizes t" m "st\<lparr>memp_tab := (memp_tab st)(t := 0)\<rparr>" t "[]" "memp_num t" m1 st1]
      c Cons.prems by (auto simp: memp_init_pool_def)
  have m1: "0 < m1" "m \<le> m1" using c1 Cons.prems by auto
  have fold: "foldl (memp_init_pool sizes) (m1, st1) ts = (m', st')" using Cons.prems(4) c by simp
  have dist: "distinct ts" "t \<notin> set ts" using Cons.prems(3) by auto
  note ih = Cons.IH [OF Cons.prems(1) m1(1) dist(1) fold]
  have below: "x < m1" if "x \<in> set (rev ?l)" for x
    using elems_bounds [of x m "sizes t" "memp_num t"] that c1(1) Cons.prems(1) by (metis add_lessD1 le_less_trans
      less_add_same_cancel1 order.strict_trans2 set_rev)
  have "linked (memp_next st') (memp_tab st' t) (rev ?l)"
    using ih c1(4) below dist(2) linked_cong [of "rev ?l" "memp_next st'" "memp_next st1"] by metis
  then show ?case using ih c1 m1 dist by auto
qed

lemma pool_base_ge: "m \<le> pool_base sizes m ts i"
proof (induction ts arbitrary: m)
  case (Cons t ts)
  then show ?case by (auto intro: le_trans [of m "m + memp_num t * sizes t"])
qed simp

lemma pool_base_apart:
  assumes "i \<in> set ts" "j \<in> set ts" "i \<noteq> j"
  shows "pool_base sizes m ts i + memp_num i * sizes i \<le> pool_base sizes m ts j \<or>
    pool_base sizes m ts j + memp_num j * sizes j \<le> pool_base sizes m ts i"
  using assms
proof (induction ts arbitrary: m)
  case (Cons t ts)
  then show ?case using pool_base_ge [of "m + memp_num t * sizes t" sizes ts] by auto
qed simp

lemma memp_types_all: "i \<in> set memp_types \<longleftrightarrow> i \<noteq> MEMP_MAX"
  by (cases i) (simp_all add: memp_types_def)

lemma slots_MEMP_MAX [simp]: "slots sizes m MEMP_MAX = []"
  by (simp add: slots_def elems_def)

text \<open>Elements of the pools never overlap, neither within a pool nor across pools.\<close>

lemma slots_apart:
  assumes x: "x \<in> set (slots sizes m i)" and y: "y \<in> set (slots sizes m j)" and ne: "(i, x) \<noteq> (j, y)"
  shows "x + sizes i \<le> y \<or> y + sizes j \<le> x"
proof (cases "i = j")
  case True
  from x y ne True obtain k l where k: "x = pool_base sizes m memp_types i + k * sizes i"
    and l: "y = pool_base sizes m memp_types i + l * sizes i" and kl: "k \<noteq> l"
    by (auto simp: slots_def elems_mem)
  from kl have "Suc k \<le> l \<or> Suc l \<le> k" by linarith
  then have "Suc k * sizes i \<le> l * sizes i \<or> Suc l * sizes i \<le> k * sizes i"
    using mult_le_mono1 by blast
  then show ?thesis using k l True by auto
next
  case False
  have ij: "i \<in> set memp_types" "j \<in> set memp_types" using x y by (auto simp: memp_types_all)
  show ?thesis
    using pool_base_apart [OF ij False, of sizes m] elems_bounds [OF x [unfolded slots_def]]
      elems_bounds [OF y [unfolded slots_def]] by linarith
qed

lemma slots_layout:
  assumes "\<forall>i. 0 < sizes i" "0 < m"
  shows "layout (slots sizes m)"
proof -
  have "distinct (slots sizes m i)" "length (slots sizes m i) = memp_num i" for i
    using assms by (simp_all add: slots_def elems_distinct) (simp add: elems_def)
  moreover have "0 \<notin> set (slots sizes m i)" for i
    using elems_bounds [of 0 "pool_base sizes m memp_types i" "sizes i" "memp_num i"]
      pool_base_ge [of m sizes memp_types i] assms by (auto simp: slots_def)
  moreover have "set (slots sizes m i) \<inter> set (slots sizes m j) = {}" if "i \<noteq> j" for i j
  proof -
    have "x \<notin> set (slots sizes m j)" if "x \<in> set (slots sizes m i)" for x
      using slots_apart [OF that, of x j] \<open>i \<noteq> j\<close> assms(1) [rule_format, of i] assms(1) [rule_format, of j]
      by auto
    then show ?thesis by blast
  qed
  ultimately show ?thesis by (auto simp: layout_def)
qed

text \<open>The static variables of \<^verbatim>\<open>memp.c\<close> before the first call: \<open>memp_tab\<close> is all NULL.\<close>

definition memp_statics :: "(nat \<Rightarrow> nat) \<Rightarrow> memp_state" where
  "memp_statics nx = \<lparr>memp_tab = \<lambda>_. 0, memp_next = nx\<rparr>"

lemma memp_init_all_free:
  assumes sz: "\<forall>i. 0 < sizes i" and m: "0 < m"
  shows "memp_ok (slots sizes m) (memp_init sizes m (memp_statics nx)) \<and>
    free_elems (memp_init sizes m (memp_statics nx)) i = rev (slots sizes m i)"
proof -
  let ?st = "memp_init sizes m (memp_statics nx)"
  obtain m' where f: "foldl (memp_init_pool sizes) (m, memp_statics nx) memp_types = (m', ?st)"
    by (metis memp_init_def prod.collapse)
  have d: "distinct memp_types" by (simp add: memp_types_def)
  note fl = foldl_init_pools [OF sz m d f]
  have lay: "layout (slots sizes m)" using sz m by (rule slots_layout)
  have "linked (memp_next ?st) (memp_tab ?st i) (rev (slots sizes m i))" for i
    using fl by (cases "i = MEMP_MAX") (auto simp: slots_def memp_types_all memp_statics_def elems_def)
  then have "memp_inv (slots sizes m) ?st (\<lambda>i. rev (slots sizes m i))"
    using lay by (simp add: memp_inv_def layout_def)
  with memp_okI [OF lay] memp_inv_free_elems [OF lay] show ?thesis by simp
qed

section \<open>Properties\<close>

text \<open>
  After \<open>memp_init\<close> every pool is well formed and wholly free, whatever the element sizes are
  (as long as they are positive) and wherever the array lies; and the elements it carves out of
  the one array never overlap, within a pool or across pools.
\<close>

theorem memp_init_correct:
  assumes "\<forall>i. 0 < sizes i" "0 < m"
  shows "memp_ok (slots sizes m) (memp_init sizes m (memp_statics nx)) \<and>
    (\<forall>i. taken (slots sizes m) (memp_init sizes m (memp_statics nx)) i = {} \<and>
       length (slots sizes m i) = memp_num i) \<and>
    (\<forall>i j x y. x \<in> set (slots sizes m i) \<longrightarrow> y \<in> set (slots sizes m j) \<longrightarrow> (i, x) \<noteq> (j, y) \<longrightarrow>
       x + sizes i \<le> y \<or> y + sizes j \<le> x)"
proof -
  have "length (slots sizes m i) = memp_num i" for i
    using slots_layout [OF assms] by (simp add: layout_def)
  then show ?thesis
    using memp_init_all_free [OF assms, of nx] slots_apart [of _ sizes m]
    by (simp add: taken_def)
qed

theorem memp_init_correct_witness:
  "taken (slots (\<lambda>_. 32) 4096) (memp_init (\<lambda>_. 32) 4096 (memp_statics (\<lambda>_. 0))) MEMP_PBUF = {} \<and>
   length (slots (\<lambda>_. 32) 4096 MEMP_PBUF) = 16"
  using memp_init_correct [of "\<lambda>_. 32" 4096 "\<lambda>_. 0"] by simp

text \<open>
  \<open>memp_malloc\<close> hands out an element that nobody holds as long as fewer than \<^verbatim>\<open>memp_num\<close> elements
  of the pool are taken, and NULL (changing nothing) exactly when all of them are; giving the
  element back with \<open>memp_free\<close> restores the taken elements of every pool. An invalid pool number
  stops the process.
\<close>

theorem memp_malloc_correct:
  assumes "memp_ok sl st"
  shows "memp_malloc MEMP_MAX st = Inl Abort \<and>
    (\<forall>i. i \<noteq> MEMP_MAX \<longrightarrow>
      (\<exists>x st'. memp_malloc i st = Inr (x, st') \<and> memp_ok sl st' \<and>
        (if card (taken sl st i) = memp_num i then x = 0 \<and> st' = st
         else x \<in> set (sl i) \<and> (\<forall>j. x \<notin> taken sl st j) \<and>
           taken sl st' = (taken sl st)(i := insert x (taken sl st i)) \<and>
           memp_ok sl (memp_free i x st') \<and> taken sl (memp_free i x st') = taken sl st)))"
proof -
  have "\<exists>x st'. memp_malloc i st = Inr (x, st') \<and> memp_ok sl st' \<and>
        (if card (taken sl st i) = memp_num i then x = 0 \<and> st' = st
         else x \<in> set (sl i) \<and> (\<forall>j. x \<notin> taken sl st j) \<and>
           taken sl st' = (taken sl st)(i := insert x (taken sl st i)) \<and>
           memp_ok sl (memp_free i x st') \<and> taken sl (memp_free i x st') = taken sl st)"
    if i: "i \<noteq> MEMP_MAX" for i
    using assms i
  proof (cases rule: memp.get_cases)
    case none
    then show ?thesis using assms by simp
  next
    case (some x st')
    then have "x \<in> taken sl st' i" by simp
    then have "x \<in> set (sl i)" by (simp add: taken_def)
    then show ?thesis using some memp.get_put [OF assms i some(1,3)] by auto
  qed
  then show ?thesis by (simp add: memp_malloc_def)
qed

theorem memp_malloc_correct_witness:
  "\<exists>x st'. memp_malloc MEMP_UDP_PCB (memp_init (\<lambda>_. 32) 4096 (memp_statics (\<lambda>_. 0))) = Inr (x, st') \<and>
     x \<in> set (slots (\<lambda>_. 32) 4096 MEMP_UDP_PCB)"
proof -
  note i = memp_init_all_free [of "\<lambda>_. 32" 4096 "\<lambda>_. 0" MEMP_UDP_PCB]
  have ok: "memp_ok (slots (\<lambda>_. 32) 4096) (memp_init (\<lambda>_. 32) 4096 (memp_statics (\<lambda>_. 0)))"
    and t: "taken (slots (\<lambda>_. 32) 4096) (memp_init (\<lambda>_. 32) 4096 (memp_statics (\<lambda>_. 0))) MEMP_UDP_PCB = {}"
    using i by (simp_all add: taken_def)
  show ?thesis using memp_malloc_correct [OF ok] t by (auto dest: spec [of _ MEMP_UDP_PCB])
qed

end
