(* ===== verification/Sys_Mbox.thy ===== *)
theory Sys_Mbox
  imports Lwip_Prelude
begin

text \<open>
  \<^verbatim>\<open>src/src/lwip/sys_arch.c\<close>: the semaphores and the mailbox through which threads talk to the
  TCP/IP thread. A mailbox is a ring of \<open>SYS_MBOX_SIZE\<close> slots with two ever-growing \<^verbatim>\<open>int\<close>
  counters; three binary semaphores guard it. The first part models every operation on the
  mailbox, with blocking as a value; the second part interleaves any number of senders and one
  receiver (the TCP/IP thread). A critical section, from \<^verbatim>\<open>sys_arch_sem_wait(&mbox->mutex)\<close> to
  the matching signal, is one step: the mutex excludes every other step in between.
\<close>

section \<open>Semaphores\<close>

type_synonym sys_sem = nat

text \<open>\<open>None\<close>: the caller blocks until somebody signals.\<close>

definition sys_arch_sem_wait :: "sys_sem \<Rightarrow> sys_sem option" where
  "sys_arch_sem_wait c = (if c = 0 then None else Some (c - 1))"

definition sys_sem_signal :: "sys_sem \<Rightarrow> sys_sem" where
  "sys_sem_signal c = (let c' = c + 1 in if c' > 1 then 1 else c')"

section \<open>Mailbox operations\<close>

abbreviation SYS_MBOX_SIZE :: int where "SYS_MBOX_SIZE \<equiv> 128"

record sys_mbox =
  mb_first :: int
  mb_last :: int
  msgs :: "nat \<Rightarrow> nat"
  not_empty :: sys_sem
  not_full :: sys_sem
  mutex :: sys_sem
  wait_send :: int

definition sys_mbox_new :: "(nat \<Rightarrow> nat) \<Rightarrow> sys_mbox" where
  "sys_mbox_new junk =
     \<lparr>mb_first = 0, mb_last = 0, msgs = junk, not_empty = 0, not_full = 0, mutex = 1, wait_send = 0\<rparr>"

text \<open>The \<^verbatim>\<open>int\<close> increments of the counters; leaving the 32-bit range is undefined in C.\<close>

definition int_incr :: "int \<Rightarrow> int res" where
  "int_incr n = (if n + 1 < 2147483648 then Inr (n + 1) else Inl Signed_Overflow)"

definition mbox_full :: "sys_mbox \<Rightarrow> bool res" where
  "mbox_full m =
     (if mb_last m + 1 < 2147483648 \<and> mb_first m + SYS_MBOX_SIZE < 2147483648
      then Inr (mb_last m + 1 \<ge> mb_first m + SYS_MBOX_SIZE) else Inl Signed_Overflow)"

definition mbox_enqueue :: "nat \<Rightarrow> sys_mbox \<Rightarrow> sys_mbox res" where
  "mbox_enqueue msg m =
     (let m1 = m\<lparr>msgs := (msgs m)(nat (mb_last m mod SYS_MBOX_SIZE) := msg)\<rparr>;
          was_empty = (mb_last m1 = mb_first m1)
      in rbind (int_incr (mb_last m1)) (\<lambda>l.
           let m2 = m1\<lparr>mb_last := l\<rparr>
           in Inr (if was_empty then m2\<lparr>not_empty := sys_sem_signal (not_empty m2)\<rparr> else m2)))"

definition mbox_dequeue :: "sys_mbox \<Rightarrow> (nat \<times> sys_mbox) res" where
  "mbox_dequeue m =
     (let msg = msgs m (nat (mb_first m mod SYS_MBOX_SIZE))
      in rbind (int_incr (mb_first m)) (\<lambda>f.
           let m1 = m\<lparr>mb_first := f\<rparr>
           in Inr (msg, if wait_send m1 \<noteq> 0 then m1\<lparr>not_full := sys_sem_signal (not_full m1)\<rparr> else m1)))"

text \<open>Taking and giving back the mutex around a critical section; \<open>None\<close> is blocking on it.\<close>

definition with_mutex :: "(sys_mbox \<Rightarrow> ('a \<times> sys_mbox) res) \<Rightarrow> sys_mbox \<Rightarrow> ('a \<times> sys_mbox) res option" where
  "with_mutex body m =
     (case sys_arch_sem_wait (mutex m) of
        None \<Rightarrow> None
      | Some c \<Rightarrow> Some (rbind (body (m\<lparr>mutex := c\<rparr>)) (\<lambda>(r, m').
          Inr (r, m'\<lparr>mutex := sys_sem_signal (mutex m')\<rparr>))))"

definition sys_mbox_trypost :: "nat \<Rightarrow> sys_mbox \<Rightarrow> (err_t \<times> sys_mbox) res option" where
  "sys_mbox_trypost msg = with_mutex (\<lambda>m.
     rbind (mbox_full m) (\<lambda>full.
       if full then Inr (ERR_MEM, m)
       else rbind (mbox_enqueue msg m) (\<lambda>m'. Inr (ERR_OK, m'))))"

text \<open>
  \<open>sys_mbox_post\<close> between two blocking points. The result tells whether the message went in; if
  it did not, the sender has registered in \<open>wait_send\<close> and waits on \<open>not_full\<close>. \<open>again\<close> is
  true when the sender comes back from that wait.
\<close>

definition sys_mbox_post :: "bool \<Rightarrow> nat \<Rightarrow> sys_mbox \<Rightarrow> (bool \<times> sys_mbox) res option" where
  "sys_mbox_post again msg = with_mutex (\<lambda>m0.
     let m = (if again then m0\<lparr>wait_send := wait_send m0 - 1\<rparr> else m0)
     in rbind (mbox_full m) (\<lambda>full.
          if full then rbind (int_incr (wait_send m)) (\<lambda>w. Inr (False, m\<lparr>wait_send := w\<rparr>))
          else rbind (mbox_enqueue msg m) (\<lambda>m'. Inr (True, m'))))"

text \<open>
  The critical section shared by \<open>sys_arch_mbox_tryfetch\<close> and \<open>sys_arch_mbox_fetch\<close>: \<open>None\<close>
  means the mailbox was empty, upon which the former returns \<^verbatim>\<open>SYS_MBOX_EMPTY\<close> and the latter
  waits on \<open>not_empty\<close> and tries again.
\<close>

definition sys_arch_mbox_tryfetch :: "sys_mbox \<Rightarrow> (nat option \<times> sys_mbox) res option" where
  "sys_arch_mbox_tryfetch = with_mutex (\<lambda>m.
     if mb_first m = mb_last m then Inr (None, m)
     else rbind (mbox_dequeue m) (\<lambda>(msg, m'). Inr (Some msg, m')))"

section \<open>The mailbox is a bounded queue\<close>

definition mbox_queue :: "sys_mbox \<Rightarrow> nat list" where
  "mbox_queue m = map (\<lambda>i. msgs m (nat (i mod SYS_MBOX_SIZE))) [mb_first m..mb_last m - 1]"

text \<open>
  Between steps the mutex is free, the counters are within the ring's size of each other, and no
  counter is close to the end of the \<^verbatim>\<open>int\<close> range.
\<close>

definition mbox_ok :: "sys_mbox \<Rightarrow> bool" where
  "mbox_ok m \<longleftrightarrow> mutex m = 1 \<and> 0 \<le> mb_first m \<and> mb_first m \<le> mb_last m \<and> mb_last m < mb_first m + SYS_MBOX_SIZE \<and>
     not_empty m \<le> 1 \<and> not_full m \<le> 1 \<and> 0 \<le> wait_send m"

text \<open>Room left in the counters: the next \<open>n\<close> posts cannot overflow.\<close>

definition mbox_range :: "int \<Rightarrow> sys_mbox \<Rightarrow> bool" where
  "mbox_range n m \<longleftrightarrow> mb_last m + n + SYS_MBOX_SIZE < 2147483648 \<and> wait_send m + n < 2147483648"

lemma sem_simps [simp]:
  "sys_arch_sem_wait (Suc 0) = Some 0" "sys_sem_signal 0 = 1" "sys_sem_signal (Suc 0) = 1"
  by (simp_all add: sys_arch_sem_wait_def sys_sem_signal_def)

lemma sem_signal_le [simp]: "sys_sem_signal c \<le> 1" "sys_sem_signal c = Suc 0"
  by (simp_all add: sys_sem_signal_def Let_def)

lemma mbox_queue_length: "mbox_ok m \<Longrightarrow> length (mbox_queue m) = nat (mb_last m - mb_first m)"
  by (simp add: mbox_queue_def)

lemma mbox_queue_empty: "mbox_ok m \<Longrightarrow> mbox_queue m = [] \<longleftrightarrow> mb_first m = mb_last m"
  by (auto simp: mbox_queue_def mbox_ok_def)

lemma slot_inj:
  "0 \<le> i \<Longrightarrow> i < j \<Longrightarrow> j < i + SYS_MBOX_SIZE \<Longrightarrow> nat (i mod SYS_MBOX_SIZE) \<noteq> nat (j mod SYS_MBOX_SIZE)"
  by (metis (no_types, opaque_lifting) eq_nat_nat_iff linorder_not_less mod_eq_dvd_iff nat_less_le
      pos_mod_sign zero_less_numeral zdvd_imp_le diff_gt_0_iff_gt diff_less_eq add.commute)

lemma mbox_queue_enqueue:
  assumes "mbox_ok m" "mb_last m + 1 < mb_first m + SYS_MBOX_SIZE"
    "msgs m' = (msgs m)(nat (mb_last m mod SYS_MBOX_SIZE) := msg)" "mb_first m' = mb_first m" "mb_last m' = mb_last m + 1"
  shows "mbox_queue m' = mbox_queue m @ [msg]"
proof -
  have "[mb_first m..mb_last m] = [mb_first m..mb_last m - 1] @ [mb_last m]"
    using assms(1) upto_rec2 [of "mb_first m" "mb_last m"] by (simp add: mbox_ok_def)
  moreover have "nat (i mod SYS_MBOX_SIZE) \<noteq> nat (mb_last m mod SYS_MBOX_SIZE)"
    if "i \<in> set [mb_first m..mb_last m - 1]" for i
    using that assms by (intro slot_inj) (auto simp: mbox_ok_def)
  ultimately show ?thesis using assms by (simp add: mbox_queue_def)
qed

lemma mbox_queue_dequeue:
  assumes "mbox_ok m" "mb_first m \<noteq> mb_last m" "msgs m' = msgs m" "mb_first m' = mb_first m + 1" "mb_last m' = mb_last m"
  shows "mbox_queue m = msgs m (nat (mb_first m mod SYS_MBOX_SIZE)) # mbox_queue m'"
proof -
  have "[mb_first m..mb_last m - 1] = mb_first m # [mb_first m + 1..mb_last m - 1]"
    using assms(1,2) upto_rec1 [of "mb_first m" "mb_last m - 1"] by (simp add: mbox_ok_def)
  then show ?thesis using assms by (simp add: mbox_queue_def)
qed

text \<open>What each critical section does to the abstract queue, whenever it returns at all.\<close>

lemma enqueue_spec:
  assumes ok: "mbox_ok m" and room: "mb_last m + 1 < mb_first m + SYS_MBOX_SIZE" and r: "mbox_enqueue msg m = Inr m'"
  shows "mbox_queue m' = mbox_queue m @ [msg] \<and> mbox_ok m' \<and> wait_send m' = wait_send m \<and>
    not_full m' = not_full m \<and> not_empty m' = (if mbox_queue m = [] then 1 else not_empty m)"
proof -
  from r have m': "m' = (let m2 = m\<lparr>msgs := (msgs m)(nat (mb_last m mod SYS_MBOX_SIZE) := msg), mb_last := mb_last m + 1\<rparr>
      in if mb_last m = mb_first m then m2\<lparr>not_empty := 1\<rparr> else m2)"
    by (auto simp: mbox_enqueue_def int_incr_def Let_def split: if_splits)
  then have "mbox_queue m' = mbox_queue m @ [msg]"
    by (intro mbox_queue_enqueue [OF ok room]) (auto simp: Let_def)
  with m' ok room show ?thesis
    by (auto simp: mbox_queue_empty [OF ok] mbox_ok_def Let_def)
qed

lemma mutex_cases:
  assumes "mutex m = 1"
  shows "with_mutex body m = Some (rbind (body (m\<lparr>mutex := 0\<rparr>)) (\<lambda>(r, m'). Inr (r, m'\<lparr>mutex := 1\<rparr>)))"
  using assms by (simp add: with_mutex_def split_def)

lemma mbox_ok_mutex: "mbox_ok m \<Longrightarrow> mutex m = 1"
  by (simp add: mbox_ok_def)

lemma mbox_queue_mutex [simp]: "mbox_queue (m\<lparr>mutex := c\<rparr>) = mbox_queue m"
  "mbox_queue (m\<lparr>wait_send := w\<rparr>) = mbox_queue m" "mbox_queue (m\<lparr>not_full := c\<rparr>) = mbox_queue m"
  "mbox_queue (m\<lparr>not_empty := c\<rparr>) = mbox_queue m"
  by (simp_all add: mbox_queue_def)

lemma mbox_enqueue_mutex:
  "mbox_enqueue msg (m\<lparr>mutex := c\<rparr>) = rbind (mbox_enqueue msg m) (\<lambda>m'. Inr (m'\<lparr>mutex := c\<rparr>))"
  by (simp add: mbox_enqueue_def Let_def int_incr_def)

lemma mbox_restore: "m\<lparr>mutex := c, mutex := mutex m\<rparr> = m"
  by simp

text \<open>The effect of putting a message in.\<close>

definition put_effect :: "nat \<Rightarrow> sys_mbox \<Rightarrow> sys_mbox \<Rightarrow> bool" where
  "put_effect msg m m' \<longleftrightarrow> mbox_queue m' = mbox_queue m @ [msg] \<and> mbox_ok m' \<and> wait_send m' = wait_send m \<and>
    not_full m' = not_full m \<and> not_empty m' = (if mbox_queue m = [] then 1 else not_empty m)"

lemma put_effect_enqueue:
  assumes ok: "mbox_ok m" and full: "mbox_full m = Inr False" and r: "mbox_enqueue msg m = Inr m'"
  shows "put_effect msg m m'" and "mutex m' = 1"
proof -
  have "mb_last m + 1 < mb_first m + SYS_MBOX_SIZE"
    using full by (auto simp: mbox_full_def split: if_splits)
  from enqueue_spec [OF ok this r] show "put_effect msg m m'" by (simp add: put_effect_def)
  then show "mutex m' = 1" by (simp add: put_effect_def mbox_ok_def)
qed

lemma full_length:
  assumes "mbox_ok m" "mbox_full m = Inr b"
  shows "b \<longleftrightarrow> length (mbox_queue m) = 127"
  using assms by (auto simp: mbox_full_def mbox_queue_length mbox_ok_def split: if_splits)

lemma mbox_full_fields [simp]: "mbox_full (m\<lparr>mutex := c\<rparr>) = mbox_full m" "mbox_full (m\<lparr>wait_send := w\<rparr>) = mbox_full m"
  by (simp_all add: mbox_full_def)

lemma trypost_spec:
  assumes ok: "mbox_ok m" and r: "sys_mbox_trypost msg m = Some (Inr (e, m'))"
  shows "if length (mbox_queue m) = 127 then e = ERR_MEM \<and> m' = m else e = ERR_OK \<and> put_effect msg m m'"
proof -
  have mt: "mutex m = 1" using ok by (rule mbox_ok_mutex)
  from r obtain b where b: "mbox_full m = Inr b"
    and c: "(if b then Inr (ERR_MEM, m) else rbind (mbox_enqueue msg m) (\<lambda>m'. Inr (ERR_OK, m'\<lparr>mutex := 1\<rparr>))) = Inr (e, m')"
    using mt by (cases "mbox_full m")
      (auto simp: sys_mbox_trypost_def mutex_cases [OF mt] mbox_enqueue_mutex split: if_splits)
  then show ?thesis
    using full_length [OF ok b] put_effect_enqueue [OF ok, of msg]
    by (cases b) (auto, metis (full_types) old.unit.exhaust sys_mbox.surjective sys_mbox.update_convs(6))
qed

lemma mutex_one [simp]: "mutex m = Suc 0 \<Longrightarrow> m\<lparr>mutex := Suc 0\<rparr> = m"
  by simp

lemma mbox_enqueue_wait:
  "mbox_enqueue msg (m\<lparr>wait_send := w\<rparr>) = rbind (mbox_enqueue msg m) (\<lambda>m'. Inr (m'\<lparr>wait_send := w\<rparr>))"
  by (simp add: mbox_enqueue_def Let_def int_incr_def)

text \<open>
  One round of \<open>sys_mbox_post\<close>: \<open>w\<close> is the number of registered senders other than the caller.
\<close>

lemma post_spec:
  assumes ok: "mbox_ok m" and r: "sys_mbox_post again msg m = Some (Inr (dn, m'))"
    and w: "w = (if again then wait_send m - 1 else wait_send m)" "0 \<le> w"
  shows "if length (mbox_queue m) = 127 then \<not> dn \<and> m' = m\<lparr>wait_send := w + 1\<rparr>
    else dn \<and> put_effect msg (m\<lparr>wait_send := w\<rparr>) m'"
proof -
  let ?m = "m\<lparr>wait_send := w\<rparr>"
  have okw: "mbox_ok ?m" using ok w by (simp add: mbox_ok_def)
  have mt: "mutex m = 1" using ok by (rule mbox_ok_mutex)
  have eq: "(let m0 = m\<lparr>mutex := 0\<rparr> in if again then m0\<lparr>wait_send := wait_send m0 - 1\<rparr> else m0) = ?m\<lparr>mutex := 0\<rparr>"
    using w by (cases again) simp_all
  from r obtain b where b: "mbox_full ?m = Inr b"
    and c: "(if b then rbind (int_incr w) (\<lambda>v. Inr (False, m\<lparr>wait_send := v\<rparr>))
       else rbind (mbox_enqueue msg ?m) (\<lambda>m'. Inr (True, m'\<lparr>mutex := 1\<rparr>))) = Inr (dn, m')"
    using mt unfolding sys_mbox_post_def mutex_cases [OF mt] eq [unfolded Let_def] Let_def
    by (cases "mbox_full m") (auto simp: mbox_enqueue_mutex int_incr_def split: if_splits)
  show ?thesis
  proof (cases b)
    case True
    then show ?thesis using c full_length [OF okw b] by (auto simp: int_incr_def split: if_splits)
  next
    case False
    then obtain m1 where m1: "mbox_enqueue msg ?m = Inr m1" "dn" "m' = m1\<lparr>mutex := 1\<rparr>" using c by auto
    have "put_effect msg ?m m1" "mutex m1 = 1"
      using put_effect_enqueue [OF okw _ m1(1)] b False by auto
    then show ?thesis using False full_length [OF okw b] m1 by auto
  qed
qed

lemma fetch_spec:
  assumes ok: "mbox_ok m" and r: "sys_arch_mbox_tryfetch m = Some (Inr (x, m'))"
  shows "case mbox_queue m of [] \<Rightarrow> x = None \<and> m' = m
    | q # qs \<Rightarrow> x = Some q \<and> mbox_queue m' = qs \<and> mbox_ok m' \<and> wait_send m' = wait_send m \<and>
        not_empty m' = not_empty m \<and> not_full m' = (if wait_send m \<noteq> 0 then 1 else not_full m)"
proof -
  have mt: "mutex m = 1" using ok by (rule mbox_ok_mutex)
  show ?thesis
  proof (cases "mb_first m = mb_last m")
    case True
    then show ?thesis
      using r mt mbox_queue_empty [OF ok] by (auto simp: sys_arch_mbox_tryfetch_def mutex_cases [OF mt])
  next
    case False
    have m': "x = Some (msgs m (nat (mb_first m mod SYS_MBOX_SIZE)))"
      "m' = (let m1 = m\<lparr>mb_first := mb_first m + 1\<rparr> in if wait_send m \<noteq> 0 then m1\<lparr>not_full := 1\<rparr> else m1)"
      using r False mt by (auto simp: sys_arch_mbox_tryfetch_def mutex_cases [OF mt] mbox_dequeue_def
          Let_def int_incr_def split: if_splits)
    then have "mbox_queue m = msgs m (nat (mb_first m mod SYS_MBOX_SIZE)) # mbox_queue m'"
      by (intro mbox_queue_dequeue [OF ok False]) (auto simp: Let_def)
    then show ?thesis using m' ok False by (auto simp: mbox_ok_def Let_def)
  qed
qed

section \<open>Senders and a receiver, interleaved\<close>

datatype sender = S_idle | S_wait nat | S_woken nat
datatype receiver = R_idle | R_wait | R_woken

record mbox_sys =
  box :: sys_mbox
  senders :: "nat \<Rightarrow> sender"
  receiver :: receiver
  posted :: "nat list"
  fetched :: "nat list"

text \<open>
  \<open>posted\<close> and \<open>fetched\<close> record the messages in the order in which they went in and came out.
  A sender that finds the mailbox full waits on \<open>not_full\<close>, takes the semaphore once it is
  signalled and starts another round; the receiver does the same on \<open>not_empty\<close>, or gives up on
  a timeout.
\<close>

inductive mbox_step :: "mbox_sys \<Rightarrow> mbox_sys \<Rightarrow> bool" where
  trypost: "sys_mbox_trypost msg (box s) = Some (Inr (e, m)) \<Longrightarrow>
    mbox_step s (s\<lparr>box := m, posted := (if e = ERR_OK then posted s @ [msg] else posted s)\<rparr>)"
| post: "senders s t = S_idle \<Longrightarrow> sys_mbox_post False msg (box s) = Some (Inr (d, m)) \<Longrightarrow>
    mbox_step s (s\<lparr>box := m, senders := (senders s)(t := if d then S_idle else S_wait msg),
      posted := (if d then posted s @ [msg] else posted s)\<rparr>)"
| wake_sender: "senders s t = S_wait msg \<Longrightarrow> sys_arch_sem_wait (not_full (box s)) = Some c \<Longrightarrow>
    mbox_step s (s\<lparr>box := (box s)\<lparr>not_full := c\<rparr>, senders := (senders s)(t := S_woken msg)\<rparr>)"
| post_again: "senders s t = S_woken msg \<Longrightarrow> sys_mbox_post True msg (box s) = Some (Inr (d, m)) \<Longrightarrow>
    mbox_step s (s\<lparr>box := m, senders := (senders s)(t := if d then S_idle else S_wait msg),
      posted := (if d then posted s @ [msg] else posted s)\<rparr>)"
| fetch: "receiver s \<noteq> R_wait \<Longrightarrow> sys_arch_mbox_tryfetch (box s) = Some (Inr (Some msg, m)) \<Longrightarrow>
    mbox_step s (s\<lparr>box := m, receiver := R_idle, fetched := fetched s @ [msg]\<rparr>)"
| fetch_block: "receiver s \<noteq> R_wait \<Longrightarrow> sys_arch_mbox_tryfetch (box s) = Some (Inr (None, m)) \<Longrightarrow>
    mbox_step s (s\<lparr>box := m, receiver := R_wait\<rparr>)"
| tryfetch_empty: "receiver s = R_idle \<Longrightarrow> sys_arch_mbox_tryfetch (box s) = Some (Inr (None, m)) \<Longrightarrow>
    mbox_step s (s\<lparr>box := m\<rparr>)"
| wake_receiver: "receiver s = R_wait \<Longrightarrow> sys_arch_sem_wait (not_empty (box s)) = Some c \<Longrightarrow>
    mbox_step s (s\<lparr>box := (box s)\<lparr>not_empty := c\<rparr>, receiver := R_woken\<rparr>)"
| fetch_timeout: "receiver s = R_wait \<Longrightarrow> mbox_step s (s\<lparr>receiver := R_idle\<rparr>)"

definition mbox_start :: "(nat \<Rightarrow> nat) \<Rightarrow> mbox_sys" where
  "mbox_start junk =
     \<lparr>box = sys_mbox_new junk, senders = \<lambda>_. S_idle, receiver = R_idle, posted = [], fetched = []\<rparr>"

inductive mbox_reach :: "mbox_sys \<Rightarrow> bool" where
  start: "mbox_reach (mbox_start junk)"
| step: "mbox_reach s \<Longrightarrow> mbox_step s s' \<Longrightarrow> mbox_reach s'"

definition registered :: "mbox_sys \<Rightarrow> nat set" where
  "registered s = {t. senders s t \<noteq> S_idle}"

text \<open>
  The invariant. The last two clauses exclude lost wake-ups: a waiting receiver has its signal if
  there is mail, and a waiting sender has a signal or a woken sender in front of it, or there is
  mail whose removal will signal it.
\<close>

definition mbox_inv :: "mbox_sys \<Rightarrow> bool" where
  "mbox_inv s \<longleftrightarrow>
     mbox_ok (box s) \<and> posted s = fetched s @ mbox_queue (box s) \<and>
     finite (registered s) \<and> wait_send (box s) = int (card (registered s)) \<and>
     (receiver s = R_wait \<longrightarrow> mbox_queue (box s) \<noteq> [] \<longrightarrow> not_empty (box s) = 1) \<and>
     ((\<exists>t msg. senders s t = S_wait msg) \<longrightarrow>
        not_full (box s) = 1 \<or> (\<exists>t msg. senders s t = S_woken msg) \<or> mbox_queue (box s) \<noteq> [])"

lemma mbox_start_inv: "mbox_inv (mbox_start junk)"
  by (simp add: mbox_inv_def mbox_start_def sys_mbox_new_def mbox_ok_def registered_def mbox_queue_def)

lemma registered_upd:
  "senders s' = (senders s)(t := x) \<Longrightarrow>
     registered s' = (if x = S_idle then registered s - {t} else insert t (registered s))"
  by (auto simp: registered_def)

lemma card_registered:
  assumes "finite (registered s)" "t \<in> registered s"
  shows "int (card (registered s - {t})) = int (card (registered s)) - 1" "0 < card (registered s)"
proof -
  show *: "0 < card (registered s)" using assms by (auto simp: card_gt_0_iff)
  show "int (card (registered s - {t})) = int (card (registered s)) - 1"
    using assms * by (simp add: card_Diff_singleton of_nat_diff Suc_le_eq)
qed

text \<open>A round of \<open>sys_mbox_post\<close> by sender \<open>t\<close>, first or repeated.\<close>

lemma post_round_inv:
  assumes inv: "mbox_inv s" and r: "sys_mbox_post again msg (box s) = Some (Inr (d, m))"
    and t: "again \<longleftrightarrow> t \<in> registered s"
    and s': "s' = s\<lparr>box := m, senders := (senders s)(t := if d then S_idle else S_wait msg),
      posted := (if d then posted s @ [msg] else posted s)\<rparr>"
  shows "mbox_inv s'"
proof -
  let ?w = "int (card (registered s - {t}))"
  from inv have ok: "mbox_ok (box s)" and fin: "finite (registered s)"
    and ws: "wait_send (box s) = int (card (registered s))" by (auto simp: mbox_inv_def)
  have w: "?w = (if again then wait_send (box s) - 1 else wait_send (box s))"
    using t ws card_registered [OF fin, of t] by auto
  have reg: "registered s' = (if d then registered s - {t} else insert t (registered s))"
    by (subst registered_upd [of s' s t]) (auto simp: s')
  have card: "int (card (insert t (registered s))) = ?w + 1"
    using fin by (simp add: card.insert_remove)
  show ?thesis
  proof (cases "length (mbox_queue (box s)) = 127")
    case True
    then have "\<not> d" "m = (box s)\<lparr>wait_send := ?w + 1\<rparr>" and ne: "mbox_queue (box s) \<noteq> []"
      using post_spec [OF ok r w] by auto
    with inv reg card fin show ?thesis by (auto simp: mbox_inv_def s' mbox_ok_def)
  next
    case False
    then have "d" "put_effect msg ((box s)\<lparr>wait_send := ?w\<rparr>) m"
      using post_spec [OF ok r w] by auto
    with inv reg fin show ?thesis by (auto simp: mbox_inv_def s' put_effect_def)
  qed
qed

lemma mbox_step_inv:
  assumes "mbox_step s s'" "mbox_inv s"
  shows "mbox_inv s'"
  using assms
proof (induction rule: mbox_step.induct)
  case (trypost msg s e m)
  then have ok: "mbox_ok (box s)" by (simp add: mbox_inv_def)
  show ?case
    using trypost_spec [OF ok trypost(1)] trypost(2)
    by (auto simp: mbox_inv_def put_effect_def registered_def split: if_splits)
next
  case (post s t msg d m)
  show ?case
    by (rule post_round_inv [OF post(3) post(2), where t = t]) (use post(1) in \<open>auto simp: registered_def\<close>)
next
  case (wake_sender s t msg c)
  then have "registered (s\<lparr>box := (box s)\<lparr>not_full := c\<rparr>, senders := (senders s)(t := S_woken msg)\<rparr>) = registered s"
    by (auto simp: registered_def)
  with wake_sender show ?case
    by (auto simp: mbox_inv_def mbox_ok_def sys_arch_sem_wait_def split: if_splits)
next
  case (post_again s t msg d m)
  show ?case
    by (rule post_round_inv [OF post_again(3) post_again(2), where t = t]) (use post_again(1) in \<open>auto simp: registered_def\<close>)
next
  case (fetch s msg m)
  then have ok: "mbox_ok (box s)" by (simp add: mbox_inv_def)
  show ?case
    using fetch_spec [OF ok fetch(2)] fetch(1,3)
    by (auto simp: mbox_inv_def registered_def split: list.splits)
next
  case (fetch_block s m)
  then have ok: "mbox_ok (box s)" by (simp add: mbox_inv_def)
  show ?case
    using fetch_spec [OF ok fetch_block(2)] fetch_block(3)
    by (auto simp: mbox_inv_def registered_def split: list.splits)
next
  case (tryfetch_empty s m)
  then have ok: "mbox_ok (box s)" by (simp add: mbox_inv_def)
  show ?case
    using fetch_spec [OF ok tryfetch_empty(2)] tryfetch_empty(3)
    by (auto simp: mbox_inv_def registered_def split: list.splits)
next
  case (wake_receiver s c)
  then show ?case
    by (auto simp: mbox_inv_def registered_def mbox_ok_def sys_arch_sem_wait_def split: if_splits)
next
  case (fetch_timeout s)
  then show ?case by (auto simp: mbox_inv_def registered_def)
qed

lemma mbox_reach_inv: "mbox_reach s \<Longrightarrow> mbox_inv s"
  by (induction rule: mbox_reach.induct) (auto intro: mbox_start_inv mbox_step_inv)

section \<open>Properties\<close>

text \<open>
  C2. Whatever senders and the receiver do, and however their steps interleave, the mailbox
  delivers every message exactly once and in the order of posting, and never holds more than
  127 messages.
\<close>

theorem mbox_delivers_in_order:
  assumes "mbox_reach s"
  shows "posted s = fetched s @ mbox_queue (box s) \<and> length (mbox_queue (box s)) \<le> 127"
  using mbox_reach_inv [OF assms] by (auto simp: mbox_inv_def mbox_queue_length mbox_ok_def)

text \<open>
  C31. No wake-up is lost: a receiver that is blocked in \<open>sys_arch_mbox_fetch\<close> with no signal
  pending faces an empty mailbox, and then no sender is stuck either, for a waiting sender has its
  signal pending or another sender is already awake; so sender and receiver never wait for each
  other.
\<close>

theorem mbox_no_lost_wakeup:
  assumes "mbox_reach s" "receiver s = R_wait" "sys_arch_sem_wait (not_empty (box s)) = None"
  shows "mbox_queue (box s) = [] \<and>
    ((\<exists>t msg. senders s t = S_wait msg) \<longrightarrow>
      (\<exists>c. sys_arch_sem_wait (not_full (box s)) = Some c) \<or> (\<exists>t msg. senders s t = S_woken msg))"
  using mbox_reach_inv [OF assms(1)] assms(2,3)
  by (auto simp: mbox_inv_def sys_arch_sem_wait_def split: if_splits)

lemma empty_fetch: "sys_arch_mbox_tryfetch (sys_mbox_new junk) = Some (Inr (None, sys_mbox_new junk))"
  by (simp add: sys_arch_mbox_tryfetch_def with_mutex_def sys_mbox_new_def)

lemma one_post: "\<exists>m. sys_mbox_trypost 7 (sys_mbox_new (\<lambda>_. 0)) = Some (Inr (ERR_OK, m))"
  by (simp add: sys_mbox_trypost_def with_mutex_def sys_mbox_new_def mbox_full_def mbox_enqueue_def int_incr_def)

theorem mbox_delivers_in_order_witness:
  "\<exists>s. mbox_reach s \<and> posted s = [7] \<and> mbox_queue (box s) = [7]"
proof -
  obtain m where m: "sys_mbox_trypost 7 (box (mbox_start (\<lambda>_. 0))) = Some (Inr (ERR_OK, m))"
    using one_post by (auto simp: mbox_start_def)
  let ?s = "(mbox_start (\<lambda>_. 0))\<lparr>box := m, posted := [7]\<rparr>"
  have "mbox_reach ?s"
    using mbox_step.trypost [OF m] mbox_reach.step [OF mbox_reach.start [of "\<lambda>_. 0"]]
    by (simp add: mbox_start_def)
  with mbox_delivers_in_order [OF this] show ?thesis by (intro exI [of _ ?s]) (simp add: mbox_start_def)
qed

theorem mbox_no_lost_wakeup_witness:
  "\<exists>s. mbox_reach s \<and> receiver s = R_wait \<and> mbox_queue (box s) = []"
proof -
  have f: "sys_arch_mbox_tryfetch (box (mbox_start (\<lambda>_. 0))) = Some (Inr (None, sys_mbox_new (\<lambda>_. 0)))"
    using empty_fetch by (simp add: mbox_start_def)
  let ?s = "(mbox_start (\<lambda>_. 0))\<lparr>box := sys_mbox_new (\<lambda>_. 0), receiver := R_wait\<rparr>"
  have r: "mbox_reach ?s"
    using mbox_step.fetch_block [OF _ f] mbox_reach.step [OF mbox_reach.start [of "\<lambda>_. 0"]]
    by (simp add: mbox_start_def)
  have "sys_arch_sem_wait (not_empty (box ?s)) = None" by (simp add: sys_mbox_new_def sys_arch_sem_wait_def)
  with mbox_no_lost_wakeup [OF r] r show ?thesis by (intro exI [of _ ?s]) simp
qed

text \<open>
  The counters are never reset: a mailbox through which \<open>2 ^ 31 - 1\<close> messages have passed runs
  into signed overflow on the next post even when it is empty, while below that limit \<open>sys_mbox_trypost\<close> returns and fails only on a full mailbox.
\<close>

theorem mbox_counter_overflow:
  "mbox_ok m \<Longrightarrow>
     (if mb_last m = 2147483647 then sys_mbox_trypost msg m = Some (Inl Signed_Overflow)
      else mb_first m + SYS_MBOX_SIZE < 2147483648 \<and> mb_last m < 2147483647 \<longrightarrow>
        (\<exists>m'. sys_mbox_trypost msg m =
          Some (Inr (if length (mbox_queue m) = 127 then ERR_MEM else ERR_OK, m'))))"
proof -
  assume ok: "mbox_ok m"
  have mt: "mutex m = 1" using ok by (rule mbox_ok_mutex)
  have len: "length (mbox_queue m) = nat (mb_last m - mb_first m)" using ok by (rule mbox_queue_length)
  show ?thesis
    using ok len
    by (auto simp: sys_mbox_trypost_def mutex_cases [OF mt] mbox_full_def mbox_enqueue_def int_incr_def
        mbox_ok_def Let_def)
qed

theorem mbox_counter_overflow_witness:
  "\<exists>m. mbox_ok m \<and> mbox_queue m = [] \<and> sys_mbox_trypost 7 m = Some (Inl Signed_Overflow)"
proof -
  let ?m = "(sys_mbox_new (\<lambda>_. 0))\<lparr>mb_first := 2147483647, mb_last := 2147483647\<rparr>"
  have "mbox_ok ?m" "mbox_queue ?m = []" by (simp_all add: mbox_ok_def sys_mbox_new_def mbox_queue_def)
  with mbox_counter_overflow [of ?m 7] show ?thesis by (intro exI [of _ ?m]) (simp add: sys_mbox_new_def)
qed

end
