(* ===== verification/Pbuf.thy ===== *)
theory Pbuf
  imports Mem_Alloc Memp_Pool Sys_Mbox
begin

text \<open>
  \<^verbatim>\<open>src/src/lwip/core/pbuf.c\<close>: packet buffers. A \<^verbatim>\<open>struct pbuf\<close> is a record found at an address
  (\<open>pbufs\<close>); its payload is a range of the byte memory (\<open>bytes\<close>). The state also holds what
  the code allocates from (the heap and the pools), the originals that custom pbufs of
  \<^verbatim>\<open>ip_frag.c\<close> refer to, and the flag and mailbox through which an empty pool asks the TCP/IP
  thread for memory. Fields of type \<^verbatim>\<open>u16_t\<close> are numbers reduced modulo \<open>2 ^ 16\<close> where C
  truncates; NULL is 0. \<^verbatim>\<open>LWIP_ASSERT\<close> and \<^verbatim>\<open>LWIP_ERROR\<close> stop the run.

  Loops over chains have fuel \<open>PBUF_MAX\<close>: with the pool sizes of \<^verbatim>\<open>opt.h\<close> and a heap of 16384
  bytes fewer than 1024 pbufs can exist at a time.
\<close>

section \<open>State\<close>

abbreviation SIZEOF_STRUCT_PBUF :: nat where "SIZEOF_STRUCT_PBUF \<equiv> 24"
abbreviation PBUF_POOL_BUFSIZE :: nat where "PBUF_POOL_BUFSIZE \<equiv> 1078"
abbreviation PBUF_MAX :: nat where "PBUF_MAX \<equiv> 1024"

datatype pbuf_layer = PBUF_TRANSPORT | PBUF_IP | PBUF_LINK | PBUF_RAW
datatype pbuf_type = PBUF_RAM | PBUF_ROM | PBUF_REF | PBUF_POOL

abbreviation PBUF_FLAG_PUSH :: u8 where "PBUF_FLAG_PUSH \<equiv> 0x01"
abbreviation PBUF_FLAG_IS_CUSTOM :: u8 where "PBUF_FLAG_IS_CUSTOM \<equiv> 0x02"
abbreviation PBUF_FLAG_LLBCAST :: u8 where "PBUF_FLAG_LLBCAST \<equiv> 0x08"
abbreviation PBUF_FLAG_LLMCAST :: u8 where "PBUF_FLAG_LLMCAST \<equiv> 0x10"

record pbuf =
  pnext :: nat
  payload :: nat
  tot_len :: nat
  plen :: nat
  ptype :: pbuf_type
  pflags :: u8
  ref :: nat

record pb_state =
  heap :: mem_heap
  pools :: memp_state
  pbufs :: "nat \<Rightarrow> pbuf"
  bytes :: "nat \<Rightarrow> u8"
  custom :: "nat \<Rightarrow> nat option"
  ooseq_pending :: bool
  tcpip_mbox :: "sys_mbox option"

definition read_bytes :: "(nat \<Rightarrow> u8) \<Rightarrow> nat \<Rightarrow> nat \<Rightarrow> bytes" where
  "read_bytes m a n = map (\<lambda>i. m (a + i)) [0..<n]"

definition write_bytes :: "nat \<Rightarrow> bytes \<Rightarrow> (nat \<Rightarrow> u8) \<Rightarrow> nat \<Rightarrow> u8" where
  "write_bytes a bs m = (\<lambda>i. if a \<le> i \<and> i < a + length bs then bs ! (i - a) else m i)"

text \<open>\<^verbatim>\<open>MEMCPY(dst, src, n)\<close>.\<close>

definition memcpy :: "nat \<Rightarrow> nat \<Rightarrow> nat \<Rightarrow> pb_state \<Rightarrow> pb_state" where
  "memcpy dst src n s = s\<lparr>bytes := write_bytes dst (read_bytes (bytes s) src n) (bytes s)\<rparr>"

definition upd :: "nat \<Rightarrow> (pbuf \<Rightarrow> pbuf) \<Rightarrow> pb_state \<Rightarrow> pb_state" where
  "upd q f s = s\<lparr>pbufs := (pbufs s)(q := f (pbufs s q))\<rparr>"

section \<open>Asking the TCP/IP thread for memory\<close>

text \<open>\<open>tcpip_callback_with_block\<close> of \<^verbatim>\<open>tcpip.c\<close> with \<^verbatim>\<open>block = 0\<close>.\<close>

definition tcpip_trycallback :: "pb_state \<Rightarrow> (err_t \<times> pb_state) res" where
  "tcpip_trycallback s =
     (case tcpip_mbox s of
        None \<Rightarrow> Inr (ERR_VAL, s)
      | Some mb \<Rightarrow>
          rbind (memp_malloc MEMP_TCPIP_MSG_API (pools s)) (\<lambda>(msg, ps).
            if msg = 0 then Inr (ERR_MEM, s\<lparr>pools := ps\<rparr>)
            else case sys_mbox_trypost msg mb of
                None \<Rightarrow> Inl Blocked
              | Some r \<Rightarrow> rbind r (\<lambda>(e, mb').
                  if e = ERR_OK then Inr (ERR_OK, s\<lparr>pools := ps, tcpip_mbox := Some mb'\<rparr>)
                  else Inr (ERR_MEM, s\<lparr>pools := memp_free MEMP_TCPIP_MSG_API msg ps, tcpip_mbox := Some mb'\<rparr>))))"

definition pbuf_pool_is_empty :: "pb_state \<Rightarrow> pb_state res" where
  "pbuf_pool_is_empty s =
     (let queued = ooseq_pending s; s1 = s\<lparr>ooseq_pending := True\<rparr>
      in if \<not> queued
         then rbind (tcpip_trycallback s1) (\<lambda>(e, s2).
           Inr (if e \<noteq> ERR_OK then s2\<lparr>ooseq_pending := False\<rparr> else s2))
         else Inr s1)"

section \<open>Releasing pbufs\<close>

definition is_custom :: "pbuf \<Rightarrow> bool" where
  "is_custom pb \<longleftrightarrow> pflags pb AND PBUF_FLAG_IS_CUSTOM \<noteq> 0"

text \<open>
  The loop of \<open>pbuf_free\<close>, counting what it releases. A custom pbuf is released through its
  \<^verbatim>\<open>custom_free_function\<close>; the only one in the stack is \<^verbatim>\<open>ipfrag_free_pbuf_custom\<close>, which drops the
  reference to the original pbuf and returns the element to its pool. \<open>custom s p = None\<close> stands
  for a NULL function pointer.
\<close>

primrec free_loop :: "nat \<Rightarrow> nat \<Rightarrow> nat \<Rightarrow> pb_state \<Rightarrow> (nat \<times> pb_state) res" where
  "free_loop 0 p count s = Inl No_Fuel"
| "free_loop (Suc fuel) p count s =
     (if p = 0 then Inr (count, s)
      else if ref (pbufs s p) = 0 then Inl Abort
      else
        let r = ref (pbufs s p) - 1;
            s1 = upd p (\<lambda>b. b\<lparr>ref := r\<rparr>) s in
        if r = 0 then
          let q = pnext (pbufs s1 p) in
          rbind
            (if is_custom (pbufs s1 p) then
               (case custom s1 p of
                  None \<Rightarrow> Inl Abort
                | Some orig \<Rightarrow>
                    rbind (if orig \<noteq> 0 then rbind (free_loop fuel orig 0 s1) (\<lambda>(_, s2). Inr s2) else Inr s1)
                      (\<lambda>s2. Inr (s2\<lparr>pools := memp_free MEMP_FRAG_PBUF p (pools s2)\<rparr>)))
             else case ptype (pbufs s1 p) of
                 PBUF_POOL \<Rightarrow> Inr (s1\<lparr>pools := memp_free MEMP_PBUF_POOL p (pools s1)\<rparr>)
               | PBUF_ROM \<Rightarrow> Inr (s1\<lparr>pools := memp_free MEMP_PBUF p (pools s1)\<rparr>)
               | PBUF_REF \<Rightarrow> Inr (s1\<lparr>pools := memp_free MEMP_PBUF p (pools s1)\<rparr>)
               | PBUF_RAM \<Rightarrow> rbind (mem_free p (heap s1)) (\<lambda>h. Inr (s1\<lparr>heap := h\<rparr>)))
            (\<lambda>s2. free_loop fuel q ((count + 1) mod 256) s2)
        else Inr (count, s1))"

definition pbuf_free :: "nat \<Rightarrow> pb_state \<Rightarrow> (nat \<times> pb_state) res" where
  "pbuf_free p s = (if p = 0 then Inl Abort else free_loop PBUF_MAX p 0 s)"

section \<open>Allocating pbufs\<close>

definition layer_offset :: "pbuf_layer \<Rightarrow> nat" where
  "layer_offset l = (case l of PBUF_TRANSPORT \<Rightarrow> 14 + 20 + 20 | PBUF_IP \<Rightarrow> 14 + 20 | PBUF_LINK \<Rightarrow> 14 | PBUF_RAW \<Rightarrow> 0)"

text \<open>
  The loop that allocates the tail of a \<^verbatim>\<open>PBUF_POOL\<close> chain behind \<open>r\<close>; every round takes a buffer
  off \<open>rem_len\<close>, so at most 61 rounds are needed. The result is False when the pool ran out and
  the chain has been freed again.
\<close>

primrec alloc_tail :: "nat \<Rightarrow> nat \<Rightarrow> nat \<Rightarrow> nat \<Rightarrow> pb_state \<Rightarrow> (bool \<times> pb_state) res" where
  "alloc_tail 0 p r rem_len s = Inl No_Fuel"
| "alloc_tail (Suc fuel) p r rem_len s =
     (if rem_len > 0 then
        rbind (memp_malloc MEMP_PBUF_POOL (pools s)) (\<lambda>(q, ps).
          if q = 0 then
            rbind (pbuf_pool_is_empty (s\<lparr>pools := ps\<rparr>)) (\<lambda>s1.
              rbind (pbuf_free p s1) (\<lambda>(_, s2). Inr (False, s2)))
          else if \<not> rem_len < 0xffff then Inl Abort
          else
            let s1 = upd q (\<lambda>b. b\<lparr>ptype := PBUF_POOL, pflags := 0, pnext := 0\<rparr>) (s\<lparr>pools := ps\<rparr>);
                s2 = upd r (\<lambda>b. b\<lparr>pnext := q\<rparr>) s1;
                s3 = upd q (\<lambda>b. b\<lparr>tot_len := rem_len, plen := min rem_len PBUF_POOL_BUFSIZE,
                       payload := q + SIZEOF_STRUCT_PBUF\<rparr>) s2 in
            if \<not> payload (pbufs s3 p) + plen (pbufs s3 p) \<le> p + SIZEOF_STRUCT_PBUF + PBUF_POOL_BUFSIZE
            then Inl Abort
            else
              let s4 = upd q (\<lambda>b. b\<lparr>ref := 1\<rparr>) s3 in
              alloc_tail fuel p q (rem_len - plen (pbufs s4 q)) s4)
      else Inr (True, s))"

definition pbuf_alloc :: "pbuf_layer \<Rightarrow> nat \<Rightarrow> pbuf_type \<Rightarrow> pb_state \<Rightarrow> (nat \<times> pb_state) res" where
  "pbuf_alloc layer len type s =
     (let offset = layer_offset layer;
          finish = (\<lambda>p s'. Inr (p, upd p (\<lambda>b. b\<lparr>ref := 1, pflags := 0\<rparr>) s'))
      in case type of
         PBUF_POOL \<Rightarrow>
           rbind (memp_malloc MEMP_PBUF_POOL (pools s)) (\<lambda>(p, ps).
             let s0 = s\<lparr>pools := ps\<rparr> in
             if p = 0 then rbind (pbuf_pool_is_empty s0) (\<lambda>s1. Inr (0, s1))
             else
               let s1 = upd p (\<lambda>b. b\<lparr>ptype := PBUF_POOL, pnext := 0, payload := p + (SIZEOF_STRUCT_PBUF + offset),
                          tot_len := len, plen := min len (PBUF_POOL_BUFSIZE - offset)\<rparr>) s0 in
               if \<not> payload (pbufs s1 p) + plen (pbufs s1 p) \<le> p + SIZEOF_STRUCT_PBUF + PBUF_POOL_BUFSIZE
               then Inl Abort
               else
                 let s2 = upd p (\<lambda>b. b\<lparr>ref := 1\<rparr>) s1 in
                 rbind (alloc_tail PBUF_MAX p p (len - plen (pbufs s2 p)) s2) (\<lambda>(ok, s3).
                   if ok then finish p s3 else Inr (0, s3)))
       | PBUF_RAM \<Rightarrow>
           rbind (mem_malloc (u16_of (int (SIZEOF_STRUCT_PBUF + offset + len))) (heap s)) (\<lambda>(p, h).
             let s0 = s\<lparr>heap := h\<rparr> in
             if p = 0 then Inr (0, s0)
             else finish p (upd p (\<lambda>b. b\<lparr>payload := p + SIZEOF_STRUCT_PBUF + offset, plen := len,
                              tot_len := len, pnext := 0, ptype := PBUF_RAM\<rparr>) s0))
       | _ \<Rightarrow>
           rbind (memp_malloc MEMP_PBUF (pools s)) (\<lambda>(p, ps).
             let s0 = s\<lparr>pools := ps\<rparr> in
             if p = 0 then Inr (0, s0)
             else finish p (upd p (\<lambda>b. b\<lparr>payload := 0, plen := len, tot_len := len, pnext := 0,
                              ptype := type\<rparr>) s0)))"

definition pbuf_alloced_custom ::
    "pbuf_layer \<Rightarrow> nat \<Rightarrow> pbuf_type \<Rightarrow> nat \<Rightarrow> nat \<Rightarrow> nat \<Rightarrow> pb_state \<Rightarrow> nat \<times> pb_state" where
  "pbuf_alloced_custom l len type p payload_mem payload_mem_len s =
     (let offset = layer_offset l in
      if offset + len > payload_mem_len then (0, s)
      else (p, upd p (\<lambda>b. b\<lparr>pnext := 0, payload := (if payload_mem \<noteq> 0 then payload_mem + offset else 0),
                   pflags := PBUF_FLAG_IS_CUSTOM, plen := len, tot_len := len, ptype := type,
                   ref := 1\<rparr>) s))"

section \<open>Shrinking, headers, chaining\<close>

text \<open>The loop of \<open>pbuf_realloc\<close> that finds the new last pbuf; it also returns the length left for it.\<close>

primrec realloc_skip :: "nat \<Rightarrow> nat \<Rightarrow> nat \<Rightarrow> int \<Rightarrow> pb_state \<Rightarrow> (nat \<times> nat \<times> pb_state) res" where
  "realloc_skip 0 q rem_len grow s = Inl No_Fuel"
| "realloc_skip (Suc fuel) q rem_len grow s =
     (if rem_len > plen (pbufs s q) then
        let rem' = rem_len - plen (pbufs s q) in
        if \<not> grow < 0xffff then Inl Abort
        else
          let s1 = upd q (\<lambda>b. b\<lparr>tot_len := u16_of (int (tot_len b) + int (u16_of grow))\<rparr>) s;
              q' = pnext (pbufs s1 q) in
          if q' = 0 then Inl Abort else realloc_skip fuel q' rem' grow s1
      else Inr (q, rem_len, s))"

text \<open>The rest of \<open>pbuf_realloc\<close>, once the new last pbuf \<open>q\<close> and its length are known.\<close>

definition realloc_last :: "nat \<Rightarrow> nat \<Rightarrow> pb_state \<Rightarrow> pb_state res" where
  "realloc_last q0 rem_len s1 =
     rbind
       (if ptype (pbufs s1 q0) = PBUF_RAM \<and> rem_len \<noteq> plen (pbufs s1 q0) then
          rbind (mem_trim q0 (u16_of (int (u16_of (int (payload (pbufs s1 q0)) - int q0)) + int rem_len)) (heap s1))
            (\<lambda>(q', h). if q' = 0 then Inl Abort else Inr (q', s1\<lparr>heap := h\<rparr>))
        else Inr (q0, s1))
       (\<lambda>(q, s2).
         let s3 = upd q (\<lambda>b. b\<lparr>plen := rem_len, tot_len := rem_len\<rparr>) s2 in
         rbind
           (if pnext (pbufs s3 q) \<noteq> 0
            then rbind (pbuf_free (pnext (pbufs s3 q)) s3) (\<lambda>(_, s4). Inr s4) else Inr s3)
           (\<lambda>s4. Inr (upd q (\<lambda>b. b\<lparr>pnext := 0\<rparr>) s4)))"

definition pbuf_realloc :: "nat \<Rightarrow> nat \<Rightarrow> pb_state \<Rightarrow> pb_state res" where
  "pbuf_realloc p new_len s =
     (if p = 0 then Inl Abort
      else if new_len \<ge> tot_len (pbufs s p) then Inr s
      else
        let grow = int new_len - int (tot_len (pbufs s p)) in
        rbind (realloc_skip PBUF_MAX p new_len grow s) (\<lambda>(q, rem_len, s1). realloc_last q rem_len s1))"

text \<open>
  \<open>pbuf_header\<close>: \<open>inc\<close> is an \<^verbatim>\<open>s16_t\<close>; the result is true when the call fails with a non-zero
  code.
\<close>

definition pbuf_header :: "nat \<Rightarrow> int \<Rightarrow> pb_state \<Rightarrow> (bool \<times> pb_state) res" where
  "pbuf_header p inc s =
     (if p = 0 then Inl Abort
      else if inc = 0 then Inr (False, s)
      else
        let magnitude = u16_of \<bar>inc\<bar> in
        if inc < 0 \<and> \<not> magnitude \<le> plen (pbufs s p) then Inl Abort
        else
          let adjust = (\<lambda>b. b\<lparr>plen := u16_of (int (plen b) + inc), tot_len := u16_of (int (tot_len b) + inc)\<rparr>);
              new_payload = int (payload (pbufs s p)) - inc in
          case ptype (pbufs s p) of
            PBUF_RAM \<Rightarrow>
              if new_payload < int p + int SIZEOF_STRUCT_PBUF then Inr (True, s)
              else Inr (False, upd p (\<lambda>b. adjust (b\<lparr>payload := nat new_payload\<rparr>)) s)
          | PBUF_POOL \<Rightarrow>
              if new_payload < int p + int SIZEOF_STRUCT_PBUF then Inr (True, s)
              else Inr (False, upd p (\<lambda>b. adjust (b\<lparr>payload := nat new_payload\<rparr>)) s)
          | _ \<Rightarrow>
              if inc < 0 \<and> magnitude \<le> plen (pbufs s p)
              then Inr (False, upd p (\<lambda>b. adjust (b\<lparr>payload := nat new_payload\<rparr>)) s)
              else Inr (True, s))"

primrec clen_loop :: "nat \<Rightarrow> nat \<Rightarrow> nat \<Rightarrow> pb_state \<Rightarrow> nat res" where
  "clen_loop 0 p n s = Inl No_Fuel"
| "clen_loop (Suc fuel) p n s =
     (if p = 0 then Inr n else clen_loop fuel (pnext (pbufs s p)) ((n + 1) mod 256) s)"

definition pbuf_clen :: "nat \<Rightarrow> pb_state \<Rightarrow> nat res" where
  "pbuf_clen p s = clen_loop PBUF_MAX p 0 s"

definition pbuf_ref :: "nat \<Rightarrow> pb_state \<Rightarrow> pb_state" where
  "pbuf_ref p s = (if p \<noteq> 0 then upd p (\<lambda>b. b\<lparr>ref := u16_of (int (ref b) + 1)\<rparr>) s else s)"

text \<open>The loop of \<open>pbuf_cat\<close>, returning the last pbuf of the head chain.\<close>

primrec cat_loop :: "nat \<Rightarrow> nat \<Rightarrow> nat \<Rightarrow> pb_state \<Rightarrow> (nat \<times> pb_state) res" where
  "cat_loop 0 p t s = Inl No_Fuel"
| "cat_loop (Suc fuel) p t s =
     (if pnext (pbufs s p) \<noteq> 0 then
        let s1 = upd p (\<lambda>b. b\<lparr>tot_len := u16_of (int (tot_len b) + int (tot_len (pbufs s t)))\<rparr>) s
        in cat_loop fuel (pnext (pbufs s1 p)) t s1
      else Inr (p, s))"

definition pbuf_cat :: "nat \<Rightarrow> nat \<Rightarrow> pb_state \<Rightarrow> pb_state res" where
  "pbuf_cat h t s =
     (if h = 0 \<or> t = 0 then Inl Abort
      else
        rbind (cat_loop PBUF_MAX h t s) (\<lambda>(p, s1).
          if tot_len (pbufs s1 p) \<noteq> plen (pbufs s1 p) then Inl Abort
          else if pnext (pbufs s1 p) \<noteq> 0 then Inl Abort
          else Inr (upd p (\<lambda>b. b\<lparr>pnext := t\<rparr>)
                 (upd p (\<lambda>b. b\<lparr>tot_len := u16_of (int (tot_len b) + int (tot_len (pbufs s1 t)))\<rparr>) s1))))"

definition pbuf_chain :: "nat \<Rightarrow> nat \<Rightarrow> pb_state \<Rightarrow> pb_state res" where
  "pbuf_chain h t s = rbind (pbuf_cat h t s) (\<lambda>s1. Inr (pbuf_ref t s1))"

definition pbuf_dechain :: "nat \<Rightarrow> pb_state \<Rightarrow> (nat \<times> pb_state) res" where
  "pbuf_dechain p s =
     (if p = 0 then Inl Bad_Deref
      else
        let q = pnext (pbufs s p) in
        rbind
          (if q \<noteq> 0 then
             if int (tot_len (pbufs s q)) \<noteq> int (tot_len (pbufs s p)) - int (plen (pbufs s p)) then Inl Abort
             else
               let s1 = upd q (\<lambda>b. b\<lparr>tot_len := u16_of (int (tot_len (pbufs s p)) - int (plen (pbufs s p)))\<rparr>) s;
                   s2 = upd p (\<lambda>b. b\<lparr>pnext := 0, tot_len := plen b\<rparr>) s1
               in pbuf_free q s2
           else Inr (1, s))
          (\<lambda>(tail_gone, s3).
            if tot_len (pbufs s3 p) \<noteq> plen (pbufs s3 p) then Inl Abort
            else Inr (if tail_gone > 0 then 0 else q, s3)))"

section \<open>Moving data\<close>

text \<open>
  The do-while loop of \<open>pbuf_copy\<close>; each round finishes a source or a target pbuf, hence the
  fuel of its caller. The packet-queue checks stop the run like every \<^verbatim>\<open>LWIP_ERROR\<close>.
\<close>

primrec copy_loop :: "nat \<Rightarrow> nat \<Rightarrow> nat \<Rightarrow> nat \<Rightarrow> nat \<Rightarrow> pb_state \<Rightarrow> (err_t \<times> pb_state) res" where
  "copy_loop 0 pt pf ot off s = Inl No_Fuel"
| "copy_loop (Suc fuel) pt pf ot off s =
     (if pt = 0 \<or> pf = 0 then Inl Bad_Deref
      else
        let n = (if int (plen (pbufs s pt)) - int ot \<ge> int (plen (pbufs s pf)) - int off
                 then u16_of (int (plen (pbufs s pf)) - int off) else u16_of (int (plen (pbufs s pt)) - int ot));
            s1 = memcpy (payload (pbufs s pt) + ot) (payload (pbufs s pf) + off) n s;
            ot1 = u16_of (int (ot + n)); of1 = u16_of (int (off + n)) in
        if \<not> ot1 \<le> plen (pbufs s pt) \<or> \<not> of1 \<le> plen (pbufs s pf) then Inl Abort
        else
          let (of2, pf2) = (if of1 \<ge> plen (pbufs s pf) then (0, pnext (pbufs s pf)) else (of1, pf));
              (ot2, pt2) = (if ot1 = plen (pbufs s pt) then (0, pnext (pbufs s pt)) else (ot1, pt)) in
          if ot1 = plen (pbufs s pt) \<and> \<not> (pt2 \<noteq> 0 \<or> pf2 = 0) then Inl Abort
          else if pf2 \<noteq> 0 \<and> plen (pbufs s pf2) = tot_len (pbufs s pf2) \<and> pnext (pbufs s pf2) \<noteq> 0 then Inl Abort
          else if pt2 \<noteq> 0 \<and> plen (pbufs s pt2) = tot_len (pbufs s pt2) \<and> pnext (pbufs s pt2) \<noteq> 0 then Inl Abort
          else if pf2 \<noteq> 0 then copy_loop fuel pt2 pf2 ot2 of2 s1
          else Inr (ERR_OK, s1))"

definition pbuf_copy :: "nat \<Rightarrow> nat \<Rightarrow> pb_state \<Rightarrow> (err_t \<times> pb_state) res" where
  "pbuf_copy p_to p_from s =
     (if \<not> (p_to \<noteq> 0 \<and> p_from \<noteq> 0 \<and> tot_len (pbufs s p_to) \<ge> tot_len (pbufs s p_from)) then Inl Abort
      else copy_loop (2 * PBUF_MAX) p_to p_from 0 0 s)"

primrec copy_partial_loop :: "nat \<Rightarrow> nat \<Rightarrow> nat \<Rightarrow> nat \<Rightarrow> nat \<Rightarrow> nat \<Rightarrow> nat \<Rightarrow> pb_state \<Rightarrow> (nat \<times> pb_state) res" where
  "copy_partial_loop 0 p dataptr left len offset copied s = Inl No_Fuel"
| "copy_partial_loop (Suc fuel) p dataptr left len offset copied s =
     (if len \<noteq> 0 \<and> p \<noteq> 0 then
        (if offset \<noteq> 0 \<and> offset \<ge> plen (pbufs s p)
         then copy_partial_loop fuel (pnext (pbufs s p)) dataptr left len (offset - plen (pbufs s p)) copied s
         else
           let n0 = plen (pbufs s p) - offset; n = (if n0 > len then len else n0);
               s1 = memcpy (dataptr + left) (payload (pbufs s p) + offset) n s
           in copy_partial_loop fuel (pnext (pbufs s p)) dataptr (u16_of (int (left + n))) (len - n) 0
                (u16_of (int (copied + n))) s1)
      else Inr (copied, s))"

definition pbuf_copy_partial :: "nat \<Rightarrow> nat \<Rightarrow> nat \<Rightarrow> nat \<Rightarrow> pb_state \<Rightarrow> (nat \<times> pb_state) res" where
  "pbuf_copy_partial buf dataptr len offset s =
     (if buf = 0 \<or> dataptr = 0 then Inl Abort else copy_partial_loop PBUF_MAX buf dataptr 0 len offset 0 s)"

primrec take_loop :: "nat \<Rightarrow> nat \<Rightarrow> nat \<Rightarrow> nat \<Rightarrow> nat \<Rightarrow> pb_state \<Rightarrow> (nat \<times> pb_state) res" where
  "take_loop 0 p dataptr todo copied s = Inl No_Fuel"
| "take_loop (Suc fuel) p dataptr todo copied s =
     (if todo \<noteq> 0 then
        (if p = 0 then Inl Abort
         else
           let n = (if todo > plen (pbufs s p) then plen (pbufs s p) else todo);
               s1 = memcpy (payload (pbufs s p)) (dataptr + copied) n s
           in take_loop fuel (pnext (pbufs s p)) dataptr (todo - n) (u16_of (int (copied + n))) s1)
      else Inr (copied, s))"

definition pbuf_take :: "nat \<Rightarrow> nat \<Rightarrow> nat \<Rightarrow> pb_state \<Rightarrow> (err_t \<times> pb_state) res" where
  "pbuf_take buf dataptr len s =
     (if buf = 0 \<or> dataptr = 0 then Inl Abort
      else if tot_len (pbufs s buf) < len then Inr (ERR_ARG, s)
      else
        rbind (take_loop PBUF_MAX buf dataptr len 0 s) (\<lambda>(copied, s').
          if copied = len then Inr (ERR_OK, s') else Inl Abort))"

definition pbuf_coalesce :: "nat \<Rightarrow> pbuf_layer \<Rightarrow> pb_state \<Rightarrow> (nat \<times> pb_state) res" where
  "pbuf_coalesce p layer s =
     (if p = 0 then Inl Bad_Deref
      else if pnext (pbufs s p) = 0 then Inr (p, s)
      else
        rbind (pbuf_alloc layer (tot_len (pbufs s p)) PBUF_RAM s) (\<lambda>(q, s1).
          if q = 0 then Inr (p, s1)
          else
            rbind (pbuf_copy q p s1) (\<lambda>(err, s2).
              if err \<noteq> ERR_OK then Inl Abort
              else rbind (pbuf_free p s2) (\<lambda>(_, s3). Inr (q, s3)))))"

section \<open>Searching\<close>

text \<open>The loop that \<open>pbuf_get_at\<close> and \<open>pbuf_memcmp\<close> begin with.\<close>

primrec skip_to :: "nat \<Rightarrow> nat \<Rightarrow> nat \<Rightarrow> pb_state \<Rightarrow> (nat \<times> nat) res" where
  "skip_to 0 q off s = Inl No_Fuel"
| "skip_to (Suc fuel) q off s =
     (if q \<noteq> 0 \<and> plen (pbufs s q) \<le> off
      then skip_to fuel (pnext (pbufs s q)) (off - plen (pbufs s q)) s else Inr (q, off))"

definition pbuf_get_at :: "nat \<Rightarrow> nat \<Rightarrow> pb_state \<Rightarrow> u8 res" where
  "pbuf_get_at p offset s =
     rbind (skip_to PBUF_MAX p offset s) (\<lambda>(q, off).
       Inr (if q \<noteq> 0 \<and> plen (pbufs s q) > off then bytes s (payload (pbufs s q) + off) else 0))"

primrec memcmp_loop :: "nat \<Rightarrow> nat \<Rightarrow> nat \<Rightarrow> nat \<Rightarrow> bytes \<Rightarrow> pb_state \<Rightarrow> nat res" where
  "memcmp_loop 0 i q start s2 s = Inr 0"
| "memcmp_loop (Suc k) i q start s2 s =
     rbind (pbuf_get_at q (u16_of (int (start + i))) s) (\<lambda>a.
       if a \<noteq> s2 ! i then Inr (u16_of (int (i + 1))) else memcmp_loop k (Suc i) q start s2 s)"

text \<open>The buffer \<open>s2\<close> is compared over its whole length.\<close>

definition pbuf_memcmp :: "nat \<Rightarrow> nat \<Rightarrow> bytes \<Rightarrow> pb_state \<Rightarrow> nat res" where
  "pbuf_memcmp p offset s2 s =
     rbind (skip_to PBUF_MAX p offset s) (\<lambda>(q, start).
       if q \<noteq> 0 \<and> plen (pbufs s q) > start then memcmp_loop (length s2) 0 q start s2 s else Inr 0xffff)"

primrec memfind_loop :: "nat \<Rightarrow> nat \<Rightarrow> nat \<Rightarrow> nat \<Rightarrow> bytes \<Rightarrow> pb_state \<Rightarrow> nat res" where
  "memfind_loop 0 i mx p mem s = Inl No_Fuel"
| "memfind_loop (Suc fuel) i mx p mem s =
     (if i \<le> mx then
        rbind (pbuf_memcmp p i mem s) (\<lambda>plus.
          if plus = 0 then Inr i else memfind_loop fuel (u16_of (int (i + plus))) mx p mem s)
      else Inr 0xffff)"

definition pbuf_memfind :: "nat \<Rightarrow> bytes \<Rightarrow> nat \<Rightarrow> pb_state \<Rightarrow> nat res" where
  "pbuf_memfind p mem start_offset s =
     (if p = 0 then Inl Bad_Deref
      else
        let mx = u16_of (int (tot_len (pbufs s p)) - int (length mem)) in
        if tot_len (pbufs s p) \<ge> length mem + start_offset
        then memfind_loop 65537 start_offset mx p mem s else Inr 0xffff)"

definition pbuf_strstr :: "nat \<Rightarrow> bytes option \<Rightarrow> pb_state \<Rightarrow> nat res" where
  "pbuf_strstr p substr s =
     (case substr of
        None \<Rightarrow> Inr 0xffff
      | Some cs \<Rightarrow>
          let str = takeWhile (\<lambda>c. c \<noteq> 0) cs in
          if str = [] then Inr 0xffff
          else if p = 0 then Inl Bad_Deref
          else if tot_len (pbufs s p) = 0xffff then Inr 0xffff
          else if length str \<ge> 0xffff then Inr 0xffff
          else pbuf_memfind p str 0 s)"

end
