(* ===== verification/Pbuf_Data.thy ===== *)
theory Pbuf_Data
  imports Pbuf
begin

text \<open>
  The packet a pbuf chain stands for, and the operations of \<^verbatim>\<open>pbuf.c\<close> that read or write its data:
  \<open>pbuf_copy_partial\<close>, \<open>pbuf_take\<close>, \<open>pbuf_get_at\<close>, \<open>pbuf_memcmp\<close>, \<open>pbuf_memfind\<close> and \<open>pbuf_header\<close>.
\<close>

section \<open>Packets\<close>

definition chain :: "pb_state \<Rightarrow> nat \<Rightarrow> nat list \<Rightarrow> bool" where
  "chain s p ps \<longleftrightarrow> linked (\<lambda>q. pnext (pbufs s q)) p ps"

definition pbuf_data :: "pb_state \<Rightarrow> nat \<Rightarrow> bytes" where
  "pbuf_data s q = read_bytes (bytes s) (payload (pbufs s q)) (plen (pbufs s q))"

definition content :: "pb_state \<Rightarrow> nat list \<Rightarrow> bytes" where
  "content s ps = concat (map (pbuf_data s) ps)"

primrec tot_ok :: "pb_state \<Rightarrow> nat list \<Rightarrow> bool" where
  "tot_ok s [] \<longleftrightarrow> True"
| "tot_ok s (q # qs) \<longleftrightarrow> tot_len (pbufs s q) = length (content s (q # qs)) \<and> tot_ok s qs"

text \<open>
  A packet: a NULL-terminated chain whose \<^verbatim>\<open>tot_len\<close> fields obey the invariant documented in
  \<^verbatim>\<open>pbuf.h\<close> and whose length fits in an \<^verbatim>\<open>u16_t\<close>.
\<close>

definition packet :: "pb_state \<Rightarrow> nat \<Rightarrow> nat list \<Rightarrow> bool" where
  "packet s p ps \<longleftrightarrow> chain s p ps \<and> tot_ok s ps \<and> ps \<noteq> [] \<and> length ps < PBUF_MAX \<and>
     length (content s ps) < 65536"

text \<open>Address ranges that do not meet.\<close>

definition apart :: "nat \<Rightarrow> nat \<Rightarrow> nat \<Rightarrow> nat \<Rightarrow> bool" where
  "apart a n b m \<longleftrightarrow> a + n \<le> b \<or> b + m \<le> a"

lemma read_bytes_length [simp]: "length (read_bytes m a n) = n"
  by (simp add: read_bytes_def)

lemma read_bytes_nth [simp]: "i < n \<Longrightarrow> read_bytes m a n ! i = m (a + i)"
  by (simp add: read_bytes_def)

lemma read_bytes_0 [simp]: "read_bytes m a 0 = []"
  by (simp add: read_bytes_def)

lemma drop_read_bytes: "drop k (read_bytes m a n) = read_bytes m (a + k) (n - k)"
  by (rule nth_equalityI) (auto simp: add.assoc)

lemma take_read_bytes: "take k (read_bytes m a n) = read_bytes m a (min n k)"
  by (rule nth_equalityI) auto

lemma write_bytes_Nil [simp]: "write_bytes a [] m = m"
  by (rule ext) (auto simp: write_bytes_def)

lemma write_bytes_append: "write_bytes (a + length xs) ys (write_bytes a xs m) = write_bytes a (xs @ ys) m"
  by (rule ext) (auto simp: write_bytes_def nth_append)

lemma read_write_apart: "apart a (length bs) b n \<Longrightarrow> read_bytes (write_bytes a bs m) b n = read_bytes m b n"
  by (rule nth_equalityI) (auto simp: apart_def write_bytes_def)

lemma read_write_same: "read_bytes (write_bytes a bs m) a (length bs) = bs"
  by (rule nth_equalityI) (auto simp: write_bytes_def)

lemma read_write_prefix:
  "length bs \<le> n \<Longrightarrow> read_bytes (write_bytes a bs m) a n = bs @ read_bytes m (a + length bs) (n - length bs)"
  by (rule nth_equalityI) (auto simp: write_bytes_def nth_append)

lemma apart_mono: "apart a n b m \<Longrightarrow> n' \<le> n \<Longrightarrow> m' \<le> m \<Longrightarrow> apart a n' b m'"
  by (auto simp: apart_def)

lemma apart_sub: "apart a n b m \<Longrightarrow> k + n' \<le> n \<Longrightarrow> apart (a + k) n' b m"
  by (auto simp: apart_def)

lemma content_simps [simp]:
  "content s [] = []" "content s (q # qs) = pbuf_data s q @ content s qs"
  "content s (ps @ qs) = content s ps @ content s qs"
  by (simp_all add: content_def)

lemma pbuf_data_length [simp]: "length (pbuf_data s q) = plen (pbufs s q)"
  by (simp add: pbuf_data_def)

lemma memcpy_fields [simp, pbuf_simps]:
  "pbufs (memcpy d a n s) = pbufs s" "heap (memcpy d a n s) = heap s" "pools (memcpy d a n s) = pools s"
  "bytes (memcpy d a n s) = write_bytes d (read_bytes (bytes s) a n) (bytes s)"
  by (simp_all add: memcpy_def)

lemma chain_Cons [simp]: "chain s p (q # qs) \<longleftrightarrow> p = q \<and> q \<noteq> 0 \<and> chain s (pnext (pbufs s q)) qs"
  by (simp add: chain_def)

lemma chain_Nil [simp]: "chain s p [] \<longleftrightarrow> p = 0"
  by (simp add: chain_def)

lemma pbuf_data_cong:
  "pbufs s' q = pbufs s q \<Longrightarrow>
     read_bytes (bytes s') (payload (pbufs s q)) (plen (pbufs s q)) =
     read_bytes (bytes s) (payload (pbufs s q)) (plen (pbufs s q)) \<Longrightarrow> pbuf_data s' q = pbuf_data s q"
  by (simp add: pbuf_data_def)

lemma content_cong: "(\<And>q. q \<in> set ps \<Longrightarrow> pbuf_data s' q = pbuf_data s q) \<Longrightarrow> content s' ps = content s ps"
  by (simp add: content_def cong: map_cong)

lemma chain_cong: "(\<And>q. q \<in> set ps \<Longrightarrow> pnext (pbufs s' q) = pnext (pbufs s q)) \<Longrightarrow> chain s' p ps = chain s p ps"
  unfolding chain_def by (rule linked_cong) auto

lemma plen_le_content: "q \<in> set ps \<Longrightarrow> plen (pbufs s q) \<le> length (content s ps)"
  by (induction ps) auto

section \<open>Copying out\<close>

text \<open>The destination lies apart from every payload of the chain.\<close>

definition dest_apart :: "pb_state \<Rightarrow> nat list \<Rightarrow> nat \<Rightarrow> nat \<Rightarrow> bool" where
  "dest_apart s ps d n \<longleftrightarrow> (\<forall>q \<in> set ps. apart d n (payload (pbufs s q)) (plen (pbufs s q)))"

lemma dest_apart_sub:
  "dest_apart s ps d n \<Longrightarrow> set qs \<subseteq> set ps \<Longrightarrow> k + n' \<le> n \<Longrightarrow> dest_apart (s\<lparr>bytes := m\<rparr>) qs (d + k) n'"
  by (auto simp: dest_apart_def intro: apart_sub)

lemma content_write:
  assumes "dest_apart s ps d (length bs)"
  shows "content (s\<lparr>bytes := write_bytes d bs (bytes s)\<rparr>) ps = content s ps"
  using assms by (intro content_cong) (auto simp: pbuf_data_def dest_apart_def read_write_apart)

lemma copy_partial_loop_spec:
  assumes "chain s p ps" "length ps < fuel" "left + len < 65536" "copied = left"
    "dest_apart s ps (d + left) len"
  shows "\<exists>s'. copy_partial_loop fuel p d left len off copied s =
      Inr (left + length (take len (drop off (content s ps))), s') \<and>
    s' = s\<lparr>bytes := write_bytes (d + left) (take len (drop off (content s ps))) (bytes s)\<rparr>"
  using assms
proof (induction ps arbitrary: p fuel left len off copied s)
  case Nil
  then show ?case by (cases fuel) auto
next
  case (Cons q qs)
  then obtain f where f: "fuel = Suc f" "length qs < f" by (cases fuel) auto
  from Cons.prems have c: "p = q" "q \<noteq> 0" "chain s (pnext (pbufs s q)) qs" by auto
  let ?l = "plen (pbufs s q)"
  show ?case
  proof (cases "len = 0")
    case True
    then show ?thesis using f c Cons.prems(4) by (auto intro!: exI [of _ s])
  next
    case len: False
    show ?thesis
    proof (cases "off \<noteq> 0 \<and> off \<ge> ?l")
      case True
      have "dest_apart s qs (d + left) len" using Cons.prems(5) by (simp add: dest_apart_def)
      from Cons.IH [OF c(3) f(2) Cons.prems(3,4) this, of "off - ?l"] True len show ?thesis
        by (simp add: f c)
    next
      case False
      define n where "n = (if ?l - off > len then len else ?l - off)"
      define s1 where "s1 = memcpy (d + left) (payload (pbufs s q) + off) n s"
      have n: "n \<le> len" "off + n \<le> ?l" "n = min (?l - off) len" using False by (auto simp: n_def)
      have data: "read_bytes (bytes s) (payload (pbufs s q) + off) n = take len (drop off (pbuf_data s q))"
        using n by (simp add: pbuf_data_def drop_read_bytes take_read_bytes)
      have s1: "s1 = s\<lparr>bytes := write_bytes (d + left) (take len (drop off (pbuf_data s q))) (bytes s)\<rparr>"
        by (simp add: s1_def memcpy_def data)
      have dq: "dest_apart s qs (d + left) (length (take len (drop off (pbuf_data s q))))"
        using Cons.prems(5) n by (auto simp: dest_apart_def intro: apart_mono)
      have cont: "content s1 qs = content s qs" unfolding s1 using dq by (rule content_write)
      have ch: "chain s1 (pnext (pbufs s q)) qs" using c(3) by (simp add: s1_def chain_def)
      have "dest_apart s1 qs (d + (left + n)) (len - n)"
        using dest_apart_sub [OF Cons.prems(5), of qs n "len - n"] n by (simp add: s1 add.assoc subset_insertI)
      with Cons.IH [OF ch f(2), of "left + n" "len - n" "left + n" 0] n Cons.prems(3)
      obtain s' where s': "copy_partial_loop f (pnext (pbufs s q)) d (left + n) (len - n) 0 (left + n) s1 =
          Inr (left + n + length (take (len - n) (content s1 qs)), s')"
        "s' = s1\<lparr>bytes := write_bytes (d + (left + n)) (take (len - n) (content s1 qs)) (bytes s1)\<rparr>"
        by auto
      have u: "u16_of (int (left + n)) = left + n" using n Cons.prems(3) by (intro u16_of_small) simp
      have step: "copy_partial_loop fuel p d left len off copied s =
          copy_partial_loop f (pnext (pbufs s q)) d (left + n) (len - n) 0 (left + n) s1"
        using len False c f u Cons.prems(4) by (auto simp: n_def s1_def Let_def)
      have tk: "take len (drop off (content s (q # qs))) =
          take len (drop off (pbuf_data s q)) @ take (len - n) (content s qs)"
        using False n by (auto simp: take_append drop_append min_def split: if_splits)
      have ln: "length (take len (drop off (pbuf_data s q))) = n" using n by simp
      show ?thesis
        unfolding step s' tk cont
        using write_bytes_append [of "d + left" "take len (drop off (pbuf_data s q))"] ln
        by (simp add: s1 add.assoc)
    qed
  qed
qed

section \<open>Copying in\<close>

text \<open>Payloads of a chain that do not overlap each other.\<close>

definition payloads_apart :: "pb_state \<Rightarrow> nat list \<Rightarrow> bool" where
  "payloads_apart s ps \<longleftrightarrow> (\<forall>q \<in> set ps. \<forall>r \<in> set ps. q \<noteq> r \<longrightarrow>
     apart (payload (pbufs s q)) (plen (pbufs s q)) (payload (pbufs s r)) (plen (pbufs s r)))"

lemma take_loop_spec:
  assumes "chain s p ps" "length ps < fuel" "todo \<le> length (content s ps)" "copied + todo < 65536"
    "payloads_apart s ps" "dest_apart s ps (d + copied) todo"
  shows "\<exists>m. take_loop fuel p d todo copied s = Inr (copied + todo, s\<lparr>bytes := m\<rparr>) \<and>
    content (s\<lparr>bytes := m\<rparr>) ps = read_bytes (bytes s) (d + copied) todo @ drop todo (content s ps) \<and>
    (\<forall>a n. dest_apart s ps a n \<longrightarrow> read_bytes m a n = read_bytes (bytes s) a n)"
  using assms
proof (induction ps arbitrary: p fuel todo copied s)
  case Nil
  then show ?case by (cases fuel) (auto intro!: exI [of _ "bytes s"])
next
  case (Cons q qs)
  then obtain f where f: "fuel = Suc f" "length qs < f" by (cases fuel) auto
  from Cons.prems have c: "p = q" "q \<noteq> 0" "chain s (pnext (pbufs s q)) qs" by auto
  have qn: "q \<notin> set qs" using Cons.prems(1) linked_distinct unfolding chain_def by (metis distinct.simps(2))
  let ?l = "plen (pbufs s q)" let ?a = "payload (pbufs s q)"
  show ?case
  proof (cases "todo = 0")
    case True
    then show ?thesis using f c by (intro exI [of _ "bytes s"]) simp
  next
    case todo: False
    define n where "n = (if todo > ?l then ?l else todo)"
    have n: "n \<le> todo" "n \<le> ?l" "n = min todo ?l" by (auto simp: n_def)
    let ?x = "read_bytes (bytes s) (d + copied) n"
    define s1 where "s1 = s\<lparr>bytes := write_bytes ?a ?x (bytes s)\<rparr>"
    have ap: "dest_apart s qs ?a n"
      using Cons.prems(5) qn n by (auto simp: payloads_apart_def dest_apart_def intro: apart_mono)
    have cont: "content s1 qs = content s qs"
      unfolding s1_def using ap by (intro content_write) simp
    have ch: "chain s1 (pnext (pbufs s q)) qs" using c(3) by (simp add: s1_def chain_def)
    have pa: "payloads_apart s1 qs" using Cons.prems(5) by (auto simp: payloads_apart_def s1_def)
    have da: "dest_apart s1 qs (d + (copied + n)) (todo - n)"
      using dest_apart_sub [OF Cons.prems(6), of qs n "todo - n"] n by (simp add: s1_def add.assoc subset_insertI)
    have td: "todo - n \<le> length (content s1 qs)" using Cons.prems(3) n by (auto simp: cont)
    obtain m where m: "take_loop f (pnext (pbufs s q)) d (todo - n) (copied + n) s1 = Inr (copied + todo, s1\<lparr>bytes := m\<rparr>)"
      "content (s1\<lparr>bytes := m\<rparr>) qs = read_bytes (bytes s1) (d + (copied + n)) (todo - n) @ drop (todo - n) (content s1 qs)"
      "\<forall>a k. dest_apart s1 qs a k \<longrightarrow> read_bytes m a k = read_bytes (bytes s1) a k"
      using Cons.IH [OF ch f(2) td _ pa da] Cons.prems(4) n by auto
    have u: "u16_of (int (copied + n)) = copied + n" using n Cons.prems(4) by (intro u16_of_small) simp
    have step: "take_loop fuel p d todo copied s = Inr (copied + todo, s\<lparr>bytes := m\<rparr>)"
      using m(1) todo c f u by (simp add: n_def s1_def memcpy_def Let_def)
    have rest: "read_bytes (bytes s1) (d + (copied + n)) (todo - n) = read_bytes (bytes s) (d + (copied + n)) (todo - n)"
    proof -
      have "apart (d + copied + n) (todo - n) ?a ?l"
        using Cons.prems(6) n apart_sub [of "d + copied" todo ?a ?l n "todo - n"] by (auto simp: dest_apart_def)
      then have "apart ?a n (d + (copied + n)) (todo - n)" using n by (auto simp: apart_def)
      then show ?thesis by (simp add: s1_def read_write_apart)
    qed
    have "dest_apart s1 qs ?a ?l"
      using Cons.prems(5) qn by (auto simp: payloads_apart_def dest_apart_def s1_def)
    then have "pbuf_data (s\<lparr>bytes := m\<rparr>) q = read_bytes (bytes s1) ?a ?l"
      using m(3) by (simp add: pbuf_data_def)
    also have "\<dots> = ?x @ drop n (pbuf_data s q)"
      using read_write_prefix [of ?x ?l ?a "bytes s"] n by (simp add: s1_def pbuf_data_def drop_read_bytes)
    finally have q': "pbuf_data (s\<lparr>bytes := m\<rparr>) q = ?x @ drop n (pbuf_data s q)" .
    have qs': "content (s\<lparr>bytes := m\<rparr>) qs = read_bytes (bytes s) (d + (copied + n)) (todo - n) @ drop (todo - n) (content s qs)"
      using m(2) cont rest by (simp add: s1_def)
    have split: "read_bytes (bytes s) (d + copied) todo = ?x @ read_bytes (bytes s) (d + (copied + n)) (todo - n)"
      using n by (intro nth_equalityI) (auto simp: nth_append add.assoc)
    have "content (s\<lparr>bytes := m\<rparr>) (q # qs) = read_bytes (bytes s) (d + copied) todo @ drop todo (content s (q # qs))"
    proof (cases "todo \<le> ?l")
      case True
      then show ?thesis using q' qs' n by (simp add: min_def)
    next
      case False
      then have "n = ?l" by (simp add: n_def)
      then show ?thesis using q' qs' split n by simp
    qed
    moreover have "read_bytes m a k = read_bytes (bytes s) a k" if "dest_apart s (q # qs) a k" for a k
    proof -
      have "dest_apart s1 qs a k" "apart ?a n a k"
        using that n by (auto simp: dest_apart_def s1_def apart_def)
      then show ?thesis using m(3) by (simp add: s1_def read_write_apart)
    qed
    ultimately show ?thesis using step by blast
  qed
qed

section \<open>Looking at single bytes\<close>

lemma chain_suffix: "chain s p (us @ q # qs) \<Longrightarrow> chain s q (q # qs)"
  unfolding chain_def by (rule linked_suffix)

lemma skip_to_spec:
  assumes "chain s p ps" "length ps < fuel"
  shows "if off < length (content s ps) then
      \<exists>us q qs. ps = us @ q # qs \<and> length (content s us) \<le> off \<and>
        off - length (content s us) < plen (pbufs s q) \<and>
        skip_to fuel p off s = Inr (q, off - length (content s us))
    else \<exists>o'. skip_to fuel p off s = Inr (0, o')"
  using assms
proof (induction ps arbitrary: p fuel off)
  case Nil
  then show ?case by (cases fuel) auto
next
  case (Cons q qs)
  then obtain f where f: "fuel = Suc f" "length qs < f" by (cases fuel) auto
  from Cons.prems have c: "p = q" "q \<noteq> 0" "chain s (pnext (pbufs s q)) qs" by auto
  let ?l = "plen (pbufs s q)"
  show ?case
  proof (cases "?l \<le> off")
    case True
    have step: "skip_to fuel p off s = skip_to f (pnext (pbufs s q)) (off - ?l) s" using True c f by simp
    note ih = Cons.IH [OF c(3) f(2), of "off - ?l"]
    show ?thesis
    proof (cases "off < length (content s (q # qs))")
      case lt: True
      then have "off - ?l < length (content s qs)" using True by auto
      then obtain us r rs where "qs = us @ r # rs" "length (content s us) \<le> off - ?l"
        "off - ?l - length (content s us) < plen (pbufs s r)"
        "skip_to f (pnext (pbufs s q)) (off - ?l) s = Inr (r, off - ?l - length (content s us))"
        using ih by auto
      then have "q # qs = (q # us) @ r # rs \<and> length (content s (q # us)) \<le> off \<and>
          off - length (content s (q # us)) < plen (pbufs s r) \<and>
          skip_to fuel p off s = Inr (r, off - length (content s (q # us)))"
        using True step by simp
      then show ?thesis using lt by metis
    next
      case False
      then show ?thesis using ih step by auto
    qed
  next
    case False
    then have lt: "off < length (content s (q # qs))" by simp
    show ?thesis
      unfolding if_P [OF lt]
      by (rule exI [of _ "[]"], rule exI [of _ q], rule exI [of _ qs]) (use False c f in simp)
  qed
qed

lemma pbuf_get_at_chain:
  assumes "chain s p ps" "length ps < PBUF_MAX"
  shows "pbuf_get_at p off s = Inr (if off < length (content s ps) then content s ps ! off else 0)"
proof (cases "off < length (content s ps)")
  case True
  then obtain us q qs where r: "ps = us @ q # qs" "length (content s us) \<le> off"
    "off - length (content s us) < plen (pbufs s q)"
    "skip_to PBUF_MAX p off s = Inr (q, off - length (content s us))"
    using skip_to_spec [OF assms, of off] by auto
  have "q \<noteq> 0" using assms(1) chain_suffix [of s p us q qs] by (simp add: r(1))
  then show ?thesis using True r by (simp add: pbuf_get_at_def nth_append pbuf_data_def)
next
  case False
  then obtain o' where "skip_to PBUF_MAX p off s = Inr (0, o')" using skip_to_spec [OF assms, of off] by auto
  then show ?thesis using False by (simp add: pbuf_get_at_def)
qed

text \<open>
  Index of the first difference between \<open>xs\<close> and the bytes at \<open>start\<close>, with zeros read past the
  end of the packet; \<open>length xs\<close> when there is none.
\<close>

definition byte_or_0 :: "bytes \<Rightarrow> nat \<Rightarrow> u8" where
  "byte_or_0 bs i = (if i < length bs then bs ! i else 0)"

lemma memcmp_loop_spec:
  assumes "chain s q qs" "length qs < PBUF_MAX" "start + i + k < 65536" "i + k = length xs" "length xs < 65535"
  shows "\<exists>r. memcmp_loop k i q start xs s = Inr r \<and>
    (r = 0 \<and> (\<forall>j. i \<le> j \<longrightarrow> j < length xs \<longrightarrow> byte_or_0 (content s qs) (start + j) = xs ! j) \<or>
     (\<exists>j. i \<le> j \<and> j < length xs \<and> r = j + 1 \<and> byte_or_0 (content s qs) (start + j) \<noteq> xs ! j \<and>
        (\<forall>j'. i \<le> j' \<longrightarrow> j' < j \<longrightarrow> byte_or_0 (content s qs) (start + j') = xs ! j')))"
  using assms
proof (induction k arbitrary: i)
  case 0
  then show ?case by auto
next
  case (Suc k)
  have u: "u16_of (int (start + i)) = start + i" "u16_of (int (i + 1)) = i + 1"
    using Suc.prems by (auto intro!: u16_of_small simp del: of_nat_add of_nat_Suc)
  have g: "pbuf_get_at q (start + i) s = Inr (byte_or_0 (content s qs) (start + i))"
    using pbuf_get_at_chain [OF Suc.prems(1,2)] by (simp add: byte_or_0_def)
  show ?case
  proof (cases "byte_or_0 (content s qs) (start + i) = xs ! i")
    case False
    then show ?thesis using g u Suc.prems by (intro exI [of _ "i + 1"]) auto
  next
    case True
    have "memcmp_loop (Suc k) i q start xs s = memcmp_loop k (Suc i) q start xs s"
      using True g u by simp
    moreover obtain r where r: "memcmp_loop k (Suc i) q start xs s = Inr r"
      "r = 0 \<and> (\<forall>j. Suc i \<le> j \<longrightarrow> j < length xs \<longrightarrow> byte_or_0 (content s qs) (start + j) = xs ! j) \<or>
       (\<exists>j. Suc i \<le> j \<and> j < length xs \<and> r = j + 1 \<and> byte_or_0 (content s qs) (start + j) \<noteq> xs ! j \<and>
        (\<forall>j'. Suc i \<le> j' \<longrightarrow> j' < j \<longrightarrow> byte_or_0 (content s qs) (start + j') = xs ! j'))"
      using Suc.IH [of "Suc i"] Suc.prems by auto
    ultimately show ?thesis
      using True by (intro exI [of _ r]) (metis Suc_leD Suc_leI le_neq_implies_less)
  qed
qed

lemma byte_or_0_drop: "byte_or_0 (drop a bs) i = byte_or_0 bs (a + i)"
  by (auto simp: byte_or_0_def)

lemma pbuf_memcmp_chain:
  assumes c: "chain s p ps" "length ps < PBUF_MAX" "length (content s ps) < 65536"
    and off: "off + length xs \<le> length (content s ps)" "length xs < 65535"
  shows "\<exists>r. pbuf_memcmp p off xs s = Inr r \<and>
    (if off = length (content s ps) then r = 0xffff
     else r = 0 \<and> (\<forall>j < length xs. content s ps ! (off + j) = xs ! j) \<or>
       (\<exists>j < length xs. r = j + 1 \<and> content s ps ! (off + j) \<noteq> xs ! j \<and>
         (\<forall>j' < j. content s ps ! (off + j') = xs ! j')))"
proof (cases "off = length (content s ps)")
  case True
  then show ?thesis using skip_to_spec [OF c(1,2), of off] by (auto simp: pbuf_memcmp_def)
next
  case False
  with off have lt: "off < length (content s ps)" by simp
  then obtain us q qs where r: "ps = us @ q # qs" "length (content s us) \<le> off"
    "off - length (content s us) < plen (pbufs s q)"
    "skip_to PBUF_MAX p off s = Inr (q, off - length (content s us))"
    using skip_to_spec [OF c(1,2), of off] by auto
  let ?o = "off - length (content s us)"
  have ch: "chain s q (q # qs)" using c(1) chain_suffix unfolding r(1) by blast
  have eq: "byte_or_0 (content s (q # qs)) (?o + j) = content s ps ! (off + j)" if "j < length xs" for j
    using off that r by (simp add: byte_or_0_def nth_append)
  have len: "length (q # qs) < PBUF_MAX" using r(1) c(2) by simp
  have small: "?o + 0 + length xs < 65536" using off c(3) by linarith
  have step: "pbuf_memcmp p off xs s = memcmp_loop (length xs) 0 q ?o xs s"
    using r ch by (simp add: pbuf_memcmp_def)
  from memcmp_loop_spec [OF ch len small _ off(2)] show ?thesis
    unfolding step using eq False by auto
qed

section \<open>Searching\<close>

definition occurs_at :: "bytes \<Rightarrow> bytes \<Rightarrow> nat \<Rightarrow> bool" where
  "occurs_at xs bs i \<longleftrightarrow> i + length xs \<le> length bs \<and> take (length xs) (drop i bs) = xs"

lemma occurs_at_nth: "occurs_at xs bs i \<longleftrightarrow> i + length xs \<le> length bs \<and> (\<forall>j < length xs. bs ! (i + j) = xs ! j)"
  by (auto simp: occurs_at_def list_eq_iff_nth_eq)

text \<open>
  The search loop: it ends within \<open>mx - i + 2\<close> rounds and what it returns is an occurrence; every
  position it has looked at before is none.
\<close>

lemma memfind_loop_sound:
  assumes c: "chain s p ps" "length ps < PBUF_MAX" "length (content s ps) < 65536"
    and xs: "xs \<noteq> []" "length xs \<le> length (content s ps)" "length xs < 65535"
    and mx: "mx = length (content s ps) - length xs"
  shows "0 < fuel \<and> mx + 2 \<le> i + fuel \<Longrightarrow> \<exists>r. memfind_loop fuel i mx p xs s = Inr r \<and>
    (r = 0xffff \<or> i \<le> r \<and> occurs_at xs (content s ps) r)"
proof (induction fuel arbitrary: i)
  case 0
  then show ?case by simp
next
  case (Suc fuel)
  show ?case
  proof (cases "i \<le> mx")
    case False
    then show ?thesis by simp
  next
    case True
    then have off: "i + length xs \<le> length (content s ps)" "i \<noteq> length (content s ps)" using mx xs by (cases xs; auto)+
    obtain r where r: "pbuf_memcmp p i xs s = Inr r"
      and rr: "r = 0 \<and> (\<forall>j < length xs. content s ps ! (i + j) = xs ! j) \<or>
       (\<exists>j < length xs. r = j + 1 \<and> content s ps ! (i + j) \<noteq> xs ! j)"
      using pbuf_memcmp_chain [OF c off(1) xs(3)] off(2) by auto
    show ?thesis
    proof (cases "r = 0")
      case True
      then have "occurs_at xs (content s ps) i" using rr off by (auto simp: occurs_at_nth)
      then show ?thesis using True r \<open>i \<le> mx\<close> by simp
    next
      case False
      then have "r \<le> length xs" "0 < r" using rr by auto
      then have u: "u16_of (int (i + r)) = i + r" using off c(3) by (intro u16_of_small) simp
      have "0 < fuel \<and> mx + 2 \<le> i + r + fuel" using Suc.prems \<open>0 < r\<close> \<open>i \<le> mx\<close> by simp
      from Suc.IH [OF this] show ?thesis using r False \<open>i \<le> mx\<close> u by auto
    qed
  qed
qed

section \<open>Properties\<close>

text \<open>
  \<open>pbuf_copy_partial\<close> copies exactly the bytes \<open>offset\<close>, \<open>offset + 1\<close> and so on of the packet, as many as
  were asked for and exist, to the destination, returns their number, and changes nothing else,
  however the packet is split into pbufs (empty ones included).
\<close>

theorem pbuf_copy_partial_correct:
  assumes "packet s p ps" "d \<noteq> 0" "len < 65536" "dest_apart s ps d len"
  shows "\<exists>s'. pbuf_copy_partial p d len off s = Inr (length (take len (drop off (content s ps))), s') \<and>
    s' = s\<lparr>bytes := write_bytes d (take len (drop off (content s ps))) (bytes s)\<rparr>"
proof -
  have c: "chain s p ps" "length ps < PBUF_MAX" "p \<noteq> 0"
    using assms(1) by (cases ps; auto simp: packet_def)+
  from copy_partial_loop_spec [OF c(1,2), of 0 len 0 d off] assms c(3) show ?thesis
    by (simp add: pbuf_copy_partial_def)
qed

text \<open>
  \<open>pbuf_take\<close> of data that fits overwrites the front of the packet with it and keeps the rest of
  the packet and the chain; data that does not fit is refused with \<open>ERR_ARG\<close> and nothing changes.
  Reading the data back with \<open>pbuf_copy_partial\<close> returns it.
\<close>

theorem pbuf_take_correct:
  assumes p: "packet s p ps" and d: "d \<noteq> 0" "len < 65536" "dest_apart s ps d len" and pa: "payloads_apart s ps"
    and e: "d' \<noteq> 0" "dest_apart s ps d' len"
  shows "if length (content s ps) < len then pbuf_take p d len s = Inr (ERR_ARG, s)
    else \<exists>m. pbuf_take p d len s = Inr (ERR_OK, s\<lparr>bytes := m\<rparr>) \<and>
      content (s\<lparr>bytes := m\<rparr>) ps = read_bytes (bytes s) d len @ drop len (content s ps) \<and>
      (\<exists>s'. pbuf_copy_partial p d' len 0 (s\<lparr>bytes := m\<rparr>) = Inr (len, s') \<and>
        read_bytes (bytes s') d' len = read_bytes (bytes s) d len)"
proof -
  have c: "chain s p ps" "length ps < PBUF_MAX" "p \<noteq> 0" "tot_len (pbufs s p) = length (content s ps)"
    using p by (cases ps; auto simp: packet_def)+
  show ?thesis
  proof (cases "length (content s ps) < len")
    case True
    then show ?thesis using c d by (simp add: pbuf_take_def)
  next
    case False
    then obtain m where m: "take_loop PBUF_MAX p d len 0 s = Inr (len, s\<lparr>bytes := m\<rparr>)"
      "content (s\<lparr>bytes := m\<rparr>) ps = read_bytes (bytes s) d len @ drop len (content s ps)"
      using take_loop_spec [OF c(1,2), of len 0 d] d pa by auto
    let ?s = "s\<lparr>bytes := m\<rparr>"
    have t: "pbuf_take p d len s = Inr (ERR_OK, ?s)" using False c d m(1) by (simp add: pbuf_take_def)
    have "chain ?s p ps" "dest_apart ?s ps d' len" using c(1) e(2) by (simp_all add: chain_def dest_apart_def)
    from copy_partial_loop_spec [OF this(1) c(2), of 0 len 0 d' 0] this(2) d m(2) c(3) e(1)
    have "pbuf_copy_partial p d' len 0 ?s =
        Inr (len, ?s\<lparr>bytes := write_bytes d' (read_bytes (bytes s) d len) m\<rparr>)"
      by (simp add: pbuf_copy_partial_def)
    then show ?thesis
      using False t m(2) read_write_same [of d' "read_bytes (bytes s) d len" m]
      by (simp del: content_simps) (rule exI [of _ m], simp)
  qed
qed

text \<open>
  \<open>pbuf_memfind\<close> always ends, and a result other than 0xffff is the position of an occurrence of
  the (non-empty) pattern at or after the start offset.
\<close>

theorem pbuf_memfind_sound:
  assumes p: "packet s p ps" and xs: "xs \<noteq> []" "length xs < 65535"
  shows "\<exists>r. pbuf_memfind p xs start s = Inr r \<and>
    (r = 0xffff \<or> start \<le> r \<and> occurs_at xs (content s ps) r)"
proof -
  have c: "chain s p ps" "length ps < PBUF_MAX" "length (content s ps) < 65536" "p \<noteq> 0"
    "tot_len (pbufs s p) = length (content s ps)"
    using p by (cases ps; auto simp: packet_def)+
  show ?thesis
  proof (cases "length xs + start \<le> length (content s ps)")
    case False
    then show ?thesis using c by (simp add: pbuf_memfind_def)
  next
    case True
    let ?mx = "length (content s ps) - length xs"
    have "u16_of (int (length (content s ps)) - int (length xs)) = ?mx"
      using True c(3) u16_of_small [of ?mx] by (simp add: of_nat_diff)
    moreover have "?mx + 2 \<le> start + 65537" using c(3) by linarith
    ultimately show ?thesis
      using memfind_loop_sound [OF c(1-3) xs(1) _ xs(2) refl, of 65537 start] True c(4,5)
      by (simp add: pbuf_memfind_def Let_def del: memfind_loop.simps)
  qed
qed

text \<open>
  The search can miss occurrences: after a mismatch it resumes behind the byte that did not match,
  so the packet \<^verbatim>\<open>aaab\<close> is reported not to contain \<^verbatim>\<open>aab\<close>, which occurs at position 1.
\<close>

theorem pbuf_memfind_misses:
  assumes p: "packet s p ps" and c: "content s ps = [97, 97, 97, 98]"
  shows "pbuf_memfind p [97, 97, 98] 0 s = Inr 0xffff \<and> occurs_at [97, 97, 98] (content s ps) 1"
proof -
  have ch: "chain s p ps" "length ps < PBUF_MAX" "p \<noteq> 0" "tot_len (pbufs s p) = 4"
    using p c by (cases ps; auto simp: packet_def simp del: content_simps)+
  have len: "length (content s ps) < 65536" by (simp add: c)
  let ?xs = "[97, 97, 98] :: bytes"
  have "0 + length ?xs \<le> length (content s ps)" "length ?xs < 65535" by (simp_all add: c)
  from pbuf_memcmp_chain [OF ch(1,2) len this] obtain r where r: "pbuf_memcmp p 0 ?xs s = Inr r"
    "r = 0 \<and> (\<forall>j < length ?xs. content s ps ! (0 + j) = ?xs ! j) \<or>
     (\<exists>j < length ?xs. r = j + 1 \<and> content s ps ! (0 + j) \<noteq> ?xs ! j \<and>
       (\<forall>j' < j. content s ps ! (0 + j') = ?xs ! j'))"
    by (auto simp: c)
  from r(2) have "r = 3"
    by (auto simp: c less_Suc_eq numeral_3_eq_3 numeral_2_eq_2)
  then have "memfind_loop (Suc 65536) 0 1 p ?xs s = Inr 0xffff"
    using r(1) memfind_loop.simps(2) [of 65535 3 1 p ?xs s] by (subst memfind_loop.simps(2)) (simp add: u16_of_def)
  then show ?thesis
    using ch c by (simp add: pbuf_memfind_def u16_of_def occurs_at_def Let_def del: memfind_loop.simps)
qed

section \<open>A concrete packet\<close>

text \<open>Two pbufs holding the text \<^verbatim>\<open>aaab\<close>, used to instantiate the properties.\<close>

definition sample :: pb_state where
  "sample = \<lparr>heap = fresh_heap, pools = memp_init (\<lambda>_. 1102) 65536 (memp_statics (\<lambda>_. 0)),
     pbufs = (\<lambda>q. if q = 1000
       then \<lparr>pnext = 2000, payload = 1024, tot_len = 4, plen = 2, ptype = PBUF_RAM, pflags = 0, ref = 1\<rparr>
       else \<lparr>pnext = 0, payload = 2024, tot_len = 2, plen = 2, ptype = PBUF_RAM, pflags = 0, ref = 1\<rparr>),
     bytes = (\<lambda>a. if a = 2025 then 98 else 97), custom = (\<lambda>_. None), ooseq_pending = False, tcpip_mbox = None\<rparr>"

lemma sample_packet: "packet sample 1000 [1000, 2000]" "content sample [1000, 2000] = [97, 97, 97, 98]"
  "payloads_apart sample [1000, 2000]" "dest_apart sample [1000, 2000] 3000 4"
  "dest_apart sample [1000, 2000] 4000 4"
  by (simp_all add: packet_def sample_def pbuf_data_def read_bytes_def payloads_apart_def dest_apart_def
      apart_def upt_rec numeral_2_eq_2)

theorem pbuf_copy_partial_correct_witness:
  "\<exists>s'. pbuf_copy_partial 1000 3000 4 1 sample = Inr (3, s') \<and> read_bytes (bytes s') 3000 3 = [97, 97, 98]"
proof -
  note r = pbuf_copy_partial_correct [OF sample_packet(1) _ _ sample_packet(4), of 1]
  show ?thesis using r sample_packet(2) read_write_same [of 3000 "[97, 97, 98]" "bytes sample"]
    by (simp add: numeral_3_eq_3 del: content_simps)
qed

theorem pbuf_take_correct_witness:
  "\<exists>m. pbuf_take 1000 3000 4 sample = Inr (ERR_OK, sample\<lparr>bytes := m\<rparr>) \<and>
     content (sample\<lparr>bytes := m\<rparr>) [1000, 2000] = [97, 97, 97, 97]"
proof -
  have "read_bytes (bytes sample) 3000 4 = [97, 97, 97, 97]"
    by (simp add: sample_def read_bytes_def upt_rec)
  then show ?thesis
    using pbuf_take_correct [OF sample_packet(1) _ _ sample_packet(4,3) _ sample_packet(5)] sample_packet(2)
    by (auto simp del: content_simps)
qed

theorem pbuf_memfind_sound_witness:
  "\<exists>r. pbuf_memfind 1000 [97, 98] 0 sample = Inr r"
  using pbuf_memfind_sound [OF sample_packet(1), of "[97, 98]" 0] by auto

theorem pbuf_memfind_misses_witness:
  "pbuf_memfind 1000 [97, 97, 98] 0 sample = Inr 0xffff"
  using pbuf_memfind_misses [OF sample_packet(1,2)] by blast

end
