(* ===== verification/Inet_Chksum.thy ===== *)
theory Inet_Chksum
  imports Byte_Order Pbuf_Data
begin

text \<open>
  \<^verbatim>\<open>src/src/lwip/core/ipv4/inet_chksum.c\<close>: the Internet checksum. The accumulators are \<^verbatim>\<open>u32_t\<close>
  values, kept as numbers below \<open>2 ^ 32\<close> with the reduction written out (\<open>add32\<close>). All three
  versions of \<^verbatim>\<open>lwip_standard_chksum\<close> are modelled: version 2 is the one the build selects, the
  others are the alternatives of \<^verbatim>\<open>LWIP_CHKSUM_ALGORITHM\<close>. A \<^verbatim>\<open>u16_t\<close> is loaded from memory with
  its low byte first (little-endian host).
\<close>

section \<open>Definitions\<close>

definition add32 :: "nat \<Rightarrow> nat \<Rightarrow> nat" where
  "add32 a b = (a + b) mod 4294967296"

definition FOLD_U32T :: "nat \<Rightarrow> nat" where
  "FOLD_U32T u = add32 (u div 65536) (u mod 65536)"

definition SWAP_BYTES_IN_WORD :: "nat \<Rightarrow> nat" where
  "SWAP_BYTES_IN_WORD w = (w mod 256) * 256 + (w div 256) mod 256"

text \<open>Version 1: words most significant byte first.\<close>

fun sum_be :: "nat \<Rightarrow> bytes \<Rightarrow> nat" where
  "sum_be acc (a # b # bs) = sum_be (add32 acc (unat a * 256 + unat b)) bs"
| "sum_be acc [a] = add32 acc (unat a * 256)"
| "sum_be acc [] = acc"

definition lwip_standard_chksum1 :: "bytes \<Rightarrow> nat" where
  "lwip_standard_chksum1 bs =
     (let acc = FOLD_U32T (sum_be 0 bs);
          acc = (if acc div 65536 \<noteq> 0 then FOLD_U32T acc else acc)
      in SWAP_BYTES_IN_WORD (acc mod 65536))"

text \<open>Version 2: host-order words from the first even address on.\<close>

fun sum_words :: "nat \<Rightarrow> bytes \<Rightarrow> nat \<times> bytes" where
  "sum_words acc (a # b # bs) = sum_words (add32 acc (unat a + 256 * unat b)) bs"
| "sum_words acc bs = (acc, bs)"

definition left_over :: "bytes \<Rightarrow> nat" where
  "left_over bs = (case bs of [] \<Rightarrow> 0 | b # _ \<Rightarrow> unat b)"

definition lwip_standard_chksum :: "nat \<Rightarrow> bytes \<Rightarrow> nat" where
  "lwip_standard_chksum addr bs =
     (let odd = (addr mod 2 = 1);
          (t1, bs1) = (if odd \<and> bs \<noteq> [] then (256 * unat (hd bs), tl bs) else (0, bs));
          (s, rest) = sum_words 0 bs1;
          t = t1 + left_over rest;
          acc = FOLD_U32T (FOLD_U32T (add32 s t));
          acc = (if odd then SWAP_BYTES_IN_WORD acc else acc)
      in acc mod 65536)"

text \<open>Version 3: 32-bit words with the carry added back.\<close>

definition add_carry :: "nat \<Rightarrow> nat \<Rightarrow> nat" where
  "add_carry s w = (let tmp = add32 s w in if tmp < s then add32 tmp 1 else tmp)"

definition load32 :: "u8 \<Rightarrow> u8 \<Rightarrow> u8 \<Rightarrow> u8 \<Rightarrow> nat" where
  "load32 a b c d = unat a + 256 * unat b + 65536 * unat c + 16777216 * unat d"

fun sum_longs :: "nat \<Rightarrow> bytes \<Rightarrow> nat \<times> bytes" where
  "sum_longs s (a # b # c # d # e # f # g # h # bs) =
     sum_longs (add_carry (add_carry s (load32 a b c d)) (load32 e f g h)) bs"
| "sum_longs s bs = (s, bs)"

definition lwip_standard_chksum3 :: "nat \<Rightarrow> bytes \<Rightarrow> nat" where
  "lwip_standard_chksum3 addr bs =
     (let odd = (addr mod 2 = 1);
          (t1, bs1, a1) = (if odd \<and> bs \<noteq> [] then (256 * unat (hd bs), tl bs, addr + 1) else (0, bs, addr));
          (s1, bs2) = (if a1 mod 4 \<noteq> 0 \<and> length bs1 > 1
             then (unat (bs1 ! 0) + 256 * unat (bs1 ! 1), drop 2 bs1) else (0, bs1));
          (s2, bs3) = sum_longs s1 bs2;
          (s3, rest) = sum_words (FOLD_U32T s2) bs3;
          acc = FOLD_U32T (FOLD_U32T (add32 s3 (t1 + left_over rest)));
          acc = (if odd then SWAP_BYTES_IN_WORD acc else acc)
      in acc mod 65536)"

text \<open>\<^verbatim>\<open>LWIP_CHKSUM(dataptr, len)\<close> on the byte memory.\<close>

definition LWIP_CHKSUM :: "(nat \<Rightarrow> u8) \<Rightarrow> nat \<Rightarrow> nat \<Rightarrow> nat" where
  "LWIP_CHKSUM m a n = lwip_standard_chksum a (read_bytes m a n)"

definition inet_chksum :: "nat \<Rightarrow> nat \<Rightarrow> pb_state \<Rightarrow> nat" where
  "inet_chksum dataptr len s = 65535 - LWIP_CHKSUM (bytes s) dataptr len"

text \<open>The loop over the pbufs of a chain, shared by the functions below.\<close>

primrec chksum_loop :: "nat \<Rightarrow> nat \<Rightarrow> nat \<Rightarrow> bool \<Rightarrow> pb_state \<Rightarrow> (nat \<times> bool) res" where
  "chksum_loop 0 q acc swapped s = Inl No_Fuel"
| "chksum_loop (Suc fuel) q acc swapped s =
     (if q = 0 then Inr (acc, swapped)
      else
        let b = pbufs s q;
            acc1 = FOLD_U32T (add32 acc (LWIP_CHKSUM (bytes s) (payload b) (plen b)))
        in if plen b mod 2 \<noteq> 0
           then chksum_loop fuel (pnext b) (SWAP_BYTES_IN_WORD acc1) (\<not> swapped) s
           else chksum_loop fuel (pnext b) acc1 swapped s)"

text \<open>Adding the pseudo header and inverting.\<close>

definition add_pseudo :: "nat \<Rightarrow> u32 \<Rightarrow> u32 \<Rightarrow> u8 \<Rightarrow> u16 \<Rightarrow> nat" where
  "add_pseudo acc src dest proto proto_len =
     (let acc = add32 acc (unat (src AND 0xffff));
          acc = add32 acc (unat (drop_bit 16 src AND 0xffff));
          acc = add32 acc (unat (dest AND 0xffff));
          acc = add32 acc (unat (drop_bit 16 dest AND 0xffff));
          acc = add32 acc (unat (lwip_htons (ucast proto)));
          acc = add32 acc (unat (lwip_htons proto_len));
          acc = FOLD_U32T (FOLD_U32T acc)
      in 65535 - acc mod 65536)"

definition inet_chksum_pseudo :: "nat \<Rightarrow> u32 \<Rightarrow> u32 \<Rightarrow> u8 \<Rightarrow> u16 \<Rightarrow> pb_state \<Rightarrow> nat res" where
  "inet_chksum_pseudo p src dest proto proto_len s =
     rbind (chksum_loop PBUF_MAX p 0 False s) (\<lambda>(acc, swapped).
       Inr (add_pseudo (if swapped then SWAP_BYTES_IN_WORD acc else acc) src dest proto proto_len))"

primrec chksum_partial_loop :: "nat \<Rightarrow> nat \<Rightarrow> nat \<Rightarrow> nat \<Rightarrow> bool \<Rightarrow> pb_state \<Rightarrow> (nat \<times> bool) res" where
  "chksum_partial_loop 0 q chksum_len acc swapped s = Inl No_Fuel"
| "chksum_partial_loop (Suc fuel) q chksum_len acc swapped s =
     (if q \<noteq> 0 \<and> chksum_len > 0 then
        let b = pbufs s q;
            chklen = (if plen b > chksum_len then chksum_len else plen b);
            acc1 = add32 acc (LWIP_CHKSUM (bytes s) (payload b) chklen);
            rest = chksum_len - chklen
        in if \<not> rest < 0x7fff then Inl Abort
           else
             let acc2 = FOLD_U32T acc1
             in if plen b mod 2 \<noteq> 0
                then chksum_partial_loop fuel (pnext b) rest (SWAP_BYTES_IN_WORD acc2) (\<not> swapped) s
                else chksum_partial_loop fuel (pnext b) rest acc2 swapped s
      else Inr (acc, swapped))"

definition inet_chksum_pseudo_partial ::
    "nat \<Rightarrow> u32 \<Rightarrow> u32 \<Rightarrow> u8 \<Rightarrow> u16 \<Rightarrow> nat \<Rightarrow> pb_state \<Rightarrow> nat res" where
  "inet_chksum_pseudo_partial p src dest proto proto_len chksum_len s =
     rbind (chksum_partial_loop PBUF_MAX p chksum_len 0 False s) (\<lambda>(acc, swapped).
       Inr (add_pseudo (if swapped then SWAP_BYTES_IN_WORD acc else acc) src dest proto proto_len))"

definition inet_chksum_pbuf :: "nat \<Rightarrow> pb_state \<Rightarrow> nat res" where
  "inet_chksum_pbuf p s =
     rbind (chksum_loop PBUF_MAX p 0 False s) (\<lambda>(acc, swapped).
       Inr (65535 - (if swapped then SWAP_BYTES_IN_WORD acc else acc) mod 65536))"

section \<open>Ones' complement arithmetic\<close>

text \<open>
  The reference: bytes as one little-endian number, reduced modulo 65535 with 65535 as the
  representative of the non-zero multiples.
\<close>

fun evalb :: "bytes \<Rightarrow> nat" where
  "evalb [] = 0"
| "evalb (b # bs) = unat b + 256 * evalb bs"

definition norm :: "nat \<Rightarrow> nat" where
  "norm n = (if n = 0 then 0 else Suc ((n - 1) mod 65535))"

lemma norm_le: "norm n \<le> 65535"
  by (simp add: norm_def Suc_le_eq)

lemma norm_id: "n \<le> 65535 \<Longrightarrow> norm n = n"
  by (auto simp: norm_def)

lemma norm_0 [simp]: "norm 0 = 0" "norm n = 0 \<longleftrightarrow> n = 0"
  by (simp_all add: norm_def)

lemma norm_mod: "norm n mod 65535 = n mod 65535"
  by (cases n) (simp_all add: norm_def mod_Suc_eq)

lemma norm_eqI: "a mod 65535 = b mod 65535 \<Longrightarrow> (a = 0 \<longleftrightarrow> b = 0) \<Longrightarrow> norm a = norm b"
proof (cases "a = 0")
  case False
  assume "a mod 65535 = b mod 65535" "a = 0 \<longleftrightarrow> b = 0"
  with False obtain c d where cd: "a = Suc c" "b = Suc d" "Suc c mod 65535 = Suc d mod 65535"
    by (metis not0_implies_Suc)
  then have "c mod 65535 = d mod 65535" by (simp add: mod_Suc split: if_splits)
  with cd show ?thesis by (simp add: norm_def)
qed simp

lemma norm_add: "norm (norm a + b) = norm (a + b)"
  by (rule norm_eqI) (metis mod_add_left_eq norm_mod, simp)

lemma norm_add_right: "norm (b + norm a) = norm (b + a)"
  using norm_add [of a b] by (simp add: add.commute)

lemma norm_mult: "0 < c \<Longrightarrow> norm (c * norm a) = norm (c * a)"
  by (rule norm_eqI) (metis mod_mult_right_eq norm_mod, simp)

lemma norm_norm [simp]: "norm (norm a) = norm a"
  by (simp add: norm_id norm_le)

lemma norm_cong_add: "norm a = norm b \<Longrightarrow> norm (a + c) = norm (b + c)"
  by (metis norm_add)

lemma norm_65536: "norm (c + 65536 * x) = norm (c + x)"
proof (rule norm_eqI)
  have "c + 65536 * x = (c + x) + 65535 * x" by simp
  then show "(c + 65536 * x) mod 65535 = (c + x) mod 65535" by (metis mod_mult_self2)
qed simp

lemma norm_2p32: "norm (c + 4294967296 * x) = norm (c + x)"
  using norm_65536 [of c "65536 * x"] norm_65536 [of c x] by simp

lemma fold_value: "u < 4294967296 \<Longrightarrow> FOLD_U32T u = u div 65536 + u mod 65536"
  by (simp add: FOLD_U32T_def add32_def)

lemma fold_norm: "u < 4294967296 \<Longrightarrow> norm (FOLD_U32T u) = norm u"
  using norm_65536 [of "u mod 65536" "u div 65536"] by (simp add: fold_value add.commute)

lemma fold_bound: "u \<le> 131070 \<Longrightarrow> FOLD_U32T u \<le> 65535" "u < 4294967296 \<Longrightarrow> FOLD_U32T u \<le> 131070"
proof -
  have eq: "65536 * (u div 65536) + u mod 65536 = u" and lt: "u mod 65536 \<le> 65535" by simp_all
  show "FOLD_U32T u \<le> 65535" if "u \<le> 131070"
    unfolding fold_value [OF le_less_trans [OF that, of 4294967296, simplified]]
    using that eq lt by (cases "u div 65536 = 0") linarith+
  show "FOLD_U32T u \<le> 131070" if "u < 4294967296"
    using that eq lt by (simp add: fold_value)
qed

lemma fold_small: "u \<le> 131070 \<Longrightarrow> FOLD_U32T u = norm u"
  using fold_norm [of u] norm_id [of "FOLD_U32T u"] fold_bound(1) [of u] by simp

lemma fold_twice: "u < 4294967296 \<Longrightarrow> FOLD_U32T (FOLD_U32T u) = norm u"
  using fold_small [of "FOLD_U32T u"] fold_bound(2) [of u] fold_norm [of u] by simp

lemma swap_bound: "SWAP_BYTES_IN_WORD w \<le> 65535"
proof -
  have "w mod 256 \<le> 255" "w div 256 mod 256 \<le> 255" by simp_all
  then show ?thesis by (simp add: SWAP_BYTES_IN_WORD_def)
qed

lemma swap_norm:
  assumes "w \<le> 65535"
  shows "SWAP_BYTES_IN_WORD w = norm (256 * w)"
proof -
  have "norm (256 * w) = norm (256 * (w mod 256) + 65536 * (w div 256))"
    using mult_div_mod_eq [of 256 w] by (intro arg_cong [where f = norm]) linarith
  also have "\<dots> = norm (256 * (w mod 256) + w div 256)" by (rule norm_65536)
  also have "\<dots> = norm (SWAP_BYTES_IN_WORD w)" using assms by (simp add: SWAP_BYTES_IN_WORD_def mult.commute)
  also have "\<dots> = SWAP_BYTES_IN_WORD w" by (rule norm_id [OF swap_bound])
  finally show ?thesis by simp
qed

lemma evalb_append: "evalb (xs @ ys) = evalb xs + 256 ^ length xs * evalb ys"
  by (induction xs) (simp_all add: algebra_simps)

lemma evalb_zero: "evalb bs = 0 \<longleftrightarrow> (\<forall>b \<in> set bs. b = 0)"
  by (induction bs) (auto simp: unat_eq_0)

lemma norm_even_power: "even k \<Longrightarrow> norm (c + 256 ^ k * x) = norm (c + x)"
proof -
  assume "even k"
  then obtain j where "k = 2 * j" by (elim evenE)
  moreover have "norm (c + 65536 ^ j * x) = norm (c + x)" for j
  proof (induction j)
    case (Suc j)
    then show ?case using norm_65536 [of c "65536 ^ j * x"] by (simp add: mult.assoc)
  qed simp
  ultimately show ?thesis by (simp add: power_mult power2_eq_square)
qed

section \<open>The summation loops\<close>

lemma byte_bound: "unat (b :: u8) \<le> 255"
  using unat_less_256 [of b] by simp

lemma add32_small: "a + b < 4294967296 \<Longrightarrow> add32 a b = a + b"
  by (simp add: add32_def)

lemma sum_words_norm:
  assumes "s + 65535 * length bs < 4294967296" "sum_words s bs = (s', rest)"
  shows "length rest \<le> 1 \<and> s' \<le> s + 65535 * length bs \<and> norm (s' + left_over rest) = norm (s + evalb bs)"
  using assms
proof (induction s bs rule: sum_words.induct)
  case (1 acc a b bs)
  have w: "unat a + 256 * unat b \<le> 65535" using byte_bound [of a] byte_bound [of b] by simp
  let ?s = "acc + (unat a + 256 * unat b)"
  have s: "add32 acc (unat a + 256 * unat b) = ?s" using 1(2) w by (intro add32_small) simp
  have "?s + 65535 * length bs < 4294967296" using 1(2) w by simp
  then have ih: "length rest \<le> 1 \<and> s' \<le> ?s + 65535 * length bs \<and> norm (s' + left_over rest) = norm (?s + evalb bs)"
    using 1(1) 1(3) s by simp
  moreover have "norm (?s + evalb bs) = norm (acc + evalb (a # b # bs))"
    using norm_65536 [of ?s "evalb bs"] by (simp add: add.assoc)
  moreover have "?s + 65535 * length bs \<le> acc + 65535 * length (a # b # bs)" using w by simp
  ultimately show ?case by linarith
qed (auto simp: left_over_def)

lemma sum_be_norm:
  assumes "s + 65535 * length bs < 4294967296"
  shows "sum_be s bs \<le> s + 65535 * length bs \<and> norm (sum_be s bs) = norm (s + 256 * evalb bs)"
  using assms
proof (induction s bs rule: sum_be.induct)
  case (1 acc a b bs)
  have w: "unat a * 256 + unat b \<le> 65535" using byte_bound [of a] byte_bound [of b] by simp
  let ?s = "acc + (unat a * 256 + unat b)"
  have s: "add32 acc (unat a * 256 + unat b) = ?s" using 1(2) w by (intro add32_small) simp
  have "?s + 65535 * length bs < 4294967296" using 1(2) w by simp
  then have ih: "sum_be ?s bs \<le> ?s + 65535 * length bs" "norm (sum_be ?s bs) = norm (?s + 256 * evalb bs)"
    using 1(1) s by auto
  have "norm (acc + 256 * evalb (a # b # bs)) = norm ((acc + unat a * 256) + 65536 * (unat b + 256 * evalb bs))"
    by (simp add: algebra_simps)
  also have "\<dots> = norm (?s + 256 * evalb bs)" by (subst norm_65536) (simp add: add.assoc)
  finally show ?case using ih s w by simp
next
  case (2 acc a)
  then show ?case using byte_bound [of a] add32_small [of acc "unat a * 256"] by (simp add: algebra_simps)
qed simp

lemma add_carry_norm:
  assumes "s < 4294967296" "w < 4294967296"
  shows "add_carry s w < 4294967296 \<and> norm (add_carry s w) = norm (s + w)"
proof (cases "s + w < 4294967296")
  case True
  then show ?thesis by (simp add: add_carry_def add32_small)
next
  case False
  then have "add32 s w = s + w - 4294967296" using assms by (simp add: add32_def mod_if)
  then have eq: "add_carry s w = s + w - 4294967296 + 1" using False assms
    by (simp add: add_carry_def Let_def add32_small)
  have "norm (s + w) = norm ((s + w - 4294967296) + 4294967296 * 1)" using False by simp
  also have "\<dots> = norm (s + w - 4294967296 + 1)" by (rule norm_2p32)
  finally show ?thesis using eq assms by simp
qed

lemma load32_bound: "load32 a b c d < 4294967296"
  using byte_bound [of a] byte_bound [of b] byte_bound [of c] byte_bound [of d] by (simp add: load32_def)

lemma evalb_load32: "evalb (a # b # c # d # bs) = load32 a b c d + 4294967296 * evalb bs"
  by (simp add: load32_def)

lemma sum_longs_norm:
  assumes "s < 4294967296" "sum_longs s bs = (s', rest)"
  shows "s' < 4294967296 \<and> length rest < 8 \<and> norm (s' + evalb rest) = norm (s + evalb bs)"
  using assms
proof (induction s bs rule: sum_longs.induct)
  case (1 s a b c d e f g h bs)
  let ?s1 = "add_carry s (load32 a b c d)" let ?s2 = "add_carry ?s1 (load32 e f g h)"
  have s1: "?s1 < 4294967296" "norm ?s1 = norm (s + load32 a b c d)"
    using add_carry_norm [OF 1(2) load32_bound] by auto
  have s2: "?s2 < 4294967296" "norm ?s2 = norm (?s1 + load32 e f g h)"
    using add_carry_norm [OF s1(1) load32_bound] by auto
  have ih: "s' < 4294967296" "length rest < 8" "norm (s' + evalb rest) = norm (?s2 + evalb bs)"
    using 1(1) [OF s2(1)] 1(3) by auto
  have "norm (s + evalb (a # b # c # d # e # f # g # h # bs)) =
      norm (s + load32 a b c d + (load32 e f g h + 4294967296 * evalb bs))"
    unfolding evalb_load32 add.assoc [symmetric] norm_2p32 by (simp add: add.assoc)
  also have "\<dots> = norm (?s1 + load32 e f g h + 4294967296 * evalb bs)"
    using norm_cong_add [OF s1(2)] by (simp add: add.assoc)
  also have "\<dots> = norm (?s2 + evalb bs)"
    using norm_cong_add [OF s2(2), of "evalb bs"] by (simp add: norm_2p32)
  finally show ?case using ih by simp
qed auto

lemma odd_byte: "norm (256 * (evalb bs + 256 * unat b)) = norm (evalb (b # bs))"
  using norm_65536 [of "256 * evalb bs" "unat b"] by (simp add: algebra_simps)

text \<open>Folding the sum and undoing the byte shift of an odd start address.\<close>

lemma finish_norm:
  assumes v: "v < 4294967296" and acc: "acc = FOLD_U32T (FOLD_U32T v)"
  shows "(if odd_start then SWAP_BYTES_IN_WORD acc else acc) mod 65536 =
    (if odd_start then norm (256 * v) else norm v)"
proof -
  have a: "acc = norm v" using v by (simp add: acc fold_twice)
  then have "SWAP_BYTES_IN_WORD acc = norm (256 * v)" using swap_norm [OF norm_le] by (simp add: norm_mult)
  then show ?thesis using a norm_le [of v] norm_le [of "256 * v"] by simp
qed

lemma left_over_bound: "left_over r \<le> 255"
  using byte_bound by (auto simp: left_over_def split: list.split)

lemma lwip_standard_chksum_norm:
  assumes len: "length bs < 65536"
  shows "lwip_standard_chksum a bs = norm (evalb bs)"
proof -
  define bs1 where "bs1 = (if a mod 2 = 1 \<and> bs \<noteq> [] then tl bs else bs)"
  define t1 where "t1 = (if a mod 2 = 1 \<and> bs \<noteq> [] then 256 * unat (hd bs) else 0)"
  have pair: "(if a mod 2 = 1 \<and> bs \<noteq> [] then (256 * unat (hd bs), tl bs) else (0, bs)) = (t1, bs1)"
    by (simp add: t1_def bs1_def)
  obtain s rest where sw: "sum_words 0 bs1 = (s, rest)" by fastforce
  have l1: "length bs1 \<le> 65535" "t1 \<le> 65280" using len byte_bound [of "hd bs"] by (auto simp: bs1_def t1_def)
  have s: "s \<le> 65535 * 65535" "norm (s + left_over rest) = norm (evalb bs1)"
    using sum_words_norm [OF _ sw] l1 mult_le_mono2 [OF l1(1), of 65535] by auto
  let ?v = "s + (t1 + left_over rest)"
  have v: "?v < 4294967296" using s(1) l1(2) left_over_bound [of rest] by simp
  have vn: "norm ?v = norm (evalb bs1 + t1)"
    using norm_cong_add [OF s(2), of t1] by (simp add: algebra_simps)
  have "lwip_standard_chksum a bs = (if a mod 2 = 1 then norm (256 * ?v) else norm ?v)"
    unfolding lwip_standard_chksum_def Let_def pair prod.case sw add32_small [OF v] by (rule finish_norm [OF v refl])
  also have "\<dots> = norm (evalb bs)"
  proof (cases "a mod 2 = 1")
    case True
    have "norm (256 * ?v) = norm (256 * (evalb bs1 + t1))" using vn norm_mult [of 256] by (metis zero_less_numeral)
    with True show ?thesis using odd_byte [of "tl bs" "hd bs"] by (cases bs) (auto simp: bs1_def t1_def)
  next
    case False
    then show ?thesis using vn by (simp add: bs1_def t1_def)
  qed
  finally show ?thesis .
qed

lemma lwip_standard_chksum1_norm:
  assumes len: "length bs < 65536"
  shows "lwip_standard_chksum1 bs = norm (evalb bs)"
proof -
  let ?v = "sum_be 0 bs"
  have "65535 * length bs \<le> 65535 * 65535" using len by (intro mult_le_mono2) simp
  then have v: "?v < 4294967296" "norm ?v = norm (256 * evalb bs)" using sum_be_norm [of 0 bs] by auto
  have f: "FOLD_U32T ?v \<le> 131070" using fold_bound(2) [OF v(1)] .
  have "(if FOLD_U32T ?v div 65536 \<noteq> 0 then FOLD_U32T (FOLD_U32T ?v) else FOLD_U32T ?v) = norm ?v"
    using fold_twice [OF v(1)] fold_norm [OF v(1)] norm_id [of "FOLD_U32T ?v"] by auto
  then have "lwip_standard_chksum1 bs = SWAP_BYTES_IN_WORD (norm ?v)"
    using norm_le [of ?v] by (simp add: lwip_standard_chksum1_def Let_def)
  also have "\<dots> = norm (256 * norm ?v)" by (rule swap_norm [OF norm_le])
  also have "\<dots> = norm (256 * (256 * evalb bs))" using v(2) norm_mult [of 256] by (metis zero_less_numeral)
  also have "\<dots> = norm (evalb bs)" using norm_65536 [of 0 "evalb bs"] by simp
  finally show ?thesis .
qed

lemma lwip_standard_chksum3_norm:
  assumes len: "length bs < 65536"
  shows "lwip_standard_chksum3 a bs = norm (evalb bs)"
proof -
  define bs1 where "bs1 = (if a mod 2 = 1 \<and> bs \<noteq> [] then tl bs else bs)"
  define t1 where "t1 = (if a mod 2 = 1 \<and> bs \<noteq> [] then 256 * unat (hd bs) else 0)"
  define a1 where "a1 = (if a mod 2 = 1 \<and> bs \<noteq> [] then a + 1 else a)"
  have p1: "(if a mod 2 = 1 \<and> bs \<noteq> [] then (256 * unat (hd bs), tl bs, a + 1) else (0, bs, a)) = (t1, bs1, a1)"
    by (simp add: t1_def bs1_def a1_def)
  have l1: "length bs1 \<le> 65535" "t1 \<le> 65280" using len byte_bound [of "hd bs"] by (auto simp: bs1_def t1_def)
  obtain s1 bs2 where p2: "(if a1 mod 4 \<noteq> 0 \<and> length bs1 > 1
      then (unat (bs1 ! 0) + 256 * unat (bs1 ! 1), drop 2 bs1) else (0, bs1)) = (s1, bs2)" by fastforce
  have s1: "s1 \<le> 65535" "length bs2 \<le> length bs1" "norm (s1 + evalb bs2) = norm (evalb bs1)"
  proof -
    show "s1 \<le> 65535" using p2 byte_bound [of "bs1 ! 0"] byte_bound [of "bs1 ! 1"] by (auto split: if_splits)
    show "length bs2 \<le> length bs1" using p2 by (auto split: if_splits)
    show "norm (s1 + evalb bs2) = norm (evalb bs1)"
    proof (cases "a1 mod 4 \<noteq> 0 \<and> length bs1 > 1")
      case True
      then obtain b c cs where "bs1 = b # c # cs" by (cases bs1; cases "tl bs1") auto
      moreover from this have "s1 = unat b + 256 * unat c" "bs2 = cs" using True p2 by auto
      moreover have "evalb (b # c # cs) = unat b + 256 * unat c + 65536 * evalb cs" by simp
      ultimately show ?thesis by (simp only: norm_65536)
    next
      case False
      then have "s1 = 0" "bs2 = bs1" using p2 by (auto split: if_splits)
      then show ?thesis by simp
    qed
  qed
  obtain s2 bs3 where p3: "sum_longs s1 bs2 = (s2, bs3)" by fastforce
  have s2: "s2 < 4294967296" "length bs3 < 8" "norm (s2 + evalb bs3) = norm (s1 + evalb bs2)"
    using sum_longs_norm [OF _ p3] s1 by auto
  obtain s3 rest where p4: "sum_words (FOLD_U32T s2) bs3 = (s3, rest)" by fastforce
  have b3: "65535 * length bs3 \<le> 65535 * 8" using s2 by (intro mult_le_mono2) simp
  have f: "FOLD_U32T s2 \<le> 131070" "norm (FOLD_U32T s2) = norm s2" using fold_bound(2) fold_norm s2(1) by auto
  have s3: "s3 \<le> 131070 + 65535 * 8" "norm (s3 + left_over rest) = norm (FOLD_U32T s2 + evalb bs3)"
    using sum_words_norm [OF _ p4] b3 f by auto
  let ?v = "s3 + (t1 + left_over rest)"
  have v: "?v < 4294967296" using s3(1) l1(2) left_over_bound [of rest] by simp
  have "norm (s3 + left_over rest) = norm (evalb bs1)"
    using s3(2) norm_cong_add [OF f(2), of "evalb bs3"] s2(3) s1(3) by simp
  then have vn: "norm ?v = norm (evalb bs1 + t1)"
    using norm_cong_add [of "s3 + left_over rest" "evalb bs1" t1] by (simp add: algebra_simps)
  have "lwip_standard_chksum3 a bs = (if a mod 2 = 1 then norm (256 * ?v) else norm ?v)"
    unfolding lwip_standard_chksum3_def Let_def p1 prod.case p2 p3 p4 add32_small [OF v] by (rule finish_norm [OF v refl])
  also have "\<dots> = norm (evalb bs)"
  proof (cases "a mod 2 = 1")
    case True
    have "norm (256 * ?v) = norm (256 * (evalb bs1 + t1))" using vn norm_mult [of 256] by (metis zero_less_numeral)
    with True show ?thesis using odd_byte [of "tl bs" "hd bs"] by (cases bs) (auto simp: bs1_def t1_def)
  next
    case False
    then show ?thesis using vn by (simp add: bs1_def t1_def)
  qed
  finally show ?thesis .
qed

section \<open>Chains of pbufs\<close>

text \<open>
  The accumulator after the bytes \<open>xs\<close>: their sum, shifted by one byte if an odd number of bytes
  has been added.
\<close>

definition acc_of :: "bool \<Rightarrow> nat \<Rightarrow> nat" where
  "acc_of swapped n = norm (if swapped then 256 * n else n)"

lemma acc_of_le: "acc_of sw n \<le> 65535"
  by (simp add: acc_of_def norm_le)

lemma acc_swap: "SWAP_BYTES_IN_WORD (acc_of sw n) = acc_of (\<not> sw) n"
proof -
  have "SWAP_BYTES_IN_WORD (acc_of sw n) = norm (256 * acc_of sw n)" using swap_norm acc_of_le by simp
  also have "\<dots> = norm (256 * (if sw then 256 * n else n))" unfolding acc_of_def by (rule norm_mult) simp
  also have "\<dots> = acc_of (\<not> sw) n" using norm_65536 [of 0 n] by (simp add: acc_of_def)
  finally show ?thesis .
qed

lemma acc_final: "(if sw then SWAP_BYTES_IN_WORD (acc_of sw n) else acc_of sw n) = norm n"
  using acc_swap [of sw n] by (cases sw) (auto simp: acc_of_def)

lemma acc_step:
  assumes "length bs < 65536" "sw \<longleftrightarrow> odd (length xs)"
  shows "FOLD_U32T (add32 (acc_of sw (evalb xs)) (lwip_standard_chksum a bs)) = acc_of sw (evalb (xs @ bs))"
proof -
  let ?x = "if sw then 256 * evalb xs else evalb xs"
  have le: "acc_of sw (evalb xs) + norm (evalb bs) \<le> 131070"
    using acc_of_le [of sw "evalb xs"] norm_le [of "evalb bs"] by simp
  have "FOLD_U32T (add32 (acc_of sw (evalb xs)) (lwip_standard_chksum a bs)) = norm (acc_of sw (evalb xs) + norm (evalb bs))"
    using fold_small [OF le] le by (simp add: lwip_standard_chksum_norm assms add32_small)
  also have "\<dots> = norm (?x + evalb bs)" by (simp add: acc_of_def norm_add norm_add_right)
  also have "\<dots> = acc_of sw (evalb (xs @ bs))"
  proof (cases sw)
    case True
    then have "even (Suc (length xs))" using assms(2) by simp
    from norm_even_power [OF this, of "256 * evalb xs" "evalb bs"] True show ?thesis
      by (simp add: acc_of_def evalb_append algebra_simps)
  next
    case False
    then have "even (length xs)" using assms(2) by simp
    from norm_even_power [OF this, of "evalb xs" "evalb bs"] False show ?thesis
      by (simp add: acc_of_def evalb_append)
  qed
  finally show ?thesis .
qed

lemma chksum_loop_chain:
  assumes "chain s p ps" "length ps < fuel" "length (content s ps) < 65536" "sw \<longleftrightarrow> odd (length xs)"
  shows "\<exists>sw'. chksum_loop fuel p (acc_of sw (evalb xs)) sw s = Inr (acc_of sw' (evalb (xs @ content s ps)), sw')"
  using assms
proof (induction ps arbitrary: p fuel sw xs)
  case Nil
  then show ?case by (cases fuel) auto
next
  case (Cons q qs)
  then obtain f where f: "fuel = Suc f" "length qs < f" by (cases fuel) auto
  from Cons.prems have c: "p = q" "q \<noteq> 0" "chain s (pnext (pbufs s q)) qs" by auto
  let ?d = "pbuf_data s q" let ?b = "pbufs s q"
  have len: "length ?d < 65536" "length (content s qs) < 65536" using Cons.prems(3) by auto
  have acc: "FOLD_U32T (add32 (acc_of sw (evalb xs)) (LWIP_CHKSUM (bytes s) (payload ?b) (plen ?b))) =
      acc_of sw (evalb (xs @ ?d))"
    using acc_step [OF len(1) Cons.prems(4)] by (simp add: LWIP_CHKSUM_def pbuf_data_def)
  show ?case
  proof (cases "plen ?b mod 2 \<noteq> 0")
    case True
    have "(\<not> sw) \<longleftrightarrow> odd (length (xs @ ?d))" using True Cons.prems(4) by (auto simp: odd_iff_mod_2_eq_one)
    from Cons.IH [OF c(3) f(2) len(2) this] True c f acc show ?thesis
      by (simp add: acc_swap Let_def)
  next
    case False
    have "sw \<longleftrightarrow> odd (length (xs @ ?d))" using False Cons.prems(4) by (auto simp: even_iff_mod_2_eq_zero)
    from Cons.IH [OF c(3) f(2) len(2) this] False c f acc show ?thesis
      by (simp add: Let_def)
  qed
qed

lemma chksum_chain:
  assumes "chain s p ps" "length ps < PBUF_MAX" "length (content s ps) < 65536"
  shows "\<exists>acc sw. chksum_loop PBUF_MAX p 0 False s = Inr (acc, sw) \<and>
    (if sw then SWAP_BYTES_IN_WORD acc else acc) = norm (evalb (content s ps))"
proof -
  obtain sw where "chksum_loop PBUF_MAX p (acc_of False (evalb [])) False s = Inr (acc_of sw (evalb ([] @ content s ps)), sw)"
    using chksum_loop_chain [OF assms, of False "[]"] by auto
  then show ?thesis
    using acc_swap [of sw "evalb (content s ps)"] by (cases sw) (auto simp: acc_of_def)
qed

text \<open>The pseudo header of the TCP and UDP checksums, as the bytes it has in network order.\<close>

definition pseudo_header :: "u32 \<Rightarrow> u32 \<Rightarrow> u8 \<Rightarrow> u16 \<Rightarrow> bytes" where
  "pseudo_header src dest proto proto_len =
     host_bytes32 src @ host_bytes32 dest @ [0, proto] @ net_bytes16 proto_len"

lemma unat_drop: "unat (drop_bit n (w :: 'a :: len word)) = unat w div 2 ^ n"
proof -
  have "take_bit LENGTH('a) (unat w) = unat w" by (rule take_bit_nat_eq_self) (rule unsigned_less)
  moreover have "unat (drop_bit n w) = drop_bit n (take_bit LENGTH('a) (unat w))"
    by (rule unsigned_drop_bit_eq)
  ultimately show ?thesis by (simp only: drop_bit_eq_div)
qed

lemma unat_low_byte: "unat (ucast (w :: 'a :: len word) :: u8) = unat w mod 256"
  by (simp add: unsigned_ucast_eq take_bit_eq_mod)

lemma evalb_host_bytes16: "evalb (host_bytes16 w) = unat w"
proof -
  have "unat w div 256 < 256" using unat_less_65536 [of w] by simp
  then have "evalb (host_bytes16 w) = unat w mod 256 + 256 * (unat w div 256)"
    by (simp add: host_bytes16_def unat_drop unat_low_byte)
  then show ?thesis by simp
qed

lemma evalb_net_bytes16: "evalb (net_bytes16 w) = unat (lwip_htons w)"
  by (simp add: evalb_host_bytes16 flip: host_bytes16_htons)

lemma evalb_host_bytes32: "evalb (host_bytes32 w) = unat w"
  and unat_halves: "unat (w AND 0xffff) = unat w mod 65536" "unat (drop_bit 16 w AND 0xffff) = unat w div 65536"
  for w :: u32
proof -
  let ?n = "unat w"
  have n: "?n < 4294967296" by (rule unat_less_2p32)
  have "evalb (host_bytes32 w) = ?n mod 256 + 256 * (?n div 256 mod 256 + 256 * (?n div 65536 mod 256 + 256 * (?n div 16777216 mod 256)))"
    by (simp add: host_bytes32_def unat_drop unat_low_byte)
  also have "\<dots> = ?n"
  proof -
    have "x = x mod 256 + 256 * (x div 256)" for x :: nat by simp
    moreover have "?n div 16777216 mod 256 = ?n div 16777216" using n by simp
    moreover have "?n div 256 div 256 = ?n div 65536" "?n div 65536 div 256 = ?n div 16777216" by (simp_all add: div_mult2_eq [symmetric])
    ultimately show ?thesis by metis
  qed
  finally show "evalb (host_bytes32 w) = ?n" .
  have lo: "unat (v AND 0xffff) = unat v mod 65536" for v :: u32
    using unsigned_take_bit_eq [of 16 v, where ?'a = nat]
    unfolding mask_numerals_32(5) take_bit_eq_mask [symmetric] take_bit_eq_mod [where ?'a = nat] by simp
  show "unat (w AND 0xffff) = ?n mod 65536" by (rule lo)
  show "unat (drop_bit 16 w AND 0xffff) = ?n div 65536" using n by (simp add: lo unat_drop)
qed

lemma norm_halves: "norm (c + (n mod 65536 + n div 65536)) = norm (c + n)"
  using norm_65536 [of "c + n mod 65536" "n div 65536"] by (simp add: add.assoc)

lemma add_pseudo_norm:
  assumes "acc \<le> 65535"
  shows "add_pseudo acc src dest proto proto_len = 65535 - norm (acc + evalb (pseudo_header src dest proto proto_len))"
proof -
  let ?s = "unat src" and ?d = "unat dest"
  let ?p = "unat (lwip_htons (ucast proto))" and ?l = "unat (lwip_htons proto_len)"
  let ?v = "acc + ?s mod 65536 + ?s div 65536 + ?d mod 65536 + ?d div 65536 + ?p + ?l"
  have b: "?s mod 65536 \<le> 65535" "?s div 65536 \<le> 65535" "?d mod 65536 \<le> 65535" "?d div 65536 \<le> 65535" "?p \<le> 65535" "?l \<le> 65535"
    using unat_less_2p32 [of src] unat_less_2p32 [of dest]
      unat_less_65536 [of "lwip_htons (ucast proto)"] unat_less_65536 [of "lwip_htons proto_len"] by auto
  have v: "?v < 4294967296" using assms b by linarith
  have a: "add_pseudo acc src dest proto proto_len = 65535 - FOLD_U32T (FOLD_U32T ?v) mod 65536"
  proof -
    have "add32 (add32 (add32 (add32 (add32 (add32 acc (?s mod 65536)) (?s div 65536)) (?d mod 65536)) (?d div 65536)) ?p) ?l = ?v"
      using assms b by (simp add: add32_small)
    then show ?thesis unfolding add_pseudo_def Let_def unat_halves(2) unfolding unat_halves(1) by (simp only:)
  qed
  have "add_pseudo acc src dest proto proto_len = 65535 - norm ?v"
    using norm_le [of ?v] by (simp only: a fold_twice [OF v]) simp
  also have "norm ?v = norm (acc + ?s + ?d + ?p + ?l)"
    using norm_halves [of "acc + ?s mod 65536 + ?s div 65536 + ?p + ?l" ?d] norm_halves [of "acc + ?d + ?p + ?l" ?s]
    by (simp add: ac_simps)
  also have "\<dots> = norm (acc + evalb (pseudo_header src dest proto proto_len))"
  proof -
    have "evalb [0, proto] = ?p" using evalb_net_bytes16 [of "ucast proto"] unat_less_256 [of proto]
      by (simp add: net_bytes16_def unat_drop unat_low_byte)
    then have eq: "evalb ([0, proto] @ net_bytes16 proto_len) = ?p + 65536 * ?l"
      by (simp only: evalb_append evalb_net_bytes16) simp
    have "evalb (pseudo_header src dest proto proto_len) = ?s + 256 ^ 4 * (?d + 256 ^ 4 * (?p + 65536 * ?l))"
      unfolding pseudo_header_def evalb_append [of "host_bytes32 _"] evalb_host_bytes32 eq
      by (simp add: host_bytes32_def)
    also have "norm (acc + \<dots>) = norm (acc + ?s + ?d + ?p + ?l)"
      using norm_even_power [of 4 "acc + ?s" "?d + 256 ^ 4 * (?p + 65536 * ?l)"]
        norm_even_power [of 4 "acc + ?s + ?d" "?p + 65536 * ?l"] norm_65536 [of "acc + ?s + ?d + ?p" ?l]
      by (simp add: add.assoc)
    finally show ?thesis by simp
  qed
  finally show ?thesis .
qed

lemma pseudo_header_length [simp]: "length (pseudo_header src dest proto proto_len) = 12"
  by (simp add: pseudo_header_def host_bytes32_def net_bytes16_def)

section \<open>Partial checksums\<close>

text \<open>
  The partial loop agrees with the full one on the first \<open>n\<close> bytes, as long as the assertion on
  the remaining length, which holds back every pbuf that leaves 0x7fff or more bytes, does not strike.
\<close>

lemma partial_step:
  assumes "n \<le> length (content s ps)" "length (content s ps) < 65536" "n < 0x7fff" "chain s p ps" "length ps < fuel"
    "sw \<longleftrightarrow> odd (length xs)"
  shows "\<exists>acc sw'. chksum_partial_loop fuel p n (acc_of sw (evalb xs)) sw s = Inr (acc, sw') \<and>
    (if sw' then SWAP_BYTES_IN_WORD acc else acc) = norm (evalb (xs @ take n (content s ps)))"
  using assms
proof (induction ps arbitrary: p fuel sw xs n)
  case Nil
  then obtain f where "fuel = Suc f" by (cases fuel) auto
  with Nil show ?case using acc_swap [of sw "evalb xs"] by (cases sw) (auto simp: acc_of_def)
next
  case (Cons q qs)
  then obtain f where f: "fuel = Suc f" "length qs < f" by (cases fuel) auto
  from Cons.prems have c: "p = q" "q \<noteq> 0" "chain s (pnext (pbufs s q)) qs" by auto
  show ?case
  proof (cases "n = 0")
    case True
    with f c show ?thesis using acc_swap [of sw "evalb xs"] by (cases sw) (auto simp: acc_of_def)
  next
    case False
    let ?b = "pbufs s q"
    let ?k = "if plen ?b > n then n else plen ?b"
    let ?d = "take ?k (pbuf_data s q)"
    have d: "?d = read_bytes (bytes s) (payload ?b) ?k" "length ?d < 65536"
      using Cons.prems(3) Cons.prems(2) by (auto simp: pbuf_data_def take_read_bytes min_def)
    have acc: "FOLD_U32T (add32 (acc_of sw (evalb xs)) (LWIP_CHKSUM (bytes s) (payload ?b) ?k)) = acc_of sw (evalb (xs @ ?d))"
      using acc_step [OF d(2) Cons.prems(6)] by (simp add: LWIP_CHKSUM_def d(1))
    show ?thesis
    proof (cases "plen ?b > n")
      case True
      then have k: "?d = take n (content s (q # qs))" by simp
      obtain g where g: "f = Suc g" using f by (cases f) auto
      let ?sw = "if plen ?b mod 2 \<noteq> 0 then \<not> sw else sw"
      from g have "chksum_partial_loop fuel p n (acc_of sw (evalb xs)) sw s = Inr (acc_of ?sw (evalb (xs @ ?d)), ?sw)"
        using False f c acc True by (simp add: Let_def acc_swap)
      moreover note acc_final [of ?sw "evalb (xs @ ?d)", unfolded k]
      ultimately show ?thesis unfolding k by blast
    next
      case less: False
      let ?sw = "if plen ?b mod 2 \<noteq> 0 then \<not> sw else sw"
      have k: "?d = pbuf_data s q" using less by simp
      have rest: "n - plen ?b < 0x7fff" using Cons.prems(3) by linarith
      have *: "chksum_partial_loop fuel p n (acc_of sw (evalb xs)) sw s =
          chksum_partial_loop f (pnext ?b) (n - plen ?b) (acc_of ?sw (evalb (xs @ ?d))) ?sw s"
        using False c acc less rest unfolding f chksum_partial_loop.simps(2) Let_def
        by (cases "plen ?b mod 2 \<noteq> 0") (simp_all only: if_False simp_thms not_False_eq_True if_True acc_swap neq0_conv)
      have "n - plen ?b \<le> length (content s qs)" "length (content s qs) < 65536" "n - plen ?b < 0x7fff"
        "?sw \<longleftrightarrow> odd (length (xs @ ?d))"
        using Cons.prems(1,2,3,6) k by (auto simp: odd_iff_mod_2_eq_one)
      from Cons.IH [OF this(1,2,3) c(3) f(2) this(4)] show ?thesis
        unfolding * k using less by simp
    qed
  qed
qed

section \<open>Properties\<close>

text \<open>
  C16. The three implementations of the standard checksum agree, whatever the alignment of the
  data: each returns the ones' complement sum of the data read as 16-bit words, in host order.
\<close>

theorem chksum_algorithms_agree:
  assumes "length bs < 65536"
  shows "lwip_standard_chksum a bs = norm (evalb bs) \<and> lwip_standard_chksum1 bs = norm (evalb bs) \<and>
    lwip_standard_chksum3 b bs = norm (evalb bs)"
  using lwip_standard_chksum_norm lwip_standard_chksum1_norm lwip_standard_chksum3_norm assms by simp

lemma pbuf_chksum: "packet s p ps \<Longrightarrow> inet_chksum_pbuf p s = Inr (65535 - norm (evalb (content s ps)))"
proof -
  assume p: "packet s p ps"
  obtain acc sw where l: "chksum_loop PBUF_MAX p 0 False s = Inr (acc, sw)"
      "(if sw then SWAP_BYTES_IN_WORD acc else acc) = norm (evalb (content s ps))"
    using chksum_chain [of s p ps] p by (auto simp: packet_def)
  then show ?thesis using norm_le [of "evalb (content s ps)"] by (simp add: inet_chksum_pbuf_def)
qed

lemma pseudo_chksum:
  assumes "packet s p ps"
  shows "inet_chksum_pseudo p src dest proto proto_len s =
    Inr (65535 - norm (evalb (pseudo_header src dest proto proto_len @ content s ps)))"
proof -
  obtain acc sw where l: "chksum_loop PBUF_MAX p 0 False s = Inr (acc, sw)"
      "(if sw then SWAP_BYTES_IN_WORD acc else acc) = norm (evalb (content s ps))"
    using chksum_chain [of s p ps] assms by (auto simp: packet_def)
  have "norm (norm (evalb (content s ps)) + evalb (pseudo_header src dest proto proto_len)) =
      norm (evalb (pseudo_header src dest proto proto_len @ content s ps))"
    using norm_even_power [of 12 "evalb (pseudo_header src dest proto proto_len)" "evalb (content s ps)"]
    by (simp add: norm_add evalb_append add.commute)
  then show ?thesis
    using add_pseudo_norm [OF norm_le, of "evalb (content s ps)"] by (simp add: inet_chksum_pseudo_def l)
qed

text \<open>
  The checksums over a chain of pbufs depend on the packet's bytes only, not on how they are
  split into pbufs or where these lie: without a pseudo header it is the complement of the sum of
  the data, with one the complement of the sum of the pseudo header's bytes followed by the data.
\<close>

theorem chain_chksum_correct:
  assumes "packet s p ps"
  shows "inet_chksum_pbuf p s = Inr (65535 - norm (evalb (content s ps))) \<and>
    inet_chksum_pseudo p src dest proto proto_len s =
      Inr (65535 - norm (evalb (pseudo_header src dest proto proto_len @ content s ps)))"
  using pbuf_chksum [OF assms] pseudo_chksum [OF assms] by simp

text \<open>
  The partial checksum covers exactly the first \<open>n\<close> bytes of the packet for every \<open>n\<close>
  below 0x7fff, but a longer coverage ends the process if 0x7fff or more bytes remain after the first
  pbuf.
\<close>

theorem partial_chksum_range:
  assumes "packet s p ps" "length ps < PBUF_MAX" "length (content s ps) < 65536" "n \<le> length (content s ps)"
  shows "(n < 0x7fff \<longrightarrow> inet_chksum_pseudo_partial p src dest proto proto_len n s =
      Inr (65535 - norm (evalb (pseudo_header src dest proto proto_len @ take n (content s ps))))) \<and>
    (n \<ge> 0x7fff + plen (pbufs s p) \<longrightarrow> inet_chksum_pseudo_partial p src dest proto proto_len n s = Inl Abort)"
proof (intro conjI impI)
  have c: "chain s p ps" using assms(1) by (simp add: packet_def)
  let ?h = "pseudo_header src dest proto proto_len"
  assume n: "n < 0x7fff"
  obtain acc sw where l: "chksum_partial_loop PBUF_MAX p n 0 False s = Inr (acc, sw)"
      "(if sw then SWAP_BYTES_IN_WORD acc else acc) = norm (evalb (take n (content s ps)))"
    using partial_step [OF assms(4,3) n c assms(2), of False "[]"] by (auto simp: acc_of_def)
  have "norm (norm (evalb (take n (content s ps))) + evalb ?h) = norm (evalb (?h @ take n (content s ps)))"
    using norm_even_power [of 12 "evalb ?h" "evalb (take n (content s ps))"]
    by (simp add: norm_add_right evalb_append add.commute)
  then show "inet_chksum_pseudo_partial p src dest proto proto_len n s =
      Inr (65535 - norm (evalb (?h @ take n (content s ps))))"
    using add_pseudo_norm [OF norm_le] by (simp add: inet_chksum_pseudo_partial_def l)
next
  assume n: "n \<ge> 0x7fff + plen (pbufs s p)"
  obtain f where f: "PBUF_MAX = Suc f" using assms(2) by (cases PBUF_MAX) auto
  have "p \<noteq> 0" using assms(1,4) n by (cases ps) (auto simp: packet_def)
  moreover have "\<not> plen (pbufs s p) > n" "\<not> n - plen (pbufs s p) < 0x7fff" "n > 0" using n by linarith+
  ultimately show "inet_chksum_pseudo_partial p src dest proto proto_len n s = Inl Abort"
    unfolding inet_chksum_pseudo_partial_def f chksum_partial_loop.simps(2) Let_def
    by (simp only: if_False simp_thms rbind_Inl not_False_eq_True if_True)
qed

text \<open>
  Writing the checksum computed over data with a zeroed field into that field makes the check
  over the result zero, which is the test the receivers apply.
\<close>

theorem chksum_field_verifies:
  assumes "even (length xs)" "length xs + length ys + 2 < 65536"
    and "read_bytes (bytes s) a (length xs + length ys + 2) = xs @ [0, 0] @ ys"
    and "c = word_of_nat (inet_chksum a (length xs + length ys + 2) s)"
    and "read_bytes (bytes s') a' (length xs + length ys + 2) = xs @ host_bytes16 c @ ys"
  shows "inet_chksum a' (length xs + length ys + 2) s' = 0"
proof -
  let ?e = "evalb xs + 256 ^ (length xs + 2) * evalb ys"
  have len: "length (xs @ [0, 0] @ ys) < 65536" "length (xs @ host_bytes16 c @ ys) < 65536"
    using assms(2) by (auto simp: host_bytes16_def)
  have e0: "evalb (xs @ [0, 0] @ ys) = ?e" by (simp add: evalb_append power_add)
  have ec: "evalb (xs @ host_bytes16 c @ ys) = ?e + 256 ^ length xs * unat c"
    by (simp only: evalb_append evalb_host_bytes16) (simp add: power_add host_bytes16_def algebra_simps)
  have ck: "inet_chksum a (length xs + length ys + 2) s = 65535 - norm ?e"
    unfolding inet_chksum_def LWIP_CHKSUM_def assms(3) lwip_standard_chksum_norm [OF len(1)] e0 ..
  then have "unat c = 65535 - norm ?e"
    unfolding assms(4) by (simp add: unat_of_nat)
  then have "norm (?e + 256 ^ length xs * unat c) = norm (norm ?e + (65535 - norm ?e))"
    using norm_even_power [OF assms(1), of ?e "unat c"] by (simp add: norm_add)
  also have "\<dots> = 65535" using norm_le [of ?e] by (simp add: norm_id)
  finally show ?thesis
    unfolding inet_chksum_def LWIP_CHKSUM_def assms(5) lwip_standard_chksum_norm [OF len(2)] ec by simp
qed

section \<open>Instances\<close>

theorem chksum_algorithms_agree_witness:
  "lwip_standard_chksum 5 [1, 2, 3] = 516 \<and> lwip_standard_chksum1 [1, 2, 3] = 516 \<and> lwip_standard_chksum3 7 [1, 2, 3] = 516"
  using chksum_algorithms_agree [of "[1, 2, 3]" 5 7] by (simp add: norm_def)

theorem chain_chksum_correct_witness:
  "inet_chksum_pbuf 1000 sample = Inr 15421 \<and> inet_chksum_pseudo 1000 1 2 17 4 sample = Inr 10042"
  using chain_chksum_correct [OF sample_packet(1), of 1 2 17 4] unfolding sample_packet(2)
  by (simp add: norm_def pseudo_header_def host_bytes32_def net_bytes16_def)

theorem partial_chksum_range_witness:
  "inet_chksum_pseudo_partial 1000 1 2 17 4 3 sample = Inr 35130"
proof -
  have "take 3 [97, 97, 97, 98 :: u8] = [97, 97, 97]" by (simp add: numeral_3_eq_3)
  moreover have "norm (evalb (pseudo_header 1 2 17 4 @ [97, 97, 97])) = 30405"
    by (simp add: norm_def pseudo_header_def host_bytes32_def net_bytes16_def)
  moreover have "inet_chksum_pseudo_partial 1000 1 2 17 4 3 sample =
      Inr (65535 - norm (evalb (pseudo_header 1 2 17 4 @ take 3 [97, 97, 97, 98])))"
    by (rule partial_chksum_range [OF sample_packet(1), unfolded sample_packet(2), THEN conjunct1, rule_format]) simp_all
  ultimately show ?thesis by simp
qed

theorem chksum_field_verifies_witness:
  "inet_chksum 100 4 (sample\<lparr>bytes := (\<lambda>_. 0)(100 := 69, 101 := 1, 102 := 186, 103 := 254)\<rparr>) = 0"
proof -
  let ?s = "sample\<lparr>bytes := (\<lambda>_. 0)(100 := 69, 101 := 1)\<rparr>"
  let ?t = "sample\<lparr>bytes := (\<lambda>_. 0)(100 := 69, 101 := 1, 102 := 186, 103 := 254)\<rparr>"
  have l: "2 + (0 :: nat) + 2 = 4" "length [69, 1 :: u8] = 2" by simp_all
  have r: "read_bytes (bytes ?s) 100 4 = [69, 1, 0, 0]" "read_bytes (bytes ?t) 100 4 = [69, 1, 186, 254]"
    by (simp_all add: read_bytes_def upt_rec eval_nat_numeral)
  have c: "inet_chksum 100 4 ?s = 65210" "host_bytes16 (word_of_nat 65210) = [186, 254]"
    by (simp_all add: inet_chksum_def LWIP_CHKSUM_def lwip_standard_chksum_norm r [simplified] norm_def host_bytes16_def)
  show ?thesis
    using chksum_field_verifies [of "[69, 1]" "[]" ?s 100 _ ?t 100] unfolding l list.size(3) by (simp add: r [simplified] c c(2) [simplified])
qed

end
