(* ===== verification/Timers.thy ===== *)
theory Timers
  imports Memp_Pool
begin

text \<open>
  \<^verbatim>\<open>src/src/lwip/core/timers.c\<close> (\<^verbatim>\<open>NO_SYS\<close> is 0): the list of pending timeouts. A timeout stores the
  time between the expiry of its predecessor and its own, as a \<^verbatim>\<open>u32_t\<close>; the abstract view is the
  list of absolute deadlines. The structures live in the elements of the pool
  \<^verbatim>\<open>MEMP_SYS_TIMEOUT\<close>. What \<^verbatim>\<open>sys_arch_mbox_fetch\<close> returns depends on the clock and on other threads
  and is an argument (\<open>waited\<close>); so is the effect of a handler on the list (\<open>call\<close>), instantiated
  below with the handlers of the file.
\<close>

section \<open>State and operations\<close>

datatype sys_timeout_handler =
    H_NULL | H_tcpip_tcp | H_ip_reass | H_arp | H_autoip | H_dns | H_other nat

record sys_timeo =
  tnext :: nat
  time :: u32
  h :: sys_timeout_handler
  arg :: nat

record timers =
  next_timeout :: nat
  timeos :: "nat \<Rightarrow> sys_timeo"
  tpools :: memp_state
  tcpip_tcp_timer_active :: bool

abbreviation set_timeo :: "nat \<Rightarrow> (sys_timeo \<Rightarrow> sys_timeo) \<Rightarrow> timers \<Rightarrow> timers" where
  "set_timeo a f s \<equiv> s\<lparr>timeos := (timeos s)(a := f (timeos s a))\<rparr>"

abbreviation TIMEOUT_MAX :: nat where "TIMEOUT_MAX \<equiv> memp_num MEMP_SYS_TIMEOUT"

text \<open>The \<^verbatim>\<open>for\<close> loop of \<^verbatim>\<open>sys_timeout\<close>.\<close>

primrec timeout_insert :: "nat \<Rightarrow> nat \<Rightarrow> nat \<Rightarrow> timers \<Rightarrow> timers res" where
  "timeout_insert 0 t timeout s = Inl No_Fuel"
| "timeout_insert (Suc fuel) t timeout s =
     (if t = 0 then Inr s
      else
        let s = set_timeo timeout (\<lambda>x. x\<lparr>time := time x - time (timeos s t)\<rparr>) s;
            nx = tnext (timeos s t)
        in if nx = 0 \<or> time (timeos s nx) > time (timeos s timeout)
           then
             let s = (if nx \<noteq> 0 then set_timeo nx (\<lambda>x. x\<lparr>time := time x - time (timeos s timeout)\<rparr>) s else s);
                 s = set_timeo timeout (\<lambda>x. x\<lparr>tnext := nx\<rparr>) s
             in Inr (set_timeo t (\<lambda>x. x\<lparr>tnext := timeout\<rparr>) s)
           else timeout_insert fuel nx timeout s)"

definition sys_timeout :: "u32 \<Rightarrow> sys_timeout_handler \<Rightarrow> nat \<Rightarrow> timers \<Rightarrow> timers res" where
  "sys_timeout msecs handler a s =
     rbind (memp_malloc MEMP_SYS_TIMEOUT (tpools s)) (\<lambda>(timeout, mp).
       if timeout = 0 then Inl Abort
       else
         let s = s\<lparr>tpools := mp,
               timeos := (timeos s)(timeout := \<lparr>tnext = 0, time = msecs, h = handler, arg = a\<rparr>)\<rparr>;
             first = next_timeout s
         in if first = 0 then Inr (s\<lparr>next_timeout := timeout\<rparr>)
            else if time (timeos s first) > msecs
            then
              let s = set_timeo first (\<lambda>x. x\<lparr>time := time x - msecs\<rparr>) s;
                  s = set_timeo timeout (\<lambda>x. x\<lparr>tnext := first\<rparr>) s
              in Inr (s\<lparr>next_timeout := timeout\<rparr>)
            else timeout_insert (Suc TIMEOUT_MAX) first timeout s)"

primrec untimeout_loop :: "nat \<Rightarrow> nat \<Rightarrow> nat \<Rightarrow> sys_timeout_handler \<Rightarrow> nat \<Rightarrow> timers \<Rightarrow> timers res" where
  "untimeout_loop 0 t prev_t handler a s = Inl No_Fuel"
| "untimeout_loop (Suc fuel) t prev_t handler a s =
     (if t = 0 then Inr s
      else if h (timeos s t) = handler \<and> arg (timeos s t) = a
      then
        let nx = tnext (timeos s t);
            s = (if prev_t = 0 then s\<lparr>next_timeout := nx\<rparr> else set_timeo prev_t (\<lambda>x. x\<lparr>tnext := nx\<rparr>) s);
            s = (if nx \<noteq> 0 then set_timeo nx (\<lambda>x. x\<lparr>time := time x + time (timeos s t)\<rparr>) s else s)
        in Inr (s\<lparr>tpools := memp_free MEMP_SYS_TIMEOUT t (tpools s)\<rparr>)
      else untimeout_loop fuel (tnext (timeos s t)) t handler a s)"

definition sys_untimeout :: "sys_timeout_handler \<Rightarrow> nat \<Rightarrow> timers \<Rightarrow> timers res" where
  "sys_untimeout handler a s =
     (if next_timeout s = 0 then Inr s else untimeout_loop (Suc TIMEOUT_MAX) (next_timeout s) 0 handler a s)"

definition SYS_ARCH_TIMEOUT :: u32 where "SYS_ARCH_TIMEOUT = 0xffffffff"

text \<open>
  One pass of \<^verbatim>\<open>sys_timeouts_mbox_fetch\<close>, from \<^verbatim>\<open>again\<close> to the \<^verbatim>\<open>goto\<close> (the flag is True) or to the
  return; \<open>waited\<close> is what \<^verbatim>\<open>sys_arch_mbox_fetch\<close> returns if the pass calls it.
\<close>

definition fetch_pass ::
    "(sys_timeout_handler \<Rightarrow> nat \<Rightarrow> timers \<Rightarrow> timers res) \<Rightarrow> u32 \<Rightarrow> timers \<Rightarrow> (bool \<times> timers) res" where
  "fetch_pass call waited s =
     (if next_timeout s = 0 then Inr (False, s)
      else
        let t = next_timeout s;
            time_needed = (if time (timeos s t) > 0 then waited else SYS_ARCH_TIMEOUT)
        in if time_needed = SYS_ARCH_TIMEOUT
           then
             let handler = h (timeos s t); a = arg (timeos s t);
                 s = s\<lparr>next_timeout := tnext (timeos s t)\<rparr>;
                 s = s\<lparr>tpools := memp_free MEMP_SYS_TIMEOUT t (tpools s)\<rparr>
             in if handler \<noteq> H_NULL then rbind (call handler a s) (\<lambda>s. Inr (True, s)) else Inr (True, s)
           else if time_needed < time (timeos s t)
           then Inr (False, set_timeo t (\<lambda>x. x\<lparr>time := time x - time_needed\<rparr>) s)
           else Inr (False, set_timeo t (\<lambda>x. x\<lparr>time := 0\<rparr>) s))"

text \<open>The whole function, for the results \<open>ws\<close> of the successive waits; the loop may go on for as
  long as timeouts keep expiring before a message arrives.\<close>

primrec sys_timeouts_mbox_fetch ::
    "(sys_timeout_handler \<Rightarrow> nat \<Rightarrow> timers \<Rightarrow> timers res) \<Rightarrow> u32 list \<Rightarrow> timers \<Rightarrow> timers res" where
  "sys_timeouts_mbox_fetch call [] s = Inl No_Fuel"
| "sys_timeouts_mbox_fetch call (w # ws) s =
     rbind (fetch_pass call w s) (\<lambda>(again, s). if again then sys_timeouts_mbox_fetch call ws s else Inr s)"

section \<open>The timers of the stack\<close>

text \<open>
  \<open>pcbs\<close> says whether the lists \<^verbatim>\<open>tcp_active_pcbs\<close> and \<^verbatim>\<open>tcp_tw_pcbs\<close> are not both empty at that
  point. The cyclic functions the handlers call (\<^verbatim>\<open>tcp_tmr\<close> and so on) reach the timeout list only
  through \<^verbatim>\<open>tcp_timer_needed\<close>, when a callback of the application opens a connection; \<open>tmr\<close>
  stands for that effect.
\<close>

definition tcpip_tcp_timer :: "(timers \<Rightarrow> timers res) \<Rightarrow> bool \<Rightarrow> timers \<Rightarrow> timers res" where
  "tcpip_tcp_timer tmr pcbs s =
     rbind (tmr s) (\<lambda>s. if pcbs then sys_timeout 250 H_tcpip_tcp 0 s else Inr (s\<lparr>tcpip_tcp_timer_active := False\<rparr>))"

definition tcp_timer_needed :: "bool \<Rightarrow> timers \<Rightarrow> timers res" where
  "tcp_timer_needed pcbs s =
     (if \<not> tcpip_tcp_timer_active s \<and> pcbs
      then sys_timeout 250 H_tcpip_tcp 0 (s\<lparr>tcpip_tcp_timer_active := True\<rparr>) else Inr s)"

definition ip_reass_timer :: "(timers \<Rightarrow> timers res) \<Rightarrow> timers \<Rightarrow> timers res" where
  "ip_reass_timer tmr s = rbind (tmr s) (sys_timeout 1000 H_ip_reass 0)"

definition arp_timer :: "(timers \<Rightarrow> timers res) \<Rightarrow> timers \<Rightarrow> timers res" where
  "arp_timer tmr s = rbind (tmr s) (sys_timeout 5000 H_arp 0)"

definition autoip_timer :: "(timers \<Rightarrow> timers res) \<Rightarrow> timers \<Rightarrow> timers res" where
  "autoip_timer tmr s = rbind (tmr s) (sys_timeout 100 H_autoip 0)"

definition dns_timer :: "(timers \<Rightarrow> timers res) \<Rightarrow> timers \<Rightarrow> timers res" where
  "dns_timer tmr s = rbind (tmr s) (sys_timeout 1000 H_dns 0)"

definition sys_timeouts_init :: "timers \<Rightarrow> timers res" where
  "sys_timeouts_init s =
     rbind (sys_timeout 1000 H_ip_reass 0 s) (\<lambda>s.
     rbind (sys_timeout 5000 H_arp 0 s) (\<lambda>s.
     rbind (sys_timeout 100 H_autoip 0 s)
       (sys_timeout 1000 H_dns 0)))"

text \<open>A call through the handler pointer; the pool holds no others here.\<close>

definition builtin_call :: "bool \<Rightarrow> bool \<Rightarrow> sys_timeout_handler \<Rightarrow> nat \<Rightarrow> timers \<Rightarrow> timers res" where
  "builtin_call opened pcbs handler a s =
     (case handler of
        H_tcpip_tcp \<Rightarrow> tcpip_tcp_timer (tcp_timer_needed opened) pcbs s
      | H_ip_reass \<Rightarrow> ip_reass_timer (tcp_timer_needed opened) s
      | H_arp \<Rightarrow> arp_timer (tcp_timer_needed opened) s
      | H_autoip \<Rightarrow> autoip_timer (tcp_timer_needed opened) s
      | H_dns \<Rightarrow> dns_timer (tcp_timer_needed opened) s
      | _ \<Rightarrow> Inl Bad_Deref)"

section \<open>Deadlines\<close>

type_synonym pending = "nat \<times> sys_timeout_handler \<times> nat"

fun stamps :: "nat \<Rightarrow> sys_timeo list \<Rightarrow> pending list" where
  "stamps c [] = []"
| "stamps c (x # xs) = (c + unat (time x), h x, arg x) # stamps (c + unat (time x)) xs"

definition tlist :: "timers \<Rightarrow> nat list" where
  "tlist s = lwalk TIMEOUT_MAX (\<lambda>a. tnext (timeos s a)) (next_timeout s)"

definition pending :: "timers \<Rightarrow> pending list" where
  "pending s = stamps 0 (map (timeos s) (tlist s))"

text \<open>The reference operations on deadlines.\<close>

definition place :: "pending \<Rightarrow> pending list \<Rightarrow> pending list" where
  "place e xs = takeWhile (\<lambda>x. fst x \<le> fst e) xs @ e # dropWhile (\<lambda>x. fst x \<le> fst e) xs"

fun cancel :: "sys_timeout_handler \<times> nat \<Rightarrow> pending list \<Rightarrow> pending list" where
  "cancel k [] = []"
| "cancel k (x # xs) = (if snd x = k then xs else x # cancel k xs)"

definition elapse :: "nat \<Rightarrow> pending list \<Rightarrow> pending list" where
  "elapse d = map (\<lambda>(t, k). (t - d, k))"

text \<open>
  The invariant: the list is properly linked and consists of exactly the taken elements of the
  pool, and every deadline is below \<open>2 ^ 32\<close>.
\<close>

definition timers_ok :: "(memp_t \<Rightarrow> nat list) \<Rightarrow> timers \<Rightarrow> bool" where
  "timers_ok sl s \<longleftrightarrow> memp_ok sl (tpools s) \<and> linked (\<lambda>a. tnext (timeos s a)) (next_timeout s) (tlist s) \<and>
     set (tlist s) = taken sl (tpools s) MEMP_SYS_TIMEOUT \<and> (\<forall>e \<in> set (pending s). fst e < 2 ^ 32)"

lemma stamps_ge: "e \<in> set (stamps c xs) \<Longrightarrow> c \<le> fst e"
  by (induction xs arbitrary: c) force+

lemma stamps_sorted: "sorted (map fst (stamps c xs))"
  by (induction xs arbitrary: c) (auto dest: stamps_ge)

lemma stamps_length [simp]: "length (stamps c xs) = length xs"
  by (induction xs arbitrary: c) auto

lemma place_Cons: "place e (x # xs) = (if fst x \<le> fst e then x # place e xs else e # x # xs)"
  by (simp add: place_def)

lemma place_front: "\<forall>x \<in> set xs. fst e < fst x \<Longrightarrow> place e xs = e # xs"
  by (cases xs) (auto simp: place_def)

lemma place_set [simp]: "set (place e xs) = insert e (set xs)"
  using set_append [of "takeWhile (\<lambda>x. fst x \<le> fst e) xs" "dropWhile (\<lambda>x. fst x \<le> fst e) xs"]
  by (auto simp: place_def)

lemma place_length [simp]: "length (place e xs) = Suc (length xs)"
  by (induction xs) (auto simp: place_def)

section \<open>Insertion\<close>

lemma unat_diff: "b \<le> a \<Longrightarrow> unat (a - b :: u32) = unat a - unat b"
  by (rule unat_sub)

lemma stamps_shift:
  "time y = time x - d \<Longrightarrow> d \<le> time x \<Longrightarrow> h y = h x \<Longrightarrow> arg y = arg x \<Longrightarrow>
   stamps (c + unat d) (y # xs) = stamps c (x # xs)"
  by (simp add: unat_diff word_le_nat_alt)

text \<open>Only the timeout structures may differ.\<close>

definition same_rest :: "timers \<Rightarrow> timers \<Rightarrow> bool" where
  "same_rest s s' \<longleftrightarrow> next_timeout s' = next_timeout s \<and> tpools s' = tpools s \<and>
     tcpip_tcp_timer_active s' = tcpip_tcp_timer_active s"

lemma timeout_insert_spec:
  assumes "linked (\<lambda>a. tnext (timeos s a)) t (t # qs)" "timeout \<notin> set (t # qs)" "timeout \<noteq> 0"
    "time (timeos s t) \<le> time (timeos s timeout)" "length (t # qs) \<le> fuel"
  shows "\<exists>s' us vs. timeout_insert fuel t timeout s = Inr s' \<and> t # qs = us @ vs \<and> us \<noteq> [] \<and>
    linked (\<lambda>a. tnext (timeos s' a)) t (us @ timeout # vs) \<and>
    same_rest s s' \<and> (\<forall>a. a \<notin> insert timeout (set (t # qs)) \<longrightarrow> timeos s' a = timeos s a) \<and>
    stamps c (map (timeos s') (us @ timeout # vs)) =
      place (c + unat (time (timeos s timeout)), h (timeos s timeout), arg (timeos s timeout))
        (stamps c (map (timeos s) (t # qs)))"
  using assms
proof (induction qs arbitrary: t s fuel c)
  case Nil
  then obtain f where f: "fuel = Suc f" by (cases fuel) auto
  from Nil have t: "t \<noteq> 0" "tnext (timeos s t) = 0" "t \<noteq> timeout" by auto
  let ?s = "set_timeo t (\<lambda>x. x\<lparr>tnext := timeout\<rparr>)
     (set_timeo timeout (\<lambda>x. x\<lparr>time := time x - time (timeos s t), tnext := 0\<rparr>) s)"
  show ?case
  proof (rule exI [of _ ?s], rule exI [of _ "[t]"], rule exI [of _ "[]"], intro conjI)
    show "timeout_insert fuel t timeout s = Inr ?s" using f t by (simp add: Let_def)
    show "linked (\<lambda>a. tnext (timeos ?s a)) t ([t] @ timeout # [])" using t Nil.prems by simp
    show "stamps c (map (timeos ?s) ([t] @ timeout # [])) =
        place (c + unat (time (timeos s timeout)), h (timeos s timeout), arg (timeos s timeout))
          (stamps c (map (timeos s) (t # [])))"
      using t Nil.prems(4) by (simp add: place_def unat_diff word_le_nat_alt)
  qed (simp_all add: same_rest_def)
next
  case (Cons q qs)
  then obtain f where f: "fuel = Suc f" "length (q # qs) \<le> f" by (cases fuel) auto
  from Cons.prems have t: "t \<noteq> 0" "tnext (timeos s t) = q" "q \<noteq> 0" "t \<noteq> timeout" "q \<noteq> timeout" by auto
  have "distinct (t # q # qs)" using linked_distinct [OF Cons.prems(1)] .
  then have d: "t \<notin> set (q # qs)" "q \<notin> set qs" "t \<noteq> q" by auto
  let ?d = "time (timeos s timeout) - time (timeos s t)"
  let ?s1 = "set_timeo timeout (\<lambda>x. x\<lparr>time := ?d\<rparr>) s"
  let ?e = "(c + unat (time (timeos s timeout)), h (timeos s timeout), arg (timeos s timeout))"
  have le: "unat (time (timeos s t)) \<le> unat (time (timeos s timeout))" using Cons.prems(4) by (simp add: word_le_nat_alt)
  have ud: "unat ?d = unat (time (timeos s timeout)) - unat (time (timeos s t))" using Cons.prems(4) by (rule unat_diff)
  have same: "map (timeos ?s1) (t # q # qs) = map (timeos s) (t # q # qs)" using Cons.prems(2) by auto
  show ?case
  proof (cases "time (timeos s q) > ?d")
    case True
    let ?s = "set_timeo t (\<lambda>x. x\<lparr>tnext := timeout\<rparr>) (set_timeo timeout (\<lambda>x. x\<lparr>tnext := q\<rparr>)
       (set_timeo q (\<lambda>x. x\<lparr>time := time x - ?d\<rparr>) ?s1))"
    show ?thesis
    proof (rule exI [of _ ?s], rule exI [of _ "[t]"], rule exI [of _ "q # qs"], intro conjI)
      show "timeout_insert fuel t timeout s = Inr ?s" using f t True d by (simp add: Let_def)
      have "linked (\<lambda>a. tnext (timeos ?s a)) (tnext (timeos s q)) qs"
        using Cons.prems d by (subst linked_cong [where nx' = "\<lambda>a. tnext (timeos s a)"]) auto
      then show "linked (\<lambda>a. tnext (timeos ?s a)) t ([t] @ timeout # q # qs)" using t d Cons.prems(3) by simp
      have m: "map (timeos ?s) qs = map (timeos s) qs" using Cons.prems(2) d by auto
      have v: "timeos ?s t = (timeos s t)\<lparr>tnext := timeout\<rparr>" "timeos ?s timeout = (timeos s timeout)\<lparr>time := ?d, tnext := q\<rparr>"
        "timeos ?s q = (timeos s q)\<lparr>time := time (timeos s q) - ?d\<rparr>" using t d by auto
      have uq: "unat (time (timeos s q) - ?d) = unat (time (timeos s q)) - unat ?d" "unat ?d < unat (time (timeos s q))"
        using unat_diff [OF less_imp_le [OF True]] True by (simp_all add: word_less_nat_alt)
      then have lt: "unat (time (timeos s timeout)) < unat (time (timeos s t)) + unat (time (timeos s q))"
        and uq': "c + unat (time (timeos s t)) + unat ?d + (unat (time (timeos s q)) - unat ?d) =
          c + unat (time (timeos s t)) + unat (time (timeos s q))" using ud le by linarith+
      show "stamps c (map (timeos ?s) ([t] @ timeout # q # qs)) = place ?e (stamps c (map (timeos s) (t # q # qs)))"
        unfolding append.simps list.map v m stamps.simps place_Cons
        using uq uq' lt le ud by (simp add: ac_simps)
    qed (simp_all add: same_rest_def)
  next
    case False
    have l: "linked (\<lambda>a. tnext (timeos ?s1 a)) q (q # qs)"
      using Cons.prems t by (subst linked_cong [where nx' = "\<lambda>a. tnext (timeos s a)"]) auto
    have "time (timeos ?s1 q) \<le> time (timeos ?s1 timeout)" using False t by simp
    moreover have "timeout \<notin> set (q # qs)" using Cons.prems(2) by simp
    moreover note Cons.IH [OF l _ Cons.prems(3) _ f(2), of "c + unat (time (timeos s t))"]
    ultimately
    obtain s' us vs where ih: "timeout_insert f q timeout ?s1 = Inr s'" "q # qs = us @ vs" "us \<noteq> []"
      "linked (\<lambda>a. tnext (timeos s' a)) q (us @ timeout # vs)" "same_rest ?s1 s'"
      "\<forall>a. a \<notin> insert timeout (set (q # qs)) \<longrightarrow> timeos s' a = timeos ?s1 a"
      "stamps (c + unat (time (timeos s t))) (map (timeos s') (us @ timeout # vs)) =
        place (c + unat (time (timeos s t)) + unat (time (timeos ?s1 timeout)), h (timeos ?s1 timeout), arg (timeos ?s1 timeout))
          (stamps (c + unat (time (timeos s t))) (map (timeos ?s1) (q # qs)))"
      by blast
    have t': "timeos s' t = timeos s t" using ih(6) t d by simp
    show ?thesis
    proof (rule exI [of _ s'], rule exI [of _ "t # us"], rule exI [of _ vs], intro conjI)
      show "timeout_insert fuel t timeout s = Inr s'" using f t False ih(1) by (simp add: Let_def)
      obtain us' where us: "us = q # us'" using ih(2,3) by (cases us) auto
      show "linked (\<lambda>a. tnext (timeos s' a)) t ((t # us) @ timeout # vs)" using ih(4) t t' us by simp
      show "stamps c (map (timeos s') ((t # us) @ timeout # vs)) = place ?e (stamps c (map (timeos s) (t # q # qs)))"
      proof -
        have m: "map (timeos ?s1) (q # qs) = map (timeos s) (q # qs)" using Cons.prems(2) by auto
        show ?thesis using ih(7) t' ud le t unfolding m by (simp add: place_Cons)
      qed
    qed (use ih t in \<open>auto simp: same_rest_def\<close>)
  qed
qed

lemma timers_okI:
  assumes "memp_ok sl (tpools s)" "linked (\<lambda>a. tnext (timeos s a)) (next_timeout s) ts"
    "set ts = taken sl (tpools s) MEMP_SYS_TIMEOUT" "stamps 0 (map (timeos s) ts) = P" "\<forall>e \<in> set P. fst e < 2 ^ 32"
  shows "timers_ok sl s \<and> pending s = P \<and> tlist s = ts"
proof -
  have "length ts = card (taken sl (tpools s) MEMP_SYS_TIMEOUT)"
    using assms(3) distinct_card [OF linked_distinct [OF assms(2)]] by simp
  then have "length ts \<le> TIMEOUT_MAX" using card_taken [OF assms(1)] by simp
  then have "tlist s = ts" unfolding tlist_def using linked_walk [OF assms(2)] by blast
  then show ?thesis using assms by (simp add: timers_ok_def pending_def)
qed

lemma timers_okD:
  assumes "timers_ok sl s"
  shows "memp_ok sl (tpools s)" "linked (\<lambda>a. tnext (timeos s a)) (next_timeout s) (tlist s)"
    "set (tlist s) = taken sl (tpools s) MEMP_SYS_TIMEOUT" "\<forall>e \<in> set (pending s). fst e < 2 ^ 32"
    "distinct (tlist s)" "length (tlist s) = card (taken sl (tpools s) MEMP_SYS_TIMEOUT)" "length (tlist s) \<le> TIMEOUT_MAX"
    "length (pending s) = length (tlist s)"
proof -
  show "memp_ok sl (tpools s)" "linked (\<lambda>a. tnext (timeos s a)) (next_timeout s) (tlist s)"
    and set_eq: "set (tlist s) = taken sl (tpools s) MEMP_SYS_TIMEOUT" and "\<forall>e \<in> set (pending s). fst e < 2 ^ 32"
    using assms by (auto simp: timers_ok_def)
  then show "distinct (tlist s)" by (intro linked_distinct)
  from distinct_card [OF this] show l: "length (tlist s) = card (taken sl (tpools s) MEMP_SYS_TIMEOUT)" using set_eq by simp
  show "length (tlist s) \<le> TIMEOUT_MAX" using l card_taken assms by (simp add: timers_ok_def)
  show "length (pending s) = length (tlist s)" by (simp add: pending_def)
qed

lemma unat_lt_2p32: "unat (w :: u32) < 2 ^ 32"
  using unat_less_2p32 [of w] by simp

lemma sys_timeout_spec:
  assumes ok: "timers_ok sl s"
  shows "if length (pending s) = TIMEOUT_MAX then sys_timeout msecs k a s = Inl Abort
    else \<exists>s'. sys_timeout msecs k a s = Inr s' \<and> timers_ok sl s' \<and>
      pending s' = place (unat msecs, k, a) (pending s) \<and> tcpip_tcp_timer_active s' = tcpip_tcp_timer_active s"
proof -
  note okD = timers_okD [OF ok]
  have v: "MEMP_SYS_TIMEOUT \<noteq> MEMP_MAX" by simp
  from okD(1) v show ?thesis
  proof (cases rule: memp.get_cases)
    case none
    then show ?thesis using okD(6,8) by (simp add: sys_timeout_def)
  next
    case (some x mp)
    let ?new = "\<lparr>tnext = 0, time = msecs, h = k, arg = a\<rparr>"
    let ?s1 = "s\<lparr>tpools := mp, timeos := (timeos s)(x := ?new)\<rparr>"
    let ?P = "place (unat msecs, k, a) (pending s)"
    have lt: "length (pending s) \<noteq> TIMEOUT_MAX" using some okD(6,8) by simp
    have x: "x \<notin> set (tlist s)" using some(4) okD(3) by simp
    have P: "\<forall>e \<in> set ?P. fst e < 2 ^ 32" using okD(4) unat_lt_2p32 by simp
    have tk: "insert x (set (tlist s)) = taken sl mp MEMP_SYS_TIMEOUT" using some(5) okD(3) by simp
    have link1: "linked (\<lambda>a. tnext (timeos ?s1 a)) (next_timeout s) (tlist s)"
      using okD(2) x by (subst linked_cong [where nx' = "\<lambda>a. tnext (timeos s a)"]) auto
    have map1: "map (timeos ?s1) (tlist s) = map (timeos s) (tlist s)" using x by auto
    have "\<exists>s' ts. sys_timeout msecs k a s = Inr s' \<and> linked (\<lambda>a. tnext (timeos s' a)) (next_timeout s') ts \<and>
      set ts = insert x (set (tlist s)) \<and> stamps 0 (map (timeos s') ts) = ?P \<and> tpools s' = mp \<and>
      tcpip_tcp_timer_active s' = tcpip_tcp_timer_active s"
    proof (cases "tlist s")
      case Nil
      then have "sys_timeout msecs k a s = Inr (?s1\<lparr>next_timeout := x\<rparr>)"
        using okD(2) some(1,3) by (simp add: sys_timeout_def)
      then show ?thesis using Nil some(3) by (intro exI [of _ "?s1\<lparr>next_timeout := x\<rparr>"] exI [of _ "[x]"])
          (simp add: pending_def place_def)
    next
      case (Cons q qs)
      then have q: "next_timeout s = q" "q \<noteq> 0" "q \<noteq> x" using okD(2) x by auto
      show ?thesis
      proof (cases "time (timeos s q) > msecs")
        case True
        let ?s = "(set_timeo x (\<lambda>x. x\<lparr>tnext := q\<rparr>) (set_timeo q (\<lambda>x. x\<lparr>time := time x - msecs\<rparr>) ?s1))\<lparr>next_timeout := x\<rparr>"
        have "sys_timeout msecs k a s = Inr ?s"
          using some(1,3) q True by (simp add: sys_timeout_def Let_def)
        moreover have "linked (\<lambda>a. tnext (timeos ?s a)) (next_timeout ?s) (x # tlist s)"
          using okD(2) x Cons some(3) q okD(5)
          by simp (subst linked_cong [where nx' = "\<lambda>a. tnext (timeos s a)"], auto)
        moreover have "stamps 0 (map (timeos ?s) (x # tlist s)) = ?P"
        proof -
          have m: "map (timeos ?s) qs = map (timeos s) qs" using x Cons okD(5) by auto
          have u: "unat (time (timeos s q) - msecs) = unat (time (timeos s q)) - unat msecs" "unat msecs < unat (time (timeos s q))"
            using unat_diff [OF less_imp_le [OF True]] True by (simp_all add: word_less_nat_alt)
          show ?thesis using q u unfolding Cons list.map m pending_def
            by (simp add: place_Cons)
        qed
        ultimately show ?thesis by (intro exI [of _ ?s] exI [of _ "x # tlist s"]) simp
      next
        case False
        have "linked (\<lambda>a. tnext (timeos ?s1 a)) q (q # qs)" "x \<notin> set (q # qs)" "time (timeos ?s1 q) \<le> time (timeos ?s1 x)"
          "length (q # qs) \<le> Suc TIMEOUT_MAX"
          using link1 x False q okD(7) by (simp_all add: Cons)
        from timeout_insert_spec [OF this(1,2) some(3) this(3,4), of 0] obtain s' us vs where s':
          "timeout_insert (Suc TIMEOUT_MAX) q x ?s1 = Inr s'" "q # qs = us @ vs" "us \<noteq> []"
          "linked (\<lambda>a. tnext (timeos s' a)) q (us @ x # vs)" "same_rest ?s1 s'"
          "stamps 0 (map (timeos s') (us @ x # vs)) = place (0 + unat (time (timeos ?s1 x)), h (timeos ?s1 x), arg (timeos ?s1 x))
             (stamps 0 (map (timeos ?s1) (q # qs)))" by blast
        have "sys_timeout msecs k a s = Inr s'"
          using some(1,3) q False s'(1) by (simp add: sys_timeout_def Let_def del: timeout_insert.simps)
        moreover have "stamps 0 (map (timeos s') (us @ x # vs)) = ?P"
          unfolding s'(6) map1 [unfolded Cons] pending_def Cons by simp
        moreover have "set (us @ x # vs) = insert x (set (tlist s))" unfolding Cons s'(2) by auto
        ultimately show ?thesis using s'(4,5) q by (intro exI [of _ s'] exI [of _ "us @ x # vs"]) (simp add: same_rest_def)
      qed
    qed
    then obtain s' ts where s': "sys_timeout msecs k a s = Inr s'" "linked (\<lambda>a. tnext (timeos s' a)) (next_timeout s') ts"
      "set ts = insert x (set (tlist s))" "stamps 0 (map (timeos s') ts) = ?P" "tpools s' = mp"
      "tcpip_tcp_timer_active s' = tcpip_tcp_timer_active s" by blast
    have "timers_ok sl s' \<and> pending s' = ?P \<and> tlist s' = ts"
      using s' some(2) tk P by (intro timers_okI) simp_all
    then show ?thesis using lt s' by simp
  qed
qed

section \<open>Cancellation\<close>

lemma stamps_join:
  assumes "unat (time x) + unat (time y) < 2 ^ 32" "time z = time y + time x" "h z = h y" "arg z = arg y"
  shows "stamps c (z # xs) = tl (stamps c (x # y # xs))"
proof -
  have "unat (time y) + unat (time x) < 2 ^ LENGTH(32)" using assms(1) by simp
  then have "unat (time y + time x) = unat (time y) + unat (time x)" by (rule unat_add_lem [THEN iffD1])
  then have "unat (time z) = unat (time x) + unat (time y)" by (simp only: assms(2) add.commute)
  then show ?thesis using assms(3,4) by (simp add: add.assoc)
qed

text \<open>The state after unlinking \<open>t\<close>, whose successor is \<open>nx\<close>.\<close>

lemma untimeout_loop_spec:
  assumes "linked (\<lambda>a. tnext (timeos s a)) t ts" "length ts < fuel" "prev \<notin> set ts" "prev = 0 \<longrightarrow> next_timeout s = t"
    "prev \<noteq> 0 \<longrightarrow> tnext (timeos s prev) = t" "\<forall>e \<in> set (stamps c (map (timeos s) ts)). fst e < 2 ^ 32"
  shows "\<exists>s' ts'. untimeout_loop fuel t prev k a s = Inr s' \<and>
    linked (\<lambda>a. tnext (timeos s' a)) (if prev = 0 then next_timeout s' else tnext (timeos s' prev)) ts' \<and>
    (prev \<noteq> 0 \<longrightarrow> next_timeout s' = next_timeout s \<and> timeos s' prev = (timeos s prev)\<lparr>tnext := tnext (timeos s' prev)\<rparr>) \<and>
    (\<forall>b. b \<notin> insert prev (set ts) \<longrightarrow> timeos s' b = timeos s b) \<and>
    tcpip_tcp_timer_active s' = tcpip_tcp_timer_active s \<and>
    stamps c (map (timeos s') ts') = cancel (k, a) (stamps c (map (timeos s) ts)) \<and>
    (set ts' = set ts \<and> tpools s' = tpools s \<or>
     (\<exists>x \<in> set ts. set ts' = set ts - {x} \<and> tpools s' = memp_free MEMP_SYS_TIMEOUT x (tpools s)))"
  using assms
proof (induction ts arbitrary: t prev fuel c)
  case Nil
  then obtain f where "fuel = Suc f" by (cases fuel) auto
  with Nil show ?case by (intro exI [of _ s] exI [of _ "[]"]) simp
next
  case (Cons q qs)
  then obtain f where f: "fuel = Suc f" "length qs < f" by (cases fuel) auto
  from Cons.prems have q: "t = q" "q \<noteq> 0" "q \<noteq> prev" "linked (\<lambda>a. tnext (timeos s a)) (tnext (timeos s q)) qs" by auto
  have d: "q \<notin> set qs" "distinct qs" using linked_distinct [OF Cons.prems(1)] by auto
  show ?case
  proof (cases "h (timeos s q) = k \<and> arg (timeos s q) = a")
    case True
    let ?n = "tnext (timeos s q)"
    let ?s1 = "if prev = 0 then s\<lparr>next_timeout := ?n\<rparr> else set_timeo prev (\<lambda>x. x\<lparr>tnext := ?n\<rparr>) s"
    let ?s2 = "if ?n \<noteq> 0 then set_timeo ?n (\<lambda>x. x\<lparr>time := time x + time (timeos ?s1 q)\<rparr>) ?s1 else ?s1"
    define s' where "s' = ?s2\<lparr>tpools := memp_free MEMP_SYS_TIMEOUT q (tpools s)\<rparr>"
    have n: "?n \<noteq> prev \<or> ?n = 0" using q Cons.prems(3) by (cases qs) auto
    have run: "untimeout_loop fuel t prev k a s = Inr s'" using f q True by (simp add: Let_def s'_def)
    have keep: "timeos s' b = timeos s b" if "b \<noteq> prev" "b \<noteq> ?n" for b using that by (simp add: s'_def)
    have nx: "tnext (timeos s' b) = tnext (timeos s b)" if "b \<noteq> prev" for b using that n by (simp add: s'_def)
    have st: "stamps c (map (timeos s') qs) = cancel (k, a) (stamps c (map (timeos s) (q # qs)))"
    proof (cases qs)
      case (Cons r rs)
      then have r: "?n = r" "r \<noteq> 0" "r \<noteq> prev" "r \<noteq> q" "r \<notin> set rs" using q Cons.prems(3) d by auto
      have tr: "timeos s' r = (timeos s r)\<lparr>time := time (timeos s r) + time (timeos s q)\<rparr>" using r q by (simp add: s'_def)
      have m: "map (timeos s') rs = map (timeos s) rs"
        using r Cons.prems(3) by (intro map_cong refl keep) (auto simp: Cons)
      have "unat (time (timeos s q)) + unat (time (timeos s r)) < 2 ^ 32" using Cons.prems(6) by (simp add: Cons)
      from stamps_join [OF this, of "timeos s' r" c "map (timeos s) rs"] tr
      show ?thesis using True unfolding Cons list.map m by (simp add: add.assoc)
    qed (use True in simp)
    have act: "tcpip_tcp_timer_active s' = tcpip_tcp_timer_active s" by (simp add: s'_def)
    show ?thesis
    proof (rule exI [of _ s'], rule exI [of _ qs], intro conjI)
      have "linked (\<lambda>a. tnext (timeos s' a)) ?n qs"
        using q(4) Cons.prems(3) linked_cong [of qs "\<lambda>a. tnext (timeos s a)" "\<lambda>a. tnext (timeos s' a)" ?n] nx
        by (metis list.set_intros(2))
      moreover have "(if prev = 0 then next_timeout s' else tnext (timeos s' prev)) = ?n"
        using n by (auto simp: s'_def)
      ultimately show "linked (\<lambda>a. tnext (timeos s' a)) (if prev = 0 then next_timeout s' else tnext (timeos s' prev)) qs"
        by simp
      show "prev \<noteq> 0 \<longrightarrow> next_timeout s' = next_timeout s \<and> timeos s' prev = (timeos s prev)\<lparr>tnext := tnext (timeos s' prev)\<rparr>"
        using n by (auto simp: s'_def)
      show "\<forall>b. b \<notin> insert prev (set (q # qs)) \<longrightarrow> timeos s' b = timeos s b"
        using q(4) by (cases qs) (auto simp: s'_def)
      show "set qs = set (q # qs) \<and> tpools s' = tpools s \<or>
        (\<exists>x\<in>set (q # qs). set qs = set (q # qs) - {x} \<and> tpools s' = memp_free MEMP_SYS_TIMEOUT x (tpools s))"
        using d by (auto simp: s'_def)
    qed (use run st act in simp_all)
  next
    case False
    let ?c = "c + unat (time (timeos s q))"
    have b: "\<forall>e \<in> set (stamps ?c (map (timeos s) qs)). fst e < 2 ^ 32" using Cons.prems(6) by simp
    from Cons.IH [OF q(4) f(2) d(1) _ _ b] q(2)
    obtain s' ts' where ih: "untimeout_loop f (tnext (timeos s q)) q k a s = Inr s'"
      "linked (\<lambda>a. tnext (timeos s' a)) (tnext (timeos s' q)) ts'" "next_timeout s' = next_timeout s"
      "timeos s' q = (timeos s q)\<lparr>tnext := tnext (timeos s' q)\<rparr>" "\<forall>b. b \<notin> insert q (set qs) \<longrightarrow> timeos s' b = timeos s b"
      "tcpip_tcp_timer_active s' = tcpip_tcp_timer_active s"
      "stamps ?c (map (timeos s') ts') = cancel (k, a) (stamps ?c (map (timeos s) qs))"
      "set ts' = set qs \<and> tpools s' = tpools s \<or>
        (\<exists>x \<in> set qs. set ts' = set qs - {x} \<and> tpools s' = memp_free MEMP_SYS_TIMEOUT x (tpools s))"
      by auto
    have tq: "time (timeos s' q) = time (timeos s q)" "h (timeos s' q) = h (timeos s q)" "arg (timeos s' q) = arg (timeos s q)"
      using ih(4) by (metis sys_timeo.select_convs sys_timeo.simps(6,7,8,9) sys_timeo.surjective)+
    have p: "timeos s' prev = timeos s prev" using ih(5) q(3) Cons.prems(3) by simp
    show ?thesis
    proof (rule exI [of _ s'], rule exI [of _ "q # ts'"], intro conjI)
      show "untimeout_loop fuel t prev k a s = Inr s'" using f q False ih(1) by auto
      show "linked (\<lambda>a. tnext (timeos s' a)) (if prev = 0 then next_timeout s' else tnext (timeos s' prev)) (q # ts')"
        using ih(2,3) p Cons.prems(4,5) q by auto
      show "stamps c (map (timeos s') (q # ts')) = cancel (k, a) (stamps c (map (timeos s) (q # qs)))"
        using tq ih(7) False by auto
      show "set (q # ts') = set (q # qs) \<and> tpools s' = tpools s \<or>
        (\<exists>x\<in>set (q # qs). set (q # ts') = set (q # qs) - {x} \<and> tpools s' = memp_free MEMP_SYS_TIMEOUT x (tpools s))"
        using ih(8) d(1) by (metis insert_Diff_if insertE list.set_intros(2) list.simps(15) singletonD)
    qed (use ih p in \<open>auto simp: p\<close>)
  qed
qed

lemma cancel_subset: "set (cancel k xs) \<subseteq> set xs"
  by (induction xs) auto

lemma cancel_none: "k \<notin> snd ` set xs \<Longrightarrow> cancel k xs = xs"
  by (induction xs) auto

lemma cancel_place: "snd e \<notin> snd ` set xs \<Longrightarrow> cancel (snd e) (place e xs) = xs"
  by (induction xs) (auto simp: place_Cons, simp add: place_def)

lemma sys_untimeout_spec:
  assumes ok: "timers_ok sl s"
  shows "\<exists>s'. sys_untimeout k a s = Inr s' \<and> timers_ok sl s' \<and> pending s' = cancel (k, a) (pending s) \<and>
    tcpip_tcp_timer_active s' = tcpip_tcp_timer_active s"
proof (cases "next_timeout s = 0")
  case True
  then have "tlist s = []" using timers_okD(2) [OF ok] by (cases "tlist s") auto
  then show ?thesis using True ok by (auto simp: sys_untimeout_def pending_def)
next
  case False
  note okD = timers_okD [OF ok]
  let ?P = "cancel (k, a) (pending s)"
  have z: "0 \<notin> set (tlist s)" using linked_nonzero [OF okD(2)] .
  have len: "length (tlist s) < Suc TIMEOUT_MAX" using okD(7) by simp
  from untimeout_loop_spec [OF okD(2) len z _ _ okD(4) [unfolded pending_def], of k a]
  obtain s' ts' where s': "untimeout_loop (Suc TIMEOUT_MAX) (next_timeout s) 0 k a s = Inr s'"
    "linked (\<lambda>a. tnext (timeos s' a)) (next_timeout s') ts'"
    "tcpip_tcp_timer_active s' = tcpip_tcp_timer_active s" "stamps 0 (map (timeos s') ts') = ?P"
    "set ts' = set (tlist s) \<and> tpools s' = tpools s \<or>
     (\<exists>x \<in> set (tlist s). set ts' = set (tlist s) - {x} \<and> tpools s' = memp_free MEMP_SYS_TIMEOUT x (tpools s))"
    by (auto simp: pending_def)
  have "\<forall>e \<in> set ?P. fst e < 2 ^ 32" using okD(4) cancel_subset by fast
  moreover have "memp_ok sl (tpools s') \<and> set ts' = taken sl (tpools s') MEMP_SYS_TIMEOUT"
    using s'(5) okD(1,3) memp.put_law [OF okD(1)] by auto
  ultimately have "timers_ok sl s' \<and> pending s' = ?P \<and> tlist s' = ts'"
    using s' by (intro timers_okI) simp_all
  then show ?thesis using s' False by (auto simp: sys_untimeout_def)
qed

section \<open>Waiting\<close>

lemma stamps_elapse: "d \<le> c \<Longrightarrow> stamps (c - d) xs = elapse d (stamps c xs)"
  by (induction xs arbitrary: c) (auto simp: elapse_def simp flip: diff_add_assoc2)

text \<open>The state in which the handler of an expired timeout is called.\<close>

definition popped :: "timers \<Rightarrow> timers" where
  "popped s = s\<lparr>next_timeout := tnext (timeos s (next_timeout s)),
     tpools := memp_free MEMP_SYS_TIMEOUT (next_timeout s) (tpools s)\<rparr>"

lemma pending_Cons:
  assumes "timers_ok sl s" "next_timeout s \<noteq> 0"
  obtains qs where "tlist s = next_timeout s # qs"
    "pending s = (unat (time (timeos s (next_timeout s))), h (timeos s (next_timeout s)), arg (timeos s (next_timeout s)))
       # stamps (unat (time (timeos s (next_timeout s)))) (map (timeos s) qs)"
  using timers_okD(2) [OF assms(1)] assms(2) by (cases "tlist s") (auto simp: pending_def)

lemma pending_Nil: "timers_ok sl s \<Longrightarrow> pending s = [] \<longleftrightarrow> next_timeout s = 0"
  using timers_okD(2,8) [of sl s] by (cases "tlist s") auto

lemma popped_ok:
  assumes ok: "timers_ok sl s" and n: "next_timeout s \<noteq> 0"
  shows "timers_ok sl (popped s) \<and> pending (popped s) = elapse (fst (hd (pending s))) (tl (pending s))"
proof -
  note okD = timers_okD [OF ok]
  obtain qs where q: "tlist s = next_timeout s # qs"
    "pending s = (unat (time (timeos s (next_timeout s))), h (timeos s (next_timeout s)), arg (timeos s (next_timeout s)))
       # stamps (unat (time (timeos s (next_timeout s)))) (map (timeos s) qs)"
    using pending_Cons [OF ok n] .
  let ?P = "elapse (fst (hd (pending s))) (tl (pending s))"
  have "\<forall>e \<in> set ?P. fst e < 2 ^ 32" using okD(4) q(2) by (auto simp: elapse_def less_imp_diff_less)
  moreover have "stamps 0 (map (timeos s) qs) = ?P"
    using stamps_elapse [OF order_refl, of "unat (time (timeos s (next_timeout s)))" "map (timeos s) qs"] q(2) by simp
  moreover have "next_timeout s \<in> taken sl (tpools s) MEMP_SYS_TIMEOUT" using q(1) okD(3) by auto
  from memp.put_law [OF okD(1) this] have "memp_ok sl (tpools (popped s))"
    "set qs = taken sl (tpools (popped s)) MEMP_SYS_TIMEOUT"
    using q(1) okD(3,5) by (auto simp: popped_def)
  moreover have "linked (\<lambda>a. tnext (timeos s a)) (tnext (timeos s (next_timeout s))) qs" using okD(2) q(1) by simp
  ultimately show ?thesis using timers_okI [of sl "popped s" qs ?P] by (simp add: popped_def)
qed

lemma waited_ok:
  assumes ok: "timers_ok sl s" and n: "next_timeout s \<noteq> 0" and d: "d \<le> time (timeos s (next_timeout s))"
  shows "timers_ok sl (set_timeo (next_timeout s) (\<lambda>x. x\<lparr>time := time x - d\<rparr>) s) \<and>
    pending (set_timeo (next_timeout s) (\<lambda>x. x\<lparr>time := time x - d\<rparr>) s) = elapse (unat d) (pending s)"
proof -
  note okD = timers_okD [OF ok]
  let ?q = "next_timeout s" let ?s = "set_timeo ?q (\<lambda>x. x\<lparr>time := time x - d\<rparr>) s"
  obtain qs where q: "tlist s = ?q # qs"
    "pending s = (unat (time (timeos s ?q)), h (timeos s ?q), arg (timeos s ?q)) # stamps (unat (time (timeos s ?q))) (map (timeos s) qs)"
    using pending_Cons [OF ok n] .
  have le: "unat d \<le> unat (time (timeos s ?q))" using d by (simp add: word_le_nat_alt)
  have m: "map (timeos ?s) qs = map (timeos s) qs" using okD(5) q(1) by auto
  have "stamps 0 (map (timeos ?s) (tlist s)) = elapse (unat d) (pending s)"
    using stamps_elapse [OF le] unat_diff [OF d] unfolding q list.map m by (simp add: elapse_def)
  moreover have "\<forall>e \<in> set (elapse (unat d) (pending s)). fst e < 2 ^ 32"
    using okD(4) by (auto simp: elapse_def less_imp_diff_less)
  moreover have "linked (\<lambda>a. tnext (timeos ?s a)) ?q (tlist s)"
    using okD(2) by (subst linked_cong [where nx' = "\<lambda>a. tnext (timeos s a)"]) auto
  ultimately show ?thesis using timers_okI [of sl ?s "tlist s"] okD(1,3) by simp
qed

lemma fetch_pass_spec:
  assumes ok: "timers_ok sl s" and p: "pending s = (d, k, a) # rest"
  shows "if d = 0 \<or> w = SYS_ARCH_TIMEOUT
     then timers_ok sl (popped s) \<and> pending (popped s) = elapse d rest \<and>
       fetch_pass call w s = (if k = H_NULL then Inr (True, popped s) else rbind (call k a (popped s)) (\<lambda>s. Inr (True, s)))
     else \<exists>s'. fetch_pass call w s = Inr (False, s') \<and> timers_ok sl s' \<and> pending s' = elapse (min (unat w) d) (pending s) \<and>
       tcpip_tcp_timer_active s' = tcpip_tcp_timer_active s"
proof -
  have n: "next_timeout s \<noteq> 0" using pending_Nil [OF ok] p by simp
  let ?q = "next_timeout s"
  have q: "d = unat (time (timeos s ?q))" "k = h (timeos s ?q)" "a = arg (timeos s ?q)"
    using pending_Cons [OF ok n] p by (metis Pair_inject list.inject)+
  have d0: "time (timeos s ?q) > 0 \<longleftrightarrow> d \<noteq> 0" using q(1) by (simp add: word_less_nat_alt)
  show ?thesis
  proof (cases "d = 0 \<or> w = SYS_ARCH_TIMEOUT")
    case True
    then have "(if time (timeos s ?q) > 0 then w else SYS_ARCH_TIMEOUT) = SYS_ARCH_TIMEOUT" using d0 by auto
    then have "fetch_pass call w s = (if k = H_NULL then Inr (True, popped s) else rbind (call k a (popped s)) (\<lambda>s. Inr (True, s)))"
      using n by (simp add: fetch_pass_def Let_def popped_def q)
    then show ?thesis using True popped_ok [OF ok n] p by simp
  next
    case False
    let ?d = "if w < time (timeos s ?q) then w else time (timeos s ?q)"
    let ?s = "set_timeo ?q (\<lambda>x. x\<lparr>time := time x - ?d\<rparr>) s"
    have "fetch_pass call w s = Inr (False, ?s)"
      using n False d0 by (simp add: fetch_pass_def Let_def)
    moreover have "unat ?d = min (unat w) d" using q(1) by (simp add: word_less_nat_alt min_def)
    moreover have "timers_ok sl ?s \<and> pending ?s = elapse (unat ?d) (pending s)"
      by (rule waited_ok [OF ok n]) (auto simp: less_imp_le)
    ultimately show ?thesis using False by (intro if_not_P [THEN iffD2] exI [of _ ?s]) simp_all
  qed
qed

section \<open>The timeout list as a queue of deadlines\<close>

text \<open>What the rest of the stack relies on.\<close>

locale deadline_queue =
  fixes ok :: "'s \<Rightarrow> bool" and pend :: "'s \<Rightarrow> pending list" and cap :: nat
    and add :: "u32 \<Rightarrow> sys_timeout_handler \<Rightarrow> nat \<Rightarrow> 's \<Rightarrow> 's res"
    and del :: "sys_timeout_handler \<Rightarrow> nat \<Rightarrow> 's \<Rightarrow> 's res"
  assumes add_law: "ok s \<Longrightarrow> length (pend s) < cap \<Longrightarrow>
      \<exists>s'. add m k a s = Inr s' \<and> ok s' \<and> pend s' = place (unat m, k, a) (pend s)"
    and del_law: "ok s \<Longrightarrow> \<exists>s'. del k a s = Inr s' \<and> ok s' \<and> pend s' = cancel (k, a) (pend s)"
begin

definition armed :: "'s \<Rightarrow> (sys_timeout_handler \<times> nat) set \<Rightarrow> bool" where
  "armed s K \<longleftrightarrow> ok s \<and> distinct (map snd (pend s)) \<and> snd ` set (pend s) = K"

lemma armed_length: "armed s K \<Longrightarrow> length (pend s) = card K"
  unfolding armed_def by (metis distinct_card length_map set_map)

lemma arm:
  assumes "armed s K" "(k, a) \<notin> K" "card K < cap"
  shows "\<exists>s'. add m k a s = Inr s' \<and> armed s' (insert (k, a) K)"
proof -
  have a: "ok s" "length (pend s) < cap" "distinct (map snd (pend s))" "snd ` set (pend s) = K"
    using assms armed_length [OF assms(1)] by (simp_all add: armed_def)
  obtain s' where s': "add m k a s = Inr s'" "ok s'" "pend s' = place (unat m, k, a) (pend s)"
    using add_law [OF a(1,2)] by blast
  have "card (insert (k, a) K) = Suc (card K)" using assms(2) a(4) by (metis card_insert_disjoint finite_imageI finite_set)
  moreover have "snd ` set (pend s') = insert (k, a) K" using a(4) s'(3) by simp
  moreover have "length (map snd (pend s')) = Suc (card K)" using s'(3) armed_length [OF assms(1)] by simp
  ultimately have "distinct (map snd (pend s'))" by (metis card_distinct set_map)
  with s' \<open>snd ` set (pend s') = insert (k, a) K\<close> show ?thesis by (auto simp: armed_def)
qed

lemma arm_disarm:
  assumes "ok s" "length (pend s) < cap" "(k, a) \<notin> snd ` set (pend s)"
  shows "\<exists>s1 s2. add m k a s = Inr s1 \<and> del k a s1 = Inr s2 \<and> ok s2 \<and> pend s2 = pend s"
proof -
  obtain s1 where s1: "add m k a s = Inr s1" "ok s1" "pend s1 = place (unat m, k, a) (pend s)"
    using add_law [OF assms(1,2)] by blast
  then show ?thesis using del_law [OF s1(2), of k a] cancel_place [of "(unat m, k, a)" "pend s"] assms(3) by auto
qed

end

lemma sys_timeout_ok:
  assumes "timers_ok sl s" "length (pending s) < TIMEOUT_MAX"
  shows "\<exists>s'. sys_timeout m k a s = Inr s' \<and> timers_ok sl s' \<and> pending s' = place (unat m, k, a) (pending s)"
  using sys_timeout_spec [OF assms(1), of m k a] assms(2) by auto

interpretation tq: deadline_queue "timers_ok sl" pending TIMEOUT_MAX sys_timeout sys_untimeout for sl
  by unfold_locales (rule sys_timeout_ok, assumption+, use sys_untimeout_spec in blast)

section \<open>The timers of the stack never run the pool dry\<close>

definition cyclic_keys :: "(sys_timeout_handler \<times> nat) set" where
  "cyclic_keys = {(H_ip_reass, 0), (H_arp, 0), (H_autoip, 0), (H_dns, 0)}"

definition keys_of :: "bool \<Rightarrow> (sys_timeout_handler \<times> nat) set" where
  "keys_of tcp = (if tcp then insert (H_tcpip_tcp, 0) cyclic_keys else cyclic_keys)"

definition stack_ok :: "(memp_t \<Rightarrow> nat list) \<Rightarrow> timers \<Rightarrow> bool" where
  "stack_ok sl s \<longleftrightarrow> tq.armed sl s (keys_of (tcpip_tcp_timer_active s))"

lemma card_keys: "card (keys_of b) = (if b then 5 else 4)" "finite (keys_of b)"
  by (simp_all add: keys_of_def cyclic_keys_def)

lemma arm_timer:
  assumes "tq.armed sl s K" "(k, a) \<notin> K" "card K < 5"
  shows "\<exists>s'. sys_timeout m k a s = Inr s' \<and> tq.armed sl s' (insert (k, a) K) \<and>
    tcpip_tcp_timer_active s' = tcpip_tcp_timer_active s"
proof -
  obtain s' where s': "sys_timeout m k a s = Inr s'" "tq.armed sl s' (insert (k, a) K)"
    using tq.arm [OF assms(1,2), of m] assms(3) by auto
  have "timers_ok sl s" using assms(1) by (simp add: tq.armed_def)
  from sys_timeout_spec [OF this, of m k a] s'(1) show ?thesis using s' by (auto split: if_splits)
qed

lemma armed_popped:
  assumes "tq.armed sl s K" "pending s = (d, k, a) # rest"
  shows "tq.armed sl (popped s) (K - {(k, a)})" "(k, a) \<in> K"
proof -
  have ok: "timers_ok sl s" and K: "distinct (map snd (pending s))" "K = snd ` set (pending s)"
    using assms(1) by (auto simp: tq.armed_def)
  then have "next_timeout s \<noteq> 0" using pending_Nil [OF ok] assms(2) by simp
  from popped_ok [OF ok this] have p: "timers_ok sl (popped s)" "pending (popped s) = elapse d rest"
    using assms(2) by simp_all
  have "map snd (elapse d rest) = map snd rest" by (induction rest) (auto simp: elapse_def)
  then have "map snd (pending (popped s)) = map snd rest" using p(2) by simp
  then have "distinct (map snd (pending (popped s)))" "snd ` set (pending (popped s)) = snd ` set rest"
    using K(1) assms(2) by (simp, metis set_map)
  moreover have "snd ` set rest = K - {(k, a)}" using K assms(2) by force
  ultimately show "tq.armed sl (popped s) (K - {(k, a)})" unfolding tq.armed_def using p(1) by metis
  show "(k, a) \<in> K" using K(2) assms(2) by simp
qed

lemma armed_active [simp]: "tq.armed sl (s\<lparr>tcpip_tcp_timer_active := b\<rparr>) K = tq.armed sl s K"
  by (simp add: tq.armed_def timers_ok_def pending_def tlist_def)

lemma tcp_timer_needed_keys:
  assumes "tq.armed sl s (keys_of (tcpip_tcp_timer_active s) - X)" "(H_tcpip_tcp, 0) \<notin> X"
  shows "\<exists>s'. tcp_timer_needed b s = Inr s' \<and> tq.armed sl s' (keys_of (tcpip_tcp_timer_active s') - X)"
proof (cases "\<not> tcpip_tcp_timer_active s \<and> b")
  case True
  have "card (keys_of False - X) \<le> card (keys_of False)" by (rule card_mono [OF card_keys(2)]) auto
  then have c: "card (keys_of False - X) < 5" by (simp add: card_keys)
  have "tq.armed sl (s\<lparr>tcpip_tcp_timer_active := True\<rparr>) (keys_of False - X)" using assms True by simp
  from arm_timer [OF this _ c, of H_tcpip_tcp 0 250] True obtain s' where
    "tcp_timer_needed b s = Inr s'" "tq.armed sl s' (insert (H_tcpip_tcp, 0) (keys_of False - X))" "tcpip_tcp_timer_active s'"
    by (auto simp: tcp_timer_needed_def keys_of_def cyclic_keys_def)
  moreover have "insert (H_tcpip_tcp, 0) (keys_of False - X) = keys_of True - X" using assms(2) by (auto simp: keys_of_def)
  ultimately show ?thesis by simp
next
  case False
  then have "tcp_timer_needed b s = Inr s" unfolding tcp_timer_needed_def by (rule if_not_P)
  then show ?thesis using assms(1) by blast
qed

lemma cyclic_rearm:
  assumes "tq.armed sl s (keys_of (tcpip_tcp_timer_active s) - {(k, 0)})" "(k, 0) \<in> cyclic_keys"
  shows "\<exists>s'. rbind (tcp_timer_needed b s) (sys_timeout m k 0) = Inr s' \<and> stack_ok sl s'"
proof -
  have "(H_tcpip_tcp, 0) \<notin> {(k, 0 :: nat)}" using assms(2) by (auto simp: cyclic_keys_def)
  from tcp_timer_needed_keys [OF assms(1) this, of b] obtain s1 where
    s1: "tcp_timer_needed b s = Inr s1" "tq.armed sl s1 (keys_of (tcpip_tcp_timer_active s1) - {(k, 0)})" by blast
  have k: "(k, 0) \<in> keys_of (tcpip_tcp_timer_active s1)" using assms(2) by (simp add: keys_of_def)
  then have c: "card (keys_of (tcpip_tcp_timer_active s1) - {(k, 0)}) < 5" by (simp add: card_keys)
  from arm_timer [OF s1(2) _ c, of k 0 m] obtain s' where s': "sys_timeout m k 0 s1 = Inr s'"
    "tq.armed sl s' (insert (k, 0) (keys_of (tcpip_tcp_timer_active s1) - {(k, 0)}))"
    "tcpip_tcp_timer_active s' = tcpip_tcp_timer_active s1" by auto
  have "insert (k, 0) (keys_of (tcpip_tcp_timer_active s1) - {(k, 0)}) = keys_of (tcpip_tcp_timer_active s1)"
    using k by (rule insert_Diff)
  then show ?thesis using s1(1) s' by (simp add: stack_ok_def)
qed

lemma builtin_call_ok:
  assumes "tq.armed sl s (keys_of (tcpip_tcp_timer_active s) - {(k, a)})" "(k, a) \<in> keys_of (tcpip_tcp_timer_active s)"
  shows "\<exists>s'. builtin_call b c k a s = Inr s' \<and> stack_ok sl s'"
proof (cases "(k, a) \<in> cyclic_keys")
  case True
  then have "a = 0" by (auto simp: cyclic_keys_def)
  with cyclic_rearm [OF assms(1) [unfolded this], of b] True show ?thesis
    by (auto simp: cyclic_keys_def builtin_call_def ip_reass_timer_def arp_timer_def autoip_timer_def dns_timer_def)
next
  case False
  then have k: "k = H_tcpip_tcp" "a = 0" and act: "tcpip_tcp_timer_active s"
    using assms(2) by (auto simp: keys_of_def split: if_splits)
  have "keys_of True - {(k, a)} = keys_of False" using False by (auto simp: keys_of_def k)
  then have s: "tq.armed sl s (keys_of False)" using assms(1) act by simp
  have need: "tcp_timer_needed b s = Inr s" using act by (simp add: tcp_timer_needed_def)
  show ?thesis
  proof (cases c)
    case True
    from arm_timer [OF s, of H_tcpip_tcp 0 250] True need act show ?thesis
      by (auto simp: builtin_call_def k tcpip_tcp_timer_def stack_ok_def keys_of_def card_keys cyclic_keys_def)
  next
    case False
    then show ?thesis using s need by (auto simp: builtin_call_def k tcpip_tcp_timer_def stack_ok_def)
  qed
qed

lemma stack_pass:
  assumes "stack_ok sl s"
  shows "\<exists>again s'. fetch_pass (builtin_call b c) w s = Inr (again, s') \<and> stack_ok sl s'"
proof -
  have ok: "timers_ok sl s" and ar: "tq.armed sl s (keys_of (tcpip_tcp_timer_active s))"
    using assms by (auto simp: stack_ok_def tq.armed_def)
  have "pending s \<noteq> []" using tq.armed_length [OF ar] card_keys by (auto split: if_splits)
  then obtain d k a rest where p: "pending s = (d, k, a) # rest" by (metis list.exhaust prod_cases3)
  note f = fetch_pass_spec [OF ok p, of w "builtin_call b c"]
  have act: "tcpip_tcp_timer_active (popped s) = tcpip_tcp_timer_active s" by (simp add: popped_def)
  note pop = armed_popped [OF ar p]
  show ?thesis
  proof (cases "d = 0 \<or> w = SYS_ARCH_TIMEOUT")
    case True
    have "k \<noteq> H_NULL" using pop(2) by (auto simp: keys_of_def cyclic_keys_def split: if_splits)
    moreover obtain s' where "builtin_call b c k a (popped s) = Inr s'" "stack_ok sl s'"
      using builtin_call_ok [of sl "popped s" k a b c] pop act by auto
    ultimately show ?thesis using f True by (intro exI [of _ True] exI [of _ s']) simp
  next
    case False
    then obtain s' where s': "fetch_pass (builtin_call b c) w s = Inr (False, s')" "timers_ok sl s'"
      "pending s' = elapse (min (unat w) d) (pending s)" "tcpip_tcp_timer_active s' = tcpip_tcp_timer_active s"
      using f by auto
    have "map snd (pending s') = map snd (pending s)" unfolding s'(3) by (auto simp: elapse_def)
    moreover from arg_cong [OF this, of set] have "snd ` set (pending s') = snd ` set (pending s)" by simp
    ultimately have "tq.armed sl s' (keys_of (tcpip_tcp_timer_active s'))"
      using ar s'(2,4) unfolding tq.armed_def by (simp only:)
    then show ?thesis using s'(1) by (auto simp: stack_ok_def)
  qed
qed

lemma sys_timeouts_init_ok:
  assumes "timers_ok sl s" "pending s = []" "\<not> tcpip_tcp_timer_active s"
  shows "\<exists>s'. sys_timeouts_init s = Inr s' \<and> stack_ok sl s'"
proof -
  have "tq.armed sl s {}" using assms by (simp add: tq.armed_def)
  from arm_timer [OF this, of H_ip_reass 0 1000] obtain s1 where s1: "sys_timeout 1000 H_ip_reass 0 s = Inr s1"
    "tq.armed sl s1 {(H_ip_reass, 0)}" "\<not> tcpip_tcp_timer_active s1" using assms(3) by auto
  from arm_timer [OF s1(2), of H_arp 0 5000] obtain s2 where s2: "sys_timeout 5000 H_arp 0 s1 = Inr s2"
    "tq.armed sl s2 {(H_arp, 0), (H_ip_reass, 0)}" "\<not> tcpip_tcp_timer_active s2" using s1(3) by auto
  from arm_timer [OF s2(2), of H_autoip 0 100] obtain s3 where s3: "sys_timeout 100 H_autoip 0 s2 = Inr s3"
    "tq.armed sl s3 {(H_autoip, 0), (H_arp, 0), (H_ip_reass, 0)}" "\<not> tcpip_tcp_timer_active s3" using s2(3) by auto
  from arm_timer [OF s3(2), of H_dns 0 1000] obtain s4 where s4: "sys_timeout 1000 H_dns 0 s3 = Inr s4"
    "tq.armed sl s4 {(H_dns, 0), (H_autoip, 0), (H_arp, 0), (H_ip_reass, 0)}" "\<not> tcpip_tcp_timer_active s4"
    using s3(3) by auto
  have "{(H_dns, 0), (H_autoip, 0), (H_arp, 0), (H_ip_reass, 0 :: nat)} = cyclic_keys" by (auto simp: cyclic_keys_def)
  then show ?thesis using s1 s2 s3 s4 by (auto simp: sys_timeouts_init_def stack_ok_def keys_of_def)
qed

text \<open>Runs of the stack's timers: connections are opened and the \<^verbatim>\<open>tcpip\<close> thread waits, in any order.\<close>

inductive timers_run :: "timers \<Rightarrow> timers \<Rightarrow> bool" for s0 where
  run_init: "sys_timeouts_init s0 = Inr s \<Longrightarrow> timers_run s0 s"
| run_open: "timers_run s0 s \<Longrightarrow> tcp_timer_needed b s = Inr s' \<Longrightarrow> timers_run s0 s'"
| run_wait: "timers_run s0 s \<Longrightarrow> fetch_pass (builtin_call b c) w s = Inr (again, s') \<Longrightarrow> timers_run s0 s'"

lemma timers_run_ok:
  assumes "timers_run s0 s" "timers_ok sl s0" "pending s0 = []" "\<not> tcpip_tcp_timer_active s0"
  shows "stack_ok sl s"
  using assms
proof (induction rule: timers_run.induct)
  case (run_init s)
  then show ?case using sys_timeouts_init_ok by fastforce
next
  case (run_open s b s')
  then have "tq.armed sl s (keys_of (tcpip_tcp_timer_active s) - {})" by (simp add: stack_ok_def)
  from tcp_timer_needed_keys [OF this, of b] run_open show ?case by (simp add: stack_ok_def)
next
  case (run_wait s b c w again s')
  then show ?case using stack_pass [of sl s b c w] by simp
qed

section \<open>Properties\<close>

text \<open>
  C3. The relative times of the list implement absolute deadlines: \<open>sys_timeout\<close> files the new
  timeout behind all timeouts that are due no later and ahead of the others, leaves every other
  deadline as it was and keeps the list well formed; with all elements of the pool in use it ends
  the process.
\<close>

theorem sys_timeout_correct:
  assumes "timers_ok sl s"
  shows "if length (pending s) = TIMEOUT_MAX then sys_timeout msecs k a s = Inl Abort
    else \<exists>s'. sys_timeout msecs k a s = Inr s' \<and> timers_ok sl s' \<and> sorted (map fst (pending s')) \<and>
      pending s' = place (unat msecs, k, a) (pending s)"
  using sys_timeout_spec [OF assms, of msecs k a] by (auto simp: pending_def stamps_sorted)

text \<open>
  \<open>sys_untimeout\<close> removes the first timeout with the given handler and argument and leaves the
  deadlines of all others as they were (the time of the removed one is added to its successor without
  wrapping); without a match nothing changes. Cancelling a timeout that was just set restores the
  deadlines.
\<close>

theorem sys_untimeout_correct:
  assumes "timers_ok sl s"
  shows "(\<exists>s'. sys_untimeout k a s = Inr s' \<and> timers_ok sl s' \<and> pending s' = cancel (k, a) (pending s)) \<and>
    (length (pending s) < TIMEOUT_MAX \<longrightarrow> (k, a) \<notin> snd ` set (pending s) \<longrightarrow>
      (\<exists>s1 s2. sys_timeout m k a s = Inr s1 \<and> sys_untimeout k a s1 = Inr s2 \<and> timers_ok sl s2 \<and>
         pending s2 = pending s))"
  using sys_untimeout_spec [OF assms, of k a] tq.arm_disarm [OF assms, of k a m] by blast

text \<open>
  C29. One pass of the waiting loop: if the wait times out (or the first timeout is already due),
  the handler of the first timeout is called on a list from which it is gone and in which all other
  deadlines have come nearer by its deadline; if a message arrives after \<open>w\<close> milliseconds, all
  deadlines come nearer by \<open>w\<close>, but by no more than the first one, which is never skipped.
\<close>

theorem fetch_pass_correct:
  assumes "timers_ok sl s" "pending s = (d, k, a) # rest"
  shows "if d = 0 \<or> w = SYS_ARCH_TIMEOUT
     then timers_ok sl (popped s) \<and> pending (popped s) = elapse d rest \<and>
       fetch_pass call w s = (if k = H_NULL then Inr (True, popped s) else rbind (call k a (popped s)) (\<lambda>s. Inr (True, s)))
     else \<exists>s'. fetch_pass call w s = Inr (False, s') \<and> timers_ok sl s' \<and> pending s' = elapse (min (unat w) d) (pending s)"
  using fetch_pass_spec [OF assms, of w call] by auto

text \<open>
  C30. The five elements of the timeout pool are enough for the timers of the stack: from an empty
  list, initialisation, opened connections and waits in any order and number always return, the
  cyclic timers stay pending, and the TCP timer is pending exactly while it is marked active.
\<close>

theorem stack_timers_safe:
  assumes "timers_ok sl s0" "pending s0 = []" "\<not> tcpip_tcp_timer_active s0"
  shows "(\<exists>s. sys_timeouts_init s0 = Inr s) \<and>
    (\<forall>s. timers_run s0 s \<longrightarrow> timers_ok sl s \<and> distinct (map snd (pending s)) \<and>
       snd ` set (pending s) = keys_of (tcpip_tcp_timer_active s) \<and>
       (\<exists>s'. tcp_timer_needed b s = Inr s') \<and> (\<exists>r. fetch_pass (builtin_call b c) w s = Inr r))"
proof -
  have "timers_ok sl s \<and> distinct (map snd (pending s)) \<and> snd ` set (pending s) = keys_of (tcpip_tcp_timer_active s) \<and>
      (\<exists>s'. tcp_timer_needed b s = Inr s') \<and> (\<exists>r. fetch_pass (builtin_call b c) w s = Inr r)" if "timers_run s0 s" for s
  proof -
    have ok: "stack_ok sl s" using timers_run_ok [OF that assms] .
    then have a: "tq.armed sl s (keys_of (tcpip_tcp_timer_active s) - {})" by (simp add: stack_ok_def)
    show ?thesis
      using ok tcp_timer_needed_keys [OF a, of b] stack_pass [OF ok, of b c w] by (auto simp: stack_ok_def tq.armed_def)
  qed
  then show ?thesis using sys_timeouts_init_ok [OF assms] by blast
qed

section \<open>Instances\<close>

definition idle :: timers where
  "idle = \<lparr>next_timeout = 0, timeos = (\<lambda>_. \<lparr>tnext = 0, time = 0, h = H_NULL, arg = 0\<rparr>),
     tpools = memp_init (\<lambda>_. 32) 4096 (memp_statics (\<lambda>_. 0)), tcpip_tcp_timer_active = False\<rparr>"

lemma idle_ok: "timers_ok (slots (\<lambda>_. 32) 4096) idle" "pending idle = []" "\<not> tcpip_tcp_timer_active idle"
proof -
  note i = memp_init_all_free [of "\<lambda>_. 32" 4096 "\<lambda>_. 0" MEMP_SYS_TIMEOUT]
  have "tlist idle = []" by (simp add: tlist_def idle_def numeral_eq_Suc)
  then show "timers_ok (slots (\<lambda>_. 32) 4096) idle" "pending idle = []"
    using i by (simp_all add: timers_ok_def pending_def taken_def) (simp_all add: idle_def)
  show "\<not> tcpip_tcp_timer_active idle" by (simp add: idle_def)
qed

theorem sys_timeout_correct_witness:
  "\<exists>s'. sys_timeout 100 H_dns 7 idle = Inr s' \<and> pending s' = [(100, H_dns, 7)]"
  using sys_timeout_correct [OF idle_ok(1), of 100 H_dns 7] idle_ok(2) by (auto simp: place_def)

theorem sys_untimeout_correct_witness:
  "\<exists>s1 s2. sys_timeout 5 H_arp 1 idle = Inr s1 \<and> sys_untimeout H_arp 1 s1 = Inr s2 \<and> pending s2 = []"
  using sys_untimeout_correct [OF idle_ok(1), of H_arp 1 5] idle_ok(2) by auto

theorem fetch_pass_correct_witness:
  "\<exists>s s'. sys_timeout 100 H_dns 7 idle = Inr s \<and> fetch_pass (\<lambda>_ _. Inr) 30 s = Inr (False, s') \<and>
     pending s' = [(70, H_dns, 7)]"
proof -
  obtain s where s: "sys_timeout 100 H_dns 7 idle = Inr s" "timers_ok (slots (\<lambda>_. 32) 4096) s" "pending s = [(100, H_dns, 7)]"
    using sys_timeout_spec [OF idle_ok(1), of 100 H_dns 7] idle_ok(2) by (auto simp: place_def)
  show ?thesis
    using fetch_pass_correct [OF s(2,3), of 30 "\<lambda>_ _. Inr"] s by (auto simp: SYS_ARCH_TIMEOUT_def elapse_def)
qed

theorem stack_timers_safe_witness: "\<exists>s. sys_timeouts_init idle = Inr s"
  using stack_timers_safe [OF idle_ok] by blast

end
