(* ===== verification/Pbuf_Life.thy ===== *)
theory Pbuf_Life
  imports Pbuf_Data
begin

text \<open>
  The life cycle of pbufs in \<^verbatim>\<open>pbuf.c\<close>: who owns which memory, what \<open>pbuf_free\<close> gives back,
  what \<open>pbuf_alloc\<close> takes (and that a failed allocation takes nothing), and how \<open>pbuf_cat\<close>,
  \<open>pbuf_header\<close> and \<open>pbuf_realloc\<close> change a packet.
\<close>

section \<open>Ownership\<close>

lemma chain_distinct: "chain s p ps \<Longrightarrow> distinct ps"
  unfolding chain_def by (rule linked_distinct)

definition pool_of :: "pbuf_type \<Rightarrow> memp_t option" where
  "pool_of t = (case t of PBUF_RAM \<Rightarrow> None | PBUF_POOL \<Rightarrow> Some MEMP_PBUF_POOL | _ \<Rightarrow> Some MEMP_PBUF)"

text \<open>\<open>owned sl s q\<close>: \<open>q\<close> is an ordinary pbuf and its memory is allocated where its type says.\<close>

definition owned :: "(memp_t \<Rightarrow> nat list) \<Rightarrow> pb_state \<Rightarrow> nat \<Rightarrow> bool" where
  "owned sl s q \<longleftrightarrow> \<not> is_custom (pbufs s q) \<and>
     (case pool_of (ptype (pbufs s q)) of
        None \<Rightarrow> \<exists>e. (q, e) \<in> live (heap s)
      | Some i \<Rightarrow> q \<in> taken sl (pools s) i)"

definition mem_ok :: "(memp_t \<Rightarrow> nat list) \<Rightarrow> pb_state \<Rightarrow> bool" where
  "mem_ok sl s \<longleftrightarrow> heap_ok (heap s) \<and> memp_ok sl (pools s)"

text \<open>What is left of the heap blocks and pool elements once the pbufs \<open>qs\<close> are gone.\<close>

definition heap_minus :: "pb_state \<Rightarrow> nat list \<Rightarrow> (nat \<times> nat) set" where
  "heap_minus s qs = live (heap s) - {(q, e). q \<in> set qs \<and> ptype (pbufs s q) = PBUF_RAM}"

definition pool_minus :: "(memp_t \<Rightarrow> nat list) \<Rightarrow> pb_state \<Rightarrow> nat list \<Rightarrow> memp_t \<Rightarrow> nat set" where
  "pool_minus sl s qs i = taken sl (pools s) i - {q \<in> set qs. pool_of (ptype (pbufs s q)) = Some i}"

lemma upd_fields [simp, pbuf_simps]:
  "pbufs (upd q f s) = (pbufs s)(q := f (pbufs s q))" "heap (upd q f s) = heap s"
  "pools (upd q f s) = pools s" "bytes (upd q f s) = bytes s" "custom (upd q f s) = custom s"
  "ooseq_pending (upd q f s) = ooseq_pending s" "tcpip_mbox (upd q f s) = tcpip_mbox s"
  by (simp_all add: upd_def)

text \<open>Releasing the memory of one pbuf, as the body of the loop of \<open>pbuf_free\<close> does.\<close>

definition release :: "nat \<Rightarrow> pb_state \<Rightarrow> pb_state res" where
  "release p s1 =
     (case ptype (pbufs s1 p) of
        PBUF_POOL \<Rightarrow> Inr (s1\<lparr>pools := memp_free MEMP_PBUF_POOL p (pools s1)\<rparr>)
      | PBUF_ROM \<Rightarrow> Inr (s1\<lparr>pools := memp_free MEMP_PBUF p (pools s1)\<rparr>)
      | PBUF_REF \<Rightarrow> Inr (s1\<lparr>pools := memp_free MEMP_PBUF p (pools s1)\<rparr>)
      | PBUF_RAM \<Rightarrow> rbind (mem_free p (heap s1)) (\<lambda>h. Inr (s1\<lparr>heap := h\<rparr>)))"

lemma release_owned:
  assumes ok: "mem_ok sl s" and own: "owned sl s q"
  obtains h ps where "release q s = Inr (s\<lparr>heap := h, pools := ps\<rparr>)" "mem_ok sl (s\<lparr>heap := h, pools := ps\<rparr>)"
    "live h = heap_minus s [q]" "taken sl ps = pool_minus sl s [q]"
proof (cases "pool_of (ptype (pbufs s q))")
  case None
  then have t: "ptype (pbufs s q) = PBUF_RAM" by (auto simp: pool_of_def split: pbuf_type.splits)
  obtain e where e: "(q, e) \<in> live (heap s)" using own None by (auto simp: owned_def)
  have h: "heap_ok (heap s)" using ok by (simp add: mem_ok_def)
  obtain h' where h': "mem_free q (heap s) = Inr h'" "heap_ok h'" "live h' = live (heap s) - {(q, e)}"
    using heap.free_law [OF h e] by blast
  have "live h' = heap_minus s [q]"
    using h'(3) heap.block_unique [OF h e] t by (auto simp: heap_minus_def)
  moreover have "taken sl (pools s) = pool_minus sl s [q]"
    using None by (auto simp: pool_minus_def fun_eq_iff)
  ultimately show thesis
    using h' t ok that [where h = h' and ps = "pools s"] by (simp add: release_def mem_ok_def)
next
  case (Some i)
  have q: "q \<in> taken sl (pools s) i" using own Some by (simp add: owned_def)
  have m: "memp_ok sl (pools s)" using ok by (simp add: mem_ok_def)
  note f = memp.put_law [OF m q]
  have "taken sl (memp_free i q (pools s)) = pool_minus sl s [q]"
    using f Some by (auto simp: pool_minus_def fun_eq_iff)
  moreover have "live (heap s) = heap_minus s [q]"
    using Some by (auto simp: heap_minus_def pool_of_def)
  moreover have "release q s = Inr (s\<lparr>pools := memp_free i q (pools s)\<rparr>)"
    using Some by (auto simp: release_def pool_of_def split: pbuf_type.splits)
  ultimately show thesis
    using f ok that [where h = "heap s" and ps = "memp_free i q (pools s)"] by (simp add: mem_ok_def)
qed

lemma free_loop_owned:
  "\<not> is_custom (pbufs s p) \<Longrightarrow> p \<noteq> 0 \<Longrightarrow> ref (pbufs s p) = 1 \<Longrightarrow>
     free_loop (Suc fuel) p count s =
       rbind (release p (upd p (\<lambda>b. b\<lparr>ref := 0\<rparr>) s)) (\<lambda>s2. free_loop fuel (pnext (pbufs s p)) ((count + 1) mod 256) s2)"
  by (simp add: release_def is_custom_def Let_def split: pbuf_type.split)

section \<open>Releasing a chain\<close>

text \<open>
  \<open>us\<close> are the pbufs at the head of the chain that only the chain refers to, \<open>vs\<close> the rest of the
  chain, which begins with a pbuf that somebody else refers to as well (or is empty).
\<close>

definition free_effect :: "nat list \<Rightarrow> nat list \<Rightarrow> pb_state \<Rightarrow> nat \<Rightarrow> pbuf" where
  "free_effect us vs s = (\<lambda>q.
     if q \<in> set us then (pbufs s q)\<lparr>ref := 0\<rparr>
     else if vs \<noteq> [] \<and> q = hd vs then (pbufs s q)\<lparr>ref := ref (pbufs s q) - 1\<rparr> else pbufs s q)"

lemma owned_cong:
  "pflags (pbufs s' r) = pflags (pbufs s r) \<Longrightarrow> ptype (pbufs s' r) = ptype (pbufs s r) \<Longrightarrow>
     heap s' = heap s \<Longrightarrow> pools s' = pools s \<Longrightarrow> owned sl s' r = owned sl s r"
  by (simp add: owned_def is_custom_def split: option.split)

lemma owned_release:
  assumes "owned sl s r" "r \<noteq> q" "pbufs s' r = pbufs s r" "live (heap s') = heap_minus s [q]"
    "taken sl (pools s') = pool_minus sl s [q]"
  shows "owned sl s' r"
  using assms by (auto simp: owned_def heap_minus_def pool_minus_def split: option.splits)

lemma free_loop_chain:
  assumes "mem_ok sl s" "chain s p (us @ vs)" "length us < fuel" "count < 256"
    "\<forall>q \<in> set us. owned sl s q \<and> ref (pbufs s q) = 1" "vs = [] \<or> 1 < ref (pbufs s (hd vs))"
  shows "\<exists>h ps. free_loop fuel p count s =
      Inr ((count + length us) mod 256, s\<lparr>heap := h, pools := ps, pbufs := free_effect us vs s\<rparr>) \<and>
    mem_ok sl (s\<lparr>heap := h, pools := ps\<rparr>) \<and> live h = heap_minus s us \<and> taken sl ps = pool_minus sl s us"
  using assms
proof (induction us arbitrary: p fuel count s)
  case Nil
  then obtain f where f: "fuel = Suc f" by (cases fuel) auto
  have minus: "heap_minus s [] = live (heap s)" "pool_minus sl s [] = taken sl (pools s)"
    by (simp_all add: heap_minus_def pool_minus_def fun_eq_iff)
  show ?case
  proof (cases vs)
    case vs: Nil
    then show ?thesis
      using Nil.prems f minus by (intro exI [of _ "heap s"] exI [of _ "pools s"]) (simp add: free_effect_def)
  next
    case (Cons v ws)
    have "free_effect [] vs s = (pbufs s)(v := (pbufs s v)\<lparr>ref := ref (pbufs s v) - 1\<rparr>)"
      by (auto simp: free_effect_def Cons)
    then show ?thesis
      using Nil.prems f minus Cons
      by (intro exI [of _ "heap s"] exI [of _ "pools s"]) (auto simp: upd_def Let_def fun_upd_def)
  qed
next
  case (Cons q us)
  then obtain f where f: "fuel = Suc f" "length us < f" by (cases fuel) auto
  from Cons.prems have c: "p = q" "q \<noteq> 0" "chain s (pnext (pbufs s q)) (us @ vs)" "owned sl s q" "ref (pbufs s q) = 1"
    by auto
  have dist: "distinct (q # us @ vs)" using chain_distinct [OF Cons.prems(2)] by simp
  let ?s0 = "upd q (\<lambda>b. b\<lparr>ref := 0\<rparr>) s"
  have own0: "owned sl ?s0 q" "mem_ok sl ?s0"
    using c(4) Cons.prems(1) owned_cong [of ?s0 q s sl] by (simp_all add: mem_ok_def)
  obtain h ps where r: "release q ?s0 = Inr (?s0\<lparr>heap := h, pools := ps\<rparr>)" "mem_ok sl (?s0\<lparr>heap := h, pools := ps\<rparr>)"
    "live h = heap_minus ?s0 [q]" "taken sl ps = pool_minus sl ?s0 [q]"
    using release_owned [OF own0(2,1)] .
  let ?s1 = "?s0\<lparr>heap := h, pools := ps\<rparr>"
  have ch: "chain ?s1 (pnext (pbufs s q)) (us @ vs)"
    using c(3) dist by (subst chain_cong [of _ _ s]) auto
  have rest: "\<forall>r \<in> set us. owned sl ?s1 r \<and> ref (pbufs ?s1 r) = 1"
  proof
    fix x assume x: "x \<in> set us"
    then have "x \<noteq> q" using dist by auto
    moreover have "owned sl ?s0 x" using Cons.prems(5) x \<open>x \<noteq> q\<close> owned_cong [of ?s0 x s sl] by simp
    ultimately show "owned sl ?s1 x \<and> ref (pbufs ?s1 x) = 1"
      using owned_release [of sl ?s0 x q ?s1] r(3,4) Cons.prems(5) x by auto
  qed
  have hd: "vs = [] \<or> 1 < ref (pbufs ?s1 (hd vs))"
    using Cons.prems(6) dist by (cases vs) auto
  have cnt: "(count + 1) mod 256 < 256" by simp
  obtain h' ps' where ih: "free_loop f (pnext (pbufs s q)) ((count + 1) mod 256) ?s1 =
      Inr (((count + 1) mod 256 + length us) mod 256, ?s1\<lparr>heap := h', pools := ps', pbufs := free_effect us vs ?s1\<rparr>)"
    "mem_ok sl (?s1\<lparr>heap := h', pools := ps'\<rparr>)" "live h' = heap_minus ?s1 us" "taken sl ps' = pool_minus sl ?s1 us"
    using Cons.IH [OF r(2) ch f(2) cnt rest hd] by blast
  have eff: "free_effect us vs ?s1 = free_effect (q # us) vs s"
    using dist by (cases vs) (auto simp: free_effect_def fun_eq_iff)
  have "free_loop fuel p count s = Inr ((count + length (q # us)) mod 256,
      s\<lparr>heap := h', pools := ps', pbufs := free_effect (q # us) vs s\<rparr>)"
    using ih(1) free_loop_owned [of s q f count] c r(1) eff f
    by (simp add: owned_def mod_simps upd_def)
  moreover have "heap_minus ?s1 us = heap_minus s (q # us)" "pool_minus sl ?s1 us = pool_minus sl s (q # us)"
    using r(3,4) by (auto simp: heap_minus_def pool_minus_def fun_eq_iff split: if_splits)
  moreover have "mem_ok sl (s\<lparr>heap := h', pools := ps'\<rparr>)" using ih(2) by (simp add: mem_ok_def)
  ultimately show ?case using ih(3,4) by auto
qed

section \<open>Allocating from the pool\<close>

text \<open>
  An empty pool queues a callback for the TCP/IP thread, which may take a message element; nothing
  else changes. The mailbox has to be in order and its counters away from their limit.
\<close>

definition mbox_ready :: "pb_state \<Rightarrow> bool" where
  "mbox_ready s \<longleftrightarrow> (case tcpip_mbox s of None \<Rightarrow> True
     | Some mb \<Rightarrow> mbox_ok mb \<and> mb_first mb + SYS_MBOX_SIZE < 2147483648 \<and> mb_last mb < 2147483647)"

definition same_pbufs :: "(memp_t \<Rightarrow> nat list) \<Rightarrow> pb_state \<Rightarrow> pb_state \<Rightarrow> bool" where
  "same_pbufs sl s s' \<longleftrightarrow> pbufs s' = pbufs s \<and> bytes s' = bytes s \<and> heap s' = heap s \<and> custom s' = custom s \<and>
     (\<forall>i. i \<noteq> MEMP_TCPIP_MSG_API \<longrightarrow> taken sl (pools s') i = taken sl (pools s) i)"

lemma trypost_ready:
  assumes "mbox_ok mb" "mb_first mb + SYS_MBOX_SIZE < 2147483648" "mb_last mb < 2147483647"
  obtains e mb' where "sys_mbox_trypost msg mb = Some (Inr (e, mb'))"
proof -
  have mt: "mutex mb = 1" using assms(1) by (rule mbox_ok_mutex)
  show thesis
    using that assms
    by (cases "mb_last mb + 1 \<ge> mb_first mb + SYS_MBOX_SIZE")
      (auto simp: sys_mbox_trypost_def mutex_cases [OF mt] mbox_full_def mbox_enqueue_def int_incr_def Let_def)
qed

lemma tcpip_trycallback_safe:
  assumes ok: "mem_ok sl s" and mb: "mbox_ready s"
  shows "\<exists>e s'. tcpip_trycallback s = Inr (e, s') \<and> mem_ok sl s' \<and> same_pbufs sl s s'"
proof (cases "tcpip_mbox s")
  case None
  then show ?thesis using ok by (simp add: tcpip_trycallback_def same_pbufs_def)
next
  case (Some b)
  have m: "memp_ok sl (pools s)" using ok by (simp add: mem_ok_def)
  obtain x ps where g: "memp_malloc MEMP_TCPIP_MSG_API (pools s) = Inr (x, ps)" "memp_ok sl ps"
    using memp.get_total [OF m, of MEMP_TCPIP_MSG_API] by blast
  show ?thesis
  proof (cases "x = 0")
    case True
    then have "ps = pools s" using memp.get_law [OF m, of MEMP_TCPIP_MSG_API] g by auto
    then show ?thesis using True g ok Some by (simp add: tcpip_trycallback_def same_pbufs_def mem_ok_def)
  next
    case False
    then have t: "taken sl ps = (taken sl (pools s))(MEMP_TCPIP_MSG_API := insert x (taken sl (pools s) MEMP_TCPIP_MSG_API))"
      using memp.get_law [OF m, of MEMP_TCPIP_MSG_API] g by auto
    obtain e mb' where p: "sys_mbox_trypost x b = Some (Inr (e, mb'))"
      using trypost_ready [of b x] mb Some by (auto simp: mbox_ready_def)
    have "memp_ok sl (memp_free MEMP_TCPIP_MSG_API x ps) \<and>
        taken sl (memp_free MEMP_TCPIP_MSG_API x ps) = taken sl (pools s)"
      using memp.get_put [OF m _ g(1) False] by simp
    then show ?thesis
      using False g ok Some p t by (auto simp: tcpip_trycallback_def same_pbufs_def mem_ok_def)
  qed
qed

lemma pbuf_pool_is_empty_safe:
  assumes ok: "mem_ok sl s" and mb: "mbox_ready s"
  shows "\<exists>s'. pbuf_pool_is_empty s = Inr s' \<and> mem_ok sl s' \<and> same_pbufs sl s s'"
proof (cases "ooseq_pending s")
  case True
  then show ?thesis using ok by (simp add: pbuf_pool_is_empty_def same_pbufs_def mem_ok_def)
next
  case False
  have "mem_ok sl (s\<lparr>ooseq_pending := True\<rparr>)" "mbox_ready (s\<lparr>ooseq_pending := True\<rparr>)"
    using ok mb by (simp_all add: mem_ok_def mbox_ready_def)
  then obtain e s1 where "tcpip_trycallback (s\<lparr>ooseq_pending := True\<rparr>) = Inr (e, s1)" "mem_ok sl s1"
    "same_pbufs sl (s\<lparr>ooseq_pending := True\<rparr>) s1"
    using tcpip_trycallback_safe by blast
  then show ?thesis
    using False by (intro exI [of _ "if e \<noteq> ERR_OK then s1\<lparr>ooseq_pending := False\<rparr> else s1"])
      (simp add: pbuf_pool_is_empty_def same_pbufs_def mem_ok_def Let_def)
qed

text \<open>\<^verbatim>\<open>tot_len\<close> fields of a chain under construction that still lacks \<open>rem\<close> bytes.\<close>

primrec tot_rem :: "pb_state \<Rightarrow> nat list \<Rightarrow> nat \<Rightarrow> bool" where
  "tot_rem s [] rem = True"
| "tot_rem s (q # qs) rem \<longleftrightarrow> tot_len (pbufs s q) = length (content s (q # qs)) + rem \<and> tot_rem s qs rem"

text \<open>
  A pool chain \<open>ps\<close> that \<open>pbuf_alloc\<close> has built so far, starting from the state \<open>s0\<close>.
\<close>

definition building :: "(memp_t \<Rightarrow> nat list) \<Rightarrow> pb_state \<Rightarrow> pb_state \<Rightarrow> nat list \<Rightarrow> nat \<Rightarrow> bool" where
  "building sl s0 s ps rem \<longleftrightarrow>
     mem_ok sl s \<and> ps \<noteq> [] \<and> chain s (hd ps) ps \<and> tot_rem s ps rem \<and>
     (\<forall>q \<in> set ps. ptype (pbufs s q) = PBUF_POOL \<and> ref (pbufs s q) = 1 \<and> \<not> is_custom (pbufs s q) \<and>
        q + SIZEOF_STRUCT_PBUF \<le> payload (pbufs s q) \<and>
        payload (pbufs s q) + plen (pbufs s q) \<le> q + SIZEOF_STRUCT_PBUF + PBUF_POOL_BUFSIZE) \<and>
     set ps \<inter> taken sl (pools s0) MEMP_PBUF_POOL = {} \<and>
     taken sl (pools s) = (taken sl (pools s0))(MEMP_PBUF_POOL := taken sl (pools s0) MEMP_PBUF_POOL \<union> set ps) \<and>
     heap s = heap s0 \<and> bytes s = bytes s0 \<and> custom s = custom s0 \<and> tcpip_mbox s = tcpip_mbox s0 \<and>
     ooseq_pending s = ooseq_pending s0 \<and> (\<forall>q. q \<notin> set ps \<longrightarrow> pbufs s q = pbufs s0 q)"

lemma pool_chain_short:
  assumes "memp_ok sl st" "set ps \<subseteq> taken sl st MEMP_PBUF_POOL" "distinct ps"
  shows "length ps \<le> 64"
proof -
  have "length ps = card (set ps)" using assms(3) by (simp add: distinct_card)
  also have "\<dots> \<le> card (set (sl MEMP_PBUF_POOL))"
    using assms(2) by (intro card_mono) (auto simp: taken_def)
  also have "\<dots> \<le> 64"
    using memp_ok_layout [OF assms(1)] card_length [of "sl MEMP_PBUF_POOL"] by (simp add: layout_def)
  finally show ?thesis .
qed

lemma building_short: "building sl s0 s ps rem \<Longrightarrow> length ps \<le> 64 \<and> distinct ps"
  using pool_chain_short [of sl "pools s" ps] chain_distinct [of s "hd ps" ps]
  by (auto simp: building_def mem_ok_def)

lemma tot_rem_tot_ok: "tot_rem s ps 0 \<Longrightarrow> tot_ok s ps"
  by (induction ps) auto

lemma building_abandon:
  assumes b: "building sl s0 s ps rem" and s1: "same_pbufs sl s s1" "mem_ok sl s1"
  shows "\<exists>n s2. pbuf_free (hd ps) s1 = Inr (n, s2) \<and> mem_ok sl s2 \<and> live (heap s2) = live (heap s0) \<and>
    (\<forall>i. i \<noteq> MEMP_TCPIP_MSG_API \<longrightarrow> taken sl (pools s2) i = taken sl (pools s0) i) \<and>
    bytes s2 = bytes s0 \<and> (\<forall>q. q \<notin> set ps \<longrightarrow> pbufs s2 q = pbufs s0 q)"
proof -
  have sh: "length ps \<le> 64" "distinct ps" using building_short [OF b] by auto
  have ch: "chain s1 (hd ps) (ps @ [])"
    using b s1 by (subst chain_cong [of _ _ s]) (auto simp: building_def same_pbufs_def)
  have own: "\<forall>q \<in> set ps. owned sl s1 q \<and> ref (pbufs s1 q) = 1"
    using b s1 by (auto simp: building_def same_pbufs_def owned_def pool_of_def)
  have len: "length ps < PBUF_MAX" using sh by simp
  obtain h pl where f: "free_loop PBUF_MAX (hd ps) 0 s1 =
      Inr ((0 + length ps) mod 256, s1\<lparr>heap := h, pools := pl, pbufs := free_effect ps [] s1\<rparr>)"
    "mem_ok sl (s1\<lparr>heap := h, pools := pl\<rparr>)" "live h = heap_minus s1 ps" "taken sl pl = pool_minus sl s1 ps"
    using free_loop_chain [OF s1(2) ch len _ own, of 0] by auto
  have "hd ps \<noteq> 0" using b by (cases ps) (auto simp: building_def)
  moreover have "live h = live (heap s0)"
    using f(3) b s1 by (auto simp: heap_minus_def building_def same_pbufs_def)
  moreover have "taken sl pl i = taken sl (pools s0) i" if "i \<noteq> MEMP_TCPIP_MSG_API" for i
    using f(4) b s1 that by (auto simp: pool_minus_def building_def same_pbufs_def pool_of_def)
  moreover have "free_effect ps [] s1 q = pbufs s0 q" if "q \<notin> set ps" for q
    using that b s1 by (simp add: free_effect_def building_def same_pbufs_def)
  ultimately show ?thesis
    using f b s1 by (auto simp: pbuf_free_def mem_ok_def building_def same_pbufs_def)
qed

lemma linked_snoc:
  "linked nx p xs \<Longrightarrow> xs \<noteq> [] \<Longrightarrow> q \<notin> set xs \<Longrightarrow> q \<noteq> 0 \<Longrightarrow> linked (nx(last xs := q, q := 0)) p (xs @ [q])"
proof (induction xs arbitrary: p)
  case (Cons x xs)
  show ?case
  proof (cases xs)
    case Nil
    then show ?thesis using Cons.prems by auto
  next
    case (Cons y ys)
    have "x \<noteq> last xs"
      using linked_distinct [OF Cons.prems(1)] Cons by auto
    with Cons.IH [of "nx x"] Cons.prems Cons show ?thesis by auto
  qed
qed simp

lemma tot_rem_snoc:
  assumes "tot_rem s ps rem" "content s' [q] = d" "length d \<le> rem" "tot_len (pbufs s' q) = rem"
    "\<forall>x \<in> set ps. pbuf_data s' x = pbuf_data s x \<and> tot_len (pbufs s' x) = tot_len (pbufs s x)"
  shows "tot_rem s' (ps @ [q]) (rem - length d)"
  using assms
proof (induction ps)
  case (Cons x ps)
  then have "content s' ps = content s ps" by (intro content_cong) simp
  moreover have "length (pbuf_data s' x) = length (pbuf_data s x)" using Cons.prems by simp
  ultimately show ?case using Cons by simp
qed simp

text \<open>One more element at the end of a chain under construction.\<close>

lemma building_snoc:
  assumes b: "building sl s0 s ps rem" and rem: "n \<le> rem" "n \<le> PBUF_POOL_BUFSIZE"
    and get: "memp_ok sl pl" "q \<noteq> 0" "\<forall>j. q \<notin> taken sl (pools s) j"
      "taken sl pl = (taken sl (pools s))(MEMP_PBUF_POOL := insert q (taken sl (pools s) MEMP_PBUF_POOL))"
    and s': "s' = s\<lparr>pools := pl, pbufs := (pbufs s)(last ps := (pbufs s (last ps))\<lparr>pnext := q\<rparr>,
      q := \<lparr>pnext = 0, payload = q + SIZEOF_STRUCT_PBUF, tot_len = rem, plen = n, ptype = PBUF_POOL,
            pflags = 0, ref = 1\<rparr>)\<rparr>"
  shows "building sl s0 s' (ps @ [q]) (rem - n) \<and> content s' ps = content s ps"
proof -
  have q: "q \<notin> set ps" and qs0: "q \<notin> taken sl (pools s0) MEMP_PBUF_POOL" and ne: "ps \<noteq> []"
    using b spec [OF get(3), of MEMP_PBUF_POOL] by (auto simp: building_def)
  then have l: "last ps \<in> set ps" "last ps \<noteq> q" by auto
  have data: "pbuf_data s' x = pbuf_data s x" if "x \<in> set ps" for x
    using that q by (auto simp: s' pbuf_data_def)
  have same: "tot_len (pbufs s' x) = tot_len (pbufs s x)" "ptype (pbufs s' x) = ptype (pbufs s x)"
    "ref (pbufs s' x) = ref (pbufs s x)" "pflags (pbufs s' x) = pflags (pbufs s x)"
    "payload (pbufs s' x) = payload (pbufs s x)" "plen (pbufs s' x) = plen (pbufs s x)"
    if "x \<in> set ps" for x using that q by (auto simp: s')
  have "chain s' (hd (ps @ [q])) (ps @ [q])"
  proof -
    have "linked ((\<lambda>x. pnext (pbufs s x))(last ps := q, q := 0)) (hd ps) (ps @ [q])"
      using b q ne get(2) by (intro linked_snoc) (auto simp: building_def chain_def)
    moreover have "((\<lambda>x. pnext (pbufs s x))(last ps := q, q := 0)) = (\<lambda>x. pnext (pbufs s' x))"
      using l by (auto simp: s' fun_eq_iff)
    ultimately show ?thesis using ne by (simp add: chain_def)
  qed
  moreover have "tot_rem s' (ps @ [q]) (rem - n)"
    using tot_rem_snoc [of s ps rem s' q "pbuf_data s' q"] b rem data same
    by (simp add: building_def s' del: tot_rem.simps)
  moreover have "\<forall>x \<in> set (ps @ [q]). ptype (pbufs s' x) = PBUF_POOL \<and> ref (pbufs s' x) = 1 \<and> \<not> is_custom (pbufs s' x) \<and>
        x + SIZEOF_STRUCT_PBUF \<le> payload (pbufs s' x) \<and>
        payload (pbufs s' x) + plen (pbufs s' x) \<le> x + SIZEOF_STRUCT_PBUF + PBUF_POOL_BUFSIZE"
  proof
    fix x assume "x \<in> set (ps @ [q])"
    then consider "x \<in> set ps" | "x = q" by auto
    then show "ptype (pbufs s' x) = PBUF_POOL \<and> ref (pbufs s' x) = 1 \<and> \<not> is_custom (pbufs s' x) \<and>
        x + SIZEOF_STRUCT_PBUF \<le> payload (pbufs s' x) \<and>
        payload (pbufs s' x) + plen (pbufs s' x) \<le> x + SIZEOF_STRUCT_PBUF + PBUF_POOL_BUFSIZE"
    proof cases
      case 1
      then show ?thesis using b same [OF 1] by (auto simp: building_def is_custom_def)
    next
      case 2
      then show ?thesis using rem by (simp add: s' is_custom_def)
    qed
  qed
  moreover have "\<forall>x. x \<notin> set (ps @ [q]) \<longrightarrow> pbufs s' x = pbufs s0 x"
    using b l by (auto simp: building_def s')
  ultimately show ?thesis
    using b get qs0 data ne content_cong [of ps s' s]
    by (auto simp: building_def mem_ok_def s')
qed

text \<open>The outcome of a failed allocation: nothing is held that was not held before.\<close>

definition alloc_undone :: "(memp_t \<Rightarrow> nat list) \<Rightarrow> pb_state \<Rightarrow> pb_state \<Rightarrow> bool" where
  "alloc_undone sl s0 s \<longleftrightarrow> mem_ok sl s \<and> live (heap s) = live (heap s0) \<and> bytes s = bytes s0 \<and>
     (\<forall>i. i \<noteq> MEMP_TCPIP_MSG_API \<longrightarrow> taken sl (pools s) i = taken sl (pools s0) i)"

text \<open>The number of bytes that fit in the free elements of the pool.\<close>

definition pool_room :: "(memp_t \<Rightarrow> nat list) \<Rightarrow> memp_state \<Rightarrow> nat" where
  "pool_room sl ps = (memp_num MEMP_PBUF_POOL - card (taken sl ps MEMP_PBUF_POOL)) * PBUF_POOL_BUFSIZE"

lemma pool_room_get:
  assumes "taken sl pl = (taken sl ps)(MEMP_PBUF_POOL := insert q (taken sl ps MEMP_PBUF_POOL))"
    "\<forall>j. q \<notin> taken sl ps j" "card (taken sl ps MEMP_PBUF_POOL) < memp_num MEMP_PBUF_POOL"
  shows "pool_room sl ps = pool_room sl pl + PBUF_POOL_BUFSIZE"
proof -
  have "finite (taken sl ps MEMP_PBUF_POOL)" by (simp add: taken_def)
  then have "card (taken sl pl MEMP_PBUF_POOL) = Suc (card (taken sl ps MEMP_PBUF_POOL))" using assms(1,2) by simp
  then obtain k where "memp_num MEMP_PBUF_POOL - card (taken sl ps MEMP_PBUF_POOL) = Suc k"
    "memp_num MEMP_PBUF_POOL - card (taken sl pl MEMP_PBUF_POOL) = k"
    using assms(3) by (metis Suc_diff_Suc)
  then show ?thesis by (simp add: pool_room_def del: memp_num.simps)
qed

lemma alloc_tail_building:
  assumes "building sl s0 s ps rem" "mbox_ready s0" "rem < 65535" "rem \<le> fuel * PBUF_POOL_BUFSIZE"
  shows "\<exists>ok s'. alloc_tail (Suc fuel) (hd ps) (last ps) rem s = Inr (ok, s') \<and>
    (if ok then \<exists>ps'. building sl s0 s' ps' 0 \<and> hd ps' = hd ps \<and>
        payload (pbufs s' (hd ps)) = payload (pbufs s (hd ps)) \<and>
        length (content s' ps') = length (content s ps) + rem
     else alloc_undone sl s0 s' \<and> pool_room sl (pools s) < rem)"
  using assms
proof (induction fuel arbitrary: s ps rem)
  case 0
  then show ?case by auto
next
  case (Suc fuel)
  note b = Suc.prems(1)
  show ?case
  proof (cases "rem = 0")
    case True
    then show ?thesis using b by auto
  next
    case rem: False
    have m: "memp_ok sl (pools s)" using b by (simp add: building_def mem_ok_def)
    have MP: "MEMP_PBUF_POOL \<noteq> MEMP_MAX" by simp
    from m MP show ?thesis
    proof (cases rule: memp.get_cases)
      case none
      have "mem_ok sl s" "mbox_ready s" using b Suc.prems(2) by (simp_all add: building_def mbox_ready_def)
      then obtain s1 where s1: "pbuf_pool_is_empty s = Inr s1" "mem_ok sl s1" "same_pbufs sl s s1"
        using pbuf_pool_is_empty_safe by blast
      obtain n s2 where f: "pbuf_free (hd ps) s1 = Inr (n, s2)" "alloc_undone sl s0 s2"
        using building_abandon [OF b s1(3,2)] by (auto simp: alloc_undone_def)
      moreover have "pool_room sl (pools s) < rem" using none(2) rem by (simp add: pool_room_def del: memp_num.simps)
      ultimately show ?thesis using none(1) s1(1) rem by (intro exI [of _ False] exI [of _ s2]) simp
    next
      case (some q pl)
      define n where "n = min rem PBUF_POOL_BUFSIZE"
      define s4 where "s4 = s\<lparr>pools := pl, pbufs := (pbufs s)(last ps := (pbufs s (last ps))\<lparr>pnext := q\<rparr>,
        q := \<lparr>pnext = 0, payload = q + SIZEOF_STRUCT_PBUF, tot_len = rem, plen = n, ptype = PBUF_POOL,
              pflags = 0, ref = 1\<rparr>)\<rparr>"
      have n: "n \<le> rem" "n \<le> PBUF_POOL_BUFSIZE" "0 < n" using rem by (auto simp: n_def)
      have b': "building sl s0 s4 (ps @ [q]) (rem - n) \<and> content s4 ps = content s ps"
        by (rule building_snoc [OF b n(1,2) some(2-5) s4_def])
      have q: "q \<notin> set ps" "ps \<noteq> []"
        using b spec [OF some(4), of MEMP_PBUF_POOL] by (auto simp: building_def)
      then have hq: "last ps \<noteq> q" "hd ps \<noteq> q" "hd ps \<in> set ps" by auto
      have hd: "payload (pbufs s4 (hd ps)) = payload (pbufs s (hd ps))" "plen (pbufs s4 (hd ps)) = plen (pbufs s (hd ps))"
        using hq by (auto simp: s4_def)
      have fits: "payload (pbufs s (hd ps)) + plen (pbufs s (hd ps)) \<le> hd ps + SIZEOF_STRUCT_PBUF + PBUF_POOL_BUFSIZE"
        using b hq(3) by (auto simp: building_def)
      have eq: "upd q (\<lambda>b. b\<lparr>ref := 1\<rparr>) (upd q (\<lambda>b. b\<lparr>tot_len := rem, plen := min rem PBUF_POOL_BUFSIZE,
            payload := q + SIZEOF_STRUCT_PBUF\<rparr>) (upd (last ps) (\<lambda>b. b\<lparr>pnext := q\<rparr>)
            (upd q (\<lambda>b. b\<lparr>ptype := PBUF_POOL, pflags := 0, pnext := 0\<rparr>) (s\<lparr>pools := pl\<rparr>)))) = s4"
        using hq by (auto simp: upd_def s4_def n_def fun_eq_iff intro!: pb_state.equality pbuf.equality)
      have step: "alloc_tail (Suc (Suc fuel)) (hd ps) (last ps) rem s = alloc_tail (Suc fuel) (hd ps) q (rem - n) s4"
      proof -
        have "plen (pbufs s4 q) = n" by (simp add: s4_def)
        then show ?thesis
          using some(3) rem Suc.prems(3) fits hq
          unfolding alloc_tail.simps(2) [of "Suc fuel"] some(1) rbind_Inr prod.case Let_def eq
          by (cases "hd ps = last ps") (simp_all del: alloc_tail.simps)
      qed
      have "rem - n \<le> fuel * PBUF_POOL_BUFSIZE" using Suc.prems(4) by (auto simp: n_def)
      moreover have "rem - n < 65535" using Suc.prems(3) by simp
      moreover have hl: "hd (ps @ [q]) = hd ps" "last (ps @ [q]) = q" using q(2) by simp_all
      moreover have lc: "length (content s4 (ps @ [q])) + (rem - n) = length (content s ps) + rem"
        using b' n by (simp add: s4_def)
      moreover have "pool_room sl (pools s) < rem" if "pool_room sl (pools s4) < rem - n"
        using pool_room_get [OF some(5,4,6)] that by (simp add: s4_def n_def min_def split: if_splits)
      moreover note Suc.IH [OF conjunct1 [OF b'] Suc.prems(2), unfolded hl lc hd]
      ultimately obtain ok s' where r: "alloc_tail (Suc fuel) (hd ps) q (rem - n) s4 = Inr (ok, s')"
        and c: "if ok then \<exists>ps'. building sl s0 s' ps' 0 \<and> hd ps' = hd ps \<and>
            payload (pbufs s' (hd ps)) = payload (pbufs s (hd ps)) \<and> length (content s' ps') = length (content s ps) + rem
          else alloc_undone sl s0 s' \<and> pool_room sl (pools s4) < rem - n"
        and room: "pool_room sl (pools s4) < rem - n \<Longrightarrow> pool_room sl (pools s) < rem" by blast
      show ?thesis using r c room unfolding step by (intro exI [of _ ok] exI [of _ s']) (cases ok; simp)
    qed
  qed
qed

text \<open>The head of a pool chain.\<close>

lemma building_head:
  assumes ok: "mem_ok sl s" and flags: "\<not> is_custom (pbufs s p)"
    and get: "memp_ok sl pl" "p \<noteq> 0" "\<forall>j. p \<notin> taken sl (pools s) j"
      "taken sl pl = (taken sl (pools s))(MEMP_PBUF_POOL := insert p (taken sl (pools s) MEMP_PBUF_POOL))"
    and n: "n \<le> len" "off + n \<le> PBUF_POOL_BUFSIZE"
    and s': "s' = s\<lparr>pools := pl, pbufs := (pbufs s)(p := (pbufs s p)\<lparr>ptype := PBUF_POOL, pnext := 0,
      payload := p + (SIZEOF_STRUCT_PBUF + off), tot_len := len, plen := n, ref := 1\<rparr>)\<rparr>"
  shows "building sl s s' [p] (len - n) \<and> length (content s' [p]) = n"
  using assms by (auto simp: building_def mem_ok_def is_custom_def)

lemma building_packet:
  assumes b: "building sl s0 s ps 0" and len: "length (content s ps) < 65536"
    and s': "s' = upd (hd ps) (\<lambda>b. b\<lparr>ref := 1, pflags := 0\<rparr>) s"
  shows "packet s' (hd ps) ps \<and> content s' ps = content s ps \<and>
    (\<forall>q \<in> set ps. owned sl s' q \<and> ref (pbufs s' q) = 1 \<and> q \<notin> taken sl (pools s0) MEMP_PBUF_POOL \<and>
      q + SIZEOF_STRUCT_PBUF \<le> payload (pbufs s' q) \<and>
      payload (pbufs s' q) + plen (pbufs s' q) \<le> q + SIZEOF_STRUCT_PBUF + PBUF_POOL_BUFSIZE)"
proof -
  have data: "pbuf_data s' x = pbuf_data s x" "tot_len (pbufs s' x) = tot_len (pbufs s x)"
    "pnext (pbufs s' x) = pnext (pbufs s x)" for x by (auto simp: s' pbuf_data_def)
  have cont: "content s' xs = content s xs" for xs using data by (intro content_cong) auto
  have "tot_ok s' ps"
  proof -
    have "tot_ok s ps" using b by (auto simp: building_def intro: tot_rem_tot_ok)
    then show ?thesis by (induction ps) (auto simp: data cont)
  qed
  moreover have "chain s' (hd ps) ps" using b data by (subst chain_cong [of _ _ s]) (auto simp: building_def)
  ultimately have "packet s' (hd ps) ps"
    using b building_short [OF b] len by (simp add: packet_def cont building_def)
  moreover have "owned sl s' q \<and> ref (pbufs s' q) = 1 \<and> q \<notin> taken sl (pools s0) MEMP_PBUF_POOL \<and>
      q + SIZEOF_STRUCT_PBUF \<le> payload (pbufs s' q) \<and>
      payload (pbufs s' q) + plen (pbufs s' q) \<le> q + SIZEOF_STRUCT_PBUF + PBUF_POOL_BUFSIZE" if "q \<in> set ps" for q
    using b that by (auto simp: building_def owned_def pool_of_def s' is_custom_def)
  ultimately show ?thesis by (simp add: cont)
qed

section \<open>Allocating from the pool\<close>

lemma alloc_pool_first:
  assumes ok: "mem_ok sl s" and mb: "mbox_ready s" and len: "len < 65536"
    and flags: "\<forall>q \<in> set (sl MEMP_PBUF_POOL). \<not> is_custom (pbufs s q)"
    and some: "memp_malloc MEMP_PBUF_POOL (pools s) = Inr (p, pl)" "memp_ok sl pl" "p \<noteq> 0" "\<forall>j. p \<notin> taken sl (pools s) j"
      "taken sl pl = (taken sl (pools s))(MEMP_PBUF_POOL := insert p (taken sl (pools s) MEMP_PBUF_POOL))"
      "card (taken sl (pools s) MEMP_PBUF_POOL) < memp_num MEMP_PBUF_POOL"
  shows "\<exists>dn s2. pbuf_alloc layer len PBUF_POOL s =
      (if dn then Inr (p, upd p (\<lambda>b. b\<lparr>ref := 1, pflags := 0\<rparr>) s2) else Inr (0, s2)) \<and>
    (if dn then \<exists>ps. building sl s s2 ps 0 \<and> hd ps = p \<and> payload (pbufs s2 p) = p + SIZEOF_STRUCT_PBUF + layer_offset layer \<and>
       length (content s2 ps) = len
     else alloc_undone sl s s2 \<and> pool_room sl (pools s) < len + layer_offset layer)"
proof -
  define off where "off = layer_offset layer"
  have off: "off \<le> 54" by (simp add: off_def layer_offset_def split: pbuf_layer.split)
  define n where "n = min len (PBUF_POOL_BUFSIZE - off)"
  define s1 where "s1 = s\<lparr>pools := pl, pbufs := (pbufs s)(p := (pbufs s p)\<lparr>ptype := PBUF_POOL, pnext := 0,
    payload := p + (SIZEOF_STRUCT_PBUF + off), tot_len := len, plen := n, ref := 1\<rparr>)\<rparr>"
  have "p \<in> taken sl pl MEMP_PBUF_POOL" using some(5) by simp
  then have "\<not> is_custom (pbufs s p)" using flags by (auto simp: taken_def)
  then have b: "building sl s s1 [p] (len - n)" "length (content s1 [p]) = n"
    using building_head [OF ok _ some(2-5) _ _ s1_def] off by (auto simp: n_def)
  have rem: "len - n < 65535" "len - n \<le> 1023 * PBUF_POOL_BUFSIZE" using len off by (auto simp: n_def)
  obtain dn s2 where t: "alloc_tail (Suc 1023) p p (len - n) s1 = Inr (dn, s2)"
    and c: "if dn then \<exists>ps'. building sl s s2 ps' 0 \<and> hd ps' = p \<and>
      payload (pbufs s2 p) = payload (pbufs s1 p) \<and> length (content s2 ps') = n + (len - n)
      else alloc_undone sl s s2 \<and> pool_room sl (pools s1) < len - n"
    using alloc_tail_building [OF b(1) mb rem, unfolded b(2) list.sel(1) last_ConsL [OF refl]] by blast
  have eq: "upd p (\<lambda>b. b\<lparr>ref := 1\<rparr>) (upd p (\<lambda>b. b\<lparr>ptype := PBUF_POOL, pnext := 0,
      payload := p + (SIZEOF_STRUCT_PBUF + off), tot_len := len, plen := min len (PBUF_POOL_BUFSIZE - off)\<rparr>)
      (s\<lparr>pools := pl\<rparr>)) = s1"
    by (simp add: s1_def upd_def n_def)
  have "plen (pbufs s1 p) = n" "payload (pbufs s1 p) = p + SIZEOF_STRUCT_PBUF + off" "n + (len - n) = len"
    by (simp_all add: s1_def n_def)
  moreover from this have "pbuf_alloc layer len PBUF_POOL s =
      (if dn then Inr (p, upd p (\<lambda>b. b\<lparr>ref := 1, pflags := 0\<rparr>) s2) else Inr (0, s2))"
    unfolding pbuf_alloc_def off_def [symmetric] Let_def pbuf_type.case some(1) rbind_Inr prod.case eq
    using some(3) t off by (simp add: n_def del: alloc_tail.simps)
  moreover have "pool_room sl (pools s) < len + off" if "pool_room sl (pools s1) < len - n"
    using pool_room_get [OF some(5,4,6)] that off by (simp add: s1_def n_def min_def split: if_splits)
  ultimately show ?thesis using c unfolding off_def by (intro exI [of _ dn] exI [of _ s2]) auto
qed

text \<open>The contract of a pool allocation.\<close>

definition pool_packet :: "(memp_t \<Rightarrow> nat list) \<Rightarrow> pbuf_layer \<Rightarrow> nat \<Rightarrow> pb_state \<Rightarrow> nat \<Rightarrow> pb_state \<Rightarrow> nat list \<Rightarrow> bool" where
  "pool_packet sl layer len s p s' ps \<longleftrightarrow> packet s' p ps \<and> length (content s' ps) = len \<and> mem_ok sl s' \<and>
     payload (pbufs s' p) = p + SIZEOF_STRUCT_PBUF + layer_offset layer \<and>
     taken sl (pools s') = (taken sl (pools s))(MEMP_PBUF_POOL := taken sl (pools s) MEMP_PBUF_POOL \<union> set ps) \<and>
     (\<forall>q \<in> set ps. owned sl s' q \<and> ref (pbufs s' q) = 1 \<and> q \<notin> taken sl (pools s) MEMP_PBUF_POOL \<and>
        q + SIZEOF_STRUCT_PBUF \<le> payload (pbufs s' q) \<and>
        payload (pbufs s' q) + plen (pbufs s' q) \<le> q + SIZEOF_STRUCT_PBUF + PBUF_POOL_BUFSIZE)"

lemma alloc_pool_cases:
  assumes ok: "mem_ok sl s" and mb: "mbox_ready s" and len: "len < 65536"
    and flags: "\<forall>q \<in> set (sl MEMP_PBUF_POOL). \<not> is_custom (pbufs s q)"
  obtains (none) s' where "pbuf_alloc layer len PBUF_POOL s = Inr (0, s')" "alloc_undone sl s s'"
      "pool_room sl (pools s) = 0 \<or> pool_room sl (pools s) < len + layer_offset layer"
  | (some) p s' ps where "pbuf_alloc layer len PBUF_POOL s = Inr (p, s')" "p \<noteq> 0" "pool_packet sl layer len s p s' ps"
      "bytes s' = bytes s" "heap s' = heap s" "tcpip_mbox s' = tcpip_mbox s" "\<forall>q. q \<notin> set ps \<longrightarrow> pbufs s' q = pbufs s q"
proof -
  have m: "memp_ok sl (pools s)" using ok by (simp add: mem_ok_def)
  have MP: "MEMP_PBUF_POOL \<noteq> MEMP_MAX" by simp
  from m MP show thesis
  proof (cases rule: memp.get_cases)
    case none
    obtain s1 where s1: "pbuf_pool_is_empty s = Inr s1" "mem_ok sl s1" "same_pbufs sl s s1"
      using pbuf_pool_is_empty_safe [OF ok mb] by blast
    moreover have "pool_room sl (pools s) = 0" using none(2) by (simp add: pool_room_def del: memp_num.simps)
    ultimately show thesis using none(1) that(1) [of s1] by (simp add: pbuf_alloc_def alloc_undone_def same_pbufs_def)
  next
    case (some p pl)
    obtain dn s2 where step: "pbuf_alloc layer len PBUF_POOL s =
        (if dn then Inr (p, upd p (\<lambda>b. b\<lparr>ref := 1, pflags := 0\<rparr>) s2) else Inr (0, s2))"
      and c: "if dn then \<exists>ps. building sl s s2 ps 0 \<and> hd ps = p \<and> payload (pbufs s2 p) = p + SIZEOF_STRUCT_PBUF + layer_offset layer \<and>
        length (content s2 ps) = len else alloc_undone sl s s2 \<and> pool_room sl (pools s) < len + layer_offset layer"
      using alloc_pool_first [OF ok mb len flags some(1-6)] by blast
    show thesis
    proof (cases dn)
      case False
      then show thesis using step c that(1) by simp
    next
      case True
      then obtain ps where b: "building sl s s2 ps 0" "hd ps = p" "payload (pbufs s2 p) = p + SIZEOF_STRUCT_PBUF + layer_offset layer"
        "length (content s2 ps) = len" using c by auto
      define s3 where "s3 = upd p (\<lambda>b. b\<lparr>ref := 1, pflags := 0\<rparr>) s2"
      have l: "length (content s2 ps) < 65536" using b(4) len by simp
      note pk = building_packet [OF b(1) l refl, unfolded b(2), folded s3_def]
      have "pool_packet sl layer len s p s3 ps"
        unfolding pool_packet_def using pk b by (auto simp: building_def mem_ok_def s3_def)
      moreover have "p \<in> set ps" using b(1,2) by (auto simp: building_def)
      then have "bytes s3 = bytes s" "heap s3 = heap s" "tcpip_mbox s3 = tcpip_mbox s" "\<forall>q. q \<notin> set ps \<longrightarrow> pbufs s3 q = pbufs s q"
        using b(1) by (auto simp: building_def s3_def)
      ultimately show thesis using that(2) [of p s3 ps] True step some(3) by (simp add: s3_def)
    qed
  qed
qed

section \<open>Properties\<close>

text \<open>
  C25. \<open>pbuf_alloc\<close> of a \<^verbatim>\<open>PBUF_POOL\<close> packet always returns. Either it yields a packet of exactly the
  requested length, made of pool elements that were free before, each referenced once, with every
  payload inside its element and the first one leaving room for the headers of the layer; or it
  returns NULL, which it does only if the free elements cannot hold the packet, and then every
  element it had taken has been given back. (That the stale
  \<^verbatim>\<open>flags\<close> of free elements carry no custom mark is needed for the latter: \<^verbatim>\<open>p->flags\<close> is read
  before it is set.)
\<close>

theorem pbuf_alloc_pool_correct:
  assumes ok: "mem_ok sl s" and mb: "mbox_ready s" and len: "len < 65536"
    and flags: "\<forall>q \<in> set (sl MEMP_PBUF_POOL). \<not> is_custom (pbufs s q)"
  shows "\<exists>p s'. pbuf_alloc layer len PBUF_POOL s = Inr (p, s') \<and>
    (if p = 0 then alloc_undone sl s s' \<and> (pool_room sl (pools s) = 0 \<or> pool_room sl (pools s) < len + layer_offset layer)
     else \<exists>ps. packet s' p ps \<and> length (content s' ps) = len \<and> mem_ok sl s' \<and>
       payload (pbufs s' p) = p + SIZEOF_STRUCT_PBUF + layer_offset layer \<and>
       taken sl (pools s') = (taken sl (pools s))(MEMP_PBUF_POOL := taken sl (pools s) MEMP_PBUF_POOL \<union> set ps) \<and>
       (\<forall>q \<in> set ps. owned sl s' q \<and> ref (pbufs s' q) = 1 \<and> q \<notin> taken sl (pools s) MEMP_PBUF_POOL \<and>
          q + SIZEOF_STRUCT_PBUF \<le> payload (pbufs s' q) \<and>
          payload (pbufs s' q) + plen (pbufs s' q) \<le> q + SIZEOF_STRUCT_PBUF + PBUF_POOL_BUFSIZE))"
  using assms
proof (cases rule: alloc_pool_cases [where layer = layer])
  case (none s')
  then show ?thesis by simp
next
  case (some p s' ps)
  then show ?thesis unfolding pool_packet_def by (intro exI [of _ p] exI [of _ s']) auto
qed

text \<open>
  C24. \<open>pbuf_free\<close> gives back exactly the pbufs at the head of the chain that have no reference left,
  each to the heap or pool its type says, and returns their number (modulo 256); the first pbuf
  that is referenced from elsewhere loses one reference, and everything behind it is untouched.
\<close>

theorem pbuf_free_correct:
  assumes "mem_ok sl s" "chain s p (us @ vs)" "us @ vs \<noteq> []" "length us < PBUF_MAX"
    "\<forall>q \<in> set us. owned sl s q \<and> ref (pbufs s q) = 1" "vs = [] \<or> 1 < ref (pbufs s (hd vs))"
  shows "\<exists>h pl. pbuf_free p s =
      Inr (length us mod 256, s\<lparr>heap := h, pools := pl, pbufs := free_effect us vs s\<rparr>) \<and>
    mem_ok sl (s\<lparr>heap := h, pools := pl\<rparr>) \<and> live h = heap_minus s us \<and> taken sl pl = pool_minus sl s us"
proof -
  have "p \<noteq> 0" using assms(2,3) by (cases "us @ vs") auto
  with free_loop_chain [OF assms(1,2,4) _ assms(5,6), of 0] show ?thesis by (simp add: pbuf_free_def)
qed

definition ram_pbuf :: "pbuf_layer \<Rightarrow> nat \<Rightarrow> nat \<Rightarrow> mem_heap \<Rightarrow> pb_state \<Rightarrow> pb_state" where
  "ram_pbuf layer len p h s = s\<lparr>heap := h, pbufs := (pbufs s)(p := (pbufs s p)\<lparr>
      payload := p + SIZEOF_STRUCT_PBUF + layer_offset layer, plen := len, tot_len := len, pnext := 0,
      ptype := PBUF_RAM, ref := 1, pflags := 0\<rparr>)\<rparr>"

lemma pbuf_alloc_ram_eq:
  "mem_malloc (u16_of (int (SIZEOF_STRUCT_PBUF + layer_offset layer + len))) (heap s) = Inr (p, h) \<Longrightarrow> p \<noteq> 0 \<Longrightarrow>
     pbuf_alloc layer len PBUF_RAM s = Inr (p, ram_pbuf layer len p h s)"
  by (simp add: pbuf_alloc_def upd_def ram_pbuf_def Let_def)

lemma ram_pbuf_fields [simp]:
  "heap (ram_pbuf layer len p h s) = h" "pools (ram_pbuf layer len p h s) = pools s"
  "pbufs (ram_pbuf layer len p h s) p = \<lparr>pnext = 0, payload = p + SIZEOF_STRUCT_PBUF + layer_offset layer,
     tot_len = len, plen = len, ptype = PBUF_RAM, pflags = 0, ref = 1\<rparr>"
  by (simp_all add: ram_pbuf_def)

text \<open>
  \<open>pbuf_alloc\<close> of a \<^verbatim>\<open>PBUF_RAM\<close> packet returns NULL and changes no allocation, or a one-pbuf packet of
  the requested length in a new heap block. The payload lies inside that block as long as
  struct, headers and data together stay below 65536 bytes; from there on the size handed to
  \<open>mem_malloc\<close> is truncated and the payload reaches beyond the block.
\<close>

theorem pbuf_alloc_ram_correct:
  assumes ok: "mem_ok sl s" and len: "len < 65536"
  shows "\<exists>p s'. pbuf_alloc layer len PBUF_RAM s = Inr (p, s') \<and> mem_ok sl s' \<and> pools s' = pools s \<and>
    (if p = 0 then heap s' = heap s \<and> pbufs s' = pbufs s
     else packet s' p [p] \<and> length (content s' [p]) = len \<and> owned sl s' p \<and> ref (pbufs s' p) = 1 \<and>
       payload (pbufs s' p) = p + SIZEOF_STRUCT_PBUF + layer_offset layer \<and>
       (\<exists>e. live (heap s') = insert (p, e) (live (heap s)) \<and> (\<forall>(q, f) \<in> live (heap s). e < q \<or> f < p) \<and>
         (payload (pbufs s' p) + len \<le> e \<longleftrightarrow> SIZEOF_STRUCT_PBUF + layer_offset layer + len < 65536)))"
proof -
  let ?sz = "SIZEOF_STRUCT_PBUF + layer_offset layer + len"
  have h: "heap_ok (heap s)" using ok by (simp add: mem_ok_def)
  obtain p h' where m: "mem_malloc (u16_of (int ?sz)) (heap s) = Inr (p, h')" "heap_ok h'"
    "p = 0 \<longrightarrow> h' = heap s" using heap.malloc_law [OF h] by blast
  show ?thesis
  proof (cases "p = 0")
    case True
    then have "pbuf_alloc layer len PBUF_RAM s = Inr (0, s)" using m by (simp add: pbuf_alloc_def)
    then show ?thesis using True ok by simp
  next
    case False
    obtain e where e: "p + u16_of (int ?sz) \<le> e" "live h' = insert (p, e) (live (heap s))"
      "\<forall>(q, f) \<in> live (heap s). e < q \<or> f < p" using heap.malloc_fresh [OF h m(1) False] by blast
    define s' where "s' = ram_pbuf layer len p h' s"
    have r: "pbuf_alloc layer len PBUF_RAM s = Inr (p, s')"
      unfolding s'_def using m(1) False by (rule pbuf_alloc_ram_eq)
    have b: "p < e" "ram h' + SIZEOF_STRUCT_MEM \<le> p" "e \<le> ram h' + MEM_SIZE"
      using live_bounds [OF m(2), of p e] e(2) by auto
    have fit: "p + ?sz \<le> e \<longleftrightarrow> ?sz < 65536"
    proof
      assume "?sz < 65536"
      then show "p + ?sz \<le> e" using e(1) u16_of_small [of ?sz] by simp
    next
      assume "p + ?sz \<le> e"
      then show "?sz < 65536" using b by linarith
    qed
    have "packet s' p [p]" "length (content s' [p]) = len" "owned sl s' p" "mem_ok sl s'"
      using ok m(2) e(2) False len by (auto simp: packet_def s'_def owned_def pool_of_def is_custom_def mem_ok_def)
    moreover have "payload (pbufs s' p) + len \<le> e \<longleftrightarrow> ?sz < 65536"
      using fit by (simp add: s'_def algebra_simps)
    ultimately show ?thesis
      unfolding r using False e by (intro exI [of _ p] exI [of _ s']) (auto simp: s'_def)
  qed
qed

section \<open>Chaining\<close>

lemma cat_loop_spec:
  assumes "chain s p ps" "ps \<noteq> []" "length ps < fuel" "t \<notin> set ps"
  shows "cat_loop fuel p t s = Inr (last ps, s\<lparr>pbufs := (\<lambda>q. if q \<in> set (butlast ps)
    then (pbufs s q)\<lparr>tot_len := u16_of (int (tot_len (pbufs s q)) + int (tot_len (pbufs s t)))\<rparr> else pbufs s q)\<rparr>)"
  using assms
proof (induction ps arbitrary: p fuel s)
  case (Cons q qs)
  then obtain f where f: "fuel = Suc f" "length qs < f" by (cases fuel) auto
  from Cons.prems have c: "p = q" "q \<noteq> 0" "chain s (pnext (pbufs s q)) qs" "q \<noteq> t" "t \<notin> set qs" by auto
  have dist: "distinct (q # qs)" using chain_distinct [OF Cons.prems(1)] .
  show ?case
  proof (cases qs)
    case Nil
    then show ?thesis using c f by simp
  next
    case (Cons r rs)
    then have n: "pnext (pbufs s q) \<noteq> 0" using c(3) by simp
    let ?s = "upd q (\<lambda>b. b\<lparr>tot_len := u16_of (int (tot_len b) + int (tot_len (pbufs s t)))\<rparr>) s"
    have ch: "chain ?s (pnext (pbufs s q)) qs" using c(3) dist by (subst chain_cong [of _ _ s]) auto
    have tt: "tot_len (pbufs ?s t) = tot_len (pbufs s t)" using c(4) by simp
    have ne: "qs \<noteq> []" using Cons by simp
    have step: "cat_loop fuel p t s = cat_loop f (pnext (pbufs s q)) t ?s" using c n f by (simp add: Let_def)
    have "q \<notin> set (butlast qs)" using dist by (auto dest: in_set_butlastD)
    then have "(\<lambda>x. if x \<in> set (butlast qs)
        then (pbufs ?s x)\<lparr>tot_len := u16_of (int (tot_len (pbufs ?s x)) + int (tot_len (pbufs ?s t)))\<rparr> else pbufs ?s x) =
      (\<lambda>x. if x \<in> set (butlast (q # qs))
        then (pbufs s x)\<lparr>tot_len := u16_of (int (tot_len (pbufs s x)) + int (tot_len (pbufs s t)))\<rparr> else pbufs s x)"
      unfolding tt using ne by (intro ext) auto
    then show ?thesis
      unfolding step Cons.IH [OF ch ne f(2) c(5)] using ne by (simp add: upd_def)
  qed
qed simp

lemma tot_ok_append:
  assumes "tot_ok s hs" "tot_ok s ts" "\<forall>x \<in> set (hs @ ts). pbuf_data s' x = pbuf_data s x"
    "\<forall>x \<in> set hs. tot_len (pbufs s' x) = tot_len (pbufs s x) + length (content s ts)"
    "\<forall>x \<in> set ts. tot_len (pbufs s' x) = tot_len (pbufs s x)"
  shows "tot_ok s' (hs @ ts)"
  using assms
proof (induction hs)
  case Nil
  then show ?case
  proof (induction ts)
    case (Cons x ts)
    moreover have "content s' ts = content s ts" using Cons.prems(3) by (intro content_cong) auto
    moreover have "plen (pbufs s' x) = plen (pbufs s x)"
      using Cons.prems(3) pbuf_data_length [of s' x] pbuf_data_length [of s x] by simp
    ultimately show ?case by auto
  qed simp
next
  case (Cons x hs)
  moreover have "content s' (hs @ ts) = content s (hs @ ts)" using Cons.prems(3) by (intro content_cong) auto
  moreover have "plen (pbufs s' x) = plen (pbufs s x)"
    using Cons.prems(3) pbuf_data_length [of s' x] pbuf_data_length [of s x] by simp
  ultimately show ?case by auto
qed

lemma linked_join:
  assumes "linked nx h hs" "hs \<noteq> []" "linked nx t ts" "last hs \<notin> set ts"
  shows "linked (nx(last hs := t)) h (hs @ ts)"
  using assms
proof (induction hs arbitrary: h)
  case (Cons x hs)
  show ?case
  proof (cases hs)
    case Nil
    have x: "h = x" "x \<noteq> 0" "x \<notin> set ts" using Cons.prems Nil by auto
    have "linked (nx(x := t)) t ts = linked nx t ts" using x(3) by (intro linked_cong) auto
    then show ?thesis using Cons.prems(3) x by (simp add: Nil del: fun_upd_apply) (simp add: fun_upd_def)
  next
    case (Cons y ys)
    have "x \<noteq> last hs" using linked_distinct [OF Cons.prems(1)] Cons by auto
    then show ?thesis using Cons.IH [of "nx x"] Cons.prems Cons by auto
  qed
qed simp

lemma tot_ok_hd: "tot_ok s ps \<Longrightarrow> q \<in> set ps \<Longrightarrow> tot_len (pbufs s q) \<le> length (content s ps)"
  by (induction ps) auto

lemma tot_ok_last: "tot_ok s ps \<Longrightarrow> ps \<noteq> [] \<Longrightarrow> tot_len (pbufs s (last ps)) = plen (pbufs s (last ps))"
  by (induction ps) auto

lemma chain_last: "chain s p ps \<Longrightarrow> ps \<noteq> [] \<Longrightarrow> pnext (pbufs s (last ps)) = 0"
  by (induction ps arbitrary: p) auto

text \<open>
  \<open>pbuf_cat\<close> of two packets that share no pbuf makes one packet whose data is the data of the
  first followed by that of the second, changing no reference count, as long as the joint length
  fits in 16 bits; otherwise the total length recorded in the first pbuf has wrapped around.
\<close>

theorem pbuf_cat_correct:
  assumes hp: "packet s h hs" and tp: "packet s t ts" and disj: "set hs \<inter> set ts = {}"
    and len: "length (hs @ ts) < PBUF_MAX"
  shows "\<exists>s'. pbuf_cat h t s = Inr s' \<and> chain s' h (hs @ ts) \<and>
    content s' (hs @ ts) = content s hs @ content s ts \<and> (\<forall>q. ref (pbufs s' q) = ref (pbufs s q)) \<and>
    tot_len (pbufs s' h) = (length (content s hs) + length (content s ts)) mod 65536 \<and>
    (length (content s hs) + length (content s ts) < 65536 \<longrightarrow> packet s' h (hs @ ts))"
proof -
  let ?T = "length (content s ts)"
  have h: "chain s h hs" "hs \<noteq> []" "tot_ok s hs" "h \<noteq> 0" "h = hd hs" using hp by (cases hs; auto simp: packet_def)+
  have t: "chain s t ts" "ts \<noteq> []" "tot_ok s ts" "t \<noteq> 0" "t \<in> set ts" "tot_len (pbufs s t) = ?T"
    using tp by (cases ts; auto simp: packet_def)+
  have tn: "t \<notin> set hs" using t(5) disj by auto
  define add where "add = (\<lambda>b :: pbuf. b\<lparr>tot_len := u16_of (int (tot_len b) + int ?T)\<rparr>)"
  define s' where "s' = s\<lparr>pbufs := (\<lambda>q. if q = last hs then (add (pbufs s q))\<lparr>pnext := t\<rparr>
    else if q \<in> set hs then add (pbufs s q) else pbufs s q)\<rparr>"
  have loop: "cat_loop PBUF_MAX h t s = Inr (last hs, s\<lparr>pbufs := (\<lambda>q. if q \<in> set (butlast hs) then add (pbufs s q) else pbufs s q)\<rparr>)"
    using cat_loop_spec [OF h(1,2) _ tn, of PBUF_MAX] len unfolding t(6) add_def by simp
  have bl: "last hs \<notin> set (butlast hs)" "\<And>q. q \<in> set hs \<longleftrightarrow> q \<in> set (butlast hs) \<or> q = last hs"
    using chain_distinct [OF h(1)] h(2) append_butlast_last_id [OF h(2)]
    by (metis distinct_append disjoint_insert(1) list.set(2), metis Un_iff append_butlast_last_id empty_iff h(2) insert_iff list.set set_append)
  have r: "pbuf_cat h t s = Inr s'"
    using loop h t tn bl tot_ok_last [OF h(3,2)] chain_last [OF h(1,2)]
    by (auto simp: pbuf_cat_def upd_def s'_def add_def fun_eq_iff intro!: pb_state.equality)
  have data: "pbuf_data s' x = pbuf_data s x" "ref (pbufs s' x) = ref (pbufs s x)" for x
    by (simp_all add: s'_def pbuf_data_def add_def)
  have cont: "content s' xs = content s xs" for xs using data by (intro content_cong) auto
  have ln: "last hs \<in> set hs" "last hs \<notin> set ts" using last_in_set [OF h(2)] disj by auto
  have ch: "chain s' h (hs @ ts)"
  proof -
    have "(\<lambda>q. pnext (pbufs s' q)) = (\<lambda>q. pnext (pbufs s q))(last hs := t)"
      by (auto simp: s'_def add_def fun_eq_iff)
    then show ?thesis using linked_join [OF _ h(2) _ ln(2)] h(1) t(1) by (simp add: chain_def)
  qed
  have tl: "tot_len (pbufs s' x) = u16_of (int (tot_len (pbufs s x)) + int ?T)" if "x \<in> set hs" for x
    using that by (simp add: s'_def add_def)
  have tl2: "tot_len (pbufs s' x) = tot_len (pbufs s x)" if "x \<in> set ts" for x
    using that disj ln by (auto simp: s'_def)
  have hh: "tot_len (pbufs s h) = length (content s hs)" "h \<in> set hs" using h by (cases hs; auto)+
  have mod: "tot_len (pbufs s' h) = (length (content s hs) + ?T) mod 65536"
    using tl [OF hh(2)] hh(1) by (simp add: u16_of_def nat_mod_distrib nat_add_distrib)
  have "packet s' h (hs @ ts)" if small: "length (content s hs) + ?T < 65536"
  proof -
    have "tot_len (pbufs s' x) = tot_len (pbufs s x) + ?T" if "x \<in> set hs" for x
      using tl [OF that] tot_ok_hd [OF h(3) that] small u16_of_small [of "tot_len (pbufs s x) + ?T"] by simp
    then have "tot_ok s' (hs @ ts)" using tl2 data by (intro tot_ok_append [OF h(3) t(3)]) auto
    then show ?thesis using ch h(2) len small by (simp add: packet_def cont)
  qed
  then show ?thesis using r ch cont data mod by simp
qed

section \<open>Hiding and revealing headers\<close>

text \<open>
  Hiding the first \<open>n\<close> bytes of a packet with \<open>pbuf_header\<close> drops exactly them from its data;
  revealing them again restores the very same state for pbufs that own their payload and is
  refused without any effect for \<^verbatim>\<open>PBUF_ROM\<close> and \<^verbatim>\<open>PBUF_REF\<close>. A header that does not fit
  between the struct and the payload is refused without any effect, and hiding more than the first
  pbuf holds stops the process.
\<close>

theorem pbuf_header_correct:
  assumes p: "packet s p (p # ps)" and n: "0 < n" "n < 32768"
    and own: "ptype (pbufs s p) \<in> {PBUF_RAM, PBUF_POOL} \<longrightarrow> p + SIZEOF_STRUCT_PBUF \<le> payload (pbufs s p)"
  shows "(if n \<le> plen (pbufs s p) then
       \<exists>s1. pbuf_header p (- int n) s = Inr (False, s1) \<and> packet s1 p (p # ps) \<and>
         content s1 (p # ps) = drop n (content s (p # ps)) \<and>
         pbuf_header p (int n) s1 =
           (if ptype (pbufs s p) \<in> {PBUF_RAM, PBUF_POOL} then Inr (False, s) else Inr (True, s1))
     else pbuf_header p (- int n) s = Inl Abort) \<and>
    (ptype (pbufs s p) \<in> {PBUF_RAM, PBUF_POOL} \<longrightarrow> payload (pbufs s p) < p + SIZEOF_STRUCT_PBUF + n \<longrightarrow>
       pbuf_header p (int n) s = Inr (True, s))"
proof -
  have p0: "p \<noteq> 0" "tot_len (pbufs s p) = plen (pbufs s p) + length (content s ps)"
    "plen (pbufs s p) + length (content s ps) < 65536" using p by (auto simp: packet_def)
  have pn: "p \<notin> set ps" using chain_distinct [of s p "p # ps"] p by (simp add: packet_def)
  have u: "u16_of (int n) = n" using n by (intro u16_of_small) simp
  have conj2: "pbuf_header p (int n) s = Inr (True, s)"
    if "ptype (pbufs s p) \<in> {PBUF_RAM, PBUF_POOL}" "payload (pbufs s p) < p + SIZEOF_STRUCT_PBUF + n"
    using that p0(1) n by (auto simp: pbuf_header_def Let_def)
  show ?thesis
  proof (cases "n \<le> plen (pbufs s p)")
    case False
    then show ?thesis using conj2 p0(1) n u by (simp add: pbuf_header_def)
  next
    case True
    let ?b = "pbufs s p"
    define s1 where "s1 = upd p (\<lambda>b. b\<lparr>payload := payload b + n, plen := plen b - n, tot_len := tot_len b - n\<rparr>) s"
    have e1: "nat (int (payload ?b) + int n) = payload ?b + n" by simp
    have e2: "u16_of (int (plen ?b) - int n) = plen ?b - n" "u16_of (int (tot_len ?b) - int n) = tot_len ?b - n"
      using True p0 u16_of_small [of "plen ?b - n"] u16_of_small [of "tot_len ?b - n"] by (simp_all add: of_nat_diff)
    have r1: "pbuf_header p (- int n) s = Inr (False, s1)"
      using p0(1) n u True own e1 e2
      by (cases "ptype ?b") (auto simp: pbuf_header_def Let_def s1_def upd_def)
    have d: "pbuf_data s1 p = drop n (pbuf_data s p)" "content s1 ps = content s ps"
      using pn by (auto simp: s1_def pbuf_data_def drop_read_bytes intro!: content_cong)
    have "tot_ok s1 ps"
    proof -
      have "tot_ok s ps" using p by (simp add: packet_def)
      then show ?thesis using tot_ok_append [of s "[]" ps s1] pn by (auto simp: s1_def pbuf_data_def)
    qed
    moreover have "chain s1 p (p # ps)" using p pn by (subst chain_cong [of _ _ s]) (auto simp: packet_def s1_def)
    ultimately have "packet s1 p (p # ps)" "content s1 (p # ps) = drop n (content s (p # ps))"
      using p d True p0 by (auto simp: packet_def s1_def)
    moreover have "pbuf_header p (int n) s1 = (if ptype ?b \<in> {PBUF_RAM, PBUF_POOL} then Inr (False, s) else Inr (True, s1))"
      using p0 n True own u16_of_small [of "plen ?b"] u16_of_small [of "tot_len ?b"]
      by (cases "ptype ?b") (auto simp: pbuf_header_def Let_def s1_def upd_def of_nat_diff intro!: pb_state.equality)
    ultimately show ?thesis using r1 conj2 True by simp
  qed
qed

section \<open>Shrinking a packet\<close>

lemma u16_shrink:
  assumes "g \<le> n" "0 < g" "n < 65536"
  shows "u16_of (int n + int (u16_of (- int g))) = n - g"
proof -
  have "(- int g) mod 65536 = 65536 - int g" using assms by (simp add: zmod_zminus1_eq_if)
  then have w: "int (u16_of (- int g)) = 65536 - int g" unfolding u16_of_def using assms by simp
  have "int n + (65536 - int g) = int (n - g) + 65536" using assms by (simp add: of_nat_diff)
  moreover have "(int (n - g) + 65536) mod 65536 = int (n - g)" using assms by (subst mod_add_self2) simp
  ultimately show ?thesis unfolding w unfolding u16_of_def by (metis nat_int)
qed

lemma realloc_skip_spec:
  assumes "chain s p ps" "tot_ok s ps" "ps \<noteq> []" "length ps < fuel" "length (content s ps) = rem + g" "0 < g"
    "length (content s ps) < 65536"
  shows "\<exists>us q vs. ps = us @ q # vs \<and> length (content s us) \<le> rem \<and> rem - length (content s us) \<le> plen (pbufs s q) \<and>
    realloc_skip fuel p rem (- int g) s = Inr (q, rem - length (content s us),
      s\<lparr>pbufs := (\<lambda>x. if x \<in> set us then (pbufs s x)\<lparr>tot_len := tot_len (pbufs s x) - g\<rparr> else pbufs s x)\<rparr>)"
  using assms
proof (induction ps arbitrary: p fuel rem s)
  case (Cons q qs)
  then obtain f where f: "fuel = Suc f" "length qs < f" by (cases fuel) auto
  from Cons.prems have c: "p = q" "q \<noteq> 0" "chain s (pnext (pbufs s q)) qs" "tot_ok s qs"
    "tot_len (pbufs s q) = length (content s (q # qs))" by auto
  have dist: "distinct (q # qs)" using chain_distinct [OF Cons.prems(1)] .
  show ?case
  proof (cases "plen (pbufs s q) < rem")
    case False
    then have "q # qs = [] @ q # qs \<and> length (content s []) \<le> rem \<and> rem - length (content s []) \<le> plen (pbufs s q) \<and>
      realloc_skip fuel p rem (- int g) s = Inr (q, rem - length (content s []),
      s\<lparr>pbufs := (\<lambda>x. if x \<in> set [] then (pbufs s x)\<lparr>tot_len := tot_len (pbufs s x) - g\<rparr> else pbufs s x)\<rparr>)"
      using c f by simp
    then show ?thesis by blast
  next
    case True
    let ?r = "rem - plen (pbufs s q)"
    let ?s = "upd q (\<lambda>b. b\<lparr>tot_len := tot_len b - g\<rparr>) s"
    have len: "length (content s qs) = ?r + g" using Cons.prems(5) True by simp
    then have ne: "qs \<noteq> []" using Cons.prems(6) by auto
    then have nz: "pnext (pbufs s q) \<noteq> 0" using c(3) by (cases qs) auto
    have u: "u16_of (int (tot_len (pbufs s q)) + int (u16_of (- int g))) = tot_len (pbufs s q) - g"
      using c(5) Cons.prems(5-7) by (intro u16_shrink) auto
    have step: "realloc_skip fuel p rem (- int g) s = realloc_skip f (pnext (pbufs s q)) ?r (- int g) ?s"
      using True f c nz u by (simp add: Let_def upd_def)
    have data: "pbuf_data ?s x = pbuf_data s x" for x by (simp add: pbuf_data_def)
    have cont: "content ?s xs = content s xs" for xs using data by (intro content_cong) auto
    have ch: "chain ?s (pnext (pbufs s q)) qs" using c(3) by (subst chain_cong [of _ _ s]) auto
    have tk: "tot_ok ?s qs" using tot_ok_append [of s "[]" qs ?s] c(4) dist data by auto
    obtain us r vs where ih: "qs = us @ r # vs" "length (content s us) \<le> ?r" "?r - length (content s us) \<le> plen (pbufs ?s r)"
      "realloc_skip f (pnext (pbufs s q)) ?r (- int g) ?s = Inr (r, ?r - length (content s us),
      ?s\<lparr>pbufs := (\<lambda>x. if x \<in> set us then (pbufs ?s x)\<lparr>tot_len := tot_len (pbufs ?s x) - g\<rparr> else pbufs ?s x)\<rparr>)"
      using Cons.IH [OF ch tk ne f(2)] len Cons.prems(6,7) unfolding cont by auto
    have "(\<lambda>x. if x \<in> set us then (pbufs ?s x)\<lparr>tot_len := tot_len (pbufs ?s x) - g\<rparr> else pbufs ?s x) =
        (\<lambda>x. if x \<in> set (q # us) then (pbufs s x)\<lparr>tot_len := tot_len (pbufs s x) - g\<rparr> else pbufs s x)"
      using dist ih(1) by (intro ext) auto
    then have "q # qs = (q # us) @ r # vs \<and> length (content s (q # us)) \<le> rem \<and>
        rem - length (content s (q # us)) \<le> plen (pbufs s r) \<and>
        realloc_skip fuel p rem (- int g) s = Inr (r, rem - length (content s (q # us)),
      s\<lparr>pbufs := (\<lambda>x. if x \<in> set (q # us) then (pbufs s x)\<lparr>tot_len := tot_len (pbufs s x) - g\<rparr> else pbufs s x)\<rparr>)"
      using ih dist True unfolding step by (auto simp: upd_def)
    then show ?thesis by blast
  qed
qed simp

text \<open>Every pbuf of the packet has its memory and is referenced once; heap pbufs keep their payload in their block.\<close>

definition solid :: "(memp_t \<Rightarrow> nat list) \<Rightarrow> pb_state \<Rightarrow> nat list \<Rightarrow> bool" where
  "solid sl s ps \<longleftrightarrow> (\<forall>q \<in> set ps. owned sl s q \<and> ref (pbufs s q) = 1 \<and>
     (ptype (pbufs s q) = PBUF_RAM \<longrightarrow>
       (\<exists>e. (q, e) \<in> live (heap s) \<and> q \<le> payload (pbufs s q) \<and> payload (pbufs s q) + plen (pbufs s q) \<le> e)))"

lemma realloc_trim:
  assumes ok: "mem_ok sl s" and e: "(q, e) \<in> live (heap s)" and b: "q \<le> a" "a + n \<le> e"
  obtains h e' where "mem_trim q (u16_of (int (u16_of (int a - int q)) + int n)) (heap s) = Inr (q, h)"
    "heap_ok h" "a + n \<le> e'" "live h = insert (q, e') (live (heap s) - {(q, e)})" "q \<noteq> 0"
proof -
  have h: "heap_ok (heap s)" using ok by (simp add: mem_ok_def)
  have "e \<le> q + MEM_SIZE" "q \<noteq> 0" using live_bounds [OF h e] by auto
  then have u: "u16_of (int a - int q) = a - q" "u16_of (int (a - q) + int n) = a - q + n"
    using b u16_of_small [of "a - q"] u16_of_small [of "a - q + n"] by (simp_all add: of_nat_diff algebra_simps)
  obtain h' e' where "mem_trim q (a - q + n) (heap s) = Inr (q, h')" "heap_ok h'" "q + (a - q + n) \<le> e'"
    "live h' = insert (q, e') (live (heap s) - {(q, e)})"
    using heap.trim_law [OF h e, of "a - q + n"] b by auto
  then show thesis using that u b \<open>q \<noteq> 0\<close> by auto
qed

text \<open>Only the fields that \<open>owned\<close> and \<open>solid\<close> look at matter, and only blocks of the pbuf itself.\<close>

lemma realloc_last_spec:
  assumes ok: "mem_ok sl s" and ch: "chain s q (q # vs)" and n: "n \<le> plen (pbufs s q)"
    and solid: "solid sl s (q # vs)" and len: "length vs < PBUF_MAX"
  shows "\<exists>s'. realloc_last q n s = Inr s' \<and> mem_ok sl s' \<and> bytes s' = bytes s \<and>
    pbufs s' q = (pbufs s q)\<lparr>plen := n, tot_len := n, pnext := 0\<rparr> \<and>
    (\<forall>x. x \<notin> set (q # vs) \<longrightarrow> pbufs s' x = pbufs s x) \<and> taken sl (pools s') = pool_minus sl s vs \<and>
    (\<forall>x e. x \<noteq> q \<longrightarrow> ((x, e) \<in> live (heap s') \<longleftrightarrow> (x, e) \<in> heap_minus s vs)) \<and>
    (ptype (pbufs s q) = PBUF_RAM \<longrightarrow>
      (\<exists>e. (q, e) \<in> live (heap s') \<and> q \<le> payload (pbufs s q) \<and> payload (pbufs s q) + n \<le> e)) \<and>
    (ptype (pbufs s q) \<noteq> PBUF_RAM \<longrightarrow> live (heap s') = heap_minus s vs)"
proof -
  have q0: "q \<noteq> 0" "chain s (pnext (pbufs s q)) vs" "q \<notin> set vs" using ch chain_distinct [OF ch] by auto
  obtain h where trim: "(if ptype (pbufs s q) = PBUF_RAM \<and> n \<noteq> plen (pbufs s q) then
          rbind (mem_trim q (u16_of (int (u16_of (int (payload (pbufs s q)) - int q)) + int n)) (heap s))
            (\<lambda>(q', h). if q' = 0 then Inl Abort else Inr (q', s\<lparr>heap := h\<rparr>))
        else Inr (q, s)) = Inr (q, s\<lparr>heap := h\<rparr>)" and h: "heap_ok h"
    and other: "\<forall>x e. x \<noteq> q \<longrightarrow> ((x, e) \<in> live h \<longleftrightarrow> (x, e) \<in> live (heap s))"
    and own: "ptype (pbufs s q) = PBUF_RAM \<longrightarrow>
      (\<exists>e. (q, e) \<in> live h \<and> q \<le> payload (pbufs s q) \<and> payload (pbufs s q) + n \<le> e)"
    and noram: "ptype (pbufs s q) \<noteq> PBUF_RAM \<longrightarrow> h = heap s"
  proof (cases "ptype (pbufs s q) = PBUF_RAM")
    case True
    then obtain e where e: "(q, e) \<in> live (heap s)" "q \<le> payload (pbufs s q)" "payload (pbufs s q) + plen (pbufs s q) \<le> e"
      using solid by (auto simp: solid_def)
    show ?thesis
    proof (cases "n = plen (pbufs s q)")
      case eq: True
      then show ?thesis using that [of "heap s"] e ok by (auto simp: mem_ok_def)
    next
      case False
      have le: "payload (pbufs s q) + n \<le> e" using e(3) n by simp
      obtain h e' where "mem_trim q (u16_of (int (u16_of (int (payload (pbufs s q)) - int q)) + int n)) (heap s) = Inr (q, h)"
        "heap_ok h" "payload (pbufs s q) + n \<le> e'" "live h = insert (q, e') (live (heap s) - {(q, e)})" "q \<noteq> 0"
        using realloc_trim [OF ok e(1,2) le] .
      then show ?thesis using that [of h] True False e q0(1) by auto
    qed
  next
    case False
    then show ?thesis using that [of "heap s"] ok by (auto simp: mem_ok_def)
  qed
  let ?s2 = "s\<lparr>heap := h\<rparr>"
  let ?s3 = "upd q (\<lambda>b. b\<lparr>plen := n, tot_len := n\<rparr>) ?s2"
  have ok3: "mem_ok sl ?s3" using ok h by (simp add: mem_ok_def)
  have ch3: "chain ?s3 (pnext (pbufs s q)) (vs @ [])" using q0 by (subst chain_cong [of _ _ s]) auto
  have own3: "\<forall>v \<in> set vs. owned sl ?s3 v \<and> ref (pbufs ?s3 v) = 1"
  proof
    fix v assume v: "v \<in> set vs"
    then have "v \<noteq> q" using q0(3) by auto
    then show "owned sl ?s3 v \<and> ref (pbufs ?s3 v) = 1"
      using solid v other by (auto simp: solid_def owned_def split: option.splits)
  qed
  have minus: "pool_minus sl ?s3 vs = pool_minus sl s vs"
    "x \<noteq> q \<Longrightarrow> (x, e) \<in> heap_minus ?s3 vs \<longleftrightarrow> (x, e) \<in> heap_minus s vs"
    "(q, e) \<in> heap_minus ?s3 vs \<longleftrightarrow> (q, e) \<in> live h" "(q, e) \<in> heap_minus s vs \<longleftrightarrow> (q, e) \<in> live (heap s)" for x e
    using q0(3) other by (auto simp: pool_minus_def heap_minus_def fun_eq_iff split: if_splits)
  obtain h4 pl where s4: "(if pnext (pbufs ?s3 q) \<noteq> 0 then rbind (pbuf_free (pnext (pbufs ?s3 q)) ?s3) (\<lambda>(_, s4). Inr s4) else Inr ?s3) =
      Inr (?s3\<lparr>heap := h4, pools := pl, pbufs := free_effect vs [] ?s3\<rparr>)"
    and ok4: "heap_ok h4" "memp_ok sl pl" and res: "live h4 = heap_minus ?s3 vs" "taken sl pl = pool_minus sl ?s3 vs"
  proof (cases vs)
    case Nil
    then show ?thesis
      using that [of "pools s" h] q0(2) ok3
      by (auto simp: free_effect_def mem_ok_def heap_minus_def pool_minus_def fun_eq_iff intro!: pb_state.equality)
  next
    case (Cons v ws)
    then have nz: "pnext (pbufs s q) \<noteq> 0" using q0(2) by simp
    obtain h4 pl where "pbuf_free (pnext (pbufs s q)) ?s3 =
        Inr (length vs mod 256, ?s3\<lparr>heap := h4, pools := pl, pbufs := free_effect vs [] ?s3\<rparr>)"
      "mem_ok sl (?s3\<lparr>heap := h4, pools := pl\<rparr>)" "live h4 = heap_minus ?s3 vs" "taken sl pl = pool_minus sl ?s3 vs"
      using free_loop_chain [OF ok3 ch3 len _ own3, of 0] nz by (auto simp: pbuf_free_def)
    then show ?thesis using that [of pl h4] nz by (simp add: mem_ok_def)
  qed
  define s5 where "s5 = upd q (\<lambda>b. b\<lparr>pnext := 0\<rparr>) (?s3\<lparr>heap := h4, pools := pl, pbufs := free_effect vs [] ?s3\<rparr>)"
  have r: "realloc_last q n s = Inr s5"
    unfolding realloc_last_def trim rbind_Inr prod.case Let_def s4 s5_def ..
  have f5: "heap s5 = h4" "pools s5 = pl" "bytes s5 = bytes s" by (simp_all add: s5_def)
  have "pbufs s5 q = (pbufs s q)\<lparr>plen := n, tot_len := n, pnext := 0\<rparr>"
    "\<forall>x. x \<notin> set (q # vs) \<longrightarrow> pbufs s5 x = pbufs s x"
    using q0(3) by (auto simp: free_effect_def s5_def)
  moreover have "mem_ok sl s5" using ok4 by (simp add: mem_ok_def f5)
  moreover have "live h4 = heap_minus s vs" if "ptype (pbufs s q) \<noteq> PBUF_RAM"
  proof -
    have "(x, e) \<in> live h4 \<longleftrightarrow> (x, e) \<in> heap_minus s vs" for x e
      using minus res(1) noram that by (cases "x = q") simp_all
    then show ?thesis by auto
  qed
  moreover have "\<forall>x e. x \<noteq> q \<longrightarrow> ((x, e) \<in> live h4 \<longleftrightarrow> (x, e) \<in> heap_minus s vs)"
    using minus res(1) by blast
  moreover have "ptype (pbufs s q) = PBUF_RAM \<longrightarrow>
      (\<exists>e. (q, e) \<in> live h4 \<and> q \<le> payload (pbufs s q) \<and> payload (pbufs s q) + n \<le> e)"
    using own minus(3) res(1) by blast
  moreover have "taken sl pl = pool_minus sl s vs" using res(2) minus(1) by simp
  ultimately show ?thesis unfolding r using f5 by auto
qed

lemma solid_transfer:
  assumes x: "solid sl s [x]"
    and same: "pflags (pbufs s' x) = pflags (pbufs s x)" "ptype (pbufs s' x) = ptype (pbufs s x)"
      "ref (pbufs s' x) = ref (pbufs s x)" "payload (pbufs s' x) = payload (pbufs s x)"
    and taken: "\<And>i. x \<in> taken sl (pools s) i \<Longrightarrow> x \<in> taken sl (pools s') i"
    and ram: "\<And>e. ptype (pbufs s x) = PBUF_RAM \<Longrightarrow> (x, e) \<in> live (heap s) \<Longrightarrow>
      payload (pbufs s x) + plen (pbufs s x) \<le> e \<Longrightarrow>
      \<exists>e'. (x, e') \<in> live (heap s') \<and> payload (pbufs s x) + plen (pbufs s' x) \<le> e'"
  shows "solid sl s' [x]"
proof (cases "ptype (pbufs s x) = PBUF_RAM")
  case True
  then obtain e where "(x, e) \<in> live (heap s)" "x \<le> payload (pbufs s x)" "payload (pbufs s x) + plen (pbufs s x) \<le> e"
    using x by (auto simp: solid_def)
  with ram True x same show ?thesis by (auto simp: solid_def owned_def pool_of_def is_custom_def)
next
  case False
  then obtain i where "pool_of (ptype (pbufs s x)) = Some i"
    by (cases "ptype (pbufs s x)") (auto simp: pool_of_def)
  with False x same taken show ?thesis by (auto simp: solid_def owned_def is_custom_def)
qed

lemma linked_cut: "linked nx p (us @ q # vs) \<Longrightarrow> linked (nx(q := 0)) p (us @ [q])"
proof (induction us arbitrary: p)
  case (Cons x us)
  then have "x \<noteq> q" using linked_distinct [OF Cons.prems] by auto
  then show ?case using Cons by auto
qed simp

lemma cut_packet:
  assumes p: "packet s p (us @ q # vs)" and b: "bytes s' = bytes s"
    and us: "\<forall>x \<in> set us. pbufs s' x = (pbufs s x)\<lparr>tot_len := tot_len (pbufs s x) - g\<rparr>"
    and q: "pbufs s' q = (pbufs s q)\<lparr>plen := n, tot_len := n, pnext := 0\<rparr>" and n: "n \<le> plen (pbufs s q)"
    and g: "length (content s (us @ q # vs)) = length (content s us) + n + g"
  shows "packet s' p (us @ [q]) \<and>
    content s' (us @ [q]) = take (length (content s us) + n) (content s (us @ q # vs))"
proof -
  have du: "pbuf_data s' x = pbuf_data s x" if "x \<in> set us" for x using us b that by (simp add: pbuf_data_def)
  have dq: "pbuf_data s' q = take n (pbuf_data s q)" using q b n by (simp add: pbuf_data_def take_read_bytes min_def)
  have cont: "content s' xs = content s xs" if "set xs \<subseteq> set us" for xs using du that by (intro content_cong) auto
  have "tot_ok s (us @ q # vs) \<Longrightarrow> tot_ok s' (us @ [q])"
    using us cont g
  proof (induction us)
    case Nil
    then show ?case using q dq n by simp
  next
    case (Cons x us)
    have "content s' us = content s us" using Cons.prems(3) [of us] by auto
    then show ?case using Cons dq n by auto
  qed
  moreover have "chain s' p (us @ [q])"
  proof -
    have "linked ((\<lambda>x. pnext (pbufs s x))(q := 0)) p (us @ [q])"
      using p linked_cut [of "\<lambda>x. pnext (pbufs s x)"] unfolding packet_def chain_def by blast
    moreover have "linked (\<lambda>x. pnext (pbufs s' x)) p (us @ [q]) = linked ((\<lambda>x. pnext (pbufs s x))(q := 0)) p (us @ [q])"
      using us q by (intro linked_cong) auto
    ultimately show ?thesis by (simp add: chain_def)
  qed
  moreover have "content s' (us @ [q]) = take (length (content s us) + n) (content s (us @ q # vs))"
    using cont dq n by simp
  ultimately show ?thesis using p dq n by (auto simp: packet_def)
qed

lemma realloc_cut:
  assumes ok: "mem_ok sl s" and p: "packet s p ps" and solid: "solid sl s ps" and short: "new_len < length (content s ps)"
  shows "\<exists>us q vs s'. ps = us @ q # vs \<and> pbuf_realloc p new_len s = Inr s' \<and> mem_ok sl s' \<and>
    packet s' p (us @ [q]) \<and> content s' (us @ [q]) = take new_len (content s ps) \<and>
    solid sl s' (us @ [q]) \<and> taken sl (pools s') = pool_minus sl s vs \<and>
    fst ` live (heap s') = fst ` live (heap s) - {v \<in> set vs. ptype (pbufs s v) = PBUF_RAM} \<and>
    bytes s' = bytes s \<and> (\<forall>x \<in> set (us @ [q]). payload (pbufs s' x) = payload (pbufs s x) \<and> ptype (pbufs s' x) = ptype (pbufs s x))"
proof -
  have c: "chain s p ps" "tot_ok s ps" "ps \<noteq> []" "length ps < PBUF_MAX" "length (content s ps) < 65536" "p \<noteq> 0"
    "tot_len (pbufs s p) = length (content s ps)" using p by (cases ps; auto simp: packet_def)+
  define g where "g = length (content s ps) - new_len"
  have g: "length (content s ps) = new_len + g" "0 < g" using short by (auto simp: g_def)
  obtain us q vs where ps: "ps = us @ q # vs" and r: "length (content s us) \<le> new_len"
    "new_len - length (content s us) \<le> plen (pbufs s q)"
    and skip: "realloc_skip PBUF_MAX p new_len (- int g) s = Inr (q, new_len - length (content s us),
      s\<lparr>pbufs := (\<lambda>x. if x \<in> set us then (pbufs s x)\<lparr>tot_len := tot_len (pbufs s x) - g\<rparr> else pbufs s x)\<rparr>)"
    using realloc_skip_spec [OF c(1-4) g c(5)] by blast
  define n where "n = new_len - length (content s us)"
  define s1 where "s1 = s\<lparr>pbufs := (\<lambda>x. if x \<in> set us then (pbufs s x)\<lparr>tot_len := tot_len (pbufs s x) - g\<rparr> else pbufs s x)\<rparr>"
  have dist: "distinct (us @ q # vs)" using chain_distinct [OF c(1)] ps by simp
  have mem1: "pools s1 = pools s" "heap s1 = heap s" "bytes s1 = bytes s" by (simp_all add: s1_def)
  have pb1: "pbufs s1 x = (if x \<in> set us then (pbufs s x)\<lparr>tot_len := tot_len (pbufs s x) - g\<rparr> else pbufs s x)" for x
    by (simp add: s1_def)
  have minus: "pool_minus sl s1 vs = pool_minus sl s vs" "heap_minus s1 vs = heap_minus s vs"
    by (auto simp: pool_minus_def heap_minus_def mem1 pb1 fun_eq_iff split: if_splits)
  have solid1: "solid sl s1 ps"
    using solid owned_cong [of s1 _ s sl] by (auto simp: solid_def mem1 pb1)
  have "chain s1 q (q # vs)" using chain_suffix [of s p us q vs] c(1) ps
    by (subst chain_cong [of _ _ s]) (auto simp: pb1)
  moreover have "solid sl s1 (q # vs)" using solid1 ps by (simp add: solid_def)
  moreover have "mem_ok sl s1" using ok by (simp add: mem_ok_def mem1)
  moreover have "n \<le> plen (pbufs s1 q)" using r(2) by (simp add: n_def pb1)
  moreover have "length vs < PBUF_MAX" using c(4) ps by simp
  ultimately obtain s' where s': "realloc_last q n s1 = Inr s'" "mem_ok sl s'" "bytes s' = bytes s1"
    "pbufs s' q = (pbufs s1 q)\<lparr>plen := n, tot_len := n, pnext := 0\<rparr>"
    "\<forall>x. x \<notin> set (q # vs) \<longrightarrow> pbufs s' x = pbufs s1 x" "taken sl (pools s') = pool_minus sl s1 vs"
    "\<forall>x e. x \<noteq> q \<longrightarrow> ((x, e) \<in> live (heap s') \<longleftrightarrow> (x, e) \<in> heap_minus s1 vs)"
    "ptype (pbufs s1 q) = PBUF_RAM \<longrightarrow>
      (\<exists>e. (q, e) \<in> live (heap s') \<and> q \<le> payload (pbufs s1 q) \<and> payload (pbufs s1 q) + n \<le> e)"
    "ptype (pbufs s1 q) \<noteq> PBUF_RAM \<longrightarrow> live (heap s') = heap_minus s1 vs"
    using realloc_last_spec [of sl s1 q vs n] by blast
  have grow: "int new_len - int (tot_len (pbufs s p)) = - int g" using c(7) g by simp
  have res: "pbuf_realloc p new_len s = Inr s'"
    unfolding pbuf_realloc_def grow Let_def skip using c(6,7) short s'(1) by (simp add: s1_def n_def)
  have pus: "pbufs s' x = (pbufs s x)\<lparr>tot_len := tot_len (pbufs s x) - g\<rparr>" "x \<noteq> q" "x \<notin> set vs" if "x \<in> set us" for x
  proof -
    show "x \<noteq> q" "x \<notin> set vs" using that dist by auto
    then show "pbufs s' x = (pbufs s x)\<lparr>tot_len := tot_len (pbufs s x) - g\<rparr>" using s'(5) that pb1 by simp
  qed
  have pq: "pbufs s' q = (pbufs s q)\<lparr>plen := n, tot_len := n, pnext := 0\<rparr>" using s'(4) dist pb1 by simp
  have "packet s' p (us @ [q]) \<and> content s' (us @ [q]) = take new_len (content s ps)"
    using cut_packet [of s p us q vs s' g n] p s'(3) mem1 pus pq r g unfolding ps n_def by simp
  moreover have "solid sl s' (us @ [q])"
  proof -
    have live_us: "(x, e) \<in> live (heap s')" if "x \<in> set us" "(x, e) \<in> live (heap s)" for x e
      using s'(7) that pus minus by (auto simp: heap_minus_def)
    have taken_us: "x \<in> taken sl (pools s') i" if "x \<in> set (us @ [q])" "x \<in> taken sl (pools s) i" for x i
      using s'(6) that dist minus by (auto simp: pool_minus_def)
    have "x \<in> set us \<Longrightarrow> solid sl s' [x]" for x
      using solid live_us taken_us pus by (intro solid_transfer [of sl s x s']) (auto simp: solid_def ps)
    moreover have "solid sl s' [q]"
      using solid taken_us s'(8) dist by (intro solid_transfer [of sl s q s']) (auto simp: solid_def ps pq pb1)
    ultimately show ?thesis by (simp add: solid_def)
  qed
  moreover have "fst ` live (heap s') = fst ` live (heap s) - {v \<in> set vs. ptype (pbufs s v) = PBUF_RAM}"
  proof (rule set_eqI)
    fix x
    have ex: "x \<in> fst ` L \<longleftrightarrow> (\<exists>e. (x, e) \<in> L)" for L :: "(nat \<times> nat) set" by force
    show "x \<in> fst ` live (heap s') \<longleftrightarrow> x \<in> fst ` live (heap s) - {v \<in> set vs. ptype (pbufs s v) = PBUF_RAM}"
    proof (cases "x = q \<and> ptype (pbufs s q) = PBUF_RAM")
      case True
      then show ?thesis using s'(8) solid dist unfolding Diff_iff ex by (auto simp: pb1 solid_def ps)
    next
      case False
      then have "(x, e) \<in> live (heap s') \<longleftrightarrow> (x, e) \<in> heap_minus s vs" for e
        using s'(7,9) dist minus by (cases "x = q") (auto simp: pb1)
      then show ?thesis unfolding Diff_iff ex by (auto simp: heap_minus_def)
    qed
  qed
  moreover have "bytes s' = bytes s"
    "\<forall>x \<in> set (us @ [q]). payload (pbufs s' x) = payload (pbufs s x) \<and> ptype (pbufs s' x) = ptype (pbufs s x)"
    using s'(3) mem1 pus(1) pq by auto
  ultimately have "ps = us @ q # vs \<and> pbuf_realloc p new_len s = Inr s' \<and> mem_ok sl s' \<and>
      packet s' p (us @ [q]) \<and> content s' (us @ [q]) = take new_len (content s ps) \<and>
      solid sl s' (us @ [q]) \<and> taken sl (pools s') = pool_minus sl s vs \<and>
      fst ` live (heap s') = fst ` live (heap s) - {v \<in> set vs. ptype (pbufs s v) = PBUF_RAM} \<and>
      bytes s' = bytes s \<and> (\<forall>x \<in> set (us @ [q]). payload (pbufs s' x) = payload (pbufs s x) \<and> ptype (pbufs s' x) = ptype (pbufs s x))"
    using ps res s'(2,6) minus by simp
  then show ?thesis by blast
qed

lemma realloc_keep:
  "packet s p ps \<Longrightarrow> length (content s ps) \<le> new_len \<Longrightarrow> pbuf_realloc p new_len s = Inr s"
  by (cases ps) (auto simp: packet_def pbuf_realloc_def)

text \<open>
  \<open>pbuf_realloc\<close> to a smaller length keeps exactly that many bytes from the front of the packet,
  with correct lengths in every remaining pbuf; the pbufs behind the new last one are given back,
  the memory of the others stays theirs (a heap pbuf that becomes the last one is trimmed in
  place). A length that is not smaller changes nothing.
\<close>

theorem pbuf_realloc_correct:
  assumes ok: "mem_ok sl s" and p: "packet s p ps" and solid: "solid sl s ps"
  shows "if length (content s ps) \<le> new_len then pbuf_realloc p new_len s = Inr s
    else \<exists>us q vs s'. ps = us @ q # vs \<and> pbuf_realloc p new_len s = Inr s' \<and> mem_ok sl s' \<and>
      packet s' p (us @ [q]) \<and> content s' (us @ [q]) = take new_len (content s ps) \<and>
      solid sl s' (us @ [q]) \<and> taken sl (pools s') = pool_minus sl s vs \<and>
      fst ` live (heap s') = fst ` live (heap s) - {v \<in> set vs. ptype (pbufs s v) = PBUF_RAM}"
proof (cases "length (content s ps) \<le> new_len")
  case True
  then show ?thesis by (simp add: realloc_keep [OF p])
next
  case False
  then have "new_len < length (content s ps)" by simp
  from realloc_cut [OF ok p solid this] show ?thesis
    unfolding if_not_P [OF False] by (elim ex_forward) (elim conjE, intro conjI)
qed

section \<open>Instances\<close>

abbreviation sample_slots :: "memp_t \<Rightarrow> nat list" where
  "sample_slots \<equiv> slots (\<lambda>_. 1102) 65536"

lemma sample_ok: "mem_ok sample_slots sample" "mbox_ready sample"
  using fresh_heap(1) memp_init_all_free [of "\<lambda>_. 1102" 65536 "\<lambda>_. 0"]
  by (simp_all add: mem_ok_def mbox_ready_def sample_def)

theorem pbuf_alloc_pool_correct_witness:
  "\<exists>p s'. pbuf_alloc PBUF_IP 3000 PBUF_POOL sample = Inr (p, s')"
proof -
  have "\<forall>q \<in> set (sample_slots MEMP_PBUF_POOL). \<not> is_custom (pbufs sample q)"
    by (simp add: sample_def is_custom_def)
  from pbuf_alloc_pool_correct [OF sample_ok _ this, of 3000 PBUF_IP] show ?thesis by fastforce
qed

text \<open>One heap pbuf of 22 bytes, allocated in the sample state.\<close>

lemma sample_ram:
  "\<exists>s. pbuf_alloc PBUF_TRANSPORT 22 PBUF_RAM sample = Inr (4102, s) \<and> mem_ok sample_slots s \<and>
     packet s 4102 [4102] \<and> solid sample_slots s [4102] \<and> length (content s [4102]) = 22"
proof -
  obtain h e where h: "mem_malloc 100 fresh_heap = Inr (4102, h)" "heap_ok h" "live h = {(4102, e)}" "4202 \<le> e"
    using one_block by blast
  let ?s = "ram_pbuf PBUF_TRANSPORT 22 4102 h sample"
  have hs: "heap sample = fresh_heap" by (simp add: sample_def)
  have r: "pbuf_alloc PBUF_TRANSPORT 22 PBUF_RAM sample = Inr (4102, ?s)"
    by (rule pbuf_alloc_ram_eq) (simp_all add: layer_offset_def u16_of_def hs h(1))
  have "mem_ok sample_slots ?s" using sample_ok h(2) by (simp add: mem_ok_def)
  moreover have "packet ?s 4102 [4102]" "length (content ?s [4102]) = 22" by (simp_all add: packet_def)
  moreover have "solid sample_slots ?s [4102]"
    using h(3,4) by (simp add: solid_def owned_def pool_of_def is_custom_def layer_offset_def)
  ultimately show ?thesis using r by blast
qed

theorem pbuf_free_correct_witness:
  "\<exists>s s'. pbuf_alloc PBUF_TRANSPORT 22 PBUF_RAM sample = Inr (4102, s) \<and> pbuf_free 4102 s = Inr (1, s')"
proof -
  obtain s where s: "pbuf_alloc PBUF_TRANSPORT 22 PBUF_RAM sample = Inr (4102, s)" "mem_ok sample_slots s"
    "packet s 4102 [4102]" "solid sample_slots s [4102]" using sample_ram by blast
  then have "chain s 4102 ([4102] @ [])" "\<forall>q \<in> set [4102]. owned sample_slots s q \<and> ref (pbufs s q) = 1"
    by (auto simp: packet_def solid_def)
  from pbuf_free_correct [OF s(2) this(1) _ _ this(2)] obtain h pl where
    "pbuf_free 4102 s = Inr (length [4102 :: nat] mod 256, s\<lparr>heap := h, pools := pl, pbufs := free_effect [4102] [] s\<rparr>)"
    by auto
  then show ?thesis using s(1) by (intro exI [of _ s] exI conjI) simp_all
qed

theorem pbuf_alloc_ram_correct_witness:
  "\<exists>p s'. pbuf_alloc PBUF_TRANSPORT 22 PBUF_RAM sample = Inr (p, s') \<and> mem_ok sample_slots s'"
  using pbuf_alloc_ram_correct [OF sample_ok(1), of 22 PBUF_TRANSPORT] by fastforce

theorem pbuf_cat_correct_witness:
  "\<exists>s'. pbuf_cat 2000 3000 sample = Inr s' \<and> chain s' 2000 [2000, 3000]"
proof -
  have "packet sample 2000 [2000]" "packet sample 3000 [3000]" by (simp_all add: packet_def sample_def)
  from pbuf_cat_correct [OF this] show ?thesis by auto
qed

theorem pbuf_header_correct_witness:
  "\<exists>s1. pbuf_header 1000 (- 1) sample = Inr (False, s1) \<and> content s1 [1000, 2000] = [97, 97, 98]"
proof -
  have own: "ptype (pbufs sample 1000) \<in> {PBUF_RAM, PBUF_POOL} \<longrightarrow> 1000 + SIZEOF_STRUCT_PBUF \<le> payload (pbufs sample 1000)"
    and l: "1 \<le> plen (pbufs sample 1000)" by (simp_all add: sample_def)
  have n: "0 < (1::nat)" "(1::nat) < 32768" by simp_all
  from conjunct1 [OF pbuf_header_correct [OF sample_packet(1) n own], unfolded if_P [OF l]] sample_packet(2)
  show ?thesis by (auto simp del: content_simps)
qed

theorem pbuf_realloc_correct_witness:
  "\<exists>s s'. pbuf_alloc PBUF_TRANSPORT 22 PBUF_RAM sample = Inr (4102, s) \<and> pbuf_realloc 4102 10 s = Inr s' \<and>
     packet s' 4102 [4102] \<and> content s' [4102] = take 10 (content s [4102])"
proof -
  obtain s where s: "pbuf_alloc PBUF_TRANSPORT 22 PBUF_RAM sample = Inr (4102, s)" "mem_ok sample_slots s"
    "packet s 4102 [4102]" "solid sample_slots s [4102]" "length (content s [4102]) = 22" using sample_ram by blast
  have "\<not> length (content s [4102]) \<le> 10" using s(5) by simp
  from pbuf_realloc_correct [OF s(2-4), of 10, unfolded if_not_P [OF this]] obtain us q vs s' where
    "[4102] = us @ q # vs" "pbuf_realloc 4102 10 s = Inr s'" "packet s' 4102 (us @ [q])"
    "content s' (us @ [q]) = take 10 (content s [4102])" by blast
  moreover have "us = []" "q = 4102" using calculation(1) by (cases us; simp)+
  ultimately show ?thesis using s(1) by (intro exI [of _ s] exI [of _ s']) simp
qed

end
