(* ===== verification/Etharp.thy ===== *)
theory Etharp
  imports Ip_Addr Pbuf_Life
begin

text \<open>
  \<^verbatim>\<open>src/src/lwip/netif/etharp.c\<close>: the ARP cache and the Ethernet output path (\<^verbatim>\<open>ARP_QUEUEING\<close> 0,
  \<^verbatim>\<open>ETHARP_SUPPORT_STATIC_ENTRIES\<close> 0, no VLAN, \<^verbatim>\<open>LWIP_AUTOIP\<close> 1). The state is the table, the
  index of the cached entry, the interfaces with the variables of \<^verbatim>\<open>netif.c\<close>, the packet buffers
  and, as a record of what leaves the stack, the frames handed to \<^verbatim>\<open>netif->linkoutput\<close> (\<open>wire\<close>); the driver's answer is the
  argument \<open>link\<close>. IP addresses are \<^verbatim>\<open>u32_t\<close> values in network order. An index is a number below
  \<^verbatim>\<open>ARP_TABLE_SIZE\<close>; a negative \<^verbatim>\<open>s8_t\<close> result is always \<^verbatim>\<open>ERR_MEM\<close> and appears as None.
\<close>

section \<open>Data\<close>

abbreviation ARP_TABLE_SIZE :: nat where "ARP_TABLE_SIZE \<equiv> 10"
abbreviation ARP_MAXAGE :: nat where "ARP_MAXAGE \<equiv> 240"
abbreviation ARP_AGE_REREQUEST_USED :: nat where "ARP_AGE_REREQUEST_USED \<equiv> 228"
abbreviation ARP_MAXPENDING :: nat where "ARP_MAXPENDING \<equiv> 2"
abbreviation ETHARP_HWADDR_LEN :: u8 where "ETHARP_HWADDR_LEN \<equiv> 6"
abbreviation SIZEOF_ETH_HDR :: nat where "SIZEOF_ETH_HDR \<equiv> 14"
abbreviation SIZEOF_ETHARP_PACKET :: nat where "SIZEOF_ETHARP_PACKET \<equiv> 42"
abbreviation ETHARP_FLAG_TRY_HARD :: u8 where "ETHARP_FLAG_TRY_HARD \<equiv> 1"
abbreviation ETHARP_FLAG_FIND_ONLY :: u8 where "ETHARP_FLAG_FIND_ONLY \<equiv> 2"
abbreviation ARP_REQUEST :: u16 where "ARP_REQUEST \<equiv> 1"
abbreviation ARP_REPLY :: u16 where "ARP_REPLY \<equiv> 2"

definition ethbroadcast :: bytes where "ethbroadcast = [0xff, 0xff, 0xff, 0xff, 0xff, 0xff]"
definition ethzero :: bytes where "ethzero = [0, 0, 0, 0, 0, 0]"

datatype etharp_state =
    ETHARP_STATE_EMPTY | ETHARP_STATE_PENDING | ETHARP_STATE_STABLE | ETHARP_STATE_STABLE_REREQUESTING

text \<open>\<^verbatim>\<open>state >= ETHARP_STATE_STABLE\<close>.\<close>

definition is_stable :: "etharp_state \<Rightarrow> bool" where
  "is_stable st \<longleftrightarrow> st = ETHARP_STATE_STABLE \<or> st = ETHARP_STATE_STABLE_REREQUESTING"

record etharp_entry =
  queue :: nat
  ipaddr :: u32
  enetif :: nat
  ethaddr :: bytes
  state :: etharp_state
  ctime :: nat

record arp_state =
  arp_table :: "nat \<Rightarrow> etharp_entry"
  etharp_cached_entry :: nat
  ifs :: "nat \<Rightarrow> netif"
  netif_list :: nat
  netif_default :: nat
  netif_num :: u8
  pb :: pb_state
  wire :: "(nat \<times> bytes) list"

definition set_entry :: "nat \<Rightarrow> (etharp_entry \<Rightarrow> etharp_entry) \<Rightarrow> arp_state \<Rightarrow> arp_state" where
  "set_entry i f s = s\<lparr>arp_table := (arp_table s)(i := f (arp_table s i))\<rparr>"

definition free_pbuf :: "nat \<Rightarrow> arp_state \<Rightarrow> arp_state res" where
  "free_pbuf p s = rbind (pbuf_free p (pb s)) (\<lambda>(_, b). Inr (s\<lparr>pb := b\<rparr>))"

text \<open>Storing bytes at an offset of a pbuf's payload.\<close>

definition store :: "nat \<Rightarrow> nat \<Rightarrow> bytes \<Rightarrow> arp_state \<Rightarrow> arp_state" where
  "store p off bs s =
     s\<lparr>pb := (pb s)\<lparr>bytes := write_bytes (payload (pbufs (pb s) p) + off) bs (bytes (pb s))\<rparr>\<rparr>"

text \<open>\<^verbatim>\<open>netif->linkoutput(netif, p)\<close>: the frame is the data of the whole chain.\<close>

primrec gather :: "nat \<Rightarrow> nat \<Rightarrow> pb_state \<Rightarrow> bytes" where
  "gather 0 q s = []"
| "gather (Suc fuel) q s = (if q = 0 then [] else pbuf_data s q @ gather fuel (pnext (pbufs s q)) s)"

definition linkoutput :: "(nat \<Rightarrow> bytes \<Rightarrow> err_t) \<Rightarrow> nat \<Rightarrow> nat \<Rightarrow> arp_state \<Rightarrow> err_t \<times> arp_state" where
  "linkoutput link n p s =
     (let frame = gather PBUF_MAX p (pb s) in (link n frame, s\<lparr>wire := wire s @ [(n, frame)]\<rparr>))"

section \<open>The table\<close>

definition etharp_free_entry :: "nat \<Rightarrow> arp_state \<Rightarrow> arp_state res" where
  "etharp_free_entry i s =
     rbind
       (if queue (arp_table s i) \<noteq> 0
        then rbind (free_pbuf (queue (arp_table s i)) s) (\<lambda>s. Inr (set_entry i (\<lambda>e. e\<lparr>queue := 0\<rparr>) s))
        else Inr s)
       (\<lambda>s. Inr (set_entry i (\<lambda>e. e\<lparr>state := ETHARP_STATE_EMPTY\<rparr>) s))"

text \<open>The body of the loop of \<^verbatim>\<open>etharp_tmr\<close>, and the loop over the indices.\<close>

definition tmr_entry :: "nat \<Rightarrow> arp_state \<Rightarrow> arp_state res" where
  "tmr_entry i s =
     (if state (arp_table s i) \<noteq> ETHARP_STATE_EMPTY then
        let s = set_entry i (\<lambda>e. e\<lparr>ctime := (ctime e + 1) mod 256\<rparr>) s;
            e = arp_table s i
        in if ctime e \<ge> ARP_MAXAGE \<or> (state e = ETHARP_STATE_PENDING \<and> ctime e \<ge> ARP_MAXPENDING)
           then etharp_free_entry i s
           else if state e = ETHARP_STATE_STABLE_REREQUESTING
           then Inr (set_entry i (\<lambda>e. e\<lparr>state := ETHARP_STATE_STABLE\<rparr>) s)
           else Inr s
      else Inr s)"

primrec for_entries :: "(nat \<Rightarrow> arp_state \<Rightarrow> arp_state res) \<Rightarrow> nat list \<Rightarrow> arp_state \<Rightarrow> arp_state res" where
  "for_entries f [] s = Inr s"
| "for_entries f (i # is) s = rbind (f i s) (for_entries f is)"

definition etharp_tmr :: "arp_state \<Rightarrow> arp_state res" where
  "etharp_tmr s = for_entries tmr_entry [0..<ARP_TABLE_SIZE] s"

text \<open>The candidates \<^verbatim>\<open>etharp_find_entry\<close> remembers during its search; \<^verbatim>\<open>ARP_TABLE_SIZE\<close> means none.\<close>

record candidates =
  empty :: nat
  old_pending :: nat
  age_pending :: nat
  old_stable :: nat
  age_stable :: nat
  old_queue :: nat
  age_queue :: nat

primrec find_scan :: "nat list \<Rightarrow> u32 option \<Rightarrow> (nat \<Rightarrow> etharp_entry) \<Rightarrow> candidates \<Rightarrow> nat + candidates" where
  "find_scan [] ip tab c = Inr c"
| "find_scan (i # is) ip tab c =
     (let e = tab i; st = state e in
      if empty c = ARP_TABLE_SIZE \<and> st = ETHARP_STATE_EMPTY then find_scan is ip tab (c\<lparr>empty := i\<rparr>)
      else if st \<noteq> ETHARP_STATE_EMPTY then
        (if ip = Some (ipaddr e) then Inl i
         else if st = ETHARP_STATE_PENDING then
           (if queue e \<noteq> 0
            then (if ctime e \<ge> age_queue c
                  then find_scan is ip tab (c\<lparr>old_queue := i, age_queue := ctime e\<rparr>) else find_scan is ip tab c)
            else (if ctime e \<ge> age_pending c
                  then find_scan is ip tab (c\<lparr>old_pending := i, age_pending := ctime e\<rparr>) else find_scan is ip tab c))
         else (if ctime e \<ge> age_stable c
               then find_scan is ip tab (c\<lparr>old_stable := i, age_stable := ctime e\<rparr>) else find_scan is ip tab c))
      else find_scan is ip tab c)"

definition no_candidates :: candidates where
  "no_candidates = \<lparr>empty = ARP_TABLE_SIZE, old_pending = ARP_TABLE_SIZE, age_pending = 0,
     old_stable = ARP_TABLE_SIZE, age_stable = 0, old_queue = ARP_TABLE_SIZE, age_queue = 0\<rparr>"

definition etharp_find_entry :: "u32 option \<Rightarrow> u8 \<Rightarrow> arp_state \<Rightarrow> (nat option \<times> arp_state) res" where
  "etharp_find_entry ip fl s =
     (case find_scan [0..<ARP_TABLE_SIZE] ip (arp_table s) no_candidates of
        Inl i \<Rightarrow> Inr (Some i, s)
      | Inr c \<Rightarrow>
          if fl AND ETHARP_FLAG_FIND_ONLY \<noteq> 0 \<or> (empty c = ARP_TABLE_SIZE \<and> fl AND ETHARP_FLAG_TRY_HARD = 0)
          then Inr (None, s)
          else
            let finish = (\<lambda>i s.
              if \<not> i < ARP_TABLE_SIZE \<or> state (arp_table s i) \<noteq> ETHARP_STATE_EMPTY then Inl Abort
              else
                let s = (case ip of Some a \<Rightarrow> set_entry i (\<lambda>e. e\<lparr>ipaddr := a\<rparr>) s | None \<Rightarrow> s)
                in Inr (Some i, set_entry i (\<lambda>e. e\<lparr>ctime := 0\<rparr>) s));
              recycle = (\<lambda>i. if \<not> i < ARP_TABLE_SIZE then Inl Abort else rbind (etharp_free_entry i s) (finish i))
            in if empty c < ARP_TABLE_SIZE then finish (empty c) s
               else if old_stable c < ARP_TABLE_SIZE
               then (if queue (arp_table s (old_stable c)) \<noteq> 0 then Inl Abort else recycle (old_stable c))
               else if old_pending c < ARP_TABLE_SIZE then recycle (old_pending c)
               else if old_queue c < ARP_TABLE_SIZE then recycle (old_queue c)
               else Inr (None, s))"

section \<open>Sending\<close>

definition etharp_send_ip :: "(nat \<Rightarrow> bytes \<Rightarrow> err_t) \<Rightarrow> nat \<Rightarrow> nat \<Rightarrow> bytes \<Rightarrow> bytes \<Rightarrow> arp_state \<Rightarrow> (err_t \<times> arp_state) res" where
  "etharp_send_ip link n p src dst s =
     (if hwaddr_len (ifs s n) \<noteq> ETHARP_HWADDR_LEN then Inl Abort
      else Inr (linkoutput link n p (store p 12 (net_bytes16 0x0800) (store p 6 src (store p 0 dst s)))))"

text \<open>The second half of \<^verbatim>\<open>etharp_update_arp_entry\<close>, once the entry \<open>i\<close> is known.\<close>

definition resolve_entry :: "(nat \<Rightarrow> bytes \<Rightarrow> err_t) \<Rightarrow> nat \<Rightarrow> bytes \<Rightarrow> nat \<Rightarrow> arp_state \<Rightarrow> (err_t \<times> arp_state) res" where
  "resolve_entry link n eth i s =
     (let s = set_entry i (\<lambda>e. e\<lparr>state := ETHARP_STATE_STABLE, enetif := n, ethaddr := eth, ctime := 0\<rparr>) s;
          p = queue (arp_table s i)
      in if p \<noteq> 0
         then rbind (etharp_send_ip link n p (hwaddr (ifs s n)) eth (set_entry i (\<lambda>e. e\<lparr>queue := 0\<rparr>) s)) (\<lambda>(_, s).
           rbind (free_pbuf p s) (\<lambda>s. Inr (ERR_OK, s)))
         else Inr (ERR_OK, s))"

definition etharp_update_arp_entry ::
    "(nat \<Rightarrow> bytes \<Rightarrow> err_t) \<Rightarrow> nat \<Rightarrow> u32 \<Rightarrow> bytes \<Rightarrow> u8 \<Rightarrow> arp_state \<Rightarrow> (err_t \<times> arp_state) res" where
  "etharp_update_arp_entry link n ip eth fl s =
     (if hwaddr_len (ifs s n) \<noteq> ETHARP_HWADDR_LEN then Inl Abort
      else if ip = IPADDR_ANY \<or> ip4_addr_isbroadcast ip (ifs s n) \<or> ip_addr_ismulticast ip then Inr (ERR_ARG, s)
      else
        rbind (etharp_find_entry (Some ip) fl s) (\<lambda>(r, s).
          case r of None \<Rightarrow> Inr (ERR_MEM, s) | Some i \<Rightarrow> resolve_entry link n eth i s))"

definition cleanup_entry :: "nat \<Rightarrow> nat \<Rightarrow> arp_state \<Rightarrow> arp_state res" where
  "cleanup_entry n i s =
     (if state (arp_table s i) \<noteq> ETHARP_STATE_EMPTY \<and> enetif (arp_table s i) = n
      then etharp_free_entry i s else Inr s)"

definition etharp_cleanup_netif :: "nat \<Rightarrow> arp_state \<Rightarrow> arp_state res" where
  "etharp_cleanup_netif n s = for_entries (cleanup_entry n) [0..<ARP_TABLE_SIZE] s"

text \<open>The index, Ethernet and IP address of a stable entry; None is the result -1.\<close>

definition etharp_find_addr :: "u32 \<Rightarrow> arp_state \<Rightarrow> ((nat \<times> bytes \<times> u32) option \<times> arp_state) res" where
  "etharp_find_addr ip s =
     rbind (etharp_find_entry (Some ip) ETHARP_FLAG_FIND_ONLY s) (\<lambda>(r, s).
       case r of
         None \<Rightarrow> Inr (None, s)
       | Some i \<Rightarrow>
           Inr (if is_stable (state (arp_table s i))
                then Some (i, ethaddr (arp_table s i), ipaddr (arp_table s i)) else None, s))"

text \<open>
  \<^verbatim>\<open>etharp_raw\<close>: the stores fill all 42 bytes of the packet, so they are shown as one store of the
  frame in address order.
\<close>

definition arp_frame :: "bytes \<Rightarrow> bytes \<Rightarrow> u16 \<Rightarrow> bytes \<Rightarrow> u32 \<Rightarrow> bytes \<Rightarrow> u32 \<Rightarrow> bytes" where
  "arp_frame ethdst ethsrc opcode hwsrc ipsrc hwdst ipdst =
     ethdst @ ethsrc @ net_bytes16 0x0806 @
     net_bytes16 1 @ net_bytes16 0x0800 @ [6, 4] @ net_bytes16 opcode @
     hwsrc @ host_bytes32 ipsrc @ hwdst @ host_bytes32 ipdst"

definition etharp_raw ::
    "(nat \<Rightarrow> bytes \<Rightarrow> err_t) \<Rightarrow> nat \<Rightarrow> bytes \<Rightarrow> bytes \<Rightarrow> bytes \<Rightarrow> u32 \<Rightarrow> bytes \<Rightarrow> u32 \<Rightarrow> u16 \<Rightarrow> arp_state \<Rightarrow>
       (err_t \<times> arp_state) res" where
  "etharp_raw link n ethsrc ethdst hwsrc ipsrc hwdst ipdst opcode s =
     (if n = 0 then Inl Abort
      else
        rbind (pbuf_alloc PBUF_RAW SIZEOF_ETHARP_PACKET PBUF_RAM (pb s)) (\<lambda>(p, b).
          let s = s\<lparr>pb := b\<rparr> in
          if p = 0 then Inr (ERR_MEM, s)
          else if \<not> plen (pbufs b p) \<ge> SIZEOF_ETHARP_PACKET then Inl Abort
          else if hwaddr_len (ifs s n) \<noteq> ETHARP_HWADDR_LEN then Inl Abort
          else
            let dst = (if ip_addr_islinklocal ipsrc then ethbroadcast else ethdst);
                s = store p 0 (arp_frame dst ethsrc opcode hwsrc ipsrc hwdst ipdst) s;
                (result, s) = linkoutput link n p s
            in rbind (free_pbuf p s) (\<lambda>s. Inr (result, s))))"

definition etharp_request :: "(nat \<Rightarrow> bytes \<Rightarrow> err_t) \<Rightarrow> nat \<Rightarrow> u32 \<Rightarrow> arp_state \<Rightarrow> (err_t \<times> arp_state) res" where
  "etharp_request link n ip s =
     etharp_raw link n (hwaddr (ifs s n)) ethbroadcast (hwaddr (ifs s n)) (ip_addr (ifs s n)) ethzero ip ARP_REQUEST s"

definition etharp_output_to_arp_index ::
    "(nat \<Rightarrow> bytes \<Rightarrow> err_t) \<Rightarrow> nat \<Rightarrow> nat \<Rightarrow> nat \<Rightarrow> arp_state \<Rightarrow> (err_t \<times> arp_state) res" where
  "etharp_output_to_arp_index link n q i s =
     (if \<not> is_stable (state (arp_table s i)) then Inl Abort
      else
        rbind
          (if state (arp_table s i) = ETHARP_STATE_STABLE \<and> ctime (arp_table s i) \<ge> ARP_AGE_REREQUEST_USED
           then rbind (etharp_request link n (ipaddr (arp_table s i)) s) (\<lambda>(r, s).
             Inr (if r = ERR_OK then set_entry i (\<lambda>e. e\<lparr>state := ETHARP_STATE_STABLE_REREQUESTING\<rparr>) s else s))
           else Inr s)
          (\<lambda>s. etharp_send_ip link n q (hwaddr (ifs s n)) (ethaddr (arp_table s i)) s))"

text \<open>The loop of \<^verbatim>\<open>etharp_query\<close> that looks for a pbuf that has to be copied; 0 if there is none.\<close>

primrec copy_scan :: "nat \<Rightarrow> nat \<Rightarrow> pb_state \<Rightarrow> nat res" where
  "copy_scan 0 p s = Inl No_Fuel"
| "copy_scan (Suc fuel) p s =
     (if p = 0 then Inr 0
      else if \<not> (plen (pbufs s p) \<noteq> tot_len (pbufs s p) \<or> pnext (pbufs s p) = 0) then Inl Abort
      else if ptype (pbufs s p) \<noteq> PBUF_ROM then Inr p
      else copy_scan fuel (pnext (pbufs s p)) s)"

text \<open>The pbuf that takes the packet over: a copy or a reference, 0 if there is no memory.\<close>

definition take_over :: "nat \<Rightarrow> arp_state \<Rightarrow> (nat \<times> arp_state) res" where
  "take_over q s =
     rbind (copy_scan PBUF_MAX q (pb s)) (\<lambda>r.
       if r \<noteq> 0 then
         rbind (pbuf_alloc PBUF_RAW (tot_len (pbufs (pb s) r)) PBUF_RAM (pb s)) (\<lambda>(p, b).
           if p = 0 then Inr (0, s\<lparr>pb := b\<rparr>)
           else
             rbind (pbuf_copy p q b) (\<lambda>(err, b).
               if err \<noteq> ERR_OK then rbind (free_pbuf p (s\<lparr>pb := b\<rparr>)) (\<lambda>s. Inr (0, s))
               else Inr (p, s\<lparr>pb := b\<rparr>)))
       else Inr (q, s\<lparr>pb := pbuf_ref q (pb s)\<rparr>))"

text \<open>The part of \<^verbatim>\<open>etharp_query\<close> after the search, with the entry \<open>i\<close> it returned.\<close>

definition query_entry :: "(nat \<Rightarrow> bytes \<Rightarrow> err_t) \<Rightarrow> nat \<Rightarrow> u32 \<Rightarrow> nat \<Rightarrow> nat \<Rightarrow> arp_state \<Rightarrow> (err_t \<times> arp_state) res" where
  "query_entry link n ip q i s =
     (let s = (if state (arp_table s i) = ETHARP_STATE_EMPTY
               then set_entry i (\<lambda>e. e\<lparr>state := ETHARP_STATE_PENDING\<rparr>) s else s)
      in rbind
        (if state (arp_table s i) = ETHARP_STATE_PENDING \<or> q = 0
         then etharp_request link n ip s else Inr (ERR_MEM, s))
        (\<lambda>(result, s).
          if q = 0 then Inr (result, s)
          else if is_stable (state (arp_table s i))
          then etharp_send_ip link n q (hwaddr (ifs s n)) (ethaddr (arp_table s i)) (s\<lparr>etharp_cached_entry := i\<rparr>)
          else if state (arp_table s i) = ETHARP_STATE_PENDING
          then
            rbind (take_over q s) (\<lambda>(p, s).
              if p \<noteq> 0
              then
                rbind (if queue (arp_table s i) \<noteq> 0 then free_pbuf (queue (arp_table s i)) s else Inr s) (\<lambda>s.
                  Inr (ERR_OK, set_entry i (\<lambda>e. e\<lparr>queue := p\<rparr>) s))
              else Inr (ERR_MEM, s))
          else Inr (result, s)))"

definition etharp_query :: "(nat \<Rightarrow> bytes \<Rightarrow> err_t) \<Rightarrow> nat \<Rightarrow> u32 \<Rightarrow> nat \<Rightarrow> arp_state \<Rightarrow> (err_t \<times> arp_state) res" where
  "etharp_query link n ip q s =
     (if ip4_addr_isbroadcast ip (ifs s n) \<or> ip_addr_ismulticast ip \<or> ip = IPADDR_ANY then Inr (ERR_ARG, s)
      else
        rbind (etharp_find_entry (Some ip) ETHARP_FLAG_TRY_HARD s) (\<lambda>(r, s).
          case r of None \<Rightarrow> Inr (ERR_MEM, s) | Some i \<Rightarrow> query_entry link n ip q i s))"

text \<open>The address of the packet's source, read from the IP header behind the Ethernet header.\<close>

definition load_u32 :: "(nat \<Rightarrow> u8) \<Rightarrow> nat \<Rightarrow> u32" where
  "load_u32 m a = ucast (m a) OR push_bit 8 (ucast (m (a + 1))) OR push_bit 16 (ucast (m (a + 2))) OR push_bit 24 (ucast (m (a + 3)))"

definition multicast_mac :: "u32 \<Rightarrow> bytes" where
  "multicast_mac ip =
     [0x01, 0x00, 0x5e, (host_bytes32 ip ! 1) AND 0x7f, host_bytes32 ip ! 2, host_bytes32 ip ! 3]"

text \<open>The search for a stable entry in \<^verbatim>\<open>etharp_output\<close>.\<close>

definition stable_for :: "u32 \<Rightarrow> arp_state \<Rightarrow> nat \<Rightarrow> bool" where
  "stable_for ip s i \<longleftrightarrow> is_stable (state (arp_table s i)) \<and> ip = ipaddr (arp_table s i)"

definition output_unicast :: "(nat \<Rightarrow> bytes \<Rightarrow> err_t) \<Rightarrow> nat \<Rightarrow> nat \<Rightarrow> u32 \<Rightarrow> arp_state \<Rightarrow> (err_t \<times> arp_state) res" where
  "output_unicast link n q dst s =
     (if stable_for dst s (etharp_cached_entry s)
      then etharp_output_to_arp_index link n q (etharp_cached_entry s) s
      else case find (stable_for dst s) [0..<ARP_TABLE_SIZE] of
          Some i \<Rightarrow> etharp_output_to_arp_index link n q i (s\<lparr>etharp_cached_entry := i\<rparr>)
        | None \<Rightarrow> etharp_query link n dst q s)"

definition etharp_output :: "(nat \<Rightarrow> bytes \<Rightarrow> err_t) \<Rightarrow> nat \<Rightarrow> nat \<Rightarrow> u32 \<Rightarrow> arp_state \<Rightarrow> (err_t \<times> arp_state) res" where
  "etharp_output link n q ip s =
     (if n = 0 \<or> q = 0 then Inl Abort
      else
        rbind (pbuf_header q (int SIZEOF_ETH_HDR) (pb s)) (\<lambda>(failed, b).
          let s = s\<lparr>pb := b\<rparr>; nif = ifs s n in
          if failed then Inr (ERR_BUF, s)
          else if ip4_addr_isbroadcast ip nif then etharp_send_ip link n q (hwaddr nif) ethbroadcast s
          else if ip_addr_ismulticast ip then etharp_send_ip link n q (hwaddr nif) (multicast_mac ip) s
          else if \<not> ip_addr_netcmp ip (ip_addr nif) (netmask nif) \<and> \<not> ip_addr_islinklocal ip
          then
            let src = load_u32 (bytes b) (payload (pbufs b q) + SIZEOF_ETH_HDR + 12)
            in if \<not> ip_addr_islinklocal src
               then (if gw nif \<noteq> IPADDR_ANY then output_unicast link n q (gw nif) s else Inr (ERR_RTE, s))
               else output_unicast link n q ip s
          else output_unicast link n q ip s))"

end
