(* ===== verification/Netif.thy ===== *)
theory Netif
  imports Etharp
begin

text \<open>
  \<^verbatim>\<open>src/src/lwip/core/netif.c\<close> without loopback, status callbacks, IGMP and SNMP, which \<^verbatim>\<open>opt.h\<close> turns
  off. Interfaces are found by address in \<open>ifs\<close> and linked through \<open>nif_next\<close>; a NULL address
  argument is None. The loops of \<^verbatim>\<open>netif_set_ipaddr\<close> over the TCP connections, which abort or
  rebind those that use the old address, are the argument \<open>tcp\<close>; the driver's initialisation
  function is the argument \<open>init\<close>. Walks over the interface list have fuel \<open>NETIF_MAX\<close>: the
  number of an interface is an \<^verbatim>\<open>u8_t\<close>.
\<close>

abbreviation NETIF_MAX :: nat where "NETIF_MAX \<equiv> 257"

definition set_if :: "nat \<Rightarrow> (netif \<Rightarrow> netif) \<Rightarrow> arp_state \<Rightarrow> arp_state" where
  "set_if n f s = s\<lparr>ifs := (ifs s)(n := f (ifs s n))\<rparr>"

text \<open>\<^verbatim>\<open>ip_addr_set(dest, src)\<close>.\<close>

definition addr_or_any :: "u32 option \<Rightarrow> u32" where
  "addr_or_any a = (case a of None \<Rightarrow> 0 | Some x \<Rightarrow> x)"

section \<open>Addresses\<close>

definition netif_set_gw :: "nat \<Rightarrow> u32 option \<Rightarrow> arp_state \<Rightarrow> arp_state" where
  "netif_set_gw n a s = set_if n (\<lambda>i. i\<lparr>gw := addr_or_any a\<rparr>) s"

definition netif_set_netmask :: "nat \<Rightarrow> u32 option \<Rightarrow> arp_state \<Rightarrow> arp_state" where
  "netif_set_netmask n a s = set_if n (\<lambda>i. i\<lparr>netmask := addr_or_any a\<rparr>) s"

type_synonym tcp_hook = "u32 \<Rightarrow> u32 \<Rightarrow> arp_state \<Rightarrow> arp_state res"

definition netif_set_ipaddr :: "tcp_hook \<Rightarrow> nat \<Rightarrow> u32 option \<Rightarrow> arp_state \<Rightarrow> arp_state res" where
  "netif_set_ipaddr tcp n a s =
     rbind
       (case a of
          Some x \<Rightarrow> if x \<noteq> ip_addr (ifs s n) then tcp (ip_addr (ifs s n)) x s else Inr s
        | None \<Rightarrow> Inr s)
       (\<lambda>s. Inr (set_if n (\<lambda>i. i\<lparr>ip_addr := addr_or_any a\<rparr>) s))"

definition netif_set_addr ::
    "tcp_hook \<Rightarrow> nat \<Rightarrow> u32 option \<Rightarrow> u32 option \<Rightarrow> u32 option \<Rightarrow> arp_state \<Rightarrow> arp_state res" where
  "netif_set_addr tcp n ip nm g s =
     rbind (netif_set_ipaddr tcp n ip s) (\<lambda>s. Inr (netif_set_gw n g (netif_set_netmask n nm s)))"

section \<open>The list of interfaces\<close>

definition netif_set_default :: "nat \<Rightarrow> arp_state \<Rightarrow> arp_state" where
  "netif_set_default n s = s\<lparr>netif_default := n\<rparr>"

text \<open>The interface, or 0 for NULL if its initialisation failed.\<close>

definition netif_add ::
    "tcp_hook \<Rightarrow> (nat \<Rightarrow> arp_state \<Rightarrow> (err_t \<times> arp_state) res) \<Rightarrow> nat \<Rightarrow> u32 option \<Rightarrow> u32 option \<Rightarrow> u32 option \<Rightarrow>
       arp_state \<Rightarrow> (nat \<times> arp_state) res" where
  "netif_add tcp init n ip nm g s =
     (let s = set_if n (\<lambda>i. i\<lparr>ip_addr := 0, netmask := 0, gw := 0, flags := 0, autoip := None, if_num := netif_num s\<rparr>) s;
          s = s\<lparr>netif_num := netif_num s + 1\<rparr>
      in
        rbind (netif_set_addr tcp n ip nm g s) (\<lambda>s.
        rbind (init n s) (\<lambda>(r, s).
          if r \<noteq> ERR_OK then Inr (0, s)
          else Inr (n, (set_if n (\<lambda>i. i\<lparr>nif_next := netif_list s\<rparr>) s)\<lparr>netif_list := n\<rparr>))))"

text \<open>The search of \<^verbatim>\<open>netif_remove\<close> for the predecessor; None if the interface is not in the list.\<close>

primrec unlink_loop :: "nat \<Rightarrow> nat \<Rightarrow> nat \<Rightarrow> arp_state \<Rightarrow> arp_state option res" where
  "unlink_loop 0 t n s = Inl No_Fuel"
| "unlink_loop (Suc fuel) t n s =
     (if t = 0 then Inr None
      else if nif_next (ifs s t) = n then Inr (Some (set_if t (\<lambda>i. i\<lparr>nif_next := nif_next (ifs s n)\<rparr>) s))
      else unlink_loop fuel (nif_next (ifs s t)) n s)"

section \<open>Up and down\<close>

definition netif_is_up :: "nat \<Rightarrow> arp_state \<Rightarrow> bool" where
  "netif_is_up n s \<longleftrightarrow> flags (ifs s n) AND NETIF_FLAG_UP \<noteq> 0"

text \<open>\<^verbatim>\<open>etharp_gratuitous\<close> of \<^verbatim>\<open>etharp.h\<close>.\<close>

definition etharp_gratuitous :: "(nat \<Rightarrow> bytes \<Rightarrow> err_t) \<Rightarrow> nat \<Rightarrow> arp_state \<Rightarrow> (err_t \<times> arp_state) res" where
  "etharp_gratuitous link n s = etharp_request link n (ip_addr (ifs s n)) s"

definition netif_set_up :: "(nat \<Rightarrow> bytes \<Rightarrow> err_t) \<Rightarrow> nat \<Rightarrow> arp_state \<Rightarrow> arp_state res" where
  "netif_set_up link n s =
     (if flags (ifs s n) AND NETIF_FLAG_UP = 0
      then
        let s = set_if n (\<lambda>i. i\<lparr>flags := flags i OR NETIF_FLAG_UP\<rparr>) s
        in if flags (ifs s n) AND NETIF_FLAG_LINK_UP \<noteq> 0 \<and> flags (ifs s n) AND NETIF_FLAG_ETHARP \<noteq> 0
           then rbind (etharp_gratuitous link n s) (\<lambda>(_, s). Inr s)
           else Inr s
      else Inr s)"

definition netif_set_down :: "nat \<Rightarrow> arp_state \<Rightarrow> arp_state res" where
  "netif_set_down n s =
     (if flags (ifs s n) AND NETIF_FLAG_UP \<noteq> 0
      then
        let s = set_if n (\<lambda>i. i\<lparr>flags := flags i AND NOT NETIF_FLAG_UP\<rparr>) s
        in if flags (ifs s n) AND NETIF_FLAG_ETHARP \<noteq> 0 then etharp_cleanup_netif n s else Inr s
      else Inr s)"

definition netif_set_link_down :: "nat \<Rightarrow> arp_state \<Rightarrow> arp_state" where
  "netif_set_link_down n s =
     (if flags (ifs s n) AND NETIF_FLAG_LINK_UP \<noteq> 0
      then set_if n (\<lambda>i. i\<lparr>flags := flags i AND NOT NETIF_FLAG_LINK_UP\<rparr>) s else s)"

definition netif_remove :: "nat \<Rightarrow> arp_state \<Rightarrow> arp_state res" where
  "netif_remove n s =
     (if n = 0 then Inr s
      else
        rbind (if netif_is_up n s then netif_set_down n s else Inr s) (\<lambda>s.
        rbind
          (if netif_list s = n then Inr (Some (s\<lparr>netif_list := nif_next (ifs s n)\<rparr>))
           else unlink_loop NETIF_MAX (netif_list s) n s)
          (\<lambda>r. case r of
                 None \<Rightarrow> Inr s
               | Some s \<Rightarrow> Inr (if netif_default s = n then netif_set_default 0 s else s))))"

text \<open>The name is a NUL-terminated text of which the code reads three characters; None is NULL.\<close>

primrec find_loop :: "nat \<Rightarrow> nat \<Rightarrow> char \<times> char \<Rightarrow> u8 \<Rightarrow> arp_state \<Rightarrow> nat res" where
  "find_loop 0 t nm k s = Inl No_Fuel"
| "find_loop (Suc fuel) t nm k s =
     (if t = 0 then Inr 0
      else if k = if_num (ifs s t) \<and> fst nm = fst (if_name (ifs s t)) \<and> snd nm = snd (if_name (ifs s t)) then Inr t
      else find_loop fuel (nif_next (ifs s t)) nm k s)"

definition netif_find :: "(char \<times> char \<times> char) option \<Rightarrow> arp_state \<Rightarrow> nat res" where
  "netif_find name s =
     (case name of
        None \<Rightarrow> Inr 0
      | Some (c0, c1, c2) \<Rightarrow> find_loop NETIF_MAX (netif_list s) (c0, c1) (of_char c2 - of_char CHR ''0'') s)"

end
