(* ===== verification/Autoip.thy ===== *)
theory Autoip
  imports Netif
begin

text \<open>
  \<^verbatim>\<open>src/src/lwip/core/ipv4/autoip.c\<close>: link-local addresses (RFC 3927). A client belongs to one
  interface; reaching it through a NULL pointer is \<open>Bad_Deref\<close>. The timer counts in ticks of
  100 ms; the waiting times come from \<^verbatim>\<open>LWIP_AUTOIP_RAND\<close>, which \<^verbatim>\<open>autoip.c\<close> computes from the hardware
  address and the number of addresses tried.
\<close>

abbreviation AUTOIP_NET :: u32 where "AUTOIP_NET \<equiv> 0xA9FE0000"
abbreviation AUTOIP_RANGE_START :: u32 where "AUTOIP_RANGE_START \<equiv> 0xA9FE0100"
abbreviation AUTOIP_RANGE_END :: u32 where "AUTOIP_RANGE_END \<equiv> 0xA9FEFEFF"
abbreviation PROBE_NUM :: u8 where "PROBE_NUM \<equiv> 3"
abbreviation ANNOUNCE_NUM :: u8 where "ANNOUNCE_NUM \<equiv> 2"
abbreviation MAX_CONFLICTS :: u8 where "MAX_CONFLICTS \<equiv> 10"
abbreviation SIZEOF_STRUCT_AUTOIP :: nat where "SIZEOF_STRUCT_AUTOIP \<equiv> 12"

definition set_autoip :: "nat \<Rightarrow> (autoip \<Rightarrow> autoip) \<Rightarrow> arp_state \<Rightarrow> arp_state" where
  "set_autoip n f s = set_if n (\<lambda>i. i\<lparr>autoip := map_option f (autoip i)\<rparr>) s"

definition client :: "nat \<Rightarrow> arp_state \<Rightarrow> autoip res" where
  "client n s = (case autoip (ifs s n) of None \<Rightarrow> Inl Bad_Deref | Some a \<Rightarrow> Inr a)"

text \<open>\<^verbatim>\<open>memset(autoip, 0, sizeof(struct autoip))\<close>.\<close>

definition new_autoip :: autoip where
  "new_autoip = \<lparr>llipaddr = 0, ai_state = AUTOIP_STATE_OFF, sent_num = 0, ttw = 0, lastconflict = 0, tried_llipaddr = 0\<rparr>"

definition LWIP_AUTOIP_RAND :: "netif \<Rightarrow> u32" where
  "LWIP_AUTOIP_RAND nif =
     (let h = hwaddr nif in
      (push_bit 24 (ucast (h ! 5)) OR push_bit 16 (ucast (h ! 3)) OR push_bit 8 (ucast (h ! 2)) OR ucast (h ! 4)) +
      (case autoip nif of None \<Rightarrow> 0 | Some a \<Rightarrow> ucast (tried_llipaddr a)))"

definition LWIP_AUTOIP_CREATE_SEED_ADDR :: "netif \<Rightarrow> u32" where
  "LWIP_AUTOIP_CREATE_SEED_ADDR nif =
     lwip_htonl (AUTOIP_RANGE_START + (ucast (hwaddr nif ! 4) OR push_bit 8 (ucast (hwaddr nif ! 5))))"

section \<open>Operations\<close>

definition autoip_set_struct :: "nat \<Rightarrow> arp_state \<Rightarrow> arp_state res" where
  "autoip_set_struct n s =
     (if n = 0 \<or> autoip (ifs s n) \<noteq> None then Inl Abort
      else Inr (set_if n (\<lambda>i. i\<lparr>autoip := Some new_autoip\<rparr>) s))"

text \<open>The new address, in network order.\<close>

definition autoip_create_addr :: "netif \<Rightarrow> u8 \<Rightarrow> u32 res" where
  "autoip_create_addr nif tried =
     (let addr = lwip_ntohl (LWIP_AUTOIP_CREATE_SEED_ADDR nif) + ucast tried;
          addr = AUTOIP_NET OR (addr AND 0xffff);
          addr = (if addr < AUTOIP_RANGE_START then addr + (AUTOIP_RANGE_END - AUTOIP_RANGE_START + 1) else addr);
          addr = (if addr > AUTOIP_RANGE_END then addr - (AUTOIP_RANGE_END - AUTOIP_RANGE_START + 1) else addr)
      in if \<not> (addr \<ge> AUTOIP_RANGE_START \<and> addr \<le> AUTOIP_RANGE_END) then Inl Abort
         else Inr (lwip_htonl addr))"

definition autoip_arp_probe :: "(nat \<Rightarrow> bytes \<Rightarrow> err_t) \<Rightarrow> nat \<Rightarrow> arp_state \<Rightarrow> (err_t \<times> arp_state) res" where
  "autoip_arp_probe link n s =
     rbind (client n s) (\<lambda>a.
       etharp_raw link n (hwaddr (ifs s n)) ethbroadcast (hwaddr (ifs s n)) IPADDR_ANY ethzero (llipaddr a) ARP_REQUEST s)"

definition autoip_arp_announce :: "(nat \<Rightarrow> bytes \<Rightarrow> err_t) \<Rightarrow> nat \<Rightarrow> arp_state \<Rightarrow> (err_t \<times> arp_state) res" where
  "autoip_arp_announce link n s =
     rbind (client n s) (\<lambda>a.
       etharp_raw link n (hwaddr (ifs s n)) ethbroadcast (hwaddr (ifs s n)) (llipaddr a) ethzero (llipaddr a) ARP_REQUEST s)"

definition autoip_bind :: "(nat \<Rightarrow> bytes \<Rightarrow> err_t) \<Rightarrow> tcp_hook \<Rightarrow> nat \<Rightarrow> arp_state \<Rightarrow> arp_state res" where
  "autoip_bind link tcp n s =
     rbind (client n s) (\<lambda>a.
     rbind (netif_set_ipaddr tcp n (Some (llipaddr a)) s) (\<lambda>s.
       netif_set_up link n (netif_set_gw n (Some 0) (netif_set_netmask n (Some (lwip_htonl 0xffff0000)) s))))"

definition autoip_start_probing :: "nat \<Rightarrow> arp_state \<Rightarrow> arp_state res" where
  "autoip_start_probing n s =
     rbind (client n s) (\<lambda>a.
       Inr (set_autoip n (\<lambda>a. a\<lparr>ai_state := AUTOIP_STATE_PROBING, sent_num := 0,
         ttw := (if tried_llipaddr a > MAX_CONFLICTS then 600 else ucast (LWIP_AUTOIP_RAND (ifs s n) mod 10))\<rparr>) s))"

definition autoip_start :: "nat \<Rightarrow> arp_state \<Rightarrow> (err_t \<times> arp_state) res" where
  "autoip_start n s =
     (let ai = autoip (ifs s n) in
      rbind (if netif_is_up n s then netif_set_down n s else Inr s) (\<lambda>s.
      let s = set_if n (\<lambda>i. i\<lparr>ip_addr := 0, netmask := 0, gw := 0\<rparr>) s in
      rbind
        (case ai of
           None \<Rightarrow>
             rbind (mem_malloc SIZEOF_STRUCT_AUTOIP (heap (pb s))) (\<lambda>(p, h).
               if p = 0 then Inr (ERR_MEM, s\<lparr>pb := (pb s)\<lparr>heap := h\<rparr>\<rparr>)
               else Inr (ERR_OK, set_if n (\<lambda>i. i\<lparr>autoip := Some new_autoip\<rparr>) (s\<lparr>pb := (pb s)\<lparr>heap := h\<rparr>\<rparr>)))
         | Some _ \<Rightarrow>
             Inr (ERR_OK, set_autoip n (\<lambda>a. a\<lparr>ai_state := AUTOIP_STATE_OFF, ttw := 0, sent_num := 0,
               llipaddr := 0, lastconflict := 0\<rparr>) s))
        (\<lambda>(r, s).
          if r \<noteq> ERR_OK then Inr (r, s)
          else
            rbind (client n s) (\<lambda>a.
            rbind (autoip_create_addr (ifs s n) (tried_llipaddr a)) (\<lambda>ip.
            rbind (autoip_start_probing n (set_autoip n (\<lambda>a. a\<lparr>llipaddr := ip\<rparr>) s)) (\<lambda>s.
              Inr (ERR_OK, s)))))))"

definition autoip_restart :: "nat \<Rightarrow> arp_state \<Rightarrow> arp_state res" where
  "autoip_restart n s =
     rbind (client n s) (\<lambda>a.
     rbind (autoip_start n (set_autoip n (\<lambda>a. a\<lparr>tried_llipaddr := tried_llipaddr a + 1\<rparr>) s)) (\<lambda>(_, s). Inr s))"

definition autoip_handle_arp_conflict :: "(nat \<Rightarrow> bytes \<Rightarrow> err_t) \<Rightarrow> nat \<Rightarrow> arp_state \<Rightarrow> arp_state res" where
  "autoip_handle_arp_conflict link n s =
     rbind (client n s) (\<lambda>a.
       if lastconflict a > 0 then autoip_restart n s
       else
         rbind (autoip_arp_announce link n s) (\<lambda>(_, s).
           Inr (set_autoip n (\<lambda>a. a\<lparr>lastconflict := 100\<rparr>) s)))"

definition autoip_network_changed :: "nat \<Rightarrow> arp_state \<Rightarrow> arp_state res" where
  "autoip_network_changed n s =
     (case autoip (ifs s n) of
        None \<Rightarrow> Inr s
      | Some a \<Rightarrow>
          if ai_state a \<noteq> AUTOIP_STATE_OFF then rbind (netif_set_down n s) (autoip_start_probing n) else Inr s)"

definition autoip_stop :: "nat \<Rightarrow> arp_state \<Rightarrow> (err_t \<times> arp_state) res" where
  "autoip_stop n s =
     rbind (client n s) (\<lambda>a.
     rbind (netif_set_down n (set_autoip n (\<lambda>a. a\<lparr>ai_state := AUTOIP_STATE_OFF\<rparr>) s)) (\<lambda>s. Inr (ERR_OK, s)))"

text \<open>\<^verbatim>\<open>netif_set_link_up\<close> of \<^verbatim>\<open>netif.c\<close>.\<close>

definition netif_set_link_up :: "(nat \<Rightarrow> bytes \<Rightarrow> err_t) \<Rightarrow> nat \<Rightarrow> arp_state \<Rightarrow> arp_state res" where
  "netif_set_link_up link n s =
     (if flags (ifs s n) AND NETIF_FLAG_LINK_UP = 0
      then
        let s = set_if n (\<lambda>i. i\<lparr>flags := flags i OR NETIF_FLAG_LINK_UP\<rparr>) s in
        rbind (if autoip (ifs s n) \<noteq> None then autoip_network_changed n s else Inr s) (\<lambda>s.
          if flags (ifs s n) AND NETIF_FLAG_UP \<noteq> 0 \<and> flags (ifs s n) AND NETIF_FLAG_ETHARP \<noteq> 0
          then rbind (etharp_gratuitous link n s) (\<lambda>(_, s). Inr s) else Inr s)
      else Inr s)"

section \<open>The timer\<close>

text \<open>The two active states of the \<^verbatim>\<open>switch\<close> in \<^verbatim>\<open>autoip_tmr\<close>, and the body of its loop.\<close>

definition tmr_probing :: "(nat \<Rightarrow> bytes \<Rightarrow> err_t) \<Rightarrow> nat \<Rightarrow> autoip \<Rightarrow> arp_state \<Rightarrow> arp_state res" where
  "tmr_probing link n a s =
     (if ttw a > 0 then Inr (set_autoip n (\<lambda>a. a\<lparr>ttw := ttw a - 1\<rparr>) s)
      else if sent_num a \<ge> PROBE_NUM
      then Inr (set_autoip n (\<lambda>a. a\<lparr>ai_state := AUTOIP_STATE_ANNOUNCING, sent_num := 0, ttw := 20\<rparr>) s)
      else
        rbind (autoip_arp_probe link n s) (\<lambda>(_, s).
          Inr (set_autoip n (\<lambda>a. a\<lparr>sent_num := sent_num a + 1, ttw := ucast (LWIP_AUTOIP_RAND (ifs s n) mod 10 + 10)\<rparr>) s)))"

definition tmr_announcing :: "(nat \<Rightarrow> bytes \<Rightarrow> err_t) \<Rightarrow> tcp_hook \<Rightarrow> nat \<Rightarrow> autoip \<Rightarrow> arp_state \<Rightarrow> arp_state res" where
  "tmr_announcing link tcp n a s =
     (if ttw a > 0 then Inr (set_autoip n (\<lambda>a. a\<lparr>ttw := ttw a - 1\<rparr>) s)
      else
        rbind
          (if sent_num a = 0 then autoip_bind link tcp n s
           else rbind (autoip_arp_announce link n s) (\<lambda>(_, s). Inr s))
          (\<lambda>s.
            let s = set_autoip n (\<lambda>a. a\<lparr>ttw := 20, sent_num := sent_num a + 1\<rparr>) s in
            rbind (client n s) (\<lambda>a.
              Inr (if sent_num a \<ge> ANNOUNCE_NUM
                   then set_autoip n (\<lambda>a. a\<lparr>ai_state := AUTOIP_STATE_BOUND, sent_num := 0, ttw := 0\<rparr>) s else s))))"

definition autoip_tick :: "(nat \<Rightarrow> bytes \<Rightarrow> err_t) \<Rightarrow> tcp_hook \<Rightarrow> nat \<Rightarrow> arp_state \<Rightarrow> arp_state res" where
  "autoip_tick link tcp n s =
     (case autoip (ifs s n) of
        None \<Rightarrow> Inr s
      | Some a \<Rightarrow>
          let s = (if lastconflict a > 0 then set_autoip n (\<lambda>a. a\<lparr>lastconflict := lastconflict a - 1\<rparr>) s else s) in
          rbind (client n s) (\<lambda>a.
            case ai_state a of
              AUTOIP_STATE_PROBING \<Rightarrow> tmr_probing link n a s
            | AUTOIP_STATE_ANNOUNCING \<Rightarrow> tmr_announcing link tcp n a s
            | _ \<Rightarrow> Inr s))"

primrec autoip_tmr_loop :: "nat \<Rightarrow> (nat \<Rightarrow> bytes \<Rightarrow> err_t) \<Rightarrow> tcp_hook \<Rightarrow> nat \<Rightarrow> arp_state \<Rightarrow> arp_state res" where
  "autoip_tmr_loop 0 link tcp n s = Inl No_Fuel"
| "autoip_tmr_loop (Suc fuel) link tcp n s =
     (if n = 0 then Inr s
      else rbind (autoip_tick link tcp n s) (\<lambda>s. autoip_tmr_loop fuel link tcp (nif_next (ifs s n)) s))"

definition autoip_tmr :: "(nat \<Rightarrow> bytes \<Rightarrow> err_t) \<Rightarrow> tcp_hook \<Rightarrow> arp_state \<Rightarrow> arp_state res" where
  "autoip_tmr link tcp s = autoip_tmr_loop NETIF_MAX link tcp (netif_list s) s"

section \<open>Conflicts\<close>

text \<open>A field of the frame in the pbuf \<open>p\<close>, by its offset.\<close>

definition field :: "nat \<Rightarrow> nat \<Rightarrow> nat \<Rightarrow> arp_state \<Rightarrow> bytes" where
  "field p off k s = read_bytes (bytes (pb s)) (payload (pbufs (pb s) p) + off) k"

definition field_u32 :: "nat \<Rightarrow> nat \<Rightarrow> arp_state \<Rightarrow> u32" where
  "field_u32 p off s = load_u32 (bytes (pb s)) (payload (pbufs (pb s) p) + off)"

text \<open>\<^verbatim>\<open>hdr\<close> is 14 bytes into the frame: \<^verbatim>\<open>shwaddr\<close> at 22, \<^verbatim>\<open>sipaddr\<close> at 28, \<^verbatim>\<open>dipaddr\<close> at 38.\<close>

definition autoip_arp_reply :: "(nat \<Rightarrow> bytes \<Rightarrow> err_t) \<Rightarrow> nat \<Rightarrow> nat \<Rightarrow> arp_state \<Rightarrow> arp_state res" where
  "autoip_arp_reply link n p s =
     (case autoip (ifs s n) of
        None \<Rightarrow> Inr s
      | Some a \<Rightarrow>
          if ai_state a = AUTOIP_STATE_OFF then Inr s
          else
            let netifaddr = take 6 (hwaddr (ifs s n)); sip = field_u32 p 28 s; dip = field_u32 p 38 s in
            if ai_state a = AUTOIP_STATE_PROBING \<or> ai_state a = AUTOIP_STATE_ANNOUNCING \<and> sent_num a = 0
            then (if sip = llipaddr a \<or> dip = llipaddr a \<and> netifaddr \<noteq> field p 22 6 s
                  then autoip_restart n s else Inr s)
            else if sip = llipaddr a \<and> netifaddr \<noteq> field p 22 6 s
            then autoip_handle_arp_conflict link n s
            else Inr s)"

end
