(* ===== verification/Driver.thy ===== *)
theory Driver
  imports Autoip
begin

text \<open>
  The program's own network driver, \<^verbatim>\<open>src/src/driver.c\<close> and \<^verbatim>\<open>src/src/util.c\<close>, which carries Ethernet
  frames over sound with libquiet, and the way of a received frame into the stack through
  \<^verbatim>\<open>tcpip_input\<close> of \<^verbatim>\<open>tcpip.c\<close>. libquiet is not part of the repository: the decoder is a value of any type that
  \<^verbatim>\<open>quiet_decoder_recv\<close>, the argument \<open>recv\<close>, turns into a length, the bytes stored in the buffer and
  the next decoder; the encoder is the list of frames handed to \<^verbatim>\<open>quiet_encoder_send\<close>. The temporary
  buffers are ranges of the byte memory. \<^verbatim>\<open>ETH_PAD_SIZE\<close> is 0.
\<close>

section \<open>State\<close>

record 'd eth_driver =
  encoder :: "bytes list"
  decoder :: 'd
  send_temp :: nat
  send_temp_len :: nat
  recv_temp :: nat
  recv_temp_len :: nat
  frame_dump :: bool
  encoder_open :: bool

text \<open>\<^verbatim>\<open>netif->state\<close> is \<open>drivers\<close>; \<open>inpkt\<close> is the content of the messages that carry packets.\<close>

record 'd drv_state =
  net :: arp_state
  inpkt :: "nat \<Rightarrow> nat \<times> nat"
  drivers :: "nat \<Rightarrow> 'd eth_driver"

definition set_pb :: "pb_state \<Rightarrow> 'd drv_state \<Rightarrow> 'd drv_state" where
  "set_pb b s = s\<lparr>net := (net s)\<lparr>pb := b\<rparr>\<rparr>"

definition set_driver :: "nat \<Rightarrow> ('d eth_driver \<Rightarrow> 'd eth_driver) \<Rightarrow> 'd drv_state \<Rightarrow> 'd drv_state" where
  "set_driver n f s = s\<lparr>drivers := (drivers s)(n := f (drivers s n))\<rparr>"

section \<open>Frames and pbufs\<close>

primrec pbuf2buf_loop :: "nat \<Rightarrow> nat \<Rightarrow> nat \<Rightarrow> nat \<Rightarrow> pb_state \<Rightarrow> (nat \<times> pb_state) res" where
  "pbuf2buf_loop 0 q buf len b = Inl No_Fuel"
| "pbuf2buf_loop (Suc fuel) q buf len b =
     (if q = 0 then Inr (len, b)
      else pbuf2buf_loop fuel (pnext (pbufs b q)) buf (len + plen (pbufs b q))
             (memcpy (buf + len) (payload (pbufs b q)) (plen (pbufs b q)) b))"

definition pbuf2buf :: "nat \<Rightarrow> nat \<Rightarrow> pb_state \<Rightarrow> (nat \<times> pb_state) res" where
  "pbuf2buf buf p b =
     rbind (pbuf_header p 0 b) (\<lambda>(_, b).
     rbind (pbuf2buf_loop PBUF_MAX p buf 0 b) (\<lambda>(len, b).
     rbind (pbuf_header p 0 b) (\<lambda>(_, b). Inr (len, b))))"

primrec buf2pbuf_loop :: "nat \<Rightarrow> nat \<Rightarrow> nat \<Rightarrow> nat \<Rightarrow> pb_state \<Rightarrow> pb_state res" where
  "buf2pbuf_loop 0 q buf copied b = Inl No_Fuel"
| "buf2pbuf_loop (Suc fuel) q buf copied b =
     (if q = 0 then Inr b
      else buf2pbuf_loop fuel (pnext (pbufs b q)) buf (copied + plen (pbufs b q))
             (memcpy (payload (pbufs b q)) (buf + copied) (plen (pbufs b q)) b))"

definition buf2pbuf :: "nat \<Rightarrow> nat \<Rightarrow> pb_state \<Rightarrow> (nat \<times> pb_state) res" where
  "buf2pbuf buf len b =
     rbind (pbuf_alloc PBUF_RAW (len mod 65536) PBUF_POOL b) (\<lambda>(p, b).
       if p = 0 then Inr (0, b)
       else
         rbind (buf2pbuf_loop PBUF_MAX p buf 0 b) (\<lambda>b.
         rbind (pbuf_header p 0 b) (\<lambda>(_, b). Inr (p, b))))"

section \<open>Sending\<close>

definition quiet_lwip_encode_frame :: "nat \<Rightarrow> nat \<Rightarrow> 'd drv_state \<Rightarrow> (err_t \<times> 'd drv_state) res" where
  "quiet_lwip_encode_frame n p s =
     (let buf = send_temp (drivers s n) in
      rbind (pbuf2buf buf p (pb (net s))) (\<lambda>(len, b).
        Inr (ERR_OK, set_driver n (\<lambda>d. d\<lparr>encoder := encoder d @ [read_bytes (bytes b) buf len]\<rparr>) (set_pb b s))))"

section \<open>Receiving\<close>

definition tcpip_input :: "nat \<Rightarrow> nat \<Rightarrow> 'd drv_state \<Rightarrow> (err_t \<times> 'd drv_state) res" where
  "tcpip_input p inp s =
     (let b = pb (net s) in
      case tcpip_mbox b of
        None \<Rightarrow> Inr (ERR_VAL, s)
      | Some mb \<Rightarrow>
          rbind (memp_malloc MEMP_TCPIP_MSG_INPKT (pools b)) (\<lambda>(msg, ps).
            if msg = 0 then Inr (ERR_MEM, set_pb (b\<lparr>pools := ps\<rparr>) s)
            else
              let s = s\<lparr>inpkt := (inpkt s)(msg := (p, inp))\<rparr> in
              case sys_mbox_trypost msg mb of
                None \<Rightarrow> Inl Blocked
              | Some r \<Rightarrow> rbind r (\<lambda>(e, mb).
                  if e \<noteq> ERR_OK
                  then Inr (ERR_MEM, set_pb (b\<lparr>pools := memp_free MEMP_TCPIP_MSG_INPKT msg ps, tcpip_mbox := Some mb\<rparr>) s)
                  else Inr (ERR_OK, set_pb (b\<lparr>pools := ps, tcpip_mbox := Some mb\<rparr>) s))))"

definition recv_pbuf :: "nat \<Rightarrow> nat \<Rightarrow> 'd drv_state \<Rightarrow> 'd drv_state res" where
  "recv_pbuf n p s =
     (let b = pb (net s);
          type = read_bytes (bytes b) (payload (pbufs b p) + 12) 2;
          drop_it = (\<lambda>s. rbind (pbuf_free p (pb (net s))) (\<lambda>(_, b). Inr (set_pb b s)))
      in if type = net_bytes16 0x0800 \<or> type = net_bytes16 0x0806
         then rbind (tcpip_input p n s) (\<lambda>(e, s). if e \<noteq> ERR_OK then drop_it s else Inr s)
         else drop_it s)"

text \<open>The pbuf, or 0 if there is none; the hexadecimal dump is output only.\<close>

definition quiet_lwip_fetch_single_frame ::
    "('d \<Rightarrow> nat \<Rightarrow> int \<times> bytes \<times> 'd) \<Rightarrow> nat \<Rightarrow> 'd drv_state \<Rightarrow> (nat \<times> 'd drv_state) res" where
  "quiet_lwip_fetch_single_frame recv n s =
     (let d = drivers s n; (len, bs, dec) = recv (decoder d) (recv_temp_len d);
          s = set_driver n (\<lambda>d. d\<lparr>decoder := dec\<rparr>) s;
          s = set_pb ((pb (net s))\<lparr>bytes := write_bytes (recv_temp d) bs (bytes (pb (net s)))\<rparr>) s
      in if len \<le> 0 then Inr (0, s)
         else rbind (buf2pbuf (recv_temp d) (nat len) (pb (net s))) (\<lambda>(p, b). Inr (p, set_pb b s)))"

text \<open>The loop of the receiving thread; fuel bounds the number of frames.\<close>

primrec quiet_lwip_process_audio ::
    "nat \<Rightarrow> ('d \<Rightarrow> nat \<Rightarrow> int \<times> bytes \<times> 'd) \<Rightarrow> nat \<Rightarrow> 'd drv_state \<Rightarrow> 'd drv_state res" where
  "quiet_lwip_process_audio 0 recv n s = Inl No_Fuel"
| "quiet_lwip_process_audio (Suc fuel) recv n s =
     rbind (quiet_lwip_fetch_single_frame recv n s) (\<lambda>(p, s).
       if p = 0 then Inr s
       else rbind (recv_pbuf n p s) (quiet_lwip_process_audio fuel recv n))"

section \<open>Interfaces\<close>

text \<open>
  \<^verbatim>\<open>quiet_lwip_interface_init\<close>: the encoder is given by its frame length, the decoder by its initial
  value; None is a failed creation. The part that concerns the \<^verbatim>\<open>struct netif\<close> is the
  initialisation function of \<^verbatim>\<open>netif_add\<close>; the \<^verbatim>\<open>eth_driver\<close> it allocates is \<open>new_driver\<close>, with the
  addresses \<^verbatim>\<open>malloc\<close> returned.
\<close>

definition quiet_lwip_interface_init :: "nat option \<Rightarrow> 'd option \<Rightarrow> bytes \<Rightarrow> nat \<Rightarrow> arp_state \<Rightarrow> (err_t \<times> arp_state) res" where
  "quiet_lwip_interface_init e d hw n s =
     (case e of
        None \<Rightarrow> Inr (ERR_IF, s)
      | Some frame_len \<Rightarrow>
          (case d of
             None \<Rightarrow> Inr (ERR_IF, s)
           | Some _ \<Rightarrow>
               Inr (ERR_OK, set_if n (\<lambda>i. i\<lparr>if_name := (CHR ''q'', CHR ''u''), hwaddr_len := ETHARP_HWADDR_LEN,
                 hwaddr := take 6 hw, mtu := of_nat frame_len,
                 flags := NETIF_FLAG_BROADCAST OR NETIF_FLAG_ETHARP OR NETIF_FLAG_LINK_UP\<rparr>) s)))"

definition new_driver :: "'d \<Rightarrow> nat \<Rightarrow> nat \<Rightarrow> netif \<Rightarrow> 'd eth_driver" where
  "new_driver d send recv i =
     \<lparr>encoder = [], decoder = d, send_temp = send, send_temp_len = unat (mtu i), recv_temp = recv,
      recv_temp_len = unat (mtu i), frame_dump = False, encoder_open = True\<rparr>"

text \<open>\<^verbatim>\<open>n\<close> is the memory for the interface. The result is 0 if the interface could not be created.\<close>

definition quiet_lwip_create ::
    "(nat \<Rightarrow> bytes \<Rightarrow> err_t) \<Rightarrow> tcp_hook \<Rightarrow> nat option \<Rightarrow> 'd option \<Rightarrow> bytes \<Rightarrow> nat \<Rightarrow> nat \<Rightarrow> nat \<Rightarrow> u32 \<Rightarrow> u32 \<Rightarrow> u32 \<Rightarrow>
       'd drv_state \<Rightarrow> (nat \<times> 'd drv_state) res" where
  "quiet_lwip_create link tcp e d hw send recv n addr nm g s =
     (let ptr = (\<lambda>a. if addr \<noteq> 0 then Some a else None) in
      rbind (netif_add tcp (quiet_lwip_interface_init e d hw) n (ptr addr) (ptr nm) (ptr g) (net s)) (\<lambda>(r, a).
        if r = 0 then Inr (0, s\<lparr>net := a\<rparr>)
        else
          let s = set_driver r (\<lambda>_. new_driver (the d) send recv (ifs a r)) s in
          rbind (if addr \<noteq> 0 then netif_set_up link r a else Inr a) (\<lambda>a. Inr (r, s\<lparr>net := a\<rparr>))))"

definition quiet_lwip_autoip :: "nat \<Rightarrow> arp_state \<Rightarrow> (nat \<times> arp_state) res" where
  "quiet_lwip_autoip n s =
     rbind (autoip_start n s) (\<lambda>(err, s).
       if err \<noteq> ERR_OK then rbind (netif_remove n s) (\<lambda>s. Inr (0, s)) else Inr (n, s))"

definition quiet_lwip_get_local_address :: "nat \<Rightarrow> arp_state \<Rightarrow> u32" where
  "quiet_lwip_get_local_address n s = ip_addr (ifs s n)"

definition quiet_lwip_get_netmask :: "nat \<Rightarrow> arp_state \<Rightarrow> u32" where
  "quiet_lwip_get_netmask n s = netmask (ifs s n)"

definition quiet_lwip_get_gateway :: "nat \<Rightarrow> arp_state \<Rightarrow> u32" where
  "quiet_lwip_get_gateway n s = gw (ifs s n)"

text \<open>
  \<^verbatim>\<open>quiet_decoder_close\<close> is the argument \<open>dclose\<close>. Joining the receiving thread is running the rest of its
  loop, with \<open>fuel\<close> for the frames the closed decoder still holds. Destroying the encoder and the
  decoder and freeing the interface end their use.
\<close>

definition quiet_lwip_close ::
    "nat \<Rightarrow> ('d \<Rightarrow> nat \<Rightarrow> int \<times> bytes \<times> 'd) \<Rightarrow> ('d \<Rightarrow> 'd) \<Rightarrow> nat \<Rightarrow> 'd drv_state \<Rightarrow> 'd drv_state res" where
  "quiet_lwip_close fuel recv dclose n s =
     rbind (quiet_lwip_process_audio fuel recv n (set_driver n (\<lambda>d. d\<lparr>decoder := dclose (decoder d)\<rparr>) s)) (\<lambda>s.
     rbind (netif_set_down n (net s)) (\<lambda>a.
       Inr (set_driver n (\<lambda>d. d\<lparr>encoder_open := False\<rparr>) (s\<lparr>net := a\<rparr>))))"

definition quiet_lwip_destroy ::
    "nat \<Rightarrow> ('d \<Rightarrow> nat \<Rightarrow> int \<times> bytes \<times> 'd) \<Rightarrow> ('d \<Rightarrow> 'd) \<Rightarrow> nat \<Rightarrow> 'd drv_state \<Rightarrow> 'd drv_state res" where
  "quiet_lwip_destroy fuel recv dclose n s =
     rbind (quiet_lwip_close fuel recv dclose n s) (\<lambda>s.
     rbind (netif_remove n (net s)) (\<lambda>a. Inr (s\<lparr>net := a\<rparr>)))"

end
