(* ===== verification/Eth_Input.thy ===== *)
theory Eth_Input
  imports Autoip
begin

text \<open>
  Reception of frames in \<^verbatim>\<open>src/src/lwip/netif/etharp.c\<close>: \<^verbatim>\<open>etharp_arp_input\<close> and
  \<^verbatim>\<open>ethernet_input\<close>. Header fields are read and written at their offsets in the frame. The IP
  layer, \<^verbatim>\<open>ip_input\<close>, is the argument \<open>ip_in\<close>.
\<close>

section \<open>ARP packets\<close>

text \<open>The reply to a request is made in the pbuf of the request.\<close>

definition arp_reply :: "(nat \<Rightarrow> bytes \<Rightarrow> err_t) \<Rightarrow> nat \<Rightarrow> nat \<Rightarrow> arp_state \<Rightarrow> arp_state res" where
  "arp_reply link n p s =
     (let nif = ifs s n;
          s = store p 20 (net_bytes16 ARP_REPLY) s;
          s = store p 38 (field p 28 4 s) s;
          s = store p 28 (host_bytes32 (ip_addr nif)) s
      in if hwaddr_len nif \<noteq> ETHARP_HWADDR_LEN then Inl Abort
         else
           let dst = (if ip_addr_islinklocal (ip_addr nif) then ethbroadcast else field p 22 6 s);
               s = store p 32 (field p 22 6 s) s;
               s = store p 0 dst s;
               s = store p 22 (hwaddr nif) s;
               s = store p 6 (hwaddr nif) s
           in Inr (snd (linkoutput link n p s)))"

definition etharp_arp_input :: "(nat \<Rightarrow> bytes \<Rightarrow> err_t) \<Rightarrow> nat \<Rightarrow> nat \<Rightarrow> arp_state \<Rightarrow> arp_state res" where
  "etharp_arp_input link n p s =
     (if n = 0 then Inl Abort
      else if plen (pbufs (pb s) p) < SIZEOF_ETHARP_PACKET then free_pbuf p s
      else if field p 14 2 s \<noteq> net_bytes16 1 \<or> field p 18 1 s \<noteq> [6] \<or> field p 19 1 s \<noteq> [4] \<or>
        field p 16 2 s \<noteq> net_bytes16 0x0800
      then free_pbuf p s
      else
        rbind (autoip_arp_reply link n p s) (\<lambda>s.
          let sip = field_u32 p 28 s; dip = field_u32 p 38 s;
              for_us = (ip_addr (ifs s n) \<noteq> IPADDR_ANY \<and> dip = ip_addr (ifs s n))
          in rbind (etharp_update_arp_entry link n sip (field p 22 6 s)
                     (if for_us then ETHARP_FLAG_TRY_HARD else ETHARP_FLAG_FIND_ONLY) s) (\<lambda>(_, s).
               rbind (if field p 20 2 s = net_bytes16 ARP_REQUEST \<and> for_us then arp_reply link n p s else Inr s)
                 (free_pbuf p))))"

section \<open>Ethernet frames\<close>

text \<open>What the destination address adds to the flags of the pbuf.\<close>

definition link_flags :: "bytes \<Rightarrow> u8" where
  "link_flags dest =
     (if dest ! 0 AND 1 \<noteq> 0 then
        (if dest ! 0 = 0x01
         then (if dest ! 1 = 0x00 \<and> dest ! 2 = 0x5e then PBUF_FLAG_LLMCAST else 0)
         else if dest = ethbroadcast then PBUF_FLAG_LLBCAST else 0)
      else 0)"

text \<open>
  \<^verbatim>\<open>ethernet_input\<close> up to the call of \<^verbatim>\<open>ip_input\<close>: the flag says whether the frame holds an IP packet, which the payload then points to; any other
  frame is taken care of.
\<close>

definition ethernet_frame :: "(nat \<Rightarrow> bytes \<Rightarrow> err_t) \<Rightarrow> nat \<Rightarrow> nat \<Rightarrow> arp_state \<Rightarrow> (bool \<times> arp_state) res" where
  "ethernet_frame link p n s =
     (if plen (pbufs (pb s) p) \<le> SIZEOF_ETH_HDR then rbind (free_pbuf p s) (\<lambda>s. Inr (False, s))
      else
        let type = field p 12 2 s;
            s = s\<lparr>pb := upd p (\<lambda>b. b\<lparr>pflags := pflags b OR link_flags (field p 0 6 s)\<rparr>) (pb s)\<rparr>
        in
          if type = net_bytes16 0x0800 then
            (if flags (ifs s n) AND NETIF_FLAG_ETHARP = 0 then rbind (free_pbuf p s) (\<lambda>s. Inr (False, s))
             else
               rbind (pbuf_header p (- int SIZEOF_ETH_HDR) (pb s)) (\<lambda>(failed, b).
                 if failed then Inl Abort else Inr (True, s\<lparr>pb := b\<rparr>)))
          else if type = net_bytes16 0x0806 then
            rbind (if flags (ifs s n) AND NETIF_FLAG_ETHARP = 0 then free_pbuf p s else etharp_arp_input link n p s) (\<lambda>s. Inr (False, s))
          else rbind (free_pbuf p s) (\<lambda>s. Inr (False, s)))"

end
