(* ===== verification/Pbuf_Frame.thy ===== *)
theory Pbuf_Frame
  imports Pbuf_Life
begin

text \<open>
  Which pbufs survive what is done to others: a pbuf that is \<open>placed\<close> (its memory is allocated
  and its payload lies where its type says) keeps its fields, its data and its memory when another
  heap pbuf is allocated, written or released. Modules that hold on to packets rest on these lemmas.
\<close>

section \<open>Placed pbufs\<close>

definition off_heap :: "mem_heap \<Rightarrow> nat \<Rightarrow> nat \<Rightarrow> bool" where
  "off_heap h a n \<longleftrightarrow> a + n \<le> ram h \<or> ram h + MEM_SIZE \<le> a"

definition placed :: "(memp_t \<Rightarrow> nat list) \<Rightarrow> pb_state \<Rightarrow> nat \<Rightarrow> bool" where
  "placed sl b q \<longleftrightarrow> owned sl b q \<and> q \<noteq> 0 \<and>
     (if ptype (pbufs b q) = PBUF_RAM
      then \<exists>e. (q, e) \<in> live (heap b) \<and> q + SIZEOF_STRUCT_PBUF \<le> payload (pbufs b q) \<and> payload (pbufs b q) + plen (pbufs b q) \<le> e
      else off_heap (heap b) q 0 \<and> off_heap (heap b) (payload (pbufs b q)) (plen (pbufs b q)))"

definition keeps :: "(memp_t \<Rightarrow> nat list) \<Rightarrow> pb_state \<Rightarrow> pb_state \<Rightarrow> nat \<Rightarrow> bool" where
  "keeps sl b b' q \<longleftrightarrow> pbufs b' q = pbufs b q \<and> pbuf_data b' q = pbuf_data b q \<and> placed sl b' q"

lemma keeps_refl: "placed sl b q \<Longrightarrow> keeps sl b b q"
  by (simp add: keeps_def)

lemma keeps_trans: "keeps sl b b' q \<Longrightarrow> keeps sl b' b'' q \<Longrightarrow> keeps sl b b'' q"
  by (simp add: keeps_def)

lemma keeps_placed: "keeps sl b b' q \<Longrightarrow> placed sl b' q"
  by (simp add: keeps_def)

text \<open>A packet in one heap pbuf that nobody else refers to.\<close>

definition single :: "(memp_t \<Rightarrow> nat list) \<Rightarrow> pb_state \<Rightarrow> nat \<Rightarrow> bool" where
  "single sl b q \<longleftrightarrow> placed sl b q \<and> ptype (pbufs b q) = PBUF_RAM \<and> pnext (pbufs b q) = 0 \<and>
     ref (pbufs b q) = 1 \<and> tot_len (pbufs b q) = plen (pbufs b q) \<and> plen (pbufs b q) < 65536"

lemma keeps_single: "keeps sl b b' q \<Longrightarrow> single sl b q \<Longrightarrow> single sl b' q"
  by (simp add: keeps_def single_def)

lemma single_packet: "single sl b q \<Longrightarrow> packet b q [q]"
  by (auto simp: single_def packet_def placed_def)

lemma single_live:
  assumes "mem_ok sl b" "single sl b q"
  obtains e where "(q, e) \<in> live (heap b)" "q + SIZEOF_STRUCT_PBUF \<le> payload (pbufs b q)"
    "payload (pbufs b q) + plen (pbufs b q) \<le> e" "ram (heap b) \<le> q" "e \<le> ram (heap b) + MEM_SIZE"
proof -
  obtain e where e: "(q, e) \<in> live (heap b)" "q + SIZEOF_STRUCT_PBUF \<le> payload (pbufs b q)"
    "payload (pbufs b q) + plen (pbufs b q) \<le> e" using assms(2) by (auto simp: single_def placed_def)
  have "heap_ok (heap b)" using assms(1) by (simp add: mem_ok_def)
  from live_bounds [OF this e(1)] show thesis using that [OF e] by simp
qed

lemma owned_bytes [simp]: "owned sl (b\<lparr>bytes := m\<rparr>) q = owned sl b q"
  by (simp add: owned_def cong: option.case_cong)

lemma bytes_irrelevant [simp]:
  "placed sl (b\<lparr>bytes := m\<rparr>) q = placed sl b q" "single sl (b\<lparr>bytes := m\<rparr>) q = single sl b q" "mem_ok sl (b\<lparr>bytes := m\<rparr>) = mem_ok sl b"
  "chain (b\<lparr>bytes := m\<rparr>) q qs = chain b q qs"
  by (simp_all add: single_def placed_def mem_ok_def chain_def)

section \<open>Allocating\<close>

lemma alloc_ram_frame:
  assumes ok: "mem_ok sl b" and sz: "SIZEOF_STRUCT_PBUF + layer_offset layer + len < 65536"
  obtains (none) "pbuf_alloc layer len PBUF_RAM b = Inr (0, b)"
  | (some) p b' where "pbuf_alloc layer len PBUF_RAM b = Inr (p, b')" "p \<noteq> 0" "mem_ok sl b'" "single sl b' p"
      "plen (pbufs b' p) = len" "payload (pbufs b' p) = p + SIZEOF_STRUCT_PBUF + layer_offset layer"
      "ram (heap b') = ram (heap b)" "\<And>q. placed sl b q \<Longrightarrow> q \<noteq> p \<and> keeps sl b b' q"
      "\<exists>h. b' = ram_pbuf layer len p h b" "pools b' = pools b" "bytes b' = bytes b"
proof -
  let ?sz = "SIZEOF_STRUCT_PBUF + layer_offset layer + len"
  have h: "heap_ok (heap b)" using ok by (simp add: mem_ok_def)
  obtain p h' where m: "mem_malloc (u16_of (int ?sz)) (heap b) = Inr (p, h')" "heap_ok h'" "ram h' = ram (heap b)"
    "p = 0 \<and> h' = heap b \<or> (\<exists>e. p + ?sz \<le> e \<and> (p, e) \<notin> live (heap b) \<and> live h' = insert (p, e) (live (heap b)) \<and> p \<noteq> 0)"
    using mem_malloc_law [OF h, of "u16_of (int ?sz)"] u16_of_small [of ?sz] sz by fastforce
  show thesis
  proof (cases "p = 0")
    case True
    then have "pbuf_alloc layer len PBUF_RAM b = Inr (0, b)" using m by (simp add: pbuf_alloc_def)
    then show thesis by (rule none)
  next
    case False
    then obtain e where e: "p + ?sz \<le> e" "(p, e) \<notin> live (heap b)" "live h' = insert (p, e) (live (heap b))" using m(4) by blast
    let ?b = "ram_pbuf layer len p h' b"
    have r: "pbuf_alloc layer len PBUF_RAM b = Inr (p, ?b)" using m(1) False by (rule pbuf_alloc_ram_eq)
    have mo: "mem_ok sl ?b" using ok m(2) by (simp add: mem_ok_def)
    have own: "owned sl ?b p" using e(3) by (auto simp: owned_def pool_of_def is_custom_def)
    have pl: "placed sl ?b p" using own False e by (auto simp: placed_def intro!: exI [of _ e])
    have bnd: "ram h' < p" "e \<le> ram h' + MEM_SIZE" "p < e" using live_bounds [OF m(2), of p e] e(3) by auto
    have other: "q \<noteq> p \<and> keeps sl b ?b q" if q: "placed sl b q" for q
    proof -
      have "q \<noteq> p"
      proof (cases "ptype (pbufs b q) = PBUF_RAM")
        case True
        then obtain f where f: "(q, f) \<in> live (heap b)" using q by (auto simp: placed_def)
        then show ?thesis using heap.disjoint_law [OF m(2), of q f p e] heap.extent_law [OF m(2), of q f] e bnd
          by (metis insert_iff less_irrefl not_less_iff_gr_or_eq order.strict_trans)
      next
        case False
        then show ?thesis using q bnd m(3) by (auto simp: placed_def off_heap_def)
      qed
      then show ?thesis
        using q e(3) m(3) by (auto simp: keeps_def placed_def owned_def off_heap_def ram_pbuf_def pbuf_data_def split: option.splits)
    qed
    have sg: "single sl ?b p" using pl sz by (simp add: single_def)
    show thesis by (rule some [OF r False mo sg]) (use other m(3) in \<open>auto simp: ram_pbuf_def\<close>)
  qed
qed

section \<open>Writing\<close>

lemma placed_apart:
  assumes ok: "mem_ok sl b" and p: "placed sl b p" and q: "placed sl b q" and ne: "q \<noteq> p"
    and one: "ptype (pbufs b p) = PBUF_RAM \<or> ptype (pbufs b q) = PBUF_RAM"
    and n: "off + n \<le> plen (pbufs b p)"
  shows "apart (payload (pbufs b p) + off) n (payload (pbufs b q)) (plen (pbufs b q))"
proof -
  let ?P = "payload (pbufs b p)" let ?Q = "payload (pbufs b q)"
  have h: "heap_ok (heap b)" using ok by (simp add: mem_ok_def)
  show ?thesis
  proof (cases "ptype (pbufs b p) = PBUF_RAM")
    case True
    then obtain e where e: "(p, e) \<in> live (heap b)" "p \<le> ?P" "?P + plen (pbufs b p) \<le> e" using p by (auto simp: placed_def)
    note be = live_bounds [OF h e(1)]
    show ?thesis
    proof (cases "ptype (pbufs b q) = PBUF_RAM")
      case True
      then obtain f where f: "(q, f) \<in> live (heap b)" "q \<le> ?Q" "?Q + plen (pbufs b q) \<le> f" using q by (auto simp: placed_def)
      from heap.disjoint_law [OF h e(1) f(1)] ne have "e < q \<or> f < p" by blast
      then show ?thesis using e f n by (auto simp: apart_def)
    next
      case False
      then show ?thesis using q e be n by (auto simp: placed_def off_heap_def apart_def)
    qed
  next
    case False
    then obtain f where f: "(q, f) \<in> live (heap b)" "q \<le> ?Q" "?Q + plen (pbufs b q) \<le> f" using q one by (auto simp: placed_def)
    note bf = live_bounds [OF h f(1)]
    show ?thesis using False p f bf n by (auto simp: placed_def off_heap_def apart_def)
  qed
qed

lemma write_frame:
  assumes "mem_ok sl b" "placed sl b p" "placed sl b q" "q \<noteq> p"
    "ptype (pbufs b p) = PBUF_RAM \<or> ptype (pbufs b q) = PBUF_RAM" "off + length bs \<le> plen (pbufs b p)"
  shows "keeps sl b (b\<lparr>bytes := write_bytes (payload (pbufs b p) + off) bs (bytes b)\<rparr>) q"
  using read_write_apart [OF placed_apart [OF assms]] assms(3)
  by (simp add: keeps_def pbuf_data_def placed_def owned_def cong: option.case_cong)

text \<open>A chain of pbufs that are all kept is the same packet.\<close>

lemma keeps_content: "\<forall>x \<in> set qs. keeps sl b b' x \<Longrightarrow> content b' qs = content b qs"
  by (rule content_cong) (simp add: keeps_def)

lemma keeps_tot_ok: "\<forall>x \<in> set qs. keeps sl b b' x \<Longrightarrow> tot_ok b' qs = tot_ok b qs"
proof (induction qs)
  case (Cons x qs)
  then show ?case using keeps_content [OF Cons.prems] by (simp add: keeps_def del: content_simps)
qed simp

lemma keeps_packet: "\<forall>x \<in> set qs. keeps sl b b' x \<Longrightarrow> packet b' q qs = packet b q qs"
  using keeps_content [of qs sl b b'] keeps_tot_ok [of qs sl b b'] chain_cong [of qs b' b q]
  by (auto simp: packet_def keeps_def)

section \<open>Releasing\<close>

lemma free_frame:
  assumes ok: "mem_ok sl b" and p: "single sl b p"
  obtains b' where "pbuf_free p b = Inr (1, b')" "mem_ok sl b'" "ram (heap b') = ram (heap b)" "bytes b' = bytes b"
    "\<And>q. placed sl b q \<Longrightarrow> q \<noteq> p \<Longrightarrow> keeps sl b b' q" "pools b' = pools b"
    "pbufs b' = (pbufs b)(p := (pbufs b p)\<lparr>ref := 0\<rparr>)" "\<exists>e. (p, e) \<in> live (heap b) \<and> live (heap b') = live (heap b) - {(p, e)}"
proof -
  obtain e where e: "(p, e) \<in> live (heap b)" using single_live [OF ok p] by blast
  have h: "heap_ok (heap b)" using ok by (simp add: mem_ok_def)
  obtain h' where h': "mem_free p (heap b) = Inr h'" "heap_ok h'" "ram h' = ram (heap b)" "live h' = live (heap b) - {(p, e)}"
    using mem_free_law [OF h e] by blast
  let ?b = "(upd p (\<lambda>x. x\<lparr>ref := 0\<rparr>) b)\<lparr>heap := h'\<rparr>"
  have s: "p \<noteq> 0" "ref (pbufs b p) = 1" "\<not> is_custom (pbufs b p)" "ptype (pbufs b p) = PBUF_RAM" "pnext (pbufs b p) = 0"
    using p by (auto simp: single_def placed_def owned_def)
  have run: "pbuf_free p b = Inr (1, ?b)"
  proof -
    have f: "PBUF_MAX = Suc (Suc 1022)" by simp
    have "free_loop (Suc (Suc 1022)) p 0 b = Inr (1, ?b)"
      unfolding free_loop_owned [OF s(3,1,2)] using s h'(1) free_loop.simps(2) [of 1022 0]
      by (simp add: release_def del: free_loop.simps)
    then show ?thesis unfolding pbuf_free_def f using s(1) by (simp del: free_loop.simps)
  qed
  have fields: "heap ?b = h'" "pools ?b = pools b" "bytes ?b = bytes b" "pbufs ?b = (pbufs b)(p := (pbufs b p)\<lparr>ref := 0\<rparr>)"
    by simp_all
  show thesis
  proof (rule that [OF run])
    show "mem_ok sl ?b" using ok h'(2) by (simp add: mem_ok_def)
    show "keeps sl b ?b q" if q: "placed sl b q" "q \<noteq> p" for q
    proof -
      have "(q, f) \<in> live h'" if "(q, f) \<in> live (heap b)" for f using that q(2) h'(4) by simp
      then show ?thesis
        using q h'(3) unfolding keeps_def placed_def owned_def off_heap_def pbuf_data_def fields
        by (auto split: option.splits) blast+
    qed
    show "\<exists>e. (p, e) \<in> live (heap b) \<and> live (heap ?b) = live (heap b) - {(p, e)}" unfolding fields using e h'(4) by (intro exI [of _ e] conjI)
  qed (simp_all add: h'(3))
qed

section \<open>Copying a packet into one pbuf\<close>

lemma copy_loop_step:
  assumes "p \<noteq> 0" "q \<noteq> 0" "ot + plen (pbufs s q) \<le> plen (pbufs s p)" "plen (pbufs s p) < 65536"
    "tot_len (pbufs s p) = plen (pbufs s p)" "pnext (pbufs s p) = 0"
    "pnext (pbufs s q) \<noteq> 0 \<Longrightarrow> ot + plen (pbufs s q) < plen (pbufs s p)"
    "pnext (pbufs s q) \<noteq> 0 \<Longrightarrow> pnext (pbufs s (pnext (pbufs s q))) \<noteq> 0 \<Longrightarrow>
       plen (pbufs s (pnext (pbufs s q))) \<noteq> tot_len (pbufs s (pnext (pbufs s q)))"
    and s1: "s1 = s\<lparr>bytes := write_bytes (payload (pbufs s p) + ot) (pbuf_data s q) (bytes s)\<rparr>"
  shows "copy_loop (Suc f) p q ot 0 s =
    (if pnext (pbufs s q) = 0 then Inr (ERR_OK, s1) else copy_loop f p (pnext (pbufs s q)) (ot + plen (pbufs s q)) 0 s1)"
proof -
  have n: "u16_of (int (plen (pbufs s q)) - int 0) = plen (pbufs s q)" "u16_of (int (ot + plen (pbufs s q))) = ot + plen (pbufs s q)"
    "u16_of (int (0 + plen (pbufs s q))) = plen (pbufs s q)"
    using assms(3,4) by (simp_all add: u16_of_small del: of_nat_add)
  have ge: "int (plen (pbufs s p)) - int ot \<ge> int (plen (pbufs s q)) - int 0" using assms(3) by simp
  have mc: "memcpy (payload (pbufs s p) + ot) (payload (pbufs s q) + 0) (plen (pbufs s q)) s = s1"
    by (simp add: memcpy_def pbuf_data_def s1)
  show ?thesis
    unfolding copy_loop.simps(2) Let_def if_P [OF ge] n mc
    using assms(1-8) by (cases "pnext (pbufs s q) = 0"; cases "ot + plen (pbufs s q) = plen (pbufs s p)") auto
qed

lemma tot_ok_write:
  "dest_apart s ps d (length bs) \<Longrightarrow> tot_ok (s\<lparr>bytes := write_bytes d bs (bytes s)\<rparr>) ps = tot_ok s ps"
proof (induction ps)
  case (Cons q qs)
  then show ?case using content_write [OF Cons.prems] by (auto simp: dest_apart_def simp del: content_simps)
qed simp

lemma copy_loop_single:
  assumes "chain s q (q # qs)" "tot_ok s (q # qs)" "\<forall>x \<in> set (q # qs). 0 < plen (pbufs s x)" "length (q # qs) \<le> fuel"
    "ot + length (content s (q # qs)) = plen (pbufs s p)" "plen (pbufs s p) < 65536" "tot_len (pbufs s p) = plen (pbufs s p)"
    "pnext (pbufs s p) = 0" "p \<noteq> 0" "dest_apart s (q # qs) (payload (pbufs s p) + ot) (length (content s (q # qs)))"
  shows "copy_loop fuel p q ot 0 s =
    Inr (ERR_OK, s\<lparr>bytes := write_bytes (payload (pbufs s p) + ot) (content s (q # qs)) (bytes s)\<rparr>)"
  using assms
proof (induction qs arbitrary: q ot fuel s)
  case Nil
  then obtain f where f: "fuel = Suc f" by (cases fuel) auto
  from Nil.prems have q: "q \<noteq> 0" "pnext (pbufs s q) = 0" "ot + plen (pbufs s q) \<le> plen (pbufs s p)" by auto
  show ?case
    unfolding f using copy_loop_step [OF Nil.prems(9) q(1,3) Nil.prems(6,7,8) _ _ refl, of f] q(2) by simp
next
  case (Cons r rs)
  then obtain f where f: "fuel = Suc f" "length (r # rs) \<le> f" by (cases fuel) auto
  let ?l = "plen (pbufs s q)" let ?P = "payload (pbufs s p)"
  from Cons.prems have q: "q \<noteq> 0" "pnext (pbufs s q) = r" "chain s r (r # rs)" "r \<noteq> 0" by auto
  have l: "ot + ?l + length (content s (r # rs)) = plen (pbufs s p)" "0 < length (content s (r # rs))"
    using Cons.prems(3,5) by simp_all
  have lt: "ot + ?l < plen (pbufs s p)" "ot + ?l \<le> plen (pbufs s p)" using l by linarith+
  have nq: "plen (pbufs s r) \<noteq> tot_len (pbufs s r)" if "pnext (pbufs s r) \<noteq> 0"
    using that q(3) Cons.prems(2,3) by (cases rs) auto
  define s1 where "s1 = s\<lparr>bytes := write_bytes (?P + ot) (pbuf_data s q) (bytes s)\<rparr>"
  have da: "dest_apart s (r # rs) (?P + ot) (length (pbuf_data s q))"
    using Cons.prems(10) by (auto simp: dest_apart_def intro: apart_mono)
  have c1: "content s1 (r # rs) = content s (r # rs)" using content_write [OF da] by (simp only: s1_def)
  have da1: "dest_apart s1 (r # rs) (?P + (ot + ?l)) (length (content s (r # rs)))"
    using dest_apart_sub [OF Cons.prems(10), of "r # rs" ?l] unfolding s1_def by (auto simp: add.assoc)
  have pb1: "pbufs s1 = pbufs s" by (simp add: s1_def)
  have "copy_loop f p r (ot + ?l) 0 s1 =
      Inr (ERR_OK, s1\<lparr>bytes := write_bytes (payload (pbufs s1 p) + (ot + ?l)) (content s1 (r # rs)) (bytes s1)\<rparr>)"
  proof (rule Cons.IH)
    show "chain s1 r (r # rs)" using q(3) by (subst chain_cong [of _ _ s]) (simp_all add: pb1)
    show "tot_ok s1 (r # rs)" using Cons.prems(2) tot_ok_write [OF da] by (simp add: s1_def)
    show "ot + ?l + length (content s1 (r # rs)) = plen (pbufs s1 p)" using l(1) c1 pb1 by simp
    show "dest_apart s1 (r # rs) (payload (pbufs s1 p) + (ot + ?l)) (length (content s1 (r # rs)))"
      using da1 by (simp only: c1 pb1)
  qed (use Cons.prems f in \<open>auto simp: pb1\<close>)
  also have "s1\<lparr>bytes := write_bytes (payload (pbufs s1 p) + (ot + ?l)) (content s1 (r # rs)) (bytes s1)\<rparr> =
      s\<lparr>bytes := write_bytes (?P + ot) (content s (q # r # rs)) (bytes s)\<rparr>"
    using write_bytes_append [of "?P + ot" "pbuf_data s q" "content s (r # rs)" "bytes s"]
    unfolding c1 pb1 by (simp add: s1_def add.assoc)
  finally show ?case
    using copy_loop_step [OF Cons.prems(9) q(1) lt(2) Cons.prems(6,7,8) _ _ s1_def, of f] lt(1) nq q(2,4) f(1) by simp
qed

lemma pbuf_copy_single:
  assumes "packet s q qs" "\<forall>x \<in> set qs. 0 < plen (pbufs s x)" "plen (pbufs s p) = length (content s qs)"
    "tot_len (pbufs s p) = plen (pbufs s p)" "pnext (pbufs s p) = 0" "p \<noteq> 0"
    "dest_apart s qs (payload (pbufs s p)) (length (content s qs))"
  shows "pbuf_copy p q s = Inr (ERR_OK, s\<lparr>bytes := write_bytes (payload (pbufs s p)) (content s qs) (bytes s)\<rparr>)"
proof -
  obtain rs where qs: "qs = q # rs" "q \<noteq> 0" using assms(1) by (cases qs) (auto simp: packet_def)
  have "tot_len (pbufs s p) \<ge> tot_len (pbufs s q)" using assms(1,3,4) by (simp add: packet_def qs)
  moreover have "copy_loop (2 * PBUF_MAX) p q 0 0 s =
      Inr (ERR_OK, s\<lparr>bytes := write_bytes (payload (pbufs s p) + 0) (content s (q # rs)) (bytes s)\<rparr>)"
    using assms unfolding qs by (intro copy_loop_single) (auto simp: packet_def)
  ultimately show ?thesis using assms(6) qs by (simp add: pbuf_copy_def)
qed

end
