(* ===== verification/Etharp_Cache.thy ===== *)
theory Etharp_Cache
  imports Etharp Pbuf_Frame
begin

text \<open>
  What the ARP cache guarantees: which entry a search finds or recycles, the invariant of the table
  and of the packets queued on it, and that resolving an address sends the queued packet.
\<close>

section \<open>Searching the table\<close>

definition occupied :: "arp_state \<Rightarrow> u32 \<Rightarrow> nat \<Rightarrow> bool" where
  "occupied s ip i \<longleftrightarrow> i < ARP_TABLE_SIZE \<and> state (arp_table s i) \<noteq> ETHARP_STATE_EMPTY \<and> ipaddr (arp_table s i) = ip"

definition oldest :: "(nat \<Rightarrow> bool) \<Rightarrow> (nat \<Rightarrow> etharp_entry) \<Rightarrow> nat \<Rightarrow> bool" where
  "oldest P tab i \<longleftrightarrow> i < ARP_TABLE_SIZE \<and> P i \<and> (\<forall>k < ARP_TABLE_SIZE. P k \<longrightarrow> ctime (tab k) \<le> ctime (tab i))"

definition stable_at :: "(nat \<Rightarrow> etharp_entry) \<Rightarrow> nat \<Rightarrow> bool" where
  "stable_at tab i \<longleftrightarrow> is_stable (state (tab i))"

definition waiting_at :: "(nat \<Rightarrow> etharp_entry) \<Rightarrow> bool \<Rightarrow> nat \<Rightarrow> bool" where
  "waiting_at tab queued i \<longleftrightarrow> state (tab i) = ETHARP_STATE_PENDING \<and> (queue (tab i) \<noteq> 0) = queued"

text \<open>
  The least important entry of a full table: the oldest stable one, else the oldest pending one
  without a packet, else the oldest pending one.
\<close>

definition victim :: "(nat \<Rightarrow> etharp_entry) \<Rightarrow> nat \<Rightarrow> bool" where
  "victim tab i \<longleftrightarrow>
     (if \<exists>k < ARP_TABLE_SIZE. stable_at tab k then oldest (stable_at tab) tab i
      else if \<exists>k < ARP_TABLE_SIZE. waiting_at tab False k then oldest (waiting_at tab False) tab i
      else oldest (waiting_at tab True) tab i)"

definition cand_ok :: "(nat \<Rightarrow> bool) \<Rightarrow> (nat \<Rightarrow> etharp_entry) \<Rightarrow> nat list \<Rightarrow> nat \<Rightarrow> nat \<Rightarrow> bool" where
  "cand_ok P tab js old age \<longleftrightarrow>
     (if \<exists>k \<in> set js. P k then old \<in> set js \<and> P old \<and> age = ctime (tab old) \<and> (\<forall>k \<in> set js. P k \<longrightarrow> ctime (tab k) \<le> age)
      else old = ARP_TABLE_SIZE \<and> age = 0)"

lemma cand_ok_skip: "cand_ok P tab js old age \<Longrightarrow> \<not> P i \<Longrightarrow> cand_ok P tab (js @ [i]) old age"
  by (auto simp: cand_ok_def split: if_splits)

lemma cand_ok_keep: "cand_ok P tab js old age \<Longrightarrow> \<not> ctime (tab i) \<ge> age \<Longrightarrow> cand_ok P tab (js @ [i]) old age"
  by (auto simp: cand_ok_def split: if_splits)

lemma cand_ok_take: "cand_ok P tab js old age \<Longrightarrow> P i \<Longrightarrow> ctime (tab i) \<ge> age \<Longrightarrow> cand_ok P tab (js @ [i]) i (ctime (tab i))"
  by (auto simp: cand_ok_def split: if_splits intro: le_trans)

definition scan_ok :: "(nat \<Rightarrow> etharp_entry) \<Rightarrow> nat list \<Rightarrow> candidates \<Rightarrow> bool" where
  "scan_ok tab js c \<longleftrightarrow>
     (if \<exists>k \<in> set js. state (tab k) = ETHARP_STATE_EMPTY then empty c \<in> set js \<and> state (tab (empty c)) = ETHARP_STATE_EMPTY
      else empty c = ARP_TABLE_SIZE) \<and>
     cand_ok (stable_at tab) tab js (old_stable c) (age_stable c) \<and>
     cand_ok (waiting_at tab False) tab js (old_pending c) (age_pending c) \<and>
     cand_ok (waiting_at tab True) tab js (old_queue c) (age_queue c)"

lemma find_scan_spec:
  assumes "scan_ok tab js c" "ARP_TABLE_SIZE \<notin> set (js @ is)"
  shows "case find_scan is ip tab c of
     Inl i \<Rightarrow> i \<in> set is \<and> state (tab i) \<noteq> ETHARP_STATE_EMPTY \<and> ip = Some (ipaddr (tab i))
   | Inr c' \<Rightarrow> (\<forall>i \<in> set is. state (tab i) \<noteq> ETHARP_STATE_EMPTY \<longrightarrow> ip \<noteq> Some (ipaddr (tab i))) \<and> scan_ok tab (js @ is) c'"
  using assms
proof (induction "is" arbitrary: js c)
  case (Cons i "is")
  let ?e = "tab i"
  have step: ?case if "find_scan (i # is) ip tab c = find_scan is ip tab c'"
    "state ?e \<noteq> ETHARP_STATE_EMPTY \<longrightarrow> ip \<noteq> Some (ipaddr ?e)" "scan_ok tab (js @ [i]) c'" for c'
    using Cons.IH [of "js @ [i]" c'] that Cons.prems(2) by (auto simp del: find_scan.simps split: sum.splits)
  have none: "empty c \<noteq> ARP_TABLE_SIZE \<longleftrightarrow> (\<exists>k \<in> set js. state (tab k) = ETHARP_STATE_EMPTY)"
    using Cons.prems by (auto simp: scan_ok_def split: if_splits)
  consider (empty) "state ?e = ETHARP_STATE_EMPTY" | (match) "state ?e \<noteq> ETHARP_STATE_EMPTY" "ip = Some (ipaddr ?e)"
    | (wait) b where "waiting_at tab b i" "ip \<noteq> Some (ipaddr ?e)"
    | (stable) "stable_at tab i" "ip \<noteq> Some (ipaddr ?e)"
    by (cases "state ?e") (auto simp: waiting_at_def stable_at_def is_stable_def)
  then show ?case
  proof cases
    case empty
    have n: "\<not> stable_at tab i" "\<not> waiting_at tab b i" for b
      using empty by (auto simp: stable_at_def is_stable_def waiting_at_def)
    show ?thesis
    proof (cases "empty c = ARP_TABLE_SIZE")
      case True
      then show ?thesis using empty n none Cons.prems
        by (intro step [of "c\<lparr>empty := i\<rparr>"]) (auto simp: scan_ok_def intro: cand_ok_skip)
    next
      case False
      then show ?thesis using empty n none Cons.prems
        by (intro step [of c]) (auto simp: scan_ok_def intro: cand_ok_skip split: if_splits)
    qed
  next
    case match
    then show ?thesis by simp
  next
    case (wait b)
    then have st: "state ?e = ETHARP_STATE_PENDING" "(queue ?e \<noteq> 0) = b" "\<not> stable_at tab i" "\<not> waiting_at tab (\<not> b) i"
      by (auto simp: waiting_at_def stable_at_def is_stable_def)
    define c' where "c' = (if b then (if ctime ?e \<ge> age_queue c then c\<lparr>old_queue := i, age_queue := ctime ?e\<rparr> else c)
       else (if ctime ?e \<ge> age_pending c then c\<lparr>old_pending := i, age_pending := ctime ?e\<rparr> else c))"
    have "find_scan (i # is) ip tab c = find_scan is ip tab c'" using wait st by (auto simp: c'_def Let_def)
    moreover have "scan_ok tab (js @ [i]) c'"
      using Cons.prems(1) st wait(1) unfolding c'_def
      by (cases b) (auto simp: scan_ok_def intro: cand_ok_skip cand_ok_keep cand_ok_take split: if_splits)
    ultimately show ?thesis using wait(2) by (intro step) simp_all
  next
    case stable
    then have st: "state ?e \<noteq> ETHARP_STATE_EMPTY" "state ?e \<noteq> ETHARP_STATE_PENDING" "\<not> waiting_at tab b i" for b
      by (auto simp: waiting_at_def stable_at_def is_stable_def)
    define c' where "c' = (if ctime ?e \<ge> age_stable c then c\<lparr>old_stable := i, age_stable := ctime ?e\<rparr> else c)"
    have "find_scan (i # is) ip tab c = find_scan is ip tab c'" using stable st by (auto simp: c'_def Let_def)
    moreover have "scan_ok tab (js @ [i]) c'"
      using Cons.prems(1) st stable(1) unfolding c'_def
      by (auto simp: scan_ok_def intro: cand_ok_skip cand_ok_keep cand_ok_take split: if_splits)
    ultimately show ?thesis using stable(2) by (intro step) simp_all
  qed
qed simp

lemma scan_ok_start: "scan_ok tab [] no_candidates"
  by (simp add: scan_ok_def cand_ok_def no_candidates_def)

section \<open>The invariant\<close>

text \<open>
  Entries in use have different addresses and are younger than the limits of the timer; a packet is
  queued only on a pending entry, in a heap pbuf of its own that has room for the Ethernet header.
\<close>

definition entry_ok :: "etharp_entry \<Rightarrow> bool" where
  "entry_ok e \<longleftrightarrow> (queue e \<noteq> 0 \<longrightarrow> state e = ETHARP_STATE_PENDING) \<and>
     (state e = ETHARP_STATE_PENDING \<longrightarrow> ctime e < ARP_MAXPENDING) \<and> (state e \<noteq> ETHARP_STATE_EMPTY \<longrightarrow> ctime e < ARP_MAXAGE)"

definition table_ok :: "(nat \<Rightarrow> etharp_entry) \<Rightarrow> bool" where
  "table_ok tab \<longleftrightarrow> (\<forall>i < ARP_TABLE_SIZE. entry_ok (tab i)) \<and>
     (\<forall>i < ARP_TABLE_SIZE. \<forall>j < ARP_TABLE_SIZE. i \<noteq> j \<longrightarrow>
        (state (tab i) \<noteq> ETHARP_STATE_EMPTY \<longrightarrow> state (tab j) \<noteq> ETHARP_STATE_EMPTY \<longrightarrow> ipaddr (tab i) \<noteq> ipaddr (tab j)) \<and>
        (queue (tab i) \<noteq> 0 \<longrightarrow> queue (tab i) \<noteq> queue (tab j)))"

definition queued_ok :: "(memp_t \<Rightarrow> nat list) \<Rightarrow> pb_state \<Rightarrow> nat \<Rightarrow> bool" where
  "queued_ok sl b q \<longleftrightarrow> q \<noteq> 0 \<longrightarrow> single sl b q \<and> SIZEOF_ETH_HDR \<le> plen (pbufs b q)"

definition arp_ok :: "(memp_t \<Rightarrow> nat list) \<Rightarrow> arp_state \<Rightarrow> bool" where
  "arp_ok sl s \<longleftrightarrow> mem_ok sl (pb s) \<and> table_ok (arp_table s) \<and>
     (\<forall>i < ARP_TABLE_SIZE. queued_ok sl (pb s) (queue (arp_table s i)))"

definition queues :: "arp_state \<Rightarrow> nat set" where
  "queues s = (\<lambda>i. queue (arp_table s i)) ` {..<ARP_TABLE_SIZE} - {0}"

lemma arp_okD:
  assumes "arp_ok sl s" "i < ARP_TABLE_SIZE"
  shows "mem_ok sl (pb s)" "table_ok (arp_table s)" "entry_ok (arp_table s i)" "queued_ok sl (pb s) (queue (arp_table s i))"
  using assms by (auto simp: arp_ok_def table_ok_def)

lemma keeps_queued: "keeps sl b b' q \<Longrightarrow> queued_ok sl b q \<Longrightarrow> queued_ok sl b' q"
  using keeps_single [of sl b b' q] by (auto simp: queued_ok_def keeps_def)

text \<open>Only the pbufs in \<open>D\<close> and the table may have changed.\<close>

definition others_kept :: "(memp_t \<Rightarrow> nat list) \<Rightarrow> pb_state \<Rightarrow> pb_state \<Rightarrow> nat set \<Rightarrow> bool" where
  "others_kept sl b b' D \<longleftrightarrow> mem_ok sl b' \<and> (\<forall>q. placed sl b q \<longrightarrow> q \<notin> D \<longrightarrow> keeps sl b b' q)"

lemma others_kept_refl: "mem_ok sl b \<Longrightarrow> others_kept sl b b D"
  by (simp add: others_kept_def keeps_refl)

lemma others_kept_trans:
  "others_kept sl b b' D \<Longrightarrow> others_kept sl b' b'' D \<Longrightarrow> others_kept sl b b'' D"
  unfolding others_kept_def by (meson keeps_placed keeps_trans)

lemma others_kept_mono: "others_kept sl b b' D \<Longrightarrow> D \<subseteq> E \<Longrightarrow> others_kept sl b b' E"
  by (auto simp: others_kept_def)

lemma queued_placed: "queued_ok sl b q \<Longrightarrow> q \<noteq> 0 \<Longrightarrow> placed sl b q"
  by (simp add: queued_ok_def single_def)

text \<open>Replacing one entry, after the memory has changed elsewhere only.\<close>

lemma arp_ok_change:
  assumes ok: "arp_ok sl s" and i: "i < ARP_TABLE_SIZE" and b: "others_kept sl (pb s) b D"
    and D: "\<forall>j < ARP_TABLE_SIZE. j \<noteq> i \<longrightarrow> queue (arp_table s j) \<notin> D - {0}"
    and e: "entry_ok e" "queued_ok sl b (queue e)"
    and ip: "state e \<noteq> ETHARP_STATE_EMPTY \<longrightarrow> (\<forall>j < ARP_TABLE_SIZE. j \<noteq> i \<longrightarrow> \<not> occupied s (ipaddr e) j)"
    and q: "queue e \<noteq> 0 \<longrightarrow> (\<forall>j < ARP_TABLE_SIZE. j \<noteq> i \<longrightarrow> queue (arp_table s j) \<noteq> queue e)"
    and s': "arp_table s' = (arp_table s)(i := e)" "pb s' = b"
  shows "arp_ok sl s'"
proof -
  have t: "table_ok (arp_table s)" using ok by (simp add: arp_ok_def)
  have "table_ok (arp_table s')" using t e(1) ip q i unfolding s' table_ok_def by (auto simp: occupied_def)
  moreover have "queued_ok sl b (queue (arp_table s' j))" if j: "j < ARP_TABLE_SIZE" for j
  proof (cases "j = i")
    case False
    have qj: "queued_ok sl (pb s) (queue (arp_table s j))" using arp_okD [OF ok j] by simp
    show ?thesis
    proof (cases "queue (arp_table s j) = 0")
      case nz: False
      then have "keeps sl (pb s) b (queue (arp_table s j))"
        using b D j False queued_placed [OF qj] by (auto simp: others_kept_def)
      then show ?thesis using keeps_queued qj False s'(1) by simp
    qed (simp add: False s'(1) queued_ok_def)
  qed (simp add: s'(1) e(2))
  ultimately show ?thesis using b by (simp add: arp_ok_def s'(2) others_kept_def)
qed

lemma free_pbuf_frame:
  assumes "mem_ok sl (pb s)" "single sl (pb s) p"
  obtains b where "free_pbuf p s = Inr (s\<lparr>pb := b\<rparr>)" "others_kept sl (pb s) b {p}" "bytes b = bytes (pb s)"
proof -
  obtain b where b: "pbuf_free p (pb s) = Inr (1, b)" "mem_ok sl b" "bytes b = bytes (pb s)"
    "\<And>q. placed sl (pb s) q \<Longrightarrow> q \<noteq> p \<Longrightarrow> keeps sl (pb s) b q" by (rule free_frame [OF assms]) blast
  show thesis by (rule that [of b]) (use b in \<open>auto simp: free_pbuf_def others_kept_def\<close>)
qed

definition cleared :: "etharp_entry \<Rightarrow> etharp_entry" where
  "cleared e = e\<lparr>queue := 0, state := ETHARP_STATE_EMPTY\<rparr>"

lemma free_entry_frame:
  assumes ok: "mem_ok sl (pb s)" and q: "queued_ok sl (pb s) (queue (arp_table s i))"
  obtains b where "etharp_free_entry i s = Inr (s\<lparr>pb := b, arp_table := (arp_table s)(i := cleared (arp_table s i))\<rparr>)"
    "others_kept sl (pb s) b {queue (arp_table s i)}"
proof (cases "queue (arp_table s i) = 0")
  case True
  have eq: "cleared (arp_table s i) = (arp_table s i)\<lparr>state := ETHARP_STATE_EMPTY\<rparr>"
    using True by (cases "arp_table s i") (simp add: cleared_def)
  have "etharp_free_entry i s = Inr (s\<lparr>arp_table := (arp_table s)(i := cleared (arp_table s i))\<rparr>)"
    unfolding eq using True by (simp add: etharp_free_entry_def set_entry_def)
  then show thesis using that [of "pb s"] others_kept_refl [OF ok] by simp
next
  case False
  then have "single sl (pb s) (queue (arp_table s i))" using q by (simp add: queued_ok_def)
  from free_pbuf_frame [OF ok this] obtain b where b: "free_pbuf (queue (arp_table s i)) s = Inr (s\<lparr>pb := b\<rparr>)"
    "others_kept sl (pb s) b {queue (arp_table s i)}" by blast
  then show thesis using that [of b] False by (simp add: etharp_free_entry_def set_entry_def cleared_def)
qed

lemmas free_entry_cleared = free_entry_frame [OF arp_okD(1,4)]

lemma queue_unique: "arp_ok sl s \<Longrightarrow> i < ARP_TABLE_SIZE \<Longrightarrow>
    \<forall>j < ARP_TABLE_SIZE. j \<noteq> i \<longrightarrow> queue (arp_table s j) \<notin> {queue (arp_table s i)} - {0}"
  unfolding arp_ok_def table_ok_def by (metis DiffD1 DiffD2 insert_iff singletonD)

section \<open>Finding and making entries\<close>

lemma cand_ok_oldest:
  assumes "cand_ok P tab [0..<ARP_TABLE_SIZE] old age"
  shows "old < ARP_TABLE_SIZE \<longleftrightarrow> (\<exists>k < ARP_TABLE_SIZE. P k)" "old < ARP_TABLE_SIZE \<Longrightarrow> oldest P tab old"
  using assms by (auto simp: cand_ok_def oldest_def split: if_splits)

text \<open>The choice in a full table.\<close>

definition chosen :: "candidates \<Rightarrow> nat" where
  "chosen c = (if old_stable c < ARP_TABLE_SIZE then old_stable c
     else if old_pending c < ARP_TABLE_SIZE then old_pending c else old_queue c)"

lemma chosen_victim:
  assumes sc: "scan_ok tab [0..<ARP_TABLE_SIZE] c" and full: "\<forall>k < ARP_TABLE_SIZE. state (tab k) \<noteq> ETHARP_STATE_EMPTY"
  shows "victim tab (chosen c)" "chosen c < ARP_TABLE_SIZE"
proof -
  have st: "cand_ok (stable_at tab) tab [0..<ARP_TABLE_SIZE] (old_stable c) (age_stable c)"
    and pe: "cand_ok (waiting_at tab False) tab [0..<ARP_TABLE_SIZE] (old_pending c) (age_pending c)"
    and qu: "cand_ok (waiting_at tab True) tab [0..<ARP_TABLE_SIZE] (old_queue c) (age_queue c)"
    using sc by (auto simp: scan_ok_def)
  have "stable_at tab 0 \<or> waiting_at tab False 0 \<or> waiting_at tab True 0"
    using full [rule_format, of 0] by (cases "state (tab 0)") (auto simp: stable_at_def is_stable_def waiting_at_def)
  then have q: "old_queue c < ARP_TABLE_SIZE" if "\<not> old_stable c < ARP_TABLE_SIZE" "\<not> old_pending c < ARP_TABLE_SIZE"
    using that cand_ok_oldest(1) [OF st] cand_ok_oldest(1) [OF pe] cand_ok_oldest(1) [OF qu] by (metis zero_less_numeral)
  show "victim tab (chosen c)"
    using cand_ok_oldest [OF st] cand_ok_oldest [OF pe] cand_ok_oldest [OF qu] q by (auto simp: victim_def chosen_def)
  show "chosen c < ARP_TABLE_SIZE" using q by (auto simp: chosen_def)
qed

lemma find_entry_cases:
  assumes ok: "arp_ok sl s"
  obtains (found) i where "occupied s ip i" "etharp_find_entry (Some ip) fl s = Inr (Some i, s)"
  | (none) "\<forall>i. \<not> occupied s ip i" "etharp_find_entry (Some ip) fl s = Inr (None, s)"
      "fl AND ETHARP_FLAG_FIND_ONLY \<noteq> 0 \<or>
       fl AND ETHARP_FLAG_TRY_HARD = 0 \<and> (\<forall>i < ARP_TABLE_SIZE. state (arp_table s i) \<noteq> ETHARP_STATE_EMPTY)"
  | (made) i b where "\<forall>i. \<not> occupied s ip i" "i < ARP_TABLE_SIZE" "fl AND ETHARP_FLAG_FIND_ONLY = 0"
      "etharp_find_entry (Some ip) fl s = Inr (Some i, s\<lparr>pb := b, arp_table := (arp_table s)(i :=
         (arp_table s i)\<lparr>queue := 0, state := ETHARP_STATE_EMPTY, ipaddr := ip, ctime := 0\<rparr>)\<rparr>)"
      "others_kept sl (pb s) b {queue (arp_table s i)}"
      "state (arp_table s i) = ETHARP_STATE_EMPTY \<or> victim (arp_table s) i \<and> fl AND ETHARP_FLAG_TRY_HARD \<noteq> 0 \<and>
         (\<forall>k < ARP_TABLE_SIZE. state (arp_table s k) \<noteq> ETHARP_STATE_EMPTY)"
proof -
  let ?tab = "arp_table s"
  have sz: "ARP_TABLE_SIZE \<notin> set ([] @ [0..<ARP_TABLE_SIZE])" by simp
  note sp = find_scan_spec [OF scan_ok_start sz, of ?tab "Some ip"]
  show thesis
  proof (cases "find_scan [0..<ARP_TABLE_SIZE] (Some ip) ?tab no_candidates")
    case (Inl i)
    then show thesis using sp found [of i] by (simp add: occupied_def etharp_find_entry_def)
  next
    case (Inr c)
    have nocc: "\<forall>i. \<not> occupied s ip i" and sc: "scan_ok ?tab [0..<ARP_TABLE_SIZE] c"
      using sp Inr by (auto simp: occupied_def)
    have full: "empty c = ARP_TABLE_SIZE \<longleftrightarrow> (\<forall>k < ARP_TABLE_SIZE. state (?tab k) \<noteq> ETHARP_STATE_EMPTY)"
      using sc by (auto simp: scan_ok_def split: if_splits)
    show thesis
    proof (cases "fl AND ETHARP_FLAG_FIND_ONLY \<noteq> 0 \<or> (empty c = ARP_TABLE_SIZE \<and> fl AND ETHARP_FLAG_TRY_HARD = 0)")
      case True
      then have "etharp_find_entry (Some ip) fl s = Inr (None, s)" using Inr by (simp add: etharp_find_entry_def)
      then show thesis using none nocc True full by blast
    next
      case False
      show thesis
      proof (cases "empty c = ARP_TABLE_SIZE")
        case eF: False
        then have e: "empty c < ARP_TABLE_SIZE" "state (?tab (empty c)) = ETHARP_STATE_EMPTY"
          using sc by (auto simp: scan_ok_def split: if_splits)
        have q0: "queue (?tab (empty c)) = 0" using arp_okD(3) [OF ok e(1)] e(2) by (auto simp: entry_ok_def)
        have "(?tab (empty c))\<lparr>queue := 0, state := ETHARP_STATE_EMPTY, ipaddr := ip, ctime := 0\<rparr> =
            (?tab (empty c))\<lparr>ipaddr := ip, ctime := 0\<rparr>" using q0 e(2) by (cases "?tab (empty c)") simp
        then have "etharp_find_entry (Some ip) fl s = Inr (Some (empty c), s\<lparr>pb := pb s, arp_table := ?tab(empty c :=
            (?tab (empty c))\<lparr>queue := 0, state := ETHARP_STATE_EMPTY, ipaddr := ip, ctime := 0\<rparr>)\<rparr>)"
          using Inr False e by (simp add: etharp_find_entry_def Let_def set_entry_def)
        then show thesis using made [OF nocc e(1)] False e(2) others_kept_refl [OF arp_okD(1) [OF ok e(1)]] by blast
      next
        case eT: True
        have fu: "\<forall>k < ARP_TABLE_SIZE. state (?tab k) \<noteq> ETHARP_STATE_EMPTY" using eT full by blast
        note ch = chosen_victim [OF sc fu]
        obtain b where b: "etharp_free_entry (chosen c) s = Inr (s\<lparr>pb := b, arp_table := ?tab(chosen c :=
            (?tab (chosen c))\<lparr>queue := 0, state := ETHARP_STATE_EMPTY\<rparr>)\<rparr>)"
          "others_kept sl (pb s) b {queue (?tab (chosen c))}"
          using free_entry_cleared [OF ok ch(2) ok ch(2)] unfolding cleared_def .
        have q: "queue (?tab (old_stable c)) = 0" if "old_stable c < ARP_TABLE_SIZE"
        proof -
          have "stable_at ?tab (old_stable c)"
            using cand_ok_oldest(2) [of "stable_at ?tab" ?tab "old_stable c"] that sc by (auto simp: scan_ok_def oldest_def)
          then show ?thesis using arp_okD(3) [OF ok that] by (auto simp: entry_ok_def stable_at_def is_stable_def)
        qed
        have "etharp_find_entry (Some ip) fl s = Inr (Some (chosen c), s\<lparr>pb := b, arp_table := ?tab(chosen c :=
            (?tab (chosen c))\<lparr>queue := 0, state := ETHARP_STATE_EMPTY, ipaddr := ip, ctime := 0\<rparr>)\<rparr>)"
          using Inr False eT ch(2) q b(1)
          by (cases "old_stable c < ARP_TABLE_SIZE"; cases "old_pending c < ARP_TABLE_SIZE")
            (simp_all add: etharp_find_entry_def Let_def set_entry_def chosen_def)
        then show thesis using made [OF nocc ch(2) _ _ b(2)] False eT fu ch(1) by blast
      qed
    qed
  qed
qed

section \<open>Sweeps over the table\<close>

text \<open>An operation on one entry that the loops of the timer and of the cleanup apply to all of them.\<close>

locale entry_step =
  fixes sl :: "memp_t \<Rightarrow> nat list" and f :: "nat \<Rightarrow> arp_state \<Rightarrow> arp_state res" and g :: "etharp_entry \<Rightarrow> etharp_entry"
  assumes step: "arp_ok sl s \<Longrightarrow> i < ARP_TABLE_SIZE \<Longrightarrow>
    \<exists>b. f i s = Inr (s\<lparr>pb := b, arp_table := (arp_table s)(i := g (arp_table s i))\<rparr>) \<and>
      arp_ok sl (s\<lparr>pb := b, arp_table := (arp_table s)(i := g (arp_table s i))\<rparr>)"
begin

lemma sweep_list:
  assumes "arp_ok sl s" "distinct is" "set is \<subseteq> {..<ARP_TABLE_SIZE}"
  shows "\<exists>b. for_entries f is s =
      Inr (s\<lparr>pb := b, arp_table := (\<lambda>i. if i \<in> set is then g (arp_table s i) else arp_table s i)\<rparr>) \<and>
    arp_ok sl (s\<lparr>pb := b, arp_table := (\<lambda>i. if i \<in> set is then g (arp_table s i) else arp_table s i)\<rparr>)"
  using assms
proof (induction "is" arbitrary: s)
  case Nil
  then show ?case by (intro exI [of _ "pb s"]) simp
next
  case (Cons i "is")
  then have i: "i < ARP_TABLE_SIZE" "i \<notin> set is" by auto
  define s1 where "s1 b = s\<lparr>pb := b, arp_table := (arp_table s)(i := g (arp_table s i))\<rparr>" for b
  obtain b where b: "f i s = Inr (s1 b)" "arp_ok sl (s1 b)" using step [OF Cons.prems(1) i(1)] unfolding s1_def by blast
  have t: "(\<lambda>k. if k \<in> set is then g (arp_table (s1 b) k) else arp_table (s1 b) k) =
      (\<lambda>k. if k \<in> set (i # is) then g (arp_table s k) else arp_table s k)"
    using i(2) by (auto simp: s1_def)
  have eq: "(s1 b)\<lparr>pb := b', arp_table := X\<rparr> = s\<lparr>pb := b', arp_table := X\<rparr>" for b' X by (simp add: s1_def)
  have "distinct is" "set is \<subseteq> {..<ARP_TABLE_SIZE}" using Cons.prems by auto
  from Cons.IH [OF b(2) this] show ?case unfolding for_entries.simps b(1) rbind_Inr t eq .
qed

lemma sweep:
  assumes "arp_ok sl s"
  shows "\<exists>b. for_entries f [0..<ARP_TABLE_SIZE] s =
      Inr (s\<lparr>pb := b, arp_table := (\<lambda>i. if i < ARP_TABLE_SIZE then g (arp_table s i) else arp_table s i)\<rparr>) \<and>
    arp_ok sl (s\<lparr>pb := b, arp_table := (\<lambda>i. if i < ARP_TABLE_SIZE then g (arp_table s i) else arp_table s i)\<rparr>)"
  using sweep_list [OF assms, of "[0..<ARP_TABLE_SIZE]"] by (simp add: atLeast0LessThan)

end

text \<open>The reference for the timer: what five seconds do to an entry.\<close>

definition aged :: "etharp_entry \<Rightarrow> etharp_entry" where
  "aged e =
     (if state e = ETHARP_STATE_EMPTY then e
      else
        let e' = e\<lparr>ctime := ctime e + 1\<rparr> in
        if ctime e + 1 = ARP_MAXAGE \<or> (state e = ETHARP_STATE_PENDING \<and> ctime e + 1 = ARP_MAXPENDING) then cleared e'
        else if state e = ETHARP_STATE_STABLE_REREQUESTING then e'\<lparr>state := ETHARP_STATE_STABLE\<rparr> else e')"

definition cleaned :: "nat \<Rightarrow> etharp_entry \<Rightarrow> etharp_entry" where
  "cleaned n e = (if state e \<noteq> ETHARP_STATE_EMPTY \<and> enetif e = n then cleared e else e)"

lemma arp_ok_clear:
  assumes ok: "arp_ok sl s" and i: "i < ARP_TABLE_SIZE"
    and s': "arp_table s' = (arp_table s)(i := cleared e)" "pb s' = b"
    and b: "others_kept sl (pb s) b {queue (arp_table s i)}"
  shows "arp_ok sl s'"
  by (rule arp_ok_change [OF ok i b queue_unique [OF ok i] _ _ _ _ s'])
    (simp_all add: cleared_def entry_ok_def queued_ok_def)

interpretation cleanup: entry_step sl "cleanup_entry n" "cleaned n" for sl n
proof
  fix s i assume ok: "arp_ok sl s" and i: "i < ARP_TABLE_SIZE"
  show "\<exists>b. cleanup_entry n i s = Inr (s\<lparr>pb := b, arp_table := (arp_table s)(i := cleaned n (arp_table s i))\<rparr>) \<and>
      arp_ok sl (s\<lparr>pb := b, arp_table := (arp_table s)(i := cleaned n (arp_table s i))\<rparr>)"
  proof (cases "state (arp_table s i) \<noteq> ETHARP_STATE_EMPTY \<and> enetif (arp_table s i) = n")
    case True
    obtain b where b: "etharp_free_entry i s = Inr (s\<lparr>pb := b, arp_table := (arp_table s)(i := cleared (arp_table s i))\<rparr>)"
      "others_kept sl (pb s) b {queue (arp_table s i)}" using free_entry_cleared [OF ok i ok i] .
    then show ?thesis using True arp_ok_clear [OF ok i _ _ b(2)] by (intro exI [of _ b]) (auto simp: cleanup_entry_def cleaned_def)
  next
    case False
    then have "cleaned n (arp_table s i) = arp_table s i" "cleanup_entry n i s = Inr s"
      by (auto simp: cleaned_def cleanup_entry_def)
    then show ?thesis using ok by (intro exI [of _ "pb s"]) simp
  qed
qed

lemma arp_ok_entry:
  assumes ok: "arp_ok sl s" and i: "i < ARP_TABLE_SIZE"
    and e: "entry_ok e" "queue e = queue (arp_table s i)" "ipaddr e = ipaddr (arp_table s i)"
      "state e = ETHARP_STATE_EMPTY \<or> state (arp_table s i) \<noteq> ETHARP_STATE_EMPTY"
    and s': "arp_table s' = (arp_table s)(i := e)" "pb s' = pb s"
  shows "arp_ok sl s'"
proof (rule arp_ok_change [OF ok i others_kept_refl [OF arp_okD(1) [OF ok i]] _ e(1) _ _ _ s', where D = "{}"])
  show "queued_ok sl (pb s) (queue e)" using arp_okD(4) [OF ok i] e(2) by simp
  have t: "table_ok (arp_table s)" using arp_okD(2) [OF ok i] .
  show "state e \<noteq> ETHARP_STATE_EMPTY \<longrightarrow> (\<forall>j < ARP_TABLE_SIZE. j \<noteq> i \<longrightarrow> \<not> occupied s (ipaddr e) j)"
    using t i e(3,4) unfolding table_ok_def occupied_def by metis
  show "queue e \<noteq> 0 \<longrightarrow> (\<forall>j < ARP_TABLE_SIZE. j \<noteq> i \<longrightarrow> queue (arp_table s j) \<noteq> queue e)"
    using t i e(2) unfolding table_ok_def by metis
qed simp

interpretation timer: entry_step sl tmr_entry aged for sl
proof
  fix s i assume ok: "arp_ok sl s" and i: "i < ARP_TABLE_SIZE"
  let ?e = "arp_table s i" let ?e' = "?e\<lparr>ctime := ctime ?e + 1\<rparr>" let ?s = "set_entry i (\<lambda>e. e\<lparr>ctime := ctime e + 1\<rparr>) s"
  have eo: "entry_ok ?e" using arp_okD(3) [OF ok i] .
  show "\<exists>b. tmr_entry i s = Inr (s\<lparr>pb := b, arp_table := (arp_table s)(i := aged ?e)\<rparr>) \<and>
      arp_ok sl (s\<lparr>pb := b, arp_table := (arp_table s)(i := aged ?e)\<rparr>)"
  proof (cases "state ?e = ETHARP_STATE_EMPTY")
    case True
    then show ?thesis using ok by (intro exI [of _ "pb s"]) (simp add: tmr_entry_def aged_def)
  next
    case ne: False
    have ct: "(ctime ?e + 1) mod 256 = ctime ?e + 1" "ctime ?e + 1 \<le> ARP_MAXAGE"
      "state ?e = ETHARP_STATE_PENDING \<Longrightarrow> ctime ?e + 1 \<le> ARP_MAXPENDING" using eo ne by (auto simp: entry_ok_def)
    let ?old = "ctime ?e + 1 = ARP_MAXAGE \<or> (state ?e = ETHARP_STATE_PENDING \<and> ctime ?e + 1 = ARP_MAXPENDING)"
    have old: "(ctime ?e + 1 \<ge> ARP_MAXAGE \<or> (state ?e = ETHARP_STATE_PENDING \<and> ctime ?e + 1 \<ge> ARP_MAXPENDING)) = ?old"
      using ct(2,3) by auto
    have se: "set_entry i (\<lambda>e. e\<lparr>ctime := (ctime e + 1) mod 256\<rparr>) s = ?s" using ct(1) by (simp add: set_entry_def)
    have s1: "arp_table ?s = (arp_table s)(i := ?e')" "pb ?s = pb s" by (simp_all add: set_entry_def)
    have run: "tmr_entry i s = (if ?old then etharp_free_entry i ?s
        else if state ?e = ETHARP_STATE_STABLE_REREQUESTING then Inr (set_entry i (\<lambda>e. e\<lparr>state := ETHARP_STATE_STABLE\<rparr>) ?s) else Inr ?s)"
      using ne unfolding tmr_entry_def se Let_def s1 by (simp add: old [simplified])
    show ?thesis
    proof (cases ?old)
      case True
      have q: "queue (arp_table ?s i) = queue ?e" unfolding s1 by simp
      obtain b where b: "etharp_free_entry i ?s = Inr (?s\<lparr>pb := b, arp_table := (arp_table ?s)(i := cleared (arp_table ?s i))\<rparr>)"
        "others_kept sl (pb ?s) b {queue (arp_table ?s i)}"
        using free_entry_frame [of sl ?s i] arp_okD(1,4) [OF ok i] q s1(2) by auto
      have ag: "aged ?e = cleared ?e'" using ne True by (auto simp: aged_def)
      have st: "?s\<lparr>pb := b, arp_table := (arp_table ?s)(i := cleared (arp_table ?s i))\<rparr> =
          s\<lparr>pb := b, arp_table := (arp_table s)(i := aged ?e)\<rparr>" by (simp add: s1 ag) (simp add: set_entry_def)
      have "arp_ok sl (s\<lparr>pb := b, arp_table := (arp_table s)(i := aged ?e)\<rparr>)"
        using b(2) q s1(2) by (intro arp_ok_clear [OF ok i]) (simp_all add: ag)
      then show ?thesis using run True b(1) unfolding st by auto
    next
      case False
      then have eo': "entry_ok ?e'" using eo ne ct(2,3) by (auto simp: entry_ok_def)
      have "tmr_entry i s = Inr (s\<lparr>arp_table := (arp_table s)(i := aged ?e)\<rparr>)"
        using run False ne by (auto simp: aged_def set_entry_def Let_def)
      moreover have "arp_ok sl (s\<lparr>arp_table := (arp_table s)(i := aged ?e)\<rparr>)"
        using False ne eo' by (intro arp_ok_entry [OF ok i]) (auto simp: aged_def entry_ok_def Let_def)
      ultimately show ?thesis by (intro exI [of _ "pb s"]) simp
    qed
  qed
qed

section \<open>Sending frames\<close>

lemma gather_chain: "chain b q qs \<Longrightarrow> length qs < fuel \<Longrightarrow> gather fuel q b = content b qs"
proof (induction qs arbitrary: q fuel)
  case Nil
  then show ?case by (cases fuel) simp_all
next
  case (Cons r rs)
  then obtain f where "fuel = Suc f" "length rs < f" by (cases fuel) auto
  with Cons show ?case by auto
qed

definition mac :: "bytes \<Rightarrow> bool" where
  "mac a \<longleftrightarrow> length a = 6"

lemma net_bytes16_length [simp]: "length (net_bytes16 w) = 2" "length (host_bytes32 v) = 4"
  by (simp_all add: net_bytes16_def host_bytes32_def)

lemma arp_frame_length: "mac d \<Longrightarrow> mac a \<Longrightarrow> mac hs \<Longrightarrow> mac ht \<Longrightarrow> length (arp_frame d a op hs ia ht ib) = 42"
  by (simp add: arp_frame_def mac_def)

lemma mac_consts [simp]: "mac ethbroadcast" "mac ethzero"
  by (simp_all add: mac_def ethbroadcast_def ethzero_def)

lemma write_all:
  assumes "length bs = plen (pbufs b p)"
  shows "pbuf_data (b\<lparr>bytes := write_bytes (payload (pbufs b p)) bs (bytes b)\<rparr>) p = bs"
  using assms read_write_same [of "payload (pbufs b p)" bs "bytes b"] by (simp add: pbuf_data_def)

lemma etharp_raw_ok:
  assumes ok: "mem_ok sl (pb s)" and n: "n \<noteq> 0" "hwaddr_len (ifs s n) = ETHARP_HWADDR_LEN"
    and m: "mac src" "mac dst" "mac hs" "mac ht"
    and F: "F = arp_frame (if ip_addr_islinklocal ips then ethbroadcast else dst) src op hs ips ht ipd"
  obtains (none) "etharp_raw link n src dst hs ips ht ipd op s = Inr (ERR_MEM, s)"
  | (sent) b where "etharp_raw link n src dst hs ips ht ipd op s = Inr (link n F, s\<lparr>pb := b, wire := wire s @ [(n, F)]\<rparr>)"
      "others_kept sl (pb s) b {}"
proof -
  have sz: "SIZEOF_STRUCT_PBUF + layer_offset PBUF_RAW + 42 < 65536" by (simp add: layer_offset_def)
  have len: "length F = 42" using arp_frame_length m by (simp add: F)
  from ok sz show thesis
  proof (cases rule: alloc_ram_frame)
    case none
    then show thesis using n(1) that(1) by (simp add: etharp_raw_def)
  next
    case (some p b1)
    let ?b2 = "b1\<lparr>bytes := write_bytes (payload (pbufs b1 p)) F (bytes b1)\<rparr>"
    have k2: "keeps sl b1 ?b2 q" if "placed sl b1 q" "q \<noteq> p" for q
      using write_frame [OF some(3) _ that, of 0 F] some(4,5) len by (auto simp: single_def)
    have s2: "single sl ?b2 p" "mem_ok sl ?b2" using some(3,4) by simp_all
    obtain b3 where b3: "pbuf_free p ?b2 = Inr (1, b3)" "mem_ok sl b3"
      "\<And>q. placed sl ?b2 q \<Longrightarrow> q \<noteq> p \<Longrightarrow> keeps sl ?b2 b3 q" by (rule free_frame [OF s2(2,1)]) blast
    have "gather PBUF_MAX p ?b2 = F"
      using gather_chain [of ?b2 p "[p]" PBUF_MAX] single_packet [OF s2(1)] write_all [of F b1 p] some(5) len
      by (simp add: packet_def)
    then have run: "etharp_raw link n src dst hs ips ht ipd op s = Inr (link n F, s\<lparr>pb := b3, wire := wire s @ [(n, F)]\<rparr>)"
      using n some(1,2,5) b3(1) by (simp add: etharp_raw_def Let_def store_def linkoutput_def free_pbuf_def F)
    have "others_kept sl (pb s) b3 {}"
      unfolding others_kept_def
    proof (intro conjI allI impI b3(2))
      fix q assume q: "placed sl (pb s) q"
      have "q \<noteq> p" "keeps sl (pb s) b1 q" using some(8) [OF q] by auto
      moreover from this have "keeps sl b1 ?b2 q" using k2 keeps_placed by blast
      moreover from this have "keeps sl ?b2 b3 q" using b3(3) \<open>q \<noteq> p\<close> keeps_placed by blast
      ultimately show "keeps sl (pb s) b3 q" using keeps_trans by blast
    qed
    then show thesis using that(2) [OF run] by blast
  qed
qed

text \<open>The Ethernet header of an IP packet.\<close>

definition eth_header :: "bytes \<Rightarrow> bytes \<Rightarrow> bytes" where
  "eth_header dst src = dst @ src @ net_bytes16 0x0800"

lemma send_ip_single:
  assumes ok: "mem_ok sl (pb s)" and n: "hwaddr_len (ifs s n) = ETHARP_HWADDR_LEN" and m: "mac src" "mac dst"
    and p: "single sl (pb s) p" "SIZEOF_ETH_HDR \<le> plen (pbufs (pb s) p)"
    and F: "F = eth_header dst src @ drop SIZEOF_ETH_HDR (pbuf_data (pb s) p)"
  obtains b where "etharp_send_ip link n p src dst s = Inr (link n F, s\<lparr>pb := b, wire := wire s @ [(n, F)]\<rparr>)"
    "others_kept sl (pb s) b {p}" "single sl b p"
proof -
  let ?P = "payload (pbufs (pb s) p)"
  let ?b = "(pb s)\<lparr>bytes := write_bytes ?P (eth_header dst src) (bytes (pb s))\<rparr>"
  have w: "write_bytes (?P + 12) (net_bytes16 0x0800) (write_bytes (?P + 6) src (write_bytes (?P + 0) dst (bytes (pb s)))) =
      write_bytes ?P (eth_header dst src) (bytes (pb s))"
    using m write_bytes_append [of ?P dst src "bytes (pb s)"] write_bytes_append [of ?P "dst @ src" "net_bytes16 0x0800" "bytes (pb s)"]
    by (simp add: mac_def eth_header_def)
  have len: "length (eth_header dst src) = 14" using m by (simp add: mac_def eth_header_def)
  have "pbuf_data ?b p = F"
    using read_write_prefix [of "eth_header dst src" "plen (pbufs (pb s) p)" ?P "bytes (pb s)"] p(2) len
    by (simp add: F pbuf_data_def drop_read_bytes)
  then have "gather PBUF_MAX p ?b = F"
    using gather_chain [of ?b p "[p]" PBUF_MAX] single_packet [OF p(1)] by (simp add: packet_def)
  moreover have "store p 12 (net_bytes16 0x0800) (store p 6 src (store p 0 dst s)) = s\<lparr>pb := ?b\<rparr>"
    using w by (simp add: store_def)
  ultimately have run: "etharp_send_ip link n p src dst s = Inr (link n F, s\<lparr>pb := ?b, wire := wire s @ [(n, F)]\<rparr>)"
    using n by (simp add: etharp_send_ip_def linkoutput_def)
  have "keeps sl (pb s) ?b q" if "placed sl (pb s) q" "q \<noteq> p" for q
    using write_frame [OF ok _ that, of 0 "eth_header dst src"] p len by (simp add: single_def)
  then show thesis using that [OF run] ok p(1) by (simp add: others_kept_def)
qed

section \<open>Resolving an entry\<close>

definition resolved :: "nat \<Rightarrow> bytes \<Rightarrow> etharp_entry \<Rightarrow> etharp_entry" where
  "resolved n eth e = e\<lparr>queue := 0, state := ETHARP_STATE_STABLE, enetif := n, ethaddr := eth, ctime := 0\<rparr>"

definition queued_frame :: "arp_state \<Rightarrow> nat \<Rightarrow> bytes \<Rightarrow> nat \<Rightarrow> (nat \<times> bytes) list" where
  "queued_frame s n eth q =
     (if q = 0 then [] else [(n, eth_header eth (hwaddr (ifs s n)) @ drop SIZEOF_ETH_HDR (pbuf_data (pb s) q))])"

lemma resolve_entry_frame:
  assumes ok: "mem_ok sl (pb s)" and q: "queued_ok sl (pb s) (queue (arp_table s i))"
    and n: "hwaddr_len (ifs s n) = ETHARP_HWADDR_LEN" "mac (hwaddr (ifs s n))" "mac eth"
  obtains b where "resolve_entry link n eth i s = Inr (ERR_OK, s\<lparr>pb := b,
      arp_table := (arp_table s)(i := resolved n eth (arp_table s i)),
      wire := wire s @ queued_frame s n eth (queue (arp_table s i))\<rparr>)"
    "others_kept sl (pb s) b {queue (arp_table s i)}"
proof (cases "queue (arp_table s i) = 0")
  case True
  have eq: "resolved n eth (arp_table s i) =
      (arp_table s i)\<lparr>state := ETHARP_STATE_STABLE, enetif := n, ethaddr := eth, ctime := 0\<rparr>"
    using True by (cases "arp_table s i") (simp add: resolved_def)
  have "resolve_entry link n eth i s = Inr (ERR_OK, s\<lparr>arp_table := (arp_table s)(i := resolved n eth (arp_table s i))\<rparr>)"
    unfolding eq using True by (simp add: resolve_entry_def set_entry_def)
  then show thesis using that [of "pb s"] others_kept_refl [OF ok] True by (simp add: queued_frame_def)
next
  case False
  let ?q = "queue (arp_table s i)"
  let ?s1 = "s\<lparr>arp_table := (arp_table s)(i := resolved n eth (arp_table s i))\<rparr>"
  let ?F = "eth_header eth (hwaddr (ifs s n)) @ drop SIZEOF_ETH_HDR (pbuf_data (pb s) ?q)"
  have sq: "single sl (pb s) ?q" "SIZEOF_ETH_HDR \<le> plen (pbufs (pb s) ?q)" using q False by (simp_all add: queued_ok_def)
  obtain b1 where b1: "etharp_send_ip link n ?q (hwaddr (ifs s n)) eth ?s1 =
      Inr (link n ?F, ?s1\<lparr>pb := b1, wire := wire s @ [(n, ?F)]\<rparr>)" "others_kept sl (pb s) b1 {?q}" "single sl b1 ?q"
    using send_ip_single [of sl ?s1 n "hwaddr (ifs s n)" eth ?q ?F link] ok n sq by auto
  have m1: "mem_ok sl b1" using b1(2) by (simp add: others_kept_def)
  obtain b2 where b2: "free_pbuf ?q (?s1\<lparr>pb := b1, wire := wire s @ [(n, ?F)]\<rparr>) =
      Inr ((?s1\<lparr>pb := b1, wire := wire s @ [(n, ?F)]\<rparr>)\<lparr>pb := b2\<rparr>)" "others_kept sl b1 b2 {?q}"
    using free_pbuf_frame [of sl "?s1\<lparr>pb := b1, wire := wire s @ [(n, ?F)]\<rparr>" ?q] m1 b1(3) by auto
  have "resolve_entry link n eth i s = Inr (ERR_OK, s\<lparr>pb := b2,
      arp_table := (arp_table s)(i := resolved n eth (arp_table s i)), wire := wire s @ queued_frame s n eth ?q\<rparr>)"
  proof -
    let ?s0 = "set_entry i (\<lambda>e. e\<lparr>state := ETHARP_STATE_STABLE, enetif := n, ethaddr := eth, ctime := 0\<rparr>) s"
    have "(arp_table s i)\<lparr>state := ETHARP_STATE_STABLE, enetif := n, ethaddr := eth, ctime := 0, queue := 0\<rparr> = resolved n eth (arp_table s i)"
      by (cases "arp_table s i") (simp add: resolved_def)
    then have "set_entry i (\<lambda>e. e\<lparr>queue := 0\<rparr>) ?s0 = ?s1" "queue (arp_table ?s0 i) = ?q" "ifs ?s0 = ifs s" by (simp_all add: set_entry_def)
    then show ?thesis unfolding resolve_entry_def Let_def using False b1(1) b2(1) by (simp add: queued_frame_def)
  qed
  then show thesis using that [of b2] others_kept_trans [OF b1(2) b2(2)] by blast
qed

text \<open>The state after a search that made an entry.\<close>

definition renewed :: "u32 \<Rightarrow> etharp_entry \<Rightarrow> etharp_entry" where
  "renewed ip e = e\<lparr>queue := 0, state := ETHARP_STATE_EMPTY, ipaddr := ip, ctime := 0\<rparr>"

lemma arp_ok_renewed:
  assumes "arp_ok sl s" "i < ARP_TABLE_SIZE" "others_kept sl (pb s) b {queue (arp_table s i)}"
  shows "arp_ok sl (s\<lparr>pb := b, arp_table := (arp_table s)(i := renewed ip (arp_table s i))\<rparr>)"
  by (rule arp_ok_change [OF assms queue_unique [OF assms(1,2)]]) (simp_all add: renewed_def entry_ok_def queued_ok_def)

definition unicast :: "arp_state \<Rightarrow> nat \<Rightarrow> u32 \<Rightarrow> bool" where
  "unicast s n ip \<longleftrightarrow> \<not> (ip = IPADDR_ANY \<or> ip4_addr_isbroadcast ip (ifs s n) \<or> ip_addr_ismulticast ip)"

definition eth_netif :: "arp_state \<Rightarrow> nat \<Rightarrow> bool" where
  "eth_netif s n \<longleftrightarrow> n \<noteq> 0 \<and> hwaddr_len (ifs s n) = ETHARP_HWADDR_LEN \<and> mac (hwaddr (ifs s n))"

lemma resolve_entry_ok:
  assumes ok: "arp_ok sl s" and i: "i < ARP_TABLE_SIZE" and n: "eth_netif s n" "mac eth"
    and ip: "\<forall>j < ARP_TABLE_SIZE. j \<noteq> i \<longrightarrow> \<not> occupied s (ipaddr (arp_table s i)) j"
  shows "\<exists>b. resolve_entry link n eth i s = Inr (ERR_OK, s\<lparr>pb := b,
      arp_table := (arp_table s)(i := resolved n eth (arp_table s i)),
      wire := wire s @ queued_frame s n eth (queue (arp_table s i))\<rparr>) \<and>
    arp_ok sl (s\<lparr>pb := b, arp_table := (arp_table s)(i := resolved n eth (arp_table s i)),
      wire := wire s @ queued_frame s n eth (queue (arp_table s i))\<rparr>) \<and>
    others_kept sl (pb s) b {queue (arp_table s i)}"
proof -
  have n': "hwaddr_len (ifs s n) = ETHARP_HWADDR_LEN" "mac (hwaddr (ifs s n))" using n(1) by (auto simp: eth_netif_def)
  obtain b where b: "resolve_entry link n eth i s = Inr (ERR_OK, s\<lparr>pb := b,
      arp_table := (arp_table s)(i := resolved n eth (arp_table s i)),
      wire := wire s @ queued_frame s n eth (queue (arp_table s i))\<rparr>)" "others_kept sl (pb s) b {queue (arp_table s i)}"
    using resolve_entry_frame [OF arp_okD(1,4) [OF ok i] n' n(2)] .
  have "arp_ok sl (s\<lparr>pb := b, arp_table := (arp_table s)(i := resolved n eth (arp_table s i)),
      wire := wire s @ queued_frame s n eth (queue (arp_table s i))\<rparr>)"
    using ip by (intro arp_ok_change [OF ok i b(2) queue_unique [OF ok i]])
      (simp_all add: resolved_def entry_ok_def queued_ok_def)
  then show ?thesis using b by blast
qed

lemma update_entry_ok:
  assumes ok: "arp_ok sl s" and n: "eth_netif s n" "mac eth"
  shows "\<exists>r s'. etharp_update_arp_entry link n ip eth fl s = Inr (r, s') \<and> arp_ok sl s' \<and> ifs s' = ifs s \<and>
    (if \<not> unicast s n ip then r = ERR_ARG \<and> s' = s
     else if \<exists>i. occupied s ip i
     then \<exists>i. occupied s ip i \<and> r = ERR_OK \<and> arp_table s' = (arp_table s)(i := resolved n eth (arp_table s i)) \<and>
       wire s' = wire s @ queued_frame s n eth (queue (arp_table s i)) \<and>
       others_kept sl (pb s) (pb s') {queue (arp_table s i)}
     else if r = ERR_MEM then s' = s \<and> fl AND ETHARP_FLAG_TRY_HARD = 0 \<or> s' = s \<and> fl AND ETHARP_FLAG_FIND_ONLY \<noteq> 0
     else \<exists>i < ARP_TABLE_SIZE. r = ERR_OK \<and> fl AND ETHARP_FLAG_FIND_ONLY = 0 \<and> arp_table s' = (arp_table s)(i := resolved n eth (renewed ip (arp_table s i))) \<and>
       wire s' = wire s \<and> (state (arp_table s i) = ETHARP_STATE_EMPTY \<or> victim (arp_table s) i) \<and>
       others_kept sl (pb s) (pb s') {queue (arp_table s i)})"
proof (cases "unicast s n ip")
  case False
  then have "etharp_update_arp_entry link n ip eth fl s = Inr (ERR_ARG, s)"
    using n by (auto simp: etharp_update_arp_entry_def unicast_def eth_netif_def)
  then show ?thesis using False ok by simp
next
  case u: True
  have run: "etharp_update_arp_entry link n ip eth fl s =
      rbind (etharp_find_entry (Some ip) fl s) (\<lambda>(r, s). case r of None \<Rightarrow> Inr (ERR_MEM, s) | Some i \<Rightarrow> resolve_entry link n eth i s)"
    using u n by (auto simp: etharp_update_arp_entry_def unicast_def eth_netif_def)
  from ok show ?thesis
  proof (cases rule: find_entry_cases [of sl s ip fl])
    case (found i)
    have i: "i < ARP_TABLE_SIZE" "ipaddr (arp_table s i) = ip" using found(1) by (auto simp: occupied_def)
    have "\<forall>j < ARP_TABLE_SIZE. j \<noteq> i \<longrightarrow> \<not> occupied s (ipaddr (arp_table s i)) j"
      using arp_okD(2) [OF ok i(1)] found(1) unfolding table_ok_def occupied_def by metis
    from resolve_entry_ok [OF ok i(1) n this, of link] obtain b where b:
      "resolve_entry link n eth i s = Inr (ERR_OK, s\<lparr>pb := b,
         arp_table := (arp_table s)(i := resolved n eth (arp_table s i)),
         wire := wire s @ queued_frame s n eth (queue (arp_table s i))\<rparr>)"
      "arp_ok sl (s\<lparr>pb := b, arp_table := (arp_table s)(i := resolved n eth (arp_table s i)),
         wire := wire s @ queued_frame s n eth (queue (arp_table s i))\<rparr>)"
      "others_kept sl (pb s) b {queue (arp_table s i)}" by blast
    let ?s' = "s\<lparr>pb := b, arp_table := (arp_table s)(i := resolved n eth (arp_table s i)),
         wire := wire s @ queued_frame s n eth (queue (arp_table s i))\<rparr>"
    have "etharp_update_arp_entry link n ip eth fl s = Inr (ERR_OK, ?s')" using run found b(1) by simp
    moreover have "\<exists>i. occupied s ip i" using found(1) by blast
    ultimately show ?thesis using u found(1) b(2,3)
      by (intro exI [of _ ERR_OK] exI [of _ ?s']) (auto intro!: exI [of _ i])
  next
    case none
    then show ?thesis using run u ok by (intro exI [of _ ERR_MEM] exI [of _ s]) auto
  next
    case (made i b)
    let ?s1 = "s\<lparr>pb := b, arp_table := (arp_table s)(i := renewed ip (arp_table s i))\<rparr>"
    have ok1: "arp_ok sl ?s1" using arp_ok_renewed [OF ok made(2,5)] .
    have e1: "arp_table ?s1 i = renewed ip (arp_table s i)" "eth_netif ?s1 n" using n by (simp_all add: eth_netif_def)
    have q1: "queue (renewed ip (arp_table s i)) = 0" "ipaddr (renewed ip (arp_table s i)) = ip" by (simp_all add: renewed_def)
    have "\<forall>j < ARP_TABLE_SIZE. j \<noteq> i \<longrightarrow> \<not> occupied ?s1 (ipaddr (arp_table ?s1 i)) j"
      using made(1) by (auto simp: occupied_def renewed_def)
    from resolve_entry_ok [OF ok1 made(2) e1(2) n(2) this, of link] obtain b2 where b2:
      "resolve_entry link n eth i ?s1 = Inr (ERR_OK, ?s1\<lparr>pb := b2,
         arp_table := (arp_table ?s1)(i := resolved n eth (arp_table ?s1 i)),
         wire := wire ?s1 @ queued_frame ?s1 n eth (queue (arp_table ?s1 i))\<rparr>)"
      "arp_ok sl (?s1\<lparr>pb := b2, arp_table := (arp_table ?s1)(i := resolved n eth (arp_table ?s1 i)),
         wire := wire ?s1 @ queued_frame ?s1 n eth (queue (arp_table ?s1 i))\<rparr>)"
      "others_kept sl (pb ?s1) b2 {queue (arp_table ?s1 i)}" by blast
    let ?s2 = "?s1\<lparr>pb := b2, arp_table := (arp_table ?s1)(i := resolved n eth (arp_table ?s1 i)),
         wire := wire ?s1 @ queued_frame ?s1 n eth (queue (arp_table ?s1 i))\<rparr>"
    have "others_kept sl (pb s) b2 {queue (arp_table s i)}"
    proof (rule others_kept_trans [OF made(5)])
      show "others_kept sl b b2 {queue (arp_table s i)}"
        using b2(3) unfolding e1 q1 others_kept_def by (auto simp: placed_def)
    qed
    moreover have "etharp_update_arp_entry link n ip eth fl s = Inr (ERR_OK, ?s2)"
      using run made(4) b2(1) by (simp add: renewed_def)
    ultimately show ?thesis using u made(1,2,3,6) b2(2)
      by (intro exI [of _ ERR_OK] exI [of _ ?s2]) (auto simp: queued_frame_def renewed_def)
  qed
qed

end
