(* ===== verification/Etharp_Queue.thy ===== *)
theory Etharp_Queue
  imports Etharp_Cache
begin

text \<open>
  Sending to an address that is not resolved yet: \<^verbatim>\<open>etharp_query\<close> puts a copy of the packet on a
  pending entry, and the answer of the host sends that copy.
\<close>

section \<open>Taking over a packet\<close>

text \<open>A packet given for output: every pbuf of it has data, the first may not be in ROM.\<close>

definition sendable :: "(memp_t \<Rightarrow> nat list) \<Rightarrow> pb_state \<Rightarrow> nat \<Rightarrow> nat list \<Rightarrow> bool" where
  "sendable sl b q qs \<longleftrightarrow> packet b q qs \<and> ptype (pbufs b q) \<noteq> PBUF_ROM \<and>
     SIZEOF_ETH_HDR \<le> length (content b qs) \<and> length (content b qs) + SIZEOF_STRUCT_PBUF < 65536 \<and>
     (\<forall>x \<in> set qs. placed sl b x \<and> 0 < plen (pbufs b x))"

lemma sendable_head: "sendable sl b q qs \<Longrightarrow> q \<noteq> 0 \<and> (\<exists>rs. qs = q # rs)"
  by (cases qs) (auto simp: sendable_def packet_def)

lemma keeps_sendable:
  assumes "\<forall>x \<in> set qs. keeps sl b b' x" "sendable sl b q qs"
  shows "sendable sl b' q qs" "content b' qs = content b qs"
proof -
  have "q \<in> set qs" using sendable_head [OF assms(2)] by auto
  then show "sendable sl b' q qs"
    using assms keeps_packet [OF assms(1), of q] keeps_content [OF assms(1)] by (auto simp: sendable_def keeps_def)
qed (rule keeps_content [OF assms(1)])

lemma others_kept_sendable:
  assumes "others_kept sl b b' D" "sendable sl b q qs" "set qs \<inter> D = {}"
  shows "sendable sl b' q qs" "content b' qs = content b qs"
proof -
  have "\<forall>x \<in> set qs. keeps sl b b' x" using assms by (auto simp: others_kept_def sendable_def)
  from keeps_sendable [OF this assms(2)] show "sendable sl b' q qs" "content b' qs = content b qs" by simp_all
qed

lemma copy_scan_head:
  assumes "sendable sl b q qs"
  shows "copy_scan PBUF_MAX q b = Inr q"
proof -
  obtain rs where qs: "qs = q # rs" "q \<noteq> 0" using sendable_head [OF assms] by blast
  have "plen (pbufs b q) \<noteq> tot_len (pbufs b q) \<or> pnext (pbufs b q) = 0"
    using assms unfolding sendable_def packet_def qs by (cases rs) auto
  moreover have f: "PBUF_MAX = Suc 1023" by simp
  ultimately show ?thesis using qs(2) assms unfolding f copy_scan.simps by (simp add: sendable_def)
qed

lemma take_over_copy:
  assumes ok: "mem_ok sl (pb s)" and q: "sendable sl (pb s) q qs"
  obtains (none) "take_over q s = Inr (0, s)"
  | (some) p b where "take_over q s = Inr (p, s\<lparr>pb := b\<rparr>)" "single sl b p" "plen (pbufs b p) = length (content (pb s) qs)"
      "pbuf_data b p = content (pb s) qs" "others_kept sl (pb s) b {}" "\<not> placed sl (pb s) p"
proof -
  let ?c = "content (pb s) qs"
  have tl: "tot_len (pbufs (pb s) q) = length ?c"
    using q sendable_head [OF q] by (auto simp: sendable_def packet_def)
  have sz: "SIZEOF_STRUCT_PBUF + layer_offset PBUF_RAW + length ?c < 65536"
    using q by (simp add: sendable_def layer_offset_def)
  note run = take_over_def [of q s, unfolded copy_scan_head [OF q] rbind_Inr tl]
  from ok sz show thesis
  proof (cases rule: alloc_ram_frame)
    case none
    then show thesis using that(1) sendable_head [OF q] by (simp add: run)
  next
    case (some p b1)
    have k1: "\<forall>x \<in> set qs. keeps sl (pb s) b1 x" "p \<notin> set qs" using q some(8) by (auto simp: sendable_def)
    have q1: "sendable sl b1 q qs" "content b1 qs = ?c" using keeps_sendable [OF k1(1) q] by simp_all
    have ap: "dest_apart b1 qs (payload (pbufs b1 p)) (length ?c)"
      unfolding dest_apart_def
    proof
      fix x assume x: "x \<in> set qs"
      have "apart (payload (pbufs b1 p) + 0) (length ?c) (payload (pbufs b1 x)) (plen (pbufs b1 x))"
        using some(4,5) q1(1) x k1(2) by (intro placed_apart [OF some(3)]) (auto simp: single_def sendable_def)
      then show "apart (payload (pbufs b1 p)) (length ?c) (payload (pbufs b1 x)) (plen (pbufs b1 x))" by simp
    qed
    let ?b2 = "b1\<lparr>bytes := write_bytes (payload (pbufs b1 p)) ?c (bytes b1)\<rparr>"
    have "pbuf_copy p q b1 = Inr (ERR_OK, ?b2)"
      using pbuf_copy_single [of b1 q qs p] q1 some(2,4,5) ap by (auto simp: sendable_def single_def)
    then have r: "take_over q s = Inr (p, s\<lparr>pb := ?b2\<rparr>)"
      using some(1,2) sendable_head [OF q] by (simp add: run)
    have "others_kept sl (pb s) ?b2 {}"
      unfolding others_kept_def
    proof (intro conjI allI impI)
      show "mem_ok sl ?b2" using some(3) by simp
      fix x assume x: "placed sl (pb s) x"
      have k: "keeps sl (pb s) b1 x" "x \<noteq> p" using some(8) [OF x] by auto
      then have "keeps sl b1 ?b2 x"
        using write_frame [OF some(3) _ keeps_placed [OF k(1)] k(2), of 0 ?c] some(4,5) by (auto simp: single_def)
      then show "keeps sl (pb s) ?b2 x" using keeps_trans k(1) by blast
    qed
    moreover have "pbuf_data ?b2 p = ?c" using write_all [of ?c b1 p] some(5) by simp
    moreover have "\<not> placed sl (pb s) p" using some(8) by blast
    ultimately show thesis using that(2) [OF r] some(4,5) by simp
  qed
qed

section \<open>Queueing on a pending entry\<close>

definition request_frame :: "arp_state \<Rightarrow> nat \<Rightarrow> u32 \<Rightarrow> bytes" where
  "request_frame s n ip =
     arp_frame ethbroadcast (hwaddr (ifs s n)) ARP_REQUEST (hwaddr (ifs s n)) (ip_addr (ifs s n)) ethzero ip"

lemma etharp_request_ok:
  assumes ok: "mem_ok sl (pb s)" and n: "eth_netif s n"
  obtains r b w where "etharp_request link n ip s = Inr (r, s\<lparr>pb := b, wire := wire s @ w\<rparr>)"
    "others_kept sl (pb s) b {}" "w = [] \<and> r = ERR_MEM \<or> w = [(n, request_frame s n ip)] \<and> r = link n (request_frame s n ip)"
proof -
  have n': "n \<noteq> 0" "hwaddr_len (ifs s n) = ETHARP_HWADDR_LEN" "mac (hwaddr (ifs s n))"
    using n by (auto simp: eth_netif_def)
  have F: "request_frame s n ip = arp_frame (if ip_addr_islinklocal (ip_addr (ifs s n)) then ethbroadcast else ethbroadcast)
      (hwaddr (ifs s n)) ARP_REQUEST (hwaddr (ifs s n)) (ip_addr (ifs s n)) ethzero ip" by (simp add: request_frame_def)
  from ok n'(1,2,3) mac_consts(1) n'(3) mac_consts(2) F show thesis
  proof (cases rule: etharp_raw_ok [where link = link])
    case none
    then show thesis using that [where r = ERR_MEM and b = "pb s" and w = "[]"] others_kept_refl [OF ok] by (simp add: etharp_request_def)
  next
    case (sent b)
    then show thesis using that [where b = b and w = "[(n, request_frame s n ip)]"] by (simp add: etharp_request_def)
  qed
qed

lemma others_kept_queue:
  assumes "others_kept sl b b' {}" "queued_ok sl b q"
  shows "queued_ok sl b' q" "q \<noteq> 0 \<Longrightarrow> pbuf_data b' q = pbuf_data b q"
  using assms keeps_queued [of sl b b' q] queued_placed [of sl b q]
  by (auto simp: others_kept_def queued_ok_def keeps_def)

text \<open>The reference: what is left after a packet has been queued on the pending entry \<open>i\<close>.\<close>

definition queued_on :: "arp_state \<Rightarrow> arp_state \<Rightarrow> nat \<Rightarrow> bytes \<Rightarrow> bool" where
  "queued_on s s' i data \<longleftrightarrow> (\<exists>p. p \<noteq> 0 \<and> arp_table s' = (arp_table s)(i := (arp_table s i)\<lparr>queue := p\<rparr>) \<and>
     pbuf_data (pb s') p = data)"

lemma arp_ok_others:
  assumes "arp_ok sl s" "others_kept sl (pb s) b {}" "arp_table s' = arp_table s" "pb s' = b"
  shows "arp_ok sl s'"
  using assms others_kept_queue [OF assms(2)] by (auto simp: arp_ok_def others_kept_def)

lemma query_pending:
  assumes ok: "arp_ok sl s" and i: "i < ARP_TABLE_SIZE" and st: "state (arp_table s i) = ETHARP_STATE_PENDING"
    and n: "eth_netif s n" and q: "sendable sl (pb s) q qs" and dj: "set qs \<inter> queues s = {}"
  shows "\<exists>r s' w. query_entry link n ip q i s = Inr (r, s') \<and> arp_ok sl s' \<and> ifs s' = ifs s \<and> wire s' = wire s @ w \<and>
    (w = [] \<or> w = [(n, request_frame s n ip)]) \<and>
    (if r = ERR_OK then queued_on s s' i (content (pb s) qs) else r = ERR_MEM \<and> arp_table s' = arp_table s)"
proof -
  have nst: "\<not> is_stable ETHARP_STATE_PENDING" by (simp add: is_stable_def)
  obtain r1 b1 w where req: "etharp_request link n ip s = Inr (r1, s\<lparr>pb := b1, wire := wire s @ w\<rparr>)"
    "others_kept sl (pb s) b1 {}" "w = [] \<or> w = [(n, request_frame s n ip)]"
    by (rule etharp_request_ok [OF arp_okD(1) [OF ok i] n, of link ip]) blast
  let ?s1 = "s\<lparr>pb := b1, wire := wire s @ w\<rparr>"
  have ok1: "arp_ok sl ?s1" using arp_ok_others [OF ok req(2)] by simp
  have q1: "sendable sl (pb ?s1) q qs" "content (pb ?s1) qs = content (pb s) qs"
    using others_kept_sendable [OF req(2) q] by simp_all
  have m1: "mem_ok sl (pb ?s1)" using arp_okD(1) [OF ok1 i] .
  have run: "query_entry link n ip q i s = rbind (take_over q ?s1) (\<lambda>(p, s).
      if p \<noteq> 0
      then rbind (if queue (arp_table s i) \<noteq> 0 then free_pbuf (queue (arp_table s i)) s else Inr s) (\<lambda>s.
        Inr (ERR_OK, set_entry i (\<lambda>e. e\<lparr>queue := p\<rparr>) s))
      else Inr (ERR_MEM, s))"
    using sendable_head [OF q] st nst req(1) by (simp add: query_entry_def)
  from m1 q1(1) show ?thesis
  proof (cases rule: take_over_copy)
    case none
    then have "query_entry link n ip q i s = Inr (ERR_MEM, ?s1)"
      by (simp add: run)
    then show ?thesis using ok1 req(3) by (intro exI [of _ ERR_MEM] exI [of _ ?s1] exI [of _ w]) simp
  next
    case (some p b2)
    let ?q = "queue (arp_table s i)" let ?s2 = "?s1\<lparr>pb := b2\<rparr>"
    have ok2: "arp_ok sl ?s2" using arp_ok_others [OF ok1 some(5)] by simp
    have pn: "p \<noteq> 0" "placed sl b2 p" using some(2) by (auto simp: single_def placed_def)
    have ne: "queue (arp_table s j) \<noteq> p" if "j < ARP_TABLE_SIZE" for j
      using arp_okD(4) [OF ok1 that] some(6) pn(1) queued_placed by fastforce
    obtain b3 where fr: "(if ?q \<noteq> 0 then free_pbuf ?q ?s2 else Inr ?s2) = Inr (?s2\<lparr>pb := b3\<rparr>)" "others_kept sl b2 b3 {?q}"
    proof (cases "?q = 0")
      case True
      have "mem_ok sl b2" using some(5) by (simp add: others_kept_def)
      then show thesis using that [of b2] others_kept_refl [of sl b2] True by simp
    next
      case False
      have "single sl (pb ?s2) ?q" "mem_ok sl (pb ?s2)"
        using arp_okD(1,4) [OF ok2 i] False by (simp_all add: queued_ok_def)
      from free_pbuf_frame [OF this(2,1)] obtain b where "free_pbuf ?q ?s2 = Inr (?s2\<lparr>pb := b\<rparr>)" "others_kept sl b2 b {?q}" by auto
      then show thesis using that [of b] False by simp
    qed
    have kp: "keeps sl b2 b3 p" using fr(2) pn ne [OF i] by (simp add: others_kept_def)
    let ?s3 = "?s2\<lparr>pb := b3, arp_table := (arp_table s)(i := (arp_table s i)\<lparr>queue := p\<rparr>)\<rparr>"
    have "query_entry link n ip q i s = Inr (ERR_OK, ?s3)"
      using some(1) pn(1) fr(1) by (simp add: run set_entry_def cong: if_cong)
    moreover have "arp_ok sl ?s3"
    proof (rule arp_ok_change [OF ok2 i _ queue_unique [OF ok2 i]])
      show "others_kept sl (pb ?s2) b3 {queue (arp_table ?s2 i)}" using fr(2) by simp
      show "entry_ok ((arp_table s i)\<lparr>queue := p\<rparr>)" using arp_okD(3) [OF ok i] st by (auto simp: entry_ok_def)
      show "queued_ok sl b3 (queue ((arp_table s i)\<lparr>queue := p\<rparr>))"
        using keeps_single [OF kp some(2)] kp some(3) q1(2) q by (simp add: queued_ok_def keeps_def sendable_def)
      show "state ((arp_table s i)\<lparr>queue := p\<rparr>) \<noteq> ETHARP_STATE_EMPTY \<longrightarrow>
          (\<forall>j < ARP_TABLE_SIZE. j \<noteq> i \<longrightarrow> \<not> occupied ?s2 (ipaddr ((arp_table s i)\<lparr>queue := p\<rparr>)) j)"
        using arp_okD(2) [OF ok i] i st unfolding table_ok_def occupied_def by auto
      show "queue ((arp_table s i)\<lparr>queue := p\<rparr>) \<noteq> 0 \<longrightarrow>
          (\<forall>j < ARP_TABLE_SIZE. j \<noteq> i \<longrightarrow> queue (arp_table ?s2 j) \<noteq> queue ((arp_table s i)\<lparr>queue := p\<rparr>))"
        using ne by simp
    qed simp_all
    moreover have "queued_on s ?s3 i (content (pb s) qs)"
      using kp some(4) q1(2) pn(1) by (auto simp: queued_on_def keeps_def)
    ultimately show ?thesis using req(3) by (intro exI [of _ ERR_OK] exI [of _ ?s3] exI [of _ w]) simp
  qed
qed

definition pending_for :: "arp_state \<Rightarrow> u32 \<Rightarrow> nat \<Rightarrow> bool" where
  "pending_for s ip i \<longleftrightarrow> i < ARP_TABLE_SIZE \<and> state (arp_table s i) = ETHARP_STATE_PENDING \<and> ipaddr (arp_table s i) = ip"

lemma query_fresh:
  assumes st: "state (arp_table s i) = ETHARP_STATE_EMPTY"
  shows "query_entry link n ip q i s = query_entry link n ip q i (set_entry i (\<lambda>e. e\<lparr>state := ETHARP_STATE_PENDING\<rparr>) s)"
  unfolding query_entry_def Let_def using st by (simp add: set_entry_def)

lemma query_cases:
  assumes ok: "arp_ok sl s" and n: "eth_netif s n" "unicast s n ip"
    and q: "sendable sl (pb s) q qs" "set qs \<inter> queues s = {}" and ns: "\<forall>i < ARP_TABLE_SIZE. \<not> stable_for ip s i"
  obtains i s0 where "arp_ok sl s0" "pending_for s0 ip i" "etharp_query link n ip q s = query_entry link n ip q i s0"
    "eth_netif s0 n" "ifs s0 = ifs s" "wire s0 = wire s" "sendable sl (pb s0) q qs" "set qs \<inter> queues s0 = {}"
    "content (pb s0) qs = content (pb s) qs"
proof -
  have run: "etharp_query link n ip q s = rbind (etharp_find_entry (Some ip) ETHARP_FLAG_TRY_HARD s) (\<lambda>(r, s).
      case r of None \<Rightarrow> Inr (ERR_MEM, s) | Some i \<Rightarrow> query_entry link n ip q i s)"
    using n(2) by (auto simp: etharp_query_def unicast_def)
  from ok show thesis
  proof (cases rule: find_entry_cases [of sl s ip ETHARP_FLAG_TRY_HARD])
    case (found i)
    have "pending_for s ip i"
      using found(1) ns by (cases "state (arp_table s i)") (auto simp: pending_for_def occupied_def stable_for_def is_stable_def)
    moreover have "etharp_query link n ip q s = query_entry link n ip q i s" using run found(2) by simp
    ultimately show thesis using that [of s i] ok n(1) q by simp
  next
    case none
    then show thesis by simp
  next
    case (made i b)
    let ?e = "(renewed ip (arp_table s i))\<lparr>state := ETHARP_STATE_PENDING\<rparr>"
    let ?s0 = "s\<lparr>pb := b, arp_table := (arp_table s)(i := ?e)\<rparr>"
    have "0 \<notin> set qs" using q(1) by (auto simp: sendable_def placed_def)
    moreover have "queue (arp_table s i) \<in> insert 0 (queues s)" using made(2) by (auto simp: queues_def)
    ultimately have dj: "set qs \<inter> {queue (arp_table s i)} = {}" using q(2) by auto
    have "arp_ok sl ?s0"
    proof (rule arp_ok_change [OF ok made(2,5) queue_unique [OF ok made(2)]])
      show "state ?e \<noteq> ETHARP_STATE_EMPTY \<longrightarrow> (\<forall>j < ARP_TABLE_SIZE. j \<noteq> i \<longrightarrow> \<not> occupied s (ipaddr ?e) j)"
        using made(1) by (simp add: renewed_def)
    qed (simp_all add: renewed_def entry_ok_def queued_ok_def)
    moreover have "etharp_query link n ip q s = query_entry link n ip q i ?s0"
      using run made(4) query_fresh [of "s\<lparr>pb := b, arp_table := (arp_table s)(i := renewed ip (arp_table s i))\<rparr>" i link n ip q]
      by (simp add: set_entry_def renewed_def)
    moreover have "set qs \<inter> queues ?s0 = {}" using q(2) by (auto simp: queues_def renewed_def split: if_splits)
    moreover have "pending_for ?s0 ip i" using made(2) by (simp add: pending_for_def renewed_def)
    ultimately show thesis using that [of ?s0 i] n(1) others_kept_sendable [OF made(5) q(1) dj] by (simp add: eth_netif_def)
  qed
qed

lemma query_ok:
  assumes ok: "arp_ok sl s" and n: "eth_netif s n" "unicast s n ip"
    and q: "sendable sl (pb s) q qs" "set qs \<inter> queues s = {}" and ns: "\<forall>i < ARP_TABLE_SIZE. \<not> stable_for ip s i"
  shows "\<exists>r s' w. etharp_query link n ip q s = Inr (r, s') \<and> arp_ok sl s' \<and> ifs s' = ifs s \<and> wire s' = wire s @ w \<and>
    (w = [] \<or> w = [(n, request_frame s n ip)]) \<and>
    (if r = ERR_OK then \<exists>i. pending_for s' ip i \<and> queue (arp_table s' i) \<noteq> 0 \<and>
       pbuf_data (pb s') (queue (arp_table s' i)) = content (pb s) qs else r = ERR_MEM)"
proof -
  obtain i s0 where e: "arp_ok sl s0" "pending_for s0 ip i" "etharp_query link n ip q s = query_entry link n ip q i s0"
    "eth_netif s0 n" "ifs s0 = ifs s" "wire s0 = wire s" "sendable sl (pb s0) q qs" "set qs \<inter> queues s0 = {}"
    "content (pb s0) qs = content (pb s) qs"
    by (rule query_cases [OF assms, of link]) blast
  have i: "i < ARP_TABLE_SIZE" "state (arp_table s0 i) = ETHARP_STATE_PENDING" using e(2) by (simp_all add: pending_for_def)
  obtain r s' w where r: "query_entry link n ip q i s0 = Inr (r, s')" "arp_ok sl s'" "ifs s' = ifs s0" "wire s' = wire s0 @ w"
    "w = [] \<or> w = [(n, request_frame s0 n ip)]"
    "if r = ERR_OK then queued_on s0 s' i (content (pb s0) qs) else r = ERR_MEM \<and> arp_table s' = arp_table s0"
    using query_pending [OF e(1) i e(4,7,8), of link ip] by blast
  have "\<exists>i. pending_for s' ip i \<and> queue (arp_table s' i) \<noteq> 0 \<and> pbuf_data (pb s') (queue (arp_table s' i)) = content (pb s) qs"
    if "r = ERR_OK"
    using r(6) that e(2,9) by (auto simp: queued_on_def pending_for_def intro!: exI [of _ i])
  then show ?thesis using r e by (intro exI [of _ r] exI [of _ s'] exI [of _ w]) (auto simp: request_frame_def)
qed

section \<open>Properties\<close>

text \<open>
  C28. \<^verbatim>\<open>etharp_find_entry\<close> never stops on an assertion and keeps the invariant of the cache. It returns
  the entry in use for the address if there is one; otherwise it takes an empty entry or, with
  \<^verbatim>\<open>ETHARP_FLAG_TRY_HARD\<close> and a full table, recycles the oldest stable entry, then the oldest
  pending entry without a packet, then the oldest pending entry, releasing only that entry's
  packet; it fails only if asked to find only, or if the table is full and it may not recycle.
\<close>

theorem find_entry_correct:
  assumes "arp_ok sl s"
  shows "\<exists>r s'. etharp_find_entry (Some ip) fl s = Inr (r, s') \<and> arp_ok sl s' \<and>
    (case r of
       None \<Rightarrow> s' = s \<and> (\<forall>i. \<not> occupied s ip i) \<and> (fl AND ETHARP_FLAG_FIND_ONLY \<noteq> 0 \<or>
         fl AND ETHARP_FLAG_TRY_HARD = 0 \<and> (\<forall>i < ARP_TABLE_SIZE. state (arp_table s i) \<noteq> ETHARP_STATE_EMPTY))
     | Some i \<Rightarrow>
         if \<exists>k. occupied s ip k then occupied s ip i \<and> s' = s
         else i < ARP_TABLE_SIZE \<and> fl AND ETHARP_FLAG_FIND_ONLY = 0 \<and>
           arp_table s' = (arp_table s)(i := renewed ip (arp_table s i)) \<and> wire s' = wire s \<and>
           others_kept sl (pb s) (pb s') {queue (arp_table s i)} \<and>
           (state (arp_table s i) = ETHARP_STATE_EMPTY \<or> victim (arp_table s) i \<and> fl AND ETHARP_FLAG_TRY_HARD \<noteq> 0 \<and>
              (\<forall>k < ARP_TABLE_SIZE. state (arp_table s k) \<noteq> ETHARP_STATE_EMPTY)))"
  using assms
proof (cases rule: find_entry_cases [of sl s ip fl])
  case (found i)
  then show ?thesis using assms by (intro exI [of _ "Some i"] exI [of _ s]) auto
next
  case none
  then show ?thesis using assms by (intro exI [of _ None] exI [of _ s]) simp
next
  case (made i b)
  let ?s' = "s\<lparr>pb := b, arp_table := (arp_table s)(i := renewed ip (arp_table s i))\<rparr>"
  have "etharp_find_entry (Some ip) fl s = Inr (Some i, ?s')" using made(4) by (simp add: renewed_def)
  moreover have "arp_ok sl ?s'" by (rule arp_ok_renewed [OF assms made(2,5)])
  ultimately show ?thesis using made(1-3,5,6) by (intro exI [of _ "Some i"] exI [of _ ?s']) simp
qed

text \<open>
  One run of \<^verbatim>\<open>etharp_tmr\<close> ages every entry as the reference function \<open>aged\<close> says (an entry in
  use gets older by one tick, a stable one is dropped at \<^verbatim>\<open>ARP_MAXAGE\<close> and a pending one at
  \<^verbatim>\<open>ARP_MAXPENDING\<close> ticks, a rerequest is armed again), and \<^verbatim>\<open>etharp_cleanup_netif\<close> drops exactly
  the entries of that interface. Both release the dropped entries' packets, send nothing and keep
  the invariant.
\<close>

theorem cache_sweeps_correct:
  assumes "arp_ok sl s"
  shows "(\<exists>b. etharp_tmr s =
      Inr (s\<lparr>pb := b, arp_table := (\<lambda>i. if i < ARP_TABLE_SIZE then aged (arp_table s i) else arp_table s i)\<rparr>) \<and>
    arp_ok sl (s\<lparr>pb := b, arp_table := (\<lambda>i. if i < ARP_TABLE_SIZE then aged (arp_table s i) else arp_table s i)\<rparr>)) \<and>
   (\<exists>b. etharp_cleanup_netif n s =
      Inr (s\<lparr>pb := b, arp_table := (\<lambda>i. if i < ARP_TABLE_SIZE then cleaned n (arp_table s i) else arp_table s i)\<rparr>) \<and>
    arp_ok sl (s\<lparr>pb := b, arp_table := (\<lambda>i. if i < ARP_TABLE_SIZE then cleaned n (arp_table s i) else arp_table s i)\<rparr>))"
  unfolding etharp_tmr_def etharp_cleanup_netif_def by (rule conjI [OF timer.sweep [OF assms] cleanup.sweep [OF assms]])

text \<open>The pending entry \<open>i\<close> for the address holds the packet with these bytes.\<close>

definition holds :: "arp_state \<Rightarrow> u32 \<Rightarrow> nat \<Rightarrow> bytes \<Rightarrow> bool" where
  "holds s ip i pkt \<longleftrightarrow> pending_for s ip i \<and> queue (arp_table s i) \<noteq> 0 \<and> pbuf_data (pb s) (queue (arp_table s i)) = pkt"

lemma held_packet_sent:
  assumes ok: "arp_ok sl t" and n: "eth_netif t n" "unicast t n ip" "mac eth" and h: "holds t ip i pkt"
  shows "\<exists>t'. etharp_update_arp_entry link n ip eth fl t = Inr (ERR_OK, t') \<and> arp_ok sl t' \<and>
    wire t' = wire t @ [(n, eth_header eth (hwaddr (ifs t n)) @ drop SIZEOF_ETH_HDR pkt)] \<and>
    stable_for ip t' i \<and> ethaddr (arp_table t' i) = eth \<and> queue (arp_table t' i) = 0"
proof -
  have i: "pending_for t ip i" "queue (arp_table t i) \<noteq> 0" "pbuf_data (pb t) (queue (arp_table t i)) = pkt" using h by (simp_all add: holds_def)
  have occ: "occupied t ip i" using i(1) by (simp add: pending_for_def occupied_def)
  obtain k t' where u: "etharp_update_arp_entry link n ip eth fl t = Inr (ERR_OK, t')" "arp_ok sl t'" "occupied t ip k"
    "arp_table t' = (arp_table t)(k := resolved n eth (arp_table t k))" "wire t' = wire t @ queued_frame t n eth (queue (arp_table t k))"
    using update_entry_ok [OF ok n(1,3), of link ip fl] n(2) exI [of "occupied t ip", OF occ]
    by (auto simp only: if_True not_True_eq_False if_False)
  have "k = i" using u(3) occ arp_okD(2) [OF ok, of i] unfolding occupied_def table_ok_def by blast
  then show ?thesis
    using u i by (simp add: queued_frame_def stable_for_def is_stable_def resolved_def pending_for_def)
qed

text \<open>
  C1. A packet for an address that is not resolved is not lost: \<^verbatim>\<open>etharp_query\<close> fails only for lack of memory (it at most broadcasts the ARP
  request); if it accepts the packet, the pending entry for the address holds a copy of it. And whatever else has happened since to the cache, the
  pbufs and the interfaces: as long as that entry holds the packet (until a later packet for the same address replaces it, or the entry
  expires), the first ARP packet from the address, seen on the interface with the hardware address \<open>eth\<close>, sends exactly this packet to \<open>eth\<close> and
  makes the entry stable.
\<close>

theorem queued_packet_delivered:
  assumes "arp_ok sl s" "eth_netif s n" "unicast s n ip" "sendable sl (pb s) q qs" "set qs \<inter> queues s = {}"
    "\<forall>i < ARP_TABLE_SIZE. \<not> stable_for ip s i"
  shows "\<exists>r s1 w. etharp_query link n ip q s = Inr (r, s1) \<and> arp_ok sl s1 \<and> wire s1 = wire s @ w \<and> ifs s1 = ifs s \<and>
    (w = [] \<or> w = [(n, request_frame s n ip)]) \<and> (r = ERR_OK \<or> r = ERR_MEM) \<and>
    (r = ERR_OK \<longrightarrow> (\<exists>i < ARP_TABLE_SIZE. holds s1 ip i (content (pb s) qs))) \<and>
    (\<forall>t i eth fl. arp_ok sl t \<and> eth_netif t n \<and> unicast t n ip \<and> mac eth \<and> holds t ip i (content (pb s) qs) \<longrightarrow>
       (\<exists>t'. etharp_update_arp_entry link n ip eth fl t = Inr (ERR_OK, t') \<and> arp_ok sl t' \<and>
          wire t' = wire t @ [(n, eth_header eth (hwaddr (ifs t n)) @ drop SIZEOF_ETH_HDR (content (pb s) qs))] \<and>
          stable_for ip t' i \<and> ethaddr (arp_table t' i) = eth \<and> queue (arp_table t' i) = 0))"
proof -
  obtain r s1 w where r: "etharp_query link n ip q s = Inr (r, s1)" "arp_ok sl s1" "ifs s1 = ifs s" "wire s1 = wire s @ w"
    "w = [] \<or> w = [(n, request_frame s n ip)]" "if r = ERR_OK then \<exists>i. holds s1 ip i (content (pb s) qs) else r = ERR_MEM"
    using query_ok [OF assms, of link] unfolding holds_def by blast
  have "\<exists>i < ARP_TABLE_SIZE. holds s1 ip i (content (pb s) qs)" if "r = ERR_OK"
    using r(6) that by (auto simp: holds_def pending_for_def)
  moreover have "r = ERR_OK \<or> r = ERR_MEM" using r(6) by (auto split: if_splits)
  moreover note held_packet_sent [of sl _ n ip _ _ "content (pb s) qs" link]
  ultimately show ?thesis using r(1-5) by blast
qed

section \<open>Instances\<close>

text \<open>An empty cache and an interface 192.168.0.2 with a hardware address.\<close>

definition arp_sample :: "pb_state \<Rightarrow> arp_state" where
  "arp_sample b = \<lparr>arp_table = (\<lambda>_. \<lparr>queue = 0, ipaddr = 0, enetif = 0, ethaddr = ethzero, state = ETHARP_STATE_EMPTY, ctime = 0\<rparr>),
     etharp_cached_entry = 0,
     ifs = (\<lambda>_. \<lparr>nif_next = 0, ip_addr = 0x0200a8c0, netmask = 0x00ffffff, gw = 0x0100a8c0, autoip = None, mtu = 1500,
       hwaddr_len = 6, hwaddr = [2, 0, 0, 0, 0, 1], flags = 0x33, if_name = (CHR ''q'', CHR ''u''), if_num = 0\<rparr>),
     netif_list = 1, netif_default = 1, netif_num = 1, pb = b, wire = []\<rparr>"

lemma arp_sample_ok: "mem_ok sl b \<Longrightarrow> arp_ok sl (arp_sample b)"
  by (simp add: arp_ok_def arp_sample_def table_ok_def entry_ok_def queued_ok_def)

lemma arp_sample_netif: "eth_netif (arp_sample b) 1" "unicast (arp_sample b) 1 0x0300a8c0" "queues (arp_sample b) = {}"
  "\<not> stable_for ip (arp_sample b) i" "pb (arp_sample b) = b"
  by (auto simp: eth_netif_def mac_def unicast_def arp_sample_def queues_def stable_for_def is_stable_def
      ip4_addr_isbroadcast_def ip_addr_ismulticast_def lwip_htonl_def)

theorem find_entry_correct_witness:
  "\<exists>i s'. etharp_find_entry (Some 0x0300a8c0) ETHARP_FLAG_TRY_HARD (arp_sample sample) = Inr (Some i, s') \<and> arp_ok sample_slots s'"
proof -
  from find_entry_correct [OF arp_sample_ok [OF sample_ok(1)], of "0x0300a8c0" ETHARP_FLAG_TRY_HARD] obtain r s' where
    r: "etharp_find_entry (Some 0x0300a8c0) ETHARP_FLAG_TRY_HARD (arp_sample sample) = Inr (r, s')" "arp_ok sample_slots s'"
    "r \<noteq> None" by (auto split: option.splits)
  then show ?thesis by (cases r) auto
qed

theorem cache_sweeps_correct_witness:
  "\<exists>s' s''. etharp_tmr (arp_sample sample) = Inr s' \<and> etharp_cleanup_netif 1 (arp_sample sample) = Inr s'' \<and>
     arp_ok sample_slots s' \<and> arp_ok sample_slots s''"
  using cache_sweeps_correct [OF arp_sample_ok [OF sample_ok(1)], of 1] by blast

lemma sample_sendable: "\<exists>b. mem_ok sample_slots b \<and> sendable sample_slots b 4102 [4102] \<and> single sample_slots b 4102 \<and> plen (pbufs b 4102) = 22"
proof -
  obtain b where b: "pbuf_alloc PBUF_TRANSPORT 22 PBUF_RAM sample = Inr (4102, b)" using sample_ram by blast
  have sz: "SIZEOF_STRUCT_PBUF + layer_offset PBUF_TRANSPORT + 22 < 65536" by (simp add: layer_offset_def)
  from sample_ok(1) sz have "mem_ok sample_slots b \<and> single sample_slots b 4102 \<and> plen (pbufs b 4102) = 22"
    by (cases rule: alloc_ram_frame) (use b in auto)
  then have "mem_ok sample_slots b" "sendable sample_slots b 4102 [4102]" "single sample_slots b 4102" "plen (pbufs b 4102) = 22"
    using single_packet [of sample_slots b 4102] by (auto simp: sendable_def single_def)
  then show ?thesis by blast
qed

text \<open>A cache whose first entry waits for 192.168.0.3 and holds the packet, and one in which nothing is known yet.\<close>

definition waiting_sample :: "pb_state \<Rightarrow> arp_state" where
  "waiting_sample b = set_entry 0 (\<lambda>e. e\<lparr>queue := 4102, ipaddr := 0x0300a8c0, state := ETHARP_STATE_PENDING\<rparr>) (arp_sample b)"

theorem queued_packet_delivered_witness:
  "\<exists>b r s1 t. etharp_query (\<lambda>_ _. ERR_OK) 1 0x0300a8c0 4102 (arp_sample b) = Inr (r, s1) \<and> arp_ok sample_slots s1 \<and>
     etharp_update_arp_entry (\<lambda>_ _. ERR_OK) 1 0x0300a8c0 [2, 0, 0, 0, 0, 3] ETHARP_FLAG_TRY_HARD (waiting_sample b) = Inr (ERR_OK, t) \<and>
     wire t = [(1, eth_header [2, 0, 0, 0, 0, 3] [2, 0, 0, 0, 0, 1] @ drop SIZEOF_ETH_HDR (content b [4102]))]"
proof -
  obtain b where b: "mem_ok sample_slots b" "sendable sample_slots b 4102 [4102]" "single sample_slots b 4102" "plen (pbufs b 4102) = 22"
    using sample_sendable by blast
  have q: "sendable sample_slots (pb (arp_sample b)) 4102 [4102]" "set [4102] \<inter> queues (arp_sample b) = {}"
    "\<forall>i < ARP_TABLE_SIZE. \<not> stable_for 0x0300a8c0 (arp_sample b) i"
    using b(2) by (simp_all add: arp_sample_netif)
  have t: "arp_ok sample_slots (waiting_sample b)" "eth_netif (waiting_sample b) 1" "unicast (waiting_sample b) 1 0x0300a8c0"
    "holds (waiting_sample b) 0x0300a8c0 0 (content b [4102])" "wire (waiting_sample b) = []" "hwaddr (ifs (waiting_sample b) 1) = [2, 0, 0, 0, 0, 1]"
    using arp_sample_netif(1,2) [of b] b
    by (simp_all add: waiting_sample_def set_entry_def holds_def pending_for_def eth_netif_def unicast_def arp_ok_def table_ok_def entry_ok_def queued_ok_def)
      (auto simp: arp_sample_def content_def)
  have mac: "mac [2, 0, 0, 0, 0, 3]" by (simp add: mac_def)
  have pb: "pb (arp_sample b) = b" by (rule arp_sample_netif(5))
  note main = queued_packet_delivered [OF arp_sample_ok [OF b(1)] arp_sample_netif(1,2) q, of "\<lambda>_ _. ERR_OK", unfolded pb]
  obtain t' where t': "etharp_update_arp_entry (\<lambda>_ _. ERR_OK) 1 0x0300a8c0 [2, 0, 0, 0, 0, 3] ETHARP_FLAG_TRY_HARD (waiting_sample b) = Inr (ERR_OK, t')"
    "wire t' = wire (waiting_sample b) @ [(1, eth_header [2, 0, 0, 0, 0, 3] (hwaddr (ifs (waiting_sample b) 1)) @ drop SIZEOF_ETH_HDR (content b [4102]))]"
    using main t(1-4) mac by blast
  have "wire t' = [(1, eth_header [2, 0, 0, 0, 0, 3] [2, 0, 0, 0, 0, 1] @ drop SIZEOF_ETH_HDR (content b [4102]))]" using t'(2) t(5,6) by simp
  with main t'(1) show ?thesis by blast
qed

end
