(* ===== verification/Autoip_Life.thy ===== *)
theory Autoip_Life
  imports Autoip Etharp_Queue
begin

text \<open>
  What the AutoIP client does for an interface: the addresses it picks, the way from the first
  probe to a configured interface, and its reaction to conflicts.
\<close>

section \<open>Interfaces\<close>

lemma set_if_simps [simp]:
  "ifs (set_if n f s) = (ifs s)(n := f (ifs s n))" "pb (set_if n f s) = pb s" "wire (set_if n f s) = wire s"
  "arp_table (set_if n f s) = arp_table s" "netif_list (set_if n f s) = netif_list s"
  by (simp_all add: set_if_def)

lemma arp_ok_cong: "arp_table s' = arp_table s \<Longrightarrow> pb s' = pb s \<Longrightarrow> arp_ok sl s' = arp_ok sl s"
  by (simp add: arp_ok_def)

lemma arp_ok_set_if [simp]: "arp_ok sl (set_if n f s) = arp_ok sl s"
  by (rule arp_ok_cong) simp_all

lemma set_autoip_simps [simp]:
  "ifs (set_autoip n f s) = (ifs s)(n := (ifs s n)\<lparr>autoip := map_option f (autoip (ifs s n))\<rparr>)"
  "pb (set_autoip n f s) = pb s" "wire (set_autoip n f s) = wire s" "netif_list (set_autoip n f s) = netif_list s" "arp_ok sl (set_autoip n f s) = arp_ok sl s"
  by (simp_all add: set_autoip_def)

lemma or_up: "x AND 1 \<noteq> 0 \<Longrightarrow> x OR 1 = x" for x :: u8
  by (rule bit_word_eqI) (metis bit_or_iff bit_1_iff and_one_eq one_neq_zero odd_iff_mod_2_eq_one bit_0 even_iff_mod_2_eq_zero)

section \<open>Addresses\<close>

text \<open>The last two octets of the address for a number of tries.\<close>

definition host_part :: "nat \<Rightarrow> nat" where
  "host_part v = (if v < 256 then v + 0xFE00 else if v > 0xFEFF then v - 0xFE00 else v)"

definition seed_part :: "netif \<Rightarrow> u8 \<Rightarrow> nat" where
  "seed_part nif t = unat (lwip_ntohl (LWIP_AUTOIP_CREATE_SEED_ADDR nif) + ucast t) mod 65536"

lemma net_or: "unat (AUTOIP_NET OR (x AND 0xffff)) = 0xA9FE0000 + unat x mod 65536"
proof -
  have a: "x AND 0xffff = take_bit 16 x" by (simp add: take_bit_eq_mask mask_eq_exp_minus_1)
  have n: "AUTOIP_NET = push_bit 16 0xA9FE" by (simp add: push_bit_eq_mult)
  have nb: "\<not> bit AUTOIP_NET i" if "i < 16" for i using that by (simp only: n bit_push_bit_iff) simp
  have "AUTOIP_NET OR take_bit 16 x = AUTOIP_NET + take_bit 16 x"
    by (rule disjunctive_add [symmetric]) (use nb in \<open>auto simp: bit_take_bit_iff\<close>)
  moreover have "unat (take_bit 16 x) = unat x mod 65536" by (simp only: unsigned_take_bit_eq) (simp add: take_bit_eq_mod)
  moreover have "unat (AUTOIP_NET + take_bit 16 x) = 0xA9FE0000 + unat (take_bit 16 x)"
    using calculation(2) by (simp add: unat_plus_if')
  ultimately show ?thesis by (simp add: a)
qed


lemma autoip_create_addr_eq:
  "\<exists>addr. autoip_create_addr nif t = Inr (lwip_htonl addr) \<and> unat addr = 0xA9FE0000 + host_part (seed_part nif t)"
proof -
  define x where "x = lwip_ntohl (LWIP_AUTOIP_CREATE_SEED_ADDR nif) + ucast t"
  define a where "a = AUTOIP_NET OR (x AND 0xffff)"
  define v where "v = unat x mod 65536"
  have a: "unat a = 0xA9FE0000 + v" unfolding a_def v_def by (rule net_or)
  have v: "v < 65536" by (simp add: v_def)
  define a1 where "a1 = (if a < AUTOIP_RANGE_START then a + (AUTOIP_RANGE_END - AUTOIP_RANGE_START + 1) else a)"
  have a1: "unat a1 = 0xA9FE0000 + (if v < 256 then v + 0xFE00 else v)"
    unfolding a1_def using a v by (auto simp: word_less_nat_alt unat_plus_if')
  define a2 where "a2 = (if a1 > AUTOIP_RANGE_END then a1 - (AUTOIP_RANGE_END - AUTOIP_RANGE_START + 1) else a1)"
  have a2: "unat a2 = 0xA9FE0000 + host_part v"
    unfolding a2_def using a1 v by (auto simp: word_less_nat_alt unat_sub_if' host_part_def)
  have "a2 \<ge> AUTOIP_RANGE_START \<and> a2 \<le> AUTOIP_RANGE_END"
    using a2 v by (auto simp: word_le_nat_alt host_part_def)
  then have "autoip_create_addr nif t = Inr (lwip_htonl a2)"
    unfolding autoip_create_addr_def Let_def x_def [symmetric] a_def [symmetric] a1_def [symmetric] a2_def [symmetric] by simp
  then show ?thesis using a2 by (auto simp: v_def x_def seed_part_def)
qed

lemma seed_part_eq: "seed_part nif t = (unat (lwip_ntohl (LWIP_AUTOIP_CREATE_SEED_ADDR nif)) + unat t) mod 65536"
proof -
  have "unat (ucast t :: u32) = unat t" by simp
  then show ?thesis unfolding seed_part_def by (simp add: unat_word_ariths) (simp add: mod_mod_cancel)
qed

lemma host_part_inj:
  assumes "host_part ((a + t) mod 65536) = host_part ((a + t') mod 65536)" "t < 256" "t' < 256"
  shows "t = t'"
proof -
  let ?b = "a mod 65536"
  have e: "(a + x) mod 65536 = (if ?b + x < 65536 then ?b + x else ?b + x - 65536)" if "x < 256" for x
  proof -
    have "(a + x) mod 65536 = (?b + x) mod 65536" by (rule mod_add_left_eq [symmetric])
    also have "\<dots> = (if ?b + x < 65536 then ?b + x else ?b + x - 65536)"
    proof (cases "?b + x < 65536")
      case False
      have "?b < 65536" by simp
      then have "?b + x - 65536 < 65536" "?b + x = ?b + x - 65536 + 65536" using that False by linarith+
      then show ?thesis using False by (metis mod_add_self2 mod_less)
    qed (simp only: mod_less if_True)
    finally show ?thesis .
  qed
  define b where "b = ?b"
  have b: "b < 65536" by (simp add: b_def)
  have "host_part (if b + t < 65536 then b + t else b + t - 65536) = host_part (if b + t' < 65536 then b + t' else b + t' - 65536)"
    using assms(1) unfolding e [OF assms(2)] e [OF assms(3)] b_def .
  then show ?thesis using b assms(2,3) unfolding host_part_def by (simp split: if_splits)
qed

lemma autoip_create_addr_inj: "inj (autoip_create_addr nif)"
proof (rule injI)
  fix t t' assume eq: "autoip_create_addr nif t = autoip_create_addr nif t'"
  obtain x where x: "autoip_create_addr nif t = Inr (lwip_htonl x)" "unat x = 0xA9FE0000 + host_part (seed_part nif t)"
    using autoip_create_addr_eq by blast
  obtain y where y: "autoip_create_addr nif t' = Inr (lwip_htonl y)" "unat y = 0xA9FE0000 + host_part (seed_part nif t')"
    using autoip_create_addr_eq by blast
  have "x = y" using eq x(1) y(1) by simp
  then have "host_part (seed_part nif t) = host_part (seed_part nif t')" using x(2) y(2) by simp
  moreover have "unat t < 256" "unat t' < 256" using unsigned_less [of t] unsigned_less [of t'] by simp_all
  ultimately have "unat t = unat t'" unfolding seed_part_eq by (rule host_part_inj)
  then show "t = t'" by (rule word_unat_eq_iff [THEN iffD2])
qed

section \<open>One tick of the timer\<close>

text \<open>The reference for the client of one interface; \<open>r\<close> is the pseudo random number.\<close>

definition calmed :: "autoip \<Rightarrow> autoip" where
  "calmed a = (if lastconflict a > 0 then a\<lparr>lastconflict := lastconflict a - 1\<rparr> else a)"

definition probing_next :: "u32 \<Rightarrow> autoip \<Rightarrow> autoip" where
  "probing_next r a =
     (if ttw a > 0 then a\<lparr>ttw := ttw a - 1\<rparr>
      else if sent_num a \<ge> PROBE_NUM then a\<lparr>ai_state := AUTOIP_STATE_ANNOUNCING, sent_num := 0, ttw := 20\<rparr>
      else a\<lparr>sent_num := sent_num a + 1, ttw := ucast (r mod 10 + 10)\<rparr>)"

definition announcing_next :: "autoip \<Rightarrow> autoip" where
  "announcing_next a =
     (if ttw a > 0 then a\<lparr>ttw := ttw a - 1\<rparr>
      else if sent_num a + 1 \<ge> ANNOUNCE_NUM then a\<lparr>ai_state := AUTOIP_STATE_BOUND, sent_num := 0, ttw := 0\<rparr>
      else a\<lparr>ttw := 20, sent_num := sent_num a + 1\<rparr>)"

definition client_next :: "u32 \<Rightarrow> autoip \<Rightarrow> autoip" where
  "client_next r a =
     (case ai_state a of
        AUTOIP_STATE_PROBING \<Rightarrow> probing_next r (calmed a)
      | AUTOIP_STATE_ANNOUNCING \<Rightarrow> announcing_next (calmed a)
      | _ \<Rightarrow> calmed a)"

text \<open>The tick on which the interface is configured, and what it becomes.\<close>

definition binds :: "autoip \<Rightarrow> bool" where
  "binds a \<longleftrightarrow> ai_state a = AUTOIP_STATE_ANNOUNCING \<and> ttw a = 0 \<and> sent_num a = 0"

definition bound_if :: "u32 \<Rightarrow> netif \<Rightarrow> netif" where
  "bound_if ip i = i\<lparr>ip_addr := ip, netmask := lwip_htonl 0xffff0000, gw := 0, flags := flags i OR NETIF_FLAG_UP\<rparr>"

text \<open>What is asked of the TCP layer when the address of an interface changes.\<close>

definition tcp_frame :: "(memp_t \<Rightarrow> nat list) \<Rightarrow> tcp_hook \<Rightarrow> bool" where
  "tcp_frame sl tcp \<longleftrightarrow> (\<forall>old new s. arp_ok sl s \<longrightarrow> (\<exists>s'. tcp old new s = Inr s' \<and> arp_ok sl s' \<and> ifs s' = ifs s \<and> netif_list s' = netif_list s))"

definition probe_frame :: "netif \<Rightarrow> u32 \<Rightarrow> bytes" where
  "probe_frame i ip = arp_frame ethbroadcast (hwaddr i) ARP_REQUEST (hwaddr i) IPADDR_ANY ethzero ip"

definition announce_frame :: "netif \<Rightarrow> u32 \<Rightarrow> bytes" where
  "announce_frame i ip = arp_frame ethbroadcast (hwaddr i) ARP_REQUEST (hwaddr i) ip ethzero ip"

lemma arp_broadcast_ok:
  assumes ok: "arp_ok sl s" and n: "eth_netif s n" and F: "F = arp_frame ethbroadcast (hwaddr (ifs s n)) ARP_REQUEST (hwaddr (ifs s n)) src ethzero ip"
  obtains r b w where "etharp_raw link n (hwaddr (ifs s n)) ethbroadcast (hwaddr (ifs s n)) src ethzero ip ARP_REQUEST s =
      Inr (r, s\<lparr>pb := b, wire := wire s @ w\<rparr>)"
    "arp_ok sl (s\<lparr>pb := b, wire := wire s @ w\<rparr>)" "w = [] \<or> w = [(n, F)]"
proof -
  have n': "n \<noteq> 0" "hwaddr_len (ifs s n) = ETHARP_HWADDR_LEN" "mac (hwaddr (ifs s n))"
    using n by (auto simp: eth_netif_def)
  have F': "F = arp_frame (if ip_addr_islinklocal src then ethbroadcast else ethbroadcast)
      (hwaddr (ifs s n)) ARP_REQUEST (hwaddr (ifs s n)) src ethzero ip" by (simp add: F)
  have m: "mem_ok sl (pb s)" using ok by (simp add: arp_ok_def)
  from m n'(1,2,3) mac_consts(1) n'(3) mac_consts(2) F' show thesis
  proof (cases rule: etharp_raw_ok [where link = link])
    case none
    then show thesis using that [where r = ERR_MEM and b = "pb s" and w = "[]"] ok by simp
  next
    case (sent b)
    have "arp_ok sl (s\<lparr>pb := b, wire := wire s @ [(n, F)]\<rparr>)" by (rule arp_ok_others [OF ok sent(2)]) simp_all
    then show thesis using that [where b = b and w = "[(n, F)]"] sent(1) by simp
  qed
qed

text \<open>There is memory for the pbuf of an ARP packet.\<close>

definition frame_memory :: "arp_state \<Rightarrow> bool" where
  "frame_memory s \<longleftrightarrow> (case pbuf_alloc PBUF_RAW SIZEOF_ETHARP_PACKET PBUF_RAM (pb s) of Inl _ \<Rightarrow> False | Inr (p, _) \<Rightarrow> p \<noteq> 0)"

lemma raw_wire:
  assumes "etharp_raw link n src dst hs ips ht ipd op s = Inr (r, s')"
  shows "wire s' = wire s \<longleftrightarrow> \<not> frame_memory s"
proof -
  obtain p b where a: "pbuf_alloc PBUF_RAW SIZEOF_ETHARP_PACKET PBUF_RAM (pb s) = Inr (p, b)"
    using assms by (auto simp: etharp_raw_def split: if_splits)
  show ?thesis
  proof (cases "p = 0")
    case True
    then show ?thesis using assms unfolding etharp_raw_def a frame_memory_def by (auto simp: Let_def split: if_splits)
  next
    case False
    define u where "u = store p 0 (arp_frame (if ip_addr_islinklocal ips then ethbroadcast else dst) src op hs ips ht ipd) (s\<lparr>pb := b\<rparr>)"
    have "free_pbuf p (snd (linkoutput link n p u)) = Inr s'"
      using assms False unfolding etharp_raw_def a Let_def u_def [symmetric] rbind_Inr prod.case
      by (cases "linkoutput link n p u") (simp split: if_splits)
    then have "wire s' = wire (snd (linkoutput link n p u))" by (auto simp: free_pbuf_def)
    then have "wire s' = wire s @ [(n, gather PBUF_MAX p (pb u))]" by (simp add: linkoutput_def Let_def u_def store_def del: gather.simps)
    then show ?thesis using False a by (simp add: frame_memory_def del: gather.simps)
  qed
qed

lemma set_up_ok:
  assumes ok: "arp_ok sl s" and n: "eth_netif s n"
  shows "\<exists>s' w. netif_set_up link n s = Inr s' \<and> arp_ok sl s' \<and>
    ifs s' = (ifs s)(n := (ifs s n)\<lparr>flags := flags (ifs s n) OR NETIF_FLAG_UP\<rparr>) \<and> netif_list s' = netif_list s \<and> wire s' = wire s @ w \<and>
    (w = [] \<or> w = [(n, announce_frame (ifs s n) (ip_addr (ifs s n)))])"
proof (cases "flags (ifs s n) AND NETIF_FLAG_UP = 0")
  case False
  then have "(ifs s)(n := (ifs s n)\<lparr>flags := flags (ifs s n) OR NETIF_FLAG_UP\<rparr>) = ifs s" by (simp add: or_up fun_upd_idem)
  then show ?thesis using False ok by (intro exI [of _ s] exI [of _ "[]"]) (simp add: netif_set_up_def)
next
  case True
  let ?s1 = "set_if n (\<lambda>i. i\<lparr>flags := flags i OR NETIF_FLAG_UP\<rparr>) s"
  have ok1: "arp_ok sl ?s1" "eth_netif ?s1 n" using ok n by (simp_all add: eth_netif_def)
  show ?thesis
  proof (cases "flags (ifs ?s1 n) AND NETIF_FLAG_LINK_UP \<noteq> 0 \<and> flags (ifs ?s1 n) AND NETIF_FLAG_ETHARP \<noteq> 0")
    case False
    then have "netif_set_up link n s = Inr ?s1" using True by (auto simp: netif_set_up_def Let_def)
    then show ?thesis using ok1 by (intro exI [of _ ?s1] exI [of _ "[]"]) simp
  next
    case tr: True
    obtain r b w where r: "etharp_raw link n (hwaddr (ifs ?s1 n)) ethbroadcast (hwaddr (ifs ?s1 n)) (ip_addr (ifs ?s1 n)) ethzero
        (ip_addr (ifs ?s1 n)) ARP_REQUEST ?s1 = Inr (r, ?s1\<lparr>pb := b, wire := wire ?s1 @ w\<rparr>)"
      "arp_ok sl (?s1\<lparr>pb := b, wire := wire ?s1 @ w\<rparr>)"
      "w = [] \<or> w = [(n, announce_frame (ifs ?s1 n) (ip_addr (ifs ?s1 n)))]"
      by (rule arp_broadcast_ok [OF ok1 announce_frame_def, of link]) blast
    let ?s2 = "?s1\<lparr>pb := b, wire := wire ?s1 @ w\<rparr>"
    have "netif_set_up link n s = Inr ?s2"
      using True tr r(1) by (simp add: netif_set_up_def Let_def etharp_gratuitous_def etharp_request_def)
    then show ?thesis using r(2,3) by (intro exI [of _ ?s2] exI [of _ w]) (simp add: announce_frame_def)
  qed
qed

definition sent_by :: "nat \<Rightarrow> netif \<Rightarrow> autoip \<Rightarrow> (nat \<times> bytes) list \<Rightarrow> bool" where
  "sent_by n i a w \<longleftrightarrow> w = [] \<or> ai_state a = AUTOIP_STATE_PROBING \<and> ttw a = 0 \<and> sent_num a < PROBE_NUM \<and> w = [(n, probe_frame i (llipaddr a))] \<or>
     ai_state a = AUTOIP_STATE_ANNOUNCING \<and> w = [(n, announce_frame i (llipaddr a))]"

lemma probing_tick:
  assumes ok: "arp_ok sl s" and n: "eth_netif s n" and a: "autoip (ifs s n) = Some a" "ai_state a = AUTOIP_STATE_PROBING"
  shows "\<exists>s' w. tmr_probing link n a s = Inr s' \<and> arp_ok sl s' \<and>
    ifs s' = (ifs s)(n := (ifs s n)\<lparr>autoip := Some (probing_next (LWIP_AUTOIP_RAND (ifs s n)) a)\<rparr>) \<and>
    netif_list s' = netif_list s \<and> wire s' = wire s @ w \<and> sent_by n (ifs s n) a w"
proof (cases "ttw a > 0 \<or> sent_num a \<ge> PROBE_NUM")
  case True
  then have "tmr_probing link n a s = Inr (set_autoip n (\<lambda>x. probing_next (LWIP_AUTOIP_RAND (ifs s n)) a) s)"
    using a(1) by (auto simp: tmr_probing_def probing_next_def set_autoip_def set_if_def)
  then show ?thesis using ok a(1) by (intro exI [of _ "set_autoip n (\<lambda>x. probing_next (LWIP_AUTOIP_RAND (ifs s n)) a) s"] exI [of _ "[]"])
      (simp add: sent_by_def)
next
  case False
  obtain r b w where r: "etharp_raw link n (hwaddr (ifs s n)) ethbroadcast (hwaddr (ifs s n)) IPADDR_ANY ethzero (llipaddr a) ARP_REQUEST s =
      Inr (r, s\<lparr>pb := b, wire := wire s @ w\<rparr>)"
    "arp_ok sl (s\<lparr>pb := b, wire := wire s @ w\<rparr>)" "w = [] \<or> w = [(n, probe_frame (ifs s n) (llipaddr a))]"
    by (rule arp_broadcast_ok [OF ok n probe_frame_def, of link]) blast
  let ?s1 = "s\<lparr>pb := b, wire := wire s @ w\<rparr>"
  let ?s2 = "set_autoip n (\<lambda>x. probing_next (LWIP_AUTOIP_RAND (ifs s n)) a) ?s1"
  have "tmr_probing link n a s = Inr ?s2"
    using False a(1) r(1) by (simp add: tmr_probing_def autoip_arp_probe_def client_def probing_next_def set_autoip_def set_if_def)
  then show ?thesis using r(2,3) a False by (intro exI [of _ ?s2] exI [of _ w]) (auto simp: sent_by_def word_gt_0)
qed

lemma bind_ok:
  assumes ok: "arp_ok sl s" and n: "eth_netif s n" and a: "autoip (ifs s n) = Some a" and tcp: "tcp_frame sl tcp"
  shows "\<exists>s'. autoip_bind link tcp n s = Inr s' \<and> arp_ok sl s' \<and> netif_list s' = netif_list s \<and> ifs s' = (ifs s)(n := bound_if (llipaddr a) (ifs s n))"
proof -
  obtain s1 where s1: "netif_set_ipaddr tcp n (Some (llipaddr a)) s = Inr (set_if n (\<lambda>i. i\<lparr>ip_addr := llipaddr a\<rparr>) s1)"
    "arp_ok sl s1" "ifs s1 = ifs s" "netif_list s1 = netif_list s"
  proof (cases "llipaddr a = ip_addr (ifs s n)")
    case True
    then show thesis using that [of s] ok by (simp add: netif_set_ipaddr_def addr_or_any_def)
  next
    case False
    then obtain s1 where "tcp (ip_addr (ifs s n)) (llipaddr a) s = Inr s1" "arp_ok sl s1" "ifs s1 = ifs s" "netif_list s1 = netif_list s"
      using tcp ok unfolding tcp_frame_def by blast
    then show thesis using that [of s1] False by (simp add: netif_set_ipaddr_def addr_or_any_def)
  qed
  let ?s2 = "netif_set_gw n (Some 0) (netif_set_netmask n (Some (lwip_htonl 0xffff0000)) (set_if n (\<lambda>i. i\<lparr>ip_addr := llipaddr a\<rparr>) s1))"
  have f2: "ifs ?s2 = (ifs s)(n := (ifs s n)\<lparr>ip_addr := llipaddr a, netmask := lwip_htonl 0xffff0000, gw := 0\<rparr>)"
    by (simp add: netif_set_gw_def netif_set_netmask_def addr_or_any_def s1(3))
  have "arp_ok sl ?s2" using s1(2) by (simp add: netif_set_gw_def netif_set_netmask_def)
  moreover have "eth_netif ?s2 n" using n unfolding eth_netif_def f2 by simp
  ultimately obtain s3 where s3: "netif_set_up link n ?s2 = Inr s3" "arp_ok sl s3"
    "ifs s3 = (ifs ?s2)(n := (ifs ?s2 n)\<lparr>flags := flags (ifs ?s2 n) OR NETIF_FLAG_UP\<rparr>)" "netif_list s3 = netif_list ?s2"
    using set_up_ok by blast
  have "autoip_bind link tcp n s = Inr s3" using a s1(1) s3(1) by (simp add: autoip_bind_def client_def)
  moreover have "ifs s3 = (ifs s)(n := bound_if (llipaddr a) (ifs s n))" unfolding s3(3) f2 by (simp add: bound_if_def)
  moreover have "netif_list s3 = netif_list s"
    unfolding s3(4) by (simp add: netif_set_gw_def netif_set_netmask_def s1(4))
  ultimately show ?thesis using s3(2) by blast
qed

lemma announced:
  assumes "autoip (ifs s n) = Some a" "ttw a = 0"
  shows "(let s = set_autoip n (\<lambda>a. a\<lparr>ttw := 20, sent_num := sent_num a + 1\<rparr>) s in
      rbind (client n s) (\<lambda>a. Inr (if sent_num a \<ge> ANNOUNCE_NUM
        then set_autoip n (\<lambda>a. a\<lparr>ai_state := AUTOIP_STATE_BOUND, sent_num := 0, ttw := 0\<rparr>) s else s))) =
    Inr (set_autoip n (\<lambda>_. announcing_next a) s)"
  using assms by (simp add: client_def announcing_next_def set_autoip_def set_if_def)

lemma announcing_tick:
  assumes ok: "arp_ok sl s" and n: "eth_netif s n" and a: "autoip (ifs s n) = Some a" "ai_state a = AUTOIP_STATE_ANNOUNCING"
    and tcp: "tcp_frame sl tcp"
  shows "\<exists>s'. tmr_announcing link tcp n a s = Inr s' \<and> arp_ok sl s' \<and> netif_list s' = netif_list s \<and>
    ifs s' = (ifs s)(n := (if binds a then bound_if (llipaddr a) (ifs s n) else ifs s n)\<lparr>autoip := Some (announcing_next a)\<rparr>) \<and>
    (binds a \<or> (\<exists>w. wire s' = wire s @ w \<and> sent_by n (ifs s n) a w))"
proof (cases "ttw a > 0")
  case True
  then have "tmr_announcing link tcp n a s = Inr (set_autoip n (\<lambda>_. announcing_next a) s)"
    using a(1) by (simp add: tmr_announcing_def announcing_next_def set_autoip_def set_if_def)
  then show ?thesis using ok a(1) True
    by (intro exI [of _ "set_autoip n (\<lambda>_. announcing_next a) s"]) (auto simp: binds_def sent_by_def)
next
  case False
  then have t0: "ttw a = 0" by (simp add: word_gt_0)
  show ?thesis
  proof (cases "sent_num a = 0")
    case True
    obtain s1 where s1: "autoip_bind link tcp n s = Inr s1" "arp_ok sl s1" "ifs s1 = (ifs s)(n := bound_if (llipaddr a) (ifs s n))"
      "netif_list s1 = netif_list s"
      using bind_ok [OF ok n a(1) tcp] by blast
    have a1: "autoip (ifs s1 n) = Some a" using s1(3) a(1) by (simp add: bound_if_def)
    have "tmr_announcing link tcp n a s = Inr (set_autoip n (\<lambda>_. announcing_next a) s1)"
      unfolding tmr_announcing_def announced [OF a1 t0, symmetric] using t0 True s1(1) by simp
    then show ?thesis using s1(2-4) a1 a(2) t0 True
      by (intro exI [of _ "set_autoip n (\<lambda>_. announcing_next a) s1"]) (simp add: binds_def)
  next
    case ns: False
    obtain r b w where r: "etharp_raw link n (hwaddr (ifs s n)) ethbroadcast (hwaddr (ifs s n)) (llipaddr a) ethzero (llipaddr a) ARP_REQUEST s =
        Inr (r, s\<lparr>pb := b, wire := wire s @ w\<rparr>)"
      "arp_ok sl (s\<lparr>pb := b, wire := wire s @ w\<rparr>)" "w = [] \<or> w = [(n, announce_frame (ifs s n) (llipaddr a))]"
      by (rule arp_broadcast_ok [OF ok n announce_frame_def, of link]) blast
    let ?s1 = "s\<lparr>pb := b, wire := wire s @ w\<rparr>"
    have a1: "autoip (ifs ?s1 n) = Some a" using a(1) by simp
    have "tmr_announcing link tcp n a s = Inr (set_autoip n (\<lambda>_. announcing_next a) ?s1)"
      unfolding tmr_announcing_def announced [OF a1 t0, symmetric] using t0 ns a(1) r(1)
      by (simp add: autoip_arp_announce_def client_def)
    then show ?thesis using r(2,3) a ns
      by (intro exI [of _ "set_autoip n (\<lambda>_. announcing_next a) ?s1"]) (auto simp: binds_def sent_by_def)
  qed
qed

lemma calmed_simps [simp]:
  "ai_state (calmed a) = ai_state a" "ttw (calmed a) = ttw a" "sent_num (calmed a) = sent_num a"
  "llipaddr (calmed a) = llipaddr a" "tried_llipaddr (calmed a) = tried_llipaddr a"
  "binds (calmed a) = binds a" "sent_by n i (calmed a) = sent_by n i a"
  by (auto simp: calmed_def binds_def sent_by_def intro!: ext)

lemma rand_client: "autoip i = Some a \<Longrightarrow> tried_llipaddr b = tried_llipaddr a \<Longrightarrow> LWIP_AUTOIP_RAND (i\<lparr>autoip := Some b\<rparr>) = LWIP_AUTOIP_RAND i"
  by (simp add: LWIP_AUTOIP_RAND_def)

text \<open>The reference for an interface.\<close>

definition tick_if :: "netif \<Rightarrow> netif" where
  "tick_if i =
     (case autoip i of
        None \<Rightarrow> i
      | Some a \<Rightarrow> (if binds a then bound_if (llipaddr a) i else i)\<lparr>autoip := Some (client_next (LWIP_AUTOIP_RAND i) a)\<rparr>)"

lemma tick_ok:
  assumes ok: "arp_ok sl s" and n: "autoip (ifs s n) \<noteq> None \<longrightarrow> eth_netif s n" and tcp: "tcp_frame sl tcp"
  shows "\<exists>s'. autoip_tick link tcp n s = Inr s' \<and> arp_ok sl s' \<and> netif_list s' = netif_list s \<and>
    ifs s' = (ifs s)(n := tick_if (ifs s n))"
proof (cases "autoip (ifs s n)")
  case None
  then show ?thesis using ok by (intro exI [of _ s]) (simp add: autoip_tick_def tick_if_def fun_upd_idem)
next
  case (Some a)
  let ?s1 = "if lastconflict a > 0 then set_autoip n (\<lambda>a. a\<lparr>lastconflict := lastconflict a - 1\<rparr>) s else s"
  let ?r = "LWIP_AUTOIP_RAND (ifs s n)"
  have i1: "ifs ?s1 = (ifs s)(n := (ifs s n)\<lparr>autoip := Some (calmed a)\<rparr>)"
    using Some by (cases "ifs s n") (auto simp: calmed_def fun_upd_idem)
  have s1: "arp_ok sl ?s1" "netif_list ?s1 = netif_list s" "eth_netif ?s1 n" "autoip (ifs ?s1 n) = Some (calmed a)"
    "LWIP_AUTOIP_RAND (ifs ?s1 n) = ?r"
    using ok n Some i1 rand_client [OF Some] by (simp_all add: eth_netif_def)
  have run: "autoip_tick link tcp n s = (case ai_state a of AUTOIP_STATE_PROBING \<Rightarrow> tmr_probing link n (calmed a) ?s1
      | AUTOIP_STATE_ANNOUNCING \<Rightarrow> tmr_announcing link tcp n (calmed a) ?s1 | _ \<Rightarrow> Inr ?s1)"
    using Some s1(4) unfolding autoip_tick_def Let_def by (simp add: client_def cong: autoip_state.case_cong)
  consider (p) "ai_state a = AUTOIP_STATE_PROBING" | (n) "ai_state a = AUTOIP_STATE_ANNOUNCING"
    | (o) "ai_state a \<noteq> AUTOIP_STATE_PROBING" "ai_state a \<noteq> AUTOIP_STATE_ANNOUNCING" by blast
  then show ?thesis
  proof cases
    case p
    then obtain s' where "tmr_probing link n (calmed a) ?s1 = Inr s'" "arp_ok sl s'" "netif_list s' = netif_list s"
      "ifs s' = (ifs ?s1)(n := (ifs ?s1 n)\<lparr>autoip := Some (probing_next ?r (calmed a))\<rparr>)"
      using probing_tick [OF s1(1,3,4), of link] s1(2,5) by auto
    moreover have "tick_if (ifs s n) = (ifs s n)\<lparr>autoip := Some (probing_next ?r (calmed a))\<rparr>"
      using Some p by (simp add: tick_if_def binds_def client_next_def)
    ultimately show ?thesis using run p unfolding i1 by simp
  next
    case n
    then obtain s' where s': "tmr_announcing link tcp n (calmed a) ?s1 = Inr s'" "arp_ok sl s'" "netif_list s' = netif_list s"
      "ifs s' = (ifs ?s1)(n := (if binds a then bound_if (llipaddr a) (ifs ?s1 n) else ifs ?s1 n)\<lparr>autoip := Some (announcing_next (calmed a))\<rparr>)"
      using announcing_tick [OF s1(1,3,4) _ tcp, of link] s1(2) by auto
    have "tick_if (ifs s n) = (if binds a then bound_if (llipaddr a) (ifs s n) else ifs s n)\<lparr>autoip := Some (announcing_next (calmed a))\<rparr>"
      using Some n by (simp add: tick_if_def client_next_def)
    then have "ifs s' = (ifs s)(n := tick_if (ifs s n))" unfolding s'(4) i1 by (simp add: bound_if_def)
    then show ?thesis using run n s'(1-3) by simp
  next
    case o
    then have "autoip_tick link tcp n s = Inr ?s1" using run by (cases "ai_state a") simp_all
    moreover have "tick_if (ifs s n) = (ifs s n)\<lparr>autoip := Some (calmed a)\<rparr>"
      using Some o by (cases "ai_state a") (simp_all add: tick_if_def binds_def client_next_def)
    ultimately show ?thesis using s1(1,2) i1 by (intro exI [of _ ?s1]) simp
  qed
qed

section \<open>All interfaces\<close>

text \<open>The list of interfaces is \<open>ns\<close>; those with a client speak Ethernet.\<close>

definition list_ok :: "arp_state \<Rightarrow> nat list \<Rightarrow> bool" where
  "list_ok s ns \<longleftrightarrow> linked (\<lambda>m. nif_next (ifs s m)) (netif_list s) ns \<and> distinct ns \<and> length ns < NETIF_MAX \<and>
     (\<forall>m \<in> set ns. autoip (ifs s m) \<noteq> None \<longrightarrow> eth_netif s m)"

lemma tick_if_simps [simp]:
  "nif_next (tick_if i) = nif_next i" "hwaddr (tick_if i) = hwaddr i" "hwaddr_len (tick_if i) = hwaddr_len i"
  "autoip (tick_if i) = None \<longleftrightarrow> autoip i = None"
  by (auto simp: tick_if_def bound_if_def split: option.splits)

lemma tmr_loop_ok:
  assumes "arp_ok sl s" "linked (\<lambda>m. nif_next (ifs s m)) n ns" "distinct ns" "length ns < fuel"
    "\<forall>m \<in> set ns. autoip (ifs s m) \<noteq> None \<longrightarrow> eth_netif s m" "tcp_frame sl tcp"
  shows "\<exists>s'. autoip_tmr_loop fuel link tcp n s = Inr s' \<and> arp_ok sl s' \<and> netif_list s' = netif_list s \<and>
    ifs s' = (\<lambda>m. if m \<in> set ns then tick_if (ifs s m) else ifs s m)"
  using assms
proof (induction ns arbitrary: n s fuel)
  case Nil
  then show ?case by (cases fuel) auto
next
  case (Cons m ms)
  then obtain f where f: "fuel = Suc f" "length ms < f" by (cases fuel) auto
  from Cons.prems have n: "n = m" "m \<noteq> 0" "linked (\<lambda>m. nif_next (ifs s m)) (nif_next (ifs s m)) ms" "m \<notin> set ms" by auto
  obtain s1 where s1: "autoip_tick link tcp m s = Inr s1" "arp_ok sl s1" "netif_list s1 = netif_list s"
    "ifs s1 = (ifs s)(m := tick_if (ifs s m))"
    using tick_ok [OF Cons.prems(1) _ Cons.prems(6), of m link] Cons.prems(5) by auto
  have "linked (\<lambda>m. nif_next (ifs s1 m)) (nif_next (ifs s1 m)) ms"
    using n(3) by (subst linked_cong [of _ _ "\<lambda>m. nif_next (ifs s m)"]) (auto simp: s1(4))
  moreover have "\<forall>k \<in> set ms. autoip (ifs s1 k) \<noteq> None \<longrightarrow> eth_netif s1 k"
    using Cons.prems(5) n(4) by (auto simp: s1(4) eth_netif_def)
  ultimately obtain s' where s': "autoip_tmr_loop f link tcp (nif_next (ifs s1 m)) s1 = Inr s'" "arp_ok sl s'"
    "netif_list s' = netif_list s1" "ifs s' = (\<lambda>k. if k \<in> set ms then tick_if (ifs s1 k) else ifs s1 k)"
    using Cons.IH [OF s1(2) _ _ f(2) _ Cons.prems(6), of "nif_next (ifs s1 m)"] Cons.prems(3) by auto
  have "ifs s' = (\<lambda>k. if k \<in> set (m # ms) then tick_if (ifs s k) else ifs s k)"
    using n(4) by (auto simp: s'(4) s1(4))
  then show ?case using s' s1 n(1,2) by (intro exI [of _ s']) (simp add: f(1))
qed

lemma autoip_tmr_ok:
  assumes ok: "arp_ok sl s" and l: "list_ok s ns" and tcp: "tcp_frame sl tcp"
  shows "\<exists>s'. autoip_tmr link tcp s = Inr s' \<and> arp_ok sl s' \<and> list_ok s' ns \<and>
    ifs s' = (\<lambda>m. if m \<in> set ns then tick_if (ifs s m) else ifs s m)"
proof -
  note l' = l [unfolded list_ok_def]
  obtain s' where s': "autoip_tmr_loop NETIF_MAX link tcp (netif_list s) s = Inr s'" "arp_ok sl s'" "netif_list s' = netif_list s"
    "ifs s' = (\<lambda>m. if m \<in> set ns then tick_if (ifs s m) else ifs s m)"
    using tmr_loop_ok [OF ok _ _ _ _ tcp, of "netif_list s" ns NETIF_MAX link] l' by blast
  have "list_ok s' ns"
    unfolding list_ok_def s'(3)
  proof (intro conjI)
    show "linked (\<lambda>m. nif_next (ifs s' m)) (netif_list s) ns"
      using l' by (subst linked_cong [of _ _ "\<lambda>m. nif_next (ifs s m)"]) (auto simp: s'(4))
    show "\<forall>m \<in> set ns. autoip (ifs s' m) \<noteq> None \<longrightarrow> eth_netif s' m" using l' by (auto simp: s'(4) eth_netif_def)
  qed (use l' in simp_all)
  then show ?thesis using s' by (simp add: autoip_tmr_def)
qed

primrec timer_runs :: "nat \<Rightarrow> (nat \<Rightarrow> bytes \<Rightarrow> err_t) \<Rightarrow> tcp_hook \<Rightarrow> arp_state \<Rightarrow> arp_state res" where
  "timer_runs 0 link tcp s = Inr s"
| "timer_runs (Suc k) link tcp s = rbind (timer_runs k link tcp s) (autoip_tmr link tcp)"

lemma timer_runs_ok:
  assumes "arp_ok sl s" "list_ok s ns" "tcp_frame sl tcp"
  shows "\<exists>s'. timer_runs k link tcp s = Inr s' \<and> arp_ok sl s' \<and> list_ok s' ns \<and>
    ifs s' = (\<lambda>m. if m \<in> set ns then (tick_if ^^ k) (ifs s m) else ifs s m)"
proof (induction k)
  case 0
  then show ?case using assms by (intro exI [of _ s]) (simp add: fun_eq_iff)
next
  case (Suc k)
  then obtain s1 where s1: "timer_runs k link tcp s = Inr s1" "arp_ok sl s1" "list_ok s1 ns"
    "ifs s1 = (\<lambda>m. if m \<in> set ns then (tick_if ^^ k) (ifs s m) else ifs s m)" by blast
  from autoip_tmr_ok [OF s1(2,3) assms(3), of link] obtain s' where
    "autoip_tmr link tcp s1 = Inr s'" "arp_ok sl s'" "list_ok s' ns"
    "ifs s' = (\<lambda>m. if m \<in> set ns then tick_if (ifs s1 m) else ifs s1 m)" by blast
  then show ?case using s1 by (intro exI [of _ s']) auto
qed

section \<open>From the first probe to a configured interface\<close>

definition client_ok :: "autoip \<Rightarrow> bool" where
  "client_ok a \<longleftrightarrow> (ai_state a = AUTOIP_STATE_PROBING \<longrightarrow> sent_num a \<le> 3) \<and> (ai_state a = AUTOIP_STATE_ANNOUNCING \<longrightarrow> sent_num a \<le> 1)"

text \<open>The most and the fewest ticks until the interface is configured.\<close>

definition latest :: "autoip \<Rightarrow> nat" where
  "latest a = (case ai_state a of
      AUTOIP_STATE_PROBING \<Rightarrow> unat (ttw a) + (3 - unat (sent_num a)) * 20 + 22
    | AUTOIP_STATE_ANNOUNCING \<Rightarrow> unat (ttw a) + 1 | _ \<Rightarrow> 0)"

definition earliest :: "autoip \<Rightarrow> nat" where
  "earliest a = (case ai_state a of
      AUTOIP_STATE_PROBING \<Rightarrow> unat (ttw a) + (3 - unat (sent_num a)) * 11 + 22
    | AUTOIP_STATE_ANNOUNCING \<Rightarrow> unat (ttw a) + 1 | _ \<Rightarrow> 0)"

definition unbound :: "autoip \<Rightarrow> bool" where
  "unbound a \<longleftrightarrow> client_ok a \<and> (ai_state a = AUTOIP_STATE_PROBING \<or> ai_state a = AUTOIP_STATE_ANNOUNCING \<and> sent_num a = 0)"

lemma wait_range: "10 \<le> unat (ucast (r mod 10 + 10) :: u16)" "unat (ucast (r mod 10 + 10) :: u16) \<le> 19" for r :: u32
proof -
  have "unat (r mod 10) < 10" by (simp add: unat_mod)
  then have "unat (r mod 10 + 10) = unat (r mod 10) + 10" by (simp add: unat_plus_if')
  then show "10 \<le> unat (ucast (r mod 10 + 10) :: u16)" "unat (ucast (r mod 10 + 10) :: u16) \<le> 19"
    using \<open>unat (r mod 10) < 10\<close> by (simp_all add: unsigned_ucast_eq take_bit_nat_eq_self_iff take_bit_nat_eq_self)
qed

lemma dec_unat: "0 < w \<Longrightarrow> unat (w - 1) = unat w - 1" for w :: "'a::len word"
  by (simp add: unat_minus_one word_gt_0)

lemma unbound_step:
  assumes u: "unbound a" "\<not> binds a"
  shows "unbound (client_next r a) \<and> latest (client_next r a) < latest a \<and> earliest (client_next r a) + 1 \<ge> earliest a \<and>
    llipaddr (client_next r a) = llipaddr a \<and> earliest a > 1"
proof (cases "ai_state a = AUTOIP_STATE_PROBING")
  case True
  then have s: "sent_num a \<le> 3" using u by (simp add: unbound_def client_ok_def)
  then have s': "unat (sent_num a) \<le> 3" by (simp add: word_le_nat_alt)
  consider (wait) "0 < ttw a" | (go) "ttw a = 0" "sent_num a \<ge> 3" | (probe) "ttw a = 0" "\<not> sent_num a \<ge> 3"
    by (metis word_gt_0)
  then show ?thesis
  proof cases
    case wait
    then have "unat (ttw a) > 0" by (simp add: word_less_nat_alt)
    then show ?thesis using True wait s dec_unat [OF wait]
      by (simp add: client_next_def probing_next_def unbound_def client_ok_def latest_def earliest_def)
  next
    case go
    then have "unat (sent_num a) = 3" using s' by (simp add: word_le_nat_alt)
    then show ?thesis using True go
      by (simp add: client_next_def probing_next_def unbound_def client_ok_def latest_def earliest_def)
  next
    case probe
    then have n: "unat (sent_num a) < 3" by (simp add: word_le_nat_alt)
    then have n1: "unat (sent_num a + 1) = unat (sent_num a) + 1" by (simp add: unat_plus_if')
    then have "sent_num a + 1 \<le> 3" using n by (simp add: word_le_nat_alt)
    moreover have "unat (sent_num a) = 0 \<or> unat (sent_num a) = 1 \<or> unat (sent_num a) = 2" using n by linarith
    ultimately show ?thesis using True probe n1 wait_range [of r]
      by (elim disjE) (simp_all add: client_next_def probing_next_def unbound_def client_ok_def latest_def earliest_def)
  qed
next
  case False
  then have a: "ai_state a = AUTOIP_STATE_ANNOUNCING" "sent_num a = 0" using u by (auto simp: unbound_def)
  then have t: "0 < ttw a" using u(2) by (simp add: binds_def word_gt_0)
  then have "unat (ttw a) > 0" by (simp add: word_less_nat_alt)
  then show ?thesis using a t dec_unat [OF t]
    by (simp add: client_next_def announcing_next_def unbound_def client_ok_def latest_def earliest_def)
qed

lemma unbound_tick:
  assumes "autoip i = Some a" "unbound a" "\<not> binds a"
  shows "tick_if i = i\<lparr>autoip := Some (client_next (LWIP_AUTOIP_RAND i) a)\<rparr>"
  using assms by (simp add: tick_if_def)

lemma binds_earliest: "binds a \<Longrightarrow> earliest a = 1 \<and> latest a = 1"
  by (simp add: binds_def earliest_def latest_def)

lemma unbound_run:
  assumes a: "autoip i = Some a" "unbound a"
  shows "j < earliest a \<Longrightarrow> \<exists>b. (tick_if ^^ j) i = i\<lparr>autoip := Some b\<rparr> \<and> unbound b \<and> earliest a \<le> earliest b + j"
proof (induction j)
  case 0
  then show ?case using a by (cases i) simp
next
  case (Suc j)
  then obtain b where b: "(tick_if ^^ j) i = i\<lparr>autoip := Some b\<rparr>" "unbound b" "earliest a \<le> earliest b + j" by auto
  then have nb: "\<not> binds b" using Suc.prems binds_earliest [of b] by auto
  let ?c = "client_next (LWIP_AUTOIP_RAND (i\<lparr>autoip := Some b\<rparr>)) b"
  have "unbound ?c" "earliest ?c + 1 \<ge> earliest b" using unbound_step [OF b(2) nb] by blast+
  moreover have "(tick_if ^^ Suc j) i = i\<lparr>autoip := Some ?c\<rparr>"
    using b(1) unbound_tick [of "i\<lparr>autoip := Some b\<rparr>" b] b(2) nb by simp
  ultimately show ?case using b(3) by (intro exI [of _ ?c]) simp
qed

lemma reaches_bind:
  assumes "autoip i = Some a" "unbound a"
  shows "\<exists>k b. k < latest a \<and> (tick_if ^^ k) i = i\<lparr>autoip := Some b\<rparr> \<and> binds b \<and> llipaddr b = llipaddr a"
  using assms
proof (induction "latest a" arbitrary: a i rule: less_induct)
  case less
  show ?case
  proof (cases "binds a")
    case True
    then show ?thesis using less.prems binds_earliest [OF True] by (intro exI [of _ 0] exI [of _ a]) (cases i, simp)
  next
    case False
    let ?c = "client_next (LWIP_AUTOIP_RAND i) a" let ?i = "i\<lparr>autoip := Some ?c\<rparr>"
    have c: "unbound ?c" "latest ?c < latest a" "llipaddr ?c = llipaddr a" using unbound_step [OF less.prems(2) False] by blast+
    obtain k b where kb: "k < latest ?c" "(tick_if ^^ k) ?i = ?i\<lparr>autoip := Some b\<rparr>" "binds b" "llipaddr b = llipaddr ?c"
      using less.hyps [OF c(2) _ c(1), of ?i] by auto
    have "(tick_if ^^ Suc k) i = i\<lparr>autoip := Some b\<rparr>"
      using unbound_tick [OF less.prems False] kb(2) by (simp add: funpow_Suc_right del: funpow.simps)
    then show ?thesis using kb c(2,3) by (intro exI [of _ "Suc k"] exI [of _ b]) simp
  qed
qed

lemma announces:
  assumes "autoip i = Some a" "ai_state a = AUTOIP_STATE_ANNOUNCING" "sent_num a = 1"
  shows "\<exists>b. (tick_if ^^ Suc (unat (ttw a))) i = i\<lparr>autoip := Some b\<rparr> \<and> ai_state b = AUTOIP_STATE_BOUND \<and> llipaddr b = llipaddr a"
  using assms
proof (induction "unat (ttw a)" arbitrary: a i)
  case 0
  then have "ttw a = 0" by (simp add: unat_eq_0)
  then show ?case using 0 by (intro exI [of _ "(calmed a)\<lparr>ai_state := AUTOIP_STATE_BOUND, sent_num := 0, ttw := 0\<rparr>"])
      (simp add: tick_if_def client_next_def announcing_next_def binds_def)
next
  case (Suc t)
  then have t: "0 < ttw a" by (metis nat.distinct(1) unat_0 word_gt_0)
  let ?c = "client_next (LWIP_AUTOIP_RAND i) a" let ?i = "i\<lparr>autoip := Some ?c\<rparr>"
  have c: "ai_state ?c = AUTOIP_STATE_ANNOUNCING" "sent_num ?c = 1" "llipaddr ?c = llipaddr a" "unat (ttw ?c) = t"
    using Suc.prems Suc.hyps(2) t dec_unat [OF t] by (simp_all add: client_next_def announcing_next_def)
  have "tick_if i = ?i" using Suc.prems by (simp add: tick_if_def binds_def)
  moreover obtain b where "(tick_if ^^ Suc t) ?i = ?i\<lparr>autoip := Some b\<rparr>" "ai_state b = AUTOIP_STATE_BOUND" "llipaddr b = llipaddr a"
    using Suc.hyps(1) [of ?c ?i] c by auto
  ultimately show ?case using Suc.hyps(2) by (intro exI [of _ b]) (simp add: funpow_Suc_right del: funpow.simps)
qed

lemma acquires:
  assumes a: "autoip i = Some a" "unbound a"
  shows "\<exists>k b. k \<le> latest a + 21 \<and> (tick_if ^^ k) i = (bound_if (llipaddr a) i)\<lparr>autoip := Some b\<rparr> \<and>
    ai_state b = AUTOIP_STATE_BOUND \<and> llipaddr b = llipaddr a"
proof -
  obtain k b where k: "k < latest a" "(tick_if ^^ k) i = i\<lparr>autoip := Some b\<rparr>" "binds b" "llipaddr b = llipaddr a"
    using reaches_bind [OF a] by blast
  let ?c = "client_next (LWIP_AUTOIP_RAND (i\<lparr>autoip := Some b\<rparr>)) b" let ?i = "(bound_if (llipaddr a) i)\<lparr>autoip := Some ?c\<rparr>"
  have c: "ai_state ?c = AUTOIP_STATE_ANNOUNCING" "sent_num ?c = 1" "ttw ?c = 20" "llipaddr ?c = llipaddr a"
    using k(3,4) by (simp_all add: binds_def client_next_def announcing_next_def word_le_nat_alt)
  have one: "(tick_if ^^ Suc k) i = ?i" using k by (simp add: tick_if_def bound_if_def)
  obtain d where d: "(tick_if ^^ Suc (unat (ttw ?c))) ?i = ?i\<lparr>autoip := Some d\<rparr>" "ai_state d = AUTOIP_STATE_BOUND" "llipaddr d = llipaddr a"
    using announces [of ?i ?c] c by auto
  have "(tick_if ^^ (21 + Suc k)) i = (tick_if ^^ 21) ((tick_if ^^ Suc k) i)" by (simp only: funpow_add o_apply)
  also have "\<dots> = ?i\<lparr>autoip := Some d\<rparr>" using d(1) unfolding one c(3) by (simp del: funpow.simps)
  finally have "(tick_if ^^ (21 + Suc k)) i = (bound_if (llipaddr a) i)\<lparr>autoip := Some d\<rparr>" by simp
  then show ?thesis using d(2,3) k(1) by (intro exI [of _ "21 + Suc k"] exI [of _ d]) simp
qed

section \<open>Conflicts\<close>

lemma htonl_and: "lwip_htonl a AND lwip_htonl b = lwip_htonl (a AND b)"
  by (rule bit_word_eqI) (auto simp: bit_simps byte_order_simps)

lemma created_linklocal:
  assumes "autoip_create_addr nif t = Inr ip"
  shows "ip_addr_islinklocal ip" "AUTOIP_RANGE_START \<le> lwip_ntohl ip" "lwip_ntohl ip \<le> AUTOIP_RANGE_END"
proof -
  obtain a where a: "ip = lwip_htonl a" "unat a = 0xA9FE0000 + host_part (seed_part nif t)"
    using autoip_create_addr_eq [of nif t] assms by auto
  have h: "256 \<le> host_part (seed_part nif t)" "host_part (seed_part nif t) \<le> 0xFEFF"
    using mod_less_divisor [of 65536] by (auto simp: host_part_def seed_part_def)
  show "AUTOIP_RANGE_START \<le> lwip_ntohl ip" "lwip_ntohl ip \<le> AUTOIP_RANGE_END"
    using a h by (simp_all add: word_le_nat_alt lwip_ntohl_def)
  have "unat (drop_bit 16 a) = 0xA9FE" using a(2) h
    by (simp only: unsigned_drop_bit_eq) (simp add: drop_bit_eq_div take_bit_nat_eq_self_iff take_bit_nat_eq_self)
  then have d: "drop_bit 16 a = 0xA9FE" by (simp add: word_unat_eq_iff)
  have m: "(0xffff0000 :: u32) = push_bit 16 (mask 16)" by (simp add: push_bit_eq_mult mask_eq_exp_minus_1)
  have "a AND push_bit 16 (mask 16) = push_bit 16 (drop_bit 16 a)"
    by (rule bit_word_eqI) (auto simp: bit_simps)
  then have "a AND 0xffff0000 = 0xA9FE0000" unfolding m d by (simp add: push_bit_eq_mult)
  then show "ip_addr_islinklocal ip" by (simp add: ip_addr_islinklocal_def a(1) htonl_and)
qed

lemma create_addr_hwaddr: "hwaddr i = hwaddr j \<Longrightarrow> autoip_create_addr i = autoip_create_addr j"
  by (rule ext) (simp add: autoip_create_addr_def LWIP_AUTOIP_CREATE_SEED_ADDR_def)

text \<open>The reference for a client that starts over with the address \<open>ip\<close>.\<close>

definition restarted :: "netif \<Rightarrow> autoip \<Rightarrow> u32 \<Rightarrow> netif" where
  "restarted i a ip =
     i\<lparr>flags := flags i AND NOT NETIF_FLAG_UP, ip_addr := 0, netmask := 0, gw := 0,
       autoip := Some \<lparr>llipaddr = ip, ai_state = AUTOIP_STATE_PROBING, sent_num = 0,
         ttw = (if tried_llipaddr a > MAX_CONFLICTS then 600 else ucast (LWIP_AUTOIP_RAND (i\<lparr>autoip := Some a\<rparr>) mod 10)),
         lastconflict = 0, tried_llipaddr = tried_llipaddr a\<rparr>\<rparr>"

lemma and_not_up: "x AND 1 = 0 \<Longrightarrow> x AND NOT 1 = x" for x :: u8
proof -
  assume "x AND 1 = 0"
  then have "even x" by (simp add: and_one_eq even_iff_mod_2_eq_zero)
  then have "\<not> bit x 0" by (simp add: bit_0)
  then show "x AND NOT 1 = x" by (intro bit_word_eqI) (auto simp: bit_simps, metis gr0I)
qed

lemma set_down_ok:
  assumes ok: "arp_ok sl s"
  shows "\<exists>s'. (if netif_is_up n s then netif_set_down n s else Inr s) = Inr s' \<and> arp_ok sl s' \<and> wire s' = wire s \<and>
    netif_list s' = netif_list s \<and> ifs s' = (ifs s)(n := (ifs s n)\<lparr>flags := flags (ifs s n) AND NOT NETIF_FLAG_UP\<rparr>)"
proof (cases "netif_is_up n s")
  case False
  then have "flags (ifs s n) AND NOT NETIF_FLAG_UP = flags (ifs s n)" by (intro and_not_up) (simp add: netif_is_up_def)
  then show ?thesis using False ok by (intro exI [of _ s]) (simp add: fun_upd_idem)
next
  case True
  let ?s1 = "set_if n (\<lambda>i. i\<lparr>flags := flags i AND NOT NETIF_FLAG_UP\<rparr>) s"
  have up: "flags (ifs s n) AND NETIF_FLAG_UP \<noteq> 0" using True by (simp add: netif_is_up_def)
  show ?thesis
  proof (cases "flags (ifs ?s1 n) AND NETIF_FLAG_ETHARP = 0")
    case no: True
    then have "netif_set_down n s = Inr ?s1" using up by (simp add: netif_set_down_def Let_def)
    then show ?thesis using True ok by (intro exI [of _ ?s1]) simp
  next
    case False
    have "arp_ok sl ?s1" using ok by simp
    from cleanup.sweep [OF this, of n] obtain b where b: "etharp_cleanup_netif n ?s1 =
        Inr (?s1\<lparr>pb := b, arp_table := (\<lambda>i. if i < ARP_TABLE_SIZE then cleaned n (arp_table ?s1 i) else arp_table ?s1 i)\<rparr>)"
      "arp_ok sl (?s1\<lparr>pb := b, arp_table := (\<lambda>i. if i < ARP_TABLE_SIZE then cleaned n (arp_table ?s1 i) else arp_table ?s1 i)\<rparr>)"
      unfolding etharp_cleanup_netif_def by blast
    then have "netif_set_down n s =
        Inr (?s1\<lparr>pb := b, arp_table := (\<lambda>i. if i < ARP_TABLE_SIZE then cleaned n (arp_table ?s1 i) else arp_table ?s1 i)\<rparr>)"
      using up False by (simp add: netif_set_down_def Let_def)
    then show ?thesis using True b(2) by auto
  qed
qed

lemma start_probing_eq:
  "autoip (ifs s n) = Some a \<Longrightarrow> autoip_start_probing n s = Inr (set_if n (\<lambda>i. i\<lparr>autoip :=
     Some (a\<lparr>ai_state := AUTOIP_STATE_PROBING, sent_num := 0,
       ttw := (if tried_llipaddr a > MAX_CONFLICTS then 600 else ucast (LWIP_AUTOIP_RAND (ifs s n) mod 10))\<rparr>)\<rparr>) s)"
  by (simp add: autoip_start_probing_def client_def set_autoip_def set_if_def)

lemma start_ok:
  assumes ok: "arp_ok sl s" and a: "autoip (ifs s n) = Some a"
  obtains s' ip where "autoip_start n s = Inr (ERR_OK, s')" "arp_ok sl s'" "wire s' = wire s" "netif_list s' = netif_list s"
    "autoip_create_addr (ifs s n) (tried_llipaddr a) = Inr ip" "ifs s' = (ifs s)(n := restarted (ifs s n) a ip)"
proof -
  obtain s1 where s1: "(if netif_is_up n s then netif_set_down n s else Inr s) = Inr s1" "arp_ok sl s1" "wire s1 = wire s"
    "netif_list s1 = netif_list s" "ifs s1 = (ifs s)(n := (ifs s n)\<lparr>flags := flags (ifs s n) AND NOT NETIF_FLAG_UP\<rparr>)"
    using set_down_ok [OF ok] by blast
  obtain ip where ip: "autoip_create_addr (ifs s n) (tried_llipaddr a) = Inr ip"
    using autoip_create_addr_eq [of "ifs s n" "tried_llipaddr a"] by blast
  define t where "t = set_autoip n (\<lambda>a. a\<lparr>ai_state := AUTOIP_STATE_OFF, ttw := 0, sent_num := 0, llipaddr := 0, lastconflict := 0\<rparr>)
      (set_if n (\<lambda>i. i\<lparr>ip_addr := 0, netmask := 0, gw := 0\<rparr>) s1)"
  define s2 where "s2 = set_autoip n (\<lambda>a. a\<lparr>llipaddr := ip\<rparr>) t"
  define a2 where "a2 = a\<lparr>llipaddr := ip, ai_state := AUTOIP_STATE_OFF, sent_num := 0, ttw := 0, lastconflict := 0\<rparr>"
  define i2 where "i2 = (ifs s n)\<lparr>flags := flags (ifs s n) AND NOT NETIF_FLAG_UP, ip_addr := 0, netmask := 0, gw := 0, autoip := Some a2\<rparr>"
  have s2: "ifs s2 = (ifs s)(n := i2)" "arp_ok sl s2" "wire s2 = wire s" "netif_list s2 = netif_list s"
  proof -
    have "(a\<lparr>ai_state := AUTOIP_STATE_OFF, ttw := 0, sent_num := 0, llipaddr := 0, lastconflict := 0\<rparr>)\<lparr>llipaddr := ip\<rparr> = a2"
      by (cases a) (simp add: a2_def)
    then show "ifs s2 = (ifs s)(n := i2)" using a by (simp add: s2_def t_def i2_def s1(5))
  qed (simp_all add: s2_def t_def s1)
  define i3 where "i3 = i2\<lparr>autoip := Some (a2\<lparr>ai_state := AUTOIP_STATE_PROBING, sent_num := 0,
      ttw := (if tried_llipaddr a2 > MAX_CONFLICTS then 600 else ucast (LWIP_AUTOIP_RAND i2 mod 10))\<rparr>)\<rparr>"
  let ?s3 = "set_if n (\<lambda>_. i3) s2"
  have "autoip_start_probing n s2 = Inr ?s3"
  proof -
    have "autoip (ifs s2 n) = Some a2" by (simp add: s2(1) i2_def)
    from start_probing_eq [OF this] show ?thesis unfolding set_if_def s2(1) fun_upd_same i3_def .
  qed
  moreover obtain c where c: "client n t = Inr c" "tried_llipaddr c = tried_llipaddr a" using a by (simp add: client_def t_def s1(5))
  moreover have "autoip_create_addr (ifs t n) = autoip_create_addr (ifs s n)" by (rule create_addr_hwaddr) (simp add: t_def s1(5))
  ultimately have run: "autoip_start n s = Inr (ERR_OK, ?s3)"
    unfolding autoip_start_def Let_def s1(1) rbind_Inr a option.case t_def [symmetric] prod.case by (simp add: ip s2_def)
  have "LWIP_AUTOIP_RAND i2 = LWIP_AUTOIP_RAND ((ifs s n)\<lparr>autoip := Some a\<rparr>)" by (simp add: LWIP_AUTOIP_RAND_def i2_def a2_def)
  then have "i3 = restarted (ifs s n) a ip" by (simp add: restarted_def i3_def i2_def a2_def)
  then have "ifs ?s3 = (ifs s)(n := restarted (ifs s n) a ip)" by (simp add: s2(1))
  then show thesis using that [OF run] s2(2-4) ip by simp
qed

lemma restart_ok:
  assumes ok: "arp_ok sl s" and a: "autoip (ifs s n) = Some a" and cur: "autoip_create_addr (ifs s n) (tried_llipaddr a) = Inr (llipaddr a)"
  shows "\<exists>s' ip. autoip_restart n s = Inr s' \<and> arp_ok sl s' \<and> wire s' = wire s \<and> netif_list s' = netif_list s \<and>
    ip \<noteq> llipaddr a \<and> ip_addr_islinklocal ip \<and>
    ifs s' = (ifs s)(n := restarted (ifs s n) (a\<lparr>tried_llipaddr := tried_llipaddr a + 1\<rparr>) ip)"
proof -
  let ?a = "a\<lparr>tried_llipaddr := tried_llipaddr a + 1\<rparr>"
  let ?s1 = "set_autoip n (\<lambda>a. a\<lparr>tried_llipaddr := tried_llipaddr a + 1\<rparr>) s"
  have a1: "arp_ok sl ?s1" "autoip (ifs ?s1 n) = Some ?a" "ifs ?s1 = (ifs s)(n := (ifs s n)\<lparr>autoip := Some ?a\<rparr>)"
    using ok a by simp_all
  obtain s' ip where s': "autoip_start n ?s1 = Inr (ERR_OK, s')" "arp_ok sl s'" "wire s' = wire ?s1" "netif_list s' = netif_list ?s1"
    "autoip_create_addr (ifs ?s1 n) (tried_llipaddr ?a) = Inr ip" "ifs s' = (ifs ?s1)(n := restarted (ifs ?s1 n) ?a ip)"
    by (rule start_ok [OF a1(1,2)]) blast
  have "autoip_create_addr (ifs ?s1 n) = autoip_create_addr (ifs s n)" by (rule create_addr_hwaddr) simp
  then have ip: "autoip_create_addr (ifs s n) (tried_llipaddr a + 1) = Inr ip" using s'(5) by simp
  have "ip \<noteq> llipaddr a"
  proof
    assume "ip = llipaddr a"
    then have "tried_llipaddr a + 1 = tried_llipaddr a" using ip cur autoip_create_addr_inj [THEN injD] by metis
    then show False by simp
  qed
  moreover have "restarted (ifs ?s1 n) ?a ip = restarted (ifs s n) ?a ip" unfolding a1(3) by (simp add: restarted_def)
  then have "ifs s' = (ifs s)(n := restarted (ifs s n) ?a ip)" unfolding s'(6) by (simp only: a1(3) fun_upd_upd)
  moreover have "autoip_restart n s = Inr s'" using a s'(1) by (simp add: autoip_restart_def client_def)
  ultimately show ?thesis using s'(2-4) created_linklocal(1) [OF ip] by (intro exI [of _ s'] exI [of _ ip]) simp
qed

text \<open>When an ARP packet contradicts the client's address.\<close>

definition undecided :: "autoip \<Rightarrow> bool" where
  "undecided a \<longleftrightarrow> ai_state a = AUTOIP_STATE_PROBING \<or> ai_state a = AUTOIP_STATE_ANNOUNCING \<and> sent_num a = 0"

definition conflicts :: "netif \<Rightarrow> autoip \<Rightarrow> bytes \<Rightarrow> u32 \<Rightarrow> u32 \<Rightarrow> bool" where
  "conflicts i a hw sip dip \<longleftrightarrow>
     (if undecided a then sip = llipaddr a \<or> dip = llipaddr a \<and> hw \<noteq> take 6 (hwaddr i)
      else sip = llipaddr a \<and> hw \<noteq> take 6 (hwaddr i))"

lemma conflict_ok:
  assumes ok: "arp_ok sl s" and n: "eth_netif s n" and a: "autoip (ifs s n) = Some a"
    and cur: "autoip_create_addr (ifs s n) (tried_llipaddr a) = Inr (llipaddr a)"
  shows "\<exists>s'. autoip_handle_arp_conflict link n s = Inr s' \<and> arp_ok sl s' \<and>
    (if lastconflict a > 0
     then wire s' = wire s \<and> (\<exists>ip. ip \<noteq> llipaddr a \<and> ip_addr_islinklocal ip \<and>
       ifs s' = (ifs s)(n := restarted (ifs s n) (a\<lparr>tried_llipaddr := tried_llipaddr a + 1\<rparr>) ip))
     else ifs s' = (ifs s)(n := (ifs s n)\<lparr>autoip := Some (a\<lparr>lastconflict := 100\<rparr>)\<rparr>) \<and>
       wire s' = wire s @ (if frame_memory s then [(n, announce_frame (ifs s n) (llipaddr a))] else []))"
proof (cases "lastconflict a > 0")
  case True
  then show ?thesis using restart_ok [OF ok a cur] a by (auto simp: autoip_handle_arp_conflict_def client_def)
next
  case False
  obtain r b w where r: "etharp_raw link n (hwaddr (ifs s n)) ethbroadcast (hwaddr (ifs s n)) (llipaddr a) ethzero (llipaddr a) ARP_REQUEST s =
      Inr (r, s\<lparr>pb := b, wire := wire s @ w\<rparr>)"
    "arp_ok sl (s\<lparr>pb := b, wire := wire s @ w\<rparr>)" "w = [] \<or> w = [(n, announce_frame (ifs s n) (llipaddr a))]"
    by (rule arp_broadcast_ok [OF ok n announce_frame_def, of link]) blast
  let ?s' = "set_autoip n (\<lambda>a. a\<lparr>lastconflict := 100\<rparr>) (s\<lparr>pb := b, wire := wire s @ w\<rparr>)"
  have "autoip_handle_arp_conflict link n s = Inr ?s'"
    using False a r(1) by (simp add: autoip_handle_arp_conflict_def autoip_arp_announce_def client_def)
  moreover have "w = (if frame_memory s then [(n, announce_frame (ifs s n) (llipaddr a))] else [])"
    using raw_wire [OF r(1)] r(3) by auto
  ultimately show ?thesis using False a r(2) by (intro exI [of _ ?s']) simp
qed

section \<open>Properties\<close>

text \<open>
  Whatever the hardware address, \<^verbatim>\<open>autoip_create_addr\<close> never stops on its assertion, its result lies
  between 169.254.1.0 and 169.254.254.255, and each of the 256 values of \<^verbatim>\<open>tried_llipaddr\<close> gives
  a different address (so only 256 of the 254 * 256 addresses are ever tried: the counter wraps).
\<close>

theorem link_local_addresses:
  "\<exists>ip. autoip_create_addr nif t = Inr ip \<and> ip_addr_islinklocal ip \<and>
     AUTOIP_RANGE_START \<le> lwip_ntohl ip \<and> lwip_ntohl ip \<le> AUTOIP_RANGE_END \<and> inj (autoip_create_addr nif)"
proof -
  obtain ip where ip: "autoip_create_addr nif t = Inr ip" using autoip_create_addr_eq by blast
  then show ?thesis using created_linklocal [OF ip] autoip_create_addr_inj by blast
qed

text \<open>
  C32. Without conflicting ARP packets, a client that is probing configures its interface: running
  \<^verbatim>\<open>autoip_tmr\<close> never stops and keeps the ARP cache consistent; the interface keeps its
  configuration for the first \<open>earliest a - 1\<close> ticks, in which the probes are sent (55 to 64 ticks,
  about six seconds, from a fresh start), and after at most \<open>latest a + 21\<close> ticks the client is bound and
  the interface is up with the probed address, the netmask 255.255.0.0 and no gateway.
\<close>

theorem autoip_acquires:
  assumes "arp_ok sl s" "list_ok s ns" "tcp_frame sl tcp" "n \<in> set ns" "autoip (ifs s n) = Some a" "unbound a"
  shows "(\<forall>j < earliest a. \<exists>s' b. timer_runs j link tcp s = Inr s' \<and> arp_ok sl s' \<and> ifs s' n = (ifs s n)\<lparr>autoip := Some b\<rparr>) \<and>
    (\<exists>k s' b. k \<le> latest a + 21 \<and> timer_runs k link tcp s = Inr s' \<and> arp_ok sl s' \<and>
       ifs s' n = (bound_if (llipaddr a) (ifs s n))\<lparr>autoip := Some b\<rparr> \<and>
       ai_state b = AUTOIP_STATE_BOUND \<and> llipaddr b = llipaddr a)"
proof -
  have run: "\<exists>s'. timer_runs k link tcp s = Inr s' \<and> arp_ok sl s' \<and> ifs s' n = (tick_if ^^ k) (ifs s n)" for k
    using timer_runs_ok [OF assms(1-3), of k link] assms(4) by auto
  obtain k b where k: "k \<le> latest a + 21" "(tick_if ^^ k) (ifs s n) = (bound_if (llipaddr a) (ifs s n))\<lparr>autoip := Some b\<rparr>"
    "ai_state b = AUTOIP_STATE_BOUND" "llipaddr b = llipaddr a" using acquires [OF assms(5,6)] by blast
  obtain s' where "timer_runs k link tcp s = Inr s'" "arp_ok sl s'" "ifs s' n = (tick_if ^^ k) (ifs s n)" using run by blast
  then have "\<exists>k s' b. k \<le> latest a + 21 \<and> timer_runs k link tcp s = Inr s' \<and> arp_ok sl s' \<and>
       ifs s' n = (bound_if (llipaddr a) (ifs s n))\<lparr>autoip := Some b\<rparr> \<and>
       ai_state b = AUTOIP_STATE_BOUND \<and> llipaddr b = llipaddr a" using k by metis
  moreover have "\<exists>s' b. timer_runs j link tcp s = Inr s' \<and> arp_ok sl s' \<and> ifs s' n = (ifs s n)\<lparr>autoip := Some b\<rparr>"
    if "j < earliest a" for j using run [of j] unbound_run [OF assms(5,6) that] by metis
  ultimately show ?thesis by blast
qed

text \<open>
  C23. \<^verbatim>\<open>autoip_arp_reply\<close> ignores every ARP packet that does not contradict the client's address. In a
  conflict before the address is announced, or in a second one within ten seconds, the client takes
  the interface down, clears its addresses and starts probing a different link-local address,
  waiting a minute once it has tried more than \<^verbatim>\<open>MAX_CONFLICTS\<close>; in a first conflict over an
  address in use it defends it: it sends exactly one announcement of the address, unless there is no memory
  for the packet, and keeps the address.
\<close>

theorem autoip_conflict_correct:
  assumes "arp_ok sl s" "eth_netif s n" "autoip (ifs s n) = Some a" "ai_state a \<noteq> AUTOIP_STATE_OFF"
    "autoip_create_addr (ifs s n) (tried_llipaddr a) = Inr (llipaddr a)"
  shows "\<exists>s'. autoip_arp_reply link n p s = Inr s' \<and> arp_ok sl s' \<and>
    (if \<not> conflicts (ifs s n) a (field p 22 6 s) (field_u32 p 28 s) (field_u32 p 38 s) then s' = s
     else if undecided a \<or> lastconflict a > 0
     then wire s' = wire s \<and> (\<exists>ip. ip \<noteq> llipaddr a \<and> ip_addr_islinklocal ip \<and>
       ifs s' = (ifs s)(n := restarted (ifs s n) (a\<lparr>tried_llipaddr := tried_llipaddr a + 1\<rparr>) ip))
     else ifs s' = (ifs s)(n := (ifs s n)\<lparr>autoip := Some (a\<lparr>lastconflict := 100\<rparr>)\<rparr>) \<and>
       wire s' = wire s @ (if frame_memory s then [(n, announce_frame (ifs s n) (llipaddr a))] else []))"
proof -
  let ?c = "conflicts (ifs s n) a (field p 22 6 s) (field_u32 p 28 s) (field_u32 p 38 s)"
  have run: "autoip_arp_reply link n p s =
      (if \<not> ?c then Inr s else if undecided a then autoip_restart n s else autoip_handle_arp_conflict link n s)"
    using assms(3,4) by (auto simp: autoip_arp_reply_def conflicts_def undecided_def)
  show ?thesis using restart_ok [OF assms(1,3,5)] conflict_ok [OF assms(1,2,3,5), of link] assms(1)
    unfolding run by (cases ?c; cases "undecided a") auto
qed

section \<open>Instances\<close>

definition client_sample :: autoip where
  "client_sample = \<lparr>llipaddr = lwip_htonl 0xA9FE0200, ai_state = AUTOIP_STATE_PROBING, sent_num = 0, ttw = 5, lastconflict = 0, tried_llipaddr = 0\<rparr>"

definition auto_sample :: arp_state where
  "auto_sample = set_if 1 (\<lambda>i. i\<lparr>autoip := Some client_sample\<rparr>) (arp_sample sample)"

lemma auto_sample_ok:
  "arp_ok sample_slots auto_sample" "eth_netif auto_sample 1" "autoip (ifs auto_sample 1) = Some client_sample"
  "list_ok auto_sample [1]" "tcp_frame sl (\<lambda>_ _. Inr)"
  using arp_sample_ok [OF sample_ok(1)] arp_sample_netif(1) [of sample]
  by (simp_all add: auto_sample_def list_ok_def eth_netif_def tcp_frame_def) (simp_all add: arp_sample_def)

theorem autoip_acquires_witness:
  "\<exists>k s' b. k \<le> 108 \<and> timer_runs k (\<lambda>_ _. ERR_OK) (\<lambda>_ _. Inr) auto_sample = Inr s' \<and>
     ifs s' 1 = (bound_if (lwip_htonl 0xA9FE0200) (ifs auto_sample 1))\<lparr>autoip := Some b\<rparr> \<and> ai_state b = AUTOIP_STATE_BOUND"
proof -
  have "unbound client_sample" "latest client_sample + 21 = 108" "llipaddr client_sample = lwip_htonl 0xA9FE0200"
    by (simp_all add: unbound_def client_ok_def client_sample_def latest_def)
  with autoip_acquires [OF auto_sample_ok(1,4,5) _ auto_sample_ok(3), of "\<lambda>_ _. ERR_OK"] show ?thesis by auto
qed

theorem autoip_conflict_correct_witness:
  "\<exists>s'. autoip_arp_reply (\<lambda>_ _. ERR_OK) 1 1000 auto_sample = Inr s' \<and> arp_ok sample_slots s'"
proof -
  have "autoip_create_addr (ifs auto_sample 1) (tried_llipaddr client_sample) = Inr (llipaddr client_sample)"
    by (simp add: autoip_create_addr_def LWIP_AUTOIP_CREATE_SEED_ADDR_def auto_sample_def arp_sample_def client_sample_def
        lwip_ntohl_def lwip_htonl_def)
  moreover have "ai_state client_sample \<noteq> AUTOIP_STATE_OFF" by (simp add: client_sample_def)
  ultimately show ?thesis
    using autoip_conflict_correct [OF auto_sample_ok(1-3), of "\<lambda>_ _. ERR_OK" 1000] by blast
qed

end
