(* ===== verification/Eth_Life.thy ===== *)
theory Eth_Life
  imports Eth_Input Autoip_Life
begin

text \<open>
  What reception does with ARP packets: the cache learns the sender, packets that wait for it are
  sent, a request for the interface's address is answered, and the pbuf is released.
\<close>

section \<open>Received pbufs\<close>

text \<open>A frame in one pbuf of the heap or of the pool that nobody else refers to.\<close>

definition lone :: "(memp_t \<Rightarrow> nat list) \<Rightarrow> pb_state \<Rightarrow> nat \<Rightarrow> bool" where
  "lone sl b q \<longleftrightarrow> placed sl b q \<and> pnext (pbufs b q) = 0 \<and> ref (pbufs b q) = 1 \<and>
     tot_len (pbufs b q) = plen (pbufs b q) \<and> plen (pbufs b q) < 65536"

lemma lone_single: "lone sl b q \<Longrightarrow> ptype (pbufs b q) = PBUF_RAM \<Longrightarrow> single sl b q"
  by (simp add: lone_def single_def)

lemma keeps_lone: "keeps sl b b' q \<Longrightarrow> lone sl b q \<Longrightarrow> lone sl b' q"
  by (simp add: keeps_def lone_def)

lemma lone_gather: "lone sl b q \<Longrightarrow> gather PBUF_MAX q b = pbuf_data b q"
  using gather_chain [of b q "[q]" PBUF_MAX] by (simp add: lone_def placed_def chain_def)

lemma lone_free:
  assumes ok: "mem_ok sl b" and p: "lone sl b p"
  obtains b' where "pbuf_free p b = Inr (1, b')" "mem_ok sl b'" "bytes b' = bytes b"
    "\<And>q. placed sl b q \<Longrightarrow> q \<noteq> p \<Longrightarrow> keeps sl b b' q"
proof (cases "ptype (pbufs b p) = PBUF_RAM")
  case True
  from free_frame [OF ok lone_single [OF p True]] that show thesis by metis
next
  case False
  then obtain i where i: "pool_of (ptype (pbufs b p)) = Some i" by (cases "ptype (pbufs b p)") (auto simp: pool_of_def)
  have own: "owned sl b p" "p \<noteq> 0" "ref (pbufs b p) = 1" "pnext (pbufs b p) = 0" using p by (auto simp: lone_def placed_def)
  have t: "p \<in> taken sl (pools b) i" "\<not> is_custom (pbufs b p)" using own(1) i by (auto simp: owned_def)
  have m: "memp_ok sl (pools b)" using ok by (simp add: mem_ok_def)
  note f = memp.put_law [OF m t(1)]
  let ?b = "(upd p (\<lambda>x. x\<lparr>ref := 0\<rparr>) b)\<lparr>pools := memp_free i p (pools b)\<rparr>"
  have "release p (upd p (\<lambda>x. x\<lparr>ref := 0\<rparr>) b) = Inr ?b"
    using i by (auto simp: release_def pool_of_def split: pbuf_type.splits)
  then have "free_loop (Suc (Suc 1022)) p 0 b = Inr (1, ?b)"
    unfolding free_loop_owned [OF t(2) own(2,3)] using own(4) free_loop.simps(2) [of 1022 0] by (simp del: free_loop.simps)
  then have run: "pbuf_free p b = Inr (1, ?b)" using own(2) by (simp add: pbuf_free_def del: free_loop.simps)
  have fields: "heap ?b = heap b" "pools ?b = memp_free i p (pools b)" "bytes ?b = bytes b"
    "pbufs ?b = (pbufs b)(p := (pbufs b p)\<lparr>ref := 0\<rparr>)" by simp_all
  have "keeps sl b ?b q" if q: "placed sl b q" "q \<noteq> p" for q
    using q f unfolding keeps_def placed_def owned_def off_heap_def pbuf_data_def fields
    by (auto split: option.splits)
  then show thesis using that [OF run] ok f by (simp add: mem_ok_def)
qed

text \<open>The memory of the pbuf \<open>p\<close> of \<open>b\<close>, on the heap or in its pool, is free in \<open>b'\<close>.\<close>

definition given_back :: "(memp_t \<Rightarrow> nat list) \<Rightarrow> pb_state \<Rightarrow> nat \<Rightarrow> pb_state \<Rightarrow> bool" where
  "given_back sl b p b' \<longleftrightarrow>
     (case pool_of (ptype (pbufs b p)) of
        None \<Rightarrow> p \<notin> fst ` live (heap b')
      | Some i \<Rightarrow> p \<notin> taken sl (pools b') i)"

lemma lone_given_back:
  assumes "mem_ok sl b" "lone sl b p" "pbuf_free p b = Inr (k, b')"
  shows "given_back sl b p b'"
proof -
  have p: "p \<noteq> 0" "owned sl b p" "ref (pbufs b p) = 1" "pnext (pbufs b p) = 0" using assms(2) by (auto simp: lone_def placed_def)
  then have c: "chain b p ([p] @ [])" "length [p] < PBUF_MAX" by (simp_all add: chain_def)
  obtain h pl where f: "free_loop PBUF_MAX p 0 b = Inr ((0 + length [p]) mod 256, b\<lparr>heap := h, pools := pl, pbufs := free_effect [p] [] b\<rparr>)"
    "live h = heap_minus b [p]" "taken sl pl = pool_minus sl b [p]"
    using free_loop_chain [OF assms(1) c, of 0] p by auto
  then have "b' = b\<lparr>heap := h, pools := pl, pbufs := free_effect [p] [] b\<rparr>" using assms(3) p(1) by (simp add: pbuf_free_def)
  then show ?thesis using f(2,3)
    by (auto simp: given_back_def heap_minus_def pool_minus_def pool_of_def split: pbuf_type.splits)
qed

section \<open>Fields of a frame\<close>

lemma u8_high: "8 \<le> k \<Longrightarrow> \<not> bit w k" for w :: u8
  using bit_imp_le_length [of w k] by auto

lemma host_bytes32_load: "host_bytes32 (load_u32 m a) = read_bytes m a 4"
proof -
  have "read_bytes m a 4 = [m a, m (a + 1), m (a + 2), m (a + 3)]"
    by (simp add: read_bytes_def upt_rec numeral_2_eq_2 numeral_3_eq_3)
  moreover have "host_bytes32 (load_u32 m a) = [m a, m (a + 1), m (a + 2), m (a + 3)]"
    by (auto simp: host_bytes32_def load_u32_def bit_simps u8_high intro!: bit_word_eqI)
  ultimately show ?thesis by simp
qed

lemma field_data:
  assumes "off + k \<le> plen (pbufs (pb s) p)"
  shows "field p off k s = take k (drop off (pbuf_data (pb s) p))"
  by (rule nth_equalityI) (use assms in \<open>simp_all add: field_def pbuf_data_def add.assoc\<close>)

definition splice :: "nat \<Rightarrow> 'a list \<Rightarrow> 'a list \<Rightarrow> 'a list" where
  "splice off bs d = take off d @ bs @ drop (off + length bs) d"

lemma splice_length [simp]: "off + length bs \<le> length d \<Longrightarrow> length (splice off bs d) = length d"
  by (simp add: splice_def)

lemma store_data:
  assumes "off + length bs \<le> plen (pbufs (pb s) p)"
  shows "pbuf_data (pb (store p off bs s)) p = splice off bs (pbuf_data (pb s) p)"
  by (rule nth_equalityI)
    (use assms in \<open>auto simp: store_def pbuf_data_def splice_def write_bytes_def nth_append\<close>)

lemma store_fields [simp]:
  "pbufs (pb (store p off bs s)) = pbufs (pb s)" "ifs (store p off bs s) = ifs s" "wire (store p off bs s) = wire s"
  "arp_table (store p off bs s) = arp_table s" "mem_ok sl (pb (store p off bs s)) = mem_ok sl (pb s)"
  "placed sl (pb (store p off bs s)) q = placed sl (pb s) q" "lone sl (pb (store p off bs s)) q = lone sl (pb s) q"
  by (simp_all add: store_def lone_def)

section \<open>Answering a request\<close>

lemma pieces:
  assumes "n \<le> length xs"
  obtains a b where "xs = a @ b" "length a = n" "a = take n xs" "b = drop n xs"
  using assms that [of "take n xs" "drop n xs"] by simp

lemma reply_splices:
  assumes len: "length a = 6" "length b = 6" "length c = 8" "length op = 2" "length sh = 6" "length si = 4" "length dh = 6" "length di = 4"
    and new: "length rep = 2" "length ip = 4" "length hw = 6" "length dst = 6"
  shows "splice 6 hw (splice 22 hw (splice 0 dst (splice 32 sh (splice 28 ip (splice 38 si (splice 20 rep
      (a @ b @ c @ op @ sh @ si @ dh @ di @ rest))))))) =
    dst @ hw @ c @ rep @ hw @ ip @ sh @ si @ rest"
proof -
  have 1: "splice 20 rep (a @ b @ c @ op @ sh @ si @ dh @ di @ rest) = a @ b @ c @ rep @ sh @ si @ dh @ di @ rest"
    using len new by (simp add: splice_def)
  have 2: "splice 38 si (a @ b @ c @ rep @ sh @ si @ dh @ di @ rest) = a @ b @ c @ rep @ sh @ si @ dh @ si @ rest"
    using len new by (simp add: splice_def)
  have 3: "splice 28 ip (a @ b @ c @ rep @ sh @ si @ dh @ si @ rest) = a @ b @ c @ rep @ sh @ ip @ dh @ si @ rest"
    using len new by (simp add: splice_def)
  have 4: "splice 32 sh (a @ b @ c @ rep @ sh @ ip @ dh @ si @ rest) = a @ b @ c @ rep @ sh @ ip @ sh @ si @ rest"
    using len new by (simp add: splice_def)
  have 5: "splice 0 dst (a @ b @ c @ rep @ sh @ ip @ sh @ si @ rest) = dst @ b @ c @ rep @ sh @ ip @ sh @ si @ rest"
    using len new by (simp add: splice_def)
  have 6: "splice 22 hw (dst @ b @ c @ rep @ sh @ ip @ sh @ si @ rest) = dst @ b @ c @ rep @ hw @ ip @ sh @ si @ rest"
    using len new by (simp add: splice_def)
  have 7: "splice 6 hw (dst @ b @ c @ rep @ hw @ ip @ sh @ si @ rest) = dst @ hw @ c @ rep @ hw @ ip @ sh @ si @ rest"
    using len new by (simp add: splice_def)
  show ?thesis unfolding 1 2 3 4 5 6 7 ..
qed

text \<open>\<open>s'\<close> differs from \<open>s\<close> in the data of the pbuf \<open>p\<close> only.\<close>

definition written :: "nat \<Rightarrow> arp_state \<Rightarrow> arp_state \<Rightarrow> bool" where
  "written p s s' \<longleftrightarrow> (\<exists>m. s' = s\<lparr>pb := (pb s)\<lparr>bytes := m\<rparr>\<rparr> \<and>
     (\<forall>a k. apart (payload (pbufs (pb s) p)) (plen (pbufs (pb s) p)) a k \<longrightarrow> read_bytes m a k = read_bytes (bytes (pb s)) a k))"

lemma written_refl: "written p s s"
  unfolding written_def by (rule exI [of _ "bytes (pb s)"]) simp

lemma written_store:
  assumes "written p s s'" "off + length bs \<le> plen (pbufs (pb s) p)"
  shows "written p s (store p off bs s')"
proof -
  let ?P = "payload (pbufs (pb s) p)"
  obtain m where m: "s' = s\<lparr>pb := (pb s)\<lparr>bytes := m\<rparr>\<rparr>"
    "\<And>a k. apart ?P (plen (pbufs (pb s) p)) a k \<Longrightarrow> read_bytes m a k = read_bytes (bytes (pb s)) a k"
    using assms(1) unfolding written_def by blast
  have "read_bytes (write_bytes (?P + off) bs m) a k = read_bytes (bytes (pb s)) a k"
    if "apart ?P (plen (pbufs (pb s) p)) a k" for a k
    using that m(2) [OF that] read_write_apart [of "?P + off" bs a k m] assms(2) by (auto simp: apart_def)
  then show ?thesis unfolding written_def by (intro exI [of _ "write_bytes (?P + off) bs m"]) (simp add: m(1) store_def)
qed

lemma written_simps:
  assumes "written p s s'"
  shows "pbufs (pb s') = pbufs (pb s)" "ifs s' = ifs s" "wire s' = wire s" "arp_table s' = arp_table s" "mem_ok sl (pb s') = mem_ok sl (pb s)"
    "lone sl (pb s') q = lone sl (pb s) q" "placed sl (pb s') q = placed sl (pb s) q"
  using assms by (auto simp: written_def lone_def)

lemma written_keeps:
  assumes ok: "mem_ok sl (pb s)" and p: "placed sl (pb s) p" and q: "placed sl (pb s) q" "q \<noteq> p"
    and one: "ptype (pbufs (pb s) p) = PBUF_RAM \<or> ptype (pbufs (pb s) q) = PBUF_RAM" and w: "written p s s'"
  shows "keeps sl (pb s) (pb s') q"
proof -
  have "apart (payload (pbufs (pb s) p) + 0) (plen (pbufs (pb s) p)) (payload (pbufs (pb s) q)) (plen (pbufs (pb s) q))"
    using one by (intro placed_apart [OF ok p q]) simp_all
  then show ?thesis using w q(1) by (auto simp: written_def keeps_def pbuf_data_def)
qed

lemma frame_pieces:
  assumes "42 \<le> length d"
  shows "d = take 6 d @ take 6 (drop 6 d) @ take 8 (drop 12 d) @ take 2 (drop 20 d) @ take 6 (drop 22 d) @ take 4 (drop 28 d) @
    take 6 (drop 32 d) @ take 4 (drop 38 d) @ drop 42 d"
proof -
  have sp: "drop k d = take j (drop k d) @ drop (k + j) d" for k j
    by (metis append_take_drop_id drop_drop add.commute)
  show ?thesis using sp [of 0 6] sp [of 6 6] sp [of 12 8] sp [of 20 2] sp [of 22 6] sp [of 28 4] sp [of 32 6] sp [of 38 4] by simp
qed

lemma arp_reply_data:
  assumes p: "42 \<le> plen (pbufs (pb s) p)" and n: "hwaddr_len (ifs s n) = ETHARP_HWADDR_LEN" "mac (hwaddr (ifs s n))"
    and hd: "take 8 (drop 12 (pbuf_data (pb s) p)) = net_bytes16 0x0806 @ net_bytes16 1 @ net_bytes16 0x0800 @ [6, 4]"
  shows "\<exists>s'. arp_reply link n p s = Inr (snd (linkoutput link n p s')) \<and> written p s s' \<and>
    pbuf_data (pb s') p =
      arp_frame (if ip_addr_islinklocal (ip_addr (ifs s n)) then ethbroadcast else field p 22 6 s) (hwaddr (ifs s n)) ARP_REPLY
        (hwaddr (ifs s n)) (ip_addr (ifs s n)) (field p 22 6 s) (field_u32 p 28 s) @ drop 42 (pbuf_data (pb s) p)"
proof -
  let ?d = "pbuf_data (pb s) p" let ?i = "ifs s n"
  define sh where "sh = take 6 (drop 22 ?d)"
  define si where "si = take 4 (drop 28 ?d)"
  define dst where "dst = (if ip_addr_islinklocal (ip_addr ?i) then ethbroadcast else sh)"
  note dd = frame_pieces [of ?d, folded sh_def si_def]
  have L: "42 \<le> length ?d" using p by simp
  have l: "length sh = 6" "length si = 4" "length dst = 6" "length (hwaddr ?i) = 6"
    using L n(2) by (simp_all add: sh_def si_def dst_def ethbroadcast_def mac_def)
  define s1 where "s1 = store p 20 (net_bytes16 ARP_REPLY) s"
  define s2 where "s2 = store p 38 si s1"
  define s3 where "s3 = store p 28 (host_bytes32 (ip_addr ?i)) s2"
  define s4 where "s4 = store p 32 sh s3"
  define s5 where "s5 = store p 0 dst s4"
  define s6 where "s6 = store p 22 (hwaddr ?i) s5"
  define s7 where "s7 = store p 6 (hwaddr ?i) s6"
  have w1: "written p s s1" unfolding s1_def using p by (intro written_store written_refl) simp
  have w2: "written p s s2" unfolding s2_def using p l by (intro written_store w1) simp
  have w3: "written p s s3" unfolding s3_def using p by (intro written_store w2) simp
  have w4: "written p s s4" unfolding s4_def using p l by (intro written_store w3) simp
  have w5: "written p s s5" unfolding s5_def using p l by (intro written_store w4) simp
  have w6: "written p s s6" unfolding s6_def using p l by (intro written_store w5) simp
  have w7: "written p s s7" unfolding s7_def using p l by (intro written_store w6) simp
  note ws = written_simps [OF w1] written_simps [OF w2] written_simps [OF w3] written_simps [OF w4] written_simps [OF w5] written_simps [OF w6]
  have d1: "pbuf_data (pb s1) p = splice 20 (net_bytes16 ARP_REPLY) ?d" unfolding s1_def using p by (intro store_data) simp
  have d2: "pbuf_data (pb s2) p = splice 38 si (pbuf_data (pb s1) p)" unfolding s2_def using p l by (intro store_data) (simp add: ws)
  have d3: "pbuf_data (pb s3) p = splice 28 (host_bytes32 (ip_addr ?i)) (pbuf_data (pb s2) p)"
    unfolding s3_def using p l by (intro store_data) (simp add: ws)
  have d4: "pbuf_data (pb s4) p = splice 32 sh (pbuf_data (pb s3) p)" unfolding s4_def using p l by (intro store_data) (simp add: ws)
  have d5: "pbuf_data (pb s5) p = splice 0 dst (pbuf_data (pb s4) p)" unfolding s5_def using p l by (intro store_data) (simp add: ws)
  have d6: "pbuf_data (pb s6) p = splice 22 (hwaddr ?i) (pbuf_data (pb s5) p)" unfolding s6_def using p l by (intro store_data) (simp add: ws)
  have d7: "pbuf_data (pb s7) p = splice 6 (hwaddr ?i) (pbuf_data (pb s6) p)" unfolding s7_def using p l by (intro store_data) (simp add: ws)
  have f0: "field p 22 6 s = sh" "field p 28 4 s = si" using p by (simp_all add: field_data sh_def si_def)
  have f1: "field p 28 4 s1 = si"
    using p L by (subst field_data) (simp_all add: ws d1 splice_def si_def)
  have f3: "field p 22 6 s3 = sh"
    using p L l by (subst field_data) (simp_all add: ws d3 d2 d1 splice_def sh_def)
  have fin: "pbuf_data (pb s7) p = dst @ hwaddr ?i @ take 8 (drop 12 ?d) @ net_bytes16 ARP_REPLY @ hwaddr ?i @
      host_bytes32 (ip_addr ?i) @ sh @ si @ drop 42 ?d"
    unfolding d7 d6 d5 d4 d3 d2 d1
    by (subst dd [OF L], rule reply_splices) (use L l in simp_all)
  have "arp_reply link n p s = Inr (snd (linkoutput link n p s7))"
    unfolding arp_reply_def Let_def s1_def [symmetric] f1 s2_def [symmetric] s3_def [symmetric] f3 s4_def [symmetric]
    using n(1) by (simp add: s5_def s6_def s7_def dst_def)
  moreover have "host_bytes32 (field_u32 p 28 s) = si" unfolding f0(2) [symmetric] by (simp add: field_u32_def field_def host_bytes32_load)
  ultimately show ?thesis using w7 fin hd f0(1) by (intro exI [of _ s7]) (simp add: arp_frame_def dst_def)
qed

section \<open>Learning the sender\<close>

lemma queues_upd:
  assumes "arp_table s' = (arp_table s)(i := e)" "queue e = 0"
  shows "queues s' \<subseteq> queues s"
  using assms by (auto simp: queues_def)

lemma in_queues: "i < ARP_TABLE_SIZE \<Longrightarrow> p \<notin> queues s \<Longrightarrow> p \<noteq> 0 \<Longrightarrow> p \<notin> {queue (arp_table s i)}"
  by (auto simp: queues_def)

text \<open>The packets that wait for the address \<open>ip\<close>, as frames to \<open>eth\<close>.\<close>

definition released :: "arp_state \<Rightarrow> nat \<Rightarrow> bytes \<Rightarrow> u32 \<Rightarrow> (nat \<times> bytes) list \<Rightarrow> bool" where
  "released s n eth ip w \<longleftrightarrow>
     (if unicast s n ip \<and> (\<exists>i. occupied s ip i) then \<exists>i. occupied s ip i \<and> w = queued_frame s n eth (queue (arp_table s i))
      else w = [])"

definition learned :: "arp_state \<Rightarrow> nat \<Rightarrow> bytes \<Rightarrow> u32 \<Rightarrow> bool" where
  "learned s n eth ip \<longleftrightarrow> (\<exists>i < ARP_TABLE_SIZE. stable_for ip s i \<and> ethaddr (arp_table s i) = eth \<and> enetif (arp_table s i) = n)"

lemma learned_cong: "arp_table s' = arp_table s \<Longrightarrow> learned s' n eth ip = learned s n eth ip"
  by (simp add: learned_def stable_for_def)

lemma update_summary:
  assumes ok: "arp_ok sl s" and n: "eth_netif s n" "mac eth" and p: "placed sl (pb s) p" "p \<notin> queues s"
    and fl: "fl = ETHARP_FLAG_TRY_HARD \<or> fl = ETHARP_FLAG_FIND_ONLY"
  shows "\<exists>r s1 w. etharp_update_arp_entry link n ip eth fl s = Inr (r, s1) \<and> arp_ok sl s1 \<and> ifs s1 = ifs s \<and>
    keeps sl (pb s) (pb s1) p \<and> p \<notin> queues s1 \<and> wire s1 = wire s @ w \<and> released s n eth ip w \<and>
    (if unicast s n ip \<and> ((\<exists>i. occupied s ip i) \<or> fl = ETHARP_FLAG_TRY_HARD) then learned s1 n eth ip else arp_table s1 = arp_table s)"
proof -
  have p0: "p \<noteq> 0" using p(1) by (simp add: placed_def)
  obtain r s1 where u: "etharp_update_arp_entry link n ip eth fl s = Inr (r, s1)" "arp_ok sl s1" "ifs s1 = ifs s"
    "if \<not> unicast s n ip then r = ERR_ARG \<and> s1 = s
     else if \<exists>i. occupied s ip i
     then \<exists>i. occupied s ip i \<and> r = ERR_OK \<and> arp_table s1 = (arp_table s)(i := resolved n eth (arp_table s i)) \<and>
       wire s1 = wire s @ queued_frame s n eth (queue (arp_table s i)) \<and>
       others_kept sl (pb s) (pb s1) {queue (arp_table s i)}
     else if r = ERR_MEM then s1 = s \<and> fl AND ETHARP_FLAG_TRY_HARD = 0 \<or> s1 = s \<and> fl AND ETHARP_FLAG_FIND_ONLY \<noteq> 0
     else \<exists>i < ARP_TABLE_SIZE. r = ERR_OK \<and> fl AND ETHARP_FLAG_FIND_ONLY = 0 \<and>
       arp_table s1 = (arp_table s)(i := resolved n eth (renewed ip (arp_table s i))) \<and>
       wire s1 = wire s \<and> (state (arp_table s i) = ETHARP_STATE_EMPTY \<or> victim (arp_table s) i) \<and>
       others_kept sl (pb s) (pb s1) {queue (arp_table s i)}"
    using update_entry_ok [OF ok n, of link ip fl] by blast
  consider (same) "s1 = s" "\<not> (unicast s n ip \<and> ((\<exists>i. occupied s ip i) \<or> fl = ETHARP_FLAG_TRY_HARD))"
    | (old) i where "unicast s n ip" "occupied s ip i" "arp_table s1 = (arp_table s)(i := resolved n eth (arp_table s i))"
      "wire s1 = wire s @ queued_frame s n eth (queue (arp_table s i))" "others_kept sl (pb s) (pb s1) {queue (arp_table s i)}"
    | (new) i where "unicast s n ip" "\<not> (\<exists>i. occupied s ip i)" "i < ARP_TABLE_SIZE" "fl = ETHARP_FLAG_TRY_HARD"
      "arp_table s1 = (arp_table s)(i := resolved n eth (renewed ip (arp_table s i)))" "wire s1 = wire s"
      "others_kept sl (pb s) (pb s1) {queue (arp_table s i)}"
    using u(4) fl by (auto split: if_splits)
  then show ?thesis
  proof cases
    case same
    then show ?thesis using u(1) ok p keeps_refl [OF p(1)]
      by (intro exI [of _ r] exI [of _ s] exI [of _ "[]"]) (auto simp: released_def)
  next
    case (old i)
    have i: "i < ARP_TABLE_SIZE" using old(2) by (simp add: occupied_def)
    have "keeps sl (pb s) (pb s1) p" using old(5) p in_queues [OF i p(2) p0] by (auto simp: others_kept_def)
    moreover have "p \<notin> queues s1" using queues_upd [OF old(3)] p(2) by (auto simp: resolved_def)
    moreover have "released s n eth ip (queued_frame s n eth (queue (arp_table s i)))" using old(1,2) by (auto simp: released_def)
    moreover have "learned s1 n eth ip"
      using i old(2,3) by (auto simp: learned_def stable_for_def is_stable_def resolved_def occupied_def intro!: exI [of _ i])
    ultimately show ?thesis using u(1-3) old(1,2,4)
      by (intro exI [of _ r] exI [of _ s1] exI [of _ "queued_frame s n eth (queue (arp_table s i))"]) auto
  next
    case (new i)
    have "keeps sl (pb s) (pb s1) p" using new(7) p in_queues [OF new(3) p(2) p0] by (auto simp: others_kept_def)
    moreover have "p \<notin> queues s1" using queues_upd [OF new(5)] p(2) by (auto simp: resolved_def)
    moreover have "released s n eth ip []" using new(2) by (auto simp: released_def)
    moreover have "learned s1 n eth ip"
      using new(3,5) by (auto simp: learned_def stable_for_def is_stable_def resolved_def renewed_def intro!: exI [of _ i])
    ultimately show ?thesis using u(1-3) new(1,4,6) by (intro exI [of _ r] exI [of _ s1] exI [of _ "[]"]) simp
  qed
qed

section \<open>Properties\<close>

text \<open>An ARP packet for Ethernet and IPv4, behind its Ethernet header.\<close>

definition arp_packet :: "arp_state \<Rightarrow> nat \<Rightarrow> bool" where
  "arp_packet s p \<longleftrightarrow> SIZEOF_ETHARP_PACKET \<le> plen (pbufs (pb s) p) \<and>
     take 8 (drop 12 (pbuf_data (pb s) p)) = net_bytes16 0x0806 @ net_bytes16 1 @ net_bytes16 0x0800 @ [6, 4]"

text \<open>The AutoIP client, if there is one, has no quarrel with the packet.\<close>

definition undisputed :: "arp_state \<Rightarrow> nat \<Rightarrow> nat \<Rightarrow> bool" where
  "undisputed s n p \<longleftrightarrow> (case autoip (ifs s n) of None \<Rightarrow> True
     | Some a \<Rightarrow> ai_state a = AUTOIP_STATE_OFF \<or> \<not> conflicts (ifs s n) a (field p 22 6 s) (field_u32 p 28 s) (field_u32 p 38 s))"

lemma undisputed_reply: "undisputed s n p \<Longrightarrow> autoip_arp_reply link n p s = Inr s"
  by (auto simp: undisputed_def autoip_arp_reply_def conflicts_def undecided_def split: option.splits if_splits)

definition asks_us :: "arp_state \<Rightarrow> nat \<Rightarrow> nat \<Rightarrow> bool" where
  "asks_us s n p \<longleftrightarrow> ip_addr (ifs s n) \<noteq> IPADDR_ANY \<and> field_u32 p 38 s = ip_addr (ifs s n)"

definition reply_frame :: "arp_state \<Rightarrow> nat \<Rightarrow> nat \<Rightarrow> bytes" where
  "reply_frame s n p = arp_frame (if ip_addr_islinklocal (ip_addr (ifs s n)) then ethbroadcast else field p 22 6 s) (hwaddr (ifs s n)) ARP_REPLY
     (hwaddr (ifs s n)) (ip_addr (ifs s n)) (field p 22 6 s) (field_u32 p 28 s) @ drop 42 (pbuf_data (pb s) p)"

lemma keeps_field:
  assumes "keeps sl (pb s) (pb s') p" "off + k \<le> plen (pbufs (pb s) p)"
  shows "field p off k s' = field p off k s"
  using assms by (subst (1 2) field_data) (auto simp: keeps_def)

lemma keeps_field_u32:
  assumes "keeps sl (pb s) (pb s') p" "off + 4 \<le> plen (pbufs (pb s) p)"
  shows "field_u32 p off s' = field_u32 p off s"
proof -
  have "field p off 4 s' = field p off 4 s" using keeps_field [OF assms] .
  then show ?thesis by (simp add: field_def field_u32_def load_u32_def read_bytes_def upt_rec numeral_3_eq_3)
qed

lemma header_field:
  assumes "arp_packet s p" "j + k \<le> 8"
  shows "field p (12 + j) k s = take k (drop j (net_bytes16 0x0806 @ net_bytes16 1 @ net_bytes16 0x0800 @ [6, 4]))"
proof -
  have "take k (drop (12 + j) d) = take k (drop j (take 8 (drop 12 d)))" for d :: bytes
    using assms(2) by (simp add: drop_take min_def add.commute)
  moreover have "field p (12 + j) k s = take k (drop (12 + j) (pbuf_data (pb s) p))"
    using assms by (intro field_data) (simp add: arp_packet_def)
  ultimately show ?thesis using assms(1) by (simp add: arp_packet_def)
qed

text \<open>Releasing the packet at the end.\<close>

lemma arp_free_end:
  assumes ok: "arp_ok sl s" and p: "lone sl (pb s) p" "p \<notin> queues s"
  shows "\<exists>s'. free_pbuf p s = Inr s' \<and> arp_ok sl s' \<and> wire s' = wire s \<and> arp_table s' = arp_table s \<and> ifs s' = ifs s \<and>
    given_back sl (pb s) p (pb s')"
proof -
  have m: "mem_ok sl (pb s)" using ok by (simp add: arp_ok_def)
  obtain b where b: "pbuf_free p (pb s) = Inr (1, b)" "mem_ok sl b" "\<And>q. placed sl (pb s) q \<Longrightarrow> q \<noteq> p \<Longrightarrow> keeps sl (pb s) b q"
    using lone_free [OF m p(1)] by metis
  have "queued_ok sl b (queue (arp_table s i))" if i: "i < ARP_TABLE_SIZE" for i
  proof (cases "queue (arp_table s i) = 0")
    case False
    have q: "queued_ok sl (pb s) (queue (arp_table s i))" by (rule arp_okD [OF ok i])
    have "queue (arp_table s i) \<noteq> p" using p(2) i False by (auto simp: queues_def)
    then show ?thesis using b(3) [OF queued_placed [OF q False]] keeps_queued q by blast
  qed (simp add: queued_ok_def)
  then have "arp_ok sl (s\<lparr>pb := b\<rparr>)" using ok b(2) by (simp add: arp_ok_def)
  then show ?thesis using b(1) lone_given_back [OF m p(1) b(1)] by (intro exI [of _ "s\<lparr>pb := b\<rparr>"]) (simp add: free_pbuf_def)
qed

lemma written_arp_ok:
  assumes ok: "arp_ok sl s" and p: "lone sl (pb s) p" "p \<notin> queues s" and w: "written p s s'"
  shows "arp_ok sl s'" "p \<notin> queues s'"
proof -
  have m: "mem_ok sl (pb s)" using ok by (simp add: arp_ok_def)
  have "queued_ok sl (pb s') (queue (arp_table s i))" if i: "i < ARP_TABLE_SIZE" for i
  proof (cases "queue (arp_table s i) = 0")
    case False
    have q: "queued_ok sl (pb s) (queue (arp_table s i))" by (rule arp_okD [OF ok i])
    have ne: "queue (arp_table s i) \<noteq> p" using p(2) i False by (auto simp: queues_def)
    have "keeps sl (pb s) (pb s') (queue (arp_table s i))"
      using q False p(1) by (intro written_keeps [OF m _ queued_placed [OF q False] ne _ w])
        (auto simp: lone_def queued_ok_def single_def)
    then show ?thesis using keeps_queued q by blast
  qed (simp add: queued_ok_def)
  then show "arp_ok sl s'" using ok w by (simp add: arp_ok_def written_simps [OF w])
  show "p \<notin> queues s'" using p(2) by (simp add: queues_def written_simps [OF w])
qed

lemma arp_answer:
  assumes ok: "arp_ok sl s" and n: "eth_netif s n" and p: "lone sl (pb s) p" "p \<notin> queues s" "arp_packet s p"
  shows "\<exists>s'. rbind (arp_reply link n p s) (free_pbuf p) = Inr s' \<and> arp_ok sl s' \<and> arp_table s' = arp_table s \<and>
    ifs s' = ifs s \<and> wire s' = wire s @ [(n, reply_frame s n p)] \<and> given_back sl (pb s) p (pb s')"
proof -
  have n': "hwaddr_len (ifs s n) = ETHARP_HWADDR_LEN" "mac (hwaddr (ifs s n))" using n by (auto simp: eth_netif_def)
  have ap: "42 \<le> plen (pbufs (pb s) p)" "take 8 (drop 12 (pbuf_data (pb s) p)) = net_bytes16 0x0806 @ net_bytes16 1 @ net_bytes16 0x0800 @ [6, 4]"
    using p(3) by (auto simp: arp_packet_def)
  obtain s1 where s1: "arp_reply link n p s = Inr (snd (linkoutput link n p s1))" "written p s s1"
    "pbuf_data (pb s1) p = reply_frame s n p"
    using arp_reply_data [OF ap(1) n' ap(2), of link] unfolding reply_frame_def by blast
  have l1: "lone sl (pb s1) p" using p(1) written_simps [OF s1(2)] by simp
  let ?s2 = "s1\<lparr>wire := wire s1 @ [(n, reply_frame s n p)]\<rparr>"
  have "snd (linkoutput link n p s1) = ?s2" by (simp add: linkoutput_def lone_gather [OF l1] s1(3) Let_def)
  moreover have "arp_ok sl ?s2" "p \<notin> queues ?s2"
    using written_arp_ok [OF ok p(1,2) s1(2)] by (simp_all add: arp_ok_def queues_def)
  moreover have "lone sl (pb ?s2) p" using l1 by simp
  ultimately obtain s3 where "free_pbuf p ?s2 = Inr s3" "arp_ok sl s3" "wire s3 = wire ?s2" "arp_table s3 = arp_table ?s2" "ifs s3 = ifs ?s2"
    "given_back sl (pb ?s2) p (pb s3)"
    using arp_free_end by blast
  moreover from this(6) have "given_back sl (pb s) p (pb s3)" using written_simps [OF s1(2)] by (simp add: given_back_def)
  ultimately show ?thesis using s1(1) \<open>snd (linkoutput link n p s1) = ?s2\<close> written_simps [OF s1(2)] by (intro exI [of _ s3]) simp
qed

text \<open>
  C22. \<^verbatim>\<open>etharp_arp_input\<close> on a well-formed ARP packet that the AutoIP client does not dispute: it
  never stops, keeps the cache invariant and releases the pbuf: when it returns, the pbuf's memory is free again. If the sender's address is
  unicast and either known or asking for the interface's address, the cache learns the sender, and
  a packet that waited for it is sent to it; nothing else in the cache is changed by others. A
  request for the interface's address is answered with the interface's hardware address, to the
  sender, or to everyone when the address is link-local; other packets get no answer.
\<close>

theorem arp_input_correct:
  assumes "arp_ok sl s" "eth_netif s n" "lone sl (pb s) p" "p \<notin> queues s" "arp_packet s p" "undisputed s n p"
  shows "\<exists>s' w. etharp_arp_input link n p s = Inr s' \<and> arp_ok sl s' \<and> given_back sl (pb s) p (pb s') \<and>
    released s n (field p 22 6 s) (field_u32 p 28 s) w \<and>
    wire s' = wire s @ w @ (if field p 20 2 s = net_bytes16 ARP_REQUEST \<and> asks_us s n p then [(n, reply_frame s n p)] else []) \<and>
    (if unicast s n (field_u32 p 28 s) \<and> ((\<exists>i. occupied s (field_u32 p 28 s) i) \<or> asks_us s n p)
     then learned s' n (field p 22 6 s) (field_u32 p 28 s) else arp_table s' = arp_table s)"
proof -
  let ?sip = "field_u32 p 28 s" let ?hw = "field p 22 6 s"
  define fl where "fl = (if asks_us s n p then ETHARP_FLAG_TRY_HARD else ETHARP_FLAG_FIND_ONLY)"
  have fl: "fl = ETHARP_FLAG_TRY_HARD \<or> fl = ETHARP_FLAG_FIND_ONLY" "(fl = ETHARP_FLAG_TRY_HARD) = asks_us s n p" by (simp_all add: fl_def)
  have ap: "42 \<le> plen (pbufs (pb s) p)" "take 8 (drop 12 (pbuf_data (pb s) p)) = net_bytes16 0x0806 @ net_bytes16 1 @ net_bytes16 0x0800 @ [6, 4]"
    using assms(5) by (auto simp: arp_packet_def)
  have pl: "placed sl (pb s) p" using assms(3) by (simp add: lone_def)
  have hdr: "field p 14 2 s = net_bytes16 1" "field p 18 1 s = [6]" "field p 19 1 s = [4]" "field p 16 2 s = net_bytes16 0x0800"
    using header_field [OF assms(5), of 2 2] header_field [OF assms(5), of 6 1] header_field [OF assms(5), of 7 1]
      header_field [OF assms(5), of 4 2] by (simp_all add: net_bytes16_def)
  have mac: "mac ?hw" using ap(1) by (simp add: mac_def field_def)
  obtain r s1 w where u: "etharp_update_arp_entry link n ?sip ?hw fl s = Inr (r, s1)" "arp_ok sl s1" "ifs s1 = ifs s"
    "keeps sl (pb s) (pb s1) p" "p \<notin> queues s1" "wire s1 = wire s @ w" "released s n ?hw ?sip w"
    "if unicast s n ?sip \<and> ((\<exists>i. occupied s ?sip i) \<or> fl = ETHARP_FLAG_TRY_HARD) then learned s1 n ?hw ?sip else arp_table s1 = arp_table s"
    using update_summary [OF assms(1,2) mac pl assms(4) fl(1), of link ?sip] by blast
  have lone1: "lone sl (pb s1) p" using keeps_lone [OF u(4) assms(3)] .
  have same: "field p off k s1 = field p off k s" if "off + k \<le> 42" for off k using that ap(1) by (intro keeps_field [OF u(4)]) simp
  have same32: "field_u32 p 28 s1 = ?sip" using ap(1) by (intro keeps_field_u32 [OF u(4)]) simp
  have data: "pbuf_data (pb s1) p = pbuf_data (pb s) p" "pbufs (pb s1) p = pbufs (pb s) p" using u(4) by (simp_all add: keeps_def)
  have pk1: "arp_packet s1 p" "reply_frame s1 n p = reply_frame s n p" "eth_netif s1 n"
    using assms(2,5) data same [of 22 6] same32 u(3) by (simp_all add: arp_packet_def reply_frame_def eth_netif_def)
  have run: "etharp_arp_input link n p s =
      rbind (if field p 20 2 s1 = net_bytes16 ARP_REQUEST \<and> asks_us s n p then arp_reply link n p s1 else Inr s1) (free_pbuf p)"
    using ap(1) hdr undisputed_reply [OF assms(6)] u(1) assms(2)
    by (simp add: etharp_arp_input_def asks_us_def eth_netif_def fl_def Let_def)
  show ?thesis
  proof (cases "field p 20 2 s = net_bytes16 ARP_REQUEST \<and> asks_us s n p")
    case True
    obtain s' where s': "rbind (arp_reply link n p s1) (free_pbuf p) = Inr s'" "arp_ok sl s'" "arp_table s' = arp_table s1"
      "wire s' = wire s1 @ [(n, reply_frame s1 n p)]" "given_back sl (pb s1) p (pb s')"
      using arp_answer [OF u(2) pk1(3) lone1 u(5) pk1(1), of link] by blast
    have "etharp_arp_input link n p s = Inr s'" using run True same [of 20 2] s'(1) by simp
    moreover have "wire s' = wire s @ w @ [(n, reply_frame s n p)]" using s'(4) u(6) pk1(2) by simp
    moreover have "given_back sl (pb s) p (pb s')" using s'(5) data(2) by (simp add: given_back_def)
    ultimately show ?thesis using True s'(2,3) u(7,8) fl(2) learned_cong [OF s'(3)]
      by (intro exI [of _ s'] exI [of _ w]) simp
  next
    case False
    obtain s' where s': "free_pbuf p s1 = Inr s'" "arp_ok sl s'" "wire s' = wire s1" "arp_table s' = arp_table s1" "given_back sl (pb s1) p (pb s')"
      using arp_free_end [OF u(2) lone1 u(5)] by blast
    have "etharp_arp_input link n p s = Inr s'" unfolding run same [of 20 2, simplified] if_not_P [OF False] using s'(1) by simp
    moreover have "given_back sl (pb s) p (pb s')" using s'(5) data(2) by (simp add: given_back_def)
    ultimately show ?thesis using False s'(2-4) u(6-8) fl(2) learned_cong [OF s'(4)]
      by (intro exI [of _ s'] exI [of _ w]) auto
  qed
qed

section \<open>Instances\<close>

text \<open>A request from 192.168.0.3 for 192.168.0.2 in a heap pbuf.\<close>

definition request_sample :: bytes where
  "request_sample = arp_frame ethbroadcast [2, 0, 0, 0, 0, 3] ARP_REQUEST [2, 0, 0, 0, 0, 3] 0x0300a8c0 ethzero 0x0200a8c0"

lemma sample_frame:
  "\<exists>b. mem_ok sample_slots b \<and> lone sample_slots b 4102 \<and> 42 \<le> plen (pbufs b 4102) \<and>
     take 42 (pbuf_data b 4102) = request_sample"
proof -
  obtain h e where h: "mem_malloc 100 fresh_heap = Inr (4102, h)" using one_block by blast
  have hs: "heap sample = fresh_heap" by (simp add: sample_def)
  have r: "pbuf_alloc PBUF_RAW 76 PBUF_RAM sample = Inr (4102, ram_pbuf PBUF_RAW 76 4102 h sample)"
    by (rule pbuf_alloc_ram_eq) (simp_all add: layer_offset_def u16_of_def hs h)
  have sz: "SIZEOF_STRUCT_PBUF + layer_offset PBUF_RAW + 76 < 65536" by (simp add: layer_offset_def)
  let ?a = "ram_pbuf PBUF_RAW 76 4102 h sample"
  from sample_ok(1) sz have "mem_ok sample_slots ?a \<and> single sample_slots ?a 4102 \<and> plen (pbufs ?a 4102) = 76"
    by (cases rule: alloc_ram_frame) (use r in auto)
  then obtain b where b: "mem_ok sample_slots b" "single sample_slots b 4102" "plen (pbufs b 4102) = 76" by blast
  let ?b = "b\<lparr>bytes := write_bytes (payload (pbufs b 4102)) request_sample (bytes b)\<rparr>"
  have "length request_sample = 42" by (simp add: request_sample_def arp_frame_def ethbroadcast_def ethzero_def)
  then have "take 42 (pbuf_data ?b 4102) = request_sample"
    using read_write_prefix [of request_sample 76 "payload (pbufs b 4102)" "bytes b"] b(3) by (simp add: pbuf_data_def)
  moreover have "lone sample_slots ?b 4102" using b(2) by (simp add: lone_def single_def)
  ultimately show ?thesis using b(1,3) by (intro exI [of _ ?b]) simp
qed

theorem arp_input_correct_witness:
  "\<exists>b s' F. etharp_arp_input (\<lambda>_ _. ERR_OK) 1 4102 (arp_sample b) = Inr s' \<and> arp_ok sample_slots s' \<and> wire s' = [(1, F)] \<and>
     given_back sample_slots b 4102 (pb s') \<and> learned s' 1 [2, 0, 0, 0, 0, 3] 0x0300a8c0"
proof -
  obtain b where b: "mem_ok sample_slots b" "lone sample_slots b 4102" "42 \<le> plen (pbufs b 4102)"
    "take 42 (pbuf_data b 4102) = request_sample" using sample_frame by blast
  let ?s = "arp_sample b"
  have pb: "pb ?s = b" by (simp add: arp_sample_def)
  have part: "take k (drop off (pbuf_data b 4102)) = take k (drop off request_sample)" if "off + k \<le> 42" for off k
    unfolding b(4) [symmetric] using that by (simp add: drop_take min_def add.commute)
  have fl: "field 4102 off k ?s = take k (drop off request_sample)" if "off + k \<le> 42" for off k
    using that b(3) part by (subst field_data) (simp_all add: pb)
  have fu: "field_u32 4102 off ?s = (let bs = field 4102 off 4 ?s in
      ucast (bs ! 0) OR push_bit 8 (ucast (bs ! 1)) OR push_bit 16 (ucast (bs ! 2)) OR push_bit 24 (ucast (bs ! 3)))" for off
    by (simp add: field_u32_def load_u32_def field_def)
  have parts: "field 4102 22 6 ?s = [2, 0, 0, 0, 0, 3]" "field 4102 20 2 ?s = net_bytes16 ARP_REQUEST"
    "field 4102 28 4 ?s = [0xc0, 0xa8, 0, 3]" "field 4102 38 4 ?s = [0xc0, 0xa8, 0, 2]"
    by (simp_all add: fl request_sample_def arp_frame_def ethbroadcast_def ethzero_def net_bytes16_def host_bytes32_def)
  have addrs: "field_u32 4102 28 ?s = 0x0300a8c0" "field_u32 4102 38 ?s = 0x0200a8c0"
    by (simp_all add: fu parts push_bit_eq_mult)
  have "arp_packet ?s 4102"
    using b(3) part [of 12 8] by (simp add: arp_packet_def pb request_sample_def arp_frame_def ethbroadcast_def net_bytes16_def)
  moreover have "undisputed ?s 1 4102" by (simp add: undisputed_def arp_sample_def)
  moreover have "lone sample_slots (pb ?s) 4102" "4102 \<notin> queues ?s" using b(2) by (simp_all add: pb arp_sample_netif)
  ultimately obtain s' w where r: "etharp_arp_input (\<lambda>_ _. ERR_OK) 1 4102 ?s = Inr s'" "arp_ok sample_slots s'"
    "given_back sample_slots (pb ?s) 4102 (pb s')"
    "released ?s 1 [2, 0, 0, 0, 0, 3] 0x0300a8c0 w"
    "wire s' = wire ?s @ w @ (if asks_us ?s 1 4102 then [(1, reply_frame ?s 1 4102)] else [])"
    "if unicast ?s 1 0x0300a8c0 \<and> ((\<exists>i. occupied ?s 0x0300a8c0 i) \<or> asks_us ?s 1 4102)
     then learned s' 1 [2, 0, 0, 0, 0, 3] 0x0300a8c0 else arp_table s' = arp_table ?s"
    using arp_input_correct [OF arp_sample_ok [OF b(1)] arp_sample_netif(1), of 4102 "\<lambda>_ _. ERR_OK", unfolded parts addrs]
    by auto
  have "asks_us ?s 1 4102" by (simp add: asks_us_def addrs) (simp add: arp_sample_def)
  moreover have "w = []" using r(4) by (simp add: released_def occupied_def arp_sample_def)
  ultimately show ?thesis using r arp_sample_netif(2) [of b]
    by (intro exI [of _ b] exI [of _ s'] exI [of _ "reply_frame ?s 1 4102"]) (simp add: pb, simp add: arp_sample_def)
qed

end
