(* ===== verification/Driver_Life.thy ===== *)
theory Driver_Life
  imports Driver Eth_Life
begin

text \<open>
  The driver of \<^verbatim>\<open>driver.c\<close> correct: what a frame is on its way from the decoder into a packet and on to the
  TCP/IP thread, and from a packet to the encoder.
\<close>

section \<open>Copying between packets and flat buffers\<close>

lemma pbuf2buf_loop_spec:
  assumes "chain b p qs" "length qs < fuel" "dest_apart b qs (d + len) (length (content b qs))"
  shows "pbuf2buf_loop fuel p d len b =
    Inr (len + length (content b qs), b\<lparr>bytes := write_bytes (d + len) (content b qs) (bytes b)\<rparr>)"
  using assms
proof (induction qs arbitrary: p fuel len b)
  case Nil
  then show ?case by (cases fuel) auto
next
  case (Cons q qs)
  then obtain f where f: "fuel = Suc f" "length qs < f" by (cases fuel) auto
  from Cons.prems have c: "p = q" "q \<noteq> 0" "chain b (pnext (pbufs b q)) qs" by auto
  let ?l = "plen (pbufs b q)"
  define b1 where "b1 = b\<lparr>bytes := write_bytes (d + len) (pbuf_data b q) (bytes b)\<rparr>"
  have dq: "dest_apart b qs (d + len) (length (pbuf_data b q))"
    using Cons.prems(3) by (auto simp: dest_apart_def intro: apart_mono)
  have cont: "content b1 qs = content b qs" unfolding b1_def using dq by (rule content_write)
  have ch: "chain b1 (pnext (pbufs b q)) qs" using c(3) by (simp add: b1_def)
  have da: "dest_apart b1 qs (d + (len + ?l)) (length (content b1 qs))"
    using dest_apart_sub [OF Cons.prems(3), of qs ?l "length (content b qs)"]
    by (simp add: b1_def [symmetric] cont add.assoc subset_insertI) (simp add: b1_def)
  have "memcpy (d + len) (payload (pbufs b q)) ?l b = b1" by (simp add: b1_def memcpy_def pbuf_data_def)
  then have "pbuf2buf_loop fuel p d len b = pbuf2buf_loop f (pnext (pbufs b q)) d (len + ?l) b1"
    using c by (simp add: f)
  also have "\<dots> = Inr (len + ?l + length (content b qs),
      b1\<lparr>bytes := write_bytes (d + (len + ?l)) (content b qs) (bytes b1)\<rparr>)"
    using Cons.IH [OF ch f(2) da] by (simp add: cont)
  finally show ?case
    using write_bytes_append [of "d + len" "pbuf_data b q" "content b qs" "bytes b"]
    by (simp add: b1_def add.assoc)
qed

lemma buf2pbuf_loop_spec:
  assumes "chain b p qs" "length qs < fuel" "payloads_apart b qs" "dest_apart b qs (d + k) (length (content b qs))"
  shows "\<exists>m. buf2pbuf_loop fuel p d k b = Inr (b\<lparr>bytes := m\<rparr>) \<and>
    content (b\<lparr>bytes := m\<rparr>) qs = read_bytes (bytes b) (d + k) (length (content b qs)) \<and>
    (\<forall>a n. dest_apart b qs a n \<longrightarrow> read_bytes m a n = read_bytes (bytes b) a n)"
  using assms
proof (induction qs arbitrary: p fuel k b)
  case Nil
  then show ?case by (cases fuel) (auto intro!: exI [of _ "bytes b"])
next
  case (Cons q qs)
  then obtain f where f: "fuel = Suc f" "length qs < f" by (cases fuel) auto
  from Cons.prems have c: "p = q" "q \<noteq> 0" "chain b (pnext (pbufs b q)) qs" by auto
  have qn: "q \<notin> set qs" using chain_distinct [OF Cons.prems(1)] by simp
  let ?l = "plen (pbufs b q)" let ?a = "payload (pbufs b q)" let ?x = "read_bytes (bytes b) (d + k) ?l"
  let ?n = "length (content b qs)"
  define b1 where "b1 = b\<lparr>bytes := write_bytes ?a ?x (bytes b)\<rparr>"
  have pa: "dest_apart b qs ?a ?l" "payloads_apart b1 qs"
    using Cons.prems(3) qn by (auto simp: payloads_apart_def dest_apart_def b1_def)
  have cont: "content b1 qs = content b qs" unfolding b1_def using pa(1) by (intro content_write) simp
  have ch: "chain b1 (pnext (pbufs b q)) qs" using c(3) by (simp add: b1_def)
  have da: "dest_apart b1 qs (d + (k + ?l)) (length (content b1 qs))"
    using dest_apart_sub [OF Cons.prems(4), of qs ?l ?n] by (simp add: cont add.assoc subset_insertI) (simp add: b1_def)
  obtain m where m: "buf2pbuf_loop f (pnext (pbufs b q)) d (k + ?l) b1 = Inr (b1\<lparr>bytes := m\<rparr>)"
    "content (b1\<lparr>bytes := m\<rparr>) qs = read_bytes (bytes b1) (d + (k + ?l)) ?n"
    "\<forall>a n. dest_apart b1 qs a n \<longrightarrow> read_bytes m a n = read_bytes (bytes b1) a n"
    using Cons.IH [OF ch f(2) pa(2) da] by (auto simp: cont)
  have step: "buf2pbuf_loop fuel p d k b = Inr (b\<lparr>bytes := m\<rparr>)"
    using m(1) c by (simp add: f b1_def memcpy_def)
  have ap: "apart (d + k) (?l + ?n) ?a ?l" using Cons.prems(4) by (simp add: dest_apart_def)
  have "apart ?a ?l (d + (k + ?l)) ?n" using ap by (auto simp: apart_def)
  then have rest: "read_bytes (bytes b1) (d + (k + ?l)) ?n = read_bytes (bytes b) (d + (k + ?l)) ?n"
    by (simp add: b1_def read_write_apart)
  have "dest_apart b1 qs ?a ?l" using pa(1) by (auto simp: dest_apart_def b1_def)
  then have dq: "pbuf_data (b\<lparr>bytes := m\<rparr>) q = ?x"
    using m(3) read_write_same [of ?a ?x "bytes b"] by (simp add: pbuf_data_def b1_def)
  have split: "read_bytes (bytes b) (d + k) (?l + ?n) = ?x @ read_bytes (bytes b) (d + (k + ?l)) ?n"
    by (intro nth_equalityI) (auto simp: nth_append add.assoc)
  have "content (b\<lparr>bytes := m\<rparr>) (q # qs) = read_bytes (bytes b) (d + k) (length (content b (q # qs)))"
    using dq m(2) rest split by (simp add: b1_def)
  moreover have "read_bytes m a n = read_bytes (bytes b) a n" if "dest_apart b (q # qs) a n" for a n
  proof -
    have "dest_apart b1 qs a n" "apart ?a ?l a n" using that by (auto simp: dest_apart_def b1_def apart_def)
    then show ?thesis using m(3) by (simp add: b1_def read_write_apart)
  qed
  ultimately show ?case using step by blast
qed

text \<open>
  Elements of the pbuf pool that do not overlap (\<open>memp_init_correct\<close>), and a buffer outside of them.
\<close>

definition pool_spaced :: "(memp_t \<Rightarrow> nat list) \<Rightarrow> bool" where
  "pool_spaced sl \<longleftrightarrow> (\<forall>x \<in> set (sl MEMP_PBUF_POOL). \<forall>y \<in> set (sl MEMP_PBUF_POOL). x \<noteq> y \<longrightarrow> apart x 1102 y 1102)"

definition buffer_apart :: "(memp_t \<Rightarrow> nat list) \<Rightarrow> nat \<Rightarrow> nat \<Rightarrow> bool" where
  "buffer_apart sl a n \<longleftrightarrow> (\<forall>x \<in> set (sl MEMP_PBUF_POOL). apart a n x 1102)"

lemma pool_packet_elem:
  assumes "pool_packet sl layer len b p b' ps" "q \<in> set ps"
  shows "q \<in> set (sl MEMP_PBUF_POOL)" "q + 24 \<le> payload (pbufs b' q)" "payload (pbufs b' q) + plen (pbufs b' q) \<le> q + 1102"
proof -
  have "q \<in> taken sl (pools b') MEMP_PBUF_POOL" using assms by (auto simp: pool_packet_def)
  then show "q \<in> set (sl MEMP_PBUF_POOL)" by (simp add: taken_def)
qed (use assms in \<open>auto simp: pool_packet_def\<close>)

lemma pool_packet_apart:
  assumes pk: "pool_packet sl layer len b p b' ps" and sp: "pool_spaced sl"
  shows "payloads_apart b' ps" "buffer_apart sl a n \<Longrightarrow> dest_apart b' ps a n"
proof -
  note e = pool_packet_elem [OF pk]
  have "apart (payload (pbufs b' q)) (plen (pbufs b' q)) (payload (pbufs b' r)) (plen (pbufs b' r))"
    if "q \<in> set ps" "r \<in> set ps" "q \<noteq> r" for q r
  proof -
    have "apart q 1102 r 1102" using sp e(1) that by (auto simp: pool_spaced_def)
    then show ?thesis using e(2,3) [OF that(1)] e(2,3) [OF that(2)] by (auto simp: apart_def)
  qed
  then show "payloads_apart b' ps" by (auto simp: payloads_apart_def)
  have "apart a n (payload (pbufs b' q)) (plen (pbufs b' q))" if "buffer_apart sl a n" "q \<in> set ps" for q
  proof -
    have "apart a n q 1102" using that e(1) by (auto simp: buffer_apart_def)
    then show ?thesis using e(2,3) [OF that(2)] by (auto simp: apart_def)
  qed
  then show "buffer_apart sl a n \<Longrightarrow> dest_apart b' ps a n" by (auto simp: dest_apart_def)
qed

lemma packet_bytes:
  assumes "length (content (b\<lparr>bytes := m\<rparr>) ps) = length (content b ps)" "packet b p ps"
  shows "packet (b\<lparr>bytes := m\<rparr>) p ps"
proof -
  have "length (content (b\<lparr>bytes := m\<rparr>) xs) = length (content b xs)" for xs by (induction xs) auto
  then have "tot_ok (b\<lparr>bytes := m\<rparr>) qs = tot_ok b qs" for qs
    by (induction qs) (simp_all del: content_simps)
  then show ?thesis using assms by (simp add: packet_def)
qed

lemma pool_packet_write:
  assumes pk: "pool_packet sl layer len b p b' ps" and m: "length (content (b'\<lparr>bytes := m\<rparr>) ps) = len"
  shows "pool_packet sl layer len b p (b'\<lparr>bytes := m\<rparr>) ps"
  using pk m packet_bytes [where b = b' and m = m and ps = ps and p = p] by (simp add: pool_packet_def)

lemma buf2pbuf_cases:
  assumes ok: "mem_ok sl b" and mb: "mbox_ready b" and len: "len < 65536"
    and flags: "\<forall>q \<in> set (sl MEMP_PBUF_POOL). \<not> is_custom (pbufs b q)"
    and sp: "pool_spaced sl" and buf: "buffer_apart sl buf len"
  obtains (none) b' where "buf2pbuf buf len b = Inr (0, b')" "alloc_undone sl b b'"
      "pool_room sl (pools b) = 0 \<or> pool_room sl (pools b) < len"
  | (some) p b' ps where "buf2pbuf buf len b = Inr (p, b')" "p \<noteq> 0" "pool_packet sl PBUF_RAW len b p b' ps"
      "content b' ps = read_bytes (bytes b) buf len" "read_bytes (bytes b') buf len = read_bytes (bytes b) buf len"
  using ok mb len flags
proof (cases rule: alloc_pool_cases [where layer = PBUF_RAW])
  case (none b')
  then show thesis using that(1) [of b'] len by (simp add: buf2pbuf_def layer_offset_def)
next
  case (some p b' ps)
  note pk = some(3)
  have c: "chain b' p ps" "length ps < PBUF_MAX" "length (content b' ps) = len" using pk by (auto simp: pool_packet_def packet_def)
  note ap = pool_packet_apart [OF pk sp]
  note same = some(4)
  obtain m where m: "buf2pbuf_loop PBUF_MAX p buf 0 b' = Inr (b'\<lparr>bytes := m\<rparr>)"
    "content (b'\<lparr>bytes := m\<rparr>) ps = read_bytes (bytes b') buf len" "read_bytes m buf len = read_bytes (bytes b') buf len"
    using buf2pbuf_loop_spec [OF c(1,2) ap(1), of buf 0] ap(2) [OF buf] c(3) by auto
  have "buf2pbuf buf len b = Inr (p, b'\<lparr>bytes := m\<rparr>)"
    using some(1,2) m(1) len by (simp add: buf2pbuf_def pbuf_header_def)
  then show thesis using that(2) [OF _ some(2) pool_packet_write [OF pk]] m by (simp add: same)
qed

section \<open>Handing a packet to the TCP/IP thread\<close>

text \<open>What waits in the mailbox of the TCP/IP thread.\<close>

definition inbox :: "pb_state \<Rightarrow> nat list" where
  "inbox b = (case tcpip_mbox b of None \<Rightarrow> [] | Some mb \<Rightarrow> mbox_queue mb)"

definition same_packets :: "pb_state \<Rightarrow> pb_state \<Rightarrow> bool" where
  "same_packets b b' \<longleftrightarrow> pbufs b' = pbufs b \<and> bytes b' = bytes b \<and> heap b' = heap b \<and> custom b' = custom b"

text \<open>
  The packet is in the mailbox, in a message element that was free; or it was refused and neither the mailbox nor a pool changed.
\<close>

definition handed_over :: "(memp_t \<Rightarrow> nat list) \<Rightarrow> nat \<Rightarrow> nat \<Rightarrow> 'd drv_state \<Rightarrow> 'd drv_state \<Rightarrow> bool" where
  "handed_over sl n p s s' \<longleftrightarrow> (\<exists>msg. inbox (pb (net s')) = inbox (pb (net s)) @ [msg] \<and> inpkt s' msg = (p, n) \<and>
     msg \<notin> taken sl (pools (pb (net s))) MEMP_TCPIP_MSG_INPKT \<and>
     taken sl (pools (pb (net s'))) = (taken sl (pools (pb (net s))))
       (MEMP_TCPIP_MSG_INPKT := insert msg (taken sl (pools (pb (net s))) MEMP_TCPIP_MSG_INPKT)))"

text \<open>A message can be posted: there is a mailbox, it is not full, and a message element is free.\<close>

definition accepting :: "(memp_t \<Rightarrow> nat list) \<Rightarrow> pb_state \<Rightarrow> bool" where
  "accepting sl b \<longleftrightarrow> tcpip_mbox b \<noteq> None \<and> length (inbox b) \<noteq> 127 \<and>
     card (taken sl (pools b) MEMP_TCPIP_MSG_INPKT) < memp_num MEMP_TCPIP_MSG_INPKT"

definition refused :: "(memp_t \<Rightarrow> nat list) \<Rightarrow> 'd drv_state \<Rightarrow> 'd drv_state \<Rightarrow> bool" where
  "refused sl s s' \<longleftrightarrow> inbox (pb (net s')) = inbox (pb (net s)) \<and> taken sl (pools (pb (net s'))) = taken sl (pools (pb (net s)))"

lemma set_pb_fields [simp]:
  "pb (net (set_pb b s)) = b" "drivers (set_pb b s) = drivers s" "inpkt (set_pb b s) = inpkt s"
  "ifs (net (set_pb b s)) = ifs (net s)" "set_pb b (set_pb b' s) = set_pb b s"
  by (simp_all add: set_pb_def)

lemma set_driver_fields [simp]:
  "net (set_driver n f s) = net s" "inpkt (set_driver n f s) = inpkt s"
  "drivers (set_driver n f s) = (drivers s)(n := f (drivers s n))"
  by (simp_all add: set_driver_def)

lemma tcpip_input_safe:
  assumes ok: "mem_ok sl (pb (net s))" and mb: "mbox_ready (pb (net s))"
  shows "\<exists>e s'. tcpip_input p n s = Inr (e, s') \<and> mem_ok sl (pb (net s')) \<and> same_packets (pb (net s)) (pb (net s')) \<and>
    drivers s' = drivers s \<and> (e = ERR_OK \<longleftrightarrow> accepting sl (pb (net s))) \<and>
    (if e = ERR_OK then handed_over sl n p s s' else refused sl s s')"
proof (cases "tcpip_mbox (pb (net s))")
  case None
  then show ?thesis using ok by (simp add: tcpip_input_def same_packets_def refused_def accepting_def)
next
  case (Some q)
  have m: "memp_ok sl (pools (pb (net s)))" using ok by (simp add: mem_ok_def)
  have MP: "MEMP_TCPIP_MSG_INPKT \<noteq> MEMP_MAX" by simp
  from m MP show ?thesis
  proof (cases rule: memp.get_cases)
    case none
    then show ?thesis
      using ok Some by (simp add: tcpip_input_def same_packets_def refused_def Let_def mem_ok_def inbox_def accepting_def)
  next
    case (some x ps)
    obtain e q' where t: "sys_mbox_trypost x q = Some (Inr (e, q'))"
      using trypost_ready [of q x] mb Some by (auto simp: mbox_ready_def)
    have q: "mbox_ok q" using mb Some by (simp add: mbox_ready_def)
    note sp = trypost_spec [OF q t]
    define s1 where "s1 = s\<lparr>inpkt := (inpkt s)(x := (p, n))\<rparr>"
    show ?thesis
    proof (cases "e = ERR_OK")
      case True
      then have "put_effect x q q'" "length (mbox_queue q) \<noteq> 127" using sp by (auto split: if_splits)
      then show ?thesis
        using True some t Some ok
        by (intro exI [of _ ERR_OK] exI [of _ "set_pb ((pb (net s))\<lparr>pools := ps, tcpip_mbox := Some q'\<rparr>) s1"])
          (auto simp: tcpip_input_def same_packets_def handed_over_def Let_def mem_ok_def inbox_def put_effect_def s1_def
            accepting_def)
    next
      case False
      then have "q' = q" "length (mbox_queue q) = 127" using sp by (auto split: if_splits)
      moreover note memp.get_put [OF m MP some(1,3)]
      ultimately show ?thesis
        using False some t Some ok
        by (intro exI [of _ ERR_MEM] exI [of _ "set_pb ((pb (net s))\<lparr>pools := memp_free MEMP_TCPIP_MSG_INPKT x ps, tcpip_mbox := Some q'\<rparr>) s1"])
          (auto simp: tcpip_input_def same_packets_def refused_def Let_def mem_ok_def inbox_def s1_def
            accepting_def)
    qed
  qed
qed

text \<open>The bytes of a frame that say what it carries, as \<open>recv_pbuf\<close> reads them in the first pbuf.\<close>

definition ethertype :: "bytes \<Rightarrow> bytes" where
  "ethertype frame = take 2 (drop 12 frame)"

lemma ethertype_first:
  assumes "packet b p ps" "14 \<le> plen (pbufs b p)"
  shows "read_bytes (bytes b) (payload (pbufs b p) + 12) 2 = ethertype (content b ps)"
proof -
  obtain qs where "ps = p # qs" using assms(1) by (cases ps) (auto simp: packet_def)
  then show ?thesis
    using assms(2) by (simp add: ethertype_def pbuf_data_def drop_read_bytes take_read_bytes)
qed

text \<open>A packet nobody else refers to, all of whose pbufs can be released.\<close>

definition sole :: "(memp_t \<Rightarrow> nat list) \<Rightarrow> pb_state \<Rightarrow> nat \<Rightarrow> nat list \<Rightarrow> bool" where
  "sole sl b p ps \<longleftrightarrow> packet b p ps \<and> (\<forall>q \<in> set ps. owned sl b q \<and> ref (pbufs b q) = 1)"

lemma pool_packet_sole: "pool_packet sl layer len b p b' ps \<Longrightarrow> sole sl b' p ps"
  by (simp add: pool_packet_def sole_def)

lemma sole_free:
  assumes "mem_ok sl b" "sole sl b p ps"
  obtains k b' where "pbuf_free p b = Inr (k, b')" "mem_ok sl b'" "live (heap b') = heap_minus b ps"
    "taken sl (pools b') = pool_minus sl b ps" "tcpip_mbox b' = tcpip_mbox b" "bytes b' = bytes b"
proof -
  have c: "chain b p (ps @ [])" "length ps < PBUF_MAX" "p \<noteq> 0" "\<forall>q \<in> set ps. owned sl b q \<and> ref (pbufs b q) = 1"
    using assms(2) by (cases ps; auto simp: sole_def packet_def)+
  obtain h pl where f: "free_loop PBUF_MAX p 0 b = Inr ((0 + length ps) mod 256, b\<lparr>heap := h, pools := pl, pbufs := free_effect ps [] b\<rparr>)"
    "mem_ok sl (b\<lparr>heap := h, pools := pl\<rparr>)" "live h = heap_minus b ps" "taken sl pl = pool_minus sl b ps"
    using free_loop_chain [OF assms(1) c(1,2), of 0] c(4) by auto
  show thesis
    by (rule that [of _ "b\<lparr>heap := h, pools := pl, pbufs := free_effect ps [] b\<rparr>"])
      (use f c(3) in \<open>simp_all add: pbuf_free_def mem_ok_def\<close>)
qed

text \<open>The packet has been released, and the mailbox is as it was.\<close>

definition dropped :: "(memp_t \<Rightarrow> nat list) \<Rightarrow> nat list \<Rightarrow> pb_state \<Rightarrow> pb_state \<Rightarrow> bool" where
  "dropped sl ps b b' \<longleftrightarrow> inbox b' = inbox b \<and> live (heap b') = heap_minus b ps \<and> taken sl (pools b') = pool_minus sl b ps"

lemma sole_cong:
  assumes "same_packets b b'" "taken sl (pools b') = taken sl (pools b)"
  shows "sole sl b' p ps = sole sl b p ps" "heap_minus b' ps = heap_minus b ps" "pool_minus sl b' ps = pool_minus sl b ps"
proof -
  have o: "owned sl b' q = owned sl b q" for q
    using assms by (simp add: owned_def same_packets_def cong: option.case_cong)
  have d: "pbuf_data b' q = pbuf_data b q" for q using assms(1) by (simp add: pbuf_data_def same_packets_def)
  have c: "content b' qs = content b qs" for qs using d by (rule content_cong)
  have "tot_ok b' qs = tot_ok b qs" for qs
    using assms(1) by (induction qs) (simp_all add: c d same_packets_def)
  then show "sole sl b' p ps = sole sl b p ps"
    using assms(1) by (simp add: sole_def packet_def o c chain_def same_packets_def)
  show "heap_minus b' ps = heap_minus b ps" "pool_minus sl b' ps = pool_minus sl b ps"
    using assms by (simp_all add: heap_minus_def pool_minus_def same_packets_def fun_eq_iff)
qed

lemma recv_pbuf_cases:
  assumes ok: "mem_ok sl (pb (net s))" and mb: "mbox_ready (pb (net s))" and p: "sole sl (pb (net s)) p ps"
    and hdr: "14 \<le> plen (pbufs (pb (net s)) p)"
  shows "\<exists>s'. recv_pbuf n p s = Inr s' \<and> mem_ok sl (pb (net s')) \<and> drivers s' = drivers s \<and>
    (if ethertype (content (pb (net s)) ps) \<in> {net_bytes16 0x0800, net_bytes16 0x0806} \<and> accepting sl (pb (net s))
     then same_packets (pb (net s)) (pb (net s')) \<and> handed_over sl n p s s'
     else dropped sl ps (pb (net s)) (pb (net s')))"
proof -
  have ty: "read_bytes (bytes (pb (net s))) (payload (pbufs (pb (net s)) p) + 12) 2 = ethertype (content (pb (net s)) ps)"
    using p hdr by (intro ethertype_first) (simp_all add: sole_def)
  have drop: "\<exists>s'. rbind (pbuf_free p (pb (net s1))) (\<lambda>(_, b). Inr (set_pb b s1)) = Inr s' \<and> mem_ok sl (pb (net s')) \<and>
      drivers s' = drivers s \<and> dropped sl ps (pb (net s)) (pb (net s'))"
    if s1: "mem_ok sl (pb (net s1))" "same_packets (pb (net s)) (pb (net s1))" "drivers s1 = drivers s"
      "refused sl s s1" for s1
  proof -
    have t: "taken sl (pools (pb (net s1))) = taken sl (pools (pb (net s)))" using s1(4) by (simp add: refused_def)
    note cong = sole_cong [OF s1(2) t]
    have so: "sole sl (pb (net s1)) p ps" using p cong(1) by simp
    obtain k b' where f: "pbuf_free p (pb (net s1)) = Inr (k, b')" "mem_ok sl b'" "live (heap b') = heap_minus (pb (net s1)) ps"
      "taken sl (pools b') = pool_minus sl (pb (net s1)) ps" "tcpip_mbox b' = tcpip_mbox (pb (net s1))"
      by (rule sole_free [OF s1(1) so])
    have "inbox b' = inbox (pb (net s))" using f(5) s1(4) by (simp add: refused_def inbox_def)
    then have "dropped sl ps (pb (net s)) b'" unfolding dropped_def f(3,4) cong by simp
    then show ?thesis using f(1,2) s1(3) by (intro exI [of _ "set_pb b' s1"]) simp
  qed
  show ?thesis
  proof (cases "ethertype (content (pb (net s)) ps) \<in> {net_bytes16 0x0800, net_bytes16 0x0806}")
    case True
    obtain e s1 where s1: "tcpip_input p n s = Inr (e, s1)" "mem_ok sl (pb (net s1))" "same_packets (pb (net s)) (pb (net s1))"
      "drivers s1 = drivers s" "e = ERR_OK \<longleftrightarrow> accepting sl (pb (net s))" "if e = ERR_OK then handed_over sl n p s s1 else refused sl s s1"
      using tcpip_input_safe [OF ok mb, of p n] by blast
    show ?thesis
    proof (cases "e = ERR_OK")
      case e: True
      then have "recv_pbuf n p s = Inr s1" using s1(1) True ty by (auto simp: recv_pbuf_def Let_def)
      then show ?thesis using s1 e True by auto
    next
      case False
      then have "recv_pbuf n p s = rbind (pbuf_free p (pb (net s1))) (\<lambda>(_, b). Inr (set_pb b s1))"
        using s1(1) True ty by (auto simp: recv_pbuf_def Let_def)
      then show ?thesis using drop [OF s1(2-4)] s1(5,6) False by auto
    qed
  next
    case False
    then have "recv_pbuf n p s = rbind (pbuf_free p (pb (net s))) (\<lambda>(_, b). Inr (set_pb b s))"
      using ty by (auto simp: recv_pbuf_def Let_def)
    moreover have "same_packets (pb (net s)) (pb (net s))" "refused sl s s" by (simp_all add: same_packets_def refused_def)
    ultimately obtain s' where "recv_pbuf n p s = Inr s'" "mem_ok sl (pb (net s'))" "drivers s' = drivers s"
      "dropped sl ps (pb (net s)) (pb (net s'))" using drop [OF ok] by auto
    then show ?thesis using False by auto
  qed
qed

section \<open>Properties\<close>

text \<open>
  A frame received from the decoder becomes a packet of the pbuf pool with exactly the bytes of the
  frame, in elements that were free before. It is lost when the free elements of the pool
  cannot hold it, and then no pbuf stays allocated; but the receiving loop takes this for the end of the
  decoder and ends, whatever frames follow.
\<close>

theorem fetch_frame_correct:
  assumes ok: "mem_ok sl (pb (net s))" and mb: "mbox_ready (pb (net s))"
    and flags: "\<forall>q \<in> set (sl MEMP_PBUF_POOL). \<not> is_custom (pbufs (pb (net s)) q)"
    and sp: "pool_spaced sl" and buf: "buffer_apart sl (recv_temp (drivers s n)) (length frame)"
    and r: "recv (decoder (drivers s n)) (recv_temp_len (drivers s n)) = (int (length frame), frame, dec)"
    and len: "frame \<noteq> []" "length frame < 65536"
  shows "\<exists>p s'. quiet_lwip_fetch_single_frame recv n s = Inr (p, s') \<and> decoder (drivers s' n) = dec \<and>
    (if p = 0
     then (pool_room sl (pools (pb (net s))) = 0 \<or> pool_room sl (pools (pb (net s))) < length frame) \<and>
       live (heap (pb (net s'))) = live (heap (pb (net s))) \<and>
       taken sl (pools (pb (net s'))) MEMP_PBUF_POOL = taken sl (pools (pb (net s))) MEMP_PBUF_POOL \<and>
       (\<forall>fuel. quiet_lwip_process_audio (Suc fuel) recv n s = Inr s')
     else \<exists>ps. packet (pb (net s')) p ps \<and> content (pb (net s')) ps = frame \<and>
       sole sl (pb (net s')) p ps \<and> set ps \<inter> taken sl (pools (pb (net s))) MEMP_PBUF_POOL = {})"
proof -
  define b where "b = (pb (net s))\<lparr>bytes := write_bytes (recv_temp (drivers s n)) frame (bytes (pb (net s)))\<rparr>"
  define s1 where "s1 = set_pb b (set_driver n (\<lambda>d. d\<lparr>decoder := dec\<rparr>) s)"
  have b: "mem_ok sl b" "mbox_ready b" "pools b = pools (pb (net s))" "heap b = heap (pb (net s))"
    "\<forall>q \<in> set (sl MEMP_PBUF_POOL). \<not> is_custom (pbufs b q)"
    using ok mb flags by (simp_all add: b_def mbox_ready_def)
  have data: "read_bytes (bytes b) (recv_temp (drivers s n)) (length frame) = frame"
    by (simp add: b_def read_write_same)
  have run: "quiet_lwip_fetch_single_frame recv n s =
      rbind (buf2pbuf (recv_temp (drivers s n)) (length frame) b) (\<lambda>(p, b). Inr (p, set_pb b s1))"
    using r len(1) by (simp add: quiet_lwip_fetch_single_frame_def Let_def s1_def b_def)
  from b(1,2) len(2) b(5) sp buf show ?thesis
  proof (cases rule: buf2pbuf_cases)
    case (none b')
    then have f: "quiet_lwip_fetch_single_frame recv n s = Inr (0, set_pb b' s1)" using run by simp
    then have "quiet_lwip_process_audio (Suc fuel) recv n s = Inr (set_pb b' s1)" for fuel by simp
    then show ?thesis
      using none(2,3) b(3,4) f by (intro exI [of _ 0] exI [of _ "set_pb b' s1"]) (simp add: alloc_undone_def s1_def)
  next
    case (some p b' ps)
    then have f: "quiet_lwip_fetch_single_frame recv n s = Inr (p, set_pb b' s1)" using run by simp
    have "packet b' p ps" "set ps \<inter> taken sl (pools b) MEMP_PBUF_POOL = {}" using some(3) by (auto simp: pool_packet_def)
    then show ?thesis
      using f some(2,4) data b(3) pool_packet_sole [OF some(3)]
      by (intro exI [of _ p] exI [of _ "set_pb b' s1"]) (auto simp: s1_def)
  qed
qed

text \<open>
  C8. A received packet is never leaked and never freed while the TCP/IP thread will use it: \<open>recv_pbuf\<close>
  posts it, unchanged, in a fresh message if its type is IP or ARP and the mailbox and the message pool
  have room, and otherwise releases every pbuf of it and leaves the mailbox alone.
\<close>

theorem recv_pbuf_correct:
  assumes "mem_ok sl (pb (net s))" "mbox_ready (pb (net s))" "sole sl (pb (net s)) p ps" "14 \<le> plen (pbufs (pb (net s)) p)"
  shows "\<exists>s'. recv_pbuf n p s = Inr s' \<and> mem_ok sl (pb (net s')) \<and>
    (if ethertype (content (pb (net s)) ps) \<in> {net_bytes16 0x0800, net_bytes16 0x0806} \<and> accepting sl (pb (net s))
     then same_packets (pb (net s)) (pb (net s')) \<and> handed_over sl n p s s'
     else dropped sl ps (pb (net s)) (pb (net s')))"
  using recv_pbuf_cases [OF assms, of n] by blast

text \<open>
  \<open>quiet_lwip_encode_frame\<close> hands to the encoder exactly the frame that \<open>linkoutput\<close> of the
  protocol modules sends, and writes exactly as many bytes from the start of the transmit buffer as the
  frame has. The buffer of a new driver has \<^verbatim>\<open>mtu\<close> bytes, but an IP packet of \<^verbatim>\<open>mtu\<close> bytes
  leaves as a frame of \<^verbatim>\<open>mtu + 14\<close> bytes: whatever is longer than the buffer overruns it.
\<close>

theorem encode_frame_correct:
  assumes p: "packet (pb (net s)) p ps"
    and apart: "dest_apart (pb (net s)) ps (send_temp (drivers s n)) (length (content (pb (net s)) ps))"
  shows "\<exists>s'. quiet_lwip_encode_frame n p s = Inr (ERR_OK, s') \<and>
    encoder (drivers s' n) = encoder (drivers s n) @ [content (pb (net s)) ps] \<and>
    wire (snd (linkoutput (\<lambda>_ _. ERR_OK) n p (net s))) = wire (net s) @ [(n, content (pb (net s)) ps)] \<and>
    packet (pb (net s')) p ps \<and> content (pb (net s')) ps = content (pb (net s)) ps \<and>
    (\<forall>a. bytes (pb (net s')) a =
       (if a \<in> {send_temp (drivers s n)..<send_temp (drivers s n) + length (content (pb (net s)) ps)}
        then content (pb (net s)) ps ! (a - send_temp (drivers s n)) else bytes (pb (net s)) a)) \<and>
    send_temp_len (new_driver dec snd_buf rcv_buf i) = unat (mtu i)"
proof -
  define b where "b = pb (net s)"
  define t where "t = send_temp (drivers s n)"
  define F where "F = content b ps"
  define b' where "b' = b\<lparr>bytes := write_bytes t F (bytes b)\<rparr>"
  define s' where "s' = set_driver n (\<lambda>d. d\<lparr>encoder := encoder d @ [F]\<rparr>) (set_pb b' s)"
  have c: "chain b p ps" "length ps < PBUF_MAX" "p \<noteq> 0" using p by (cases ps; auto simp: packet_def b_def)+
  have ap: "dest_apart b ps (t + 0) (length (content b ps))" using apart by (simp add: b_def t_def)
  have "pbuf2buf t p b = Inr (length F, b')"
    using pbuf2buf_loop_spec [OF c(1,2) ap] c(3) by (simp add: pbuf2buf_def pbuf_header_def F_def b'_def)
  moreover have "read_bytes (bytes b') t (length F) = F" by (simp add: b'_def read_write_same)
  ultimately have run: "quiet_lwip_encode_frame n p s = Inr (ERR_OK, s')"
    by (simp add: quiet_lwip_encode_frame_def Let_def b_def [symmetric] t_def [symmetric] s'_def)
  have cont: "content b' ps = F" unfolding b'_def F_def using ap by (intro content_write) simp
  then have "packet b' p ps" using p packet_bytes [where m = "write_bytes t F (bytes b)" and b = b and ps = ps and p = p] by (simp add: b'_def b_def F_def)
  moreover have "gather PBUF_MAX p b = F" unfolding F_def by (rule gather_chain [OF c(1,2)])
  ultimately show ?thesis
    unfolding b_def [symmetric] t_def [symmetric] F_def [symmetric]
    using run cont
    by (intro exI [of _ s']) (auto simp: s'_def b'_def write_bytes_def linkoutput_def Let_def b_def new_driver_def)
qed

section \<open>Instances\<close>

text \<open>A decoder that holds a list of frames, and a driver on the sample interface.\<close>

definition frames_recv :: "bytes list \<Rightarrow> nat \<Rightarrow> int \<times> bytes \<times> bytes list" where
  "frames_recv fs n = (case fs of [] \<Rightarrow> (0, [], []) | f # fs \<Rightarrow> (int (length f), f, fs))"

definition arp_frame :: bytes where
  "arp_frame = replicate 12 0 @ [8, 6] @ replicate 28 1"

definition drv_sample :: "pb_state \<Rightarrow> bytes list drv_state" where
  "drv_sample b = \<lparr>net = arp_sample b, inpkt = \<lambda>_. (0, 0),
     drivers = \<lambda>_. (new_driver [arp_frame] 50000 60000 (ifs (arp_sample b) 1))\<lparr>send_temp_len := 3\<rparr>\<rparr>"

lemma drv_sample_fields [simp]:
  "pb (net (drv_sample b)) = b" "send_temp (drivers (drv_sample b) n) = 50000" "recv_temp (drivers (drv_sample b) n) = 60000"
  "decoder (drivers (drv_sample b) n) = [arp_frame]"
  by (simp_all add: drv_sample_def new_driver_def arp_sample_def)

lemma sample_slots_ge: "x \<in> set (sample_slots i) \<Longrightarrow> 65536 \<le> x"
  using elems_bounds [of x "pool_base (\<lambda>_. 1102) 65536 memp_types i" 1102 "memp_num i"]
    pool_base_ge [of 65536 "\<lambda>_. 1102" memp_types i] by (simp add: slots_def)

lemma sample_spaced: "pool_spaced sample_slots" "a + n \<le> 65536 \<Longrightarrow> buffer_apart sample_slots a n"
proof -
  show "pool_spaced sample_slots"
    using slots_apart [of _ "\<lambda>_. 1102" 65536 MEMP_PBUF_POOL _ MEMP_PBUF_POOL] unfolding pool_spaced_def apart_def by blast
  show "a + n \<le> 65536 \<Longrightarrow> buffer_apart sample_slots a n"
    using sample_slots_ge [of _ MEMP_PBUF_POOL] unfolding buffer_apart_def apart_def by (meson order_trans)
qed

theorem fetch_frame_correct_witness:
  "\<exists>p s'. quiet_lwip_fetch_single_frame frames_recv 1 (drv_sample sample) = Inr (p, s') \<and> decoder (drivers s' 1) = []"
proof -
  define s where "s = drv_sample sample"
  have s: "pb (net s) = sample" "recv_temp (drivers s 1) = 60000" "decoder (drivers s 1) = [arp_frame]" by (simp_all add: s_def)
  have r: "frames_recv (decoder (drivers s 1)) (recv_temp_len (drivers s 1)) = (int (length arp_frame), arp_frame, [])"
    unfolding s by (simp add: frames_recv_def)
  have flags: "\<forall>q \<in> set (sample_slots MEMP_PBUF_POOL). \<not> is_custom (pbufs (pb (net s)) q)"
    unfolding s by (simp add: sample_def is_custom_def)
  have buf: "buffer_apart sample_slots (recv_temp (drivers s 1)) (length arp_frame)"
    unfolding s by (rule sample_spaced(2)) (simp add: arp_frame_def)
  have f: "arp_frame \<noteq> []" "length arp_frame < 65536" by (simp_all add: arp_frame_def)
  show ?thesis
    using fetch_frame_correct [where s = s and n = 1 and recv = frames_recv, OF _ _ flags sample_spaced(1) buf r f] sample_ok
    unfolding s s_def [symmetric] by blast
qed

theorem recv_pbuf_correct_witness:
  "\<exists>b s'. recv_pbuf 1 4102 (drv_sample b) = Inr s' \<and> mem_ok sample_slots (pb (net s')) \<and>
     (handed_over sample_slots 1 4102 (drv_sample b) s' \<or> inbox (pb (net s')) = inbox b)"
proof -
  obtain b where b: "mem_ok sample_slots b" "packet b 4102 [4102]" "solid sample_slots b [4102]" "length (content b [4102]) = 22"
    using sample_ram by blast
  define b1 where "b1 = b\<lparr>tcpip_mbox := Some (sys_mbox_new (\<lambda>_. 0))\<rparr>"
  have s: "pb (net (drv_sample b1)) = b1" by simp
  have same: "same_packets b b1" "taken sample_slots (pools b1) = taken sample_slots (pools b)"
    by (simp_all add: b1_def same_packets_def)
  have so: "sole sample_slots b1 4102 [4102]"
    unfolding sole_cong(1) [OF same] using b by (simp add: sole_def solid_def)
  have "mem_ok sample_slots b1" "mbox_ready b1" "14 \<le> plen (pbufs b1 4102)"
    using b by (simp_all add: b1_def mem_ok_def mbox_ready_def sys_mbox_new_def mbox_ok_def)
  from recv_pbuf_correct [of sample_slots "drv_sample b1" 4102 "[4102]" 1, unfolded s, OF this(1,2) so this(3)]
  show ?thesis unfolding dropped_def by (meson s)
qed

theorem encode_frame_correct_witness:
  "\<exists>s'. quiet_lwip_encode_frame 1 1000 (drv_sample sample) = Inr (ERR_OK, s') \<and>
     encoder (drivers s' 1) = [[97, 97, 97, 98]] \<and> send_temp_len (drivers (drv_sample sample) 1) = 3"
proof -
  define s where "s = drv_sample sample"
  have s: "pb (net s) = sample" "send_temp (drivers s 1) = 50000" "encoder (drivers s 1) = []" "send_temp_len (drivers s 1) = 3"
    by (simp_all add: s_def) (simp_all add: drv_sample_def new_driver_def)
  have a: "dest_apart (pb (net s)) [1000, 2000] (send_temp (drivers s 1)) (length (content (pb (net s)) [1000, 2000]))"
    unfolding s by (simp add: dest_apart_def apart_def) (simp add: sample_def)
  have "packet (pb (net s)) 1000 [1000, 2000]" unfolding s by (rule sample_packet(1))
  from encode_frame_correct [OF this a, of "[] :: bytes list" 0 0 "ifs (net s) 1"] obtain s' where
    "quiet_lwip_encode_frame 1 1000 s = Inr (ERR_OK, s')" "encoder (drivers s' 1) = [] @ [content sample [1000, 2000]]"
    unfolding s by blast
  then show ?thesis unfolding sample_packet(2) append_Nil using s(4) unfolding s_def by blast
qed

end
