(* ===== verification/Ip_Output.thy ===== *)
theory Ip_Output
  imports Autoip Inet_Chksum
begin

text \<open>
  The sending half of the IP layer: routing and \<^verbatim>\<open>ip_output\<close> of \<^verbatim>\<open>src/src/lwip/core/ipv4/ip.c\<close>,
  fragmentation of \<^verbatim>\<open>ip_frag.c\<close> and the error messages of \<^verbatim>\<open>icmp.c\<close>, with
  \<^verbatim>\<open>IP_FRAG_USES_STATIC_BUF\<close>, \<^verbatim>\<open>LWIP_NETIF_TX_SINGLE_PBUF\<close>, \<^verbatim>\<open>IP_OPTIONS_SEND\<close> and
  \<^verbatim>\<open>ENABLE_LOOPBACK\<close> off. The \<^verbatim>\<open>output\<close> function of an interface is \<open>etharp_output\<close>, as the driver of
  this repository sets it. Addresses are in network order; \<^verbatim>\<open>NULL\<close> and \<^verbatim>\<open>IP_ADDR_ANY\<close> as a source
  are both 0, and the destination \<^verbatim>\<open>IP_HDRINCL\<close> is None.
\<close>

abbreviation IP_HLEN :: nat where "IP_HLEN \<equiv> 20"
abbreviation IP_DF :: u16 where "IP_DF \<equiv> 0x4000"
abbreviation IP_MF :: u16 where "IP_MF \<equiv> 0x2000"
abbreviation IP_OFFMASK :: u16 where "IP_OFFMASK \<equiv> 0x1fff"
abbreviation IP_PROTO_ICMP :: u8 where "IP_PROTO_ICMP \<equiv> 1"
abbreviation IP_PROTO_UDP :: u8 where "IP_PROTO_UDP \<equiv> 17"
abbreviation IP_PROTO_TCP :: u8 where "IP_PROTO_TCP \<equiv> 6"
abbreviation ICMP_ER :: u8 where "ICMP_ER \<equiv> 0"
abbreviation ICMP_DUR :: u8 where "ICMP_DUR \<equiv> 3"
abbreviation ICMP_ECHO :: u8 where "ICMP_ECHO \<equiv> 8"
abbreviation ICMP_TE :: u8 where "ICMP_TE \<equiv> 11"
abbreviation ICMP_TTL :: u8 where "ICMP_TTL \<equiv> 255"
abbreviation SIZEOF_ICMP_ECHO_HDR :: nat where "SIZEOF_ICMP_ECHO_HDR \<equiv> 8"
abbreviation ICMP_DEST_UNREACH_DATASIZE :: nat where "ICMP_DEST_UNREACH_DATASIZE \<equiv> 8"

datatype icmp_dur_type = ICMP_DUR_NET | ICMP_DUR_HOST | ICMP_DUR_PROTO | ICMP_DUR_PORT | ICMP_DUR_FRAG | ICMP_DUR_SR
datatype icmp_te_type = ICMP_TE_TTL | ICMP_TE_FRAG

definition icmp_dur_code :: "icmp_dur_type \<Rightarrow> u8" where
  "icmp_dur_code t = (case t of ICMP_DUR_NET \<Rightarrow> 0 | ICMP_DUR_HOST \<Rightarrow> 1 | ICMP_DUR_PROTO \<Rightarrow> 2 | ICMP_DUR_PORT \<Rightarrow> 3
     | ICMP_DUR_FRAG \<Rightarrow> 4 | ICMP_DUR_SR \<Rightarrow> 5)"

definition icmp_te_code :: "icmp_te_type \<Rightarrow> u8" where
  "icmp_te_code t = (case t of ICMP_TE_TTL \<Rightarrow> 0 | ICMP_TE_FRAG \<Rightarrow> 1)"

section \<open>State\<close>

text \<open>
  A datagram under reassembly, and what \<^verbatim>\<open>struct ip_reass_helper\<close> stores over the IP header of each
  of its fragments. The overlay is kept apart from the bytes, by pbuf: nothing reads the header it
  covers before the header is copied back.
\<close>

record ip_reassdata =
  rnext :: nat
  rp :: nat
  riphdr :: bytes
  datagram_len :: nat
  rlast :: bool
  rtimer :: nat

record ip_reass_helper =
  next_pbuf :: nat
  fstart :: nat
  fend :: nat

record ip_state =
  arp :: arp_state
  ip_id :: u16
  reassdatagrams :: nat
  reass :: "nat \<Rightarrow> ip_reassdata"
  helper :: "nat \<Rightarrow> ip_reass_helper"
  ip_reass_pbufcount :: nat
  current_netif :: nat
  current_header :: nat
  current_src :: u32
  current_dest :: u32

text \<open>The protocols above IP extend this state; what IP does is defined for every extension.\<close>

type_synonym 'a ip_like = "'a ip_state_scheme"

definition set_arp :: "arp_state \<Rightarrow> 'a ip_like \<Rightarrow> 'a ip_like" where
  "set_arp a s = s\<lparr>arp := a\<rparr>"

definition on_arp :: "arp_state res \<Rightarrow> 'a ip_like \<Rightarrow> 'a ip_like res" where
  "on_arp r s = rbind r (\<lambda>a. Inr (set_arp a s))"

definition set_pbs :: "pb_state \<Rightarrow> arp_state \<Rightarrow> arp_state" where
  "set_pbs b a = a\<lparr>pb := b\<rparr>"

text \<open>A byte, and a \<^verbatim>\<open>u16_t\<close> on the little-endian host, loaded from a packet.\<close>

definition field_u8 :: "nat \<Rightarrow> nat \<Rightarrow> arp_state \<Rightarrow> u8" where
  "field_u8 p off s = bytes (pb s) (payload (pbufs (pb s) p) + off)"

definition field_u16 :: "nat \<Rightarrow> nat \<Rightarrow> arp_state \<Rightarrow> u16" where
  "field_u16 p off s =
     (let m = bytes (pb s); a = payload (pbufs (pb s) p) + off in ucast (m a) OR push_bit 8 (ucast (m (a + 1))))"

section \<open>Routing\<close>

text \<open>The loop over the interfaces: the first up interface on the network of \<open>dest\<close>, else \<^verbatim>\<open>same_addr\<close>.\<close>

primrec route_loop :: "nat \<Rightarrow> nat \<Rightarrow> nat \<Rightarrow> u32 \<Rightarrow> arp_state \<Rightarrow> nat res" where
  "route_loop 0 n same dest s = Inl No_Fuel"
| "route_loop (Suc fuel) n same dest s =
     (if n = 0 then Inr same
      else if netif_is_up n s then
        (if dest = ip_addr (ifs s n) then route_loop fuel (nif_next (ifs s n)) n dest s
         else if ip_addr_netcmp dest (ip_addr (ifs s n)) (netmask (ifs s n)) then Inr n
         else route_loop fuel (nif_next (ifs s n)) same dest s)
      else route_loop fuel (nif_next (ifs s n)) same dest s)"

definition ip_route :: "u32 \<Rightarrow> arp_state \<Rightarrow> nat res" where
  "ip_route dest s =
     rbind (route_loop NETIF_MAX (netif_list s) 0 dest s) (\<lambda>r.
       if r \<noteq> 0 then Inr r
       else if netif_default s = 0 \<or> \<not> netif_is_up (netif_default s) s then Inr 0
       else Inr (netif_default s))"

section \<open>Fragmentation\<close>

text \<open>
  The inner loop of \<^verbatim>\<open>ip_frag\<close>, which appends references to the pbufs of the packet to \<open>rambuf\<close>. It ends
  with the pbuf and the length it stopped at, or with an error that \<^verbatim>\<open>ip_frag\<close> returns.
\<close>

primrec frag_copy :: "nat \<Rightarrow> nat \<Rightarrow> nat \<Rightarrow> nat \<Rightarrow> nat \<Rightarrow> pb_state \<Rightarrow> ((err_t + nat \<times> nat) \<times> pb_state) res" where
  "frag_copy 0 rambuf p left newpbuflen b = Inl No_Fuel"
| "frag_copy (Suc fuel) rambuf p left newpbuflen b =
     (let give_up = (\<lambda>e b. rbind (pbuf_free rambuf b) (\<lambda>(_, b). Inr (Inl e, b))) in
      if left = 0 then Inr (Inr (p, newpbuflen), b)
      else if p = 0 then give_up ERR_VAL b
      else
        let n = (if left < plen (pbufs b p) then left else plen (pbufs b p)) in
        if n = 0 then frag_copy fuel rambuf (pnext (pbufs b p)) left n b
        else
          rbind (memp_malloc MEMP_FRAG_PBUF (pools b)) (\<lambda>(pcr, ps).
            let b = b\<lparr>pools := ps\<rparr> in
            if pcr = 0 then give_up ERR_MEM b
            else
              let (newpbuf, b) = pbuf_alloced_custom PBUF_RAW n PBUF_REF pcr (payload (pbufs b p)) n b in
              if newpbuf = 0 then give_up ERR_MEM (b\<lparr>pools := memp_free MEMP_FRAG_PBUF pcr (pools b)\<rparr>)
              else
                let b = pbuf_ref p b; b = b\<lparr>custom := (custom b)(pcr := Some p)\<rparr> in
                rbind (pbuf_cat rambuf newpbuf b) (\<lambda>b.
                  frag_copy fuel rambuf (if left - n \<noteq> 0 then pnext (pbufs b p) else p) (left - n) n b)))"

text \<open>The changed fields of a fragment's header: offset and flags, length, checksum.\<close>

definition frag_header :: "nat \<Rightarrow> u16 \<Rightarrow> nat \<Rightarrow> arp_state \<Rightarrow> arp_state" where
  "frag_header rambuf tmp cop s =
     (let s = store rambuf 6 (net_bytes16 tmp) s;
          s = store rambuf 2 (net_bytes16 (word_of_nat (cop + IP_HLEN))) s;
          s = store rambuf 10 [0, 0] s
      in store rambuf 10 (host_bytes16 (word_of_nat (inet_chksum (payload (pbufs (pb s) rambuf)) IP_HLEN (pb s)))) s)"

text \<open>
  The outer loop, one round per fragment. \<open>iph\<close> is the address of the original header; \<open>poff\<close> is
  taken off the front of \<open>p\<close> in each round.
\<close>

primrec frag_loop ::
    "nat \<Rightarrow> (nat \<Rightarrow> bytes \<Rightarrow> err_t) \<Rightarrow> nat \<Rightarrow> u32 \<Rightarrow> nat \<Rightarrow> u16 \<Rightarrow> nat \<Rightarrow> nat \<Rightarrow> nat \<Rightarrow> u16 \<Rightarrow> arp_state \<Rightarrow> (err_t \<times> arp_state) res" where
  "frag_loop 0 link n dest iph omf p left poff ofo s = Inl No_Fuel"
| "frag_loop (Suc fuel) link n dest iph omf p left poff ofo s =
     (if left = 0 then Inr (ERR_OK, s)
      else
        let room = unat (mtu (ifs s n)) - IP_HLEN; nfb = room div 8;
            last = (left \<le> room);
            tmp = omf OR (IP_OFFMASK AND ofo);
            tmp = (if \<not> last then tmp OR IP_MF else tmp);
            cop = (if last then left else nfb * 8) in
        rbind (pbuf_alloc PBUF_LINK IP_HLEN PBUF_RAM (pb s)) (\<lambda>(rambuf, b).
          if rambuf = 0 then Inr (ERR_MEM, set_pbs b s)
          else if \<not> plen (pbufs b p) \<ge> IP_HLEN then Inl Abort
          else
            let b = memcpy (payload (pbufs b rambuf)) iph IP_HLEN b;
                b = upd p (\<lambda>q. q\<lparr>payload := payload q + poff, plen := u16_of (int (plen q) - int poff)\<rparr>) b in
            rbind (frag_copy (2 * PBUF_MAX) rambuf p cop 0 b) (\<lambda>(r, b).
              case r of
                Inl e \<Rightarrow> Inr (e, set_pbs b s)
              | Inr (p, newpbuflen) \<Rightarrow>
                  rbind (etharp_output link n rambuf dest (frag_header rambuf tmp cop (set_pbs b s))) (\<lambda>(_, s).
                  rbind (free_pbuf rambuf s) (\<lambda>s.
                    frag_loop fuel link n dest iph omf p (left - cop) newpbuflen (ofo + word_of_nat nfb) s)))))"

text \<open>Every round sends at least 8 bytes, so 8193 rounds are enough.\<close>

definition ip_frag :: "(nat \<Rightarrow> bytes \<Rightarrow> err_t) \<Rightarrow> nat \<Rightarrow> nat \<Rightarrow> u32 \<Rightarrow> arp_state \<Rightarrow> (err_t \<times> arp_state) res" where
  "ip_frag link p n dest s =
     (if unat (mtu (ifs s n)) < IP_HLEN + 8 then Inr (ERR_VAL, s)
      else
        let tmp = lwip_ntohs (field_u16 p 6 s)
        in frag_loop 8193 link n dest (payload (pbufs (pb s) p)) (tmp AND IP_MF) p
             (u16_of (int (tot_len (pbufs (pb s) p)) - int IP_HLEN)) IP_HLEN (tmp AND IP_OFFMASK) s)"

section \<open>Output\<close>

definition LWIP_MAKE_U16 :: "u8 \<Rightarrow> u8 \<Rightarrow> u32" where
  "LWIP_MAKE_U16 a b = push_bit 8 (ucast a) OR ucast b"

text \<open>The header \<^verbatim>\<open>ip_output_if\<close> generates in front of \<open>p\<close>, with its checksum computed on the way.\<close>

definition generate_header :: "nat \<Rightarrow> u32 \<Rightarrow> u32 \<Rightarrow> u8 \<Rightarrow> u8 \<Rightarrow> u8 \<Rightarrow> nat \<Rightarrow> u16 \<Rightarrow> arp_state \<Rightarrow> arp_state" where
  "generate_header p src dest ttl tos proto n ident s =
     (let len = lwip_htons (word_of_nat (tot_len (pbufs (pb s) p)));
          ident = lwip_htons ident;
          src = (if src = IPADDR_ANY then ip_addr (ifs s n) else src);
          s = store p 8 [ttl] s;
          s = store p 9 [proto] s;
          chk_sum = LWIP_MAKE_U16 proto ttl;
          s = store p 16 (host_bytes32 dest) s;
          chk_sum = chk_sum + (dest AND 0xffff);
          chk_sum = chk_sum + drop_bit 16 dest;
          s = store p 0 [0x45] s;
          s = store p 1 [tos] s;
          chk_sum = chk_sum + LWIP_MAKE_U16 tos 0x45;
          s = store p 2 (host_bytes16 len) s;
          chk_sum = chk_sum + ucast len;
          s = store p 6 [0, 0] s;
          s = store p 4 (host_bytes16 ident) s;
          chk_sum = chk_sum + ucast ident;
          s = store p 12 (host_bytes32 src) s;
          chk_sum = chk_sum + (src AND 0xffff);
          chk_sum = chk_sum + drop_bit 16 src;
          chk_sum = drop_bit 16 chk_sum + (chk_sum AND 0xffff);
          chk_sum = drop_bit 16 chk_sum + chk_sum;
          chk_sum = NOT chk_sum
      in store p 10 (host_bytes16 (ucast chk_sum)) s)"

text \<open>Handing the finished packet to the interface, in fragments if it is too long.\<close>

definition send_packet :: "(nat \<Rightarrow> bytes \<Rightarrow> err_t) \<Rightarrow> nat \<Rightarrow> u32 \<Rightarrow> nat \<Rightarrow> arp_state \<Rightarrow> (err_t \<times> arp_state) res" where
  "send_packet link p dest n s =
     (if mtu (ifs s n) \<noteq> 0 \<and> tot_len (pbufs (pb s) p) > unat (mtu (ifs s n)) then ip_frag link p n dest s
      else etharp_output link n p dest s)"

definition ip_output_if ::
    "(nat \<Rightarrow> bytes \<Rightarrow> err_t) \<Rightarrow> nat \<Rightarrow> u32 \<Rightarrow> u32 option \<Rightarrow> u8 \<Rightarrow> u8 \<Rightarrow> u8 \<Rightarrow> nat \<Rightarrow> 'a ip_like \<Rightarrow> (err_t \<times> 'a ip_like) res" where
  "ip_output_if link p src dest ttl tos proto n s =
     (let finish = (\<lambda>dest s. rbind (send_packet link p dest n (arp s)) (\<lambda>(e, a). Inr (e, set_arp a s))) in
      if ref (pbufs (pb (arp s)) p) \<noteq> 1 then Inl Abort
      else case dest of
        Some d \<Rightarrow>
          rbind (pbuf_header p (int IP_HLEN) (pb (arp s))) (\<lambda>(failed, b).
            let s = set_arp (set_pbs b (arp s)) s in
            if failed then Inr (ERR_BUF, s)
            else if \<not> plen (pbufs b p) \<ge> IP_HLEN then Inl Abort
            else finish d ((set_arp (generate_header p src d ttl tos proto n (ip_id s) (arp s)) s)\<lparr>ip_id := ip_id s + 1\<rparr>))
      | None \<Rightarrow> finish (field_u32 p 16 (arp s)) s)"

definition ip_output ::
    "(nat \<Rightarrow> bytes \<Rightarrow> err_t) \<Rightarrow> nat \<Rightarrow> u32 \<Rightarrow> u32 \<Rightarrow> u8 \<Rightarrow> u8 \<Rightarrow> u8 \<Rightarrow> 'a ip_like \<Rightarrow> (err_t \<times> 'a ip_like) res" where
  "ip_output link p src dest ttl tos proto s =
     (if ref (pbufs (pb (arp s)) p) \<noteq> 1 then Inl Abort
      else rbind (ip_route dest (arp s)) (\<lambda>n.
        if n = 0 then Inr (ERR_RTE, s) else ip_output_if link p src (Some dest) ttl tos proto n s))"

section \<open>ICMP errors\<close>

definition icmp_send_response :: "(nat \<Rightarrow> bytes \<Rightarrow> err_t) \<Rightarrow> nat \<Rightarrow> u8 \<Rightarrow> u8 \<Rightarrow> 'a ip_like \<Rightarrow> 'a ip_like res" where
  "icmp_send_response link p type code s =
     rbind (pbuf_alloc PBUF_IP (SIZEOF_ICMP_ECHO_HDR + IP_HLEN + ICMP_DEST_UNREACH_DATASIZE) PBUF_RAM (pb (arp s))) (\<lambda>(q, b).
       let a = set_pbs b (arp s) in
       if q = 0 then Inr (set_arp a s)
       else if \<not> plen (pbufs b q) \<ge> SIZEOF_ICMP_ECHO_HDR + IP_HLEN + ICMP_DEST_UNREACH_DATASIZE then Inl Abort
       else
         let a = store q 0 [type] a;
             a = store q 1 [code] a;
             a = store q 4 [0, 0] a;
             a = store q 6 [0, 0] a;
             a = set_pbs (memcpy (payload (pbufs b q) + SIZEOF_ICMP_ECHO_HDR) (payload (pbufs b p))
                   (IP_HLEN + ICMP_DEST_UNREACH_DATASIZE) (pb a)) a;
             a = store q 2 [0, 0] a;
             a = store q 2 (host_bytes16 (word_of_nat (inet_chksum (payload (pbufs b q)) (plen (pbufs b q)) (pb a)))) a
         in rbind (ip_output link q IPADDR_ANY (field_u32 p 12 a) ICMP_TTL 0 IP_PROTO_ICMP (set_arp a s)) (\<lambda>(_, s).
              on_arp (free_pbuf q (arp s)) s))"

definition icmp_dest_unreach :: "(nat \<Rightarrow> bytes \<Rightarrow> err_t) \<Rightarrow> nat \<Rightarrow> icmp_dur_type \<Rightarrow> 'a ip_like \<Rightarrow> 'a ip_like res" where
  "icmp_dest_unreach link p t s = icmp_send_response link p ICMP_DUR (icmp_dur_code t) s"

definition icmp_time_exceeded :: "(nat \<Rightarrow> bytes \<Rightarrow> err_t) \<Rightarrow> nat \<Rightarrow> icmp_te_type \<Rightarrow> 'a ip_like \<Rightarrow> 'a ip_like res" where
  "icmp_time_exceeded link p t s = icmp_send_response link p ICMP_TE (icmp_te_code t) s"

end
