(* ===== verification/Ip_Reass.thy ===== *)
theory Ip_Reass
  imports Ip_Output
begin

text \<open>
  Reassembly in \<^verbatim>\<open>src/src/lwip/core/ipv4/ip_frag.c\<close> (\<^verbatim>\<open>IP_REASS_CHECK_OVERLAP\<close> and
  \<^verbatim>\<open>IP_REASS_FREE_OLDEST\<close> on). The queue of datagrams is linked through \<open>rnext\<close>, the fragments of
  a datagram through \<open>next_pbuf\<close>; \<^verbatim>\<open>flags\<close> has one bit, \<open>rlast\<close>. Walks have the fuel of their lists: at most
  \<^verbatim>\<open>MEMP_NUM_REASSDATA\<close> datagrams and \<^verbatim>\<open>IP_REASS_MAX_PBUFS\<close> pbufs are queued.
\<close>

abbreviation IP_REASS_MAXAGE :: nat where "IP_REASS_MAXAGE \<equiv> 3"
abbreviation IP_REASS_MAX_PBUFS :: nat where "IP_REASS_MAX_PBUFS \<equiv> 10"
abbreviation REASS_MAX :: nat where "REASS_MAX \<equiv> 64"

definition set_reass :: "nat \<Rightarrow> (ip_reassdata \<Rightarrow> ip_reassdata) \<Rightarrow> 'a ip_like \<Rightarrow> 'a ip_like" where
  "set_reass r f s = s\<lparr>reass := (reass s)(r := f (reass s r))\<rparr>"

definition set_helper :: "nat \<Rightarrow> (ip_reass_helper \<Rightarrow> ip_reass_helper) \<Rightarrow> 'a ip_like \<Rightarrow> 'a ip_like" where
  "set_helper p f s = s\<lparr>helper := (helper s)(p := f (helper s p))\<rparr>"

text \<open>\<^verbatim>\<open>src\<close>, \<^verbatim>\<open>dest\<close> and \<^verbatim>\<open>_id\<close> of two headers.\<close>

definition IP_ADDRESSES_AND_ID_MATCH :: "bytes \<Rightarrow> bytes \<Rightarrow> bool" where
  "IP_ADDRESSES_AND_ID_MATCH a b \<longleftrightarrow>
     take 4 (drop 12 a) = take 4 (drop 12 b) \<and> take 4 (drop 16 a) = take 4 (drop 16 b) \<and> take 2 (drop 4 a) = take 2 (drop 4 b)"

definition header_u16 :: "bytes \<Rightarrow> nat \<Rightarrow> u16" where
  "header_u16 h off = ucast (h ! off) OR push_bit 8 (ucast (h ! (off + 1)))"

definition release_pbuf :: "nat \<Rightarrow> 'a ip_like \<Rightarrow> 'a ip_like res" where
  "release_pbuf p s = on_arp (free_pbuf p (arp s)) s"

definition count_pbufs :: "nat \<Rightarrow> 'a ip_like \<Rightarrow> nat res" where
  "count_pbufs p s = pbuf_clen p (pb (arp s))"

section \<open>Freeing datagrams\<close>

definition ip_reass_dequeue_datagram :: "nat \<Rightarrow> nat \<Rightarrow> 'a ip_like \<Rightarrow> 'a ip_like res" where
  "ip_reass_dequeue_datagram ipr prev s =
     rbind
       (if reassdatagrams s = ipr then Inr (s\<lparr>reassdatagrams := rnext (reass s ipr)\<rparr>)
        else if prev = 0 then Inl Abort
        else Inr (set_reass prev (\<lambda>r. r\<lparr>rnext := rnext (reass s ipr)\<rparr>) s))
       (\<lambda>s. Inr (set_arp (set_pbs ((pb (arp s))\<lparr>pools := memp_free MEMP_REASSDATA ipr (pools (pb (arp s)))\<rparr>) (arp s)) s))"

text \<open>The loop that frees the queued pbufs one by one, adding up their number.\<close>

primrec free_frags :: "nat \<Rightarrow> nat \<Rightarrow> nat \<Rightarrow> 'a ip_like \<Rightarrow> (nat \<times> 'a ip_like) res" where
  "free_frags 0 p freed s = Inl No_Fuel"
| "free_frags (Suc fuel) p freed s =
     (if p = 0 then Inr (freed, s)
      else
        let q = next_pbuf (helper s p) in
        rbind (count_pbufs p s) (\<lambda>clen.
          if \<not> freed + clen \<le> 0xffff then Inl Abort
          else rbind (release_pbuf p s) (free_frags fuel q (freed + clen))))"

definition ip_reass_free_complete_datagram ::
    "(nat \<Rightarrow> bytes \<Rightarrow> err_t) \<Rightarrow> nat \<Rightarrow> nat \<Rightarrow> 'a ip_like \<Rightarrow> (nat \<times> 'a ip_like) res" where
  "ip_reass_free_complete_datagram link ipr prev s =
     (if prev = ipr then Inl Abort
      else if prev \<noteq> 0 \<and> rnext (reass s prev) \<noteq> ipr then Inl Abort
      else if rp (reass s ipr) = 0 then Inl Bad_Deref
      else
        rbind
          (if fstart (helper s (rp (reass s ipr))) = 0 then
             let p = rp (reass s ipr);
                 s = set_reass ipr (\<lambda>r. r\<lparr>rp := next_pbuf (helper s p)\<rparr>) s;
                 s = set_arp (store p 0 (riphdr (reass s ipr)) (arp s)) s in
             rbind (icmp_time_exceeded link p ICMP_TE_FRAG s) (\<lambda>s.
             rbind (count_pbufs p s) (\<lambda>clen.
               if \<not> clen \<le> 0xffff then Inl Abort
               else rbind (release_pbuf p s) (\<lambda>s. Inr (clen, s))))
           else Inr (0, s))
          (\<lambda>(freed, s).
        rbind (free_frags REASS_MAX (rp (reass s ipr)) freed s) (\<lambda>(freed, s).
        rbind (ip_reass_dequeue_datagram ipr prev s) (\<lambda>s.
          if \<not> ip_reass_pbufcount s \<ge> freed then Inl Abort
          else Inr (freed, s\<lparr>ip_reass_pbufcount := ip_reass_pbufcount s - freed\<rparr>)))))"

primrec reass_tmr_loop :: "nat \<Rightarrow> (nat \<Rightarrow> bytes \<Rightarrow> err_t) \<Rightarrow> nat \<Rightarrow> nat \<Rightarrow> 'a ip_like \<Rightarrow> 'a ip_like res" where
  "reass_tmr_loop 0 link r prev s = Inl No_Fuel"
| "reass_tmr_loop (Suc fuel) link r prev s =
     (if r = 0 then Inr s
      else if rtimer (reass s r) > 0
      then reass_tmr_loop fuel link (rnext (reass s r)) r (set_reass r (\<lambda>d. d\<lparr>rtimer := rtimer d - 1\<rparr>) s)
      else
        let nxt = rnext (reass s r) in
        rbind (ip_reass_free_complete_datagram link r prev s) (\<lambda>(_, s). reass_tmr_loop fuel link nxt prev s))"

definition ip_reass_tmr :: "(nat \<Rightarrow> bytes \<Rightarrow> err_t) \<Rightarrow> 'a ip_like \<Rightarrow> 'a ip_like res" where
  "ip_reass_tmr link s = reass_tmr_loop REASS_MAX link (reassdatagrams s) 0 s"

text \<open>
  The search of \<^verbatim>\<open>ip_reass_remove_oldest_datagram\<close>: the oldest datagram the fragment does not belong to,
  the last but one entry of the whole queue, and the number of other datagrams.
\<close>

primrec oldest_scan :: "nat \<Rightarrow> nat \<Rightarrow> bytes \<Rightarrow> nat \<Rightarrow> nat \<Rightarrow> nat \<Rightarrow> (nat \<Rightarrow> ip_reassdata) \<Rightarrow> (nat \<times> nat \<times> nat) res" where
  "oldest_scan 0 r fraghdr oldest prev others R = Inl No_Fuel"
| "oldest_scan (Suc fuel) r fraghdr oldest prev others R =
     (if r = 0 then Inr (oldest, prev, others)
      else
        let other = (\<not> IP_ADDRESSES_AND_ID_MATCH (riphdr (R r)) fraghdr);
            oldest = (if other \<and> (oldest = 0 \<or> rtimer (R r) \<le> rtimer (R oldest)) then r else oldest);
            others = (if other then others + 1 else others);
            prev = (if rnext (R r) \<noteq> 0 then r else prev)
        in oldest_scan fuel (rnext (R r)) fraghdr oldest prev others R)"

primrec remove_oldest_loop ::
    "nat \<Rightarrow> (nat \<Rightarrow> bytes \<Rightarrow> err_t) \<Rightarrow> bytes \<Rightarrow> nat \<Rightarrow> nat \<Rightarrow> 'a ip_like \<Rightarrow> (nat \<times> 'a ip_like) res" where
  "remove_oldest_loop 0 link fraghdr needed freed s = Inl No_Fuel"
| "remove_oldest_loop (Suc fuel) link fraghdr needed freed s =
     rbind (oldest_scan REASS_MAX (reassdatagrams s) fraghdr 0 0 0 (reass s)) (\<lambda>(oldest, prev, others).
     rbind (if oldest \<noteq> 0
            then rbind (ip_reass_free_complete_datagram link oldest prev s) (\<lambda>(k, s). Inr (freed + k, s))
            else Inr (freed, s)) (\<lambda>(freed, s).
       if freed < needed \<and> others > 1 then remove_oldest_loop fuel link fraghdr needed freed s else Inr (freed, s)))"

definition ip_reass_remove_oldest_datagram ::
    "(nat \<Rightarrow> bytes \<Rightarrow> err_t) \<Rightarrow> bytes \<Rightarrow> nat \<Rightarrow> 'a ip_like \<Rightarrow> (nat \<times> 'a ip_like) res" where
  "ip_reass_remove_oldest_datagram link fraghdr needed s = remove_oldest_loop REASS_MAX link fraghdr needed 0 s"

section \<open>Queueing fragments\<close>

text \<open>The new entry, or 0 if there is no memory for it.\<close>

definition ip_reass_enqueue_new_datagram ::
    "(nat \<Rightarrow> bytes \<Rightarrow> err_t) \<Rightarrow> bytes \<Rightarrow> nat \<Rightarrow> 'a ip_like \<Rightarrow> (nat \<times> 'a ip_like) res" where
  "ip_reass_enqueue_new_datagram link fraghdr clen s =
     (let alloc = (\<lambda>s. rbind (memp_malloc MEMP_REASSDATA (pools (pb (arp s)))) (\<lambda>(ipr, ps).
            Inr (ipr, set_arp (set_pbs ((pb (arp s))\<lparr>pools := ps\<rparr>) (arp s)) s))) in
      rbind (alloc s) (\<lambda>(ipr, s).
      rbind (if ipr = 0
             then rbind (ip_reass_remove_oldest_datagram link fraghdr clen s) (\<lambda>(freed, s).
               if freed \<ge> clen then alloc s else Inr (0, s))
             else Inr (ipr, s)) (\<lambda>(ipr, s).
        if ipr = 0 then Inr (0, s)
        else Inr (ipr, (set_reass ipr (\<lambda>_. \<lparr>rnext = reassdatagrams s, rp = 0, riphdr = fraghdr, datagram_len = 0, rlast = False,
               rtimer = IP_REASS_MAXAGE\<rparr>) s)\<lparr>reassdatagrams := ipr\<rparr>))))"

text \<open>The helper of the fragment in pbuf \<open>p\<close>: the range of the datagram it covers, in \<^verbatim>\<open>u16_t\<close> arithmetic.\<close>

definition frag_range :: "nat \<Rightarrow> arp_state \<Rightarrow> ip_reass_helper" where
  "frag_range p a =
     (let offset = unat (lwip_ntohs (field_u16 p 6 a) AND IP_OFFMASK) * 8;
          len = u16_of (int (unat (lwip_ntohs (field_u16 p 2 a))) - int (unat (field_u8 p 0 a AND 0x0f) * 4))
      in \<lparr>next_pbuf = 0, fstart = offset, fend = u16_of (int offset + int len)\<rparr>)"

text \<open>
  Where a fragment \<open>h\<close> goes in the list of fragments: it overlaps and is dropped, it goes before the
  pbuf \<open>q\<close> (behind \<open>prev\<close>, or first if that is 0), or to the end. \<open>valid\<close> tells whether the
  fragments passed so far have no holes.
\<close>

datatype frag_place = Drop | Before nat nat | At_End nat

primrec find_place :: "nat \<Rightarrow> nat \<Rightarrow> nat \<Rightarrow> bool \<Rightarrow> ip_reass_helper \<Rightarrow> (nat \<Rightarrow> ip_reass_helper) \<Rightarrow> (frag_place \<times> bool) res" where
  "find_place 0 q prev valid h H = Inl No_Fuel"
| "find_place (Suc fuel) q prev valid h H =
     (if q = 0 then Inr (At_End prev, valid)
      else if fstart h < fstart (H q) then
        (if prev \<noteq> 0 \<and> (fstart h < fend (H prev) \<or> fend h > fstart (H q)) then Inr (Drop, valid)
         else Inr (Before q prev, valid))
      else if fstart h = fstart (H q) then Inr (Drop, valid)
      else if fstart h < fend (H q) then Inr (Drop, valid)
      else find_place fuel (next_pbuf (H q)) q (if prev \<noteq> 0 \<and> fend (H prev) \<noteq> fstart (H q) then False else valid) h H)"

text \<open>The loop that looks for holes behind \<open>p\<close>; it ends with the last pbuf it looked at.\<close>

primrec no_holes :: "nat \<Rightarrow> nat \<Rightarrow> (nat \<Rightarrow> ip_reass_helper) \<Rightarrow> (bool \<times> nat) res" where
  "no_holes 0 p H = Inl No_Fuel"
| "no_holes (Suc fuel) p H =
     (let q = next_pbuf (H p) in
      if q = 0 then Inr (True, p)
      else if fend (H p) \<noteq> fstart (H q) then Inr (False, q)
      else no_holes fuel q H)"

definition validate_datagram :: "nat \<Rightarrow> nat \<Rightarrow> bool \<Rightarrow> 'a ip_like \<Rightarrow> bool res" where
  "validate_datagram ipr new_p valid s =
     (if rlast (reass s ipr) then
        (if \<not> valid then Inr False
         else if fstart (helper s (rp (reass s ipr))) \<noteq> 0 then Inr False
         else
           rbind (no_holes REASS_MAX new_p (helper s)) (\<lambda>(ok, l).
             if \<not> ok then Inr False
             else if rp (reass s ipr) = 0 \<or> rp (reass s ipr) = l \<or> next_pbuf (helper s l) \<noteq> 0 \<or>
               fend (helper s l) \<noteq> datagram_len (reass s ipr) then Inl Abort
             else Inr True))
      else Inr False)"

definition ip_reass_chain_frag_into_datagram_and_validate :: "nat \<Rightarrow> nat \<Rightarrow> 'a ip_like \<Rightarrow> (bool \<times> 'a ip_like) res" where
  "ip_reass_chain_frag_into_datagram_and_validate ipr new_p s =
     (let h = frag_range new_p (arp s);
          s = set_helper new_p (\<lambda>_. h) s
      in
        rbind (find_place REASS_MAX (rp (reass s ipr)) 0 True h (helper s)) (\<lambda>(place, valid).
          case place of
            Drop \<Rightarrow>
              rbind (count_pbufs new_p s) (\<lambda>clen.
              rbind (release_pbuf new_p (s\<lparr>ip_reass_pbufcount := u16_of (int (ip_reass_pbufcount s) - int clen)\<rparr>)) (\<lambda>s.
                Inr (False, s)))
          | Before q prev \<Rightarrow>
              let s = set_helper new_p (\<lambda>x. x\<lparr>next_pbuf := q\<rparr>) s;
                  s = (if prev \<noteq> 0 then set_helper prev (\<lambda>x. x\<lparr>next_pbuf := new_p\<rparr>) s
                       else set_reass ipr (\<lambda>r. r\<lparr>rp := new_p\<rparr>) s)
              in rbind (validate_datagram ipr new_p valid s) (\<lambda>v. Inr (v, s))
          | At_End prev \<Rightarrow>
              if prev \<noteq> 0 then
                if \<not> fend (helper s prev) \<le> fstart h then Inl Abort
                else
                  let valid = (if fend (helper s prev) \<noteq> fstart h then False else valid);
                      s = set_helper prev (\<lambda>x. x\<lparr>next_pbuf := new_p\<rparr>) s
                  in rbind (validate_datagram ipr new_p valid s) (\<lambda>v. Inr (v, s))
              else if rp (reass s ipr) \<noteq> 0 then Inl Abort
              else
                let s = set_reass ipr (\<lambda>r. r\<lparr>rp := new_p\<rparr>) s
                in rbind (validate_datagram ipr new_p valid s) (\<lambda>v. Inr (v, s))))"

section \<open>Reassembly\<close>

text \<open>Chaining the fragments behind the first one, each without its IP header.\<close>

primrec chain_frags :: "nat \<Rightarrow> nat \<Rightarrow> nat \<Rightarrow> 'a ip_like \<Rightarrow> 'a ip_like res" where
  "chain_frags 0 p r s = Inl No_Fuel"
| "chain_frags (Suc fuel) p r s =
     (if r = 0 then Inr s
      else
        rbind (pbuf_header r (- int IP_HLEN) (pb (arp s))) (\<lambda>(_, b).
        rbind (pbuf_cat p r b) (\<lambda>b.
          chain_frags fuel p (next_pbuf (helper s r)) (set_arp (set_pbs b (arp s)) s))))"

text \<open>The header of the whole datagram, written over the first fragment's.\<close>

definition restore_header :: "nat \<Rightarrow> nat \<Rightarrow> arp_state \<Rightarrow> bytes \<Rightarrow> arp_state" where
  "restore_header p dlen a iph =
     (let a = store p 0 iph a;
          a = store p 2 (net_bytes16 (word_of_nat dlen)) a;
          a = store p 6 [0, 0] a;
          a = store p 10 [0, 0] a
      in store p 10 (host_bytes16 (word_of_nat (inet_chksum (payload (pbufs (pb a) p)) IP_HLEN (pb a)))) a)"

primrec find_datagram :: "nat \<Rightarrow> nat \<Rightarrow> nat \<Rightarrow> bytes \<Rightarrow> (nat \<Rightarrow> ip_reassdata) \<Rightarrow> (nat \<times> nat) res" where
  "find_datagram 0 ipr prev fraghdr R = Inl No_Fuel"
| "find_datagram (Suc fuel) ipr prev fraghdr R =
     (if ipr = 0 \<or> IP_ADDRESSES_AND_ID_MATCH (riphdr (R ipr)) fraghdr then Inr (ipr, prev)
      else find_datagram fuel (rnext (R ipr)) ipr fraghdr R)"

text \<open>Once the fragment has a place in the queue: \<open>ipr\<close> is the datagram and \<open>prev\<close> the one before it.\<close>

definition reass_queued :: "nat \<Rightarrow> nat \<Rightarrow> nat \<Rightarrow> nat \<Rightarrow> 'a ip_like \<Rightarrow> (nat \<times> 'a ip_like) res" where
  "reass_queued p clen ipr prev s =
     (let fend = fend (frag_range p (arp s));
          s = s\<lparr>ip_reass_pbufcount := u16_of (int (ip_reass_pbufcount s) + int clen)\<rparr>;
          s = (if lwip_ntohs (field_u16 p 6 (arp s)) AND IP_MF = 0
               then set_reass ipr (\<lambda>r. r\<lparr>rlast := True, datagram_len := fend\<rparr>) s else s)
      in
        rbind (ip_reass_chain_frag_into_datagram_and_validate ipr p s) (\<lambda>(complete, s).
          if \<not> complete then Inr (0, s)
          else
            let s = set_reass ipr (\<lambda>r. r\<lparr>datagram_len := u16_of (int (datagram_len r) + int IP_HLEN)\<rparr>) s;
                p = rp (reass s ipr);
                r = next_pbuf (helper s p);
                s = set_arp (restore_header p (datagram_len (reass s ipr)) (arp s) (riphdr (reass s ipr))) s
            in
              rbind (chain_frags REASS_MAX p r s) (\<lambda>s.
              rbind (ip_reass_dequeue_datagram ipr prev s) (\<lambda>s.
              rbind (count_pbufs p s) (\<lambda>clen.
                Inr (p, s\<lparr>ip_reass_pbufcount := u16_of (int (ip_reass_pbufcount s) - int clen)\<rparr>))))))"

text \<open>The reassembled packet, or 0.\<close>

definition ip_reass :: "(nat \<Rightarrow> bytes \<Rightarrow> err_t) \<Rightarrow> nat \<Rightarrow> 'a ip_like \<Rightarrow> (nat \<times> 'a ip_like) res" where
  "ip_reass link p s =
     (let nullreturn = (\<lambda>s. rbind (release_pbuf p s) (\<lambda>s. Inr (0, s)));
          fraghdr = field p 0 IP_HLEN (arp s)
      in
        if unat (field_u8 p 0 (arp s) AND 0x0f) * 4 \<noteq> IP_HLEN then nullreturn s
        else
          rbind (count_pbufs p s) (\<lambda>clen.
          rbind (if ip_reass_pbufcount s + clen > IP_REASS_MAX_PBUFS
                 then rbind (ip_reass_remove_oldest_datagram link fraghdr clen s) (\<lambda>(freed, s).
                   Inr (freed \<noteq> 0 \<and> \<not> ip_reass_pbufcount s + clen > IP_REASS_MAX_PBUFS, s))
                 else Inr (True, s)) (\<lambda>(room, s).
            if \<not> room then nullreturn s
            else
              rbind (find_datagram REASS_MAX (reassdatagrams s) 0 fraghdr (reass s)) (\<lambda>(ipr, prev).
                if ipr = 0
                then rbind (ip_reass_enqueue_new_datagram link fraghdr clen s) (\<lambda>(ipr, s).
                  if ipr = 0 then nullreturn s else reass_queued p clen ipr prev s)
                else
                  let s = (if lwip_ntohs (field_u16 p 6 (arp s)) AND IP_OFFMASK = 0 \<and>
                             lwip_ntohs (header_u16 (riphdr (reass s ipr)) 6) AND IP_OFFMASK \<noteq> 0
                           then set_reass ipr (\<lambda>r. r\<lparr>riphdr := fraghdr\<rparr>) s else s)
                  in reass_queued p clen ipr prev s))))"

end
