(* ===== verification/Ip_Input.thy ===== *)
theory Ip_Input
  imports Ip_Reass Eth_Input
begin

text \<open>
  The receiving half of the IP layer: \<^verbatim>\<open>icmp_input\<close> of \<^verbatim>\<open>icmp.c\<close> and \<^verbatim>\<open>ip_input\<close> of \<^verbatim>\<open>ip.c\<close>
  (\<^verbatim>\<open>IP_FORWARD\<close>, \<^verbatim>\<open>LWIP_IGMP\<close>, \<^verbatim>\<open>LWIP_DHCP\<close>, \<^verbatim>\<open>LWIP_BROADCAST_PING\<close> and
  \<^verbatim>\<open>LWIP_MULTICAST_PING\<close> off, \<^verbatim>\<open>IP_OPTIONS_ALLOWED\<close> on). The transport protocols are arguments:
  \<open>raw\<close>, which tells whether it has eaten the packet, \<open>udp\<close> and \<open>tcp\<close>.
\<close>

section \<open>ICMP\<close>

definition poke :: "nat \<Rightarrow> bytes \<Rightarrow> arp_state \<Rightarrow> arp_state" where
  "poke x bs a = a\<lparr>pb := (pb a)\<lparr>bytes := write_bytes x bs (bytes (pb a))\<rparr>\<rparr>"

text \<open>The checksum of the reply, from that of the request.\<close>

definition echo_chksum :: "u16 \<Rightarrow> u16" where
  "echo_chksum c =
     (if c \<ge> lwip_htons (0xffff - push_bit 8 (ucast ICMP_ECHO))
      then c + (lwip_htons (push_bit 8 (ucast ICMP_ECHO)) + 1)
      else c + lwip_htons (push_bit 8 (ucast ICMP_ECHO)))"

text \<open>The reply to an echo request, made in the pbuf \<open>p\<close> whose payload is the ICMP header; \<open>iphdr\<close> is the address of the IP header.\<close>

definition echo_answer :: "nat \<Rightarrow> nat \<Rightarrow> 'a ip_like \<Rightarrow> arp_state" where
  "echo_answer p iphdr s =
     (let a = poke (iphdr + 12) (host_bytes32 (current_dest s)) (arp s);
          a = poke (iphdr + 16) (host_bytes32 (current_src s)) a;
          a = store p 0 [ICMP_ER] a;
          a = store p 2 (host_bytes16 (echo_chksum (field_u16 p 2 a))) a;
          a = poke (iphdr + 8) [ICMP_TTL] a;
          a = poke (iphdr + 10) [0, 0] a
      in poke (iphdr + 10) (host_bytes16 (word_of_nat (inet_chksum iphdr IP_HLEN (pb a)))) a)"

definition echo_reply :: "(nat \<Rightarrow> bytes \<Rightarrow> err_t) \<Rightarrow> nat \<Rightarrow> nat \<Rightarrow> nat \<Rightarrow> nat \<Rightarrow> 'a ip_like \<Rightarrow> 'a ip_like res" where
  "echo_reply link p iphdr hlen n s =
     (let a = echo_answer p iphdr s in
        rbind (pbuf_header p (int hlen) (pb a)) (\<lambda>(failed, b).
          if failed then Inl Abort
          else
            rbind (ip_output_if link p (current_dest s) None ICMP_TTL 0 IP_PROTO_ICMP n (set_arp (set_pbs b a) s)) (\<lambda>(_, s).
              release_pbuf p s)))"

text \<open>
  Making room for the link header: the pbuf itself if it has the room, else a copy; the result is the
  pbuf to answer with and the address of its IP header, or None if there is no memory.
\<close>

definition echo_room :: "nat \<Rightarrow> nat \<Rightarrow> nat \<Rightarrow> arp_state \<Rightarrow> ((nat \<times> nat) option \<times> arp_state) res" where
  "echo_room p iphdr hlen a =
     rbind (pbuf_header p 34 (pb a)) (\<lambda>(failed, b).
       if failed then
         rbind (pbuf_header p (int hlen) b) (\<lambda>(failed, b).
           if failed then Inl Abort
           else
             rbind (pbuf_alloc PBUF_LINK (tot_len (pbufs b p)) PBUF_RAM b) (\<lambda>(r, b).
               if r = 0 then Inr (None, set_pbs b a)
               else if \<not> plen (pbufs b r) \<ge> hlen + SIZEOF_ICMP_ECHO_HDR then Inl Abort
               else
                 rbind (pbuf_copy r p b) (\<lambda>(err, b).
                   if err \<noteq> ERR_OK then Inl Abort
                   else
                     let iphdr = payload (pbufs b r) in
                     rbind (pbuf_header r (- int hlen) b) (\<lambda>(failed, b).
                       if failed then Inl Abort
                       else rbind (free_pbuf p (set_pbs b a)) (\<lambda>a. Inr (Some (r, iphdr), a))))))
       else
         rbind (pbuf_header p (- 34) b) (\<lambda>(failed, b).
           if failed then Inl Abort else Inr (Some (p, iphdr), set_pbs b a)))"

definition icmp_input :: "(nat \<Rightarrow> bytes \<Rightarrow> err_t) \<Rightarrow> nat \<Rightarrow> nat \<Rightarrow> 'a ip_like \<Rightarrow> 'a ip_like res" where
  "icmp_input link p n s =
     (let iphdr = payload (pbufs (pb (arp s)) p);
          hlen = unat (field_u8 p 0 (arp s) AND 0x0f) * 4
      in
        rbind (pbuf_header p (- int hlen) (pb (arp s))) (\<lambda>(failed, b).
          let s = set_arp (set_pbs b (arp s)) s in
          if failed \<or> tot_len (pbufs b p) < 4 then release_pbuf p s
          else if field_u8 p 0 (arp s) = ICMP_ECHO then
            (if ip_addr_ismulticast (current_dest s) \<or> ip4_addr_isbroadcast (current_dest s) (ifs (arp s) n)
             then release_pbuf p s
             else if tot_len (pbufs b p) < SIZEOF_ICMP_ECHO_HDR then release_pbuf p s
             else
               rbind (inet_chksum_pbuf p b) (\<lambda>ck.
                 if ck \<noteq> 0 then release_pbuf p s
                 else
                   rbind (echo_room p iphdr hlen (arp s)) (\<lambda>(r, a).
                     case r of
                       None \<Rightarrow> release_pbuf p (set_arp a s)
                     | Some (p, iphdr) \<Rightarrow> echo_reply link p iphdr hlen n (set_arp a s))))
          else release_pbuf p s))"

section \<open>IP\<close>

text \<open>Is the packet for this interface?\<close>

definition netif_accepts :: "nat \<Rightarrow> u32 \<Rightarrow> arp_state \<Rightarrow> bool" where
  "netif_accepts n dest a \<longleftrightarrow>
     netif_is_up n a \<and> ip_addr (ifs a n) \<noteq> 0 \<and>
     (dest = ip_addr (ifs a n) \<or> ip4_addr_isbroadcast dest (ifs a n) \<or>
      (case autoip (ifs a n) of None \<Rightarrow> False | Some ai \<Rightarrow> dest = llipaddr ai))"

text \<open>The loop over the interfaces, which begins with the one the packet came in on; 0 if none accepts.\<close>

primrec match_netif :: "nat \<Rightarrow> nat \<Rightarrow> bool \<Rightarrow> nat \<Rightarrow> u32 \<Rightarrow> arp_state \<Rightarrow> nat res" where
  "match_netif 0 n is_first inp dest a = Inl No_Fuel"
| "match_netif (Suc fuel) n is_first inp dest a =
     (if netif_accepts n dest a then Inr n
      else
        let n = (if is_first then netif_list a else nif_next (ifs a n));
            n = (if n = inp then nif_next (ifs a n) else n)
        in if n \<noteq> 0 then match_netif fuel n False inp dest a else Inr 0)"

text \<open>Handing the packet to the transport protocols; \<open>iphdr\<close> is the address of its IP header.\<close>

definition ip_deliver ::
    "(nat \<Rightarrow> bytes \<Rightarrow> err_t) \<Rightarrow> (nat \<Rightarrow> nat \<Rightarrow> 'a ip_like \<Rightarrow> (bool \<times> 'a ip_like) res) \<Rightarrow> (nat \<Rightarrow> nat \<Rightarrow> 'a ip_like \<Rightarrow> 'a ip_like res) \<Rightarrow>
       (nat \<Rightarrow> nat \<Rightarrow> 'a ip_like \<Rightarrow> 'a ip_like res) \<Rightarrow> nat \<Rightarrow> nat \<Rightarrow> nat \<Rightarrow> 'a ip_like \<Rightarrow> 'a ip_like res" where
  "ip_deliver link raw udp tcp p iphdr inp s =
     rbind (raw p inp (s\<lparr>current_netif := inp, current_header := iphdr\<rparr>)) (\<lambda>(eaten, s).
       let proto = bytes (pb (arp s)) (iphdr + 9) in
       rbind
         (if eaten then Inr s
          else if proto = IP_PROTO_UDP then udp p inp s
          else if proto = IP_PROTO_TCP then tcp p inp s
          else if proto = IP_PROTO_ICMP then icmp_input link p inp s
          else
            rbind
              (if \<not> ip4_addr_isbroadcast (current_dest s) (ifs (arp s) inp) \<and> \<not> ip_addr_ismulticast (current_dest s)
               then icmp_dest_unreach link p ICMP_DUR_PROTO
                      (set_arp (set_pbs (upd p (\<lambda>q. q\<lparr>payload := iphdr\<rparr>) (pb (arp s))) (arp s)) s)
               else Inr s)
              (release_pbuf p))
         (\<lambda>s. Inr (s\<lparr>current_netif := 0, current_header := 0, current_src := 0, current_dest := 0\<rparr>)))"

definition ip_input ::
    "(nat \<Rightarrow> bytes \<Rightarrow> err_t) \<Rightarrow> (nat \<Rightarrow> nat \<Rightarrow> 'a ip_like \<Rightarrow> (bool \<times> 'a ip_like) res) \<Rightarrow> (nat \<Rightarrow> nat \<Rightarrow> 'a ip_like \<Rightarrow> 'a ip_like res) \<Rightarrow>
       (nat \<Rightarrow> nat \<Rightarrow> 'a ip_like \<Rightarrow> 'a ip_like res) \<Rightarrow> nat \<Rightarrow> nat \<Rightarrow> 'a ip_like \<Rightarrow> 'a ip_like res" where
  "ip_input link raw udp tcp p inp s =
     (let b = pb (arp s);
          vhl = field_u8 p 0 (arp s);
          hlen = unat (vhl AND 0x0f) * 4;
          len = unat (lwip_ntohs (field_u16 p 2 (arp s)))
      in
        if drop_bit 4 vhl \<noteq> 4 then release_pbuf p s
        else if hlen > plen (pbufs b p) \<or> len > tot_len (pbufs b p) then release_pbuf p s
        else if inet_chksum (payload (pbufs b p)) hlen b \<noteq> 0 then release_pbuf p s
        else
          rbind (pbuf_realloc p len b) (\<lambda>b.
            let s = set_arp (set_pbs b (arp s)) s;
                s = s\<lparr>current_dest := field_u32 p 16 (arp s), current_src := field_u32 p 12 (arp s)\<rparr>
            in
              rbind (match_netif NETIF_MAX inp True inp (current_dest s) (arp s)) (\<lambda>n.
                if ip4_addr_isbroadcast (current_src s) (ifs (arp s) inp) \<or> ip_addr_ismulticast (current_src s)
                then release_pbuf p s
                else if n = 0 then release_pbuf p s
                else if field_u16 p 6 (arp s) AND lwip_htons (IP_OFFMASK OR IP_MF) \<noteq> 0 then
                  rbind (ip_reass link p s) (\<lambda>(p, s).
                    if p = 0 then Inr s
                    else ip_deliver link raw udp tcp p (payload (pbufs (pb (arp s)) p)) inp s)
                else ip_deliver link raw udp tcp p (payload (pbufs (pb (arp s)) p)) inp s)))"

text \<open>An Ethernet frame, with the IP packet it may hold.\<close>

definition ethernet_input ::
    "(nat \<Rightarrow> bytes \<Rightarrow> err_t) \<Rightarrow> (nat \<Rightarrow> nat \<Rightarrow> 'a ip_like \<Rightarrow> 'a ip_like res) \<Rightarrow> nat \<Rightarrow> nat \<Rightarrow> 'a ip_like \<Rightarrow> (err_t \<times> 'a ip_like) res" where
  "ethernet_input link ip_in p n s =
     rbind (ethernet_frame link p n (arp s)) (\<lambda>(ip, a).
     rbind (if ip then ip_in p n (set_arp a s) else Inr (set_arp a s)) (\<lambda>s. Inr (ERR_OK, s)))"

end
