(* ===== verification/Udp.thy ===== *)
theory Udp
  imports Ip_Input
begin

text \<open>
  \<^verbatim>\<open>src/src/lwip/core/udp.c\<close> (\<^verbatim>\<open>LWIP_UDPLITE\<close>, \<^verbatim>\<open>LWIP_IGMP\<close>, \<^verbatim>\<open>LWIP_DHCP\<close>, \<^verbatim>\<open>SO_REUSE_RXTOALL\<close> and the
  broadcast filters off, \<^verbatim>\<open>SO_REUSE\<close> on). A PCB is found by its address in \<open>upcb\<close>, the list of the active
  ones is linked through \<open>unext\<close>. Callbacks are numbers, 0 being \<^verbatim>\<open>NULL\<close>; what they do is an
  argument. Walks over the PCBs have fuel \<open>PCB_MAX\<close>: at most 100 PCBs of a kind exist.
\<close>

abbreviation PCB_MAX :: nat where "PCB_MAX \<equiv> 128"
abbreviation UDP_HLEN :: nat where "UDP_HLEN \<equiv> 8"
abbreviation UDP_TTL :: u8 where "UDP_TTL \<equiv> 255"
abbreviation UDP_FLAGS_NOCHKSUM :: u8 where "UDP_FLAGS_NOCHKSUM \<equiv> 0x01"
abbreviation UDP_FLAGS_CONNECTED :: u8 where "UDP_FLAGS_CONNECTED \<equiv> 0x04"
abbreviation SOF_REUSEADDR :: u8 where "SOF_REUSEADDR \<equiv> 0x04"
abbreviation UDP_LOCAL_PORT_RANGE_START :: u16 where "UDP_LOCAL_PORT_RANGE_START \<equiv> 0xc000"
abbreviation UDP_LOCAL_PORT_RANGE_END :: u16 where "UDP_LOCAL_PORT_RANGE_END \<equiv> 0xffff"

section \<open>State\<close>

record ip_pcb =
  local_ip :: u32
  remote_ip :: u32
  so_options :: u8
  tos :: u8
  ttl :: u8

record udp_pcb = ip_pcb +
  unext :: nat
  uflags :: u8
  local_port :: u16
  remote_port :: u16
  urecv :: nat
  urecv_arg :: nat

record udp_state = ip_state +
  udp_pcbs :: nat
  upcb :: "nat \<Rightarrow> udp_pcb"
  udp_port :: u16

type_synonym 'a udp_like = "'a udp_state_scheme"

definition set_upcb :: "nat \<Rightarrow> (udp_pcb \<Rightarrow> udp_pcb) \<Rightarrow> 'a udp_like \<Rightarrow> 'a udp_like" where
  "set_upcb p f s = s\<lparr>upcb := (upcb s)(p := f (upcb s p))\<rparr>"

definition on_pbs :: "(pb_state \<Rightarrow> ('r \<times> pb_state) res) \<Rightarrow> 'a ip_like \<Rightarrow> ('r \<times> 'a ip_like) res" where
  "on_pbs f s = rbind (f (pb (arp s))) (\<lambda>(r, b). Inr (r, set_arp (set_pbs b (arp s)) s))"

section \<open>Ports\<close>

primrec port_taken :: "nat \<Rightarrow> nat \<Rightarrow> u16 \<Rightarrow> (nat \<Rightarrow> udp_pcb) \<Rightarrow> bool res" where
  "port_taken 0 p port U = Inl No_Fuel"
| "port_taken (Suc fuel) p port U =
     (if p = 0 then Inr False
      else if local_port (U p) = port then Inr True
      else port_taken fuel (unext (U p)) port U)"

primrec new_port_loop :: "nat \<Rightarrow> nat \<Rightarrow> 'a udp_like \<Rightarrow> (u16 \<times> 'a udp_like) res" where
  "new_port_loop 0 n s = Inl No_Fuel"
| "new_port_loop (Suc fuel) n s =
     (let port = (if udp_port s = UDP_LOCAL_PORT_RANGE_END then UDP_LOCAL_PORT_RANGE_START else udp_port s + 1);
          s = s\<lparr>udp_port := port\<rparr>
      in
        rbind (port_taken PCB_MAX (udp_pcbs s) port (upcb s)) (\<lambda>taken.
          if \<not> taken then Inr (port, s)
          else if n + 1 > 0x3fff then Inr (0, s)
          else new_port_loop fuel (n + 1) s))"

text \<open>The loop gives up after 0x4000 rounds.\<close>

definition udp_new_port :: "'a udp_like \<Rightarrow> (u16 \<times> 'a udp_like) res" where
  "udp_new_port s = new_port_loop 0x4000 0 s"

section \<open>PCBs\<close>

definition reuseaddr :: "('a ip_pcb_scheme) \<Rightarrow> bool" where
  "reuseaddr u \<longleftrightarrow> so_options u AND SOF_REUSEADDR \<noteq> 0"

text \<open>The search for a conflict: an error, or whether \<open>pcb\<close> is on the list already.\<close>

primrec bind_scan :: "nat \<Rightarrow> nat \<Rightarrow> nat \<Rightarrow> bool \<Rightarrow> u32 \<Rightarrow> u16 \<Rightarrow> (nat \<Rightarrow> udp_pcb) \<Rightarrow> (err_t + bool) res" where
  "bind_scan 0 ipcb pcb rebind ip port U = Inl No_Fuel"
| "bind_scan (Suc fuel) ipcb pcb rebind ip port U =
     (if ipcb = 0 then Inr (Inr rebind)
      else if pcb = ipcb then (if rebind then Inl Abort else bind_scan fuel (unext (U ipcb)) pcb True ip port U)
      else if \<not> reuseaddr (U pcb) \<and> \<not> reuseaddr (U ipcb) \<and> local_port (U ipcb) = port \<and>
        (local_ip (U ipcb) = IPADDR_ANY \<or> ip = IPADDR_ANY \<or> local_ip (U ipcb) = ip)
      then Inr (Inl ERR_USE)
      else bind_scan fuel (unext (U ipcb)) pcb rebind ip port U)"

definition udp_bind :: "nat \<Rightarrow> u32 option \<Rightarrow> u16 \<Rightarrow> 'a udp_like \<Rightarrow> (err_t \<times> 'a udp_like) res" where
  "udp_bind pcb addr port s =
     rbind (bind_scan PCB_MAX (udp_pcbs s) pcb False (addr_or_any addr) port (upcb s)) (\<lambda>r.
       case r of
         Inl e \<Rightarrow> Inr (e, s)
       | Inr rebind \<Rightarrow>
           let s = set_upcb pcb (\<lambda>u. u\<lparr>local_ip := addr_or_any addr\<rparr>) s in
           rbind (if port = 0 then udp_new_port s else Inr (port, s)) (\<lambda>(port, s).
             if port = 0 then Inr (ERR_USE, s)
             else
               let s = set_upcb pcb (\<lambda>u. u\<lparr>local_port := port\<rparr>) s in
               Inr (ERR_OK, if rebind then s else (set_upcb pcb (\<lambda>u. u\<lparr>unext := udp_pcbs s\<rparr>) s)\<lparr>udp_pcbs := pcb\<rparr>)))"

primrec udp_listed :: "nat \<Rightarrow> nat \<Rightarrow> nat \<Rightarrow> (nat \<Rightarrow> udp_pcb) \<Rightarrow> bool res" where
  "udp_listed 0 ipcb pcb U = Inl No_Fuel"
| "udp_listed (Suc fuel) ipcb pcb U =
     (if ipcb = 0 then Inr False else if pcb = ipcb then Inr True else udp_listed fuel (unext (U ipcb)) pcb U)"

definition udp_connect :: "nat \<Rightarrow> u32 option \<Rightarrow> u16 \<Rightarrow> 'a udp_like \<Rightarrow> (err_t \<times> 'a udp_like) res" where
  "udp_connect pcb addr port s =
     rbind (if local_port (upcb s pcb) = 0 then udp_bind pcb (Some (local_ip (upcb s pcb))) 0 s else Inr (ERR_OK, s)) (\<lambda>(e, s).
       if e \<noteq> ERR_OK then Inr (e, s)
       else
         let s = set_upcb pcb (\<lambda>u. u\<lparr>remote_ip := addr_or_any addr, remote_port := port, uflags := uflags u OR UDP_FLAGS_CONNECTED\<rparr>) s in
         rbind (udp_listed PCB_MAX (udp_pcbs s) pcb (upcb s)) (\<lambda>listed.
           Inr (ERR_OK, if listed then s else (set_upcb pcb (\<lambda>u. u\<lparr>unext := udp_pcbs s\<rparr>) s)\<lparr>udp_pcbs := pcb\<rparr>)))"

definition udp_disconnect :: "nat \<Rightarrow> 'a udp_like \<Rightarrow> 'a udp_like" where
  "udp_disconnect pcb s =
     set_upcb pcb (\<lambda>u. u\<lparr>remote_ip := IPADDR_ANY, remote_port := 0, uflags := uflags u AND NOT UDP_FLAGS_CONNECTED\<rparr>) s"

definition udp_recv :: "nat \<Rightarrow> nat \<Rightarrow> nat \<Rightarrow> 'a udp_like \<Rightarrow> 'a udp_like" where
  "udp_recv pcb fn arg s = set_upcb pcb (\<lambda>u. u\<lparr>urecv := fn, urecv_arg := arg\<rparr>) s"

text \<open>The walk of \<^verbatim>\<open>udp_remove\<close>, which goes on after it has found the PCB.\<close>

primrec udp_unlink :: "nat \<Rightarrow> nat \<Rightarrow> nat \<Rightarrow> (nat \<Rightarrow> udp_pcb) \<Rightarrow> (nat \<Rightarrow> udp_pcb) res" where
  "udp_unlink 0 p pcb U = Inl No_Fuel"
| "udp_unlink (Suc fuel) p pcb U =
     (if p = 0 then Inr U
      else
        let U = (if unext (U p) \<noteq> 0 \<and> unext (U p) = pcb then U(p := (U p)\<lparr>unext := unext (U pcb)\<rparr>) else U)
        in udp_unlink fuel (unext (U p)) pcb U)"

definition udp_remove :: "nat \<Rightarrow> 'a udp_like \<Rightarrow> 'a udp_like res" where
  "udp_remove pcb s =
     rbind
       (if udp_pcbs s = pcb then Inr (s\<lparr>udp_pcbs := unext (upcb s (udp_pcbs s))\<rparr>)
        else rbind (udp_unlink PCB_MAX (udp_pcbs s) pcb (upcb s)) (\<lambda>U. Inr (s\<lparr>upcb := U\<rparr>)))
       (\<lambda>s. Inr (set_arp (set_pbs ((pb (arp s))\<lparr>pools := memp_free MEMP_UDP_PCB pcb (pools (pb (arp s)))\<rparr>) (arp s)) s))"

definition udp_new :: "'a udp_like \<Rightarrow> (nat \<times> 'a udp_like) res" where
  "udp_new s =
     rbind (memp_malloc MEMP_UDP_PCB (pools (pb (arp s)))) (\<lambda>(pcb, ps).
       let s = set_arp (set_pbs ((pb (arp s))\<lparr>pools := ps\<rparr>) (arp s)) s in
       Inr (pcb, if pcb = 0 then s
         else set_upcb pcb (\<lambda>_. \<lparr>local_ip = 0, remote_ip = 0, so_options = 0, tos = 0, ttl = UDP_TTL, unext = 0, uflags = 0,
           local_port = 0, remote_port = 0, urecv = 0, urecv_arg = 0\<rparr>) s))"

section \<open>Sending\<close>

text \<open>A pbuf for \<open>n\<close> bytes of header in front of \<open>p\<close>, which is chained to it unless it is empty; 0 if there is no memory.\<close>

definition header_pbuf :: "nat \<Rightarrow> nat \<Rightarrow> pb_state \<Rightarrow> (nat \<times> pb_state) res" where
  "header_pbuf n p b =
     rbind (pbuf_alloc PBUF_IP n PBUF_RAM b) (\<lambda>(q, b).
       if q = 0 then Inr (0, b)
       else if tot_len (pbufs b p) \<noteq> 0 then rbind (pbuf_chain q p b) (\<lambda>b. Inr (q, b))
       else Inr (q, b))"

text \<open>The header of the datagram \<open>q\<close> from \<open>sport\<close> to \<open>dport\<close>, with the checksum if \<open>checked\<close>.\<close>

definition udp_header :: "nat \<Rightarrow> u16 \<Rightarrow> u16 \<Rightarrow> u32 \<Rightarrow> u32 \<Rightarrow> bool \<Rightarrow> arp_state \<Rightarrow> arp_state res" where
  "udp_header q sport dport src dst checked a =
     (let a = store q 0 (net_bytes16 sport) a;
          a = store q 2 (net_bytes16 dport) a;
          a = store q 6 [0, 0] a;
          a = store q 4 (net_bytes16 (word_of_nat (tot_len (pbufs (pb a) q)))) a
      in
        if checked then
          rbind (inet_chksum_pseudo q src dst IP_PROTO_UDP (word_of_nat (tot_len (pbufs (pb a) q))) (pb a)) (\<lambda>c.
            Inr (store q 6 (host_bytes16 (word_of_nat (if c = 0 then 0xffff else c))) a))
        else Inr a)"

definition release_if_new :: "nat \<Rightarrow> nat \<Rightarrow> 'a ip_like \<Rightarrow> 'a ip_like res" where
  "release_if_new q p s = (if q \<noteq> p then release_pbuf q s else Inr s)"

definition udp_sendto_if :: "(nat \<Rightarrow> bytes \<Rightarrow> err_t) \<Rightarrow> nat \<Rightarrow> nat \<Rightarrow> u32 \<Rightarrow> u16 \<Rightarrow> nat \<Rightarrow> 'a udp_like \<Rightarrow> (err_t \<times> 'a udp_like) res" where
  "udp_sendto_if link pcb p dst_ip dst_port n s =
     rbind (if local_port (upcb s pcb) = 0 then udp_bind pcb (Some (local_ip (upcb s pcb))) 0 s else Inr (ERR_OK, s)) (\<lambda>(e, s).
       if e \<noteq> ERR_OK then Inr (e, s)
       else
         rbind (on_pbs (\<lambda>b. rbind (pbuf_header p (int UDP_HLEN) b) (\<lambda>(failed, b).
             if failed then header_pbuf UDP_HLEN p b else Inr (p, b))) s) (\<lambda>(q, s).
           let u = upcb s pcb; nif_ip = ip_addr (ifs (arp s) n) in
           if q = 0 then Inr (ERR_MEM, s)
           else if \<not> plen (pbufs (pb (arp s)) q) \<ge> UDP_HLEN then Inl Abort
           else if local_ip u \<noteq> IPADDR_ANY \<and> local_ip u \<noteq> nif_ip
           then
             let a = store q 0 (net_bytes16 (local_port u)) (arp s);
                 a = store q 2 (net_bytes16 dst_port) a;
                 a = store q 6 [0, 0] a
             in rbind (release_if_new q p (set_arp a s)) (\<lambda>s. Inr (ERR_VAL, s))
           else
             let src_ip = (if local_ip u = IPADDR_ANY then nif_ip else local_ip u) in
             rbind (udp_header q (local_port u) dst_port src_ip dst_ip (uflags u AND UDP_FLAGS_NOCHKSUM = 0) (arp s)) (\<lambda>a.
             rbind (ip_output_if link q src_ip (Some dst_ip) (ttl u) (tos u) IP_PROTO_UDP n (set_arp a s)) (\<lambda>(e, s).
             rbind (release_if_new q p s) (\<lambda>s. Inr (e, s))))))"

definition udp_sendto :: "(nat \<Rightarrow> bytes \<Rightarrow> err_t) \<Rightarrow> nat \<Rightarrow> nat \<Rightarrow> u32 \<Rightarrow> u16 \<Rightarrow> 'a udp_like \<Rightarrow> (err_t \<times> 'a udp_like) res" where
  "udp_sendto link pcb p dst_ip dst_port s =
     rbind (ip_route dst_ip (arp s)) (\<lambda>n.
       if n = 0 then Inr (ERR_RTE, s) else udp_sendto_if link pcb p dst_ip dst_port n s)"

definition udp_send :: "(nat \<Rightarrow> bytes \<Rightarrow> err_t) \<Rightarrow> nat \<Rightarrow> nat \<Rightarrow> 'a udp_like \<Rightarrow> (err_t \<times> 'a udp_like) res" where
  "udp_send link pcb p s = udp_sendto link pcb p (remote_ip (upcb s pcb)) (remote_port (upcb s pcb)) s"

section \<open>Reception\<close>

text \<open>Is the PCB bound to the destination of the datagram? Is it open to its source?\<close>

definition local_match :: "bool \<Rightarrow> u32 \<Rightarrow> u16 \<Rightarrow> u32 \<Rightarrow> udp_pcb \<Rightarrow> bool" where
  "local_match broadcast dst dport nm u \<longleftrightarrow>
     local_port u = dport \<and>
     (\<not> broadcast \<and> local_ip u = IPADDR_ANY \<or> local_ip u = dst \<or>
      broadcast \<and> (local_ip u = IPADDR_ANY \<or> ip_addr_netcmp (local_ip u) dst nm))"

definition remote_match :: "u32 \<Rightarrow> u16 \<Rightarrow> udp_pcb \<Rightarrow> bool" where
  "remote_match src sport u \<longleftrightarrow> remote_port u = sport \<and> (remote_ip u = IPADDR_ANY \<or> remote_ip u = src)"

text \<open>The search: the first full match or 0, the PCB before it, and the first unconnected local match or 0.\<close>

primrec udp_find ::
    "nat \<Rightarrow> nat \<Rightarrow> nat \<Rightarrow> nat \<Rightarrow> (udp_pcb \<Rightarrow> bool) \<Rightarrow> (udp_pcb \<Rightarrow> bool) \<Rightarrow> (nat \<Rightarrow> udp_pcb) \<Rightarrow> (nat \<times> nat \<times> nat) res" where
  "udp_find 0 pcb prev uncon loc rem U = Inl No_Fuel"
| "udp_find (Suc fuel) pcb prev uncon loc rem U =
     (if pcb = 0 then Inr (0, prev, uncon)
      else
        let uncon = (if loc (U pcb) \<and> uncon = 0 \<and> uflags (U pcb) AND UDP_FLAGS_CONNECTED = 0 then pcb else uncon) in
        if loc (U pcb) \<and> rem (U pcb) then Inr (pcb, prev, uncon)
        else udp_find fuel (unext (U pcb)) pcb uncon loc rem U)"

text \<open>The receiver of a datagram, 0 if there is none; a full match moves to the front of the list.\<close>

definition udp_demux :: "bool \<Rightarrow> u16 \<Rightarrow> u16 \<Rightarrow> nat \<Rightarrow> 'a udp_like \<Rightarrow> (nat \<times> 'a udp_like) res" where
  "udp_demux broadcast sport dport inp s =
     rbind (udp_find PCB_MAX (udp_pcbs s) 0 0 (local_match broadcast (current_dest s) dport (netmask (ifs (arp s) inp)))
         (remote_match (current_src s) sport) (upcb s)) (\<lambda>(pcb, prev, uncon).
       if pcb = 0 then Inr (uncon, s)
       else if prev \<noteq> 0
       then Inr (pcb, (set_upcb pcb (\<lambda>u. u\<lparr>unext := udp_pcbs s\<rparr>)
           (set_upcb prev (\<lambda>u. u\<lparr>unext := unext (upcb s pcb)\<rparr>) s))\<lparr>udp_pcbs := pcb\<rparr>)
       else Inr (pcb, s))"

definition udp_input ::
    "(nat \<Rightarrow> bytes \<Rightarrow> err_t) \<Rightarrow> (nat \<Rightarrow> nat \<Rightarrow> nat \<Rightarrow> nat \<Rightarrow> u32 \<Rightarrow> u16 \<Rightarrow> 'a udp_like \<Rightarrow> 'a udp_like res) \<Rightarrow>
       nat \<Rightarrow> nat \<Rightarrow> 'a udp_like \<Rightarrow> 'a udp_like res" where
  "udp_input link recv p inp s =
     (let iphdr = payload (pbufs (pb (arp s)) p);
          hlen = unat (field_u8 p 0 (arp s) AND 0x0f) * 4
      in
        if tot_len (pbufs (pb (arp s)) p) < hlen + UDP_HLEN then release_pbuf p s
        else
          rbind (on_pbs (pbuf_header p (- int hlen)) s) (\<lambda>(failed, s).
            if failed then release_pbuf p s
            else
              let broadcast = ip4_addr_isbroadcast (current_dest s) (ifs (arp s) inp);
                  sport = lwip_ntohs (field_u16 p 0 (arp s));
                  dport = lwip_ntohs (field_u16 p 2 (arp s))
              in
                rbind (udp_demux broadcast sport dport inp s) (\<lambda>(pcb, s).
                  if \<not> (pcb \<noteq> 0 \<or> ip_addr (ifs (arp s) inp) = current_dest s) then release_pbuf p s
                  else
                    rbind (if field_u16 p 6 (arp s) \<noteq> 0
                           then inet_chksum_pseudo p (current_src s) (current_dest s) IP_PROTO_UDP
                                  (word_of_nat (tot_len (pbufs (pb (arp s)) p))) (pb (arp s))
                           else Inr 0) (\<lambda>c.
                      if c \<noteq> 0 then release_pbuf p s
                      else
                        rbind (on_pbs (pbuf_header p (- int UDP_HLEN)) s) (\<lambda>(failed, s).
                          if failed then Inl Abort
                          else if pcb \<noteq> 0
                          then (if urecv (upcb s pcb) \<noteq> 0
                                then recv (urecv (upcb s pcb)) (urecv_arg (upcb s pcb)) pcb p (current_src s) sport s
                                else release_pbuf p s)
                          else
                            rbind
                              (if \<not> broadcast \<and> \<not> ip_addr_ismulticast (current_dest s)
                               then
                                 rbind (on_pbs (pbuf_header p (int (unat (bytes (pb (arp s)) iphdr AND 0x0f) * 4 + UDP_HLEN))) s) (\<lambda>(_, s).
                                   if payload (pbufs (pb (arp s)) p) \<noteq> iphdr then Inl Abort
                                   else icmp_dest_unreach link p ICMP_DUR_PORT s)
                               else Inr s)
                              (release_pbuf p))))))"

end
