(* ===== verification/Raw.thy ===== *)
theory Raw
  imports Udp
begin

text \<open>
  \<^verbatim>\<open>src/src/lwip/core/raw.c\<close>, without the broadcast filters. The list of PCBs is linked through
  \<open>rwnext\<close>; what the callbacks do is an argument, which tells whether the packet was eaten.
\<close>

abbreviation RAW_TTL :: u8 where "RAW_TTL \<equiv> 255"

record raw_pcb = ip_pcb +
  rwnext :: nat
  protocol :: u8
  rrecv :: nat
  rrecv_arg :: nat

record raw_state = udp_state +
  raw_pcbs :: nat
  rpcb :: "nat \<Rightarrow> raw_pcb"

type_synonym 'a raw_like = "'a raw_state_scheme"

definition set_rpcb :: "nat \<Rightarrow> (raw_pcb \<Rightarrow> raw_pcb) \<Rightarrow> 'a raw_like \<Rightarrow> 'a raw_like" where
  "set_rpcb p f s = s\<lparr>rpcb := (rpcb s)(p := f (rpcb s p))\<rparr>"

section \<open>Reception\<close>

definition raw_match :: "u8 \<Rightarrow> u32 \<Rightarrow> raw_pcb \<Rightarrow> bool" where
  "raw_match proto dst u \<longleftrightarrow> protocol u = proto \<and> (local_ip u = IPADDR_ANY \<or> local_ip u = dst)"

text \<open>A PCB that has eaten the packet moves to the front of the list.\<close>

primrec raw_loop ::
    "nat \<Rightarrow> (nat \<Rightarrow> nat \<Rightarrow> nat \<Rightarrow> nat \<Rightarrow> u32 \<Rightarrow> 'a raw_like \<Rightarrow> (bool \<times> 'a raw_like) res) \<Rightarrow> nat \<Rightarrow> nat \<Rightarrow> nat \<Rightarrow> u8 \<Rightarrow> 'a raw_like \<Rightarrow>
       (bool \<times> 'a raw_like) res" where
  "raw_loop 0 recv pcb prev p proto s = Inl No_Fuel"
| "raw_loop (Suc fuel) recv pcb prev p proto s =
     (if pcb = 0 then Inr (False, s)
      else if raw_match proto (current_dest s) (rpcb s pcb) \<and> rrecv (rpcb s pcb) \<noteq> 0
      then
        rbind (recv (rrecv (rpcb s pcb)) (rrecv_arg (rpcb s pcb)) pcb p (current_src s) s) (\<lambda>(ate, s).
          if ate
          then Inr (True, if prev \<noteq> 0
            then (set_rpcb pcb (\<lambda>u. u\<lparr>rwnext := raw_pcbs s\<rparr>)
              (set_rpcb prev (\<lambda>u. u\<lparr>rwnext := rwnext (rpcb s pcb)\<rparr>) s))\<lparr>raw_pcbs := pcb\<rparr>
            else s)
          else raw_loop fuel recv (rwnext (rpcb s pcb)) pcb p proto s)
      else raw_loop fuel recv (rwnext (rpcb s pcb)) pcb p proto s)"

definition raw_input ::
    "(nat \<Rightarrow> nat \<Rightarrow> nat \<Rightarrow> nat \<Rightarrow> u32 \<Rightarrow> 'a raw_like \<Rightarrow> (bool \<times> 'a raw_like) res) \<Rightarrow> nat \<Rightarrow> nat \<Rightarrow> 'a raw_like \<Rightarrow> (bool \<times> 'a raw_like) res" where
  "raw_input recv p inp s = raw_loop PCB_MAX recv (raw_pcbs s) 0 p (field_u8 p 9 (arp s)) s"

section \<open>PCBs\<close>

definition raw_bind :: "nat \<Rightarrow> u32 option \<Rightarrow> 'a raw_like \<Rightarrow> err_t \<times> 'a raw_like" where
  "raw_bind pcb addr s = (ERR_OK, set_rpcb pcb (\<lambda>u. u\<lparr>local_ip := addr_or_any addr\<rparr>) s)"

definition raw_connect :: "nat \<Rightarrow> u32 option \<Rightarrow> 'a raw_like \<Rightarrow> err_t \<times> 'a raw_like" where
  "raw_connect pcb addr s = (ERR_OK, set_rpcb pcb (\<lambda>u. u\<lparr>remote_ip := addr_or_any addr\<rparr>) s)"

definition raw_recv :: "nat \<Rightarrow> nat \<Rightarrow> nat \<Rightarrow> 'a raw_like \<Rightarrow> 'a raw_like" where
  "raw_recv pcb fn arg s = set_rpcb pcb (\<lambda>u. u\<lparr>rrecv := fn, rrecv_arg := arg\<rparr>) s"

primrec raw_unlink :: "nat \<Rightarrow> nat \<Rightarrow> nat \<Rightarrow> (nat \<Rightarrow> raw_pcb) \<Rightarrow> (nat \<Rightarrow> raw_pcb) res" where
  "raw_unlink 0 p pcb U = Inl No_Fuel"
| "raw_unlink (Suc fuel) p pcb U =
     (if p = 0 then Inr U
      else
        let U = (if rwnext (U p) \<noteq> 0 \<and> rwnext (U p) = pcb then U(p := (U p)\<lparr>rwnext := rwnext (U pcb)\<rparr>) else U)
        in raw_unlink fuel (rwnext (U p)) pcb U)"

definition raw_remove :: "nat \<Rightarrow> 'a raw_like \<Rightarrow> 'a raw_like res" where
  "raw_remove pcb s =
     rbind
       (if raw_pcbs s = pcb then Inr (s\<lparr>raw_pcbs := rwnext (rpcb s (raw_pcbs s))\<rparr>)
        else rbind (raw_unlink PCB_MAX (raw_pcbs s) pcb (rpcb s)) (\<lambda>U. Inr (s\<lparr>rpcb := U\<rparr>)))
       (\<lambda>s. Inr (set_arp (set_pbs ((pb (arp s))\<lparr>pools := memp_free MEMP_RAW_PCB pcb (pools (pb (arp s)))\<rparr>) (arp s)) s))"

definition raw_new :: "u8 \<Rightarrow> 'a raw_like \<Rightarrow> (nat \<times> 'a raw_like) res" where
  "raw_new proto s =
     rbind (memp_malloc MEMP_RAW_PCB (pools (pb (arp s)))) (\<lambda>(pcb, ps).
       let s = set_arp (set_pbs ((pb (arp s))\<lparr>pools := ps\<rparr>) (arp s)) s in
       Inr (pcb, if pcb = 0 then s
         else (set_rpcb pcb (\<lambda>_. \<lparr>local_ip = 0, remote_ip = 0, so_options = 0, tos = 0, ttl = RAW_TTL, rwnext = raw_pcbs s, protocol = proto,
           rrecv = 0, rrecv_arg = 0\<rparr>) s)\<lparr>raw_pcbs := pcb\<rparr>))"

section \<open>Sending\<close>

definition raw_sendto :: "(nat \<Rightarrow> bytes \<Rightarrow> err_t) \<Rightarrow> nat \<Rightarrow> nat \<Rightarrow> u32 \<Rightarrow> 'a raw_like \<Rightarrow> (err_t \<times> 'a raw_like) res" where
  "raw_sendto link pcb p dst s =
     rbind (on_pbs (\<lambda>b. rbind (pbuf_header p (int IP_HLEN) b) (\<lambda>(failed, b).
         if failed then header_pbuf 0 p b
         else rbind (pbuf_header p (- int IP_HLEN) b) (\<lambda>(failed, b). if failed then Inl Abort else Inr (p, b)))) s) (\<lambda>(q, s).
       if q = 0 then Inr (ERR_MEM, s)
       else
         rbind (ip_route dst (arp s)) (\<lambda>n.
           if n = 0 then rbind (release_if_new q p s) (\<lambda>s. Inr (ERR_RTE, s))
           else
             let u = rpcb s pcb; src_ip = (if local_ip u = IPADDR_ANY then ip_addr (ifs (arp s) n) else local_ip u) in
             rbind (ip_output_if link q src_ip (Some dst) (ttl u) (tos u) (protocol u) n s) (\<lambda>(e, s).
             rbind (release_if_new q p s) (\<lambda>s. Inr (e, s)))))"

definition raw_send :: "(nat \<Rightarrow> bytes \<Rightarrow> err_t) \<Rightarrow> nat \<Rightarrow> nat \<Rightarrow> 'a raw_like \<Rightarrow> (err_t \<times> 'a raw_like) res" where
  "raw_send link pcb p s = raw_sendto link pcb p (remote_ip (rpcb s pcb)) s"

end
