(* ===== verification/Dns.thy ===== *)
theory Dns
  imports Raw
begin

text \<open>
  \<^verbatim>\<open>src/src/lwip/core/dns.c\<close> (\<^verbatim>\<open>DNS_DOES_NAME_CHECK\<close>, \<^verbatim>\<open>DNS_LOCAL_HOSTLIST\<close> and \<^verbatim>\<open>DNS_LOCAL_HOSTLIST_IS_DYNAMIC\<close>
  on, no initial list, \<^verbatim>\<open>LWIP_HAVE_LOOPIF\<close> off). A C string is the list of its bytes without the terminator, the name in a table entry
  the whole array of 256 bytes. A response lies in \<^verbatim>\<open>dns_payload\<close>; a read outside of its 512 bytes, or outside of the
  name of an entry, is \<open>Bad_Deref\<close>. The callbacks of the application are numbers, 0 being \<^verbatim>\<open>NULL\<close>, and an argument says what they do.
\<close>

abbreviation DNS_SERVER_PORT :: u16 where "DNS_SERVER_PORT \<equiv> 53"
abbreviation DNS_MAX_RETRIES :: u8 where "DNS_MAX_RETRIES \<equiv> 4"
abbreviation DNS_MAX_TTL :: u32 where "DNS_MAX_TTL \<equiv> 604800"
abbreviation DNS_FLAG1_RESPONSE :: u8 where "DNS_FLAG1_RESPONSE \<equiv> 0x80"
abbreviation DNS_FLAG1_RD :: u8 where "DNS_FLAG1_RD \<equiv> 0x01"
abbreviation DNS_FLAG2_ERR_MASK :: u8 where "DNS_FLAG2_ERR_MASK \<equiv> 0x0f"
abbreviation SIZEOF_DNS_HDR :: nat where "SIZEOF_DNS_HDR \<equiv> 12"
abbreviation SIZEOF_DNS_QUERY :: nat where "SIZEOF_DNS_QUERY \<equiv> 4"
abbreviation SIZEOF_DNS_ANSWER :: nat where "SIZEOF_DNS_ANSWER \<equiv> 10"
abbreviation DNS_TABLE_SIZE :: nat where "DNS_TABLE_SIZE \<equiv> 16"
abbreviation DNS_MAX_NAME_LENGTH :: nat where "DNS_MAX_NAME_LENGTH \<equiv> 256"
abbreviation DNS_MAX_SERVERS :: nat where "DNS_MAX_SERVERS \<equiv> 2"
abbreviation DNS_MSG_SIZE :: nat where "DNS_MSG_SIZE \<equiv> 512"
abbreviation DNS_LOCAL_HOSTLIST_MAX_NAMELEN :: nat where "DNS_LOCAL_HOSTLIST_MAX_NAMELEN \<equiv> 256"

text \<open>The number of \<^verbatim>\<open>dns_recv\<close> among the UDP callbacks, and fuel for the local host list, which has at most one entry.\<close>

abbreviation DNS_RECV :: nat where "DNS_RECV \<equiv> 1"
abbreviation HOST_MAX :: nat where "HOST_MAX \<equiv> 8"

section \<open>State\<close>

datatype dns_state_t = DNS_STATE_UNUSED | DNS_STATE_NEW | DNS_STATE_ASKING | DNS_STATE_DONE

record dns_table_entry =
  dstate :: dns_state_t
  numdns :: u8
  dtmr :: u8
  retries :: u8
  dseqno :: u8
  derr :: u8
  dttl :: u32
  dname :: bytes
  daddr :: u32
  found :: nat
  found_arg :: nat

record local_hostlist_entry =
  lname :: bytes
  laddr :: u32
  lnext :: nat

record dns_state = raw_state +
  dns_pcb :: nat
  dns_seqno :: u8
  dns_table :: "nat \<Rightarrow> dns_table_entry"
  dns_servers :: "nat \<Rightarrow> u32"
  dns_payload_buffer :: nat
  dns_payload :: nat
  local_hostlist_dynamic :: nat
  lhosts :: "nat \<Rightarrow> local_hostlist_entry"

type_synonym 'a dns_like = "'a dns_state_scheme"

text \<open>What the callbacks do: the number, the name, the address or NULL, the argument.\<close>

type_synonym 'a dns_found = "nat \<Rightarrow> bytes \<Rightarrow> u32 option \<Rightarrow> nat \<Rightarrow> 'a dns_like \<Rightarrow> 'a dns_like res"

definition set_entry_dns :: "nat \<Rightarrow> (dns_table_entry \<Rightarrow> dns_table_entry) \<Rightarrow> 'a dns_like \<Rightarrow> 'a dns_like" where
  "set_entry_dns i f s = s\<lparr>dns_table := (dns_table s)(i := f (dns_table s i))\<rparr>"

definition c_string :: "bytes \<Rightarrow> bytes" where
  "c_string b = takeWhile (\<lambda>c. c \<noteq> 0) b"

definition characters :: "bytes \<Rightarrow> string" where
  "characters b = map (\<lambda>c. char_of (unat c)) b"

text \<open>The entry of \<open>i\<close> is free again.\<close>

definition flush_entry :: "nat \<Rightarrow> 'a dns_like \<Rightarrow> 'a dns_like" where
  "flush_entry i s = set_entry_dns i (\<lambda>e. e\<lparr>dstate := DNS_STATE_UNUSED, found := 0\<rparr>) s"

definition call_found :: "'a dns_found \<Rightarrow> nat \<Rightarrow> u32 option \<Rightarrow> 'a dns_like \<Rightarrow> 'a dns_like res" where
  "call_found F i addr s =
     (let e = dns_table s i in
      if found e \<noteq> 0 then F (found e) (c_string (dname e)) addr (found_arg e) s else Inr s)"

section \<open>Servers\<close>

definition dns_setserver :: "u8 \<Rightarrow> u32 option \<Rightarrow> 'a dns_like \<Rightarrow> 'a dns_like" where
  "dns_setserver n server s =
     (case server of
        None \<Rightarrow> s
      | Some a \<Rightarrow> if unat n < DNS_MAX_SERVERS \<and> dns_pcb s \<noteq> 0 \<and> a \<noteq> IPADDR_ANY
          then s\<lparr>dns_servers := (dns_servers s)(unat n := a)\<rparr> else s)"

definition dns_getserver :: "u8 \<Rightarrow> 'a dns_like \<Rightarrow> u32" where
  "dns_getserver n s = (if unat n < DNS_MAX_SERVERS then dns_servers s (unat n) else IPADDR_ANY)"

definition dns_init :: "'a dns_like \<Rightarrow> 'a dns_like res" where
  "dns_init s =
     (let s = s\<lparr>dns_payload := dns_payload_buffer s\<rparr>; server = ipaddr_addr ''208.67.222.222'' in
      if dns_pcb s \<noteq> 0 then Inr s
      else
        rbind (udp_new s) (\<lambda>(pcb, s).
          let s = s\<lparr>dns_pcb := pcb\<rparr> in
          if pcb \<noteq> 0
          then rbind (udp_bind pcb (Some IPADDR_ANY) 0 s) (\<lambda>(_, s).
            Inr (dns_setserver 0 (Some server) (udp_recv pcb DNS_RECV 0 s)))
          else Inr s))"

section \<open>Local hosts\<close>

primrec host_find :: "nat \<Rightarrow> nat \<Rightarrow> bytes \<Rightarrow> (nat \<Rightarrow> local_hostlist_entry) \<Rightarrow> u32 res" where
  "host_find 0 h1 name H = Inl No_Fuel"
| "host_find (Suc fuel) h1 name H =
     (if h1 = 0 then Inr IPADDR_NONE
      else if lname (H h1) = name then Inr (laddr (H h1))
      else host_find fuel (lnext (H h1)) name H)"

definition dns_lookup_local :: "bytes \<Rightarrow> 'a dns_like \<Rightarrow> u32 res" where
  "dns_lookup_local name s = host_find HOST_MAX (local_hostlist_dynamic s) name (lhosts s)"

definition host_matches :: "bytes option \<Rightarrow> u32 option \<Rightarrow> local_hostlist_entry \<Rightarrow> bool" where
  "host_matches hostname addr e \<longleftrightarrow> (hostname = None \<or> Some (lname e) = hostname) \<and> (addr = None \<or> Some (laddr e) = addr)"

definition host_free :: "nat \<Rightarrow> 'a ip_like \<Rightarrow> 'a ip_like" where
  "host_free e s = set_arp (set_pbs ((pb (arp s))\<lparr>pools := memp_free MEMP_LOCALHOSTLIST e (pools (pb (arp s)))\<rparr>) (arp s)) s"

primrec remove_hosts :: "nat \<Rightarrow> nat \<Rightarrow> nat \<Rightarrow> bytes option \<Rightarrow> u32 option \<Rightarrow> nat \<Rightarrow> 'a dns_like \<Rightarrow> (nat \<times> 'a dns_like) res" where
  "remove_hosts 0 e prev hostname addr removed s = Inl No_Fuel"
| "remove_hosts (Suc fuel) e prev hostname addr removed s =
     (if e = 0 then Inr (removed, s)
      else
        let nx = lnext (lhosts s e) in
        if host_matches hostname addr (lhosts s e)
        then
          let s = (if prev \<noteq> 0 then s\<lparr>lhosts := (lhosts s)(prev := (lhosts s prev)\<lparr>lnext := nx\<rparr>)\<rparr>
                else s\<lparr>local_hostlist_dynamic := nx\<rparr>)
          in remove_hosts fuel nx prev hostname addr (removed + 1) (host_free e s)
        else remove_hosts fuel nx e hostname addr removed s)"

definition dns_local_removehost :: "bytes option \<Rightarrow> u32 option \<Rightarrow> 'a dns_like \<Rightarrow> (nat \<times> 'a dns_like) res" where
  "dns_local_removehost hostname addr s = remove_hosts HOST_MAX (local_hostlist_dynamic s) 0 hostname addr 0 s"

definition dns_local_addhost :: "bytes \<Rightarrow> u32 \<Rightarrow> 'a dns_like \<Rightarrow> (err_t \<times> 'a dns_like) res" where
  "dns_local_addhost hostname addr s =
     (if \<not> length hostname \<le> DNS_LOCAL_HOSTLIST_MAX_NAMELEN then Inl Abort
      else
        rbind (memp_malloc MEMP_LOCALHOSTLIST (pools (pb (arp s)))) (\<lambda>(e, ps).
          let s = set_arp (set_pbs ((pb (arp s))\<lparr>pools := ps\<rparr>) (arp s)) s in
          if e = 0 then Inr (ERR_MEM, s)
          else Inr (ERR_OK, s\<lparr>lhosts := (lhosts s)(e := \<lparr>lname = hostname, laddr = addr, lnext = local_hostlist_dynamic s\<rparr>),
            local_hostlist_dynamic := e\<rparr>)))"

section \<open>The table\<close>

text \<open>The first completed entry for the name.\<close>

primrec lookup_loop :: "nat list \<Rightarrow> bytes \<Rightarrow> (nat \<Rightarrow> dns_table_entry) \<Rightarrow> u32" where
  "lookup_loop [] name T = IPADDR_NONE"
| "lookup_loop (i # is) name T =
     (if dstate (T i) = DNS_STATE_DONE \<and> name = c_string (dname (T i)) then daddr (T i) else lookup_loop is name T)"

definition dns_lookup :: "bytes \<Rightarrow> 'a dns_like \<Rightarrow> u32 res" where
  "dns_lookup name s =
     rbind (dns_lookup_local name s) (\<lambda>a.
       Inr (if a \<noteq> IPADDR_NONE then a else lookup_loop [0..<DNS_TABLE_SIZE] name (dns_table s)))"

section \<open>Names\<close>

text \<open>The \<open>n\<close> bytes of a label differ from the bytes of the query: the first argument counts, then the two arrays with positions.\<close>

primrec label_differs :: "nat \<Rightarrow> bytes \<Rightarrow> nat \<Rightarrow> bytes \<Rightarrow> nat \<Rightarrow> bool res" where
  "label_differs 0 query q b r = Inr False"
| "label_differs (Suc n) query q b r =
     (if q \<ge> length query \<or> r \<ge> length b then Inl Bad_Deref
      else if query ! q \<noteq> b ! r then Inr True
      else label_differs n query (q + 1) b (r + 1))"

definition compressed :: "u8 \<Rightarrow> bool" where
  "compressed n \<longleftrightarrow> n AND 0xc0 = 0xc0"

text \<open>Do the names differ? The result 1 of the code is \<open>True\<close>.\<close>

function dns_compare_name :: "bytes \<Rightarrow> nat \<Rightarrow> bytes \<Rightarrow> nat \<Rightarrow> bool res" where
  "dns_compare_name query q b r =
     (if r \<ge> length b then Inl Bad_Deref
      else
        let n = b ! r in
        if compressed n then Inr False
        else
          rbind (label_differs (unat n) query q b (r + 1)) (\<lambda>d.
            if d then Inr True
            else if r + 1 + unat n \<ge> length b then Inl Bad_Deref
            else if b ! (r + 1 + unat n) = 0 then Inr False
            else dns_compare_name query (q + unat n + 1) b (r + 1 + unat n)))"
  by pat_completeness auto
termination by (relation "measure (\<lambda>(query, q, b, r). length b - r)") auto

text \<open>The position behind the name.\<close>

function dns_parse_name :: "bytes \<Rightarrow> nat \<Rightarrow> nat res" where
  "dns_parse_name b q =
     (if q \<ge> length b then Inl Bad_Deref
      else if compressed (b ! q) then Inr (q + 2)
      else
        let q1 = q + 1 + unat (b ! q) in
        if q1 \<ge> length b then Inl Bad_Deref
        else if b ! q1 = 0 then Inr (q1 + 1)
        else dns_parse_name b q1)"
  by pat_completeness auto
termination by (relation "measure (\<lambda>(b, q). length b - q)") auto

declare dns_compare_name.simps [simp del] dns_parse_name.simps [simp del]

section \<open>Queries\<close>

text \<open>The labels of a name, each with its length before it: the loop of \<^verbatim>\<open>dns_send\<close>.\<close>

abbreviation dot :: u8 where "dot \<equiv> 46"

function encode_labels :: "bytes \<Rightarrow> bytes" where
  "encode_labels name =
     (let l = takeWhile (\<lambda>c. c \<noteq> dot) name; rest = dropWhile (\<lambda>c. c \<noteq> dot) name
      in word_of_nat (length l) # l @ (if rest = [] then [] else encode_labels (tl rest)))"
  by pat_completeness auto
termination
proof (relation "measure length")
  fix name l rest :: bytes
  assume "rest = dropWhile (\<lambda>c. c \<noteq> dot) name" "rest \<noteq> []"
  then have "length rest \<le> length name" "0 < length rest" using length_dropWhile_le by auto
  then show "(tl rest, name) \<in> measure length" by (cases rest) auto
qed simp

declare encode_labels.simps [simp del]

definition dns_query :: "u8 \<Rightarrow> bytes \<Rightarrow> bytes" where
  "dns_query i name = [0, i, DNS_FLAG1_RD, 0, 0, 1, 0, 0, 0, 0, 0, 0] @ encode_labels name @ [0] @ [0, 1, 0, 1]"

text \<open>The pbuf of a query, and writing the query into it.\<close>

definition dns_query_alloc :: "'a dns_like \<Rightarrow> (nat \<times> 'a dns_like) res" where
  "dns_query_alloc s = on_pbs (pbuf_alloc PBUF_TRANSPORT (SIZEOF_DNS_HDR + DNS_MAX_NAME_LENGTH + SIZEOF_DNS_QUERY) PBUF_RAM) s"

definition dns_query_write :: "nat \<Rightarrow> u8 \<Rightarrow> bytes \<Rightarrow> 'a dns_like \<Rightarrow> 'a dns_like" where
  "dns_query_write p i name s = set_arp (store p 0 (dns_query i name) (arp s)) s"

definition dns_send :: "(nat \<Rightarrow> bytes \<Rightarrow> err_t) \<Rightarrow> u8 \<Rightarrow> bytes \<Rightarrow> u8 \<Rightarrow> 'a dns_like \<Rightarrow> (err_t \<times> 'a dns_like) res" where
  "dns_send link n name i s =
     (if \<not> unat n < DNS_MAX_SERVERS \<or> dns_servers s (unat n) = IPADDR_ANY then Inl Abort
      else
        rbind (dns_query_alloc s) (\<lambda>(p, s).
          if p = 0 then Inr (ERR_MEM, s)
          else if pnext (pbufs (pb (arp s)) p) \<noteq> 0 then Inl Abort
          else
            let s = dns_query_write p i name s in
            rbind (on_pbs (\<lambda>b. rbind (pbuf_realloc p (length (dns_query i name)) b) (\<lambda>b. Inr ((), b))) s) (\<lambda>(_, s).
            rbind (udp_connect (dns_pcb s) (Some (dns_servers s (unat n))) DNS_SERVER_PORT s) (\<lambda>(_, s).
            rbind (udp_sendto link (dns_pcb s) p (dns_servers s (unat n)) DNS_SERVER_PORT s) (\<lambda>(err, s).
            rbind (release_pbuf p s) (\<lambda>s. Inr (err, s)))))))"

text \<open>Sending the query of entry \<open>i\<close>; an error is ignored.\<close>

definition ask :: "(nat \<Rightarrow> bytes \<Rightarrow> err_t) \<Rightarrow> nat \<Rightarrow> 'a dns_like \<Rightarrow> 'a dns_like res" where
  "ask link i s =
     rbind (dns_send link (numdns (dns_table s i)) (c_string (dname (dns_table s i))) (word_of_nat i) s) (\<lambda>(_, s). Inr s)"

definition dns_check_entry :: "(nat \<Rightarrow> bytes \<Rightarrow> err_t) \<Rightarrow> 'a dns_found \<Rightarrow> nat \<Rightarrow> 'a dns_like \<Rightarrow> 'a dns_like res" where
  "dns_check_entry link F i s =
     (if \<not> i < DNS_TABLE_SIZE then Inl Abort
      else
        case dstate (dns_table s i) of
          DNS_STATE_NEW \<Rightarrow> ask link i (set_entry_dns i (\<lambda>e. e\<lparr>dstate := DNS_STATE_ASKING, numdns := 0, dtmr := 1, retries := 0\<rparr>) s)
        | DNS_STATE_ASKING \<Rightarrow>
            let s = set_entry_dns i (\<lambda>e. e\<lparr>dtmr := dtmr e - 1\<rparr>) s in
            if dtmr (dns_table s i) \<noteq> 0 then Inr s
            else
              let s = set_entry_dns i (\<lambda>e. e\<lparr>retries := retries e + 1\<rparr>) s; e = dns_table s i in
              if retries e = DNS_MAX_RETRIES
              then
                if unat (numdns e) + 1 < DNS_MAX_SERVERS \<and> dns_servers s (unat (numdns e) + 1) \<noteq> IPADDR_ANY
                then Inr (set_entry_dns i (\<lambda>e. e\<lparr>numdns := numdns e + 1, dtmr := 1, retries := 0\<rparr>) s)
                else rbind (call_found F i None s) (\<lambda>s. Inr (flush_entry i s))
              else ask link i (set_entry_dns i (\<lambda>e. e\<lparr>dtmr := retries e\<rparr>) s)
        | DNS_STATE_DONE \<Rightarrow>
            let s = set_entry_dns i (\<lambda>e. e\<lparr>dttl := dttl e - 1\<rparr>) s in
            Inr (if dttl (dns_table s i) = 0 then flush_entry i s else s)
        | DNS_STATE_UNUSED \<Rightarrow> Inr s)"

primrec check_loop :: "(nat \<Rightarrow> bytes \<Rightarrow> err_t) \<Rightarrow> 'a dns_found \<Rightarrow> nat list \<Rightarrow> 'a dns_like \<Rightarrow> 'a dns_like res" where
  "check_loop link F [] s = Inr s"
| "check_loop link F (i # is) s = rbind (dns_check_entry link F i s) (check_loop link F is)"

definition dns_check_entries :: "(nat \<Rightarrow> bytes \<Rightarrow> err_t) \<Rightarrow> 'a dns_found \<Rightarrow> 'a dns_like \<Rightarrow> 'a dns_like res" where
  "dns_check_entries link F s = check_loop link F [0..<DNS_TABLE_SIZE] s"

definition dns_tmr :: "(nat \<Rightarrow> bytes \<Rightarrow> err_t) \<Rightarrow> 'a dns_found \<Rightarrow> 'a dns_like \<Rightarrow> 'a dns_like res" where
  "dns_tmr link F s = (if dns_pcb s \<noteq> 0 then dns_check_entries link F s else Inr s)"

section \<open>Responses\<close>

text \<open>The big-endian number of two bytes, and of four, at a position of the response.\<close>

definition be16 :: "bytes \<Rightarrow> nat \<Rightarrow> u16" where
  "be16 b q = push_bit 8 (ucast (b ! q)) OR ucast (b ! (q + 1))"

definition be32 :: "bytes \<Rightarrow> nat \<Rightarrow> u32" where
  "be32 b q = push_bit 16 (ucast (be16 b q)) OR ucast (be16 b (q + 2))"

text \<open>An address in memory order.\<close>

definition addr_at :: "bytes \<Rightarrow> nat \<Rightarrow> u32" where
  "addr_at b q = lwip_htonl (be32 b q)"

text \<open>The search of the answers: the time to live and the address of the first usable one, or None.\<close>

primrec answer_loop :: "nat \<Rightarrow> bytes \<Rightarrow> nat \<Rightarrow> (u32 \<times> u32) option res" where
  "answer_loop 0 b q = Inr None"
| "answer_loop (Suc nanswers) b q =
     rbind (dns_parse_name b q) (\<lambda>q.
       if q + SIZEOF_DNS_ANSWER > length b then Inl Bad_Deref
       else if be16 b q = 1 \<and> be16 b (q + 2) = 1 \<and> be16 b (q + 8) = 4
       then (if q + SIZEOF_DNS_ANSWER + 4 > length b then Inl Bad_Deref
         else Inr (Some (min (be32 b (q + 4)) DNS_MAX_TTL, addr_at b (q + SIZEOF_DNS_ANSWER))))
       else answer_loop nanswers b (q + SIZEOF_DNS_ANSWER + unat (be16 b (q + 8))))"

text \<open>What the response in the buffer \<open>b\<close> means for an entry: None an error.\<close>

definition dns_answer :: "bytes \<Rightarrow> bytes \<Rightarrow> (u32 \<times> u32) option res" where
  "dns_answer name b =
     (if b ! 2 AND DNS_FLAG1_RESPONSE = 0 \<or> b ! 3 AND DNS_FLAG2_ERR_MASK \<noteq> 0 \<or> be16 b 4 \<noteq> 1 then Inr None
      else
        rbind (dns_compare_name name 0 b SIZEOF_DNS_HDR) (\<lambda>d.
          if d then Inr None
          else rbind (dns_parse_name b SIZEOF_DNS_HDR) (\<lambda>q. answer_loop (unat (be16 b 6)) b (q + SIZEOF_DNS_QUERY))))"

definition dns_message :: "'a dns_like \<Rightarrow> bytes" where
  "dns_message s = read_bytes (bytes (pb (arp s))) (dns_payload s) DNS_MSG_SIZE"

text \<open>A response for entry \<open>i\<close>, which is asking.\<close>

definition dns_complete :: "'a dns_found \<Rightarrow> nat \<Rightarrow> 'a dns_like \<Rightarrow> 'a dns_like res" where
  "dns_complete F i s =
     (let b = dns_message s;
          s = set_entry_dns i (\<lambda>e. e\<lparr>dstate := DNS_STATE_DONE, derr := b ! 3 AND DNS_FLAG2_ERR_MASK\<rparr>) s
      in
        rbind (dns_answer (dname (dns_table s i)) b) (\<lambda>r.
          case r of
            Some (t, a) \<Rightarrow> call_found F i (Some a) (set_entry_dns i (\<lambda>e. e\<lparr>dttl := t, daddr := a\<rparr>) s)
          | None \<Rightarrow> rbind (call_found F i None s) (\<lambda>s. Inr (flush_entry i s))))"

definition dns_recv :: "'a dns_found \<Rightarrow> nat \<Rightarrow> 'a dns_like \<Rightarrow> 'a dns_like res" where
  "dns_recv F p s =
     (let n = tot_len (pbufs (pb (arp s)) p) in
      if n > DNS_MSG_SIZE \<or> n < SIZEOF_DNS_HDR + SIZEOF_DNS_QUERY + SIZEOF_DNS_ANSWER then release_pbuf p s
      else
        rbind (on_pbs (pbuf_copy_partial p (dns_payload s) n 0) s) (\<lambda>(copied, s).
          let i = unat (be16 (dns_message s) 0) in
          rbind (if copied = n \<and> i < DNS_TABLE_SIZE \<and> dstate (dns_table s i) = DNS_STATE_ASKING then dns_complete F i s else Inr s)
            (release_pbuf p)))"

section \<open>Requests\<close>

text \<open>The search of \<^verbatim>\<open>dns_enqueue\<close>: the first unused entry, or the oldest completed one with the greatest difference.\<close>

primrec entry_scan :: "nat list \<Rightarrow> u8 \<Rightarrow> u8 \<Rightarrow> nat \<Rightarrow> (nat \<Rightarrow> dns_table_entry) \<Rightarrow> nat + nat" where
  "entry_scan [] sq lseq lseqi T = Inr lseqi"
| "entry_scan (i # is) sq lseq lseqi T =
     (if dstate (T i) = DNS_STATE_UNUSED then Inl i
      else if dstate (T i) = DNS_STATE_DONE \<and> int (unat sq) - int (unat (dseqno (T i))) > int (unat lseq)
      then entry_scan is sq (sq - dseqno (T i)) i T
      else entry_scan is sq lseq lseqi T)"

definition free_entry :: "'a dns_like \<Rightarrow> nat option" where
  "free_entry s =
     (case entry_scan [0..<DNS_TABLE_SIZE] (dns_seqno s) 0 0 (dns_table s) of
        Inl i \<Rightarrow> Some i
      | Inr i \<Rightarrow> if i \<ge> DNS_TABLE_SIZE \<or> dstate (dns_table s i) \<noteq> DNS_STATE_DONE then None else Some i)"

text \<open>Copying a name into the array of an entry.\<close>

definition put_name :: "bytes \<Rightarrow> bytes \<Rightarrow> bytes" where
  "put_name name old =
     (let n = min (length name) (DNS_MAX_NAME_LENGTH - 1) in take n name @ [0] @ drop (n + 1) old)"

definition dns_enqueue :: "(nat \<Rightarrow> bytes \<Rightarrow> err_t) \<Rightarrow> 'a dns_found \<Rightarrow> bytes \<Rightarrow> nat \<Rightarrow> nat \<Rightarrow> 'a dns_like \<Rightarrow> (err_t \<times> 'a dns_like) res" where
  "dns_enqueue link F name fn fn_arg s =
     (case free_entry s of
        None \<Rightarrow> Inr (ERR_MEM, s)
      | Some i \<Rightarrow>
          let s = set_entry_dns i (\<lambda>e. e\<lparr>dstate := DNS_STATE_NEW, dseqno := dns_seqno s, found := fn, found_arg := fn_arg,
                dname := put_name name (dname e)\<rparr>) s;
              s = s\<lparr>dns_seqno := dns_seqno s + 1\<rparr>
          in rbind (dns_check_entry link F i s) (\<lambda>s. Inr (ERR_INPROGRESS, s)))"

text \<open>The result with the address that is stored through \<open>addr\<close>, if any; \<open>has_addr\<close> says whether \<^verbatim>\<open>addr\<close> is not NULL.\<close>

definition dns_gethostbyname ::
    "(nat \<Rightarrow> bytes \<Rightarrow> err_t) \<Rightarrow> 'a dns_found \<Rightarrow> bytes option \<Rightarrow> bool \<Rightarrow> nat \<Rightarrow> nat \<Rightarrow> 'a dns_like \<Rightarrow> ((err_t \<times> u32 option) \<times> 'a dns_like) res" where
  "dns_gethostbyname link F hostname has_addr fn fn_arg s =
     (case hostname of
        None \<Rightarrow> Inr ((ERR_ARG, None), s)
      | Some name \<Rightarrow>
          if dns_pcb s = 0 \<or> \<not> has_addr \<or> name = [] \<or> length name \<ge> DNS_MAX_NAME_LENGTH then Inr ((ERR_ARG, None), s)
          else
            let ip = ipaddr_addr (characters name) in
            rbind (if ip = IPADDR_NONE then dns_lookup name s else Inr ip) (\<lambda>ip.
              if ip \<noteq> IPADDR_NONE then Inr ((ERR_OK, Some ip), s)
              else rbind (dns_enqueue link F name fn fn_arg s) (\<lambda>(e, s). Inr ((e, None), s))))"

end
