(* ===== verification/Tcp_Base.thy ===== *)
theory Tcp_Base
  imports Dns Timers
begin

text \<open>
  The state of TCP: \<^verbatim>\<open>tcp.h\<close>, \<^verbatim>\<open>tcp_impl.h\<close> and the functions of \<^verbatim>\<open>tcp.c\<close> on segments and PCB lists, with
  the options of \<^verbatim>\<open>opt.h\<close>: \<^verbatim>\<open>TCP_QUEUE_OOSEQ\<close>, \<^verbatim>\<open>TCP_OVERSIZE\<close> and \<^verbatim>\<open>TCP_CALCULATE_EFF_SEND_MSS\<close> on;
  timestamps, the backlog, keepalive tuning, the limits of the out-of-sequence queue and checksums on copy off. A PCB
  and a segment are found by their addresses; a listening PCB uses the fields that \<^verbatim>\<open>struct tcp_pcb_listen\<close>
  shares. The header of a segment lies in the byte memory at \<open>shdr\<close>. Fields of type \<^verbatim>\<open>s16_t\<close> are
  integers reduced by \<open>s16_of\<close>. What the application does in a callback is an argument (\<open>tcp_app\<close>): it may
  change the whole state.
\<close>

section \<open>Constants\<close>

abbreviation TCP_MSS :: u16 where "TCP_MSS \<equiv> 1024"
abbreviation TCP_WND :: u16 where "TCP_WND \<equiv> 4096"
abbreviation TCP_SND_BUF :: u16 where "TCP_SND_BUF \<equiv> 2048"
abbreviation TCP_SND_QUEUELEN :: u16 where "TCP_SND_QUEUELEN \<equiv> 8"
abbreviation TCP_SNDQUEUELEN_OVERFLOW :: u16 where "TCP_SNDQUEUELEN_OVERFLOW \<equiv> 0xfffc"
abbreviation TCP_OVERSIZE :: nat where "TCP_OVERSIZE \<equiv> 1024"
abbreviation TCP_WND_UPDATE_THRESHOLD :: nat where "TCP_WND_UPDATE_THRESHOLD \<equiv> 1024"
abbreviation TCP_TTL :: u8 where "TCP_TTL \<equiv> 255"
abbreviation TCP_MAXRTX :: u8 where "TCP_MAXRTX \<equiv> 12"
abbreviation TCP_SYNMAXRTX :: u8 where "TCP_SYNMAXRTX \<equiv> 6"
abbreviation TCP_SLOW_INTERVAL :: u32 where "TCP_SLOW_INTERVAL \<equiv> 500"
abbreviation TCP_FIN_WAIT_TIMEOUT :: u32 where "TCP_FIN_WAIT_TIMEOUT \<equiv> 20000"
abbreviation TCP_SYN_RCVD_TIMEOUT :: u32 where "TCP_SYN_RCVD_TIMEOUT \<equiv> 20000"
abbreviation TCP_OOSEQ_TIMEOUT :: u32 where "TCP_OOSEQ_TIMEOUT \<equiv> 6"
abbreviation TCP_HLEN :: nat where "TCP_HLEN \<equiv> 20"
abbreviation TCP_PRIO_NORMAL :: u8 where "TCP_PRIO_NORMAL \<equiv> 64"
abbreviation TCP_PRIO_MAX :: u8 where "TCP_PRIO_MAX \<equiv> 127"
abbreviation TCP_LOCAL_PORT_RANGE_START :: u16 where "TCP_LOCAL_PORT_RANGE_START \<equiv> 0xc000"
abbreviation TCP_LOCAL_PORT_RANGE_END :: u16 where "TCP_LOCAL_PORT_RANGE_END \<equiv> 0xffff"

text \<open>\<^verbatim>\<open>TCP_MSL\<close>, \<^verbatim>\<open>TCP_KEEPIDLE_DEFAULT\<close> and \<^verbatim>\<open>TCP_KEEPINTVL_DEFAULT\<close> are \<^verbatim>\<open>unsigned long\<close>, 64 bits wide on the host.\<close>

abbreviation TCP_MSL :: nat where "TCP_MSL \<equiv> 60000"
abbreviation TCP_KEEPIDLE_DEFAULT :: u32 where "TCP_KEEPIDLE_DEFAULT \<equiv> 7200000"
abbreviation TCP_KEEPINTVL_DEFAULT :: nat where "TCP_KEEPINTVL_DEFAULT \<equiv> 75000"
abbreviation TCP_MAXIDLE :: nat where "TCP_MAXIDLE \<equiv> 9 * 75000"

abbreviation TCP_FIN :: u16 where "TCP_FIN \<equiv> 0x01"
abbreviation TCP_SYN :: u16 where "TCP_SYN \<equiv> 0x02"
abbreviation TCP_RST :: u16 where "TCP_RST \<equiv> 0x04"
abbreviation TCP_PSH :: u16 where "TCP_PSH \<equiv> 0x08"
abbreviation TCP_ACK :: u16 where "TCP_ACK \<equiv> 0x10"
abbreviation TCP_FLAGS :: u16 where "TCP_FLAGS \<equiv> 0x3f"

abbreviation TF_ACK_DELAY :: u8 where "TF_ACK_DELAY \<equiv> 0x01"
abbreviation TF_ACK_NOW :: u8 where "TF_ACK_NOW \<equiv> 0x02"
abbreviation TF_INFR :: u8 where "TF_INFR \<equiv> 0x04"
abbreviation TF_RXCLOSED :: u8 where "TF_RXCLOSED \<equiv> 0x10"
abbreviation TF_FIN :: u8 where "TF_FIN \<equiv> 0x20"
abbreviation TF_NODELAY :: u8 where "TF_NODELAY \<equiv> 0x40"
abbreviation TF_NAGLEMEMERR :: u8 where "TF_NAGLEMEMERR \<equiv> 0x80"
abbreviation TF_RESET :: u8 where "TF_RESET \<equiv> 0x08"
abbreviation TF_CLOSED :: u8 where "TF_CLOSED \<equiv> 0x10"
abbreviation TF_GOT_FIN :: u8 where "TF_GOT_FIN \<equiv> 0x20"
abbreviation TF_SEG_OPTS_MSS :: u8 where "TF_SEG_OPTS_MSS \<equiv> 0x01"
abbreviation TF_SEG_OPTS_TS :: u8 where "TF_SEG_OPTS_TS \<equiv> 0x02"
abbreviation TCP_WRITE_FLAG_COPY :: u8 where "TCP_WRITE_FLAG_COPY \<equiv> 0x01"
abbreviation TCP_WRITE_FLAG_MORE :: u8 where "TCP_WRITE_FLAG_MORE \<equiv> 0x02"
abbreviation SOF_ACCEPTCONN :: u8 where "SOF_ACCEPTCONN \<equiv> 0x02"
abbreviation SOF_KEEPALIVE :: u8 where "SOF_KEEPALIVE \<equiv> 0x08"
abbreviation SOF_INHERITED :: u8 where "SOF_INHERITED \<equiv> 0x8c"
abbreviation PBUF_FLAG_TCP_FIN :: u8 where "PBUF_FLAG_TCP_FIN \<equiv> 0x20"

text \<open>At most 64 segments exist.\<close>

abbreviation SEG_MAX :: nat where "SEG_MAX \<equiv> 128"

definition s16_of :: "int \<Rightarrow> int" where
  "s16_of i = (i + 32768) mod 65536 - 32768"

section \<open>States\<close>

datatype tcp_fsm =
    CLOSED | LISTEN | SYN_SENT | SYN_RCVD | ESTABLISHED | FIN_WAIT_1 | FIN_WAIT_2 | CLOSE_WAIT | CLOSING | LAST_ACK | TIME_WAIT

fun fsm_num :: "tcp_fsm \<Rightarrow> nat" where
  "fsm_num CLOSED = 0" | "fsm_num LISTEN = 1" | "fsm_num SYN_SENT = 2" | "fsm_num SYN_RCVD = 3" | "fsm_num ESTABLISHED = 4"
| "fsm_num FIN_WAIT_1 = 5" | "fsm_num FIN_WAIT_2 = 6" | "fsm_num CLOSE_WAIT = 7" | "fsm_num CLOSING = 8"
| "fsm_num LAST_ACK = 9" | "fsm_num TIME_WAIT = 10"

lemma fsm_num_inj: "fsm_num x = fsm_num y \<Longrightarrow> x = y"
  by (cases x; cases y) simp_all

text \<open>The states are compared by their numbers.\<close>

instantiation tcp_fsm :: linorder
begin

definition less_eq_tcp_fsm :: "tcp_fsm \<Rightarrow> tcp_fsm \<Rightarrow> bool" where
  "x \<le> y \<longleftrightarrow> fsm_num x \<le> fsm_num y"

definition less_tcp_fsm :: "tcp_fsm \<Rightarrow> tcp_fsm \<Rightarrow> bool" where
  "x < y \<longleftrightarrow> fsm_num x < fsm_num y"

instance
  by standard (auto simp: less_eq_tcp_fsm_def less_tcp_fsm_def dest: fsm_num_inj)

end

record tcp_pcb = ip_pcb +
  pcb_next :: nat
  callback_arg :: nat
  taccept :: nat
  fsm :: tcp_fsm
  prio :: u8
  tlocal_port :: u16
  tremote_port :: u16
  tflags :: u8
  polltmr :: u8
  pollinterval :: u8
  last_timer :: u8
  tmr :: u32
  rcv_nxt :: u32
  rcv_wnd :: u16
  rcv_ann_wnd :: u16
  rcv_ann_right_edge :: u32
  rtime :: int
  mss :: u16
  rttest :: u32
  rtseq :: u32
  sa :: int
  sv :: int
  rto :: int
  nrtx :: u8
  dupacks :: u8
  lastack :: u32
  cwnd :: u16
  ssthresh :: u16
  snd_nxt :: u32
  snd_wl1 :: u32
  snd_wl2 :: u32
  snd_lbb :: u32
  snd_wnd :: u16
  snd_wnd_max :: u16
  acked :: u16
  snd_buf :: u16
  snd_queuelen :: u16
  unsent_oversize :: u16
  unsent :: nat
  unacked :: nat
  ooseq :: nat
  refused_data :: nat
  tsent :: nat
  trecv :: nat
  tconnected :: nat
  tpoll :: nat
  terrf :: nat
  keep_idle :: u32
  persist_cnt :: u8
  persist_backoff :: u8
  keep_cnt_sent :: u8

record tcp_seg =
  seg_next :: nat
  sp :: nat
  slen :: nat
  soptflags :: u8
  shdr :: nat

text \<open>The four lists of \<^verbatim>\<open>tcp_pcb_lists\<close>, in its order.\<close>

datatype pcb_list = Listen_Pcbs | Bound_Pcbs | Active_Pcbs | Tw_Pcbs

text \<open>The variables of \<^verbatim>\<open>tcp.c\<close>, then those that \<^verbatim>\<open>tcp_input\<close> sets for the segment it is working on, then the timeouts.\<close>

record tcp_state = dns_state +
  tpcb :: "nat \<Rightarrow> tcp_pcb"
  segs :: "nat \<Rightarrow> tcp_seg"
  pcb_lists :: "pcb_list \<Rightarrow> nat"
  tcp_port :: u16
  tcp_ticks :: u32
  tcp_active_pcbs_changed :: bool
  tcp_timer :: u8
  tcp_timer_ctr :: u8
  iss :: u32
  inseg :: tcp_seg
  seqno :: u32
  ackno :: u32
  iflags :: u16
  tcplen :: u16
  recv_flags :: u8
  recv_data :: nat
  tcp_input_pcb :: nat
  timeouts :: timers

type_synonym 'a tcp_like = "'a tcp_state_scheme"

text \<open>
  The world around TCP: the driver's answers, and what the application does in its callbacks, by the function pointer
  stored in the PCB. Those that return \<^verbatim>\<open>err_t\<close> give a result and a state.
\<close>

record 's tcp_app =
  linkf :: "nat \<Rightarrow> bytes \<Rightarrow> err_t"
  accept_fn :: "nat \<Rightarrow> nat \<Rightarrow> nat \<Rightarrow> err_t \<Rightarrow> 's \<Rightarrow> (err_t \<times> 's) res"
  sent_fn :: "nat \<Rightarrow> nat \<Rightarrow> nat \<Rightarrow> u16 \<Rightarrow> 's \<Rightarrow> (err_t \<times> 's) res"
  recv_fn :: "nat \<Rightarrow> nat \<Rightarrow> nat \<Rightarrow> nat \<Rightarrow> err_t \<Rightarrow> 's \<Rightarrow> (err_t \<times> 's) res"
  connected_fn :: "nat \<Rightarrow> nat \<Rightarrow> nat \<Rightarrow> err_t \<Rightarrow> 's \<Rightarrow> (err_t \<times> 's) res"
  poll_fn :: "nat \<Rightarrow> nat \<Rightarrow> nat \<Rightarrow> 's \<Rightarrow> (err_t \<times> 's) res"
  err_fn :: "nat \<Rightarrow> nat \<Rightarrow> err_t \<Rightarrow> 's \<Rightarrow> 's res"

definition set_tpcb :: "nat \<Rightarrow> (tcp_pcb \<Rightarrow> tcp_pcb) \<Rightarrow> 'a tcp_like \<Rightarrow> 'a tcp_like" where
  "set_tpcb p f s = s\<lparr>tpcb := (tpcb s)(p := f (tpcb s p))\<rparr>"

definition set_seg :: "nat \<Rightarrow> (tcp_seg \<Rightarrow> tcp_seg) \<Rightarrow> 'a tcp_like \<Rightarrow> 'a tcp_like" where
  "set_seg g f s = s\<lparr>segs := (segs s)(g := f (segs s g))\<rparr>"

definition set_list :: "pcb_list \<Rightarrow> nat \<Rightarrow> 'a tcp_like \<Rightarrow> 'a tcp_like" where
  "set_list l p s = s\<lparr>pcb_lists := (pcb_lists s)(l := p)\<rparr>"

definition set_flag :: "nat \<Rightarrow> u8 \<Rightarrow> 'a tcp_like \<Rightarrow> 'a tcp_like" where
  "set_flag p f s = set_tpcb p (\<lambda>u. u\<lparr>tflags := tflags u OR f\<rparr>) s"

definition clear_flag :: "nat \<Rightarrow> u8 \<Rightarrow> 'a tcp_like \<Rightarrow> 'a tcp_like" where
  "clear_flag p f s = set_tpcb p (\<lambda>u. u\<lparr>tflags := tflags u AND NOT f\<rparr>) s"

definition has_flag :: "u8 \<Rightarrow> tcp_pcb \<Rightarrow> bool" where
  "has_flag f u \<longleftrightarrow> tflags u AND f \<noteq> 0"

definition tcp_ack_now :: "nat \<Rightarrow> 'a tcp_like \<Rightarrow> 'a tcp_like" where
  "tcp_ack_now p s = set_flag p TF_ACK_NOW s"

definition tcp_ack :: "nat \<Rightarrow> 'a tcp_like \<Rightarrow> 'a tcp_like" where
  "tcp_ack p s =
     (if has_flag TF_ACK_DELAY (tpcb s p) then set_flag p TF_ACK_NOW (clear_flag p TF_ACK_DELAY s)
      else set_flag p TF_ACK_DELAY s)"

section \<open>Sequence numbers\<close>

definition TCP_SEQ_LT :: "u32 \<Rightarrow> u32 \<Rightarrow> bool" where "TCP_SEQ_LT a b \<longleftrightarrow> sint (a - b) < 0"
definition TCP_SEQ_LEQ :: "u32 \<Rightarrow> u32 \<Rightarrow> bool" where "TCP_SEQ_LEQ a b \<longleftrightarrow> sint (a - b) \<le> 0"
definition TCP_SEQ_GT :: "u32 \<Rightarrow> u32 \<Rightarrow> bool" where "TCP_SEQ_GT a b \<longleftrightarrow> sint (a - b) > 0"
definition TCP_SEQ_GEQ :: "u32 \<Rightarrow> u32 \<Rightarrow> bool" where "TCP_SEQ_GEQ a b \<longleftrightarrow> sint (a - b) \<ge> 0"

definition TCP_SEQ_BETWEEN :: "u32 \<Rightarrow> u32 \<Rightarrow> u32 \<Rightarrow> bool" where
  "TCP_SEQ_BETWEEN a b c \<longleftrightarrow> TCP_SEQ_GEQ a b \<and> TCP_SEQ_LEQ a c"

section \<open>Headers in memory\<close>

definition memory :: "'a ip_like \<Rightarrow> nat \<Rightarrow> u8" where
  "memory s = bytes (pb (arp s))"

definition mem_u16 :: "nat \<Rightarrow> 'a ip_like \<Rightarrow> u16" where
  "mem_u16 a s = ucast (memory s a) OR push_bit 8 (ucast (memory s (a + 1)))"

definition mem_u32 :: "nat \<Rightarrow> 'a ip_like \<Rightarrow> u32" where
  "mem_u32 a s = load_u32 (memory s) a"

definition put :: "nat \<Rightarrow> bytes \<Rightarrow> 'a ip_like \<Rightarrow> 'a ip_like" where
  "put a bs s = set_arp (poke a bs (arp s)) s"

text \<open>
  The fields of a \<^verbatim>\<open>struct tcp_hdr\<close> at an address: \<^verbatim>\<open>src\<close> 0, \<^verbatim>\<open>dest\<close> 2, \<^verbatim>\<open>seqno\<close> 4, \<^verbatim>\<open>ackno\<close> 8,
  \<^verbatim>\<open>_hdrlen_rsvd_flags\<close> 12, \<^verbatim>\<open>wnd\<close> 14, \<^verbatim>\<open>chksum\<close> 16, \<^verbatim>\<open>urgp\<close> 18.
\<close>

definition TCPH_HDRLEN :: "nat \<Rightarrow> 'a ip_like \<Rightarrow> nat" where
  "TCPH_HDRLEN p s = unat (drop_bit 12 (lwip_ntohs (mem_u16 (p + 12) s)))"

definition TCPH_FLAGS :: "nat \<Rightarrow> 'a ip_like \<Rightarrow> u16" where
  "TCPH_FLAGS p s = lwip_ntohs (mem_u16 (p + 12) s) AND TCP_FLAGS"

definition TCPH_FLAGS_SET :: "nat \<Rightarrow> u16 \<Rightarrow> 'a ip_like \<Rightarrow> 'a ip_like" where
  "TCPH_FLAGS_SET p f s = put (p + 12) (host_bytes16 ((mem_u16 (p + 12) s AND lwip_htons (NOT TCP_FLAGS)) OR lwip_htons f)) s"

definition TCPH_HDRLEN_FLAGS_SET :: "nat \<Rightarrow> nat \<Rightarrow> u16 \<Rightarrow> 'a ip_like \<Rightarrow> 'a ip_like" where
  "TCPH_HDRLEN_FLAGS_SET p len f s = put (p + 12) (net_bytes16 (push_bit 12 (word_of_nat len) OR f)) s"

definition TCPH_SET_FLAG :: "nat \<Rightarrow> u16 \<Rightarrow> 'a ip_like \<Rightarrow> 'a ip_like" where
  "TCPH_SET_FLAG p f s = put (p + 12) (host_bytes16 (mem_u16 (p + 12) s OR lwip_htons f)) s"

text \<open>The sequence number of a segment on the queues for sending, where it is in network order.\<close>

definition seg_seqno :: "nat \<Rightarrow> 'a tcp_like \<Rightarrow> u32" where
  "seg_seqno g s = lwip_ntohl (mem_u32 (shdr (segs s g) + 4) s)"

text \<open>The sequence number of a received segment, which \<^verbatim>\<open>tcp_input\<close> has converted in place.\<close>

definition in_seqno :: "tcp_seg \<Rightarrow> 'a tcp_like \<Rightarrow> u32" where
  "in_seqno g s = mem_u32 (shdr g + 4) s"

definition TCP_TCPLEN :: "tcp_seg \<Rightarrow> 'a tcp_like \<Rightarrow> nat" where
  "TCP_TCPLEN g s = slen g + (if TCPH_FLAGS (shdr g) s AND (TCP_FIN OR TCP_SYN) \<noteq> 0 then 1 else 0)"

definition LWIP_TCP_OPT_LENGTH :: "u8 \<Rightarrow> nat" where
  "LWIP_TCP_OPT_LENGTH f = (if f AND TF_SEG_OPTS_MSS \<noteq> 0 then 4 else 0) + (if f AND TF_SEG_OPTS_TS \<noteq> 0 then 12 else 0)"

section \<open>Pools, segments and lists\<close>

definition pool_get :: "memp_t \<Rightarrow> 'a ip_like \<Rightarrow> (nat \<times> 'a ip_like) res" where
  "pool_get i s =
     rbind (memp_malloc i (pools (pb (arp s)))) (\<lambda>(m, ps). Inr (m, set_arp (set_pbs ((pb (arp s))\<lparr>pools := ps\<rparr>) (arp s)) s))"

definition pool_put :: "memp_t \<Rightarrow> nat \<Rightarrow> 'a ip_like \<Rightarrow> 'a ip_like" where
  "pool_put i m s = set_arp (set_pbs ((pb (arp s))\<lparr>pools := memp_free i m (pools (pb (arp s)))\<rparr>) (arp s)) s"

text \<open>An operation on the packet buffers that returns nothing.\<close>

definition do_pbs :: "(pb_state \<Rightarrow> pb_state res) \<Rightarrow> 'a ip_like \<Rightarrow> 'a ip_like res" where
  "do_pbs f s = rbind (f (pb (arp s))) (\<lambda>b. Inr (set_arp (set_pbs b (arp s)) s))"

definition the_pbuf :: "'a ip_like \<Rightarrow> nat \<Rightarrow> pbuf" where
  "the_pbuf s p = pbufs (pb (arp s)) p"

definition set_pbuf :: "nat \<Rightarrow> (pbuf \<Rightarrow> pbuf) \<Rightarrow> 'a ip_like \<Rightarrow> 'a ip_like" where
  "set_pbuf p f s = set_arp (set_pbs (upd p f (pb (arp s))) (arp s)) s"

definition tcp_seg_free :: "nat \<Rightarrow> 'a tcp_like \<Rightarrow> 'a tcp_like res" where
  "tcp_seg_free g s =
     (if g \<noteq> 0
      then rbind (if sp (segs s g) \<noteq> 0 then release_pbuf (sp (segs s g)) s else Inr s) (\<lambda>s. Inr (pool_put MEMP_TCP_SEG g s))
      else Inr s)"

primrec segs_free_loop :: "nat \<Rightarrow> nat \<Rightarrow> 'a tcp_like \<Rightarrow> 'a tcp_like res" where
  "segs_free_loop 0 g s = Inl No_Fuel"
| "segs_free_loop (Suc fuel) g s =
     (if g = 0 then Inr s else let nx = seg_next (segs s g) in rbind (tcp_seg_free g s) (segs_free_loop fuel nx))"

definition tcp_segs_free :: "nat \<Rightarrow> 'a tcp_like \<Rightarrow> 'a tcp_like res" where
  "tcp_segs_free g s = segs_free_loop SEG_MAX g s"

definition tcp_seg_copy :: "tcp_seg \<Rightarrow> 'a tcp_like \<Rightarrow> (nat \<times> 'a tcp_like) res" where
  "tcp_seg_copy g s =
     rbind (pool_get MEMP_TCP_SEG s) (\<lambda>(c, s).
       if c = 0 then Inr (0, s)
       else Inr (c, set_seg c (\<lambda>_. g) (set_arp (set_pbs (pbuf_ref (sp g) (pb (arp s))) (arp s)) s)))"

text \<open>The last segment of a queue that is not empty.\<close>

primrec last_seg :: "nat \<Rightarrow> nat \<Rightarrow> (nat \<Rightarrow> tcp_seg) \<Rightarrow> nat res" where
  "last_seg 0 g S = Inl No_Fuel"
| "last_seg (Suc fuel) g S = (if seg_next (S g) = 0 then Inr g else last_seg fuel (seg_next (S g)) S)"

text \<open>\<^verbatim>\<open>tcp_timer_needed\<close> of \<^verbatim>\<open>timers.c\<close>; the timeouts come from the same pools as everything else.\<close>

definition timer_needed :: "'a tcp_like \<Rightarrow> 'a tcp_like res" where
  "timer_needed s =
     rbind (tcp_timer_needed (pcb_lists s Active_Pcbs \<noteq> 0 \<or> pcb_lists s Tw_Pcbs \<noteq> 0) ((timeouts s)\<lparr>tpools := pools (pb (arp s))\<rparr>)) (\<lambda>t.
       Inr ((set_arp (set_pbs ((pb (arp s))\<lparr>pools := tpools t\<rparr>) (arp s)) s)\<lparr>timeouts := t\<rparr>))"

definition TCP_REG :: "pcb_list \<Rightarrow> nat \<Rightarrow> 'a tcp_like \<Rightarrow> 'a tcp_like res" where
  "TCP_REG l p s = timer_needed (set_list l p (set_tpcb p (\<lambda>u. u\<lparr>pcb_next := pcb_lists s l\<rparr>) s))"

primrec rmv_loop :: "nat \<Rightarrow> nat \<Rightarrow> nat \<Rightarrow> 'a tcp_like \<Rightarrow> 'a tcp_like res" where
  "rmv_loop 0 q p s = Inl No_Fuel"
| "rmv_loop (Suc fuel) q p s =
     (if q = 0 then Inr s
      else if pcb_next (tpcb s q) = p then Inr (set_tpcb q (\<lambda>u. u\<lparr>pcb_next := pcb_next (tpcb s p)\<rparr>) s)
      else rmv_loop fuel (pcb_next (tpcb s q)) p s)"

definition TCP_RMV :: "pcb_list \<Rightarrow> nat \<Rightarrow> 'a tcp_like \<Rightarrow> 'a tcp_like res" where
  "TCP_RMV l p s =
     rbind
       (if pcb_lists s l = p then Inr (set_list l (pcb_next (tpcb s p)) s) else rmv_loop PCB_MAX (pcb_lists s l) p s)
       (\<lambda>s. Inr (set_tpcb p (\<lambda>u. u\<lparr>pcb_next := 0\<rparr>) s))"

definition TCP_REG_ACTIVE :: "nat \<Rightarrow> 'a tcp_like \<Rightarrow> 'a tcp_like res" where
  "TCP_REG_ACTIVE p s = rbind (TCP_REG Active_Pcbs p s) (\<lambda>s. Inr (s\<lparr>tcp_active_pcbs_changed := True\<rparr>))"

definition TCP_RMV_ACTIVE :: "nat \<Rightarrow> 'a tcp_like \<Rightarrow> 'a tcp_like res" where
  "TCP_RMV_ACTIVE p s = rbind (TCP_RMV Active_Pcbs p s) (\<lambda>s. Inr (s\<lparr>tcp_active_pcbs_changed := True\<rparr>))"

definition tcp_pcb_purge :: "nat \<Rightarrow> 'a tcp_like \<Rightarrow> 'a tcp_like res" where
  "tcp_pcb_purge p s =
     (if fsm (tpcb s p) \<noteq> CLOSED \<and> fsm (tpcb s p) \<noteq> TIME_WAIT \<and> fsm (tpcb s p) \<noteq> LISTEN
      then
        rbind
          (if refused_data (tpcb s p) \<noteq> 0
           then rbind (release_pbuf (refused_data (tpcb s p)) s) (\<lambda>s. Inr (set_tpcb p (\<lambda>u. u\<lparr>refused_data := 0\<rparr>) s))
           else Inr s) (\<lambda>s.
        rbind (tcp_segs_free (ooseq (tpcb s p)) s) (\<lambda>s.
        let s = set_tpcb p (\<lambda>u. u\<lparr>ooseq := 0, rtime := -1\<rparr>) s in
        rbind (tcp_segs_free (unsent (tpcb s p)) s) (\<lambda>s.
        rbind (tcp_segs_free (unacked (tpcb s p)) s) (\<lambda>s.
          Inr (set_tpcb p (\<lambda>u. u\<lparr>unacked := 0, unsent := 0, unsent_oversize := 0\<rparr>) s)))))
      else Inr s)"

definition tcp_eff_send_mss :: "u16 \<Rightarrow> u32 \<Rightarrow> 'a ip_like \<Rightarrow> u16 res" where
  "tcp_eff_send_mss sendmss addr s =
     rbind (ip_route addr (arp s)) (\<lambda>n.
       Inr (if n \<noteq> 0 \<and> mtu (ifs (arp s) n) \<noteq> 0
            then min sendmss (mtu (ifs (arp s) n) - word_of_nat IP_HLEN - word_of_nat TCP_HLEN) else sendmss))"

definition tcp_next_iss :: "'a tcp_like \<Rightarrow> u32 \<times> 'a tcp_like" where
  "tcp_next_iss s = (iss s + tcp_ticks s, s\<lparr>iss := iss s + tcp_ticks s\<rparr>)"

end
