(* ===== verification/Tcp_Out.thy ===== *)
theory Tcp_Out
  imports Tcp_Base
begin

text \<open>
  \<^verbatim>\<open>src/src/lwip/core/tcp_out.c\<close>: building segments, queueing data and flags, sending what the windows
  allow, retransmission, and the probes. A result 0 stands for \<^verbatim>\<open>NULL\<close>. Walks over queues have fuel
  \<open>SEG_MAX\<close>.
\<close>

section \<open>Segments without a queue\<close>

text \<open>A TCP header, as the 20 bytes that lie in a packet.\<close>

definition tcp_hdr :: "u16 \<Rightarrow> u16 \<Rightarrow> u32 \<Rightarrow> u32 \<Rightarrow> nat \<Rightarrow> u16 \<Rightarrow> u16 \<Rightarrow> bytes" where
  "tcp_hdr sport dport seqno_be ack hdrlen f wnd =
     net_bytes16 sport @ net_bytes16 dport @ host_bytes32 seqno_be @ host_bytes32 (lwip_htonl ack) @
     net_bytes16 (push_bit 12 (word_of_nat hdrlen) OR f) @ net_bytes16 wnd @ [0, 0] @ [0, 0]"

definition tcp_output_alloc_header :: "nat \<Rightarrow> nat \<Rightarrow> nat \<Rightarrow> u32 \<Rightarrow> 'a tcp_like \<Rightarrow> (nat \<times> 'a tcp_like) res" where
  "tcp_output_alloc_header pcb optlen datalen seqno_be s =
     rbind (on_pbs (pbuf_alloc PBUF_IP (TCP_HLEN + optlen + datalen) PBUF_RAM) s) (\<lambda>(p, s).
       if p = 0 then Inr (0, s)
       else if \<not> plen (the_pbuf s p) \<ge> TCP_HLEN + optlen then Inl Abort
       else
         let u = tpcb s pcb;
             s = put (payload (the_pbuf s p))
               (tcp_hdr (tlocal_port u) (tremote_port u) seqno_be (rcv_nxt u) (5 + optlen div 4) TCP_ACK (rcv_ann_wnd u)) s
         in Inr (p, set_tpcb pcb (\<lambda>u. u\<lparr>rcv_ann_right_edge := rcv_nxt u + ucast (rcv_ann_wnd u)\<rparr>) s))"

text \<open>Filling in the checksum of the packet \<open>p\<close>, passing it to IP and releasing it.\<close>

definition chksum_packet :: "nat \<Rightarrow> u32 \<Rightarrow> u32 \<Rightarrow> 'a ip_like \<Rightarrow> 'a ip_like res" where
  "chksum_packet p src dst s =
     rbind (inet_chksum_pseudo p src dst IP_PROTO_TCP (word_of_nat (tot_len (the_pbuf s p))) (pb (arp s))) (\<lambda>c.
       Inr (put (payload (the_pbuf s p) + 16) (host_bytes16 (word_of_nat c)) s))"

definition send_packet_tcp :: "(nat \<Rightarrow> bytes \<Rightarrow> err_t) \<Rightarrow> nat \<Rightarrow> u32 \<Rightarrow> u32 \<Rightarrow> u8 \<Rightarrow> u8 \<Rightarrow> 'a ip_like \<Rightarrow> 'a ip_like res" where
  "send_packet_tcp link p src dst ttl' tos' s =
     rbind (chksum_packet p src dst s) (\<lambda>s.
     rbind (ip_output link p src dst ttl' tos' IP_PROTO_TCP s) (\<lambda>(_, s).
       release_pbuf p s))"

definition tcp_send_empty_ack :: "(nat \<Rightarrow> bytes \<Rightarrow> err_t) \<Rightarrow> nat \<Rightarrow> 'a tcp_like \<Rightarrow> (err_t \<times> 'a tcp_like) res" where
  "tcp_send_empty_ack link pcb s =
     rbind (tcp_output_alloc_header pcb 0 0 (lwip_htonl (snd_nxt (tpcb s pcb))) s) (\<lambda>(p, s).
       if p = 0 then Inr (ERR_BUF, s)
       else
         let s = clear_flag pcb (TF_ACK_DELAY OR TF_ACK_NOW) s; u = tpcb s pcb in
         rbind (send_packet_tcp link p (local_ip u) (remote_ip u) (ttl u) (tos u) s) (\<lambda>s. Inr (ERR_OK, s)))"

definition tcp_rst ::
    "(nat \<Rightarrow> bytes \<Rightarrow> err_t) \<Rightarrow> u32 \<Rightarrow> u32 \<Rightarrow> u32 \<Rightarrow> u32 \<Rightarrow> u16 \<Rightarrow> u16 \<Rightarrow> 'a ip_like \<Rightarrow> 'a ip_like res" where
  "tcp_rst link seq ack src dst sport dport s =
     rbind (on_pbs (pbuf_alloc PBUF_IP TCP_HLEN PBUF_RAM) s) (\<lambda>(p, s).
       if p = 0 then Inr s
       else if \<not> plen (the_pbuf s p) \<ge> TCP_HLEN then Inl Abort
       else
         send_packet_tcp link p src dst TCP_TTL 0
           (put (payload (the_pbuf s p)) (tcp_hdr sport dport (lwip_htonl seq) ack (TCP_HLEN div 4) (TCP_RST OR TCP_ACK) TCP_WND) s))"

definition tcp_keepalive :: "(nat \<Rightarrow> bytes \<Rightarrow> err_t) \<Rightarrow> nat \<Rightarrow> 'a tcp_like \<Rightarrow> 'a tcp_like res" where
  "tcp_keepalive link pcb s =
     rbind (tcp_output_alloc_header pcb 0 0 (lwip_htonl (snd_nxt (tpcb s pcb) - 1)) s) (\<lambda>(p, s).
       if p = 0 then Inr s
       else let u = tpcb s pcb in send_packet_tcp link p (local_ip u) (remote_ip u) (ttl u) 0 s)"

definition tcp_zero_window_probe :: "(nat \<Rightarrow> bytes \<Rightarrow> err_t) \<Rightarrow> nat \<Rightarrow> 'a tcp_like \<Rightarrow> 'a tcp_like res" where
  "tcp_zero_window_probe link pcb s =
     (let g = (if unacked (tpcb s pcb) = 0 then unsent (tpcb s pcb) else unacked (tpcb s pcb)) in
      if g = 0 then Inr s
      else
        let is_fin = TCPH_FLAGS (shdr (segs s g)) s AND TCP_FIN \<noteq> 0 \<and> slen (segs s g) = 0 in
        rbind (tcp_output_alloc_header pcb 0 (if is_fin then 0 else 1) (mem_u32 (shdr (segs s g) + 4) s) s) (\<lambda>(p, s).
          if p = 0 then Inr s
          else
            rbind
              (if is_fin then Inr (TCPH_FLAGS_SET (payload (the_pbuf s p)) (TCP_ACK OR TCP_FIN) s)
               else do_pbs (\<lambda>b. rbind (pbuf_copy_partial (sp (segs s g)) (payload (the_pbuf s p) + TCP_HLEN) 1
                     (u16_of (int (tot_len (the_pbuf s (sp (segs s g)))) - int (slen (segs s g)))) b) (\<lambda>(_, b). Inr b)) s)
              (\<lambda>s. let u = tpcb s pcb in send_packet_tcp link p (local_ip u) (remote_ip u) (ttl u) 0 s)))"

section \<open>Queueing\<close>

definition tcp_create_segment :: "nat \<Rightarrow> nat \<Rightarrow> u16 \<Rightarrow> u32 \<Rightarrow> u8 \<Rightarrow> 'a tcp_like \<Rightarrow> (nat \<times> 'a tcp_like) res" where
  "tcp_create_segment pcb p f seq optflags s =
     (let optlen = LWIP_TCP_OPT_LENGTH optflags in
      rbind (pool_get MEMP_TCP_SEG s) (\<lambda>(g, s).
        if g = 0 then rbind (release_pbuf p s) (\<lambda>s. Inr (0, s))
        else
          let s = set_seg g (\<lambda>x. x\<lparr>soptflags := optflags, seg_next := 0, sp := p, slen := u16_of (int (tot_len (the_pbuf s p)) - int optlen)\<rparr>) s in
          rbind (on_pbs (pbuf_header p (int TCP_HLEN)) s) (\<lambda>(failed, s).
            if failed then rbind (tcp_seg_free g s) (\<lambda>s. Inr (0, s))
            else
              let u = tpcb s pcb; a = payload (the_pbuf s p);
                  s = set_seg g (\<lambda>x. x\<lparr>shdr := a\<rparr>) s;
                  s = put a (net_bytes16 (tlocal_port u)) s;
                  s = put (a + 2) (net_bytes16 (tremote_port u)) s;
                  s = put (a + 4) (host_bytes32 (lwip_htonl seq)) s;
                  s = TCPH_HDRLEN_FLAGS_SET a (5 + optlen div 4) f s
              in Inr (g, put (a + 18) [0, 0] s))))"

text \<open>Appending to the queue of unsent segments.\<close>

definition append_unsent :: "nat \<Rightarrow> nat \<Rightarrow> 'a tcp_like \<Rightarrow> 'a tcp_like res" where
  "append_unsent pcb g s =
     (if unsent (tpcb s pcb) = 0 then Inr (set_tpcb pcb (\<lambda>u. u\<lparr>unsent := g\<rparr>) s)
      else rbind (last_seg SEG_MAX (unsent (tpcb s pcb)) (segs s)) (\<lambda>l. Inr (set_seg l (\<lambda>x. x\<lparr>seg_next := g\<rparr>) s)))"

definition tcp_enqueue_flags :: "nat \<Rightarrow> u16 \<Rightarrow> 'a tcp_like \<Rightarrow> (err_t \<times> 'a tcp_like) res" where
  "tcp_enqueue_flags pcb f s =
     (if f AND (TCP_SYN OR TCP_FIN) = 0 then Inl Abort
      else if snd_queuelen (tpcb s pcb) \<ge> TCP_SND_QUEUELEN \<or> snd_queuelen (tpcb s pcb) > TCP_SNDQUEUELEN_OVERFLOW
      then Inr (ERR_MEM, set_flag pcb TF_NAGLEMEMERR s)
      else
        let optflags = (if f AND TCP_SYN \<noteq> 0 then TF_SEG_OPTS_MSS else 0); optlen = LWIP_TCP_OPT_LENGTH optflags in
        if snd_buf (tpcb s pcb) = 0 then Inr (ERR_MEM, s)
        else
          rbind (on_pbs (pbuf_alloc PBUF_TRANSPORT optlen PBUF_RAM) s) (\<lambda>(p, s).
            if p = 0 then Inr (ERR_MEM, set_flag pcb TF_NAGLEMEMERR s)
            else if \<not> plen (the_pbuf s p) \<ge> optlen then Inl Abort
            else
              rbind (tcp_create_segment pcb p f (snd_lbb (tpcb s pcb)) optflags s) (\<lambda>(g, s).
                if g = 0 then Inr (ERR_MEM, set_flag pcb TF_NAGLEMEMERR s)
                else if slen (segs s g) \<noteq> 0 then Inl Abort
                else
                  rbind (append_unsent pcb g s) (\<lambda>s.
                  let s = set_tpcb pcb (\<lambda>u. u\<lparr>unsent_oversize := 0, snd_lbb := snd_lbb u + 1, snd_buf := snd_buf u - 1\<rparr>) s;
                      s = (if f AND TCP_FIN \<noteq> 0 then set_flag pcb TF_FIN s else s) in
                  rbind (pbuf_clen (sp (segs s g)) (pb (arp s))) (\<lambda>n.
                    let s = set_tpcb pcb (\<lambda>u. u\<lparr>snd_queuelen := snd_queuelen u + word_of_nat n\<rparr>) s in
                    if snd_queuelen (tpcb s pcb) \<noteq> 0 \<and> unacked (tpcb s pcb) = 0 \<and> unsent (tpcb s pcb) = 0 then Inl Abort
                    else Inr (ERR_OK, s))))))"

definition tcp_send_fin :: "nat \<Rightarrow> 'a tcp_like \<Rightarrow> (err_t \<times> 'a tcp_like) res" where
  "tcp_send_fin pcb s =
     (if unsent (tpcb s pcb) \<noteq> 0
      then
        rbind (last_seg SEG_MAX (unsent (tpcb s pcb)) (segs s)) (\<lambda>l.
          if TCPH_FLAGS (shdr (segs s l)) s AND (TCP_SYN OR TCP_FIN OR TCP_RST) = 0
          then Inr (ERR_OK, set_flag pcb TF_FIN (TCPH_SET_FLAG (shdr (segs s l)) TCP_FIN s))
          else tcp_enqueue_flags pcb TCP_FIN s)
      else tcp_enqueue_flags pcb TCP_FIN s)"

section \<open>Writing data\<close>

text \<open>The pbuf and the bytes that are left over behind its data.\<close>

definition tcp_pbuf_prealloc :: "pbuf_layer \<Rightarrow> nat \<Rightarrow> nat \<Rightarrow> nat \<Rightarrow> u8 \<Rightarrow> bool \<Rightarrow> nat \<Rightarrow> 'a tcp_like \<Rightarrow> ((nat \<times> nat) \<times> 'a tcp_like) res" where
  "tcp_pbuf_prealloc layer length' max_length pcb apiflags first_seg oversize s =
     (let u = tpcb s pcb;
          alloc = (if length' < max_length \<and> (apiflags AND TCP_WRITE_FLAG_MORE \<noteq> 0 \<or>
                (\<not> has_flag TF_NODELAY u \<and> (\<not> first_seg \<or> unsent u \<noteq> 0 \<or> unacked u \<noteq> 0)))
            then min max_length (length' + TCP_OVERSIZE) else length')
      in
        rbind (on_pbs (pbuf_alloc layer alloc PBUF_RAM) s) (\<lambda>(p, s).
          if p = 0 then Inr ((0, oversize), s)
          else if pnext (the_pbuf s p) \<noteq> 0 then Inl Abort
          else
            let over = u16_of (int (plen (the_pbuf s p)) - int length')
            in Inr ((p, over), set_pbuf p (\<lambda>b. b\<lparr>plen := length', tot_len := length'\<rparr>) s)))"

definition tcp_write_checks :: "nat \<Rightarrow> u16 \<Rightarrow> 'a tcp_like \<Rightarrow> (err_t \<times> 'a tcp_like) res" where
  "tcp_write_checks pcb len s =
     (let u = tpcb s pcb in
      if fsm u \<noteq> ESTABLISHED \<and> fsm u \<noteq> CLOSE_WAIT \<and> fsm u \<noteq> SYN_SENT \<and> fsm u \<noteq> SYN_RCVD then Inr (ERR_CONN, s)
      else if len = 0 then Inr (ERR_OK, s)
      else if len > snd_buf u then Inr (ERR_MEM, set_flag pcb TF_NAGLEMEMERR s)
      else if snd_queuelen u \<ge> TCP_SND_QUEUELEN \<or> snd_queuelen u > TCP_SNDQUEUELEN_OVERFLOW
      then Inr (ERR_MEM, set_flag pcb TF_NAGLEMEMERR s)
      else if snd_queuelen u \<noteq> 0
      then (if unacked u = 0 \<and> unsent u = 0 then Inl Abort else Inr (ERR_OK, s))
      else (if \<not> (unacked u = 0 \<and> unsent u = 0) then Inl Abort else Inr (ERR_OK, s)))"

text \<open>
  The progress of \<^verbatim>\<open>tcp_write\<close>: the position in the data, the length of the queues, the segment worked on last, the pbuf
  to concatenate, the new segments with their last one, and the room at the end of the last pbuf.
\<close>

record wr =
  wpos :: nat
  wqueuelen :: u16
  wseg :: nat
  wconcat :: nat
  wqueue :: nat
  wprev :: nat
  wover :: nat

text \<open>The end for want of memory.\<close>

definition write_memerr :: "nat \<Rightarrow> wr \<Rightarrow> 'a tcp_like \<Rightarrow> (err_t \<times> 'a tcp_like) res" where
  "write_memerr pcb w s =
     rbind (if wconcat w \<noteq> 0 then release_pbuf (wconcat w) (set_flag pcb TF_NAGLEMEMERR s) else Inr (set_flag pcb TF_NAGLEMEMERR s)) (\<lambda>s.
     rbind (if wqueue w \<noteq> 0 then tcp_segs_free (wqueue w) s else Inr s) (\<lambda>s.
       if snd_queuelen (tpcb s pcb) \<noteq> 0 \<and> unacked (tpcb s pcb) = 0 \<and> unsent (tpcb s pcb) = 0 then Inl Abort
       else Inr (ERR_MEM, s)))"

text \<open>
  The first two phases of \<^verbatim>\<open>tcp_write\<close>: the room behind the last unsent segment \<open>l\<close>, and a pbuf to fill
  it up. \<open>used\<close> bytes go to the room; the result is False if there is no memory.
\<close>

definition write_fill :: "nat \<Rightarrow> nat \<Rightarrow> nat \<Rightarrow> u8 \<Rightarrow> nat \<Rightarrow> nat \<Rightarrow> 'a tcp_like \<Rightarrow> ((bool \<times> wr \<times> nat) \<times> 'a tcp_like) res" where
  "write_fill pcb dataptr len apiflags mss_local l s =
     (let space = u16_of (int mss_local - int (slen (segs s l) + LWIP_TCP_OPT_LENGTH (soptflags (segs s l))));
          oversize = unat (unsent_oversize (tpcb s pcb));
          used = (if oversize > 0 then (if oversize < len then oversize else len) else 0);
          w = \<lparr>wpos = used, wqueuelen = snd_queuelen (tpcb s pcb), wseg = (if oversize > 0 then l else 0),
               wconcat = 0, wqueue = 0, wprev = 0, wover = oversize - used\<rparr>;
          space = (if oversize > 0 then u16_of (int space - int used) else space)
      in
        if \<not> (wover w = 0 \<or> wpos w = len) then Inl Abort
        else if wpos w < len \<and> space > 0 \<and> slen (segs s l) > 0
        then
          let seglen = (if space < len - wpos w then space else len - wpos w) in
          rbind
            (if apiflags AND TCP_WRITE_FLAG_COPY \<noteq> 0
             then rbind (tcp_pbuf_prealloc PBUF_RAW seglen space pcb apiflags True (wover w) s) (\<lambda>((c, over), s).
                 Inr ((c, over), if c = 0 then s
                   else set_arp (set_pbs (memcpy (payload (the_pbuf s c)) (dataptr + wpos w) seglen (pb (arp s))) (arp s)) s))
             else rbind (on_pbs (pbuf_alloc PBUF_RAW seglen PBUF_ROM) s) (\<lambda>(c, s).
                 Inr ((c, wover w), if c = 0 then s else set_pbuf c (\<lambda>b. b\<lparr>payload := dataptr + wpos w\<rparr>) s)))
            (\<lambda>((c, over), s).
              let w = w\<lparr>wseg := l, wconcat := c, wover := over\<rparr> in
              if c = 0 then Inr ((False, w, used), s)
              else rbind (pbuf_clen c (pb (arp s))) (\<lambda>n.
                Inr ((True, w\<lparr>wpos := wpos w + seglen, wqueuelen := wqueuelen w + word_of_nat n\<rparr>, used), s)))
        else Inr ((True, w, used), s))"

text \<open>
  The third phase makes new segments; every round lengthens the queue, which ends the loop. The
  result is False if there is no memory.
\<close>

definition write_pbuf :: "nat \<Rightarrow> nat \<Rightarrow> nat \<Rightarrow> u8 \<Rightarrow> nat \<Rightarrow> wr \<Rightarrow> 'a tcp_like \<Rightarrow> ((nat \<times> nat) \<times> 'a tcp_like) res" where
  "write_pbuf pcb dataptr seglen apiflags mss_local w s =
     (if apiflags AND TCP_WRITE_FLAG_COPY \<noteq> 0
      then
        rbind (tcp_pbuf_prealloc PBUF_TRANSPORT seglen mss_local pcb apiflags (wqueue w = 0) (wover w) s) (\<lambda>((p, over), s).
          if p = 0 then Inr ((0, over), s)
          else if \<not> plen (the_pbuf s p) \<ge> seglen then Inl Abort
          else Inr ((p, over), set_arp (set_pbs (memcpy (payload (the_pbuf s p)) (dataptr + wpos w) seglen (pb (arp s))) (arp s)) s))
      else if wover w \<noteq> 0 then Inl Abort
      else
        rbind (on_pbs (pbuf_alloc PBUF_TRANSPORT seglen PBUF_ROM) s) (\<lambda>(p2, s).
          if p2 = 0 then Inr ((0, wover w), s)
          else
            let s = set_pbuf p2 (\<lambda>b. b\<lparr>payload := dataptr + wpos w\<rparr>) s in
            rbind (on_pbs (pbuf_alloc PBUF_TRANSPORT 0 PBUF_RAM) s) (\<lambda>(p, s).
              if p = 0 then rbind (release_pbuf p2 s) (\<lambda>s. Inr ((0, wover w), s))
              else rbind (do_pbs (pbuf_cat p p2) s) (\<lambda>s. Inr ((p, wover w), s)))))"

primrec write_segs :: "nat \<Rightarrow> nat \<Rightarrow> nat \<Rightarrow> nat \<Rightarrow> u8 \<Rightarrow> nat \<Rightarrow> wr \<Rightarrow> 'a tcp_like \<Rightarrow> ((bool \<times> wr) \<times> 'a tcp_like) res" where
  "write_segs 0 pcb dataptr len apiflags mss_local w s = Inl No_Fuel"
| "write_segs (Suc fuel) pcb dataptr len apiflags mss_local w s =
     (if \<not> wpos w < len then Inr ((True, w), s)
      else
        let seglen = (if len - wpos w > mss_local then mss_local else len - wpos w) in
        rbind (write_pbuf pcb dataptr seglen apiflags mss_local w s) (\<lambda>((p, over), s).
          let w = w\<lparr>wover := over\<rparr> in
          if p = 0 then Inr ((False, w), s)
          else
            rbind (pbuf_clen p (pb (arp s))) (\<lambda>n.
              let w = w\<lparr>wqueuelen := wqueuelen w + word_of_nat n\<rparr> in
              if wqueuelen w > TCP_SND_QUEUELEN \<or> wqueuelen w > TCP_SNDQUEUELEN_OVERFLOW
              then rbind (release_pbuf p s) (\<lambda>s. Inr ((False, w), s))
              else
                rbind (tcp_create_segment pcb p 0 (snd_lbb (tpcb s pcb) + word_of_nat (wpos w)) 0 s) (\<lambda>(g, s).
                  if g = 0 then Inr ((False, w\<lparr>wseg := 0\<rparr>), s)
                  else if wqueue w \<noteq> 0 \<and> wprev w = 0 then Inl Abort
                  else
                    let s = (if wqueue w = 0 then s else set_seg (wprev w) (\<lambda>x. x\<lparr>seg_next := g\<rparr>) s)
                    in write_segs fuel pcb dataptr len apiflags mss_local
                         (w\<lparr>wseg := g, wqueue := (if wqueue w = 0 then g else wqueue w), wprev := g, wpos := wpos w + seglen\<rparr>) s))))"

text \<open>Using up the room: the lengths of the chain grow, the data goes behind the last pbuf.\<close>

primrec write_room :: "nat \<Rightarrow> nat \<Rightarrow> nat \<Rightarrow> nat \<Rightarrow> pb_state \<Rightarrow> pb_state res" where
  "write_room 0 p dataptr used b = Inl No_Fuel"
| "write_room (Suc fuel) p dataptr used b =
     (if p = 0 then Inr b
      else
        let b = upd p (\<lambda>x. x\<lparr>tot_len := u16_of (int (tot_len x) + int used)\<rparr>) b;
            b = (if pnext (pbufs b p) = 0
              then upd p (\<lambda>x. x\<lparr>plen := u16_of (int (plen x) + int used)\<rparr>) (memcpy (payload (pbufs b p) + plen (pbufs b p)) dataptr used b)
              else b)
        in write_room fuel (pnext (pbufs b p)) dataptr used b)"

text \<open>The data is at the address \<open>dataptr\<close>.\<close>

definition tcp_write :: "nat \<Rightarrow> nat \<Rightarrow> u16 \<Rightarrow> u8 \<Rightarrow> 'a tcp_like \<Rightarrow> (err_t \<times> 'a tcp_like) res" where
  "tcp_write pcb dataptr len16 apiflags s =
     (if dataptr = 0 then Inl Abort
      else
        rbind (tcp_write_checks pcb len16 s) (\<lambda>(e, s).
          if e \<noteq> ERR_OK then Inr (e, s)
          else
            let len = unat len16; mss_local = unat (min (mss (tpcb s pcb)) (snd_wnd_max (tpcb s pcb) div 2)) in
            rbind (if unsent (tpcb s pcb) \<noteq> 0 then last_seg SEG_MAX (unsent (tpcb s pcb)) (segs s) else Inr 0) (\<lambda>l.
            rbind
              (if l \<noteq> 0 then write_fill pcb dataptr len apiflags mss_local l s
               else if unsent_oversize (tpcb s pcb) \<noteq> 0 then Inl Abort
               else Inr ((True, \<lparr>wpos = 0, wqueuelen = snd_queuelen (tpcb s pcb), wseg = 0, wconcat = 0, wqueue = 0, wprev = 0, wover = 0\<rparr>, 0), s))
              (\<lambda>((ok, w, used), s).
            if \<not> ok then write_memerr pcb w s
            else
              rbind (write_segs 16 pcb dataptr len apiflags mss_local w s) (\<lambda>((ok, w), s).
              if \<not> ok then write_memerr pcb w s
              else
                rbind
                  (if used > 0 then rbind (do_pbs (write_room PBUF_MAX (sp (segs s l)) dataptr used) s) (\<lambda>s.
                      Inr (set_seg l (\<lambda>x. x\<lparr>slen := u16_of (int (slen x) + int used)\<rparr>) s))
                   else Inr s) (\<lambda>s.
                let s = set_tpcb pcb (\<lambda>u. u\<lparr>unsent_oversize := word_of_nat (wover w)\<rparr>) s in
                rbind
                  (if wconcat w \<noteq> 0 then
                     (if l = 0 then Inl Abort
                      else rbind (do_pbs (pbuf_cat (sp (segs s l)) (wconcat w)) s) (\<lambda>s.
                        Inr (set_seg l (\<lambda>x. x\<lparr>slen := u16_of (int (slen x) + int (tot_len (the_pbuf s (wconcat w))))\<rparr>) s)))
                   else Inr s) (\<lambda>s.
                let s = (if l = 0 then set_tpcb pcb (\<lambda>u. u\<lparr>unsent := wqueue w\<rparr>) s else set_seg l (\<lambda>x. x\<lparr>seg_next := wqueue w\<rparr>) s);
                    s = set_tpcb pcb (\<lambda>u. u\<lparr>snd_lbb := snd_lbb u + ucast len16, snd_buf := snd_buf u - len16, snd_queuelen := wqueuelen w\<rparr>) s
                in
                  if snd_queuelen (tpcb s pcb) \<noteq> 0 \<and> unacked (tpcb s pcb) = 0 \<and> unsent (tpcb s pcb) = 0 then Inl Abort
                  else Inr (ERR_OK, if wseg w \<noteq> 0 \<and> shdr (segs s (wseg w)) \<noteq> 0 \<and> apiflags AND TCP_WRITE_FLAG_MORE = 0
                    then TCPH_SET_FLAG (shdr (segs s (wseg w))) TCP_PSH s else s))))))))"

section \<open>Sending\<close>

definition tcp_output_segment :: "(nat \<Rightarrow> bytes \<Rightarrow> err_t) \<Rightarrow> nat \<Rightarrow> nat \<Rightarrow> 'a tcp_like \<Rightarrow> 'a tcp_like res" where
  "tcp_output_segment link g pcb s =
     (let hp = shdr (segs s g); u = tpcb s pcb;
          s = put (hp + 8) (host_bytes32 (lwip_htonl (rcv_nxt u))) s;
          s = put (hp + 14) (net_bytes16 (rcv_ann_wnd u)) s;
          s = set_tpcb pcb (\<lambda>u. u\<lparr>rcv_ann_right_edge := rcv_nxt u + ucast (rcv_ann_wnd u)\<rparr>) s
      in
        rbind
          (if soptflags (segs s g) AND TF_SEG_OPTS_MSS \<noteq> 0
           then rbind (tcp_eff_send_mss TCP_MSS (remote_ip u) s) (\<lambda>m.
             Inr (put (hp + TCP_HLEN) (host_bytes32 (lwip_htonl (0x02040000 OR ucast m))) s))
           else Inr s) (\<lambda>s.
        let s = (if rtime (tpcb s pcb) = -1 then set_tpcb pcb (\<lambda>u. u\<lparr>rtime := 0\<rparr>) s else s) in
        rbind
          (if local_ip (tpcb s pcb) = IPADDR_ANY then rbind (ip_route (remote_ip (tpcb s pcb)) (arp s)) (\<lambda>n.
             Inr (n \<noteq> 0, if n \<noteq> 0 then set_tpcb pcb (\<lambda>u. u\<lparr>local_ip := ip_addr (ifs (arp s) n)\<rparr>) s else s))
           else Inr (True, s)) (\<lambda>(routed, s).
        if \<not> routed then Inr s
        else
          let s = (if rttest (tpcb s pcb) = 0 then set_tpcb pcb (\<lambda>u. u\<lparr>rttest := tcp_ticks s, rtseq := seg_seqno g s\<rparr>) s else s);
              p = sp (segs s g); n = u16_of (int hp - int (payload (the_pbuf s p)));
              s = set_pbuf p (\<lambda>b. b\<lparr>plen := u16_of (int (plen b) - int n), tot_len := u16_of (int (tot_len b) - int n), payload := hp\<rparr>) s;
              s = put (hp + 16) [0, 0] s;
              u = tpcb s pcb
          in
            rbind (inet_chksum_pseudo p (local_ip u) (remote_ip u) IP_PROTO_TCP (word_of_nat (tot_len (the_pbuf s p))) (pb (arp s))) (\<lambda>c.
            rbind (ip_output link p (local_ip u) (remote_ip u) (ttl u) (tos u) IP_PROTO_TCP
                (put (hp + 16) (host_bytes16 (word_of_nat c)) s)) (\<lambda>(_, s). Inr s)))))"

definition tcp_do_output_nagle :: "nat \<Rightarrow> 'a tcp_like \<Rightarrow> bool" where
  "tcp_do_output_nagle pcb s \<longleftrightarrow>
     (let u = tpcb s pcb in
      unacked u = 0 \<or> has_flag (TF_NODELAY OR TF_INFR) u \<or>
      (unsent u \<noteq> 0 \<and> (seg_next (segs s (unsent u)) \<noteq> 0 \<or> slen (segs s (unsent u)) \<ge> unat (mss u))) \<or>
      snd_buf u = 0 \<or> snd_queuelen u \<ge> TCP_SND_QUEUELEN)"

text \<open>The predecessor, or 0, of the first segment of a queue that does not come before \<open>seq\<close>.\<close>

primrec seg_place :: "nat \<Rightarrow> nat \<Rightarrow> nat \<Rightarrow> u32 \<Rightarrow> 'a tcp_like \<Rightarrow> nat res" where
  "seg_place 0 prev cur seq s = Inl No_Fuel"
| "seg_place (Suc fuel) prev cur seq s =
     (if cur \<noteq> 0 \<and> TCP_SEQ_LT (seg_seqno cur s) seq then seg_place fuel cur (seg_next (segs s cur)) seq s else Inr prev)"

text \<open>Putting a segment on the queue of unacknowledged ones, whose last one is \<open>useg\<close>; the new last one is returned.\<close>

definition put_unacked :: "nat \<Rightarrow> nat \<Rightarrow> nat \<Rightarrow> 'a tcp_like \<Rightarrow> (nat \<times> 'a tcp_like) res" where
  "put_unacked pcb g useg s =
     (let s = set_seg g (\<lambda>x. x\<lparr>seg_next := 0\<rparr>) s in
      if unacked (tpcb s pcb) = 0 then Inr (g, set_tpcb pcb (\<lambda>u. u\<lparr>unacked := g\<rparr>) s)
      else if TCP_SEQ_LT (seg_seqno g s) (seg_seqno useg s)
      then
        rbind (seg_place SEG_MAX 0 (unacked (tpcb s pcb)) (seg_seqno g s) s) (\<lambda>prev.
          Inr (useg,
            if prev = 0
            then set_tpcb pcb (\<lambda>u. u\<lparr>unacked := g\<rparr>) (set_seg g (\<lambda>x. x\<lparr>seg_next := unacked (tpcb s pcb)\<rparr>) s)
            else set_seg prev (\<lambda>x. x\<lparr>seg_next := g\<rparr>) (set_seg g (\<lambda>x. x\<lparr>seg_next := seg_next (segs s prev)\<rparr>) s)))
      else Inr (g, set_seg useg (\<lambda>x. x\<lparr>seg_next := g\<rparr>) s))"

text \<open>Does the segment fit into the window \<open>wnd\<close>?\<close>

definition in_window :: "u32 \<Rightarrow> nat \<Rightarrow> nat \<Rightarrow> 'a tcp_like \<Rightarrow> bool" where
  "in_window wnd pcb g s \<longleftrightarrow> seg_seqno g s - lastack (tpcb s pcb) + word_of_nat (slen (segs s g)) \<le> wnd"

primrec output_loop :: "nat \<Rightarrow> (nat \<Rightarrow> bytes \<Rightarrow> err_t) \<Rightarrow> u32 \<Rightarrow> nat \<Rightarrow> nat \<Rightarrow> nat \<Rightarrow> 'a tcp_like \<Rightarrow> 'a tcp_like res" where
  "output_loop 0 link wnd pcb g useg s = Inl No_Fuel"
| "output_loop (Suc fuel) link wnd pcb g useg s =
     (if g \<noteq> 0 \<and> in_window wnd pcb g s then
        if TCPH_FLAGS (shdr (segs s g)) s AND TCP_RST \<noteq> 0 then Inl Abort
        else if \<not> tcp_do_output_nagle pcb s \<and> \<not> has_flag (TF_NAGLEMEMERR OR TF_FIN) (tpcb s pcb) then Inr s
        else
          let s = set_tpcb pcb (\<lambda>u. u\<lparr>unsent := seg_next (segs s g)\<rparr>) s;
              s = (if fsm (tpcb s pcb) \<noteq> SYN_SENT
                then clear_flag pcb (TF_ACK_DELAY OR TF_ACK_NOW) (TCPH_SET_FLAG (shdr (segs s g)) TCP_ACK s) else s)
          in
            rbind (tcp_output_segment link g pcb s) (\<lambda>s.
            let nxt = seg_seqno g s + word_of_nat (TCP_TCPLEN (segs s g) s);
                s = (if TCP_SEQ_LT (snd_nxt (tpcb s pcb)) nxt then set_tpcb pcb (\<lambda>u. u\<lparr>snd_nxt := nxt\<rparr>) s else s)
            in
              rbind
                (if TCP_TCPLEN (segs s g) s > 0 then put_unacked pcb g useg s
                 else rbind (tcp_seg_free g s) (\<lambda>s. Inr (useg, s)))
                (\<lambda>(useg, s). output_loop fuel link wnd pcb (unsent (tpcb s pcb)) useg s))
      else Inr s)"

definition tcp_output :: "(nat \<Rightarrow> bytes \<Rightarrow> err_t) \<Rightarrow> nat \<Rightarrow> 'a tcp_like \<Rightarrow> (err_t \<times> 'a tcp_like) res" where
  "tcp_output link pcb s =
     (if fsm (tpcb s pcb) = LISTEN then Inl Abort
      else if tcp_input_pcb s = pcb then Inr (ERR_OK, s)
      else
        let wnd = ucast (min (snd_wnd (tpcb s pcb)) (cwnd (tpcb s pcb))); g = unsent (tpcb s pcb) in
        if has_flag TF_ACK_NOW (tpcb s pcb) \<and> (g = 0 \<or> \<not> in_window wnd pcb g s) then tcp_send_empty_ack link pcb s
        else
          rbind (if unacked (tpcb s pcb) \<noteq> 0 then last_seg SEG_MAX (unacked (tpcb s pcb)) (segs s) else Inr 0) (\<lambda>useg.
          rbind (output_loop SEG_MAX link wnd pcb g useg s) (\<lambda>s.
            let s = (if unsent (tpcb s pcb) = 0 then set_tpcb pcb (\<lambda>u. u\<lparr>unsent_oversize := 0\<rparr>) s else s)
            in Inr (ERR_OK, clear_flag pcb TF_NAGLEMEMERR s))))"

section \<open>Retransmission\<close>

definition tcp_rexmit_rto :: "(nat \<Rightarrow> bytes \<Rightarrow> err_t) \<Rightarrow> nat \<Rightarrow> 'a tcp_like \<Rightarrow> 'a tcp_like res" where
  "tcp_rexmit_rto link pcb s =
     (if unacked (tpcb s pcb) = 0 then Inr s
      else
        rbind (last_seg SEG_MAX (unacked (tpcb s pcb)) (segs s)) (\<lambda>l.
          let s = set_seg l (\<lambda>x. x\<lparr>seg_next := unsent (tpcb s pcb)\<rparr>) s;
              s = set_tpcb pcb (\<lambda>u. u\<lparr>unsent := unacked u, unacked := 0, nrtx := nrtx u + 1, rttest := 0\<rparr>) s
          in rbind (tcp_output link pcb s) (\<lambda>(_, s). Inr s)))"

definition tcp_rexmit :: "nat \<Rightarrow> 'a tcp_like \<Rightarrow> 'a tcp_like res" where
  "tcp_rexmit pcb s =
     (let g = unacked (tpcb s pcb) in
      if g = 0 then Inr s
      else
        let s = set_tpcb pcb (\<lambda>u. u\<lparr>unacked := seg_next (segs s g)\<rparr>) s in
        rbind (seg_place SEG_MAX 0 (unsent (tpcb s pcb)) (seg_seqno g s) s) (\<lambda>prev.
          let s = (if prev = 0
                then set_tpcb pcb (\<lambda>u. u\<lparr>unsent := g\<rparr>) (set_seg g (\<lambda>x. x\<lparr>seg_next := unsent (tpcb s pcb)\<rparr>) s)
                else set_seg prev (\<lambda>x. x\<lparr>seg_next := g\<rparr>) (set_seg g (\<lambda>x. x\<lparr>seg_next := seg_next (segs s prev)\<rparr>) s));
              s = (if seg_next (segs s g) = 0 then set_tpcb pcb (\<lambda>u. u\<lparr>unsent_oversize := 0\<rparr>) s else s)
          in Inr (set_tpcb pcb (\<lambda>u. u\<lparr>nrtx := nrtx u + 1, rttest := 0\<rparr>) s)))"

text \<open>The congestion window after a fast retransmission.\<close>

definition fast_window :: "tcp_pcb \<Rightarrow> tcp_pcb" where
  "fast_window u =
     (let th = (if cwnd u > snd_wnd u then snd_wnd u div 2 else cwnd u div 2);
          th = (if unat th < 2 * unat (mss u) then 2 * mss u else th)
      in u\<lparr>ssthresh := th, cwnd := th + 3 * mss u\<rparr>)"

definition tcp_rexmit_fast :: "nat \<Rightarrow> 'a tcp_like \<Rightarrow> 'a tcp_like res" where
  "tcp_rexmit_fast pcb s =
     (if unacked (tpcb s pcb) \<noteq> 0 \<and> \<not> has_flag TF_INFR (tpcb s pcb)
      then rbind (tcp_rexmit pcb s) (\<lambda>s. Inr (set_flag pcb TF_INFR (set_tpcb pcb fast_window s)))
      else Inr s)"

end
