(* ===== verification/Tcp.thy ===== *)
theory Tcp
  imports Tcp_Out
begin

text \<open>
  \<^verbatim>\<open>src/src/lwip/core/tcp.c\<close>: the life of a connection as the application sees it, the allocation of PCBs, and the timers.
  Two functions of this file are themselves callbacks, under the number 1: \<^verbatim>\<open>tcp_accept_null\<close> among the
  accept callbacks and \<^verbatim>\<open>tcp_recv_null\<close> among the receive callbacks. \<^verbatim>\<open>LWIP_ERROR\<close> stops the run, as everywhere. The
  loops of the timers are restarted when a callback changes the list of active connections, and have a fuel of
  their own.
\<close>

abbreviation TCP_ACCEPT_NULL :: nat where "TCP_ACCEPT_NULL \<equiv> 1"
abbreviation TCP_RECV_NULL :: nat where "TCP_RECV_NULL \<equiv> 1"

section \<open>Removing a connection\<close>

definition TCP_EVENT_ERR :: "'a tcp_like tcp_app \<Rightarrow> nat \<Rightarrow> nat \<Rightarrow> err_t \<Rightarrow> 'a tcp_like \<Rightarrow> 'a tcp_like res" where
  "TCP_EVENT_ERR E errf a err s = (if errf \<noteq> 0 then err_fn E errf a err s else Inr s)"

definition tcp_pcb_remove :: "'a tcp_like tcp_app \<Rightarrow> pcb_list \<Rightarrow> nat \<Rightarrow> 'a tcp_like \<Rightarrow> 'a tcp_like res" where
  "tcp_pcb_remove E l pcb s =
     rbind (TCP_RMV l pcb s) (\<lambda>s.
     rbind (tcp_pcb_purge pcb s) (\<lambda>s.
     rbind
       (if fsm (tpcb s pcb) \<noteq> TIME_WAIT \<and> fsm (tpcb s pcb) \<noteq> LISTEN \<and> has_flag TF_ACK_DELAY (tpcb s pcb)
        then rbind (tcp_output (linkf E) pcb (set_flag pcb TF_ACK_NOW s)) (\<lambda>(_, s). Inr s)
        else Inr s) (\<lambda>s.
       if fsm (tpcb s pcb) \<noteq> LISTEN \<and> (unsent (tpcb s pcb) \<noteq> 0 \<or> unacked (tpcb s pcb) \<noteq> 0 \<or> ooseq (tpcb s pcb) \<noteq> 0) then Inl Abort
       else Inr (set_tpcb pcb (\<lambda>u. u\<lparr>fsm := CLOSED\<rparr>) s))))"

definition TCP_PCB_REMOVE_ACTIVE :: "'a tcp_like tcp_app \<Rightarrow> nat \<Rightarrow> 'a tcp_like \<Rightarrow> 'a tcp_like res" where
  "TCP_PCB_REMOVE_ACTIVE E pcb s =
     rbind (tcp_pcb_remove E Active_Pcbs pcb s) (\<lambda>s. Inr (s\<lparr>tcp_active_pcbs_changed := True\<rparr>))"

definition tcp_abandon :: "'a tcp_like tcp_app \<Rightarrow> nat \<Rightarrow> bool \<Rightarrow> 'a tcp_like \<Rightarrow> 'a tcp_like res" where
  "tcp_abandon E pcb reset s =
     (if fsm (tpcb s pcb) = LISTEN then Inl Abort
      else if fsm (tpcb s pcb) = TIME_WAIT
      then rbind (tcp_pcb_remove E Tw_Pcbs pcb s) (\<lambda>s. Inr (pool_put MEMP_TCP_PCB pcb s))
      else
        let seq = snd_nxt (tpcb s pcb); ack = rcv_nxt (tpcb s pcb); errf = terrf (tpcb s pcb); errf_arg = callback_arg (tpcb s pcb) in
        rbind (TCP_PCB_REMOVE_ACTIVE E pcb s) (\<lambda>s.
        rbind (if unacked (tpcb s pcb) \<noteq> 0 then tcp_segs_free (unacked (tpcb s pcb)) s else Inr s) (\<lambda>s.
        rbind (if unsent (tpcb s pcb) \<noteq> 0 then tcp_segs_free (unsent (tpcb s pcb)) s else Inr s) (\<lambda>s.
        rbind (if ooseq (tpcb s pcb) \<noteq> 0 then tcp_segs_free (ooseq (tpcb s pcb)) s else Inr s) (\<lambda>s.
        let u = tpcb s pcb in
        rbind (if reset then tcp_rst (linkf E) seq ack (local_ip u) (remote_ip u) (tlocal_port u) (tremote_port u) s else Inr s) (\<lambda>s.
          TCP_EVENT_ERR E errf errf_arg ERR_ABRT (pool_put MEMP_TCP_PCB pcb s)))))))"

definition tcp_abort :: "'a tcp_like tcp_app \<Rightarrow> nat \<Rightarrow> 'a tcp_like \<Rightarrow> 'a tcp_like res" where
  "tcp_abort E pcb s = tcp_abandon E pcb True s"

section \<open>Closing\<close>

text \<open>The end of closing in a state in which a FIN is to be sent: the next state, once it is queued, and some output.\<close>

definition close_with_fin :: "'a tcp_like tcp_app \<Rightarrow> nat \<Rightarrow> tcp_fsm \<Rightarrow> 'a tcp_like \<Rightarrow> (err_t \<times> 'a tcp_like) res" where
  "close_with_fin E pcb st s =
     rbind (tcp_send_fin pcb s) (\<lambda>(err, s).
       if err = ERR_OK
       then rbind (tcp_output (linkf E) pcb (set_tpcb pcb (\<lambda>u. u\<lparr>fsm := st\<rparr>) s)) (\<lambda>(_, s). Inr (ERR_OK, s))
       else Inr (err, s))"

definition tcp_close_shutdown :: "'a tcp_like tcp_app \<Rightarrow> nat \<Rightarrow> bool \<Rightarrow> 'a tcp_like \<Rightarrow> (err_t \<times> 'a tcp_like) res" where
  "tcp_close_shutdown E pcb rst_on_unacked_data s =
     (let u = tpcb s pcb in
      if rst_on_unacked_data \<and> (fsm u = ESTABLISHED \<or> fsm u = CLOSE_WAIT) \<and> (refused_data u \<noteq> 0 \<or> rcv_wnd u \<noteq> TCP_WND)
      then
        if \<not> has_flag TF_RXCLOSED u then Inl Abort
        else
          rbind (tcp_rst (linkf E) (snd_nxt u) (rcv_nxt u) (local_ip u) (remote_ip u) (tlocal_port u) (tremote_port u) s) (\<lambda>s.
          rbind (tcp_pcb_purge pcb s) (\<lambda>s.
          rbind (TCP_RMV_ACTIVE pcb s) (\<lambda>s.
            if fsm (tpcb s pcb) = ESTABLISHED
            then rbind (TCP_REG Tw_Pcbs pcb (set_tpcb pcb (\<lambda>u. u\<lparr>fsm := TIME_WAIT\<rparr>) s)) (\<lambda>s. Inr (ERR_OK, s))
            else Inr (ERR_OK, pool_put MEMP_TCP_PCB pcb s))))
      else
        case fsm u of
          CLOSED \<Rightarrow>
            rbind (if tlocal_port u \<noteq> 0 then TCP_RMV Bound_Pcbs pcb s else Inr s) (\<lambda>s. Inr (ERR_OK, pool_put MEMP_TCP_PCB pcb s))
        | LISTEN \<Rightarrow> rbind (tcp_pcb_remove E Listen_Pcbs pcb s) (\<lambda>s. Inr (ERR_OK, pool_put MEMP_TCP_PCB_LISTEN pcb s))
        | SYN_SENT \<Rightarrow> rbind (TCP_PCB_REMOVE_ACTIVE E pcb s) (\<lambda>s. Inr (ERR_OK, pool_put MEMP_TCP_PCB pcb s))
        | SYN_RCVD \<Rightarrow> close_with_fin E pcb FIN_WAIT_1 s
        | ESTABLISHED \<Rightarrow> close_with_fin E pcb FIN_WAIT_1 s
        | CLOSE_WAIT \<Rightarrow> close_with_fin E pcb LAST_ACK s
        | _ \<Rightarrow> Inr (ERR_OK, s))"

definition tcp_close :: "'a tcp_like tcp_app \<Rightarrow> nat \<Rightarrow> 'a tcp_like \<Rightarrow> (err_t \<times> 'a tcp_like) res" where
  "tcp_close E pcb s =
     tcp_close_shutdown E pcb True (if fsm (tpcb s pcb) \<noteq> LISTEN then set_flag pcb TF_RXCLOSED s else s)"

definition tcp_shutdown :: "'a tcp_like tcp_app \<Rightarrow> nat \<Rightarrow> bool \<Rightarrow> bool \<Rightarrow> 'a tcp_like \<Rightarrow> (err_t \<times> 'a tcp_like) res" where
  "tcp_shutdown E pcb shut_rx shut_tx s =
     (if fsm (tpcb s pcb) = LISTEN then Inr (ERR_CONN, s)
      else if shut_rx \<and> shut_tx then tcp_close_shutdown E pcb True (set_flag pcb TF_RXCLOSED s)
      else
        rbind
          (if shut_rx then
             let s = set_flag pcb TF_RXCLOSED s in
             if refused_data (tpcb s pcb) \<noteq> 0
             then rbind (release_pbuf (refused_data (tpcb s pcb)) s) (\<lambda>s. Inr (set_tpcb pcb (\<lambda>u. u\<lparr>refused_data := 0\<rparr>) s))
             else Inr s
           else Inr s) (\<lambda>s.
        if shut_tx then
          (if fsm (tpcb s pcb) = SYN_RCVD \<or> fsm (tpcb s pcb) = ESTABLISHED \<or> fsm (tpcb s pcb) = CLOSE_WAIT
           then tcp_close_shutdown E pcb shut_rx s else Inr (ERR_CONN, s))
        else Inr (ERR_OK, s)))"

section \<open>Ports and addresses\<close>

primrec tport_taken :: "nat \<Rightarrow> nat \<Rightarrow> u16 \<Rightarrow> (nat \<Rightarrow> tcp_pcb) \<Rightarrow> bool res" where
  "tport_taken 0 p port U = Inl No_Fuel"
| "tport_taken (Suc fuel) p port U =
     (if p = 0 then Inr False else if tlocal_port (U p) = port then Inr True else tport_taken fuel (pcb_next (U p)) port U)"

primrec taken_in :: "pcb_list list \<Rightarrow> u16 \<Rightarrow> 'a tcp_like \<Rightarrow> bool res" where
  "taken_in [] port s = Inr False"
| "taken_in (l # ls) port s =
     rbind (tport_taken PCB_MAX (pcb_lists s l) port (tpcb s)) (\<lambda>t. if t then Inr True else taken_in ls port s)"

text \<open>The loop gives up after 0x4000 rounds.\<close>

primrec tcp_new_port_loop :: "nat \<Rightarrow> nat \<Rightarrow> 'a tcp_like \<Rightarrow> (u16 \<times> 'a tcp_like) res" where
  "tcp_new_port_loop 0 n s = Inl No_Fuel"
| "tcp_new_port_loop (Suc fuel) n s =
     (let port = (if tcp_port s = TCP_LOCAL_PORT_RANGE_END then TCP_LOCAL_PORT_RANGE_START else tcp_port s + 1);
          s = s\<lparr>tcp_port := port\<rparr>
      in
        rbind (taken_in [Listen_Pcbs, Bound_Pcbs, Active_Pcbs, Tw_Pcbs] port s) (\<lambda>t.
          if \<not> t then Inr (port, s)
          else if n + 1 > 0x3fff then Inr (0, s)
          else tcp_new_port_loop fuel (n + 1) s))"

definition tcp_new_port :: "'a tcp_like \<Rightarrow> (u16 \<times> 'a tcp_like) res" where
  "tcp_new_port s = tcp_new_port_loop 0x4000 0 s"

text \<open>Is the address in use for a PCB of a list?\<close>

primrec tcp_bind_scan :: "nat \<Rightarrow> nat \<Rightarrow> nat \<Rightarrow> u32 \<Rightarrow> u16 \<Rightarrow> (nat \<Rightarrow> tcp_pcb) \<Rightarrow> bool res" where
  "tcp_bind_scan 0 cpcb pcb ip port U = Inl No_Fuel"
| "tcp_bind_scan (Suc fuel) cpcb pcb ip port U =
     (if cpcb = 0 then Inr False
      else if tlocal_port (U cpcb) = port \<and> (\<not> reuseaddr (U pcb) \<or> \<not> reuseaddr (U cpcb)) \<and>
        (local_ip (U cpcb) = IPADDR_ANY \<or> ip = IPADDR_ANY \<or> local_ip (U cpcb) = ip)
      then Inr True
      else tcp_bind_scan fuel (pcb_next (U cpcb)) pcb ip port U)"

primrec tcp_bind_lists :: "pcb_list list \<Rightarrow> nat \<Rightarrow> u32 \<Rightarrow> u16 \<Rightarrow> 'a tcp_like \<Rightarrow> bool res" where
  "tcp_bind_lists [] pcb ip port s = Inr False"
| "tcp_bind_lists (l # ls) pcb ip port s =
     rbind (tcp_bind_scan PCB_MAX (pcb_lists s l) pcb ip port (tpcb s)) (\<lambda>u. if u then Inr True else tcp_bind_lists ls pcb ip port s)"

definition tcp_bind :: "nat \<Rightarrow> u32 option \<Rightarrow> u16 \<Rightarrow> 'a tcp_like \<Rightarrow> (err_t \<times> 'a tcp_like) res" where
  "tcp_bind pcb addr port s =
     (if fsm (tpcb s pcb) \<noteq> CLOSED then Inl Abort
      else
        let ls = (if reuseaddr (tpcb s pcb) then [Listen_Pcbs, Bound_Pcbs, Active_Pcbs] else [Listen_Pcbs, Bound_Pcbs, Active_Pcbs, Tw_Pcbs]);
            ip = addr_or_any addr
        in
          rbind (if port = 0 then tcp_new_port s else Inr (port, s)) (\<lambda>(port, s).
          if port = 0 then Inr (ERR_BUF, s)
          else
            rbind (tcp_bind_lists ls pcb ip port s) (\<lambda>used.
              if used then Inr (ERR_USE, s)
              else
                rbind (TCP_REG Bound_Pcbs pcb
                    (set_tpcb pcb (\<lambda>u. u\<lparr>tlocal_port := port, local_ip := (if ip \<noteq> IPADDR_ANY then ip else local_ip u)\<rparr>) s))
                  (\<lambda>s. Inr (ERR_OK, s)))))"

section \<open>Listening\<close>

primrec listen_scan :: "nat \<Rightarrow> nat \<Rightarrow> nat \<Rightarrow> (nat \<Rightarrow> tcp_pcb) \<Rightarrow> bool res" where
  "listen_scan 0 lpcb pcb U = Inl No_Fuel"
| "listen_scan (Suc fuel) lpcb pcb U =
     (if lpcb = 0 then Inr False
      else if tlocal_port (U lpcb) = tlocal_port (U pcb) \<and> local_ip (U lpcb) = local_ip (U pcb) then Inr True
      else listen_scan fuel (pcb_next (U lpcb)) pcb U)"

definition tcp_listen_with_backlog :: "nat \<Rightarrow> u8 \<Rightarrow> 'a tcp_like \<Rightarrow> (nat \<times> 'a tcp_like) res" where
  "tcp_listen_with_backlog pcb backlog s =
     (if fsm (tpcb s pcb) \<noteq> CLOSED then Inl Abort
      else
        rbind (if reuseaddr (tpcb s pcb) then listen_scan PCB_MAX (pcb_lists s Listen_Pcbs) pcb (tpcb s) else Inr False) (\<lambda>used.
        if used then Inr (0, s)
        else
          rbind (pool_get MEMP_TCP_PCB_LISTEN s) (\<lambda>(lpcb, s).
            if lpcb = 0 then Inr (0, s)
            else
              let u = tpcb s pcb;
                  s = set_tpcb lpcb (\<lambda>l. l\<lparr>callback_arg := callback_arg u, tlocal_port := tlocal_port u, fsm := LISTEN, prio := prio u,
                    so_options := so_options u OR SOF_ACCEPTCONN, ttl := ttl u, tos := tos u, local_ip := local_ip u\<rparr>) s
              in
                rbind (if tlocal_port (tpcb s pcb) \<noteq> 0 then TCP_RMV Bound_Pcbs pcb s else Inr s) (\<lambda>s.
                rbind (TCP_REG Listen_Pcbs lpcb (set_tpcb lpcb (\<lambda>l. l\<lparr>taccept := TCP_ACCEPT_NULL\<rparr>) (pool_put MEMP_TCP_PCB pcb s))) (\<lambda>s.
                  Inr (lpcb, s))))))"

section \<open>The receive window\<close>

text \<open>The PCB with its window announced anew, and how far the right edge of the window has moved.\<close>

definition rcv_ann_update :: "tcp_pcb \<Rightarrow> (u32 \<times> tcp_pcb) res" where
  "rcv_ann_update u =
     (let new_right_edge = rcv_nxt u + ucast (rcv_wnd u) in
      if TCP_SEQ_GEQ new_right_edge (rcv_ann_right_edge u + ucast (min (TCP_WND div 2) (mss u)))
      then Inr (new_right_edge - rcv_ann_right_edge u, u\<lparr>rcv_ann_wnd := rcv_wnd u\<rparr>)
      else if TCP_SEQ_GT (rcv_nxt u) (rcv_ann_right_edge u) then Inr (0, u\<lparr>rcv_ann_wnd := 0\<rparr>)
      else
        let new_rcv_ann_wnd = rcv_ann_right_edge u - rcv_nxt u in
        if \<not> new_rcv_ann_wnd \<le> 0xffff then Inl Abort else Inr (0, u\<lparr>rcv_ann_wnd := ucast new_rcv_ann_wnd\<rparr>))"

definition tcp_update_rcv_ann_wnd :: "nat \<Rightarrow> 'a tcp_like \<Rightarrow> (u32 \<times> 'a tcp_like) res" where
  "tcp_update_rcv_ann_wnd pcb s = rbind (rcv_ann_update (tpcb s pcb)) (\<lambda>(n, u). Inr (n, set_tpcb pcb (\<lambda>_. u) s))"

definition tcp_recved :: "'a tcp_like tcp_app \<Rightarrow> nat \<Rightarrow> u16 \<Rightarrow> 'a tcp_like \<Rightarrow> 'a tcp_like res" where
  "tcp_recved E pcb len s =
     (if fsm (tpcb s pcb) = LISTEN then Inl Abort
      else if \<not> len \<le> 0xffff - rcv_wnd (tpcb s pcb) then Inl Abort
      else
        let s = set_tpcb pcb (\<lambda>u. u\<lparr>rcv_wnd := min (rcv_wnd u + len) TCP_WND\<rparr>) s in
        rbind (tcp_update_rcv_ann_wnd pcb s) (\<lambda>(wnd_inflation, s).
          if sint wnd_inflation \<ge> int TCP_WND_UPDATE_THRESHOLD
          then rbind (tcp_output (linkf E) pcb (tcp_ack_now pcb s)) (\<lambda>(_, s). Inr s)
          else Inr s))"

section \<open>Callbacks\<close>

definition tcp_recv_null :: "'a tcp_like tcp_app \<Rightarrow> nat \<Rightarrow> nat \<Rightarrow> err_t \<Rightarrow> 'a tcp_like \<Rightarrow> (err_t \<times> 'a tcp_like) res" where
  "tcp_recv_null E pcb p err s =
     (if p \<noteq> 0
      then rbind (tcp_recved E pcb (word_of_nat (tot_len (the_pbuf s p))) s) (\<lambda>s. rbind (release_pbuf p s) (\<lambda>s. Inr (ERR_OK, s)))
      else if err = ERR_OK then tcp_close E pcb s
      else Inr (ERR_OK, s))"

text \<open>A call through the receive callback; \<open>p = 0\<close> tells that the connection was closed.\<close>

definition call_recv :: "'a tcp_like tcp_app \<Rightarrow> nat \<Rightarrow> nat \<Rightarrow> err_t \<Rightarrow> 'a tcp_like \<Rightarrow> (err_t \<times> 'a tcp_like) res" where
  "call_recv E pcb p err s =
     (if trecv (tpcb s pcb) = TCP_RECV_NULL then tcp_recv_null E pcb p err s
      else recv_fn E (trecv (tpcb s pcb)) (callback_arg (tpcb s pcb)) pcb p err s)"

definition TCP_EVENT_RECV :: "'a tcp_like tcp_app \<Rightarrow> nat \<Rightarrow> nat \<Rightarrow> err_t \<Rightarrow> 'a tcp_like \<Rightarrow> (err_t \<times> 'a tcp_like) res" where
  "TCP_EVENT_RECV E pcb p err s =
     (if trecv (tpcb s pcb) \<noteq> 0 then call_recv E pcb p err s else tcp_recv_null E pcb p err s)"

definition TCP_EVENT_CLOSED :: "'a tcp_like tcp_app \<Rightarrow> nat \<Rightarrow> 'a tcp_like \<Rightarrow> (err_t \<times> 'a tcp_like) res" where
  "TCP_EVENT_CLOSED E pcb s = (if trecv (tpcb s pcb) \<noteq> 0 then call_recv E pcb 0 ERR_OK s else Inr (ERR_OK, s))"

definition TCP_EVENT_ACCEPT :: "'a tcp_like tcp_app \<Rightarrow> nat \<Rightarrow> err_t \<Rightarrow> 'a tcp_like \<Rightarrow> (err_t \<times> 'a tcp_like) res" where
  "TCP_EVENT_ACCEPT E pcb err s =
     (if taccept (tpcb s pcb) = 0 then Inr (ERR_ARG, s)
      else if taccept (tpcb s pcb) = TCP_ACCEPT_NULL then Inr (ERR_ABRT, s)
      else accept_fn E (taccept (tpcb s pcb)) (callback_arg (tpcb s pcb)) pcb err s)"

definition TCP_EVENT_SENT :: "'a tcp_like tcp_app \<Rightarrow> nat \<Rightarrow> u16 \<Rightarrow> 'a tcp_like \<Rightarrow> (err_t \<times> 'a tcp_like) res" where
  "TCP_EVENT_SENT E pcb space s =
     (if tsent (tpcb s pcb) \<noteq> 0 then sent_fn E (tsent (tpcb s pcb)) (callback_arg (tpcb s pcb)) pcb space s else Inr (ERR_OK, s))"

definition TCP_EVENT_CONNECTED :: "'a tcp_like tcp_app \<Rightarrow> nat \<Rightarrow> err_t \<Rightarrow> 'a tcp_like \<Rightarrow> (err_t \<times> 'a tcp_like) res" where
  "TCP_EVENT_CONNECTED E pcb err s =
     (if tconnected (tpcb s pcb) \<noteq> 0 then connected_fn E (tconnected (tpcb s pcb)) (callback_arg (tpcb s pcb)) pcb err s else Inr (ERR_OK, s))"

definition TCP_EVENT_POLL :: "'a tcp_like tcp_app \<Rightarrow> nat \<Rightarrow> 'a tcp_like \<Rightarrow> (err_t \<times> 'a tcp_like) res" where
  "TCP_EVENT_POLL E pcb s =
     (if tpoll (tpcb s pcb) \<noteq> 0 then poll_fn E (tpoll (tpcb s pcb)) (callback_arg (tpcb s pcb)) pcb s else Inr (ERR_OK, s))"

definition tcp_process_refused_data :: "'a tcp_like tcp_app \<Rightarrow> nat \<Rightarrow> 'a tcp_like \<Rightarrow> (err_t \<times> 'a tcp_like) res" where
  "tcp_process_refused_data E pcb s =
     (let refused = refused_data (tpcb s pcb); refused_flags = pflags (the_pbuf s refused) in
      rbind (TCP_EVENT_RECV E pcb refused ERR_OK (set_tpcb pcb (\<lambda>u. u\<lparr>refused_data := 0\<rparr>) s)) (\<lambda>(err, s).
        if err = ERR_OK then
          (if refused_flags AND PBUF_FLAG_TCP_FIN \<noteq> 0
           then
             let s = (if rcv_wnd (tpcb s pcb) \<noteq> TCP_WND then set_tpcb pcb (\<lambda>u. u\<lparr>rcv_wnd := rcv_wnd u + 1\<rparr>) s else s) in
             rbind (TCP_EVENT_CLOSED E pcb s) (\<lambda>(err, s). Inr (if err = ERR_ABRT then ERR_ABRT else ERR_OK, s))
           else Inr (ERR_OK, s))
        else if err = ERR_ABRT then Inr (ERR_ABRT, s)
        else Inr (ERR_OK, set_tpcb pcb (\<lambda>u. u\<lparr>refused_data := refused\<rparr>) s)))"

section \<open>Allocation\<close>

text \<open>The searches for a connection to give up: the result is a PCB or 0.\<close>

primrec kill_prio_scan :: "nat \<Rightarrow> nat \<Rightarrow> u8 \<Rightarrow> u8 \<Rightarrow> u32 \<Rightarrow> nat \<Rightarrow> 'a tcp_like \<Rightarrow> nat res" where
  "kill_prio_scan 0 pcb pr mprio inactivity inactive s = Inl No_Fuel"
| "kill_prio_scan (Suc fuel) pcb pr mprio inactivity inactive s =
     (if pcb = 0 then Inr inactive
      else
        let u = tpcb s pcb in
        if prio u \<le> pr \<and> prio u \<le> mprio \<and> tcp_ticks s - tmr u \<ge> inactivity
        then kill_prio_scan fuel (pcb_next u) pr (prio u) (tcp_ticks s - tmr u) pcb s
        else kill_prio_scan fuel (pcb_next u) pr mprio inactivity inactive s)"

definition tcp_kill_prio :: "'a tcp_like tcp_app \<Rightarrow> u8 \<Rightarrow> 'a tcp_like \<Rightarrow> 'a tcp_like res" where
  "tcp_kill_prio E pr s =
     rbind (kill_prio_scan PCB_MAX (pcb_lists s Active_Pcbs) pr TCP_PRIO_MAX 0 0 s) (\<lambda>pcb.
       if pcb \<noteq> 0 then tcp_abort E pcb s else Inr s)"

primrec kill_tw_scan :: "nat \<Rightarrow> nat \<Rightarrow> u32 \<Rightarrow> nat \<Rightarrow> 'a tcp_like \<Rightarrow> nat res" where
  "kill_tw_scan 0 pcb inactivity inactive s = Inl No_Fuel"
| "kill_tw_scan (Suc fuel) pcb inactivity inactive s =
     (if pcb = 0 then Inr inactive
      else
        let u = tpcb s pcb in
        if tcp_ticks s - tmr u \<ge> inactivity then kill_tw_scan fuel (pcb_next u) (tcp_ticks s - tmr u) pcb s
        else kill_tw_scan fuel (pcb_next u) inactivity inactive s)"

definition tcp_kill_timewait :: "'a tcp_like tcp_app \<Rightarrow> 'a tcp_like \<Rightarrow> 'a tcp_like res" where
  "tcp_kill_timewait E s =
     rbind (kill_tw_scan PCB_MAX (pcb_lists s Tw_Pcbs) 0 0 s) (\<lambda>pcb. if pcb \<noteq> 0 then tcp_abort E pcb s else Inr s)"

definition new_pcb :: "u8 \<Rightarrow> u32 \<Rightarrow> u32 \<Rightarrow> u8 \<Rightarrow> tcp_pcb" where
  "new_pcb pr seq ticks ctr =
     \<lparr>local_ip = 0, remote_ip = 0, so_options = 0, tos = 0, ttl = TCP_TTL,
      pcb_next = 0, callback_arg = 0, taccept = 0, fsm = CLOSED, prio = pr, tlocal_port = 0, tremote_port = 0, tflags = 0,
      polltmr = 0, pollinterval = 0, last_timer = ctr, tmr = ticks,
      rcv_nxt = 0, rcv_wnd = TCP_WND, rcv_ann_wnd = TCP_WND, rcv_ann_right_edge = 0,
      rtime = -1, mss = 536, rttest = 0, rtseq = 0, sa = 0, sv = 6, rto = 6, nrtx = 0,
      dupacks = 0, lastack = seq, cwnd = 1, ssthresh = 0,
      snd_nxt = seq, snd_wl1 = 0, snd_wl2 = seq, snd_lbb = seq, snd_wnd = 0, snd_wnd_max = 0, acked = 0,
      snd_buf = TCP_SND_BUF, snd_queuelen = 0, unsent_oversize = 0, unsent = 0, unacked = 0, ooseq = 0, refused_data = 0,
      tsent = 0, trecv = TCP_RECV_NULL, tconnected = 0, tpoll = 0, terrf = 0,
      keep_idle = TCP_KEEPIDLE_DEFAULT, persist_cnt = 0, persist_backoff = 0, keep_cnt_sent = 0\<rparr>"

definition tcp_alloc :: "'a tcp_like tcp_app \<Rightarrow> u8 \<Rightarrow> 'a tcp_like \<Rightarrow> (nat \<times> 'a tcp_like) res" where
  "tcp_alloc E pr s =
     rbind (pool_get MEMP_TCP_PCB s) (\<lambda>(pcb, s).
     rbind
       (if pcb = 0
        then
          rbind (tcp_kill_timewait E s) (\<lambda>s.
          rbind (pool_get MEMP_TCP_PCB s) (\<lambda>(pcb, s).
            if pcb = 0 then rbind (tcp_kill_prio E pr s) (pool_get MEMP_TCP_PCB) else Inr (pcb, s)))
        else Inr (pcb, s)) (\<lambda>(pcb, s).
       if pcb = 0 then Inr (0, s)
       else let (seq, s) = tcp_next_iss s in Inr (pcb, set_tpcb pcb (\<lambda>_. new_pcb pr seq (tcp_ticks s) (tcp_timer_ctr s)) s)))"

definition tcp_new :: "'a tcp_like tcp_app \<Rightarrow> 'a tcp_like \<Rightarrow> (nat \<times> 'a tcp_like) res" where
  "tcp_new E s = tcp_alloc E TCP_PRIO_NORMAL s"

definition tcp_arg :: "nat \<Rightarrow> nat \<Rightarrow> 'a tcp_like \<Rightarrow> 'a tcp_like" where
  "tcp_arg pcb a s = set_tpcb pcb (\<lambda>u. u\<lparr>callback_arg := a\<rparr>) s"

definition tcp_setprio :: "nat \<Rightarrow> u8 \<Rightarrow> 'a tcp_like \<Rightarrow> 'a tcp_like" where
  "tcp_setprio pcb pr s = set_tpcb pcb (\<lambda>u. u\<lparr>prio := pr\<rparr>) s"

definition tcp_accept :: "nat \<Rightarrow> nat \<Rightarrow> 'a tcp_like \<Rightarrow> 'a tcp_like" where
  "tcp_accept pcb fn s = set_tpcb pcb (\<lambda>u. u\<lparr>taccept := fn\<rparr>) s"

definition tcp_recv :: "nat \<Rightarrow> nat \<Rightarrow> 'a tcp_like \<Rightarrow> 'a tcp_like res" where
  "tcp_recv pcb fn s = (if fsm (tpcb s pcb) = LISTEN then Inl Abort else Inr (set_tpcb pcb (\<lambda>u. u\<lparr>trecv := fn\<rparr>) s))"

definition tcp_sent :: "nat \<Rightarrow> nat \<Rightarrow> 'a tcp_like \<Rightarrow> 'a tcp_like res" where
  "tcp_sent pcb fn s = (if fsm (tpcb s pcb) = LISTEN then Inl Abort else Inr (set_tpcb pcb (\<lambda>u. u\<lparr>tsent := fn\<rparr>) s))"

definition tcp_err :: "nat \<Rightarrow> nat \<Rightarrow> 'a tcp_like \<Rightarrow> 'a tcp_like res" where
  "tcp_err pcb fn s = (if fsm (tpcb s pcb) = LISTEN then Inl Abort else Inr (set_tpcb pcb (\<lambda>u. u\<lparr>terrf := fn\<rparr>) s))"

definition tcp_poll :: "nat \<Rightarrow> nat \<Rightarrow> u8 \<Rightarrow> 'a tcp_like \<Rightarrow> 'a tcp_like res" where
  "tcp_poll pcb fn interval s =
     (if fsm (tpcb s pcb) = LISTEN then Inl Abort else Inr (set_tpcb pcb (\<lambda>u. u\<lparr>tpoll := fn, pollinterval := interval\<rparr>) s))"

section \<open>Connecting\<close>

primrec tuple_scan :: "nat \<Rightarrow> nat \<Rightarrow> nat \<Rightarrow> u32 \<Rightarrow> u16 \<Rightarrow> (nat \<Rightarrow> tcp_pcb) \<Rightarrow> bool res" where
  "tuple_scan 0 cpcb pcb ip port U = Inl No_Fuel"
| "tuple_scan (Suc fuel) cpcb pcb ip port U =
     (if cpcb = 0 then Inr False
      else if tlocal_port (U cpcb) = tlocal_port (U pcb) \<and> tremote_port (U cpcb) = port \<and> local_ip (U cpcb) = local_ip (U pcb) \<and>
        remote_ip (U cpcb) = ip
      then Inr True
      else tuple_scan fuel (pcb_next (U cpcb)) pcb ip port U)"

definition tcp_connect :: "'a tcp_like tcp_app \<Rightarrow> nat \<Rightarrow> u32 option \<Rightarrow> u16 \<Rightarrow> nat \<Rightarrow> 'a tcp_like \<Rightarrow> (err_t \<times> 'a tcp_like) res" where
  "tcp_connect E pcb addr port connected s =
     (if fsm (tpcb s pcb) \<noteq> CLOSED then Inl Abort
      else case addr of
        None \<Rightarrow> Inr (ERR_VAL, s)
      | Some ip \<Rightarrow>
          let s = set_tpcb pcb (\<lambda>u. u\<lparr>remote_ip := ip, tremote_port := port\<rparr>) s in
          rbind
            (if local_ip (tpcb s pcb) = IPADDR_ANY
             then rbind (ip_route (remote_ip (tpcb s pcb)) (arp s)) (\<lambda>n.
               Inr (n \<noteq> 0, if n \<noteq> 0 then set_tpcb pcb (\<lambda>u. u\<lparr>local_ip := ip_addr (ifs (arp s) n)\<rparr>) s else s))
             else Inr (True, s)) (\<lambda>(routed, s).
          if \<not> routed then Inr (ERR_RTE, s)
          else
            let old_local_port = tlocal_port (tpcb s pcb) in
            rbind
              (if old_local_port = 0
               then rbind (tcp_new_port s) (\<lambda>(port, s). Inr (set_tpcb pcb (\<lambda>u. u\<lparr>tlocal_port := port\<rparr>) s)) else Inr s) (\<lambda>s.
            if tlocal_port (tpcb s pcb) = 0 then Inr (ERR_BUF, s)
            else
              rbind
                (if reuseaddr (tpcb s pcb)
                 then rbind (tuple_scan PCB_MAX (pcb_lists s Active_Pcbs) pcb ip port (tpcb s)) (\<lambda>u.
                   if u then Inr True else tuple_scan PCB_MAX (pcb_lists s Tw_Pcbs) pcb ip port (tpcb s))
                 else Inr False) (\<lambda>used.
              if used then Inr (ERR_USE, s)
              else
                let (seq, s) = tcp_next_iss s in
                rbind (tcp_eff_send_mss 536 ip s) (\<lambda>m.
                let s = set_tpcb pcb (\<lambda>u. u\<lparr>rcv_nxt := 0, snd_nxt := seq, lastack := seq - 1, snd_lbb := seq - 1, rcv_wnd := TCP_WND,
                      rcv_ann_wnd := TCP_WND, rcv_ann_right_edge := 0, snd_wnd := TCP_WND, mss := m, cwnd := 1, ssthresh := m * 10,
                      tconnected := connected\<rparr>) s
                in
                  rbind (tcp_enqueue_flags pcb TCP_SYN s) (\<lambda>(ret, s).
                    if ret = ERR_OK
                    then
                      rbind (if old_local_port \<noteq> 0 then TCP_RMV Bound_Pcbs pcb (set_tpcb pcb (\<lambda>u. u\<lparr>fsm := SYN_SENT\<rparr>) s)
                             else Inr (set_tpcb pcb (\<lambda>u. u\<lparr>fsm := SYN_SENT\<rparr>) s)) (\<lambda>s.
                      rbind (TCP_REG_ACTIVE pcb s) (\<lambda>s.
                      rbind (tcp_output (linkf E) pcb s) (\<lambda>(_, s). Inr (ERR_OK, s))))
                    else Inr (ret, s)))))))"

section \<open>The slow timer\<close>

definition tcp_backoff :: "int list" where "tcp_backoff = [1, 2, 3, 4, 5, 6, 7, 7, 7, 7, 7, 7, 7]"
definition tcp_persist_backoff :: "u8 list" where "tcp_persist_backoff = [3, 6, 12, 24, 48, 96, 120]"

text \<open>The timeout, doubled with every retransmission, and the windows, when it is time to retransmit.\<close>

definition rto_backoff :: "tcp_pcb \<Rightarrow> tcp_pcb res" where
  "rto_backoff u =
     (if fsm u \<noteq> SYN_SENT then
        (if unat (nrtx u) < length tcp_backoff
         then Inr (u\<lparr>rto := s16_of ((sa u div 8 + sv u) * 2 ^ nat (tcp_backoff ! unat (nrtx u)))\<rparr>) else Inl Bad_Deref)
      else Inr u)"

definition rto_windows :: "tcp_pcb \<Rightarrow> tcp_pcb" where
  "rto_windows u =
     (let th = min (cwnd u) (snd_wnd u) div 2; th = (if unat th < 2 * unat (mss u) then 2 * mss u else th)
      in u\<lparr>rtime := 0, ssthresh := th, cwnd := mss u\<rparr>)"

text \<open>The timers for retransmission and for probing a closed window; the result says whether the retries are used up.\<close>

definition slow_retry :: "'a tcp_like tcp_app \<Rightarrow> nat \<Rightarrow> 'a tcp_like \<Rightarrow> (bool \<times> 'a tcp_like) res" where
  "slow_retry E pcb s =
     (let u = tpcb s pcb in
      if fsm u = SYN_SENT \<and> nrtx u = TCP_SYNMAXRTX then Inr (True, s)
      else if nrtx u = TCP_MAXRTX then Inr (True, s)
      else if persist_backoff u > 0 then
        let s = set_tpcb pcb (\<lambda>u. u\<lparr>persist_cnt := persist_cnt u + 1\<rparr>) s; u = tpcb s pcb in
        if \<not> unat (persist_backoff u) - 1 < length tcp_persist_backoff then Inl Bad_Deref
        else if persist_cnt u \<ge> tcp_persist_backoff ! (unat (persist_backoff u) - 1)
        then
          rbind (tcp_zero_window_probe (linkf E) pcb (set_tpcb pcb (\<lambda>u. u\<lparr>persist_cnt := 0, persist_backoff :=
              (if persist_backoff u < 7 then persist_backoff u + 1 else persist_backoff u)\<rparr>) s)) (\<lambda>s. Inr (False, s))
        else Inr (False, s)
      else
        let s = (if rtime u \<ge> 0 then set_tpcb pcb (\<lambda>u. u\<lparr>rtime := s16_of (rtime u + 1)\<rparr>) s else s); u = tpcb s pcb in
        if unacked u \<noteq> 0 \<and> rtime u \<ge> rto u
        then
          rbind (rto_backoff u) (\<lambda>u.
          rbind (tcp_rexmit_rto (linkf E) pcb (set_tpcb pcb (\<lambda>_. rto_windows u) s)) (\<lambda>s. Inr (False, s)))
        else Inr (False, s))"

definition idle_ticks :: "'a tcp_like \<Rightarrow> nat \<Rightarrow> u32" where
  "idle_ticks s pcb = tcp_ticks s - tmr (tpcb s pcb)"

text \<open>Probing whether the peer is alive; the result says whether it has been silent for too long.\<close>

definition slow_keepalive :: "'a tcp_like tcp_app \<Rightarrow> nat \<Rightarrow> 'a tcp_like \<Rightarrow> (bool \<times> 'a tcp_like) res" where
  "slow_keepalive E pcb s =
     (let u = tpcb s pcb in
      if so_options u AND SOF_KEEPALIVE \<noteq> 0 \<and> (fsm u = ESTABLISHED \<or> fsm u = CLOSE_WAIT)
      then
        (if unat (idle_ticks s pcb) > (unat (keep_idle u) + TCP_MAXIDLE) div unat TCP_SLOW_INTERVAL then Inr (True, s)
         else if unat (idle_ticks s pcb) > (unat (keep_idle u) + unat (keep_cnt_sent u) * TCP_KEEPINTVL_DEFAULT) div unat TCP_SLOW_INTERVAL
         then rbind (tcp_keepalive (linkf E) pcb s) (\<lambda>s. Inr (False, set_tpcb pcb (\<lambda>u. u\<lparr>keep_cnt_sent := keep_cnt_sent u + 1\<rparr>) s))
         else Inr (False, s))
      else Inr (False, s))"

text \<open>Out-of-sequence data is dropped when the connection has been idle.\<close>

definition slow_ooseq :: "nat \<Rightarrow> 'a tcp_like \<Rightarrow> 'a tcp_like res" where
  "slow_ooseq pcb s =
     (if ooseq (tpcb s pcb) \<noteq> 0 \<and> idle_ticks s pcb \<ge> word_of_int (rto (tpcb s pcb)) * TCP_OOSEQ_TIMEOUT
      then rbind (tcp_segs_free (ooseq (tpcb s pcb)) s) (\<lambda>s. Inr (set_tpcb pcb (\<lambda>u. u\<lparr>ooseq := 0\<rparr>) s))
      else Inr s)"

text \<open>Has the connection been too long in a state it should only pass through?\<close>

definition slow_stuck :: "nat \<Rightarrow> 'a tcp_like \<Rightarrow> bool" where
  "slow_stuck pcb s \<longleftrightarrow>
     (fsm (tpcb s pcb) = SYN_RCVD \<and> idle_ticks s pcb > TCP_SYN_RCVD_TIMEOUT div TCP_SLOW_INTERVAL) \<or>
     (fsm (tpcb s pcb) = LAST_ACK \<and> unat (idle_ticks s pcb) > 2 * TCP_MSL div unat TCP_SLOW_INTERVAL)"

definition slow_fin_wait_2 :: "nat \<Rightarrow> 'a tcp_like \<Rightarrow> bool" where
  "slow_fin_wait_2 pcb s \<longleftrightarrow>
     fsm (tpcb s pcb) = FIN_WAIT_2 \<and> has_flag TF_RXCLOSED (tpcb s pcb) \<and>
     idle_ticks s pcb > TCP_FIN_WAIT_TIMEOUT div TCP_SLOW_INTERVAL"

text \<open>Unlinking the PCB of an iteration, whose predecessor is known.\<close>

definition unlink_prev :: "pcb_list \<Rightarrow> nat \<Rightarrow> nat \<Rightarrow> 'a tcp_like \<Rightarrow> 'a tcp_like res" where
  "unlink_prev l prev pcb s =
     (if prev \<noteq> 0 then
        (if pcb = pcb_lists s l then Inl Abort else Inr (set_tpcb prev (\<lambda>u. u\<lparr>pcb_next := pcb_next (tpcb s pcb)\<rparr>) s))
      else if pcb_lists s l \<noteq> pcb then Inl Abort
      else Inr (set_list l (pcb_next (tpcb s pcb)) s))"

text \<open>The removal of a connection; the result is the next PCB, and whether to start again.\<close>

definition slow_remove :: "'a tcp_like tcp_app \<Rightarrow> bool \<Rightarrow> nat \<Rightarrow> nat \<Rightarrow> 'a tcp_like \<Rightarrow> (nat \<times> 'a tcp_like) res" where
  "slow_remove E reset prev pcb s =
     rbind (tcp_pcb_purge pcb s) (\<lambda>s.
     rbind (unlink_prev Active_Pcbs prev pcb s) (\<lambda>s.
     let u = tpcb s pcb in
     rbind (if reset then tcp_rst (linkf E) (snd_nxt u) (rcv_nxt u) (local_ip u) (remote_ip u) (tlocal_port u) (tremote_port u) s else Inr s) (\<lambda>s.
     let u = tpcb s pcb in
     rbind (TCP_EVENT_ERR E (terrf u) (callback_arg u) ERR_ABRT ((pool_put MEMP_TCP_PCB pcb s)\<lparr>tcp_active_pcbs_changed := False\<rparr>)) (\<lambda>s.
       Inr (pcb_next u, s)))))"

definition slow_poll :: "'a tcp_like tcp_app \<Rightarrow> nat \<Rightarrow> 'a tcp_like \<Rightarrow> (bool \<times> 'a tcp_like) res" where
  "slow_poll E pcb s =
     (let s = set_tpcb pcb (\<lambda>u. u\<lparr>polltmr := polltmr u + 1\<rparr>) s in
      if polltmr (tpcb s pcb) \<ge> pollinterval (tpcb s pcb)
      then
        rbind (TCP_EVENT_POLL E pcb ((set_tpcb pcb (\<lambda>u. u\<lparr>polltmr := 0\<rparr>) s)\<lparr>tcp_active_pcbs_changed := False\<rparr>)) (\<lambda>(err, s).
          if tcp_active_pcbs_changed s then Inr (True, s)
          else if err = ERR_OK then rbind (tcp_output (linkf E) pcb s) (\<lambda>(_, s). Inr (False, s))
          else Inr (False, s))
      else Inr (False, s))"

primrec slow_active :: "nat \<Rightarrow> 'a tcp_like tcp_app \<Rightarrow> nat \<Rightarrow> nat \<Rightarrow> 'a tcp_like \<Rightarrow> 'a tcp_like res" where
  "slow_active 0 E prev pcb s = Inl No_Fuel"
| "slow_active (Suc fuel) E prev pcb s =
     (if pcb = 0 then Inr s
      else if fsm (tpcb s pcb) = CLOSED \<or> fsm (tpcb s pcb) = LISTEN \<or> fsm (tpcb s pcb) = TIME_WAIT then Inl Abort
      else if last_timer (tpcb s pcb) = tcp_timer_ctr s then slow_active fuel E prev (pcb_next (tpcb s pcb)) s
      else
        rbind (slow_retry E pcb (set_tpcb pcb (\<lambda>u. u\<lparr>last_timer := tcp_timer_ctr s\<rparr>) s)) (\<lambda>(spent, s).
        let fin_wait = slow_fin_wait_2 pcb s in
        rbind (slow_keepalive E pcb s) (\<lambda>(dead, s).
        rbind (slow_ooseq pcb s) (\<lambda>s.
          if spent \<or> fin_wait \<or> dead \<or> slow_stuck pcb s
          then rbind (slow_remove E dead prev pcb s) (\<lambda>(nxt, s).
            if tcp_active_pcbs_changed s then slow_active fuel E 0 (pcb_lists s Active_Pcbs) s else slow_active fuel E prev nxt s)
          else
            let nxt = pcb_next (tpcb s pcb) in
            rbind (slow_poll E pcb s) (\<lambda>(restart, s).
              if restart then slow_active fuel E 0 (pcb_lists s Active_Pcbs) s else slow_active fuel E pcb nxt s)))))"

primrec slow_tw :: "nat \<Rightarrow> nat \<Rightarrow> nat \<Rightarrow> 'a tcp_like \<Rightarrow> 'a tcp_like res" where
  "slow_tw 0 prev pcb s = Inl No_Fuel"
| "slow_tw (Suc fuel) prev pcb s =
     (if pcb = 0 then Inr s
      else if fsm (tpcb s pcb) \<noteq> TIME_WAIT then Inl Abort
      else if unat (idle_ticks s pcb) > 2 * TCP_MSL div unat TCP_SLOW_INTERVAL
      then
        rbind (tcp_pcb_purge pcb s) (\<lambda>s.
        rbind (unlink_prev Tw_Pcbs prev pcb s) (\<lambda>s.
          let nxt = pcb_next (tpcb s pcb) in slow_tw fuel prev nxt (pool_put MEMP_TCP_PCB pcb s)))
      else slow_tw fuel pcb (pcb_next (tpcb s pcb)) s)"

definition tcp_slowtmr :: "nat \<Rightarrow> 'a tcp_like tcp_app \<Rightarrow> 'a tcp_like \<Rightarrow> 'a tcp_like res" where
  "tcp_slowtmr fuel E s =
     (let s = s\<lparr>tcp_ticks := tcp_ticks s + 1, tcp_timer_ctr := tcp_timer_ctr s + 1\<rparr> in
      rbind (slow_active fuel E 0 (pcb_lists s Active_Pcbs) s) (\<lambda>s. slow_tw PCB_MAX 0 (pcb_lists s Tw_Pcbs) s))"

section \<open>The fast timer\<close>

primrec fast_loop :: "nat \<Rightarrow> 'a tcp_like tcp_app \<Rightarrow> nat \<Rightarrow> 'a tcp_like \<Rightarrow> 'a tcp_like res" where
  "fast_loop 0 E pcb s = Inl No_Fuel"
| "fast_loop (Suc fuel) E pcb s =
     (if pcb = 0 then Inr s
      else if last_timer (tpcb s pcb) \<noteq> tcp_timer_ctr s
      then
        let s = set_tpcb pcb (\<lambda>u. u\<lparr>last_timer := tcp_timer_ctr s\<rparr>) s in
        rbind
          (if has_flag TF_ACK_DELAY (tpcb s pcb)
           then rbind (tcp_output (linkf E) pcb (tcp_ack_now pcb s)) (\<lambda>(_, s). Inr (clear_flag pcb (TF_ACK_DELAY OR TF_ACK_NOW) s))
           else Inr s) (\<lambda>s.
        let nxt = pcb_next (tpcb s pcb) in
        if refused_data (tpcb s pcb) \<noteq> 0
        then
          rbind (tcp_process_refused_data E pcb (s\<lparr>tcp_active_pcbs_changed := False\<rparr>)) (\<lambda>(_, s).
            if tcp_active_pcbs_changed s then fast_loop fuel E (pcb_lists s Active_Pcbs) s else fast_loop fuel E nxt s)
        else fast_loop fuel E nxt s)
      else fast_loop fuel E pcb s)"

definition tcp_fasttmr :: "nat \<Rightarrow> 'a tcp_like tcp_app \<Rightarrow> 'a tcp_like \<Rightarrow> 'a tcp_like res" where
  "tcp_fasttmr fuel E s =
     (let s = s\<lparr>tcp_timer_ctr := tcp_timer_ctr s + 1\<rparr> in fast_loop fuel E (pcb_lists s Active_Pcbs) s)"

definition tcp_tmr :: "nat \<Rightarrow> 'a tcp_like tcp_app \<Rightarrow> 'a tcp_like \<Rightarrow> 'a tcp_like res" where
  "tcp_tmr fuel E s =
     rbind (tcp_fasttmr fuel E s) (\<lambda>s.
       let s = s\<lparr>Tcp_Base.tcp_timer := Tcp_Base.tcp_timer s + 1\<rparr> in
       if Tcp_Base.tcp_timer s AND 1 \<noteq> 0 then tcp_slowtmr fuel E s else Inr s)"

end
