(* ===== verification/Tcp_In.thy ===== *)
theory Tcp_In
  imports Tcp
begin

text \<open>
  \<^verbatim>\<open>src/src/lwip/core/tcp_in.c\<close>: the receiver. The address of the TCP header (the variable \<^verbatim>\<open>tcphdr\<close>) is the
  argument \<open>th\<close>; \<^verbatim>\<open>tcp_input\<close> has converted its ports, numbers and window to host order in place. Segments on the queue
  of out-of-sequence data are therefore read by \<open>in_seqno\<close>, those on the queues for sending by \<open>seg_seqno\<close>. A division
  by zero ends the run like a failed assertion.
\<close>

abbreviation PBUF_FLAG_PUSH :: u8 where "PBUF_FLAG_PUSH \<equiv> 0x01"

definition set_inseg :: "(tcp_seg \<Rightarrow> tcp_seg) \<Rightarrow> 'a tcp_like \<Rightarrow> 'a tcp_like" where
  "set_inseg f s = s\<lparr>inseg := f (inseg s)\<rparr>"

definition th_src :: "nat \<Rightarrow> 'a ip_like \<Rightarrow> u16" where "th_src th s = mem_u16 th s"
definition th_dest :: "nat \<Rightarrow> 'a ip_like \<Rightarrow> u16" where "th_dest th s = mem_u16 (th + 2) s"
definition th_wnd :: "nat \<Rightarrow> 'a ip_like \<Rightarrow> u16" where "th_wnd th s = mem_u16 (th + 14) s"

definition in_flag :: "u16 \<Rightarrow> 'a tcp_like \<Rightarrow> bool" where
  "in_flag f s \<longleftrightarrow> iflags s AND f \<noteq> 0"

definition hdr_flag :: "u16 \<Rightarrow> tcp_seg \<Rightarrow> 'a ip_like \<Rightarrow> bool" where
  "hdr_flag f g s \<longleftrightarrow> TCPH_FLAGS (shdr g) s AND f \<noteq> 0"

text \<open>The length of a segment as a \<^verbatim>\<open>u16_t\<close>.\<close>

definition seg_tcplen :: "tcp_seg \<Rightarrow> 'a tcp_like \<Rightarrow> u16" where
  "seg_tcplen g s = word_of_nat (TCP_TCPLEN g s)"

definition reply_rst :: "(nat \<Rightarrow> bytes \<Rightarrow> err_t) \<Rightarrow> nat \<Rightarrow> 'a tcp_like \<Rightarrow> 'a tcp_like res" where
  "reply_rst link th s =
     tcp_rst link (ackno s) (seqno s + ucast (tcplen s)) (current_dest s) (current_src s) (th_dest th s) (th_src th s) s"

section \<open>Options\<close>

text \<open>The loop over \<open>max_c\<close> bytes of options from position \<open>c\<close>; \<open>m\<close> is the maximum segment size so far.\<close>

primrec opts_loop :: "nat \<Rightarrow> (nat \<Rightarrow> u8) \<Rightarrow> nat \<Rightarrow> nat \<Rightarrow> u16 \<Rightarrow> u16 res" where
  "opts_loop 0 opts c max_c m = Inl No_Fuel"
| "opts_loop (Suc fuel) opts c max_c m =
     (if \<not> c < max_c then Inr m
      else if opts c = 0x00 then Inr m
      else if opts c = 0x01 then opts_loop fuel opts (c + 1) max_c m
      else if opts c = 0x02 then
        (if opts (c + 1) \<noteq> 0x04 \<or> c + 4 > max_c then Inr m
         else
           let v = push_bit 8 (ucast (opts (c + 2))) OR ucast (opts (c + 3))
           in opts_loop fuel opts (c + 4) max_c (if v > TCP_MSS \<or> v = 0 then TCP_MSS else v))
      else if opts (c + 1) = 0 then Inr m
      else opts_loop fuel opts (c + unat (opts (c + 1))) max_c m)"

text \<open>There are at most 40 bytes of options, and every round advances.\<close>

definition tcp_parseopt :: "nat \<Rightarrow> nat \<Rightarrow> 'a tcp_like \<Rightarrow> 'a tcp_like res" where
  "tcp_parseopt th pcb s =
     (if TCPH_HDRLEN th s > 5
      then rbind (opts_loop 41 (\<lambda>i. memory s (th + TCP_HLEN + i)) 0 ((TCPH_HDRLEN th s - 5) * 4) (mss (tpcb s pcb))) (\<lambda>m.
        Inr (set_tpcb pcb (\<lambda>u. u\<lparr>mss := m\<rparr>) s))
      else Inr s)"

section \<open>Listening and TIME-WAIT\<close>

definition tcp_listen_input :: "'a tcp_like tcp_app \<Rightarrow> nat \<Rightarrow> nat \<Rightarrow> 'a tcp_like \<Rightarrow> (err_t \<times> 'a tcp_like) res" where
  "tcp_listen_input E th pcb s =
     (if in_flag TCP_RST s then Inr (ERR_OK, s)
      else if in_flag TCP_ACK s then rbind (reply_rst (linkf E) th s) (\<lambda>s. Inr (ERR_OK, s))
      else if in_flag TCP_SYN s then
        rbind (tcp_alloc E (prio (tpcb s pcb)) s) (\<lambda>(npcb, s).
          if npcb = 0 then Inr (ERR_MEM, s)
          else
            let l = tpcb s pcb; wnd = th_wnd th s;
                s = set_tpcb npcb (\<lambda>n. n\<lparr>local_ip := current_dest s, tlocal_port := tlocal_port l, remote_ip := current_src s,
                  tremote_port := th_src th s, fsm := SYN_RCVD, rcv_nxt := seqno s + 1, rcv_ann_right_edge := seqno s + 1,
                  snd_wnd := wnd, snd_wnd_max := wnd, ssthresh := wnd, snd_wl1 := seqno s - 1, callback_arg := callback_arg l,
                  taccept := taccept l, so_options := so_options l AND SOF_INHERITED\<rparr>) s
            in
              rbind (TCP_REG_ACTIVE npcb s) (\<lambda>s.
              rbind (tcp_parseopt th npcb s) (\<lambda>s.
              rbind (tcp_eff_send_mss (mss (tpcb s npcb)) (remote_ip (tpcb s npcb)) s) (\<lambda>m.
              rbind (tcp_enqueue_flags npcb (TCP_SYN OR TCP_ACK) (set_tpcb npcb (\<lambda>u. u\<lparr>mss := m\<rparr>) s)) (\<lambda>(rc, s).
                if rc \<noteq> ERR_OK then rbind (tcp_abandon E npcb False s) (\<lambda>s. Inr (rc, s))
                else tcp_output (linkf E) npcb s)))))
      else Inr (ERR_OK, s))"

definition tcp_timewait_input :: "(nat \<Rightarrow> bytes \<Rightarrow> err_t) \<Rightarrow> nat \<Rightarrow> nat \<Rightarrow> 'a tcp_like \<Rightarrow> (err_t \<times> 'a tcp_like) res" where
  "tcp_timewait_input link th pcb s =
     (let u = tpcb s pcb in
      if in_flag TCP_RST s then Inr (ERR_OK, s)
      else if in_flag TCP_SYN s \<and> TCP_SEQ_BETWEEN (seqno s) (rcv_nxt u) (rcv_nxt u + ucast (rcv_wnd u))
      then rbind (reply_rst link th s) (\<lambda>s. Inr (ERR_OK, s))
      else
        let s = (if \<not> in_flag TCP_SYN s \<and> in_flag TCP_FIN s then set_tpcb pcb (\<lambda>u. u\<lparr>tmr := tcp_ticks s\<rparr>) s else s) in
        if tcplen s > 0 then tcp_output link pcb (set_flag pcb TF_ACK_NOW s) else Inr (ERR_OK, s))"

section \<open>Acknowledgements\<close>

definition window_update :: "u32 \<Rightarrow> u32 \<Rightarrow> u16 \<Rightarrow> tcp_pcb \<Rightarrow> tcp_pcb" where
  "window_update sq ak wnd u =
     (if TCP_SEQ_LT (snd_wl1 u) sq \<or> (snd_wl1 u = sq \<and> TCP_SEQ_LT (snd_wl2 u) ak) \<or> (snd_wl2 u = ak \<and> wnd > snd_wnd u)
      then
        let u = u\<lparr>snd_wnd := wnd, snd_wnd_max := (if snd_wnd_max u < wnd then wnd else snd_wnd_max u), snd_wl1 := sq, snd_wl2 := ak\<rparr> in
        if wnd = 0 then (if persist_backoff u = 0 then u\<lparr>persist_cnt := 0, persist_backoff := 1\<rparr> else u)
        else if persist_backoff u > 0 then u\<lparr>persist_backoff := 0\<rparr> else u
      else u)"

definition grow_cwnd :: "tcp_pcb \<Rightarrow> tcp_pcb" where
  "grow_cwnd u = (if cwnd u + mss u > cwnd u then u\<lparr>cwnd := cwnd u + mss u\<rparr> else u)"

text \<open>An acknowledgement of nothing new; \<open>edge\<close> is the right edge of the window before it.\<close>

definition old_ack :: "u32 \<Rightarrow> nat \<Rightarrow> 'a tcp_like \<Rightarrow> 'a tcp_like res" where
  "old_ack edge pcb s =
     (let s = set_tpcb pcb (\<lambda>u. u\<lparr>acked := 0\<rparr>) s; u = tpcb s pcb in
      if tcplen s = 0 \<and> snd_wl2 u + ucast (snd_wnd u) = edge \<and> rtime u \<ge> 0 \<and> lastack u = ackno s
      then
        let s = (if dupacks u + 1 > dupacks u then set_tpcb pcb (\<lambda>u. u\<lparr>dupacks := dupacks u + 1\<rparr>) s else s) in
        if dupacks (tpcb s pcb) > 3 then Inr (set_tpcb pcb grow_cwnd s)
        else if dupacks (tpcb s pcb) = 3 then tcp_rexmit_fast pcb s
        else Inr s
      else Inr (set_tpcb pcb (\<lambda>u. u\<lparr>dupacks := 0\<rparr>) s))"

text \<open>The congestion window after an acknowledgement: slow start, then congestion avoidance.\<close>

definition ack_cwnd :: "tcp_pcb \<Rightarrow> tcp_pcb res" where
  "ack_cwnd u =
     (if cwnd u < ssthresh u then Inr (grow_cwnd u)
      else if unat (mss u) * unat (mss u) \<ge> 2 ^ 31 then Inl Signed_Overflow
      else if cwnd u = 0 then Inl Abort
      else
        let new_cwnd = word_of_nat (unat (cwnd u) + unat (mss u) * unat (mss u) div unat (cwnd u))
        in Inr (if new_cwnd > cwnd u then u\<lparr>cwnd := new_cwnd\<rparr> else u))"

definition new_ack :: "u32 \<Rightarrow> tcp_pcb \<Rightarrow> tcp_pcb res" where
  "new_ack ak u =
     (let u = (if has_flag TF_INFR u then u\<lparr>tflags := tflags u AND NOT TF_INFR, cwnd := ssthresh u\<rparr> else u);
          n = ucast (ak - lastack u);
          u = u\<lparr>nrtx := 0, rto := s16_of (sa u div 8 + sv u), acked := n, snd_buf := snd_buf u + n, dupacks := 0, lastack := ak\<rparr>
      in if fsm u \<ge> ESTABLISHED then ack_cwnd u else Inr u)"

text \<open>The accounts when the segment \<open>g\<close>, already unlinked, has been acknowledged.\<close>

definition drop_acked :: "nat \<Rightarrow> nat \<Rightarrow> 'a tcp_like \<Rightarrow> 'a tcp_like res" where
  "drop_acked pcb g s =
     rbind (pbuf_clen (sp (segs s g)) (pb (arp s))) (\<lambda>n.
       if \<not> unat (snd_queuelen (tpcb s pcb)) \<ge> n then Inl Abort
       else
         let s = (if acked (tpcb s pcb) \<noteq> 0 \<and> hdr_flag TCP_FIN (segs s g) s then set_tpcb pcb (\<lambda>u. u\<lparr>acked := acked u - 1\<rparr>) s else s);
             s = set_tpcb pcb (\<lambda>u. u\<lparr>snd_queuelen := snd_queuelen u - word_of_nat n\<rparr>) s
         in
           rbind (tcp_seg_free g s) (\<lambda>s.
             if snd_queuelen (tpcb s pcb) \<noteq> 0 \<and> unacked (tpcb s pcb) = 0 \<and> unsent (tpcb s pcb) = 0 then Inl Abort else Inr s))"

primrec unacked_loop :: "nat \<Rightarrow> nat \<Rightarrow> 'a tcp_like \<Rightarrow> 'a tcp_like res" where
  "unacked_loop 0 pcb s = Inl No_Fuel"
| "unacked_loop (Suc fuel) pcb s =
     (let g = unacked (tpcb s pcb) in
      if g \<noteq> 0 \<and> TCP_SEQ_LEQ (seg_seqno g s + word_of_nat (TCP_TCPLEN (segs s g) s)) (ackno s)
      then rbind (drop_acked pcb g (set_tpcb pcb (\<lambda>u. u\<lparr>unacked := seg_next (segs s g)\<rparr>) s)) (unacked_loop fuel pcb)
      else Inr s)"

primrec unsent_loop :: "nat \<Rightarrow> nat \<Rightarrow> 'a tcp_like \<Rightarrow> 'a tcp_like res" where
  "unsent_loop 0 pcb s = Inl No_Fuel"
| "unsent_loop (Suc fuel) pcb s =
     (let g = unsent (tpcb s pcb) in
      if g \<noteq> 0 \<and> TCP_SEQ_BETWEEN (ackno s) (seg_seqno g s + word_of_nat (TCP_TCPLEN (segs s g) s)) (snd_nxt (tpcb s pcb))
      then
        let s = set_tpcb pcb (\<lambda>u. u\<lparr>unsent := seg_next (segs s g)\<rparr>) s;
            s = (if unsent (tpcb s pcb) = 0 then set_tpcb pcb (\<lambda>u. u\<lparr>unsent_oversize := 0\<rparr>) s else s)
        in rbind (drop_acked pcb g s) (unsent_loop fuel pcb)
      else Inr s)"

text \<open>The estimate of the round-trip time, in ticks; shifts of \<^verbatim>\<open>s16_t\<close> are arithmetic.\<close>

definition rtt_estimate :: "u32 \<Rightarrow> tcp_pcb \<Rightarrow> tcp_pcb" where
  "rtt_estimate ticks u =
     (let m = s16_of (uint (ticks - rttest u));
          m = s16_of (m - sa u div 8);
          sa' = s16_of (sa u + m);
          m = (if m < 0 then s16_of (- m) else m);
          m = s16_of (m - sv u div 4);
          sv' = s16_of (sv u + m)
      in u\<lparr>sa := sa', sv := sv', rto := s16_of (sa' div 8 + sv'), rttest := 0\<rparr>)"

definition receive_ack :: "nat \<Rightarrow> nat \<Rightarrow> 'a tcp_like \<Rightarrow> 'a tcp_like res" where
  "receive_ack th pcb s =
     (let edge = ucast (snd_wnd (tpcb s pcb)) + snd_wl2 (tpcb s pcb);
          s = set_tpcb pcb (window_update (seqno s) (ackno s) (th_wnd th s)) s
      in
        rbind
          (if TCP_SEQ_LEQ (ackno s) (lastack (tpcb s pcb)) then old_ack edge pcb s
           else if TCP_SEQ_BETWEEN (ackno s) (lastack (tpcb s pcb) + 1) (snd_nxt (tpcb s pcb))
           then
             rbind (new_ack (ackno s) (tpcb s pcb)) (\<lambda>u.
             rbind (unacked_loop SEG_MAX pcb (set_tpcb pcb (\<lambda>_. u) s)) (\<lambda>s.
               Inr (set_tpcb pcb (\<lambda>u. u\<lparr>rtime := (if unacked u = 0 then -1 else 0), polltmr := 0\<rparr>) s)))
           else Inr (set_tpcb pcb (\<lambda>u. u\<lparr>acked := 0\<rparr>) s)) (\<lambda>s.
        rbind (unsent_loop SEG_MAX pcb s) (\<lambda>s.
          Inr (if rttest (tpcb s pcb) \<noteq> 0 \<and> TCP_SEQ_LT (rtseq (tpcb s pcb)) (ackno s)
               then set_tpcb pcb (rtt_estimate (tcp_ticks s)) s else s))))"

section \<open>Data in sequence\<close>

text \<open>Skipping \<open>off\<close> bytes of a chain: the pbuf reached and what is left to skip in it.\<close>

primrec skip_loop :: "nat \<Rightarrow> nat \<Rightarrow> int \<Rightarrow> nat \<Rightarrow> 'a tcp_like \<Rightarrow> ((nat \<times> int) \<times> 'a tcp_like) res" where
  "skip_loop 0 p off n s = Inl No_Fuel"
| "skip_loop (Suc fuel) p off n s =
     (if p = 0 then Inl Bad_Deref
      else if int (plen (the_pbuf s p)) < off
      then skip_loop fuel (pnext (the_pbuf s p)) (off - int (plen (the_pbuf s p))) n (set_pbuf p (\<lambda>b. b\<lparr>tot_len := n, plen := 0\<rparr>) s)
      else Inr ((p, off), s))"

definition trim_front :: "nat \<Rightarrow> 'a tcp_like \<Rightarrow> 'a tcp_like res" where
  "trim_front pcb s =
     (let nxt = rcv_nxt (tpcb s pcb); off = sint (nxt - seqno s); p = sp (inseg s) in
      if p = 0 \<or> \<not> off < 0x7fff then Inl Abort
      else
        rbind
          (if int (plen (the_pbuf s p)) < off
           then (if \<not> int (tot_len (the_pbuf s p)) \<ge> off then Inl Abort
             else skip_loop PBUF_MAX p off (u16_of (int (tot_len (the_pbuf s p)) - off)) s)
           else Inr ((p, off), s)) (\<lambda>((q, off), s).
        rbind (on_pbs (pbuf_header q (s16_of (- off))) s) (\<lambda>(failed, s).
          if failed then Inl Abort
          else
            let s = set_inseg (\<lambda>g. g\<lparr>slen := u16_of (int (slen g) - int (unat (nxt - seqno s)))\<rparr>) s
            in Inr (put (shdr (inseg s) + 4) (host_bytes32 nxt) (s\<lparr>seqno := nxt\<rparr>)))))"

text \<open>Cutting the received segment to the length \<open>n\<close>, from which a SYN takes one.\<close>

definition cut_inseg :: "u16 \<Rightarrow> 'a tcp_like \<Rightarrow> 'a tcp_like res" where
  "cut_inseg n s =
     (let s = set_inseg (\<lambda>g. g\<lparr>slen := (if hdr_flag TCP_SYN (inseg s) s then unat (n - 1) else unat n)\<rparr>) s in
      rbind (do_pbs (pbuf_realloc (sp (inseg s)) (slen (inseg s))) s) (\<lambda>s. Inr (s\<lparr>tcplen := seg_tcplen (inseg s) s\<rparr>)))"

definition clear_fin :: "nat \<Rightarrow> 'a ip_like \<Rightarrow> 'a ip_like" where
  "clear_fin th s = TCPH_FLAGS_SET th (TCPH_FLAGS th s AND NOT TCP_FIN) s"

definition trim_to_window :: "nat \<Rightarrow> 'a tcp_like \<Rightarrow> 'a tcp_like res" where
  "trim_to_window pcb s =
     (let s = s\<lparr>tcplen := seg_tcplen (inseg s) s\<rparr> in
      if tcplen s > rcv_wnd (tpcb s pcb)
      then
        let s = (if hdr_flag TCP_FIN (inseg s) s then clear_fin (shdr (inseg s)) s else s) in
        rbind (cut_inseg (rcv_wnd (tpcb s pcb)) s) (\<lambda>s.
          if seqno s + ucast (tcplen s) \<noteq> rcv_nxt (tpcb s pcb) + ucast (rcv_wnd (tpcb s pcb)) then Inl Abort else Inr s)
      else Inr s)"

text \<open>Removing the segments out of sequence that the received one covers; the first one that stays is returned.\<close>

primrec cover_loop :: "nat \<Rightarrow> nat \<Rightarrow> 'a tcp_like \<Rightarrow> (nat \<times> 'a tcp_like) res" where
  "cover_loop 0 nxt s = Inl No_Fuel"
| "cover_loop (Suc fuel) nxt s =
     (let g = segs s nxt in
      if nxt \<noteq> 0 \<and> TCP_SEQ_GEQ (seqno s + ucast (tcplen s)) (in_seqno g s + word_of_nat (slen g))
      then
        let s = (if hdr_flag TCP_FIN g s \<and> \<not> hdr_flag TCP_SYN (inseg s) s
              then let s = TCPH_SET_FLAG (shdr (inseg s)) TCP_FIN s in s\<lparr>tcplen := seg_tcplen (inseg s) s\<rparr> else s)
        in rbind (tcp_seg_free nxt s) (cover_loop fuel (seg_next g))
      else Inr (nxt, s))"

definition adjust_ooseq :: "nat \<Rightarrow> 'a tcp_like \<Rightarrow> 'a tcp_like res" where
  "adjust_ooseq pcb s =
     (if ooseq (tpcb s pcb) = 0 then Inr s
      else if hdr_flag TCP_FIN (inseg s) s
      then rbind (tcp_segs_free (ooseq (tpcb s pcb)) s) (\<lambda>s. Inr (set_tpcb pcb (\<lambda>u. u\<lparr>ooseq := 0\<rparr>) s))
      else
        rbind (cover_loop SEG_MAX (ooseq (tpcb s pcb)) s) (\<lambda>(nxt, s).
        rbind
          (let start = in_seqno (segs s nxt) s in
           if nxt \<noteq> 0 \<and> TCP_SEQ_GT (seqno s + ucast (tcplen s)) start
           then rbind (cut_inseg (ucast (start - seqno s)) s) (\<lambda>s.
             if seqno s + ucast (tcplen s) \<noteq> in_seqno (segs s nxt) s then Inl Abort else Inr s)
           else Inr s) (\<lambda>s.
          Inr (set_tpcb pcb (\<lambda>u. u\<lparr>ooseq := nxt\<rparr>) s))))"

text \<open>Moving the receive window over \<open>len\<close> numbers.\<close>

definition advance :: "nat \<Rightarrow> u32 \<Rightarrow> u16 \<Rightarrow> 'a tcp_like \<Rightarrow> 'a tcp_like res" where
  "advance pcb nxt len s =
     (let s = set_tpcb pcb (\<lambda>u. u\<lparr>rcv_nxt := nxt\<rparr>) s in
      if \<not> rcv_wnd (tpcb s pcb) \<ge> len then Inl Abort
      else rbind (tcp_update_rcv_ann_wnd pcb (set_tpcb pcb (\<lambda>u. u\<lparr>rcv_wnd := rcv_wnd u - len\<rparr>) s)) (\<lambda>(_, s). Inr s))"

text \<open>The queued segments that have come into sequence.\<close>

primrec ooseq_loop :: "nat \<Rightarrow> nat \<Rightarrow> 'a tcp_like \<Rightarrow> 'a tcp_like res" where
  "ooseq_loop 0 pcb s = Inl No_Fuel"
| "ooseq_loop (Suc fuel) pcb s =
     (let c = ooseq (tpcb s pcb); g = segs s c in
      if c \<noteq> 0 \<and> in_seqno g s = rcv_nxt (tpcb s pcb)
      then
        rbind (advance pcb (rcv_nxt (tpcb s pcb) + word_of_nat (TCP_TCPLEN g s)) (seg_tcplen g s) (s\<lparr>seqno := in_seqno g s\<rparr>)) (\<lambda>s.
        rbind
          (if tot_len (the_pbuf s (sp g)) > 0
           then
             rbind (if recv_data s \<noteq> 0 then do_pbs (pbuf_cat (recv_data s) (sp g)) s else Inr (s\<lparr>recv_data := sp g\<rparr>)) (\<lambda>s.
               Inr (set_seg c (\<lambda>x. x\<lparr>sp := 0\<rparr>) s))
           else Inr s) (\<lambda>s.
        let s = (if hdr_flag TCP_FIN g s
              then set_tpcb pcb (\<lambda>u. u\<lparr>fsm := (if fsm u = ESTABLISHED then CLOSE_WAIT else fsm u)\<rparr>)
                (s\<lparr>recv_flags := recv_flags s OR TF_GOT_FIN\<rparr>) else s);
            s = set_tpcb pcb (\<lambda>u. u\<lparr>ooseq := seg_next g\<rparr>) s
        in rbind (tcp_seg_free c s) (ooseq_loop fuel pcb)))
      else Inr s)"

definition receive_in_order :: "nat \<Rightarrow> 'a tcp_like \<Rightarrow> 'a tcp_like res" where
  "receive_in_order pcb s =
     rbind (trim_to_window pcb s) (\<lambda>s.
     rbind (adjust_ooseq pcb s) (\<lambda>s.
     rbind (advance pcb (seqno s + ucast (tcplen s)) (tcplen s) s) (\<lambda>s.
     let s = (if tot_len (the_pbuf s (sp (inseg s))) > 0 then set_inseg (\<lambda>g. g\<lparr>sp := 0\<rparr>) (s\<lparr>recv_data := sp (inseg s)\<rparr>) else s);
         s = (if hdr_flag TCP_FIN (inseg s) s then s\<lparr>recv_flags := recv_flags s OR TF_GOT_FIN\<rparr> else s)
     in rbind (ooseq_loop SEG_MAX pcb s) (\<lambda>s. Inr (tcp_ack pcb s)))))"

section \<open>Data out of sequence\<close>

primrec oos_delete :: "nat \<Rightarrow> nat \<Rightarrow> nat \<Rightarrow> 'a tcp_like \<Rightarrow> (nat \<times> 'a tcp_like) res" where
  "oos_delete 0 cseg nxt s = Inl No_Fuel"
| "oos_delete (Suc fuel) cseg nxt s =
     (let g = segs s nxt in
      if nxt \<noteq> 0 \<and> TCP_SEQ_GEQ (seqno s + word_of_nat (slen (segs s cseg))) (in_seqno g s + word_of_nat (slen g))
      then
        let s = (if hdr_flag TCP_FIN g s then TCPH_SET_FLAG (shdr (segs s cseg)) TCP_FIN s else s)
        in rbind (tcp_seg_free nxt s) (oos_delete fuel cseg (seg_next g))
      else Inr (nxt, s))"

text \<open>Cutting a queued segment to the length \<open>n\<close>.\<close>

definition cut_seg :: "nat \<Rightarrow> u16 \<Rightarrow> 'a tcp_like \<Rightarrow> 'a tcp_like res" where
  "cut_seg g n s = do_pbs (pbuf_realloc (sp (segs s g)) (unat n)) (set_seg g (\<lambda>x. x\<lparr>slen := unat n\<rparr>) s)"

definition tcp_oos_insert_segment :: "nat \<Rightarrow> nat \<Rightarrow> 'a tcp_like \<Rightarrow> 'a tcp_like res" where
  "tcp_oos_insert_segment cseg nxt s =
     rbind
       (if hdr_flag TCP_FIN (segs s cseg) s then rbind (tcp_segs_free nxt s) (\<lambda>s. Inr (0, s))
        else
          rbind (oos_delete SEG_MAX cseg nxt s) (\<lambda>(nxt, s).
            if nxt \<noteq> 0 \<and> TCP_SEQ_GT (seqno s + word_of_nat (slen (segs s cseg))) (in_seqno (segs s nxt) s)
            then rbind (cut_seg cseg (ucast (in_seqno (segs s nxt) s - seqno s)) s) (\<lambda>s. Inr (nxt, s))
            else Inr (nxt, s)))
       (\<lambda>(nxt, s). Inr (set_seg cseg (\<lambda>x. x\<lparr>seg_next := nxt\<rparr>) s))"

text \<open>A segment whose data runs into the received one is cut.\<close>

definition cut_before :: "nat \<Rightarrow> 'a tcp_like \<Rightarrow> 'a tcp_like res" where
  "cut_before g s =
     (let x = segs s g in
      if TCP_SEQ_GT (in_seqno x s + word_of_nat (slen x)) (seqno s) then cut_seg g (ucast (seqno s - in_seqno x s)) s else Inr s)"

text \<open>The new last segment \<open>c\<close> is cut to the receive window; the comparison is the one of \<^verbatim>\<open>u32_t\<close>.\<close>

definition fit_window :: "nat \<Rightarrow> nat \<Rightarrow> 'a tcp_like \<Rightarrow> 'a tcp_like res" where
  "fit_window pcb c s =
     (let right = rcv_nxt (tpcb s pcb) + ucast (rcv_wnd (tpcb s pcb)) in
      if ucast (tcplen s) + seqno s > right
      then
        let s = (if hdr_flag TCP_FIN (segs s c) s then clear_fin (shdr (segs s c)) s else s) in
        rbind (cut_seg c (ucast (right - seqno s)) s) (\<lambda>s.
          let s = s\<lparr>tcplen := seg_tcplen (segs s c) s\<rparr> in
          if seqno s + ucast (tcplen s) \<noteq> right then Inl Abort else Inr s)
      else Inr s)"

text \<open>Linking a copy of the received segment behind \<open>prev\<close>, or first if that is 0.\<close>

definition link_ooseq :: "nat \<Rightarrow> nat \<Rightarrow> nat \<Rightarrow> 'a tcp_like \<Rightarrow> 'a tcp_like" where
  "link_ooseq pcb prev c s =
     (if prev \<noteq> 0 then set_seg prev (\<lambda>x. x\<lparr>seg_next := c\<rparr>) s else set_tpcb pcb (\<lambda>u. u\<lparr>ooseq := c\<rparr>) s)"

primrec place_loop :: "nat \<Rightarrow> nat \<Rightarrow> nat \<Rightarrow> nat \<Rightarrow> 'a tcp_like \<Rightarrow> 'a tcp_like res" where
  "place_loop 0 pcb prev nxt s = Inl No_Fuel"
| "place_loop (Suc fuel) pcb prev nxt s =
     (let g = segs s nxt; q = in_seqno g s in
      if nxt = 0 then Inr s
      else if seqno s = q then
        (if slen (inseg s) > slen g
         then rbind (tcp_seg_copy (inseg s) s) (\<lambda>(c, s).
           if c \<noteq> 0 then tcp_oos_insert_segment c nxt (link_ooseq pcb prev c s) else Inr s)
         else Inr s)
      else if prev = 0 \<and> TCP_SEQ_LT (seqno s) q
      then rbind (tcp_seg_copy (inseg s) s) (\<lambda>(c, s).
        if c \<noteq> 0 then tcp_oos_insert_segment c nxt (link_ooseq pcb 0 c s) else Inr s)
      else if prev \<noteq> 0 \<and> TCP_SEQ_BETWEEN (seqno s) (in_seqno (segs s prev) s + 1) (q - 1)
      then rbind (tcp_seg_copy (inseg s) s) (\<lambda>(c, s).
        if c \<noteq> 0 then rbind (cut_before prev s) (\<lambda>s. tcp_oos_insert_segment c nxt (link_ooseq pcb prev c s)) else Inr s)
      else if seg_next g = 0 \<and> TCP_SEQ_GT (seqno s) q
      then
        (if hdr_flag TCP_FIN g s then Inr s
         else rbind (tcp_seg_copy (inseg s) s) (\<lambda>(c, s).
           let s = set_seg nxt (\<lambda>x. x\<lparr>seg_next := c\<rparr>) s in
           if c \<noteq> 0 then rbind (cut_before nxt s) (fit_window pcb c) else Inr s))
      else place_loop fuel pcb nxt (seg_next g) s)"

definition receive_out_of_order :: "(nat \<Rightarrow> bytes \<Rightarrow> err_t) \<Rightarrow> nat \<Rightarrow> 'a tcp_like \<Rightarrow> 'a tcp_like res" where
  "receive_out_of_order link pcb s =
     rbind (tcp_send_empty_ack link pcb s) (\<lambda>(_, s).
       if ooseq (tpcb s pcb) = 0
       then rbind (tcp_seg_copy (inseg s) s) (\<lambda>(c, s). Inr (set_tpcb pcb (\<lambda>u. u\<lparr>ooseq := c\<rparr>) s))
       else place_loop SEG_MAX pcb 0 (ooseq (tpcb s pcb)) s)"

section \<open>Receiving a segment\<close>

definition receive_data :: "(nat \<Rightarrow> bytes \<Rightarrow> err_t) \<Rightarrow> nat \<Rightarrow> 'a tcp_like \<Rightarrow> 'a tcp_like res" where
  "receive_data link pcb s =
     (let nxt = rcv_nxt (tpcb s pcb) in
      rbind
        (if TCP_SEQ_BETWEEN nxt (seqno s + 1) (seqno s + ucast (tcplen s) - 1) then trim_front pcb s
         else if TCP_SEQ_LT (seqno s) nxt then Inr (tcp_ack_now pcb s) else Inr s) (\<lambda>s.
        if TCP_SEQ_BETWEEN (seqno s) nxt (nxt + ucast (rcv_wnd (tpcb s pcb)) - 1)
        then (if nxt = seqno s then receive_in_order pcb s else receive_out_of_order link pcb s)
        else rbind (tcp_send_empty_ack link pcb s) (\<lambda>(_, s). Inr s)))"

definition tcp_receive :: "(nat \<Rightarrow> bytes \<Rightarrow> err_t) \<Rightarrow> nat \<Rightarrow> nat \<Rightarrow> 'a tcp_like \<Rightarrow> 'a tcp_like res" where
  "tcp_receive link th pcb s =
     (if \<not> fsm (tpcb s pcb) \<ge> ESTABLISHED then Inl Abort
      else
        rbind (if in_flag TCP_ACK s then receive_ack th pcb s else Inr s) (\<lambda>s.
          if tcplen s > 0 \<and> fsm (tpcb s pcb) < CLOSE_WAIT then receive_data link pcb s
          else
            let u = tpcb s pcb in
            Inr (if \<not> TCP_SEQ_BETWEEN (seqno s) (rcv_nxt u) (rcv_nxt u + ucast (rcv_wnd u) - 1) then tcp_ack_now pcb s else s)))"

section \<open>The state machine\<close>

definition enter_time_wait :: "nat \<Rightarrow> 'a tcp_like \<Rightarrow> 'a tcp_like res" where
  "enter_time_wait pcb s =
     rbind (tcp_pcb_purge pcb s) (\<lambda>s.
     rbind (TCP_RMV_ACTIVE pcb s) (\<lambda>s.
       TCP_REG Tw_Pcbs pcb (set_tpcb pcb (\<lambda>u. u\<lparr>fsm := TIME_WAIT\<rparr>) s)))"

definition got_fin :: "'a tcp_like \<Rightarrow> bool" where
  "got_fin s \<longleftrightarrow> recv_flags s AND TF_GOT_FIN \<noteq> 0"

text \<open>Does the segment acknowledge everything sent?\<close>

definition all_acked :: "nat \<Rightarrow> 'a tcp_like \<Rightarrow> bool" where
  "all_acked pcb s \<longleftrightarrow> in_flag TCP_ACK s \<and> ackno s = snd_nxt (tpcb s pcb)"

definition rst_acceptable :: "u32 \<Rightarrow> u32 \<Rightarrow> tcp_pcb \<Rightarrow> bool" where
  "rst_acceptable sq ak u \<longleftrightarrow>
     (if fsm u = SYN_SENT then ak = snd_nxt u else TCP_SEQ_BETWEEN sq (rcv_nxt u) (rcv_nxt u + ucast (rcv_wnd u)))"

definition process_syn_sent :: "'a tcp_like tcp_app \<Rightarrow> nat \<Rightarrow> nat \<Rightarrow> 'a tcp_like \<Rightarrow> (err_t \<times> 'a tcp_like) res" where
  "process_syn_sent E th pcb s =
     (let g = unacked (tpcb s pcb) in
      if in_flag TCP_ACK s \<and> in_flag TCP_SYN s \<and> g = 0 then Inl Bad_Deref
      else if in_flag TCP_ACK s \<and> in_flag TCP_SYN s \<and> ackno s = seg_seqno g s + 1
      then
        let s = set_tpcb pcb (\<lambda>u. u\<lparr>snd_buf := snd_buf u + 1, rcv_nxt := seqno s + 1, rcv_ann_right_edge := seqno s + 1,
              lastack := ackno s, snd_wnd := th_wnd th s, snd_wnd_max := th_wnd th s, snd_wl1 := seqno s - 1, fsm := ESTABLISHED\<rparr>) s in
        rbind (tcp_eff_send_mss (mss (tpcb s pcb)) (remote_ip (tpcb s pcb)) s) (\<lambda>m.
        let s = set_tpcb pcb (\<lambda>u. u\<lparr>mss := m, ssthresh := m * 10, cwnd := (if cwnd u = 1 then m * 2 else m)\<rparr>) s in
        if \<not> snd_queuelen (tpcb s pcb) > 0 then Inl Abort
        else
          rbind (tcp_seg_free g (set_tpcb pcb (\<lambda>u. u\<lparr>snd_queuelen := snd_queuelen u - 1, unacked := seg_next (segs s g)\<rparr>) s)) (\<lambda>s.
          let s = set_tpcb pcb (\<lambda>u. if unacked u = 0 then u\<lparr>rtime := -1\<rparr> else u\<lparr>rtime := 0, nrtx := 0\<rparr>) s in
          rbind (TCP_EVENT_CONNECTED E pcb ERR_OK s) (\<lambda>(err, s).
            if err = ERR_ABRT then Inr (ERR_ABRT, s) else Inr (ERR_OK, tcp_ack_now pcb s))))
      else if in_flag TCP_ACK s then rbind (reply_rst (linkf E) th s) (\<lambda>s. Inr (ERR_OK, s))
      else Inr (ERR_OK, s))"

definition process_syn_rcvd :: "'a tcp_like tcp_app \<Rightarrow> nat \<Rightarrow> nat \<Rightarrow> 'a tcp_like \<Rightarrow> (err_t \<times> 'a tcp_like) res" where
  "process_syn_rcvd E th pcb s =
     (if in_flag TCP_ACK s
      then
        if TCP_SEQ_BETWEEN (ackno s) (lastack (tpcb s pcb) + 1) (snd_nxt (tpcb s pcb))
        then
          if taccept (tpcb s pcb) = 0 then Inl Abort
          else
            rbind (TCP_EVENT_ACCEPT E pcb ERR_OK (set_tpcb pcb (\<lambda>u. u\<lparr>fsm := ESTABLISHED\<rparr>) s)) (\<lambda>(err, s).
              if err \<noteq> ERR_OK
              then rbind (if err \<noteq> ERR_ABRT then tcp_abort E pcb s else Inr s) (\<lambda>s. Inr (ERR_ABRT, s))
              else
                let old_cwnd = cwnd (tpcb s pcb) in
                rbind (tcp_receive (linkf E) th pcb s) (\<lambda>s.
                  let s = set_tpcb pcb (\<lambda>u. u\<lparr>acked := (if acked u \<noteq> 0 then acked u - 1 else 0),
                        cwnd := (if old_cwnd = 1 then mss u * 2 else mss u)\<rparr>) s
                  in Inr (ERR_OK, if got_fin s then set_tpcb pcb (\<lambda>u. u\<lparr>fsm := CLOSE_WAIT\<rparr>) (tcp_ack_now pcb s) else s)))
        else rbind (reply_rst (linkf E) th s) (\<lambda>s. Inr (ERR_OK, s))
      else if in_flag TCP_SYN s \<and> seqno s = rcv_nxt (tpcb s pcb) - 1 then rbind (tcp_rexmit pcb s) (\<lambda>s. Inr (ERR_OK, s))
      else Inr (ERR_OK, s))"

text \<open>The states in which data is received: what the connection does after it.\<close>

definition after_receive :: "tcp_fsm \<Rightarrow> nat \<Rightarrow> 'a tcp_like \<Rightarrow> 'a tcp_like res" where
  "after_receive st pcb s =
     (case st of
        FIN_WAIT_1 \<Rightarrow>
          if got_fin s then
            (if all_acked pcb s then enter_time_wait pcb (tcp_ack_now pcb s)
             else Inr (set_tpcb pcb (\<lambda>u. u\<lparr>fsm := CLOSING\<rparr>) (tcp_ack_now pcb s)))
          else if all_acked pcb s then Inr (set_tpcb pcb (\<lambda>u. u\<lparr>fsm := FIN_WAIT_2\<rparr>) s)
          else Inr s
      | FIN_WAIT_2 \<Rightarrow> if got_fin s then enter_time_wait pcb (tcp_ack_now pcb s) else Inr s
      | CLOSING \<Rightarrow> if all_acked pcb s then enter_time_wait pcb s else Inr s
      | LAST_ACK \<Rightarrow> if all_acked pcb s then Inr (s\<lparr>recv_flags := recv_flags s OR TF_CLOSED\<rparr>) else Inr s
      | _ \<Rightarrow> if got_fin s then Inr (set_tpcb pcb (\<lambda>u. u\<lparr>fsm := CLOSE_WAIT\<rparr>) (tcp_ack_now pcb s)) else Inr s)"

definition tcp_process :: "'a tcp_like tcp_app \<Rightarrow> nat \<Rightarrow> nat \<Rightarrow> 'a tcp_like \<Rightarrow> (err_t \<times> 'a tcp_like) res" where
  "tcp_process E th pcb s =
     (let u = tpcb s pcb in
      if in_flag TCP_RST s then
        (if rst_acceptable (seqno s) (ackno s) u
         then
           if fsm u = CLOSED then Inl Abort
           else Inr (ERR_RST, clear_flag pcb TF_ACK_DELAY (s\<lparr>recv_flags := recv_flags s OR TF_RESET\<rparr>))
         else Inr (ERR_OK, s))
      else if in_flag TCP_SYN s \<and> fsm u \<noteq> SYN_SENT \<and> fsm u \<noteq> SYN_RCVD then Inr (ERR_OK, tcp_ack_now pcb s)
      else
        let s = (if \<not> has_flag TF_RXCLOSED u then set_tpcb pcb (\<lambda>u. u\<lparr>tmr := tcp_ticks s\<rparr>) s else s);
            s = set_tpcb pcb (\<lambda>u. u\<lparr>keep_cnt_sent := 0\<rparr>) s
        in
          rbind (tcp_parseopt th pcb s) (\<lambda>s.
            let st = fsm (tpcb s pcb) in
            if st = SYN_SENT then process_syn_sent E th pcb s
            else if st = SYN_RCVD then process_syn_rcvd E th pcb s
            else if st = CLOSED \<or> st = LISTEN \<or> st = TIME_WAIT then Inr (ERR_OK, s)
            else rbind (tcp_receive (linkf E) th pcb s) (\<lambda>s. rbind (after_receive st pcb s) (\<lambda>s. Inr (ERR_OK, s)))))"

section \<open>Finding the connection\<close>

definition conn_match :: "u16 \<Rightarrow> u16 \<Rightarrow> u32 \<Rightarrow> u32 \<Rightarrow> tcp_pcb \<Rightarrow> bool" where
  "conn_match sport dport src dst u \<longleftrightarrow>
     tremote_port u = sport \<and> tlocal_port u = dport \<and> remote_ip u = src \<and> local_ip u = dst"

text \<open>The searches: an active connection with its predecessor, a connection in TIME-WAIT, a listener with its predecessor.\<close>

primrec find_active :: "nat \<Rightarrow> nat \<Rightarrow> nat \<Rightarrow> (tcp_pcb \<Rightarrow> bool) \<Rightarrow> (nat \<Rightarrow> tcp_pcb) \<Rightarrow> (nat \<times> nat) res" where
  "find_active 0 pcb prev P U = Inl No_Fuel"
| "find_active (Suc fuel) pcb prev P U =
     (if pcb = 0 then Inr (0, prev)
      else if fsm (U pcb) = CLOSED \<or> fsm (U pcb) = TIME_WAIT \<or> fsm (U pcb) = LISTEN then Inl Abort
      else if P (U pcb) then Inr (pcb, prev)
      else find_active fuel (pcb_next (U pcb)) pcb P U)"

primrec find_tw :: "nat \<Rightarrow> nat \<Rightarrow> (tcp_pcb \<Rightarrow> bool) \<Rightarrow> (nat \<Rightarrow> tcp_pcb) \<Rightarrow> nat res" where
  "find_tw 0 pcb P U = Inl No_Fuel"
| "find_tw (Suc fuel) pcb P U =
     (if pcb = 0 then Inr 0
      else if fsm (U pcb) \<noteq> TIME_WAIT then Inl Abort
      else if P (U pcb) then Inr pcb
      else find_tw fuel (pcb_next (U pcb)) P U)"

primrec find_listener ::
    "nat \<Rightarrow> nat \<Rightarrow> nat \<Rightarrow> nat \<Rightarrow> nat \<Rightarrow> u16 \<Rightarrow> u32 \<Rightarrow> (nat \<Rightarrow> tcp_pcb) \<Rightarrow> (nat \<times> nat) res" where
  "find_listener 0 l prev any any_prev dport dst U = Inl No_Fuel"
| "find_listener (Suc fuel) l prev any any_prev dport dst U =
     (if l = 0 then Inr (any, any_prev)
      else if tlocal_port (U l) = dport \<and> local_ip (U l) = dst then Inr (l, prev)
      else if tlocal_port (U l) = dport \<and> local_ip (U l) = IPADDR_ANY
      then find_listener fuel (pcb_next (U l)) l l prev dport dst U
      else find_listener fuel (pcb_next (U l)) l any any_prev dport dst U)"

definition to_front :: "pcb_list \<Rightarrow> nat \<Rightarrow> nat \<Rightarrow> 'a tcp_like \<Rightarrow> 'a tcp_like" where
  "to_front l prev pcb s =
     (if prev \<noteq> 0
      then
        let s = set_tpcb prev (\<lambda>u. u\<lparr>pcb_next := pcb_next (tpcb s pcb)\<rparr>) s
        in set_list l pcb (set_tpcb pcb (\<lambda>u. u\<lparr>pcb_next := pcb_lists s l\<rparr>) s)
      else s)"

text \<open>The receiver of a segment: an active connection, one in TIME-WAIT, a listener, or none.\<close>

datatype receiver = To_Active nat | To_Time_Wait nat | To_Listener nat | To_None

definition tcp_demux :: "u16 \<Rightarrow> u16 \<Rightarrow> 'a tcp_like \<Rightarrow> (receiver \<times> 'a tcp_like) res" where
  "tcp_demux sport dport s =
     (let P = conn_match sport dport (current_src s) (current_dest s) in
      rbind (find_active PCB_MAX (pcb_lists s Active_Pcbs) 0 P (tpcb s)) (\<lambda>(pcb, prev).
        if pcb \<noteq> 0
        then
          if pcb_next (tpcb s pcb) = pcb then Inl Abort
          else
            let s = to_front Active_Pcbs prev pcb s in
            if pcb_next (tpcb s pcb) = pcb then Inl Abort else Inr (To_Active pcb, s)
        else
          rbind (find_tw PCB_MAX (pcb_lists s Tw_Pcbs) P (tpcb s)) (\<lambda>pcb.
            if pcb \<noteq> 0 then Inr (To_Time_Wait pcb, s)
            else
              rbind (find_listener PCB_MAX (pcb_lists s Listen_Pcbs) 0 0 0 dport (current_dest s) (tpcb s)) (\<lambda>(l, prev).
                if l \<noteq> 0 then Inr (To_Listener l, to_front Listen_Pcbs prev l s) else Inr (To_None, s)))))"

section \<open>Input\<close>

text \<open>What follows \<^verbatim>\<open>tcp_process\<close> for a connection that lives on; the result is False if it was aborted in a callback.\<close>

definition deliver :: "'a tcp_like tcp_app \<Rightarrow> nat \<Rightarrow> 'a tcp_like \<Rightarrow> (bool \<times> 'a tcp_like) res" where
  "deliver E pcb s =
     rbind (if acked (tpcb s pcb) > 0 then TCP_EVENT_SENT E pcb (acked (tpcb s pcb)) s else Inr (ERR_OK, s)) (\<lambda>(err, s).
     if err = ERR_ABRT then Inr (False, s)
     else
       rbind
         (if recv_data s \<noteq> 0
          then
            if refused_data (tpcb s pcb) \<noteq> 0 then Inl Abort
            else if has_flag TF_RXCLOSED (tpcb s pcb)
            then rbind (release_pbuf (recv_data s) s) (\<lambda>s. rbind (tcp_abort E pcb s) (\<lambda>s. Inr (False, s)))
            else
              rbind (TCP_EVENT_RECV E pcb (recv_data s) ERR_OK s) (\<lambda>(err, s).
                if err = ERR_ABRT then Inr (False, s)
                else Inr (True, if err \<noteq> ERR_OK then set_tpcb pcb (\<lambda>u. u\<lparr>refused_data := recv_data s\<rparr>) s else s))
          else Inr (True, s)) (\<lambda>(alive, s).
       if \<not> alive then Inr (False, s)
       else if got_fin s
       then
         if refused_data (tpcb s pcb) \<noteq> 0
         then Inr (True, set_pbuf (refused_data (tpcb s pcb)) (\<lambda>b. b\<lparr>pflags := pflags b OR PBUF_FLAG_TCP_FIN\<rparr>) s)
         else
           let s = (if rcv_wnd (tpcb s pcb) \<noteq> TCP_WND then set_tpcb pcb (\<lambda>u. u\<lparr>rcv_wnd := rcv_wnd u + 1\<rparr>) s else s)
           in rbind (TCP_EVENT_CLOSED E pcb s) (\<lambda>(err, s). Inr (err \<noteq> ERR_ABRT, s))
       else Inr (True, s)))"

definition after_process :: "'a tcp_like tcp_app \<Rightarrow> nat \<Rightarrow> err_t \<Rightarrow> 'a tcp_like \<Rightarrow> 'a tcp_like res" where
  "after_process E pcb err s =
     (if err = ERR_ABRT then Inr s
      else if recv_flags s AND TF_RESET \<noteq> 0
      then
        rbind (TCP_EVENT_ERR E (terrf (tpcb s pcb)) (callback_arg (tpcb s pcb)) ERR_RST s) (\<lambda>s.
        rbind (tcp_pcb_remove E Active_Pcbs pcb s) (\<lambda>s. Inr (pool_put MEMP_TCP_PCB pcb s)))
      else if recv_flags s AND TF_CLOSED \<noteq> 0
      then
        rbind (if \<not> has_flag TF_RXCLOSED (tpcb s pcb) then TCP_EVENT_ERR E (terrf (tpcb s pcb)) (callback_arg (tpcb s pcb)) ERR_CLSD s
               else Inr s) (\<lambda>s.
        rbind (tcp_pcb_remove E Active_Pcbs pcb s) (\<lambda>s. Inr (pool_put MEMP_TCP_PCB pcb s)))
      else
        rbind (deliver E pcb s) (\<lambda>(alive, s).
          if alive then rbind (tcp_output (linkf E) pcb (s\<lparr>tcp_input_pcb := 0\<rparr>)) (\<lambda>(_, s). Inr s) else Inr s))"

text \<open>A segment \<open>p\<close> for the active connection \<open>pcb\<close>.\<close>

definition input_active :: "'a tcp_like tcp_app \<Rightarrow> nat \<Rightarrow> nat \<Rightarrow> nat \<Rightarrow> 'a tcp_like \<Rightarrow> 'a tcp_like res" where
  "input_active E th p pcb s =
     (let s = set_inseg (\<lambda>g. g\<lparr>seg_next := 0, slen := tot_len (the_pbuf s p), sp := p, shdr := th\<rparr>) s;
          s = s\<lparr>recv_data := 0, recv_flags := 0\<rparr>;
          s = (if in_flag TCP_PSH s then set_pbuf p (\<lambda>b. b\<lparr>pflags := pflags b OR PBUF_FLAG_PUSH\<rparr>) s else s)
      in
        rbind
          (if refused_data (tpcb s pcb) \<noteq> 0
           then rbind (tcp_process_refused_data E pcb s) (\<lambda>(err, s).
             Inr (\<not> (err = ERR_ABRT \<or> refused_data (tpcb s pcb) \<noteq> 0 \<and> tcplen s > 0), s))
           else Inr (True, s)) (\<lambda>(go, s).
        rbind
          (if go then rbind (tcp_process E th pcb (s\<lparr>tcp_input_pcb := pcb\<rparr>)) (\<lambda>(err, s). after_process E pcb err s) else Inr s) (\<lambda>s.
        let s = s\<lparr>tcp_input_pcb := 0, recv_data := 0\<rparr> in
        if sp (inseg s) \<noteq> 0
        then rbind (release_pbuf (sp (inseg s)) s) (\<lambda>s. Inr (set_inseg (\<lambda>g. g\<lparr>sp := 0\<rparr>) s))
        else Inr s)))"

text \<open>The fields of the header are converted to host order, and kept.\<close>

definition convert_header :: "nat \<Rightarrow> nat \<Rightarrow> 'a tcp_like \<Rightarrow> 'a tcp_like" where
  "convert_header th p s =
     (let s = put th (host_bytes16 (lwip_ntohs (mem_u16 th s))) s;
          s = put (th + 2) (host_bytes16 (lwip_ntohs (mem_u16 (th + 2) s))) s;
          s = put (th + 4) (host_bytes32 (lwip_ntohl (mem_u32 (th + 4) s))) s;
          s = s\<lparr>seqno := mem_u32 (th + 4) s\<rparr>;
          s = put (th + 8) (host_bytes32 (lwip_ntohl (mem_u32 (th + 8) s))) s;
          s = s\<lparr>ackno := mem_u32 (th + 8) s\<rparr>;
          s = put (th + 14) (host_bytes16 (lwip_ntohs (mem_u16 (th + 14) s))) s;
          s = s\<lparr>iflags := TCPH_FLAGS th s\<rparr>
      in s\<lparr>tcplen := word_of_nat (tot_len (the_pbuf s p) + (if in_flag (TCP_FIN OR TCP_SYN) s then 1 else 0))\<rparr>)"

definition tcp_input :: "'a tcp_like tcp_app \<Rightarrow> nat \<Rightarrow> nat \<Rightarrow> 'a tcp_like \<Rightarrow> 'a tcp_like res" where
  "tcp_input E p inp s =
     (let hlen = unat (field_u8 p 0 (arp s) AND 0x0f) * 4; th = payload (the_pbuf s p) + hlen in
      rbind (on_pbs (pbuf_header p (- int hlen)) s) (\<lambda>(failed, s).
      if failed \<or> tot_len (the_pbuf s p) < TCP_HLEN then release_pbuf p s
      else if ip4_addr_isbroadcast (current_dest s) (ifs (arp s) inp) \<or> ip_addr_ismulticast (current_dest s) then release_pbuf p s
      else
        rbind (inet_chksum_pseudo p (current_src s) (current_dest s) IP_PROTO_TCP (word_of_nat (tot_len (the_pbuf s p))) (pb (arp s))) (\<lambda>c.
        if c \<noteq> 0 then release_pbuf p s
        else
          rbind (on_pbs (pbuf_header p (- int (TCPH_HDRLEN th s * 4))) s) (\<lambda>(failed, s).
          if failed then release_pbuf p s
          else
            let s = convert_header th p s in
            rbind (tcp_demux (th_src th s) (th_dest th s) s) (\<lambda>(r, s).
              case r of
                To_Active pcb \<Rightarrow> input_active E th p pcb s
              | To_Time_Wait pcb \<Rightarrow> rbind (tcp_timewait_input (linkf E) th pcb s) (\<lambda>(_, s). release_pbuf p s)
              | To_Listener l \<Rightarrow> rbind (tcp_listen_input E th l s) (\<lambda>(_, s). release_pbuf p s)
              | To_None \<Rightarrow>
                  rbind (if TCPH_FLAGS th s AND TCP_RST = 0 then reply_rst (linkf E) th s else Inr s) (release_pbuf p))))))"

end
