(* ===== verification/Ip_Reass_Life.thy ===== *)
theory Ip_Reass_Life
  imports Ip_Reass Driver_Life
begin

text \<open>
  What \<^verbatim>\<open>ip_reass_chain_frag_into_datagram_and_validate\<close> does to the fragments of a datagram, and which
  datagram \<^verbatim>\<open>ip_reass_remove_oldest_datagram\<close> gives up.
\<close>

section \<open>Lists of fragments\<close>

definition frags :: "(nat \<Rightarrow> ip_reass_helper) \<Rightarrow> nat \<Rightarrow> nat list \<Rightarrow> bool" where
  "frags H p ps \<longleftrightarrow> linked (\<lambda>q. next_pbuf (H q)) p ps"

lemma frags_simps [simp]:
  "frags H p [] \<longleftrightarrow> p = 0" "frags H p (q # qs) \<longleftrightarrow> p = q \<and> q \<noteq> 0 \<and> frags H (next_pbuf (H q)) qs"
  by (simp_all add: frags_def)

text \<open>Fragments in order: each starts behind the start of the one before it, and not before its end.\<close>

fun ordered :: "(nat \<Rightarrow> ip_reass_helper) \<Rightarrow> nat list \<Rightarrow> bool" where
  "ordered H (p # q # ps) \<longleftrightarrow> fstart (H p) < fstart (H q) \<and> fend (H p) \<le> fstart (H q) \<and> ordered H (q # ps)"
| "ordered H ps \<longleftrightarrow> True"

text \<open>Fragments without a hole between them.\<close>

fun gapless :: "(nat \<Rightarrow> ip_reass_helper) \<Rightarrow> nat list \<Rightarrow> bool" where
  "gapless H (p # q # ps) \<longleftrightarrow> fend (H p) = fstart (H q) \<and> gapless H (q # ps)"
| "gapless H ps \<longleftrightarrow> True"

lemma gapless_append: "xs \<noteq> [] \<Longrightarrow> ys \<noteq> [] \<Longrightarrow>
    gapless H (xs @ ys) \<longleftrightarrow> gapless H xs \<and> fend (H (last xs)) = fstart (H (hd ys)) \<and> gapless H ys"
proof (induction xs)
  case (Cons x xs)
  then show ?case by (cases xs; cases ys) auto
qed simp

lemma gapless_cong: "(\<And>q. q \<in> set ps \<Longrightarrow> fstart (H q) = fstart (H' q) \<and> fend (H q) = fend (H' q)) \<Longrightarrow> gapless H ps = gapless H' ps"
  by (induction H ps rule: gapless.induct) auto

lemma ordered_cong: "(\<And>q. q \<in> set ps \<Longrightarrow> fstart (H q) = fstart (H' q) \<and> fend (H q) = fend (H' q)) \<Longrightarrow> ordered H ps = ordered H' ps"
  by (induction H ps rule: ordered.induct) auto

text \<open>The fragments in front of a new one, and the place \<^verbatim>\<open>find_place\<close> finds behind them.\<close>

definition precedes :: "(nat \<Rightarrow> ip_reass_helper) \<Rightarrow> ip_reass_helper \<Rightarrow> nat \<Rightarrow> bool" where
  "precedes H h q \<longleftrightarrow> fstart (H q) < fstart h \<and> fend (H q) \<le> fstart h"

definition last_or :: "nat \<Rightarrow> nat list \<Rightarrow> nat" where
  "last_or prev us = (if us = [] then prev else last us)"

definition place_behind :: "nat \<Rightarrow> nat list \<Rightarrow> ip_reass_helper \<Rightarrow> (nat \<Rightarrow> ip_reass_helper) \<Rightarrow> frag_place" where
  "place_behind prev vs h H =
     (case vs of
        [] \<Rightarrow> At_End prev
      | v # _ \<Rightarrow> if fstart h < fstart (H v)
                 then (if prev \<noteq> 0 \<and> (fstart h < fend (H prev) \<or> fend h > fstart (H v)) then Drop else Before v prev)
                 else Drop)"

lemma find_place_spec:
  assumes "frags H q (us @ vs)" "length us < fuel" "\<forall>u \<in> set us. precedes H h u" "vs = [] \<or> \<not> precedes H h (hd vs)"
  shows "find_place fuel q prev valid h H =
    Inr (place_behind (last_or prev us) vs h H, valid \<and> gapless H (if prev = 0 then us else prev # us))"
  using assms
proof (induction us arbitrary: q prev valid fuel)
  case Nil
  then obtain f where f: "fuel = Suc f" by (cases fuel) auto
  show ?case
  proof (cases vs)
    case vs: Nil
    then show ?thesis using Nil f by (simp add: place_behind_def last_or_def)
  next
    case (Cons v ws)
    then show ?thesis
      using Nil f by (auto simp: place_behind_def last_or_def precedes_def)
  qed
next
  case (Cons u us)
  then obtain f where f: "fuel = Suc f" "length us < f" by (cases fuel) auto
  have u: "q = u" "u \<noteq> 0" "frags H (next_pbuf (H u)) (us @ vs)" "fstart (H u) < fstart h" "fend (H u) \<le> fstart h"
    using Cons.prems by (auto simp: precedes_def)
  have "find_place fuel q prev valid h H = find_place f (next_pbuf (H u)) u (if prev \<noteq> 0 \<and> fend (H prev) \<noteq> fstart (H u) then False else valid) h H"
    using u f by auto
  also have "\<dots> = Inr (place_behind (last_or u us) vs h H, (if prev \<noteq> 0 \<and> fend (H prev) \<noteq> fstart (H u) then False else valid) \<and> gapless H (u # us))"
    using Cons.IH [OF u(3) f(2) _ Cons.prems(4)] Cons.prems(3) u(2) by simp
  finally show ?case by (auto simp: last_or_def)
qed

text \<open>In a list in order, exactly the fragments in front of the new one precede it.\<close>

lemma ordered_split:
  "ordered H ps \<Longrightarrow> \<exists>us vs. ps = us @ vs \<and> (\<forall>u \<in> set us. precedes H h u) \<and> (vs = [] \<or> \<not> precedes H h (hd vs))"
proof (intro exI conjI)
  show "ps = takeWhile (precedes H h) ps @ dropWhile (precedes H h) ps" by simp
  show "\<forall>u \<in> set (takeWhile (precedes H h) ps). precedes H h u" using set_takeWhileD by fast
  show "dropWhile (precedes H h) ps = [] \<or> \<not> precedes H h (hd (dropWhile (precedes H h) ps))"
    using hd_dropWhile by blast
qed

lemma no_holes_spec:
  assumes "frags H p (p # qs)" "length qs < fuel"
  shows "\<exists>l. no_holes fuel p H = Inr (gapless H (p # qs), l) \<and> (gapless H (p # qs) \<longrightarrow> l = last (p # qs) \<and> next_pbuf (H l) = 0)"
  using assms
proof (induction qs arbitrary: p fuel)
  case Nil
  then obtain f where "fuel = Suc f" by (cases fuel) auto
  then show ?case using Nil by simp
next
  case (Cons q qs)
  then obtain f where f: "fuel = Suc f" "length qs < f" by (cases fuel) auto
  have q: "next_pbuf (H p) = q" "q \<noteq> 0" "frags H q (q # qs)" using Cons.prems(1) by auto
  show ?case
  proof (cases "fend (H p) = fstart (H q)")
    case True
    then show ?thesis using Cons.IH [OF q(3) f(2)] q f(1) by auto
  next
    case False
    then show ?thesis using q f(1) by auto
  qed
qed

section \<open>Validation\<close>

text \<open>
  What the code takes for a complete datagram: \<open>us\<close> precede the new fragment \<open>p\<close> and \<open>vs\<close> follow it. Between
  the last of \<open>us\<close> and \<open>p\<close> it looks for a hole only if \<open>p\<close> is at the end.
\<close>

definition looks_complete :: "(nat \<Rightarrow> ip_reass_helper) \<Rightarrow> nat list \<Rightarrow> nat \<Rightarrow> nat list \<Rightarrow> bool" where
  "looks_complete H us p vs \<longleftrightarrow>
     gapless H us \<and> (vs = [] \<and> us \<noteq> [] \<longrightarrow> fend (H (last us)) = fstart (H p)) \<and>
     fstart (H (hd (us @ [p]))) = 0 \<and> gapless H (p # vs)"

lemma validate_spec:
  assumes f: "frags (helper s) (rp (reass s ipr)) (us @ p # vs)" and len: "length vs < REASS_MAX"
    and valid: "valid \<longleftrightarrow> gapless (helper s) us \<and> (vs = [] \<and> us \<noteq> [] \<longrightarrow> fend (helper s (last us)) = fstart (helper s p))"
  shows "validate_datagram ipr p valid s =
    (if \<not> rlast (reass s ipr) \<or> \<not> looks_complete (helper s) us p vs then Inr False
     else if us @ vs = [] \<or> fend (helper s (last (p # vs))) \<noteq> datagram_len (reass s ipr) then Inl Abort
     else Inr True)"
proof -
  have r: "rp (reass s ipr) = hd (us @ [p])" "rp (reass s ipr) \<noteq> 0" using f by (cases us; auto)+
  have d: "distinct (us @ p # vs)" using linked_distinct f unfolding frags_def by blast
  have "frags (helper s) p (p # vs)" using f unfolding frags_def by (rule linked_suffix)
  then obtain l where l: "no_holes REASS_MAX p (helper s) = Inr (gapless (helper s) (p # vs), l)"
    "gapless (helper s) (p # vs) \<Longrightarrow> l = last (p # vs) \<and> next_pbuf (helper s l) = 0"
    using no_holes_spec [OF _ len] by blast
  have hl: "hd (us @ [p]) = last (p # vs) \<longleftrightarrow> us @ vs = []"
    using d by (cases us; cases vs rule: rev_cases) auto
  define g where "g = gapless (helper s) (p # vs)"
  define z where "z \<longleftrightarrow> fstart (helper s (rp (reass s ipr))) = 0"
  have lc: "looks_complete (helper s) us p vs \<longleftrightarrow> valid \<and> z \<and> g"
    by (auto simp: looks_complete_def valid z_def g_def r(1))
  show ?thesis
  proof (cases "rlast (reass s ipr) \<and> valid \<and> z \<and> g")
    case True
    then have "l = last (p # vs)" "next_pbuf (helper s (last (p # vs))) = 0" using l(2) unfolding g_def by blast+
    then show ?thesis
      unfolding validate_datagram_def l(1) rbind_Inr prod.case lc g_def [symmetric] z_def [symmetric]
      using True hl r by (simp del: last.simps)
  next
    case False
    then show ?thesis
      unfolding validate_datagram_def l(1) rbind_Inr prod.case lc g_def [symmetric] z_def [symmetric] by auto
  qed
qed

section \<open>Linking a fragment in\<close>

definition hd_or_0 :: "nat list \<Rightarrow> nat" where
  "hd_or_0 vs = (if vs = [] then 0 else hd vs)"

lemma linked_hd: "linked nx q vs \<Longrightarrow> q = hd_or_0 vs"
  by (cases vs) (auto simp: hd_or_0_def)

lemma linked_insert_first:
  assumes "linked nx q vs" "p \<notin> set vs" "p \<noteq> 0"
  shows "linked (nx(p := hd_or_0 vs)) p (p # vs)"
proof -
  have "linked nx (hd_or_0 vs) vs" using assms(1) linked_hd [of nx q vs] by simp
  then show ?thesis using assms(2,3) by simp
qed

lemma linked_insert:
  assumes "linked nx q (us @ vs)" "p \<notin> set (us @ vs)" "p \<noteq> 0" "us \<noteq> []"
  shows "linked (nx(p := hd_or_0 vs, last us := p)) q (us @ p # vs)"
  using assms
proof (induction us arbitrary: q)
  case (Cons u us)
  have u: "q = u" "u \<noteq> 0" "linked nx (nx u) (us @ vs)" "p \<noteq> u" "u \<notin> set us" "u \<notin> set vs"
    using Cons.prems linked_distinct [OF Cons.prems(1)] by auto
  show ?case
  proof (cases us)
    case Nil
    have "linked (nx(p := hd_or_0 vs)) p (p # vs)" using linked_insert_first [OF _ _ Cons.prems(3)] u(3) Nil Cons.prems(2) by simp
    then have "linked (nx(p := hd_or_0 vs, u := p)) p (p # vs)" using linked_update [of u "p # vs" _ p p] u(4,6) by simp
    then show ?thesis
      unfolding Nil append_Cons append_Nil last_ConsL [OF refl] linked.simps(2) [of _ q u "p # vs"] fun_upd_same
      using u(1,2) by blast
  next
    case (Cons w ws)
    have "last us \<noteq> u" using u(5) Cons by (metis last_in_set list.distinct(1))
    then show ?thesis using Cons.IH [OF u(3)] u Cons.prems Cons by auto
  qed
qed simp

text \<open>The state after the new fragment \<open>p\<close> with range \<open>h\<close> has been linked between \<open>us\<close> and \<open>vs\<close>.\<close>

definition link_frag :: "nat \<Rightarrow> nat list \<Rightarrow> nat \<Rightarrow> nat list \<Rightarrow> ip_reass_helper \<Rightarrow> 'a ip_like \<Rightarrow> 'a ip_like" where
  "link_frag ipr us p vs h s =
     (let s = set_helper p (\<lambda>_. h\<lparr>next_pbuf := hd_or_0 vs\<rparr>) s
      in if us = [] then set_reass ipr (\<lambda>r. r\<lparr>rp := p\<rparr>) s else set_helper (last us) (\<lambda>x. x\<lparr>next_pbuf := p\<rparr>) s)"

lemma link_frag_fields:
  assumes "p \<notin> set us"
  shows "fstart (helper (link_frag ipr us p vs h s) q) = fstart (if q = p then h else helper s q)"
    "fend (helper (link_frag ipr us p vs h s) q) = fend (if q = p then h else helper s q)"
    "arp (link_frag ipr us p vs h s) = arp s"
    "rlast (reass (link_frag ipr us p vs h s) r) = rlast (reass s r)"
    "datagram_len (reass (link_frag ipr us p vs h s) r) = datagram_len (reass s r)"
  by (auto simp: link_frag_def set_helper_def set_reass_def Let_def)

lemma link_frag_frags:
  assumes "frags (helper s) (rp (reass s ipr)) (us @ vs)" "p \<notin> set (us @ vs)" "p \<noteq> 0"
  shows "frags (helper (link_frag ipr us p vs h s)) (rp (reass (link_frag ipr us p vs h s) ipr)) (us @ p # vs)"
proof -
  have "(\<lambda>q. next_pbuf (helper (link_frag ipr us p vs h s) q)) =
      (if us = [] then (\<lambda>q. next_pbuf (helper s q))(p := hd_or_0 vs)
       else (\<lambda>q. next_pbuf (helper s q))(p := hd_or_0 vs, last us := p))"
    using assms(2) by (auto simp: link_frag_def set_helper_def set_reass_def Let_def fun_eq_iff)
  moreover have "rp (reass (link_frag ipr us p vs h s) ipr) = hd (us @ [p])"
    using assms(1) by (cases us) (auto simp: link_frag_def set_helper_def set_reass_def Let_def)
  ultimately show ?thesis
    using linked_insert [OF assms(1) [unfolded frags_def] assms(2,3)] linked_insert_first [of _ "rp (reass s ipr)" vs p] assms
    by (cases us) (auto simp: frags_def)
qed

section \<open>Dropping a fragment\<close>

lemma clen_chain: "chain b p ps \<Longrightarrow> length ps < fuel \<Longrightarrow> n < 256 \<Longrightarrow> clen_loop fuel p n b = Inr ((n + length ps) mod 256)"
proof (induction ps arbitrary: p n fuel)
  case Nil
  then show ?case by (cases fuel) auto
next
  case (Cons q qs)
  then obtain f where f: "fuel = Suc f" "length qs < f" by (cases fuel) auto
  have q: "p = q" "q \<noteq> 0" "chain b (pnext (pbufs b q)) qs" using Cons.prems(1) by auto
  show ?case using Cons.IH [OF q(3) f(2), of "(n + 1) mod 256"] q f(1) by (simp add: mod_simps)
qed

lemma pbuf_clen_packet: "packet b p ps \<Longrightarrow> pbuf_clen p b = Inr (length ps mod 256)"
  using clen_chain [of b p ps PBUF_MAX 0] by (simp add: pbuf_clen_def packet_def)

lemma release_sole:
  assumes "mem_ok sl (pb (arp s))" "sole sl (pb (arp s)) p ps"
  obtains b where "release_pbuf p s = Inr (set_arp (set_pbs b (arp s)) s)" "mem_ok sl b"
    "live (heap b) = heap_minus (pb (arp s)) ps" "taken sl (pools b) = pool_minus sl (pb (arp s)) ps"
proof -
  obtain k b where f: "pbuf_free p (pb (arp s)) = Inr (k, b)" "mem_ok sl b" "live (heap b) = heap_minus (pb (arp s)) ps"
    "taken sl (pools b) = pool_minus sl (pb (arp s)) ps" by (rule sole_free [OF assms])
  show thesis by (rule that [OF _ f(2-4)]) (simp add: release_pbuf_def free_pbuf_def on_arp_def f(1) set_pbs_def)
qed

section \<open>A new fragment\<close>

text \<open>
  The new fragment is refused: it starts inside the fragment that follows its predecessors, or reaches into it. The
  latter is not looked at when the new fragment goes first.
\<close>

definition overlaps :: "(nat \<Rightarrow> ip_reass_helper) \<Rightarrow> nat list \<Rightarrow> ip_reass_helper \<Rightarrow> nat list \<Rightarrow> bool" where
  "overlaps H us h vs \<longleftrightarrow> vs \<noteq> [] \<and> (fstart (H (hd vs)) \<le> fstart h \<or> us \<noteq> [] \<and> fstart (H (hd vs)) < fend h)"

lemma set_helper_twice: "set_helper p f (set_helper p g s) = set_helper p (\<lambda>x. f (g x)) s"
  by (simp add: set_helper_def)

lemma place_overlaps:
  assumes "\<forall>u \<in> set us. precedes H h u" "0 \<notin> set us"
  shows "place_behind (last_or 0 us) vs h H =
    (if overlaps H us h vs then Drop else if vs = [] then At_End (last_or 0 us) else Before (hd vs) (last_or 0 us))"
proof -
  have "us \<noteq> [] \<Longrightarrow> last us \<noteq> 0 \<and> fend (H (last us)) \<le> fstart h"
    using assms last_in_set [of us] by (metis precedes_def)
  then show ?thesis
    by (cases vs) (auto simp: place_behind_def last_or_def overlaps_def)
qed

lemma chain_frag_cases:
  assumes fr: "frags (helper s) (rp (reass s ipr)) (us @ vs)" and len: "length (us @ vs) + 1 < REASS_MAX"
    and p: "p \<notin> set (us @ vs)" "p \<noteq> 0"
    and pre: "\<forall>u \<in> set us. precedes (helper s) (frag_range p (arp s)) u"
      "vs = [] \<or> \<not> precedes (helper s) (frag_range p (arp s)) (hd vs)"
  shows "overlaps (helper s) us (frag_range p (arp s)) vs \<Longrightarrow>
      ip_reass_chain_frag_into_datagram_and_validate ipr p s =
        rbind (count_pbufs p s) (\<lambda>clen.
        rbind (release_pbuf p ((set_helper p (\<lambda>_. frag_range p (arp s)) s)
                 \<lparr>ip_reass_pbufcount := u16_of (int (ip_reass_pbufcount s) - int clen)\<rparr>)) (\<lambda>s. Inr (False, s)))"
    and "\<not> overlaps (helper s) us (frag_range p (arp s)) vs \<Longrightarrow> s' = link_frag ipr us p vs (frag_range p (arp s)) s \<Longrightarrow>
      ip_reass_chain_frag_into_datagram_and_validate ipr p s =
        (if \<not> rlast (reass s ipr) \<or> \<not> looks_complete (helper s') us p vs then Inr (False, s')
         else if us @ vs = [] \<or> fend (helper s' (last (p # vs))) \<noteq> datagram_len (reass s ipr) then Inl Abort
         else Inr (True, s'))"
proof -
  define h where "h = frag_range p (arp s)"
  define s1 where "s1 = set_helper p (\<lambda>_. h) s"
  have H: "helper s1 q = helper s q" if "q \<noteq> p" for q using that by (simp add: s1_def set_helper_def)
  have s1: "helper s1 p = h" "arp s1 = arp s" "reass s1 = reass s" "ip_reass_pbufcount s1 = ip_reass_pbufcount s"
    by (simp_all add: s1_def set_helper_def)
  have h0: "h\<lparr>next_pbuf := 0\<rparr> = h" by (simp add: h_def frag_range_def Let_def)
  have "frags (helper s1) (rp (reass s ipr)) (us @ vs) = frags (helper s) (rp (reass s ipr)) (us @ vs)"
    unfolding frags_def using H p(1) by (intro linked_cong) metis
  then have fr1: "frags (helper s1) (rp (reass s ipr)) (us @ vs)" using fr by simp
  have zero: "0 \<notin> set us" using linked_nonzero fr unfolding frags_def by fastforce
  have u1: "helper s1 u = helper s u" if "u \<in> set (us @ vs)" for u using that p(1) by (intro H) auto
  have pre1: "\<forall>u \<in> set us. precedes (helper s1) h u" "vs = [] \<or> \<not> precedes (helper s1) h (hd vs)"
    using pre u1 by (auto simp: precedes_def h_def)
  have ov: "overlaps (helper s1) us h vs = overlaps (helper s) us h vs"
    using u1 by (cases vs) (auto simp: overlaps_def)
  have "length us < REASS_MAX" using len by simp
  from find_place_spec [OF fr1 this pre1, of 0 True] place_overlaps [OF pre1(1) zero, of vs]
  have fp: "find_place REASS_MAX (rp (reass s1 ipr)) 0 True h (helper s1) =
      Inr (if overlaps (helper s) us h vs then Drop else if vs = [] then At_End (last_or 0 us) else Before (hd vs) (last_or 0 us),
        gapless (helper s1) us)"
    by (simp add: s1 ov)
  have run: "ip_reass_chain_frag_into_datagram_and_validate ipr p s =
      rbind (find_place REASS_MAX (rp (reass s1 ipr)) 0 True h (helper s1)) (\<lambda>(place, valid).
          case place of
            Drop \<Rightarrow>
              rbind (count_pbufs p s1) (\<lambda>clen.
              rbind (release_pbuf p (s1\<lparr>ip_reass_pbufcount := u16_of (int (ip_reass_pbufcount s1) - int clen)\<rparr>)) (\<lambda>s.
                Inr (False, s)))
          | Before q prev \<Rightarrow>
              let s = set_helper p (\<lambda>x. x\<lparr>next_pbuf := q\<rparr>) s1;
                  s = (if prev \<noteq> 0 then set_helper prev (\<lambda>x. x\<lparr>next_pbuf := p\<rparr>) s
                       else set_reass ipr (\<lambda>r. r\<lparr>rp := p\<rparr>) s)
              in rbind (validate_datagram ipr p valid s) (\<lambda>v. Inr (v, s))
          | At_End prev \<Rightarrow>
              if prev \<noteq> 0 then
                if \<not> fend (helper s1 prev) \<le> fstart h then Inl Abort
                else
                  let valid = (if fend (helper s1 prev) \<noteq> fstart h then False else valid);
                      s = set_helper prev (\<lambda>x. x\<lparr>next_pbuf := p\<rparr>) s1
                  in rbind (validate_datagram ipr p valid s) (\<lambda>v. Inr (v, s))
              else if rp (reass s1 ipr) \<noteq> 0 then Inl Abort
              else
                let s = set_reass ipr (\<lambda>r. r\<lparr>rp := p\<rparr>) s1
                in rbind (validate_datagram ipr p valid s) (\<lambda>v. Inr (v, s)))"
    unfolding ip_reass_chain_frag_into_datagram_and_validate_def Let_def s1_def h_def by (rule refl)
  have cnt: "count_pbufs p s1 = count_pbufs p s" by (simp add: count_pbufs_def s1)
  show "overlaps (helper s) us (frag_range p (arp s)) vs \<Longrightarrow>
      ip_reass_chain_frag_into_datagram_and_validate ipr p s =
        rbind (count_pbufs p s) (\<lambda>clen.
        rbind (release_pbuf p ((set_helper p (\<lambda>_. frag_range p (arp s)) s)
                 \<lparr>ip_reass_pbufcount := u16_of (int (ip_reass_pbufcount s) - int clen)\<rparr>)) (\<lambda>s. Inr (False, s)))"
    unfolding run fp h_def [symmetric] s1_def [symmetric] by (simp add: cnt s1(4))
  show "ip_reass_chain_frag_into_datagram_and_validate ipr p s =
        (if \<not> rlast (reass s ipr) \<or> \<not> looks_complete (helper s') us p vs then Inr (False, s')
         else if us @ vs = [] \<or> fend (helper s' (last (p # vs))) \<noteq> datagram_len (reass s ipr) then Inl Abort
         else Inr (True, s'))"
    if no: "\<not> overlaps (helper s) us (frag_range p (arp s)) vs" and s': "s' = link_frag ipr us p vs (frag_range p (arp s)) s"
  proof -
    define valid where "valid \<longleftrightarrow> gapless (helper s1) us \<and> (vs = [] \<and> us \<noteq> [] \<longrightarrow> fend (helper s1 (last us)) = fstart h)"
    have frange: "frag_range p (arp s) = h" by (simp add: h_def)
    note ff = link_frag_fields [of p us ipr vs h s]
    have pus: "p \<notin> set us" using p(1) by simp
    have fr': "frags (helper s') (rp (reass s' ipr)) (us @ p # vs)"
      unfolding s' frange by (rule link_frag_frags [OF fr p])
    have lu: "us \<noteq> [] \<Longrightarrow> last us \<noteq> 0 \<and> last us \<in> set us \<and> fend (helper s1 (last us)) \<le> fstart h"
      using zero pre1(1) last_in_set [of us] by (metis precedes_def)
    have keep: "fstart (helper s' q) = fstart (helper s1 q)" "fend (helper s' q) = fend (helper s1 q)" for q
      unfolding s' frange using ff [OF pus] s1(1) H [of q] by auto
    have v': "valid \<longleftrightarrow> gapless (helper s') us \<and> (vs = [] \<and> us \<noteq> [] \<longrightarrow> fend (helper s' (last us)) = fstart (helper s' p))"
      unfolding valid_def keep using gapless_cong [of us "helper s'" "helper s1"] keep s1(1) by simp
    have val: "validate_datagram ipr p valid s' =
        (if \<not> rlast (reass s ipr) \<or> \<not> looks_complete (helper s') us p vs then Inr False
         else if us @ vs = [] \<or> fend (helper s' (last (p # vs))) \<noteq> datagram_len (reass s ipr) then Inl Abort
         else Inr True)"
      using validate_spec [OF fr' _ v'] len unfolding s' frange by (simp add: ff(4,5) [OF pus])
    have "ip_reass_chain_frag_into_datagram_and_validate ipr p s = rbind (validate_datagram ipr p valid s') (\<lambda>v. Inr (v, s'))"
    proof (cases vs)
      case Nil
      then show ?thesis
        using no lu h0 fr1 unfolding run fp s' frange
        by (cases "us = []") (auto simp: last_or_def link_frag_def hd_or_0_def valid_def s1_def [symmetric] s1(3) Let_def)
    next
      case (Cons v ws)
      then show ?thesis
        using no lu unfolding run fp s' frange
        by (cases "us = []") (auto simp: last_or_def link_frag_def hd_or_0_def valid_def s1_def set_helper_twice Let_def)
    qed
    then show ?thesis unfolding val by auto
  qed
qed

section \<open>The oldest datagram\<close>

definition dgrams :: "(nat \<Rightarrow> ip_reassdata) \<Rightarrow> nat \<Rightarrow> nat list \<Rightarrow> bool" where
  "dgrams R r rs \<longleftrightarrow> linked (\<lambda>q. rnext (R q)) r rs"

text \<open>New datagrams are put in front with the full time to live, so the timers fall along the queue.\<close>

fun ageing :: "(nat \<Rightarrow> ip_reassdata) \<Rightarrow> nat list \<Rightarrow> bool" where
  "ageing R (p # q # rs) \<longleftrightarrow> rtimer (R q) \<le> rtimer (R p) \<and> ageing R (q # rs)"
| "ageing R rs \<longleftrightarrow> True"

definition foreign :: "bytes \<Rightarrow> (nat \<Rightarrow> ip_reassdata) \<Rightarrow> nat \<Rightarrow> bool" where
  "foreign fraghdr R r \<longleftrightarrow> \<not> IP_ADDRESSES_AND_ID_MATCH (riphdr (R r)) fraghdr"

fun last_but_one :: "nat \<Rightarrow> nat list \<Rightarrow> nat" where
  "last_but_one d (p # q # rs) = last_but_one p (q # rs)"
| "last_but_one d rs = d"

lemma ageing_le: "ageing R (p # rs) \<Longrightarrow> q \<in> set rs \<Longrightarrow> rtimer (R q) \<le> rtimer (R p)"
  by (induction rs arbitrary: p) (auto intro: order_trans)

lemma ageing_Cons: "ageing R (p # rs) \<Longrightarrow> ageing R rs"
  by (cases rs) auto

lemma oldest_scan_spec:
  assumes "dgrams R r rs" "length rs < fuel" "ageing R rs" "old \<noteq> 0 \<longrightarrow> (\<forall>q \<in> set rs. rtimer (R q) \<le> rtimer (R old))"
  shows "oldest_scan fuel r fraghdr old prev others R =
    Inr (last_or old (filter (foreign fraghdr R) rs), last_but_one prev rs, others + length (filter (foreign fraghdr R) rs))"
  using assms
proof (induction rs arbitrary: r fuel old prev others)
  case Nil
  then obtain f where "fuel = Suc f" by (cases fuel) auto
  then show ?case using Nil by (simp add: last_or_def dgrams_def)
next
  case (Cons q rs)
  then obtain f where f: "fuel = Suc f" "length rs < f" by (cases fuel) auto
  have q: "r = q" "q \<noteq> 0" "dgrams R (rnext (R q)) rs" using Cons.prems(1) by (auto simp: dgrams_def)
  have nx: "rnext (R q) \<noteq> 0 \<longleftrightarrow> rs \<noteq> []" using q(3) by (cases rs) (auto simp: dgrams_def)
  define o' where "o' = (if foreign fraghdr R q \<and> (old = 0 \<or> rtimer (R q) \<le> rtimer (R old)) then q else old)"
  define prev' where "prev' = (if rnext (R q) \<noteq> 0 then q else prev)"
  have "o' \<noteq> 0 \<longrightarrow> (\<forall>x \<in> set rs. rtimer (R x) \<le> rtimer (R o'))"
    using Cons.prems(3,4) ageing_le [OF Cons.prems(3)] by (auto simp: o'_def)
  note ih = Cons.IH [OF q(3) f(2) ageing_Cons [OF Cons.prems(3)] this, of prev']
  have "o' = (if foreign fraghdr R q then q else old)" using Cons.prems(4) by (auto simp: o'_def)
  then have lo: "last_or o' (filter (foreign fraghdr R) rs) = last_or old (filter (foreign fraghdr R) (q # rs))"
    by (simp add: last_or_def)
  have pv: "last_but_one prev' rs = last_but_one prev (q # rs)"
    using nx by (cases rs) (simp_all add: prev'_def)
  have "oldest_scan fuel r fraghdr old prev others R =
      oldest_scan f (rnext (R q)) fraghdr o' prev' (if foreign fraghdr R q then others + 1 else others) R"
    unfolding f(1) oldest_scan.simps Let_def o'_def prev'_def foreign_def using q(1,2) by simp
  also have "\<dots> = Inr (last_or old (filter (foreign fraghdr R) (q # rs)), last_but_one prev (q # rs),
      others + length (filter (foreign fraghdr R) (q # rs)))"
    unfolding ih lo pv by simp
  finally show ?case .
qed

lemma last_but_one_props:
  assumes "dgrams R r rs" "2 \<le> length rs"
  shows "rnext (R (last_but_one d rs)) = last rs \<and> last_but_one d rs \<in> set (butlast rs)"
  using assms
proof (induction d rs arbitrary: r rule: last_but_one.induct)
  case (1 d p q rs)
  then show ?case by (cases rs) (auto simp: dgrams_def)
qed auto

lemma dgrams_distinct: "dgrams R r rs \<Longrightarrow> distinct rs \<and> 0 \<notin> set rs"
  using linked_distinct linked_nonzero unfolding dgrams_def by blast

section \<open>Properties\<close>


text \<open>
  Two ways in which the test for completeness fails. A fragment that arrives between two others is not checked
  against the one before it, so a datagram with a hole there is reported complete. And an announced
  length that does not match the end of the received fragments, which any sender can
  arrange, stops the process.
\<close>

theorem reass_validation_flaws:
  assumes fr: "frags (helper s) (rp (reass s ipr)) (us @ vs)" and len: "length (us @ vs) + 1 < REASS_MAX"
    and p: "p \<notin> set (us @ vs)" "p \<noteq> 0" and h: "h = frag_range p (arp s)"
    and "us \<noteq> []" "vs \<noteq> []" "\<forall>u \<in> set us. precedes (helper s) h u"
    and "fstart h < fend h" "fend h = fstart (helper s (hd vs))"
    and "rlast (reass s ipr)" "gapless (helper s) us" "gapless (helper s) vs" "fstart (helper s (hd us)) = 0"
  shows "if fend (helper s (last vs)) = datagram_len (reass s ipr)
    then \<exists>s'. ip_reass_chain_frag_into_datagram_and_validate ipr p s = Inr (True, s') \<and>
      frags (helper s') (rp (reass s' ipr)) (us @ p # vs) \<and>
      (fend (helper s (last us)) < fstart h \<longrightarrow> \<not> gapless (helper s') (us @ p # vs))
    else ip_reass_chain_frag_into_datagram_and_validate ipr p s = Inl Abort"
proof -
  define s' where "s' = link_frag ipr us p vs h s"
  obtain v ws where vs: "vs = v # ws" using assms(7) by (cases vs) auto
  have pre: "\<forall>u \<in> set us. precedes (helper s) (frag_range p (arp s)) u"
    "vs = [] \<or> \<not> precedes (helper s) (frag_range p (arp s)) (hd vs)"
    using assms by (auto simp: precedes_def)
  have no: "\<not> overlaps (helper s) us (frag_range p (arp s)) vs" using assms by (auto simp: overlaps_def)
  have pus: "p \<notin> set us" "p \<notin> set vs" using p(1) by auto
  have keep: "fstart (helper s' q) = fstart (if q = p then h else helper s q)" "fend (helper s' q) = fend (if q = p then h else helper s q)" for q
    unfolding s'_def by (rule link_frag_fields [OF pus(1)])+
  have g: "gapless (helper s') us" "gapless (helper s') vs"
    using assms(12,13) gapless_cong [of us "helper s'" "helper s"] gapless_cong [of vs "helper s'" "helper s"] keep pus by fastforce+
  have "hd us \<noteq> p" "last us \<noteq> p" "last vs \<noteq> p" "hd vs \<noteq> p" using pus assms(6,7) by (metis hd_in_set last_in_set)+
  then have ends: "fstart (helper s' (hd us)) = 0" "fend (helper s' p) = fstart (helper s' (hd vs))"
    "fend (helper s' (last vs)) = fend (helper s (last vs))" "fend (helper s' (last us)) = fend (helper s (last us))"
    using keep assms(10,14) by auto
  have lc: "looks_complete (helper s') us p vs"
    using g ends(1,2) assms(6) by (simp add: looks_complete_def vs)
  note run = chain_frag_cases(2) [OF fr len p pre no s'_def [unfolded h]]
  have fr': "frags (helper s') (rp (reass s' ipr)) (us @ p # vs)" unfolding s'_def by (rule link_frag_frags [OF fr p])
  have gap: "fend (helper s (last us)) < fstart h \<longrightarrow> \<not> gapless (helper s') (us @ p # vs)"
    using gapless_append [OF assms(6), of "p # vs" "helper s'"] ends(4) keep(1) [of p] by auto
  show ?thesis
    unfolding run using lc assms(6,7,11) ends(3) fr' gap by auto
qed

text \<open>
  When room is needed, the datagram given up is the one at the end of the queue if the fragment
  belongs to another datagram. If the fragment belongs to the last datagram of the queue and there is another one, the
  search hands over a wrong predecessor and the process is stopped.
\<close>

theorem reass_oldest_flaw:
  assumes rs: "dgrams (reass s) (reassdatagrams s) rs" "rs \<noteq> []" "length rs < REASS_MAX" "ageing (reass s) rs"
  shows "if foreign fraghdr (reass s) (last rs)
    then \<exists>prev k. oldest_scan REASS_MAX (reassdatagrams s) fraghdr 0 0 0 (reass s) = Inr (last rs, prev, k) \<and>
      (if length rs = 1 then prev = 0 else rnext (reass s prev) = last rs \<and> prev \<noteq> last rs)
    else (\<exists>r \<in> set rs. foreign fraghdr (reass s) r) \<longrightarrow>
      ip_reass_remove_oldest_datagram link fraghdr needed s = Inl Abort"
proof -
  let ?R = "reass s" and ?others = "filter (foreign fraghdr (reass s)) rs"
  have scan: "oldest_scan REASS_MAX (reassdatagrams s) fraghdr 0 0 0 ?R =
      Inr (last_or 0 ?others, last_but_one 0 rs, length ?others)"
    using oldest_scan_spec [OF rs(1,3,4), of 0 fraghdr 0 0] by simp
  have d: "distinct rs" "0 \<notin> set rs" using dgrams_distinct [OF rs(1)] by auto
  have bl: "x \<in> set (butlast rs) \<Longrightarrow> x \<noteq> last rs" for x
    using d(1) rs(2) by (metis append_butlast_last_id distinct_append disjoint_iff list.set_intros(1))
  show ?thesis
  proof (cases "foreign fraghdr ?R (last rs)")
    case True
    have "last_or 0 ?others = last rs"
      using True rs(2) by (cases rs rule: rev_cases) (auto simp: last_or_def)
    moreover have "if length rs = 1 then last_but_one 0 rs = 0
        else rnext (?R (last_but_one 0 rs)) = last rs \<and> last_but_one 0 rs \<noteq> last rs"
    proof (cases "length rs = 1")
      case True
      then show ?thesis by (cases rs) auto
    next
      case False
      then have "2 \<le> length rs" using rs(2) by (cases rs) (auto simp: Suc_le_eq)
      then show ?thesis using False last_but_one_props [OF rs(1), of 0] bl by auto
    qed
    ultimately show ?thesis unfolding if_P [OF True] scan by blast
  next
    case False
    have "ip_reass_remove_oldest_datagram link fraghdr needed s = Inl Abort" if ex: "\<exists>r \<in> set rs. foreign fraghdr ?R r"
    proof -
      define r where "r = last_or 0 ?others"
      have ne: "?others \<noteq> []" using ex by (simp add: filter_empty_conv)
      then have r: "r \<in> set rs" "foreign fraghdr ?R r" using last_in_set [OF ne] by (auto simp: r_def last_or_def)
      then have "r \<noteq> last rs" "r \<noteq> 0" using False d(2) by metis+
      have "2 \<le> length rs"
      proof (rule ccontr)
        assume "\<not> 2 \<le> length rs"
        then have "rs = [last rs]" using rs(2) by (cases rs; cases "tl rs") auto
        then show False using r(1) \<open>r \<noteq> last rs\<close> by (metis empty_iff empty_set insert_iff list.simps(15))
      qed
      note lb = last_but_one_props [OF rs(1) this, of 0]
      have "last_but_one 0 rs \<noteq> 0" using lb d(2) in_set_butlastD by metis
      then have "ip_reass_free_complete_datagram link r (last_but_one 0 rs) s = Inl Abort"
        using lb \<open>r \<noteq> last rs\<close> by (auto simp: ip_reass_free_complete_datagram_def)
      moreover have "remove_oldest_loop (Suc 63) link fraghdr needed 0 s =
          rbind (ip_reass_free_complete_datagram link r (last_but_one 0 rs) s) (\<lambda>(k, s).
            if k < needed \<and> length ?others > 1 then remove_oldest_loop 63 link fraghdr needed k s else Inr (k, s))"
        unfolding remove_oldest_loop.simps scan [unfolded r_def [symmetric]] using \<open>r \<noteq> 0\<close>
        by (cases "ip_reass_free_complete_datagram link r (last_but_one 0 rs) s") auto
      ultimately show ?thesis unfolding ip_reass_remove_oldest_datagram_def by simp
    qed
    then show ?thesis unfolding if_not_P [OF False] by blast
  qed
qed

section \<open>Instances\<close>

text \<open>One datagram whose first 8 bytes and last 8 bytes of 32 have been received.\<close>

definition reass_sample :: "pb_state \<Rightarrow> ip_state" where
  "reass_sample b = \<lparr>arp = arp_sample b, ip_id = 0, reassdatagrams = 900,
     reass = (\<lambda>r. if r = 900 then \<lparr>rnext = 901, rp = 1000, riphdr = replicate 20 0, datagram_len = 32, rlast = True, rtimer = 3\<rparr>
       else \<lparr>rnext = 0, rp = 0, riphdr = replicate 20 1, datagram_len = 0, rlast = False, rtimer = 2\<rparr>),
     helper = (\<lambda>q. if q = 1000 then \<lparr>next_pbuf = 2000, fstart = 0, fend = 8\<rparr> else \<lparr>next_pbuf = 0, fstart = 24, fend = 32\<rparr>),
     ip_reass_pbufcount = 2, current_netif = 0, current_header = 0, current_src = 0, current_dest = 0\<rparr>"

lemma reass_sample_fields [simp]:
  "arp (reass_sample b) = arp_sample b" "rp (reass (reass_sample b) 900) = 1000" "rlast (reass (reass_sample b) 900)"
  "rp (reass (reass_sample b) 901) = 0" "\<not> rlast (reass (reass_sample b) 901)"
  "datagram_len (reass (reass_sample b) 900) = 32" "helper (reass_sample b) 1000 = \<lparr>next_pbuf = 2000, fstart = 0, fend = 8\<rparr>"
  "helper (reass_sample b) 2000 = \<lparr>next_pbuf = 0, fstart = 24, fend = 32\<rparr>" "reassdatagrams (reass_sample b) = 900"
  by (simp_all add: reass_sample_def)


text \<open>The bytes 16 to 24 arrive; the bytes 8 to 16 are missing.\<close>

theorem reass_validation_flaws_witness:
  "\<exists>b s'. ip_reass_chain_frag_into_datagram_and_validate 900 3000 (reass_sample b) = Inr (True, s') \<and>
     \<not> gapless (helper s') [1000, 3000, 2000]"
proof -
  define b where "b = sample\<lparr>bytes := (\<lambda>a. if a = 2024 then 0x45 else if a = 2027 then 28 else if a = 2031 then 2 else 0)\<rparr>"
  have pl: "payload (pbufs b 3000) = 2024" by (simp add: b_def sample_def)
  have h: "frag_range 3000 (arp (reass_sample b)) = \<lparr>next_pbuf = 0, fstart = 16, fend = 24\<rparr>"
    by (simp add: frag_range_def field_u16_def field_u8_def arp_sample_netif pl Let_def lwip_ntohs_def lwip_htons_def u16_of_def)
      (simp add: b_def lwip_htons_def u16_of_def)
  show ?thesis
    using reass_validation_flaws [of "reass_sample b" 900 "[1000]" "[2000]" 3000, OF _ _ _ _ h [symmetric]]
    by (auto simp: precedes_def)
qed

theorem reass_oldest_flaw_witness:
  "ip_reass_remove_oldest_datagram (\<lambda>_ _. ERR_OK) (replicate 20 1) 1 (reass_sample sample) = Inl Abort"
proof -
  have m: "\<not> foreign (replicate 20 1) (reass (reass_sample sample)) 901" "foreign (replicate 20 1) (reass (reass_sample sample)) 900"
    by (simp_all add: foreign_def reass_sample_def IP_ADDRESSES_AND_ID_MATCH_def eval_nat_numeral)
  have d: "dgrams (reass (reass_sample sample)) (reassdatagrams (reass_sample sample)) [900, 901]" "ageing (reass (reass_sample sample)) [900, 901]"
    by (simp_all add: dgrams_def reass_sample_def)
  show ?thesis
    using reass_oldest_flaw [OF d(1) _ _ d(2), of "replicate 20 1" "\<lambda>_ _. ERR_OK" 1] m by simp
qed

end
