(* ===== verification/Ip_Life.thy ===== *)
theory Ip_Life
  imports Ip_Input Ip_Reass_Life
begin

text \<open>
  What the IP layer sends and accepts: the header in front of an outgoing packet, with its inline
  checksum; the choice of the outgoing interface; the match of an incoming packet against the
  interfaces; and the answer to an echo request.
\<close>

section \<open>Stores into a header\<close>

lemma store_splice:
  "off + length bs \<le> length xs \<Longrightarrow> store p off bs (store p 0 xs s) = store p 0 (splice off bs xs) s"
  unfolding store_def splice_def by (auto simp: fun_eq_iff write_bytes_def nth_append intro!: arp_state.equality pb_state.equality)

lemma store_field: "store p 0 (field p 0 n s) s = s"
  unfolding store_def field_def by (auto simp: fun_eq_iff write_bytes_def intro!: arp_state.equality pb_state.equality)

lemma twenty: "length xs = 20 \<Longrightarrow> \<exists>a b c d e f g h i j k l m n p q r s t u. xs = [a,b,c,d,e,f,g,h,i,j,k,l,m,n,p,q,r,s,t,u]"
  by (auto simp: length_Suc_conv eval_nat_numeral)

text \<open>An IP header without options.\<close>

definition ip_header :: "u8 \<Rightarrow> u16 \<Rightarrow> u16 \<Rightarrow> u16 \<Rightarrow> u8 \<Rightarrow> u8 \<Rightarrow> u16 \<Rightarrow> u32 \<Rightarrow> u32 \<Rightarrow> bytes" where
  "ip_header tos len ident off ttl proto chk src dest =
     [0x45, tos] @ net_bytes16 len @ net_bytes16 ident @ net_bytes16 off @ [ttl, proto] @ host_bytes16 chk @
     host_bytes32 src @ host_bytes32 dest"

lemma ip_header_length [simp]: "length (ip_header tos len ident off ttl proto chk src dest) = 20"
  by (simp add: ip_header_def net_bytes16_def host_bytes16_def host_bytes32_def)

section \<open>The inline checksum\<close>

lemma norm_evalb_append: "even (length xs) \<Longrightarrow> norm (c + evalb (xs @ ys)) = norm (c + evalb xs + evalb ys)"
  using norm_even_power [of "length xs" "c + evalb xs" "evalb ys"] by (simp add: evalb_append add.assoc)

lemma norm_field:
  assumes "even (length xs)"
  shows "norm (evalb (xs @ host_bytes16 c @ ys)) = norm (evalb (xs @ [0, 0] @ ys) + unat c)"
proof -
  have "evalb (xs @ host_bytes16 c @ ys) = evalb (xs @ [0, 0] @ ys) + 256 ^ length xs * unat c"
    by (simp only: evalb_append evalb_host_bytes16) (simp add: power_add host_bytes16_def algebra_simps)
  then show ?thesis by (simp only: norm_even_power [OF assms])
qed

lemma halves_norm: "norm (c + unat (w AND 0xffff) + unat (drop_bit 16 w)) = norm (c + unat w)" for w :: u32
proof -
  have "unat (drop_bit 16 w) = unat w div 65536" by (simp add: unat_drop)
  then show ?thesis using norm_halves [of c "unat w"] by (simp add: unat_halves(1) add.assoc)
qed

lemma unat_NOT16: "unat (NOT w) = 65535 - unat w" for w :: u16
proof -
  have "NOT w = -1 - w" by (simp add: not_eq_complement)
  moreover have "unat (- 1 - w) = unat (- 1 :: u16) - unat w" by (rule unat_sub) simp
  moreover have "unat (- 1 :: u16) = 65535" by (simp add: unsigned_minus_1_eq_mask mask_eq_exp_minus_1)
  ultimately show ?thesis by simp
qed

text \<open>The last three lines of the inline computation: two folds and the complement.\<close>

lemma inline_fold:
  fixes w :: u32
  assumes "unat w < 16 * 65536"
  shows "unat (ucast (NOT (drop_bit 16 (drop_bit 16 w + (w AND 0xffff)) + (drop_bit 16 w + (w AND 0xffff)))) :: u16) = 65535 - norm (unat w)"
proof -
  let ?n = "unat w"
  have lo: "unat (w AND 0xffff) = ?n mod 65536" and hi: "unat (drop_bit 16 w) = ?n div 65536"
    by (simp_all add: unat_halves(1) unat_drop)
  have h: "?n div 65536 < 16" using assms by (simp add: less_mult_imp_div_less)
  define x where "x = drop_bit 16 w + (w AND 0xffff)"
  have ux: "unat x = ?n div 65536 + ?n mod 65536"
    using h by (simp add: x_def unat_word_ariths lo hi)
  then have xb: "unat x < 65536 + 15" using h by linarith
  have uhi: "unat (drop_bit 16 x) = unat x div 65536" by (simp add: unat_drop)
  define y where "y = drop_bit 16 x + x"
  have "unat x div 65536 \<le> 1" using xb by simp
  then have uy: "unat y = unat x div 65536 + unat x"
    using xb by (simp add: y_def unat_word_ariths uhi)
  have "unat (ucast (NOT y) :: u16) = 65535 - unat y mod 65536"
  proof -
    have "ucast (NOT y) = NOT (ucast y :: u16)" by (rule bit_word_eqI) (simp add: bit_simps)
    moreover have "unat (ucast y :: u16) = unat y mod 65536" by (simp add: unsigned_ucast_eq take_bit_eq_mod)
    ultimately show ?thesis using unat_NOT16 by simp
  qed
  moreover have "unat y mod 65536 = norm (unat x)"
  proof (cases "unat x < 65536")
    case True then show ?thesis by (simp add: uy norm_id)
  next
    case False
    then have "unat x div 65536 = 1" using xb by simp
    moreover have "norm (unat x) = unat x - 65535" using False xb by (simp add: norm_def mod_if) linarith
    ultimately show ?thesis using False xb by (simp add: uy mod_if)
  qed
  moreover have "norm (unat x) = norm ?n"
    using norm_halves [of 0 ?n] by (simp add: ux add.commute)
  ultimately show ?thesis by (simp add: x_def y_def)
qed

section \<open>The header of an outgoing packet\<close>

text \<open>The sum that \<^verbatim>\<open>ip_output_if\<close> collects while it fills in the header.\<close>

definition header_sum :: "u8 \<Rightarrow> u16 \<Rightarrow> u16 \<Rightarrow> u8 \<Rightarrow> u8 \<Rightarrow> u32 \<Rightarrow> u32 \<Rightarrow> u32" where
  "header_sum tos len ident ttl proto src dest =
     LWIP_MAKE_U16 proto ttl + (dest AND 0xffff) + drop_bit 16 dest + LWIP_MAKE_U16 tos 0x45 + ucast (lwip_htons len) +
     ucast (lwip_htons ident) + (src AND 0xffff) + drop_bit 16 src"

lemma make_u16: "unat (LWIP_MAKE_U16 a b) = unat b + 256 * unat a"
proof -
  have "LWIP_MAKE_U16 a b = push_bit 8 (ucast a) + ucast b"
    unfolding LWIP_MAKE_U16_def by (rule disjunctive_add_eq_or [symmetric], rule bit_word_eqI) (auto simp: bit_simps u8_high)
  moreover define N where "N = unat b + 256 * unat a"
  ultimately have w: "LWIP_MAKE_U16 a b = word_of_nat N" by (simp add: push_bit_eq_mult)
  have "N < 4294967296" using byte_bound [of a] byte_bound [of b] by (simp add: N_def)
  then have "unat (LWIP_MAKE_U16 a b) = N" unfolding w by (simp add: unat_of_nat)
  then show ?thesis by (simp add: N_def)
qed

lemma header_sum_unat:
  "unat (header_sum tos len ident ttl proto src dest) =
     (unat ttl + 256 * unat proto) + (unat dest mod 65536) + (unat dest div 65536) + (69 + 256 * unat tos) + unat (lwip_htons len) +
     unat (lwip_htons ident) + (unat src mod 65536) + (unat src div 65536)" (is "_ = ?n")
  and header_sum_bound: "unat (header_sum tos len ident ttl proto src dest) < 16 * 65536"
proof -
  have d: "unat dest div 65536 < 65536" "unat src div 65536 < 65536" "unat dest mod 65536 < 65536" "unat src mod 65536 < 65536"
    using unat_less_2p32 [of dest] unat_less_2p32 [of src] by simp_all
  define N where "N = ?n"
  have n: "N < 16 * 65536" unfolding N_def
    using d byte_bound [of ttl] byte_bound [of proto] byte_bound [of tos] unat_less_65536 [of "lwip_htons len"]
      unat_less_65536 [of "lwip_htons ident"] by linarith
  have u: "word_of_nat (unat x) = x" for x :: u32 by simp
  have "N = unat (LWIP_MAKE_U16 proto ttl) + unat (dest AND 0xffff) + unat (drop_bit 16 dest) + unat (LWIP_MAKE_U16 tos 0x45) +
      unat (ucast (lwip_htons len) :: u32) + unat (ucast (lwip_htons ident) :: u32) + unat (src AND 0xffff) + unat (drop_bit 16 src)"
    by (simp add: N_def make_u16 unat_halves(1) unat_drop unsigned_ucast_eq)
  then have w: "header_sum tos len ident ttl proto src dest = word_of_nat N"
    by (simp only: header_sum_def of_nat_add u)
  have "unat (header_sum tos len ident ttl proto src dest) = N" using n unfolding w by (simp add: unat_of_nat)
  then show "unat (header_sum tos len ident ttl proto src dest) = ?n" "unat (header_sum tos len ident ttl proto src dest) < 16 * 65536"
    using n unfolding N_def by simp_all
qed

lemma header_norm:
  "norm (evalb (ip_header tos len ident 0 ttl proto 0 src dest)) = norm (unat (header_sum tos len ident ttl proto src dest))"
proof -
  have sizes: "length (net_bytes16 v) = 2" "length (host_bytes16 v) = 2" "length (host_bytes32 w) = 4" for v w
    by (simp_all add: net_bytes16_def host_bytes16_def host_bytes32_def)
  have two: "evalb [y, z] = unat y + 256 * unat z" for y z by simp
  let ?h = "ip_header tos len ident 0 ttl proto 0 src dest"
  have "norm (0 + evalb ?h) = norm (0 + evalb [0x45, tos] + evalb (net_bytes16 len) + evalb (net_bytes16 ident) + evalb (net_bytes16 0) +
      evalb [ttl, proto] + evalb (host_bytes16 0) + evalb (host_bytes32 src) + evalb (host_bytes32 dest))"
    unfolding ip_header_def by (subst norm_evalb_append, simp add: sizes)+ (rule refl)
  also have "\<dots> = norm (69 + 256 * unat tos + unat (lwip_htons len) + unat (lwip_htons ident) + unat ttl + 256 * unat proto + unat src + unat dest)"
    by (simp add: evalb_net_bytes16 evalb_host_bytes16 evalb_host_bytes32 add.assoc) (simp add: lwip_htons_def)
  also have "\<dots> = norm (unat (header_sum tos len ident ttl proto src dest))"
    using norm_halves [of "69 + 256 * unat tos + unat (lwip_htons len) + unat (lwip_htons ident) + unat ttl + 256 * unat proto + unat src" "unat dest"]
      norm_halves [of "69 + 256 * unat tos + unat (lwip_htons len) + unat (lwip_htons ident) + unat ttl + 256 * unat proto +
        (unat dest mod 65536 + unat dest div 65536)" "unat src"]
    by (simp only: header_sum_unat ac_simps)
  finally show ?thesis by simp
qed

lemma generate_header_explicit:
  fixes s :: arp_state
  assumes src: "src' = (if src = IPADDR_ANY then ip_addr (ifs s n) else src)" and len: "len = word_of_nat (tot_len (pbufs (pb s) p))"
  shows "generate_header p src dest ttl tos proto n ident (store p 0 [a,b,c,d,e,f,g,h,i,j,k,l,m,q,r,t,u,v,w,x] s) =
    store p 0 (ip_header tos len ident 0 ttl proto (word_of_nat (65535 - norm (unat (header_sum tos len ident ttl proto src' dest)))) src' dest) s"
proof -
  have u: "word_of_nat (unat x) = x" for x :: u16 by simp
  define z where "z = header_sum tos len ident ttl proto src' dest"
  have chk: "ucast (NOT (drop_bit 16 (drop_bit 16 z + (z AND 0xffff)) + (drop_bit 16 z + (z AND 0xffff)))) =
      (word_of_nat (65535 - norm (unat z)) :: u16)"
    using u unfolding inline_fold [OF header_sum_bound [of tos len ident ttl proto src' dest, folded z_def], symmetric] by metis
  show ?thesis
    unfolding generate_header_def Let_def store_fields src [symmetric] len [symmetric] header_sum_def [symmetric] z_def [symmetric]
      chk host_bytes16_htons
    by (simp add: store_splice splice_def net_bytes16_def host_bytes16_def host_bytes32_def ip_header_def)
qed

lemma generate_header_store:
  fixes s :: arp_state
  assumes src: "src' = (if src = IPADDR_ANY then ip_addr (ifs s n) else src)" and len: "len = word_of_nat (tot_len (pbufs (pb s) p))"
  shows "generate_header p src dest ttl tos proto n ident s =
    store p 0 (ip_header tos len ident 0 ttl proto (word_of_nat (65535 - norm (unat (header_sum tos len ident ttl proto src' dest)))) src' dest) s"
proof -
  obtain a b c d e f g h i j k l m q r t u v w x where
    f: "field p 0 20 s = [a,b,c,d,e,f,g,h,i,j,k,l,m,q,r,t,u,v,w,x]" using twenty [of "field p 0 20 s"] by (auto simp: field_def)
  show ?thesis using generate_header_explicit [OF src len] store_field [of p 20 s] unfolding f by metis
qed

lemma chksum_store:
  "length bs < 65536 \<Longrightarrow> inet_chksum (payload (pbufs (pb s) p)) (length bs) (pb (store p 0 bs s)) = 65535 - norm (evalb bs)"
  by (simp add: inet_chksum_def LWIP_CHKSUM_def lwip_standard_chksum_norm read_write_same store_def)

text \<open>
  The header that \<^verbatim>\<open>ip_output_if\<close> writes in front of a packet holds the length of the packet,
  the identification, and the addresses, with the address of the interface for an unspecified source. The checksum
  collected on the way is the one \<^verbatim>\<open>inet_chksum\<close> computes over the header with a zero checksum
  field, and the receiver's check over the header succeeds. Nothing else is changed.
\<close>

theorem generate_header_correct:
  "let src' = (if src = IPADDR_ANY then ip_addr (ifs s n) else src); len = word_of_nat (tot_len (pbufs (pb s) p));
       a = payload (pbufs (pb s) p); s' = generate_header p src dest ttl tos proto n ident s;
       c = word_of_nat (inet_chksum a IP_HLEN (pb (store p 0 (ip_header tos len ident 0 ttl proto 0 src' dest) s)))
   in s' = store p 0 (ip_header tos len ident 0 ttl proto c src' dest) s \<and> inet_chksum a IP_HLEN (pb s') = 0"
proof -
  define src' where "src' = (if src = IPADDR_ANY then ip_addr (ifs s n) else src)"
  define len where "len = (word_of_nat (tot_len (pbufs (pb s) p)) :: u16)"
  let ?h = "\<lambda>c. ip_header tos len ident 0 ttl proto c src' dest"
  define N where "N = norm (evalb (?h 0))"
  have c: "inet_chksum (payload (pbufs (pb s) p)) 20 (pb (store p 0 (?h 0) s)) = 65535 - N"
    using chksum_store [of "?h 0" s p] by (simp add: N_def)
  have N: "N \<le> 65535" using norm_le by (simp add: N_def)
  define K where "K = 65535 - N"
  have K: "unat (word_of_nat K :: u16) = K" by (simp add: unat_of_nat K_def)
  have split: "?h c = ([0x45, tos] @ net_bytes16 len @ net_bytes16 ident @ net_bytes16 0 @ [ttl, proto]) @ host_bytes16 c @ host_bytes32 src' @ host_bytes32 dest" for c
    by (simp add: ip_header_def)
  have even: "even (length ([0x45, tos] @ net_bytes16 len @ net_bytes16 ident @ net_bytes16 0 @ [ttl, proto]))"
    by (simp add: net_bytes16_def)
  have "norm (evalb (?h c)) = norm (N + unat c)" for c
    unfolding N_def split norm_add by (subst norm_field [OF even]) (simp add: host_bytes16_def)
  then have "norm (evalb (?h (word_of_nat K))) = 65535" using N by (simp add: K norm_id) (simp add: K_def norm_id)
  then have z: "inet_chksum (payload (pbufs (pb s) p)) 20 (pb (store p 0 (?h (word_of_nat K)) s)) = 0"
    using chksum_store [of "?h (word_of_nat K)" s p] by simp
  show ?thesis
    unfolding Let_def src'_def [symmetric] len_def [symmetric] c
    unfolding generate_header_store [OF src'_def len_def] header_norm [symmetric] N_def [symmetric] K_def [symmetric]
    using z by simp
qed

section \<open>Choosing an interface\<close>

text \<open>The list of interfaces; an interface on the network of an address, and one that has the address itself.\<close>

definition interfaces :: "arp_state \<Rightarrow> nat list \<Rightarrow> bool" where
  "interfaces a ns \<longleftrightarrow> linked (\<lambda>n. nif_next (ifs a n)) (netif_list a) ns \<and> length ns < NETIF_MAX"

definition on_net :: "u32 \<Rightarrow> arp_state \<Rightarrow> nat \<Rightarrow> bool" where
  "on_net dest a n \<longleftrightarrow> netif_is_up n a \<and> dest \<noteq> ip_addr (ifs a n) \<and> ip_addr_netcmp dest (ip_addr (ifs a n)) (netmask (ifs a n))"

definition own_addr :: "u32 \<Rightarrow> arp_state \<Rightarrow> nat \<Rightarrow> bool" where
  "own_addr dest a n \<longleftrightarrow> netif_is_up n a \<and> dest = ip_addr (ifs a n)"

text \<open>The first element that satisfies \<open>P\<close>.\<close>

definition first_of :: "('a \<Rightarrow> bool) \<Rightarrow> 'a list \<Rightarrow> 'a \<Rightarrow> bool" where
  "first_of P xs x \<longleftrightarrow> (\<exists>us vs. xs = us @ x # vs \<and> P x \<and> (\<forall>u \<in> set us. \<not> P u))"

lemma first_of_filter: "first_of P xs x \<longleftrightarrow> (\<exists>ys. filter P xs = x # ys)"
  by (auto simp: first_of_def filter_eq_Cons_iff)

lemma route_loop_spec:
  assumes "linked (\<lambda>n. nif_next (ifs s n)) n ns" "length ns < fuel"
  shows "route_loop fuel n same dest s =
    Inr (case filter (on_net dest s) ns of [] \<Rightarrow> last_or same (filter (own_addr dest s) ns) | r # _ \<Rightarrow> r)"
  using assms
proof (induction ns arbitrary: fuel n same)
  case Nil
  then show ?case by (cases fuel) (auto simp: last_or_def)
next
  case (Cons m ns)
  then obtain f where f: "fuel = Suc f" by (cases fuel) auto
  with Cons show ?case
    by (auto simp: on_net_def own_addr_def last_or_def split: list.split)
qed

text \<open>
  Routing: a packet goes to the first running interface on whose network its destination
  lies. A destination that is the address of an interface goes to an interface with that
  address only if no other interface is on its network, and then to the last such one. Everything else goes to the default interface, if there is one and it
  is running.
\<close>

theorem ip_route_correct:
  assumes "interfaces s ns"
  shows "\<exists>r. ip_route dest s = Inr r \<and>
    (if \<exists>n \<in> set ns. on_net dest s n then first_of (on_net dest s) ns r
     else if \<exists>n \<in> set ns. own_addr dest s n then first_of (own_addr dest s) (rev ns) r
     else r = (if netif_default s \<noteq> 0 \<and> netif_is_up (netif_default s) s then netif_default s else 0))"
proof -
  let ?A = "filter (on_net dest s) ns" and ?B = "filter (own_addr dest s) ns"
  have ns: "0 \<notin> set ns" using assms linked_nonzero by (auto simp: interfaces_def)
  have loop: "route_loop NETIF_MAX (netif_list s) 0 dest s = Inr (case ?A of [] \<Rightarrow> last_or 0 ?B | r # _ \<Rightarrow> r)"
    by (rule route_loop_spec) (use assms in \<open>simp_all add: interfaces_def\<close>)
  show ?thesis
  proof (cases ?A)
    case (Cons r A)
    then have "r \<in> set ?A" by simp
    then have "r \<noteq> 0" using ns by (cases "r = 0") auto
    moreover have "\<exists>n \<in> set ns. on_net dest s n" using Cons by (metis filter_empty_conv list.discI)
    moreover have "first_of (on_net dest s) ns r" using Cons by (simp add: first_of_filter)
    ultimately show ?thesis using Cons by (simp add: ip_route_def loop)
  next
    case Nil
    then have A: "\<not> (\<exists>n \<in> set ns. on_net dest s n)" by (simp add: filter_empty_conv)
    show ?thesis
    proof (cases "?B = []")
      case True
      then have "\<not> (\<exists>n \<in> set ns. own_addr dest s n)" by (simp add: filter_empty_conv)
      then show ?thesis using Nil True A by (simp add: ip_route_def loop last_or_def)
    next
      case False
      then have "last ?B \<in> set ?B" by (rule last_in_set)
      then have "last ?B \<noteq> 0" using ns by (metis filter_is_subset subsetD)
      moreover have "first_of (own_addr dest s) (rev ns) (last ?B)"
        using False by (cases ?B rule: rev_cases) (auto simp: first_of_filter rev_filter [symmetric])
      moreover have "\<exists>n \<in> set ns. own_addr dest s n" using False by (simp add: filter_empty_conv)
      ultimately show ?thesis using Nil A False by (simp add: ip_route_def loop last_or_def)
    qed
  qed
qed

lemma match_rest:
  assumes "linked (\<lambda>n. nif_next (ifs a n)) n (n # ms)" "length ms < fuel" "inp \<noteq> 0" "inp \<noteq> n"
  shows "match_netif fuel n False inp dest a =
    Inr (case filter (\<lambda>m. m \<noteq> inp \<and> netif_accepts m dest a) (n # ms) of [] \<Rightarrow> 0 | r # _ \<Rightarrow> r)"
  using assms
proof (induction fuel arbitrary: n ms)
  case (Suc f)
  show ?case
  proof (cases "netif_accepts n dest a")
    case True
    then show ?thesis using Suc.prems by simp
  next
    case False
    have d: "distinct (n # ms)" by (rule linked_distinct [OF Suc.prems(1)])
    show ?thesis
    proof (cases ms)
      case Nil
      then show ?thesis using False Suc.prems by simp
    next
      case (Cons m ks)
      show ?thesis
      proof (cases "m = inp")
        case True
        show ?thesis
        proof (cases ks)
          case Nil
          then show ?thesis using False Suc.prems Cons True by simp
        next
          fix k ls assume k: "ks = k # ls"
          have "match_netif f k False inp dest a = Inr (case filter (\<lambda>m. m \<noteq> inp \<and> netif_accepts m dest a) (k # ls) of [] \<Rightarrow> 0 | r # _ \<Rightarrow> r)"
            by (rule Suc.IH) (use Suc.prems Cons True k d in auto)
          then show ?thesis using False Suc.prems Cons True k by simp
        qed
      next
        case m: False
        have "match_netif f m False inp dest a = Inr (case filter (\<lambda>m. m \<noteq> inp \<and> netif_accepts m dest a) (m # ks) of [] \<Rightarrow> 0 | r # _ \<Rightarrow> r)"
          by (rule Suc.IH) (use Suc.prems Cons m in auto)
        then show ?thesis using False Suc.prems Cons m by simp
      qed
    qed
  qed
qed simp

lemma match_netif_spec:
  assumes "interfaces a ns" "inp \<noteq> 0"
  shows "match_netif NETIF_MAX inp True inp dest a =
    Inr (case filter (\<lambda>n. netif_accepts n dest a) (inp # ns) of [] \<Rightarrow> 0 | r # _ \<Rightarrow> r)"
proof (cases "netif_accepts inp dest a")
  case True
  then show ?thesis by (simp add: numeral_eq_Suc)
next
  case False
  have l: "linked (\<lambda>n. nif_next (ifs a n)) (netif_list a) ns" "length ns < 257" using assms(1) by (auto simp: interfaces_def)
  have eq: "filter (\<lambda>m. m \<noteq> inp \<and> netif_accepts m dest a) ms = filter (\<lambda>m. netif_accepts m dest a) ms" for ms
    by (rule filter_cong) (use False in auto)
  have step: "match_netif NETIF_MAX inp True inp dest a =
      (let n = (if netif_list a = inp then nif_next (ifs a inp) else netif_list a)
       in if n \<noteq> 0 then match_netif 256 n False inp dest a else Inr 0)"
    using False by (simp add: numeral_eq_Suc Let_def)
  have go: "match_netif 256 n False inp dest a = Inr (case filter (\<lambda>m. netif_accepts m dest a) (n # ms) of [] \<Rightarrow> 0 | r # _ \<Rightarrow> r)"
    if "linked (\<lambda>n. nif_next (ifs a n)) n (n # ms)" "length ms < 256" "inp \<noteq> n" for n ms
    using match_rest [OF that(1,2) assms(2) that(3), of dest] unfolding eq .
  show ?thesis
  proof (cases ns)
    case Nil
    then show ?thesis unfolding step using l False assms(2) by simp
  next
    case (Cons n ms)
    show ?thesis
    proof (cases "n = inp")
      case True
      show ?thesis
      proof (cases ms)
        case Nil
        then show ?thesis unfolding step using l Cons True False assms(2) by simp
      next
        fix k ks assume k: "ms = k # ks"
        have "distinct ns" by (rule linked_distinct [OF l(1)])
        then have "match_netif 256 k False inp dest a = Inr (case filter (\<lambda>m. netif_accepts m dest a) (k # ks) of [] \<Rightarrow> 0 | r # _ \<Rightarrow> r)"
          by (intro go) (use l Cons True k in auto)
        then show ?thesis unfolding step using l Cons True False k by simp
      qed
    next
      case n: False
      have "match_netif 256 n False inp dest a = Inr (case filter (\<lambda>m. netif_accepts m dest a) (n # ms) of [] \<Rightarrow> 0 | r # _ \<Rightarrow> r)"
        by (rule go) (use l Cons n in auto)
      then show ?thesis unfolding step using l Cons n False by simp
    qed
  qed
qed

section \<open>Reception\<close>

text \<open>The checks of \<^verbatim>\<open>ip_input\<close> on the header, on its source, and on its destination.\<close>

definition header_ok :: "nat \<Rightarrow> arp_state \<Rightarrow> bool" where
  "header_ok p a \<longleftrightarrow>
     (let hlen = unat (field_u8 p 0 a AND 0x0f) * 4; b = pb a
      in drop_bit 4 (field_u8 p 0 a) = 4 \<and> hlen \<le> plen (pbufs b p) \<and>
         unat (lwip_ntohs (field_u16 p 2 a)) \<le> tot_len (pbufs b p) \<and> inet_chksum (payload (pbufs b p)) hlen b = 0)"

definition source_ok :: "nat \<Rightarrow> nat \<Rightarrow> arp_state \<Rightarrow> bool" where
  "source_ok inp p a \<longleftrightarrow> \<not> ip4_addr_isbroadcast (field_u32 p 12 a) (ifs a inp) \<and> \<not> ip_addr_ismulticast (field_u32 p 12 a)"

definition addressed_to_us :: "nat \<Rightarrow> nat list \<Rightarrow> nat \<Rightarrow> arp_state \<Rightarrow> bool" where
  "addressed_to_us inp ns p a \<longleftrightarrow> (\<exists>n \<in> set (inp # ns). netif_accepts n (field_u32 p 16 a) a)"

definition is_fragment :: "nat \<Rightarrow> arp_state \<Rightarrow> bool" where
  "is_fragment p a \<longleftrightarrow> field_u16 p 6 a AND lwip_htons (IP_OFFMASK OR IP_MF) \<noteq> 0"

text \<open>What is left in memory when a packet is gone.\<close>

definition released :: "(memp_t \<Rightarrow> nat list) \<Rightarrow> pb_state \<Rightarrow> nat list \<Rightarrow> pb_state \<Rightarrow> bool" where
  "released sl b ps b' \<longleftrightarrow> mem_ok sl b' \<and> taken sl (pools b') = pool_minus sl b ps \<and>
     fst ` live (heap b') = fst ` live (heap b) - {q \<in> set ps. ptype (pbufs b q) = PBUF_RAM}"

lemma fst_heap_minus: "fst ` heap_minus b ps = fst ` live (heap b) - {q \<in> set ps. ptype (pbufs b q) = PBUF_RAM}"
  by (force simp: heap_minus_def)

lemma packet_sole: "packet b p ps \<Longrightarrow> solid sl b ps \<Longrightarrow> sole sl b p ps"
  by (simp add: sole_def solid_def)

lemma release_released:
  assumes "mem_ok sl (pb (arp s))" "packet (pb (arp s)) p ps" "solid sl (pb (arp s)) ps"
  shows "\<exists>s'. release_pbuf p s = Inr s' \<and> released sl (pb (arp s)) ps (pb (arp s'))"
proof -
  obtain b where "release_pbuf p s = Inr (set_arp (set_pbs b (arp s)) s)" "mem_ok sl b"
    "live (heap b) = heap_minus (pb (arp s)) ps" "taken sl (pools b) = pool_minus sl (pb (arp s)) ps"
    by (rule release_sole [OF assms(1) packet_sole [OF assms(2,3)]])
  then show ?thesis by (intro exI [of _ "set_arp (set_pbs b (arp s)) s"]) (simp add: released_def fst_heap_minus set_arp_def set_pbs_def)
qed

text \<open>Trimming a packet; releasing what is left releases all of it.\<close>

lemma trim:
  assumes "mem_ok sl b" "packet b p ps" "solid sl b ps"
  shows "\<exists>qs b'. pbuf_realloc p n b = Inr b' \<and> mem_ok sl b' \<and> packet b' p qs \<and> solid sl b' qs \<and> content b' qs = take n (content b ps) \<and>
    bytes b' = bytes b \<and> payload (pbufs b' p) = payload (pbufs b p) \<and> (\<forall>c. released sl b' qs c \<longrightarrow> released sl b ps c)"
proof (cases "n < length (content b ps)")
  case True
  obtain us q vs b' where c: "ps = us @ q # vs" "pbuf_realloc p n b = Inr b'" "mem_ok sl b'" "packet b' p (us @ [q])"
    "content b' (us @ [q]) = take n (content b ps)" "solid sl b' (us @ [q])" "taken sl (pools b') = pool_minus sl b vs"
    "fst ` live (heap b') = fst ` live (heap b) - {v \<in> set vs. ptype (pbufs b v) = PBUF_RAM}" "bytes b' = bytes b"
    "\<forall>x \<in> set (us @ [q]). payload (pbufs b' x) = payload (pbufs b x) \<and> ptype (pbufs b' x) = ptype (pbufs b x)"
    using realloc_cut [OF assms True] by (elim exE conjE) (rule that)
  have "p \<in> set (us @ [q])" using c(4) by (cases "us @ [q]") (auto simp: packet_def)
  moreover have "released sl b ps d" if "released sl b' (us @ [q]) d" for d
  proof -
    have t: "{x \<in> set (us @ [q]). ptype (pbufs b' x) = t} = {x \<in> set (us @ [q]). ptype (pbufs b x) = t}"
      "{x \<in> set (us @ [q]). pool_of (ptype (pbufs b' x)) = i} = {x \<in> set (us @ [q]). pool_of (ptype (pbufs b x)) = i}" for t i
      using c(10) by auto
    show ?thesis
      using that unfolding released_def pool_minus_def t c(7,8) by (auto simp: c(1) fun_eq_iff pool_minus_def)
  qed
  ultimately show ?thesis using c(2-6,9,10) by (intro exI [of _ "us @ [q]"] exI [of _ b']) blast
next
  case False
  then show ?thesis using assms realloc_keep [OF assms(2)] by (intro exI [of _ ps] exI [of _ b]) simp
qed

definition first_accepting :: "nat \<Rightarrow> nat list \<Rightarrow> nat \<Rightarrow> arp_state \<Rightarrow> nat" where
  "first_accepting inp ns p a = (case filter (\<lambda>n. netif_accepts n (field_u32 p 16 a) a) (inp # ns) of [] \<Rightarrow> 0 | r # _ \<Rightarrow> r)"

lemma first_accepting_0:
  assumes "interfaces a ns" "inp \<noteq> 0"
  shows "first_accepting inp ns p a = 0 \<longleftrightarrow> \<not> addressed_to_us inp ns p a"
proof -
  have nz: "0 \<notin> set (inp # ns)" using assms linked_nonzero by (auto simp: interfaces_def)
  let ?F = "filter (\<lambda>n. netif_accepts n (field_u32 p 16 a) a) (inp # ns)"
  have us: "addressed_to_us inp ns p a \<longleftrightarrow> ?F \<noteq> []"
    unfolding addressed_to_us_def filter_empty_conv by blast
  show ?thesis
  proof (cases ?F)
    case Nil
    then show ?thesis using us by (simp add: first_accepting_def)
  next
    case (Cons r rs)
    then have "r \<in> set ?F" unfolding Cons by simp
    then have "r \<in> set (inp # ns)" by (simp only: set_filter mem_Collect_eq)
    then show ?thesis using us nz Cons unfolding first_accepting_def Cons by (cases "r = 0") auto
  qed
qed

lemma ip_input_drops: "\<not> header_ok p (arp s) \<Longrightarrow> ip_input link raw udp tcp p inp s = release_pbuf p s"
  by (auto simp: ip_input_def header_ok_def Let_def)

text \<open>The rest of \<^verbatim>\<open>ip_input\<close>, from the state \<open>s1\<close> after trimming on.\<close>

lemma ip_input_runs:
  assumes hd: "header_ok p (arp s)" and ifs: "interfaces (arp s) ns" "inp \<noteq> 0"
    and b: "pbuf_realloc p (unat (lwip_ntohs (field_u16 p 2 (arp s)))) (pb (arp s)) = Inr b" "bytes b = bytes (pb (arp s))"
      "payload (pbufs b p) = payload (pbufs (pb (arp s)) p)"
    and s1: "s1 = (set_arp (set_pbs b (arp s)) s)\<lparr>current_dest := field_u32 p 16 (arp s), current_src := field_u32 p 12 (arp s)\<rparr>"
  shows "ip_input link raw udp tcp p inp s =
    (if \<not> source_ok inp p (arp s) \<or> first_accepting inp ns p (arp s) = 0 then release_pbuf p s1
     else if is_fragment p (arp s)
     then rbind (ip_reass link p s1) (\<lambda>(p, s). if p = 0 then Inr s
       else ip_deliver link raw udp tcp p (payload (pbufs (pb (arp s)) p)) inp s)
     else ip_deliver link raw udp tcp p (payload (pbufs b p)) inp s1)"
proof -
  define a where "a = arp s"
  have a1: "arp s1 = set_pbs b a" "ifs (set_pbs b a) = ifs a" "netif_list (set_pbs b a) = netif_list a" "pb (set_pbs b a) = b"
    by (simp_all add: s1 set_arp_def set_pbs_def a_def)
  have same: "field_u32 p off (set_pbs b a) = field_u32 p off a" "field_u16 p off (set_pbs b a) = field_u16 p off a" for off
    by (simp_all add: field_u32_def field_u16_def set_pbs_def b(2,3) a_def)
  have acc: "netif_accepts n d (arp s1) = netif_accepts n d a" for n d
    by (simp add: netif_accepts_def netif_is_up_def a1)
  have if1: "interfaces (arp s1) ns" using ifs(1) by (simp add: interfaces_def a1 a_def [symmetric])
  have m: "match_netif NETIF_MAX inp True inp (field_u32 p 16 a) (arp s1) = Inr (first_accepting inp ns p a)"
    unfolding match_netif_spec [OF if1 ifs(2)] acc first_accepting_def ..
  have arp: "arp (set_arp x y) = x" for x y by (simp add: set_arp_def)
  have st: "(set_arp (set_pbs b a) s)\<lparr>current_dest := field_u32 p 16 (set_pbs b a), current_src := field_u32 p 12 (set_pbs b a)\<rparr> = s1"
    unfolding s1 a_def [symmetric] same ..
  have cur: "current_dest s1 = field_u32 p 16 a" "current_src s1 = field_u32 p 12 a" by (simp_all add: s1 a_def)
  have h: "drop_bit 4 (field_u8 p 0 a) = 4" "unat (field_u8 p 0 a AND 0x0f) * 4 \<le> plen (pbufs (pb a) p)"
    "unat (lwip_ntohs (field_u16 p 2 a)) \<le> tot_len (pbufs (pb a) p)"
    "inet_chksum (payload (pbufs (pb a) p)) (unat (field_u8 p 0 a AND 0x0f) * 4) (pb a) = 0"
    using hd by (auto simp: header_ok_def Let_def a_def)
  show ?thesis
    unfolding ip_input_def Let_def a_def [symmetric] b(1) [folded a_def] rbind_Inr arp st cur m
    using h by (simp add: source_ok_def is_fragment_def a1 same)
qed

text \<open>
  C10. Reception of a packet. If its header is valid (version, header length within the first pbuf, total
  length within the packet, checksum), it is for one of the interfaces and its source is neither
  a broadcast nor a multicast address, then it is cut to its total length and handed on: to
  reassembly if it is a fragment, else to the transport protocols. In all other cases it is dropped, and
  all its memory is given back.
\<close>

theorem ip_input_correct:
  assumes mem: "mem_ok sl (pb (arp s))" "packet (pb (arp s)) p ps" "solid sl (pb (arp s)) ps"
    and ifs: "interfaces (arp s) ns" "inp \<noteq> 0"
  shows "if header_ok p (arp s) \<and> source_ok inp p (arp s) \<and> addressed_to_us inp ns p (arp s)
    then \<exists>qs b s'. s' = (set_arp (set_pbs b (arp s)) s)\<lparr>current_dest := field_u32 p 16 (arp s), current_src := field_u32 p 12 (arp s)\<rparr> \<and>
      mem_ok sl b \<and> packet b p qs \<and> solid sl b qs \<and>
      content b qs = take (unat (lwip_ntohs (field_u16 p 2 (arp s)))) (content (pb (arp s)) ps) \<and>
      ip_input link raw udp tcp p inp s =
        (if is_fragment p (arp s)
         then rbind (ip_reass link p s') (\<lambda>(p, s). if p = 0 then Inr s
           else ip_deliver link raw udp tcp p (payload (pbufs (pb (arp s)) p)) inp s)
         else ip_deliver link raw udp tcp p (payload (pbufs b p)) inp s')
    else \<exists>s'. ip_input link raw udp tcp p inp s = Inr s' \<and> released sl (pb (arp s)) ps (pb (arp s'))"
proof (cases "header_ok p (arp s)")
  case False
  then show ?thesis using release_released [OF mem] ip_input_drops [OF False] by simp
next
  case hd: True
  let ?a = "arp s"
  obtain qs b where b: "pbuf_realloc p (unat (lwip_ntohs (field_u16 p 2 ?a))) (pb ?a) = Inr b" "mem_ok sl b" "packet b p qs" "solid sl b qs"
    "content b qs = take (unat (lwip_ntohs (field_u16 p 2 ?a))) (content (pb ?a) ps)" "bytes b = bytes (pb ?a)"
    "payload (pbufs b p) = payload (pbufs (pb ?a) p)" "\<And>c. released sl b qs c \<Longrightarrow> released sl (pb ?a) ps c"
    using trim [OF mem, of "unat (lwip_ntohs (field_u16 p 2 ?a))"] by blast
  define s1 where "s1 = (set_arp (set_pbs b ?a) s)\<lparr>current_dest := field_u32 p 16 ?a, current_src := field_u32 p 12 ?a\<rparr>"
  have s1: "pb (arp s1) = b" by (simp add: s1_def set_arp_def set_pbs_def)
  have drop1: "\<exists>s'. release_pbuf p s1 = Inr s' \<and> released sl (pb ?a) ps (pb (arp s'))"
    using release_released [of sl s1 p qs] b(2-4,8) unfolding s1 by blast
  note run = ip_input_runs [OF hd ifs b(1,6,7) s1_def, of link raw udp tcp] first_accepting_0 [OF ifs, of p]
  show ?thesis
  proof (cases "source_ok inp p ?a \<and> addressed_to_us inp ns p ?a")
    case True
    then show ?thesis unfolding run using hd b(2-5) s1_def by auto
  next
    case False
    then show ?thesis unfolding run using drop1 by auto
  qed
qed

section \<open>Echo replies\<close>

lemma poke_fields [simp]:
  "pbufs (pb (poke x bs a)) = pbufs (pb a)" "ifs (poke x bs a) = ifs a" "wire (poke x bs a) = wire a"
  "heap (pb (poke x bs a)) = heap (pb a)" "pools (pb (poke x bs a)) = pools (pb a)"
  by (simp_all add: poke_def)

lemma store_poke: "store p off bs a = poke (payload (pbufs (pb a) p) + off) bs a"
  by (simp add: store_def poke_def)

lemma poke_apart:
  "apart x (length bs) y n \<Longrightarrow> read_bytes (bytes (pb (poke x bs a))) y n = read_bytes (bytes (pb a)) y n"
  by (simp add: poke_def read_write_apart)

lemma poke_inside:
  "off + length bs \<le> n \<Longrightarrow> read_bytes (bytes (pb (poke (x + off) bs a))) x n = splice off bs (read_bytes (bytes (pb a)) x n)"
  by (rule nth_equalityI) (auto simp: poke_def splice_def write_bytes_def nth_append)

lemma echo_chksum_unat:
  "unat (echo_chksum c) = (if 65527 \<le> unat c then unat c - 65527 else unat c + 8)"
proof -
  have h: "lwip_htons 63487 = 65527" "lwip_htons 2048 = 8" by (simp_all add: lwip_htons_def)
  have c: "unat c < 65536" by (rule unat_less_65536)
  show ?thesis
  proof (cases "65527 \<le> unat c")
    case True
    then have k: "unat c = 65527 + (unat c - 65527)" "unat c - 65527 < 9" using c by linarith+
    moreover define k where "k = unat c - 65527"
    ultimately have "unat c = 65527 + k" "k < 9" by simp_all
    then show ?thesis using True by (simp add: echo_chksum_def h word_le_nat_alt unat_word_ariths)
  next
    case False
    then show ?thesis by (simp add: echo_chksum_def h word_le_nat_alt unat_word_ariths)
  qed
qed

text \<open>The reply verifies if the request does, unless all of it is zero.\<close>

lemma echo_norm:
  assumes "norm (evalb (8 # code # host_bytes16 c @ r)) = 65535"
  shows "norm (evalb (0 # code # host_bytes16 (echo_chksum c) @ r)) = (if \<forall>b \<in> set (code # r). b = 0 then 0 else 65535)"
proof -
  define X where "X = evalb (0 # code # 0 # 0 # r)"
  have X0: "X = 0 \<longleftrightarrow> (\<forall>b \<in> set (code # r). b = 0)" unfolding X_def evalb_zero by auto
  have even: "even (length [t, code])" for t :: u8 by simp
  have old: "norm (8 + X + unat c) = 65535"
    using assms norm_field [OF even, of 8 c r] by (simp add: X_def)
  have new: "norm (evalb (0 # code # host_bytes16 (echo_chksum c) @ r)) = norm (X + unat (echo_chksum c))"
    using norm_field [OF even, of 0 "echo_chksum c" r] by (simp add: X_def)
  show ?thesis
  proof (cases "X = 0")
    case True
    then have "unat c = 65527" using old unat_less_65536 [of c] by (simp add: norm_def mod_if split: if_splits)
    then show ?thesis unfolding new using True X0 by (simp add: echo_chksum_unat)
  next
    case False
    have "norm (X + unat (echo_chksum c)) = norm (8 + X + unat c)"
    proof (rule norm_eqI)
      have "8 + X + unat c = X + unat (echo_chksum c) + 65535 \<or> 8 + X + unat c = X + unat (echo_chksum c)"
        by (simp add: echo_chksum_unat)
      then show "(X + unat (echo_chksum c)) mod 65535 = (8 + X + unat c) mod 65535" by (metis mod_add_self2)
    qed (use False in simp)
    then show ?thesis unfolding new using old False X0 by simp
  qed
qed

lemma load_host16: "ucast (ucast c :: u8) OR push_bit 8 (ucast (ucast (drop_bit 8 c) :: u8)) = c" for c :: u16
  by (rule bit_word_eqI) (auto simp: bit_simps)

lemma echo_answer_data:
  fixes s :: "'a ip_like"
  defines "a \<equiv> arp s" and "b \<equiv> pb (arp s)"
  assumes room: "iphdr + 20 \<le> payload (pbufs b p)" and four: "4 \<le> plen (pbufs b p)"
    and h: "read_bytes (bytes b) iphdr 20 = x0 @ [ttl, proto] @ x1 @ x2 @ x3" "length x0 = 8" "length x1 = 2" "length x2 = 4" "length x3 = 4"
    and d: "pbuf_data b p = [type, code] @ host_bytes16 c @ r"
  defines "hd0 \<equiv> \<lambda>ck. x0 @ [ICMP_TTL, proto] @ ck @ host_bytes32 (current_dest s) @ host_bytes32 (current_src s)"
  shows "pbufs (pb (echo_answer p iphdr s)) = pbufs b"
    "read_bytes (bytes (pb (echo_answer p iphdr s))) iphdr 20 = hd0 (host_bytes16 (word_of_nat (65535 - norm (evalb (hd0 [0, 0])))))"
    "pbuf_data (pb (echo_answer p iphdr s)) p = [ICMP_ER, code] @ host_bytes16 (echo_chksum c) @ r"
    "apart iphdr (payload (pbufs b p) + 4 - iphdr) y n \<Longrightarrow> read_bytes (bytes (pb (echo_answer p iphdr s))) y n = read_bytes (bytes b) y n"
proof -
  define P where "P = payload (pbufs b p)"
  define n where "n = plen (pbufs b p)"
  have n4: "4 \<le> n" using four by (simp add: n_def)
  let ?H = "\<lambda>a. read_bytes (bytes (pb a)) iphdr 20" and ?D = "\<lambda>a. read_bytes (bytes (pb a)) P n"
  define a1 where "a1 = poke (iphdr + 12) (host_bytes32 (current_dest s)) a"
  define a2 where "a2 = poke (iphdr + 16) (host_bytes32 (current_src s)) a1"
  define a3 where "a3 = poke (P + 0) [ICMP_ER] a2"
  define a4 where "a4 = poke (P + 2) (host_bytes16 (echo_chksum (field_u16 p 2 a3))) a3"
  define a5 where "a5 = poke (iphdr + 8) [ICMP_TTL] a4"
  define a6 where "a6 = poke (iphdr + 10) [0, 0] a5"
  define a7 where "a7 = poke (iphdr + 10) (host_bytes16 (word_of_nat (inet_chksum iphdr 20 (pb a6)))) a6"
  have e: "echo_answer p iphdr s = a7"
    by (simp add: echo_answer_def Let_def store_poke a7_def a6_def a5_def a4_def a3_def a2_def a1_def a_def b_def P_def)
  show pbs: "pbufs (pb (echo_answer p iphdr s)) = pbufs b"
    unfolding e by (simp add: a7_def a6_def a5_def a4_def a3_def a2_def a1_def a_def b_def)
  have pd: "pbuf_data (pb (echo_answer p iphdr s)) p = ?D a7" unfolding pbuf_data_def pbs unfolding e P_def n_def ..
  have lens: "length (host_bytes32 w) = 4" "length (host_bytes16 v) = 2" for w v by (simp_all add: host_bytes32_def host_bytes16_def)
  have far: "apart iphdr 20 P n" "apart (P + 0) 4 iphdr 20" using room by (auto simp: apart_def P_def)
  have D2: "?D a2 = [type, code] @ host_bytes16 c @ r"
  proof -
    have "?D a2 = ?D a" unfolding a2_def a1_def
      by (subst poke_apart, use room in \<open>simp add: apart_def lens P_def\<close>)+ (rule refl)
    then show ?thesis using d by (simp add: pbuf_data_def P_def n_def a_def b_def)
  qed
  have D3: "?D a3 = [ICMP_ER, code] @ host_bytes16 c @ r"
    unfolding a3_def by (subst poke_inside) (use n4 in \<open>simp_all add: D2 splice_def\<close>)
  have f: "field_u16 p 2 a3 = c"
  proof -
    have "payload (pbufs (pb a3) p) = P" by (simp add: a3_def a2_def a1_def a_def P_def b_def)
    moreover have "bytes (pb a3) (P + 2) = ucast c" "bytes (pb a3) (P + 2 + 1) = ucast (drop_bit 8 c)"
      using read_bytes_nth [of 2 n "bytes (pb a3)" P] read_bytes_nth [of 3 n "bytes (pb a3)" P] four
      unfolding D3 by (simp_all add: n_def host_bytes16_def numeral_3_eq_3)
    ultimately show ?thesis unfolding field_u16_def Let_def by (simp only: load_host16)
  qed
  have D4: "?D a4 = [ICMP_ER, code] @ host_bytes16 (echo_chksum c) @ r"
    unfolding a4_def f by (subst poke_inside) (use n4 in \<open>simp_all add: D3 splice_def lens\<close>)
  show "pbuf_data (pb (echo_answer p iphdr s)) p = [ICMP_ER, code] @ host_bytes16 (echo_chksum c) @ r"
    unfolding pd D4 [symmetric] a7_def a6_def a5_def
    by (subst poke_apart, use room in \<open>simp add: apart_def lens P_def\<close>)+ (rule refl)
  show "read_bytes (bytes (pb (echo_answer p iphdr s))) y k = read_bytes (bytes b) y k"
    if "apart iphdr (payload (pbufs b p) + 4 - iphdr) y k" for y k
  proof -
    have o: "read_bytes (bytes (pb (poke x bs u))) y k = read_bytes (bytes (pb u)) y k" if "iphdr \<le> x" "x + length bs \<le> P + 4" for x bs u
      using that \<open>apart iphdr (payload (pbufs b p) + 4 - iphdr) y k\<close> room by (intro poke_apart) (auto simp: apart_def P_def)
    have r: "iphdr + 20 \<le> P" using room by (simp add: P_def)
    have "read_bytes (bytes (pb a7)) y k = read_bytes (bytes (pb a4)) y k"
      unfolding a7_def a6_def a5_def by (simp add: o lens r trans_le_add1 order_trans [OF _ r])
    also have "\<dots> = read_bytes (bytes (pb a2)) y k"
      unfolding a4_def a3_def using r by (simp add: o lens del: One_nat_def)
    also have "\<dots> = read_bytes (bytes b) y k"
      unfolding a2_def a1_def using r by (simp add: o lens a_def b_def)
    finally show ?thesis unfolding e .
  qed
  have H2: "?H a2 = x0 @ [ttl, proto] @ x1 @ host_bytes32 (current_dest s) @ host_bytes32 (current_src s)"
  proof -
    have "?H a1 = x0 @ [ttl, proto] @ x1 @ host_bytes32 (current_dest s) @ x3"
      unfolding a1_def by (subst poke_inside) (use h in \<open>simp_all add: a_def b_def splice_def lens\<close>)
    then show ?thesis
      unfolding a2_def by (subst poke_inside) (use h in \<open>simp_all add: splice_def lens\<close>)
  qed
  have "?H a4 = ?H a2"
    unfolding a4_def a3_def
    by (subst poke_apart, use room in \<open>simp add: apart_def lens P_def\<close>)+ (rule refl)
  then have "?H a5 = hd0 x1"
    unfolding a5_def hd0_def H2 by (subst poke_inside) (use h in \<open>simp_all add: splice_def lens\<close>)
  then have H6: "?H a6 = hd0 [0, 0]"
    unfolding a6_def hd0_def by (subst poke_inside) (use h in \<open>simp_all add: splice_def lens\<close>)
  have "inet_chksum iphdr 20 (pb a6) = 65535 - norm (evalb (hd0 [0, 0]))"
    using h by (simp add: inet_chksum_def LWIP_CHKSUM_def H6 lwip_standard_chksum_norm hd0_def lens)
  then show "?H (echo_answer p iphdr s) = hd0 (host_bytes16 (word_of_nat (65535 - norm (evalb (hd0 [0, 0])))))"
    unfolding e a7_def using H6 h by (subst poke_inside) (simp_all add: splice_def lens hd0_def)
qed

lemma same_pbufs_packet:
  assumes "pbufs s' = pbufs s"
  shows "packet s' p ps = packet s p ps"
proof -
  have len: "length (content s' qs) = length (content s qs)" for qs
    by (induction qs) (simp_all add: pbuf_data_def assms)
  have "tot_ok s' qs = tot_ok s qs" for qs by (induction qs) (simp_all add: assms len)
  moreover have "chain s' p ps = chain s p ps" by (rule chain_cong) (simp add: assms)
  ultimately show ?thesis by (simp add: packet_def len)
qed

lemma unat_of_small: "n \<le> 65535 \<Longrightarrow> unat (word_of_nat n :: u16) = n"
  by (simp add: unat_of_nat)

lemma split20:
  assumes "length h = 20"
  obtains x0 ttl proto x1 x2 x3 where "h = x0 @ [ttl, proto] @ x1 @ x2 @ x3" "length x0 = 8" "length x1 = 2" "length x2 = 4" "length x3 = 4"
  using twenty [OF assms]
proof (elim exE)
  fix a b c d e f g i j k l m n p q r t u v w
  assume h: "h = [a,b,c,d,e,f,g,i,j,k,l,m,n,p,q,r,t,u,v,w]"
  show thesis
    by (rule that [of "[a,b,c,d,e,f,g,i]" j k "[l,m]" "[n,p,q,r]" "[t,u,v,w]"]) (simp_all add: h)
qed

text \<open>
  C35. The answer to an echo request. The reply has the code, the identification and the data of the request,
  and its IP header the two addresses exchanged, a new TTL and a checksum that verifies. The
  ICMP checksum, which is adjusted instead of computed again, verifies if that of the request did, with one exception: if
  everything in the request but its type and checksum is zero, the reply has the checksum 0 instead of 0xffff and the
  receiver's check fails.
\<close>

theorem echo_answer_correct:
  assumes b: "b = pb (arp s)" and s': "s' = pb (echo_answer p iphdr s)"
    and packet: "packet b p ps" and room: "iphdr + 20 \<le> payload (pbufs b p)" "4 \<le> plen (pbufs b p)"
    and others: "dest_apart b (tl ps) iphdr (payload (pbufs b p) + 4 - iphdr)"
    and request: "content b ps = [ICMP_ECHO, code] @ host_bytes16 c @ r" "inet_chksum_pbuf p b = Inr 0"
  shows "packet s' p ps \<and> content s' ps = [ICMP_ER, code] @ host_bytes16 (echo_chksum c) @ r \<and>
    inet_chksum_pbuf p s' = Inr (if \<forall>x \<in> set (code # r). x = 0 then 65535 else 0) \<and>
    take 8 (read_bytes (bytes s') iphdr 20) = take 8 (read_bytes (bytes b) iphdr 20) \<and>
    read_bytes (bytes s') (iphdr + 12) 8 = host_bytes32 (current_dest s) @ host_bytes32 (current_src s) \<and>
    bytes s' (iphdr + 8) = ICMP_TTL \<and> bytes s' (iphdr + 9) = bytes b (iphdr + 9) \<and> inet_chksum iphdr IP_HLEN s' = 0"
proof -
  obtain qs where ps: "ps = p # qs" using packet by (cases ps) (auto simp: packet_def chain_def)
  define n where "n = plen (pbufs b p)"
  have cut: "pbuf_data b p @ content b qs = [ICMP_ECHO, code] @ host_bytes16 c @ r" using request(1) ps by simp
  have h2: "length (host_bytes16 v) = 2" "length (host_bytes32 w) = 4" for v w by (simp_all add: host_bytes16_def host_bytes32_def)
  have d: "pbuf_data b p = [ICMP_ECHO, code] @ host_bytes16 c @ take (n - 4) r" and rest: "content b qs = drop (n - 4) r"
  proof -
    define xs where "xs = [ICMP_ECHO, code] @ host_bytes16 c"
    have xs: "length xs = 4" "length (pbuf_data b p) = n" "4 \<le> n" using room(2) by (simp_all add: xs_def h2 n_def)
    have "pbuf_data b p @ content b qs = xs @ r" using cut by (simp add: xs_def)
    from arg_cong [OF this, of "take n"] arg_cong [OF this, of "drop n"]
    show "pbuf_data b p = [ICMP_ECHO, code] @ host_bytes16 c @ take (n - 4) r" "content b qs = drop (n - 4) r"
      using xs by (simp_all add: xs_def [symmetric]) (simp add: xs_def)
  qed
  obtain x0 ttl proto x1 x2 x3 where h: "read_bytes (bytes b) iphdr 20 = x0 @ [ttl, proto] @ x1 @ x2 @ x3"
    "length x0 = 8" "length x1 = 2" "length x2 = 4" "length x3 = 4"
    by (rule split20 [OF read_bytes_length])
  note e = echo_answer_data [of iphdr s p, folded b, OF room h d, folded s']
  have q: "content s' qs = content b qs"
    by (rule content_cong) (use others in \<open>auto simp: ps pbuf_data_def e(1) dest_apart_def intro!: e(4)\<close>)
  have cont: "content s' ps = [ICMP_ER, code] @ host_bytes16 (echo_chksum c) @ r"
    using q rest by (simp add: ps e(3))
  have "norm (evalb ([ICMP_ECHO, code] @ host_bytes16 c @ r)) = 65535"
    using request pbuf_chksum [OF packet] norm_le by (simp add: le_antisym)
  then have ck: "inet_chksum_pbuf p s' = Inr (if \<forall>x \<in> set (code # r). x = 0 then 65535 else 0)"
    using pbuf_chksum [of s' p ps] same_pbufs_packet [OF e(1)] packet echo_norm [of code c r] unfolding cont by simp
  define H where "H = read_bytes (bytes s') iphdr 20"
  define A where "A = host_bytes32 (current_dest s) @ host_bytes32 (current_src s)"
  let ?X = "(x0 @ [ICMP_TTL, proto]) @ [0, 0] @ A"
  define ck where "ck = (word_of_nat (65535 - norm (evalb ?X)) :: u16)"
  have H: "H = (x0 @ [ICMP_TTL, proto]) @ host_bytes16 ck @ A"
    using e(2) unfolding H_def ck_def A_def append_assoc .
  have "norm (evalb H) = norm (norm (evalb ?X) + unat ck)"
    unfolding H by (subst norm_field) (simp_all add: h(2) norm_add)
  also have "\<dots> = norm (norm (evalb ?X) + (65535 - norm (evalb ?X)))" by (simp only: ck_def unat_of_small diff_le_self)
  also have "\<dots> = 65535" using norm_le [of "evalb ?X"] by (simp add: norm_id)
  finally have "norm (evalb H) = 65535" .
  then have z: "inet_chksum iphdr 20 s' = 0"
    by (simp add: inet_chksum_def LWIP_CHKSUM_def H_def lwip_standard_chksum_norm)
  have H': "take 8 H = x0" "drop 12 H = A" "H ! 8 = ICMP_TTL" "H ! 9 = proto"
    "take 8 (read_bytes (bytes b) iphdr 20) = x0" "read_bytes (bytes b) iphdr 20 ! 9 = proto"
    unfolding H h(1) using h(2) by (simp_all add: h2 nth_append)
  have m: "bytes s' (iphdr + 8) = H ! 8" "bytes s' (iphdr + 9) = H ! 9" "read_bytes (bytes s') (iphdr + 12) 8 = drop 12 H"
    "bytes b (iphdr + 9) = read_bytes (bytes b) iphdr 20 ! 9"
    by (simp_all add: H_def drop_read_bytes)
  show ?thesis
    unfolding H_def [symmetric] m H' cont same_pbufs_packet [OF e(1)]
    by (intro conjI packet ck z) (simp_all add: A_def)
qed

section \<open>Instances\<close>

lemma sample_interfaces: "interfaces (arp_sample b) [1]"
  by (simp add: interfaces_def arp_sample_def)

theorem ip_route_correct_witness: "ip_route 0x0300a8c0 (arp_sample sample) = Inr 1"
proof -
  have "on_net 0x0300a8c0 (arp_sample sample) 1"
    by (simp add: on_net_def arp_sample_def netif_is_up_def ip_addr_netcmp_def)
  then show ?thesis
    using ip_route_correct [OF sample_interfaces, of "0x0300a8c0" sample] by (auto simp: first_of_filter)
qed

text \<open>A packet of 22 bytes from 192.168.0.3 to 192.168.0.2.\<close>

definition input_sample :: bytes where
  "input_sample = [0x45, 0, 0, 22, 0, 0, 0, 0, 0x40, 1, 0xf9, 0x91, 192, 168, 0, 3, 192, 168, 0, 2]"

theorem ip_input_correct_witness:
  "\<exists>(s :: ip_state) qs b s'. ip_input (\<lambda>_ _. ERR_OK) (\<lambda>_ _ s. Inr (True, s)) (\<lambda>_ _. Inr) (\<lambda>_ _. Inr) 4102 1 s =
     ip_deliver (\<lambda>_ _. ERR_OK) (\<lambda>_ _ s. Inr (True, s)) (\<lambda>_ _. Inr) (\<lambda>_ _. Inr) 4102 (payload (pbufs b 4102)) 1 s' \<and>
     packet b 4102 qs \<and> length (content b qs) = 22"
proof -
  obtain b0 where b0: "mem_ok sample_slots b0" "packet b0 4102 [4102]" "solid sample_slots b0 [4102]" "length (content b0 [4102]) = 22"
    using sample_ram by blast
  define P where "P = payload (pbufs b0 4102)"
  define b where "b = b0\<lparr>bytes := write_bytes P input_sample (bytes b0)\<rparr>"
  have bp: "pbufs b = pbufs b0" by (simp add: b_def)
  have b: "mem_ok sample_slots b" "packet b 4102 [4102]" "solid sample_slots b [4102]" "length (content b [4102]) = 22"
    using b0 same_pbufs_packet [OF bp] by (simp_all add: b_def mem_ok_def solid_def owned_def pbuf_data_def cong: option.case_cong)
  define s where "s = reass_sample b"
  have s: "pb (arp s) = b" "arp s = arp_sample b" by (simp_all add: s_def arp_sample_netif)
  have byte: "bytes b (P + i) = input_sample ! i" if "i < 20" for i
    using that by (simp add: b_def write_bytes_def input_sample_def)
  have head: "read_bytes (bytes b) P 20 = input_sample"
    by (rule nth_equalityI) (simp_all add: byte, simp add: input_sample_def)
  have len: "plen (pbufs b 4102) = 22" "tot_len (pbufs b 4102) = 22"
    using b(2,4) by (auto simp: packet_def)
  have P: "payload (pbufs b 4102) = P" by (simp add: bp P_def)
  have u8: "field_u8 4102 i (arp s) = input_sample ! i" if "i < 20" for i
    unfolding field_u8_def s(1) P by (rule byte [OF that])
  have u16: "field_u16 4102 i (arp s) = ucast (input_sample ! i) OR push_bit 8 (ucast (input_sample ! (i + 1)))" if "i < 19" for i
    using byte [of i] byte [of "i + 1"] that unfolding field_u16_def s(1) P Let_def by (simp add: add.assoc)
  have u32: "field_u32 4102 i (arp s) = load_u32 (\<lambda>k. input_sample ! k) i" if "i < 17" for i
    using byte [of i] byte [of "i + 1"] byte [of "i + 2"] byte [of "i + 3"] that
    unfolding field_u32_def s(1) P load_u32_def by (simp add: add.assoc)
  have "inet_chksum P 20 b = 0"
    by (simp add: inet_chksum_def LWIP_CHKSUM_def head) (simp add: input_sample_def lwip_standard_chksum_norm norm_def)
  then have "header_ok 4102 (arp s)"
    by (simp add: header_ok_def u8 u16 s(1) len P) (simp add: input_sample_def lwip_ntohs_def lwip_htons_def)
  moreover have "source_ok 1 4102 (arp s)"
    by (simp add: source_ok_def u32) (simp add: s(2) input_sample_def load_u32_def ip4_addr_isbroadcast_def ip_addr_ismulticast_def arp_sample_def lwip_htonl_def)
  moreover have "addressed_to_us 1 [1] 4102 (arp s)"
    by (simp add: addressed_to_us_def u32) (simp add: s(2) input_sample_def load_u32_def netif_accepts_def netif_is_up_def arp_sample_def)
  moreover have "\<not> is_fragment 4102 (arp s)"
    by (simp add: is_fragment_def u16) (simp add: input_sample_def)
  moreover have "lwip_ntohs (field_u16 4102 2 (arp s)) = 22"
    by (simp add: u16) (simp add: input_sample_def lwip_ntohs_def lwip_htons_def)
  moreover have "interfaces (arp s) [1]" unfolding s(2) by (rule sample_interfaces)
  ultimately obtain qs b' s' where "packet b' 4102 qs" "content b' qs = take 22 (content b [4102])"
    "ip_input (\<lambda>_ _. ERR_OK) (\<lambda>_ _ s. Inr (True, s)) (\<lambda>_ _. Inr) (\<lambda>_ _. Inr) 4102 1 s =
     ip_deliver (\<lambda>_ _. ERR_OK) (\<lambda>_ _ s. Inr (True, s)) (\<lambda>_ _. Inr) (\<lambda>_ _. Inr) 4102 (payload (pbufs b' 4102)) 1 s'"
    using ip_input_correct [of sample_slots s 4102 "[4102]" "[1]" 1 "\<lambda>_ _. ERR_OK" "\<lambda>_ _ s. Inr (True, s)" "\<lambda>_ _. Inr" "\<lambda>_ _. Inr", unfolded s(1), OF b(1-3)]
    by auto
  then show ?thesis using b(4) by (intro exI [of _ s] exI [of _ qs] exI [of _ b'] exI [of _ s']) simp
qed

text \<open>An echo request that is all zero.\<close>

definition echo_sample :: pb_state where
  "echo_sample = sample\<lparr>pbufs := (\<lambda>_. \<lparr>pnext = 0, payload = 2044, tot_len = 8, plen = 8, ptype = PBUF_RAM, pflags = 0, ref = 1\<rparr>),
     bytes := (\<lambda>a. if a = 2044 then 8 else if a = 2046 then 0xf7 else if a = 2047 then 0xff else 0)\<rparr>"

theorem echo_answer_correct_witness:
  "inet_chksum_pbuf 2000 (pb (echo_answer 2000 2024 (reass_sample echo_sample))) = Inr 65535"
proof -
  have p: "packet echo_sample 2000 [2000]" by (simp add: packet_def echo_sample_def pbuf_data_def chain_def)
  have c: "content echo_sample [2000] = [ICMP_ECHO, 0] @ host_bytes16 0xfff7 @ [0, 0, 0, 0]"
    by (simp add: echo_sample_def pbuf_data_def read_bytes_def upt_rec host_bytes16_def)
  have "inet_chksum_pbuf 2000 echo_sample = Inr 0"
    unfolding pbuf_chksum [OF p] c by (simp add: host_bytes16_def norm_def)
  then show ?thesis
    using echo_answer_correct [OF _ refl p _ _ _ c, of "reass_sample echo_sample" 2024]
    by (simp add: arp_sample_netif echo_sample_def dest_apart_def)
qed

end
