(* ===== verification/Udp_Life.thy ===== *)
theory Udp_Life
  imports Udp Ip_Life
begin

text \<open>
  What UDP does: automatic ports are free, no two PCBs are bound to the same address and port
  unless one of them allows it, a datagram reaches the PCB that fits best, and a datagram
  that is sent passes the receiver's check.
\<close>

section \<open>Automatic ports\<close>

definition pcbs :: "'a udp_like \<Rightarrow> nat list \<Rightarrow> bool" where
  "pcbs s ps \<longleftrightarrow> linked (\<lambda>p. unext (upcb s p)) (udp_pcbs s) ps \<and> length ps < PCB_MAX"

definition ports :: "'a udp_like \<Rightarrow> nat list \<Rightarrow> u16 set" where
  "ports s ps = (\<lambda>p. local_port (upcb s p)) ` set ps"

definition next_port :: "u16 \<Rightarrow> u16" where
  "next_port c = (if c = UDP_LOCAL_PORT_RANGE_END then UDP_LOCAL_PORT_RANGE_START else c + 1)"

lemma port_taken_spec:
  "linked (\<lambda>p. unext (U p)) p ps \<Longrightarrow> length ps < fuel \<Longrightarrow> port_taken fuel p port U = Inr (port \<in> (\<lambda>p. local_port (U p)) ` set ps)"
proof (induction ps arbitrary: p fuel)
  case Nil
  then show ?case by (cases fuel) auto
next
  case (Cons q ps)
  then show ?case by (cases fuel) auto
qed

lemma next_port_unat:
  assumes "0xc000 \<le> unat c"
  shows "unat (next_port c) = 0xc000 + (unat c - 0xc000 + 1) mod 0x4000"
proof (cases "c = 0xffff")
  case False
  then have "unat c \<noteq> unat (0xffff :: u16)" by (simp add: word_unat_eq_iff)
  then have lt: "unat c < 0xffff" using unat_less_65536 [of c] by simp
  then have "unat (c + 1) = unat c + 1" by (simp add: unat_word_ariths)
  then show ?thesis using False assms lt by (simp add: next_port_def)
qed (simp add: next_port_def)

lemma next_ports_unat:
  assumes "0xc000 \<le> unat c"
  shows "unat ((next_port ^^ k) c) = 0xc000 + (unat c - 0xc000 + k) mod 0x4000"
proof (induction k)
  case 0
  then show ?case using assms unat_less_65536 [of c] by simp
next
  case (Suc k)
  have "unat ((next_port ^^ Suc k) c) = 0xc000 + ((unat c - 0xc000 + k) mod 0x4000 + 1) mod 0x4000"
    using next_port_unat [of "(next_port ^^ k) c"] Suc.IH by simp
  then show ?case by (simp add: mod_Suc_eq)
qed

lemma shift_mod_inj:
  fixes i j :: nat
  assumes "(k + i) mod m = (k + j) mod m" "i < m" "j < m"
  shows "i = j"
proof -
  have le: "a = b" if "(k + a) mod m = (k + b) mod m" "b < m" "a \<le> b" for a b
  proof (rule ccontr)
    assume "a \<noteq> b"
    then have "0 < b - a" "m dvd b - a" using that mod_eq_dvd_iff_nat [of "k + a" "k + b" m] by auto
    then show False using that(2) by (auto dest: dvd_imp_le)
  qed
  show ?thesis using le [of i j] le [of j i] assms by (cases "i \<le> j") auto
qed

text \<open>Among more ports in a row than are taken, one is free.\<close>

lemma some_port_free:
  assumes "0xc000 \<le> unat c" "finite T" "card T < 0x4000"
  obtains m where "m \<le> card T" "(next_port ^^ Suc m) c \<notin> T" "\<forall>j < m. (next_port ^^ Suc j) c \<in> T"
proof -
  define f where "f j = (next_port ^^ Suc j) c" for j
  have inj: "inj_on f {..card T}"
  proof (rule inj_onI)
    fix i j assume ij: "i \<in> {..card T}" "j \<in> {..card T}" "f i = f j"
    then have "(unat c - 0xc000 + 1 + i) mod 0x4000 = (unat c - 0xc000 + 1 + j) mod 0x4000"
      using arg_cong [OF ij(3), of unat] unfolding f_def next_ports_unat [OF assms(1)] by simp
    then show "i = j" by (rule shift_mod_inj) (use ij(1,2) assms(3) in auto)
  qed
  have "\<not> f ` {..card T} \<subseteq> T"
    using card_image [OF inj] card_mono [OF assms(2), of "f ` {..card T}"] by auto
  then have ex: "\<exists>m. m \<le> card T \<and> f m \<notin> T" by auto
  define m where "m = (LEAST m. m \<le> card T \<and> f m \<notin> T)"
  have m: "m \<le> card T \<and> f m \<notin> T" unfolding m_def by (rule LeastI_ex [OF ex])
  moreover have "f j \<in> T" if "j < m" for j using not_less_Least [OF that [unfolded m_def]] that m by auto
  ultimately show thesis using that [of m] by (simp add: f_def)
qed

lemma new_port_loop_spec:
  assumes ps: "linked (\<lambda>p. unext (upcb s p)) (udp_pcbs s) ps" "length ps < PCB_MAX"
    and "(next_port ^^ Suc m) (udp_port s) \<notin> ports s ps" "\<forall>j < m. (next_port ^^ Suc j) (udp_port s) \<in> ports s ps"
    and "m < fuel" "n + m \<le> 0x3fff"
  shows "new_port_loop fuel n s = Inr ((next_port ^^ Suc m) (udp_port s), s\<lparr>udp_port := (next_port ^^ Suc m) (udp_port s)\<rparr>)"
  using assms
proof (induction m arbitrary: s n fuel)
  case 0
  then obtain f where f: "fuel = Suc f" by (cases fuel) auto
  have "port_taken PCB_MAX (udp_pcbs s) (next_port (udp_port s)) (upcb s) = Inr False"
    using port_taken_spec [OF 0(1,2), of "next_port (udp_port s)"] 0(3) by (simp add: ports_def)
  then show ?case by (simp add: f next_port_def [symmetric] Let_def)
next
  case (Suc m)
  then obtain f where f: "fuel = Suc f" by (cases fuel) auto
  define s1 where "s1 = s\<lparr>udp_port := next_port (udp_port s)\<rparr>"
  have s1: "upcb s1 = upcb s" "udp_pcbs s1 = udp_pcbs s" "udp_port s1 = next_port (udp_port s)" "ports s1 ps = ports s ps"
    by (simp_all add: s1_def ports_def)
  have sh: "(next_port ^^ Suc j) (udp_port s1) = (next_port ^^ Suc (Suc j)) (udp_port s)" for j
    by (simp add: s1 funpow_swap1)
  have "port_taken PCB_MAX (udp_pcbs s) (next_port (udp_port s)) (upcb s) = Inr True"
    using port_taken_spec [OF Suc.prems(1,2), of "next_port (udp_port s)"] Suc.prems(4) by (auto simp: ports_def)
  then have "new_port_loop fuel n s = new_port_loop f (n + 1) s1"
    using Suc.prems(6) by (simp add: f next_port_def [symmetric] s1_def Let_def)
  also have "\<dots> = Inr ((next_port ^^ Suc m) (udp_port s1), s1\<lparr>udp_port := (next_port ^^ Suc m) (udp_port s1)\<rparr>)"
  proof (rule Suc.IH)
    show "(next_port ^^ Suc m) (udp_port s1) \<notin> ports s1 ps" unfolding sh s1(4) by (rule Suc.prems(3))
    show "\<forall>j < m. (next_port ^^ Suc j) (udp_port s1) \<in> ports s1 ps" unfolding sh s1(4) using Suc.prems(4) by blast
  qed (use Suc.prems(1,2,5,6) in \<open>simp_all add: s1(1,2) f\<close>)
  finally show ?case unfolding sh by (simp add: s1_def)
qed

lemma udp_new_port_spec:
  assumes "pcbs s ps" "0xc000 \<le> unat (udp_port s)"
  shows "\<exists>port. udp_new_port s = Inr (port, s\<lparr>udp_port := port\<rparr>) \<and> port \<notin> ports s ps \<and> 0xc000 \<le> unat port"
proof -
  have ps: "linked (\<lambda>p. unext (upcb s p)) (udp_pcbs s) ps" "length ps < PCB_MAX" using assms(1) by (auto simp: pcbs_def)
  have T: "finite (ports s ps)" "card (ports s ps) \<le> length ps"
    using card_image_le [of "set ps" "\<lambda>p. local_port (upcb s p)"] card_length [of ps] by (auto simp: ports_def)
  then obtain m where m: "m \<le> card (ports s ps)" "(next_port ^^ Suc m) (udp_port s) \<notin> ports s ps"
    "\<forall>j < m. (next_port ^^ Suc j) (udp_port s) \<in> ports s ps"
    using some_port_free [OF assms(2), of "ports s ps"] ps(2) by auto
  have "0xc000 \<le> unat ((next_port ^^ Suc m) (udp_port s))" unfolding next_ports_unat [OF assms(2)] by simp
  moreover have "udp_new_port s = Inr ((next_port ^^ Suc m) (udp_port s), s\<lparr>udp_port := (next_port ^^ Suc m) (udp_port s)\<rparr>)"
    unfolding udp_new_port_def by (rule new_port_loop_spec [OF ps m(2,3)]) (use m(1) T(2) ps(2) in auto)
  ultimately show ?thesis using m(2) by blast
qed

section \<open>Binding\<close>

text \<open>Two PCBs that must not be bound to \<open>ip\<close> and \<open>port\<close> and to what \<open>u\<close> is bound to at the same time.\<close>

definition clashes :: "udp_pcb \<Rightarrow> u32 \<Rightarrow> u16 \<Rightarrow> udp_pcb \<Rightarrow> bool" where
  "clashes w ip port u \<longleftrightarrow> \<not> reuseaddr w \<and> \<not> reuseaddr u \<and> local_port u = port \<and>
     (local_ip u = IPADDR_ANY \<or> ip = IPADDR_ANY \<or> local_ip u = ip)"

definition exclusive :: "'a udp_like \<Rightarrow> nat list \<Rightarrow> bool" where
  "exclusive s ps \<longleftrightarrow> (\<forall>p \<in> set ps. \<forall>q \<in> set ps. p \<noteq> q \<longrightarrow> \<not> clashes (upcb s p) (local_ip (upcb s p)) (local_port (upcb s p)) (upcb s q))"

lemma bind_scan_spec:
  assumes "linked (\<lambda>p. unext (U p)) p ps" "length ps < fuel" "distinct ps" "rebind \<longrightarrow> pcb \<notin> set ps"
  shows "bind_scan fuel p pcb rebind ip port U =
    Inr (if \<exists>q \<in> set ps. q \<noteq> pcb \<and> clashes (U pcb) ip port (U q) then Inl ERR_USE else Inr (rebind \<or> pcb \<in> set ps))"
  using assms
proof (induction ps arbitrary: p fuel rebind)
  case Nil
  then show ?case by (cases fuel) auto
next
  case (Cons q ps)
  obtain f where f: "fuel = Suc f" using Cons.prems(2) by (cases fuel) auto
  have q: "p = q" "q \<noteq> 0" "linked (\<lambda>p. unext (U p)) (unext (U q)) ps" "length ps < f" "distinct ps" "q \<notin> set ps"
    using Cons.prems f by auto
  show ?case
  proof (cases "q = pcb")
    case True
    then have "\<not> rebind" using Cons.prems(4) by auto
    then show ?thesis using Cons.IH [OF q(3,4,5), of True] q True by (simp add: f)
  next
    case False
    then show ?thesis
      using Cons.IH [OF q(3,4,5), of rebind] Cons.prems(4) q by (auto simp: f clashes_def)
  qed
qed

text \<open>The PCB once it is bound; it is put in front of the list unless it is there already.\<close>

definition bound :: "nat \<Rightarrow> u32 \<Rightarrow> u16 \<Rightarrow> nat list \<Rightarrow> 'a udp_like \<Rightarrow> 'a udp_like" where
  "bound pcb ip port ps s =
     (let s = set_upcb pcb (\<lambda>u. u\<lparr>local_ip := ip, local_port := port\<rparr>) s
      in if pcb \<in> set ps then s else (set_upcb pcb (\<lambda>u. u\<lparr>unext := udp_pcbs s\<rparr>) s)\<lparr>udp_pcbs := pcb\<rparr>)"

lemma bound_fields:
  "local_ip (upcb (bound pcb ip port ps s) q) = (if q = pcb then ip else local_ip (upcb s q))"
  "local_port (upcb (bound pcb ip port ps s) q) = (if q = pcb then port else local_port (upcb s q))"
  "reuseaddr (upcb (bound pcb ip port ps s) q) = reuseaddr (upcb s q)"
  by (simp_all add: bound_def Let_def set_upcb_def reuseaddr_def)

lemma bound_list:
  assumes "pcbs s ps" "pcb \<noteq> 0" "length ps + 1 < PCB_MAX"
  shows "pcbs (bound pcb ip port ps s) (if pcb \<in> set ps then ps else pcb # ps)"
proof (cases "pcb \<in> set ps")
  case True
  then have "unext (upcb (bound pcb ip port ps s) q) = unext (upcb s q)" for q by (simp add: bound_def Let_def set_upcb_def)
  moreover have "udp_pcbs (bound pcb ip port ps s) = udp_pcbs s" using True by (simp add: bound_def Let_def set_upcb_def)
  ultimately show ?thesis using True assms(1) by (simp add: pcbs_def)
next
  case False
  have "linked (\<lambda>p. unext (if p = pcb then u else upcb s p)) (udp_pcbs s) ps" for u
    using assms(1) False by (subst linked_cong [of ps _ "\<lambda>p. unext (upcb s p)"]) (auto simp: pcbs_def)
  then show ?thesis using assms False by (simp add: pcbs_def bound_def Let_def set_upcb_def)
qed

lemma bound_exclusive:
  assumes "exclusive s ps" "\<forall>q \<in> set ps. q \<noteq> pcb \<longrightarrow> \<not> clashes (upcb s pcb) ip port (upcb s q)"
  shows "exclusive (bound pcb ip port ps s) (if pcb \<in> set ps then ps else pcb # ps)"
  using assms unfolding exclusive_def by (auto simp: clashes_def bound_fields)

text \<open>
  Binding a PCB fails if and only if another PCB is bound to the port and to the same or to any address
  and neither of the two has \<^verbatim>\<open>SO_REUSEADDR\<close> set; then nothing changes. Otherwise the PCB is bound, to the given port or, for
  port 0, to one of the automatic range that no PCB uses; it is in the list afterwards, and the
  rule that bindings are exclusive is kept.
\<close>

theorem udp_bind_correct:
  assumes ps: "pcbs s ps" "length ps + 1 < PCB_MAX" "pcb \<noteq> 0" and range: "0xc000 \<le> unat (udp_port s)"
    and ex: "exclusive s ps"
  shows "if \<exists>q \<in> set ps. q \<noteq> pcb \<and> clashes (upcb s pcb) (addr_or_any addr) port (upcb s q)
    then udp_bind pcb addr port s = Inr (ERR_USE, s)
    else \<exists>port' last s'. udp_bind pcb addr port s = Inr (ERR_OK, s') \<and> s' = bound pcb (addr_or_any addr) port' ps (s\<lparr>udp_port := last\<rparr>) \<and>
      (if port = 0 then port' \<notin> ports s ps \<and> 0xc000 \<le> unat port' else port' = port \<and> last = udp_port s) \<and>
      pcbs s' (if pcb \<in> set ps then ps else pcb # ps) \<and> exclusive s' (if pcb \<in> set ps then ps else pcb # ps)"
proof -
  let ?ip = "addr_or_any addr" and ?clash = "\<exists>q \<in> set ps. q \<noteq> pcb \<and> clashes (upcb s pcb) (addr_or_any addr) port (upcb s q)"
  have l: "linked (\<lambda>p. unext (upcb s p)) (udp_pcbs s) ps" "length ps < PCB_MAX" using ps(1) by (auto simp: pcbs_def)
  have scan: "bind_scan PCB_MAX (udp_pcbs s) pcb False ?ip port (upcb s) = Inr (if ?clash then Inl ERR_USE else Inr (pcb \<in> set ps))"
    using bind_scan_spec [OF l linked_distinct [OF l(1)], of False pcb ?ip port] by simp
  show ?thesis
  proof (cases ?clash)
    case True
    show ?thesis unfolding udp_bind_def scan if_P [OF True] by simp
  next
    case False
    define s1 where "s1 = set_upcb pcb (\<lambda>u. u\<lparr>local_ip := ?ip\<rparr>) s"
    have run: "udp_bind pcb addr port s =
        rbind (if port = 0 then udp_new_port s1 else Inr (port, s1)) (\<lambda>(port, s). if port = 0 then Inr (ERR_USE, s)
          else let s = set_upcb pcb (\<lambda>u. u\<lparr>local_port := port\<rparr>) s in
            Inr (ERR_OK, if pcb \<in> set ps then s else (set_upcb pcb (\<lambda>u. u\<lparr>unext := udp_pcbs s\<rparr>) s)\<lparr>udp_pcbs := pcb\<rparr>))"
      unfolding udp_bind_def scan if_not_P [OF False] s1_def by simp
    have finish: "(let s' = set_upcb pcb (\<lambda>u. u\<lparr>local_port := k\<rparr>) (s1\<lparr>udp_port := m\<rparr>) in
        if pcb \<in> set ps then s' else (set_upcb pcb (\<lambda>u. u\<lparr>unext := udp_pcbs s'\<rparr>) s')\<lparr>udp_pcbs := pcb\<rparr>) =
      bound pcb ?ip k ps (s\<lparr>udp_port := m\<rparr>)" for k m
      by (simp add: bound_def s1_def set_upcb_def Let_def)
    have s1: "pcbs s1 ps" "udp_port s1 = udp_port s" "ports s1 ps = ports s ps"
    proof -
      have "unext (upcb s1 q) = unext (upcb s q)" "local_port (upcb s1 q) = local_port (upcb s q)" for q
        by (simp_all add: s1_def set_upcb_def)
      then show "pcbs s1 ps" "ports s1 ps = ports s ps" using ps(1) by (simp_all add: pcbs_def ports_def s1_def set_upcb_def)
      show "udp_port s1 = udp_port s" by (simp add: s1_def set_upcb_def)
    qed
    obtain k m where k: "udp_bind pcb addr port s = Inr (ERR_OK, bound pcb ?ip k ps (s\<lparr>udp_port := m\<rparr>))"
      "if port = 0 then k \<notin> ports s ps \<and> 0xc000 \<le> unat k else k = port \<and> m = udp_port s"
    proof (cases "port = 0")
      case True
      obtain k where k: "udp_new_port s1 = Inr (k, s1\<lparr>udp_port := k\<rparr>)" "k \<notin> ports s ps" "0xc000 \<le> unat k"
        using udp_new_port_spec [OF s1(1)] range unfolding s1(2,3) by blast
      then have "k \<noteq> 0" by auto
      then show thesis
        using that [of k k] k True finish [of k k] unfolding run by (simp add: Let_def)
    next
      case p: False
      have "s1\<lparr>udp_port := udp_port s\<rparr> = s1" by (simp add: s1_def set_upcb_def)
      then show thesis
        using that [of port "udp_port s"] p finish [of port "udp_port s"] unfolding run by (simp add: Let_def)
    qed
    have free: "\<forall>q \<in> set ps. q \<noteq> pcb \<longrightarrow> \<not> clashes (upcb s pcb) ?ip k (upcb s q)"
      using k(2) False by (auto simp: clashes_def ports_def split: if_splits)
    have list: "pcbs (bound pcb ?ip k ps (s\<lparr>udp_port := m\<rparr>)) (if pcb \<in> set ps then ps else pcb # ps)"
      by (rule bound_list) (use ps in \<open>simp_all add: pcbs_def\<close>)
    have keep: "exclusive (bound pcb ?ip k ps (s\<lparr>udp_port := m\<rparr>)) (if pcb \<in> set ps then ps else pcb # ps)"
      by (rule bound_exclusive) (use ex free in \<open>simp_all add: exclusive_def\<close>)
    show ?thesis
      unfolding if_not_P [OF False]
      by (intro exI [of _ k] exI [of _ m] exI [of _ "bound pcb ?ip k ps (s\<lparr>udp_port := m\<rparr>)"] conjI k(1) refl k(2) list keep)
  qed
qed

section \<open>Demultiplexing\<close>

definition first_or_0 :: "(nat \<Rightarrow> bool) \<Rightarrow> nat list \<Rightarrow> nat" where
  "first_or_0 P ps = (case filter P ps of [] \<Rightarrow> 0 | p # _ \<Rightarrow> p)"

lemma first_or_0_simps [simp]:
  "first_or_0 P [] = 0"
  "first_or_0 P (p # ps) = (if P p then p else first_or_0 P ps)"
  by (simp_all add: first_or_0_def)

lemma first_or_0_none: "0 \<notin> set ps \<Longrightarrow> first_or_0 P ps = 0 \<longleftrightarrow> (\<forall>p \<in> set ps. \<not> P p)"
  by (induction ps) auto

lemma first_or_0_skip: "\<forall>p \<in> set xs. \<not> P p \<Longrightarrow> first_or_0 P (xs @ ps) = first_or_0 P ps"
  by (induction xs) auto

lemma udp_find_none:
  assumes "linked (\<lambda>p. unext (U p)) p ps" "length ps < fuel" "\<forall>q \<in> set ps. \<not> (loc (U q) \<and> rem (U q))"
  shows "\<exists>prev'. udp_find fuel p prev uncon loc rem U =
    Inr (0, prev', if uncon = 0 then first_or_0 (\<lambda>q. loc (U q) \<and> uflags (U q) AND UDP_FLAGS_CONNECTED = 0) ps else uncon)"
  using assms
proof (induction ps arbitrary: p fuel prev uncon)
  case Nil
  then show ?case by (cases fuel) auto
next
  case (Cons q ps)
  obtain f where f: "fuel = Suc f" using Cons.prems(2) by (cases fuel) auto
  have q: "p = q" "q \<noteq> 0" "linked (\<lambda>p. unext (U p)) (unext (U q)) ps" "length ps < f"
    "\<forall>q \<in> set ps. \<not> (loc (U q) \<and> rem (U q))" "\<not> (loc (U q) \<and> rem (U q))"
    using Cons.prems f by auto
  show ?case using Cons.IH [OF q(3,4,5), of q "if loc (U q) \<and> uncon = 0 \<and> uflags (U q) AND UDP_FLAGS_CONNECTED = 0 then q else uncon"] q
    by (auto simp: f Let_def split: if_splits)
qed

lemma udp_find_some:
  assumes "linked (\<lambda>p. unext (U p)) p (xs @ r # ys)" "length xs < fuel" "\<forall>q \<in> set xs. \<not> (loc (U q) \<and> rem (U q))" "loc (U r) \<and> rem (U r)"
  shows "\<exists>uncon'. udp_find fuel p prev uncon loc rem U = Inr (r, last (prev # xs), uncon')"
  using assms
proof (induction xs arbitrary: p fuel prev uncon)
  case Nil
  then show ?case by (cases fuel) (auto simp: Let_def)
next
  case (Cons q xs)
  obtain f where f: "fuel = Suc f" using Cons.prems(2) by (cases fuel) auto
  have q: "p = q" "q \<noteq> 0" "linked (\<lambda>p. unext (U p)) (unext (U q)) (xs @ r # ys)" "length xs < f"
    "\<forall>q \<in> set xs. \<not> (loc (U q) \<and> rem (U q))" "\<not> (loc (U q) \<and> rem (U q))"
    using Cons.prems f by auto
  show ?case using Cons.IH [OF q(3,4,5) Cons.prems(4), of q "if loc (U q) \<and> uncon = 0 \<and> uflags (U q) AND UDP_FLAGS_CONNECTED = 0 then q else uncon"] q
    by (auto simp: f Let_def)
qed

text \<open>Moving an element to the front of a list, by its predecessor.\<close>

lemma linked_front:
  assumes "linked nx p (xs @ r # ys)" "xs \<noteq> []"
  shows "linked (nx(last xs := nx r, r := p)) r (r # xs @ ys)"
proof -
  have d: "distinct (xs @ r # ys)" by (rule linked_distinct [OF assms(1)])
  have "linked (nx(last xs := nx r)) p (xs @ ys)" using assms d
  proof (induction xs arbitrary: p)
    case (Cons x xs)
    show ?case
    proof (cases "xs = []")
      case True
      then show ?thesis using Cons.prems by (auto simp: fun_upd_same simp del: fun_upd_apply)
    next
      case False
      then have "x \<noteq> last xs" using Cons.prems(3) by auto
      then show ?thesis using Cons.IH [of "nx x"] Cons.prems False by auto
    qed
  qed simp
  then have "linked ((nx(last xs := nx r))(r := p)) p (xs @ ys)" using d by (subst linked_update) auto
  moreover have "r \<noteq> 0" using linked_nonzero [OF assms(1)] by auto
  ultimately show ?thesis by simp
qed

text \<open>Is the PCB bound to the destination of the datagram \<open>s\<close> is at, and is it also open to its source?\<close>

definition bound_to_dest :: "bool \<Rightarrow> u16 \<Rightarrow> nat \<Rightarrow> 'a udp_like \<Rightarrow> nat \<Rightarrow> bool" where
  "bound_to_dest bc dport inp s q = local_match bc (current_dest s) dport (netmask (ifs (arp s) inp)) (upcb s q)"

definition best_match :: "bool \<Rightarrow> u16 \<Rightarrow> u16 \<Rightarrow> nat \<Rightarrow> 'a udp_like \<Rightarrow> nat \<Rightarrow> bool" where
  "best_match bc sport dport inp s q \<longleftrightarrow> bound_to_dest bc dport inp s q \<and> remote_match (current_src s) sport (upcb s q)"

definition fall_back :: "bool \<Rightarrow> u16 \<Rightarrow> nat \<Rightarrow> 'a udp_like \<Rightarrow> nat \<Rightarrow> bool" where
  "fall_back bc dport inp s q \<longleftrightarrow> bound_to_dest bc dport inp s q \<and> uflags (upcb s q) AND UDP_FLAGS_CONNECTED = 0"

text \<open>
  C11. A datagram goes to the first PCB in the list that is bound to its destination and open to its
  source; if there is none, to the first one bound to the destination that is not connected. In the
  first case the PCB moves to the front of the list, whose other members stay in order; in the second
  the list is as before. Nothing but the links of the list is changed.
\<close>

theorem udp_demux_correct:
  assumes ps: "pcbs s ps"
  shows "\<exists>U h. let full = first_or_0 (best_match bc sport dport inp s) ps; s' = s\<lparr>upcb := U, udp_pcbs := h\<rparr> in
    udp_demux bc sport dport inp s = Inr (if full = 0 then first_or_0 (fall_back bc dport inp s) ps else full, s') \<and>
    pcbs s' (if full = 0 then ps else full # remove1 full ps) \<and> (\<forall>q. (U q)\<lparr>unext := unext (upcb s q)\<rparr> = upcb s q)"
proof -
  define full where "full = first_or_0 (best_match bc sport dport inp s) ps"
  note defs = best_match_def fall_back_def bound_to_dest_def
  have fb: "fall_back bc dport inp s = (\<lambda>q. local_match bc (current_dest s) dport (netmask (ifs (arp s) inp)) (upcb s q) \<and>
      uflags (upcb s q) AND UDP_FLAGS_CONNECTED = 0)"
    by (rule ext) (simp add: defs)
  let ?loc = "local_match bc (current_dest s) dport (netmask (ifs (arp s) inp))" and ?rem = "remote_match (current_src s) sport"
  have l: "linked (\<lambda>p. unext (upcb s p)) (udp_pcbs s) ps" "length ps < PCB_MAX" using ps by (auto simp: pcbs_def)
  have nz: "0 \<notin> set ps" by (rule linked_nonzero [OF l(1)])
  have "\<exists>U h. let s' = s\<lparr>upcb := U, udp_pcbs := h\<rparr> in
    udp_demux bc sport dport inp s = Inr (if full = 0 then first_or_0 (fall_back bc dport inp s) ps else full, s') \<and>
    pcbs s' (if full = 0 then ps else full # remove1 full ps) \<and> (\<forall>q. (U q)\<lparr>unext := unext (upcb s q)\<rparr> = upcb s q)" (is ?goal)
  proof (cases "full = 0")
    case True
    then have "\<forall>q \<in> set ps. \<not> (?loc (upcb s q) \<and> ?rem (upcb s q))" using first_or_0_none [OF nz] by (simp add: full_def defs)
    then obtain pv where "udp_find PCB_MAX (udp_pcbs s) 0 0 ?loc ?rem (upcb s) =
        Inr (0, pv, first_or_0 (fall_back bc dport inp s) ps)"
      using udp_find_none [OF l, of ?loc ?rem 0 0] unfolding fb by auto
    then show ?goal using True ps
      by (intro exI [of _ "upcb s"] exI [of _ "udp_pcbs s"]) (simp add: udp_demux_def)
  next
    case False
    then have "\<exists>q \<in> set ps. ?loc (upcb s q) \<and> ?rem (upcb s q)" using first_or_0_none [OF nz] by (auto simp: full_def defs)
    from split_list_first_prop [OF this] obtain xs r ys where x: "ps = xs @ r # ys"
      "?loc (upcb s r) \<and> ?rem (upcb s r)" "\<forall>q \<in> set xs. \<not> (?loc (upcb s q) \<and> ?rem (upcb s q))" by blast
    have r: "full = r" using x(2,3) by (simp add: full_def x(1) first_or_0_skip defs)
    have d: "distinct ps" by (rule linked_distinct [OF l(1)])
    have rm: "remove1 r ps = xs @ ys" using d by (simp add: x(1) remove1_append)
    have lx: "length xs < PCB_MAX" using l(2) by (simp add: x(1))
    obtain un where f: "udp_find PCB_MAX (udp_pcbs s) 0 0 ?loc ?rem (upcb s) = Inr (r, last (0 # xs), un)"
      using udp_find_some [OF l(1) [unfolded x(1)] lx x(3,2), of 0 0] by blast
    show ?goal
    proof (cases "xs = []")
      case True
      show ?goal
        by (intro exI [of _ "upcb s"] exI [of _ "udp_pcbs s"]) (use f False r rm True x(1) ps in \<open>simp add: udp_demux_def\<close>)
    next
      case xs: False
      let ?U = "(upcb s)(last xs := (upcb s (last xs))\<lparr>unext := unext (upcb s r)\<rparr>, r := (upcb s r)\<lparr>unext := udp_pcbs s\<rparr>)"
      have ne: "last xs \<noteq> r" "last xs \<noteq> 0" using d nz last_in_set [OF xs] by (auto simp: x(1))
      have e: "(\<lambda>p. unext (?U p)) = (\<lambda>p. unext (upcb s p))(last xs := unext (upcb s r), r := udp_pcbs s)" by auto
      have "linked (\<lambda>p. unext (?U p)) r (r # xs @ ys)" unfolding e by (rule linked_front [OF l(1) [unfolded x(1)] xs])
      then have p: "pcbs (s\<lparr>upcb := ?U, udp_pcbs := r\<rparr>) (r # xs @ ys)" using l(2) by (simp add: pcbs_def x(1))
      have run: "udp_demux bc sport dport inp s = Inr (r, s\<lparr>upcb := ?U, udp_pcbs := r\<rparr>)"
        using ne xs False r by (simp add: udp_demux_def f set_upcb_def)
      show ?goal
        by (intro exI [of _ ?U] exI [of _ r]) (use False p run in \<open>simp add: Let_def r rm\<close>)
    qed
  qed
  then show ?thesis by (simp only: full_def Let_def)
qed

section \<open>The header of a datagram\<close>

definition udp_hdr :: "u16 \<Rightarrow> u16 \<Rightarrow> u16 \<Rightarrow> u16 \<Rightarrow> bytes" where
  "udp_hdr sport dport len chk = net_bytes16 sport @ net_bytes16 dport @ net_bytes16 len @ host_bytes16 chk"

lemma length_bytes16 [simp]: "length (net_bytes16 x) = 2" "length (host_bytes16 x) = 2"
  by (simp_all add: net_bytes16_def host_bytes16_def)

lemma udp_hdr_length [simp]: "length (udp_hdr sport dport len chk) = 8"
  by (simp add: udp_hdr_def net_bytes16_def host_bytes16_def)

lemma udp_hdr_splices:
  assumes "length xs = 8"
  shows "splice 4 (net_bytes16 len) (splice 6 [0, 0] (splice 2 (net_bytes16 dport) (splice 0 (net_bytes16 sport) xs))) = udp_hdr sport dport len 0"
proof -
  have "\<exists>a b c d e f g h. xs = [a, b, c, d, e, f, g, h]" using assms by (auto simp: length_Suc_conv eval_nat_numeral)
  then show ?thesis by (auto simp: splice_def udp_hdr_def net_bytes16_def host_bytes16_def eval_nat_numeral)
qed

lemma udp_header_stores:
  "store q 4 (net_bytes16 len) (store q 6 [0, 0] (store q 2 (net_bytes16 dport) (store q 0 (net_bytes16 sport) a))) =
   store q 0 (udp_hdr sport dport len 0) a"
proof -
  have f: "length (field q 0 8 a) = 8" by (simp add: field_def)
  have "store q 4 (net_bytes16 len) (store q 6 [0, 0] (store q 2 (net_bytes16 dport) (store q 0 (net_bytes16 sport) (store q 0 (field q 0 8 a) a)))) =
      store q 0 (udp_hdr sport dport len 0) a"
    by (simp add: store_splice f udp_hdr_splices [OF f])
  then show ?thesis unfolding store_field .
qed

lemma udp_header_chksum:
  "store q 6 (host_bytes16 chk) (store q 0 (udp_hdr sport dport len 0) a) = store q 0 (udp_hdr sport dport len chk) a"
  by (simp add: store_splice) (simp add: splice_def udp_hdr_def net_bytes16_def host_bytes16_def eval_nat_numeral)

text \<open>The datagram after its header has been written.\<close>

lemma store_content:
  assumes "packet b q ps" "b = pb a" "length h \<le> plen (pbufs b q)" "dest_apart b (tl ps) (payload (pbufs b q)) (length h)"
  shows "content (pb (store q 0 h a)) ps = h @ drop (length h) (content b ps)" "packet (pb (store q 0 h a)) q ps"
proof -
  obtain qs where ps: "ps = q # qs" using assms(1) by (cases ps) (auto simp: packet_def)
  have "content (pb (store q 0 h a)) qs = content b qs"
    by (rule content_cong) (use assms(2,4) in \<open>auto simp: ps store_def pbuf_data_def dest_apart_def intro!: read_write_apart\<close>)
  moreover have "pbuf_data (pb (store q 0 h a)) q = h @ drop (length h) (pbuf_data b q)"
    using assms(2,3) by (subst store_data) (simp_all add: splice_def)
  ultimately show "content (pb (store q 0 h a)) ps = h @ drop (length h) (content b ps)"
    using assms(2,3) by (simp add: ps)
  show "packet (pb (store q 0 h a)) q ps" using assms(1) by (subst same_pbufs_packet [of _ b]) (simp_all add: assms(2))
qed

lemma udp_chksum_verifies:
  assumes "even (length xs)" and n_def: "n = norm (evalb (xs @ [0, 0] @ ys))"
  shows "norm (evalb (xs @ host_bytes16 (word_of_nat (if 65535 - n = 0 then 0xffff else 65535 - n)) @ ys)) = 65535"
proof -
  define k where "k = (if 65535 - n = 0 then 0xffff else 65535 - n)"
  have n: "n \<le> 65535" unfolding n_def by (rule norm_le)
  have k: "unat (word_of_nat k :: u16) = k" by (simp add: unat_of_nat k_def)
  have "norm (evalb (xs @ host_bytes16 (word_of_nat k) @ ys)) = norm (n + k)"
    unfolding norm_field [OF assms(1)] n_def norm_add k ..
  also have "\<dots> = 65535"
  proof (cases "n = 65535")
    case True
    then show ?thesis by (simp add: k_def norm_def)
  next
    case False
    then show ?thesis using n by (simp add: k_def norm_id)
  qed
  finally show ?thesis unfolding k_def .
qed

text \<open>
  The header in front of a datagram holds the ports, the length of the datagram, and, if it is
  to be checked, a checksum that is not zero and for which the receiver's check over the datagram and the pseudo
  header succeeds. The data behind the header is not changed.
\<close>

theorem udp_header_correct:
  assumes q: "packet (pb a) q ps" "8 \<le> plen (pbufs (pb a) q)" "dest_apart (pb a) (tl ps) (payload (pbufs (pb a) q)) 8"
  shows "\<exists>chk. let len = word_of_nat (tot_len (pbufs (pb a) q)); h = udp_hdr sport dport len chk; a' = store q 0 h a in
    udp_header q sport dport src dst checked a = Inr a' \<and> content (pb a') ps = h @ drop 8 (content (pb a) ps) \<and>
    (if checked then chk \<noteq> 0 \<and> inet_chksum_pseudo q src dst IP_PROTO_UDP len (pb a') = Inr 0 else chk = 0)"
proof -
  define len where "len = (word_of_nat (tot_len (pbufs (pb a) q)) :: u16)"
  let ?h = "\<lambda>chk. udp_hdr sport dport len chk" and ?d = "drop 8 (content (pb a) ps)" and ?p = "pseudo_header src dst IP_PROTO_UDP len"
  have st: "content (pb (store q 0 (?h chk) a)) ps = ?h chk @ ?d" "packet (pb (store q 0 (?h chk) a)) q ps" for chk
    using store_content [OF q(1) refl, of "?h chk"] q(2,3) by simp_all
  define n where "n = norm (evalb (?p @ ?h 0 @ ?d))"
  have first: "inet_chksum_pseudo q src dst IP_PROTO_UDP len (pb (store q 0 (?h 0) a)) = Inr (65535 - n)"
    unfolding pseudo_chksum [OF st(2)] st(1) n_def ..
  define chk where "chk = (if checked then word_of_nat (if 65535 - n = 0 then 0xffff else 65535 - n) else 0 :: u16)"
  have run: "udp_header q sport dport src dst checked a = Inr (store q 0 (?h chk) a)"
    using first by (simp add: udp_header_def Let_def len_def [symmetric] udp_header_stores udp_header_chksum chk_def del: of_nat_diff)
  have "chk \<noteq> 0 \<and> inet_chksum_pseudo q src dst IP_PROTO_UDP len (pb (store q 0 (?h chk) a)) = Inr 0" if checked
  proof
    have k: "unat (word_of_nat (if 65535 - n = 0 then 0xffff else 65535 - n) :: u16) = (if 65535 - n = 0 then 0xffff else 65535 - n)"
      by (simp add: unat_of_nat)
    show "chk \<noteq> 0" using k that by (auto simp: chk_def split: if_splits)
    let ?x = "?p @ net_bytes16 sport @ net_bytes16 dport @ net_bytes16 len"
    have x: "?p @ ?h c @ ?d = ?x @ host_bytes16 c @ ?d" for c by (simp add: udp_hdr_def)
    have z: "host_bytes16 0 = [0, 0]" by (simp add: host_bytes16_def)
    have ev: "even (length ?x)" by (simp add: net_bytes16_def)
    have "norm (evalb (?p @ ?h chk @ ?d)) = 65535"
      using udp_chksum_verifies [OF ev refl, of ?d] that unfolding chk_def n_def x z by simp
    then show "inet_chksum_pseudo q src dst IP_PROTO_UDP len (pb (store q 0 (?h chk) a)) = Inr 0"
      unfolding pseudo_chksum [OF st(2)] st(1) by simp
  qed
  then show ?thesis
    unfolding len_def [symmetric]
    by (intro exI [of _ chk]) (use run st(1) in \<open>simp add: Let_def chk_def\<close>)
qed

section \<open>Instances\<close>

text \<open>Two PCBs: one is bound to port 7, the other to port 9 and connected to port 80 of 192.168.0.3.\<close>

definition udp_sample :: "pb_state \<Rightarrow> udp_state" where
  "udp_sample b = ip_state.extend ((reass_sample b)\<lparr>current_src := 0x0300a8c0, current_dest := 0x0200a8c0\<rparr>)
     (udp_state.fields 100 (\<lambda>p. \<lparr>local_ip = 0, remote_ip = (if p = 100 then 0 else 0x0300a8c0), so_options = 0, tos = 0, ttl = UDP_TTL,
        unext = (if p = 100 then 200 else 0), uflags = (if p = 100 then 0 else UDP_FLAGS_CONNECTED), local_port = (if p = 100 then 7 else 9),
        remote_port = (if p = 100 then 0 else 80), urecv = 0, urecv_arg = 0\<rparr>) 0xc000)"

lemma udp_sample_fields [simp]:
  "udp_pcbs (udp_sample b) = 100" "unext (upcb (udp_sample b) p) = (if p = 100 then 200 else 0)"
  "local_port (upcb (udp_sample b) p) = (if p = 100 then 7 else 9)" "local_ip (upcb (udp_sample b) p) = 0"
  "remote_port (upcb (udp_sample b) p) = (if p = 100 then 0 else 80)" "udp_port (udp_sample b) = 0xc000"
  "remote_ip (upcb (udp_sample b) p) = (if p = 100 then 0 else 0x0300a8c0)" "so_options (upcb (udp_sample b) p) = 0"
  "uflags (upcb (udp_sample b) p) = (if p = 100 then 0 else UDP_FLAGS_CONNECTED)"
  "current_src (udp_sample b) = 0x0300a8c0" "current_dest (udp_sample b) = 0x0200a8c0"
  by (simp_all add: udp_sample_def ip_state.defs udp_state.defs)

lemma udp_sample_pcbs: "pcbs (udp_sample b) [100, 200]"
  by (simp add: pcbs_def)

text \<open>Port 9 is taken; a third PCB cannot be bound to it.\<close>

theorem udp_bind_correct_witness: "udp_bind 300 None 9 (udp_sample sample) = Inr (ERR_USE, udp_sample sample)"
proof -
  have "exclusive (udp_sample sample) [100, 200]" by (simp add: exclusive_def clashes_def)
  moreover have "\<exists>q \<in> set [100, 200]. q \<noteq> 300 \<and> clashes (upcb (udp_sample sample) 300) (addr_or_any None) 9 (upcb (udp_sample sample) q)"
    by (simp add: clashes_def reuseaddr_def addr_or_any_def)
  ultimately show ?thesis using udp_bind_correct [OF udp_sample_pcbs [of sample], of 300 None 9] by simp
qed

text \<open>A datagram for port 9 from the connected peer; its PCB moves to the front.\<close>

theorem udp_demux_correct_witness:
  "\<exists>s'. udp_demux False 80 9 1 (udp_sample sample) = Inr (200, s') \<and> pcbs s' [200, 100]"
proof -
  have "first_or_0 (best_match False 80 9 1 (udp_sample sample)) [100, 200] = 200"
    by (simp add: best_match_def bound_to_dest_def local_match_def remote_match_def)
  then show ?thesis using udp_demux_correct [OF udp_sample_pcbs [of sample], of False 80 9 1] by (auto simp: Let_def)
qed

text \<open>A datagram of 8 bytes without data.\<close>

theorem udp_header_correct_witness:
  "\<exists>a'. udp_header 2000 9 80 0x0200a8c0 0x0300a8c0 True (arp_sample echo_sample) = Inr a' \<and>
    inet_chksum_pseudo 2000 0x0200a8c0 0x0300a8c0 IP_PROTO_UDP 8 (pb a') = Inr 0"
proof -
  have pb: "pb (arp_sample echo_sample) = echo_sample" by (simp add: arp_sample_def)
  have "packet echo_sample 2000 [2000]" by (simp add: packet_def echo_sample_def pbuf_data_def chain_def)
  then show ?thesis
    using udp_header_correct [of "arp_sample echo_sample" 2000 "[2000]" 9 80 "0x0200a8c0" "0x0300a8c0" True, unfolded pb]
    by (simp add: echo_sample_def dest_apart_def Let_def) blast
qed

end
