(* ===== verification/Tcp_Window.thy ===== *)
theory Tcp_Window
  imports Tcp_In Udp_Life
begin

text \<open>
  The arithmetic of TCP: comparing sequence numbers, the promise that the announced receive window makes, the
  congestion window, the retransmission timeout and the maximum segment size.
\<close>

section \<open>Sequence numbers\<close>

lemma sint_small:
  fixes a :: int
  assumes "- (2 ^ 31) \<le> a" "a < 2 ^ 31"
  shows "sint (word_of_int a :: u32) = a"
proof -
  have "sint (word_of_int a :: u32) = signed_take_bit 31 a" by (simp add: sint_uint uint_word_of_int_eq signed_take_bit_take_bit)
  then show ?thesis using assms signed_take_bit_int_eq_self [of 31 a] by simp
qed

lemma unat_of_int:
  "0 \<le> a \<Longrightarrow> a < 2 ^ 16 \<Longrightarrow> unat (word_of_int a :: u16) = nat a"
  "0 \<le> a \<Longrightarrow> a < 2 ^ 32 \<Longrightarrow> unat (word_of_int a :: u32) = nat a"
  by (simp_all add: unat_eq_nat_uint uint_word_of_int_eq take_bit_int_eq_self)

lemma sint_diff:
  fixes a b :: int
  assumes "\<bar>a - b\<bar> < 2 ^ 31"
  shows "sint (word_of_int a - word_of_int b :: u32) = a - b"
  using sint_small [of "a - b"] assms by simp

text \<open>
  The comparisons of sequence numbers agree with the order of the unbounded numbers they stand for, also across the
  wrap-around at 2^32, as long as the numbers are less than 2^31 apart.
\<close>

theorem seq_order_correct:
  assumes "\<bar>a - b\<bar> < 2 ^ 31" "\<bar>a - c\<bar> < 2 ^ 31"
  shows "(TCP_SEQ_LT (word_of_int a) (word_of_int b) \<longleftrightarrow> a < b) \<and> (TCP_SEQ_LEQ (word_of_int a) (word_of_int b) \<longleftrightarrow> a \<le> b) \<and>
    (TCP_SEQ_GT (word_of_int a) (word_of_int b) \<longleftrightarrow> a > b) \<and> (TCP_SEQ_GEQ (word_of_int a) (word_of_int b) \<longleftrightarrow> a \<ge> b) \<and>
    (TCP_SEQ_BETWEEN (word_of_int a) (word_of_int b) (word_of_int c) \<longleftrightarrow> b \<le> a \<and> a \<le> c)"
  using sint_diff [OF assms(1)] sint_diff [OF assms(2)]
  by (simp add: TCP_SEQ_LT_def TCP_SEQ_LEQ_def TCP_SEQ_GT_def TCP_SEQ_GEQ_def TCP_SEQ_BETWEEN_def)

lemma seq_order_witness:
  "TCP_SEQ_LT (word_of_int (2 ^ 32 - 3)) (word_of_int (2 ^ 32 + 5)) \<and>
   TCP_SEQ_BETWEEN (word_of_int (2 ^ 32 - 3)) (word_of_int (2 ^ 32 - 7)) (word_of_int (2 ^ 32 + 2))"
  using seq_order_correct [of "2 ^ 32 - 3" "2 ^ 32 + 5" "2 ^ 32"] seq_order_correct [of "2 ^ 32 - 3" "2 ^ 32 - 7" "2 ^ 32 + 2"]
  by simp

section \<open>The receive window\<close>

text \<open>The part of the window that has not been announced yet.\<close>

definition unannounced :: "tcp_pcb \<Rightarrow> int" where
  "unannounced u = sint (rcv_nxt u + ucast (rcv_wnd u) - rcv_ann_right_edge u)"

definition window_ok :: "tcp_pcb \<Rightarrow> bool" where
  "window_ok u \<longleftrightarrow> rcv_wnd u \<le> TCP_WND \<and> 0 \<le> unannounced u"

text \<open>The threshold below which a larger window is not worth announcing.\<close>

definition worth :: "tcp_pcb \<Rightarrow> int" where
  "worth u = uint (min (TCP_WND div 2) (mss u))"

text \<open>The window to announce: all of it, or what keeps the right edge where it is.\<close>

definition announced :: "tcp_pcb \<Rightarrow> int" where
  "announced u = (if worth u \<le> unannounced u then uint (rcv_wnd u) else max 0 (uint (rcv_wnd u) - unannounced u))"

text \<open>Every segment that is sent announces the window.\<close>

definition announce :: "tcp_pcb \<Rightarrow> tcp_pcb" where
  "announce u = u\<lparr>rcv_ann_right_edge := rcv_nxt u + ucast (rcv_ann_wnd u)\<rparr>"

lemma ucast_as_int: "(ucast (w :: u16) :: u32) = word_of_int (uint w)"
  by (rule ucast_eq)

lemma worth_bounds: "0 \<le> worth u" "worth u \<le> 2048"
proof -
  have "min (TCP_WND div 2) (mss u) \<le> 2048" using min.cobounded1 [of "2048 :: u16"] by simp
  then show "worth u \<le> 2048" by (simp add: worth_def word_le_def)
qed (simp add: worth_def)

lemma word_of_unannounced: "rcv_nxt u + ucast (rcv_wnd u) - rcv_ann_right_edge u = word_of_int (unannounced u)"
  by (simp add: unannounced_def)

lemma unannounced_range: "- (2 ^ 31) \<le> unannounced u" "unannounced u < 2 ^ 31"
  using sint_range_size [of "rcv_nxt u + ucast (rcv_wnd u) - rcv_ann_right_edge u"]
  by (simp_all add: unannounced_def word_size)

lemma wnd_bound: "window_ok u \<Longrightarrow> uint (rcv_wnd u) \<le> 4096"
  unfolding window_ok_def word_le_def by simp

lemma window_word:
  assumes "0 \<le> d" "d \<le> 4096"
  shows "(word_of_int d :: u32) \<le> 0xffff" "ucast (word_of_int d :: u32) = (word_of_int d :: u16)"
proof -
  show "(word_of_int d :: u32) \<le> 0xffff" using assms by (simp add: word_le_nat_alt unat_of_int)
  show "ucast (word_of_int d :: u32) = (word_of_int d :: u16)"
    by (rule word_unat_eq_iff [THEN iffD2]) (use assms in \<open>simp add: unat_of_int unsigned_ucast_eq take_bit_nat_eq_self\<close>)
qed

lemma rcv_ann_update_spec:
  assumes "window_ok u"
  shows "rcv_ann_update u = Inr (word_of_int (if worth u \<le> unannounced u then unannounced u else 0), u\<lparr>rcv_ann_wnd := word_of_int (announced u)\<rparr>)"
proof -
  let ?w = "uint (rcv_wnd u)" and ?x = "unannounced u"
  have x: "0 \<le> ?x" "?x < 2 ^ 31" and w: "0 \<le> ?w" "?w \<le> 4096"
    using assms unannounced_range [of u] wnd_bound [OF assms] by (auto simp: window_ok_def)
  have m: "ucast (min (TCP_WND div 2) (mss u)) = (word_of_int (worth u) :: u32)" unfolding worth_def by (rule ucast_as_int)
  have geq: "TCP_SEQ_GEQ (rcv_nxt u + ucast (rcv_wnd u)) (rcv_ann_right_edge u + ucast (min (TCP_WND div 2) (mss u))) \<longleftrightarrow> worth u \<le> ?x"
  proof -
    have "rcv_nxt u + ucast (rcv_wnd u) - (rcv_ann_right_edge u + ucast (min (TCP_WND div 2) (mss u))) = word_of_int (?x - worth u)"
      unfolding m diff_diff_eq [symmetric] word_of_unannounced by simp
    then show ?thesis unfolding TCP_SEQ_GEQ_def using sint_small [of "?x - worth u"] x worth_bounds [of u] by simp
  qed
  have edge: "rcv_ann_right_edge u - rcv_nxt u = word_of_int (?w - ?x)"
  proof -
    have "rcv_ann_right_edge u - rcv_nxt u = ucast (rcv_wnd u) - (rcv_nxt u + ucast (rcv_wnd u) - rcv_ann_right_edge u)" by simp
    also have "\<dots> = word_of_int ?w - word_of_int ?x" by (subst word_of_unannounced) (simp only: ucast_as_int)
    finally show ?thesis by simp
  qed
  have gt: "TCP_SEQ_GT (rcv_nxt u) (rcv_ann_right_edge u) \<longleftrightarrow> ?w < ?x"
  proof -
    have eq: "rcv_nxt u - rcv_ann_right_edge u = word_of_int (?x - ?w)" using arg_cong [OF edge, of uminus] by simp
    have "(2 :: int) ^ 31 = 2147483648" by simp
    then have "- (2 ^ 31) \<le> ?x - ?w" "?x - ?w < 2 ^ 31" using x w by linarith+
    then have "sint (word_of_int (?x - ?w) :: u32) = ?x - ?w" by (rule sint_small)
    then show ?thesis unfolding TCP_SEQ_GT_def eq by linarith
  qed
  consider (all) "worth u \<le> ?x" | (over) "\<not> worth u \<le> ?x" "?w < ?x" | (keep) "\<not> worth u \<le> ?x" "\<not> ?w < ?x" by blast
  then show ?thesis
  proof cases
    case all
    then show ?thesis unfolding rcv_ann_update_def Let_def geq by (simp add: announced_def word_of_unannounced)
  next
    case over
    then show ?thesis unfolding rcv_ann_update_def Let_def geq gt by (simp add: announced_def max_def)
  next
    case keep
    have a: "announced u = ?w - ?x" using keep by (simp add: announced_def max_def)
    have "0 \<le> ?w - ?x" "?w - ?x \<le> 4096" using keep x w by linarith+
    note small = window_word [OF this]
    show ?thesis
      unfolding rcv_ann_update_def Let_def geq gt edge a using keep small(1) by (simp only: small(2) if_False if_True not_True_eq_False) simp
  qed
qed

lemma announced_bounds:
  assumes "window_ok u"
  shows "0 \<le> announced u" "announced u \<le> uint (rcv_wnd u)" "uint (rcv_wnd u) - unannounced u \<le> announced u"
  using assms by (auto simp: announced_def window_ok_def)

lemma window_ok_cong:
  "rcv_nxt v = rcv_nxt u \<Longrightarrow> rcv_wnd v = rcv_wnd u \<Longrightarrow> rcv_ann_right_edge v = rcv_ann_right_edge u \<Longrightarrow> window_ok v = window_ok u"
  by (simp add: window_ok_def unannounced_def)

lemma receive_unannounced:
  assumes "len \<le> rcv_wnd u"
  shows "unannounced (u\<lparr>rcv_nxt := rcv_nxt u + ucast len, rcv_wnd := rcv_wnd u - len\<rparr>) = unannounced u"
proof -
  have "ucast (rcv_wnd u - len) = (ucast (rcv_wnd u) - ucast len :: u32)"
    unfolding ucast_as_int using assms by (simp add: uint_minus_simple_alt word_le_def uint_sub_lem)
  then show ?thesis by (simp add: unannounced_def)
qed

lemma received_window_ok:
  assumes "window_ok u" "len \<le> rcv_wnd u"
  shows "window_ok (u\<lparr>rcv_nxt := rcv_nxt u + ucast len, rcv_wnd := rcv_wnd u - len\<rparr>)"
proof -
  have "rcv_wnd u - len \<le> rcv_wnd u" using assms(2) by (simp add: word_sub_le)
  then have "rcv_wnd u - len \<le> TCP_WND" using assms(1) order_trans by (auto simp: window_ok_def)
  then show ?thesis using assms(1) receive_unannounced [OF assms(2)] by (simp add: window_ok_def)
qed

lemma advance_spec:
  assumes "window_ok (tpcb s pcb)" "len \<le> rcv_wnd (tpcb s pcb)"
  shows "\<exists>a. advance pcb (rcv_nxt (tpcb s pcb) + ucast len) len s = Inr (set_tpcb pcb (\<lambda>u. u\<lparr>rcv_nxt := rcv_nxt u + ucast len,
    rcv_wnd := rcv_wnd u - len, rcv_ann_wnd := a\<rparr>) s)"
  using assms rcv_ann_update_spec [OF received_window_ok [OF assms]] by (auto simp: advance_def tcp_update_rcv_ann_wnd_def set_tpcb_def)

text \<open>
  C7. The announced receive window keeps its promise. If at most the whole buffer is free and the right edge of the
  announced window is not beyond it, the update of the announced window does not fail, announces the whole window when
  that gains half the buffer or a segment, and otherwise exactly what keeps the right edge in place; the result is the gain. The
  segment that announces it never moves the right edge back, nor beyond the free buffer. Data that fits into the window is
  received without failing, leaves the end of the buffer where it is, and the condition holds again.
\<close>

theorem receive_window_correct:
  assumes ok: "window_ok (tpcb s pcb)" and len: "len \<le> rcv_wnd (tpcb s pcb)"
  shows "(\<exists>u'. tcp_update_rcv_ann_wnd pcb s = Inr (word_of_int (if worth (tpcb s pcb) \<le> unannounced (tpcb s pcb) then unannounced (tpcb s pcb) else 0),
        set_tpcb pcb (\<lambda>_. u') s) \<and> u' = (tpcb s pcb)\<lparr>rcv_ann_wnd := word_of_int (announced (tpcb s pcb))\<rparr> \<and>
        window_ok (announce u') \<and> unannounced (announce u') = uint (rcv_wnd u') - uint (rcv_ann_wnd u') \<and>
        unannounced (announce u') \<le> unannounced u') \<and>
    (\<exists>s'. advance pcb (rcv_nxt (tpcb s pcb) + ucast len) len s = Inr s' \<and> window_ok (tpcb s' pcb) \<and>
        rcv_nxt (tpcb s' pcb) + ucast (rcv_wnd (tpcb s' pcb)) = rcv_nxt (tpcb s pcb) + ucast (rcv_wnd (tpcb s pcb)))"
proof
  let ?u = "tpcb s pcb"
  define u' where "u' = ?u\<lparr>rcv_ann_wnd := word_of_int (announced ?u)\<rparr>"
  have a: "uint (rcv_ann_wnd u') = announced ?u"
    using announced_bounds [OF ok] uint_lt2p [of "rcv_wnd ?u"] by (simp add: u'_def uint_word_of_int_eq take_bit_int_eq_self)
  have w: "uint (rcv_wnd ?u) \<le> 4096" by (rule wnd_bound [OF ok])
  have un: "unannounced (announce u') = uint (rcv_wnd ?u) - announced ?u"
  proof -
    have "rcv_nxt ?u + ucast (rcv_wnd ?u) - (rcv_nxt ?u + ucast (rcv_ann_wnd u')) = word_of_int (uint (rcv_wnd ?u) - announced ?u)"
      unfolding ucast_as_int a by simp
    then show ?thesis using sint_small [of "uint (rcv_wnd ?u) - announced ?u"] announced_bounds [OF ok] w
      by (simp add: unannounced_def announce_def u'_def)
  qed
  have "tcp_update_rcv_ann_wnd pcb s = Inr (word_of_int (if worth ?u \<le> unannounced ?u then unannounced ?u else 0), set_tpcb pcb (\<lambda>_. u') s)"
    unfolding tcp_update_rcv_ann_wnd_def rcv_ann_update_spec [OF ok] u'_def by simp
  moreover have "window_ok (announce u')"
    using un announced_bounds [OF ok] ok by (simp add: window_ok_def) (simp add: announce_def u'_def)
  moreover have "unannounced (announce u') \<le> unannounced u'"
    using un announced_bounds [OF ok] by (simp add: u'_def unannounced_def)
  moreover have "unannounced (announce u') = uint (rcv_wnd u') - uint (rcv_ann_wnd u')"
    unfolding un a by (simp add: u'_def)
  ultimately show "\<exists>u'. tcp_update_rcv_ann_wnd pcb s = Inr (word_of_int (if worth ?u \<le> unannounced ?u then unannounced ?u else 0),
        set_tpcb pcb (\<lambda>_. u') s) \<and> u' = ?u\<lparr>rcv_ann_wnd := word_of_int (announced ?u)\<rparr> \<and>
        window_ok (announce u') \<and> unannounced (announce u') = uint (rcv_wnd u') - uint (rcv_ann_wnd u') \<and>
        unannounced (announce u') \<le> unannounced u'"
    using u'_def by blast
next
  let ?u = "tpcb s pcb"
  define v where "v = ?u\<lparr>rcv_nxt := rcv_nxt ?u + ucast len, rcv_wnd := rcv_wnd ?u - len\<rparr>"
  obtain a where a: "advance pcb (rcv_nxt ?u + ucast len) len s = Inr (set_tpcb pcb (\<lambda>_. v\<lparr>rcv_ann_wnd := a\<rparr>) s)"
    using advance_spec [OF ok len] by (auto simp: v_def set_tpcb_def)
  have "window_ok v" unfolding v_def by (rule received_window_ok [OF ok len])
  then have "window_ok (v\<lparr>rcv_ann_wnd := a\<rparr>)" by (simp cong: window_ok_cong)
  moreover have "rcv_nxt v + ucast (rcv_wnd v) = rcv_nxt ?u + ucast (rcv_wnd ?u)"
    using len unfolding v_def ucast_as_int by (simp add: uint_minus_simple_alt word_le_def uint_sub_lem)
  ultimately show "\<exists>s'. advance pcb (rcv_nxt ?u + ucast len) len s = Inr s' \<and> window_ok (tpcb s' pcb) \<and>
        rcv_nxt (tpcb s' pcb) + ucast (rcv_wnd (tpcb s' pcb)) = rcv_nxt ?u + ucast (rcv_wnd ?u)"
    unfolding a by (simp add: set_tpcb_def)
qed

text \<open>A state with given PCBs, segments and lists.\<close>

definition tcp_sample :: "pb_state \<Rightarrow> (nat \<Rightarrow> tcp_pcb) \<Rightarrow> (nat \<Rightarrow> tcp_seg) \<Rightarrow> (pcb_list \<Rightarrow> nat) \<Rightarrow> tcp_state" where
  "tcp_sample b U G L = dns_state.extend
     (raw_state.extend (udp_state.extend (udp_sample b) (raw_state.fields 0 (\<lambda>_. undefined)))
       (dns_state.fields 0 0 (\<lambda>_. undefined) (\<lambda>_. 0) 0 0 0 (\<lambda>_. undefined)))
     (tcp_state.fields U G L 0xc000 0 False 0 0 6510 (G 0) 0 0 0 0 0 0 0 undefined)"

lemma tcp_sample_fields [simp]:
  "tpcb (tcp_sample b U G L) = U" "segs (tcp_sample b U G L) = G" "pcb_lists (tcp_sample b U G L) = L"
  "tcp_timer_ctr (tcp_sample b U G L) = 0" "tcp_port (tcp_sample b U G L) = 0xc000"
  "arp (tcp_sample b U G L) = arp (udp_sample b)"
  "current_src (tcp_sample b U G L) = 0x0300a8c0" "current_dest (tcp_sample b U G L) = 0x0200a8c0"
  by (simp_all add: tcp_sample_def udp_sample_def ip_state.defs udp_state.defs raw_state.defs dns_state.defs tcp_state.defs)

theorem receive_window_witness:
  "\<exists>s'. advance 100 100 100 (tcp_sample sample (\<lambda>_. new_pcb 64 0 0 0) (\<lambda>_. undefined) (\<lambda>_. 0)) = Inr s' \<and> window_ok (tpcb s' 100)"
proof -
  let ?s = "tcp_sample sample (\<lambda>_. new_pcb 64 0 0 0) (\<lambda>_. undefined) (\<lambda>_. 0)"
  have "window_ok (tpcb ?s 100)" "100 \<le> rcv_wnd (tpcb ?s 100)" "rcv_nxt (tpcb ?s 100) = 0"
    by (simp_all add: window_ok_def unannounced_def new_pcb_def)
  then show ?thesis using receive_window_correct [of ?s 100 100] by auto
qed

section \<open>Congestion control\<close>

definition cw_ok :: "tcp_pcb \<Rightarrow> bool" where
  "cw_ok u \<longleftrightarrow> 0 < unat (mss u) \<and> unat (mss u) \<le> 1024 \<and> 0 < cwnd u \<and> (has_flag TF_INFR u \<longrightarrow> 0 < ssthresh u)"

text \<open>Half the window in flight, but at least two segments.\<close>

definition half_window :: "tcp_pcb \<Rightarrow> nat" where
  "half_window u = max (min (unat (cwnd u)) (unat (snd_wnd u)) div 2) (2 * unat (mss u))"

lemma unat_min: "unat (min a b :: u16) = min (unat a) (unat b)"
  by (simp add: min_def word_le_nat_alt)

lemma half_window_word:
  assumes "unat (mss u) \<le> 1024" "th = min (cwnd u) (snd_wnd u) div 2"
  shows "unat (if unat th < 2 * unat (mss u) then 2 * mss u else th) = half_window u"
proof -
  have "unat (2 * mss u) = 2 * unat (mss u)" using assms(1) by (simp add: unat_word_ariths)
  then show ?thesis using assms(2) by (simp add: half_window_def unat_div unat_min max_def)
qed

lemma half_window_bounds: "unat (mss u) \<le> 1024 \<Longrightarrow> half_window u \<le> 32767" "2 * unat (mss u) \<le> half_window u"
  using unat_less_65536 [of "cwnd u"] by (auto simp: half_window_def min_def)

lemma fast_window_spec:
  assumes "unat (mss u) \<le> 1024"
  shows "unat (ssthresh (fast_window u)) = half_window u" "unat (cwnd (fast_window u)) = half_window u + 3 * unat (mss u)"
    "mss (fast_window u) = mss u"
proof -
  have th: "(if cwnd u > snd_wnd u then snd_wnd u div 2 else cwnd u div 2) = min (cwnd u) (snd_wnd u) div 2"
  proof (cases "snd_wnd u < cwnd u")
    case True
    then show ?thesis by (simp only: if_True min.absorb2 less_imp_le)
  next
    case False
    then have "cwnd u \<le> snd_wnd u" by simp
    then show ?thesis using False by (simp only: if_False min.absorb1)
  qed
  have m3: "unat (3 * mss u) = 3 * unat (mss u)" using assms by (simp add: unat_word_ariths)
  define w where "w = (if unat (min (cwnd u) (snd_wnd u) div 2) < 2 * unat (mss u) then 2 * mss u else min (cwnd u) (snd_wnd u) div 2)"
  have w: "unat w = half_window u" unfolding w_def by (rule half_window_word [OF assms]) simp
  have "fast_window u = u\<lparr>ssthresh := w, cwnd := w + 3 * mss u\<rparr>" unfolding fast_window_def Let_def th w_def by simp
  then show "unat (ssthresh (fast_window u)) = half_window u" "unat (cwnd (fast_window u)) = half_window u + 3 * unat (mss u)"
    "mss (fast_window u) = mss u"
    using w m3 half_window_bounds(1) [OF assms] assms by (simp_all add: unat_word_ariths)
qed

lemma rto_windows_spec:
  assumes "unat (mss u) \<le> 1024"
  shows "unat (ssthresh (rto_windows u)) = half_window u" "cwnd (rto_windows u) = mss u" "mss (rto_windows u) = mss u"
  using half_window_word [OF assms refl] by (simp_all add: rto_windows_def Let_def)

text \<open>A window of \<open>c\<close> bytes opened by \<open>d\<close>: it stays as it is when the sum of 16 bits is not larger.\<close>

definition opened :: "nat \<Rightarrow> nat \<Rightarrow> nat" where
  "opened c d = max c ((c + d) mod 2 ^ 16)"

lemma opened_exact: "c + d < 2 ^ 16 \<Longrightarrow> opened c d = c + d"
  by (simp add: opened_def)

lemma opened_word:
  fixes w c :: u16
  assumes "unat w = (unat c + d) mod 2 ^ 16"
  shows "unat (if w > c then w else c) = opened (unat c) d"
  using assms by (auto simp: opened_def word_less_nat_alt max_def)

lemma opened_pos: "0 < c \<Longrightarrow> 0 < opened c d"
  by (simp add: opened_def)

lemma grow_cwnd_spec:
  "unat (cwnd (grow_cwnd u)) = opened (unat (cwnd u)) (unat (mss u))" "mss (grow_cwnd u) = mss u"
  "tflags (grow_cwnd u) = tflags u" "ssthresh (grow_cwnd u) = ssthresh u"
proof -
  have "unat (cwnd u + mss u) = (unat (cwnd u) + unat (mss u)) mod 2 ^ 16" by (simp add: unat_word_ariths)
  from opened_word [OF this] show "unat (cwnd (grow_cwnd u)) = opened (unat (cwnd u)) (unat (mss u))"
    by (simp add: grow_cwnd_def split: if_splits)
qed (simp_all add: grow_cwnd_def)

text \<open>The bytes by which one acknowledgement opens a window \<open>c\<close>: a segment in slow start, a segment per window after it.\<close>

definition ack_step :: "nat \<Rightarrow> tcp_pcb \<Rightarrow> nat" where
  "ack_step c u = (if c < unat (ssthresh u) then unat (mss u) else unat (mss u) * unat (mss u) div c)"

lemma ack_cwnd_spec:
  assumes "unat (mss u) \<le> 1024" "0 < cwnd u"
  obtains v where "ack_cwnd u = Inr v" "unat (cwnd v) = opened (unat (cwnd u)) (ack_step (unat (cwnd u)) u)"
    "mss v = mss u" "tflags v = tflags u" "ssthresh v = ssthresh u"
proof (cases "cwnd u < ssthresh u")
  case True
  then show thesis using that [of "grow_cwnd u"] grow_cwnd_spec [of u] by (simp add: ack_cwnd_def ack_step_def word_less_nat_alt)
next
  case False
  have "unat (mss u) * unat (mss u) \<le> 1024 * 1024" by (rule mult_le_mono) (use assms in simp_all)
  moreover define w :: u16 where "w = word_of_nat (unat (cwnd u) + unat (mss u) * unat (mss u) div unat (cwnd u))"
  ultimately have eq: "ack_cwnd u = Inr (if w > cwnd u then u\<lparr>cwnd := w\<rparr> else u)"
    using False assms(2) by (simp add: ack_cwnd_def Let_def w_def)
  have "unat w = (unat (cwnd u) + ack_step (unat (cwnd u)) u) mod 2 ^ 16"
    using False by (simp add: w_def unat_word_ariths unat_of_nat ack_step_def word_less_nat_alt mod_simps)
  from opened_word [OF this] show thesis by (intro that [OF eq]) (auto split: if_splits)
qed

lemma new_ack_spec:
  assumes "cw_ok u"
  defines "c \<equiv> (if has_flag TF_INFR u then unat (ssthresh u) else unat (cwnd u))"
  obtains v where "new_ack ak u = Inr v" "cw_ok v" "\<not> has_flag TF_INFR v" "ssthresh v = ssthresh u"
    "unat (cwnd v) = (if fsm u \<ge> ESTABLISHED then opened c (ack_step c u) else c)"
proof -
  define x where "x = (if has_flag TF_INFR u then u\<lparr>tflags := tflags u AND NOT TF_INFR, cwnd := ssthresh u\<rparr> else u)"
  define n :: u16 where "n = ucast (ak - lastack x)"
  define y where "y = x\<lparr>nrtx := 0, rto := s16_of (sa x div 8 + sv x), acked := n, snd_buf := snd_buf x + n, dupacks := 0, lastack := ak\<rparr>"
  have na: "new_ack ak u = (if fsm y \<ge> ESTABLISHED then ack_cwnd y else Inr y)"
    unfolding new_ack_def Let_def x_def [symmetric] n_def [symmetric] y_def [symmetric] by simp
  have y: "unat (mss y) \<le> 1024" "0 < unat (mss y)" "0 < cwnd y" "unat (cwnd y) = c" "\<not> has_flag TF_INFR y"
    and same: "fsm y = fsm u" "ssthresh y = ssthresh u" "mss y = mss u"
    using assms by (auto simp: y_def x_def cw_ok_def has_flag_def and.assoc)
  have step: "ack_step c y = ack_step c u" using same by (simp add: ack_step_def)
  show thesis
  proof (cases "fsm u \<ge> ESTABLISHED")
    case True
    obtain v where v: "ack_cwnd y = Inr v" "unat (cwnd v) = opened c (ack_step c u)" "mss v = mss y" "tflags v = tflags y"
        "ssthresh v = ssthresh y"
      using ack_cwnd_spec [OF y(1,3)] unfolding y(4) step by metis
    have "0 < unat (cwnd v)" using v(2) opened_pos [of c] y(3,4) by (simp add: word_less_nat_alt)
    then show thesis using that [of v] v y na True same by (auto simp: cw_ok_def has_flag_def word_less_nat_alt)
  next
    case False
    then show thesis using that [of y] y na same by (auto simp: cw_ok_def)
  qed
qed

lemma old_ack_spec:
  assumes "tcplen s = 0 \<and> snd_wl2 (tpcb s pcb) + ucast (snd_wnd (tpcb s pcb)) = edge \<and> rtime (tpcb s pcb) \<ge> 0 \<and>
      lastack (tpcb s pcb) = ackno s \<and> 3 \<le> dupacks (tpcb s pcb)" "cw_ok (tpcb s pcb)"
  shows "\<exists>s'. old_ack edge pcb s = Inr s' \<and> cw_ok (tpcb s' pcb) \<and>
    unat (cwnd (tpcb s' pcb)) = opened (unat (cwnd (tpcb s pcb))) (unat (mss (tpcb s pcb))) \<and> ssthresh (tpcb s' pcb) = ssthresh (tpcb s pcb)"
proof -
  define u where "u = tpcb s pcb"
  define v where "v = (let x = u\<lparr>acked := 0\<rparr> in if dupacks u + 1 > dupacks u then x\<lparr>dupacks := dupacks u + 1\<rparr> else x)"
  have v: "cwnd v = cwnd u" "mss v = mss u" "tflags v = tflags u" "ssthresh v = ssthresh u"
    by (simp_all add: v_def Let_def)
  have three: "3 \<le> dupacks u" using assms(1) by (simp add: u_def)
  then have more: "dupacks u + 1 > dupacks u \<longrightarrow> dupacks u + 1 > 3" "\<not> dupacks u + 1 > dupacks u \<longrightarrow> dupacks u > 3"
    by (auto simp: word_less_nat_alt word_le_nat_alt unat_word_ariths mod_if split: if_splits)
  have eq: "old_ack edge pcb s = Inr (set_tpcb pcb (\<lambda>_. grow_cwnd v) s)"
    using assms(1) more unfolding old_ack_def Let_def u_def [symmetric] v_def
    by (auto simp: set_tpcb_def u_def [symmetric])
  have "cw_ok (grow_cwnd v)" using assms(2) grow_cwnd_spec [of v] v opened_pos
    by (auto simp: cw_ok_def has_flag_def u_def word_less_nat_alt)
  then show ?thesis using eq grow_cwnd_spec [of v] v by (simp add: set_tpcb_def u_def)
qed

text \<open>
  C17. The congestion window follows the algorithm, with a maximum segment size from 1 to 1024 and windows that are not 0. An
  acknowledgement of new data is processed without a division by zero or an overflow and ends fast recovery, going back to the
  slow start threshold; on a connection that is established it then opens the window by one segment below the threshold (slow
  start), and by the square of the segment size divided by the window from there (congestion avoidance). Each duplicate after the third
  opens it by one segment. A window that would not fit in 16 bits is left as it is (\<open>opened\<close>). A fast retransmission sets
  the threshold to half the window in flight but at least two segments, and the window to three segments more, without
  wrapping around; a timeout sets the same threshold and a window of one segment. All of them keep the condition.
\<close>

theorem congestion_window_correct:
  assumes "cw_ok u"
  shows "(\<exists>v. new_ack ak u = Inr v \<and> cw_ok v \<and> \<not> has_flag TF_INFR v \<and> ssthresh v = ssthresh u \<and>
      (let c = (if has_flag TF_INFR u then unat (ssthresh u) else unat (cwnd u));
           d = (if c < unat (ssthresh u) then unat (mss u) else unat (mss u) * unat (mss u) div c)
       in unat (cwnd v) = (if fsm u \<ge> ESTABLISHED then opened c d else c) \<and> (c + d < 2 ^ 16 \<longrightarrow> opened c d = c + d))) \<and>
    (tpcb s pcb = u \<and> tcplen s = 0 \<and> snd_wl2 u + ucast (snd_wnd u) = edge \<and> rtime u \<ge> 0 \<and> lastack u = ackno s \<and> 3 \<le> dupacks u \<longrightarrow>
      (\<exists>s'. old_ack edge pcb s = Inr s' \<and> cw_ok (tpcb s' pcb) \<and>
        unat (cwnd (tpcb s' pcb)) = opened (unat (cwnd u)) (unat (mss u)) \<and> ssthresh (tpcb s' pcb) = ssthresh u)) \<and>
    (let v = (fast_window u)\<lparr>tflags := tflags u OR TF_INFR\<rparr> in
      cw_ok v \<and> unat (ssthresh v) = half_window u \<and> unat (cwnd v) = half_window u + 3 * unat (mss u)) \<and>
    (let v = rto_windows u in cw_ok v \<and> unat (ssthresh v) = half_window u \<and> cwnd v = mss u)"
proof (intro conjI)
  have m: "unat (mss u) \<le> 1024" "0 < unat (mss u)" "0 < cwnd u" using assms by (auto simp: cw_ok_def)
  have pos: "0 < half_window u" using half_window_bounds(2) [of u] m by linarith
  show "\<exists>v. new_ack ak u = Inr v \<and> cw_ok v \<and> \<not> has_flag TF_INFR v \<and> ssthresh v = ssthresh u \<and>
      (let c = (if has_flag TF_INFR u then unat (ssthresh u) else unat (cwnd u));
           d = (if c < unat (ssthresh u) then unat (mss u) else unat (mss u) * unat (mss u) div c)
       in unat (cwnd v) = (if fsm u \<ge> ESTABLISHED then opened c d else c) \<and> (c + d < 2 ^ 16 \<longrightarrow> opened c d = c + d))"
    using new_ack_spec [OF assms, of ak] opened_exact unfolding ack_step_def Let_def by metis
  show "tpcb s pcb = u \<and> tcplen s = 0 \<and> snd_wl2 u + ucast (snd_wnd u) = edge \<and> rtime u \<ge> 0 \<and> lastack u = ackno s \<and> 3 \<le> dupacks u \<longrightarrow>
      (\<exists>s'. old_ack edge pcb s = Inr s' \<and> cw_ok (tpcb s' pcb) \<and>
        unat (cwnd (tpcb s' pcb)) = opened (unat (cwnd u)) (unat (mss u)) \<and> ssthresh (tpcb s' pcb) = ssthresh u)"
    using old_ack_spec [of s pcb edge] assms by metis
  show "let v = (fast_window u)\<lparr>tflags := tflags u OR TF_INFR\<rparr> in
      cw_ok v \<and> unat (ssthresh v) = half_window u \<and> unat (cwnd v) = half_window u + 3 * unat (mss u)"
    using fast_window_spec [OF m(1)] m pos by (simp add: Let_def cw_ok_def word_less_nat_alt)
  show "let v = rto_windows u in cw_ok v \<and> unat (ssthresh v) = half_window u \<and> cwnd v = mss u"
    using rto_windows_spec [OF m(1)] m pos by (simp add: Let_def cw_ok_def word_less_nat_alt)
qed

text \<open>Slow start from one segment: the window doubles.\<close>

theorem congestion_window_witness:
  "\<exists>v. new_ack 100 ((new_pcb 64 0 0 0)\<lparr>fsm := ESTABLISHED, mss := 536, cwnd := 536, ssthresh := 5360\<rparr>) = Inr v \<and> unat (cwnd v) = 1072"
proof -
  define u where "u = (new_pcb 64 0 0 0)\<lparr>fsm := ESTABLISHED, mss := 536, cwnd := 536, ssthresh := 5360\<rparr>"
  have u: "cw_ok u" "fsm u = ESTABLISHED" "mss u = 536" "cwnd u = 536" "ssthresh u = 5360" "\<not> has_flag TF_INFR u"
    by (simp_all add: u_def cw_ok_def new_pcb_def has_flag_def)
  then show ?thesis unfolding u_def [symmetric]
    using congestion_window_correct [OF u(1), of 100, THEN conjunct1] by (auto simp: Let_def)
qed

section \<open>Retransmission timeouts\<close>

text \<open>The estimates in ticks of half a second, when no round trip takes longer than \<open>B\<close> ticks.\<close>

definition rtt_ok :: "int \<Rightarrow> tcp_pcb \<Rightarrow> bool" where
  "rtt_ok B u \<longleftrightarrow> 0 \<le> sa u \<and> sa u \<le> 8 * B + 7 \<and> 3 \<le> sv u \<and> sv u \<le> 4 * B + 3"

lemma s16_of_id: "- 32768 \<le> i \<Longrightarrow> i < 32768 \<Longrightarrow> s16_of i = i"
  by (simp add: s16_of_def)

lemma rtt_means:
  fixes a v B M :: int
  assumes "0 \<le> B" "0 \<le> a" "a \<le> 8 * B + 7" "3 \<le> v" "v \<le> 4 * B + 3" "0 \<le> M" "M \<le> B"
  shows "\<bar>M - a div 8\<bar> \<le> B" "0 \<le> a + (M - a div 8)" "a + (M - a div 8) \<le> 8 * B + 7"
    "3 \<le> v + (\<bar>M - a div 8\<bar> - v div 4)" "v + (\<bar>M - a div 8\<bar> - v div 4) \<le> 4 * B + 3" "0 \<le> v div 4" "v div 4 \<le> B"
proof -
  have q: "0 \<le> a div 8" "a div 8 \<le> B" using assms by linarith+
  show m: "\<bar>M - a div 8\<bar> \<le> B" using q assms by linarith
  show "0 \<le> a + (M - a div 8)" "a + (M - a div 8) \<le> 8 * B + 7" using assms by linarith+
  show "3 \<le> v + (\<bar>M - a div 8\<bar> - v div 4)" "v + (\<bar>M - a div 8\<bar> - v div 4) \<le> 4 * B + 3" using m assms by linarith+
  show "0 \<le> v div 4" "v div 4 \<le> B" using assms by linarith+
qed

lemma rtt_estimate_spec:
  assumes B: "0 \<le> B" "B \<le> 50" and ok: "rtt_ok B u" and sample: "uint (ticks - rttest u) \<le> B"
  defines "m \<equiv> uint (ticks - rttest u) - sa u div 8"
  shows "rtt_estimate ticks u = u\<lparr>sa := sa u + m, sv := sv u + (\<bar>m\<bar> - sv u div 4),
    rto := (sa u + m) div 8 + (sv u + (\<bar>m\<bar> - sv u div 4)), rttest := 0\<rparr>"
    "rtt_ok B (rtt_estimate ticks u)" "(sa u + m) div 8 + (sv u + (\<bar>m\<bar> - sv u div 4)) \<le> 5 * B + 3"
    "3 \<le> (sa u + m) div 8 + (sv u + (\<bar>m\<bar> - sv u div 4))"
proof -
  let ?M = "uint (ticks - rttest u)"
  have u: "0 \<le> sa u" "sa u \<le> 8 * B + 7" "3 \<le> sv u" "sv u \<le> 4 * B + 3" using ok by (auto simp: rtt_ok_def)
  note r = rtt_means [OF B(1) u uint_ge_0 sample, folded m_def]
  show up: "(sa u + m) div 8 + (sv u + (\<bar>m\<bar> - sv u div 4)) \<le> 5 * B + 3" using r by linarith
  show low: "3 \<le> (sa u + m) div 8 + (sv u + (\<bar>m\<bar> - sv u div 4))" using r by linarith
  have fits: "s16_of i = i" if "\<bar>i\<bar> \<le> 1000" for i by (rule s16_of_id) (use that in linarith)+
  have s: "s16_of ?M = ?M" "s16_of (?M - sa u div 8) = m" "s16_of (sa u + m) = sa u + m" "(if m < 0 then s16_of (- m) else m) = \<bar>m\<bar>"
    "s16_of (\<bar>m\<bar> - sv u div 4) = \<bar>m\<bar> - sv u div 4" "s16_of (sv u + (\<bar>m\<bar> - sv u div 4)) = sv u + (\<bar>m\<bar> - sv u div 4)"
    "s16_of ((sa u + m) div 8 + (sv u + (\<bar>m\<bar> - sv u div 4))) = (sa u + m) div 8 + (sv u + (\<bar>m\<bar> - sv u div 4))"
  proof -
    show "s16_of ?M = ?M" by (rule fits) (use sample B uint_ge_0 [of "ticks - rttest u"] in linarith)
    show "s16_of (?M - sa u div 8) = m" unfolding m_def [symmetric] by (rule fits) (use r B in linarith)
    show "(if m < 0 then s16_of (- m) else m) = \<bar>m\<bar>" using fits [of "- m"] r(1) B by simp
  qed (rule fits, use r up low u B in linarith)+
  show e: "rtt_estimate ticks u = u\<lparr>sa := sa u + m, sv := sv u + (\<bar>m\<bar> - sv u div 4),
    rto := (sa u + m) div 8 + (sv u + (\<bar>m\<bar> - sv u div 4)), rttest := 0\<rparr>"
    by (simp only: rtt_estimate_def Let_def s)
  show "rtt_ok B (rtt_estimate ticks u)" unfolding e using r by (simp add: rtt_ok_def)
qed

lemma tcp_backoff_bounds:
  assumes "n \<le> 12"
  shows "tcp_backoff ! n \<le> 7"
proof -
  have "tcp_backoff ! n \<in> set tcp_backoff" by (rule nth_mem) (use assms in \<open>simp add: tcp_backoff_def\<close>)
  then show ?thesis by (auto simp: tcp_backoff_def)
qed

lemma rto_backoff_spec:
  assumes "nrtx u \<le> TCP_MAXRTX" "3 \<le> sa u div 8 + sv u" "sa u div 8 + sv u \<le> 253" "fsm u \<noteq> SYN_SENT"
  shows "rto_backoff u = Inr (u\<lparr>rto := (sa u div 8 + sv u) * 2 ^ nat (tcp_backoff ! unat (nrtx u))\<rparr>)"
    "3 \<le> (sa u div 8 + sv u) * 2 ^ nat (tcp_backoff ! unat (nrtx u))"
proof -
  let ?e = "nat (tcp_backoff ! unat (nrtx u))" and ?x = "sa u div 8 + sv u"
  have n: "unat (nrtx u) \<le> 12" using assms(1) by (simp add: word_le_nat_alt)
  then have "?e \<le> 7" using tcp_backoff_bounds [OF n] by (simp add: nat_le_iff)
  then have p: "(2 :: int) ^ ?e \<le> 2 ^ 7" by (rule power_increasing) simp
  have lo: "1 \<le> (2 :: int) ^ ?e" by simp
  have hi: "?x * 2 ^ ?e \<le> 253 * 2 ^ 7" by (rule mult_mono [OF assms(3) p]) (use assms(2) in simp_all)
  then have hi': "?x * 2 ^ ?e \<le> 32384" by simp
  show three: "3 \<le> ?x * 2 ^ ?e" using mult_mono [OF assms(2) lo] assms(2) by simp
  have "s16_of (?x * 2 ^ ?e) = ?x * 2 ^ ?e" by (rule s16_of_id) (use hi' three in linarith)+
  then show "rto_backoff u = Inr (u\<lparr>rto := ?x * 2 ^ ?e\<rparr>)"
    using assms(4) n by (simp add: rto_backoff_def tcp_backoff_def)
qed

text \<open>
  C18. If no round trip takes more than 50 ticks (25 seconds), the estimator computes the means of Jacobson's
  algorithm exactly, without an overflow of its 16-bit variables; the retransmission timeout is at least 3 ticks and at most
  \<open>5 B + 3\<close>, and backing off after at most 12 retransmissions never overflows: the timeout stays positive and is the estimate
  times the power of two of the table.
\<close>

theorem rto_correct:
  assumes B: "0 \<le> B" "B \<le> 50" and ok: "rtt_ok B u" and sample: "uint (ticks - rttest u) \<le> B"
    and tries: "nrtx u \<le> TCP_MAXRTX" "fsm u \<noteq> SYN_SENT"
  shows "let v = rtt_estimate ticks u; m = uint (ticks - rttest u) - sa u div 8 in
      rtt_ok B v \<and> sa v = sa u + m \<and> sv v = sv u + (\<bar>m\<bar> - sv u div 4) \<and> rto v = sa v div 8 + sv v \<and> 3 \<le> rto v \<and> rto v \<le> 5 * B + 3 \<and>
      (\<exists>w. rto_backoff v = Inr w \<and> 3 \<le> rto w \<and> rto w = rto v * 2 ^ nat (tcp_backoff ! unat (nrtx v)))"
proof -
  note e = rtt_estimate_spec [OF B ok sample]
  define v where "v = rtt_estimate ticks u"
  have v: "nrtx v = nrtx u" "fsm v = fsm u" "sa v = sa u + (uint (ticks - rttest u) - sa u div 8)"
    "sv v = sv u + (\<bar>uint (ticks - rttest u) - sa u div 8\<bar> - sv u div 4)" "rto v = sa v div 8 + sv v"
    unfolding v_def e(1) by simp_all
  have bounds: "3 \<le> sa v div 8 + sv v" "sa v div 8 + sv v \<le> 5 * B + 3" unfolding v(3,4) by (rule e(4), rule e(3))
  have hi: "sa v div 8 + sv v \<le> 253" using bounds(2) B(2) by linarith
  note b = rto_backoff_spec [of v, unfolded v(1,2), OF tries(1) bounds(1) hi tries(2)]
  show ?thesis using e(2) v bounds b by (simp add: Let_def v_def [symmetric])
qed

theorem rto_witness:
  "3 \<le> rto (rtt_estimate 9 ((new_pcb 64 0 0 0)\<lparr>rttest := 4\<rparr>)) \<and> rto (rtt_estimate 9 ((new_pcb 64 0 0 0)\<lparr>rttest := 4\<rparr>)) \<le> 53"
proof -
  have "rtt_ok 10 ((new_pcb 64 0 0 0)\<lparr>rttest := 4\<rparr>)" by (simp add: rtt_ok_def new_pcb_def)
  then show ?thesis using rto_correct [of 10 "(new_pcb 64 0 0 0)\<lparr>rttest := 4\<rparr>" 9] by (simp add: Let_def) (simp add: new_pcb_def)
qed

section \<open>Options\<close>

definition limit_mss :: "u16 \<Rightarrow> u16" where
  "limit_mss v = (if v > TCP_MSS \<or> v = 0 then TCP_MSS else v)"

text \<open>The maximum segment size that the bytes of the options give, \<open>m\<close> if they do not tell.\<close>

fun mss_options :: "bytes \<Rightarrow> u16 \<Rightarrow> u16" where
  "mss_options [] m = m"
| "mss_options (k # bs) m =
     (if k = 0 then m
      else if k = 1 then mss_options bs m
      else case bs of
        [] \<Rightarrow> m
      | l # cs \<Rightarrow>
          if k = 2 then (if l = 4 \<and> length cs \<ge> 2 then mss_options (drop 2 cs) (limit_mss (load16 (cs ! 1) (cs ! 0))) else m)
          else if l = 0 then m else mss_options (drop (unat l - 1) bs) m)"

lemma upt_Cons: "c < n \<Longrightarrow> [c..<n] = c # [c + 1..<n]"
  by (simp add: upt_conv_Cons)

lemma opts_loop_spec:
  "n < c + fuel \<Longrightarrow> 0 < fuel \<Longrightarrow> opts_loop fuel opts c n m = Inr (mss_options (map opts [c..<n]) m)"
proof (induction fuel arbitrary: c m)
  case (Suc fuel)
  show ?case
  proof (cases "c < n")
    case False
    then show ?thesis by simp
  next
    case True
    note c = upt_Cons [OF True]
    have f: "0 < fuel" using Suc.prems True by simp
    show ?thesis
    proof (cases "c + 1 < n")
      case False
      then have "[c + 1..<n] = []" by simp
      moreover have "opts_loop fuel opts (c + unat (opts (c + 1))) n m = Inr m" if "opts (c + 1) \<noteq> 0"
      proof -
        have "0 < unat (opts (c + 1))" using that by (simp add: unat_gt_0)
        then have "n \<le> c + unat (opts (c + 1))" "n < c + unat (opts (c + 1)) + fuel" using False Suc.prems by linarith+
        then show ?thesis using Suc.IH [of "c + unat (opts (c + 1))"] f by simp
      qed
      ultimately show ?thesis using Suc.prems True False c f Suc.IH [of "c + 1"] by auto
    next
      case c1: True
      have b: "map opts [c..<n] = opts c # opts (c + 1) # map opts [c + 2..<n]" "map opts [c + 1..<n] = opts (c + 1) # map opts [c + 2..<n]"
        unfolding c upt_Cons [OF c1] by simp_all
      have d: "drop k (map opts [i..<n]) = map opts [i + k..<n]" for k i by (simp add: drop_map)
      consider (nop) "opts c = 1" | (mss) "opts c = 2" | (other) "opts c \<noteq> 0" "opts c \<noteq> 1" "opts c \<noteq> 2" | (eol) "opts c = 0" by blast
      then show ?thesis
      proof cases
        case nop
        then show ?thesis using Suc.IH [of "c + 1"] Suc.prems True c f by simp
      next
        case mss
        have "opts_loop (Suc fuel) opts c n m = (if opts (c + 1) \<noteq> 4 \<or> c + 4 > n then Inr m
          else opts_loop fuel opts (c + 4) n (limit_mss (load16 (opts (c + 3)) (opts (c + 2)))))"
          using mss True by (simp add: Let_def limit_mss_def load16_def or.commute)
        moreover have "mss_options (map opts [c..<n]) m = (if opts (c + 1) \<noteq> 4 \<or> c + 4 > n then m
          else mss_options (map opts [c + 4..<n]) (limit_mss (load16 (opts (c + 3)) (opts (c + 2)))))"
          unfolding b using mss by (auto simp: d eval_nat_numeral)
        ultimately show ?thesis using Suc.IH [of "c + 4"] Suc.prems f by simp
      next
        case other
        have "opts_loop (Suc fuel) opts c n m = (if opts (c + 1) = 0 then Inr m else opts_loop fuel opts (c + unat (opts (c + 1))) n m)"
          using other True by simp
        moreover have "mss_options (map opts [c..<n]) m = (if opts (c + 1) = 0 then m else mss_options (map opts [c + unat (opts (c + 1))..<n]) m)"
        proof (cases "opts (c + 1) = 0")
          case False
          then have "c + 1 + (unat (opts (c + 1)) - 1) = c + unat (opts (c + 1))" by (simp add: unat_gt_0 Suc_leI)
          then show ?thesis using other False d [of "unat (opts (c + 1)) - 1" "c + 1"] unfolding b by (simp flip: b(2))
        qed (use other in \<open>simp add: b(1)\<close>)
        moreover have "n < c + unat (opts (c + 1)) + fuel" if "opts (c + 1) \<noteq> 0"
        proof -
          have "0 < unat (opts (c + 1))" using that by (simp add: unat_gt_0)
          then show ?thesis using Suc.prems by linarith
        qed
        ultimately show ?thesis using Suc.IH [of "c + unat (opts (c + 1))"] f by presburger
      next
        case eol
        then show ?thesis using True c by simp
      qed
    qed
  qed
qed simp

lemma limit_mss_bounds: "0 < unat (limit_mss v)" "unat (limit_mss v) \<le> 1024"
  by (auto simp: limit_mss_def unat_gt_0 word_le_nat_alt not_less)

lemma mss_options_bounds: "0 < unat m \<and> unat m \<le> 1024 \<Longrightarrow> 0 < unat (mss_options bs m) \<and> unat (mss_options bs m) \<le> 1024"
proof (induction bs m rule: mss_options.induct)
  case (2 k bs m)
  then show ?case using limit_mss_bounds by (auto split: list.splits)
qed simp

text \<open>The bytes of the options in the header at \<open>th\<close>.\<close>

definition option_bytes :: "nat \<Rightarrow> 'a ip_like \<Rightarrow> bytes" where
  "option_bytes th s = map (\<lambda>i. memory s (th + TCP_HLEN + i)) [0..<(TCPH_HDRLEN th s - 5) * 4]"

lemma hdrlen_bound: "TCPH_HDRLEN th s < 16"
proof -
  have "unat (drop_bit 12 (w :: u16)) < 16" for w
    using unat_less_65536 [of w] by (simp add: unat_drop_bit_eq drop_bit_eq_div unat_div div_less_iff_less_mult)
  then show ?thesis by (simp add: TCPH_HDRLEN_def)
qed

lemma tcp_parseopt_spec: "tcp_parseopt th pcb s = Inr (set_tpcb pcb (\<lambda>u. u\<lparr>mss := mss_options (option_bytes th s) (mss u)\<rparr>) s)"
proof (cases "TCPH_HDRLEN th s > 5")
  case True
  have "(TCPH_HDRLEN th s - 5) * 4 < 0 + 41" using hdrlen_bound [of th s] by simp
  then show ?thesis using True opts_loop_spec [of "(TCPH_HDRLEN th s - 5) * 4" 0 41]
    by (simp add: tcp_parseopt_def option_bytes_def set_tpcb_def)
next
  case False
  then show ?thesis by (simp add: tcp_parseopt_def option_bytes_def set_tpcb_def)
qed

text \<open>
  C19. Parsing the options of a segment always ends and never fails, whatever the bytes are; it reads the options from left to right
  as the reference parser does, depends on no byte behind them, and changes nothing but the maximum segment
  size, which stays between 1 and \<^verbatim>\<open>TCP_MSS\<close>.
\<close>

theorem tcp_parseopt_correct:
  assumes "0 < unat (mss (tpcb s pcb))" "unat (mss (tpcb s pcb)) \<le> 1024"
  shows "\<exists>m. tcp_parseopt th pcb s = Inr (set_tpcb pcb (\<lambda>u. u\<lparr>mss := m\<rparr>) s) \<and> m = mss_options (option_bytes th s) (mss (tpcb s pcb)) \<and>
    0 < unat m \<and> unat m \<le> 1024"
  using tcp_parseopt_spec [of th pcb s] mss_options_bounds [of "mss (tpcb s pcb)"] assms by (simp add: set_tpcb_def)

theorem tcp_parseopt_witness:
  "\<exists>m. tcp_parseopt 2000 100 (tcp_sample sample (\<lambda>_. new_pcb 64 0 0 0) (\<lambda>_. undefined) (\<lambda>_. 0)) =
     Inr (set_tpcb 100 (\<lambda>u. u\<lparr>mss := m\<rparr>) (tcp_sample sample (\<lambda>_. new_pcb 64 0 0 0) (\<lambda>_. undefined) (\<lambda>_. 0))) \<and> unat m \<le> 1024"
  using tcp_parseopt_correct [of "tcp_sample sample (\<lambda>_. new_pcb 64 0 0 0) (\<lambda>_. undefined) (\<lambda>_. 0)" 100 2000]
  by (auto simp: new_pcb_def)

text \<open>The option as \<^verbatim>\<open>tcp_output_segment\<close> writes it.\<close>

definition mss_option :: "u16 \<Rightarrow> bytes" where
  "mss_option m = host_bytes32 (lwip_htonl (0x02040000 OR ucast m))"

lemma mss_option_bytes: "mss_option m = [2, 4, ucast (drop_bit 8 m), ucast m]"
proof -
  have hi: "drop_bit 24 (ucast m :: u32) = 0" "drop_bit 16 (ucast m :: u32) = 0"
    using unat_less_65536 [of m] by (simp_all add: word_unat_eq_iff unat_drop_bit_eq drop_bit_eq_div unat_div)
  have lo: "ucast (drop_bit 8 (ucast m :: u32)) = (ucast (drop_bit 8 m) :: u8)" "ucast (ucast m :: u32) = (ucast m :: u8)"
    by (rule bit_word_eqI, simp add: bit_simps)+
  have zero: "(132096 :: u8) = 0" "(33816576 :: u8) = 0" by simp_all
  show ?thesis unfolding mss_option_def host_bytes32_htonl net_bytes32_def
    by (simp add: drop_bit_or unsigned_or_eq hi lo) (simp add: zero)
qed

text \<open>
  The option that announces a maximum segment size from 1 to \<^verbatim>\<open>TCP_MSS\<close> is read back as just that size: when the header at
  \<open>th\<close> is six words long and the option is written behind its 20 bytes, parsing sets the size to the one announced.
\<close>

theorem mss_option_roundtrip:
  assumes "TCPH_HDRLEN th s = 6" "0 < unat m" "unat m \<le> 1024"
  shows "tcp_parseopt th pcb (put (th + TCP_HLEN) (mss_option m) s) =
    Inr (set_tpcb pcb (\<lambda>u. u\<lparr>mss := m\<rparr>) (put (th + TCP_HLEN) (mss_option m) s))"
proof -
  have mem: "memory (put (th + TCP_HLEN) (mss_option m) s) = write_bytes (th + TCP_HLEN) (mss_option m) (memory s)"
    by (simp add: memory_def put_def set_arp_def poke_def)
  have "TCPH_HDRLEN th (put (th + TCP_HLEN) (mss_option m) s) = 6"
    using assms(1) by (simp add: TCPH_HDRLEN_def mem_u16_def mem write_bytes_def)
  moreover have "length (mss_option m) = 4" by (simp add: mss_option_bytes)
  ultimately have "option_bytes th (put (th + TCP_HLEN) (mss_option m) s) = read_bytes (write_bytes (th + TCP_HLEN) (mss_option m) (memory s)) (th + TCP_HLEN) (length (mss_option m))"
    by (simp add: option_bytes_def mem read_bytes_def)
  also have "\<dots> = mss_option m" by (rule read_write_same)
  finally have "option_bytes th (put (th + TCP_HLEN) (mss_option m) s) = mss_option m" .
  moreover have "load16 (ucast m) (ucast (drop_bit 8 m)) = m"
    by (rule bit_word_eqI) (auto simp: load16_def bit_simps)
  moreover have "limit_mss m = m" using assms(2,3) by (auto simp: limit_mss_def word_less_nat_alt)
  ultimately show ?thesis unfolding tcp_parseopt_spec by (simp add: mss_option_bytes)
qed

theorem mss_option_roundtrip_witness:
  "\<exists>s :: tcp_state. tcp_parseopt 2000 100 (put 2020 (mss_option 1000) s) = Inr (set_tpcb 100 (\<lambda>u. u\<lparr>mss := 1000\<rparr>) (put 2020 (mss_option 1000) s))"
proof -
  define s where "s = put 2012 (net_bytes16 0x6000) (tcp_sample sample (\<lambda>_. new_pcb 64 0 0 0) (\<lambda>_. undefined) (\<lambda>_. 0))"
  have "memory s 2012 = 0x60" "memory s 2013 = 0"
    by (simp_all add: s_def memory_def put_def set_arp_def poke_def write_bytes_def net_bytes16_def)
  then have "mem_u16 2012 s = 0x60" by (simp add: mem_u16_def)
  moreover have "unat (drop_bit 12 (lwip_ntohs 0x60)) = 6" by code_simp
  ultimately have "TCPH_HDRLEN 2000 s = 6" by (simp add: TCPH_HDRLEN_def)
  then show ?thesis using mss_option_roundtrip [of 2000 s 1000 100] by auto
qed

end
