(* ===== verification/Tcp_Life.thy ===== *)
theory Tcp_Life
  imports Tcp_Window
begin

text \<open>
  The lists of connections: who receives a segment, what binding guarantees, and where the timers and the
  receiver of this version fail.
\<close>

section \<open>Finding the receiver\<close>

definition on_list :: "'a tcp_like \<Rightarrow> pcb_list \<Rightarrow> nat list \<Rightarrow> bool" where
  "on_list s l ps \<longleftrightarrow> linked (\<lambda>p. pcb_next (tpcb s p)) (pcb_lists s l) ps \<and> length ps < PCB_MAX"

definition fsm_live :: "tcp_fsm \<Rightarrow> bool" where
  "fsm_live st \<longleftrightarrow> st \<noteq> CLOSED \<and> st \<noteq> LISTEN \<and> st \<noteq> TIME_WAIT"

text \<open>The lists of active, waiting and listening PCBs, whose members are in fitting states.\<close>

definition tcp_lists :: "'a tcp_like \<Rightarrow> nat list \<Rightarrow> nat list \<Rightarrow> nat list \<Rightarrow> bool" where
  "tcp_lists s as ts ls \<longleftrightarrow> on_list s Active_Pcbs as \<and> on_list s Tw_Pcbs ts \<and> on_list s Listen_Pcbs ls \<and>
     (\<forall>p \<in> set as. fsm_live (fsm (tpcb s p))) \<and> (\<forall>p \<in> set ts. fsm (tpcb s p) = TIME_WAIT) \<and> (\<forall>p \<in> set ls. fsm (tpcb s p) = LISTEN)"

definition front :: "nat \<Rightarrow> nat list \<Rightarrow> nat list" where
  "front r ps = r # remove1 r ps"

text \<open>The member before \<open>r\<close>, or 0.\<close>

definition pred_of :: "nat \<Rightarrow> nat list \<Rightarrow> nat" where
  "pred_of r ps = last (0 # takeWhile (\<lambda>x. x \<noteq> r) ps)"

lemma pred_of_split: "r \<notin> set xs \<Longrightarrow> pred_of r (xs @ r # ys) = last (0 # xs)"
  unfolding pred_of_def by (subst takeWhile_append_stop) auto

lemma takeWhile_first_or_0:
  "\<exists>q \<in> set ps. P q \<Longrightarrow> takeWhile (\<lambda>x. \<not> P x) ps = takeWhile (\<lambda>x. x \<noteq> first_or_0 P ps) ps"
proof (induction ps)
  case (Cons q ps)
  show ?case
  proof (cases "P q")
    case False
    then have ex: "\<exists>q \<in> set ps. P q" using Cons.prems by auto
    then have "P (first_or_0 P ps)" by (induction ps) auto
    then show ?thesis using False Cons.IH [OF ex] by auto
  qed simp
qed simp

lemma first_or_0_in: "\<exists>q \<in> set ps. P q \<Longrightarrow> first_or_0 P ps \<in> set ps \<and> P (first_or_0 P ps)"
  by (induction ps) auto

lemma first_or_0_absent: "\<forall>q \<in> set ps. \<not> P q \<Longrightarrow> first_or_0 P ps = 0"
  by (induction ps) auto

lemma find_active_spec:
  assumes "linked (\<lambda>p. pcb_next (U p)) p ps" "length ps < fuel" "\<forall>q \<in> set ps. fsm_live (fsm (U q))"
  shows "find_active fuel p prev P U = Inr (first_or_0 (\<lambda>q. P (U q)) ps, last (prev # takeWhile (\<lambda>q. \<not> P (U q)) ps))"
  using assms
proof (induction ps arbitrary: p fuel prev)
  case Nil
  then show ?case by (cases fuel) auto
next
  case (Cons q ps)
  then show ?case by (cases fuel) (auto simp: fsm_live_def)
qed

lemma find_tw_spec:
  assumes "linked (\<lambda>p. pcb_next (U p)) p ps" "length ps < fuel" "\<forall>q \<in> set ps. fsm (U q) = TIME_WAIT"
  shows "find_tw fuel p P U = Inr (first_or_0 (\<lambda>q. P (U q)) ps)"
  using assms
proof (induction ps arbitrary: p fuel)
  case Nil
  then show ?case by (cases fuel) auto
next
  case (Cons q ps)
  then show ?case by (cases fuel) auto
qed

definition exact_listener :: "u16 \<Rightarrow> u32 \<Rightarrow> tcp_pcb \<Rightarrow> bool" where
  "exact_listener dport dst u \<longleftrightarrow> tlocal_port u = dport \<and> local_ip u = dst"

definition any_listener :: "u16 \<Rightarrow> tcp_pcb \<Rightarrow> bool" where
  "any_listener dport u \<longleftrightarrow> tlocal_port u = dport \<and> local_ip u = IPADDR_ANY"

lemma find_listener_exact:
  assumes "linked (\<lambda>p. pcb_next (U p)) p ps" "length ps < fuel" "\<exists>q \<in> set ps. exact_listener dport dst (U q)"
  shows "find_listener fuel p prev any ap dport dst U =
    Inr (first_or_0 (\<lambda>q. exact_listener dport dst (U q)) ps, last (prev # takeWhile (\<lambda>q. \<not> exact_listener dport dst (U q)) ps))"
  using assms
proof (induction ps arbitrary: p fuel prev any ap)
  case (Cons q ps)
  obtain f where f: "fuel = Suc f" using Cons.prems(2) by (cases fuel) auto
  show ?case
  proof (cases "exact_listener dport dst (U q)")
    case True
    then show ?thesis using Cons.prems f by (simp add: exact_listener_def)
  next
    case False
    then have ih: "find_listener f (pcb_next (U q)) q any' ap' dport dst U =
      Inr (first_or_0 (\<lambda>q. exact_listener dport dst (U q)) ps, last (q # takeWhile (\<lambda>q. \<not> exact_listener dport dst (U q)) ps))" for any' ap'
      using Cons.IH [of "pcb_next (U q)" f q any' ap'] Cons.prems f by auto
    have "find_listener fuel p prev any ap dport dst U = (if any_listener dport (U q) then find_listener f (pcb_next (U q)) q q prev dport dst U
        else find_listener f (pcb_next (U q)) q any ap dport dst U)"
      using False Cons.prems(1) f by (auto simp: exact_listener_def any_listener_def)
    then show ?thesis using False by (simp add: ih)
  qed
qed simp

lemma find_listener_any:
  assumes "linked (\<lambda>p. pcb_next (U p)) p ps" "length ps < fuel" "\<forall>q \<in> set ps. \<not> exact_listener dport dst (U q)" "distinct ps"
  defines "As \<equiv> filter (\<lambda>q. any_listener dport (U q)) ps"
  shows "find_listener fuel p prev any ap dport dst U =
    Inr (last (any # As), if As = [] then ap else last (prev # takeWhile (\<lambda>x. x \<noteq> last As) ps))"
  using assms(1-4) unfolding As_def
proof (induction ps arbitrary: p fuel prev any ap)
  case Nil
  then show ?case by (cases fuel) auto
next
  case (Cons q ps)
  obtain f where f: "fuel = Suc f" using Cons.prems(2) by (cases fuel) auto
  have ih: "find_listener f (pcb_next (U q)) q any' ap' dport dst U =
      Inr (last (any' # filter (\<lambda>q. any_listener dport (U q)) ps),
        if filter (\<lambda>q. any_listener dport (U q)) ps = [] then ap'
        else last (q # takeWhile (\<lambda>x. x \<noteq> last (filter (\<lambda>q. any_listener dport (U q)) ps)) ps))" for any' ap'
    using Cons f by auto
  have ne: "q \<noteq> last (filter (\<lambda>q. any_listener dport (U q)) ps)" if "filter (\<lambda>q. any_listener dport (U q)) ps \<noteq> []"
    using last_in_set [OF that] Cons.prems(4) by auto
  show ?case using Cons.prems f ih ne by (auto simp: exact_listener_def any_listener_def)
qed

text \<open>Moving a member to the front.\<close>

lemma to_front_spec:
  assumes l: "on_list s l ps" "r \<in> set ps"
  defines "s' \<equiv> to_front l (pred_of r ps) r s"
  shows "on_list s' l (front r ps)" "\<exists>U L. s' = s\<lparr>tpcb := U, pcb_lists := L\<rparr>" "(tpcb s' q)\<lparr>pcb_next := pcb_next (tpcb s q)\<rparr> = tpcb s q"
    "q \<notin> set ps \<Longrightarrow> tpcb s' q = tpcb s q" "m \<noteq> l \<Longrightarrow> pcb_lists s' m = pcb_lists s m"
proof -
  have lk: "linked (\<lambda>p. pcb_next (tpcb s p)) (pcb_lists s l) ps" using l(1) by (simp add: on_list_def)
  have d: "distinct ps" and nz: "0 \<notin> set ps" using linked_distinct [OF lk] linked_nonzero [OF lk] by auto
  obtain xs ys where x: "ps = xs @ r # ys" "r \<notin> set xs" using split_list_first [OF l(2)] by blast
  have rm: "remove1 r ps = xs @ ys" using x by (simp add: remove1_append)
  have pv: "pred_of r ps = last (0 # xs)" unfolding x(1) by (rule pred_of_split [OF x(2)])
  show "\<exists>U L. s' = s\<lparr>tpcb := U, pcb_lists := L\<rparr>"
  proof (cases "pred_of r ps = 0")
    case True
    then have "s' = s\<lparr>tpcb := tpcb s, pcb_lists := pcb_lists s\<rparr>" by (simp add: s'_def to_front_def)
    then show ?thesis by blast
  qed (auto simp: s'_def to_front_def set_tpcb_def set_list_def)
  show "(tpcb s' q)\<lparr>pcb_next := pcb_next (tpcb s q)\<rparr> = tpcb s q" by (simp add: s'_def to_front_def set_tpcb_def set_list_def)
  show "pcb_lists s' m = pcb_lists s m" if "m \<noteq> l" using that by (simp add: s'_def to_front_def set_tpcb_def set_list_def)
  have pin: "pred_of r ps \<in> insert 0 (set ps)" unfolding pv using last_in_set [of xs] by (auto simp: x(1))
  show "tpcb s' q = tpcb s q" if "q \<notin> set ps" using that pin l(2) by (auto simp: s'_def to_front_def set_tpcb_def set_list_def)
  show "on_list s' l (front r ps)"
  proof (cases "xs = []")
    case True
    then have "s' = s" by (simp add: s'_def to_front_def pv)
    then show ?thesis using l(1) True by (simp add: front_def rm) (simp add: x(1))
  next
    case False
    have "last xs \<in> set ps" using last_in_set [OF False] by (simp add: x(1))
    then have ne: "last xs \<noteq> 0" "last xs \<noteq> r" using last_in_set [OF False] nz x(2) by metis+
    have e: "(\<lambda>p. pcb_next (tpcb s' p)) = (\<lambda>p. pcb_next (tpcb s p))(last xs := pcb_next (tpcb s r), r := pcb_lists s l)"
      using ne False by (auto simp: s'_def to_front_def pv set_tpcb_def set_list_def)
    have h: "pcb_lists s' l = r" using ne False by (simp add: s'_def to_front_def pv set_tpcb_def set_list_def)
    show ?thesis using linked_front [OF lk [unfolded x(1)] False] l(1) unfolding on_list_def e h front_def rm
      by (simp add: x(1))
  qed
qed

text \<open>
  The receiver that a segment for \<open>dport\<close> from \<open>sport\<close> should have: the connection it belongs to, then one in TIME-WAIT, then a
  listener on its destination, then a listener on any address.
\<close>

definition addressee :: "u16 \<Rightarrow> u16 \<Rightarrow> 'a tcp_like \<Rightarrow> nat list \<Rightarrow> nat list \<Rightarrow> nat list \<Rightarrow> receiver" where
  "addressee sport dport s as ts ls =
     (let P = \<lambda>q. conn_match sport dport (current_src s) (current_dest s) (tpcb s q);
          exact = \<lambda>q. exact_listener dport (current_dest s) (tpcb s q);
          wild = filter (\<lambda>q. any_listener dport (tpcb s q)) ls
      in
        if \<exists>q \<in> set as. P q then To_Active (first_or_0 P as)
        else if \<exists>q \<in> set ts. P q then To_Time_Wait (first_or_0 P ts)
        else if \<exists>q \<in> set ls. exact q then To_Listener (first_or_0 exact ls)
        else if wild \<noteq> [] then To_Listener (last wild)
        else To_None)"

text \<open>The lists when the receiver has been moved to the front of its own.\<close>

fun lists_after :: "receiver \<Rightarrow> nat list \<Rightarrow> nat list \<Rightarrow> nat list \<Rightarrow> 'a tcp_like \<Rightarrow> bool" where
  "lists_after (To_Active r) as ts ls s \<longleftrightarrow> tcp_lists s (front r as) ts ls"
| "lists_after (To_Listener r) as ts ls s \<longleftrightarrow> tcp_lists s as ts (front r ls)"
| "lists_after r as ts ls s \<longleftrightarrow> tcp_lists s as ts ls"

lemma front_set: "r \<in> set ps \<Longrightarrow> set (front r ps) = set ps"
  by (induction ps) (auto simp: front_def)

lemma on_list_next: "on_list s l (r # ps) \<Longrightarrow> pcb_next (tpcb s r) \<noteq> r"
  using linked_distinct [of "\<lambda>p. pcb_next (tpcb s p)" "pcb_lists s l" "r # ps"] by (cases ps) (auto simp: on_list_def)

lemma on_list_member_next:
  assumes "on_list s l ps" "r \<in> set ps"
  shows "pcb_next (tpcb s r) \<noteq> r"
proof -
  obtain xs ys where x: "ps = xs @ r # ys" using split_list [OF assms(2)] by blast
  have "linked (\<lambda>p. pcb_next (tpcb s p)) (pcb_lists s l) (xs @ r # ys)" using assms(1) by (simp add: on_list_def x)
  then have l: "linked (\<lambda>p. pcb_next (tpcb s p)) r (r # ys)" by (rule linked_suffix)
  show ?thesis using l linked_distinct [OF l] by (cases ys) auto
qed

lemma on_list_frame:
  assumes "on_list s l ps" "\<forall>q \<in> set ps. tpcb s' q = tpcb s q" "pcb_lists s' l = pcb_lists s l"
  shows "on_list s' l ps"
  using assms linked_cong [of ps "\<lambda>p. pcb_next (tpcb s p)" "\<lambda>p. pcb_next (tpcb s' p)"] by (simp add: on_list_def)

lemma fsm_of_link: "(u :: tcp_pcb)\<lparr>pcb_next := n\<rparr> = v \<Longrightarrow> fsm u = fsm v"
  by auto

lemma pcb_list_cases: "(l :: pcb_list) = Listen_Pcbs \<or> l = Bound_Pcbs \<or> l = Active_Pcbs \<or> l = Tw_Pcbs"
  by (cases l) auto

lemma to_front_lists:
  assumes "tcp_lists s as ts ls"
  shows "r \<in> set as \<Longrightarrow> tcp_lists (to_front Active_Pcbs (pred_of r as) r s) (front r as) ts ls"
    "r \<in> set ls \<Longrightarrow> tcp_lists (to_front Listen_Pcbs (pred_of r ls) r s) as ts (front r ls)"
proof -
  have l: "on_list s Active_Pcbs as" "on_list s Tw_Pcbs ts" "on_list s Listen_Pcbs ls" using assms by (simp_all add: tcp_lists_def)
  have disj: "set as \<inter> set ts = {}" "set as \<inter> set ls = {}" "set ts \<inter> set ls = {}"
    using assms by (auto simp: tcp_lists_def fsm_live_def)
  { assume r: "r \<in> set as"
    note t = to_front_spec [OF l(1) r]
    have st: "fsm (tpcb (to_front Active_Pcbs (pred_of r as) r s) q) = fsm (tpcb s q)" for q by (rule fsm_of_link [OF t(3)])
    show "tcp_lists (to_front Active_Pcbs (pred_of r as) r s) (front r as) ts ls"
      using assms t(1) on_list_frame [OF l(2) _ t(5)] on_list_frame [OF l(3) _ t(5)] t(4) disj
      by (simp add: tcp_lists_def st front_set [OF r] disjoint_iff) blast }
  { assume r: "r \<in> set ls"
    note t = to_front_spec [OF l(3) r]
    have st: "fsm (tpcb (to_front Listen_Pcbs (pred_of r ls) r s) q) = fsm (tpcb s q)" for q by (rule fsm_of_link [OF t(3)])
    show "tcp_lists (to_front Listen_Pcbs (pred_of r ls) r s) as ts (front r ls)"
      using assms t(1) on_list_frame [OF l(1) _ t(5)] on_list_frame [OF l(2) _ t(5)] t(4) disj
      by (simp add: tcp_lists_def st front_set [OF r] disjoint_iff) }
qed

text \<open>
  C5. With well-formed lists every segment finds its receiver: the connection with its four addresses, in particular before any
  listener; else the connection in TIME-WAIT with them; else a listener on its destination address and port, and only
  if there is none a listener on any address; else nobody. The search never fails. An active connection and a listener move to the front
  of their list, whose other members stay in order; the other lists stay as they are, and no field of any PCB changes
  but the links.
\<close>

theorem tcp_demux_correct:
  assumes lists: "tcp_lists s as ts ls"
  shows "\<exists>U L. tcp_demux sport dport s = Inr (addressee sport dport s as ts ls, s\<lparr>tpcb := U, pcb_lists := L\<rparr>) \<and>
    lists_after (addressee sport dport s as ts ls) as ts ls (s\<lparr>tpcb := U, pcb_lists := L\<rparr>) \<and>
    (\<forall>q. (U q)\<lparr>pcb_next := pcb_next (tpcb s q)\<rparr> = tpcb s q)"
proof -
  let ?P = "conn_match sport dport (current_src s) (current_dest s)"
  let ?p = "\<lambda>q. ?P (tpcb s q)" and ?e = "\<lambda>q. exact_listener dport (current_dest s) (tpcb s q)"
  let ?w = "filter (\<lambda>q. any_listener dport (tpcb s q)) ls"
  have l: "on_list s Active_Pcbs as" "on_list s Tw_Pcbs ts" "on_list s Listen_Pcbs ls" using lists by (simp_all add: tcp_lists_def)
  have nz: "0 \<notin> set as" "0 \<notin> set ts" "0 \<notin> set ls" and dl: "distinct ls"
    using l linked_nonzero linked_distinct by (auto simp: on_list_def)
  have fa: "find_active PCB_MAX (pcb_lists s Active_Pcbs) 0 ?P (tpcb s) = Inr (first_or_0 ?p as, last (0 # takeWhile (\<lambda>q. \<not> ?p q) as))"
    by (rule find_active_spec) (use l(1) lists in \<open>auto simp: on_list_def tcp_lists_def\<close>)
  have ft: "find_tw PCB_MAX (pcb_lists s Tw_Pcbs) ?P (tpcb s) = Inr (first_or_0 ?p ts)"
    by (rule find_tw_spec) (use l(2) lists in \<open>auto simp: on_list_def tcp_lists_def\<close>)
  have ll: "linked (\<lambda>p. pcb_next (tpcb s p)) (pcb_lists s Listen_Pcbs) ls" "length ls < PCB_MAX" using l(3) by (simp_all add: on_list_def)
  have same: "\<exists>U L. Inr (r, s) = Inr (r, s\<lparr>tpcb := U, pcb_lists := L\<rparr>) \<and> tcp_lists (s\<lparr>tpcb := U, pcb_lists := L\<rparr>) as ts ls \<and>
      (\<forall>q. (U q)\<lparr>pcb_next := pcb_next (tpcb s q)\<rparr> = tpcb s q)" for r
    by (rule exI [of _ "tpcb s"], rule exI [of _ "pcb_lists s"]) (simp add: lists)
  have moved: "\<exists>U L. to_front m (pred_of r ps) r s = s\<lparr>tpcb := U, pcb_lists := L\<rparr> \<and>
      (\<forall>q. (U q)\<lparr>pcb_next := pcb_next (tpcb s q)\<rparr> = tpcb s q)" if "on_list s m ps" "r \<in> set ps" for m r ps
    using to_front_spec(2,3) [OF that] by fastforce
  have fin: ?thesis if d: "tcp_demux sport dport s = Inr (R, to_front m (pred_of r ps) r s)" "addressee sport dport s as ts ls = R"
      "lists_after R as ts ls (to_front m (pred_of r ps) r s)" "on_list s m ps" "r \<in> set ps" for R m r ps
  proof -
    obtain U L where "to_front m (pred_of r ps) r s = s\<lparr>tpcb := U, pcb_lists := L\<rparr>" "\<forall>q. (U q)\<lparr>pcb_next := pcb_next (tpcb s q)\<rparr> = tpcb s q"
      using moved [OF d(4,5)] by blast
    then show ?thesis using d by (intro exI [of _ U] exI [of _ L]) simp
  qed
  consider (a) "\<exists>q \<in> set as. ?p q" | (t) "\<forall>q \<in> set as. \<not> ?p q" "\<exists>q \<in> set ts. ?p q"
    | (n) "\<forall>q \<in> set as. \<not> ?p q" "\<forall>q \<in> set ts. \<not> ?p q" by blast
  then show ?thesis
  proof cases
    case a
    define r where "r = first_or_0 ?p as"
    have r: "r \<in> set as" unfolding r_def using first_or_0_in [OF a] by blast
    have rn: "r \<noteq> 0" using r nz(1) by metis
    have ad: "addressee sport dport s as ts ls = To_Active r" using a by (simp add: addressee_def r_def)
    have pv: "last (0 # takeWhile (\<lambda>q. \<not> ?p q) as) = pred_of r as" unfolding takeWhile_first_or_0 [OF a] r_def pred_of_def ..
    have nx: "pcb_next (tpcb s r) \<noteq> r" by (rule on_list_member_next [OF l(1) r])
    have nx': "pcb_next (tpcb (to_front Active_Pcbs (pred_of r as) r s) r) \<noteq> r"
      using on_list_next to_front_spec(1) [OF l(1) r] unfolding front_def by blast
    have "tcp_demux sport dport s = Inr (To_Active r, to_front Active_Pcbs (pred_of r as) r s)"
      unfolding tcp_demux_def Let_def fa pv r_def [symmetric] using rn nx nx' by simp
    then show ?thesis by (rule fin [OF _ ad _ l(1) r]) (use to_front_lists(1) [OF lists r] in simp)
  next
    case t
    have r: "first_or_0 ?p ts \<noteq> 0" using first_or_0_in [OF t(2)] nz(2) by metis
    have ad: "addressee sport dport s as ts ls = To_Time_Wait (first_or_0 ?p ts)" using t by (auto simp: addressee_def Let_def)
    have "tcp_demux sport dport s = Inr (To_Time_Wait (first_or_0 ?p ts), s)"
      unfolding tcp_demux_def Let_def fa ft using r by (simp add: first_or_0_absent [OF t(1)])
    then show ?thesis unfolding ad using same by simp
  next
    case n
    have d: "tcp_demux sport dport s = rbind (find_listener PCB_MAX (pcb_lists s Listen_Pcbs) 0 0 0 dport (current_dest s) (tpcb s)) (\<lambda>(l, prev).
        if l \<noteq> 0 then Inr (To_Listener l, to_front Listen_Pcbs prev l s) else Inr (To_None, s))"
      unfolding tcp_demux_def Let_def fa ft by (simp add: first_or_0_absent [OF n(1)] first_or_0_absent [OF n(2)])
    show ?thesis
    proof (cases "\<exists>q \<in> set ls. ?e q")
      case True
      define r where "r = first_or_0 ?e ls"
      have r: "r \<in> set ls" unfolding r_def using first_or_0_in [OF True] by blast
      have rn: "r \<noteq> 0" using r nz(3) by metis
      have ad: "addressee sport dport s as ts ls = To_Listener r" using n True by (auto simp: addressee_def Let_def r_def)
      have pv: "last (0 # takeWhile (\<lambda>q. \<not> ?e q) ls) = pred_of r ls" unfolding takeWhile_first_or_0 [OF True] r_def pred_of_def ..
      have "tcp_demux sport dport s = Inr (To_Listener r, to_front Listen_Pcbs (pred_of r ls) r s)"
        unfolding d find_listener_exact [OF ll True] pv r_def [symmetric] using rn by simp
      then show ?thesis by (rule fin [OF _ ad _ l(3) r]) (use to_front_lists(2) [OF lists r] in simp)
    next
      case False
      then have no: "\<forall>q \<in> set ls. \<not> ?e q" by blast
      note fl = find_listener_any [OF ll no dl, of 0 0 0]
      show ?thesis
      proof (cases "?w = []")
        case True
        have ad: "addressee sport dport s as ts ls = To_None" using n False True by (auto simp: addressee_def Let_def)
        have "tcp_demux sport dport s = Inr (To_None, s)" unfolding d fl using True by simp
        then show ?thesis unfolding ad using same by simp
      next
        case w: False
        define r where "r = last ?w"
        have r: "r \<in> set ls" using last_in_set [OF w] by (auto simp: r_def)
        have rn: "r \<noteq> 0" using r nz(3) by metis
        have ad: "addressee sport dport s as ts ls = To_Listener r" using n False w by (auto simp: addressee_def Let_def r_def)
        have "tcp_demux sport dport s = Inr (To_Listener r, to_front Listen_Pcbs (pred_of r ls) r s)"
          unfolding d fl using w rn by (simp add: r_def [symmetric] pred_of_def)
        then show ?thesis by (rule fin [OF _ ad _ l(3) r]) (use to_front_lists(2) [OF lists r] in simp)
      qed
    qed
  qed
qed

text \<open>One connection, and two listeners on port 80.\<close>

definition demux_pcbs :: "nat \<Rightarrow> tcp_pcb" where
  "demux_pcbs p =
     (if p = 100 then (new_pcb 64 0 0 0)\<lparr>fsm := ESTABLISHED, tlocal_port := 80, tremote_port := 2000, local_ip := 0x0200a8c0, remote_ip := 0x0300a8c0\<rparr>
      else (new_pcb 64 0 0 0)\<lparr>fsm := LISTEN, tlocal_port := 80, local_ip := (if p = 300 then 0 else 0x0200a8c0), pcb_next := (if p = 300 then 400 else 0)\<rparr>)"

definition demux_sample :: tcp_state where
  "demux_sample = tcp_sample sample demux_pcbs (\<lambda>_. undefined) (\<lambda>l. case l of Active_Pcbs \<Rightarrow> 100 | Listen_Pcbs \<Rightarrow> 300 | _ \<Rightarrow> 0)"

lemma demux_sample_lists: "tcp_lists demux_sample [100] [] [300, 400]"
  by (simp add: tcp_lists_def on_list_def demux_sample_def demux_pcbs_def new_pcb_def fsm_live_def)

theorem tcp_demux_witness:
  "\<exists>s'. tcp_demux 2001 80 demux_sample = Inr (To_Listener 400, s') \<and> tcp_lists s' [100] [] [400, 300]"
proof -
  have "addressee 2001 80 demux_sample [100] [] [300, 400] = To_Listener 400"
    by (simp add: addressee_def demux_sample_def demux_pcbs_def new_pcb_def conn_match_def exact_listener_def)
  then show ?thesis using tcp_demux_correct [OF demux_sample_lists, of 2001 80] by (auto simp: front_def)
qed

section \<open>The fast timer\<close>

lemma fast_spin:
  "pcb \<noteq> 0 \<Longrightarrow> last_timer (tpcb s pcb) = tcp_timer_ctr s \<Longrightarrow> fast_loop fuel E pcb s = Inl No_Fuel"
  by (induction fuel) auto

text \<open>The state in which the fast timer of \<open>s\<close> offers the refused data of \<open>pcb\<close> again.\<close>

definition offering :: "nat \<Rightarrow> 'a tcp_like \<Rightarrow> 'a tcp_like" where
  "offering pcb s = set_tpcb pcb (\<lambda>u. u\<lparr>last_timer := tcp_timer_ctr s + 1, refused_data := 0\<rparr>)
     (s\<lparr>tcp_timer_ctr := tcp_timer_ctr s + 1, tcp_active_pcbs_changed := False\<rparr>)"

text \<open>
  C39. The fast timer does not return when the application takes refused data and changes the list of
  active connections while it does: the loop starts again, and at a PCB that it has already visited in this round, such as the first of the list
  here, it never moves on. With any fuel the model runs out of it.
\<close>

theorem fasttmr_restart_diverges:
  assumes first: "pcb_lists s Active_Pcbs = pcb" "pcb \<noteq> 0" "last_timer (tpcb s pcb) \<noteq> tcp_timer_ctr s + 1"
    and data: "refused_data (tpcb s pcb) = p" "p \<noteq> 0" "pflags (the_pbuf s p) AND PBUF_FLAG_TCP_FIN = 0" "\<not> has_flag TF_ACK_DELAY (tpcb s pcb)"
    and callback: "trecv (tpcb s pcb) = fn" "fn \<noteq> 0" "fn \<noteq> TCP_RECV_NULL"
      "recv_fn E fn (callback_arg (tpcb s pcb)) pcb p ERR_OK (offering pcb s) = Inr (e, s2)"
    and changed: "tcp_active_pcbs_changed s2" "pcb_lists s2 Active_Pcbs = r" "r \<noteq> 0" "tcp_timer_ctr s2 = last_timer (tpcb s2 r)"
  shows "tcp_fasttmr fuel E s = Inl No_Fuel"
proof (cases fuel)
  case 0
  then show ?thesis by (simp add: tcp_fasttmr_def)
next
  case (Suc n)
  define s1 where "s1 = set_tpcb pcb (\<lambda>u. u\<lparr>last_timer := tcp_timer_ctr s + 1\<rparr>) (s\<lparr>tcp_timer_ctr := tcp_timer_ctr s + 1\<rparr>)"
  have s1: "refused_data (tpcb s1 pcb) = p" "the_pbuf s1 p = the_pbuf s p" "\<not> has_flag TF_ACK_DELAY (tpcb s1 pcb)"
    "trecv (tpcb s1 pcb) = fn" "callback_arg (tpcb s1 pcb) = callback_arg (tpcb s pcb)"
    using data callback(1) by (simp_all add: s1_def set_tpcb_def the_pbuf_def has_flag_def)
  have off: "set_tpcb pcb (\<lambda>u. u\<lparr>refused_data := 0\<rparr>) (s1\<lparr>tcp_active_pcbs_changed := False\<rparr>) = offering pcb s"
    by (simp add: s1_def offering_def set_tpcb_def)
  have call: "TCP_EVENT_RECV E pcb p ERR_OK (offering pcb s) = Inr (e, s2)"
    using callback by (simp add: TCP_EVENT_RECV_def call_recv_def offering_def set_tpcb_def)
  obtain e' f where refused: "tcp_process_refused_data E pcb (s1\<lparr>tcp_active_pcbs_changed := False\<rparr>) = Inr (e', set_tpcb pcb f s2)"
    "\<forall>u. last_timer (f u) = last_timer u"
  proof -
    have "tcp_process_refused_data E pcb (s1\<lparr>tcp_active_pcbs_changed := False\<rparr>) =
      (if e = ERR_OK then Inr (ERR_OK, set_tpcb pcb (\<lambda>u. u) s2) else if e = ERR_ABRT then Inr (ERR_ABRT, set_tpcb pcb (\<lambda>u. u) s2)
       else Inr (ERR_OK, set_tpcb pcb (\<lambda>u. u\<lparr>refused_data := p\<rparr>) s2))"
      using s1 data(3) off call by (simp add: tcp_process_refused_data_def Let_def set_tpcb_def the_pbuf_def)
    then show thesis using that by (auto split: if_splits)
  qed
  have step: "tcp_fasttmr fuel E s = fast_loop n E r (set_tpcb pcb f s2)"
    using first s1 refused changed data(2) unfolding tcp_fasttmr_def Suc Let_def
    by (simp add: s1_def [symmetric]) (simp add: set_tpcb_def s1_def)
  show ?thesis unfolding step by (rule fast_spin) (use changed refused(2) in \<open>auto simp: set_tpcb_def\<close>)
qed

text \<open>An application whose receive callback takes the data and opens or closes another connection.\<close>

definition busy_app :: "tcp_state tcp_app" where
  "busy_app = \<lparr>linkf = \<lambda>_ _. ERR_OK, accept_fn = \<lambda>_ _ _ _ s. Inr (ERR_OK, s), sent_fn = \<lambda>_ _ _ _ s. Inr (ERR_OK, s),
     recv_fn = \<lambda>_ _ _ _ _ s. Inr (ERR_OK, s\<lparr>tcp_active_pcbs_changed := True\<rparr>), connected_fn = \<lambda>_ _ _ _ s. Inr (ERR_OK, s),
     poll_fn = \<lambda>_ _ _ s. Inr (ERR_OK, s), err_fn = \<lambda>_ _ _ s. Inr s\<rparr>"

definition refused_sample :: tcp_state where
  "refused_sample = set_pbuf 2000 (\<lambda>p. p\<lparr>pflags := 0\<rparr>)
     (tcp_sample sample (\<lambda>_. (new_pcb 64 0 0 0)\<lparr>fsm := ESTABLISHED, refused_data := 2000, trecv := 7\<rparr>) (\<lambda>_. undefined) (\<lambda>_. 100))"

theorem fasttmr_restart_witness: "\<forall>fuel. tcp_fasttmr fuel busy_app refused_sample = Inl No_Fuel"
proof
  fix fuel
  define s2 where "s2 = (offering 100 refused_sample)\<lparr>tcp_active_pcbs_changed := True\<rparr>"
  show "tcp_fasttmr fuel busy_app refused_sample = Inl No_Fuel"
  proof (rule fasttmr_restart_diverges [where p = 2000 and fn = 7 and pcb = 100 and r = 100 and e = ERR_OK and ?s2.0 = s2])
    show "recv_fn busy_app 7 (callback_arg (tpcb refused_sample 100)) 100 2000 ERR_OK (offering 100 refused_sample) = Inr (ERR_OK, s2)"
      by (simp add: busy_app_def s2_def)
  qed (simp_all add: refused_sample_def s2_def offering_def set_tpcb_def set_pbuf_def the_pbuf_def new_pcb_def has_flag_def set_arp_def set_pbs_def)
qed

section \<open>Data out of sequence\<close>

text \<open>
  The check that a segment at the end of the out-of-sequence queue fits into the receive window compares unsigned numbers, which
  goes wrong when the right edge of the window has wrapped around and the segment has not: then a segment of \<open>len\<close> bytes that
  lies wholly inside the window is recorded as reaching to the right edge, \<open>d\<close> bytes long with \<open>d > len\<close>, while its pbuf still
  holds what it held. When the queue is delivered, \<^verbatim>\<open>rcv_nxt\<close> moves over bytes that were never received.
\<close>

theorem fit_window_wrap_flaw:
  assumes seg: "slen (segs s c) = len" "sp (segs s c) = p" "p \<noteq> 0" "TCPH_FLAGS (shdr (segs s c)) s AND (TCP_FIN OR TCP_SYN) = 0"
    and lens: "unat (tcplen s) = len" "tot_len (the_pbuf s p) \<le> d" "len < d" "d < 65536"
    and wrap: "rcv_nxt (tpcb s pcb) + ucast (rcv_wnd (tpcb s pcb)) = seqno s + word_of_nat d"
      "unat (seqno s) + len < 2 ^ 32" "2 ^ 32 \<le> unat (seqno s) + d"
  shows "\<exists>s'. fit_window pcb c s = Inr s' \<and> TCP_TCPLEN (segs s' c) s' = d \<and> the_pbuf s' p = the_pbuf s p"
proof -
  let ?right = "seqno s + word_of_nat d"
  have r: "unat ?right = unat (seqno s) + d - 2 ^ 32"
    using wrap(3) lens(4) unat_less_2p32 [of "seqno s"] by (simp add: unat_word_ariths unat_of_nat take_bit_nat_eq_self mod_if)
  have e: "unat (ucast (tcplen s) + seqno s) = len + unat (seqno s)"
    using wrap(2) lens(1) by (simp add: unat_word_ariths)
  have gt: "ucast (tcplen s) + seqno s > ?right"
    unfolding word_less_nat_alt r e using lens(4) unat_less_2p32 [of "seqno s"] wrap(3) by simp
  have fin: "\<not> hdr_flag TCP_FIN (segs s c) s"
  proof
    assume "hdr_flag TCP_FIN (segs s c) s"
    moreover have "x AND TCP_FIN = (x AND (TCP_FIN OR TCP_SYN)) AND TCP_FIN" for x :: u16
      by (simp add: and.assoc)
    ultimately show False using seg(4) unfolding hdr_flag_def by (metis and_zero_eq and.commute)
  qed
  have cast: "ucast (?right - seqno s) = (word_of_nat d :: u16)" "unat (word_of_nat d :: u16) = d"
    using lens(4) by (simp_all add: unat_of_nat take_bit_nat_eq_self word_unat_eq_iff unsigned_ucast_eq)
  define s1 where "s1 = set_seg c (\<lambda>x. x\<lparr>slen := d\<rparr>) s"
  have "pbuf_realloc p d (pb (arp s1)) = Inr (pb (arp s))"
    using seg(3) lens(2) by (simp add: pbuf_realloc_def s1_def set_seg_def the_pbuf_def)
  then have cut: "cut_seg c (word_of_nat d) s = Inr s1"
    using seg(2) by (simp add: cut_seg_def do_pbs_def cast(2) s1_def set_seg_def set_arp_def set_pbs_def)
  have len: "TCP_TCPLEN (segs s1 c) (s1\<lparr>tcplen := x\<rparr>) = d" "TCP_TCPLEN (segs s1 c) s1 = d" for x
    using seg(4) by (simp_all add: TCP_TCPLEN_def s1_def set_seg_def TCPH_FLAGS_def mem_u16_def memory_def)
  have "fit_window pcb c s = Inr (s1\<lparr>tcplen := word_of_nat d\<rparr>)"
    using gt fin cut cast len(2) lens(4) by (simp add: fit_window_def Let_def wrap(1) seg_tcplen_def s1_def set_seg_def unsigned_of_nat take_bit_nat_eq_self)
  then show ?thesis using len by (intro exI [of _ "s1\<lparr>tcplen := word_of_nat d\<rparr>"]) (simp add: s1_def set_seg_def the_pbuf_def)
qed

text \<open>A segment of 100 bytes, 200 below 2^32, in a window that ends at 3096.\<close>

definition wrap_sample :: tcp_state where
  "wrap_sample = (put 3012 [0x50, 0x10] (set_pbuf 2000 (\<lambda>p. p\<lparr>tot_len := 100\<rparr>)
     (tcp_sample sample (\<lambda>_. (new_pcb 64 0 0 0)\<lparr>rcv_nxt := 0xfffffc18\<rparr>) (\<lambda>_. \<lparr>seg_next = 0, sp = 2000, slen = 100, soptflags = 0, shdr = 3000\<rparr>)
       (\<lambda>_. 100))))\<lparr>seqno := 0xffffff38, tcplen := 100\<rparr>"

lemma tcp_sample_pbuf:
  "tpcb (set_arp a s) = tpcb s" "segs (set_arp a s) = segs s" "arp (set_arp a s) = a" "pb (set_pbs b a) = b"
  by (simp_all add: set_arp_def set_pbs_def)

theorem fit_window_wrap_witness:
  "\<exists>s'. fit_window 100 50 wrap_sample = Inr s' \<and> TCP_TCPLEN (segs s' 50) s' = 3296"
proof -
  have g: "segs wrap_sample 50 = \<lparr>seg_next = 0, sp = 2000, slen = 100, soptflags = 0, shdr = 3000\<rparr>"
    by (simp add: wrap_sample_def put_def set_pbuf_def tcp_sample_pbuf)
  have "lwip_ntohs 0x1050 = 0x5010" by (simp add: lwip_ntohs_def lwip_htons_def)
  then have "TCPH_FLAGS 3000 wrap_sample AND (TCP_FIN OR TCP_SYN) = 0"
    by (simp add: TCPH_FLAGS_def mem_u16_def memory_def wrap_sample_def put_def set_arp_def poke_def write_bytes_def)
  moreover have "tot_len (the_pbuf wrap_sample 2000) = 100"
    by (simp add: the_pbuf_def wrap_sample_def put_def set_pbuf_def tcp_sample_pbuf)
  moreover have "tpcb wrap_sample 100 = (new_pcb 64 0 0 0)\<lparr>rcv_nxt := 0xfffffc18\<rparr>"
    by (simp add: wrap_sample_def put_def set_pbuf_def tcp_sample_pbuf)
  ultimately show ?thesis
    using fit_window_wrap_flaw [of wrap_sample 50 100 2000 3296 100] g by (auto simp: wrap_sample_def new_pcb_def)
qed

text \<open>
  The first segment out of sequence is queued as it came, however far it runs over the receive window; when the gap
  before it is filled, the check that the rest of the window can take it fails and stops the process: a peer that ignores
  the window can do this at will.
\<close>

theorem ooseq_overrun_aborts:
  assumes ok: "window_ok (tpcb s pcb)" and queue: "ooseq (tpcb s pcb) = c" "c \<noteq> 0" "slen (segs s c) = n" "0 < n" "n < 65535"
    "in_seqno (segs s c) s = seqno s + word_of_nat gap"
    and hole: "seqno s = rcv_nxt (tpcb s pcb)" "slen (inseg s) = gap" "TCPH_FLAGS (shdr (inseg s)) s AND (TCP_FIN OR TCP_SYN) = 0"
    "gap \<le> unat (rcv_wnd (tpcb s pcb))" and over: "unat (rcv_wnd (tpcb s pcb)) < gap + n"
  shows "receive_in_order pcb s = Inl Abort"
proof -
  let ?u = "tpcb s pcb"
  define w :: u16 where "w = word_of_nat gap"
  have gap: "gap < 65536" using hole(4) unat_less_65536 [of "rcv_wnd ?u"] by linarith
  then have w: "unat w = gap" "ucast w = (word_of_nat gap :: u32)" "w \<le> rcv_wnd ?u"
    using hole(4) by (simp_all add: w_def unat_of_nat take_bit_nat_eq_self word_unat_eq_iff word_le_nat_alt)
  have len: "seg_tcplen (inseg s) s = w" using hole(2,3) by (simp add: seg_tcplen_def TCP_TCPLEN_def w_def)
  define s1 where "s1 = s\<lparr>tcplen := w\<rparr>"
  have "\<not> rcv_wnd ?u < w" using w(3) by (rule leD)
  then have trim: "trim_to_window pcb s = Inr s1" by (simp add: trim_to_window_def Let_def len s1_def)
  have fin: "\<not> hdr_flag TCP_FIN (inseg s1) s1"
  proof
    assume "hdr_flag TCP_FIN (inseg s1) s1"
    moreover have "x AND TCP_FIN = (x AND (TCP_FIN OR TCP_SYN)) AND TCP_FIN" for x :: u16 by (simp add: and.assoc)
    ultimately show False using hole(3) unfolding hdr_flag_def s1_def TCPH_FLAGS_def mem_u16_def memory_def
      by (simp del: bit.conj_zero_left) (metis and_zero_eq and.commute)
  qed
  have start: "in_seqno (segs s1 c) s1 = seqno s1 + ucast (tcplen s1)" using queue(6) w(2) by (simp add: s1_def in_seqno_def mem_u32_def memory_def)
  have "\<not> TCP_SEQ_GEQ (seqno s1 + ucast (tcplen s1)) (in_seqno (segs s1 c) s1 + word_of_nat (slen (segs s1 c)))"
  proof -
    have "slen (segs s1 c) = n" using queue(3) by (simp add: s1_def)
    then show ?thesis using queue(4,5) sint_small [of "- int n"] unfolding TCP_SEQ_GEQ_def start by simp
  qed
  then have cover: "cover_loop SEG_MAX c s1 = Inr (c, s1)" by (simp add: eval_nat_numeral)
  have nogt: "\<not> TCP_SEQ_GT (seqno s1 + ucast (tcplen s1)) (in_seqno (segs s1 c) s1)" unfolding TCP_SEQ_GT_def start by simp
  have u1: "tpcb s1 = tpcb s" by (simp add: s1_def)
  have "set_tpcb pcb (\<lambda>u. u\<lparr>ooseq := c\<rparr>) s1 = s1" using queue(1) by (simp add: set_tpcb_def u1 fun_upd_idem)
  then have adjust: "adjust_ooseq pcb s1 = Inr s1"
    using queue(1,2) fin cover nogt by (simp add: adjust_ooseq_def u1 Let_def)
  have nx: "seqno s1 = rcv_nxt (tpcb s1 pcb)" "tcplen s1 = w" using hole(1) by (simp_all add: s1_def)
  obtain a where adv: "advance pcb (seqno s1 + ucast (tcplen s1)) (tcplen s1) s1 =
      Inr (set_tpcb pcb (\<lambda>u. u\<lparr>rcv_nxt := rcv_nxt u + ucast w, rcv_wnd := rcv_wnd u - w, rcv_ann_wnd := a\<rparr>) s1)"
    using advance_spec [of s1 pcb w] ok w(3) unfolding u1 nx by blast
  define s2 where "s2 = set_tpcb pcb (\<lambda>u. u\<lparr>rcv_nxt := rcv_nxt u + ucast w, rcv_wnd := rcv_wnd u - w, rcv_ann_wnd := a\<rparr>) s1"
  have s2: "ooseq (tpcb s2 pcb) = c" "rcv_nxt (tpcb s2 pcb) = in_seqno (segs s2 c) s2" "slen (segs s2 c) = n" "rcv_wnd (tpcb s2 pcb) = rcv_wnd ?u - w"
    using queue start nx by (simp_all add: s2_def set_tpcb_def u1 in_seqno_def mem_u32_def memory_def) (simp add: s1_def)
  have stop: "ooseq_loop SEG_MAX pcb s3 = Inl Abort" if s3: "tpcb s3 = tpcb s2" "segs s3 = segs s2" "arp s3 = arp s2" for s3
  proof -
    have t: "TCP_TCPLEN (segs s3 c) s3 \<in> {n, Suc n}" using s2(3) s3 by (auto simp: TCP_TCPLEN_def)
    then have "unat (seg_tcplen (segs s3 c) s3) \<ge> n" using queue(5) by (auto simp: seg_tcplen_def unat_of_nat take_bit_nat_eq_self)
    moreover have "unat (rcv_wnd ?u - w) = unat (rcv_wnd ?u) - gap" using w by (simp add: unat_sub word_le_nat_alt)
    ultimately have "\<not> rcv_wnd (tpcb s3 pcb) \<ge> seg_tcplen (segs s3 c) s3" using over queue(4) s3 s2(4) by (simp add: word_le_nat_alt)
    moreover have "in_seqno (segs s3 c) s3 = rcv_nxt (tpcb s3 pcb)" "ooseq (tpcb s3 pcb) = c"
      using s2 s3 by (simp_all add: in_seqno_def mem_u32_def memory_def)
    ultimately show ?thesis using queue(2) by (simp add: eval_nat_numeral Let_def advance_def set_tpcb_def)
  qed
  show ?thesis unfolding receive_in_order_def trim rbind_Inr adjust adv s2_def [symmetric] Let_def
    by (subst stop) (simp_all add: set_inseg_def)
qed

text \<open>A segment of 1000 bytes waits 4000 bytes behind the next number; the segment that comes fills the gap.\<close>

definition overrun_sample :: tcp_state where
  "overrun_sample = (put 5000 (host_bytes32 4000) (put 3012 [0x50, 0x10]
     (tcp_sample sample (\<lambda>_. (new_pcb 64 0 0 0)\<lparr>ooseq := 50\<rparr>) (\<lambda>_. \<lparr>seg_next = 0, sp = 2000, slen = 1000, soptflags = 0, shdr = 4996\<rparr>)
       (\<lambda>_. 100))))\<lparr>seqno := 0, inseg := \<lparr>seg_next = 0, sp = 2000, slen = 4000, soptflags = 0, shdr = 3000\<rparr>\<rparr>"

theorem ooseq_overrun_witness: "receive_in_order 100 overrun_sample = Inl Abort"
proof -
  have mem: "memory overrun_sample 3012 = 0x50" "memory overrun_sample 3013 = 0x10" "memory overrun_sample 5000 = 0xa0"
    "memory overrun_sample 5001 = 0x0f" "memory overrun_sample 5002 = 0" "memory overrun_sample 5003 = 0"
    by (simp_all add: memory_def overrun_sample_def put_def set_arp_def poke_def write_bytes_def host_bytes32_def)
  have "lwip_ntohs 0x1050 = 0x5010" by (simp add: lwip_ntohs_def lwip_htons_def)
  then have flags: "TCPH_FLAGS 3000 overrun_sample AND (TCP_FIN OR TCP_SYN) = 0" by (simp add: TCPH_FLAGS_def mem_u16_def mem)
  have start: "mem_u32 5000 overrun_sample = 4000" by (simp add: mem_u32_def load_u32_def mem)
  have "tpcb overrun_sample 100 = (new_pcb 64 0 0 0)\<lparr>ooseq := 50\<rparr>" "segs overrun_sample 50 = \<lparr>seg_next = 0, sp = 2000, slen = 1000, soptflags = 0, shdr = 4996\<rparr>"
    "seqno overrun_sample = 0" "inseg overrun_sample = \<lparr>seg_next = 0, sp = 2000, slen = 4000, soptflags = 0, shdr = 3000\<rparr>"
    by (simp_all add: overrun_sample_def put_def tcp_sample_pbuf)
  then show ?thesis
    using flags start by (intro ooseq_overrun_aborts [where c = 50 and n = 1000 and gap = 4000])
      (simp_all add: window_ok_def unannounced_def new_pcb_def in_seqno_def)
qed

end
