(* ===== verification/Tcp_Bind.thy ===== *)
theory Tcp_Bind
  imports Tcp_Life
begin

text \<open>
  Binding TCP connections: automatic ports are free on every list, addresses are shared only when both sides allow
  it, and what goes wrong when a connection is bound twice.
\<close>

section \<open>Automatic ports\<close>

text \<open>The members of the four lists.\<close>

definition all_lists :: "'a tcp_like \<Rightarrow> (pcb_list \<Rightarrow> nat list) \<Rightarrow> bool" where
  "all_lists s M \<longleftrightarrow> (\<forall>l. on_list s l (M l))"

definition tcp_ports :: "'a tcp_like \<Rightarrow> (pcb_list \<Rightarrow> nat list) \<Rightarrow> pcb_list list \<Rightarrow> u16 set" where
  "tcp_ports s M ls = (\<Union>l \<in> set ls. (\<lambda>p. tlocal_port (tpcb s p)) ` set (M l))"

abbreviation four_lists :: "pcb_list list" where
  "four_lists \<equiv> [Listen_Pcbs, Bound_Pcbs, Active_Pcbs, Tw_Pcbs]"

lemma tport_taken_spec:
  "linked (\<lambda>p. pcb_next (U p)) p ps \<Longrightarrow> length ps < fuel \<Longrightarrow>
     tport_taken fuel p port U = Inr (port \<in> (\<lambda>p. tlocal_port (U p)) ` set ps)"
proof (induction ps arbitrary: p fuel)
  case Nil
  then show ?case by (cases fuel) auto
next
  case (Cons q ps)
  then show ?case by (cases fuel) auto
qed

lemma taken_in_spec:
  "all_lists s M \<Longrightarrow> taken_in ls port s = Inr (port \<in> tcp_ports s M ls)"
proof (induction ls)
  case (Cons l ls)
  have "tport_taken PCB_MAX (pcb_lists s l) port (tpcb s) = Inr (port \<in> (\<lambda>p. tlocal_port (tpcb s p)) ` set (M l))"
    by (rule tport_taken_spec) (use Cons.prems in \<open>auto simp: all_lists_def on_list_def\<close>)
  then show ?case using Cons by (auto simp: tcp_ports_def)
qed (simp add: tcp_ports_def)

lemma tcp_new_port_loop_spec:
  assumes "all_lists s M" "(next_port ^^ Suc m) (tcp_port s) \<notin> tcp_ports s M four_lists"
    "\<forall>j < m. (next_port ^^ Suc j) (tcp_port s) \<in> tcp_ports s M four_lists" "m < fuel" "n + m \<le> 0x3fff"
  shows "tcp_new_port_loop fuel n s = Inr ((next_port ^^ Suc m) (tcp_port s), s\<lparr>tcp_port := (next_port ^^ Suc m) (tcp_port s)\<rparr>)"
  using assms
proof (induction m arbitrary: s n fuel)
  case 0
  then obtain f where f: "fuel = Suc f" by (cases fuel) auto
  have "all_lists (s\<lparr>tcp_port := next_port (tcp_port s)\<rparr>) M" using 0(1) by (simp add: all_lists_def on_list_def)
  from taken_in_spec [OF this, of four_lists "next_port (tcp_port s)"]
  have "taken_in four_lists (next_port (tcp_port s)) (s\<lparr>tcp_port := next_port (tcp_port s)\<rparr>) = Inr False"
    using 0(2) by (simp add: tcp_ports_def)
  then show ?case by (simp add: f next_port_def [symmetric] Let_def del: taken_in.simps)
next
  case (Suc m)
  then obtain f where f: "fuel = Suc f" by (cases fuel) auto
  define s1 where "s1 = s\<lparr>tcp_port := next_port (tcp_port s)\<rparr>"
  have s1: "all_lists s1 M" "tcp_ports s1 M four_lists = tcp_ports s M four_lists" "tcp_port s1 = next_port (tcp_port s)"
    using Suc.prems(1) by (simp_all add: s1_def all_lists_def on_list_def tcp_ports_def)
  have sh: "(next_port ^^ Suc j) (tcp_port s1) = (next_port ^^ Suc (Suc j)) (tcp_port s)" for j
    by (simp add: s1 funpow_swap1)
  have "next_port (tcp_port s) \<in> tcp_ports s M four_lists" using Suc.prems(3) by auto
  then have "tcp_new_port_loop fuel n s = tcp_new_port_loop f (n + 1) s1"
    using Suc.prems(5) taken_in_spec [OF s1(1), of four_lists "next_port (tcp_port s)"] s1(2)
    by (simp add: f next_port_def [symmetric] s1_def [symmetric] Let_def del: taken_in.simps)
  also have "\<dots> = Inr ((next_port ^^ Suc m) (tcp_port s1), s1\<lparr>tcp_port := (next_port ^^ Suc m) (tcp_port s1)\<rparr>)"
  proof (rule Suc.IH [OF s1(1)])
    show "(next_port ^^ Suc m) (tcp_port s1) \<notin> tcp_ports s1 M four_lists" unfolding sh s1(2) by (rule Suc.prems(2))
    show "\<forall>j < m. (next_port ^^ Suc j) (tcp_port s1) \<in> tcp_ports s1 M four_lists" unfolding sh s1(2) using Suc.prems(3) by blast
  qed (use Suc.prems(4,5) in \<open>simp_all add: f\<close>)
  finally show ?case unfolding sh by (simp add: s1_def)
qed

lemma tcp_ports_card:
  assumes "all_lists s M"
  shows "finite (tcp_ports s M ls)" "card (tcp_ports s M ls) \<le> length ls * PCB_MAX"
proof -
  show "finite (tcp_ports s M ls)" by (simp add: tcp_ports_def)
  show "card (tcp_ports s M ls) \<le> length ls * PCB_MAX"
  proof (induction ls)
    case (Cons l ls)
    have "length (M l) < PCB_MAX" using assms by (simp add: all_lists_def on_list_def)
    then have "card ((\<lambda>p. tlocal_port (tpcb s p)) ` set (M l)) \<le> PCB_MAX"
      using card_image_le [of "set (M l)" "\<lambda>p. tlocal_port (tpcb s p)"] card_length [of "M l"] by simp
    moreover have "tcp_ports s M (l # ls) = (\<lambda>p. tlocal_port (tpcb s p)) ` set (M l) \<union> tcp_ports s M ls"
      by (simp add: tcp_ports_def)
    ultimately show ?case using Cons.IH card_Un_le [of "(\<lambda>p. tlocal_port (tpcb s p)) ` set (M l)" "tcp_ports s M ls"] by simp
  qed (simp add: tcp_ports_def)
qed

lemma tcp_new_port_spec:
  assumes "all_lists s M" "0xc000 \<le> unat (tcp_port s)"
  shows "\<exists>port. tcp_new_port s = Inr (port, s\<lparr>tcp_port := port\<rparr>) \<and> port \<notin> tcp_ports s M four_lists \<and> 0xc000 \<le> unat port"
proof -
  have T: "finite (tcp_ports s M four_lists)" "card (tcp_ports s M four_lists) \<le> 512" using tcp_ports_card [OF assms(1), of four_lists] by simp_all
  then obtain m where m: "m \<le> card (tcp_ports s M four_lists)" "(next_port ^^ Suc m) (tcp_port s) \<notin> tcp_ports s M four_lists"
    "\<forall>j < m. (next_port ^^ Suc j) (tcp_port s) \<in> tcp_ports s M four_lists"
    using some_port_free [OF assms(2), of "tcp_ports s M four_lists"] by auto
  have "0xc000 \<le> unat ((next_port ^^ Suc m) (tcp_port s))" unfolding next_ports_unat [OF assms(2)] by simp
  moreover have "tcp_new_port s = Inr ((next_port ^^ Suc m) (tcp_port s), s\<lparr>tcp_port := (next_port ^^ Suc m) (tcp_port s)\<rparr>)"
    unfolding tcp_new_port_def by (rule tcp_new_port_loop_spec [OF assms(1) m(2,3)]) (use m(1) T(2) in auto)
  ultimately show ?thesis using m(2) by blast
qed

section \<open>Binding\<close>

text \<open>Is \<open>q\<close> in the way when \<open>u\<close> is to be bound? Both must have \<^verbatim>\<open>SO_REUSEADDR\<close> set to share an address and port.\<close>

definition tcp_clashes :: "tcp_pcb \<Rightarrow> u32 \<Rightarrow> u16 \<Rightarrow> tcp_pcb \<Rightarrow> bool" where
  "tcp_clashes u ip port q \<longleftrightarrow> tlocal_port q = port \<and> \<not> (reuseaddr u \<and> reuseaddr q) \<and>
     (local_ip q = IPADDR_ANY \<or> ip = IPADDR_ANY \<or> local_ip q = ip)"

definition searched :: "tcp_pcb \<Rightarrow> pcb_list list" where
  "searched u = (if reuseaddr u then [Listen_Pcbs, Bound_Pcbs, Active_Pcbs] else four_lists)"

lemma tcp_bind_scan_spec:
  "linked (\<lambda>p. pcb_next (U p)) p ps \<Longrightarrow> length ps < fuel \<Longrightarrow>
     tcp_bind_scan fuel p pcb ip port U = Inr (\<exists>q \<in> set ps. tcp_clashes (U pcb) ip port (U q))"
proof (induction ps arbitrary: p fuel)
  case Nil
  then show ?case by (cases fuel) auto
next
  case (Cons q ps)
  then show ?case by (cases fuel) (auto simp: tcp_clashes_def)
qed

lemma tcp_bind_lists_spec:
  "all_lists s M \<Longrightarrow> tcp_bind_lists ls pcb ip port s = Inr (\<exists>l \<in> set ls. \<exists>q \<in> set (M l). tcp_clashes (tpcb s pcb) ip port (tpcb s q))"
proof (induction ls)
  case (Cons l ls)
  have "tcp_bind_scan PCB_MAX (pcb_lists s l) pcb ip port (tpcb s) = Inr (\<exists>q \<in> set (M l). tcp_clashes (tpcb s pcb) ip port (tpcb s q))"
    by (rule tcp_bind_scan_spec) (use Cons.prems in \<open>auto simp: all_lists_def on_list_def\<close>)
  then show ?case using Cons by auto
qed simp

text \<open>The timer of TCP runs whenever there are connections that need it.\<close>

definition timer_runs :: "'a tcp_like \<Rightarrow> bool" where
  "timer_runs s \<longleftrightarrow> (pcb_lists s Active_Pcbs \<noteq> 0 \<or> pcb_lists s Tw_Pcbs \<noteq> 0 \<longrightarrow> tcpip_tcp_timer_active (timeouts s))"

lemma timer_needed_idle:
  "timer_runs s \<Longrightarrow> timer_needed s = Inr (s\<lparr>timeouts := (timeouts s)\<lparr>tpools := pools (pb (arp s))\<rparr>\<rparr>)"
  by (cases "pcb_lists s Active_Pcbs \<noteq> 0 \<or> pcb_lists s Tw_Pcbs \<noteq> 0")
    (auto simp: timer_runs_def timer_needed_def tcp_timer_needed_def set_arp_def set_pbs_def)

text \<open>The PCB once it is bound.\<close>

definition tcp_bound :: "nat \<Rightarrow> u32 \<Rightarrow> u16 \<Rightarrow> 'a tcp_like \<Rightarrow> 'a tcp_like" where
  "tcp_bound pcb ip port s =
     set_list Bound_Pcbs pcb (set_tpcb pcb (\<lambda>u. u\<lparr>tlocal_port := port, local_ip := (if ip \<noteq> IPADDR_ANY then ip else local_ip u),
       pcb_next := pcb_lists s Bound_Pcbs\<rparr>) s)"

lemma tcp_bind_spec:
  assumes lists: "all_lists s M" and st: "fsm (tpcb s pcb) = CLOSED" "timer_runs s" "0xc000 \<le> unat (tcp_port s)"
    and free: "port \<noteq> 0 \<Longrightarrow> \<not> (\<exists>l \<in> set (searched (tpcb s pcb)). \<exists>q \<in> set (M l). tcp_clashes (tpcb s pcb) (addr_or_any addr) port (tpcb s q))"
  shows "\<exists>port' last t. tcp_bind pcb addr port s = Inr (ERR_OK, (tcp_bound pcb (addr_or_any addr) port' (s\<lparr>tcp_port := last\<rparr>))\<lparr>timeouts := t\<rparr>) \<and>
    (if port = 0 then port' \<notin> tcp_ports s M four_lists \<and> 0xc000 \<le> unat port' else port' = port \<and> last = tcp_port s)"
proof -
  let ?ip = "addr_or_any addr"
  obtain port' last where p: "(if port = 0 then tcp_new_port s else Inr (port, s)) = Inr (port', s\<lparr>tcp_port := last\<rparr>)"
    "if port = 0 then port' \<notin> tcp_ports s M four_lists \<and> 0xc000 \<le> unat port' else port' = port \<and> last = tcp_port s"
  proof (cases "port = 0")
    case True
    then show ?thesis using tcp_new_port_spec [OF lists st(3)] that by auto
  next
    case False
    then show ?thesis using that [of port "tcp_port s"] by simp
  qed
  define s1 where "s1 = s\<lparr>tcp_port := last\<rparr>"
  have s1: "all_lists s1 M" "tpcb s1 = tpcb s" "pcb_lists s1 = pcb_lists s" "timeouts s1 = timeouts s"
    using lists by (simp_all add: s1_def all_lists_def on_list_def)
  have "set (searched (tpcb s pcb)) \<subseteq> set four_lists" by (auto simp: searched_def)
  then have "\<not> (\<exists>l \<in> set (searched (tpcb s pcb)). \<exists>q \<in> set (M l). tcp_clashes (tpcb s pcb) ?ip port' (tpcb s q))"
    using free p(2) by (auto simp: tcp_ports_def tcp_clashes_def split: if_splits)
  then have scan: "tcp_bind_lists (searched (tpcb s pcb)) pcb ?ip port' s1 = Inr False"
    using tcp_bind_lists_spec [OF s1(1)] s1(2) by simp
  define s2 where "s2 = set_tpcb pcb (\<lambda>u. u\<lparr>tlocal_port := port', local_ip := (if ?ip \<noteq> IPADDR_ANY then ?ip else local_ip u)\<rparr>) s1"
  define s3 where "s3 = set_list Bound_Pcbs pcb (set_tpcb pcb (\<lambda>u. u\<lparr>pcb_next := pcb_lists s2 Bound_Pcbs\<rparr>) s2)"
  have s3: "s3 = tcp_bound pcb ?ip port' s1"
    by (simp add: s3_def s2_def tcp_bound_def set_tpcb_def set_list_def)
  have "timer_runs s3" using st(2) s1 by (simp add: timer_runs_def s3_def s2_def set_list_def set_tpcb_def)
  then have reg: "TCP_REG Bound_Pcbs pcb s2 = Inr (s3\<lparr>timeouts := (timeouts s3)\<lparr>tpools := pools (pb (arp s3))\<rparr>\<rparr>)"
    using timer_needed_idle by (simp add: TCP_REG_def s3_def)
  have nz: "port' \<noteq> 0" using p(2) by (auto split: if_splits)
  have "tcp_bind pcb addr port s = Inr (ERR_OK, s3\<lparr>timeouts := (timeouts s3)\<lparr>tpools := pools (pb (arp s3))\<rparr>\<rparr>)"
    using st(1) scan reg nz unfolding tcp_bind_def p(1) Let_def searched_def [symmetric] s1_def [symmetric]
    by (simp add: s2_def [symmetric])
  then show ?thesis using p(2) unfolding s3 s1_def by blast
qed

text \<open>
  C12. Binding a connection that is on no list. It fails, and changes no list, exactly if another connection has the port with the same or with
  any address, unless both have \<^verbatim>\<open>SO_REUSEADDR\<close> set; connections in TIME-WAIT count only if the option is not set. Otherwise
  the connection is put first on the list of the bound ones, with the port it asked for or, for port 0, one of the automatic
  range that no connection on any of the four lists has; the lists stay well-formed and no other connection is touched.
\<close>

theorem tcp_bind_correct:
  assumes lists: "all_lists s M" "length (M Bound_Pcbs) + 1 < PCB_MAX" and pcb: "pcb \<noteq> 0" "\<forall>l. pcb \<notin> set (M l)"
    and st: "fsm (tpcb s pcb) = CLOSED" "timer_runs s" "0xc000 \<le> unat (tcp_port s)"
  shows "if port \<noteq> 0 \<and> (\<exists>l \<in> set (searched (tpcb s pcb)). \<exists>q \<in> set (M l). tcp_clashes (tpcb s pcb) (addr_or_any addr) port (tpcb s q))
    then tcp_bind pcb addr port s = Inr (ERR_USE, s)
    else \<exists>s'. tcp_bind pcb addr port s = Inr (ERR_OK, s') \<and> all_lists s' (M(Bound_Pcbs := pcb # M Bound_Pcbs)) \<and>
      (if port = 0 then tlocal_port (tpcb s' pcb) \<notin> tcp_ports s M four_lists \<and> 0xc000 \<le> unat (tlocal_port (tpcb s' pcb))
       else tlocal_port (tpcb s' pcb) = port) \<and>
      (addr_or_any addr \<noteq> IPADDR_ANY \<longrightarrow> local_ip (tpcb s' pcb) = addr_or_any addr) \<and> (\<forall>q. q \<noteq> pcb \<longrightarrow> tpcb s' q = tpcb s q)"
proof (cases "port \<noteq> 0 \<and> (\<exists>l \<in> set (searched (tpcb s pcb)). \<exists>q \<in> set (M l). tcp_clashes (tpcb s pcb) (addr_or_any addr) port (tpcb s q))")
  case True
  then have "tcp_bind_lists (searched (tpcb s pcb)) pcb (addr_or_any addr) port s = Inr True" using tcp_bind_lists_spec [OF lists(1)] by simp
  then have "tcp_bind pcb addr port s = Inr (ERR_USE, s)"
    using st(1) True unfolding tcp_bind_def Let_def searched_def [symmetric] by simp
  then show ?thesis using True by simp
next
  case False
  then obtain port' last t where b:
    "tcp_bind pcb addr port s = Inr (ERR_OK, (tcp_bound pcb (addr_or_any addr) port' (s\<lparr>tcp_port := last\<rparr>))\<lparr>timeouts := t\<rparr>)"
    "if port = 0 then port' \<notin> tcp_ports s M four_lists \<and> 0xc000 \<le> unat port' else port' = port \<and> last = tcp_port s"
    using tcp_bind_spec [OF lists(1) st, of port addr] False by auto
  define s' where "s' = (tcp_bound pcb (addr_or_any addr) port' (s\<lparr>tcp_port := last\<rparr>))\<lparr>timeouts := t\<rparr>"
  have f: "tlocal_port (tpcb s' pcb) = port'" "addr_or_any addr \<noteq> IPADDR_ANY \<Longrightarrow> local_ip (tpcb s' pcb) = addr_or_any addr"
    "\<And>q. q \<noteq> pcb \<Longrightarrow> tpcb s' q = tpcb s q" "pcb_lists s' = (pcb_lists s)(Bound_Pcbs := pcb)" "pcb_next (tpcb s' pcb) = pcb_lists s Bound_Pcbs"
    by (simp_all add: s'_def tcp_bound_def set_list_def set_tpcb_def)
  have old: "linked (\<lambda>p. pcb_next (tpcb s' p)) (pcb_lists s l) (M l)" for l
  proof -
    have "linked (\<lambda>p. pcb_next (tpcb s p)) (pcb_lists s l) (M l)" using lists(1) by (simp add: all_lists_def on_list_def)
    moreover have "pcb_next (tpcb s p) = pcb_next (tpcb s' p)" if "p \<in> set (M l)" for p
      using that pcb(2) f(3) [of p] by (cases "p = pcb") auto
    ultimately show ?thesis using linked_cong [of "M l" "\<lambda>p. pcb_next (tpcb s p)" "\<lambda>p. pcb_next (tpcb s' p)"] by simp
  qed
  have "all_lists s' (M(Bound_Pcbs := pcb # M Bound_Pcbs))"
    using old lists pcb(1) f(4,5) by (auto simp: all_lists_def on_list_def)
  then show ?thesis using b(1) [folded s'_def] b(2) f(1,2,3) False by (auto split: if_splits)
qed

text \<open>
  Nothing stops an application from binding a connection twice, to another port: it is then put in front of a list it is on already. When it
  was the first, its link points to itself, and every walk over the bound connections for an address or a
  port that none has, as in the next \<^verbatim>\<open>tcp_bind\<close>, goes round for ever.
\<close>

theorem tcp_bind_twice_flaw:
  assumes lists: "all_lists s M" "M Bound_Pcbs = pcb # ps" and st: "fsm (tpcb s pcb) = CLOSED" "timer_runs s" "0xc000 \<le> unat (tcp_port s)"
    and port: "port \<noteq> 0" "\<not> (\<exists>l \<in> set (searched (tpcb s pcb)). \<exists>q \<in> set (M l). tcp_clashes (tpcb s pcb) (addr_or_any addr) port (tpcb s q))"
    and other: "port' \<noteq> port"
  shows "\<exists>s'. tcp_bind pcb addr port s = Inr (ERR_OK, s') \<and> pcb_next (tpcb s' pcb) = pcb \<and>
    (\<forall>fuel. tport_taken fuel (pcb_lists s' Bound_Pcbs) port' (tpcb s') = Inl No_Fuel) \<and>
    (\<forall>fuel w ip. tcp_bind_scan fuel (pcb_lists s' Bound_Pcbs) w ip port' (tpcb s') = Inl No_Fuel)"
proof -
  obtain p last t where spec:
    "tcp_bind pcb addr port s = Inr (ERR_OK, (tcp_bound pcb (addr_or_any addr) p (s\<lparr>tcp_port := last\<rparr>))\<lparr>timeouts := t\<rparr>)"
    "if port = 0 then p \<notin> tcp_ports s M four_lists \<and> 0xc000 \<le> unat p else p = port \<and> last = tcp_port s"
    using tcp_bind_spec [OF lists(1) st port(2)] by blast
  have "p = port" using spec(2) port(1) by simp
  note b = spec(1) [unfolded this]
  define s' where "s' = (tcp_bound pcb (addr_or_any addr) port (s\<lparr>tcp_port := last\<rparr>))\<lparr>timeouts := t\<rparr>"
  have "linked (\<lambda>p. pcb_next (tpcb s p)) (pcb_lists s Bound_Pcbs) (pcb # ps)" using lists by (metis all_lists_def on_list_def)
  then have h: "pcb_lists s Bound_Pcbs = pcb" "pcb \<noteq> 0" by auto
  then have f: "pcb_next (tpcb s' pcb) = pcb" "pcb_lists s' Bound_Pcbs = pcb" "tlocal_port (tpcb s' pcb) = port"
    by (simp_all add: s'_def tcp_bound_def set_list_def set_tpcb_def)
  have "tport_taken fuel pcb port' (tpcb s') = Inl No_Fuel" "tcp_bind_scan fuel pcb w ip port' (tpcb s') = Inl No_Fuel" for fuel w ip
    using f h(2) other by (induction fuel) auto
  then show ?thesis using b f by (auto simp: s'_def [symmetric])
qed

text \<open>Port 80 is listened on, port 81 is bound.\<close>

definition bind_pcbs :: "nat \<Rightarrow> tcp_pcb" where
  "bind_pcbs p = (new_pcb 64 0 0 0)\<lparr>fsm := (if p = 100 then LISTEN else CLOSED), tlocal_port := (if p = 100 then 80 else if p = 200 then 81 else 0)\<rparr>"

definition bind_sample :: tcp_state where
  "bind_sample = (tcp_sample sample bind_pcbs (\<lambda>_. undefined) (\<lambda>l. case l of Listen_Pcbs \<Rightarrow> 100 | Bound_Pcbs \<Rightarrow> 200 | _ \<Rightarrow> 0))"

abbreviation bind_members :: "pcb_list \<Rightarrow> nat list" where
  "bind_members \<equiv> \<lambda>l. case l of Listen_Pcbs \<Rightarrow> [100] | Bound_Pcbs \<Rightarrow> [200] | _ \<Rightarrow> []"

lemma bind_sample_ok:
  "all_lists bind_sample bind_members" "timer_runs bind_sample" "tcp_port bind_sample = 0xc000" "tpcb bind_sample = bind_pcbs"
  by (auto simp: all_lists_def on_list_def bind_sample_def bind_pcbs_def new_pcb_def timer_runs_def split: pcb_list.splits)

theorem tcp_bind_witness: "tcp_bind 300 None 80 bind_sample = Inr (ERR_USE, bind_sample)"
proof -
  have "\<exists>l \<in> set (searched (tpcb bind_sample 300)). \<exists>q \<in> set (bind_members l). tcp_clashes (tpcb bind_sample 300) (addr_or_any None) 80 (tpcb bind_sample q)"
    by (simp add: searched_def bind_sample_ok(4) bind_pcbs_def new_pcb_def reuseaddr_def tcp_clashes_def)
  then have c: "(80 :: u16) \<noteq> 0 \<and> (\<exists>l \<in> set (searched (tpcb bind_sample 300)). \<exists>q \<in> set (bind_members l).
      tcp_clashes (tpcb bind_sample 300) (addr_or_any None) 80 (tpcb bind_sample q))" by simp
  have ok: "length (bind_members Bound_Pcbs) + 1 < PCB_MAX" "(300 :: nat) \<noteq> 0" "\<forall>l. 300 \<notin> set (bind_members l)"
    "fsm (tpcb bind_sample 300) = CLOSED" "0xc000 \<le> unat (tcp_port bind_sample)"
    by (simp_all add: bind_sample_ok(3,4) bind_pcbs_def split: pcb_list.splits)
  show ?thesis using tcp_bind_correct [OF bind_sample_ok(1) ok(1-4) bind_sample_ok(2) ok(5), of 80 None] unfolding if_P [OF c] .
qed

theorem tcp_bind_twice_witness:
  "\<exists>s'. tcp_bind 200 None 82 bind_sample = Inr (ERR_OK, s') \<and> (\<forall>fuel. tport_taken fuel (pcb_lists s' Bound_Pcbs) 83 (tpcb s') = Inl No_Fuel)"
proof -
  have "\<not> (\<exists>l \<in> set (searched (tpcb bind_sample 200)). \<exists>q \<in> set (bind_members l). tcp_clashes (tpcb bind_sample 200) (addr_or_any None) 82 (tpcb bind_sample q))"
    by (simp add: searched_def bind_sample_ok(4) bind_pcbs_def new_pcb_def reuseaddr_def tcp_clashes_def)
  then show ?thesis
    using tcp_bind_twice_flaw [OF bind_sample_ok(1) _ _ bind_sample_ok(2), of 200 "[]" 82 None 83]
    by (simp add: bind_sample_ok(3,4)) (auto simp: bind_pcbs_def)
qed

end
