(* ===== verification/Tcp_Fsm.thy ===== *)
theory Tcp_Fsm
  imports Tcp_Bind
begin

text \<open>
  The state machine: how \<^verbatim>\<open>tcp_process\<close> moves a connection between the states of RFC 793. Most functions change no
  state; the lemmas of the collection \<open>fsm_frame\<close> say so, one per function.
\<close>

named_theorems fsm_frame \<open>functions that leave the states of all connections alone\<close>

definition states :: "'a tcp_like \<Rightarrow> nat \<Rightarrow> tcp_fsm" where
  "states s = (\<lambda>p. fsm (tpcb s p))"

definition nexts :: "'a tcp_like \<Rightarrow> nat \<Rightarrow> u32" where
  "nexts s = (\<lambda>p. snd_nxt (tpcb s p))"

text \<open>No connection has changed its state or the next number it sends, and the received segment is the same.\<close>

abbreviation same :: "'a tcp_like \<Rightarrow> 'a tcp_like \<Rightarrow> bool" where
  "same s s' \<equiv> states s' = states s \<and> nexts s' = nexts s \<and> ackno s' = ackno s \<and> iflags s' = iflags s \<and> recv_flags s' = recv_flags s"

section \<open>Functions that change no state\<close>

lemma fsm_states [simp]: "fsm (tpcb s p) = states s p" "snd_nxt (tpcb s p) = nexts s p"
  by (simp_all add: states_def nexts_def)

lemma states_update [simp]:
  "states (set_tpcb p f s) = (states s)(p := fsm (f (tpcb s p)))" "nexts (set_tpcb p f s) = (nexts s)(p := snd_nxt (f (tpcb s p)))"
  "ackno (set_tpcb p f s) = ackno s" "iflags (set_tpcb p f s) = iflags s" "recv_flags (set_tpcb p f s) = recv_flags s"
  by (auto simp: states_def nexts_def set_tpcb_def simp del: fsm_states)

lemma states_other [simp]:
  "same s (set_seg g k1 s)"
  "same s (set_arp a s)"
  "same s (pool_put i m s)"
  "same s (put ad bs s)"
  "same s (set_pbuf p k s)"
  "same s (set_list l p s)"
  "same s (set_inseg k1 s)"
  "same s (TCPH_FLAGS_SET th f s)"
  "same s (TCPH_SET_FLAG th f s)"
  "same s (clear_fin th s)"
  "same s (s\<lparr>seqno := w\<rparr>)"
  "same s (s\<lparr>tcplen := n\<rparr>)"
  "same s (s\<lparr>recv_data := q\<rparr>)"
  "states (s\<lparr>recv_flags := fl\<rparr>) = states s" "nexts (s\<lparr>recv_flags := fl\<rparr>) = nexts s"
  "same s (s\<lparr>timeouts := t\<rparr>)"
  "same s (s\<lparr>arp := a\<rparr>)"
  "same s (s\<lparr>tcp_active_pcbs_changed := b\<rparr>)"
  by (simp_all add: states_def nexts_def set_seg_def set_arp_def pool_put_def put_def set_pbuf_def set_list_def set_inseg_def
    TCPH_FLAGS_SET_def TCPH_SET_FLAG_def clear_fin_def del: fsm_states)

lemma states_flags [simp]: "same s (set_flag p f s)" "same s (clear_flag p f s)" "same s (tcp_ack_now p s)" "same s (tcp_ack p s)"
  by (simp_all add: set_flag_def clear_flag_def tcp_ack_now_def tcp_ack_def)

lemma tpcb_other [simp]:
  "tpcb (set_seg g k1 s) = tpcb s" "tpcb (set_arp a s) = tpcb s" "tpcb (pool_put i m s) = tpcb s" "tpcb (put ad bs s) = tpcb s"
  "tpcb (set_pbuf p k s) = tpcb s" "tpcb (set_inseg k1 s) = tpcb s" "tpcb (set_list l p s) = tpcb s"
  by (simp_all add: set_seg_def set_arp_def pool_put_def put_def set_pbuf_def set_inseg_def set_list_def)

lemma memory_frame [fsm_frame]:
  "pool_get i s = Inr (m, s') \<Longrightarrow> same s s'" "do_pbs f s = Inr s' \<Longrightarrow> same s s'"
  "on_pbs g s = Inr (r, s') \<Longrightarrow> same s s'" "release_pbuf p s = Inr s' \<Longrightarrow> same s s'"
  by (auto simp: pool_get_def do_pbs_def on_pbs_def release_pbuf_def on_arp_def)

lemma ip_output_frame [fsm_frame]: "ip_output link p src dst t ts pr s = Inr (e, s') \<Longrightarrow> same s s'"
  by (auto simp: ip_output_def ip_output_if_def Let_def states_def nexts_def set_arp_def simp del: fsm_states split: if_splits)

lemma send_frame [fsm_frame]:
  "chksum_packet p src dst s = Inr s' \<Longrightarrow> same s s'"
  "send_packet_tcp link p src dst t ts s = Inr s'' \<Longrightarrow> same s s''"
  by (auto simp: chksum_packet_def send_packet_tcp_def dest!: fsm_frame)

lemma tcp_rst_frame [fsm_frame]: "tcp_rst link sq ak src dst sport dport s = Inr s' \<Longrightarrow> same s s'"
  by (auto simp: tcp_rst_def Let_def dest!: fsm_frame split: if_splits)

lemma reply_rst_frame [fsm_frame]: "reply_rst link th s = Inr s' \<Longrightarrow> same s s'"
  by (auto simp: reply_rst_def dest!: fsm_frame)

lemma alloc_header_frame [fsm_frame]: "tcp_output_alloc_header pcb ol dl sq s = Inr (p, s') \<Longrightarrow> same s s'"
  by (auto simp: tcp_output_alloc_header_def Let_def dest!: fsm_frame split: if_splits)

lemma empty_ack_frame [fsm_frame]: "tcp_send_empty_ack link pcb s = Inr (e, s') \<Longrightarrow> same s s'"
  by (auto simp: tcp_send_empty_ack_def Let_def dest!: fsm_frame split: if_splits)

lemma seg_free_frame [fsm_frame]: "tcp_seg_free g s = Inr s' \<Longrightarrow> same s s'"
  by (auto simp: tcp_seg_free_def dest!: fsm_frame split: if_splits)

lemma segs_free_loop_frame: "segs_free_loop fuel g s = Inr s' \<Longrightarrow> same s s'"
  by (induction fuel arbitrary: g s) (auto simp: Let_def dest!: fsm_frame split: if_splits)

lemma segs_free_frame [fsm_frame]: "tcp_segs_free g s = Inr s' \<Longrightarrow> same s s'"
  by (auto simp: tcp_segs_free_def dest: segs_free_loop_frame)

lemma seg_copy_frame [fsm_frame]: "tcp_seg_copy g s = Inr (c, s') \<Longrightarrow> same s s'"
  by (auto simp: tcp_seg_copy_def dest!: fsm_frame split: if_splits)

lemma rexmit_frame [fsm_frame]: "tcp_rexmit pcb s = Inr s' \<Longrightarrow> same s s'"
  by (auto simp: tcp_rexmit_def Let_def split: if_splits)

lemma rexmit_fast_frame [fsm_frame]: "tcp_rexmit_fast pcb s = Inr s' \<Longrightarrow> same s s'"
  by (auto simp: tcp_rexmit_fast_def fast_window_def Let_def dest!: fsm_frame split: if_splits)

section \<open>Acknowledgements\<close>

lemma pcb_frames [simp]:
  "fsm (window_update sq ak w u) = fsm u" "fsm (grow_cwnd u) = fsm u" "fsm (rtt_estimate t u) = fsm u" "fsm (fast_window u) = fsm u"
  "snd_nxt (window_update sq ak w u) = snd_nxt u" "snd_nxt (grow_cwnd u) = snd_nxt u" "snd_nxt (rtt_estimate t u) = snd_nxt u" "snd_nxt (fast_window u) = snd_nxt u"
  by (simp_all add: window_update_def grow_cwnd_def rtt_estimate_def fast_window_def Let_def)

lemma new_ack_frame: "new_ack ak u = Inr v \<Longrightarrow> fsm v = fsm u \<and> snd_nxt v = snd_nxt u"
  by (auto simp: new_ack_def ack_cwnd_def Let_def split: if_splits)

lemma old_ack_frame [fsm_frame]: "old_ack edge pcb s = Inr s' \<Longrightarrow> same s s'"
  by (auto simp: old_ack_def Let_def dest!: fsm_frame split: if_splits)

lemma drop_acked_frame [fsm_frame]: "drop_acked pcb g s = Inr s' \<Longrightarrow> same s s'"
  by (auto simp: drop_acked_def Let_def dest!: fsm_frame split: if_splits)

lemma unacked_loop_frame [fsm_frame]: "unacked_loop fuel pcb s = Inr s' \<Longrightarrow> same s s'"
  by (induction fuel arbitrary: s) (auto simp: Let_def dest!: fsm_frame split: if_splits)

lemma unsent_loop_frame [fsm_frame]: "unsent_loop fuel pcb s = Inr s' \<Longrightarrow> same s s'"
  by (induction fuel arbitrary: s) (auto simp: Let_def dest!: fsm_frame split: if_splits)

lemma receive_ack_frame [fsm_frame]: "receive_ack th pcb s = Inr s' \<Longrightarrow> same s s'"
  by (auto simp: receive_ack_def Let_def dest!: fsm_frame new_ack_frame split: if_splits)

section \<open>Data\<close>

lemma parseopt_frame [fsm_frame]: "tcp_parseopt th pcb s = Inr s' \<Longrightarrow> same s s'"
  unfolding tcp_parseopt_spec by auto

lemma skip_loop_frame [fsm_frame]: "skip_loop fuel p off n s = Inr (r, s') \<Longrightarrow> same s s'"
  by (induction fuel arbitrary: p off s) (auto split: if_splits)

lemma trim_front_frame [fsm_frame]: "trim_front pcb s = Inr s' \<Longrightarrow> same s s'"
  by (auto simp: trim_front_def Let_def dest!: fsm_frame split: if_splits)

lemma cut_inseg_frame [fsm_frame]: "cut_inseg n s = Inr s' \<Longrightarrow> same s s'"
  by (auto simp: cut_inseg_def Let_def dest!: fsm_frame)

lemma trim_to_window_frame [fsm_frame]: "trim_to_window pcb s = Inr s' \<Longrightarrow> same s s'"
  by (auto simp: trim_to_window_def Let_def dest!: fsm_frame split: if_splits)

lemma cover_loop_frame [fsm_frame]: "cover_loop fuel nxt s = Inr (r, s') \<Longrightarrow> same s s'"
  by (induction fuel arbitrary: nxt s) (auto simp: Let_def dest!: fsm_frame split: if_splits)

lemma adjust_ooseq_frame [fsm_frame]: "adjust_ooseq pcb s = Inr s' \<Longrightarrow> same s s'"
  by (auto simp: adjust_ooseq_def Let_def dest!: fsm_frame split: if_splits)

lemma rcv_ann_update_frame [fsm_frame]: "rcv_ann_update u = Inr (n, v) \<Longrightarrow> fsm v = fsm u \<and> snd_nxt v = snd_nxt u"
  by (auto simp: rcv_ann_update_def Let_def split: if_splits)

lemma advance_frame [fsm_frame]: "advance pcb nxt len s = Inr s' \<Longrightarrow> same s s'"
  by (auto simp: advance_def tcp_update_rcv_ann_wnd_def Let_def dest!: fsm_frame split: if_splits)

lemma oos_delete_frame [fsm_frame]: "oos_delete fuel c nxt s = Inr (r, s') \<Longrightarrow> same s s'"
  by (induction fuel arbitrary: nxt s) (auto simp: Let_def dest!: fsm_frame split: if_splits)

lemma cut_seg_frame [fsm_frame]: "cut_seg g n s = Inr s' \<Longrightarrow> same s s'"
  by (auto simp: cut_seg_def dest!: fsm_frame)

lemma oos_insert_frame [fsm_frame]: "tcp_oos_insert_segment c nxt s = Inr s' \<Longrightarrow> same s s'"
  by (auto simp: tcp_oos_insert_segment_def dest!: fsm_frame split: if_splits)

lemma cut_before_frame [fsm_frame]: "cut_before g s = Inr s' \<Longrightarrow> same s s'"
  by (auto simp: cut_before_def Let_def dest!: fsm_frame split: if_splits)

lemma fit_window_frame [fsm_frame]: "fit_window pcb c s = Inr s' \<Longrightarrow> same s s'"
  by (auto simp: fit_window_def Let_def dest!: fsm_frame split: if_splits)

lemma link_ooseq_frame [simp]: "same s (link_ooseq pcb prev c s)"
  by (simp add: link_ooseq_def)

lemma place_loop_frame [fsm_frame]: "place_loop fuel pcb prev nxt s = Inr s' \<Longrightarrow> same s s'"
  by (induction fuel arbitrary: prev nxt s) (auto simp: Let_def dest!: fsm_frame split: if_splits)

lemma receive_out_of_order_frame [fsm_frame]: "receive_out_of_order link pcb s = Inr s' \<Longrightarrow> same s s'"
  by (auto simp: receive_out_of_order_def dest!: fsm_frame split: if_splits)

text \<open>
  Receiving data in sequence may bring a FIN: then \<^verbatim>\<open>recv_flags\<close> tells it, and if the FIN was on the queue of data out of sequence
  an established connection is in CLOSE-WAIT already.
\<close>

definition received :: "nat \<Rightarrow> 'a tcp_like \<Rightarrow> 'a tcp_like \<Rightarrow> bool" where
  "received pcb s s' \<longleftrightarrow> nexts s' = nexts s \<and> ackno s' = ackno s \<and> iflags s' = iflags s \<and>
     (recv_flags s' = recv_flags s \<or> recv_flags s' = recv_flags s OR TF_GOT_FIN) \<and>
     (states s' = states s \<or> states s pcb = ESTABLISHED \<and> got_fin s' \<and> states s' = (states s)(pcb := CLOSE_WAIT))"

lemma or_got_fin [simp]: "(f OR TF_GOT_FIN) OR TF_GOT_FIN = f OR TF_GOT_FIN" "(f OR TF_GOT_FIN) AND TF_GOT_FIN \<noteq> 0" for f :: u8
  by (simp_all add: bit.conj_disj_distrib2 or.assoc)

lemma received_same: "same s s' \<Longrightarrow> received pcb s s'"
  by (simp add: received_def)

lemma received_trans: "received pcb s t \<Longrightarrow> received pcb t u \<Longrightarrow> received pcb s u"
  by (auto simp: received_def got_fin_def)

lemma received_fin:
  assumes "same s t"
  shows "received pcb s (set_tpcb pcb (\<lambda>u. u\<lparr>fsm := (if fsm u = ESTABLISHED then CLOSE_WAIT else fsm u)\<rparr>) (t\<lparr>recv_flags := recv_flags t OR TF_GOT_FIN\<rparr>))"
  using assms by (auto simp: received_def got_fin_def)

lemma rbindE: "rbind r f = Inr y \<Longrightarrow> (\<And>x. r = Inr x \<Longrightarrow> f x = Inr y \<Longrightarrow> P) \<Longrightarrow> P"
  by auto

lemma ooseq_loop_received: "ooseq_loop fuel pcb s = Inr s' \<Longrightarrow> received pcb s s'"
proof (induction fuel arbitrary: s)
  case (Suc fuel)
  define c g where "c = ooseq (tpcb s pcb)" and "g = segs s c"
  show ?case
  proof (cases "c \<noteq> 0 \<and> in_seqno g s = rcv_nxt (tpcb s pcb)")
    case True
    obtain s1 s2 s4 where 1: "advance pcb (rcv_nxt (tpcb s pcb) + word_of_nat (TCP_TCPLEN g s)) (seg_tcplen g s) (s\<lparr>seqno := in_seqno g s\<rparr>) = Inr s1"
      and 2: "(if tot_len (the_pbuf s1 (sp g)) > 0
           then rbind (if recv_data s1 \<noteq> 0 then do_pbs (pbuf_cat (recv_data s1) (sp g)) s1 else Inr (s1\<lparr>recv_data := sp g\<rparr>)) (\<lambda>s.
               Inr (set_seg c (\<lambda>x. x\<lparr>sp := 0\<rparr>) s))
           else Inr s1) = Inr s2"
      and 3: "tcp_seg_free c (set_tpcb pcb (\<lambda>u. u\<lparr>ooseq := seg_next g\<rparr>) (if hdr_flag TCP_FIN g s2
              then set_tpcb pcb (\<lambda>u. u\<lparr>fsm := (if fsm u = ESTABLISHED then CLOSE_WAIT else fsm u)\<rparr>)
                (s2\<lparr>recv_flags := recv_flags s2 OR TF_GOT_FIN\<rparr>) else s2)) = Inr s4"
      and 4: "ooseq_loop fuel pcb s4 = Inr s'"
      using Suc.prems unfolding ooseq_loop.simps Let_def c_def [symmetric] g_def [symmetric] if_P [OF True] by (elim rbindE) (rule that)
    have a: "same s s2" using 1 2 by (auto dest!: fsm_frame split: if_splits)
    define s3 where "s3 = (if hdr_flag TCP_FIN g s2
              then set_tpcb pcb (\<lambda>u. u\<lparr>fsm := (if fsm u = ESTABLISHED then CLOSE_WAIT else fsm u)\<rparr>)
                (s2\<lparr>recv_flags := recv_flags s2 OR TF_GOT_FIN\<rparr>) else s2)"
    have b: "received pcb s s3" using received_fin [OF a] received_same [OF a] unfolding s3_def by presburger
    have "same (set_tpcb pcb (\<lambda>u. u\<lparr>ooseq := seg_next g\<rparr>) s3) s4" using 3 unfolding s3_def [symmetric] by (rule fsm_frame)
    then have "received pcb s3 s4" by (simp add: received_def)
    then show ?thesis using b Suc.IH [OF 4] received_trans by blast
  next
    case False
    then show ?thesis using Suc.prems by (auto simp: Let_def c_def g_def received_same)
  qed
qed simp

lemma receive_in_order_received:
  assumes "receive_in_order pcb s = Inr s'"
  shows "received pcb s s'"
proof -
  obtain s1 s2 s3 s5 where 1: "trim_to_window pcb s = Inr s1" "adjust_ooseq pcb s1 = Inr s2" "advance pcb (seqno s2 + ucast (tcplen s2)) (tcplen s2) s2 = Inr s3"
    and 2: "ooseq_loop SEG_MAX pcb (let s = (if tot_len (the_pbuf s3 (sp (inseg s3))) > 0 then set_inseg (\<lambda>g. g\<lparr>sp := 0\<rparr>) (s3\<lparr>recv_data := sp (inseg s3)\<rparr>) else s3)
       in if hdr_flag TCP_FIN (inseg s) s then s\<lparr>recv_flags := recv_flags s OR TF_GOT_FIN\<rparr> else s) = Inr s5"
    and 3: "Inr (tcp_ack pcb s5) = (Inr s' :: 'a tcp_like res)"
    using assms unfolding receive_in_order_def Let_def by (elim rbindE) (rule that, simp_all only: Let_def)
  have "same s s3" using 1 by (auto dest!: fsm_frame)
  then have "received pcb s (let s = (if tot_len (the_pbuf s3 (sp (inseg s3))) > 0 then set_inseg (\<lambda>g. g\<lparr>sp := 0\<rparr>) (s3\<lparr>recv_data := sp (inseg s3)\<rparr>) else s3)
       in if hdr_flag TCP_FIN (inseg s) s then s\<lparr>recv_flags := recv_flags s OR TF_GOT_FIN\<rparr> else s)"
    by (simp add: received_def Let_def)
  moreover have "received pcb s5 s'" using 3 by (auto simp: received_def)
  ultimately show ?thesis using ooseq_loop_received [OF 2] received_trans by blast
qed

lemma receive_data_received: "receive_data link pcb s = Inr s' \<Longrightarrow> received pcb s s'"
  unfolding receive_data_def Let_def
proof (elim rbindE)
  fix s1 let ?nxt = "rcv_nxt (tpcb s pcb)"
  assume "(if TCP_SEQ_BETWEEN ?nxt (seqno s + 1) (seqno s + ucast (tcplen s) - 1) then trim_front pcb s
         else if TCP_SEQ_LT (seqno s) ?nxt then Inr (tcp_ack_now pcb s) else Inr s) = Inr s1"
  then have a: "received pcb s s1" by (auto dest!: fsm_frame simp: received_def split: if_splits)
  assume "(if TCP_SEQ_BETWEEN (seqno s1) ?nxt (?nxt + ucast (rcv_wnd (tpcb s1 pcb)) - 1)
        then (if ?nxt = seqno s1 then receive_in_order pcb s1 else receive_out_of_order link pcb s1)
        else rbind (tcp_send_empty_ack link pcb s1) (\<lambda>(_, s). Inr s)) = Inr s'"
  then have "received pcb s1 s'" by (auto dest!: fsm_frame dest: receive_in_order_received simp: received_same split: if_splits)
  then show "received pcb s s'" by (rule received_trans [OF a])
qed

lemma tcp_receive_received: "tcp_receive link th pcb s = Inr s' \<Longrightarrow> received pcb s s'"
proof -
  assume r: "tcp_receive link th pcb s = Inr s'"
  then obtain s1 where a: "received pcb s s1" and
    b: "(if tcplen s1 > 0 \<and> states s1 pcb < CLOSE_WAIT then receive_data link pcb s1
          else Inr (if \<not> TCP_SEQ_BETWEEN (seqno s1) (rcv_nxt (tpcb s1 pcb)) (rcv_nxt (tpcb s1 pcb) + ucast (rcv_wnd (tpcb s1 pcb)) - 1)
             then tcp_ack_now pcb s1 else s1)) = Inr s'"
    by (fastforce simp: tcp_receive_def Let_def received_same dest!: fsm_frame split: if_splits)
  have "received pcb s1 s'" using b receive_data_received by (auto simp: received_same split: if_splits)
  then show "received pcb s s'" by (rule received_trans [OF a])
qed

section \<open>The lists\<close>

lemma purge_frame [fsm_frame]: "tcp_pcb_purge p s = Inr s' \<Longrightarrow> same s s'"
  by (auto simp: tcp_pcb_purge_def Let_def dest!: fsm_frame split: if_splits)

lemma timer_needed_frame [fsm_frame]: "timer_needed s = Inr s' \<Longrightarrow> same s s'"
  by (auto simp: timer_needed_def Let_def split: if_splits)

lemma rmv_loop_frame [fsm_frame]: "rmv_loop fuel q p s = Inr s' \<Longrightarrow> same s s'"
  by (induction fuel arbitrary: q s) (auto split: if_splits)

lemma lists_frame [fsm_frame]: "TCP_RMV_ACTIVE p s = Inr s' \<Longrightarrow> same s s'" "TCP_REG l p s = Inr s'' \<Longrightarrow> same s s''"
  by (auto simp: TCP_RMV_ACTIVE_def TCP_RMV_def TCP_REG_def dest!: fsm_frame split: if_splits)

lemma enter_time_wait_states:
  "enter_time_wait pcb s = Inr s' \<Longrightarrow> states s' = (states s)(pcb := TIME_WAIT) \<and> nexts s' = nexts s \<and> ackno s' = ackno s \<and> iflags s' = iflags s \<and>
    recv_flags s' = recv_flags s"
  by (auto simp: enter_time_wait_def dest!: fsm_frame)

section \<open>The transitions\<close>

text \<open>
  The state diagram of RFC 793 for a segment that is no RST and no SYN: the state after it, by the state before it, whether a FIN was
  received in sequence, and whether our FIN is acknowledged. The code decides the first by \<^verbatim>\<open>TF_GOT_FIN\<close>, which \<^verbatim>\<open>tcp_receive\<close> sets, and
  the second by \<^verbatim>\<open>ackno == snd_nxt\<close>, that is, everything sent so far is acknowledged: the two agree only when nothing is left on the unsent queue
  (\<open>last_ack_unsent_flaw\<close>).
\<close>

inductive arrives :: "bool \<Rightarrow> bool \<Rightarrow> tcp_fsm \<Rightarrow> tcp_fsm \<Rightarrow> bool" for fin ack where
  passive_close: "fin \<Longrightarrow> arrives fin ack ESTABLISHED CLOSE_WAIT"
| data: "\<not> fin \<Longrightarrow> arrives fin ack ESTABLISHED ESTABLISHED"
| fin_acked: "\<not> fin \<Longrightarrow> ack \<Longrightarrow> arrives fin ack FIN_WAIT_1 FIN_WAIT_2"
| simultaneous_close: "fin \<Longrightarrow> \<not> ack \<Longrightarrow> arrives fin ack FIN_WAIT_1 CLOSING"
| fin_and_ack: "fin \<Longrightarrow> ack \<Longrightarrow> arrives fin ack FIN_WAIT_1 TIME_WAIT"
| not_acked: "\<not> fin \<Longrightarrow> \<not> ack \<Longrightarrow> arrives fin ack FIN_WAIT_1 FIN_WAIT_1"
| closed: "fin \<Longrightarrow> arrives fin ack FIN_WAIT_2 TIME_WAIT"
| half_closed: "\<not> fin \<Longrightarrow> arrives fin ack FIN_WAIT_2 FIN_WAIT_2"
| both_closed: "ack \<Longrightarrow> arrives fin ack CLOSING TIME_WAIT"
| closing: "\<not> ack \<Longrightarrow> arrives fin ack CLOSING CLOSING"
| to_be_closed: "arrives fin ack CLOSE_WAIT CLOSE_WAIT"
| last_ack: "arrives fin ack LAST_ACK LAST_ACK"

lemma arrives_order: "arrives fin ack st st' \<Longrightarrow> st \<le> st'"
  by (induction rule: arrives.induct) (simp_all add: less_eq_tcp_fsm_def)

lemma after_receive_states:
  assumes r: "after_receive (states s pcb) pcb t = Inr s'" and t: "received pcb s t" and st: "ESTABLISHED \<le> states s pcb" "states s pcb \<noteq> TIME_WAIT"
    and flags: "recv_flags s = 0"
  shows "(\<forall>q. q \<noteq> pcb \<longrightarrow> states s' q = states s q) \<and> arrives (got_fin s') (all_acked pcb s) (states s pcb) (states s' pcb) \<and>
    (recv_flags s' AND TF_CLOSED \<noteq> 0 \<longleftrightarrow> states s pcb = LAST_ACK \<and> all_acked pcb s)"
proof -
  have ack: "all_acked pcb t = all_acked pcb s" using t by (simp add: all_acked_def received_def in_flag_def)
  have got: "recv_flags t = 0 \<or> recv_flags t = TF_GOT_FIN" using t flags by (simp add: received_def)
  have st': "states t = states s \<or> states s pcb = ESTABLISHED \<and> recv_flags t = TF_GOT_FIN \<and> states t = (states s)(pcb := CLOSE_WAIT)"
    using t got by (auto simp: received_def got_fin_def)
  show ?thesis
  proof (cases "states s pcb")
    case ESTABLISHED
    then show ?thesis using r got st' by (auto simp: after_receive_def got_fin_def intro: arrives.intros split: if_splits)
  next
    case FIN_WAIT_1
    then show ?thesis using r got st' ack
      by (auto simp: after_receive_def got_fin_def intro: arrives.intros dest!: enter_time_wait_states split: if_splits)
  qed (use st r got st' ack in \<open>auto simp: after_receive_def got_fin_def less_eq_tcp_fsm_def intro: arrives.intros dest!: enter_time_wait_states split: if_splits\<close>)
qed


section \<open>Closing before everything is sent\<close>

lemma window_update_fields:
  "lastack (window_update sq ak w u) = lastack u" "rtime (window_update sq ak w u) = rtime u" "rttest (window_update sq ak w u) = rttest u"
  "unsent (window_update sq ak w u) = unsent u"
  by (simp_all add: window_update_def Let_def)

lemma set_tpcb_twice [simp]: "set_tpcb p g (set_tpcb p f s) = set_tpcb p (\<lambda>u. g (f u)) s"
  by (simp add: set_tpcb_def)

lemma set_tpcb_same [simp]: "tpcb (set_tpcb p f s) p = f (tpcb s p)" "segs (set_tpcb p f s) = segs s" "tcplen (set_tpcb p f s) = tcplen s"
  "seqno (set_tpcb p f s) = seqno s" "seg_seqno g (set_tpcb p f s) = seg_seqno g s" "TCP_TCPLEN sg (set_tpcb p f s) = TCP_TCPLEN sg s"
  by (simp_all add: set_tpcb_def seg_seqno_def mem_u32_def memory_def TCP_TCPLEN_def TCPH_FLAGS_def mem_u16_def)

lemma idle_ack:
  assumes "ackno s = lastack (tpcb s pcb)" "rtime (tpcb s pcb) < 0" "rttest (tpcb s pcb) = 0"
    and "g = 0 \<or> \<not> TCP_SEQ_BETWEEN (ackno s) (seg_seqno g s + word_of_nat (TCP_TCPLEN (segs s g) s)) (snd_nxt (tpcb s pcb))" "unsent (tpcb s pcb) = g"
  shows "\<exists>f. receive_ack th pcb s = Inr (set_tpcb pcb f s) \<and> unsent (f (tpcb s pcb)) = g"
proof -
  have idle: "unsent_loop SEG_MAX pcb t = Inr t" if "unsent (tpcb t pcb) = g" "g = 0 \<or> \<not> TCP_SEQ_BETWEEN (ackno t) (seg_seqno g t + word_of_nat (TCP_TCPLEN (segs t g) t)) (snd_nxt (tpcb t pcb))" for t :: "'a tcp_like"
    using that unsent_loop.simps(2) [of 127 pcb t] by (auto simp: Let_def)
  show ?thesis
    using assms by (simp add: receive_ack_def old_ack_def Let_def window_update_fields idle TCP_SEQ_LEQ_def) (auto simp: window_update_fields)
qed

lemma idle_process:
  assumes st: "fsm (tpcb s pcb) = st" "ESTABLISHED \<le> st" "st \<noteq> TIME_WAIT" and flags: "in_flag TCP_ACK s" "\<not> in_flag TCP_RST s" "\<not> in_flag TCP_SYN s" "tcplen s = 0"
    and idle: "ackno s = lastack (tpcb s pcb)" "snd_nxt (tpcb s pcb) = lastack (tpcb s pcb)" "rtime (tpcb s pcb) < 0" "rttest (tpcb s pcb) = 0"
    and queue: "unsent (tpcb s pcb) = g"
      "g = 0 \<or> seg_seqno g s = snd_nxt (tpcb s pcb) \<and> 0 < TCP_TCPLEN (segs s g) s \<and> TCP_TCPLEN (segs s g) s < 65536"
  shows "\<exists>s1. tcp_process E th pcb s = rbind (after_receive st pcb s1) (\<lambda>s. Inr (ERR_OK, s)) \<and> same s s1 \<and> unsent (tpcb s1 pcb) = g"
proof -
  define f0 :: "tcp_pcb \<Rightarrow> tcp_pcb" where "f0 = (\<lambda>u. (if \<not> has_flag TF_RXCLOSED (tpcb s pcb) then u\<lparr>tmr := tcp_ticks s\<rparr> else u)\<lparr>keep_cnt_sent := 0\<rparr>)"
  obtain m where m: "tcp_parseopt th pcb (set_tpcb pcb f0 s) = Inr (set_tpcb pcb (\<lambda>u. u\<lparr>mss := m u\<rparr>) (set_tpcb pcb f0 s))"
    by (rule that [OF tcp_parseopt_spec])
  define f1 where "f1 = (\<lambda>u. (f0 u)\<lparr>mss := m (f0 u)\<rparr>)"
  have f1: "lastack (f1 u) = lastack u" "rtime (f1 u) = rtime u" "rttest (f1 u) = rttest u" "unsent (f1 u) = unsent u" "snd_nxt (f1 u) = snd_nxt u" "fsm (f1 u) = fsm u" for u
    by (cases "has_flag TF_RXCLOSED (tpcb s pcb)"; simp add: f1_def f0_def)+
  have process: "tcp_process E th pcb s = rbind (tcp_receive (linkf E) th pcb (set_tpcb pcb f1 s)) (\<lambda>s. rbind (after_receive st pcb s) (\<lambda>s. Inr (ERR_OK, s)))"
  proof -
    have a: "set_tpcb pcb (\<lambda>u. u\<lparr>keep_cnt_sent := 0\<rparr>) (if \<not> has_flag TF_RXCLOSED (tpcb s pcb) then set_tpcb pcb (\<lambda>u. u\<lparr>tmr := tcp_ticks s\<rparr>) s else s) =
        set_tpcb pcb f0 s"
      by (simp add: f0_def)
    have b: "set_tpcb pcb (\<lambda>u. u\<lparr>mss := m u\<rparr>) (set_tpcb pcb f0 s) = set_tpcb pcb f1 s" by (simp add: f1_def)
    have c: "(if in_flag TCP_SYN s \<and> fsm (tpcb s pcb) \<noteq> SYN_SENT \<and> fsm (tpcb s pcb) \<noteq> SYN_RCVD then x else y) = y" for x y :: "(err_t \<times> 'a tcp_like) res"
      using flags(3) by simp
    have "fsm (tpcb (set_tpcb pcb f1 s) pcb) = st" using st f1(6) by simp
    then show ?thesis unfolding tcp_process_def Let_def if_not_P [OF flags(2)] c a m b rbind_Inr
      using st by (cases st) (simp_all add: less_eq_tcp_fsm_def)
  qed
  let ?t = "set_tpcb pcb f1 s"
  have "g = 0 \<or> \<not> TCP_SEQ_BETWEEN (ackno s) (seg_seqno g s + word_of_nat (TCP_TCPLEN (segs s g) s)) (snd_nxt (tpcb s pcb))"
  proof (cases "g = 0")
    case False
    then have queue: "seg_seqno g s = snd_nxt (tpcb s pcb)" "0 < TCP_TCPLEN (segs s g) s" "TCP_TCPLEN (segs s g) s < 65536"
      using queue(2) by blast+
    then have "sint (- word_of_nat (TCP_TCPLEN (segs s g) s) :: u32) = - int (TCP_TCPLEN (segs s g) s)"
      using sint_small [of "- int (TCP_TCPLEN (segs s g) s)"] queue(3) by simp
    then show ?thesis using idle queue by (simp add: TCP_SEQ_BETWEEN_def TCP_SEQ_GEQ_def)
  qed simp
  then obtain f where f: "receive_ack th pcb ?t = Inr (set_tpcb pcb f ?t)" "unsent (f (f1 (tpcb s pcb))) = g"
    using idle_ack [of ?t pcb g th] idle queue(1) by (auto simp: f1)
  have keep: "same ?t (set_tpcb pcb f ?t)" by (rule fsm_frame) (rule f)
  define s1 where "s1 = (if \<not> TCP_SEQ_BETWEEN (seqno s) (rcv_nxt (f (f1 (tpcb s pcb)))) (rcv_nxt (f (f1 (tpcb s pcb))) + ucast (rcv_wnd (f (f1 (tpcb s pcb)))) - 1)
    then tcp_ack_now pcb (set_tpcb pcb f ?t) else set_tpcb pcb f ?t)"
  have "states ?t pcb = st" "in_flag TCP_ACK ?t" using st flags(1) f1(6) by (simp_all add: in_flag_def)
  then have "tcp_receive (linkf E) th pcb ?t = Inr s1"
    using f(1) flags(4) st(2) by (simp add: tcp_receive_def Let_def s1_def less_eq_tcp_fsm_def less_tcp_fsm_def f1(6) st del: set_tpcb_twice states_update fsm_states)
  moreover have "same s s1" using keep f1(5,6) by (simp add: s1_def)
  moreover have "unsent (tpcb s1 pcb) = g" using f(2) by (simp add: s1_def tcp_ack_now_def set_flag_def)
  ultimately have s1: "tcp_receive (linkf E) th pcb ?t = Inr s1" "same s s1" "unsent (tpcb s1 pcb) = g" by blast+
  then show ?thesis unfolding process by auto
qed

text \<open>
  A connection in LAST-ACK is given up while it still has something to send: if nothing is in flight (the peer has closed its
  window, say) and the rest of the data, with the FIN, waits on the unsent queue, then any repeated acknowledgement acknowledges
  \<^verbatim>\<open>snd_nxt\<close>, and \<^verbatim>\<open>tcp_process\<close> reports the connection as closed with the queue still there.
\<close>

theorem last_ack_unsent_flaw:
  assumes st: "fsm (tpcb s pcb) = LAST_ACK" and flags: "in_flag TCP_ACK s" "\<not> in_flag TCP_RST s" "\<not> in_flag TCP_SYN s" "tcplen s = 0"
    and idle: "ackno s = lastack (tpcb s pcb)" "snd_nxt (tpcb s pcb) = lastack (tpcb s pcb)" "rtime (tpcb s pcb) < 0" "rttest (tpcb s pcb) = 0"
    and queue: "unsent (tpcb s pcb) = g" "g \<noteq> 0" "seg_seqno g s = snd_nxt (tpcb s pcb)" "0 < TCP_TCPLEN (segs s g) s" "TCP_TCPLEN (segs s g) s < 65536"
  shows "\<exists>s'. tcp_process E th pcb s = Inr (ERR_OK, s') \<and> recv_flags s' AND TF_CLOSED \<noteq> 0 \<and> unsent (tpcb s' pcb) = g"
proof -
  obtain s1 where s1: "tcp_process E th pcb s = rbind (after_receive LAST_ACK pcb s1) (\<lambda>s. Inr (ERR_OK, s))" "same s s1" "unsent (tpcb s1 pcb) = g"
    using idle_process [OF st _ _ flags idle queue(1)] queue(3,4,5) by (auto simp: less_eq_tcp_fsm_def)
  then have "all_acked pcb s1" using flags(1) idle(1,2) by (simp add: all_acked_def in_flag_def)
  then show ?thesis using s1 by (auto simp: after_receive_def)
qed

text \<open>A connection whose last 100 bytes and FIN are not sent yet.\<close>

definition unsent_sample :: tcp_state where
  "unsent_sample = put 3012 [0x50, 0x11] (put 3004 [0, 0, 0, 0]
     (tcp_sample sample (\<lambda>_. (new_pcb 64 0 0 0)\<lparr>fsm := LAST_ACK, unsent := 50\<rparr>)
       (\<lambda>_. \<lparr>seg_next = 0, sp = 2000, slen = 100, soptflags = 0, shdr = 3000\<rparr>) (\<lambda>_. 100)))\<lparr>iflags := TCP_ACK\<rparr>"

lemma unsent_sample_fields:
  "tpcb unsent_sample 100 = (new_pcb 64 0 0 0)\<lparr>fsm := LAST_ACK, unsent := 50\<rparr>" "in_flag TCP_ACK unsent_sample" "\<not> in_flag TCP_RST unsent_sample"
  "\<not> in_flag TCP_SYN unsent_sample" "tcplen unsent_sample = 0" "ackno unsent_sample = 0" "recv_flags unsent_sample = 0"
  "segs unsent_sample 50 = \<lparr>seg_next = 0, sp = 2000, slen = 100, soptflags = 0, shdr = 3000\<rparr>"
  by (simp_all add: unsent_sample_def put_def tcp_sample_pbuf in_flag_def) (simp_all add: tcp_sample_def udp_sample_def ip_state.defs udp_state.defs raw_state.defs dns_state.defs tcp_state.defs set_arp_def)

lemma unsent_sample_seg: "seg_seqno 50 unsent_sample = 0" "TCP_TCPLEN \<lparr>seg_next = 0, sp = 2000, slen = 100, soptflags = 0, shdr = 3000\<rparr> unsent_sample = 101"
proof -
  have b: "memory unsent_sample 3004 = 0" "memory unsent_sample 3005 = 0" "memory unsent_sample 3006 = 0" "memory unsent_sample 3007 = 0"
    "memory unsent_sample 3012 = 0x50" "memory unsent_sample 3013 = 0x11"
    by (simp_all add: unsent_sample_def memory_def put_def set_arp_def poke_def write_bytes_def)
  then have "mem_u32 3004 unsent_sample = 0" "mem_u16 3012 unsent_sample = 0x1150"
    by (simp_all add: mem_u32_def mem_u16_def load_u32_def)
  moreover have "lwip_ntohl 0 = 0" "lwip_ntohs 0x1150 = 0x5011" by code_simp+
  ultimately show "seg_seqno 50 unsent_sample = 0" "TCP_TCPLEN \<lparr>seg_next = 0, sp = 2000, slen = 100, soptflags = 0, shdr = 3000\<rparr> unsent_sample = 101"
    by (simp_all add: seg_seqno_def TCP_TCPLEN_def TCPH_FLAGS_def unsent_sample_fields)
qed

theorem last_ack_unsent_witness:
  "\<exists>s'. tcp_process busy_app 4000 100 unsent_sample = Inr (ERR_OK, s') \<and> recv_flags s' AND TF_CLOSED \<noteq> 0 \<and> unsent (tpcb s' 100) = 50"
  using last_ack_unsent_flaw [of unsent_sample 100 50 busy_app 4000] by (simp add: unsent_sample_fields unsent_sample_seg new_pcb_def)

text \<open>A connection in FIN-WAIT-2 with everything acknowledged; the peer repeats its acknowledgement.\<close>

definition waiting_sample :: tcp_state where
  "waiting_sample = (tcp_sample sample (\<lambda>_. (new_pcb 64 0 0 0)\<lparr>fsm := FIN_WAIT_2\<rparr>) (\<lambda>_. \<lparr>seg_next = 0, sp = 0, slen = 0, soptflags = 0, shdr = 0\<rparr>) (\<lambda>_. 100))\<lparr>iflags := TCP_ACK\<rparr>"

lemma waiting_sample_fields:
  "tpcb waiting_sample 100 = (new_pcb 64 0 0 0)\<lparr>fsm := FIN_WAIT_2\<rparr>" "in_flag TCP_ACK waiting_sample" "\<not> in_flag TCP_RST waiting_sample"
  "\<not> in_flag TCP_SYN waiting_sample" "tcplen waiting_sample = 0" "ackno waiting_sample = 0" "recv_flags waiting_sample = 0"
  by (simp_all add: waiting_sample_def in_flag_def)
    (simp_all add: tcp_sample_def udp_sample_def ip_state.defs udp_state.defs raw_state.defs dns_state.defs tcp_state.defs set_arp_def)


end
