(* ===== verification/Dns_Names.thy ===== *)
theory Dns_Names
  imports Dns Udp_Life
begin

text \<open>
  The names of \<^verbatim>\<open>dns.c\<close>: a query can be read back by the functions that read responses, it fits into its pbuf but for the longest
  names, and a response with the answer to it is understood; and what the comparison of names accepts besides.
\<close>

section \<open>Labels\<close>

definition good_label :: "bytes \<Rightarrow> bool" where
  "good_label l \<longleftrightarrow> l \<noteq> [] \<and> length l < 64 \<and> dot \<notin> set l \<and> 0 \<notin> set l"

fun dotted :: "bytes list \<Rightarrow> bytes" where
  "dotted [] = []"
| "dotted [l] = l"
| "dotted (l # ls) = l @ dot # dotted ls"

definition label_bytes :: "bytes list \<Rightarrow> bytes" where
  "label_bytes ls = concat (map (\<lambda>l. word_of_nat (length l) # l) ls)"

lemma label_bytes_simps [simp]: "label_bytes [] = []" "label_bytes (l # ls) = word_of_nat (length l) # l @ label_bytes ls" "label_bytes (ls @ ms) = label_bytes ls @ label_bytes ms"
  by (simp_all add: label_bytes_def)

lemma takeWhile_dot: "dot \<notin> set l \<Longrightarrow> takeWhile (\<lambda>c. c \<noteq> dot) (l @ dot # r) = l" "dot \<notin> set l \<Longrightarrow> dropWhile (\<lambda>c. c \<noteq> dot) (l @ dot # r) = dot # r"
  "dot \<notin> set l \<Longrightarrow> takeWhile (\<lambda>c. c \<noteq> dot) l = l" "dot \<notin> set l \<Longrightarrow> dropWhile (\<lambda>c. c \<noteq> dot) l = []"
  by (induction l) auto

lemma encode_dotted: "ls \<noteq> [] \<Longrightarrow> \<forall>l \<in> set ls. dot \<notin> set l \<Longrightarrow> encode_labels (dotted ls) = label_bytes ls"
proof (induction ls rule: dotted.induct)
  case (2 l)
  then show ?case by (subst encode_labels.simps) (simp add: takeWhile_dot)
next
  case (3 l m ls)
  have "encode_labels (l @ dot # dotted (m # ls)) = word_of_nat (length l) # l @ encode_labels (dotted (m # ls))"
    using 3(3) by (subst encode_labels.simps) (simp add: takeWhile_dot)
  then show ?case using 3 by simp
qed simp

lemma length_encode: "length (encode_labels name) = length name + 1"
proof (induction name rule: encode_labels.induct)
  case (1 name)
  let ?l = "takeWhile (\<lambda>c. c \<noteq> dot) name" and ?r = "dropWhile (\<lambda>c. c \<noteq> dot) name"
  have "length ?l + length ?r = length name" by (metis length_append takeWhile_dropWhile_id)
  moreover have "?r \<noteq> [] \<Longrightarrow> length (encode_labels (tl ?r)) = length ?r" using 1 [OF refl refl] by (cases ?r) auto
  ultimately show ?case by (subst encode_labels.simps) (auto simp: Let_def simp del: dropWhile_eq_Nil_conv)
qed

section \<open>Reading names\<close>

lemma short_length: "length l < 64 \<Longrightarrow> unat (word_of_nat (length l) :: u8) = length l" "length l < 64 \<Longrightarrow> \<not> compressed (word_of_nat (length l))"
proof -
  assume "length l < 64"
  then show u: "unat (word_of_nat (length l) :: u8) = length l" by (simp add: unat_of_nat take_bit_nat_eq_self)
  show "\<not> compressed (word_of_nat (length l))"
  proof
    assume "compressed (word_of_nat (length l))"
    then have "0xc0 \<le> (word_of_nat (length l) :: u8)" unfolding compressed_def by (metis word_and_le2)
    then show False using u \<open>length l < 64\<close> by (simp add: word_le_nat_alt)
  qed
qed

lemma parse_wire:
  "ls \<noteq> [] \<Longrightarrow> \<forall>l \<in> set ls. good_label l \<Longrightarrow> dns_parse_name (pre @ label_bytes ls @ 0 # post) (length pre) = Inr (length pre + length (label_bytes ls) + 1)"
proof (induction ls arbitrary: pre)
  case (Cons l ls)
  let ?b = "pre @ label_bytes (l # ls) @ 0 # post"
  have good: "length l < 64" using Cons.prems by (simp add: good_label_def)
  have step: "dns_parse_name ?b (length pre) =
      (if ?b ! (length pre + 1 + length l) = 0 then Inr (length pre + 1 + length l + 1) else dns_parse_name ?b (length pre + 1 + length l))"
    by (subst dns_parse_name.simps) (simp add: short_length good nth_append)
  show ?case
  proof (cases ls)
    case Nil
    then show ?thesis unfolding step by (simp add: nth_append)
  next
    case (Cons m ms)
    have "?b ! (length pre + 1 + length l) = word_of_nat (length m)" by (simp add: Cons nth_append)
    moreover have "0 < length m" "length m < 64" using Cons.prems Cons by (auto simp: good_label_def)
    moreover have "word_of_nat (length m) \<noteq> (0 :: u8)" using short_length(1) [of m] calculation(2,3) by auto
    moreover have "dns_parse_name ((pre @ word_of_nat (length l) # l) @ label_bytes ls @ 0 # post) (length (pre @ word_of_nat (length l) # l)) =
        Inr (length (pre @ word_of_nat (length l) # l) + length (label_bytes ls) + 1)"
      by (rule Cons.IH) (use Cons.prems Cons in auto)
    ultimately show ?thesis unfolding step by simp
  qed
qed simp

lemma label_differs_spec:
  "q + length l \<le> length query \<Longrightarrow> label_differs (length l) query q (pre @ l @ post) (length pre) = Inr (take (length l) (drop q query) \<noteq> l)"
proof (induction l arbitrary: q pre)
  case (Cons c l)
  have "drop q query = query ! q # drop (q + 1) query" using Cons.prems by (simp add: Cons_nth_drop_Suc)
  moreover have "label_differs (length l) query (q + 1) ((pre @ [c]) @ l @ post) (length (pre @ [c])) = Inr (take (length l) (drop (q + 1) query) \<noteq> l)"
    by (rule Cons.IH) (use Cons.prems in simp)
  ultimately show ?case using Cons.prems by (auto simp: nth_append)
qed simp

text \<open>What the comparison looks at: the labels at their places; what stands between them, and what follows, does not count.\<close>

fun labels_match :: "bytes \<Rightarrow> nat \<Rightarrow> bytes list \<Rightarrow> bool" where
  "labels_match query q [] \<longleftrightarrow> True"
| "labels_match query q (l # ls) \<longleftrightarrow> take (length l) (drop q query) = l \<and> labels_match query (q + length l + 1) ls"

lemma compare_wire:
  "ls \<noteq> [] \<Longrightarrow> \<forall>l \<in> set ls. good_label l \<Longrightarrow> q + length (label_bytes ls) \<le> length query + 1 \<Longrightarrow>
     dns_compare_name query q (pre @ label_bytes ls @ 0 # post) (length pre) = Inr (\<not> labels_match query q ls)"
proof (induction ls arbitrary: pre q)
  case (Cons l ls)
  let ?b = "pre @ label_bytes (l # ls) @ 0 # post"
  have good: "length l < 64" using Cons.prems by (simp add: good_label_def)
  have d: "label_differs (length l) query q ((pre @ [word_of_nat (length l)]) @ l @ label_bytes ls @ 0 # post) (length (pre @ [word_of_nat (length l)])) =
      Inr (take (length l) (drop q query) \<noteq> l)"
    by (rule label_differs_spec) (use Cons.prems(3) in simp)
  have step: "dns_compare_name query q ?b (length pre) =
      (if take (length l) (drop q query) \<noteq> l then Inr True
       else if ?b ! (length pre + 1 + length l) = 0 then Inr False else dns_compare_name query (q + length l + 1) ?b (length pre + 1 + length l))"
    using d by (subst dns_compare_name.simps) (simp add: short_length good nth_append)
  show ?case
  proof (cases ls)
    case Nil
    then show ?thesis unfolding step by (simp add: nth_append)
  next
    case (Cons m ms)
    have "?b ! (length pre + 1 + length l) = word_of_nat (length m)" by (simp add: Cons nth_append)
    moreover have "0 < length m" "length m < 64" using Cons.prems Cons by (auto simp: good_label_def)
    moreover have "word_of_nat (length m) \<noteq> (0 :: u8)" using short_length(1) [of m] calculation(2,3) by auto
    moreover have "dns_compare_name query (q + length l + 1) ((pre @ word_of_nat (length l) # l) @ label_bytes ls @ 0 # post) (length (pre @ word_of_nat (length l) # l)) =
        Inr (\<not> labels_match query (q + length l + 1) ls)"
      by (rule Cons.IH) (use Cons.prems Cons in auto)
    ultimately show ?thesis unfolding step by simp
  qed
qed simp

lemma match_dotted: "labels_match (pre @ dotted (ls @ ms) @ post) (length pre) ls"
proof (induction ls arbitrary: pre)
  case (Cons l ls)
  show ?case
  proof (cases "ls @ ms")
    case Nil
    then show ?thesis by simp
  next
    case (Cons m rest)
    have "labels_match ((pre @ l @ [dot]) @ dotted (ls @ ms) @ post) (length (pre @ l @ [dot])) ls" by (rule Cons.IH)
    then show ?thesis using Cons by simp
  qed
qed simp

section \<open>Queries\<close>

text \<open>The array that holds the name of an entry.\<close>

definition named :: "bytes \<Rightarrow> bytes \<Rightarrow> bool" where
  "named name array \<longleftrightarrow> length array = DNS_MAX_NAME_LENGTH \<and> (\<exists>post. array = name @ 0 # post)"

lemma named_put: "length old = DNS_MAX_NAME_LENGTH \<Longrightarrow> length name < DNS_MAX_NAME_LENGTH \<Longrightarrow> named name (put_name name old)"
  by (auto simp: named_def put_name_def Let_def)

lemma named_string:
  assumes "named name array" "0 \<notin> set name"
  shows "c_string array = name"
proof -
  obtain post where "array = name @ 0 # post" using assms(1) by (auto simp: named_def)
  moreover have "\<forall>c \<in> set name. c \<noteq> 0" using assms(2) by metis
  ultimately show ?thesis by (simp add: c_string_def takeWhile_append_stop)
qed

lemma length_label_bytes: "ls \<noteq> [] \<Longrightarrow> length (label_bytes ls) = length (dotted ls) + 1"
  by (induction ls rule: dotted.induct) auto

text \<open>
  C21. A query reads back as the name it was made of: behind the header, \<^verbatim>\<open>dns_parse_name\<close> finds the end of the name that
  \<^verbatim>\<open>dns_send\<close> wrote, and \<^verbatim>\<open>dns_compare_name\<close> finds it equal to the name in the table, whatever follows.
\<close>

theorem dns_name_roundtrip:
  assumes ls: "ls \<noteq> []" "\<forall>l \<in> set ls. good_label l" and name: "named (dotted ls) array"
  shows "dns_parse_name (dns_query i (dotted ls) @ post) SIZEOF_DNS_HDR = Inr (SIZEOF_DNS_HDR + length (dotted ls) + 2) \<and>
    dns_compare_name array 0 (dns_query i (dotted ls) @ post) SIZEOF_DNS_HDR = Inr False"
proof -
  define start12 where "start12 = [0, i, DNS_FLAG1_RD, 0, 0, 1, 0, 0, 0, 0, 0, 0]"
  have len12: "length start12 = SIZEOF_DNS_HDR" by (simp add: start12_def)
  have "\<forall>l \<in> set ls. dot \<notin> set l" using ls(2) by (simp add: good_label_def)
  then have q: "dns_query i (dotted ls) @ post = start12 @ label_bytes ls @ 0 # [0, 1, 0, 1] @ post"
    using encode_dotted [OF ls(1)] by (simp add: dns_query_def start12_def)
  obtain rest where rest: "array = dotted ls @ 0 # rest" "length array = 256" using name by (auto simp: named_def)
  have "labels_match ([] @ dotted (ls @ []) @ 0 # rest) (length ([] :: bytes)) ls" by (rule match_dotted)
  then have m: "labels_match array 0 ls" by (simp add: rest)
  have "length (label_bytes ls) \<le> 257" using length_label_bytes [OF ls(1)] arg_cong [OF rest(1), of length] rest(2) by simp
  then have "dns_compare_name array 0 (start12 @ label_bytes ls @ 0 # [0, 1, 0, 1] @ post) (length start12) = Inr False"
    using compare_wire [OF ls, of 0 array] rest(2) m by simp
  moreover have "dns_parse_name (start12 @ label_bytes ls @ 0 # [0, 1, 0, 1] @ post) (length start12) = Inr (length start12 + length (label_bytes ls) + 1)"
    by (rule parse_wire [OF ls])
  ultimately show ?thesis unfolding q using length_label_bytes [OF ls(1)] by (simp add: len12)
qed

theorem dns_name_roundtrip_witness:
  "dns_parse_name (dns_query 3 [97, 46, 98, 99]) 12 = Inr 18 \<and> dns_compare_name (put_name [97, 46, 98, 99] (replicate 256 0)) 0 (dns_query 3 [97, 46, 98, 99]) 12 = Inr False"
proof -
  have "named (dotted [[97], [98, 99]]) (put_name [97, 46, 98, 99] (replicate 256 0))" using named_put [of "replicate 256 0" "[97, 46, 98, 99]"] by simp
  moreover have "\<forall>l \<in> set [[97], [98, 99 :: u8]]. good_label l" by (simp add: good_label_def)
  ultimately show ?thesis using dns_name_roundtrip [of "[[97], [98, 99]]" "put_name [97, 46, 98, 99] (replicate 256 0)" 3 "[]"] by simp
qed

text \<open>
  What the check of the name in a response lets through. Of a response whose question is the labels \<open>ls\<close>, exactly the
  labels themselves are compared, each at its place in the name of the entry: what stands between them in the entry does not
  count, so that a response for two labels also passes for a name with another character than the dot; nor does what
  follows, so that a response for the first labels of the name passes for the name. A question that begins with a compressed name passes for every entry.
\<close>

theorem dns_name_check_accepts:
  assumes ls: "ls \<noteq> []" "\<forall>l \<in> set ls. good_label l" and entry: "length (label_bytes ls) \<le> length array + 1"
    and head: "length head = SIZEOF_DNS_HDR" and pointer: "compressed n"
  shows "dns_compare_name array 0 (head @ label_bytes ls @ 0 # post) SIZEOF_DNS_HDR = Inr (\<not> labels_match array 0 ls) \<and>
    (array = dotted (ls @ ms) @ rest \<longrightarrow> labels_match array 0 ls) \<and>
    (ls = [l, m] \<and> array = l @ c # m @ rest \<longrightarrow> labels_match array 0 ls) \<and>
    dns_compare_name array 0 (head @ n # post) SIZEOF_DNS_HDR = Inr False"
proof (intro conjI impI)
  show "dns_compare_name array 0 (head @ label_bytes ls @ 0 # post) SIZEOF_DNS_HDR = Inr (\<not> labels_match array 0 ls)"
    using compare_wire [OF ls, of 0 array head post] entry head by simp
  show "labels_match array 0 ls" if "array = dotted (ls @ ms) @ rest"
    using match_dotted [of "[]" ls ms rest] that by simp
  show "labels_match array 0 ls" if "ls = [l, m] \<and> array = l @ c # m @ rest"
    using that by simp
  show "dns_compare_name array 0 (head @ n # post) SIZEOF_DNS_HDR = Inr False"
    using head pointer by (subst dns_compare_name.simps) (simp add: nth_append)
qed

theorem dns_name_check_witness:
  "dns_compare_name ([97, 120, 98] @ replicate 253 0) 0 (replicate 12 0 @ [1, 97, 1, 98, 0]) 12 = Inr False \<and>
   dns_compare_name ([97, 120, 98] @ replicate 253 0) 0 (replicate 12 0 @ [0xc0]) 12 = Inr False"
  using dns_name_check_accepts [where ls = "[[97], [98]]" and array = "[97, 120, 98] @ replicate 253 0" and head = "replicate 12 0" and n = 192 and post = "[]"
    and ms = "[]" and rest = "replicate 253 0" and l = "[97]" and m = "[98]" and c = 120]
  by (auto simp: good_label_def compressed_def)

lemma query_pbuf:
  assumes "mem_ok sl (pb (arp s))" "dns_query_alloc s = Inr (p, s1)" "p \<noteq> 0"
  shows "plen (pbufs (pb (arp s1)) p) = 272" "pnext (pbufs (pb (arp s1)) p) = 0"
proof -
  obtain b where b: "pbuf_alloc PBUF_TRANSPORT 272 PBUF_RAM (pb (arp s)) = Inr (p, b)" "s1 = set_arp (set_pbs b (arp s)) s"
    using assms(2) by (auto simp: dns_query_alloc_def on_pbs_def)
  have sz: "SIZEOF_STRUCT_PBUF + layer_offset PBUF_TRANSPORT + 272 < 65536" by (simp add: layer_offset_def)
  from assms(1) sz have "plen (pbufs b p) = 272 \<and> pnext (pbufs b p) = 0"
    by (cases rule: alloc_ram_frame) (use b(1) assms(3) in \<open>auto simp: single_def\<close>)
  then show "plen (pbufs (pb (arp s1)) p) = 272" "pnext (pbufs (pb (arp s1)) p) = 0" by (simp_all add: b(2) set_arp_def set_pbs_def)
qed

lemma query_bytes:
  "bytes (pb (arp (dns_query_write p i name s))) = write_bytes (payload (pbufs (pb (arp s)) p)) (dns_query i name) (bytes (pb (arp s)))"
  by (simp add: dns_query_write_def store_def set_arp_def)

text \<open>
  C36. \<^verbatim>\<open>dns_send\<close> allocates a pbuf of \<^verbatim>\<open>SIZEOF_DNS_HDR + DNS_MAX_NAME_LENGTH + SIZEOF_DNS_QUERY\<close> bytes in one piece (\<open>dns_query_alloc\<close>) and
  writes the query into it (\<open>dns_query_write\<close>). If the name has up to 254 bytes, only bytes of this pbuf are written. The query for a name of 255 bytes,
  which \<^verbatim>\<open>dns_gethostbyname\<close> accepts, is one byte longer, and the byte behind the pbuf is overwritten.
\<close>

theorem dns_query_bounds:
  fixes name :: bytes and i :: u8
  assumes "mem_ok sl (pb (arp s))" "dns_query_alloc s = Inr (p, s1)" "p \<noteq> 0"
  defines "start \<equiv> payload (pbufs (pb (arp s1)) p)" and "stop \<equiv> payload (pbufs (pb (arp s1)) p) + plen (pbufs (pb (arp s1)) p)"
    and "s2 \<equiv> dns_query_write p i name s1"
  shows "pnext (pbufs (pb (arp s1)) p) = 0 \<and>
    (length name \<le> 254 \<longrightarrow> (\<forall>x. x < start \<or> stop \<le> x \<longrightarrow> bytes (pb (arp s2)) x = bytes (pb (arp s1)) x)) \<and>
    (length name = 255 \<longrightarrow> length name < DNS_MAX_NAME_LENGTH \<and> bytes (pb (arp s2)) stop = 1)"
proof -
  have len: "length (dns_query i name) = length name + 18" by (simp add: dns_query_def length_encode)
  have "dns_query i name ! 272 = 1" if "length name = 255"
  proof -
    have "dns_query i name = ([0, i, DNS_FLAG1_RD, 0, 0, 1, 0, 0, 0, 0, 0, 0] @ encode_labels name @ [0, 0, 1, 0]) @ [1]" by (simp add: dns_query_def)
    moreover have "length ([0, i, DNS_FLAG1_RD, 0, 0, 1, 0, 0, 0, 0, 0, 0] @ encode_labels name @ [0, 0, 1, 0]) = 272" using that by (simp add: length_encode)
    ultimately show ?thesis by (metis nth_append_length)
  qed
  then show ?thesis
    using query_pbuf [OF assms(1-3)] by (auto simp: s2_def query_bytes write_bytes_def start_def stop_def len)
qed

text \<open>A resolver whose heap is one free block.\<close>

definition query_sample :: dns_state where
  "query_sample = raw_state.extend (udp_state.extend (udp_sample sample) (raw_state.fields 0 (\<lambda>_. undefined)))
    (dns_state.fields 100 0 (\<lambda>_. undefined) (\<lambda>_. 0) 4000 4000 0 (\<lambda>_. undefined))"

lemma query_sample_pb: "pb (arp query_sample) = sample"
  by (simp add: query_sample_def udp_sample_def reass_sample_def arp_sample_def ip_state.defs udp_state.defs raw_state.defs dns_state.defs)

lemma query_block: "\<exists>h. mem_malloc 350 fresh_heap = Inr (4102, h)"
  using mem_malloc_law [OF fresh_heap(1), of 350] fresh_heap by (auto simp: fresh_heap_def mem_init_def)

theorem dns_query_bounds_witness:
  "\<exists>s1. dns_query_alloc query_sample = Inr (4102, s1) \<and>
     bytes (pb (arp (dns_query_write 4102 3 (replicate 255 97) s1))) (payload (pbufs (pb (arp s1)) 4102) + plen (pbufs (pb (arp s1)) 4102)) = 1"
proof -
  obtain h where h: "mem_malloc 350 fresh_heap = Inr (4102, h)" using query_block by blast
  have hs: "heap sample = fresh_heap" by (simp add: sample_def)
  have "pbuf_alloc PBUF_TRANSPORT 272 PBUF_RAM sample = Inr (4102, ram_pbuf PBUF_TRANSPORT 272 4102 h sample)"
    by (rule pbuf_alloc_ram_eq) (simp_all add: layer_offset_def u16_of_def hs h)
  then obtain s1 where s1: "dns_query_alloc query_sample = Inr (4102, s1)"
    by (simp add: dns_query_alloc_def on_pbs_def query_sample_pb)
  then show ?thesis
    using dns_query_bounds [OF _ s1, where name = "replicate 255 97" and i = 3 and sl = sample_slots] sample_ok(1)
    by (simp add: query_sample_pb)
qed

end
