(* ===== verification/Dns_Answer.thy ===== *)
theory Dns_Answer
  imports Dns_Names
begin

text \<open>Responses: an answer section in the format of RFC 1035 is read as it was written.\<close>

section \<open>Numbers in a message\<close>

lemma be16_net: "be16 (pre @ net_bytes16 w @ post) (length pre) = w"
  by (rule bit_word_eqI) (auto simp: be16_def net_bytes16_def nth_append bit_simps)

lemma net_bytes32_split: "net_bytes32 w = net_bytes16 (ucast (drop_bit 16 w)) @ net_bytes16 (ucast w)"
  by (simp add: net_bytes32_def net_bytes16_def) (auto intro!: bit_word_eqI simp: bit_simps)

lemma be32_net: "be32 (pre @ net_bytes32 w @ post) (length pre) = w"
proof -
  have "be16 (pre @ net_bytes16 (ucast (drop_bit 16 w)) @ net_bytes16 (ucast w) @ post) (length pre) = ucast (drop_bit 16 w)" by (rule be16_net)
  moreover have "be16 ((pre @ net_bytes16 (ucast (drop_bit 16 w))) @ net_bytes16 (ucast w) @ post) (length (pre @ net_bytes16 (ucast (drop_bit 16 w)))) = ucast w"
    by (rule be16_net)
  moreover have "push_bit 16 (ucast (ucast (drop_bit 16 w) :: u16)) OR ucast (ucast w :: u16) = w"
    by (rule bit_word_eqI) (auto simp: bit_simps)
  ultimately show ?thesis by (simp add: be32_def net_bytes32_split)
qed

lemma addr_at_host: "addr_at (pre @ host_bytes32 a @ post) (length pre) = a"
proof -
  have h: "host_bytes32 a = net_bytes32 (lwip_htonl a)" using host_bytes32_htonl [of "lwip_htonl a"] by simp
  show ?thesis unfolding addr_at_def h be32_net by simp
qed

section \<open>Records\<close>

record dns_rr =
  rr_owner :: bytes
  rr_type :: u16
  rr_class :: u16
  rr_ttl :: u32
  rr_data :: bytes

definition rr_fields :: "dns_rr \<Rightarrow> bytes" where
  "rr_fields r = net_bytes16 (rr_type r) @ net_bytes16 (rr_class r) @ net_bytes32 (rr_ttl r) @ net_bytes16 (word_of_nat (length (rr_data r))) @ rr_data r"

definition rr_bytes :: "dns_rr \<Rightarrow> bytes" where
  "rr_bytes r = rr_owner r @ rr_fields r"

text \<open>The owner of a record is a name, or a pointer to one.\<close>

definition good_rr :: "dns_rr \<Rightarrow> bool" where
  "good_rr r \<longleftrightarrow> length (rr_data r) < 65536 \<and>
     ((\<exists>c x. rr_owner r = [c, x] \<and> compressed c) \<or> (\<exists>ls. ls \<noteq> [] \<and> (\<forall>l \<in> set ls. good_label l) \<and> rr_owner r = label_bytes ls @ [0]))"

definition address_rr :: "dns_rr \<Rightarrow> bool" where
  "address_rr r \<longleftrightarrow> rr_type r = 1 \<and> rr_class r = 1 \<and> length (rr_data r) = 4"

lemma parse_owner:
  assumes "good_rr r"
  shows "dns_parse_name (pre @ rr_owner r @ post) (length pre) = Inr (length pre + length (rr_owner r))"
proof -
  consider c x where "rr_owner r = [c, x]" "compressed c" | ls where "ls \<noteq> []" "\<forall>l \<in> set ls. good_label l" "rr_owner r = label_bytes ls @ [0]"
    using assms by (auto simp: good_rr_def)
  then show ?thesis
  proof cases
    case 1
    then show ?thesis by (subst dns_parse_name.simps) (simp add: nth_append)
  next
    case 2
    then show ?thesis using parse_wire [OF 2(1,2), of pre post] by simp
  qed
qed

lemma fields_at:
  fixes pre post r
  defines "b \<equiv> pre @ rr_fields r @ post" and "q \<equiv> length pre"
  shows "be16 b q = rr_type r" "be16 b (q + 2) = rr_class r" "be32 b (q + 4) = rr_ttl r" "be16 b (q + 8) = word_of_nat (length (rr_data r))"
proof -
  have t: "be16 (pre @ net_bytes16 (rr_type r) @ x) (length pre) = rr_type r" for x by (rule be16_net)
  have c: "be16 ((pre @ net_bytes16 (rr_type r)) @ net_bytes16 (rr_class r) @ x) (length (pre @ net_bytes16 (rr_type r))) = rr_class r" for x by (rule be16_net)
  have l: "be32 ((pre @ net_bytes16 (rr_type r) @ net_bytes16 (rr_class r)) @ net_bytes32 (rr_ttl r) @ x)
      (length (pre @ net_bytes16 (rr_type r) @ net_bytes16 (rr_class r))) = rr_ttl r" for x by (rule be32_net)
  have n: "be16 ((pre @ net_bytes16 (rr_type r) @ net_bytes16 (rr_class r) @ net_bytes32 (rr_ttl r)) @ net_bytes16 (word_of_nat (length (rr_data r))) @ x)
      (length (pre @ net_bytes16 (rr_type r) @ net_bytes16 (rr_class r) @ net_bytes32 (rr_ttl r))) = word_of_nat (length (rr_data r))" for x by (rule be16_net)
  have len: "length (net_bytes32 v) = 4" for v by (simp add: net_bytes32_split)
  show "be16 b q = rr_type r" "be16 b (q + 2) = rr_class r" "be32 b (q + 4) = rr_ttl r" "be16 b (q + 8) = word_of_nat (length (rr_data r))"
    using t c l n by (simp_all add: b_def q_def rr_fields_def len)
qed

lemma length_fields: "length (rr_fields r) = SIZEOF_DNS_ANSWER + length (rr_data r)"
  by (simp add: rr_fields_def net_bytes32_split)

lemma answer_step:
  assumes "good_rr r"
  shows "answer_loop (Suc n) (pre @ rr_bytes r @ post) (length pre) =
    (if address_rr r then Inr (Some (min (rr_ttl r) DNS_MAX_TTL, addr_at (pre @ rr_bytes r @ post) (length pre + length (rr_owner r) + SIZEOF_DNS_ANSWER)))
     else answer_loop n (pre @ rr_bytes r @ post) (length pre + length (rr_bytes r)))"
proof -
  let ?b = "pre @ rr_bytes r @ post" and ?q = "length pre + length (rr_owner r)"
  have parse: "dns_parse_name ?b (length pre) = Inr ?q" using parse_owner [OF assms, of pre "rr_fields r @ post"] by (simp add: rr_bytes_def)
  note f = fields_at [of "pre @ rr_owner r" r post, unfolded append_assoc]
  have b: "pre @ rr_owner r @ rr_fields r @ post = ?b" by (simp add: rr_bytes_def)
  have at: "be16 ?b ?q = rr_type r" "be16 ?b (?q + 2) = rr_class r" "be32 ?b (?q + 4) = rr_ttl r" "be16 ?b (?q + 8) = word_of_nat (length (rr_data r))"
    using f unfolding b by simp_all
  have len: "unat (word_of_nat (length (rr_data r)) :: u16) = length (rr_data r)" using assms by (simp add: good_rr_def unat_of_nat take_bit_nat_eq_self)
  then have four: "word_of_nat (length (rr_data r)) = (4 :: u16) \<longleftrightarrow> length (rr_data r) = 4"
    using arg_cong [of "word_of_nat (length (rr_data r))" "4 :: u16" unat] by auto
  have "length ?b = ?q + SIZEOF_DNS_ANSWER + length (rr_data r) + length post" by (simp add: rr_bytes_def length_fields)
  then show ?thesis using parse at len four by (simp add: address_rr_def rr_bytes_def length_fields ac_simps)
qed

lemma answer_none: "\<forall>r \<in> set rs. good_rr r \<and> \<not> address_rr r \<Longrightarrow>
    answer_loop (length rs + n) (pre @ concat (map rr_bytes rs) @ post) (length pre) = answer_loop n (pre @ concat (map rr_bytes rs) @ post) (length pre + length (concat (map rr_bytes rs)))"
proof (induction rs arbitrary: pre)
  case (Cons r rs)
  then have "good_rr r" "\<not> address_rr r" by auto
  moreover have "answer_loop (length rs + n) ((pre @ rr_bytes r) @ concat (map rr_bytes rs) @ post) (length (pre @ rr_bytes r)) =
      answer_loop n ((pre @ rr_bytes r) @ concat (map rr_bytes rs) @ post) (length (pre @ rr_bytes r) + length (concat (map rr_bytes rs)))"
    by (rule Cons.IH) (use Cons.prems in simp)
  ultimately show ?case using answer_step [of r "length rs + n" pre "concat (map rr_bytes rs) @ post"] by (simp add: ac_simps)
qed simp

section \<open>Responses\<close>

definition response_head :: "u16 \<Rightarrow> u8 \<Rightarrow> u8 \<Rightarrow> nat \<Rightarrow> bytes \<Rightarrow> bytes" where
  "response_head ident fl1 fl2 n counts = net_bytes16 ident @ [fl1, fl2] @ net_bytes16 1 @ net_bytes16 (word_of_nat n) @ counts"

definition response :: "u16 \<Rightarrow> u8 \<Rightarrow> u8 \<Rightarrow> bytes \<Rightarrow> bytes list \<Rightarrow> dns_rr list \<Rightarrow> bytes" where
  "response ident fl1 fl2 counts ls rs = response_head ident fl1 fl2 (length rs) counts @ label_bytes ls @ 0 # [0, 1, 0, 1] @ concat (map rr_bytes rs)"

lemma response_head_fields:
  assumes "n < 65536" "length counts = 4"
  shows "length (response_head ident fl1 fl2 n counts) = SIZEOF_DNS_HDR" "(response_head ident fl1 fl2 n counts @ x) ! 2 = fl1"
    "(response_head ident fl1 fl2 n counts @ x) ! 3 = fl2" "be16 (response_head ident fl1 fl2 n counts @ x) 0 = ident"
    "be16 (response_head ident fl1 fl2 n counts @ x) 4 = 1" "unat (be16 (response_head ident fl1 fl2 n counts @ x) 6) = n"
proof -
  have c: "be16 ((net_bytes16 ident @ [fl1, fl2]) @ net_bytes16 1 @ y) (length (net_bytes16 ident @ [fl1, fl2])) = 1" for y by (rule be16_net)
  have a: "be16 ((net_bytes16 ident @ [fl1, fl2] @ net_bytes16 1) @ net_bytes16 (word_of_nat n) @ y) (length (net_bytes16 ident @ [fl1, fl2] @ net_bytes16 1)) = word_of_nat n" for y
    by (rule be16_net)
  have i: "be16 ([] @ net_bytes16 ident @ y) (length ([] :: bytes)) = ident" for y by (rule be16_net)
  show "length (response_head ident fl1 fl2 n counts) = SIZEOF_DNS_HDR" using assms by (simp add: response_head_def)
  show "be16 (response_head ident fl1 fl2 n counts @ x) 0 = ident" using i by (simp add: response_head_def)
  show "(response_head ident fl1 fl2 n counts @ x) ! 2 = fl1" "(response_head ident fl1 fl2 n counts @ x) ! 3 = fl2"
    by (simp_all add: response_head_def net_bytes16_def)
  show "be16 (response_head ident fl1 fl2 n counts @ x) 4 = 1" using c by (simp add: response_head_def)
  show "unat (be16 (response_head ident fl1 fl2 n counts @ x) 6) = n" using a assms by (simp add: response_head_def unat_of_nat take_bit_nat_eq_self)
qed

text \<open>
  C13. The answers to our own questions are understood. In a response without an error, whose question is the name of the entry, the
  first Internet address record of the answer section counts, whatever other records come before it and whatever follows:
  its address is taken as it is, its time to live is limited to a week. Without such a record, and with an error code or without the
  response flag, the result is an error.
\<close>

theorem dns_answer_correct:
  assumes ls: "ls \<noteq> []" "\<forall>l \<in> set ls. good_label l" and name: "named (dotted ls) array" and counts: "length counts = 4"
    and rs: "length (before @ r # rest) < 65536" "\<forall>x \<in> set (before @ r # rest). good_rr x" "\<forall>x \<in> set before. \<not> address_rr x"
    and addr: "rr_type r = 1" "rr_class r = 1" "rr_data r = host_bytes32 a"
  shows "dns_answer array (response ident fl1 fl2 counts ls (before @ r # rest) @ post) =
      Inr (if fl1 AND DNS_FLAG1_RESPONSE \<noteq> 0 \<and> fl2 AND DNS_FLAG2_ERR_MASK = 0 then Some (min (rr_ttl r) DNS_MAX_TTL, a) else None) \<and>
    dns_answer array (response ident fl1 fl2 counts ls before @ post) = Inr None"
proof -
  have name': "dns_compare_name array 0 (response ident fl1 fl2 counts ls x @ post) SIZEOF_DNS_HDR = Inr False \<and>
      dns_parse_name (response ident fl1 fl2 counts ls x @ post) SIZEOF_DNS_HDR = Inr (SIZEOF_DNS_HDR + length (label_bytes ls) + 1)" if "length x < 65536" for x
  proof -
    define start12 where "start12 = response_head ident fl1 fl2 (length x) counts"
    have len12: "length start12 = SIZEOF_DNS_HDR" using response_head_fields(1) that counts by (simp add: start12_def)
    have q: "response ident fl1 fl2 counts ls x @ post = start12 @ label_bytes ls @ 0 # ([0, 1, 0, 1] @ concat (map rr_bytes x) @ post)"
      by (simp add: response_def start12_def)
    obtain zs where zs: "array = dotted ls @ 0 # zs" "length array = 256" using name by (auto simp: named_def)
    have m: "labels_match array 0 ls" using match_dotted [of "[]" ls "[]" "0 # zs"] by (simp add: zs)
    have "length (label_bytes ls) \<le> 257" using length_label_bytes [OF ls(1)] arg_cong [OF zs(1), of length] zs(2) by simp
    then have "dns_compare_name array 0 (start12 @ label_bytes ls @ 0 # ([0, 1, 0, 1] @ concat (map rr_bytes x) @ post)) (length start12) = Inr False"
      using compare_wire [OF ls, of 0 array] zs(2) m by simp
    moreover have "dns_parse_name (start12 @ label_bytes ls @ 0 # ([0, 1, 0, 1] @ concat (map rr_bytes x) @ post)) (length start12) = Inr (length start12 + length (label_bytes ls) + 1)"
      by (rule parse_wire [OF ls])
    ultimately show ?thesis unfolding q len12 by simp
  qed
  define front where "front x = response_head ident fl1 fl2 (length x) counts @ label_bytes ls @ 0 # [0, 1, 0, 1]" for x :: "dns_rr list"
  have front: "response ident fl1 fl2 counts ls x @ post = front x @ concat (map rr_bytes x) @ post" for x
    by (simp add: response_def front_def)
  have len: "length (front x) = SIZEOF_DNS_HDR + length (label_bytes ls) + 1 + SIZEOF_DNS_QUERY" if "length x < 65536" for x
    using response_head_fields(1) that counts by (simp add: front_def)
  have answer: "dns_answer array (response ident fl1 fl2 counts ls x @ post) =
      (if fl1 AND DNS_FLAG1_RESPONSE \<noteq> 0 \<and> fl2 AND DNS_FLAG2_ERR_MASK = 0 then answer_loop (length x) (front x @ concat (map rr_bytes x) @ post) (length (front x)) else Inr None)"
    if "length x < 65536" for x
  proof -
    have "response ident fl1 fl2 counts ls x @ post = response_head ident fl1 fl2 (length x) counts @ (label_bytes ls @ 0 # [0, 1, 0, 1] @ concat (map rr_bytes x) @ post)"
      by (simp add: response_def)
    then have "(response ident fl1 fl2 counts ls x @ post) ! 2 = fl1" "(response ident fl1 fl2 counts ls x @ post) ! 3 = fl2"
      "be16 (response ident fl1 fl2 counts ls x @ post) 4 = 1" "unat (be16 (response ident fl1 fl2 counts ls x @ post) 6) = length x"
      using response_head_fields that counts by simp_all
    then show ?thesis using name' [OF that] len [OF that] unfolding dns_answer_def front by simp
  qed
  have "length before < 65536" using rs(1) by simp
  then have "dns_answer array (response ident fl1 fl2 counts ls before @ post) = Inr None"
    using answer [of before] answer_none [of before 0 "front before" post] rs(2,3) by simp
  moreover have "answer_loop (length (before @ r # rest)) (front (before @ r # rest) @ concat (map rr_bytes (before @ r # rest)) @ post) (length (front (before @ r # rest))) =
      Inr (Some (min (rr_ttl r) DNS_MAX_TTL, a))"
  proof -
    let ?pre = "front (before @ r # rest) @ concat (map rr_bytes before)" and ?post = "concat (map rr_bytes rest) @ post"
    have "addr_at ((?pre @ rr_owner r @ net_bytes16 (rr_type r) @ net_bytes16 (rr_class r) @ net_bytes32 (rr_ttl r) @ net_bytes16 (word_of_nat (length (rr_data r)))) @ host_bytes32 a @ ?post)
        (length (?pre @ rr_owner r @ net_bytes16 (rr_type r) @ net_bytes16 (rr_class r) @ net_bytes32 (rr_ttl r) @ net_bytes16 (word_of_nat (length (rr_data r))))) = a"
      by (rule addr_at_host)
    then have "addr_at (?pre @ rr_bytes r @ ?post) (length ?pre + length (rr_owner r) + SIZEOF_DNS_ANSWER) = a"
      using addr(3) by (simp add: rr_bytes_def rr_fields_def net_bytes32_split ac_simps)
    moreover have "address_rr r" "good_rr r" using addr rs(2) by (simp_all add: address_rr_def host_bytes32_def)
    ultimately have "answer_loop (Suc (length rest)) (?pre @ rr_bytes r @ ?post) (length ?pre) = Inr (Some (min (rr_ttl r) DNS_MAX_TTL, a))"
      using answer_step [of r "length rest" ?pre ?post] by simp
    then show ?thesis
      using answer_none [of before "Suc (length rest)" "front (before @ r # rest)" "rr_bytes r @ ?post"] rs(2,3) by simp
  qed
  ultimately show ?thesis using answer [OF rs(1)] by simp
qed

theorem dns_answer_witness:
  "dns_answer ([97] @ replicate 255 0) (response 3 0x81 0x80 [0, 0, 0, 0] [[97]]
     [\<lparr>rr_owner = [0xc0, 12], rr_type = 5, rr_class = 1, rr_ttl = 60, rr_data = [1, 98, 0]\<rparr>,
      \<lparr>rr_owner = [0xc0, 31], rr_type = 1, rr_class = 1, rr_ttl = 60, rr_data = host_bytes32 0x0100000a\<rparr>] @ []) = Inr (Some (60, 0x0100000a))"
proof -
  have "named (dotted [[97]]) ([97] @ replicate 255 0)" using named_put [of "replicate 256 0" "[97]"] by (simp add: put_name_def Let_def numeral_eq_Suc)
  moreover have "length (host_bytes32 x) = 4" for x by (simp add: host_bytes32_def)
  ultimately show ?thesis
    using dns_answer_correct [where ls = "[[97]]" and array = "[97] @ replicate 255 0" and counts = "[0, 0, 0, 0]" and ident = 3 and ?fl1.0 = 129 and ?fl2.0 = 128
      and before = "[\<lparr>rr_owner = [192, 12], rr_type = 5, rr_class = 1, rr_ttl = 60, rr_data = [1, 98, 0]\<rparr>]"
      and r = "\<lparr>rr_owner = [192, 31], rr_type = 1, rr_class = 1, rr_ttl = 60, rr_data = host_bytes32 16777226\<rparr>" and rest = "[]" and post = "[]" and a = 16777226]
    by (simp add: good_label_def good_rr_def address_rr_def compressed_def min_def)
qed

end
