(* ===== verification/Dns_Life.thy ===== *)
theory Dns_Life
  imports Dns_Answer
begin

text \<open>
  The table of the resolver: what a round of the timer does to every entry, how long a question is asked and an answer kept, which
  entry a new request takes, what a callback sees; and the list of local hosts.
\<close>

section \<open>What sending leaves alone\<close>

named_theorems dns_frame \<open>functions that leave the resolver alone\<close>

abbreviation undisturbed :: "'a dns_like \<Rightarrow> 'a dns_like \<Rightarrow> bool" where
  "undisturbed s s' \<equiv> dns_table s' = dns_table s \<and> dns_servers s' = dns_servers s \<and> dns_pcb s' = dns_pcb s \<and> dns_seqno s' = dns_seqno s \<and>
     local_hostlist_dynamic s' = local_hostlist_dynamic s \<and> lhosts s' = lhosts s \<and> dns_payload s' = dns_payload s"

lemma undisturbed_basic [simp]: "undisturbed s (set_arp a s)" "undisturbed s (set_upcb p f s)" "undisturbed s (s\<lparr>udp_port := q\<rparr>)" "undisturbed s (s\<lparr>udp_pcbs := l\<rparr>)"
  by (simp_all add: set_arp_def set_upcb_def)

lemma memory_undisturbed [dns_frame]: "on_pbs f s = Inr (r, s') \<Longrightarrow> undisturbed s s'" "release_pbuf p s = Inr s' \<Longrightarrow> undisturbed s s'"
  by (auto simp: on_pbs_def release_pbuf_def on_arp_def)

lemma ip_undisturbed [dns_frame]: "ip_output_if link p src dst t ts pr n s = Inr (e, s') \<Longrightarrow> undisturbed s s'"
  by (auto simp: ip_output_if_def Let_def set_arp_def split: if_splits option.splits)

lemma port_undisturbed: "new_port_loop fuel n s = Inr (q, s') \<Longrightarrow> undisturbed s s'"
proof (induction fuel arbitrary: n s)
  case (Suc fuel)
  from Suc.prems show ?case by (auto simp: Let_def dest!: Suc.IH split: if_splits)
qed simp

lemma bind_undisturbed [dns_frame]:
  assumes "udp_bind pcb addr port s = Inr (e, s')"
  shows "undisturbed s s'"
proof -
  obtain r where r: "bind_scan PCB_MAX (udp_pcbs s) pcb False (addr_or_any addr) port (upcb s) = Inr r"
    using assms unfolding udp_bind_def by (auto simp del: split_paired_Ex)
  show ?thesis using assms unfolding udp_bind_def r rbind_Inr
    by (cases r) (auto simp: udp_new_port_def Let_def dest!: port_undisturbed split: if_split_asm)
qed

lemma connect_undisturbed [dns_frame]:
  assumes "udp_connect pcb addr port s = Inr (e, s')"
  shows "undisturbed s s'"
proof -
  obtain e1 s1 where "(if local_port (upcb s pcb) = 0 then udp_bind pcb (Some (local_ip (upcb s pcb))) 0 s else Inr (ERR_OK, s)) = Inr (e1, s1)"
    and r: "(if e1 \<noteq> ERR_OK then Inr (e1, s1)
       else
         let s = set_upcb pcb (\<lambda>u. u\<lparr>remote_ip := addr_or_any addr, remote_port := port, uflags := uflags u OR UDP_FLAGS_CONNECTED\<rparr>) s1 in
         rbind (udp_listed PCB_MAX (udp_pcbs s) pcb (upcb s)) (\<lambda>listed.
           Inr (ERR_OK, if listed then s else (set_upcb pcb (\<lambda>u. u\<lparr>unext := udp_pcbs s\<rparr>) s)\<lparr>udp_pcbs := pcb\<rparr>))) = Inr (e, s')"
    using assms unfolding udp_connect_def by (auto simp del: rbind_eq_Inr simp: rbind_def split: sum.splits)
  then have "undisturbed s s1" by (auto dest!: bind_undisturbed split: if_split_asm)
  moreover have "undisturbed s1 s'" using r by (auto simp: Let_def split: if_split_asm)
  ultimately show ?thesis by simp
qed

lemma rbind_pairE: "rbind r (\<lambda>(x, y). f x y) = Inr z \<Longrightarrow> (\<And>x y. r = Inr (x, y) \<Longrightarrow> f x y = Inr z \<Longrightarrow> P) \<Longrightarrow> P"
  by auto

lemma release_undisturbed [dns_frame]: "release_if_new q p s = Inr s' \<Longrightarrow> undisturbed s s'"
  by (auto simp: release_if_new_def dest!: dns_frame split: if_split_asm)

lemma sendto_tail:
  assumes "(let u = upcb s2 pcb; nif_ip = ip_addr (ifs (arp s2) n) in
           if q1 = 0 then Inr (ERR_MEM, s2)
           else if \<not> plen (pbufs (pb (arp s2)) q1) \<ge> UDP_HLEN then Inl Abort
           else if local_ip u \<noteq> IPADDR_ANY \<and> local_ip u \<noteq> nif_ip
           then
             let a = store q1 0 (net_bytes16 (local_port u)) (arp s2);
                 a = store q1 2 (net_bytes16 q) a;
                 a = store q1 6 [0, 0] a
             in rbind (release_if_new q1 p (set_arp a s2)) (\<lambda>s. Inr (ERR_VAL, s))
           else
             let src_ip = (if local_ip u = IPADDR_ANY then nif_ip else local_ip u) in
             rbind (udp_header q1 (local_port u) q src_ip a (uflags u AND UDP_FLAGS_NOCHKSUM = 0) (arp s2)) (\<lambda>x.
             rbind (ip_output_if link q1 src_ip (Some a) (ttl u) (tos u) IP_PROTO_UDP n (set_arp x s2)) (\<lambda>(e, s).
             rbind (release_if_new q1 p s) (\<lambda>s. Inr (e, s))))) = Inr (e, s')"
  shows "undisturbed s2 s'"
proof -
  consider "q1 = 0" | "q1 \<noteq> 0" "local_ip (upcb s2 pcb) \<noteq> IPADDR_ANY \<and> local_ip (upcb s2 pcb) \<noteq> ip_addr (ifs (arp s2) n)"
    | "q1 \<noteq> 0" "\<not> (local_ip (upcb s2 pcb) \<noteq> IPADDR_ANY \<and> local_ip (upcb s2 pcb) \<noteq> ip_addr (ifs (arp s2) n))" by blast
  then show ?thesis
  proof cases
    case 1
    then show ?thesis using assms by (simp add: Let_def)
  next
    case 2
    then show ?thesis using assms by (auto simp: Let_def dest!: release_undisturbed split: if_split_asm)
  next
    case 3
    define src where "src = (if local_ip (upcb s2 pcb) = IPADDR_ANY then ip_addr (ifs (arp s2) n) else local_ip (upcb s2 pcb))"
    have "rbind (udp_header q1 (local_port (upcb s2 pcb)) q src a (uflags (upcb s2 pcb) AND UDP_FLAGS_NOCHKSUM = 0) (arp s2)) (\<lambda>x.
        rbind (ip_output_if link q1 src (Some a) (ttl (upcb s2 pcb)) (tos (upcb s2 pcb)) IP_PROTO_UDP n (set_arp x s2)) (\<lambda>(e, s).
        rbind (release_if_new q1 p s) (\<lambda>s. Inr (e, s)))) = Inr (e, s')"
      using assms unfolding Let_def if_not_P [OF 3(2)] src_def [symmetric] using 3(1) by (simp split: if_split_asm)
    then obtain x e2 s3 where "ip_output_if link q1 src (Some a) (ttl (upcb s2 pcb)) (tos (upcb s2 pcb)) IP_PROTO_UDP n (set_arp x s2) = Inr (e2, s3)"
      "release_if_new q1 p s3 = Inr s'" by auto
    then show ?thesis by (auto dest!: ip_undisturbed release_undisturbed)
  qed
qed

lemma sendto_if_undisturbed:
  assumes "udp_sendto_if link pcb p a q n s = Inr (e, s')"
  shows "undisturbed s s'"
proof -
  obtain e1 s1 where 1: "(if local_port (upcb s pcb) = 0 then udp_bind pcb (Some (local_ip (upcb s pcb))) 0 s else Inr (ERR_OK, s)) = Inr (e1, s1)"
    and 2: "(if e1 \<noteq> ERR_OK then Inr (e1, s1) else rbind (on_pbs (\<lambda>b. rbind (pbuf_header p (int UDP_HLEN) b) (\<lambda>(failed, b).
             if failed then header_pbuf UDP_HLEN p b else Inr (p, b))) s1) (\<lambda>(q1, s2). (let u = upcb s2 pcb; nif_ip = ip_addr (ifs (arp s2) n) in
           if q1 = 0 then Inr (ERR_MEM, s2)
           else if \<not> plen (pbufs (pb (arp s2)) q1) \<ge> UDP_HLEN then Inl Abort
           else if local_ip u \<noteq> IPADDR_ANY \<and> local_ip u \<noteq> nif_ip
           then
             let a = store q1 0 (net_bytes16 (local_port u)) (arp s2);
                 a = store q1 2 (net_bytes16 q) a;
                 a = store q1 6 [0, 0] a
             in rbind (release_if_new q1 p (set_arp a s2)) (\<lambda>s. Inr (ERR_VAL, s))
           else
             let src_ip = (if local_ip u = IPADDR_ANY then nif_ip else local_ip u) in
             rbind (udp_header q1 (local_port u) q src_ip a (uflags u AND UDP_FLAGS_NOCHKSUM = 0) (arp s2)) (\<lambda>x.
             rbind (ip_output_if link q1 src_ip (Some a) (ttl u) (tos u) IP_PROTO_UDP n (set_arp x s2)) (\<lambda>(e, s).
             rbind (release_if_new q1 p s) (\<lambda>s. Inr (e, s))))))) = Inr (e, s')"
    using assms unfolding udp_sendto_if_def by (elim rbind_pairE) (rule that)
  have s1: "undisturbed s s1" using 1 by (auto dest!: dns_frame split: if_split_asm)
  show ?thesis
  proof (cases "e1 = ERR_OK")
    case True
    then have ok: "\<not> e1 \<noteq> ERR_OK" by simp
    obtain q1 s2 where "undisturbed s1 s2" and t: "(let u = upcb s2 pcb; nif_ip = ip_addr (ifs (arp s2) n) in
           if q1 = 0 then Inr (ERR_MEM, s2)
           else if \<not> plen (pbufs (pb (arp s2)) q1) \<ge> UDP_HLEN then Inl Abort
           else if local_ip u \<noteq> IPADDR_ANY \<and> local_ip u \<noteq> nif_ip
           then
             let a = store q1 0 (net_bytes16 (local_port u)) (arp s2);
                 a = store q1 2 (net_bytes16 q) a;
                 a = store q1 6 [0, 0] a
             in rbind (release_if_new q1 p (set_arp a s2)) (\<lambda>s. Inr (ERR_VAL, s))
           else
             let src_ip = (if local_ip u = IPADDR_ANY then nif_ip else local_ip u) in
             rbind (udp_header q1 (local_port u) q src_ip a (uflags u AND UDP_FLAGS_NOCHKSUM = 0) (arp s2)) (\<lambda>x.
             rbind (ip_output_if link q1 src_ip (Some a) (ttl u) (tos u) IP_PROTO_UDP n (set_arp x s2)) (\<lambda>(e, s).
             rbind (release_if_new q1 p s) (\<lambda>s. Inr (e, s))))) = Inr (e, s')"
      using 2 unfolding if_not_P [OF ok] by (elim rbind_pairE) (rule that, rule memory_undisturbed(1))
    then show ?thesis using s1 sendto_tail [OF t] by simp
  qed (use 2 s1 in simp)
qed

lemma sendto_undisturbed [dns_frame]:
  assumes "udp_sendto link pcb p a q s = Inr (e, s')"
  shows "undisturbed s s'"
proof -
  obtain n where n: "(if n = 0 then Inr (ERR_RTE, s) else udp_sendto_if link pcb p a q n s) = Inr (e, s')"
    using assms unfolding udp_sendto_def by auto
  show ?thesis
  proof (cases "n = 0")
    case False
    then show ?thesis using n sendto_if_undisturbed [of link pcb p a q n s e s'] by simp
  qed (use n in simp)
qed

lemma dns_send_undisturbed [dns_frame]: "dns_send link n name i s = Inr (e, s') \<Longrightarrow> undisturbed s s'"
  by (auto simp: dns_send_def dns_query_alloc_def dns_query_write_def Let_def dest!: dns_frame split: if_splits)

lemma ask_undisturbed [dns_frame]: "ask link i s = Inr s' \<Longrightarrow> undisturbed s s'"
  by (auto simp: ask_def dest!: dns_frame)

section \<open>The timer\<close>

text \<open>A round of the timer, for one entry; \<open>v\<close> are the servers.\<close>

definition tick :: "(nat \<Rightarrow> u32) \<Rightarrow> dns_table_entry \<Rightarrow> dns_table_entry" where
  "tick v e =
     (case dstate e of
        DNS_STATE_UNUSED \<Rightarrow> e
      | DNS_STATE_NEW \<Rightarrow> e\<lparr>dstate := DNS_STATE_ASKING, numdns := 0, dtmr := 1, retries := 0\<rparr>
      | DNS_STATE_ASKING \<Rightarrow>
          if dtmr e \<noteq> 1 then e\<lparr>dtmr := dtmr e - 1\<rparr>
          else if retries e \<noteq> 3 then e\<lparr>retries := retries e + 1, dtmr := retries e + 1\<rparr>
          else if unat (numdns e) + 1 < DNS_MAX_SERVERS \<and> v (unat (numdns e) + 1) \<noteq> IPADDR_ANY
          then e\<lparr>numdns := numdns e + 1, dtmr := 1, retries := 0\<rparr>
          else e\<lparr>dtmr := 0, retries := 4, dstate := DNS_STATE_UNUSED, found := 0\<rparr>
      | DNS_STATE_DONE \<Rightarrow>
          if dttl e \<noteq> 1 then e\<lparr>dttl := dttl e - 1\<rparr> else e\<lparr>dttl := 0, dstate := DNS_STATE_UNUSED, found := 0\<rparr>)"

text \<open>Callbacks that leave the resolver alone.\<close>

definition quiet :: "'a dns_found \<Rightarrow> bool" where
  "quiet F \<longleftrightarrow> (\<forall>fn name addr x s s'. F fn name addr x s = Inr s' \<longrightarrow> undisturbed s s')"

lemma set_entry_fields [simp]:
  "dns_table (set_entry_dns i f s) = (dns_table s)(i := f (dns_table s i))" "dns_servers (set_entry_dns i f s) = dns_servers s"
  "dns_pcb (set_entry_dns i f s) = dns_pcb s" "local_hostlist_dynamic (set_entry_dns i f s) = local_hostlist_dynamic s" "lhosts (set_entry_dns i f s) = lhosts s"
  "dns_seqno (set_entry_dns i f s) = dns_seqno s"
  by (simp_all add: set_entry_dns_def)

lemma call_undisturbed: "quiet F \<Longrightarrow> call_found F i addr s = Inr s' \<Longrightarrow> undisturbed s s'"
  unfolding quiet_def call_found_def Let_def by (metis sum.inject(2))

lemma word_minus_one: "w - 1 = 0 \<longleftrightarrow> w = 1" for w :: "'a :: len word"
  by simp

lemma word_plus_one: "x + 1 = (4 :: u8) \<longleftrightarrow> x = 3"
proof
  assume "x + 1 = (4 :: u8)"
  then have "x + 1 - 1 = (4 :: u8) - 1" by (rule arg_cong)
  then show "x = 3" by simp
qed simp

definition same_table :: "nat set \<Rightarrow> 'a dns_like \<Rightarrow> 'a dns_like \<Rightarrow> bool" where
  "same_table I s s' \<longleftrightarrow> dns_servers s' = dns_servers s \<and> dns_pcb s' = dns_pcb s \<and>
     (\<forall>i. dns_table s' i = (if i \<in> I then tick (dns_servers s) (dns_table s i) else dns_table s i))"

lemma check_entry_tick:
  assumes F: "quiet F" and r: "dns_check_entry link F i s = Inr s'"
  shows "same_table {i} s s'"
proof (cases "dstate (dns_table s i)")
  case DNS_STATE_NEW
  then show ?thesis using r by (auto simp: dns_check_entry_def same_table_def tick_def dest!: dns_frame split: if_split_asm)
next
  case DNS_STATE_DONE
  then show ?thesis using r by (auto simp: dns_check_entry_def same_table_def tick_def flush_entry_def Let_def word_minus_one split: if_split_asm)
next
  case DNS_STATE_UNUSED
  then show ?thesis using r by (auto simp: dns_check_entry_def same_table_def tick_def split: if_split_asm)
next
  case DNS_STATE_ASKING
  define e where "e = dns_table s i"
  have i: "i < DNS_TABLE_SIZE" using r by (simp add: dns_check_entry_def split: if_split_asm)
  show ?thesis
  proof (cases "dtmr e = 1")
    case False
    then show ?thesis using r i DNS_STATE_ASKING by (auto simp: dns_check_entry_def same_table_def tick_def Let_def e_def)
  next
    case one: True
    show ?thesis
    proof (cases "retries e = 3")
      case False
      then have "\<not> retries e + 1 = 4" by (simp add: word_plus_one)
      then obtain t where "ask link i (set_entry_dns i (\<lambda>e. e\<lparr>dtmr := retries e\<rparr>) (set_entry_dns i (\<lambda>e. e\<lparr>retries := retries e + 1\<rparr>) (set_entry_dns i (\<lambda>e. e\<lparr>dtmr := dtmr e - 1\<rparr>) s))) = Inr s'"
        using r i one DNS_STATE_ASKING by (simp add: dns_check_entry_def Let_def e_def)
      then show ?thesis using one False DNS_STATE_ASKING by (auto simp: same_table_def tick_def e_def dest!: ask_undisturbed)
    next
      case three: True
      then show ?thesis
        using r i one DNS_STATE_ASKING
        by (cases "unat (numdns e) + 1 < DNS_MAX_SERVERS \<and> dns_servers s (unat (numdns e) + 1) \<noteq> IPADDR_ANY")
          (auto simp: dns_check_entry_def same_table_def tick_def flush_entry_def Let_def e_def dest!: call_undisturbed [OF F])
    qed
  qed
qed

lemma check_loop_tick: "quiet F \<Longrightarrow> distinct is \<Longrightarrow> check_loop link F is s = Inr s' \<Longrightarrow> same_table (set is) s s'"
proof (induction "is" arbitrary: s)
  case (Cons i js)
  obtain t where t: "dns_check_entry link F i s = Inr t" "check_loop link F js t = Inr s'" using Cons.prems(3) by auto
  have "same_table {i} s t" by (rule check_entry_tick [OF Cons.prems(1) t(1)])
  moreover have "same_table (set js) t s'" using Cons.IH [OF Cons.prems(1) _ t(2)] Cons.prems(2) by simp
  ultimately show ?case using Cons.prems(2) by (auto simp: same_table_def)
qed (simp add: same_table_def)

lemma dns_tmr_tick:
  assumes "quiet F" "dns_pcb s \<noteq> 0" "dns_tmr link F s = Inr s'"
  shows "same_table {..<DNS_TABLE_SIZE} s s'"
proof -
  have "check_loop link F [0..<DNS_TABLE_SIZE] s = Inr s'" using assms(2,3) by (simp add: dns_tmr_def dns_check_entries_def)
  then have "same_table (set [0..<DNS_TABLE_SIZE]) s s'" by (rule check_loop_tick [OF assms(1) distinct_upt])
  then show ?thesis by (simp only: set_upt atLeast0LessThan)
qed

text \<open>\<open>k\<close> rounds of the timer.\<close>

primrec rounds :: "nat \<Rightarrow> (nat \<Rightarrow> bytes \<Rightarrow> err_t) \<Rightarrow> 'a dns_found \<Rightarrow> 'a dns_like \<Rightarrow> 'a dns_like res" where
  "rounds 0 link F s = Inr s"
| "rounds (Suc k) link F s = rbind (dns_tmr link F s) (rounds k link F)"

lemma rounds_tick:
  assumes "quiet F" "i < DNS_TABLE_SIZE"
  shows "dns_pcb s \<noteq> 0 \<Longrightarrow> rounds k link F s = Inr s' \<Longrightarrow> dns_table s' i = (tick (dns_servers s) ^^ k) (dns_table s i)"
proof (induction k arbitrary: s)
  case (Suc k)
  obtain t where t: "dns_tmr link F s = Inr t" "rounds k link F t = Inr s'" using Suc.prems(2) by auto
  have tab: "same_table {..<DNS_TABLE_SIZE} s t" by (rule dns_tmr_tick [OF assms(1) Suc.prems(1) t(1)])
  then have "dns_table s' i = (tick (dns_servers s) ^^ k) (dns_table t i)" using Suc.IH [OF _ t(2)] Suc.prems(1) by (simp add: same_table_def)
  also have "\<dots> = (tick (dns_servers s) ^^ Suc k) (dns_table s i)" using tab assms(2) by (simp add: same_table_def funpow_swap1)
  finally show ?case .
qed simp

section \<open>How long a question is asked\<close>

definition fresh_question :: "dns_table_entry \<Rightarrow> bool" where
  "fresh_question e \<longleftrightarrow> dstate e = DNS_STATE_ASKING \<and> numdns e = 0 \<and> dtmr e = 1 \<and> retries e = 0"

lemma tick_unused: "dstate e = DNS_STATE_UNUSED \<Longrightarrow> (tick v ^^ k) e = e"
  by (induction k) (simp_all add: tick_def)

lemma tick_later: "m \<le> k \<Longrightarrow> dstate ((tick v ^^ m) e) = DNS_STATE_UNUSED \<Longrightarrow> dstate ((tick v ^^ k) e) = DNS_STATE_UNUSED"
  using tick_unused [where e = "(tick v ^^ m) e" and v = v and k = "k - m"] by (metis comp_apply funpow_add le_add_diff_inverse2)

text \<open>The seven rounds with one server: from the first to the fourth query and the last wait.\<close>

lemma tick_asking: "dstate e = DNS_STATE_ASKING \<Longrightarrow> dtmr e \<noteq> 1 \<Longrightarrow> tick v e = e\<lparr>dtmr := dtmr e - 1\<rparr>"
  "dstate e = DNS_STATE_ASKING \<Longrightarrow> dtmr e = 1 \<Longrightarrow> retries e \<noteq> 3 \<Longrightarrow> tick v e = e\<lparr>retries := retries e + 1, dtmr := retries e + 1\<rparr>"
  by (simp_all add: tick_def)

lemma six_rounds:
  assumes "dstate e = DNS_STATE_ASKING" "dtmr e = 1" "retries e = 0"
  shows "(tick v ^^ 1) e = e\<lparr>retries := 1\<rparr>" "(tick v ^^ 2) e = e\<lparr>retries := 2, dtmr := 2\<rparr>" "(tick v ^^ 3) e = e\<lparr>retries := 2\<rparr>"
    "(tick v ^^ 4) e = e\<lparr>retries := 3, dtmr := 3\<rparr>" "(tick v ^^ 5) e = e\<lparr>retries := 3, dtmr := 2\<rparr>" "(tick v ^^ 6) e = e\<lparr>retries := 3\<rparr>"
proof -
  show 1: "(tick v ^^ 1) e = e\<lparr>retries := 1\<rparr>" using assms by (simp add: tick_def)
  show 2: "(tick v ^^ 2) e = e\<lparr>retries := 2, dtmr := 2\<rparr>" using 1 assms by (simp add: numeral_2_eq_2 tick_def)
  show 3: "(tick v ^^ 3) e = e\<lparr>retries := 2\<rparr>" using 2 assms by (simp add: numeral_3_eq_3 numeral_2_eq_2 tick_asking)
  show 4: "(tick v ^^ 4) e = e\<lparr>retries := 3, dtmr := 3\<rparr>" using 3 assms by (simp add: eval_nat_numeral tick_asking)
  show 5: "(tick v ^^ 5) e = e\<lparr>retries := 3, dtmr := 2\<rparr>" using 4 assms by (simp add: eval_nat_numeral tick_asking)
  show "(tick v ^^ 6) e = e\<lparr>retries := 3\<rparr>" using 5 assms by (simp add: eval_nat_numeral tick_asking)
qed

lemma seven_rounds:
  assumes "dstate e = DNS_STATE_ASKING" "dtmr e = 1" "retries e = 0"
  shows "(tick v ^^ 7) e = (if unat (numdns e) + 1 < DNS_MAX_SERVERS \<and> v (unat (numdns e) + 1) \<noteq> IPADDR_ANY
    then e\<lparr>numdns := numdns e + 1, dtmr := 1, retries := 0\<rparr> else e\<lparr>dtmr := 0, retries := 4, dstate := DNS_STATE_UNUSED, found := 0\<rparr>)"
proof -
  have "(tick v ^^ 7) e = tick v ((tick v ^^ 6) e)" by (simp add: eval_nat_numeral)
  then show ?thesis unfolding six_rounds(6) [OF assms] using assms by (cases "unat (numdns e) = 0") (auto simp: tick_def)
qed

lemma fewer_rounds:
  assumes "dstate e = DNS_STATE_ASKING" "dtmr e = 1" "retries e = 0" "k < 7"
  shows "dstate ((tick v ^^ k) e) = DNS_STATE_ASKING"
proof -
  consider "k = 0" | "k = 1" | "k = 2" | "k = 3" | "k = 4" | "k = 5" | "k = 6" using assms(4) by linarith
  then show ?thesis using six_rounds [OF assms(1-3), of v] assms(1) by cases simp_all
qed

definition patience :: "(nat \<Rightarrow> u32) \<Rightarrow> nat" where
  "patience v = (if v 1 = IPADDR_ANY then 7 else 14)"

lemma question_rounds:
  assumes q: "fresh_question e"
  shows "dstate ((tick v ^^ k) e) = (if k < patience v then DNS_STATE_ASKING else DNS_STATE_UNUSED)"
proof -
  have e: "dstate e = DNS_STATE_ASKING" "dtmr e = 1" "retries e = 0" "numdns e = 0" using q by (simp_all add: fresh_question_def)
  note seven = seven_rounds [OF e(1-3), of v]
  show ?thesis
  proof (cases "v 1 = IPADDR_ANY")
    case True
    then have "dstate ((tick v ^^ 7) e) = DNS_STATE_UNUSED" using seven e(4) by simp
    then have "7 \<le> k \<Longrightarrow> dstate ((tick v ^^ k) e) = DNS_STATE_UNUSED" by (rule tick_later [rotated])
    then show ?thesis using True fewer_rounds [OF e(1-3), of k v] by (simp add: patience_def)
  next
    case False
    define e7 where "e7 = e\<lparr>numdns := 1, dtmr := 1, retries := 0\<rparr>"
    have s7: "(tick v ^^ 7) e = e7" using seven False e(4) by (simp add: e7_def)
    have e7: "dstate e7 = DNS_STATE_ASKING" "dtmr e7 = 1" "retries e7 = 0" using e by (simp_all add: e7_def)
    have later: "(tick v ^^ (m + 7)) e = (tick v ^^ m) e7" for m using s7 by (simp add: funpow_add)
    have "dstate ((tick v ^^ 7) e7) = DNS_STATE_UNUSED" using seven_rounds [OF e7, of v] by (simp add: e7_def)
    then have "14 \<le> k \<Longrightarrow> dstate ((tick v ^^ k) e) = DNS_STATE_UNUSED" using tick_later [of 14 k v e] later [of 7] by simp
    moreover have "7 \<le> k \<Longrightarrow> k < 14 \<Longrightarrow> dstate ((tick v ^^ k) e) = DNS_STATE_ASKING"
      using fewer_rounds [OF e7, of "k - 7" v] later [of "k - 7"] by simp
    ultimately show ?thesis using False fewer_rounds [OF e(1-3), of k v] by (cases "k < 7") (simp_all add: patience_def)
  qed
qed

text \<open>
  Sending can go on: \<open>P\<close> says that the memory and the interfaces are in order, the table does not matter for it, and neither a
  query nor a callback stops the process or breaks it. Every question is put to a server with an address.
\<close>

definition keeps_going :: "('a dns_like \<Rightarrow> bool) \<Rightarrow> (nat \<Rightarrow> bytes \<Rightarrow> err_t) \<Rightarrow> 'a dns_found \<Rightarrow> bool" where
  "keeps_going P link F \<longleftrightarrow> (\<forall>s i f q. P s \<longrightarrow> P (set_entry_dns i f s) \<and> P (s\<lparr>dns_seqno := q\<rparr>)) \<and>
     (\<forall>s i. P s \<and> unat (numdns (dns_table s i)) < DNS_MAX_SERVERS \<and> dns_servers s (unat (numdns (dns_table s i))) \<noteq> IPADDR_ANY \<longrightarrow>
        (\<exists>s'. ask link i s = Inr s' \<and> P s')) \<and>
     (\<forall>fn name a x s. P s \<longrightarrow> (\<exists>s'. F fn name a x s = Inr s' \<and> P s'))"

definition entry_served :: "(nat \<Rightarrow> u32) \<Rightarrow> dns_table_entry \<Rightarrow> bool" where
  "entry_served v e \<longleftrightarrow> (dstate e = DNS_STATE_ASKING \<longrightarrow> unat (numdns e) < DNS_MAX_SERVERS \<and> v (unat (numdns e)) \<noteq> IPADDR_ANY)"

definition served :: "'a dns_like \<Rightarrow> bool" where
  "served s \<longleftrightarrow> dns_servers s 0 \<noteq> IPADDR_ANY \<and> (\<forall>i < DNS_TABLE_SIZE. entry_served (dns_servers s) (dns_table s i))"

lemma tick_served:
  assumes "v 0 \<noteq> IPADDR_ANY" "entry_served v e"
  shows "entry_served v (tick v e)"
proof (cases "dstate e = DNS_STATE_ASKING \<and> dtmr e = 1 \<and> retries e = 3 \<and> unat (numdns e) + 1 < DNS_MAX_SERVERS")
  case True
  then have "unat (numdns e + 1) = unat (numdns e) + 1" by (simp add: unat_word_ariths)
  then show ?thesis using True by (auto simp: entry_served_def tick_def)
next
  case False
  then show ?thesis using assms by (cases "dstate e") (auto simp: entry_served_def tick_def)
qed

lemma check_entry_returns:
  assumes P: "keeps_going P link F" "P s" and i: "i < DNS_TABLE_SIZE" and v: "dns_servers s 0 \<noteq> IPADDR_ANY" "entry_served (dns_servers s) (dns_table s i)"
  shows "\<exists>s'. dns_check_entry link F i s = Inr s' \<and> P s'"
proof -
  have upd: "P (set_entry_dns j f t)" if "P t" for j f t using P(1) that by (simp add: keeps_going_def)
  have ask: "\<exists>s'. ask link i t = Inr s' \<and> P s'" if "P t" "unat (numdns (dns_table t i)) < DNS_MAX_SERVERS" "dns_servers t (unat (numdns (dns_table t i))) \<noteq> IPADDR_ANY" for t
    using P(1) that unfolding keeps_going_def by blast
  have call: "\<exists>s'. call_found F i None t = Inr s' \<and> P s'" if "P t" for t
    using P(1) that unfolding keeps_going_def call_found_def Let_def by (metis (full_types))
  show ?thesis
  proof (cases "dstate (dns_table s i)")
    case DNS_STATE_NEW
    then show ?thesis using i ask [of "set_entry_dns i (\<lambda>e. e\<lparr>dstate := DNS_STATE_ASKING, numdns := 0, dtmr := 1, retries := 0\<rparr>) s"] upd [OF P(2)] v(1)
      by (simp add: dns_check_entry_def)
  next
    case DNS_STATE_UNUSED
    then show ?thesis using i P(2) by (simp add: dns_check_entry_def)
  next
    case DNS_STATE_DONE
    then show ?thesis using i upd [OF upd [OF P(2)]] upd [OF P(2)] by (simp add: dns_check_entry_def Let_def flush_entry_def)
  next
    case DNS_STATE_ASKING
    define s1 where "s1 = set_entry_dns i (\<lambda>e. e\<lparr>dtmr := dtmr e - 1\<rparr>) s"
    define s2 where "s2 = set_entry_dns i (\<lambda>e. e\<lparr>retries := retries e + 1\<rparr>) s1"
    define s3 where "s3 = set_entry_dns i (\<lambda>e. e\<lparr>dtmr := retries e\<rparr>) s2"
    have "P s1" "P s2" "P s3" using upd P(2) by (simp_all add: s1_def s2_def s3_def)
    moreover have "unat (numdns (dns_table s3 i)) < DNS_MAX_SERVERS" "dns_servers s3 (unat (numdns (dns_table s3 i))) \<noteq> IPADDR_ANY"
      using v(2) DNS_STATE_ASKING by (simp_all add: s1_def s2_def s3_def entry_served_def)
    moreover obtain s4 where "call_found F i None s2 = Inr s4" "P s4" using call \<open>P s2\<close> by blast
    ultimately show ?thesis
      using DNS_STATE_ASKING i ask [of s3] upd
      unfolding dns_check_entry_def Let_def flush_entry_def s1_def [symmetric] s2_def [symmetric] s3_def [symmetric] by auto
  qed
qed

lemma check_loop_returns:
  "keeps_going P link F \<Longrightarrow> quiet F \<Longrightarrow> P s \<Longrightarrow> dns_servers s 0 \<noteq> IPADDR_ANY \<Longrightarrow> distinct is \<Longrightarrow> set is \<subseteq> {..<DNS_TABLE_SIZE} \<Longrightarrow>
     \<forall>i \<in> set is. entry_served (dns_servers s) (dns_table s i) \<Longrightarrow> \<exists>s'. check_loop link F is s = Inr s' \<and> P s'"
proof (induction "is" arbitrary: s)
  case (Cons i js)
  have i: "i < DNS_TABLE_SIZE" "entry_served (dns_servers s) (dns_table s i)" using Cons.prems(6,7) by simp_all
  obtain t where t: "dns_check_entry link F i s = Inr t" "P t" using check_entry_returns [OF Cons.prems(1,3) i(1) Cons.prems(4) i(2)] by blast
  have tab: "same_table {i} s t" by (rule check_entry_tick [OF Cons.prems(2) t(1)])
  then have "\<exists>s'. check_loop link F js t = Inr s' \<and> P s'"
    using Cons.prems by (intro Cons.IH [OF Cons.prems(1,2) t(2)]) (auto simp: same_table_def)
  then show ?case using t(1) by simp
qed simp

lemma rounds_return:
  "keeps_going P link F \<Longrightarrow> quiet F \<Longrightarrow> P s \<Longrightarrow> dns_pcb s \<noteq> 0 \<Longrightarrow> served s \<Longrightarrow> \<exists>s'. rounds k link F s = Inr s' \<and> P s'"
proof (induction k arbitrary: s)
  case (Suc k)
  have "\<exists>t. check_loop link F [0..<DNS_TABLE_SIZE] s = Inr t \<and> P t"
    by (rule check_loop_returns [OF Suc.prems(1-3)]) (use Suc.prems(5) in \<open>auto simp: served_def\<close>)
  then obtain t where t: "dns_tmr link F s = Inr t" "P t" using Suc.prems(4) by (auto simp: dns_tmr_def dns_check_entries_def)
  have "same_table {..<DNS_TABLE_SIZE} s t" by (rule dns_tmr_tick [OF Suc.prems(2,4) t(1)])
  then have "dns_pcb t \<noteq> 0" "served t" using Suc.prems(4,5) tick_served by (auto simp: same_table_def served_def)
  then show ?case using Suc.IH [OF Suc.prems(1,2) t(2)] t(1) by simp
qed simp


section \<open>How long an answer is kept\<close>

definition lifetime :: "u32 \<Rightarrow> nat" where
  "lifetime t = (if t = 0 then 2 ^ 32 else unat t)"

lemma lifetime_word: "word_of_nat (lifetime t) = t" "0 < lifetime t" "lifetime t \<le> 2 ^ 32"
proof -
  have "(word_of_nat (2 ^ 32) :: u32) = 0" by simp
  then show "word_of_nat (lifetime t) = t" by (simp add: lifetime_def del: of_nat_power)
  show "0 < lifetime t" by (simp add: lifetime_def unat_gt_0)
  show "lifetime t \<le> 2 ^ 32" using unat_less_2p32 [of t] by (simp add: lifetime_def)
qed

lemma word_one:
  assumes "0 < n" "n \<le> 2 ^ 32"
  shows "(word_of_nat n :: u32) = 1 \<longleftrightarrow> n = 1"
proof -
  have "(word_of_nat n :: u32) = 1 \<longleftrightarrow> n mod 2 ^ 32 = 1" by (simp add: word_unat_eq_iff unat_of_nat take_bit_eq_mod)
  moreover have "n mod 2 ^ 32 = (if n = 2 ^ 32 then 0 else n)" using assms by simp
  ultimately show ?thesis using assms by simp
qed

lemma answer_rounds:
  assumes e: "dstate e = DNS_STATE_DONE"
  shows "k < lifetime (dttl e) \<Longrightarrow> (tick v ^^ k) e = e\<lparr>dttl := word_of_nat (lifetime (dttl e) - k)\<rparr>"
proof (induction k)
  case 0
  then show ?case by (simp add: lifetime_word)
next
  case (Suc k)
  let ?n = "lifetime (dttl e) - k"
  have n: "1 < ?n" "?n \<le> 2 ^ 32" using Suc.prems lifetime_word(3) [of "dttl e"] by auto
  have "(word_of_nat ?n :: u32) \<noteq> 1" using word_one [of ?n] n by simp
  moreover have "(word_of_nat ?n :: u32) - 1 = word_of_nat (?n - 1)" using n by (simp add: of_nat_diff)
  ultimately show ?case using Suc e by (simp add: tick_def)
qed

lemma answer_gone:
  assumes "dstate e = DNS_STATE_DONE" "lifetime (dttl e) \<le> k"
  shows "dstate ((tick v ^^ k) e) = DNS_STATE_UNUSED"
proof -
  obtain m where m: "lifetime (dttl e) = Suc m" using lifetime_word(2) [of "dttl e"] by (cases "lifetime (dttl e)") auto
  then have "(tick v ^^ m) e = e\<lparr>dttl := 1\<rparr>" using answer_rounds [OF assms(1), of m v] by simp
  then have "dstate ((tick v ^^ lifetime (dttl e)) e) = DNS_STATE_UNUSED" using assms(1) by (simp add: m tick_def)
  then show ?thesis by (rule tick_later [OF assms(2)])
qed

text \<open>
  How long an answer is kept: an entry with the time to live \<open>t > 0\<close> is found for \<open>t - 1\<close> more rounds of one second, counting down, and is
  free after the \<open>t\<close>-th. An answer with the time to live 0, which means that it must not be kept, stays for 2^32 seconds, or 136 years.
\<close>

theorem dns_answer_lifetime:
  assumes env: "keeps_going P link F" "quiet F" "P s" and s: "dns_pcb s \<noteq> 0" "served s"
    and e: "i < DNS_TABLE_SIZE" "dstate (dns_table s i) = DNS_STATE_DONE"
  shows "\<exists>s'. rounds k link F s = Inr s' \<and>
    (let t = dttl (dns_table s i); life = (if t = 0 then 2 ^ 32 else unat t) in
      if k < life then dns_table s' i = (dns_table s i)\<lparr>dttl := word_of_nat (life - k)\<rparr> else dstate (dns_table s' i) = DNS_STATE_UNUSED)"
proof -
  obtain s' where s': "rounds k link F s = Inr s'" using rounds_return [OF env s, of k] by blast
  then have "dns_table s' i = (tick (dns_servers s) ^^ k) (dns_table s i)" by (rule rounds_tick [OF env(2) e(1) s(1)])
  then have "if k < lifetime (dttl (dns_table s i)) then dns_table s' i = (dns_table s i)\<lparr>dttl := word_of_nat (lifetime (dttl (dns_table s i)) - k)\<rparr>
      else dstate (dns_table s' i) = DNS_STATE_UNUSED"
    using answer_rounds [OF e(2), of k] answer_gone [OF e(2), of k] by simp
  then show ?thesis using s' unfolding Let_def lifetime_def by blast
qed

section \<open>Requests\<close>

text \<open>How long ago an entry was made, in requests; negative if the counter of 8 bits has wrapped around since.\<close>

definition age :: "u8 \<Rightarrow> dns_table_entry \<Rightarrow> int" where
  "age sq e = int (unat sq) - int (unat (dseqno e))"

lemma entry_scan_unused: "entry_scan (is @ i # js) sq l li T = Inl i" if "dstate (T i) = DNS_STATE_UNUSED" "\<forall>j \<in> set is. dstate (T j) \<noteq> DNS_STATE_UNUSED"
  using that(2) by (induction "is" arbitrary: l li) (simp_all add: that(1))

lemma entry_scan_done:
  "\<forall>j \<in> set is. dstate (T j) \<noteq> DNS_STATE_UNUSED \<Longrightarrow> \<exists>j. entry_scan is sq l li T = Inr j \<and>
     (j = li \<and> (\<forall>i \<in> set is. dstate (T i) = DNS_STATE_DONE \<longrightarrow> age sq (T i) \<le> int (unat l)) \<or>
      j \<in> set is \<and> dstate (T j) = DNS_STATE_DONE \<and> int (unat l) < age sq (T j) \<and> (\<forall>i \<in> set is. dstate (T i) = DNS_STATE_DONE \<longrightarrow> age sq (T i) \<le> age sq (T j)))"
proof (induction "is" arbitrary: l li)
  case (Cons i js)
  show ?case
  proof (cases "dstate (T i) = DNS_STATE_DONE \<and> int (unat l) < age sq (T i)")
    case True
    then have "int (unat l) < int (unat sq) - int (unat (dseqno (T i)))" unfolding age_def by blast
    then have le: "unat (dseqno (T i)) \<le> unat sq" by linarith
    then have "int (unat (sq - dseqno (T i))) = age sq (T i)" unfolding age_def by (simp only: unat_sub word_le_nat_alt of_nat_diff)
    then show ?thesis using Cons.IH [of "sq - dseqno (T i)" i] Cons.prems True by (auto simp: age_def)
  next
    case False
    then show ?thesis using Cons.IH [of l li] Cons.prems by (auto simp: age_def)
  qed
qed simp

lemma upt_split: "i < n \<Longrightarrow> [0..<n] = [0..<i] @ i # [Suc i..<n]"
  using upt_add_eq_append [of 0 i "n - i"] upt_conv_Cons [of i n] by simp

text \<open>An entry for a new request.\<close>

definition asked_for :: "bytes \<Rightarrow> nat \<Rightarrow> nat \<Rightarrow> dns_table_entry \<Rightarrow> bool" where
  "asked_for name fn x e \<longleftrightarrow> fresh_question e \<and> c_string (dname e) = name \<and> found e = fn \<and> found_arg e = x"

text \<open>
  A new request takes the first unused entry, or else the completed one that was made longest ago, and is asked at once; the other entries
  stay as they are. An entry that was made before the 8-bit counter of requests wrapped around counts as newer than all,
  though: if only such entries are completed, the request takes entry 0, and fails for lack of memory if that one is being asked.
\<close>

theorem dns_enqueue_correct:
  assumes env: "keeps_going P link F" "P s" "served s" and name: "0 \<notin> set name" "length name < DNS_MAX_NAME_LENGTH"
    and arrays: "\<forall>i < DNS_TABLE_SIZE. length (dname (dns_table s i)) = DNS_MAX_NAME_LENGTH"
  defines "unused \<equiv> \<lambda>i. dstate (dns_table s i) = DNS_STATE_UNUSED" and "completed \<equiv> \<lambda>i. dstate (dns_table s i) = DNS_STATE_DONE"
  shows "if (\<forall>i < DNS_TABLE_SIZE. \<not> unused i) \<and> \<not> completed 0 \<and> (\<forall>i < DNS_TABLE_SIZE. completed i \<longrightarrow> age (dns_seqno s) (dns_table s i) \<le> 0)
    then dns_enqueue link F name fn x s = Inr (ERR_MEM, s)
    else \<exists>i s'. dns_enqueue link F name fn x s = Inr (ERR_INPROGRESS, s') \<and> i < DNS_TABLE_SIZE \<and> asked_for name fn x (dns_table s' i) \<and>
      (\<forall>j. j \<noteq> i \<longrightarrow> dns_table s' j = dns_table s j) \<and>
      (if \<exists>j < DNS_TABLE_SIZE. unused j then unused i \<and> (\<forall>j < i. \<not> unused j)
       else completed i \<and> (\<forall>j < DNS_TABLE_SIZE. completed j \<longrightarrow> age (dns_seqno s) (dns_table s j) \<le> max 0 (age (dns_seqno s) (dns_table s i))))"
proof -
  let ?T = "dns_table s" and ?a = "\<lambda>i. age (dns_seqno s) (dns_table s i)"
  have enqueue: "\<exists>s'. dns_enqueue link F name fn x s = Inr (ERR_INPROGRESS, s') \<and> asked_for name fn x (dns_table s' i) \<and> (\<forall>j. j \<noteq> i \<longrightarrow> dns_table s' j = dns_table s j)"
    if i: "free_entry s = Some i" "i < DNS_TABLE_SIZE" for i
  proof -
    define s1 where "s1 = (set_entry_dns i (\<lambda>e. e\<lparr>dstate := DNS_STATE_NEW, dseqno := dns_seqno s, found := fn, found_arg := x, dname := put_name name (dname e)\<rparr>) s)"
    define s2 where "s2 = s1\<lparr>dns_seqno := dns_seqno s1 + 1\<rparr>"
    have s2: "dns_table s2 i = (?T i)\<lparr>dstate := DNS_STATE_NEW, dseqno := dns_seqno s, found := fn, found_arg := x, dname := put_name name (dname (?T i))\<rparr>"
      "\<And>j. j \<noteq> i \<Longrightarrow> dns_table s2 j = ?T j" "dns_servers s2 = dns_servers s" by (simp_all add: s1_def s2_def)
    have "P s2" using env(1,2) by (simp add: keeps_going_def s1_def s2_def)
    then obtain s' where s': "dns_check_entry link F i s2 = Inr s'"
      using check_entry_returns [OF env(1) _ i(2), of s2] s2 env(3) by (auto simp: served_def entry_served_def)
    then obtain t where "ask link i (set_entry_dns i (\<lambda>e. e\<lparr>dstate := DNS_STATE_ASKING, numdns := 0, dtmr := 1, retries := 0\<rparr>) s2) = Inr s'"
      using s2(1) i(2) by (simp add: dns_check_entry_def)
    then have "dns_table s' = (dns_table s2)(i := (dns_table s2 i)\<lparr>dstate := DNS_STATE_ASKING, numdns := 0, dtmr := 1, retries := 0\<rparr>)"
      by (auto dest!: ask_undisturbed)
    moreover have "c_string (put_name name (dname (?T i))) = name" using named_string [OF named_put] arrays i(2) name by blast
    moreover have "dns_enqueue link F name fn x s = Inr (ERR_INPROGRESS, s')"
      using i(1) s' by (simp add: dns_enqueue_def Let_def s1_def s2_def)
    ultimately show ?thesis using s2 by (simp add: asked_for_def fresh_question_def)
  qed
  show ?thesis
  proof (cases "\<exists>j < DNS_TABLE_SIZE. unused j")
    case True
    define i where "i = (LEAST j. unused j)"
    obtain j where j: "j < DNS_TABLE_SIZE" "unused j" using True by blast
    have i: "unused i" "\<forall>j < i. \<not> unused j" "i < DNS_TABLE_SIZE"
    proof -
      show "unused i" unfolding i_def by (rule LeastI [of unused, OF j(2)])
      show "\<forall>j < i. \<not> unused j" unfolding i_def using not_less_Least [of _ unused] by blast
      have "i \<le> j" unfolding i_def by (rule Least_le [of unused, OF j(2)])
      then show "i < DNS_TABLE_SIZE" using j(1) by linarith
    qed
    have parts: "[0..<DNS_TABLE_SIZE] = [0..<i] @ i # [Suc i..<DNS_TABLE_SIZE]" by (rule upt_split [OF i(3)])
    have "entry_scan [0..<DNS_TABLE_SIZE] (dns_seqno s) 0 0 ?T = Inl i"
      unfolding parts by (rule entry_scan_unused) (use i(1,2) in \<open>simp_all add: unused_def\<close>)
    then have "free_entry s = Some i" by (simp only: free_entry_def sum.case)
    then obtain s' where "dns_enqueue link F name fn x s = Inr (ERR_INPROGRESS, s')" "asked_for name fn x (dns_table s' i)"
        "\<forall>k. k \<noteq> i \<longrightarrow> dns_table s' k = dns_table s k" using enqueue [of i] i(3) by blast
    then have "\<exists>i s'. dns_enqueue link F name fn x s = Inr (ERR_INPROGRESS, s') \<and> i < DNS_TABLE_SIZE \<and> asked_for name fn x (dns_table s' i) \<and>
        (\<forall>j. j \<noteq> i \<longrightarrow> dns_table s' j = dns_table s j) \<and> unused i \<and> (\<forall>j < i. \<not> unused j)"
      using i by blast
    moreover have "\<not> ((\<forall>i < DNS_TABLE_SIZE. \<not> unused i) \<and> \<not> completed 0 \<and> (\<forall>i < DNS_TABLE_SIZE. completed i \<longrightarrow> ?a i \<le> 0))" using True by blast
    ultimately show ?thesis using True by (simp only: if_P if_not_P if_True if_False)
  next
    case False
    then have "\<forall>j \<in> set [0..<DNS_TABLE_SIZE]. dstate (?T j) \<noteq> DNS_STATE_UNUSED" by (simp add: unused_def)
    then obtain j where j: "entry_scan [0..<DNS_TABLE_SIZE] (dns_seqno s) 0 0 ?T = Inr j"
      "j = 0 \<and> (\<forall>i < DNS_TABLE_SIZE. completed i \<longrightarrow> ?a i \<le> 0) \<or> j < DNS_TABLE_SIZE \<and> completed j \<and> 0 < ?a j \<and> (\<forall>i < DNS_TABLE_SIZE. completed i \<longrightarrow> ?a i \<le> ?a j)"
      using entry_scan_done [of "[0..<DNS_TABLE_SIZE]" ?T "dns_seqno s" 0 0] by (auto simp: completed_def)
    have free: "free_entry s = (if completed j then Some j else None)" and jl: "j < DNS_TABLE_SIZE"
      using j by (auto simp: free_entry_def completed_def)
    show ?thesis
    proof (cases "completed j")
      case True
      have older: "\<not> (\<not> completed 0 \<and> (\<forall>i < DNS_TABLE_SIZE. completed i \<longrightarrow> ?a i \<le> 0))" using j(2) True by fastforce
      have "\<forall>i < DNS_TABLE_SIZE. completed i \<longrightarrow> ?a i \<le> max 0 (?a j)" using j(2) by fastforce
      moreover obtain s' where "dns_enqueue link F name fn x s = Inr (ERR_INPROGRESS, s')" "asked_for name fn x (dns_table s' j)"
        "\<forall>k. k \<noteq> j \<longrightarrow> dns_table s' k = dns_table s k" using enqueue [of j] free jl True by auto
      ultimately have "\<exists>i s'. dns_enqueue link F name fn x s = Inr (ERR_INPROGRESS, s') \<and> i < DNS_TABLE_SIZE \<and> asked_for name fn x (dns_table s' i) \<and>
          (\<forall>j. j \<noteq> i \<longrightarrow> dns_table s' j = dns_table s j) \<and> completed i \<and> (\<forall>j < DNS_TABLE_SIZE. completed j \<longrightarrow> ?a j \<le> max 0 (?a i))"
        using True jl by blast
      moreover have "\<not> ((\<forall>i < DNS_TABLE_SIZE. \<not> unused i) \<and> \<not> completed 0 \<and> (\<forall>i < DNS_TABLE_SIZE. completed i \<longrightarrow> ?a i \<le> 0))" using older by blast
      ultimately show ?thesis using False by (simp only: if_P if_not_P if_True if_False)
    next
      case not: False
      then have "j = 0" "\<forall>i < DNS_TABLE_SIZE. completed i \<longrightarrow> ?a i \<le> 0" using j(2) by auto
      then have full: "(\<forall>i < DNS_TABLE_SIZE. \<not> unused i) \<and> \<not> completed 0 \<and> (\<forall>i < DNS_TABLE_SIZE. completed i \<longrightarrow> ?a i \<le> 0)" using not False by blast
      show ?thesis unfolding if_P [OF full] using free not by (simp add: dns_enqueue_def)
    qed
  qed
qed

section \<open>What a callback sees\<close>

text \<open>
  While a callback is told that a lookup has failed, the failed entry counts as completed: a request for the same name from the callback,
  to try again, finds the entry and returns at once with the address that the entry held before, an old one or 0.0.0.0.
\<close>

theorem dns_failure_seen_flaw:
  assumes e: "named name (dname (dns_table s i))" "0 \<notin> set name" "i < DNS_TABLE_SIZE" "found (dns_table s i) = fn" "fn \<noteq> 0"
    and failed: "dns_answer (dname (dns_table s i)) (dns_message s) = Inr None"
    and others: "local_hostlist_dynamic s = 0" "\<forall>j < i. dstate (dns_table s j) = DNS_STATE_DONE \<longrightarrow> c_string (dname (dns_table s j)) \<noteq> name"
    and request: "dns_pcb s \<noteq> 0" "name \<noteq> []" "length name < DNS_MAX_NAME_LENGTH" "ipaddr_addr (characters name) = IPADDR_NONE"
    and old: "daddr (dns_table s i) \<noteq> IPADDR_NONE"
  shows "\<exists>t. dns_complete F i s = rbind (F fn name None (found_arg (dns_table s i)) t) (\<lambda>s. Inr (flush_entry i s)) \<and>
    dns_gethostbyname link F (Some name) True fn x t = Inr ((ERR_OK, Some (daddr (dns_table s i))), t)"
proof -
  define t where "t = set_entry_dns i (\<lambda>e. e\<lparr>dstate := DNS_STATE_DONE, derr := dns_message s ! 3 AND DNS_FLAG2_ERR_MASK\<rparr>) s"
  have name: "c_string (dname (dns_table s i)) = name" by (rule named_string [OF e(1,2)])
  have complete: "dns_complete F i s = rbind (F fn name None (found_arg (dns_table s i)) t) (\<lambda>s. Inr (flush_entry i s))"
    using failed e(4,5) name by (simp add: dns_complete_def Let_def t_def [symmetric]) (simp add: t_def call_found_def)
  have scan: "lookup_loop (js @ i # ks) name (dns_table t) = daddr (dns_table s i)" if "\<forall>j \<in> set js. j < i" for js ks
    using that by (induction js) (use others(2) name in \<open>auto simp: t_def\<close>)
  have "lookup_loop [0..<DNS_TABLE_SIZE] name (dns_table t) = daddr (dns_table s i)"
    unfolding upt_split [OF e(3)] by (rule scan) simp
  moreover have "dns_lookup_local name t = Inr IPADDR_NONE"
    using others(1) by (simp add: dns_lookup_local_def t_def eval_nat_numeral)
  ultimately have "dns_lookup name t = Inr (daddr (dns_table s i))" by (simp add: dns_lookup_def)
  then have "dns_gethostbyname link F (Some name) True fn x t = Inr ((ERR_OK, Some (daddr (dns_table s i))), t)"
    using request old by (simp add: dns_gethostbyname_def t_def)
  then show ?thesis using complete by blast
qed

section \<open>Concrete runs\<close>

text \<open>A resolver on a stack whose heap is used up: no query can be sent, and nothing stops it.\<close>

definition full_sample :: pb_state where
  "full_sample = sample\<lparr>heap := (heap sample)\<lparr>lfree := MEM_SIZE\<rparr>\<rparr>"

definition dns_sample :: "u8 \<Rightarrow> (nat \<Rightarrow> dns_table_entry) \<Rightarrow> dns_state" where
  "dns_sample sq T = raw_state.extend (udp_state.extend (udp_sample full_sample) (raw_state.fields 0 (\<lambda>_. undefined)))
    (dns_state.fields 100 sq T (\<lambda>n. if n = 0 then 0xdede43d0 else 0) 4000 4000 0 (\<lambda>_. undefined))"

definition idle_entry :: dns_table_entry where
  "idle_entry = \<lparr>dstate = DNS_STATE_UNUSED, numdns = 0, dtmr = 0, retries = 0, dseqno = 0, derr = 0, dttl = 0, dname = replicate 256 0, daddr = 0,
     found = 0, found_arg = 0\<rparr>"

lemma dns_sample_fields [simp]:
  "dns_pcb (dns_sample sq T) = 100" "dns_seqno (dns_sample sq T) = sq" "dns_table (dns_sample sq T) = T" "dns_servers (dns_sample sq T) = (\<lambda>n. if n = 0 then 0xdede43d0 else 0)"
  "local_hostlist_dynamic (dns_sample sq T) = 0" "dns_payload (dns_sample sq T) = 4000" "pb (arp (dns_sample sq T)) = full_sample"
  by (simp_all add: dns_sample_def udp_sample_def reass_sample_def arp_sample_def ip_state.defs udp_state.defs raw_state.defs dns_state.defs)

definition heap_full :: "'a ip_like \<Rightarrow> bool" where
  "heap_full s \<longleftrightarrow> lfree (heap (pb (arp s))) = MEM_SIZE"

lemma full_malloc:
  assumes "lfree H = MEM_SIZE"
  shows "mem_malloc n H = Inr (0, H)"
proof -
  have "mem_search (Suc MEM_SIZE) H m MEM_SIZE = Inr None" for m
  proof -
    have "\<not> MEM_SIZE < MEM_SIZE - m" by linarith
    then show ?thesis unfolding mem_search.simps(2) by (rule if_not_P)
  qed
  then show ?thesis using assms by (simp add: mem_malloc_def Let_def del: mem_search.simps)
qed

lemma full_ask:
  assumes "heap_full s" "unat (numdns (dns_table s i)) < DNS_MAX_SERVERS" "dns_servers s (unat (numdns (dns_table s i))) \<noteq> IPADDR_ANY"
  shows "\<exists>s'. ask link i s = Inr s' \<and> heap_full s'"
proof -
  have "mem_malloc n (heap (pb (arp s))) = Inr (0, heap (pb (arp s)))" for n using full_malloc assms(1) by (simp add: heap_full_def)
  then show ?thesis using assms
    by (auto simp: ask_def dns_send_def dns_query_alloc_def on_pbs_def pbuf_alloc_def Let_def heap_full_def set_arp_def set_pbs_def)
qed

lemma full_going: "keeps_going heap_full link (\<lambda>_ _ _ _ s. Inr s)" "quiet (\<lambda>_ _ _ _ s. Inr s)"
  using full_ask by (auto simp: keeps_going_def quiet_def heap_full_def set_entry_dns_def)

lemma full_dns_sample [simp]: "heap_full (dns_sample sq T)"
  by (simp add: heap_full_def full_sample_def)


theorem dns_answer_lifetime_witness:
  "\<exists>s s'. dttl (dns_table s 3) = 0 \<and> rounds 1000 (\<lambda>_ _. ERR_OK) (\<lambda>_ _ _ _ s. Inr s) (s :: dns_state) = Inr s' \<and> dstate (dns_table s' 3) = DNS_STATE_DONE"
proof -
  define s where "s = dns_sample 1 (\<lambda>i. if i = 3 then idle_entry\<lparr>dstate := DNS_STATE_DONE\<rparr> else idle_entry)"
  have s: "heap_full s" "dns_pcb s \<noteq> 0" "served s" "dstate (dns_table s 3) = DNS_STATE_DONE" "dttl (dns_table s 3) = 0"
    by (simp_all add: served_def entry_served_def s_def idle_entry_def)
  show ?thesis using dns_answer_lifetime [OF full_going s(1-3) _ s(4), of 1000 "\<lambda>_ _. ERR_OK"] s(4,5) by (fastforce simp: Let_def)
qed

text \<open>Entry 0 is being asked, and the others are completed, but from before the counter wrapped around.\<close>

theorem dns_enqueue_witness:
  "\<exists>s. (\<forall>i \<in> {1..15}. dstate (dns_table s i) = DNS_STATE_DONE) \<and> dns_enqueue (\<lambda>_ _. ERR_OK) (\<lambda>_ _ _ _ s. Inr s) [97] 1 0 (s :: dns_state) = Inr (ERR_MEM, s)"
proof -
  define s where "s = dns_sample 3 (\<lambda>i. if i = 0 then idle_entry\<lparr>dstate := DNS_STATE_ASKING, dtmr := 1\<rparr> else idle_entry\<lparr>dstate := DNS_STATE_DONE, dseqno := 250\<rparr>)"
  have s: "heap_full s" "served s" "\<forall>i < DNS_TABLE_SIZE. length (dname (dns_table s i)) = DNS_MAX_NAME_LENGTH"
    by (simp_all add: served_def entry_served_def s_def idle_entry_def)
  have full: "(\<forall>i < DNS_TABLE_SIZE. \<not> dstate (dns_table s i) = DNS_STATE_UNUSED) \<and> \<not> dstate (dns_table s 0) = DNS_STATE_DONE \<and>
      (\<forall>i < DNS_TABLE_SIZE. dstate (dns_table s i) = DNS_STATE_DONE \<longrightarrow> age (dns_seqno s) (dns_table s i) \<le> 0)"
    by (simp add: s_def idle_entry_def age_def)
  have name: "0 \<notin> set [97 :: u8]" "length [97 :: u8] < DNS_MAX_NAME_LENGTH" by simp_all
  have "dns_enqueue (\<lambda>_ _. ERR_OK) (\<lambda>_ _ _ _ s. Inr s) [97] 1 0 s = Inr (ERR_MEM, s)"
    using dns_enqueue_correct [OF full_going(1) s(1,2) name s(3), of "\<lambda>_ _. ERR_OK" 1 0] unfolding if_P [OF full] .
  then show ?thesis by (intro exI [of _ s]) (simp add: s_def)
qed

theorem dns_failure_seen_witness:
  "\<exists>s t. dns_complete (\<lambda>_ _ _ _ s. Inr s) 3 (s :: dns_state) = Inr (flush_entry 3 t) \<and> daddr (dns_table s 3) = 0x0100000a \<and>
    dns_gethostbyname (\<lambda>_ _. ERR_OK) (\<lambda>_ _ _ _ s. Inr s) (Some [97]) True 7 0 t = Inr ((ERR_OK, Some 0x0100000a), t)"
proof -
  define s where "s = dns_sample 3 (\<lambda>i. if i = 3 then idle_entry\<lparr>dstate := DNS_STATE_ASKING, found := 7, dname := put_name [97] (replicate 256 0), daddr := 0x0100000a\<rparr> else idle_entry)"
  have e: "named [97] (dname (dns_table s 3))" "0 \<notin> set [97 :: u8]" "3 < DNS_TABLE_SIZE" "found (dns_table s 3) = 7" "(7 :: nat) \<noteq> 0"
    using named_put [of "replicate 256 0" "[97]"] by (simp_all add: s_def)
  have failed: "dns_answer (dname (dns_table s 3)) (dns_message s) = Inr None"
    by (simp add: dns_answer_def dns_message_def read_bytes_def s_def full_sample_def sample_def)
  have others: "local_hostlist_dynamic s = 0" "\<forall>j < 3. dstate (dns_table s j) = DNS_STATE_DONE \<longrightarrow> c_string (dname (dns_table s j)) \<noteq> [97]"
    by (simp_all add: s_def idle_entry_def)
  have request: "dns_pcb s \<noteq> 0" "[97 :: u8] \<noteq> []" "length [97 :: u8] < DNS_MAX_NAME_LENGTH" "ipaddr_addr (characters [97]) = IPADDR_NONE"
    by (simp add: s_def, simp, simp, code_simp)
  have old: "daddr (dns_table s 3) = 0x0100000a" by (simp add: s_def)
  then have "daddr (dns_table s 3) \<noteq> IPADDR_NONE" by simp
  from dns_failure_seen_flaw [OF e failed others request this, of "\<lambda>_ _ _ _ s. Inr s" "\<lambda>_ _. ERR_OK" 0]
  obtain t where "dns_complete (\<lambda>_ _ _ _ s. Inr s) 3 s = Inr (flush_entry 3 t)"
    "dns_gethostbyname (\<lambda>_ _. ERR_OK) (\<lambda>_ _ _ _ s. Inr s) (Some [97]) True 7 0 t = Inr ((ERR_OK, Some (daddr (dns_table s 3))), t)" by auto
  then show ?thesis unfolding old using old by blast
qed

end
