(* ===== verification/Netbuf.thy ===== *)
theory Netbuf
  imports Tcp_In
begin

text \<open>
  \<^verbatim>\<open>src/src/lwip/api/netbuf.c\<close>: the packets that the sequential interface hands to applications (\<^verbatim>\<open>LWIP_NETBUF_RECVINFO\<close> and
  \<^verbatim>\<open>LWIP_CHECKSUM_ON_COPY\<close> off). A netbuf is found by its address. A NULL argument stops the run (\<^verbatim>\<open>LWIP_ERROR\<close>).
\<close>

section \<open>State\<close>

record netbuf =
  nb_p :: nat
  nb_ptr :: nat
  nb_addr :: u32
  nb_port :: u16

record netbuf_state = tcp_state +
  netbufs :: "nat \<Rightarrow> netbuf"

type_synonym 'a netbuf_like = "'a netbuf_state_scheme"

definition set_netbuf :: "nat \<Rightarrow> (netbuf \<Rightarrow> netbuf) \<Rightarrow> 'a netbuf_like \<Rightarrow> 'a netbuf_like" where
  "set_netbuf b f s = s\<lparr>netbufs := (netbufs s)(b := f (netbufs s b))\<rparr>"

section \<open>Operations\<close>

definition netbuf_new :: "'a netbuf_like \<Rightarrow> (nat \<times> 'a netbuf_like) res" where
  "netbuf_new s =
     rbind (pool_get MEMP_NETBUF s) (\<lambda>(buf, s).
       Inr (buf, if buf \<noteq> 0 then set_netbuf buf (\<lambda>_. \<lparr>nb_p = 0, nb_ptr = 0, nb_addr = IPADDR_ANY, nb_port = 0\<rparr>) s else s))"

definition netbuf_delete :: "nat \<Rightarrow> 'a netbuf_like \<Rightarrow> 'a netbuf_like res" where
  "netbuf_delete buf s =
     (if buf \<noteq> 0
      then
        rbind
          (if nb_p (netbufs s buf) \<noteq> 0
           then rbind (release_pbuf (nb_p (netbufs s buf)) s) (\<lambda>s. Inr (set_netbuf buf (\<lambda>b. b\<lparr>nb_p := 0, nb_ptr := 0\<rparr>) s))
           else Inr s) (\<lambda>s.
        Inr (pool_put MEMP_NETBUF buf s))
      else Inr s)"

text \<open>The result is the address of the allocated memory, or 0.\<close>

definition netbuf_alloc :: "nat \<Rightarrow> u16 \<Rightarrow> 'a netbuf_like \<Rightarrow> (nat \<times> 'a netbuf_like) res" where
  "netbuf_alloc buf sz s =
     (if buf = 0 then Inl Abort
      else
        rbind (if nb_p (netbufs s buf) \<noteq> 0 then release_pbuf (nb_p (netbufs s buf)) s else Inr s) (\<lambda>s.
        rbind (on_pbs (pbuf_alloc PBUF_TRANSPORT (unat sz) PBUF_RAM) s) (\<lambda>(p, s).
          let s = set_netbuf buf (\<lambda>b. b\<lparr>nb_p := p\<rparr>) s in
          if p = 0 then Inr (0, s)
          else if \<not> unat sz \<le> plen (the_pbuf s p) then Inl Abort
          else Inr (payload (the_pbuf s p), set_netbuf buf (\<lambda>b. b\<lparr>nb_ptr := p\<rparr>) s))))"

definition netbuf_free :: "nat \<Rightarrow> 'a netbuf_like \<Rightarrow> 'a netbuf_like res" where
  "netbuf_free buf s =
     (if buf = 0 then Inl Abort
      else
        rbind (if nb_p (netbufs s buf) \<noteq> 0 then release_pbuf (nb_p (netbufs s buf)) s else Inr s) (\<lambda>s.
        Inr (set_netbuf buf (\<lambda>b. b\<lparr>nb_p := 0, nb_ptr := 0\<rparr>) s)))"

definition netbuf_ref :: "nat \<Rightarrow> nat \<Rightarrow> u16 \<Rightarrow> 'a netbuf_like \<Rightarrow> (err_t \<times> 'a netbuf_like) res" where
  "netbuf_ref buf dataptr sz s =
     (if buf = 0 then Inl Abort
      else
        rbind (if nb_p (netbufs s buf) \<noteq> 0 then release_pbuf (nb_p (netbufs s buf)) s else Inr s) (\<lambda>s.
        rbind (on_pbs (pbuf_alloc PBUF_TRANSPORT 0 PBUF_REF) s) (\<lambda>(p, s).
          let s = set_netbuf buf (\<lambda>b. b\<lparr>nb_p := p\<rparr>) s in
          if p = 0 then Inr (ERR_MEM, set_netbuf buf (\<lambda>b. b\<lparr>nb_ptr := 0\<rparr>) s)
          else
            let s = set_pbuf p (\<lambda>b. b\<lparr>payload := dataptr, plen := unat sz, tot_len := unat sz\<rparr>) s
            in Inr (ERR_OK, set_netbuf buf (\<lambda>b. b\<lparr>nb_ptr := p\<rparr>) s))))"

definition netbuf_chain :: "nat \<Rightarrow> nat \<Rightarrow> 'a netbuf_like \<Rightarrow> 'a netbuf_like res" where
  "netbuf_chain h1 t1 s =
     (if h1 = 0 \<or> t1 = 0 then Inl Abort
      else
        rbind (do_pbs (pbuf_cat (nb_p (netbufs s h1)) (nb_p (netbufs s t1))) s) (\<lambda>s.
          Inr (pool_put MEMP_NETBUF t1 (set_netbuf h1 (\<lambda>b. b\<lparr>nb_ptr := nb_p b\<rparr>) s))))"

text \<open>The result with the address and the length of the current part, if any.\<close>

definition netbuf_data :: "nat \<Rightarrow> 'a netbuf_like \<Rightarrow> (err_t \<times> (nat \<times> nat) option) res" where
  "netbuf_data buf s =
     (if buf = 0 then Inl Abort
      else
        let q = nb_ptr (netbufs s buf) in
        Inr (if q = 0 then (ERR_BUF, None) else (ERR_OK, Some (payload (the_pbuf s q), plen (the_pbuf s q)))))"

definition netbuf_next :: "nat \<Rightarrow> 'a netbuf_like \<Rightarrow> (int \<times> 'a netbuf_like) res" where
  "netbuf_next buf s =
     (if buf = 0 then Inl Abort
      else if nb_ptr (netbufs s buf) = 0 then Inl Bad_Deref
      else if pnext (the_pbuf s (nb_ptr (netbufs s buf))) = 0 then Inr (-1, s)
      else
        let s = set_netbuf buf (\<lambda>b. b\<lparr>nb_ptr := pnext (the_pbuf s (nb_ptr b))\<rparr>) s in
        Inr (if pnext (the_pbuf s (nb_ptr (netbufs s buf))) = 0 then 1 else 0, s))"

definition netbuf_first :: "nat \<Rightarrow> 'a netbuf_like \<Rightarrow> 'a netbuf_like res" where
  "netbuf_first buf s = (if buf = 0 then Inl Abort else Inr (set_netbuf buf (\<lambda>b. b\<lparr>nb_ptr := nb_p b\<rparr>) s))"

text \<open>\<^verbatim>\<open>netbuf_len\<close>, and the macros that copy out of a netbuf and into it.\<close>

definition netbuf_len :: "nat \<Rightarrow> 'a netbuf_like \<Rightarrow> nat" where
  "netbuf_len buf s = tot_len (the_pbuf s (nb_p (netbufs s buf)))"

definition netbuf_copy_partial :: "nat \<Rightarrow> nat \<Rightarrow> nat \<Rightarrow> nat \<Rightarrow> 'a netbuf_like \<Rightarrow> (nat \<times> 'a netbuf_like) res" where
  "netbuf_copy_partial buf dataptr len off s = on_pbs (pbuf_copy_partial (nb_p (netbufs s buf)) dataptr len off) s"

definition netbuf_take :: "nat \<Rightarrow> nat \<Rightarrow> nat \<Rightarrow> 'a netbuf_like \<Rightarrow> (err_t \<times> 'a netbuf_like) res" where
  "netbuf_take buf dataptr len s = on_pbs (pbuf_take (nb_p (netbufs s buf)) dataptr len) s"

end
