(* ===== verification/Netconn.thy ===== *)
theory Netconn
  imports Netbuf
begin

text \<open>
  \<^verbatim>\<open>src/src/lwip/api/api_msg.c\<close>: the part of the sequential interface that runs in the TCP/IP thread, with the options of
  \<^verbatim>\<open>opt.h\<close> (timeouts and receive buffer sizes on; core locking and the backlog off). A netconn and a message are found by
  their addresses; the members of the union of a message are fields of their own, as every function reads only the member that
  its caller has written. A mailbox that is not valid is None; a message 0 in it is \<^verbatim>\<open>NULL\<close>. The callback of an
  application (\<open>event\<close>), the other users of the callbacks of TCP (\<open>others\<close>), the clock and \<^verbatim>\<open>malloc\<close> are the environment
  \<open>api_env\<close>. The functions of this file are the callbacks number 2.
\<close>

section \<open>State\<close>

datatype netconn_type = NETCONN_INVALID | NETCONN_TCP | NETCONN_UDP | NETCONN_UDPLITE | NETCONN_UDPNOCHKSUM | NETCONN_RAW

fun NETCONNTYPE_GROUP :: "netconn_type \<Rightarrow> netconn_type" where
  "NETCONNTYPE_GROUP NETCONN_UDPLITE = NETCONN_UDP"
| "NETCONNTYPE_GROUP NETCONN_UDPNOCHKSUM = NETCONN_UDP"
| "NETCONNTYPE_GROUP t = t"

datatype netconn_state = NETCONN_NONE | NETCONN_WRITE | NETCONN_LISTEN | NETCONN_CONNECT | NETCONN_CLOSE

datatype netconn_evt = NETCONN_EVT_RCVPLUS | NETCONN_EVT_RCVMINUS | NETCONN_EVT_SENDPLUS | NETCONN_EVT_SENDMINUS | NETCONN_EVT_ERROR

abbreviation NETCONN_DONTBLOCK :: u8 where "NETCONN_DONTBLOCK \<equiv> 0x04"
abbreviation NETCONN_FLAG_NON_BLOCKING :: u8 where "NETCONN_FLAG_NON_BLOCKING \<equiv> 0x02"
abbreviation NETCONN_FLAG_IN_NONBLOCKING_CONNECT :: u8 where "NETCONN_FLAG_IN_NONBLOCKING_CONNECT \<equiv> 0x04"
abbreviation NETCONN_FLAG_NO_AUTO_RECVED :: u8 where "NETCONN_FLAG_NO_AUTO_RECVED \<equiv> 0x08"
abbreviation NETCONN_FLAG_CHECK_WRITESPACE :: u8 where "NETCONN_FLAG_CHECK_WRITESPACE \<equiv> 0x10"
abbreviation NETCONN_SHUT_RD :: u8 where "NETCONN_SHUT_RD \<equiv> 1"
abbreviation NETCONN_SHUT_WR :: u8 where "NETCONN_SHUT_WR \<equiv> 2"
abbreviation NETCONN_SHUT_RDWR :: u8 where "NETCONN_SHUT_RDWR \<equiv> 3"
abbreviation TCP_SNDLOWAT :: nat where "TCP_SNDLOWAT \<equiv> 2047"
abbreviation TCP_SNDQUEUELOWAT :: nat where "TCP_SNDQUEUELOWAT \<equiv> 5"
abbreviation INT_MAX :: int where "INT_MAX \<equiv> 2147483647"
abbreviation MBOX_MAX :: nat where "MBOX_MAX \<equiv> 128"

text \<open>The numbers of the functions of this file among the callbacks of a kind.\<close>

abbreviation API_CALLBACK :: nat where "API_CALLBACK \<equiv> 2"

record netconn =
  ntype :: netconn_type
  nstate :: netconn_state
  npcb :: nat
  last_err :: err_t
  op_completed :: "sys_sem option"
  recvmbox :: "sys_mbox option"
  acceptmbox :: "sys_mbox option"
  nsocket :: int
  send_timeout :: int
  recv_timeout :: int
  recv_bufsize :: int
  recv_avail :: int
  nflags :: u8
  write_offset :: nat
  current_msg :: nat
  ncallback :: nat

record api_msg =
  mconn :: nat
  merr :: err_t
  mnetbuf :: nat
  mproto :: u8
  mipaddr :: "u32 option"
  mport :: u16
  mlocal :: bool
  mdataptr :: nat
  mlen :: nat
  mapiflags :: u8
  mtime_started :: u32
  mrlen :: u32
  mshut :: u8

record api_state = netbuf_state +
  netconns :: "nat \<Rightarrow> netconn"
  api_msgs :: "nat \<Rightarrow> api_msg"

type_synonym 'a api_like = "'a api_state_scheme"

record 's api_env =
  others :: "'s tcp_app"
  event :: "nat \<Rightarrow> nat \<Rightarrow> netconn_evt \<Rightarrow> u16 \<Rightarrow> 's \<Rightarrow> 's res"
  sem_room :: "'s \<Rightarrow> bool"
  mbox_room :: "'s \<Rightarrow> sys_mbox option"
  clock :: "'s \<Rightarrow> u32"

definition set_conn :: "nat \<Rightarrow> (netconn \<Rightarrow> netconn) \<Rightarrow> 'a api_like \<Rightarrow> 'a api_like" where
  "set_conn c f s = s\<lparr>netconns := (netconns s)(c := f (netconns s c))\<rparr>"

definition set_msg :: "nat \<Rightarrow> (api_msg \<Rightarrow> api_msg) \<Rightarrow> 'a api_like \<Rightarrow> 'a api_like" where
  "set_msg m f s = s\<lparr>api_msgs := (api_msgs s)(m := f (api_msgs s m))\<rparr>"

section \<open>Macros\<close>

definition ERR_IS_FATAL :: "err_t \<Rightarrow> bool" where
  "ERR_IS_FATAL e \<longleftrightarrow> e \<in> {ERR_ABRT, ERR_RST, ERR_CLSD, ERR_CONN, ERR_ARG, ERR_IF}"

definition API_EVENT :: "'a api_like api_env \<Rightarrow> nat \<Rightarrow> netconn_evt \<Rightarrow> u16 \<Rightarrow> 'a api_like \<Rightarrow> 'a api_like res" where
  "API_EVENT A c e l s = (if ncallback (netconns s c) \<noteq> 0 then event A (ncallback (netconns s c)) c e l s else Inr s)"

definition NETCONN_SET_SAFE_ERR :: "nat \<Rightarrow> err_t \<Rightarrow> 'a api_like \<Rightarrow> 'a api_like" where
  "NETCONN_SET_SAFE_ERR c e s = (if \<not> ERR_IS_FATAL (last_err (netconns s c)) then set_conn c (\<lambda>n. n\<lparr>last_err := e\<rparr>) s else s)"

definition nflag :: "u8 \<Rightarrow> netconn \<Rightarrow> bool" where
  "nflag f n \<longleftrightarrow> nflags n AND f \<noteq> 0"

definition SET_NONBLOCKING_CONNECT :: "nat \<Rightarrow> bool \<Rightarrow> 'a api_like \<Rightarrow> 'a api_like" where
  "SET_NONBLOCKING_CONNECT c val s =
     set_conn c (\<lambda>n. n\<lparr>nflags := (if val then nflags n OR NETCONN_FLAG_IN_NONBLOCKING_CONNECT
        else nflags n AND NOT NETCONN_FLAG_IN_NONBLOCKING_CONNECT)\<rparr>) s"

abbreviation IN_NONBLOCKING_CONNECT :: "netconn \<Rightarrow> bool" where
  "IN_NONBLOCKING_CONNECT n \<equiv> nflag NETCONN_FLAG_IN_NONBLOCKING_CONNECT n"

abbreviation netconn_is_nonblocking :: "netconn \<Rightarrow> bool" where
  "netconn_is_nonblocking n \<equiv> nflag NETCONN_FLAG_NON_BLOCKING n"

text \<open>Waking the application thread that waits for the operation to complete, and answering a message.\<close>

definition signal_completed :: "nat \<Rightarrow> 'a api_like \<Rightarrow> 'a api_like res" where
  "signal_completed c s =
     (case op_completed (netconns s c) of
        None \<Rightarrow> Inl Bad_Deref
      | Some v \<Rightarrow> Inr (set_conn c (\<lambda>n. n\<lparr>op_completed := Some (sys_sem_signal v)\<rparr>) s))"

definition TCPIP_APIMSG_ACK :: "nat \<Rightarrow> 'a api_like \<Rightarrow> 'a api_like res" where
  "TCPIP_APIMSG_ACK m s = signal_completed (mconn (api_msgs s m)) s"

text \<open>Posting to a mailbox of a netconn and taking from it without waiting.\<close>

definition post_box :: "nat \<Rightarrow> sys_mbox option \<Rightarrow> (err_t \<times> sys_mbox) res" where
  "post_box msg mb =
     (case mb of
        None \<Rightarrow> Inl Abort
      | Some m \<Rightarrow> (case sys_mbox_trypost msg m of None \<Rightarrow> Inl Blocked | Some r \<Rightarrow> r))"

definition post_recv :: "nat \<Rightarrow> nat \<Rightarrow> 'a api_like \<Rightarrow> (err_t \<times> 'a api_like) res" where
  "post_recv c msg s =
     rbind (post_box msg (recvmbox (netconns s c))) (\<lambda>(e, mb). Inr (e, set_conn c (\<lambda>n. n\<lparr>recvmbox := Some mb\<rparr>) s))"

definition post_accept :: "nat \<Rightarrow> nat \<Rightarrow> 'a api_like \<Rightarrow> (err_t \<times> 'a api_like) res" where
  "post_accept c msg s =
     rbind (post_box msg (acceptmbox (netconns s c))) (\<lambda>(e, mb). Inr (e, set_conn c (\<lambda>n. n\<lparr>acceptmbox := Some mb\<rparr>) s))"

definition fetch_box :: "sys_mbox option \<Rightarrow> (nat option \<times> sys_mbox) res" where
  "fetch_box mb =
     (case mb of
        None \<Rightarrow> Inl Abort
      | Some m \<Rightarrow> (case sys_arch_mbox_tryfetch m of None \<Rightarrow> Inl Blocked | Some r \<Rightarrow> r))"

text \<open>\<^verbatim>\<open>SYS_ARCH_INC\<close> and \<^verbatim>\<open>SYS_ARCH_DEC\<close> on the \<^verbatim>\<open>s16_t\<close> that counts the received bytes.\<close>

definition add_avail :: "nat \<Rightarrow> int \<Rightarrow> 'a api_like \<Rightarrow> 'a api_like" where
  "add_avail c d s = set_conn c (\<lambda>n. n\<lparr>recv_avail := s16_of (recv_avail n + d)\<rparr>) s"

section \<open>Received datagrams\<close>

text \<open>The end of both receivers: the netbuf goes into the mailbox, or is deleted.\<close>

definition post_netbuf :: "'a api_like api_env \<Rightarrow> nat \<Rightarrow> nat \<Rightarrow> u16 \<Rightarrow> 'a api_like \<Rightarrow> 'a api_like res" where
  "post_netbuf A c buf len s =
     rbind (post_recv c buf s) (\<lambda>(e, s).
       if e \<noteq> ERR_OK then netbuf_delete buf s
       else API_EVENT A c NETCONN_EVT_RCVPLUS len (add_avail c (int (unat len)) s))"

definition recv_raw :: "'a api_like api_env \<Rightarrow> nat \<Rightarrow> nat \<Rightarrow> nat \<Rightarrow> 'a api_like \<Rightarrow> (bool \<times> 'a api_like) res" where
  "recv_raw A c pcb p s =
     (if c \<noteq> 0 \<and> recvmbox (netconns s c) \<noteq> None
      then
        if recv_avail (netconns s c) + int (tot_len (the_pbuf s p)) > recv_bufsize (netconns s c) then Inr (False, s)
        else
          rbind (on_pbs (pbuf_alloc PBUF_RAW (tot_len (the_pbuf s p)) PBUF_RAM) s) (\<lambda>(q, s).
          rbind
            (if q \<noteq> 0
             then rbind (on_pbs (pbuf_copy q p) s) (\<lambda>(e, s).
               if e \<noteq> ERR_OK then rbind (release_pbuf q s) (\<lambda>s. Inr (0, s)) else Inr (q, s))
             else Inr (q, s)) (\<lambda>(q, s).
          if q = 0 then Inr (False, s)
          else
            rbind (pool_get MEMP_NETBUF s) (\<lambda>(buf, s).
              if buf = 0 then rbind (release_pbuf q s) (\<lambda>s. Inr (False, s))
              else
                let s = set_netbuf buf (\<lambda>_. \<lparr>nb_p = q, nb_ptr = q, nb_addr = current_src s, nb_port = ucast (protocol (rpcb s pcb))\<rparr>) s
                in rbind (post_netbuf A c buf (word_of_nat (tot_len (the_pbuf s q))) s) (\<lambda>s. Inr (False, s)))))
      else Inr (False, s))"

definition recv_udp :: "'a api_like api_env \<Rightarrow> nat \<Rightarrow> nat \<Rightarrow> nat \<Rightarrow> u32 \<Rightarrow> u16 \<Rightarrow> 'a api_like \<Rightarrow> 'a api_like res" where
  "recv_udp A c pcb p addr port s =
     (if pcb = 0 \<or> c = 0 then Inl Abort
      else if npcb (netconns s c) \<noteq> pcb then Inl Abort
      else if recvmbox (netconns s c) = None \<or> recv_avail (netconns s c) + int (tot_len (the_pbuf s p)) > recv_bufsize (netconns s c)
      then release_pbuf p s
      else
        rbind (pool_get MEMP_NETBUF s) (\<lambda>(buf, s).
          if buf = 0 then release_pbuf p s
          else
            post_netbuf A c buf (word_of_nat (tot_len (the_pbuf s p)))
              (set_netbuf buf (\<lambda>_. \<lparr>nb_p = p, nb_ptr = p, nb_addr = addr, nb_port = port\<rparr>) s)))"

section \<open>The error callback\<close>

definition err_tcp :: "'a api_like api_env \<Rightarrow> nat \<Rightarrow> err_t \<Rightarrow> 'a api_like \<Rightarrow> 'a api_like res" where
  "err_tcp A c err s =
     (if c = 0 then Inl Abort
      else
        let old_state = nstate (netconns s c);
            s = set_conn c (\<lambda>n. n\<lparr>npcb := 0, last_err := err, nstate := NETCONN_NONE\<rparr>) s
        in
          rbind (API_EVENT A c NETCONN_EVT_ERROR 0 s) (\<lambda>s.
          rbind (API_EVENT A c NETCONN_EVT_RCVPLUS 0 s) (\<lambda>s.
          rbind (API_EVENT A c NETCONN_EVT_SENDPLUS 0 s) (\<lambda>s.
          rbind (if recvmbox (netconns s c) \<noteq> None then rbind (post_recv c 0 s) (\<lambda>(_, s). Inr s) else Inr s) (\<lambda>s.
          rbind (if acceptmbox (netconns s c) \<noteq> None then rbind (post_accept c 0 s) (\<lambda>(_, s). Inr s) else Inr s) (\<lambda>s.
          if old_state = NETCONN_WRITE \<or> old_state = NETCONN_CLOSE \<or> old_state = NETCONN_CONNECT
          then
            let was_nonblocking_connect = IN_NONBLOCKING_CONNECT (netconns s c);
                s = SET_NONBLOCKING_CONNECT c False s
            in
              if \<not> was_nonblocking_connect
              then
                if current_msg (netconns s c) = 0 then Inl Abort
                else
                  signal_completed c (set_conn c (\<lambda>n. n\<lparr>current_msg := 0\<rparr>)
                    (set_msg (current_msg (netconns s c)) (\<lambda>m. m\<lparr>merr := err\<rparr>) s))
              else Inr s
          else if current_msg (netconns s c) \<noteq> 0 then Inl Abort
          else Inr s))))))"

text \<open>The callbacks that TCP functions use when an application calls them: only that for errors.\<close>

definition err_app :: "'a api_like api_env \<Rightarrow> 'a api_like tcp_app" where
  "err_app A = (others A)\<lparr>err_fn := (\<lambda>fn a e s. if fn = API_CALLBACK then err_tcp A a e s else err_fn (others A) fn a e s)\<rparr>"

section \<open>Closing and writing\<close>

definition restore_callbacks :: "nat \<Rightarrow> nat \<Rightarrow> 'a api_like \<Rightarrow> 'a api_like res" where
  "restore_callbacks c pcb s =
     rbind (tcp_sent pcb API_CALLBACK s) (\<lambda>s.
     rbind (tcp_poll pcb API_CALLBACK 4 s) (\<lambda>s.
     rbind (tcp_err pcb API_CALLBACK s) (\<lambda>s. Inr (tcp_arg pcb c s))))"

definition do_close_internal :: "'a api_like api_env \<Rightarrow> nat \<Rightarrow> 'a api_like \<Rightarrow> 'a api_like res" where
  "do_close_internal A c s =
     (let n = netconns s c; pcb = npcb n in
      if c = 0 \<or> ntype n \<noteq> NETCONN_TCP \<or> nstate n \<noteq> NETCONN_CLOSE \<or> pcb = 0 \<or> current_msg n = 0 then Inl Abort
      else
        let shut = mshut (api_msgs s (current_msg n));
            shut_rx = shut AND NETCONN_SHUT_RD \<noteq> 0;
            shut_tx = shut AND NETCONN_SHUT_WR \<noteq> 0;
            cl = (shut = NETCONN_SHUT_RDWR);
            s = (if cl then tcp_arg pcb 0 s else s)
        in
          rbind
            (if fsm (tpcb s pcb) = LISTEN then Inr (tcp_accept pcb 0 s)
             else
               rbind (if shut_rx then rbind (tcp_recv pcb 0 s) (\<lambda>s. Inr (tcp_accept pcb 0 s)) else Inr s) (\<lambda>s.
               rbind (if shut_tx then tcp_sent pcb 0 s else Inr s) (\<lambda>s.
               if cl then rbind (tcp_poll pcb 0 4 s) (tcp_err pcb 0) else Inr s))) (\<lambda>s.
          rbind (if cl then tcp_close (err_app A) pcb s else tcp_shutdown (err_app A) pcb shut_rx shut_tx s) (\<lambda>(err, s).
          if err = ERR_OK
          then
            let s = set_conn c (\<lambda>n. n\<lparr>current_msg := 0, nstate := NETCONN_NONE\<rparr>) (set_msg (current_msg (netconns s c)) (\<lambda>m. m\<lparr>merr := ERR_OK\<rparr>) s) in
            rbind (if cl then API_EVENT A c NETCONN_EVT_ERROR 0 (set_conn c (\<lambda>n. n\<lparr>npcb := 0\<rparr>) s) else Inr s) (\<lambda>s.
            rbind (if shut_rx then API_EVENT A c NETCONN_EVT_RCVPLUS 0 s else Inr s) (\<lambda>s.
            rbind (if shut_tx then API_EVENT A c NETCONN_EVT_SENDPLUS 0 s else Inr s) (\<lambda>s.
              signal_completed c s)))
          else if fsm (tpcb s pcb) = LISTEN then Inl Abort
          else restore_callbacks c pcb s)))"

text \<open>The length that is tried, and whether \<^verbatim>\<open>TCP_WRITE_FLAG_MORE\<close> is added.\<close>

definition write_len :: "bool \<Rightarrow> nat \<Rightarrow> u16 \<Rightarrow> u16 \<times> bool" where
  "write_len dontblock diff available =
     (let len = (if diff > 0xffff then 0xffff else word_of_nat diff); more = (diff > 0xffff) in
      if available < len then (available, if dontblock then more else True) else (len, more))"

text \<open>Telling \<^verbatim>\<open>select\<close> that the connection is not writable: the label \<^verbatim>\<open>err_mem\<close>.\<close>

definition check_writable :: "'a api_like api_env \<Rightarrow> nat \<Rightarrow> bool \<Rightarrow> u16 \<Rightarrow> 'a api_like \<Rightarrow> 'a api_like res" where
  "check_writable A c dontblock len s =
     (let pcb = npcb (netconns s c) in
      if dontblock \<and> unat len < mlen (api_msgs s (current_msg (netconns s c)))
      then rbind (API_EVENT A c NETCONN_EVT_SENDMINUS len s) (\<lambda>s.
        Inr (set_conn c (\<lambda>n. n\<lparr>nflags := nflags n OR NETCONN_FLAG_CHECK_WRITESPACE\<rparr>) s))
      else if unat (snd_buf (tpcb s pcb)) \<le> TCP_SNDLOWAT \<or> unat (snd_queuelen (tpcb s pcb)) \<ge> TCP_SNDQUEUELOWAT
      then API_EVENT A c NETCONN_EVT_SENDMINUS len s
      else Inr s)"

text \<open>After an attempt to write: is the message finished?\<close>

definition after_write :: "'a api_like api_env \<Rightarrow> nat \<Rightarrow> bool \<Rightarrow> err_t \<Rightarrow> u16 \<Rightarrow> 'a api_like \<Rightarrow> (bool \<times> 'a api_like) res" where
  "after_write A c dontblock err len s =
     (if err = ERR_OK
      then
        let s = set_conn c (\<lambda>n. n\<lparr>write_offset := write_offset n + unat len\<rparr>) s;
            n = netconns s c;
            finished = (write_offset n = mlen (api_msgs s (current_msg n)) \<or> dontblock);
            s = (if finished
                 then set_conn c (\<lambda>n. n\<lparr>write_offset := 0\<rparr>) (set_msg (current_msg n) (\<lambda>m. m\<lparr>mlen := write_offset n\<rparr>) s)
                 else s)
        in rbind (tcp_output (linkf (others A)) (npcb (netconns s c)) s) (\<lambda>(_, s). Inr (finished, s))
      else if err = ERR_MEM \<and> \<not> dontblock
      then rbind (tcp_output (linkf (others A)) (npcb (netconns s c)) s) (\<lambda>(_, s). Inr (False, s))
      else Inr (True, set_msg (current_msg (netconns s c)) (\<lambda>m. m\<lparr>mlen := 0\<rparr>) s))"

text \<open>Has the message waited for longer than the send timeout?\<close>

definition write_expired :: "'a api_like api_env \<Rightarrow> nat \<Rightarrow> 'a api_like \<Rightarrow> bool" where
  "write_expired A c s \<longleftrightarrow> send_timeout (netconns s c) \<noteq> 0 \<and>
     sint (clock A s - mtime_started (api_msgs s (current_msg (netconns s c)))) \<ge> send_timeout (netconns s c)"

definition do_writemore :: "'a api_like api_env \<Rightarrow> nat \<Rightarrow> 'a api_like \<Rightarrow> 'a api_like res" where
  "do_writemore A c s =
     (let n = netconns s c; m = api_msgs s (current_msg n); pcb = npcb n in
      if current_msg n = 0 then Inl Bad_Deref
      else if c = 0 \<or> nstate n \<noteq> NETCONN_WRITE \<or> pcb = 0 \<or> \<not> write_offset n < mlen m then Inl Abort
      else
        let dontblock = (netconn_is_nonblocking n \<or> mapiflags m AND NETCONN_DONTBLOCK \<noteq> 0) in
        rbind
          (if write_expired A c s
           then Inr ((if write_offset n = 0 then ERR_WOULDBLOCK else ERR_OK, True),
             set_msg (current_msg n) (\<lambda>m. m\<lparr>mlen := (if write_offset n = 0 then 0 else write_offset n)\<rparr>) s)
           else
             let (len, more) = write_len dontblock (mlen m - write_offset n) (snd_buf (tpcb s pcb));
                 apiflags = (if more then mapiflags m OR TCP_WRITE_FLAG_MORE else mapiflags m)
             in
               rbind
                 (if dontblock \<and> snd_buf (tpcb s pcb) = 0 then Inr ((ERR_WOULDBLOCK, True), s)
                  else if \<not> write_offset n + unat len \<le> mlen m then Inl Abort
                  else rbind (tcp_write pcb (mdataptr m + write_offset n) len apiflags s) (\<lambda>(err, s).
                    Inr ((err, err = ERR_OK \<or> err = ERR_MEM), s))) (\<lambda>((err, check), s).
               rbind (if check then check_writable A c dontblock len s else Inr s) (\<lambda>s.
               rbind (after_write A c dontblock err len s) (\<lambda>(finished, s). Inr ((err, finished), s))))) (\<lambda>((err, finished), s).
        if finished
        then
          signal_completed c (set_conn c (\<lambda>n. n\<lparr>current_msg := 0, nstate := NETCONN_NONE\<rparr>)
            (set_msg (current_msg (netconns s c)) (\<lambda>m. m\<lparr>merr := err\<rparr>) s))
        else Inr s))"

section \<open>The other callbacks\<close>

definition recv_tcp :: "'a api_like api_env \<Rightarrow> nat \<Rightarrow> nat \<Rightarrow> nat \<Rightarrow> err_t \<Rightarrow> 'a api_like \<Rightarrow> (err_t \<times> 'a api_like) res" where
  "recv_tcp A c pcb p err s =
     (if pcb = 0 \<or> c = 0 then Inl Abort
      else if npcb (netconns s c) \<noteq> pcb then Inl Abort
      else if recvmbox (netconns s c) = None
      then
        if p \<noteq> 0
        then rbind (tcp_recved (err_app A) pcb (word_of_nat (tot_len (the_pbuf s p))) s) (\<lambda>s. rbind (release_pbuf p s) (\<lambda>s. Inr (ERR_OK, s)))
        else Inr (ERR_OK, s)
      else
        let s = NETCONN_SET_SAFE_ERR c err s; len = (if p \<noteq> 0 then tot_len (the_pbuf s p) else 0) in
        rbind (post_recv c p s) (\<lambda>(e, s).
          if e \<noteq> ERR_OK then Inr (ERR_MEM, s)
          else rbind (API_EVENT A c NETCONN_EVT_RCVPLUS (word_of_nat len) (add_avail c (int len) s)) (\<lambda>s. Inr (ERR_OK, s))))"

text \<open>What both \<^verbatim>\<open>poll_tcp\<close> and \<^verbatim>\<open>sent_tcp\<close> do first and last.\<close>

definition continue_op :: "'a api_like api_env \<Rightarrow> nat \<Rightarrow> 'a api_like \<Rightarrow> 'a api_like res" where
  "continue_op A c s =
     (if nstate (netconns s c) = NETCONN_WRITE then do_writemore A c s
      else if nstate (netconns s c) = NETCONN_CLOSE then do_close_internal A c s
      else Inr s)"

definition report_writable :: "'a api_like api_env \<Rightarrow> nat \<Rightarrow> u16 \<Rightarrow> 'a api_like \<Rightarrow> 'a api_like res" where
  "report_writable A c len s =
     (let pcb = npcb (netconns s c) in
      if pcb \<noteq> 0 \<and> unat (snd_buf (tpcb s pcb)) > TCP_SNDLOWAT \<and> unat (snd_queuelen (tpcb s pcb)) < TCP_SNDQUEUELOWAT
      then API_EVENT A c NETCONN_EVT_SENDPLUS len (set_conn c (\<lambda>n. n\<lparr>nflags := nflags n AND NOT NETCONN_FLAG_CHECK_WRITESPACE\<rparr>) s)
      else Inr s)"

definition poll_tcp :: "'a api_like api_env \<Rightarrow> nat \<Rightarrow> 'a api_like \<Rightarrow> (err_t \<times> 'a api_like) res" where
  "poll_tcp A c s =
     (if c = 0 then Inl Abort
      else
        rbind (continue_op A c s) (\<lambda>s.
        rbind (if nflag NETCONN_FLAG_CHECK_WRITESPACE (netconns s c) then report_writable A c 0 s else Inr s) (\<lambda>s. Inr (ERR_OK, s))))"

definition sent_tcp :: "'a api_like api_env \<Rightarrow> nat \<Rightarrow> u16 \<Rightarrow> 'a api_like \<Rightarrow> (err_t \<times> 'a api_like) res" where
  "sent_tcp A c len s =
     (if c = 0 then Inl Abort
      else rbind (continue_op A c s) (\<lambda>s. rbind (report_writable A c len s) (\<lambda>s. Inr (ERR_OK, s))))"

definition setup_tcp :: "nat \<Rightarrow> 'a api_like \<Rightarrow> 'a api_like res" where
  "setup_tcp c s =
     (let pcb = npcb (netconns s c) in
      rbind (tcp_recv pcb API_CALLBACK (tcp_arg pcb c s)) (\<lambda>s.
      rbind (tcp_sent pcb API_CALLBACK s) (\<lambda>s.
      rbind (tcp_poll pcb API_CALLBACK 4 s) (tcp_err pcb API_CALLBACK))))"

definition do_connected :: "'a api_like api_env \<Rightarrow> nat \<Rightarrow> err_t \<Rightarrow> 'a api_like \<Rightarrow> (err_t \<times> 'a api_like) res" where
  "do_connected A c err s =
     (if c = 0 then Inr (ERR_VAL, s)
      else if nstate (netconns s c) \<noteq> NETCONN_CONNECT then Inl Abort
      else if \<not> (current_msg (netconns s c) \<noteq> 0 \<or> IN_NONBLOCKING_CONNECT (netconns s c)) then Inl Abort
      else
        let m = current_msg (netconns s c); s = (if m \<noteq> 0 then set_msg m (\<lambda>m. m\<lparr>merr := err\<rparr>) s else s) in
        rbind (if ntype (netconns s c) = NETCONN_TCP \<and> err = ERR_OK then setup_tcp c s else Inr s) (\<lambda>s.
        let was_blocking = (\<not> IN_NONBLOCKING_CONNECT (netconns s c));
            s = set_conn c (\<lambda>n. n\<lparr>current_msg := 0, nstate := NETCONN_NONE\<rparr>) (SET_NONBLOCKING_CONNECT c False s);
            s = (if \<not> was_blocking then NETCONN_SET_SAFE_ERR c ERR_OK s else s)
        in
          rbind (API_EVENT A c NETCONN_EVT_SENDPLUS 0 s) (\<lambda>s.
          rbind (if was_blocking then signal_completed c s else Inr s) (\<lambda>s. Inr (ERR_OK, s)))))"

section \<open>Netconns\<close>

definition netconn_alloc :: "'a api_like api_env \<Rightarrow> netconn_type \<Rightarrow> nat \<Rightarrow> 'a api_like \<Rightarrow> (nat \<times> 'a api_like) res" where
  "netconn_alloc A t cb s =
     rbind (pool_get MEMP_NETCONN s) (\<lambda>(c, s).
       if c = 0 then Inr (0, s)
       else if \<not> sem_room A s then Inr (0, pool_put MEMP_NETCONN c s)
       else
         case mbox_room A s of
           None \<Rightarrow> Inr (0, pool_put MEMP_NETCONN c s)
         | Some mb \<Rightarrow>
             Inr (c, set_conn c (\<lambda>_. \<lparr>ntype = t, nstate = NETCONN_NONE, npcb = 0, last_err = ERR_OK, op_completed = Some 0, recvmbox = Some mb,
               acceptmbox = None, nsocket = -1, send_timeout = 0, recv_timeout = 0, recv_bufsize = INT_MAX, recv_avail = 0, nflags = 0,
               write_offset = 0, current_msg = 0, ncallback = cb\<rparr>) s))"

definition netconn_free :: "nat \<Rightarrow> 'a api_like \<Rightarrow> 'a api_like res" where
  "netconn_free c s =
     (if npcb (netconns s c) \<noteq> 0 \<or> recvmbox (netconns s c) \<noteq> None \<or> acceptmbox (netconns s c) \<noteq> None then Inl Abort
      else Inr (pool_put MEMP_NETCONN c (set_conn c (\<lambda>n. n\<lparr>op_completed := None\<rparr>) s)))"

text \<open>The result of the callback for new connections: the new netconn goes into the mailbox of the listening one.\<close>

definition accept_function :: "'a api_like api_env \<Rightarrow> nat \<Rightarrow> nat \<Rightarrow> err_t \<Rightarrow> 'a api_like \<Rightarrow> (err_t \<times> 'a api_like) res" where
  "accept_function A c newpcb err s =
     (if c = 0 then Inl Bad_Deref
      else if acceptmbox (netconns s c) = None then Inr (ERR_VAL, s)
      else
        rbind (netconn_alloc A (ntype (netconns s c)) (ncallback (netconns s c)) s) (\<lambda>(nc, s).
          if nc = 0 then Inr (ERR_MEM, s)
          else
            rbind (setup_tcp nc (set_conn nc (\<lambda>n. n\<lparr>npcb := newpcb\<rparr>) s)) (\<lambda>s.
            rbind (post_accept c nc (set_conn nc (\<lambda>n. n\<lparr>last_err := err\<rparr>) s)) (\<lambda>(e, s).
              if e \<noteq> ERR_OK
              then
                rbind (tcp_recv newpcb 0 (tcp_arg newpcb 0 s)) (\<lambda>s.
                rbind (tcp_sent newpcb 0 s) (\<lambda>s.
                rbind (tcp_poll newpcb 0 4 s) (\<lambda>s.
                rbind (tcp_err newpcb 0 s) (\<lambda>s.
                rbind (netconn_free nc (set_conn nc (\<lambda>n. n\<lparr>npcb := 0, recvmbox := None\<rparr>) s)) (\<lambda>s. Inr (ERR_MEM, s))))))
              else rbind (API_EVENT A c NETCONN_EVT_RCVPLUS 0 s) (\<lambda>s. Inr (ERR_OK, s))))))"

text \<open>All callbacks of this file together, under their number, beside those of others.\<close>

definition netconn_app :: "'a api_like api_env \<Rightarrow> 'a api_like tcp_app" where
  "netconn_app A =
     (err_app A)\<lparr>accept_fn := (\<lambda>fn a pcb e s. if fn = API_CALLBACK then accept_function A a pcb e s else accept_fn (others A) fn a pcb e s),
       sent_fn := (\<lambda>fn a pcb n s. if fn = API_CALLBACK then sent_tcp A a n s else sent_fn (others A) fn a pcb n s),
       recv_fn := (\<lambda>fn a pcb p e s. if fn = API_CALLBACK then recv_tcp A a pcb p e s else recv_fn (others A) fn a pcb p e s),
       connected_fn := (\<lambda>fn a pcb e s. if fn = API_CALLBACK then do_connected A a e s else connected_fn (others A) fn a pcb e s),
       poll_fn := (\<lambda>fn a pcb s. if fn = API_CALLBACK then poll_tcp A a s else poll_fn (others A) fn a pcb s)\<rparr>"

section \<open>Draining\<close>

primrec drain_recv :: "nat \<Rightarrow> 'a api_like api_env \<Rightarrow> nat \<Rightarrow> 'a api_like \<Rightarrow> 'a api_like res" where
  "drain_recv 0 A c s = Inl No_Fuel"
| "drain_recv (Suc fuel) A c s =
     rbind (fetch_box (recvmbox (netconns s c))) (\<lambda>(x, mb).
       let s = set_conn c (\<lambda>n. n\<lparr>recvmbox := Some mb\<rparr>) s in
       case x of
         None \<Rightarrow> Inr s
       | Some m \<Rightarrow>
           rbind
             (if ntype (netconns s c) = NETCONN_TCP
              then
                if m \<noteq> 0
                then
                  rbind
                    (if npcb (netconns s c) \<noteq> 0
                     then tcp_recved (err_app A) (npcb (netconns s c)) (word_of_nat (tot_len (the_pbuf s m))) s else Inr s)
                    (release_pbuf m)
                else Inr s
              else netbuf_delete m s)
             (drain_recv fuel A c))"

text \<open>The connections that wait to be accepted; \<open>drain\<close> is \<^verbatim>\<open>netconn_drain\<close> itself.\<close>

primrec drain_accept ::
    "nat \<Rightarrow> (nat \<Rightarrow> 'a api_like \<Rightarrow> 'a api_like res) \<Rightarrow> 'a api_like api_env \<Rightarrow> nat \<Rightarrow> 'a api_like \<Rightarrow> 'a api_like res" where
  "drain_accept 0 drain A c s = Inl No_Fuel"
| "drain_accept (Suc fuel) drain A c s =
     rbind (fetch_box (acceptmbox (netconns s c))) (\<lambda>(x, mb).
       let s = set_conn c (\<lambda>n. n\<lparr>acceptmbox := Some mb\<rparr>) s in
       case x of
         None \<Rightarrow> Inr s
       | Some nc \<Rightarrow>
           if npcb (netconns s c) \<noteq> 0 \<and> fsm (tpcb s (npcb (netconns s c))) \<noteq> LISTEN then Inl Abort
           else if nc = 0 then Inl Bad_Deref
           else
             rbind (drain nc s) (\<lambda>s.
             rbind
               (if npcb (netconns s nc) \<noteq> 0
                then rbind (tcp_abort (err_app A) (npcb (netconns s nc)) s) (\<lambda>s. Inr (set_conn nc (\<lambda>n. n\<lparr>npcb := 0\<rparr>) s))
                else Inr s) (\<lambda>s.
             rbind (netconn_free nc s) (drain_accept fuel drain A c))))"

text \<open>\<open>depth\<close> bounds the recursion: a connection that waits to be accepted has no such connections of its own.\<close>

primrec drain_conn :: "nat \<Rightarrow> 'a api_like api_env \<Rightarrow> nat \<Rightarrow> 'a api_like \<Rightarrow> 'a api_like res" where
  "drain_conn 0 A c s = Inl No_Fuel"
| "drain_conn (Suc depth) A c s =
     rbind
       (if recvmbox (netconns s c) \<noteq> None
        then rbind (drain_recv MBOX_MAX A c s) (\<lambda>s. Inr (set_conn c (\<lambda>n. n\<lparr>recvmbox := None\<rparr>) s)) else Inr s) (\<lambda>s.
     if acceptmbox (netconns s c) \<noteq> None
     then rbind (drain_accept MBOX_MAX (drain_conn depth A) A c s) (\<lambda>s. Inr (set_conn c (\<lambda>n. n\<lparr>acceptmbox := None\<rparr>) s))
     else Inr s)"

definition netconn_drain :: "'a api_like api_env \<Rightarrow> nat \<Rightarrow> 'a api_like \<Rightarrow> 'a api_like res" where
  "netconn_drain A c s = drain_conn 2 A c s"

section \<open>Requests of the application\<close>

definition pcb_new :: "'a api_like api_env \<Rightarrow> nat \<Rightarrow> 'a api_like \<Rightarrow> 'a api_like res" where
  "pcb_new A m s =
     (let c = mconn (api_msgs s m); fail = (\<lambda>e s. Inr (set_msg m (\<lambda>m. m\<lparr>merr := e\<rparr>) s)) in
      if npcb (netconns s c) \<noteq> 0 then Inl Abort
      else
        case NETCONNTYPE_GROUP (ntype (netconns s c)) of
          NETCONN_RAW \<Rightarrow>
            rbind (raw_new (mproto (api_msgs s m)) s) (\<lambda>(pcb, s).
              let s = set_conn c (\<lambda>n. n\<lparr>npcb := pcb\<rparr>) s in
              if pcb = 0 then fail ERR_MEM s else Inr (raw_recv pcb API_CALLBACK c s))
        | NETCONN_UDP \<Rightarrow>
            rbind (udp_new s) (\<lambda>(pcb, s).
              let s = set_conn c (\<lambda>n. n\<lparr>npcb := pcb\<rparr>) s in
              if pcb = 0 then fail ERR_MEM s
              else
                let s = (if ntype (netconns s c) = NETCONN_UDPNOCHKSUM then set_upcb pcb (\<lambda>u. u\<lparr>uflags := UDP_FLAGS_NOCHKSUM\<rparr>) s else s)
                in Inr (udp_recv pcb API_CALLBACK c s))
        | NETCONN_TCP \<Rightarrow>
            rbind (tcp_new (err_app A) s) (\<lambda>(pcb, s).
              let s = set_conn c (\<lambda>n. n\<lparr>npcb := pcb\<rparr>) s in
              if pcb = 0 then fail ERR_MEM s else setup_tcp c s)
        | _ \<Rightarrow> fail ERR_VAL s)"

definition do_newconn :: "'a api_like api_env \<Rightarrow> nat \<Rightarrow> 'a api_like \<Rightarrow> 'a api_like res" where
  "do_newconn A m s =
     (let s = set_msg m (\<lambda>m. m\<lparr>merr := ERR_OK\<rparr>) s in
      rbind (if npcb (netconns s (mconn (api_msgs s m))) = 0 then pcb_new A m s else Inr s) (TCPIP_APIMSG_ACK m))"

definition do_delconn :: "'a api_like api_env \<Rightarrow> nat \<Rightarrow> 'a api_like \<Rightarrow> 'a api_like res" where
  "do_delconn A m s =
     (let c = mconn (api_msgs s m); n = netconns s c;
          ack = (\<lambda>s. if op_completed (netconns s c) \<noteq> None then signal_completed c s else Inr s)
      in
        if nstate n \<noteq> NETCONN_NONE \<and> nstate n \<noteq> NETCONN_LISTEN \<and> nstate n \<noteq> NETCONN_CONNECT
        then if ntype n \<noteq> NETCONN_TCP then Inl Abort else ack (set_msg m (\<lambda>m. m\<lparr>merr := ERR_INPROGRESS\<rparr>) s)
        else if nstate n = NETCONN_CONNECT \<and> \<not> IN_NONBLOCKING_CONNECT n then Inl Abort
        else
          rbind (netconn_drain A c s) (\<lambda>s.
          let pcb = npcb (netconns s c) in
          if pcb \<noteq> 0 \<and> NETCONNTYPE_GROUP (ntype (netconns s c)) = NETCONN_TCP
          then
            if current_msg (netconns s c) \<noteq> 0 \<or> write_offset (netconns s c) \<noteq> 0 then Inl Abort
            else do_close_internal A c (set_conn c (\<lambda>n. n\<lparr>nstate := NETCONN_CLOSE, current_msg := m\<rparr>) (set_msg m (\<lambda>m. m\<lparr>mshut := NETCONN_SHUT_RDWR\<rparr>) s))
          else
            rbind
              (if pcb = 0 then Inr s
               else
                 rbind
                   (case NETCONNTYPE_GROUP (ntype (netconns s c)) of
                      NETCONN_RAW \<Rightarrow> raw_remove pcb s
                    | NETCONN_UDP \<Rightarrow> udp_remove pcb (set_upcb pcb (\<lambda>u. u\<lparr>urecv_arg := 0\<rparr>) s)
                    | _ \<Rightarrow> Inr s) (\<lambda>s. Inr (set_conn c (\<lambda>n. n\<lparr>npcb := 0\<rparr>) s))) (\<lambda>s.
            rbind (API_EVENT A c NETCONN_EVT_RCVPLUS 0 s) (\<lambda>s.
            rbind (API_EVENT A c NETCONN_EVT_SENDPLUS 0 s) ack))))"

text \<open>The requests that fail when the connection has had a fatal error, and are answered at once.\<close>

definition unless_fatal :: "(nat \<Rightarrow> 'a api_like \<Rightarrow> (err_t \<times> 'a api_like) res) \<Rightarrow> nat \<Rightarrow> 'a api_like \<Rightarrow> 'a api_like res" where
  "unless_fatal f m s =
     (let c = mconn (api_msgs s m) in
      rbind (if ERR_IS_FATAL (last_err (netconns s c)) then Inr (last_err (netconns s c), s) else f c s) (\<lambda>(e, s).
        TCPIP_APIMSG_ACK m (set_msg m (\<lambda>m. m\<lparr>merr := e\<rparr>) s)))"

definition do_bind :: "nat \<Rightarrow> 'a api_like \<Rightarrow> 'a api_like res" where
  "do_bind m s = unless_fatal (\<lambda>c s.
     let pcb = npcb (netconns s c); a = mipaddr (api_msgs s m); port = mport (api_msgs s m) in
     if pcb = 0 then Inr (ERR_VAL, s)
     else
       case NETCONNTYPE_GROUP (ntype (netconns s c)) of
         NETCONN_RAW \<Rightarrow> Inr (raw_bind pcb a s)
       | NETCONN_UDP \<Rightarrow> udp_bind pcb a port s
       | NETCONN_TCP \<Rightarrow> tcp_bind pcb a port s
       | _ \<Rightarrow> Inr (ERR_VAL, s)) m s"

definition do_connect :: "'a api_like api_env \<Rightarrow> nat \<Rightarrow> 'a api_like \<Rightarrow> 'a api_like res" where
  "do_connect A m s =
     (let c = mconn (api_msgs s m); n = netconns s c; pcb = npcb n; a = mipaddr (api_msgs s m); port = mport (api_msgs s m);
          answer = (\<lambda>(e, s). signal_completed c (set_msg m (\<lambda>m. m\<lparr>merr := e\<rparr>) s))
      in
        if pcb = 0 then answer (ERR_CLSD, s)
        else
          case NETCONNTYPE_GROUP (ntype n) of
            NETCONN_RAW \<Rightarrow> answer (raw_connect pcb a s)
          | NETCONN_UDP \<Rightarrow> rbind (udp_connect pcb a port s) answer
          | NETCONN_TCP \<Rightarrow>
              if nstate n \<noteq> NETCONN_NONE then answer (ERR_ISCONN, s)
              else
                rbind (setup_tcp c s) (\<lambda>s.
                rbind (tcp_connect (err_app A) pcb a port API_CALLBACK s) (\<lambda>(e, s).
                  if e \<noteq> ERR_OK then answer (e, s)
                  else
                    let non_blocking = netconn_is_nonblocking (netconns s c);
                        s = SET_NONBLOCKING_CONNECT c non_blocking (set_conn c (\<lambda>n. n\<lparr>nstate := NETCONN_CONNECT\<rparr>) s)
                    in if non_blocking then answer (ERR_INPROGRESS, s)
                       else Inr (set_conn c (\<lambda>n. n\<lparr>current_msg := m\<rparr>) (set_msg m (\<lambda>m. m\<lparr>merr := ERR_OK\<rparr>) s))))
          | _ \<Rightarrow> Inl Abort)"

definition do_disconnect :: "nat \<Rightarrow> 'a api_like \<Rightarrow> 'a api_like res" where
  "do_disconnect m s =
     (let c = mconn (api_msgs s m) in
      if NETCONNTYPE_GROUP (ntype (netconns s c)) = NETCONN_UDP
      then TCPIP_APIMSG_ACK m (set_msg m (\<lambda>m. m\<lparr>merr := ERR_OK\<rparr>) (udp_disconnect (npcb (netconns s c)) s))
      else TCPIP_APIMSG_ACK m (set_msg m (\<lambda>m. m\<lparr>merr := ERR_VAL\<rparr>) s))"

definition do_listen :: "'a api_like api_env \<Rightarrow> nat \<Rightarrow> 'a api_like \<Rightarrow> 'a api_like res" where
  "do_listen A m s = unless_fatal (\<lambda>c s.
     let n = netconns s c in
     if npcb n = 0 then Inr (ERR_CONN, s)
     else if ntype n \<noteq> NETCONN_TCP then Inr (ERR_ARG, s)
     else if nstate n \<noteq> NETCONN_NONE then Inr (ERR_CONN, s)
     else
       rbind (tcp_listen_with_backlog (npcb n) 0xff s) (\<lambda>(lpcb, s).
         if lpcb = 0 then Inr (ERR_MEM, s)
         else
           let s = set_conn c (\<lambda>n. n\<lparr>recvmbox := None\<rparr>) s;
               (e, s) = (if acceptmbox (netconns s c) = None
                 then (case mbox_room A s of
                         None \<Rightarrow> (ERR_MEM, s)
                       | Some mb \<Rightarrow> (ERR_OK, set_conn c (\<lambda>n. n\<lparr>acceptmbox := Some mb\<rparr>) s))
                 else (ERR_OK, s))
           in
             if e = ERR_OK
             then Inr (ERR_OK, tcp_accept lpcb API_CALLBACK (tcp_arg lpcb c (set_conn c (\<lambda>n. n\<lparr>nstate := NETCONN_LISTEN, npcb := lpcb\<rparr>) s)))
             else rbind (tcp_close (err_app A) lpcb s) (\<lambda>(_, s). Inr (e, set_conn c (\<lambda>n. n\<lparr>npcb := 0\<rparr>) s)))) m s"

definition do_send :: "'a api_like api_env \<Rightarrow> nat \<Rightarrow> 'a api_like \<Rightarrow> 'a api_like res" where
  "do_send A m s = unless_fatal (\<lambda>c s.
     let pcb = npcb (netconns s c); b = netbufs s (mnetbuf (api_msgs s m)); link = linkf (others A) in
     if pcb = 0 then Inr (ERR_CONN, s)
     else
       case NETCONNTYPE_GROUP (ntype (netconns s c)) of
         NETCONN_RAW \<Rightarrow> if nb_addr b = IPADDR_ANY then raw_send link pcb (nb_p b) s else raw_sendto link pcb (nb_p b) (nb_addr b) s
       | NETCONN_UDP \<Rightarrow> if nb_addr b = IPADDR_ANY then udp_send link pcb (nb_p b) s else udp_sendto link pcb (nb_p b) (nb_addr b) (nb_port b) s
       | _ \<Rightarrow> Inr (ERR_CONN, s)) m s"

text \<open>\<^verbatim>\<open>tcp_recved\<close> takes at most 65535 bytes at a time.\<close>

function recved_loop :: "'a api_like api_env \<Rightarrow> nat \<Rightarrow> nat \<Rightarrow> 'a api_like \<Rightarrow> 'a api_like res" where
  "recved_loop A pcb remaining s =
     (let recved = min remaining 0xffff in
      rbind (tcp_recved (err_app A) pcb (word_of_nat recved) s) (\<lambda>s.
        if remaining - recved \<noteq> 0 then recved_loop A pcb (remaining - recved) s else Inr s))"
  by pat_completeness auto
termination by (relation "measure (\<lambda>(A, pcb, remaining, s). remaining)") auto

declare recved_loop.simps [simp del]

definition do_recv :: "'a api_like api_env \<Rightarrow> nat \<Rightarrow> 'a api_like \<Rightarrow> 'a api_like res" where
  "do_recv A m s =
     (let c = mconn (api_msgs s m); s = set_msg m (\<lambda>m. m\<lparr>merr := ERR_OK\<rparr>) s; n = netconns s c in
      rbind (if npcb n \<noteq> 0 \<and> ntype n = NETCONN_TCP then recved_loop A (npcb n) (unat (mrlen (api_msgs s m))) s else Inr s)
        (TCPIP_APIMSG_ACK m))"

definition do_write :: "'a api_like api_env \<Rightarrow> nat \<Rightarrow> 'a api_like \<Rightarrow> 'a api_like res" where
  "do_write A m s =
     (let c = mconn (api_msgs s m); n = netconns s c; answer = (\<lambda>e. TCPIP_APIMSG_ACK m (set_msg m (\<lambda>m. m\<lparr>merr := e\<rparr>) s)) in
      if ERR_IS_FATAL (last_err n) then answer (last_err n)
      else if ntype n \<noteq> NETCONN_TCP then answer ERR_VAL
      else if nstate n \<noteq> NETCONN_NONE then answer ERR_INPROGRESS
      else if npcb n = 0 then answer ERR_CONN
      else if current_msg n \<noteq> 0 \<or> write_offset n \<noteq> 0 \<or> mlen (api_msgs s m) = 0 then Inl Abort
      else do_writemore A c (set_conn c (\<lambda>n. n\<lparr>nstate := NETCONN_WRITE, current_msg := m, write_offset := 0\<rparr>) s))"

text \<open>The result with the address and the port that are stored, if any.\<close>

definition do_getaddr :: "nat \<Rightarrow> 'a api_like \<Rightarrow> ((u32 \<times> u16 option) option \<times> 'a api_like) res" where
  "do_getaddr m s =
     (let c = mconn (api_msgs s m); n = netconns s c; pcb = npcb n; loc = mlocal (api_msgs s m);
          answer = (\<lambda>e r. rbind (TCPIP_APIMSG_ACK m (set_msg m (\<lambda>m. m\<lparr>merr := e\<rparr>) s)) (\<lambda>s. Inr (r, s)))
      in
        if pcb = 0 then answer ERR_CONN None
        else
          case NETCONNTYPE_GROUP (ntype n) of
            NETCONN_RAW \<Rightarrow>
              let u = rpcb s pcb in
              if loc then answer ERR_OK (Some (local_ip u, Some (ucast (protocol u)))) else answer ERR_CONN (Some (remote_ip u, None))
          | NETCONN_UDP \<Rightarrow>
              let u = upcb s pcb in
              if loc then answer ERR_OK (Some (local_ip u, Some (local_port u)))
              else if uflags u AND UDP_FLAGS_CONNECTED = 0 then answer ERR_CONN_WARN (Some (remote_ip u, None))
              else answer ERR_OK (Some (remote_ip u, Some (remote_port u)))
          | NETCONN_TCP \<Rightarrow>
              let u = tpcb s pcb in
              answer ERR_OK (Some (if loc then (local_ip u, Some (tlocal_port u)) else (remote_ip u, Some (tremote_port u))))
          | _ \<Rightarrow> Inl Abort)"

definition do_close :: "'a api_like api_env \<Rightarrow> nat \<Rightarrow> 'a api_like \<Rightarrow> 'a api_like res" where
  "do_close A m s =
     (let c = mconn (api_msgs s m); n = netconns s c; shut = mshut (api_msgs s m);
          answer = (\<lambda>e. signal_completed c (set_msg m (\<lambda>m. m\<lparr>merr := e\<rparr>) s))
      in
        if nstate n \<noteq> NETCONN_NONE \<and> nstate n \<noteq> NETCONN_LISTEN
        then if ntype n \<noteq> NETCONN_TCP then Inl Abort else answer ERR_INPROGRESS
        else if npcb n \<noteq> 0 \<and> ntype n = NETCONN_TCP
        then
          if shut \<noteq> NETCONN_SHUT_RDWR \<and> nstate n = NETCONN_LISTEN then answer ERR_CONN
          else
            rbind (if shut AND NETCONN_SHUT_RD \<noteq> 0 then netconn_drain A c s else Inr s) (\<lambda>s.
              if current_msg (netconns s c) \<noteq> 0 \<or> write_offset (netconns s c) \<noteq> 0 then Inl Abort
              else do_close_internal A c (set_conn c (\<lambda>n. n\<lparr>nstate := NETCONN_CLOSE, current_msg := m\<rparr>) s))
        else answer ERR_VAL)"

end
