(* ===== verification/Api_Lib.thy ===== *)
theory Api_Lib
  imports Netconn
begin

text \<open>
  \<^verbatim>\<open>src/src/lwip/api/api_lib.c\<close> and \<^verbatim>\<open>tcpip_apimsg\<close> of \<^verbatim>\<open>tcpip.c\<close>: the part of the sequential interface that runs in the threads of the
  application. A request is a message on the stack of its caller, here at the address \<open>m\<close>. While a thread waits, the TCP/IP thread and the other
  threads run: what they do is the argument \<open>api_threads\<close>, from the posting of a message until it is taken (\<open>before\<close>), until
  the operation on a netconn is completed (\<open>until_done\<close>), and until there is something in one of its mailboxes or the time is over
  (\<open>until_recv\<close>, \<open>until_accept\<close>). A thread that nobody ever wakes is \<open>Blocked\<close>.
\<close>

record 's api_threads =
  before :: "'s \<Rightarrow> 's res"
  until_done :: "nat \<Rightarrow> 's \<Rightarrow> 's res"
  until_recv :: "nat \<Rightarrow> 's \<Rightarrow> 's res"
  until_accept :: "nat \<Rightarrow> 's \<Rightarrow> 's res"

section \<open>Requests\<close>

definition take_completed :: "nat \<Rightarrow> 'a api_like \<Rightarrow> 'a api_like res option" where
  "take_completed c s =
     (case op_completed (netconns s c) of
        None \<Rightarrow> Some (Inl Bad_Deref)
      | Some v \<Rightarrow> (case sys_arch_sem_wait v of None \<Rightarrow> None | Some w \<Rightarrow> Some (Inr (set_conn c (\<lambda>n. n\<lparr>op_completed := Some w\<rparr>) s))))"

definition wait_completed :: "'a api_like api_threads \<Rightarrow> nat \<Rightarrow> 'a api_like \<Rightarrow> 'a api_like res" where
  "wait_completed W c s =
     (case take_completed c s of
        Some r \<Rightarrow> r
      | None \<Rightarrow> rbind (until_done W c s) (\<lambda>s. case take_completed c s of Some r \<Rightarrow> r | None \<Rightarrow> Inl Blocked))"

definition tcpip_apimsg ::
    "'a api_like api_threads \<Rightarrow> (nat \<Rightarrow> 'a api_like \<Rightarrow> 'a api_like res) \<Rightarrow> nat \<Rightarrow> 'a api_like \<Rightarrow> (err_t \<times> 'a api_like) res" where
  "tcpip_apimsg W fn m s =
     (if tcpip_mbox (pb (arp s)) = None then Inr (ERR_VAL, s)
      else
        rbind (before W s) (\<lambda>s.
        rbind (fn m s) (\<lambda>s.
        rbind (wait_completed W (mconn (api_msgs s m)) s) (\<lambda>s. Inr (merr (api_msgs s m), s)))))"

text \<open>A request for a netconn whose result becomes the error of the netconn.\<close>

definition api_request ::
    "'a api_like api_threads \<Rightarrow> (nat \<Rightarrow> 'a api_like \<Rightarrow> 'a api_like res) \<Rightarrow> nat \<Rightarrow> nat \<Rightarrow> (api_msg \<Rightarrow> api_msg) \<Rightarrow> 'a api_like \<Rightarrow> (err_t \<times> 'a api_like) res" where
  "api_request W fn m c f s =
     (if c = 0 then Inl Abort
      else
        rbind (tcpip_apimsg W fn m (set_msg m (\<lambda>x. f (x\<lparr>mconn := c\<rparr>)) s)) (\<lambda>(e, s). Inr (e, NETCONN_SET_SAFE_ERR c e s)))"

section \<open>Creating and deleting\<close>

definition netconn_new_with_proto_and_callback ::
    "'a api_like api_env \<Rightarrow> 'a api_like api_threads \<Rightarrow> nat \<Rightarrow> netconn_type \<Rightarrow> u8 \<Rightarrow> nat \<Rightarrow> 'a api_like \<Rightarrow> (nat \<times> 'a api_like) res" where
  "netconn_new_with_proto_and_callback A W m t proto cb s =
     rbind (netconn_alloc A t cb s) (\<lambda>(c, s).
       if c = 0 then Inr (0, s)
       else
         rbind (tcpip_apimsg W (do_newconn A) m (set_msg m (\<lambda>x. x\<lparr>mconn := c, mproto := proto\<rparr>) s)) (\<lambda>(e, s).
           if e = ERR_OK then Inr (c, s)
           else if npcb (netconns s c) \<noteq> 0 \<or> op_completed (netconns s c) = None \<or> recvmbox (netconns s c) = None \<or> acceptmbox (netconns s c) \<noteq> None
           then Inl Abort
           else Inr (0, pool_put MEMP_NETCONN c s)))"

definition netconn_delete :: "'a api_like api_env \<Rightarrow> 'a api_like api_threads \<Rightarrow> nat \<Rightarrow> nat \<Rightarrow> 'a api_like \<Rightarrow> (err_t \<times> 'a api_like) res" where
  "netconn_delete A W m c s =
     (if c = 0 then Inr (ERR_OK, s)
      else
        rbind (tcpip_apimsg W (do_delconn A) m (set_msg m (\<lambda>x. x\<lparr>mconn := c\<rparr>) s)) (\<lambda>(_, s).
        rbind (netconn_free c s) (\<lambda>s. Inr (ERR_OK, s))))"

section \<open>Addresses and connections\<close>

text \<open>\<^verbatim>\<open>netconn_getaddr\<close>: the pointers are not NULL; the result holds what is stored through them.\<close>

definition netconn_getaddr ::
    "'a api_like api_threads \<Rightarrow> nat \<Rightarrow> nat \<Rightarrow> bool \<Rightarrow> 'a api_like \<Rightarrow> ((err_t \<times> (u32 \<times> u16 option) option) \<times> 'a api_like) res" where
  "netconn_getaddr W m c loc s =
     (if c = 0 then Inl Abort
      else if tcpip_mbox (pb (arp s)) = None then Inr ((ERR_VAL, None), NETCONN_SET_SAFE_ERR c ERR_VAL s)
      else
        rbind (before W (set_msg m (\<lambda>x. x\<lparr>mconn := c, mlocal := loc\<rparr>) s)) (\<lambda>s.
        rbind (do_getaddr m s) (\<lambda>(r, s).
        rbind (wait_completed W c s) (\<lambda>s.
          let e = merr (api_msgs s m) in Inr ((e, r), NETCONN_SET_SAFE_ERR c e s)))))"

definition netconn_bind :: "'a api_like api_threads \<Rightarrow> nat \<Rightarrow> nat \<Rightarrow> u32 option \<Rightarrow> u16 \<Rightarrow> 'a api_like \<Rightarrow> (err_t \<times> 'a api_like) res" where
  "netconn_bind W m c addr port s = api_request W do_bind m c (\<lambda>x. x\<lparr>mipaddr := addr, mport := port\<rparr>) s"

definition netconn_connect ::
    "'a api_like api_env \<Rightarrow> 'a api_like api_threads \<Rightarrow> nat \<Rightarrow> nat \<Rightarrow> u32 option \<Rightarrow> u16 \<Rightarrow> 'a api_like \<Rightarrow> (err_t \<times> 'a api_like) res" where
  "netconn_connect A W m c addr port s = api_request W (do_connect A) m c (\<lambda>x. x\<lparr>mipaddr := addr, mport := port\<rparr>) s"

definition netconn_disconnect :: "'a api_like api_threads \<Rightarrow> nat \<Rightarrow> nat \<Rightarrow> 'a api_like \<Rightarrow> (err_t \<times> 'a api_like) res" where
  "netconn_disconnect W m c s = api_request W do_disconnect m c (\<lambda>x. x) s"

definition netconn_listen_with_backlog ::
    "'a api_like api_env \<Rightarrow> 'a api_like api_threads \<Rightarrow> nat \<Rightarrow> nat \<Rightarrow> u8 \<Rightarrow> 'a api_like \<Rightarrow> (err_t \<times> 'a api_like) res" where
  "netconn_listen_with_backlog A W m c backlog s = api_request W (do_listen A) m c (\<lambda>x. x) s"

section \<open>Waiting for data and connections\<close>

text \<open>\<^verbatim>\<open>sys_arch_mbox_fetch\<close> with a timeout, 0 for none: the message, or None when the time is over.\<close>

definition fetch_recv :: "'a api_like api_threads \<Rightarrow> nat \<Rightarrow> 'a api_like \<Rightarrow> (nat option \<times> 'a api_like) res" where
  "fetch_recv W c s =
     rbind (fetch_box (recvmbox (netconns s c))) (\<lambda>(x, mb).
       if x \<noteq> None then Inr (x, set_conn c (\<lambda>n. n\<lparr>recvmbox := Some mb\<rparr>) s)
       else
         let timeout = recv_timeout (netconns s c) in
         rbind (until_recv W c s) (\<lambda>s.
         rbind (fetch_box (recvmbox (netconns s c))) (\<lambda>(x, mb).
           if x = None \<and> timeout = 0 then Inl Blocked
           else Inr (x, set_conn c (\<lambda>n. n\<lparr>recvmbox := Some mb\<rparr>) s))))"

definition fetch_accept :: "'a api_like api_threads \<Rightarrow> nat \<Rightarrow> 'a api_like \<Rightarrow> (nat option \<times> 'a api_like) res" where
  "fetch_accept W c s =
     rbind (fetch_box (acceptmbox (netconns s c))) (\<lambda>(x, mb).
       if x \<noteq> None then Inr (x, set_conn c (\<lambda>n. n\<lparr>acceptmbox := Some mb\<rparr>) s)
       else
         let timeout = recv_timeout (netconns s c) in
         rbind (until_accept W c s) (\<lambda>s.
         rbind (fetch_box (acceptmbox (netconns s c))) (\<lambda>(x, mb).
           if x = None \<and> timeout = 0 then Inl Blocked
           else Inr (x, set_conn c (\<lambda>n. n\<lparr>acceptmbox := Some mb\<rparr>) s))))"

text \<open>The result with the new netconn, or 0.\<close>

definition netconn_accept :: "'a api_like api_env \<Rightarrow> 'a api_like api_threads \<Rightarrow> nat \<Rightarrow> 'a api_like \<Rightarrow> ((err_t \<times> nat) \<times> 'a api_like) res" where
  "netconn_accept A W c s =
     (if c = 0 \<or> acceptmbox (netconns s c) = None then Inl Abort
      else if ERR_IS_FATAL (last_err (netconns s c)) then Inr ((last_err (netconns s c), 0), s)
      else
        rbind (fetch_accept W c s) (\<lambda>(x, s).
          case x of
            None \<Rightarrow> Inr ((ERR_TIMEOUT, 0), NETCONN_SET_SAFE_ERR c ERR_TIMEOUT s)
          | Some nc \<Rightarrow>
              rbind (API_EVENT A c NETCONN_EVT_RCVMINUS 0 s) (\<lambda>s.
                if nc = 0 then Inr ((ERR_ABRT, 0), NETCONN_SET_SAFE_ERR c ERR_ABRT s) else Inr ((ERR_OK, nc), s))))"

text \<open>The result with the pbuf or the netbuf, or 0.\<close>

definition netconn_recv_data ::
    "'a api_like api_env \<Rightarrow> 'a api_like api_threads \<Rightarrow> nat \<Rightarrow> nat \<Rightarrow> 'a api_like \<Rightarrow> ((err_t \<times> nat) \<times> 'a api_like) res" where
  "netconn_recv_data A W m c s =
     (if c = 0 \<or> recvmbox (netconns s c) = None then Inl Abort
      else if ERR_IS_FATAL (last_err (netconns s c)) then Inr ((last_err (netconns s c), 0), s)
      else
        rbind (fetch_recv W c s) (\<lambda>(x, s).
          case x of
            None \<Rightarrow> Inr ((ERR_TIMEOUT, 0), NETCONN_SET_SAFE_ERR c ERR_TIMEOUT s)
          | Some buf \<Rightarrow>
              let finish = (\<lambda>len s.
                rbind (API_EVENT A c NETCONN_EVT_RCVMINUS (word_of_nat len) (add_avail c (- int len) s)) (\<lambda>s. Inr ((ERR_OK, buf), s)))
              in
                if ntype (netconns s c) = NETCONN_TCP
                then
                  rbind
                    (if \<not> nflag NETCONN_FLAG_NO_AUTO_RECVED (netconns s c) \<or> buf = 0
                     then
                       rbind (tcpip_apimsg W (do_recv A) m (set_msg m (\<lambda>x. x\<lparr>mconn := c,
                           mrlen := (if buf \<noteq> 0 then word_of_nat (tot_len (the_pbuf s buf)) else 1)\<rparr>) s)) (\<lambda>(_, s). Inr s)
                     else Inr s) (\<lambda>s.
                  if buf = 0
                  then rbind (API_EVENT A c NETCONN_EVT_RCVMINUS 0 s) (\<lambda>s. Inr ((ERR_CLSD, 0), NETCONN_SET_SAFE_ERR c ERR_CLSD s))
                  else finish (tot_len (the_pbuf s buf)) s)
                else if buf = 0 then Inl Abort
                else finish (netbuf_len buf s) s))"

definition netconn_recv_tcp_pbuf ::
    "'a api_like api_env \<Rightarrow> 'a api_like api_threads \<Rightarrow> nat \<Rightarrow> nat \<Rightarrow> 'a api_like \<Rightarrow> ((err_t \<times> nat) \<times> 'a api_like) res" where
  "netconn_recv_tcp_pbuf A W m c s =
     (if \<not> (c \<noteq> 0 \<and> ntype (netconns s c) = NETCONN_TCP) then Inl Abort else netconn_recv_data A W m c s)"

definition netconn_recv ::
    "'a api_like api_env \<Rightarrow> 'a api_like api_threads \<Rightarrow> nat \<Rightarrow> nat \<Rightarrow> 'a api_like \<Rightarrow> ((err_t \<times> nat) \<times> 'a api_like) res" where
  "netconn_recv A W m c s =
     (if c = 0 \<or> recvmbox (netconns s c) = None then Inl Abort
      else if ntype (netconns s c) = NETCONN_TCP
      then
        rbind (pool_get MEMP_NETBUF s) (\<lambda>(buf, s).
          if buf = 0 then Inr ((ERR_MEM, 0), NETCONN_SET_SAFE_ERR c ERR_MEM s)
          else
            rbind (netconn_recv_data A W m c s) (\<lambda>((e, p), s).
              if e \<noteq> ERR_OK then Inr ((e, 0), pool_put MEMP_NETBUF buf s)
              else if p = 0 then Inl Abort
              else Inr ((ERR_OK, buf), set_netbuf buf (\<lambda>_. \<lparr>nb_p = p, nb_ptr = p, nb_addr = IPADDR_ANY, nb_port = 0\<rparr>) s)))
      else netconn_recv_data A W m c s)"

definition netconn_recved :: "'a api_like api_env \<Rightarrow> 'a api_like api_threads \<Rightarrow> nat \<Rightarrow> nat \<Rightarrow> u32 \<Rightarrow> 'a api_like \<Rightarrow> 'a api_like res" where
  "netconn_recved A W m c len s =
     (if c \<noteq> 0 \<and> ntype (netconns s c) = NETCONN_TCP \<and> nflag NETCONN_FLAG_NO_AUTO_RECVED (netconns s c)
      then rbind (tcpip_apimsg W (do_recv A) m (set_msg m (\<lambda>x. x\<lparr>mconn := c, mrlen := len\<rparr>) s)) (\<lambda>(_, s). Inr s)
      else Inr s)"

section \<open>Sending\<close>

definition netconn_send :: "'a api_like api_env \<Rightarrow> 'a api_like api_threads \<Rightarrow> nat \<Rightarrow> nat \<Rightarrow> nat \<Rightarrow> 'a api_like \<Rightarrow> (err_t \<times> 'a api_like) res" where
  "netconn_send A W m c buf s = api_request W (do_send A) m c (\<lambda>x. x\<lparr>mnetbuf := buf\<rparr>) s"

definition netconn_sendto ::
    "'a api_like api_env \<Rightarrow> 'a api_like api_threads \<Rightarrow> nat \<Rightarrow> nat \<Rightarrow> nat \<Rightarrow> u32 option \<Rightarrow> u16 \<Rightarrow> 'a api_like \<Rightarrow> (err_t \<times> 'a api_like) res" where
  "netconn_sendto A W m c buf addr port s =
     (if buf \<noteq> 0 then netconn_send A W m c buf (set_netbuf buf (\<lambda>b. b\<lparr>nb_addr := addr_or_any addr, nb_port := port\<rparr>) s) else Inr (ERR_VAL, s))"

text \<open>
  The result with the number that is stored through \<^verbatim>\<open>bytes_written\<close>, if any; \<open>count\<close> says whether that is not NULL.
\<close>

definition netconn_write_partly ::
    "'a api_like api_env \<Rightarrow> 'a api_like api_threads \<Rightarrow> nat \<Rightarrow> nat \<Rightarrow> nat \<Rightarrow> nat \<Rightarrow> u8 \<Rightarrow> bool \<Rightarrow> 'a api_like \<Rightarrow> ((err_t \<times> nat option) \<times> 'a api_like) res" where
  "netconn_write_partly A W m c dataptr sz apiflags count s =
     (if c = 0 then Inl Abort
      else if ntype (netconns s c) \<noteq> NETCONN_TCP then Inl Abort
      else if sz = 0 then Inr ((ERR_OK, None), s)
      else
        let dontblock = (netconn_is_nonblocking (netconns s c) \<or> apiflags AND NETCONN_DONTBLOCK \<noteq> 0) in
        if dontblock \<and> \<not> count then Inr ((ERR_VAL, None), s)
        else
          rbind (api_request W (do_write A) m c (\<lambda>x. x\<lparr>mdataptr := dataptr, mapiflags := apiflags, mlen := sz,
              mtime_started := (if send_timeout (netconns s c) \<noteq> 0 then clock A s else 0)\<rparr>) s) (\<lambda>(e, s).
            Inr ((e, if e = ERR_OK \<and> count
              then Some (if dontblock \<or> send_timeout (netconns s c) \<noteq> 0 then mlen (api_msgs s m) else sz) else None), s)))"

section \<open>Closing\<close>

definition netconn_close_shutdown ::
    "'a api_like api_env \<Rightarrow> 'a api_like api_threads \<Rightarrow> nat \<Rightarrow> nat \<Rightarrow> u8 \<Rightarrow> 'a api_like \<Rightarrow> (err_t \<times> 'a api_like) res" where
  "netconn_close_shutdown A W m c how s = api_request W (do_close A) m c (\<lambda>x. x\<lparr>mshut := how\<rparr>) s"

definition netconn_close :: "'a api_like api_env \<Rightarrow> 'a api_like api_threads \<Rightarrow> nat \<Rightarrow> nat \<Rightarrow> 'a api_like \<Rightarrow> (err_t \<times> 'a api_like) res" where
  "netconn_close A W m c s = netconn_close_shutdown A W m c NETCONN_SHUT_RDWR s"

definition netconn_shutdown ::
    "'a api_like api_env \<Rightarrow> 'a api_like api_threads \<Rightarrow> nat \<Rightarrow> nat \<Rightarrow> bool \<Rightarrow> bool \<Rightarrow> 'a api_like \<Rightarrow> (err_t \<times> 'a api_like) res" where
  "netconn_shutdown A W m c shut_rx shut_tx s =
     netconn_close_shutdown A W m c ((if shut_rx then NETCONN_SHUT_RD else 0) OR (if shut_tx then NETCONN_SHUT_WR else 0)) s"

end
