(* ===== verification/Tcpip.thy ===== *)
theory Tcpip
  imports Api_Lib
begin

text \<open>
  The TCP/IP thread, \<^verbatim>\<open>src/src/lwip/api/tcpip.c\<close>, with \<^verbatim>\<open>netifapi.c\<close> and the requests for names of \<^verbatim>\<open>api_msg.c\<close> and \<^verbatim>\<open>api_lib.c\<close>: here all layers come
  together in one state. The messages in the mailbox are addresses, and a message is found by its address; a message on the stack of a
  thread that waits is one at an address that thread owns. What is outside the stack is the environment \<open>tcpip_env\<close>.
\<close>

section \<open>State\<close>

datatype api_function = Do_newconn | Do_delconn | Do_bind | Do_connect | Do_disconnect | Do_listen | Do_send | Do_recv | Do_write | Do_getaddr | Do_close

text \<open>The functions that are called with \<^verbatim>\<open>tcpip_callback\<close>, by those of this library and by others.\<close>

datatype tcpip_callback_fn = Do_gethostbyname | Pbuf_free_int | Mem_free | Other_function nat

text \<open>
  The function and the arguments of a \<^verbatim>\<open>netifapi_msg\<close>: an interface, its addresses and its initialisation function; its addresses; or a
  function for it, the one that returns nothing and the one that returns an error if it is not NULL.
\<close>

datatype netif_request =
    Do_netif_add nat "u32 option" "u32 option" "u32 option" nat
  | Do_netif_set_addr nat "u32 option" "u32 option" "u32 option"
  | Do_netif_common nat nat "nat option"

datatype tcpip_msg =
    TCPIP_MSG_API api_function nat
  | TCPIP_MSG_INPKT nat nat
  | TCPIP_MSG_NETIFAPI netif_request nat
  | TCPIP_MSG_TIMEOUT u32 sys_timeout_handler nat
  | TCPIP_MSG_UNTIMEOUT sys_timeout_handler nat
  | TCPIP_MSG_CALLBACK tcpip_callback_fn nat
  | TCPIP_MSG_CALLBACK_STATIC tcpip_callback_fn nat

record dns_api_msg =
  q_name :: bytes
  q_addr :: u32
  q_err :: err_t
  q_sem :: sys_sem

record netifapi_msg =
  nf_err :: err_t
  nf_sem :: sys_sem

record tcpip_state = api_state +
  tcpip_msgs :: "nat \<Rightarrow> tcpip_msg"
  dns_msgs :: "nat \<Rightarrow> dns_api_msg"
  netif_msgs :: "nat \<Rightarrow> netifapi_msg"

type_synonym 'a tcpip_like = "'a tcpip_state_scheme"

text \<open>
  The environment: the application's callbacks of the layers (those of TCP are in \<open>netconns_env\<close>), its timeouts and functions, the functions for
  interfaces, and what other threads do while a thread waits: until a message is in the mailbox, until there is room in it, until a request
  for a name or for an interface is answered. \<open>tmr_fuel\<close> bounds the loops of the TCP timers.
\<close>

record 's tcpip_env =
  netconns_env :: "'s api_env"
  udp_fn :: "nat \<Rightarrow> nat \<Rightarrow> nat \<Rightarrow> nat \<Rightarrow> u32 \<Rightarrow> u16 \<Rightarrow> 's \<Rightarrow> 's res"
  raw_fn :: "nat \<Rightarrow> nat \<Rightarrow> nat \<Rightarrow> nat \<Rightarrow> u32 \<Rightarrow> 's \<Rightarrow> (bool \<times> 's) res"
  found_fn :: "nat \<Rightarrow> bytes \<Rightarrow> u32 option \<Rightarrow> nat \<Rightarrow> 's \<Rightarrow> 's res"
  timeout_fn :: "nat \<Rightarrow> nat \<Rightarrow> 's \<Rightarrow> 's res"
  other_fn :: "nat \<Rightarrow> nat \<Rightarrow> 's \<Rightarrow> 's res"
  addr_changed :: tcp_hook
  netif_init_fn :: "nat \<Rightarrow> nat \<Rightarrow> arp_state \<Rightarrow> (err_t \<times> arp_state) res"
  netif_void_fn :: "nat \<Rightarrow> nat \<Rightarrow> arp_state \<Rightarrow> arp_state res"
  netif_errt_fn :: "nat \<Rightarrow> nat \<Rightarrow> arp_state \<Rightarrow> (err_t \<times> arp_state) res"
  until_message :: "'s \<Rightarrow> 's res"
  until_room :: "'s \<Rightarrow> 's res"
  until_found :: "nat \<Rightarrow> 's \<Rightarrow> 's res"
  until_netif :: "nat \<Rightarrow> 's \<Rightarrow> 's res"
  tmr_fuel :: nat

abbreviation link_of :: "'s tcpip_env \<Rightarrow> nat \<Rightarrow> bytes \<Rightarrow> err_t" where
  "link_of E \<equiv> linkf (others (netconns_env E))"

definition set_dns_msg :: "nat \<Rightarrow> (dns_api_msg \<Rightarrow> dns_api_msg) \<Rightarrow> 'a tcpip_like \<Rightarrow> 'a tcpip_like" where
  "set_dns_msg m f s = s\<lparr>dns_msgs := (dns_msgs s)(m := f (dns_msgs s m))\<rparr>"

definition set_netif_msg :: "nat \<Rightarrow> (netifapi_msg \<Rightarrow> netifapi_msg) \<Rightarrow> 'a tcpip_like \<Rightarrow> 'a tcpip_like" where
  "set_netif_msg m f s = s\<lparr>netif_msgs := (netif_msgs s)(m := f (netif_msgs s m))\<rparr>"

definition set_tcpip_msg :: "nat \<Rightarrow> tcpip_msg \<Rightarrow> 'a tcpip_like \<Rightarrow> 'a tcpip_like" where
  "set_tcpip_msg m x s = s\<lparr>tcpip_msgs := (tcpip_msgs s)(m := x)\<rparr>"

definition set_box :: "sys_mbox \<Rightarrow> 'a ip_like \<Rightarrow> 'a ip_like" where
  "set_box mb s = set_arp (set_pbs ((pb (arp s))\<lparr>tcpip_mbox := Some mb\<rparr>) (arp s)) s"

section \<open>Posting messages\<close>

text \<open>\<^verbatim>\<open>sys_mbox_trypost\<close> on the mailbox of the thread, and \<^verbatim>\<open>sys_mbox_post\<close>, which waits until there is room.\<close>

definition try_post :: "nat \<Rightarrow> sys_mbox \<Rightarrow> 'a ip_like \<Rightarrow> (err_t \<times> 'a ip_like) res" where
  "try_post msg mb s =
     (case sys_mbox_trypost msg mb of None \<Rightarrow> Inl Blocked | Some r \<Rightarrow> rbind r (\<lambda>(e, mb). Inr (e, set_box mb s)))"

definition post_round :: "bool \<Rightarrow> nat \<Rightarrow> 'a ip_like \<Rightarrow> (bool \<times> 'a ip_like) res" where
  "post_round again msg s =
     (case tcpip_mbox (pb (arp s)) of
        None \<Rightarrow> Inl Bad_Deref
      | Some mb \<Rightarrow> (case sys_mbox_post again msg mb of None \<Rightarrow> Inl Blocked | Some r \<Rightarrow> rbind r (\<lambda>(d, mb). Inr (d, set_box mb s))))"

definition post_wait :: "'a tcpip_like tcpip_env \<Rightarrow> nat \<Rightarrow> 'a tcpip_like \<Rightarrow> 'a tcpip_like res" where
  "post_wait E msg s =
     rbind (post_round False msg s) (\<lambda>(posted, s).
       if posted then Inr s
       else rbind (until_room E s) (\<lambda>s. rbind (post_round True msg s) (\<lambda>(posted, s). if posted then Inr s else Inl Blocked)))"

definition tcpip_callback_with_block ::
    "'a tcpip_like tcpip_env \<Rightarrow> tcpip_callback_fn \<Rightarrow> nat \<Rightarrow> bool \<Rightarrow> 'a tcpip_like \<Rightarrow> (err_t \<times> 'a tcpip_like) res" where
  "tcpip_callback_with_block E fn ctx block s =
     (case tcpip_mbox (pb (arp s)) of
        None \<Rightarrow> Inr (ERR_VAL, s)
      | Some mb \<Rightarrow>
          rbind (pool_get MEMP_TCPIP_MSG_API s) (\<lambda>(msg, s).
            if msg = 0 then Inr (ERR_MEM, s)
            else
              let s = set_tcpip_msg msg (TCPIP_MSG_CALLBACK fn ctx) s in
              if block then rbind (post_wait E msg s) (\<lambda>s. Inr (ERR_OK, s))
              else
                rbind (try_post msg mb s) (\<lambda>(e, s).
                  if e \<noteq> ERR_OK then Inr (ERR_MEM, pool_put MEMP_TCPIP_MSG_API msg s) else Inr (ERR_OK, s))))"

text \<open>What \<^verbatim>\<open>tcpip_timeout\<close> and \<^verbatim>\<open>tcpip_untimeout\<close> share.\<close>

definition post_request :: "'a tcpip_like tcpip_env \<Rightarrow> tcpip_msg \<Rightarrow> 'a tcpip_like \<Rightarrow> (err_t \<times> 'a tcpip_like) res" where
  "post_request E x s =
     (if tcpip_mbox (pb (arp s)) = None then Inr (ERR_VAL, s)
      else
        rbind (pool_get MEMP_TCPIP_MSG_API s) (\<lambda>(msg, s).
          if msg = 0 then Inr (ERR_MEM, s) else rbind (post_wait E msg (set_tcpip_msg msg x s)) (\<lambda>s. Inr (ERR_OK, s))))"

definition tcpip_timeout :: "'a tcpip_like tcpip_env \<Rightarrow> u32 \<Rightarrow> sys_timeout_handler \<Rightarrow> nat \<Rightarrow> 'a tcpip_like \<Rightarrow> (err_t \<times> 'a tcpip_like) res" where
  "tcpip_timeout E msecs handler a s = post_request E (TCPIP_MSG_TIMEOUT msecs handler a) s"

definition tcpip_untimeout :: "'a tcpip_like tcpip_env \<Rightarrow> sys_timeout_handler \<Rightarrow> nat \<Rightarrow> 'a tcpip_like \<Rightarrow> (err_t \<times> 'a tcpip_like) res" where
  "tcpip_untimeout E handler a s = post_request E (TCPIP_MSG_UNTIMEOUT handler a) s"

definition tcpip_callbackmsg_new :: "tcpip_callback_fn \<Rightarrow> nat \<Rightarrow> 'a tcpip_like \<Rightarrow> (nat \<times> 'a tcpip_like) res" where
  "tcpip_callbackmsg_new fn ctx s =
     rbind (pool_get MEMP_TCPIP_MSG_API s) (\<lambda>(msg, s).
       if msg = 0 then Inr (0, s) else Inr (msg, set_tcpip_msg msg (TCPIP_MSG_CALLBACK_STATIC fn ctx) s))"

definition tcpip_callbackmsg_delete :: "nat \<Rightarrow> 'a tcpip_like \<Rightarrow> 'a tcpip_like" where
  "tcpip_callbackmsg_delete msg s = pool_put MEMP_TCPIP_MSG_API msg s"

definition tcpip_trycallback :: "nat \<Rightarrow> 'a tcpip_like \<Rightarrow> (err_t \<times> 'a tcpip_like) res" where
  "tcpip_trycallback msg s =
     (case tcpip_mbox (pb (arp s)) of None \<Rightarrow> Inr (ERR_VAL, s) | Some mb \<Rightarrow> try_post msg mb s)"

definition pbuf_free_callback :: "'a tcpip_like tcpip_env \<Rightarrow> nat \<Rightarrow> 'a tcpip_like \<Rightarrow> (err_t \<times> 'a tcpip_like) res" where
  "pbuf_free_callback E p s = tcpip_callback_with_block E Pbuf_free_int p False s"

definition mem_free_callback :: "'a tcpip_like tcpip_env \<Rightarrow> nat \<Rightarrow> 'a tcpip_like \<Rightarrow> (err_t \<times> 'a tcpip_like) res" where
  "mem_free_callback E m s = tcpip_callback_with_block E Mem_free m False s"

section \<open>Names\<close>

definition do_dns_found :: "bytes \<Rightarrow> u32 option \<Rightarrow> nat \<Rightarrow> 'a tcpip_like \<Rightarrow> 'a tcpip_like res" where
  "do_dns_found name found_addr m s =
     (if c_string (q_name (dns_msgs s m)) \<noteq> c_string name then Inl Abort
      else
        let s = (case found_addr of
                   None \<Rightarrow> set_dns_msg m (\<lambda>x. x\<lparr>q_err := ERR_VAL\<rparr>) s
                 | Some a \<Rightarrow> set_dns_msg m (\<lambda>x. x\<lparr>q_err := ERR_OK, q_addr := a\<rparr>) s)
        in Inr (set_dns_msg m (\<lambda>x. x\<lparr>q_sem := sys_sem_signal (q_sem x)\<rparr>) s))"

definition dns_callbacks :: "'a tcpip_like tcpip_env \<Rightarrow> nat \<Rightarrow> bytes \<Rightarrow> u32 option \<Rightarrow> nat \<Rightarrow> 'a tcpip_like \<Rightarrow> 'a tcpip_like res" where
  "dns_callbacks E fn name found_addr a s = (if fn = API_CALLBACK then do_dns_found name found_addr a s else found_fn E fn name found_addr a s)"

definition do_gethostbyname :: "'a tcpip_like tcpip_env \<Rightarrow> nat \<Rightarrow> 'a tcpip_like \<Rightarrow> 'a tcpip_like res" where
  "do_gethostbyname E m s =
     rbind (dns_gethostbyname (link_of E) (dns_callbacks E) (Some (q_name (dns_msgs s m))) True API_CALLBACK m s) (\<lambda>((e, ip), s).
       let s = set_dns_msg m (\<lambda>x. x\<lparr>q_err := e, q_addr := (case ip of None \<Rightarrow> q_addr x | Some a \<Rightarrow> a)\<rparr>) s in
       Inr (if e \<noteq> ERR_INPROGRESS then set_dns_msg m (\<lambda>x. x\<lparr>q_sem := sys_sem_signal (q_sem x)\<rparr>) s else s))"

text \<open>\<^verbatim>\<open>netconn_gethostbyname\<close>, whose request is at the address \<open>m\<close>: \<open>err\<close> is not written before the request is answered.\<close>

definition netconn_gethostbyname :: "'a tcpip_like tcpip_env \<Rightarrow> nat \<Rightarrow> bytes option \<Rightarrow> 'a tcpip_like \<Rightarrow> ((err_t \<times> u32) \<times> 'a tcpip_like) res" where
  "netconn_gethostbyname E m name s =
     (case name of
        None \<Rightarrow> Inl Abort
      | Some nm \<Rightarrow>
          if \<not> sem_room (netconns_env E) s then Inr ((ERR_MEM, q_addr (dns_msgs s m)), s)
          else
            rbind (tcpip_callback_with_block E Do_gethostbyname m True
              (set_dns_msg m (\<lambda>x. x\<lparr>q_name := nm, q_err := ERR_OK, q_sem := 0\<rparr>) s)) (\<lambda>(_, s).
            rbind (until_found E m s) (\<lambda>s.
              if sys_arch_sem_wait (q_sem (dns_msgs s m)) = None then Inl Blocked
              else Inr ((q_err (dns_msgs s m), q_addr (dns_msgs s m)), s))))"

section \<open>Interfaces\<close>

definition do_netifapi :: "'a tcpip_like tcpip_env \<Rightarrow> netif_request \<Rightarrow> arp_state \<Rightarrow> (err_t \<times> arp_state) res" where
  "do_netifapi E r a =
     (case r of
        Do_netif_add n ip nm g init \<Rightarrow>
          rbind (netif_add (addr_changed E) (netif_init_fn E init) n ip nm g a) (\<lambda>(added, a). Inr (if added = 0 then ERR_IF else ERR_OK, a))
      | Do_netif_set_addr n ip nm g \<Rightarrow> rbind (netif_set_addr (addr_changed E) n ip nm g a) (\<lambda>a. Inr (ERR_OK, a))
      | Do_netif_common n voidfunc errtfunc \<Rightarrow>
          (case errtfunc of
             Some f \<Rightarrow> netif_errt_fn E f n a
           | None \<Rightarrow> rbind (netif_void_fn E voidfunc n a) (\<lambda>a. Inr (ERR_OK, a))))"

definition run_netifapi :: "'a tcpip_like tcpip_env \<Rightarrow> netif_request \<Rightarrow> nat \<Rightarrow> 'a tcpip_like \<Rightarrow> 'a tcpip_like res" where
  "run_netifapi E r m s =
     rbind (do_netifapi E r (arp s)) (\<lambda>(e, a).
       Inr (set_netif_msg m (\<lambda>x. x\<lparr>nf_err := e, nf_sem := sys_sem_signal (nf_sem x)\<rparr>) (set_arp a s)))"

text \<open>\<^verbatim>\<open>tcpip_netifapi\<close> for a request at the address \<open>m\<close> in a message at the address \<open>msg\<close>.\<close>

definition tcpip_netifapi :: "'a tcpip_like tcpip_env \<Rightarrow> netif_request \<Rightarrow> nat \<Rightarrow> nat \<Rightarrow> 'a tcpip_like \<Rightarrow> (err_t \<times> 'a tcpip_like) res" where
  "tcpip_netifapi E r m msg s =
     (if tcpip_mbox (pb (arp s)) = None then Inr (ERR_VAL, s)
      else if \<not> sem_room (netconns_env E) s then Inr (ERR_MEM, set_netif_msg m (\<lambda>x. x\<lparr>nf_err := ERR_MEM\<rparr>) s)
      else
        rbind (post_wait E msg (set_tcpip_msg msg (TCPIP_MSG_NETIFAPI r m) (set_netif_msg m (\<lambda>x. x\<lparr>nf_sem := 0\<rparr>) s))) (\<lambda>s.
        rbind (until_netif E m s) (\<lambda>s.
          if sys_arch_sem_wait (nf_sem (netif_msgs s m)) = None then Inl Blocked else Inr (nf_err (netif_msgs s m), s))))"

text \<open>The functions of the application return the error of the request, which \<^verbatim>\<open>tcpip_netifapi\<close> writes only if it gets so far.\<close>

definition netifapi :: "'a tcpip_like tcpip_env \<Rightarrow> netif_request \<Rightarrow> nat \<Rightarrow> nat \<Rightarrow> 'a tcpip_like \<Rightarrow> (err_t \<times> 'a tcpip_like) res" where
  "netifapi E r m msg s = rbind (tcpip_netifapi E r m msg s) (\<lambda>(_, s). Inr (nf_err (netif_msgs s m), s))"

definition netifapi_netif_add ::
    "'a tcpip_like tcpip_env \<Rightarrow> nat \<Rightarrow> u32 option \<Rightarrow> u32 option \<Rightarrow> u32 option \<Rightarrow> nat \<Rightarrow> nat \<Rightarrow> nat \<Rightarrow> 'a tcpip_like \<Rightarrow> (err_t \<times> 'a tcpip_like) res" where
  "netifapi_netif_add E n ip nm g init m msg s = netifapi E (Do_netif_add n ip nm g init) m msg s"

definition netifapi_netif_set_addr ::
    "'a tcpip_like tcpip_env \<Rightarrow> nat \<Rightarrow> u32 option \<Rightarrow> u32 option \<Rightarrow> u32 option \<Rightarrow> nat \<Rightarrow> nat \<Rightarrow> 'a tcpip_like \<Rightarrow> (err_t \<times> 'a tcpip_like) res" where
  "netifapi_netif_set_addr E n ip nm g m msg s = netifapi E (Do_netif_set_addr n ip nm g) m msg s"

definition netifapi_netif_common ::
    "'a tcpip_like tcpip_env \<Rightarrow> nat \<Rightarrow> nat \<Rightarrow> nat option \<Rightarrow> nat \<Rightarrow> nat \<Rightarrow> 'a tcpip_like \<Rightarrow> (err_t \<times> 'a tcpip_like) res" where
  "netifapi_netif_common E n voidfunc errtfunc m msg s = netifapi E (Do_netif_common n voidfunc errtfunc) m msg s"

section \<open>Packets\<close>

text \<open>The receivers of datagrams by their numbers.\<close>

definition udp_receivers :: "'a tcpip_like tcpip_env \<Rightarrow> nat \<Rightarrow> nat \<Rightarrow> nat \<Rightarrow> nat \<Rightarrow> u32 \<Rightarrow> u16 \<Rightarrow> 'a tcpip_like \<Rightarrow> 'a tcpip_like res" where
  "udp_receivers E fn a pcb p addr port s =
     (if fn = API_CALLBACK then recv_udp (netconns_env E) a pcb p addr port s
      else if fn = DNS_RECV then dns_recv (dns_callbacks E) p s
      else udp_fn E fn a pcb p addr port s)"

definition raw_receivers :: "'a tcpip_like tcpip_env \<Rightarrow> nat \<Rightarrow> nat \<Rightarrow> nat \<Rightarrow> nat \<Rightarrow> u32 \<Rightarrow> 'a tcpip_like \<Rightarrow> (bool \<times> 'a tcpip_like) res" where
  "raw_receivers E fn a pcb p addr s =
     (if fn = API_CALLBACK then recv_raw (netconns_env E) a pcb p s else raw_fn E fn a pcb p addr s)"

abbreviation NETIF_FLAG_ETHERNET :: u8 where "NETIF_FLAG_ETHERNET \<equiv> 0x40"

text \<open>A packet on its way up through all layers.\<close>

definition ip_packet :: "'a tcpip_like tcpip_env \<Rightarrow> nat \<Rightarrow> nat \<Rightarrow> 'a tcpip_like \<Rightarrow> 'a tcpip_like res" where
  "ip_packet E = ip_input (link_of E) (raw_input (raw_receivers E)) (udp_input (link_of E) (udp_receivers E)) (tcp_input (netconn_app (netconns_env E)))"

definition input_packet :: "'a tcpip_like tcpip_env \<Rightarrow> nat \<Rightarrow> nat \<Rightarrow> 'a tcpip_like \<Rightarrow> 'a tcpip_like res" where
  "input_packet E p inp s =
     (if flags (ifs (arp s) inp) AND (NETIF_FLAG_ETHARP OR NETIF_FLAG_ETHERNET) \<noteq> 0
      then rbind (ethernet_input (link_of E) (ip_packet E) p inp s) (\<lambda>(_, s). Inr s)
      else ip_packet E p inp s)"

section \<open>Timeouts\<close>

text \<open>An operation on the list of timeouts, whose elements come from the same pools as everything else.\<close>

definition on_timers :: "(timers \<Rightarrow> timers res) \<Rightarrow> 'a tcp_like \<Rightarrow> 'a tcp_like res" where
  "on_timers f s =
     rbind (f ((timeouts s)\<lparr>tpools := pools (pb (arp s))\<rparr>)) (\<lambda>t.
       Inr ((set_arp (set_pbs ((pb (arp s))\<lparr>pools := tpools t\<rparr>) (arp s)) s)\<lparr>timeouts := t\<rparr>))"

text \<open>The handlers of \<^verbatim>\<open>timers.c\<close> with what they do to the stack.\<close>

definition run_timeout :: "'a tcpip_like tcpip_env \<Rightarrow> sys_timeout_handler \<Rightarrow> nat \<Rightarrow> 'a tcpip_like \<Rightarrow> 'a tcpip_like res" where
  "run_timeout E handler a s =
     (case handler of
        H_NULL \<Rightarrow> Inr s
      | H_tcpip_tcp \<Rightarrow>
          rbind (tcp_tmr (tmr_fuel E) (netconn_app (netconns_env E)) s) (\<lambda>s.
            if pcb_lists s Active_Pcbs \<noteq> 0 \<or> pcb_lists s Tw_Pcbs \<noteq> 0 then on_timers (sys_timeout 250 H_tcpip_tcp 0) s
            else Inr (s\<lparr>timeouts := (timeouts s)\<lparr>tcpip_tcp_timer_active := False\<rparr>\<rparr>))
      | H_ip_reass \<Rightarrow> rbind (ip_reass_tmr (link_of E) s) (on_timers (sys_timeout 1000 H_ip_reass 0))
      | H_arp \<Rightarrow> rbind (on_arp (etharp_tmr (arp s)) s) (on_timers (sys_timeout 5000 H_arp 0))
      | H_autoip \<Rightarrow> rbind (on_arp (autoip_tmr (link_of E) (addr_changed E) (arp s)) s) (on_timers (sys_timeout 100 H_autoip 0))
      | H_dns \<Rightarrow> rbind (dns_tmr (link_of E) (dns_callbacks E) s) (on_timers (sys_timeout 1000 H_dns 0))
      | H_other k \<Rightarrow> timeout_fn E k a s)"

section \<open>The thread\<close>

primrec api_call :: "'a tcpip_like tcpip_env \<Rightarrow> api_function \<Rightarrow> nat \<Rightarrow> 'a tcpip_like \<Rightarrow> 'a tcpip_like res" where
  "api_call E Do_newconn m s = do_newconn (netconns_env E) m s"
| "api_call E Do_delconn m s = do_delconn (netconns_env E) m s"
| "api_call E Do_bind m s = do_bind m s"
| "api_call E Do_connect m s = do_connect (netconns_env E) m s"
| "api_call E Do_disconnect m s = do_disconnect m s"
| "api_call E Do_listen m s = do_listen (netconns_env E) m s"
| "api_call E Do_send m s = do_send (netconns_env E) m s"
| "api_call E Do_recv m s = do_recv (netconns_env E) m s"
| "api_call E Do_write m s = do_write (netconns_env E) m s"
| "api_call E Do_getaddr m s = rbind (do_getaddr m s) (\<lambda>(_, s). Inr s)"
| "api_call E Do_close m s = do_close (netconns_env E) m s"

primrec callback_call :: "'a tcpip_like tcpip_env \<Rightarrow> tcpip_callback_fn \<Rightarrow> nat \<Rightarrow> 'a tcpip_like \<Rightarrow> 'a tcpip_like res" where
  "callback_call E Do_gethostbyname m s = do_gethostbyname E m s"
| "callback_call E Pbuf_free_int p s = release_pbuf p s"
| "callback_call E Mem_free m s =
     rbind (mem_free m (heap (pb (arp s)))) (\<lambda>h. Inr (set_arp (set_pbs ((pb (arp s))\<lparr>heap := h\<rparr>) (arp s)) s))"
| "callback_call E (Other_function k) a s = other_fn E k a s"

text \<open>One message: the \<^verbatim>\<open>switch\<close> of \<^verbatim>\<open>tcpip_thread\<close>.\<close>

definition handle_message :: "'a tcpip_like tcpip_env \<Rightarrow> nat \<Rightarrow> 'a tcpip_like \<Rightarrow> 'a tcpip_like res" where
  "handle_message E msg s =
     (case tcpip_msgs s msg of
        TCPIP_MSG_API fn m \<Rightarrow> api_call E fn m s
      | TCPIP_MSG_INPKT p inp \<Rightarrow> rbind (input_packet E p inp s) (\<lambda>s. Inr (pool_put MEMP_TCPIP_MSG_INPKT msg s))
      | TCPIP_MSG_NETIFAPI r m \<Rightarrow> run_netifapi E r m s
      | TCPIP_MSG_TIMEOUT msecs handler a \<Rightarrow> rbind (on_timers (sys_timeout msecs handler a) s) (\<lambda>s. Inr (pool_put MEMP_TCPIP_MSG_API msg s))
      | TCPIP_MSG_UNTIMEOUT handler a \<Rightarrow> rbind (on_timers (sys_untimeout handler a) s) (\<lambda>s. Inr (pool_put MEMP_TCPIP_MSG_API msg s))
      | TCPIP_MSG_CALLBACK fn ctx \<Rightarrow> rbind (callback_call E fn ctx s) (\<lambda>s. Inr (pool_put MEMP_TCPIP_MSG_API msg s))
      | TCPIP_MSG_CALLBACK_STATIC fn ctx \<Rightarrow> callback_call E fn ctx s)"

text \<open>Taking the next message; a thread that waits lets the others run.\<close>

definition take_message :: "'a tcpip_like \<Rightarrow> (nat option \<times> 'a tcpip_like) res" where
  "take_message s =
     (case tcpip_mbox (pb (arp s)) of
        None \<Rightarrow> Inl Bad_Deref
      | Some mb \<Rightarrow> (case sys_arch_mbox_tryfetch mb of None \<Rightarrow> Inl Blocked | Some r \<Rightarrow> rbind r (\<lambda>(m, mb). Inr (m, set_box mb s))))"

definition wait_message :: "'a tcpip_like tcpip_env \<Rightarrow> 'a tcpip_like \<Rightarrow> (nat option \<times> 'a tcpip_like) res" where
  "wait_message E s =
     rbind (take_message s) (\<lambda>(m, s). if m \<noteq> None then Inr (m, s) else rbind (until_message E s) take_message)"

text \<open>
  One turn of \<^verbatim>\<open>sys_timeouts_mbox_fetch\<close> on the state of the stack, the way \<open>fetch_pass\<close> describes it for the list of timeouts: \<open>waited\<close> is how long
  the thread has waited for a message, \<open>SYS_ARCH_TIMEOUT\<close> if none came in time. The result is the message, or None when a timeout was run.
\<close>

definition fetch_turn :: "'a tcpip_like tcpip_env \<Rightarrow> u32 \<Rightarrow> 'a tcpip_like \<Rightarrow> (nat option \<times> 'a tcpip_like) res" where
  "fetch_turn E waited s =
     (let t = next_timeout (timeouts s) in
      if t = 0 then rbind (wait_message E s) (\<lambda>(m, s). if m = None then Inl Blocked else Inr (m, s))
      else
        let remaining = time (timeos (timeouts s) t); needed = (if remaining > 0 then waited else SYS_ARCH_TIMEOUT) in
        if needed = SYS_ARCH_TIMEOUT
        then
          let handler = h (timeos (timeouts s) t); a = arg (timeos (timeouts s) t);
              s = pool_put MEMP_SYS_TIMEOUT t (s\<lparr>timeouts := (timeouts s)\<lparr>next_timeout := tnext (timeos (timeouts s) t)\<rparr>\<rparr>)
          in rbind (run_timeout E handler a s) (\<lambda>s. Inr (None, s))
        else
          rbind (wait_message E s) (\<lambda>(m, s).
            if m = None then Inl Blocked
            else
              let T = timeouts s; left = time (timeos T (next_timeout T)) in
              Inr (m, s\<lparr>timeouts := set_timeo (next_timeout T) (\<lambda>x. x\<lparr>time := (if needed < left then left - needed else 0)\<rparr>) T\<rparr>)))"

text \<open>The loop of the thread, for the successive waits \<open>ws\<close>.\<close>

primrec tcpip_thread :: "'a tcpip_like tcpip_env \<Rightarrow> u32 list \<Rightarrow> 'a tcpip_like \<Rightarrow> 'a tcpip_like res" where
  "tcpip_thread E [] s = Inr s"
| "tcpip_thread E (w # ws) s =
     rbind (fetch_turn E w s) (\<lambda>(m, s).
     rbind (case m of None \<Rightarrow> Inr s | Some msg \<Rightarrow> handle_message E msg s) (tcpip_thread E ws))"

end
