(* ===== verification/Netconn_Life.thy ===== *)
theory Netconn_Life
  imports Api_Lib Udp_Life
begin

text \<open>
  What the sequential interface guarantees, and where it fails: packets as applications read them, datagrams on their way
  to an application, and requests that are never answered or stop the process.
\<close>

section \<open>Fields\<close>

lemma set_conn_fields [simp]:
  "netconns (set_conn c f s) = (netconns s)(c := f (netconns s c))" "api_msgs (set_conn c f s) = api_msgs s"
  "tpcb (set_conn c f s) = tpcb s" "arp (set_conn c f s) = arp s" "netbufs (set_conn c f s) = netbufs s"
  by (simp_all add: set_conn_def)

lemma set_msg_fields [simp]:
  "api_msgs (set_msg m f s) = (api_msgs s)(m := f (api_msgs s m))" "netconns (set_msg m f s) = netconns s"
  "tpcb (set_msg m f s) = tpcb s" "arp (set_msg m f s) = arp s" "netbufs (set_msg m f s) = netbufs s"
  by (simp_all add: set_msg_def)

lemma api_set_tpcb [simp]:
  "netconns (set_tpcb p f s) = netconns s" "api_msgs (set_tpcb p f s) = api_msgs s" "tpcb (set_tpcb p f s) = (tpcb s)(p := f (tpcb s p))"
  by (simp_all add: set_tpcb_def)

section \<open>A write that times out\<close>

text \<open>The connection \<open>c\<close> has sent \<open>n\<close> bytes of the message \<open>m\<close>, and some are left.\<close>

definition writing :: "'a api_like \<Rightarrow> nat \<Rightarrow> nat \<Rightarrow> nat \<Rightarrow> bool" where
  "writing s c m n \<longleftrightarrow> c \<noteq> 0 \<and> m \<noteq> 0 \<and> ntype (netconns s c) = NETCONN_TCP \<and> nstate (netconns s c) = NETCONN_WRITE \<and> npcb (netconns s c) \<noteq> 0 \<and>
     current_msg (netconns s c) = m \<and> write_offset (netconns s c) = n \<and> n < mlen (api_msgs s m) \<and>
     \<not> ERR_IS_FATAL (last_err (netconns s c)) \<and> op_completed (netconns s c) = Some 0"

text \<open>
  C38. A write with a timeout (\<^verbatim>\<open>SO_SNDTIMEO\<close>) that expires when some bytes are sent is answered as it should be, with the number of bytes sent. But the
  connection keeps its offset into the message: the next write, and the next shutdown for writing, stop the whole process.
\<close>

theorem write_timeout_flaw:
  assumes w: "writing s c m n" "0 < n" and expired: "write_expired A c s"
    and request: "mconn x = c" "mlen x \<noteq> 0" "mshut x = NETCONN_SHUT_WR"
  shows "\<exists>s'. do_writemore A c s = Inr s' \<and> merr (api_msgs s' m) = ERR_OK \<and> mlen (api_msgs s' m) = n \<and> op_completed (netconns s' c) = Some 1 \<and>
    do_write A m' (set_msg m' (\<lambda>_. x) s') = Inl Abort \<and> do_close A m' (set_msg m' (\<lambda>_. x) s') = Inl Abort"
proof -
  define s' where "s' = set_conn c (\<lambda>k. k\<lparr>current_msg := 0, nstate := NETCONN_NONE, op_completed := Some 1\<rparr>)
    (set_msg m (\<lambda>k. k\<lparr>mlen := n, merr := ERR_OK\<rparr>) s)"
  have "do_writemore A c s = Inr s'"
    using assms by (simp add: do_writemore_def writing_def s'_def signal_completed_def set_conn_def set_msg_def sys_sem_signal_def)
  moreover have "do_write A m' (set_msg m' (\<lambda>_. x) s') = Inl Abort" "do_close A m' (set_msg m' (\<lambda>_. x) s') = Inl Abort"
    using assms by (simp_all add: writing_def do_write_def do_close_def s'_def)
  ultimately show ?thesis using assms by (simp add: s'_def)
qed

text \<open>A connection and its message in a state where nothing else matters.\<close>

definition idle_netconn :: netconn where
  "idle_netconn = \<lparr>ntype = NETCONN_TCP, nstate = NETCONN_NONE, npcb = 100, last_err = ERR_OK, op_completed = Some 0, recvmbox = None, acceptmbox = None,
     nsocket = -1, send_timeout = 0, recv_timeout = 0, recv_bufsize = INT_MAX, recv_avail = 0, nflags = 0, write_offset = 0, current_msg = 0, ncallback = 0\<rparr>"

definition idle_msg :: api_msg where
  "idle_msg = \<lparr>mconn = 500, merr = ERR_OK, mnetbuf = 0, mproto = 0, mipaddr = None, mport = 0, mlocal = False, mdataptr = 0, mlen = 0, mapiflags = 0,
     mtime_started = 0, mrlen = 0, mshut = NETCONN_SHUT_WR\<rparr>"

theorem write_timeout_witness:
  "\<exists>(A :: api_state api_env) s s'. do_writemore A 500 s = Inr s' \<and> merr (api_msgs s' 600) = ERR_OK \<and>
     do_write A 700 (set_msg 700 (\<lambda>_. idle_msg\<lparr>mlen := 10\<rparr>) s') = Inl Abort"
proof -
  define A where "A = (undefined :: api_state api_env)\<lparr>clock := (\<lambda>_. 2000)\<rparr>"
  define s where "s = (undefined :: api_state)\<lparr>
    netconns := (\<lambda>_. idle_netconn\<lparr>nstate := NETCONN_WRITE, write_offset := 100, current_msg := 600, send_timeout := 1000\<rparr>),
    api_msgs := (\<lambda>_. idle_msg\<lparr>mlen := 300\<rparr>)\<rparr>"
  have w: "writing s 500 600 100" "write_expired A 500 s"
    by (simp_all add: s_def A_def idle_netconn_def idle_msg_def writing_def write_expired_def ERR_IS_FATAL_def)
  show ?thesis using write_timeout_flaw [OF w(1) _ w(2), of "idle_msg\<lparr>mlen := 10\<rparr>" 700] by (auto simp: idle_msg_def)
qed

section \<open>Shutting down twice\<close>

text \<open>The application waits for the answer to the message \<open>m\<close>, a shutdown of the sending side of \<open>c\<close>.\<close>

definition waiting :: "'a api_like \<Rightarrow> nat \<Rightarrow> nat \<Rightarrow> bool" where
  "waiting s c m \<longleftrightarrow> nstate (netconns s c) = NETCONN_CLOSE \<and> current_msg (netconns s c) = m \<and> op_completed (netconns s c) = Some 0 \<and>
     mconn (api_msgs s m) = c \<and> mshut (api_msgs s m) = NETCONN_SHUT_WR \<and> ntype (netconns s c) = NETCONN_TCP"

text \<open>The PCB of \<open>c\<close> is in a state in which its side is already closed.\<close>

definition half_closed :: "'a api_like \<Rightarrow> nat \<Rightarrow> bool" where
  "half_closed s c \<longleftrightarrow> npcb (netconns s c) \<noteq> 0 \<and> fsm (tpcb s (npcb (netconns s c))) \<notin> {LISTEN, SYN_RCVD, ESTABLISHED, CLOSE_WAIT}"

text \<open>What the TCP/IP thread does to the connection on its own: \<^verbatim>\<open>True\<close> a poll, \<^verbatim>\<open>False\<close> an acknowledgement of data.\<close>

primrec tcp_calls :: "bool list \<Rightarrow> 'a api_like api_env \<Rightarrow> nat \<Rightarrow> 'a api_like \<Rightarrow> 'a api_like res" where
  "tcp_calls [] A c s = Inr s"
| "tcp_calls (b # bs) A c s = rbind (if b then poll_tcp A c s else sent_tcp A c 1 s) (\<lambda>(_, s). tcp_calls bs A c s)"

definition no_event :: "'a api_like api_env \<Rightarrow> bool" where
  "no_event A \<longleftrightarrow> (\<forall>cb c e l s s'. event A cb c e l s = Inr s' \<longrightarrow> s' = s) \<and> (\<forall>cb c e l s. \<exists>s'. event A cb c e l s = Inr s')"

lemma API_EVENT_none: "no_event A \<Longrightarrow> API_EVENT A c e l s = Inr s"
  unfolding API_EVENT_def no_event_def by metis

lemma close_internal_waits:
  assumes "waiting s c m" "half_closed s c" "c \<noteq> 0" "m \<noteq> 0"
  shows "\<exists>s'. do_close_internal A c s = Inr s' \<and> waiting s' c m \<and> half_closed s' c"
  using assms
  by (auto simp: do_close_internal_def waiting_def half_closed_def Let_def tcp_sent_def tcp_shutdown_def restore_callbacks_def tcp_poll_def tcp_err_def tcp_arg_def)

lemma report_waits:
  assumes "waiting s c m" "half_closed s c" "no_event A"
  shows "\<exists>s'. report_writable A c len s = Inr s' \<and> waiting s' c m \<and> half_closed s' c"
  using assms by (auto simp: report_writable_def API_EVENT_none waiting_def half_closed_def Let_def)

lemma call_waits:
  assumes "waiting s c m" "half_closed s c" "c \<noteq> 0" "m \<noteq> 0" "no_event A"
  shows "\<exists>s'. (if b then poll_tcp A c s else sent_tcp A c 1 s) = Inr (ERR_OK, s') \<and> waiting s' c m \<and> half_closed s' c"
proof -
  obtain s1 where s1: "do_close_internal A c s = Inr s1" "waiting s1 c m" "half_closed s1 c" using close_internal_waits assms by blast
  have "continue_op A c s = Inr s1" using s1(1) assms(1) by (simp add: continue_op_def waiting_def)
  then show ?thesis using assms(3) s1(2,3) report_waits [OF s1(2,3) assms(5)] by (auto simp: poll_tcp_def sent_tcp_def)
qed

lemma calls_wait:
  assumes "waiting s c m" "half_closed s c" "c \<noteq> 0" "m \<noteq> 0" "no_event A"
  shows "\<exists>s'. tcp_calls bs A c s = Inr s' \<and> waiting s' c m"
  using assms(1,2)
proof (induction bs arbitrary: s)
  case (Cons b bs)
  obtain s1 where "(if b then poll_tcp A c s else sent_tcp A c 1 s) = Inr (ERR_OK, s1)" "waiting s1 c m" "half_closed s1 c"
    using call_waits [OF Cons.prems assms(3-5)] by blast
  then show ?case using Cons.IH [of s1] by simp
qed simp



section \<open>Mailboxes of a netconn\<close>

text \<open>The mailbox is in order, and its counters have room for \<open>n\<close> more messages.\<close>

definition good_box :: "int \<Rightarrow> sys_mbox \<Rightarrow> bool" where
  "good_box n mb \<longleftrightarrow> mbox_ok mb \<and> mbox_range n mb \<and> 0 \<le> n"

lemma post_box_spec:
  assumes "good_box 1 mb"
  shows "if length (mbox_queue mb) = 127 then post_box msg (Some mb) = Inr (ERR_MEM, mb)
    else \<exists>mb'. post_box msg (Some mb) = Inr (ERR_OK, mb') \<and> good_box 0 mb' \<and> mbox_queue mb' = mbox_queue mb @ [msg]"
proof -
  have ok: "mbox_ok mb" and range: "mb_last mb + 1 + 128 < 2147483648" "wait_send mb + 1 < 2147483648"
    using assms by (auto simp: good_box_def mbox_range_def)
  have full: "mbox_full mb = Inr (length (mbox_queue mb) = 127)"
    using ok range by (auto simp: mbox_full_def mbox_queue_length mbox_ok_def)
  have "mutex mb = 1" using ok by (rule mbox_ok_mutex)
  then have post: "sys_mbox_trypost msg mb = Some (if length (mbox_queue mb) = 127 then Inr (ERR_MEM, mb)
      else rbind (mbox_enqueue msg mb) (\<lambda>m'. Inr (ERR_OK, m'\<lparr>mutex := 1\<rparr>)))"
    by (cases "mbox_enqueue msg mb") (simp_all add: sys_mbox_trypost_def mutex_cases full mbox_enqueue_mutex)
  show ?thesis
  proof (cases "length (mbox_queue mb) = 127")
    case False
    obtain m' where m': "mbox_enqueue msg mb = Inr m'" "mb_last m' = mb_last mb + 1" "wait_send m' = wait_send mb"
      using range by (auto simp: mbox_enqueue_def int_incr_def Let_def)
    have e: "put_effect msg mb m'" "mutex m' = 1" using put_effect_enqueue [OF ok _ m'(1)] full False by auto
    have "post_box msg (Some mb) = Inr (ERR_OK, m')" using False post m'(1) e(2) by (simp add: post_box_def)
    moreover have "good_box 0 m'" using e(1) m'(2,3) range by (simp add: good_box_def put_effect_def mbox_range_def)
    ultimately show ?thesis using False e(1) by (auto simp: put_effect_def)
  qed (simp add: post_box_def post)
qed

lemma fetch_box_spec:
  assumes "good_box 0 mb" "mbox_queue mb = q # qs"
  shows "\<exists>mb'. fetch_box (Some mb) = Inr (Some q, mb') \<and> mbox_queue mb' = qs"
proof -
  have ok: "mbox_ok mb" and range: "mb_last mb + 128 < 2147483648" using assms(1) by (auto simp: good_box_def mbox_range_def)
  have "mb_first mb \<noteq> mb_last mb" using assms(2) mbox_queue_empty [OF ok] by auto
  then have "\<exists>r. sys_arch_mbox_tryfetch mb = Some (Inr r)"
    using ok range unfolding sys_arch_mbox_tryfetch_def mutex_cases [OF mbox_ok_mutex [OF ok]]
    by (simp add: mbox_dequeue_def int_incr_def mbox_ok_def Let_def)
  then obtain r where r: "sys_arch_mbox_tryfetch mb = Some (Inr r)" by blast
  obtain x mb' where x: "r = (x, mb')" by (cases r)
  then show ?thesis using fetch_spec [OF ok, of x mb'] r assms(2) by (auto simp: fetch_box_def)
qed

section \<open>Datagrams\<close>

lemma solid_more:
  assumes "solid sl b ps" "\<And>i. taken sl (pools b) i \<subseteq> taken sl pl i"
  shows "solid sl (b\<lparr>pools := pl\<rparr>) ps"
  using assms unfolding solid_def owned_def is_custom_def by (auto split: option.splits dest: subsetD)

lemma set_netbuf_fields [simp]: "netbufs (set_netbuf b f s) = (netbufs s)(b := f (netbufs s b))" "arp (set_netbuf b f s) = arp s"
  by (simp_all add: set_netbuf_def)

lemma netbuf_fields [simp]:
  "netconns (set_netbuf b f s) = netconns s" "api_msgs (set_netbuf b f s) = api_msgs s"
  "netbufs (set_arp a s) = netbufs s" "netconns (set_arp a s) = netconns s" "api_msgs (set_arp a s) = api_msgs s" "arp (set_arp a s) = a"
  by (simp_all add: set_netbuf_def set_arp_def)

lemma pool_put_fields [simp]:
  "netconns (pool_put i m s) = netconns s" "arp (pool_put i m (set_netbuf b f s)) = arp (pool_put i m s)"
  by (simp_all add: pool_put_def)

text \<open>The messages in the mailbox of a connection, oldest first.\<close>

definition received :: "'a api_like \<Rightarrow> nat \<Rightarrow> nat list" where
  "received s c = (case recvmbox (netconns s c) of None \<Rightarrow> [] | Some mb \<Rightarrow> mbox_queue mb)"

text \<open>Is there room for a datagram of \<open>n\<close> bytes?\<close>

definition has_room :: "(memp_t \<Rightarrow> nat list) \<Rightarrow> 'a api_like \<Rightarrow> nat \<Rightarrow> nat \<Rightarrow> bool" where
  "has_room sl s c n \<longleftrightarrow> recv_avail (netconns s c) + int n \<le> recv_bufsize (netconns s c) \<and>
     card (taken sl (pools (pb (arp s))) MEMP_NETBUF) < 2 \<and> length (received s c) < 127"

lemma released_conns: "release_pbuf p s = Inr s' \<Longrightarrow> netconns s' = netconns s"
  by (auto simp: release_pbuf_def on_arp_def rbind_def set_arp_def split: sum.splits)

lemma queue_bound: "mbox_ok mb \<Longrightarrow> length (mbox_queue mb) \<le> 127"
  by (simp add: mbox_queue_length) (simp add: mbox_ok_def; arith)

lemma content_pools [simp]: "content (b\<lparr>pools := x\<rparr>) qs = content b qs"
  by (simp add: content_def pbuf_data_def [abs_def])

lemma packet_pools [simp]: "packet (b\<lparr>pools := x\<rparr>) p ps = packet b p ps"
proof -
  have "tot_ok (b\<lparr>pools := x\<rparr>) ps = tot_ok b ps" by (induction ps) simp_all
  then show ?thesis by (simp add: packet_def chain_def)
qed

text \<open>A netbuf that was just taken from its pool is deleted with the packet in it.\<close>

lemma dropped_netbuf:
  assumes mem: "mem_ok sl b" "packet b p ps" "solid sl b ps"
    and st: "memp_ok sl st" "x \<noteq> 0" "\<forall>i. x \<notin> taken sl (pools b) i" "taken sl st = (taken sl (pools b))(MEMP_NETBUF := insert x (taken sl (pools b) MEMP_NETBUF))"
    and s: "pb (arp s) = b\<lparr>pools := st\<rparr>"
  shows "\<exists>s'. release_pbuf p s = Inr s' \<and> netconns s' = netconns s \<and> released sl b ps (pb (arp (pool_put MEMP_NETBUF x s')))"
proof -
  have "mem_ok sl (pb (arp s))" "packet (pb (arp s)) p ps" "solid sl (pb (arp s)) ps"
    using mem st(1) solid_more [OF mem(3), of st] by (simp_all add: s mem_ok_def st(4) subset_insertI)
  then obtain s' where s': "release_pbuf p s = Inr s'" "released sl (b\<lparr>pools := st\<rparr>) ps (pb (arp s'))" using release_released [of sl s p ps] s by auto
  let ?b' = "pb (arp s')"
  have t: "taken sl (pools ?b') = pool_minus sl (b\<lparr>pools := st\<rparr>) ps" and ok: "memp_ok sl (pools ?b')" "heap_ok (heap ?b')"
    using s'(2) by (simp_all add: released_def mem_ok_def)
  have "pool_of ty \<noteq> Some MEMP_NETBUF" for ty by (simp add: pool_of_def split: pbuf_type.split)
  then have x: "x \<in> taken sl (pools ?b') MEMP_NETBUF" by (simp add: t pool_minus_def st(4))
  have "taken sl (memp_free MEMP_NETBUF x (pools ?b')) = pool_minus sl b ps"
    using memp.put_law [OF ok(1) x] st(3) by (auto simp: t fun_eq_iff pool_minus_def st(4))
  then have "released sl b ps (pb (arp (pool_put MEMP_NETBUF x s')))"
    using memp.put_law [OF ok(1) x] s'(2) ok(2) by (simp add: released_def mem_ok_def pool_put_def set_arp_def set_pbs_def)
  then show ?thesis using s'(1) released_conns by blast
qed

lemma netconn_recv_head:
  assumes "no_event A" "c \<noteq> 0" "recvmbox (netconns s c) = Some mb" "good_box 0 mb" "received s c \<noteq> []" "0 \<notin> set (received s c)"
    "ntype (netconns s c) \<noteq> NETCONN_TCP" "\<not> ERR_IS_FATAL (last_err (netconns s c))"
  shows "\<exists>s''. netconn_recv A W m c s = Inr ((ERR_OK, hd (received s c)), s'') \<and> received s'' c = tl (received s c)"
proof -
  obtain q qs where q: "mbox_queue mb = q # qs" using assms(3,5) by (cases "mbox_queue mb") (auto simp: received_def)
  obtain mb' where "fetch_box (Some mb) = Inr (Some q, mb')" "mbox_queue mb' = qs" using fetch_box_spec [OF assms(4) q] by blast
  then show ?thesis
    using assms q by (simp add: netconn_recv_def netconn_recv_data_def fetch_recv_def API_EVENT_none received_def add_avail_def Let_def)
qed

text \<open>
  C14. A datagram for a UDP connection of the sequential interface goes to the end of its mailbox, in a netbuf that holds the packet, the
  address and the port of the sender, if the receive buffer, the netbufs and the mailbox have room; if not, all its memory is given back, with the netbuf,
  and the mailbox stays as it is. What is received first is read first.
\<close>

theorem udp_datagram_delivered:
  assumes mem: "mem_ok sl (pb (arp s))" "packet (pb (arp s)) p ps" "solid sl (pb (arp s)) ps"
    and conn: "c \<noteq> 0" "pcb \<noteq> 0" "npcb (netconns s c) = pcb" "recvmbox (netconns s c) = Some mb" "good_box 1 mb"
    and A: "no_event A"
  shows "\<exists>s'. recv_udp A c pcb p addr port s = Inr s' \<and>
    (if has_room sl s c (length (content (pb (arp s)) ps))
     then \<exists>b. received s' c = received s c @ [b] \<and> netbufs s' b = \<lparr>nb_p = p, nb_ptr = p, nb_addr = addr, nb_port = port\<rparr> \<and>
       (\<forall>i. b \<notin> taken sl (pools (pb (arp s))) i) \<and> content (pb (arp s')) ps = content (pb (arp s)) ps \<and>
       (ntype (netconns s c) \<noteq> NETCONN_TCP \<and> \<not> ERR_IS_FATAL (last_err (netconns s c)) \<and> 0 \<notin> set (received s' c) \<longrightarrow>
         (\<exists>s''. netconn_recv A W m c s' = Inr ((ERR_OK, hd (received s' c)), s'') \<and> received s'' c = tl (received s' c)))
     else received s' c = received s c \<and> released sl (pb (arp s)) ps (pb (arp s')))"
proof -
  let ?b = "pb (arp s)"
  let ?room = "has_room sl s c (length (content ?b ps))"
  have p: "p \<noteq> 0" "tot_len (the_pbuf s p) = length (content ?b ps)"
    using mem(2) by (cases ps; auto simp: packet_def chain_def the_pbuf_def)+
  have here: "received s c = mbox_queue mb" using conn(4) by (simp add: received_def)
  have drop: ?thesis if "recv_udp A c pcb p addr port s = release_pbuf p s" "\<not> ?room"
    using release_released [OF mem] that released_conns [of p s] by (auto simp: received_def)
  show ?thesis
  proof (cases "recv_avail (netconns s c) + int (length (content ?b ps)) > recv_bufsize (netconns s c)")
    case True
    then show ?thesis by (intro drop) (use conn p in \<open>simp_all add: recv_udp_def has_room_def\<close>)
  next
    case fits: False
    have ok: "memp_ok sl (pools ?b)" using mem(1) by (simp add: mem_ok_def)
    have valid: "MEMP_NETBUF \<noteq> MEMP_MAX" by simp
    consider (none) "memp_malloc MEMP_NETBUF (pools ?b) = Inr (0, pools ?b)" "card (taken sl (pools ?b) MEMP_NETBUF) = 2"
      | (some) x st where "memp_malloc MEMP_NETBUF (pools ?b) = Inr (x, st)" "memp_ok sl st" "x \<noteq> 0" "\<forall>i. x \<notin> taken sl (pools ?b) i"
          "taken sl st = (taken sl (pools ?b))(MEMP_NETBUF := insert x (taken sl (pools ?b) MEMP_NETBUF))" "card (taken sl (pools ?b) MEMP_NETBUF) < 2"
      using memp.get_cases [OF ok valid] by (metis memp_num.simps(8))
    then show ?thesis
    proof cases
      case none
      have "set_arp (set_pbs (?b\<lparr>pools := pools ?b\<rparr>) (arp s)) s = s" by (simp add: set_arp_def set_pbs_def)
      then show ?thesis using none fits by (intro drop) (use conn p in \<open>simp_all add: recv_udp_def pool_get_def has_room_def\<close>)
    next
      case (some x st)
      define s1 where "s1 = set_netbuf x (\<lambda>_. \<lparr>nb_p = p, nb_ptr = p, nb_addr = addr, nb_port = port\<rparr>) (set_arp (set_pbs (?b\<lparr>pools := st\<rparr>) (arp s)) s)"
      have run: "recv_udp A c pcb p addr port s = post_netbuf A c x (word_of_nat (length (content ?b ps))) s1"
        using conn p fits some by (simp add: recv_udp_def pool_get_def s1_def the_pbuf_def set_pbs_def)
      show ?thesis
      proof (cases "length (mbox_queue mb) = 127")
        case True
        then have room: "\<not> ?room" by (simp add: has_room_def here)
        define s2 where "s2 = set_conn c (\<lambda>n. n\<lparr>recvmbox := Some mb\<rparr>) s1"
        have "post_recv c x s1 = Inr (ERR_MEM, s2)"
          using post_box_spec [OF conn(5), of x] True conn(4) by (simp add: post_recv_def s2_def s1_def)
        then have "recv_udp A c pcb p addr port s = netbuf_delete x s2" by (simp add: run post_netbuf_def)
        moreover have "nb_p (netbufs s2 x) = p" "nb_ptr (netbufs s2 x) = p" "pb (arp s2) = ?b\<lparr>pools := st\<rparr>"
          by (simp_all add: s2_def s1_def set_pbs_def)
        moreover have "received s2 c = received s c" by (simp add: conn(4) received_def s2_def s1_def)
        ultimately show ?thesis
          using dropped_netbuf [OF mem some(2,3,4,5), of s2] p(1) some(3) room
          by (auto simp: received_def netbuf_delete_def)
      next
        case False
        have "length (mbox_queue mb) < 127" using False queue_bound [of mb] conn(5) by (auto simp: good_box_def)
        then have room: ?room using fits some(6) by (simp add: has_room_def here)
        obtain mb' where mb': "post_box x (Some mb) = Inr (ERR_OK, mb')" "good_box 0 mb'" "mbox_queue mb' = mbox_queue mb @ [x]"
          using post_box_spec [OF conn(5), of x] False by auto
        define s2 where "s2 = add_avail c (int (unat (word_of_nat (length (content ?b ps)) :: u16))) (set_conn c (\<lambda>n. n\<lparr>recvmbox := Some mb'\<rparr>) s1)"
        have "post_netbuf A c x (word_of_nat (length (content ?b ps))) s1 = Inr s2"
          using mb'(1) conn(4) by (simp add: post_netbuf_def post_recv_def s1_def s2_def API_EVENT_none [OF A])
        moreover have s2: "recvmbox (netconns s2 c) = Some mb'" "ntype (netconns s2 c) = ntype (netconns s c)" "last_err (netconns s2 c) = last_err (netconns s c)"
          "netbufs s2 x = \<lparr>nb_p = p, nb_ptr = p, nb_addr = addr, nb_port = port\<rparr>" "pb (arp s2) = ?b\<lparr>pools := st\<rparr>"
          by (simp_all add: s2_def s1_def add_avail_def set_pbs_def)
        moreover have "\<exists>s''. netconn_recv A W m c s2 = Inr ((ERR_OK, hd (received s2 c)), s'') \<and> received s'' c = tl (received s2 c)"
          if "ntype (netconns s c) \<noteq> NETCONN_TCP" "\<not> ERR_IS_FATAL (last_err (netconns s c))" "0 \<notin> set (received s2 c)"
          using that s2(1-3) by (intro netconn_recv_head [OF A conn(1) s2(1) mb'(2)]) (simp_all add: received_def mb'(3))
        ultimately show ?thesis using room run some(4)
          by (intro exI [of _ s2]) (auto simp: received_def conn(4) mb'(3) content_pools)
      qed
    qed
  qed
qed

theorem udp_datagram_witness:
  "\<exists>(A :: api_state api_env) s s'. length (content (pb (arp s)) [4102]) = 22 \<and> recv_bufsize (netconns s 500) = 10 \<and>
     recv_udp A 500 100 4102 0x0300a8c0 7 s = Inr s' \<and> released sample_slots (pb (arp s)) [4102] (pb (arp s'))"
proof -
  obtain b where b: "mem_ok sample_slots b" "packet b 4102 [4102]" "solid sample_slots b [4102]" "length (content b [4102]) = 22"
    using sample_ram by blast
  define A where "A = (undefined :: api_state api_env)\<lparr>event := (\<lambda>_ _ _ _ s. Inr s)\<rparr>"
  define mb where "mb = sys_mbox_new (\<lambda>_. 0)"
  define s where "s = (undefined :: api_state)\<lparr>netconns := (\<lambda>_. idle_netconn\<lparr>ntype := NETCONN_UDP, recvmbox := Some mb, recv_bufsize := 10\<rparr>),
    arp := (undefined :: arp_state)\<lparr>pb := b\<rparr>\<rparr>"
  have A: "no_event A" by (simp add: no_event_def A_def)
  have mb: "good_box 1 mb" by (simp add: mb_def good_box_def mbox_ok_def mbox_range_def sys_mbox_new_def)
  have s: "pb (arp s) = b" "npcb (netconns s 500) = 100" "recvmbox (netconns s 500) = Some mb" "recv_bufsize (netconns s 500) = 10" "recv_avail (netconns s 500) = 0"
    by (simp_all add: s_def idle_netconn_def)
  have "\<not> has_room sample_slots s 500 22" by (simp add: has_room_def s)
  then obtain s' where "recv_udp A 500 100 4102 0x0300a8c0 7 s = Inr s'" "released sample_slots (pb (arp s)) [4102] (pb (arp s'))"
    using udp_datagram_delivered [of sample_slots s 4102 "[4102]" 500 100 mb A "0x0300a8c0" 7] b A mb s by auto
  then show ?thesis using b(4) s(1,4) by blast
qed

section \<open>Errors\<close>

text \<open>Between two callbacks: who waits for an answer, and how.\<close>

definition conn_ok :: "netconn \<Rightarrow> bool" where
  "conn_ok n \<longleftrightarrow> (op_completed n = Some 0) \<and>
     (case nstate n of
        NETCONN_NONE \<Rightarrow> current_msg n = 0
      | NETCONN_LISTEN \<Rightarrow> current_msg n = 0
      | NETCONN_CONNECT \<Rightarrow> current_msg n \<noteq> 0 \<longleftrightarrow> \<not> IN_NONBLOCKING_CONNECT n
      | _ \<Rightarrow> current_msg n \<noteq> 0) \<and>
     (case recvmbox n of None \<Rightarrow> True | Some mb \<Rightarrow> good_box 1 mb) \<and> (case acceptmbox n of None \<Rightarrow> True | Some mb \<Rightarrow> good_box 1 mb)"

definition waiting_conns :: "'a api_like \<Rightarrow> nat \<Rightarrow> nat list" where
  "waiting_conns s c = (case acceptmbox (netconns s c) of None \<Rightarrow> [] | Some mb \<Rightarrow> mbox_queue mb)"

text \<open>A mailbox with a NULL message at its end, unless it is full.\<close>

definition woken :: "nat list \<Rightarrow> nat list" where
  "woken q = (if length q = 127 then q else q @ [0])"

lemma wake_recv:
  assumes ok: "\<And>mb. recvmbox (netconns s c) = Some mb \<Longrightarrow> good_box 1 mb"
  shows "\<exists>s' R. (if recvmbox (netconns s c) \<noteq> None then rbind (post_recv c 0 s) (\<lambda>(_, s). Inr s) else Inr s) = Inr s' \<and>
    netconns s' = (netconns s)(c := (netconns s c)\<lparr>recvmbox := R\<rparr>) \<and> api_msgs s' = api_msgs s \<and>
    received s' c = (if recvmbox (netconns s c) = None then [] else woken (received s c))"
proof (cases "recvmbox (netconns s c)")
  case (Some mb)
  then have "good_box 1 mb" by (rule ok)
  then show ?thesis using Some post_box_spec [of mb 0] by (auto simp: post_recv_def received_def woken_def split: if_splits)
next
  case None
  then have "(netconns s c)\<lparr>recvmbox := None\<rparr> = netconns s c" by (cases "netconns s c") simp
  then have "netconns s = (netconns s)(c := (netconns s c)\<lparr>recvmbox := None\<rparr>)" by (simp only: fun_upd_triv)
  with None show ?thesis unfolding received_def by (intro exI [of _ s] exI [of _ None] conjI) simp_all
qed

lemma wake_accept:
  assumes ok: "\<And>mb. acceptmbox (netconns s c) = Some mb \<Longrightarrow> good_box 1 mb"
  shows "\<exists>s' W. (if acceptmbox (netconns s c) \<noteq> None then rbind (post_accept c 0 s) (\<lambda>(_, s). Inr s) else Inr s) = Inr s' \<and>
    netconns s' = (netconns s)(c := (netconns s c)\<lparr>acceptmbox := W\<rparr>) \<and> api_msgs s' = api_msgs s \<and>
    waiting_conns s' c = (if acceptmbox (netconns s c) = None then [] else woken (waiting_conns s c))"
proof (cases "acceptmbox (netconns s c)")
  case (Some mb)
  then have "good_box 1 mb" by (rule ok)
  then show ?thesis using Some post_box_spec [of mb 0] by (auto simp: post_accept_def waiting_conns_def woken_def split: if_splits)
next
  case None
  then have "(netconns s c)\<lparr>acceptmbox := None\<rparr> = netconns s c" by (cases "netconns s c") simp
  then have "netconns s = (netconns s)(c := (netconns s c)\<lparr>acceptmbox := None\<rparr>)" by (simp only: fun_upd_triv)
  with None show ?thesis unfolding waiting_conns_def by (intro exI [of _ s] exI [of _ None] conjI) simp_all
qed

text \<open>
  C34. When the stack reports a fatal error on a connection, everybody who waits for it is woken: a thread that receives or accepts finds a NULL message, a request
  that is pending is answered with the error exactly once, and no request is answered that is not pending. The one request that stays without
  an answer is a write or a close that is pending while the connection still has the mark of a connect that does not block.
\<close>

theorem error_callback_correct:
  assumes A: "no_event A" and c: "c \<noteq> 0" "conn_ok (netconns s c)"
  defines "n \<equiv> netconns s c"
  defines "answered \<equiv> current_msg n \<noteq> 0 \<and> \<not> IN_NONBLOCKING_CONNECT n" and "lost \<equiv> current_msg n \<noteq> 0 \<and> IN_NONBLOCKING_CONNECT n"
  shows "\<exists>s'. err_tcp A c err s = Inr s' \<and> nstate (netconns s' c) = NETCONN_NONE \<and> npcb (netconns s' c) = 0 \<and> last_err (netconns s' c) = err \<and>
    received s' c = (if recvmbox n = None then [] else woken (received s c)) \<and>
    waiting_conns s' c = (if acceptmbox n = None then [] else woken (waiting_conns s c)) \<and>
    op_completed (netconns s' c) = Some (if answered then 1 else 0) \<and>
    current_msg (netconns s' c) = (if lost then current_msg n else 0) \<and>
    api_msgs s' = (if answered then (api_msgs s)(current_msg n := (api_msgs s (current_msg n))\<lparr>merr := err\<rparr>) else api_msgs s) \<and>
    (lost \<longrightarrow> nstate n \<in> {NETCONN_WRITE, NETCONN_CLOSE}) \<and> (\<forall>d. d \<noteq> c \<longrightarrow> netconns s' d = netconns s d)"
proof -
  define s1 where "s1 = set_conn c (\<lambda>n. n\<lparr>npcb := 0, last_err := err, nstate := NETCONN_NONE\<rparr>) s"
  have box: "\<And>mb. recvmbox n = Some mb \<Longrightarrow> good_box 1 mb" "\<And>mb. acceptmbox n = Some mb \<Longrightarrow> good_box 1 mb"
    using c(2) by (auto simp: conn_ok_def n_def)
  have n1: "netconns s1 = (netconns s)(c := n\<lparr>npcb := 0, last_err := err, nstate := NETCONN_NONE\<rparr>)" "api_msgs s1 = api_msgs s"
    by (simp_all add: s1_def n_def)
  obtain s2 R where s2: "(if recvmbox (netconns s1 c) \<noteq> None then rbind (post_recv c 0 s1) (\<lambda>(_, s). Inr s) else Inr s1) = Inr s2"
      "netconns s2 = (netconns s1)(c := (netconns s1 c)\<lparr>recvmbox := R\<rparr>)" "api_msgs s2 = api_msgs s"
      "received s2 c = (if recvmbox n = None then [] else woken (received s1 c))"
    using wake_recv [of s1 c] box(1) by (auto simp: n1)
  have a2: "acceptmbox (netconns s2 c) = acceptmbox n" by (simp add: s2(2) n1)
  obtain s3 W where s3: "(if acceptmbox (netconns s2 c) \<noteq> None then rbind (post_accept c 0 s2) (\<lambda>(_, s). Inr s) else Inr s2) = Inr s3"
      "netconns s3 = (netconns s2)(c := (netconns s2 c)\<lparr>acceptmbox := W\<rparr>)" "api_msgs s3 = api_msgs s"
      "waiting_conns s3 c = (if acceptmbox n = None then [] else woken (waiting_conns s2 c))"
    using wake_accept [of s2 c] box(2) s2(3) by (auto simp: a2)
  have n3: "netconns s3 = (netconns s)(c := n\<lparr>npcb := 0, last_err := err, nstate := NETCONN_NONE, recvmbox := R, acceptmbox := W\<rparr>)"
    by (simp add: s3(2) s2(2) n1)
  have "received s3 c = received s2 c" "received s1 c = received s c" "waiting_conns s2 c = waiting_conns s c"
    by (simp_all add: received_def waiting_conns_def s3(2) s2(2) n1 n_def)
  then have boxes: "received s3 c = (if recvmbox n = None then [] else woken (received s c))"
    "waiting_conns s3 c = (if acceptmbox n = None then [] else woken (waiting_conns s c))"
    using s2(4) s3(4) by simp_all
  have "err_tcp A c err s =
     (if nstate n = NETCONN_WRITE \<or> nstate n = NETCONN_CLOSE \<or> nstate n = NETCONN_CONNECT
      then
        let was_nonblocking_connect = IN_NONBLOCKING_CONNECT (netconns s3 c); s = SET_NONBLOCKING_CONNECT c False s3 in
          if \<not> was_nonblocking_connect
          then if current_msg (netconns s c) = 0 then Inl Abort
            else signal_completed c (set_conn c (\<lambda>n. n\<lparr>current_msg := 0\<rparr>)
                    (set_msg (current_msg (netconns s c)) (\<lambda>m. m\<lparr>merr := err\<rparr>) s))
          else Inr s
      else if current_msg (netconns s3 c) \<noteq> 0 then Inl Abort else Inr s3)"
    unfolding err_tcp_def Let_def n_def [symmetric]
    by (simp only: c(1) if_False API_EVENT_none [OF A] rbind_Inr n_def [symmetric] s1_def [symmetric] s2(1) s3(1))
  note run = this [unfolded SET_NONBLOCKING_CONNECT_def Let_def]
  have f: "IN_NONBLOCKING_CONNECT (netconns s3 c) = IN_NONBLOCKING_CONNECT n" "op_completed n = Some 0" by (use c(2) in \<open>simp_all add: n3 nflag_def conn_ok_def n_def\<close>)
  consider (none) "nstate n \<in> {NETCONN_NONE, NETCONN_LISTEN}" "current_msg n = 0"
    | (lost) "nstate n \<in> {NETCONN_WRITE, NETCONN_CLOSE}" "current_msg n \<noteq> 0" "IN_NONBLOCKING_CONNECT n"
    | (quiet) "nstate n = NETCONN_CONNECT" "current_msg n = 0" "IN_NONBLOCKING_CONNECT n"
    | (answer) "nstate n \<in> {NETCONN_WRITE, NETCONN_CLOSE, NETCONN_CONNECT}" "current_msg n \<noteq> 0" "\<not> IN_NONBLOCKING_CONNECT n"
    using c(2) by (cases "nstate n") (auto simp: conn_ok_def n_def)
  then show ?thesis
  proof cases
    case none
    then show ?thesis using boxes f s3(3) by (auto simp: run n3 answered_def lost_def)
  next
    case lost
    then show ?thesis using boxes f s3(3) by (auto simp: run n3 answered_def lost_def received_def waiting_conns_def)
  next
    case quiet
    then show ?thesis using boxes f s3(3) by (auto simp: run n3 answered_def lost_def received_def waiting_conns_def)
  next
    case answer
    then show ?thesis using boxes f s3(3)
      by (auto simp: run n3 answered_def lost_def received_def waiting_conns_def signal_completed_def sys_sem_signal_def n_def [symmetric])
  qed
qed

theorem error_callback_witness:
  "\<exists>(A :: api_state api_env) s s'. err_tcp A 500 ERR_RST s = Inr s' \<and> nstate (netconns s 500) = NETCONN_WRITE \<and> current_msg (netconns s 500) = 600 \<and>
     op_completed (netconns s' 500) = Some 1 \<and> merr (api_msgs s' 600) = ERR_RST \<and> received s' 500 = [0]"
proof -
  define A where "A = (undefined :: api_state api_env)\<lparr>event := (\<lambda>_ _ _ _ s. Inr s)\<rparr>"
  define mb where "mb = sys_mbox_new (\<lambda>_. 0)"
  define s where "s = (undefined :: api_state)\<lparr>
    netconns := (\<lambda>_. idle_netconn\<lparr>nstate := NETCONN_WRITE, current_msg := 600, recvmbox := Some mb\<rparr>), api_msgs := (\<lambda>_. idle_msg)\<rparr>"
  have A: "no_event A" by (simp add: no_event_def A_def)
  have mb: "good_box 1 mb" "mbox_queue mb = []" by (simp_all add: mb_def good_box_def mbox_ok_def mbox_range_def sys_mbox_new_def mbox_queue_def)
  have s: "netconns s 500 = idle_netconn\<lparr>nstate := NETCONN_WRITE, current_msg := 600, recvmbox := Some mb\<rparr>" by (simp add: s_def)
  have n: "conn_ok (netconns s 500)" "\<not> IN_NONBLOCKING_CONNECT (netconns s 500)" "current_msg (netconns s 500) = 600"
      "nstate (netconns s 500) = NETCONN_WRITE" "recvmbox (netconns s 500) = Some mb" "received s 500 = []"
    by (simp_all add: s idle_netconn_def conn_ok_def nflag_def mb received_def)
  obtain s' where "err_tcp A 500 ERR_RST s = Inr s'" "op_completed (netconns s' 500) = Some 1"
      "api_msgs s' = (api_msgs s)(600 := (api_msgs s 600)\<lparr>merr := ERR_RST\<rparr>)" "received s' 500 = woken []"
    using error_callback_correct [OF A _ n(1), of ERR_RST] by (auto simp: n)
  then show ?thesis using n(3,4) by (intro exI [of _ A] exI [of _ s] exI [of _ s']) (simp add: woken_def)
qed

section \<open>Packets in parts\<close>

text \<open>How an application reads a netbuf: part by part, until there is no next one.\<close>

primrec read_parts :: "nat \<Rightarrow> nat \<Rightarrow> 'a netbuf_like \<Rightarrow> ((nat \<times> nat) list \<times> 'a netbuf_like) res" where
  "read_parts 0 buf s = Inl No_Fuel"
| "read_parts (Suc fuel) buf s =
     rbind (netbuf_data buf s) (\<lambda>(_, d).
     rbind (netbuf_next buf s) (\<lambda>(r, s).
       if r < 0 then Inr ([the d], s) else rbind (read_parts fuel buf s) (\<lambda>(ds, s). Inr (the d # ds, s))))"

lemma read_parts_chain:
  assumes "buf \<noteq> 0" "linked (\<lambda>q. pnext (the_pbuf s q)) (nb_ptr (netbufs s buf)) ps" "ps \<noteq> []" "length ps \<le> n"
  shows "\<exists>s'. read_parts n buf s = Inr (map (\<lambda>q. (payload (the_pbuf s q), plen (the_pbuf s q))) ps, s') \<and> arp s' = arp s \<and>
    nb_p (netbufs s' buf) = nb_p (netbufs s buf)"
  using assms
proof (induction ps arbitrary: s n)
  case (Cons q qs)
  obtain k where n: "n = Suc k" using Cons.prems(4) by (cases n) auto
  have q: "nb_ptr (netbufs s buf) = q" "q \<noteq> 0" "linked (\<lambda>q. pnext (the_pbuf s q)) (pnext (the_pbuf s q)) qs" using Cons.prems(2) by auto
  show ?case
  proof (cases qs)
    case Nil
    then show ?thesis using q Cons.prems(1) n by (simp add: netbuf_data_def netbuf_next_def)
  next
    case (Cons r rs)
    let ?s = "set_netbuf buf (\<lambda>b. b\<lparr>nb_ptr := pnext (the_pbuf s (nb_ptr b))\<rparr>) s"
    have t: "the_pbuf ?s = the_pbuf s" by (simp add: the_pbuf_def fun_eq_iff)
    have "pnext (the_pbuf s q) \<noteq> 0" using q(3) Cons by simp
    then have step: "\<exists>v. v \<ge> 0 \<and> netbuf_next buf s = Inr (v, ?s)" using q Cons.prems(1) by (simp add: netbuf_next_def t)
    obtain s' where "read_parts k buf ?s = Inr (map (\<lambda>q. (payload (the_pbuf s q), plen (the_pbuf s q))) qs, s')" "arp s' = arp s"
      "nb_p (netbufs s' buf) = nb_p (netbufs s buf)"
      using Cons.IH [of ?s k] q(1,3) Cons n Cons.prems(1,4) by (auto simp: t)
    moreover obtain v where "v \<ge> 0" "netbuf_next buf s = Inr (v, ?s)" using step by blast
    ultimately show ?thesis using q(1,2) Cons.prems(1) n by (simp add: netbuf_data_def)
  qed
qed simp

text \<open>
  Reading a netbuf from its first part, part by part, ends after all parts, and the parts are the bytes of the packet, in order; the packet itself does not change.
\<close>

theorem netbuf_walk_correct:
  assumes "buf \<noteq> 0" "packet (pb (arp s)) (nb_p (netbufs s buf)) ps"
  shows "\<exists>parts s'. rbind (netbuf_first buf s) (read_parts (length ps) buf) = Inr (parts, s') \<and> arp s' = arp s \<and>
    concat (map (\<lambda>(a, n). read_bytes (bytes (pb (arp s))) a n) parts) = content (pb (arp s)) ps \<and> netbuf_len buf s = length (content (pb (arp s)) ps)"
proof -
  let ?s = "set_netbuf buf (\<lambda>b. b\<lparr>nb_ptr := nb_p b\<rparr>) s"
  have t: "the_pbuf ?s = the_pbuf s" by (simp add: the_pbuf_def fun_eq_iff)
  have "linked (\<lambda>q. pnext (the_pbuf s q)) (nb_p (netbufs s buf)) ps" "ps \<noteq> []" using assms(2) by (auto simp: packet_def chain_def the_pbuf_def)
  then obtain s' where "read_parts (length ps) buf ?s = Inr (map (\<lambda>q. (payload (the_pbuf s q), plen (the_pbuf s q))) ps, s')" "arp s' = arp s"
    using read_parts_chain [of buf ?s ps "length ps"] assms(1) by (auto simp: t)
  moreover have "netbuf_len buf s = length (content (pb (arp s)) ps)"
    using assms(2) by (cases ps) (auto simp: netbuf_len_def packet_def chain_def the_pbuf_def)
  ultimately show ?thesis
    using assms(1) by (auto simp: netbuf_first_def content_def pbuf_data_def [abs_def] the_pbuf_def o_def)
qed

theorem netbuf_walk_witness:
  "\<exists>(s :: api_state) parts s'. pb (arp s) = sample \<and> rbind (netbuf_first 300 s) (read_parts 2 300) = Inr (parts, s') \<and>
     concat (map (\<lambda>(a, n). read_bytes (bytes sample) a n) parts) = [97, 97, 97, 98]"
proof -
  define s where "s = (undefined :: api_state)\<lparr>netbufs := (\<lambda>_. \<lparr>nb_p = 1000, nb_ptr = 0, nb_addr = 0, nb_port = 0\<rparr>), arp := (undefined :: arp_state)\<lparr>pb := sample\<rparr>\<rparr>"
  have s: "pb (arp s) = sample" "nb_p (netbufs s 300) = 1000" by (simp_all add: s_def)
  have two: "length [1000, 2000 :: nat] = 2" by simp
  obtain parts s' where "rbind (netbuf_first 300 s) (read_parts 2 300) = Inr (parts, s')"
    "concat (map (\<lambda>(a, n). read_bytes (bytes sample) a n) parts) = content sample [1000, 2000]"
    using netbuf_walk_correct [of 300 s "[1000, 2000]", unfolded two s] sample_packet(1) by auto
  then show ?thesis using s(1) sample_packet(2) by metis
qed

text \<open>
  When \<^verbatim>\<open>netbuf_alloc\<close> finds no memory, the netbuf has lost its packet but keeps the pointer to the current part: the application is told that
  there is data, in a pbuf that is released.
\<close>

theorem netbuf_alloc_dangles:
  assumes "buf \<noteq> 0" "nb_p (netbufs s buf) = p" "nb_ptr (netbufs s buf) = p" "p \<noteq> 0"
    and "release_pbuf p s = Inr s1" "on_pbs (pbuf_alloc PBUF_TRANSPORT (unat sz) PBUF_RAM) s1 = Inr (0, s2)"
  shows "\<exists>s'. netbuf_alloc buf sz s = Inr (0, s') \<and> nb_p (netbufs s' buf) = 0 \<and>
    netbuf_data buf s' = Inr (ERR_OK, Some (payload (the_pbuf s2 p), plen (the_pbuf s2 p)))"
proof -
  have "netbufs s1 = netbufs s" using assms(5) by (auto simp: release_pbuf_def on_arp_def rbind_def set_arp_def split: sum.splits)
  moreover have "netbufs s2 = netbufs s1" using assms(6) by (auto simp: on_pbs_def rbind_def set_arp_def split: sum.splits)
  ultimately show ?thesis using assms by (simp add: netbuf_alloc_def netbuf_data_def the_pbuf_def)
qed

end
