(* ===== verification/Tcpip_Life.thy ===== *)
theory Tcpip_Life
  imports Tcpip Netconn_Life
begin

text \<open>
  What the TCP/IP thread guarantees to the threads that send it messages: a function it is asked to call is called once, and the request for a name
  is answered, unless it gets lost.
\<close>

section \<open>Fields\<close>

lemma tcpip_fields [simp]:
  "dns_msgs (set_dns_msg m f s) = (dns_msgs s)(m := f (dns_msgs s m))" "arp (set_dns_msg m f s) = arp s" "timeouts (set_dns_msg m f s) = timeouts s"
  "tcpip_msgs (set_dns_msg m f s) = tcpip_msgs s" "dns_pcb (set_dns_msg m f s) = dns_pcb s"
  "tcpip_msgs (set_tcpip_msg x t s) = (tcpip_msgs s)(x := t)" "dns_msgs (set_tcpip_msg x t s) = dns_msgs s" "arp (set_tcpip_msg x t s) = arp s"
  "timeouts (set_tcpip_msg x t s) = timeouts s" "dns_pcb (set_tcpip_msg x t s) = dns_pcb s"
  by (simp_all add: set_dns_msg_def set_tcpip_msg_def)

lemma tcpip_arp_fields [simp]:
  "dns_msgs (set_arp a s) = dns_msgs s" "tcpip_msgs (set_arp a s) = tcpip_msgs s" "timeouts (set_arp a s) = timeouts s" "dns_pcb (set_arp a s) = dns_pcb s"
  by (simp_all add: set_arp_def)

lemma set_box_fields [simp]:
  "dns_msgs (set_box mb s) = dns_msgs s" "tcpip_msgs (set_box mb s) = tcpip_msgs s" "timeouts (set_box mb s) = timeouts s" "dns_pcb (set_box mb s) = dns_pcb s"
  "tcpip_mbox (pb (arp (set_box mb s))) = Some mb" "pools (pb (arp (set_box mb s))) = pools (pb (arp s))"
  by (simp_all add: set_box_def set_pbs_def)

lemma pool_put_tcpip [simp]:
  "dns_msgs (pool_put i x s) = dns_msgs s" "pools (pb (arp (pool_put i x s))) = memp_free i x (pools (pb (arp s)))"
  "tcpip_mbox (pb (arp (pool_put i x s))) = tcpip_mbox (pb (arp s))" "tcpip_msgs (pool_put i x s) = tcpip_msgs s"
  by (simp_all add: pool_put_def set_pbs_def)

lemma lookup_same:
  assumes "dns_table s' = dns_table s" "lhosts s' = lhosts s" "local_hostlist_dynamic s' = local_hostlist_dynamic s"
  shows "dns_lookup nm s' = dns_lookup nm s"
  by (simp only: dns_lookup_def dns_lookup_local_def assms)

lemma lookup_fields [simp]:
  "dns_lookup nm (set_arp a s) = dns_lookup nm s" "dns_lookup nm (set_box mb s) = dns_lookup nm s"
  "dns_lookup nm (set_dns_msg m f s) = dns_lookup nm s" "dns_lookup nm (set_tcpip_msg x t s) = dns_lookup nm s"
  by (rule lookup_same; simp add: set_box_def set_arp_def set_dns_msg_def set_tcpip_msg_def)+

section \<open>The mailbox of the thread\<close>

lemma try_post_spec:
  assumes "good_box 1 mb"
  shows "if length (mbox_queue mb) = 127 then try_post x mb s = Inr (ERR_MEM, set_box mb s)
    else \<exists>mb'. try_post x mb s = Inr (ERR_OK, set_box mb' s) \<and> good_box 0 mb' \<and> mbox_queue mb' = mbox_queue mb @ [x]"
  using post_box_spec [OF assms, of x] by (auto simp: try_post_def post_box_def split: option.splits if_splits)

lemma post_round_spec:
  assumes mb: "good_box 1 mb" "tcpip_mbox (pb (arp s)) = Some mb" and room: "length (mbox_queue mb) < 127"
  shows "\<exists>mb'. post_round False x s = Inr (True, set_box mb' s) \<and> good_box 0 mb' \<and> mbox_queue mb' = mbox_queue mb @ [x]"
proof -
  have ok: "mbox_ok mb" and range: "mb_last mb + 1 + 128 < 2147483648" "wait_send mb + 1 < 2147483648"
    using mb(1) by (auto simp: good_box_def mbox_range_def)
  have mt: "mutex mb = 1" using ok by (rule mbox_ok_mutex)
  have full: "mbox_full mb = Inr False"
    using ok range room by (auto simp: mbox_full_def mbox_queue_length mbox_ok_def)
  obtain m' where m': "mbox_enqueue x mb = Inr m'" "mb_last m' = mb_last mb + 1" "wait_send m' = wait_send mb"
    using range by (auto simp: mbox_enqueue_def int_incr_def Let_def)
  have e: "put_effect x mb m'" "mutex m' = 1" using put_effect_enqueue [OF ok _ m'(1)] full mt by auto
  have "sys_mbox_post False x mb = Some (Inr (True, m'))"
    unfolding sys_mbox_post_def mutex_cases [OF mt] using full m'(1) e(2) by (simp add: mbox_enqueue_mutex Let_def)
  moreover have "good_box 0 m'" using e(1) m'(2,3) range by (simp add: good_box_def put_effect_def mbox_range_def)
  ultimately show ?thesis using mb(2) e(1) by (auto simp: post_round_def put_effect_def)
qed

lemma take_message_spec:
  assumes "tcpip_mbox (pb (arp s)) = Some mb" "good_box 0 mb" "mbox_queue mb = x # q"
  shows "\<exists>mb'. take_message s = Inr (Some x, set_box mb' s) \<and> mbox_queue mb' = q"
  using fetch_box_spec [OF assms(2,3)] assms(1) by (auto simp: take_message_def fetch_box_def split: option.splits)

section \<open>Functions to be called\<close>


text \<open>A stack whose pools are all free.\<close>

lemma sample_unused: "memp_ok sample_slots (pools sample)" "taken sample_slots (pools sample) i = {}"
  using memp_init_all_free [of "\<lambda>_. 1102" 65536 "\<lambda>_. 0"] by (simp_all add: sample_def taken_def)

definition idle_stack :: tcpip_state where
  "idle_stack = (undefined :: tcpip_state)\<lparr>arp := (undefined :: arp_state)\<lparr>pb := sample\<lparr>tcpip_mbox := Some (sys_mbox_new (\<lambda>_. 0))\<rparr>\<rparr>, dns_pcb := 100,
     timeouts := (undefined :: timers)\<lparr>next_timeout := 0\<rparr>\<rparr>"

lemma idle_stack_fields:
  "pools (pb (arp idle_stack)) = pools sample" "tcpip_mbox (pb (arp idle_stack)) = Some (sys_mbox_new (\<lambda>_. 0))" "dns_pcb idle_stack = 100"
  "next_timeout (timeouts idle_stack) = 0"
  by (simp_all add: idle_stack_def)

lemma new_box: "good_box 1 (sys_mbox_new j)" "mbox_queue (sys_mbox_new j) = []"
  by (simp_all add: good_box_def mbox_ok_def mbox_range_def sys_mbox_new_def mbox_queue_def)


section \<open>Names\<close>

text \<open>The address of a name that needs no query: it is written with digits and dots, or it is in one of the tables.\<close>

definition known_name :: "bytes \<Rightarrow> u32 \<Rightarrow> 'a dns_like \<Rightarrow> bool" where
  "known_name nm ip s \<longleftrightarrow> dns_pcb s \<noteq> 0 \<and> nm \<noteq> [] \<and> length nm < 256 \<and> ip \<noteq> IPADDR_NONE \<and>
     (if ipaddr_addr (characters nm) = IPADDR_NONE then dns_lookup nm s = Inr ip else ipaddr_addr (characters nm) = ip)"





end
